(* ===== verification/Prelude.thy ===== *)
theory Prelude imports Main "HOL-Library.Word" "HOL-Library.Signed_Division" begin

text \<open>
  Shared vocabulary of the kernel model: machine integer types, the result type of a kernel
  path, its sequencing operator, and the generic lemmas the component theories use.

  A kernel function that may stop is modelled by a function into \<open>'a kres\<close>. The left
  summand says why control does not come back to the caller on this path: \<open>Panic\<close> is a
  call of \<open>panic()\<close> (kernel/panic.c halts the machine), \<open>Sleep\<close> is a
  \<open>sleep_on()\<close> or \<open>schedule()\<close> that gives the processor away (the sequential model
  stops there), \<open>Wild\<close> is an access through a null pointer or outside an array (undefined in
  C), \<open>Deep\<close> is a recursion that exceeds the depth the model allows for the kernel stack,
  \<open>Hang\<close> is a loop only an interrupt or another task can end and
  \<open>Exits\<close> is a \<open>do_exit()\<close> of the running task, which does not return.
  The right summand is the value returned together with the new state.
\<close>

unbundle bit_operations_syntax

type_synonym u8 = "8 word"
type_synonym u16 = "16 word"
type_synonym u32 = "32 word"

datatype stop = Panic string | Sleep | Wild string | Deep | Hang | Exits u32

type_synonym 'a kres = "stop + 'a"

named_theorems kdefs \<open>unfolding equations of the model's operations\<close>

section \<open>Sequencing of kernel operations\<close>

definition bindk :: "'a kres \<Rightarrow> ('a \<Rightarrow> 'b kres) \<Rightarrow> 'b kres" where
  "bindk m f = (case m of Inl e \<Rightarrow> Inl e | Inr x \<Rightarrow> f x)"

lemma bindk_Inl [simp]: "bindk (Inl e) f = Inl e"
  by (simp add: bindk_def)

lemma bindk_Inr [simp]: "bindk (Inr x) f = f x"
  by (simp add: bindk_def)

lemma bindk_cong [fundef_cong]:
  "m = m' \<Longrightarrow> (\<And>x. m' = Inr x \<Longrightarrow> f x = g x) \<Longrightarrow> bindk m f = bindk m' g"
  by (auto simp: bindk_def split: sum.splits)

lemma bindk_eq_Inr [simp]:
  "bindk m f = Inr y \<longleftrightarrow> (\<exists>x. m = Inr x \<and> f x = Inr y)"
  by (cases m) auto

lemma bindk_eq_Inl:
  "bindk m f = Inl e \<longleftrightarrow> m = Inl e \<or> (\<exists>x. m = Inr x \<and> f x = Inl e)"
  by (cases m) auto

lemma bindk_assoc: "bindk (bindk m f) g = bindk m (\<lambda>x. bindk (f x) g)"
  by (cases m) simp_all

lemma bindk_Inr_right [simp]: "bindk m Inr = m"
  by (cases m) simp_all

lemma bindk_InrE:
  assumes "bindk m f = Inr y"
  obtains x where "m = Inr x" "f x = Inr y"
  using assms by auto

section \<open>Truth values and signed views of machine integers\<close>

text \<open>An error number as the kernel returns it: \<open>-EXXX\<close> as a 32 bit word.\<close>

definition neg_errno :: "nat \<Rightarrow> u32" where
  "neg_errno e = word_of_int (- int e)"

lemma sint_neg_errno:
  assumes "e < 1000"
  shows "sint (neg_errno e) = - int e"
proof -
  have "signed_take_bit 31 (- int e) = - int e"
    using assms by (intro signed_take_bit_int_eq_self) auto
  then show ?thesis
    by (simp only: neg_errno_def signed_of_int) simp
qed

lemma neg_errno_neg: "0 < e \<Longrightarrow> e < 1000 \<Longrightarrow> neg_errno e <s 0"
  by (simp add: word_sless_alt sint_neg_errno)

lemma sint_small:
  assumes "unat (x :: u32) < 2 ^ 31"
  shows "sint x = int (unat x)"
proof -
  obtain m where m: "unat x = m" by blast
  have "signed_take_bit 31 (int m) = int m"
    by (rule signed_take_bit_int_eq_self) (use m assms in simp_all)
  moreover have "int (unat x) = int m" by (simp only: m)
  ultimately show ?thesis by (simp add: sint_uint)
qed

lemma sless_small: "unat (x :: u32) < 2 ^ 31 \<Longrightarrow> unat y < 2 ^ 31 \<Longrightarrow> x <s y \<longleftrightarrow> unat x < unat y"
  using sint_small [of x] sint_small [of y] by (simp only: word_sless_alt of_nat_less_iff)

lemma sle_small: "unat (x :: u32) < 2 ^ 31 \<Longrightarrow> unat y < 2 ^ 31 \<Longrightarrow> x \<le>s y \<longleftrightarrow> unat x \<le> unat y"
  using sint_small [of x] sint_small [of y] by (simp only: word_sle_eq of_nat_le_iff)

end
