(* ===== verification/Memory.thy ===== *)
theory Memory imports Prelude begin

text \<open>
  The memory manager, mm/memory.c: the byte map of page frames (\<open>mem_map\<close>), the page
  allocator, the page tables, fork's copy of them, copy on write and page sharing.

  Physical memory is a function from addresses to the 32 bit word stored there; the code reads
  and writes page tables through aligned \<open>unsigned long *\<close>, and the page directory lies at
  physical address 0. The byte map is total on \<open>nat\<close>; every write of the code outside its
  \<open>PAGING_PAGES\<close> entries is the stop value \<open>Wild\<close>. \<open>invalidate()\<close> (reload
  of cr3) and \<open>printk\<close> have no effect on this state.
\<close>

section \<open>State\<close>

definition LOW_MEM :: u32 where "LOW_MEM = 0x100000"
definition PAGING_PAGES :: nat where "PAGING_PAGES = 3840"
definition USED :: u8 where "USED = 100"
definition SIGSEGV :: u32 where "SIGSEGV = 11"

definition MAP_NR :: "u32 \<Rightarrow> nat" where
  "MAP_NR addr = unat (drop_bit 12 (addr - LOW_MEM))"

record mm =
  pmem :: "u32 \<Rightarrow> u32"
  mem_map :: "nat \<Rightarrow> u8"
  HIGH_MEMORY :: u32

definition store :: "u32 \<Rightarrow> u32 \<Rightarrow> mm \<Rightarrow> mm" where
  "store a v s = s\<lparr>pmem := (pmem s)(a := v)\<rparr>"

definition map_set :: "nat \<Rightarrow> u8 \<Rightarrow> mm \<Rightarrow> mm" where
  "map_set i v s = s\<lparr>mem_map := (mem_map s)(i := v)\<rparr>"

definition map_check :: "nat \<Rightarrow> mm \<Rightarrow> mm kres" where
  "map_check i s = (if i < PAGING_PAGES then Inr s else Inl (Wild ''mem_map''))"

definition oom :: "'a kres" where
  "oom = Inl (Exits SIGSEGV)"

text \<open>The page an address lies in, an entry without its write bit, and the two block moves the assembly does on whole pages.\<close>

definition frame :: "u32 \<Rightarrow> u32" where
  "frame a = a AND 0xfffff000"

definition wp :: "u32 \<Rightarrow> u32" where
  "wp e = e AND NOT 2"

definition clear_page :: "u32 \<Rightarrow> mm \<Rightarrow> mm" where
  "clear_page p s = s\<lparr>pmem := (\<lambda>a. if frame a = p then 0 else pmem s a)\<rparr>"

definition copy_page :: "u32 \<Rightarrow> u32 \<Rightarrow> mm \<Rightarrow> mm" where
  "copy_page src dst s =
     s\<lparr>pmem := (\<lambda>a. if frame a = dst then pmem s (src + (a AND 0xfff)) else pmem s a)\<rparr>"

section \<open>Page frames\<close>

text \<open>The backwards \<open>repne scasb\<close> over \<open>mem_map\<close>: the highest entry that is 0.\<close>

fun scan_free :: "nat \<Rightarrow> (nat \<Rightarrow> u8) \<Rightarrow> nat option" where
  "scan_free 0 m = None"
| "scan_free (Suc n) m = (if m n = 0 then Some n else scan_free n m)"

definition get_free_page :: "mm \<Rightarrow> u32 \<times> mm" where
  "get_free_page s =
     (case scan_free PAGING_PAGES (mem_map s) of
        None \<Rightarrow> (0, s)
      | Some i \<Rightarrow>
          let page = push_bit 12 (of_nat i) + LOW_MEM
          in (page, clear_page page (map_set i 1 s)))"

definition free_page :: "u32 \<Rightarrow> mm \<Rightarrow> mm kres" where
  "free_page addr s =
     (if addr < LOW_MEM then Inr s
      else if HIGH_MEMORY s \<le> addr then Inl (Panic ''trying to free nonexistent page'')
      else let i = MAP_NR addr in
        bindk (map_check i s) (\<lambda>s.
          if mem_map s i \<noteq> 0 then Inr (map_set i (mem_map s i - 1) s)
          else Inl (Panic ''trying to free free page'')))"

text \<open>
  \<open>mem_init\<close> shifts signed longs; its second loop writes the \<open>n\<close> entries from
  \<open>MAP_NR(start_mem)\<close> on.
\<close>

definition mem_init :: "u32 \<Rightarrow> u32 \<Rightarrow> mm \<Rightarrow> mm kres" where
  "mem_init start_mem end_mem s =
     (let first = sint (signed_drop_bit 12 (start_mem - LOW_MEM));
          n = sint (signed_drop_bit 12 (end_mem - start_mem))
      in if 0 < n \<and> (first < 0 \<or> int PAGING_PAGES < first + n) then Inl (Wild ''mem_map'')
         else Inr (s\<lparr>HIGH_MEMORY := end_mem,
           mem_map := (\<lambda>i. if first \<le> int i \<and> int i < first + n then 0
                            else if i < PAGING_PAGES then USED else mem_map s i)\<rparr>))"

text \<open>The two counts \<open>calc_mem\<close> prints: free page frames, present entries of a table.\<close>

definition calc_free :: "mm \<Rightarrow> nat" where
  "calc_free s = length (filter (\<lambda>i. mem_map s i = 0) [0..<PAGING_PAGES])"

definition calc_dir_pages :: "nat \<Rightarrow> mm \<Rightarrow> nat option" where
  "calc_dir_pages i s =
     (let d = pmem s (4 * of_nat i) in
      if 1 AND d \<noteq> 0
      then Some (length (filter (\<lambda>j. pmem s (frame d + 4 * of_nat j) AND 1 \<noteq> 0) [0..<1024]))
      else None)"

section \<open>Page tables\<close>

definition present :: "u32 \<Rightarrow> bool" where
  "present e \<longleftrightarrow> 1 AND e \<noteq> 0"

text \<open>The address of the page directory entry of a linear address, \<open>_pg_dir\<close> being 0.\<close>

definition dir_entry :: "u32 \<Rightarrow> u32" where
  "dir_entry address = drop_bit 20 address AND 0xffc"

fun free_ptes :: "nat \<Rightarrow> u32 \<Rightarrow> mm \<Rightarrow> mm kres" where
  "free_ptes 0 pg_table s = Inr s"
| "free_ptes (Suc n) pg_table s =
     bindk (if present (pmem s pg_table) then free_page (frame (pmem s pg_table)) s
            else Inr s)
       (\<lambda>s. free_ptes n (pg_table + 4) (store pg_table 0 s))"

fun free_dirs :: "nat \<Rightarrow> u32 \<Rightarrow> mm \<Rightarrow> mm kres" where
  "free_dirs 0 dir s = Inr s"
| "free_dirs (Suc n) dir s =
     (if \<not> present (pmem s dir) then free_dirs n (dir + 4) s
      else bindk (free_ptes 1024 (frame (pmem s dir)) s)
        (\<lambda>s. bindk (free_page (frame (pmem s dir)) s)
          (\<lambda>s. free_dirs n (dir + 4) (store dir 0 s))))"

definition free_page_tables :: "u32 \<Rightarrow> u32 \<Rightarrow> mm \<Rightarrow> (u32 \<times> mm) kres" where
  "free_page_tables from sz s =
     (if from AND 0x3fffff \<noteq> 0 then Inl (Panic ''free_page_tables called with wrong alignment'')
      else if from = 0 then Inl (Panic ''Trying to free up swapper memory space'')
      else bindk (free_dirs (unat (drop_bit 22 (sz + 0x3fffff))) (dir_entry from) s)
        (\<lambda>s. Inr (0, s)))"

fun copy_ptes :: "nat \<Rightarrow> u32 \<Rightarrow> u32 \<Rightarrow> mm \<Rightarrow> mm kres" where
  "copy_ptes 0 from_pt to_pt s = Inr s"
| "copy_ptes (Suc n) from_pt to_pt s =
     (let this_page = pmem s from_pt in
      if \<not> present this_page then copy_ptes n (from_pt + 4) (to_pt + 4) s
      else
        let this_page = wp this_page;
            s = store to_pt this_page s
        in if LOW_MEM < this_page then
             let s = store from_pt this_page s; i = MAP_NR this_page in
             bindk (map_check i s) (\<lambda>s.
               copy_ptes n (from_pt + 4) (to_pt + 4) (map_set i (mem_map s i + 1) s))
           else copy_ptes n (from_pt + 4) (to_pt + 4) s)"

fun copy_dirs :: "nat \<Rightarrow> nat \<Rightarrow> u32 \<Rightarrow> u32 \<Rightarrow> mm \<Rightarrow> (u32 \<times> mm) kres" where
  "copy_dirs 0 nr from_dir to_dir s = Inr (0, s)"
| "copy_dirs (Suc n) nr from_dir to_dir s =
     (if present (pmem s to_dir) then Inl (Panic ''copy_page_tables: already exist'')
      else if \<not> present (pmem s from_dir) then copy_dirs n nr (from_dir + 4) (to_dir + 4) s
      else
        let from_page_table = frame (pmem s from_dir);
            (to_page_table, s) = get_free_page s
        in if to_page_table = 0 then Inr (-1, s)
           else bindk (copy_ptes nr from_page_table to_page_table (store to_dir (to_page_table OR 7) s))
             (\<lambda>s. copy_dirs n nr (from_dir + 4) (to_dir + 4) s))"

definition copy_page_tables :: "u32 \<Rightarrow> u32 \<Rightarrow> u32 \<Rightarrow> mm \<Rightarrow> (u32 \<times> mm) kres" where
  "copy_page_tables from to sz s =
     (if from AND 0x3fffff \<noteq> 0 \<or> to AND 0x3fffff \<noteq> 0
      then Inl (Panic ''copy_page_tables called with wrong alignment'')
      else copy_dirs (unat (drop_bit 22 (sz + 0x3fffff))) (if from = 0 then 0xA0 else 1024)
             (dir_entry from) (dir_entry to) s)"

definition put_page :: "u32 \<Rightarrow> u32 \<Rightarrow> mm \<Rightarrow> u32 \<times> mm" where
  "put_page page address s =
     (let page_table = dir_entry address;
          slot = (\<lambda>pt. pt + 4 * (drop_bit 12 address AND 0x3ff))
      in if present (pmem s page_table) then
           (page, store (slot (frame (pmem s page_table))) (page OR 7) s)
         else
           let (tmp, s) = get_free_page s
           in if tmp = 0 then (0, s)
              else (page, store (slot tmp) (page OR 7) (store page_table (tmp OR 7) s)))"

section \<open>Copy on write and page sharing\<close>

definition un_wp_page :: "u32 \<Rightarrow> mm \<Rightarrow> mm kres" where
  "un_wp_page table_entry s =
     (let old_page = frame (pmem s table_entry) in
      bindk (if LOW_MEM \<le> old_page then map_check (MAP_NR old_page) s else Inr s) (\<lambda>s.
      if LOW_MEM \<le> old_page \<and> mem_map s (MAP_NR old_page) = 1
      then Inr (store table_entry (pmem s table_entry OR 2) s)
      else
        let (new_page, s) = get_free_page s
        in if new_page = 0 then oom
           else
             let s = (if LOW_MEM \<le> old_page
                      then map_set (MAP_NR old_page) (mem_map s (MAP_NR old_page) - 1) s else s);
                 s = store table_entry (new_page OR 7) s
             in Inr (copy_page old_page new_page s)))"

text \<open>The address of the page table entry of a linear address.\<close>

definition pte_addr :: "u32 \<Rightarrow> mm \<Rightarrow> u32" where
  "pte_addr address s =
     (drop_bit 10 address AND 0xffc) + (frame (pmem s (dir_entry address)))"

definition do_wp_page :: "u32 \<Rightarrow> u32 \<Rightarrow> mm \<Rightarrow> mm kres" where
  "do_wp_page error_code address s = un_wp_page (pte_addr address s) s"

definition write_verify :: "u32 \<Rightarrow> mm \<Rightarrow> mm kres" where
  "write_verify address s =
     (if \<not> present (pmem s (dir_entry address)) then Inr s
      else if 3 AND pmem s (pte_addr address s) = 1 then un_wp_page (pte_addr address s) s
      else Inr s)"

definition get_empty_page :: "u32 \<Rightarrow> mm \<Rightarrow> mm kres" where
  "get_empty_page address s =
     (let (tmp, s) = get_free_page s in
      if tmp = 0 then bindk (free_page tmp s) (\<lambda>s. oom)
      else let (r, s) = put_page tmp address s in
           if r = 0 then bindk (free_page tmp s) (\<lambda>s. oom) else Inr s)"

text \<open>
  \<open>try_to_share(address, p)\<close>; of the two tasks it uses only \<open>start_code\<close>.
\<close>

definition try_to_share :: "u32 \<Rightarrow> u32 \<Rightarrow> u32 \<Rightarrow> mm \<Rightarrow> (bool \<times> mm) kres" where
  "try_to_share address p_start_code current_start_code s =
     (let from_page = dir_entry address + dir_entry p_start_code;
          to_page = dir_entry address + dir_entry current_start_code;
          from = pmem s from_page
      in if \<not> present from then Inr (False, s)
         else
           let from_page = frame from + (drop_bit 10 address AND 0xffc);
               phys_addr = pmem s from_page
           in if phys_addr AND 0x41 \<noteq> 0x01 then Inr (False, s)
              else
                let phys_addr = frame phys_addr
                in if HIGH_MEMORY s \<le> phys_addr \<or> phys_addr < LOW_MEM then Inr (False, s)
                   else
                     let to = pmem s to_page in
                     bindk
                       (if present to then Inr (to, s)
                        else let (t, s) = get_free_page s in
                             if t = 0 then oom else Inr (t, store to_page (t OR 7) s))
                       (\<lambda>(to, s).
                         let to_page = frame to + (drop_bit 10 address AND 0xffc)
                         in if present (pmem s to_page)
                            then Inl (Panic ''try_to_share: to_page already exists'')
                            else
                              let s = store from_page (wp (pmem s from_page)) s;
                                  s = store to_page (pmem s from_page) s;
                                  i = MAP_NR phys_addr
                              in bindk (map_check i s)
                                   (\<lambda>s. Inr (True, map_set i (mem_map s i + 1) s))))"

section \<open>Address arithmetic\<close>

lemma fff_mask: "(0xfffff000::u32) = NOT (mask 12)"
  by (simp add: mask_eq_exp_minus_1)

lemma bit_frame [bit_simps]: "bit (frame a) n \<longleftrightarrow> bit a n \<and> 12 \<le> n"
  unfolding frame_def fff_mask by (auto simp: bit_simps dest: bit_imp_le_length)

lemma frame_push_drop: "frame a = push_bit 12 (drop_bit 12 a)"
  by (rule bit_word_eqI) (auto simp: bit_simps)

lemma unat_drop_12: "unat (drop_bit 12 (a::u32)) = unat a div 4096"
  by (simp only: unat_drop_bit_eq) (simp add: drop_bit_eq_div)

lemma unat_frame: "unat (frame a) = unat a div 4096 * 4096"
proof -
  have "unat a < 2 ^ 32" by (rule order_less_le_trans [OF unsigned_less]) simp
  then have "unat a div 4096 < 2 ^ 20" by simp
  then show ?thesis
    by (simp add: frame_push_drop push_bit_eq_mult drop_bit_eq_div unat_word_ariths unat_div)
qed

lemma frame_frame [simp]: "frame (frame a) = frame a"
  by (rule bit_word_eqI) (auto simp: bit_simps)

lemma frame_or [simp]: "frame p = p \<Longrightarrow> frame (p OR 7) = p"
proof (rule bit_word_eqI)
  fix n assume p: "frame p = p"
  have "bit p n \<longleftrightarrow> bit p n \<and> 12 \<le> n" using bit_frame [of p n] p by simp
  moreover have "bit (7::u32) n \<longleftrightarrow> n < 3"
    using bit_mask_iff [of 3 n, where ?'a=u32] by (auto simp: mask_eq_exp_minus_1)
  ultimately show "bit (frame (p OR 7)) n = bit p n"
    by (auto simp: bit_simps simp del: mask_numeral)
qed

lemma present_iff: "present e \<longleftrightarrow> bit e 0"
  by (simp add: present_def and_one_eq one_and_eq bit_0 odd_iff_mod_2_eq_one)

lemma present_or7 [simp]: "present (p OR 7)"
  by (simp add: present_iff bit_simps) 

definition page_of :: "nat \<Rightarrow> u32" where
  "page_of i = push_bit 12 (of_nat i) + LOW_MEM"

lemma unat_page_of: "i < PAGING_PAGES \<Longrightarrow> unat (page_of i) = (i + 256) * 4096"
  by (simp add: page_of_def LOW_MEM_def PAGING_PAGES_def push_bit_eq_mult unat_word_ariths unat_of_nat)

lemma page_of_props:
  assumes "i < PAGING_PAGES"
  shows "frame (page_of i) = page_of i" "MAP_NR (page_of i) = i" "page_of i \<noteq> 0" "LOW_MEM \<le> page_of i"
proof -
  have u: "unat (page_of i) = (i + 256) * 4096" by (rule unat_page_of [OF assms])
  show "frame (page_of i) = page_of i"
    by (simp add: word_unat_eq_iff unat_frame u)
  show "page_of i \<noteq> 0" using u by auto
  show l: "LOW_MEM \<le> page_of i" using u by (simp add: word_le_nat_alt LOW_MEM_def)
  have "unat (page_of i - LOW_MEM) = i * 4096"
    using l u by (simp add: unat_sub) (simp add: LOW_MEM_def)
  then show "MAP_NR (page_of i) = i"
    by (simp only: MAP_NR_def unat_drop_12)
qed
section \<open>The page allocator\<close>

lemma map_check_eq [simp]: "map_check i s = Inr s' \<longleftrightarrow> i < PAGING_PAGES \<and> s' = s"
  by (auto simp: map_check_def)

lemma map_check_ok [simp]: "i < PAGING_PAGES \<Longrightarrow> map_check i s = Inr s"
  by simp

lemma store_simps [simp]:
  "pmem (store a v s) b = (if b = a then v else pmem s b)"
  "mem_map (store a v s) = mem_map s" "HIGH_MEMORY (store a v s) = HIGH_MEMORY s"
  by (simp_all add: store_def)

lemma map_set_simps [simp]:
  "mem_map (map_set i v s) j = (if j = i then v else mem_map s j)"
  "pmem (map_set i v s) = pmem s" "HIGH_MEMORY (map_set i v s) = HIGH_MEMORY s"
  by (simp_all add: map_set_def)

lemma page_moves_simps [simp]:
  "pmem (clear_page p s) a = (if frame a = p then 0 else pmem s a)"
  "mem_map (clear_page p s) = mem_map s" "HIGH_MEMORY (clear_page p s) = HIGH_MEMORY s"
  "mem_map (copy_page p q s) = mem_map s" "HIGH_MEMORY (copy_page p q s) = HIGH_MEMORY s"
  by (simp_all add: clear_page_def copy_page_def)

lemma scan_free_Some:
  "scan_free n m = Some i \<Longrightarrow> i < n \<and> m i = 0 \<and> (\<forall>j. i < j \<and> j < n \<longrightarrow> m j \<noteq> 0)"
  by (induction n m rule: scan_free.induct) (auto split: if_splits simp: less_Suc_eq)

lemma scan_free_None: "scan_free n m = None \<Longrightarrow> j < n \<Longrightarrow> m j \<noteq> 0"
  by (induction n m rule: scan_free.induct) (auto split: if_splits simp: less_Suc_eq)

lemma get_free_page_cases:
  obtains (none) "get_free_page s = (0, s)" "\<forall>i<PAGING_PAGES. mem_map s i \<noteq> 0"
  | (page) i where "i < PAGING_PAGES" "mem_map s i = 0"
      "\<forall>j. i < j \<and> j < PAGING_PAGES \<longrightarrow> mem_map s j \<noteq> 0"
      "get_free_page s = (page_of i, clear_page (page_of i) (map_set i 1 s))"
proof (cases "scan_free PAGING_PAGES (mem_map s)")
  case None
  then show ?thesis
    using scan_free_None [OF None] by (intro none) (auto simp: get_free_page_def)
next
  case (Some i)
  then show ?thesis
    using scan_free_Some [OF Some]
    by (intro page [of i]) (auto simp: get_free_page_def page_of_def Let_def)
qed

text \<open>
  C33: get_free_page returns 0 and changes nothing exactly when every page frame is in use;
  otherwise it returns the highest free frame, cleared, sets its use count to 1 and touches
  no other frame or count.
\<close>

theorem get_free_page_spec:
  "case get_free_page s of (p, s') \<Rightarrow>
     if p = 0 then s' = s \<and> (\<forall>i<PAGING_PAGES. mem_map s i \<noteq> 0)
     else \<exists>i<PAGING_PAGES. p = page_of i \<and> mem_map s i = 0 \<and>
            (\<forall>j. i < j \<and> j < PAGING_PAGES \<longrightarrow> mem_map s j \<noteq> 0) \<and>
            mem_map s' = (mem_map s)(i := 1) \<and> HIGH_MEMORY s' = HIGH_MEMORY s \<and>
            (\<forall>a. pmem s' a = (if frame a = p then 0 else pmem s a))"
  by (cases s rule: get_free_page_cases)
    (auto simp: page_of_props map_set_def intro!: exI)

lemma free_page_page_of:
  assumes "i < PAGING_PAGES" "page_of i < HIGH_MEMORY s"
  shows "free_page (page_of i) s =
    (if mem_map s i \<noteq> 0 then Inr (map_set i (mem_map s i - 1) s)
     else Inl (Panic ''trying to free free page''))"
  using assms page_of_props(4) [OF assms(1)]
  by (simp add: free_page_def page_of_props Let_def not_le not_less [symmetric])

theorem get_free_page_free_page:
  assumes "get_free_page s = (p, s1)" "p \<noteq> 0" "p < HIGH_MEMORY s"
  shows "\<exists>s2. free_page p s1 = Inr s2 \<and> mem_map s2 = mem_map s"
  using assms by (cases s rule: get_free_page_cases)
    (auto simp: free_page_page_of map_set_def fun_upd_idem)

section \<open>What the page table loops do\<close>

text \<open>The page frame a present entry above \<open>LOW_MEM\<close> refers to.\<close>

definition maps_page :: "u32 \<Rightarrow> nat \<Rightarrow> bool" where
  "maps_page e i \<longleftrightarrow> present e \<and> LOW_MEM \<le> frame e \<and> MAP_NR (frame e) = i"

primrec refs :: "(nat \<Rightarrow> u32) \<Rightarrow> nat \<Rightarrow> nat \<Rightarrow> nat" where
  "refs f 0 i = 0"
| "refs f (Suc n) i = (if maps_page (f 0) i then 1 else 0) + refs (\<lambda>k. f (Suc k)) n i"

definition entry :: "u32 \<Rightarrow> nat \<Rightarrow> u32" where
  "entry pt k = pt + 4 * of_nat k"

lemma entry_0 [simp]: "entry pt 0 = pt"
  by (simp add: entry_def)

lemma entry_Suc: "entry (pt + 4) k = entry pt (Suc k)"
  by (simp add: entry_def algebra_simps)

lemma entry_inj:
  assumes "j < 1024" "k < 1024"
  shows "entry pt j = entry pt k \<longleftrightarrow> j = k"
proof
  assume "entry pt j = entry pt k"
  then have "unat (4 * of_nat j :: u32) = unat (4 * of_nat k :: u32)" by (simp add: entry_def)
  with assms show "j = k" by (simp add: unat_word_ariths unat_of_nat)
qed simp

lemma present_and_not2 [simp]: "present (wp e) \<longleftrightarrow> present e"
  unfolding wp_def present_iff bit_and_iff bit_not_iff by (simp add: bit_0)

lemma frame_and_not2 [simp]: "frame (wp e) = frame e"
proof (rule bit_word_eqI)
  fix n
  have "bit (2::u32) n \<longleftrightarrow> n = 1" using bit_exp_iff [of 1 n, where ?'a=u32] by auto
  then show "bit (frame (wp e)) n = bit (frame e) n"
    unfolding wp_def by (auto simp: bit_simps dest: bit_imp_le_length)
qed

lemma page_split:
  fixes e :: u32
  obtains q r where "unat e = q * 4096 + r" "r < 4096" "unat (frame e) = q * 4096"
  by (rule that [of "unat e div 4096" "unat e mod 4096"]) (simp_all add: unat_frame)

lemma present_above:
  assumes "present e"
  shows "LOW_MEM < e \<longleftrightarrow> LOW_MEM \<le> frame e"
proof -
  obtain q r where e: "unat e = q * 4096 + r" "r < 4096" "unat (frame e) = q * 4096"
    by (rule page_split)
  have "bit (unat e) 0" using assms by (simp add: present_iff bit_unsigned_iff del: bit_0)
  with e have "0 < r" by (cases r) (simp_all add: bit_0)
  then show ?thesis
    using e by (simp add: word_less_nat_alt word_le_nat_alt LOW_MEM_def) linarith
qed

lemma MAP_NR_frame:
  assumes "LOW_MEM \<le> frame e"
  shows "MAP_NR e = MAP_NR (frame e)"
proof -
  obtain q r where e: "unat e = q * 4096 + r" "r < 4096" "unat (frame e) = q * 4096"
    by (rule page_split)
  with assms have le: "LOW_MEM \<le> e" and q: "256 \<le> q"
    by (simp_all add: word_le_nat_alt LOW_MEM_def)
  from q obtain q' where q': "q = 256 + q'" using le_Suc_ex by blast
  have "unat (e - LOW_MEM) = q' * 4096 + r" "unat (frame e - LOW_MEM) = q' * 4096"
    using e q' unat_sub [OF le] unat_sub [OF assms] by (simp_all add: LOW_MEM_def)
  then show ?thesis using e by (simp add: MAP_NR_def unat_drop_12)
qed
lemma refs_cong: "(\<And>k. k < n \<Longrightarrow> f k = g k) \<Longrightarrow> refs f n i = refs g n i"
proof (induction n arbitrary: f g)
  case (Suc n)
  have "refs (\<lambda>k. f (Suc k)) n i = refs (\<lambda>k. g (Suc k)) n i"
    by (rule Suc.IH) (use Suc.prems in auto)
  with Suc.prems [of 0] show ?case by simp
qed simp

text \<open>The body of the copy loop, for one entry.\<close>

definition copy_pte :: "u32 \<Rightarrow> u32 \<Rightarrow> mm \<Rightarrow> mm kres" where
  "copy_pte fp tp s =
     (let e = pmem s fp; i = MAP_NR (frame e) in
      if \<not> present e then Inr s
      else if LOW_MEM \<le> frame e then
        bindk (map_check i s) (\<lambda>_.
          Inr (map_set i (mem_map s i + 1) (store fp (wp e) (store tp (wp e) s))))
      else Inr (store tp (wp e) s))"

lemma copy_ptes_Suc:
  "copy_ptes (Suc n) fp tp s = bindk (copy_pte fp tp s) (copy_ptes n (fp + 4) (tp + 4))"
proof (cases "present (pmem s fp) \<and> LOW_MEM \<le> frame (pmem s fp)")
  case True
  then have "MAP_NR (wp (pmem s fp)) = MAP_NR (frame (pmem s fp))"
    using MAP_NR_frame [of "wp (pmem s fp)"] by simp
  with True show ?thesis
    using present_above [of "wp (pmem s fp)"]
    by (simp add: copy_pte_def Let_def bindk_assoc map_check_def)
next
  case False
  then show ?thesis
    using present_above [of "wp (pmem s fp)"]
    by (auto simp: copy_pte_def Let_def)
qed

lemma copy_ptes_spec:
  assumes "copy_ptes n fp tp s = Inr s'" "n \<le> 1024"
    and "\<And>j k. j < n \<Longrightarrow> k < n \<Longrightarrow> entry fp j \<noteq> entry tp k"
  shows "(\<forall>k<n. pmem s' (entry tp k) =
            (if present (pmem s (entry fp k)) then wp (pmem s (entry fp k))
             else pmem s (entry tp k))) \<and>
         (\<forall>k<n. pmem s' (entry fp k) =
            (if present (pmem s (entry fp k)) \<and> LOW_MEM \<le> frame (pmem s (entry fp k))
             then wp (pmem s (entry fp k)) else pmem s (entry fp k))) \<and>
         (\<forall>a. (\<forall>k<n. a \<noteq> entry fp k \<and> a \<noteq> entry tp k) \<longrightarrow> pmem s' a = pmem s a) \<and>
         (\<forall>i. mem_map s' i = mem_map s i + of_nat (refs (\<lambda>k. pmem s (entry fp k)) n i)) \<and>
         HIGH_MEMORY s' = HIGH_MEMORY s"
  using assms
proof (induction n arbitrary: fp tp s)
  case 0
  then show ?case by simp
next
  case (Suc n)
  obtain s1 where s1: "copy_pte fp tp s = Inr s1" and r: "copy_ptes n (fp + 4) (tp + 4) s1 = Inr s'"
    using Suc.prems(1) unfolding copy_ptes_Suc by auto
  have ne: "entry fp (Suc k) \<noteq> fp" "entry tp (Suc k) \<noteq> tp" if "k < n" for k
    using that Suc.prems(2) entry_inj [of "Suc k" 0] by auto
  have ne2: "entry fp (Suc k) \<noteq> tp" "entry tp (Suc k) \<noteq> fp" "fp \<noteq> tp" if "k < n" for k
    using that Suc.prems(3) [of "Suc k" 0] Suc.prems(3) [of 0 "Suc k"] Suc.prems(3) [of 0 0] by auto
  have ft: "fp \<noteq> tp" using Suc.prems(3) [of 0 0] by auto
  have m1: "pmem s1 a = pmem s a" if "a \<noteq> fp" "a \<noteq> tp" for a
    using s1 that by (auto simp: copy_pte_def Let_def split: if_splits)
  have e1: "pmem s1 (entry fp (Suc k)) = pmem s (entry fp (Suc k))"
    "pmem s1 (entry tp (Suc k)) = pmem s (entry tp (Suc k))" if "k < n" for k
    using m1 ne ne2 that by simp_all
  have t1: "pmem s1 tp = (if present (pmem s fp) then wp (pmem s fp) else pmem s tp)"
    "pmem s1 fp = (if present (pmem s fp) \<and> LOW_MEM \<le> frame (pmem s fp) then wp (pmem s fp) else pmem s fp)"
    using s1 ft by (auto simp: copy_pte_def Let_def split: if_splits)
  have c1: "mem_map s1 i = mem_map s i + (if maps_page (pmem s fp) i then 1 else 0)" for i
    using s1 by (auto simp: copy_pte_def maps_page_def Let_def split: if_splits)
  have h1: "HIGH_MEMORY s1 = HIGH_MEMORY s"
    using s1 by (auto simp: copy_pte_def Let_def split: if_splits)
  have dis: "entry (fp + 4) j \<noteq> entry (tp + 4) k" if "j < n" "k < n" for j k
    using that Suc.prems(3) [of "Suc j" "Suc k"] by (simp add: entry_Suc)
  note IH = Suc.IH [OF r _ dis, simplified entry_Suc]
  have rc: "refs (\<lambda>k. pmem s1 (entry fp (Suc k))) n i = refs (\<lambda>k. pmem s (entry fp (Suc k))) n i" for i
    by (rule refs_cong) (simp add: e1)
  have n: "n \<le> 1024" using Suc.prems(2) by simp
  have out: "pmem s' fp = pmem s1 fp" "pmem s' tp = pmem s1 tp"
    using IH [OF n] ne ne2 by metis+
  show ?case
    using IH [OF n] t1 out e1 ft
    by (auto simp: less_Suc_eq_0_disj all_conj_distrib c1 h1 rc m1)
qed

text \<open>The body of the freeing loop, for one entry.\<close>

lemma free_page_entry:
  assumes "free_page (frame e) s = Inr s'" "present e"
  shows "pmem s' = pmem s \<and> HIGH_MEMORY s' = HIGH_MEMORY s \<and>
    (\<forall>i. mem_map s' i = mem_map s i - (if maps_page e i then 1 else 0))"
  using assms by (auto simp: free_page_def maps_page_def Let_def not_less split: if_splits)

lemma free_ptes_spec:
  assumes "free_ptes n pt s = Inr s'" "n \<le> 1024"
  shows "(\<forall>k<n. pmem s' (entry pt k) = 0) \<and>
         (\<forall>a. (\<forall>k<n. a \<noteq> entry pt k) \<longrightarrow> pmem s' a = pmem s a) \<and>
         (\<forall>i. mem_map s' i = mem_map s i - of_nat (refs (\<lambda>k. pmem s (entry pt k)) n i)) \<and>
         HIGH_MEMORY s' = HIGH_MEMORY s"
  using assms
proof (induction n arbitrary: pt s)
  case 0
  then show ?case by simp
next
  case (Suc n)
  let ?e = "pmem s pt"
  obtain s1 where s1: "(if present ?e then free_page (frame ?e) s else Inr s) = Inr s1"
    and r: "free_ptes n (pt + 4) (store pt 0 s1) = Inr s'"
    using Suc.prems(1) by auto
  have ne: "entry pt (Suc k) \<noteq> pt" if "k < n" for k
    using that Suc.prems(2) entry_inj [of "Suc k" 0] by auto
  have m1: "pmem s1 = pmem s" "HIGH_MEMORY s1 = HIGH_MEMORY s"
    "mem_map s1 i = mem_map s i - (if maps_page ?e i then 1 else 0)" for i
    using s1 free_page_entry [of ?e s s1] by (auto simp: maps_page_def split: if_splits)
  have n: "n \<le> 1024" using Suc.prems(2) by simp
  note IH = Suc.IH [OF r n, simplified entry_Suc]
  have rc: "refs (\<lambda>k. pmem (store pt 0 s1) (entry pt (Suc k))) n i = refs (\<lambda>k. pmem s (entry pt (Suc k))) n i" for i
    by (rule refs_cong) (simp add: m1 ne)
  have out: "pmem s' pt = 0" using IH ne by (metis store_simps(1))
  show ?case
    using IH out unfolding rc
    by (auto simp: less_Suc_eq_0_disj m1 all_conj_distrib)
qed
section \<open>Linear addresses\<close>

definition pt_index :: "u32 \<Rightarrow> nat" where
  "pt_index address = unat (drop_bit 12 address AND 0x3ff)"

lemma mask10: "(0x3ff::u32) = mask 10" "(0xffc::u32) = push_bit 2 (mask 10)"
  by (simp_all add: mask_eq_exp_minus_1)

lemma pt_index_less: "pt_index a < 1024"
proof -
  have "drop_bit 12 a AND 0x3ff \<le> 0x3ff" by (rule word_and_le1)
  then show ?thesis by (simp add: pt_index_def word_le_nat_alt)
qed

lemma pt_offset: "drop_bit 10 a AND 0xffc = (4::u32) * of_nat (pt_index a)"
proof -
  have "drop_bit 10 a AND 0xffc = push_bit 2 (drop_bit 12 a AND 0x3ff)"
    unfolding mask10 by (rule bit_word_eqI) (auto simp: bit_simps)
  then show ?thesis by (simp add: pt_index_def push_bit_eq_mult mult.commute)
qed

lemma pte_addr_entry: "pte_addr a s = entry (frame (pmem s (dir_entry a))) (pt_index a)"
  by (simp add: pte_addr_def pt_offset entry_def)

lemma slot_entry: "pt + 4 * (drop_bit 12 a AND 0x3ff) = entry pt (pt_index a)"
  by (simp add: pt_index_def entry_def)

lemma frame_dir_entry [simp]: "frame (dir_entry a) = 0"
  unfolding dir_entry_def mask10 by (rule bit_word_eqI) (auto simp: bit_simps)

lemma same_page:
  assumes "dir_entry a = dir_entry b" "pt_index a = pt_index b"
  shows "frame a = frame b"
proof (rule bit_word_eqI)
  fix n assume n: "n < LENGTH(32)"
  have "drop_bit 12 a AND 0x3ff = drop_bit 12 b AND 0x3ff"
    using assms(2) by (simp add: pt_index_def word_unat_eq_iff)
  then have i: "bit (drop_bit 12 a AND 0x3ff) m = bit (drop_bit 12 b AND 0x3ff) m" for m by simp
  have d: "bit (dir_entry a) m = bit (dir_entry b) m" for m using assms(1) by simp
  show "bit (frame a) n = bit (frame b) n"
  proof (cases "n < 22")
    case True
    then show ?thesis using i [of "n - 12"] unfolding mask10 by (auto simp: bit_simps)
  next
    case False
    then show ?thesis using d [of "n - 20"] n
      unfolding dir_entry_def mask10 by (auto simp: bit_simps)
  qed
qed

lemma frame_entry:
  assumes "frame pt = pt" "k < 1024"
  shows "frame (entry pt k) = pt"
proof -
  have p: "unat pt = unat pt div 4096 * 4096" using assms(1) unat_frame [of pt] by simp
  have lt: "unat pt < 2 ^ 32" by (rule order_less_le_trans [OF unsigned_less]) simp
  then have q: "unat pt div 4096 < 2 ^ 20" by simp
  have "unat (4 * of_nat k :: u32) = 4 * k" using assms(2) by (simp add: unat_word_ariths unat_of_nat)
  then have "unat (entry pt k) = unat pt + 4 * k"
    using p q assms(2) by (simp add: entry_def unat_word_ariths)
  moreover have "(q * 4096 + 4 * k) div 4096 = q" for q using assms(2) by simp
  ultimately have "unat (frame (entry pt k)) = unat pt"
    using p by (metis unat_frame)
  then show ?thesis by (simp only: word_unat_eq_iff)
qed

text \<open>The page table entry the processor finds for a linear address.\<close>

definition lookup :: "u32 \<Rightarrow> mm \<Rightarrow> u32 option" where
  "lookup a s =
     (if present (pmem s (dir_entry a)) \<and> present (pmem s (pte_addr a s))
      then Some (pmem s (pte_addr a s)) else None)"

text \<open>
  Page tables are pages of their own: distinct directory entries have distinct tables, none of
  them is the directory itself (page 0) and none of them is a free page.
\<close>

definition tables_ok :: "mm \<Rightarrow> bool" where
  "tables_ok s \<longleftrightarrow>
     (\<forall>a. present (pmem s (dir_entry a)) \<longrightarrow> frame (pmem s (dir_entry a)) \<noteq> 0 \<and>
        (\<forall>i<PAGING_PAGES. frame (pmem s (dir_entry a)) = page_of i \<longrightarrow> mem_map s i \<noteq> 0)) \<and>
     (\<forall>a b. present (pmem s (dir_entry a)) \<and> present (pmem s (dir_entry b)) \<and>
        frame (pmem s (dir_entry a)) = frame (pmem s (dir_entry b)) \<longrightarrow> dir_entry a = dir_entry b)"

lemma dir_entry_not_entry:
  "frame pt = pt \<Longrightarrow> pt \<noteq> 0 \<Longrightarrow> k < 1024 \<Longrightarrow> dir_entry a \<noteq> entry pt k"
  by (metis frame_dir_entry frame_entry)

lemma put_page_present:
  assumes "present (pmem s (dir_entry a))"
  shows "put_page p a s = (p, store (pte_addr a s) (p OR 7) s)"
  using assms by (simp add: put_page_def slot_entry pte_addr_entry Let_def)

lemma put_page_absent:
  assumes "\<not> present (pmem s (dir_entry a))" "get_free_page s = (t, s1)" "t \<noteq> 0"
  shows "put_page p a s = (p, store (entry t (pt_index a)) (p OR 7) (store (dir_entry a) (t OR 7) s1))"
  using assms by (simp add: put_page_def slot_entry Let_def)

theorem put_page_maps:
  assumes "put_page page address s = (page, s')" "page \<noteq> 0" "tables_ok s"
  shows "lookup address s' = Some (page OR 7) \<and>
         (\<forall>b. frame b \<noteq> frame address \<longrightarrow> lookup b s' = lookup b s)"
proof (cases "present (pmem s (dir_entry address))")
  case True
  have s': "s' = store (pte_addr address s) (page OR 7) s"
    using assms(1) put_page_present [OF True] by simp
  have d: "pmem s' (dir_entry b) = pmem s (dir_entry b)" for b
    using assms(3) True dir_entry_not_entry [OF _ _ pt_index_less]
    by (auto simp: s' pte_addr_entry tables_ok_def)
  then have pa: "pte_addr b s' = pte_addr b s" for b by (simp add: pte_addr_def)
  have ne: "pte_addr b s \<noteq> pte_addr address s"
    if "frame b \<noteq> frame address" "present (pmem s (dir_entry b))" for b
  proof
    assume eq: "pte_addr b s = pte_addr address s"
    then have "frame (pte_addr b s) = frame (pte_addr address s)" by simp
    then have "frame (pmem s (dir_entry b)) = frame (pmem s (dir_entry address))"
      by (simp add: pte_addr_entry frame_entry pt_index_less)
    with assms(3) True that(2) have de: "dir_entry b = dir_entry address"
      unfolding tables_ok_def by blast
    with eq have "pt_index b = pt_index address"
      by (simp add: pte_addr_entry entry_inj pt_index_less)
    with de that(1) show False using same_page by blast
  qed
  have m: "pmem s' x = (if x = pte_addr address s then page OR 7 else pmem s x)" for x
    by (simp add: s')
  show ?thesis using True ne unfolding lookup_def d pa by (auto simp: m split: if_splits)
next
  case False
  obtain t s1 where g: "get_free_page s = (t, s1)" by force
  have t: "t \<noteq> 0" using assms(1,2) False g by (auto simp: put_page_def)
  obtain i where i: "i < PAGING_PAGES" "mem_map s i = 0" "t = page_of i"
    "s1 = clear_page t (map_set i 1 s)"
    using g t by (cases s rule: get_free_page_cases) auto
  note pg = page_of_props [OF i(1)]
  have s': "s' = store (entry t (pt_index address)) (page OR 7) (store (dir_entry address) (t OR 7) s1)"
    using assms(1) put_page_absent [OF False g t] by simp
  have tp: "frame t = t" "t \<noteq> 0" using pg i(3) t by simp_all
  have dn: "dir_entry b \<noteq> entry t (pt_index c)" for b c
    by (rule dir_entry_not_entry [OF tp pt_index_less])
  have m: "pmem s' x = (if x = entry t (pt_index address) then page OR 7
      else if x = dir_entry address then t OR 7 else if frame x = t then 0 else pmem s x)" for x
    by (simp add: s' i(4))
  have fd: "frame (dir_entry b) \<noteq> t" for b using tp by simp
  have d: "pmem s' (dir_entry b) = (if dir_entry b = dir_entry address then t OR 7
      else pmem s (dir_entry b))" for b
    using m [of "dir_entry b"] dn fd by auto
  have ad: "lookup address s' = Some (page OR 7)"
  proof -
    have "pmem s' (dir_entry address) = t OR 7" using d by simp
    moreover from this have "pte_addr address s' = entry t (pt_index address)"
      using tp by (simp add: pte_addr_entry)
    moreover have "pmem s' (entry t (pt_index address)) = page OR 7" using m by simp
    ultimately show ?thesis by (simp add: lookup_def)
  qed
  have "lookup b s' = lookup b s" if b: "frame b \<noteq> frame address" for b
  proof (cases "dir_entry b = dir_entry address")
    case True
    with b have "pt_index b \<noteq> pt_index address" using same_page by blast
    then have "entry t (pt_index b) \<noteq> entry t (pt_index address)"
      by (simp add: entry_inj pt_index_less)
    moreover have "pmem s' (dir_entry b) = t OR 7" using d True by simp
    then have "pte_addr b s' = entry t (pt_index b)" using tp by (simp add: pte_addr_entry)
    ultimately have "pmem s' (pte_addr b s') = 0"
      using m dn tp by (metis frame_entry pt_index_less)
    with True False show ?thesis by (simp add: lookup_def present_iff)
  next
    case dne: False
    show ?thesis
    proof (cases "present (pmem s (dir_entry b))")
      case True
      let ?ft = "frame (pmem s (dir_entry b))"
      have ft: "?ft \<noteq> t" "?ft \<noteq> 0" using assms(3) True i unfolding tables_ok_def by blast+
      have "frame (pte_addr b s) = ?ft" by (simp add: pte_addr_entry frame_entry pt_index_less)
      moreover have "pte_addr b s' = pte_addr b s" by (simp add: pte_addr_def d dne)
      ultimately have "pmem s' (pte_addr b s') = pmem s (pte_addr b s)"
        using ft tp m [of "pte_addr b s"] frame_entry [OF tp(1) pt_index_less, of address] by auto
      with dne show ?thesis by (simp add: lookup_def d \<open>pte_addr b s' = pte_addr b s\<close>)
    next
      case False
      with dne show ?thesis by (simp add: lookup_def d)
    qed
  qed
  with ad show ?thesis by blast
qed



section \<open>Fork and exit\<close>

lemma refs_ge: "k < n \<Longrightarrow> maps_page (f k) i \<Longrightarrow> 0 < refs f n i"
proof (induction n arbitrary: f k)
  case (Suc n)
  then show ?case by (cases k) (auto simp: gr0_conv_Suc)
qed simp

lemma free_page_frame_ok:
  assumes "frame e < HIGH_MEMORY s" "HIGH_MEMORY s \<le> 0x1000000" "present e"
    and "maps_page e (MAP_NR (frame e)) \<Longrightarrow> mem_map s (MAP_NR (frame e)) \<noteq> 0"
  shows "\<exists>s'. free_page (frame e) s = Inr s'"
proof (cases "frame e < LOW_MEM")
  case False
  then have le: "LOW_MEM \<le> frame e" by simp
  have "unat (frame e - LOW_MEM) < 3840 * 4096"
    using assms(1,2) le by (simp add: unat_sub word_less_nat_alt word_le_nat_alt LOW_MEM_def)
  then have "MAP_NR (frame e) < PAGING_PAGES"
    unfolding MAP_NR_def unat_drop_12 PAGING_PAGES_def by (simp add: less_mult_imp_div_less)
  then show ?thesis using assms le by (auto simp: free_page_def maps_page_def Let_def not_le)
qed (simp add: free_page_def)

lemma free_ptes_ok:
  assumes "n \<le> 1024" "HIGH_MEMORY s \<le> 0x1000000"
    and "\<And>k. k < n \<Longrightarrow> present (pmem s (entry pt k)) \<Longrightarrow> frame (pmem s (entry pt k)) < HIGH_MEMORY s"
    and "\<And>i. refs (\<lambda>k. pmem s (entry pt k)) n i \<le> unat (mem_map s i)"
  shows "\<exists>s'. free_ptes n pt s = Inr s'"
  using assms
proof (induction n arbitrary: pt s)
  case (Suc n)
  let ?e = "pmem s pt"
  have "\<exists>s1. (if present ?e then free_page (frame ?e) s else Inr s) = Inr s1"
    using free_page_frame_ok [of ?e s] Suc.prems(2) Suc.prems(3) [of 0] Suc.prems(4) [of "MAP_NR (frame ?e)"]
    by (cases "maps_page ?e (MAP_NR (frame ?e))") (auto simp: unat_gt_0 [symmetric])
  then obtain s1 where s1: "(if present ?e then free_page (frame ?e) s else Inr s) = Inr s1" by blast
  have m1: "pmem s1 = pmem s" "HIGH_MEMORY s1 = HIGH_MEMORY s"
    "mem_map s1 i = mem_map s i - (if maps_page ?e i then 1 else 0)" for i
    using s1 free_page_entry [of ?e s s1] by (auto simp: maps_page_def split: if_splits)
  have ne: "entry pt (Suc k) \<noteq> pt" if "k < n" for k
    using that Suc.prems(1) entry_inj [of "Suc k" 0] by auto
  have rc: "refs (\<lambda>k. pmem (store pt 0 s1) (entry (pt + 4) k)) n i = refs (\<lambda>k. pmem s (entry pt (Suc k))) n i" for i
    by (rule refs_cong) (simp add: m1 ne entry_Suc)
  have "\<exists>s'. free_ptes n (pt + 4) (store pt 0 s1) = Inr s'"
  proof (rule Suc.IH)
    fix i
    have "refs (\<lambda>k. pmem s (entry pt (Suc k))) n i \<le> unat (mem_map s1 i)"
      using Suc.prems(4) [of i] by (auto simp: m1 unat_minus_one unat_gt_0 [symmetric])
    then show "refs (\<lambda>k. pmem (store pt 0 s1) (entry (pt + 4) k)) n i \<le> unat (mem_map (store pt 0 s1) i)"
      unfolding rc by simp
  next
    fix k assume "k < n" "present (pmem (store pt 0 s1) (entry (pt + 4) k))"
    then show "frame (pmem (store pt 0 s1) (entry (pt + 4) k)) < HIGH_MEMORY (store pt 0 s1)"
      using Suc.prems(3) [of "Suc k"] ne [of k] by (simp add: entry_Suc m1)
  qed (use Suc.prems in \<open>auto simp: m1\<close>)
  with s1 show ?case by (simp add: bindk_def)
qed simp
lemma copy_ptes_ok:
  assumes "n \<le> 1024" "HIGH_MEMORY s \<le> 0x1000000"
    and "\<And>j k. j < n \<Longrightarrow> k < n \<Longrightarrow> entry fp j \<noteq> entry tp k"
    and "\<And>k. k < n \<Longrightarrow> present (pmem s (entry fp k)) \<Longrightarrow> frame (pmem s (entry fp k)) < HIGH_MEMORY s"
  shows "\<exists>s'. copy_ptes n fp tp s = Inr s'"
  using assms
proof (induction n arbitrary: fp tp s)
  case (Suc n)
  let ?e = "pmem s fp"
  have "MAP_NR (frame ?e) < PAGING_PAGES" if "present ?e" "LOW_MEM \<le> frame ?e"
  proof -
    have "unat (frame ?e - LOW_MEM) < 3840 * 4096"
      using Suc.prems(2) Suc.prems(4) [of 0] that
      by (simp add: unat_sub word_less_nat_alt word_le_nat_alt LOW_MEM_def)
    then show ?thesis
      unfolding MAP_NR_def unat_drop_12 PAGING_PAGES_def by (simp add: less_mult_imp_div_less)
  qed
  then have "\<exists>s1. copy_pte fp tp s = Inr s1" by (auto simp: copy_pte_def Let_def)
  then obtain s1 where s1: "copy_pte fp tp s = Inr s1" by blast
  have h1: "HIGH_MEMORY s1 = HIGH_MEMORY s"
    using s1 by (auto simp: copy_pte_def Let_def split: if_splits)
  have ne: "entry fp (Suc k) \<noteq> fp" "entry fp (Suc k) \<noteq> tp" if "k < n" for k
    using that Suc.prems(1) entry_inj [of "Suc k" 0] Suc.prems(3) [of "Suc k" 0] by auto
  have m1: "pmem s1 (entry fp (Suc k)) = pmem s (entry fp (Suc k))" if "k < n" for k
    using s1 ne [OF that] by (auto simp: copy_pte_def Let_def split: if_splits)
  have "\<exists>s'. copy_ptes n (fp + 4) (tp + 4) s1 = Inr s'"
  proof (rule Suc.IH)
    fix j k assume "j < n" "k < n"
    then show "entry (fp + 4) j \<noteq> entry (tp + 4) k"
      using Suc.prems(3) [of "Suc j" "Suc k"] by (simp add: entry_Suc)
  next
    fix k assume "k < n" "present (pmem s1 (entry (fp + 4) k))"
    then show "frame (pmem s1 (entry (fp + 4) k)) < HIGH_MEMORY s1"
      using Suc.prems(4) [of "Suc k"] m1 by (simp add: entry_Suc h1)
  qed (use Suc.prems h1 in auto)
  with s1 show ?case unfolding copy_ptes_Suc by (simp add: bindk_def)
qed simp

lemma present_0 [simp]: "\<not> present 0"
  by (simp add: present_iff)

lemma maps_page_wp [simp]: "maps_page (wp e) i \<longleftrightarrow> maps_page e i"
  by (simp add: maps_page_def)

lemma maps_page_0 [simp]: "\<not> maps_page 0 i"
  by (simp add: maps_page_def present_iff)

lemma refs_cong_maps:
  "(\<And>k. k < n \<Longrightarrow> maps_page (f k) i = maps_page (g k) i) \<Longrightarrow> refs f n i = refs g n i"
proof (induction n arbitrary: f g)
  case (Suc n)
  have "refs (\<lambda>k. f (Suc k)) n i = refs (\<lambda>k. g (Suc k)) n i"
    by (rule Suc.IH) (use Suc.prems in auto)
  with Suc.prems [of 0] show ?case by simp
qed simp

lemma refs_not_present: "(\<And>k. k < n \<Longrightarrow> \<not> maps_page (f k) i) \<Longrightarrow> refs f n i = 0"
proof (induction n arbitrary: f)
  case (Suc n)
  then show ?case using Suc.prems [of 0] Suc.IH [of "\<lambda>k. f (Suc k)"] by auto
qed simp

text \<open>The page directory entries and page tables of a 4 MB region that fork copies.\<close>

definition region_ok :: "u32 \<Rightarrow> u32 \<Rightarrow> mm \<Rightarrow> bool" where
  "region_ok from to s \<longleftrightarrow>
     (let pt = frame (pmem s (dir_entry from)) in
      present (pmem s (dir_entry from)) \<and> \<not> present (pmem s (dir_entry to)) \<and> pt \<noteq> 0 \<and>
      (\<forall>i<PAGING_PAGES. mem_map s i = 0 \<longrightarrow> pt \<noteq> page_of i \<and> page_of i < HIGH_MEMORY s) \<and>
      (\<forall>k<1024. present (pmem s (entry pt k)) \<longrightarrow> frame (pmem s (entry pt k)) < HIGH_MEMORY s) \<and>
      (\<forall>i. unat (mem_map s i) + refs (\<lambda>k. pmem s (entry pt k)) 1024 i < 255) \<and>
      HIGH_MEMORY s \<le> 0x1000000)"

lemma one_dir: "unat (drop_bit 22 (0x400000 + 0x3fffff :: u32)) = 1"
  by simp

lemma copy_one_dir:
  assumes ok: "region_ok from to s" and al: "from AND 0x3fffff = 0" "to AND 0x3fffff = 0" "from \<noteq> 0"
    and free: "i < PAGING_PAGES" "mem_map s i = 0"
  defines "pt \<equiv> frame (pmem s (dir_entry from))"
  shows "\<exists>i s1. i < PAGING_PAGES \<and> mem_map s i = 0 \<and>
      copy_page_tables from to 0x400000 s = Inr (0, s1) \<and>
      pmem s1 (dir_entry to) = page_of i OR 7 \<and>
      (\<forall>k<1024. pmem s1 (entry (page_of i) k) =
         (if present (pmem s (entry pt k)) then wp (pmem s (entry pt k)) else 0)) \<and>
      (\<forall>k<1024. pmem s1 (entry pt k) =
         (if present (pmem s (entry pt k)) \<and> LOW_MEM \<le> frame (pmem s (entry pt k))
          then wp (pmem s (entry pt k)) else pmem s (entry pt k))) \<and>
      (\<forall>j. mem_map s1 j = ((mem_map s)(i := 1)) j + of_nat (refs (\<lambda>k. pmem s (entry pt k)) 1024 j)) \<and>
      HIGH_MEMORY s1 = HIGH_MEMORY s"
proof -
  have pr: "present (pmem s (dir_entry from))" "\<not> present (pmem s (dir_entry to))" "pt \<noteq> 0"
    using ok by (auto simp: region_ok_def pt_def Let_def)
  obtain t s0 where g: "get_free_page s = (t, s0)" by force
  obtain i' where i: "i' < PAGING_PAGES" "mem_map s i' = 0" "t = page_of i'"
    "s0 = clear_page t (map_set i' 1 s)"
    using g free by (cases s rule: get_free_page_cases) auto
  note pg = page_of_props [OF i(1)]
  have tp: "frame t = t" "t \<noteq> 0" using pg i(3) by simp_all
  have fp: "frame pt = pt" by (simp add: pt_def)
  have npt: "pt \<noteq> t" using ok i by (auto simp: region_ok_def pt_def Let_def)
  define sx where "sx = store (dir_entry to) (t OR 7) s0"
  have dis: "entry pt j \<noteq> entry t k" if "j < 1024" "k < 1024" for j k
    using frame_entry [OF fp that(1)] frame_entry [OF tp(1) that(2)] npt by metis
  have e0: "pmem sx (entry pt k) = pmem s (entry pt k)" "pmem sx (entry t k) = 0" if "k < 1024" for k
    using that frame_entry [OF fp that] frame_entry [OF tp(1) that] npt pr(3) tp(2)
      dir_entry_not_entry [OF fp pr(3) that, of to] dir_entry_not_entry [OF tp that, of to]
    by (simp_all add: sx_def i(4))
  have hm: "HIGH_MEMORY sx = HIGH_MEMORY s" "mem_map sx j = ((mem_map s)(i' := 1)) j" for j
    by (simp_all add: sx_def i(4))
  have "\<exists>s1. copy_ptes 1024 pt t sx = Inr s1"
    by (rule copy_ptes_ok)
      (use ok in \<open>auto simp: e0 hm dis region_ok_def pt_def [symmetric] Let_def\<close>)
  then obtain s1 where s1: "copy_ptes 1024 pt t sx = Inr s1" by blast
  note sp = copy_ptes_spec [OF s1 order.refl dis]
  have rc: "refs (\<lambda>k. pmem sx (entry pt k)) 1024 j = refs (\<lambda>k. pmem s (entry pt k)) 1024 j" for j
    by (rule refs_cong) (simp add: e0)
  have run: "copy_page_tables from to 0x400000 s = Inr (0, s1)"
    using pr al g tp s1 [unfolded sx_def] unfolding copy_page_tables_def one_dir
    by (simp add: numeral_eq_Suc [of num.One] pt_def Let_def)
  have "pmem s1 (dir_entry to) = t OR 7"
    using sp dir_entry_not_entry [OF fp pr(3)] dir_entry_not_entry [OF tp] by (simp add: sx_def)
  moreover have "mem_map s1 j = ((mem_map s)(i' := 1)) j + of_nat (refs (\<lambda>k. pmem s (entry pt k)) 1024 j)" for j
    using sp by (simp add: rc hm)
  moreover have "HIGH_MEMORY s1 = HIGH_MEMORY s" using sp hm by simp
  moreover have "\<forall>k<1024. pmem s1 (entry t k) =
      (if present (pmem s (entry pt k)) then wp (pmem s (entry pt k)) else 0)"
    using sp e0 by simp
  moreover have "\<forall>k<1024. pmem s1 (entry pt k) =
         (if present (pmem s (entry pt k)) \<and> LOW_MEM \<le> frame (pmem s (entry pt k))
          then wp (pmem s (entry pt k)) else pmem s (entry pt k))"
    using sp e0 by simp
  ultimately show ?thesis using run i by blast
qed

text \<open>
  C2: Copying a 4 MB region with copy_page_tables (fork) and freeing the copy with
  free_page_tables (exit) succeeds without a panic and gives every page frame its old use
  count.
\<close>

theorem fork_then_exit:
  assumes ok: "region_ok from to s" and al: "from AND 0x3fffff = 0" "to AND 0x3fffff = 0"
    and "from \<noteq> 0" "to \<noteq> 0" and free: "i < PAGING_PAGES" "mem_map s i = 0"
  shows "\<exists>s1 s2. copy_page_tables from to 0x400000 s = Inr (0, s1) \<and>
      free_page_tables to 0x400000 s1 = Inr (0, s2) \<and> mem_map s2 = mem_map s"
proof -
  let ?pt = "frame (pmem s (dir_entry from))"
  let ?R = "\<lambda>j. refs (\<lambda>k. pmem s (entry ?pt k)) 1024 j"
  obtain i s1 where i: "i < PAGING_PAGES" "mem_map s i = 0"
    and run: "copy_page_tables from to 0x400000 s = Inr (0, s1)"
    and d: "pmem s1 (dir_entry to) = page_of i OR 7"
    and tt: "\<forall>k<1024. pmem s1 (entry (page_of i) k) =
         (if present (pmem s (entry ?pt k)) then wp (pmem s (entry ?pt k)) else 0)"
    and mm: "\<forall>j. mem_map s1 j = ((mem_map s)(i := 1)) j + of_nat (?R j)"
    and hm: "HIGH_MEMORY s1 = HIGH_MEMORY s"
    using copy_one_dir [OF ok al \<open>from \<noteq> 0\<close> free] by blast
  note pg = page_of_props [OF i(1)]
  have okD: "HIGH_MEMORY s \<le> 0x1000000" "page_of i < HIGH_MEMORY s"
    "\<forall>k<1024. present (pmem s (entry ?pt k)) \<longrightarrow> frame (pmem s (entry ?pt k)) < HIGH_MEMORY s"
    "\<forall>j. unat (mem_map s j) + ?R j < 255"
    using ok i by (auto simp: region_ok_def Let_def)
  have rc: "refs (\<lambda>k. pmem s1 (entry (page_of i) k)) 1024 j = ?R j" for j
    by (rule refs_cong_maps) (use tt in \<open>auto simp: maps_page_def\<close>)
  have "\<exists>s2. free_ptes 1024 (page_of i) s1 = Inr s2"
  proof (rule free_ptes_ok)
    fix j
    have "unat (((mem_map s)(i := 1)) j) + ?R j < 256"
      using okD(4) [rule_format, of j] i by (auto simp: unat_gt_0)
    then have "unat (mem_map s1 j) = unat (((mem_map s)(i := 1)) j) + ?R j"
      using mm by (simp add: unat_word_ariths unat_of_nat)
    then show "refs (\<lambda>k. pmem s1 (entry (page_of i) k)) 1024 j \<le> unat (mem_map s1 j)"
      unfolding rc by simp
  qed (use okD tt hm in auto)
  then obtain s2 where s2: "free_ptes 1024 (page_of i) s1 = Inr s2" by blast
  note sp = free_ptes_spec [OF s2 order.refl]
  have d2: "pmem s2 (dir_entry to) = page_of i OR 7"
    using sp d dir_entry_not_entry [OF pg(1,3)] by metis
  have m2: "mem_map s2 j = ((mem_map s)(i := 1)) j" for j
    using sp mm by (simp add: rc)
  have "free_page (page_of i) s2 = Inr (map_set i 0 s2)"
    using sp hm okD(2) m2 [of i] by (simp add: free_page_page_of [OF i(1)])
  then have "free_page_tables to 0x400000 s1 = Inr (0, store (dir_entry to) 0 (map_set i 0 s2))"
    using al \<open>to \<noteq> 0\<close> d s2 d2 pg unfolding free_page_tables_def one_dir
    by (simp add: numeral_eq_Suc [of num.One])
  moreover have "mem_map (store (dir_entry to) 0 (map_set i 0 s2)) = mem_map s"
    by (rule ext) (use m2 i in simp)
  ultimately show ?thesis using run by blast
qed
section \<open>Concrete states\<close>

lemma scan_free_top: "0 < n \<Longrightarrow> m (n - 1) = 0 \<Longrightarrow> scan_free n m = Some (n - 1)"
  by (cases n) simp_all

lemma get_free_page_top:
  "mem_map s 3839 = 0 \<Longrightarrow>
   get_free_page s = (page_of 3839, clear_page (page_of 3839) (map_set 3839 1 s))"
  using scan_free_top [of PAGING_PAGES "mem_map s"]
  by (simp add: get_free_page_def PAGING_PAGES_def page_of_def Let_def)

lemma page_of_3839: "page_of 3839 = 0xfff000"
  by (simp add: page_of_def LOW_MEM_def push_bit_eq_mult)

definition mm_example :: "(u32 \<Rightarrow> u32) \<Rightarrow> mm" where
  "mm_example m = \<lparr>pmem = m, mem_map = (\<lambda>i. if i = 3839 then 0 else 2), HIGH_MEMORY = 0x1000000\<rparr>"

lemma mm_example_simps [simp]:
  "pmem (mm_example m) = m" "mem_map (mm_example m) = (\<lambda>i. if i = 3839 then 0 else 2)"
  "HIGH_MEMORY (mm_example m) = 0x1000000"
  by (simp_all add: mm_example_def)

lemma frame_numeral: "frame (numeral w) = numeral w AND 0xfffff000"
  by (simp add: frame_def)

theorem get_free_page_spec_witness:
  "fst (get_free_page (mm_example (\<lambda>_. 7))) = 0xfff000 \<and>
   pmem (snd (get_free_page (mm_example (\<lambda>_. 7)))) 0xfff010 = 0"
proof -
  let ?s = "mm_example (\<lambda>_. 7)"
  have p: "fst (get_free_page ?s) = 0xfff000" by (simp add: get_free_page_top page_of_3839)
  have "frame 0xfff010 = 0xfff000" by (simp add: frame_numeral)
  then have "pmem (snd (get_free_page ?s)) 0xfff010 = 0"
    using get_free_page_spec [of ?s] p by (auto simp: split_def)
  with p show ?thesis by simp
qed

theorem get_free_page_free_page_witness:
  "\<exists>s2. free_page 0xfff000 (snd (get_free_page (mm_example (\<lambda>_. 0)))) = Inr s2 \<and>
     mem_map s2 = mem_map (mm_example (\<lambda>_. 0))"
  by (rule get_free_page_free_page)
    (simp_all add: get_free_page_top page_of_3839 prod_eq_iff)

theorem put_page_maps_witness:
  "lookup 0x8000000 (snd (put_page 0x200000 0x8000000 (mm_example (\<lambda>_. 0)))) = Some 0x200007"
proof -
  let ?s = "mm_example (\<lambda>_. 0)"
  have t: "tables_ok ?s" by (simp add: tables_ok_def)
  have "put_page 0x200000 0x8000000 ?s = (0x200000, snd (put_page 0x200000 0x8000000 ?s))"
    by (simp add: put_page_def get_free_page_top page_of_3839 prod_eq_iff split_def Let_def)
  from put_page_maps [OF this _ t] show ?thesis by simp
qed


theorem fork_then_exit_witness:
  "\<exists>s1 s2. copy_page_tables 0x4000000 0x8000000 0x400000
      (mm_example (\<lambda>a. if a = 0x40 then 0x200007 else if a = 0x200000 then 0x300007 else 0)) = Inr (0, s1) \<and>
    free_page_tables 0x8000000 0x400000 s1 = Inr (0, s2) \<and>
    mem_map s2 = mem_map (mm_example (\<lambda>_. 0))"
proof -
  let ?m = "\<lambda>a::u32. if a = 0x40 then 0x200007 else if a = 0x200000 then 0x300007 else 0::u32"
  let ?s = "mm_example ?m"
  have d: "dir_entry 0x4000000 = 0x40" "dir_entry 0x8000000 = 0x80"
    by (simp_all add: dir_entry_def)
  have fr: "frame 0x200007 = 0x200000" "frame 0x300007 = 0x300000" "frame 0x200000 = 0x200000"
    by (simp_all add: frame_numeral)
  have e: "?m (entry 0x200000 k) = (if k = 0 then 0x300007 else 0)" if "k < 1024" for k
    using entry_inj [OF that, of 0 "0x200000"] dir_entry_not_entry [OF fr(3) _ that, of "0x4000000"]
    by (auto simp: d)
  have r: "refs (\<lambda>k. ?m (entry 0x200000 k)) 1024 i \<le> 1" for i
  proof -
    have "refs (\<lambda>k. ?m (entry 0x200000 k)) 1024 i
      = (if maps_page (?m (entry 0x200000 0)) i then 1 else 0)
        + refs (\<lambda>k. ?m (entry 0x200000 (Suc k))) 1023 i"
      using refs.simps(2) [of "\<lambda>k. ?m (entry 0x200000 k)" 1023 i] by simp
    moreover have "refs (\<lambda>k. ?m (entry 0x200000 (Suc k))) 1023 i = 0"
      by (rule refs_not_present) (use e in simp)
    ultimately show ?thesis by simp
  qed
  have hi: "page_of 3839 < 0x1000000" by (simp add: page_of_3839)
  have pr: "present 0x200007" by (simp add: present_def)
  have u: "unat (if (i::nat) = 3839 then 0 else 2 :: u8) + refs (\<lambda>k. ?m (entry 0x200000 k)) 1024 i < 255" for i
    using r [of i] by auto
  have p: "frame (pmem ?s (dir_entry 0x4000000)) = 0x200000" by (simp add: d fr)
  have ok: "region_ok 0x4000000 0x8000000 ?s"
    unfolding region_ok_def Let_def p unfolding mm_example_simps
    using u hi pr e by (auto simp: d fr page_of_3839 split: if_splits)
  show ?thesis
    using fork_then_exit [OF ok, of 3839] by (simp add: PAGING_PAGES_def)
qed

end
