(* ===== verification/Kstate.thy ===== *)
theory Kstate imports Memory begin

text \<open>
  The data structures of include/linux/fs.h and include/linux/sched.h and the one global state
  the kernel functions share: buffer cache, inode table, super blocks, open files, tasks,
  physical memory, the user segment of the running task and the clock.

  A pointer to an element of a C array (a buffer head, an inode, an open file, a task) is the
  index of the element, the null pointer is \<open>None\<close>. Bytes the code only ever sets to 0 or 1
  (\<open>b_uptodate\<close>, \<open>i_dirt\<close>, \<open>s_lock\<close>, ...) are booleans; counters and
  numbers keep their C width. The wait queue heads (\<open>b_wait\<close>, \<open>i_wait\<close>,
  \<open>s_wait\<close>) are not part of this state: in a sequential run nobody waits.
\<close>

section \<open>Buffers\<close>

text \<open>The 1024 bytes of a block, indexed from 0.\<close>

type_synonym block = "nat \<Rightarrow> u8"

definition BLOCK_SIZE :: nat where "BLOCK_SIZE = 1024"
definition NR_HASH :: nat where "NR_HASH = 307"
definition NR_INODE :: nat where "NR_INODE = 32"
definition NR_FILE :: nat where "NR_FILE = 64"
definition NR_OPEN :: nat where "NR_OPEN = 20"
definition NR_SUPER :: nat where "NR_SUPER = 8"
definition NR_TASKS :: nat where "NR_TASKS = 64"
definition I_MAP_SLOTS :: nat where "I_MAP_SLOTS = 8"
definition Z_MAP_SLOTS :: nat where "Z_MAP_SLOTS = 8"
definition SUPER_MAGIC :: u16 where "SUPER_MAGIC = 0x137F"
definition ROOT_INO :: u16 where "ROOT_INO = 1"

definition MAJOR :: "u16 \<Rightarrow> nat" where "MAJOR dev = unat dev div 256"
definition MINOR :: "u16 \<Rightarrow> nat" where "MINOR dev = unat dev mod 256"

record buffer_head =
  b_data :: block
  b_blocknr :: u32
  b_dev :: u16
  b_uptodate :: bool
  b_dirt :: bool
  b_count :: u8
  b_lock :: bool
  b_prev :: "nat option"
  b_next :: "nat option"
  b_prev_free :: "nat option"
  b_next_free :: "nat option"

section \<open>Inodes, open files, super blocks\<close>

record m_inode =
  i_mode :: u16
  i_uid :: u16
  i_size :: u32
  i_mtime :: u32
  i_gid :: u8
  i_nlinks :: u8
  i_zone :: "nat \<Rightarrow> u16"
  i_atime :: u32
  i_ctime :: u32
  i_dev :: u16
  i_num :: u16
  i_count :: u16
  i_lock :: bool
  i_dirt :: bool
  i_pipe :: bool
  i_mount :: bool

definition zero_inode :: m_inode where
  "zero_inode = \<lparr>i_mode = 0, i_uid = 0, i_size = 0, i_mtime = 0, i_gid = 0, i_nlinks = 0,
     i_zone = (\<lambda>_. 0), i_atime = 0, i_ctime = 0, i_dev = 0, i_num = 0, i_count = 0,
     i_lock = False, i_dirt = False, i_pipe = False, i_mount = False\<rparr>"

record file_struct =
  f_mode :: u16
  f_flags :: u16
  f_count :: u16
  f_inode :: "nat option"
  f_pos :: u32

record super_block =
  s_ninodes :: u16
  s_nzones :: u16
  s_imap_blocks :: u16
  s_zmap_blocks :: u16
  s_firstdatazone :: u16
  s_log_zone_size :: u16
  s_max_size :: u32
  s_magic :: u16
  s_imap :: "nat \<Rightarrow> nat option"
  s_zmap :: "nat \<Rightarrow> nat option"
  s_dev :: u16
  s_isup :: "nat option"
  s_imount :: "nat option"
  s_time :: u32
  s_lock :: bool
  s_rd_only :: bool
  s_dirt :: bool

section \<open>Tasks\<close>

datatype task_state = RUNNING | INTERRUPTIBLE | UNINTERRUPTIBLE | ZOMBIE | STOPPED

record sigaction =
  sa_handler :: u32
  sa_mask :: u32
  sa_flags :: u32
  sa_restorer :: u32

record tss_struct =
  back_link :: u32
  esp0 :: u32
  ss0 :: u32
  r_eip :: u32
  r_eflags :: u32
  r_eax :: u32
  r_ecx :: u32
  r_edx :: u32
  r_ebx :: u32
  r_esp :: u32
  r_ebp :: u32
  r_esi :: u32
  r_edi :: u32
  r_es :: u32
  r_cs :: u32
  r_ss :: u32
  r_ds :: u32
  r_fs :: u32
  r_gs :: u32
  r_ldt :: u32
  trace_bitmap :: u32

text \<open>
  Of the local descriptor table the model keeps the base and the limit of the code segment
  (entry 1) and of the data segment (entry 2). \<open>t_page\<close> is the address of the page that
  holds the structure.
\<close>

record task_struct =
  t_state :: task_state
  t_counter :: u32
  t_priority :: u32
  t_signal :: u32
  t_sigaction :: "nat \<Rightarrow> sigaction"
  t_blocked :: u32
  t_exit_code :: u32
  t_start_code :: u32
  t_end_code :: u32
  t_end_data :: u32
  t_brk :: u32
  t_start_stack :: u32
  t_pid :: u32
  t_father :: u32
  t_pgrp :: u32
  t_session :: u32
  t_leader :: bool
  t_uid :: u16
  t_euid :: u16
  t_suid :: u16
  t_gid :: u16
  t_egid :: u16
  t_sgid :: u16
  t_alarm :: u32
  t_utime :: u32
  t_stime :: u32
  t_cutime :: u32
  t_cstime :: u32
  t_start_time :: u32
  t_tty :: u32
  t_used_math :: bool
  t_umask :: u16
  t_pwd :: "nat option"
  t_root :: "nat option"
  t_executable :: "nat option"
  t_close_on_exec :: u32
  t_filp :: "nat \<Rightarrow> nat option"
  t_code_base :: u32
  t_code_limit :: u32
  t_data_base :: u32
  t_data_limit :: u32
  t_tss :: tss_struct
  t_page :: u32

section \<open>Terminals\<close>

record tty_queue =
  q_data :: u32
  q_head :: u32
  q_tail :: u32
  q_buf :: "nat \<Rightarrow> u8"

record termios =
  c_iflag :: u32
  c_oflag :: u32
  c_cflag :: u32
  c_lflag :: u32
  c_line :: u8
  c_cc :: "nat \<Rightarrow> u8"

record tty_struct =
  tt_termios :: termios
  tt_pgrp :: u32
  tt_stopped :: bool
  read_q :: tty_queue
  write_q :: tty_queue
  secondary :: tty_queue

section \<open>The console\<close>

text \<open>
  The static variables of kernel/chr_drv/console.c. \<open>vram\<close> is the memory its routines store
  characters in, by address; the code writes only the part between \<open>video_mem_start\<close> and
  \<open>video_mem_end\<close>. \<open>con_npar\<close> counts the parameters of an escape sequence, at most 16.
\<close>

record console =
  video_type :: u8
  video_num_columns :: u32
  video_size_row :: u32
  video_num_lines :: u32
  video_page :: u8
  video_mem_start :: u32
  video_mem_end :: u32
  video_port_reg :: u16
  video_port_val :: u16
  video_erase_char :: u16
  con_origin :: u32
  con_scr_end :: u32
  con_pos :: u32
  con_x :: u32
  con_y :: u32
  con_top :: u32
  con_bottom :: u32
  con_state :: u32
  con_npar :: nat
  con_par :: "nat \<Rightarrow> u32"
  con_ques :: bool
  con_attr :: u8
  saved_x :: u32
  saved_y :: u32
  beepcount :: u32
  vram :: "u32 \<Rightarrow> u8"

section \<open>The kernel state\<close>

text \<open>
  \<open>null_b_prev\<close> is the word at address 20, which \<open>insert_into_queues\<close> writes through
  a null buffer pointer. \<open>disk\<close> is what the block devices hold: \<open>None\<close> for a block
  that cannot be read or written. \<open>has_driver\<close> says for which major numbers
  \<open>blk_dev[major].request_fn\<close> is set. \<open>disk_changed\<close> is the disk-change line of
  each floppy drive, \<open>in_port\<close> what a read of an I/O port gives and \<open>out_log\<close> the bytes
  written to ports, the last one first. \<open>cr_flag\<close> is the static variable of \<open>tty_write\<close>.
\<close>

record kst =
  buffers :: "nat \<Rightarrow> buffer_head"
  nr_buffers :: nat
  hash_table :: "nat \<Rightarrow> nat option"
  free_list :: "nat option"
  null_b_prev :: "nat option"
  disk :: "u16 \<Rightarrow> u32 \<Rightarrow> block option"
  has_driver :: "nat \<Rightarrow> bool"
  inode_table :: "nat \<Rightarrow> m_inode"
  last_inode :: nat
  super_block :: "nat \<Rightarrow> super_block"
  ROOT_DEV :: u16
  file_table :: "nat \<Rightarrow> file_struct"
  mem :: mm
  umem :: "u32 \<Rightarrow> u8"
  task :: "nat \<Rightarrow> task_struct option"
  current :: nat
  jiffies :: u32
  startup_time :: u32
  last_pid :: u32
  last_task_used_math :: "nat option"
  tty_table :: "nat \<Rightarrow> tty_struct"
  cr_flag :: bool
  disk_changed :: "nat \<Rightarrow> bool"
  in_port :: "u32 \<Rightarrow> u8"
  out_log :: "(u32 \<times> u8) list"
  cons :: console

definition HZ :: nat where "HZ = 100"

definition CURRENT_TIME :: "kst \<Rightarrow> u32" where
  "CURRENT_TIME s = startup_time s + word_of_int (sint (jiffies s) sdiv int HZ)"

definition upd_buf :: "nat \<Rightarrow> (buffer_head \<Rightarrow> buffer_head) \<Rightarrow> kst \<Rightarrow> kst" where
  "upd_buf b f s = s\<lparr>buffers := (buffers s)(b := f (buffers s b))\<rparr>"

definition upd_inode :: "nat \<Rightarrow> (m_inode \<Rightarrow> m_inode) \<Rightarrow> kst \<Rightarrow> kst" where
  "upd_inode i f s = s\<lparr>inode_table := (inode_table s)(i := f (inode_table s i))\<rparr>"

definition upd_file :: "nat \<Rightarrow> (file_struct \<Rightarrow> file_struct) \<Rightarrow> kst \<Rightarrow> kst" where
  "upd_file i f s = s\<lparr>file_table := (file_table s)(i := f (file_table s i))\<rparr>"

definition upd_super :: "nat \<Rightarrow> (super_block \<Rightarrow> super_block) \<Rightarrow> kst \<Rightarrow> kst" where
  "upd_super i f s = s\<lparr>super_block := (super_block s)(i := f (super_block s i))\<rparr>"

definition upd_cons :: "(console \<Rightarrow> console) \<Rightarrow> kst \<Rightarrow> kst" where
  "upd_cons f s = s\<lparr>cons := f (cons s)\<rparr>"

definition cur :: "kst \<Rightarrow> task_struct" where
  "cur s = the (task s (current s))"

definition upd_task :: "nat \<Rightarrow> (task_struct \<Rightarrow> task_struct) \<Rightarrow> kst \<Rightarrow> kst" where
  "upd_task n f s = s\<lparr>task := (task s)(n := map_option f (task s n))\<rparr>"

definition upd_cur :: "(task_struct \<Rightarrow> task_struct) \<Rightarrow> kst \<Rightarrow> kst" where
  "upd_cur f s = upd_task (current s) f s"

definition suser :: "kst \<Rightarrow> bool" where
  "suser s \<longleftrightarrow> t_euid (cur s) = 0"

text \<open>I/O ports: \<open>outb\<close>, \<open>outb_p\<close>, \<open>inb\<close> and \<open>inb_p\<close>.\<close>

definition outb :: "u8 \<Rightarrow> u32 \<Rightarrow> kst \<Rightarrow> kst" where
  "outb v p s = s\<lparr>out_log := (p AND 0xffff, v) # out_log s\<rparr>"

definition inb :: "u32 \<Rightarrow> kst \<Rightarrow> u8" where
  "inb p s = in_port s (p AND 0xffff)"

text \<open>
  \<open>sleep_on()\<close> and \<open>interruptible_sleep_on()\<close> as a sequential run sees them: the task gives the
  processor away; task 0 may not sleep.
\<close>

definition sleep_on :: "kst \<Rightarrow> 'a kres" where
  "sleep_on s = Inl (if current s = 0 then Panic ''task[0] trying to sleep'' else Sleep)"

lemma sleep_on_Inr [simp]: "sleep_on s \<noteq> Inr x" "Inr x \<noteq> sleep_on s"
  by (simp_all add: sleep_on_def)

lemma bindk_sleep_on [simp]: "bindk (sleep_on s) f = sleep_on s"
  by (simp add: sleep_on_def)

section \<open>Little-endian fields of a block\<close>

definition get16 :: "block \<Rightarrow> nat \<Rightarrow> u16" where
  "get16 d k = ucast (d k) OR push_bit 8 (ucast (d (k + 1)))"

definition put16 :: "nat \<Rightarrow> u16 \<Rightarrow> block \<Rightarrow> block" where
  "put16 k v d = d(k := ucast v, k + 1 := ucast (drop_bit 8 v))"

definition get32 :: "block \<Rightarrow> nat \<Rightarrow> u32" where
  "get32 d k = ucast (get16 d k) OR push_bit 16 (ucast (get16 d (k + 2)))"

definition put32 :: "nat \<Rightarrow> u32 \<Rightarrow> block \<Rightarrow> block" where
  "put32 k v d = put16 (k + 2) (ucast (drop_bit 16 v)) (put16 k (ucast v) d)"

end
