(* ===== verification/Usermem.thy ===== *)
theory Usermem imports Kstate begin

text \<open>
  Access to user memory (include/asm/segment.h), \<open>verify_area\<close> of kernel/fork.c, the error
  numbers of include/errno.h and single bytes of physical memory. \<open>umem\<close> is the user segment
  of the running task as the processor shows it: page faults on it are resolved without a trace here.
\<close>

section \<open>Error numbers\<close>

definition ERROR :: nat where "ERROR = 99"
definition EPERM :: nat where "EPERM = 1"
definition ENOENT :: nat where "ENOENT = 2"
definition ESRCH :: nat where "ESRCH = 3"
definition EINTR :: nat where "EINTR = 4"
definition EIO :: nat where "EIO = 5"
definition EBADF :: nat where "EBADF = 9"
definition ECHILD :: nat where "ECHILD = 10"
definition EAGAIN :: nat where "EAGAIN = 11"
definition ENOMEM :: nat where "ENOMEM = 12"
definition EACCES :: nat where "EACCES = 13"
definition ENOTBLK :: nat where "ENOTBLK = 15"
definition EBUSY :: nat where "EBUSY = 16"
definition EEXIST :: nat where "EEXIST = 17"
definition EXDEV :: nat where "EXDEV = 18"
definition ENODEV :: nat where "ENODEV = 19"
definition ENOTDIR :: nat where "ENOTDIR = 20"
definition EISDIR :: nat where "EISDIR = 21"
definition EINVAL :: nat where "EINVAL = 22"
definition EMFILE :: nat where "EMFILE = 24"
definition ENOTTY :: nat where "ENOTTY = 25"
definition ENOSPC :: nat where "ENOSPC = 28"
definition ESPIPE :: nat where "ESPIPE = 29"
definition ENOSYS :: nat where "ENOSYS = 38"
definition ENOTEMPTY :: nat where "ENOTEMPTY = 39"

section \<open>User memory\<close>

definition get_fs_byte :: "u32 \<Rightarrow> kst \<Rightarrow> u8" where
  "get_fs_byte a s = umem s a"

definition get_fs_long :: "u32 \<Rightarrow> kst \<Rightarrow> u32" where
  "get_fs_long a s = ucast (umem s a) OR push_bit 8 (ucast (umem s (a + 1))) OR
     push_bit 16 (ucast (umem s (a + 2))) OR push_bit 24 (ucast (umem s (a + 3)))"

definition put_fs_byte :: "u8 \<Rightarrow> u32 \<Rightarrow> kst \<Rightarrow> kst" where
  "put_fs_byte v a s = s\<lparr>umem := (umem s)(a := v)\<rparr>"

definition put_fs_long :: "u32 \<Rightarrow> u32 \<Rightarrow> kst \<Rightarrow> kst" where
  "put_fs_long v a s =
     s\<lparr>umem := (umem s)(a := ucast v, a + 1 := ucast (drop_bit 8 v), a + 2 := ucast (drop_bit 16 v),
       a + 3 := ucast (drop_bit 24 v))\<rparr>"

text \<open>
  The loops \<open>while (chars-- > 0) put_fs_byte(*(p++),buf++)\<close> and
  \<open>while (chars-- > 0) *(p++) = get_fs_byte(buf++)\<close> on the bytes of a block, from index \<open>k\<close>.
\<close>

primrec copy_out :: "nat \<Rightarrow> (nat \<Rightarrow> u8) \<Rightarrow> nat \<Rightarrow> u32 \<Rightarrow> (u32 \<Rightarrow> u8) \<Rightarrow> (u32 \<Rightarrow> u8)" where
  "copy_out 0 d k a m = m"
| "copy_out (Suc n) d k a m = copy_out n d (k + 1) (a + 1) (m(a := d k))"

primrec copy_in :: "nat \<Rightarrow> (u32 \<Rightarrow> u8) \<Rightarrow> u32 \<Rightarrow> nat \<Rightarrow> (nat \<Rightarrow> u8) \<Rightarrow> (nat \<Rightarrow> u8)" where
  "copy_in 0 m a k d = d"
| "copy_in (Suc n) m a k d = copy_in n m (a + 1) (k + 1) (d(k := m a))"

definition put_user :: "nat \<Rightarrow> (nat \<Rightarrow> u8) \<Rightarrow> nat \<Rightarrow> u32 \<Rightarrow> kst \<Rightarrow> kst" where
  "put_user n d k a s = s\<lparr>umem := copy_out n d k a (umem s)\<rparr>"

section \<open>verify_area\<close>

primrec verify_loop :: "nat \<Rightarrow> u32 \<Rightarrow> mm \<Rightarrow> mm kres" where
  "verify_loop 0 start m = Inr m"
| "verify_loop (Suc n) start m = bindk (write_verify start m) (verify_loop n (start + 4096))"

definition verify_area :: "u32 \<Rightarrow> u32 \<Rightarrow> kst \<Rightarrow> kst kres" where
  "verify_area addr sz s =
     (let sz = sz + (addr AND 0xfff);
          start = (addr AND 0xfffff000) + t_data_base (cur s);
          n = (if sz \<le>s 0 then 0 else (unat sz + 4095) div 4096)
      in bindk (verify_loop n start (mem s)) (\<lambda>m. Inr (s\<lparr>mem := m\<rparr>)))"

section \<open>Bytes of physical memory\<close>

definition load8 :: "u32 \<Rightarrow> mm \<Rightarrow> u8" where
  "load8 a m = ucast (drop_bit (8 * unat (a AND 3)) (pmem m (a AND NOT 3)))"

definition store8 :: "u32 \<Rightarrow> u8 \<Rightarrow> mm \<Rightarrow> mm" where
  "store8 a v m =
     (let k = 8 * unat (a AND 3); w = pmem m (a AND NOT 3)
      in store (a AND NOT 3) ((w AND NOT (push_bit k 0xff)) OR push_bit k (ucast v)) m)"

section \<open>Division of signed words as C does it\<close>

definition sdiv_w :: "u32 \<Rightarrow> int \<Rightarrow> u32" where
  "sdiv_w a k = word_of_int (sint a sdiv k)"

section \<open>Open files of the running task\<close>

definition cur_filp :: "nat \<Rightarrow> kst \<Rightarrow> nat option" where
  "cur_filp fd s = t_filp (cur s) fd"

definition set_filp :: "nat \<Rightarrow> nat option \<Rightarrow> kst \<Rightarrow> kst" where
  "set_filp fd f s = upd_cur (\<lambda>t. t\<lparr>t_filp := (t_filp t)(fd := f)\<rparr>) s"

end
