(* ===== verification/Sched.thy ===== *)
theory Sched imports Usermem begin

text \<open>
  kernel/sched.c: the scheduler, sleeping and waking, the clock interrupt with the kernel timers, and
  the small system calls of that file. Switching the processor to another task (\<open>switch_to\<close>) is the
  assignment to \<open>current\<close>; the task structures keep their contents.
\<close>

section \<open>schedule\<close>

definition SIGKILL :: nat where "SIGKILL = 9"
definition SIGALRM :: nat where "SIGALRM = 14"
definition SIGSTOP :: nat where "SIGSTOP = 19"

definition sig_bit :: "nat \<Rightarrow> u32" where "sig_bit sig = push_bit (sig - 1) 1"

definition BLOCKABLE :: u32 where
  "BLOCKABLE = NOT (sig_bit SIGKILL OR sig_bit SIGSTOP)"

text \<open>The first loop: alarms that have expired, and interruptible tasks that got a signal.\<close>

definition check_task :: "u32 \<Rightarrow> task_struct \<Rightarrow> task_struct" where
  "check_task now t =
     (let t = (if t_alarm t \<noteq> 0 \<and> t_alarm t <s now
               then t\<lparr>t_signal := t_signal t OR sig_bit SIGALRM, t_alarm := 0\<rparr> else t)
      in if t_signal t AND NOT (BLOCKABLE AND t_blocked t) \<noteq> 0 \<and> t_state t = INTERRUPTIBLE
         then t\<lparr>t_state := RUNNING\<rparr> else t)"

definition map_tasks :: "(task_struct \<Rightarrow> task_struct) \<Rightarrow> kst \<Rightarrow> kst" where
  "map_tasks f s =
     s\<lparr>task := (\<lambda>i. if 0 < i \<and> i < NR_TASKS then map_option f (task s i) else task s i)\<rparr>"

definition check_signals :: "kst \<Rightarrow> kst" where
  "check_signals s = map_tasks (check_task (jiffies s)) s"

text \<open>The search from the last task down to task 1 for the greatest counter above \<open>c\<close>.\<close>

primrec pick :: "nat \<Rightarrow> int \<Rightarrow> nat \<Rightarrow> kst \<Rightarrow> int \<times> nat" where
  "pick 0 c next s = (c, next)"
| "pick (Suc i) c next s =
     (case task s (Suc i) of
        None \<Rightarrow> pick i c next s
      | Some t \<Rightarrow> if t_state t = RUNNING \<and> c < sint (t_counter t) then pick i (sint (t_counter t)) (Suc i) s
                  else pick i c next s)"

definition recharge :: "kst \<Rightarrow> kst" where
  "recharge = map_tasks (\<lambda>t. t\<lparr>t_counter := signed_drop_bit 1 (t_counter t) + t_priority t\<rparr>)"

text \<open>The loop \<open>while (1)\<close>; it need not end, then the value is \<open>None\<close>.\<close>

partial_function (option) sched_loop :: "kst \<Rightarrow> (nat \<times> kst) option" where
  "sched_loop s =
     (let (c, next) = pick (NR_TASKS - 1) (- 1) 0 s
      in if c \<noteq> 0 then Some (next, s) else sched_loop (recharge s))"

definition schedule :: "kst \<Rightarrow> kst option" where
  "schedule s = map_option (\<lambda>(next, s). s\<lparr>current := next\<rparr>) (sched_loop (check_signals s))"

text \<open>\<open>schedule()\<close> called by a task that goes on when it is chosen again at once.\<close>

definition yield_cpu :: "kst \<Rightarrow> kst kres" where
  "yield_cpu s = (case schedule s of None \<Rightarrow> Inl Hang
     | Some t \<Rightarrow> if current t = current s then Inr t else Inl Sleep)"

section \<open>Sleeping and waking\<close>

text \<open>
  \<open>sleep_on(p)\<close> up to its call of \<open>schedule\<close> and from there on: the first half returns the old
  and the new value of \<open>*p\<close>.
\<close>

definition sleep_enter :: "task_state \<Rightarrow> nat option \<Rightarrow> kst \<Rightarrow> (nat option \<times> nat option \<times> kst) kres" where
  "sleep_enter st p s =
     (if current s = 0 then Inl (Panic ''task[0] trying to sleep'')
      else Inr (p, Some (current s), upd_cur (\<lambda>t. t\<lparr>t_state := st\<rparr>) s))"

definition make_running :: "nat option \<Rightarrow> kst \<Rightarrow> kst" where
  "make_running tmp s = (case tmp of None \<Rightarrow> s | Some n \<Rightarrow> upd_task n (\<lambda>t. t\<lparr>t_state := RUNNING\<rparr>) s)"

definition sleep_leave :: "nat option \<Rightarrow> kst \<Rightarrow> kst" where
  "sleep_leave tmp s = make_running tmp s"

text \<open>The end of \<open>interruptible_sleep_on\<close>: sleep again behind a later sleeper, or leave.\<close>

definition interruptible_leave :: "nat option \<Rightarrow> nat option \<Rightarrow> kst \<Rightarrow> (bool \<times> nat option \<times> kst)" where
  "interruptible_leave tmp p s =
     (if p \<noteq> None \<and> p \<noteq> Some (current s)
      then (True, p, upd_cur (\<lambda>t. t\<lparr>t_state := INTERRUPTIBLE\<rparr>) (make_running p s))
      else (False, None, make_running tmp s))"

definition wake_up :: "nat option \<Rightarrow> kst \<Rightarrow> nat option \<times> kst" where
  "wake_up p s = (None, make_running p s)"

definition sys_pause :: "kst \<Rightarrow> (u32 \<times> kst) kres" where
  "sys_pause s = bindk (yield_cpu (upd_cur (\<lambda>t. t\<lparr>t_state := INTERRUPTIBLE\<rparr>) s)) (\<lambda>s. Inr (0, s))"

section \<open>Timers\<close>

text \<open>
  The kernel timers and the floppy motor timers. A timer function is a number, \<open>None\<close> marks a free
  entry of \<open>timer_list\<close>; the list is kept in the order of expiry, each entry with the ticks after
  the entry before it.
\<close>

record timer_entry =
  tm_jiffies :: u32
  tm_fn :: "nat option"
  tm_next :: "nat option"

record timers =
  timer_list :: "nat \<Rightarrow> timer_entry"
  next_timer :: "nat option"
  wait_motor :: "nat \<Rightarrow> nat option"
  mon_timer :: "nat \<Rightarrow> u32"
  moff_timer :: "nat \<Rightarrow> u32"
  current_DOR :: u8
  fd_selected :: bool

definition TIME_REQUESTS :: nat where "TIME_REQUESTS = 64"

definition upd_timer :: "nat \<Rightarrow> (timer_entry \<Rightarrow> timer_entry) \<Rightarrow> timers \<Rightarrow> timers" where
  "upd_timer i f t = t\<lparr>timer_list := (timer_list t)(i := f (timer_list t i))\<rparr>"

primrec free_timer :: "nat \<Rightarrow> nat \<Rightarrow> timers \<Rightarrow> nat option" where
  "free_timer 0 i t = None"
| "free_timer (Suc n) i t = (if tm_fn (timer_list t i) = None then Some i else free_timer n (Suc i) t)"

text \<open>
  The sorting loop of \<open>add_timer\<close>: the new time moves down the list, entry by entry. The list has at
  most 64 entries.
\<close>

primrec sift_timer :: "nat \<Rightarrow> nat \<Rightarrow> timers \<Rightarrow> timers" where
  "sift_timer 0 p t = t"
| "sift_timer (Suc n) p t =
     (case tm_next (timer_list t p) of None \<Rightarrow> t
      | Some q \<Rightarrow>
        let a = timer_list t p; b = timer_list t q in
        if \<not> tm_jiffies b <s tm_jiffies a then t
        else
          let rest = tm_jiffies a - tm_jiffies b;
              t = upd_timer p (\<lambda>e. e\<lparr>tm_jiffies := tm_jiffies b, tm_fn := tm_fn b\<rparr>) t;
              t = upd_timer q (\<lambda>e. e\<lparr>tm_jiffies := rest, tm_fn := tm_fn a\<rparr>) t
          in sift_timer n q t)"

text \<open>A timer that is due at once is called; \<open>call\<close> says what the timer functions do.\<close>

definition add_timer :: "(nat \<Rightarrow> timers \<Rightarrow> timers) \<Rightarrow> u32 \<Rightarrow> nat option \<Rightarrow> timers \<Rightarrow> timers kres" where
  "add_timer call ticks fn t =
     (case fn of None \<Rightarrow> Inr t
      | Some f \<Rightarrow>
        if ticks \<le>s 0 then Inr (call f t)
        else (case free_timer TIME_REQUESTS 0 t of
            None \<Rightarrow> Inl (Panic ''No more time requests free'')
          | Some p \<Rightarrow>
              Inr (sift_timer TIME_REQUESTS p
                ((upd_timer p (\<lambda>e. \<lparr>tm_jiffies = ticks, tm_fn = Some f, tm_next = next_timer t\<rparr>) t)
                   \<lparr>next_timer := Some p\<rparr>))))"

text \<open>
  The timer part of \<open>do_timer\<close>: the entries that are due are freed and called in turn. A timer
  function may add timers, so the loop has a fuel; it ends when the head is not due.
\<close>

primrec expire :: "nat \<Rightarrow> (nat \<Rightarrow> timers \<Rightarrow> timers) \<Rightarrow> timers \<Rightarrow> timers kres" where
  "expire 0 call t = Inl Hang"
| "expire (Suc n) call t =
     (case next_timer t of None \<Rightarrow> Inr t
      | Some p \<Rightarrow>
        let e = timer_list t p in
        if \<not> tm_jiffies e \<le>s 0 then Inr t
        else
          let t = (upd_timer p (\<lambda>e. e\<lparr>tm_fn := None\<rparr>) t)\<lparr>next_timer := tm_next e\<rparr>
          in expire n call (case tm_fn e of None \<Rightarrow> t | Some f \<Rightarrow> call f t))"

definition run_timers :: "nat \<Rightarrow> (nat \<Rightarrow> timers \<Rightarrow> timers) \<Rightarrow> timers \<Rightarrow> timers kres" where
  "run_timers n call t =
     (case next_timer t of None \<Rightarrow> Inr t
      | Some p \<Rightarrow> expire n call (upd_timer p (\<lambda>e. e\<lparr>tm_jiffies := tm_jiffies e - 1\<rparr>) t))"

section \<open>The floppy motor\<close>

definition FD_DOR :: u32 where "FD_DOR = 0x3f2"

text \<open>The second component of the result is the byte written to the digital output register, if any.\<close>

definition ticks_to_floppy_on :: "nat \<Rightarrow> timers \<Rightarrow> (u32 \<times> u8 option \<times> timers) kres" where
  "ticks_to_floppy_on nr t =
     (if 3 < nr then Inl (Panic ''floppy_on: nr>3'')
      else
        let t = t\<lparr>moff_timer := (moff_timer t)(nr := 10000)\<rparr>;
            m = push_bit nr 0x10 OR current_DOR t;
            m = (if \<not> fd_selected t then (m AND 0xFC) OR of_nat nr else m)
        in if m = current_DOR t then Inr (mon_timer t nr, None, t)
           else
             let t = (if (m XOR current_DOR t) AND 0xf0 \<noteq> 0
                      then t\<lparr>mon_timer := (mon_timer t)(nr := of_nat (HZ div 2))\<rparr>
                      else if mon_timer t nr <s 2 then t\<lparr>mon_timer := (mon_timer t)(nr := 2)\<rparr> else t)
             in Inr (mon_timer t nr, Some m, t\<lparr>current_DOR := m\<rparr>))"

definition floppy_off :: "nat \<Rightarrow> timers \<Rightarrow> timers" where
  "floppy_off nr t = t\<lparr>moff_timer := (moff_timer t)(nr := of_nat (3 * HZ))\<rparr>"

primrec floppy_timer_loop :: "nat \<Rightarrow> nat \<Rightarrow> timers \<times> kst \<Rightarrow> timers \<times> kst" where
  "floppy_timer_loop 0 i ts = ts"
| "floppy_timer_loop (Suc n) i ts =
     floppy_timer_loop n (Suc i)
       (let (t, s) = ts; m = push_bit i 0x10 in
        if m AND current_DOR t = 0 then (t, s)
        else if mon_timer t i \<noteq> 0 then
          let t = t\<lparr>mon_timer := (mon_timer t)(i := mon_timer t i - 1)\<rparr>
          in if mon_timer t i = 0
             then (t\<lparr>wait_motor := (wait_motor t)(i := None)\<rparr>, make_running (wait_motor t i) s) else (t, s)
        else if moff_timer t i = 0 then
          let t = t\<lparr>current_DOR := current_DOR t AND NOT m\<rparr>
          in (t, s\<lparr>out_log := (FD_DOR, current_DOR t) # out_log s\<rparr>)
        else (t\<lparr>moff_timer := (moff_timer t)(i := moff_timer t i - 1)\<rparr>, s))"

definition do_floppy_timer :: "timers \<times> kst \<Rightarrow> timers \<times> kst" where
  "do_floppy_timer = floppy_timer_loop 4 0"

section \<open>The clock interrupt\<close>

definition account :: "bool \<Rightarrow> kst \<Rightarrow> kst" where
  "account cpl s =
     upd_cur (\<lambda>t. if cpl then t\<lparr>t_utime := t_utime t + 1\<rparr> else t\<lparr>t_stime := t_stime t + 1\<rparr>) s"

text \<open>
  \<open>do_timer\<close>: \<open>cpl\<close> says whether the processor was in user mode. The last step may call the
  scheduler, whose result is the state in which the chosen task goes on.
\<close>

definition sysbeepstop :: "kst \<Rightarrow> kst" where
  "sysbeepstop s = outb (inb 0x61 s AND 0xfc) 0x61 s"

definition beep_tick :: "kst \<Rightarrow> kst" where
  "beep_tick s =
     (if beepcount (cons s) = 0 then s
      else
        let s = upd_cons (\<lambda>c. c\<lparr>beepcount := beepcount c - 1\<rparr>) s
        in if beepcount (cons s) = 0 then sysbeepstop s else s)"

definition tick_counter :: "bool \<Rightarrow> kst \<Rightarrow> kst kres" where
  "tick_counter cpl s =
     (let s = upd_cur (\<lambda>t. t\<lparr>t_counter := t_counter t - 1\<rparr>) s
      in if 0 <s t_counter (cur s) then Inr s
         else
           let s = upd_cur (\<lambda>t. t\<lparr>t_counter := 0\<rparr>) s
           in if \<not> cpl then Inr s else (case schedule s of None \<Rightarrow> Inl Hang | Some s \<Rightarrow> Inr s))"

definition do_timer :: "nat \<Rightarrow> (nat \<Rightarrow> timers \<Rightarrow> timers) \<Rightarrow> bool \<Rightarrow> timers \<times> kst \<Rightarrow> (timers \<times> kst) kres" where
  "do_timer n call cpl ts =
     (let (t, s) = ts; s = account cpl (beep_tick s) in
      bindk (run_timers n call t) (\<lambda>t.
      let (t, s) = (if current_DOR t AND 0xf0 \<noteq> 0 then do_floppy_timer (t, s) else (t, s))
      in bindk (tick_counter cpl s) (\<lambda>s. Inr (t, s))))"

section \<open>System calls\<close>

definition sys_alarm :: "u32 \<Rightarrow> kst \<Rightarrow> u32 \<times> kst" where
  "sys_alarm seconds s =
     (let old = t_alarm (cur s); old = (if old \<noteq> 0 then sdiv_w (old - jiffies s) (int HZ) else old)
      in (old, upd_cur (\<lambda>t. t\<lparr>t_alarm := (if 0 <s seconds then jiffies s + of_nat HZ * seconds else 0)\<rparr>) s))"

definition sys_getpid :: "kst \<Rightarrow> u32 \<times> kst" where "sys_getpid s = (t_pid (cur s), s)"
definition sys_getppid :: "kst \<Rightarrow> u32 \<times> kst" where "sys_getppid s = (t_father (cur s), s)"
definition sys_getuid :: "kst \<Rightarrow> u32 \<times> kst" where "sys_getuid s = (ucast (t_uid (cur s)), s)"
definition sys_geteuid :: "kst \<Rightarrow> u32 \<times> kst" where "sys_geteuid s = (ucast (t_euid (cur s)), s)"
definition sys_getgid :: "kst \<Rightarrow> u32 \<times> kst" where "sys_getgid s = (ucast (t_gid (cur s)), s)"
definition sys_getegid :: "kst \<Rightarrow> u32 \<times> kst" where "sys_getegid s = (ucast (t_egid (cur s)), s)"

definition sys_nice :: "u32 \<Rightarrow> kst \<Rightarrow> u32 \<times> kst" where
  "sys_nice increment s =
     (0, if 0 <s t_priority (cur s) - increment
         then upd_cur (\<lambda>t. t\<lparr>t_priority := t_priority t - increment\<rparr>) s else s)"

text \<open>\<open>math_state_restore\<close>, as far as the task structures record it.\<close>

definition math_state_restore :: "kst \<Rightarrow> kst" where
  "math_state_restore s =
     (if last_task_used_math s = Some (current s) then s
      else
        let s = s\<lparr>last_task_used_math := Some (current s)\<rparr>
        in if t_used_math (cur s) then s else upd_cur (\<lambda>t. t\<lparr>t_used_math := True\<rparr>) s)"

end
