(* ===== verification/Descriptors.thy ===== *)
theory Descriptors imports Sched begin

text \<open>
  The descriptor tables of the processor: include/linux/head.h, the macros of
  include/asm/system.h and include/linux/sched.h that write and read descriptors, and the gates
  of kernel/traps.c, kernel/sched.c and the drivers. A descriptor is its two longs. The addresses of the
  assembly handlers are a parameter \<open>adr\<close>; loading the task register and the
  local table (\<open>ltr\<close>, \<open>lldt\<close>) is left out.
\<close>

section \<open>Descriptors\<close>

record desc_struct =
  d_a :: u32
  d_b :: u32

record desc_tables =
  idt :: "nat \<Rightarrow> desc_struct"
  gdt :: "nat \<Rightarrow> desc_struct"

definition FIRST_TSS_ENTRY :: nat where "FIRST_TSS_ENTRY = 4"
definition FIRST_LDT_ENTRY :: nat where "FIRST_LDT_ENTRY = FIRST_TSS_ENTRY + 1"

definition TSS_selector :: "nat \<Rightarrow> u32" where
  "TSS_selector n = push_bit 4 (of_nat n) + push_bit 3 (of_nat FIRST_TSS_ENTRY)"

text \<open>The macro \<open>str\<close>: the number of the task from the task register.\<close>

definition task_number :: "u32 \<Rightarrow> u32" where
  "task_number tr = drop_bit 4 (tr - push_bit 3 (of_nat FIRST_TSS_ENTRY))"

definition set_base :: "u32 \<Rightarrow> desc_struct \<Rightarrow> desc_struct" where
  "set_base base d =
     \<lparr>d_a = (d_a d AND 0xffff) OR push_bit 16 (base AND 0xffff),
      d_b = (d_b d AND 0x00ffff00) OR (drop_bit 16 base AND 0xff) OR (base AND 0xff000000)\<rparr>"

definition get_base :: "desc_struct \<Rightarrow> u32" where
  "get_base d = drop_bit 16 (d_a d) OR push_bit 16 (d_b d AND 0xff) OR (d_b d AND 0xff000000)"

text \<open>The limit field is a number of pages less one, \<open>(limit-1)>>12\<close>.\<close>

definition put_limit :: "u32 \<Rightarrow> desc_struct \<Rightarrow> desc_struct" where
  "put_limit l d =
     \<lparr>d_a = (d_a d AND 0xffff0000) OR (l AND 0xffff),
      d_b = (d_b d AND 0xfff0ffff) OR push_bit 16 (drop_bit 16 l AND 0xff)\<rparr>"

definition set_limit :: "u32 \<Rightarrow> desc_struct \<Rightarrow> desc_struct" where
  "set_limit limit d = put_limit (drop_bit 12 (limit - 1)) d"

text \<open>The instruction \<open>lsl\<close> counts pages when the granularity bit is set; \<open>get_limit\<close> adds 1.\<close>

definition get_limit :: "desc_struct \<Rightarrow> u32" where
  "get_limit d =
     (let raw = (d_a d AND 0xffff) OR (d_b d AND 0xf0000)
      in (if bit (d_b d) 23 then push_bit 12 raw OR 0xfff else raw) + 1)"

definition set_tssldt_desc :: "u32 \<Rightarrow> u8 \<Rightarrow> desc_struct" where
  "set_tssldt_desc addr typ =
     \<lparr>d_a = 104 OR push_bit 16 (addr AND 0xffff),
      d_b = (drop_bit 16 addr AND 0xff) OR push_bit 8 (ucast typ) OR (addr AND 0xff000000)\<rparr>"

definition set_tss_desc :: "nat \<Rightarrow> u32 \<Rightarrow> desc_tables \<Rightarrow> desc_tables" where
  "set_tss_desc n addr t = t\<lparr>gdt := (gdt t)(n := set_tssldt_desc addr 0x89)\<rparr>"

definition set_ldt_desc :: "nat \<Rightarrow> u32 \<Rightarrow> desc_tables \<Rightarrow> desc_tables" where
  "set_ldt_desc n addr t = t\<lparr>gdt := (gdt t)(n := set_tssldt_desc addr 0x82)\<rparr>"

text \<open>\<open>_set_seg_desc\<close>, which no code uses, stores the upper long first.\<close>

definition set_seg_desc :: "u32 \<Rightarrow> u32 \<Rightarrow> u32 \<Rightarrow> u32 \<Rightarrow> desc_struct" where
  "set_seg_desc typ dpl base limit =
     \<lparr>d_a = (base AND 0xff000000) OR drop_bit 16 (base AND 0x00ff0000) OR (limit AND 0xf0000) OR push_bit 13 dpl OR 0x00408000 OR
            push_bit 8 typ,
      d_b = push_bit 16 (base AND 0x0000ffff) OR (limit AND 0x0ffff)\<rparr>"

text \<open>
  \<open>switch_to(n)\<close>: nothing when \<open>n\<close> is the current task. The flag TS is cleared by the task that goes on
  behind its jump when it is the last that used the coprocessor.
\<close>

definition switch_to :: "nat \<Rightarrow> kst \<Rightarrow> kst" where
  "switch_to n s = (if n = current s then s else s\<lparr>current := n\<rparr>)"

definition clear_ts :: "kst \<Rightarrow> bool" where
  "clear_ts s \<longleftrightarrow> last_task_used_math s = Some (current s)"

lemma schedule_switches: "schedule s = map_option (\<lambda>(next, s). switch_to next s) (sched_loop (check_signals s))"
proof -
  have "switch_to n s = s\<lparr>current := n\<rparr>" for n s by (simp add: switch_to_def)
  then show ?thesis by (simp add: schedule_def)
qed

section \<open>Gates\<close>

definition gate_desc :: "nat \<Rightarrow> nat \<Rightarrow> u32 \<Rightarrow> desc_struct" where
  "gate_desc typ dpl addr =
     \<lparr>d_a = 0x00080000 OR (addr AND 0xffff),
      d_b = (addr AND 0xffff0000) OR of_nat (0x8000 + dpl * 2 ^ 13 + typ * 2 ^ 8)\<rparr>"

definition set_gate :: "nat \<Rightarrow> nat \<Rightarrow> nat \<Rightarrow> u32 \<Rightarrow> desc_tables \<Rightarrow> desc_tables" where
  "set_gate n typ dpl addr t = t\<lparr>idt := (idt t)(n := gate_desc typ dpl addr)\<rparr>"

definition set_intr_gate :: "nat \<Rightarrow> u32 \<Rightarrow> desc_tables \<Rightarrow> desc_tables" where
  "set_intr_gate n addr = set_gate n 14 0 addr"

definition set_trap_gate :: "nat \<Rightarrow> u32 \<Rightarrow> desc_tables \<Rightarrow> desc_tables" where
  "set_trap_gate n addr = set_gate n 15 0 addr"

definition set_system_gate :: "nat \<Rightarrow> u32 \<Rightarrow> desc_tables \<Rightarrow> desc_tables" where
  "set_system_gate n addr = set_gate n 15 3 addr"

text \<open>What the processor reads from a gate: present, the privilege needed to call it, the handler.\<close>

definition gate_present :: "desc_struct \<Rightarrow> bool" where "gate_present d = bit (d_b d) 15"
definition gate_dpl :: "desc_struct \<Rightarrow> u32" where "gate_dpl d = drop_bit 13 (d_b d) AND 3"
definition gate_addr :: "desc_struct \<Rightarrow> u32" where "gate_addr d = (d_b d AND 0xffff0000) OR (d_a d AND 0xffff)"

datatype handler = divide_error | debug | nmi | int3 | overflow | bounds | invalid_op | device_not_available | double_fault
  | coprocessor_segment_overrun | invalid_TSS | segment_not_present | stack_segment | general_protection | page_fault
  | reserved | coprocessor_error | irq13 | parallel_interrupt | timer_gate_entry | system_call_entry | rs1_interrupt | rs2_interrupt
  | keyboard_interrupt | hd_intr_entry | floppy_intr_entry

text \<open>The gates of \<open>trap_init\<close>, in its order; its accesses to the interrupt controllers are \<open>trap_ports\<close>.\<close>

definition trap_init :: "(handler \<Rightarrow> u32) \<Rightarrow> desc_tables \<Rightarrow> desc_tables" where
  "trap_init adr t =
     (let t = set_trap_gate 0 (adr divide_error) t;
          t = set_trap_gate 1 (adr debug) t;
          t = set_trap_gate 2 (adr nmi) t;
          t = set_system_gate 3 (adr int3) t;
          t = set_system_gate 4 (adr overflow) t;
          t = set_system_gate 5 (adr bounds) t;
          t = set_trap_gate 6 (adr invalid_op) t;
          t = set_trap_gate 7 (adr device_not_available) t;
          t = set_trap_gate 8 (adr double_fault) t;
          t = set_trap_gate 9 (adr coprocessor_segment_overrun) t;
          t = set_trap_gate 10 (adr invalid_TSS) t;
          t = set_trap_gate 11 (adr segment_not_present) t;
          t = set_trap_gate 12 (adr stack_segment) t;
          t = set_trap_gate 13 (adr general_protection) t;
          t = set_trap_gate 14 (adr page_fault) t;
          t = set_trap_gate 15 (adr reserved) t;
          t = set_trap_gate 16 (adr coprocessor_error) t;
          t = fold (\<lambda>i. set_trap_gate i (adr reserved)) [17..<48] t;
          t = set_trap_gate 45 (adr irq13) t
      in set_trap_gate 39 (adr parallel_interrupt) t)"

definition trap_ports :: "kst \<Rightarrow> kst" where
  "trap_ports s = (let s = outb (inb 0x21 s AND 0xfb) 0x21 s in outb (inb 0xA1 s AND 0xdf) 0xA1 s)"

section \<open>sched_init\<close>

definition LATCH :: u32 where "LATCH = of_nat (1193180 div HZ)"

text \<open>
  The TSS and LDT of task 0 are at the addresses \<open>tss\<close> and \<open>ldt\<close>; the descriptors of the other
  tasks and their slots are cleared.
\<close>

definition sched_init :: "(handler \<Rightarrow> u32) \<Rightarrow> u32 \<Rightarrow> u32 \<Rightarrow> desc_tables \<times> kst \<Rightarrow> desc_tables \<times> kst" where
  "sched_init adr tss ldt ts =
     (let (t, s) = ts;
          t = set_ldt_desc FIRST_LDT_ENTRY ldt (set_tss_desc FIRST_TSS_ENTRY tss t);
          s = s\<lparr>task := (\<lambda>i. if 1 \<le> i \<and> i < NR_TASKS then None else task s i)\<rparr>;
          t = t\<lparr>gdt := (\<lambda>n. if 2 + FIRST_TSS_ENTRY \<le> n \<and> n < 2 + FIRST_TSS_ENTRY + 2 * (NR_TASKS - 1)
                             then \<lparr>d_a = 0, d_b = 0\<rparr> else gdt t n)\<rparr>;
          s = outb (ucast (drop_bit 8 LATCH)) 0x40 (outb (ucast (LATCH AND 0xff)) 0x40 (outb 0x36 0x43 s));
          t = set_intr_gate 0x20 (adr timer_gate_entry) t;
          s = outb (inb 0x21 s AND NOT 0x01) 0x21 s
      in (set_system_gate 0x80 (adr system_call_entry) t, s))"

section \<open>The gates of the drivers\<close>

definition rs_gates :: "(handler \<Rightarrow> u32) \<Rightarrow> desc_tables \<Rightarrow> desc_tables" where
  "rs_gates adr t = set_intr_gate 0x23 (adr rs2_interrupt) (set_intr_gate 0x24 (adr rs1_interrupt) t)"

definition con_gate :: "(handler \<Rightarrow> u32) \<Rightarrow> desc_tables \<Rightarrow> desc_tables" where
  "con_gate adr t = set_trap_gate 0x21 (adr keyboard_interrupt) t"

definition hd_gate :: "(handler \<Rightarrow> u32) \<Rightarrow> desc_tables \<Rightarrow> desc_tables" where
  "hd_gate adr t = set_intr_gate 0x2E (adr hd_intr_entry) t"

definition floppy_gate :: "(handler \<Rightarrow> u32) \<Rightarrow> desc_tables \<Rightarrow> desc_tables" where
  "floppy_gate adr t = set_trap_gate 0x26 (adr floppy_intr_entry) t"

section \<open>Reading back\<close>

text \<open>A base, and a limit that is a positive number of whole pages, are read back as they were written.\<close>

lemma word32_eqI:
  "(\<And>n. n \<in> {0, 1, 2, 3, 4, 5, 6, 7, 8, 9, 10, 11, 12, 13, 14, 15, 16, 17, 18, 19, 20, 21, 22, 23, 24, 25, 26, 27, 28, 29, 30, 31} \<Longrightarrow>
    bit a n = bit b n) \<Longrightarrow> a = (b :: u32)"
proof (rule bit_word_eqI)
  fix n assume b: "\<And>n. n \<in> {0, 1, 2, 3, 4, 5, 6, 7, 8, 9, 10, 11, 12, 13, 14, 15, 16, 17, 18, 19, 20, 21, 22, 23, 24, 25, 26, 27, 28, 29,
      30, 31} \<Longrightarrow> bit a n = bit b n" and n: "n < LENGTH(32)"
  then have "n < 32" by simp
  then have "n \<in> {0, 1, 2, 3, 4, 5, 6, 7, 8, 9, 10, 11, 12, 13, 14, 15, 16, 17, 18, 19, 20, 21, 22, 23, 24, 25, 26, 27, 28, 29, 30, 31}"
    by (simp only: insert_iff empty_iff) presburger
  then show "bit a n = bit b n" by (rule b)
qed

lemma bit_outside: "32 \<le> n \<Longrightarrow> bit (x :: u32) n = False"
  using bit_imp_le_length [of x n] by auto

lemmas bit_eval = bit_or_iff bit_and_iff bit_push_bit_iff bit_drop_bit_eq bit_mask_iff bit_outside

lemma get_set_base: "get_base (set_base base d) = base"
  unfolding get_base_def set_base_def desc_struct.simps
  by (rule word32_eqI) (elim insertE emptyE; simp add: bit_eval)

lemma get_base_put_limit: "get_base (put_limit l d) = get_base d"
  unfolding get_base_def put_limit_def desc_struct.simps
  by (rule word32_eqI) (elim insertE emptyE; simp add: bit_eval)

lemma task_number_TSS: "n < 64 \<Longrightarrow> task_number (TSS_selector n) = of_nat n"
proof -
  assume n: "n < 64"
  have "drop_bit 4 (push_bit 4 (of_nat n :: u32)) = of_nat n"
    unfolding word_unat_eq_iff using n by (simp add: unsigned_drop_bit_eq drop_bit_eq_div push_bit_eq_mult unat_word_ariths unat_of_nat)
  then show ?thesis by (simp add: task_number_def TSS_selector_def)
qed

lemma limit_field:
  assumes "bit (d_b d) 23"
  shows "get_limit (put_limit (drop_bit 12 x) d) = (x OR 0xfff) + 1"
proof -
  have "bit (d_b (put_limit (drop_bit 12 x) d)) 23" using assms by (simp add: put_limit_def bit_eval)
  moreover have "push_bit 12 ((d_a (put_limit (drop_bit 12 x) d) AND 0xffff) OR (d_b (put_limit (drop_bit 12 x) d) AND 0xf0000)) OR 0xfff
      = x OR 0xfff"
    unfolding put_limit_def desc_struct.simps by (rule word32_eqI) (elim insertE emptyE; simp add: bit_eval)
  ultimately show ?thesis by (simp add: get_limit_def Let_def)
qed

lemma pages_limit:
  assumes "limit AND 0xfff = 0"
  shows "((limit - 1) OR 0xfff) + 1 = (limit :: u32)"
proof -
  have m: "(0xfff :: u32) = mask 12" by (simp add: mask_eq_exp_minus_1)
  have t: "take_bit 12 limit = 0" using assms by (simp add: m take_bit_eq_mask)
  have e: "unat (take_bit 12 x) = unat x mod 4096" for x :: u32
    unfolding unsigned_take_bit_eq by (simp add: take_bit_eq_mod)
  have "unat (take_bit 12 (limit - 1)) = unat (mask 12 :: u32)"
  proof (cases "limit = 0")
    case False
    then have "unat (limit - 1) = unat limit - 1" "0 < unat limit" by (simp_all add: unat_minus_one unat_gt_0)
    moreover have "unat limit mod 4096 = 0"
      by (metis e t unsigned_0)
    then obtain q where "unat limit = 4096 * q" by auto
    ultimately have "unat (limit - 1) = 4096 * (q - 1) + 4095" by (cases q) simp_all
    then have "unat (limit - 1) mod 4096 = 4095" by (simp only: mod_mult_self4) simp
    then show ?thesis by (simp only: e) (simp add: mask_eq_exp_minus_1)
  qed simp
  then have z: "take_bit 12 (limit - 1) = mask 12" by (simp only: word_unat_eq_iff)
  have low: "bit (limit - 1) n" if "n < 12" for n
    using that arg_cong [OF z, of "\<lambda>x. bit x n"] by (simp add: bit_mask_iff bit_take_bit_iff)
  have "(limit - 1) OR 0xfff = limit - 1"
    by (rule word32_eqI) (elim insertE emptyE; simp add: bit_eval low)
  then show ?thesis by simp
qed

text \<open>A limit of 0, which \<open>change_ldt\<close> sets for a program without text, is the limit of 4 GB.\<close>

lemma set_limit_0: "set_limit 0 d = put_limit 0xfffff d"
  by (simp add: set_limit_def mask_eq_exp_minus_1)

text \<open>\<open>_set_seg_desc\<close> has the two longs of the descriptor the wrong way round.\<close>

lemma seg_desc_swapped: "get_base (set_seg_desc 2 0 0x12345678 0xfffff) \<noteq> 0x12345678"
  by (simp add: get_base_def set_seg_desc_def)

text \<open>
  C32: get_base and get_limit read back what set_base and set_limit have put into a
  descriptor with page granularity, for every base and every limit of whole pages.
\<close>

theorem descriptor_roundtrip:
  assumes "limit AND 0xfff = 0" "bit (d_b d) 23"
  shows "get_base (set_limit limit (set_base base d)) = base \<and> get_limit (set_limit limit (set_base base d)) = limit"
proof -
  have g: "bit (d_b (set_base base d)) 23"
    using assms(2) by (simp add: set_base_def bit_eval)
  show ?thesis
    unfolding set_limit_def limit_field [OF g] get_base_put_limit get_set_base pages_limit [OF assms(1)] by simp
qed

theorem descriptor_roundtrip_witness:
  "get_limit (set_limit 0xa0000 (set_base 0x4000000 \<lparr>d_a = 0x9f, d_b = 0xc0fa00\<rparr>)) = 0xa0000"
proof -
  have "bit (0xc0fa00 :: u32) 23" by (simp add: bit_iff_odd_drop_bit drop_bit_eq_div)
  then show ?thesis using descriptor_roundtrip [of "0xa0000" "\<lparr>d_a = 0x9f, d_b = 0xc0fa00\<rparr>" "0x4000000"] by simp
qed

end
