(* ===== verification/Sys.thy ===== *)
theory Sys imports Sched begin

text \<open>
  kernel/sys.c and kernel/signal.c: identity, process groups, times, the break, and the handling of
  signals up to the stack frame of a handler; \<open>send_sig\<close> and \<open>sys_kill\<close> of kernel/exit.c.
\<close>

section \<open>kernel/sys.c\<close>

definition not_implemented :: "kst \<Rightarrow> u32 \<times> kst" where
  "not_implemented s = (neg_errno ENOSYS, s)"

definition sys_setregid :: "u32 \<Rightarrow> u32 \<Rightarrow> kst \<Rightarrow> u32 \<times> kst" where
  "sys_setregid rgid egid s =
     (let t = cur s;
          bad_r = (0 <s rgid \<and> \<not> (ucast (t_gid t) = rgid \<or> suser s));
          s = (if 0 <s rgid \<and> \<not> bad_r then upd_cur (\<lambda>t. t\<lparr>t_gid := ucast rgid\<rparr>) s else s);
          t = cur s
      in if bad_r then (neg_errno EPERM, s)
         else if 0 <s egid then
           (if ucast (t_gid t) = egid \<or> ucast (t_egid t) = egid \<or> ucast (t_sgid t) = egid \<or> suser s
            then (0, upd_cur (\<lambda>t. t\<lparr>t_egid := ucast egid\<rparr>) s) else (neg_errno EPERM, s))
         else (0, s))"

definition sys_setgid :: "u32 \<Rightarrow> kst \<Rightarrow> u32 \<times> kst" where
  "sys_setgid gid = sys_setregid gid gid"

definition sys_time :: "u32 \<Rightarrow> kst \<Rightarrow> (u32 \<times> kst) kres" where
  "sys_time tloc s =
     (let i = CURRENT_TIME s
      in if tloc \<noteq> 0 then bindk (verify_area tloc 4 s) (\<lambda>s. Inr (i, put_fs_long i tloc s)) else Inr (i, s))"

definition sys_setreuid :: "u32 \<Rightarrow> u32 \<Rightarrow> kst \<Rightarrow> u32 \<times> kst" where
  "sys_setreuid ruid euid s =
     (let old_ruid = t_uid (cur s);
          bad_r = (0 <s ruid \<and> \<not> (ucast (t_euid (cur s)) = ruid \<or> ucast old_ruid = ruid \<or> suser s));
          s = (if 0 <s ruid \<and> \<not> bad_r then upd_cur (\<lambda>t. t\<lparr>t_uid := ucast ruid\<rparr>) s else s)
      in if bad_r then (neg_errno EPERM, s)
         else if 0 <s euid then
           (if ucast old_ruid = euid \<or> ucast (t_euid (cur s)) = euid \<or> suser s
            then (0, upd_cur (\<lambda>t. t\<lparr>t_euid := ucast euid\<rparr>) s)
            else (neg_errno EPERM, upd_cur (\<lambda>t. t\<lparr>t_uid := old_ruid\<rparr>) s))
         else (0, s))"

definition sys_setuid :: "u32 \<Rightarrow> kst \<Rightarrow> u32 \<times> kst" where
  "sys_setuid uid = sys_setreuid uid uid"

definition sys_stime :: "u32 \<Rightarrow> kst \<Rightarrow> u32 \<times> kst" where
  "sys_stime tptr s =
     (if \<not> suser s then (neg_errno EPERM, s)
      else (0, s\<lparr>startup_time := get_fs_long tptr s - sdiv_w (jiffies s) (int HZ)\<rparr>))"

definition sys_times :: "u32 \<Rightarrow> kst \<Rightarrow> (u32 \<times> kst) kres" where
  "sys_times tbuf s =
     (if tbuf = 0 then Inr (jiffies s, s)
      else bindk (verify_area tbuf 16 s) (\<lambda>s.
        let t = cur s in
        Inr (jiffies s, put_fs_long (t_cstime t) (tbuf + 12) (put_fs_long (t_cutime t) (tbuf + 8)
               (put_fs_long (t_stime t) (tbuf + 4) (put_fs_long (t_utime t) tbuf s))))))"

definition sys_brk :: "u32 \<Rightarrow> kst \<Rightarrow> u32 \<times> kst" where
  "sys_brk end_data_seg s =
     (let t = cur s;
          s = (if t_end_code t \<le> end_data_seg \<and> end_data_seg < t_start_stack t - 16384
               then upd_cur (\<lambda>t. t\<lparr>t_brk := end_data_seg\<rparr>) s else s)
      in (t_brk (cur s), s))"

primrec find_pid :: "nat \<Rightarrow> nat \<Rightarrow> u32 \<Rightarrow> kst \<Rightarrow> nat option" where
  "find_pid 0 i pid s = None"
| "find_pid (Suc n) i pid s =
     (case task s i of None \<Rightarrow> find_pid n (Suc i) pid s
      | Some t \<Rightarrow> if t_pid t = pid then Some i else find_pid n (Suc i) pid s)"

definition sys_setpgid :: "u32 \<Rightarrow> u32 \<Rightarrow> kst \<Rightarrow> u32 \<times> kst" where
  "sys_setpgid pid pgid s =
     (let pid = (if pid = 0 then t_pid (cur s) else pid); pgid = (if pgid = 0 then t_pid (cur s) else pgid)
      in case find_pid NR_TASKS 0 pid s of
           None \<Rightarrow> (neg_errno ESRCH, s)
         | Some i \<Rightarrow>
             let t = the (task s i) in
             if t_leader t then (neg_errno EPERM, s)
             else if t_session t \<noteq> t_session (cur s) then (neg_errno EPERM, s)
             else (0, upd_task i (\<lambda>t. t\<lparr>t_pgrp := pgid\<rparr>) s))"

definition sys_getpgrp :: "kst \<Rightarrow> u32 \<times> kst" where "sys_getpgrp s = (t_pgrp (cur s), s)"

definition sys_setsid :: "kst \<Rightarrow> u32 \<times> kst" where
  "sys_setsid s =
     (if t_leader (cur s) \<and> \<not> suser s then (neg_errno EPERM, s)
      else
        let s = upd_cur (\<lambda>t. t\<lparr>t_leader := True, t_pgrp := t_pid t, t_session := t_pid t, t_tty := - 1\<rparr>) s
        in (t_pgrp (cur s), s))"

text \<open>\<open>struct utsname\<close>: five names of 9 bytes, the last byte of each is 0.\<close>

definition utsname :: "u8 list" where
  "utsname = map of_char ''linux .0'' @ [0] @ map of_char ''nodename'' @ [0] @ map of_char ''release '' @ [0] @
     map of_char ''version '' @ [0] @ map of_char ''machine '' @ [0]"

definition sys_uname :: "u32 \<Rightarrow> kst \<Rightarrow> (u32 \<times> kst) kres" where
  "sys_uname name s =
     (if name = 0 then Inr (neg_errno ERROR, s)
      else bindk (verify_area name 45 s) (\<lambda>s. Inr (0, put_user 45 (\<lambda>i. utsname ! i) 0 name s)))"

definition sys_umask :: "u32 \<Rightarrow> kst \<Rightarrow> u32 \<times> kst" where
  "sys_umask m s = (ucast (t_umask (cur s)), upd_cur (\<lambda>t. t\<lparr>t_umask := ucast m AND 0x1ff\<rparr>) s)"

section \<open>kernel/signal.c\<close>

definition SIGCHLD :: nat where "SIGCHLD = 17"
definition SIGHUP :: nat where "SIGHUP = 1"
definition SA_NOMASK :: u32 where "SA_NOMASK = 0x40000000"
definition SA_ONESHOT :: u32 where "SA_ONESHOT = 0x80000000"

definition sys_sgetmask :: "kst \<Rightarrow> u32 \<times> kst" where "sys_sgetmask s = (t_blocked (cur s), s)"

definition sys_ssetmask :: "u32 \<Rightarrow> kst \<Rightarrow> u32 \<times> kst" where
  "sys_ssetmask newmask s =
     (t_blocked (cur s), upd_cur (\<lambda>t. t\<lparr>t_blocked := newmask AND NOT (sig_bit SIGKILL)\<rparr>) s)"

definition bad_signum :: "u32 \<Rightarrow> bool" where
  "bad_signum n \<longleftrightarrow> n <s 1 \<or> 32 <s n \<or> n = of_nat SIGKILL"

definition set_sigaction :: "nat \<Rightarrow> sigaction \<Rightarrow> kst \<Rightarrow> kst" where
  "set_sigaction k a s = upd_cur (\<lambda>t. t\<lparr>t_sigaction := (t_sigaction t)(k := a)\<rparr>) s"

definition sys_signal :: "u32 \<Rightarrow> u32 \<Rightarrow> u32 \<Rightarrow> kst \<Rightarrow> u32 \<times> kst" where
  "sys_signal signum handler restorer s =
     (if bad_signum signum then (- 1, s)
      else
        let k = unat signum - 1
        in (sa_handler (t_sigaction (cur s) k),
            set_sigaction k \<lparr>sa_handler = handler, sa_mask = 0, sa_flags = SA_ONESHOT OR SA_NOMASK,
              sa_restorer = restorer\<rparr> s))"

definition get_new :: "u32 \<Rightarrow> kst \<Rightarrow> sigaction" where
  "get_new a s = \<lparr>sa_handler = get_fs_long a s, sa_mask = get_fs_long (a + 4) s,
     sa_flags = get_fs_long (a + 8) s, sa_restorer = get_fs_long (a + 12) s\<rparr>"

definition save_old :: "sigaction \<Rightarrow> u32 \<Rightarrow> kst \<Rightarrow> kst kres" where
  "save_old x a s = bindk (verify_area a 16 s) (\<lambda>s.
     Inr (put_fs_long (sa_restorer x) (a + 12) (put_fs_long (sa_flags x) (a + 8)
       (put_fs_long (sa_mask x) (a + 4) (put_fs_long (sa_handler x) a s)))))"

definition sys_sigaction :: "u32 \<Rightarrow> u32 \<Rightarrow> u32 \<Rightarrow> kst \<Rightarrow> (u32 \<times> kst) kres" where
  "sys_sigaction signum action oldaction s =
     (if bad_signum signum then Inr (- 1, s)
      else
        let k = unat signum - 1; tmp = t_sigaction (cur s) k;
            s = set_sigaction k (get_new action s) s
        in bindk (if oldaction \<noteq> 0 then save_old tmp oldaction s else Inr s) (\<lambda>s.
             let a = t_sigaction (cur s) k in
             Inr (0, set_sigaction k
               (if sa_flags a AND SA_NOMASK \<noteq> 0 then a\<lparr>sa_mask := 0\<rparr>
                else a\<lparr>sa_mask := sa_mask a OR push_bit k 1\<rparr>) s)))"

text \<open>
  \<open>do_signal\<close> gets the registers saved on the kernel stack; it returns the new \<open>eip\<close> and
  \<open>esp\<close>. Without a handler the task exits (except for \<open>SIGCHLD\<close>).
\<close>

definition do_signal :: "nat \<Rightarrow> u32 \<Rightarrow> u32 \<Rightarrow> u32 \<Rightarrow> u32 \<Rightarrow> u32 \<Rightarrow> u32 \<Rightarrow> kst \<Rightarrow> (u32 \<times> u32 \<times> kst) kres" where
  "do_signal signr eax ecx edx eip eflags esp s =
     (let a = t_sigaction (cur s) (signr - 1); handler = sa_handler a in
      if handler = 1 then Inr (eip, esp, s)
      else if handler = 0 then
        (if signr = SIGCHLD then Inr (eip, esp, s) else Inl (Exits (sig_bit signr)))
      else
        let s = (if sa_flags a AND SA_ONESHOT \<noteq> 0 then set_sigaction (signr - 1) (a\<lparr>sa_handler := 0\<rparr>) s else s);
            masked = (sa_flags a AND SA_NOMASK = 0);
            esp = esp - 4 * (if masked then 8 else 7)
        in bindk (verify_area esp (4 * (if masked then 8 else 7)) s) (\<lambda>s.
           let s = put_fs_long (of_nat signr) (esp + 4) (put_fs_long (sa_restorer a) esp s);
               s = (if masked then put_fs_long (t_blocked (cur s)) (esp + 8) s else s);
               p = esp + (if masked then 12 else 8);
               s = put_fs_long eip (p + 16) (put_fs_long eflags (p + 12) (put_fs_long edx (p + 8)
                     (put_fs_long ecx (p + 4) (put_fs_long eax p s))))
           in Inr (handler, esp, upd_cur (\<lambda>t. t\<lparr>t_blocked := t_blocked t OR sa_mask a\<rparr>) s)))"

section \<open>Sending signals, kernel/exit.c\<close>

definition send_sig :: "u32 \<Rightarrow> nat \<Rightarrow> bool \<Rightarrow> kst \<Rightarrow> u32 \<times> kst" where
  "send_sig sig i priv s =
     (case task s i of None \<Rightarrow> (neg_errno EINVAL, s)
      | Some p \<Rightarrow>
        if sig <s 1 \<or> 32 <s sig then (neg_errno EINVAL, s)
        else if priv \<or> t_euid (cur s) = t_euid p \<or> suser s
        then (0, upd_task i (\<lambda>t. t\<lparr>t_signal := t_signal t OR sig_bit (unat sig)\<rparr>) s)
        else (neg_errno EPERM, s))"

definition kill_session :: "kst \<Rightarrow> kst" where
  "kill_session s =
     map_tasks (\<lambda>t. if t_session t = t_session (cur s) then t\<lparr>t_signal := t_signal t OR sig_bit SIGHUP\<rparr> else t) s"

text \<open>Which tasks \<open>sys_kill\<close> sends to, and whether it checks permissions; a free slot is one of
  them when \<open>pid\<close> is -1.\<close>

definition kill_target :: "u32 \<Rightarrow> nat \<Rightarrow> kst \<Rightarrow> bool option" where
  "kill_target pid i s =
     (if pid = 0 then (case task s i of None \<Rightarrow> None
        | Some t \<Rightarrow> if t_pgrp t = t_pid (cur s) then Some True else None)
      else if 0 <s pid then (case task s i of None \<Rightarrow> None
        | Some t \<Rightarrow> if t_pid t = pid then Some False else None)
      else if pid = - 1 then Some False
      else (case task s i of None \<Rightarrow> None | Some t \<Rightarrow> if t_pgrp t = - pid then Some False else None))"

primrec kill_loop :: "nat \<Rightarrow> u32 \<Rightarrow> u32 \<Rightarrow> u32 \<Rightarrow> kst \<Rightarrow> u32 \<times> kst" where
  "kill_loop 0 pid sig retval s = (retval, s)"
| "kill_loop (Suc i) pid sig retval s =
     (case kill_target pid (Suc i) s of
        None \<Rightarrow> kill_loop i pid sig retval s
      | Some priv \<Rightarrow>
          let (err, s) = send_sig sig (Suc i) priv s
          in kill_loop i pid sig (if err \<noteq> 0 then err else retval) s)"

definition sys_kill :: "u32 \<Rightarrow> u32 \<Rightarrow> kst \<Rightarrow> u32 \<times> kst" where
  "sys_kill pid sig s = kill_loop (NR_TASKS - 1) pid sig 0 s"

end
