(* ===== verification/Buffer.thy ===== *)
theory Buffer imports Kstate begin

text \<open>
  The buffer cache, fs/buffer.c, with the parts of fs/inode.c and fs/super.c it calls back
  (\<open>sync_inodes\<close>, \<open>write_inode\<close>, \<open>get_super\<close>) and the contract of
  the block layer it relies on (\<open>ll_rw_block\<close>).

  \<open>getblk\<close> may write back dirty buffers, which writes back inodes, which reads blocks and so
  calls \<open>getblk\<close> again. The functions in this cycle take the \<open>getblk\<close> they call as
  their first argument, and \<open>getblk_f\<close> ties the knot with a depth that stands for the kernel
  stack; when it is exhausted the result is the stop value \<open>Deep\<close>.
\<close>

datatype rw_cmd = READ | WRITE | READA | WRITEA

section \<open>The block layer's contract\<close>

text \<open>
  What \<open>ll_rw_block(rw,bh)\<close> has done to the buffer once the request it made, if any, is
  completed: a read fills a buffer that is not up to date, a write stores a dirty one; both leave
  it clean and unlocked, and up to date exactly when the device could do the transfer. A buffer
  that is locked makes the caller sleep, except for a read-ahead, which is dropped.
\<close>

definition ll_rw_block :: "rw_cmd \<Rightarrow> nat \<Rightarrow> kst \<Rightarrow> kst kres" where
  "ll_rw_block rw b s =
     (let bh = buffers s b; d = b_dev bh; n = b_blocknr bh;
          ahead = (rw = READA \<or> rw = WRITEA);
          wr = (rw = WRITE \<or> rw = WRITEA)
      in if \<not> (MAJOR d < 7 \<and> has_driver s (MAJOR d)) then Inr s
         else if b_lock bh then (if ahead then Inr s else sleep_on s)
         else if (wr \<and> \<not> b_dirt bh) \<or> (\<not> wr \<and> b_uptodate bh) then Inr s
         else case disk s d n of
             None \<Rightarrow> Inr (upd_buf b (\<lambda>h. h\<lparr>b_dirt := False, b_uptodate := False\<rparr>) s)
           | Some dat \<Rightarrow>
               if wr then
                 Inr (upd_buf b (\<lambda>h. h\<lparr>b_dirt := False, b_uptodate := True\<rparr>)
                       (s\<lparr>disk := (disk s)(d := (disk s d)(n \<mapsto> b_data bh))\<rparr>))
               else
                 Inr (upd_buf b (\<lambda>h. h\<lparr>b_data := dat, b_dirt := False, b_uptodate := True\<rparr>) s))"

definition wait_on_buffer :: "nat \<Rightarrow> kst \<Rightarrow> kst kres" where
  "wait_on_buffer b s = (if b_lock (buffers s b) then sleep_on s else Inr s)"

section \<open>The hash queues and the free list\<close>

definition hashfn :: "u16 \<Rightarrow> u32 \<Rightarrow> nat" where
  "hashfn dev blk = unat (ucast dev XOR blk) mod NR_HASH"

text \<open>The pointer the code updates when it stores into \<open>p->field\<close>; \<open>None\<close> is the null pointer.\<close>

definition remove_from_queues :: "nat \<Rightarrow> kst \<Rightarrow> kst kres" where
  "remove_from_queues b s =
     (let s = (case b_next (buffers s b) of None \<Rightarrow> s
               | Some n \<Rightarrow> upd_buf n (\<lambda>h. h\<lparr>b_prev := b_prev (buffers s b)\<rparr>) s);
          s = (case b_prev (buffers s b) of None \<Rightarrow> s
               | Some p \<Rightarrow> upd_buf p (\<lambda>h. h\<lparr>b_next := b_next (buffers s b)\<rparr>) s);
          h = hashfn (b_dev (buffers s b)) (b_blocknr (buffers s b));
          s = (if hash_table s h = Some b
               then s\<lparr>hash_table := (hash_table s)(h := b_next (buffers s b))\<rparr> else s)
      in case (b_prev_free (buffers s b), b_next_free (buffers s b)) of
           (Some p, Some n) \<Rightarrow>
             let s = upd_buf p (\<lambda>h. h\<lparr>b_next_free := b_next_free (buffers s b)\<rparr>) s;
                 s = upd_buf n (\<lambda>h. h\<lparr>b_prev_free := b_prev_free (buffers s b)\<rparr>) s
             in Inr (if free_list s = Some b then s\<lparr>free_list := b_next_free (buffers s b)\<rparr> else s)
         | _ \<Rightarrow> Inl (Panic ''Free block list corrupted''))"

definition insert_into_queues :: "nat \<Rightarrow> kst \<Rightarrow> kst kres" where
  "insert_into_queues b s =
     (case free_list s of None \<Rightarrow> Inl (Wild ''free_list'')
      | Some f \<Rightarrow>
        let s = upd_buf b (\<lambda>h. h\<lparr>b_next_free := Some f\<rparr>) s;
            s = upd_buf b (\<lambda>h. h\<lparr>b_prev_free := b_prev_free (buffers s f)\<rparr>) s
        in case b_prev_free (buffers s f) of None \<Rightarrow> Inl (Wild ''b_prev_free'')
           | Some p \<Rightarrow>
             let s = upd_buf p (\<lambda>h. h\<lparr>b_next_free := Some b\<rparr>) s;
                 s = upd_buf f (\<lambda>h. h\<lparr>b_prev_free := Some b\<rparr>) s;
                 s = upd_buf b (\<lambda>h. h\<lparr>b_prev := None, b_next := None\<rparr>) s
             in if b_dev (buffers s b) = 0 then Inr s
                else
                  let h = hashfn (b_dev (buffers s b)) (b_blocknr (buffers s b));
                      s = upd_buf b (\<lambda>x. x\<lparr>b_next := hash_table s h\<rparr>) s;
                      s = s\<lparr>hash_table := (hash_table s)(h \<mapsto> b)\<rparr>
                  in Inr (case b_next (buffers s b) of
                        None \<Rightarrow> s\<lparr>null_b_prev := Some b\<rparr>
                      | Some n \<Rightarrow> upd_buf n (\<lambda>x. x\<lparr>b_prev := Some b\<rparr>) s))"

text \<open>
  The walk along a hash chain. The chain has at most one entry per buffer; a longer walk is a
  cycle, on which the code would not return.
\<close>

fun find_chain :: "nat \<Rightarrow> u16 \<Rightarrow> u32 \<Rightarrow> nat option \<Rightarrow> kst \<Rightarrow> nat option kres" where
  "find_chain n dev blk None s = Inr None"
| "find_chain 0 dev blk (Some b) s = Inl Deep"
| "find_chain (Suc n) dev blk (Some b) s =
     (if b_dev (buffers s b) = dev \<and> b_blocknr (buffers s b) = blk then Inr (Some b)
      else find_chain n dev blk (b_next (buffers s b)) s)"

definition find_buffer :: "u16 \<Rightarrow> u32 \<Rightarrow> kst \<Rightarrow> nat option kres" where
  "find_buffer dev blk s = find_chain (nr_buffers s) dev blk (hash_table s (hashfn dev blk)) s"

text \<open>
  After \<open>wait_on_buffer\<close> the code checks that the buffer still holds the block; without a sleep
  in between it does.
\<close>

definition get_hash_table :: "u16 \<Rightarrow> u32 \<Rightarrow> kst \<Rightarrow> (nat option \<times> kst) kres" where
  "get_hash_table dev blk s =
     bindk (find_buffer dev blk s) (\<lambda>r. case r of
         None \<Rightarrow> Inr (None, s)
       | Some b \<Rightarrow>
           let s = upd_buf b (\<lambda>h. h\<lparr>b_count := b_count h + 1\<rparr>) s
           in bindk (wait_on_buffer b s) (\<lambda>s. Inr (Some b, s)))"

definition badness :: "buffer_head \<Rightarrow> nat" where
  "badness h = 2 * of_bool (b_dirt h) + of_bool (b_lock h)"

text \<open>The search along the free list, from \<open>tmp\<close> until it is back at \<open>free_list\<close>.\<close>

fun scan_free_list :: "nat \<Rightarrow> nat option \<Rightarrow> nat option \<Rightarrow> kst \<Rightarrow> nat option kres" where
  "scan_free_list 0 tmp bh s = Inl Deep"
| "scan_free_list (Suc n) None bh s = Inl (Wild ''free_list'')"
| "scan_free_list (Suc n) (Some t) bh s =
     (let next = b_next_free (buffers s t);
          more = (\<lambda>bh. if next \<noteq> free_list s then scan_free_list n next bh s else Inr bh)
      in if b_count (buffers s t) \<noteq> 0 then more bh
         else if (case bh of None \<Rightarrow> True
                  | Some b \<Rightarrow> badness (buffers s t) < badness (buffers s b))
         then if badness (buffers s t) = 0 then Inr (Some t) else more (Some t)
         else more bh)"

text \<open>
  The end of \<open>getblk\<close>: the buffer found is taken off its queues, renamed and queued again.
\<close>

definition take_buffer :: "nat \<Rightarrow> u16 \<Rightarrow> u32 \<Rightarrow> kst \<Rightarrow> (nat \<times> kst) kres" where
  "take_buffer b dev blk s =
     bindk (remove_from_queues b
             (upd_buf b (\<lambda>h. h\<lparr>b_count := 1, b_dirt := False, b_uptodate := False\<rparr>) s)) (\<lambda>s.
     bindk (insert_into_queues b (upd_buf b (\<lambda>h. h\<lparr>b_dev := dev, b_blocknr := blk\<rparr>) s)) (\<lambda>s.
       Inr (b, s)))"

definition brelse :: "nat option \<Rightarrow> kst \<Rightarrow> kst kres" where
  "brelse buf s =
     (case buf of None \<Rightarrow> Inr s
      | Some b \<Rightarrow>
        bindk (wait_on_buffer b s) (\<lambda>s.
          if b_count (buffers s b) = 0 then Inl (Panic ''Trying to free free buffer'')
          else Inr (upd_buf b (\<lambda>h. h\<lparr>b_count := b_count h - 1\<rparr>) s)))"

type_synonym getblk_fn = "u16 \<Rightarrow> u32 \<Rightarrow> kst \<Rightarrow> (nat \<times> kst) kres"

definition bread_w :: "getblk_fn \<Rightarrow> u16 \<Rightarrow> u32 \<Rightarrow> kst \<Rightarrow> (nat option \<times> kst) kres" where
  "bread_w gb dev blk s =
     bindk (gb dev blk s) (\<lambda>(b, s).
       if b_uptodate (buffers s b) then Inr (Some b, s)
       else bindk (ll_rw_block READ b s) (\<lambda>s.
            bindk (wait_on_buffer b s) (\<lambda>s.
              if b_uptodate (buffers s b) then Inr (Some b, s)
              else bindk (brelse (Some b) s) (\<lambda>s. Inr (None, s)))))"

section \<open>Super blocks and inodes, as far as the cache needs them\<close>

definition wait_on_super :: "nat \<Rightarrow> kst \<Rightarrow> kst kres" where
  "wait_on_super i s = (if s_lock (super_block s i) then sleep_on s else Inr s)"

fun find_super :: "nat \<Rightarrow> nat \<Rightarrow> u16 \<Rightarrow> kst \<Rightarrow> nat option" where
  "find_super 0 i dev s = None"
| "find_super (Suc n) i dev s =
     (if s_dev (super_block s i) = dev then Some i else find_super n (Suc i) dev s)"

definition get_super :: "u16 \<Rightarrow> kst \<Rightarrow> nat option kres" where
  "get_super dev s =
     (if dev = 0 then Inr None
      else case find_super NR_SUPER 0 dev s of
          None \<Rightarrow> Inr None
        | Some i \<Rightarrow> bindk (wait_on_super i s) (\<lambda>_. Inr (Some i)))"

definition wait_on_inode :: "nat \<Rightarrow> kst \<Rightarrow> kst kres" where
  "wait_on_inode i s = (if i_lock (inode_table s i) then sleep_on s else Inr s)"

definition lock_inode :: "nat \<Rightarrow> kst \<Rightarrow> kst kres" where
  "lock_inode i s =
     (if i_lock (inode_table s i) then sleep_on s
      else Inr (upd_inode i (\<lambda>n. n\<lparr>i_lock := True\<rparr>) s))"

definition unlock_inode :: "nat \<Rightarrow> kst \<Rightarrow> kst" where
  "unlock_inode i s = upd_inode i (\<lambda>n. n\<lparr>i_lock := False\<rparr>) s"

text \<open>\<open>struct d_inode\<close>: the first 32 bytes of \<open>struct m_inode\<close>, as they lie in a block.\<close>

definition INODES_PER_BLOCK :: nat where "INODES_PER_BLOCK = 32"

definition put_d_inode :: "nat \<Rightarrow> m_inode \<Rightarrow> block \<Rightarrow> block" where
  "put_d_inode k n d =
     foldr (\<lambda>j. put16 (k + 14 + 2 * j) (i_zone n j)) [0..<9]
       ((put32 (k + 8) (i_mtime n) (put32 (k + 4) (i_size n) (put16 (k + 2) (i_uid n)
         (put16 k (i_mode n) d))))(k + 12 := i_gid n, k + 13 := i_nlinks n))"

definition get_d_inode :: "nat \<Rightarrow> block \<Rightarrow> m_inode \<Rightarrow> m_inode" where
  "get_d_inode k d n =
     n\<lparr>i_mode := get16 d k, i_uid := get16 d (k + 2), i_size := get32 d (k + 4),
       i_mtime := get32 d (k + 8), i_gid := d (k + 12), i_nlinks := d (k + 13),
       i_zone := (\<lambda>j. if j < 9 then get16 d (k + 14 + 2 * j) else i_zone n j)\<rparr>"

text \<open>\<open>INODES_PER_BLOCK\<close> comes from \<open>sizeof\<close>, so the division is unsigned.\<close>

definition inode_block :: "nat \<Rightarrow> u16 \<Rightarrow> kst \<Rightarrow> u32" where
  "inode_block sb num s =
     2 + ucast (s_imap_blocks (super_block s sb)) + ucast (s_zmap_blocks (super_block s sb)) +
     (ucast num - 1) div of_nat INODES_PER_BLOCK"

definition inode_offset :: "u16 \<Rightarrow> nat" where
  "inode_offset num = 32 * unat ((ucast num - 1 :: u32) mod of_nat INODES_PER_BLOCK)"

definition write_inode_w :: "getblk_fn \<Rightarrow> nat \<Rightarrow> kst \<Rightarrow> kst kres" where
  "write_inode_w gb i s =
     bindk (lock_inode i s) (\<lambda>s.
       let n = inode_table s i in
       if \<not> i_dirt n \<or> i_dev n = 0 then Inr (unlock_inode i s)
       else bindk (get_super (i_dev n) s) (\<lambda>r. case r of
           None \<Rightarrow> Inl (Panic ''trying to write inode without device'')
         | Some sb \<Rightarrow>
           bindk (bread_w gb (i_dev n) (inode_block sb (i_num n) s) s) (\<lambda>(r, s). case r of
               None \<Rightarrow> Inl (Panic ''unable to read i-node block'')
             | Some b \<Rightarrow>
               let n = inode_table s i;
                   s = upd_buf b (\<lambda>h. h\<lparr>b_data := put_d_inode (inode_offset (i_num n)) n (b_data h),
                                          b_dirt := True\<rparr>) s;
                   s = upd_inode i (\<lambda>n. n\<lparr>i_dirt := False\<rparr>) s
               in bindk (brelse (Some b) s) (\<lambda>s. Inr (unlock_inode i s)))))"

fun sync_inodes_w :: "getblk_fn \<Rightarrow> nat \<Rightarrow> nat \<Rightarrow> kst \<Rightarrow> kst kres" where
  "sync_inodes_w gb 0 i s = Inr s"
| "sync_inodes_w gb (Suc n) i s =
     bindk (wait_on_inode i s) (\<lambda>s.
     bindk (if i_dirt (inode_table s i) \<and> \<not> i_pipe (inode_table s i) then write_inode_w gb i s
            else Inr s) (\<lambda>s.
       sync_inodes_w gb n (Suc i) s))"

text \<open>One pass of \<open>sync_dev\<close> over the buffers.\<close>

fun sync_buffers :: "nat \<Rightarrow> nat \<Rightarrow> u16 \<Rightarrow> kst \<Rightarrow> kst kres" where
  "sync_buffers 0 b dev s = Inr s"
| "sync_buffers (Suc n) b dev s =
     (if b_dev (buffers s b) \<noteq> dev then sync_buffers n (Suc b) dev s
      else bindk (wait_on_buffer b s) (\<lambda>s.
           bindk (if b_dev (buffers s b) = dev \<and> b_dirt (buffers s b) then ll_rw_block WRITE b s
                  else Inr s) (\<lambda>s.
             sync_buffers n (Suc b) dev s)))"

definition sync_dev_w :: "getblk_fn \<Rightarrow> u16 \<Rightarrow> kst \<Rightarrow> kst kres" where
  "sync_dev_w gb dev s =
     bindk (sync_buffers (nr_buffers s) 0 dev s) (\<lambda>s.
     bindk (sync_inodes_w gb NR_INODE 0 s) (\<lambda>s.
       sync_buffers (nr_buffers s) 0 dev s))"

section \<open>getblk\<close>

text \<open>
  \<open>while (bh->b_dirt)\<close>: write the device back until the buffer found is clean. The result
  is \<open>None\<close> where the code goes back to \<open>repeat\<close>.
\<close>

fun clean_buffer :: "getblk_fn \<Rightarrow> nat \<Rightarrow> nat \<Rightarrow> kst \<Rightarrow> (bool \<times> kst) kres" where
  "clean_buffer gb 0 b s = Inl Deep"
| "clean_buffer gb (Suc n) b s =
     (if \<not> b_dirt (buffers s b) then Inr (True, s)
      else bindk (sync_dev_w gb (b_dev (buffers s b)) s) (\<lambda>s.
           bindk (wait_on_buffer b s) (\<lambda>s.
             if b_count (buffers s b) \<noteq> 0 then Inr (False, s) else clean_buffer gb n b s)))"

definition getblk_body :: "nat \<Rightarrow> getblk_fn \<Rightarrow> getblk_fn" where
  "getblk_body n gb dev blk s =
     bindk (get_hash_table dev blk s) (\<lambda>(r, s). case r of
         Some b \<Rightarrow> Inr (b, s)
       | None \<Rightarrow>
         bindk (scan_free_list (Suc (nr_buffers s)) (free_list s) None s) (\<lambda>r. case r of
             None \<Rightarrow> sleep_on s
           | Some b \<Rightarrow>
             bindk (wait_on_buffer b s) (\<lambda>s.
               if b_count (buffers s b) \<noteq> 0 then gb dev blk s
               else bindk (clean_buffer gb (Suc n) b s) (\<lambda>(clean, s).
                 if \<not> clean then gb dev blk s
                 else bindk (find_buffer dev blk s) (\<lambda>r. case r of
                     Some _ \<Rightarrow> gb dev blk s
                   | None \<Rightarrow> take_buffer b dev blk s)))))"

fun getblk_f :: "nat \<Rightarrow> getblk_fn" where
  "getblk_f 0 = (\<lambda>dev blk s. Inl Deep)"
| "getblk_f (Suc n) = getblk_body n (getblk_f n)"

definition getblk :: getblk_fn where "getblk = getblk_f 8"

definition bread :: "u16 \<Rightarrow> u32 \<Rightarrow> kst \<Rightarrow> (nat option \<times> kst) kres" where
  "bread = bread_w getblk"

definition write_inode :: "nat \<Rightarrow> kst \<Rightarrow> kst kres" where
  "write_inode = write_inode_w getblk"

definition sync_inodes :: "kst \<Rightarrow> kst kres" where
  "sync_inodes = sync_inodes_w getblk NR_INODE 0"

definition sync_dev :: "u16 \<Rightarrow> kst \<Rightarrow> kst kres" where
  "sync_dev = sync_dev_w getblk"

text \<open>\<open>sys_sync\<close>\<close>

fun sync_all :: "nat \<Rightarrow> nat \<Rightarrow> kst \<Rightarrow> kst kres" where
  "sync_all 0 b s = Inr s"
| "sync_all (Suc n) b s =
     bindk (wait_on_buffer b s) (\<lambda>s.
     bindk (if b_dirt (buffers s b) then ll_rw_block WRITE b s else Inr s) (\<lambda>s.
       sync_all n (Suc b) s))"

definition sys_sync :: "kst \<Rightarrow> (u32 \<times> kst) kres" where
  "sys_sync s =
     bindk (sync_inodes s) (\<lambda>s.
     bindk (sync_all (nr_buffers s) 0 s) (\<lambda>s. Inr (0, s)))"

section \<open>The other readers\<close>

text \<open>
  \<open>breada\<close>, called with the first block and the list of the blocks to read ahead (the C
  argument list ends with a negative number). The read-ahead is requested for \<open>bh\<close>, as in
  the source, and not for the buffer \<open>tmp\<close> just found.
\<close>

fun breada_ahead :: "nat \<Rightarrow> u16 \<Rightarrow> u32 list \<Rightarrow> kst \<Rightarrow> kst kres" where
  "breada_ahead b dev [] s = Inr s"
| "breada_ahead b dev (n # ns) s =
     (if n <s 0 then Inr s
      else bindk (getblk dev n s) (\<lambda>(tmp, s).
           bindk (if \<not> b_uptodate (buffers s tmp) then ll_rw_block READA b s else Inr s) (\<lambda>s.
             breada_ahead b dev ns (upd_buf tmp (\<lambda>h. h\<lparr>b_count := b_count h - 1\<rparr>) s))))"

definition breada :: "u16 \<Rightarrow> u32 \<Rightarrow> u32 list \<Rightarrow> kst \<Rightarrow> (nat option \<times> kst) kres" where
  "breada dev first rest s =
     bindk (getblk dev first s) (\<lambda>(b, s).
     bindk (if \<not> b_uptodate (buffers s b) then ll_rw_block READ b s else Inr s) (\<lambda>s.
     bindk (breada_ahead b dev rest s) (\<lambda>s.
     bindk (wait_on_buffer b s) (\<lambda>s.
       if b_uptodate (buffers s b) then Inr (Some b, s)
       else bindk (brelse (Some b) s) (\<lambda>s. Inr (None, s))))))"

section \<open>Initialisation\<close>

text \<open>
  \<open>buffer_init\<close>: the addresses of the heads and of the blocks grow towards each other. The
  heads are 36 bytes long; \<open>h\<close> is the index of the next head, \<open>b\<close> the address of the
  last block handed out. The measure of the loop is the address of that block.
\<close>

definition head_size :: nat where "head_size = 36"

function count_buffers :: "nat \<Rightarrow> nat \<Rightarrow> nat \<Rightarrow> nat" where
  "count_buffers start h b =
     (if BLOCK_SIZE \<le> b \<and> start + head_size * (h + 1) \<le> b - BLOCK_SIZE then
        (let b = b - BLOCK_SIZE
         in count_buffers start (h + 1) (if b = 0x100000 then 0xA0000 else b))
      else h)"
  by pat_completeness auto
termination
  by (relation "measure (\<lambda>(start, h, b). b)") (auto simp: BLOCK_SIZE_def Let_def)

declare count_buffers.simps [simp del]

definition empty_head :: "nat \<Rightarrow> nat \<Rightarrow> buffer_head \<Rightarrow> buffer_head" where
  "empty_head n i h =
     h\<lparr>b_dev := 0, b_dirt := False, b_count := 0, b_lock := False, b_uptodate := False,
       b_next := None, b_prev := None,
       b_prev_free := Some (if i = 0 then n - 1 else i - 1),
       b_next_free := Some (if i = n - 1 then 0 else i + 1)\<rparr>"

definition buffer_init :: "nat \<Rightarrow> nat \<Rightarrow> kst \<Rightarrow> kst" where
  "buffer_init start buffer_end s =
     (let n = count_buffers start 0 (if buffer_end = 0x100000 then 640 * 1024 else buffer_end)
      in s\<lparr>nr_buffers := nr_buffers s + n,
           buffers := (\<lambda>i. if i < n then empty_head n i (buffers s i) else buffers s i),
           free_list := Some 0,
           hash_table := (\<lambda>h. if h < NR_HASH then None else hash_table s h)\<rparr>)"

end
