(* ===== verification/Bitmap.thy ===== *)
theory Bitmap imports Buffer begin

text \<open>
  fs/bitmap.c: the zone and inode bit maps. A set bit is a zone or inode in use. \<open>new_block\<close>
  takes the first clear bit, \<open>free_block\<close> clears one, \<open>free_inode\<close> clears the bit of an
  inode and empties its slot. \<open>new_inode\<close>, which calls \<open>iput\<close>, is in theory Inode.
\<close>

section \<open>File modes, include/sys/stat.h\<close>

definition S_IFMT :: u16 where "S_IFMT = 0xF000"
definition S_IFREG :: u16 where "S_IFREG = 0x8000"
definition S_IFBLK :: u16 where "S_IFBLK = 0x6000"
definition S_IFDIR :: u16 where "S_IFDIR = 0x4000"
definition S_IFCHR :: u16 where "S_IFCHR = 0x2000"
definition S_ISVTX :: u16 where "S_ISVTX = 0x200"
definition S_ISREG :: "u16 \<Rightarrow> bool" where "S_ISREG m \<longleftrightarrow> m AND S_IFMT = S_IFREG"
definition S_ISDIR :: "u16 \<Rightarrow> bool" where "S_ISDIR m \<longleftrightarrow> m AND S_IFMT = S_IFDIR"
definition S_ISCHR :: "u16 \<Rightarrow> bool" where "S_ISCHR m \<longleftrightarrow> m AND S_IFMT = S_IFCHR"
definition S_ISBLK :: "u16 \<Rightarrow> bool" where "S_ISBLK m \<longleftrightarrow> m AND S_IFMT = S_IFBLK"

section \<open>Bits of a block\<close>

definition map_bit :: "block \<Rightarrow> nat \<Rightarrow> bool" where
  "map_bit d k = bit (d (k div 8)) (k mod 8)"

text \<open>\<open>set_bit\<close>: the new block and the old bit. \<open>clear_bit\<close>: the new block and
  whether the bit was clear already.\<close>

definition set_map_bit :: "nat \<Rightarrow> block \<Rightarrow> block \<times> bool" where
  "set_map_bit k d = (d(k div 8 := Bit_Operations.set_bit (k mod 8) (d (k div 8))), map_bit d k)"

definition clear_map_bit :: "nat \<Rightarrow> block \<Rightarrow> block \<times> bool" where
  "clear_map_bit k d = (d(k div 8 := Bit_Operations.unset_bit (k mod 8) (d (k div 8))), \<not> map_bit d k)"

text \<open>\<open>bsfl\<close>: the lowest set bit; no result (zero flag set) for 0.\<close>

definition bsf :: "u32 \<Rightarrow> nat option" where
  "bsf w = find (bit w) [0..<32]"

text \<open>\<open>find_first_zero\<close> goes through the block in words of 32 bits; \<open>ecx\<close> is the bit
  number of the word at \<open>esi\<close>.\<close>

primrec ffz_loop :: "nat \<Rightarrow> nat \<Rightarrow> block \<Rightarrow> nat" where
  "ffz_loop 0 ecx d = ecx"
| "ffz_loop (Suc n) ecx d =
     (case bsf (NOT (get32 d (ecx div 8))) of
        Some edx \<Rightarrow> ecx + edx
      | None \<Rightarrow> if ecx + 32 < 8192 then ffz_loop n (ecx + 32) d else ecx + 32)"

definition find_first_zero :: "block \<Rightarrow> nat" where
  "find_first_zero d = ffz_loop 256 0 d"

section \<open>Zones\<close>

definition free_block :: "u16 \<Rightarrow> u32 \<Rightarrow> kst \<Rightarrow> kst kres" where
  "free_block dev blk s =
     bindk (get_super dev s) (\<lambda>r. case r of
         None \<Rightarrow> Inl (Panic ''trying to free block on nonexistent device'')
       | Some i \<Rightarrow>
         let sb = super_block s i in
         if blk <s ucast (s_firstdatazone sb) \<or> ucast (s_nzones sb) \<le>s blk
         then Inl (Panic ''trying to free block not in datazone'')
         else bindk (get_hash_table dev blk s) (\<lambda>(bh, s).
           bindk (case bh of
               None \<Rightarrow> Inr (True, s)
             | Some b \<Rightarrow>
                 if b_count (buffers s b) \<noteq> 1 then Inr (False, s)
                 else bindk (brelse (Some b) (upd_buf b (\<lambda>h. h\<lparr>b_dirt := False, b_uptodate := False\<rparr>) s))
                        (\<lambda>s. Inr (True, s))) (\<lambda>(go, s).
             if \<not> go then Inr s
             else
               let k = unat (blk - (ucast (s_firstdatazone sb) - 1)) in
               case s_zmap sb (k div 8192) of
                 None \<Rightarrow> Inl (Wild ''s_zmap'')
               | Some m \<Rightarrow>
                   let (d, clear) = clear_map_bit (k mod 8192) (b_data (buffers s m)) in
                   let s = upd_buf m (\<lambda>h. h\<lparr>b_data := d\<rparr>) s in
                   if clear then Inl (Panic ''free_block: bit already cleared'')
                   else Inr (upd_buf m (\<lambda>h. h\<lparr>b_dirt := True\<rparr>) s))))"

text \<open>
  The search through the 8 bit map blocks: slot, buffer and bit number of the first clear bit,
  \<open>None\<close> when no slot has one.
\<close>

primrec find_map :: "nat \<Rightarrow> nat \<Rightarrow> (nat \<Rightarrow> nat option) \<Rightarrow> kst \<Rightarrow> (nat \<times> nat \<times> nat) option" where
  "find_map 0 i slots s = None"
| "find_map (Suc n) i slots s =
     (case slots i of
        None \<Rightarrow> find_map n (Suc i) slots s
      | Some b \<Rightarrow>
          let j = find_first_zero (b_data (buffers s b))
          in if j < 8192 then Some (i, b, j) else find_map n (Suc i) slots s)"

definition new_block :: "u16 \<Rightarrow> kst \<Rightarrow> (u32 \<times> kst) kres" where
  "new_block dev s =
     bindk (get_super dev s) (\<lambda>r. case r of
         None \<Rightarrow> Inl (Panic ''trying to get new block from nonexistant device'')
       | Some k \<Rightarrow>
         let sb = super_block s k in
         case find_map 8 0 (s_zmap sb) s of
           None \<Rightarrow> Inr (0, s)
         | Some (i, m, j) \<Rightarrow>
             let (d, old) = set_map_bit j (b_data (buffers s m)) in
             let s = upd_buf m (\<lambda>h. h\<lparr>b_data := d\<rparr>) s in
             if old then Inl (Panic ''new_block: bit already set'')
             else
               let s = upd_buf m (\<lambda>h. h\<lparr>b_dirt := True\<rparr>) s;
                   j = of_nat j + of_nat (i * 8192) + ucast (s_firstdatazone sb) - 1
               in if ucast (s_nzones sb) \<le>s j then Inr (0, s)
                  else bindk (getblk dev j s) (\<lambda>(b, s).
                    if b_count (buffers s b) \<noteq> 1 then Inl (Panic ''new block: count is != 1'')
                    else
                      let s = upd_buf b (\<lambda>h. h\<lparr>b_data := (\<lambda>k. if k < 1024 then 0 else b_data h k)\<rparr>) s;
                          s = upd_buf b (\<lambda>h. h\<lparr>b_uptodate := True, b_dirt := True\<rparr>) s
                      in bindk (brelse (Some b) s) (\<lambda>s. Inr (j, s))))"

section \<open>Inodes\<close>

definition free_inode :: "nat option \<Rightarrow> kst \<Rightarrow> kst kres" where
  "free_inode inode s =
     (case inode of None \<Rightarrow> Inr s
      | Some i \<Rightarrow>
        let n = inode_table s i in
        if i_dev n = 0 then Inr (upd_inode i (\<lambda>_. zero_inode) s)
        else if 1 < i_count n then Inl (Panic ''free_inode'')
        else if i_nlinks n \<noteq> 0 then Inl (Panic ''trying to free inode with links'')
        else bindk (get_super (i_dev n) s) (\<lambda>r. case r of
            None \<Rightarrow> Inl (Panic ''trying to free inode on nonexistent device'')
          | Some k \<Rightarrow>
            let sb = super_block s k in
            if i_num n < 1 \<or> s_ninodes sb < i_num n
            then Inl (Panic ''trying to free inode 0 or nonexistant inode'')
            else case s_imap sb (unat (i_num n) div 8192) of
                None \<Rightarrow> Inl (Panic ''nonexistent imap in superblock'')
              | Some b \<Rightarrow>
                  let d = fst (clear_map_bit (unat (i_num n) mod 8192) (b_data (buffers s b)));
                      s = upd_buf b (\<lambda>h. h\<lparr>b_data := d, b_dirt := True\<rparr>) s
                  in Inr (upd_inode i (\<lambda>_. zero_inode) s)))"

end
