(* ===== verification/Inode.thy ===== *)
theory Inode imports Bitmap begin

text \<open>
  fs/inode.c and fs/truncate.c: the inode table (finding, reading, releasing inodes), the map from
  file blocks to zones (\<open>bmap\<close>) and its release (\<open>truncate\<close>), with \<open>new_inode\<close>
  of fs/bitmap.c. \<open>write_inode\<close>, \<open>sync_inodes\<close> and the inode locks are in theory Buffer.
\<close>

section \<open>truncate\<close>

text \<open>The words of an indirect block are read again for each entry, as the loop does.\<close>

primrec free_ind_loop :: "nat \<Rightarrow> nat \<Rightarrow> u16 \<Rightarrow> nat \<Rightarrow> kst \<Rightarrow> kst kres" where
  "free_ind_loop 0 i dev b s = Inr s"
| "free_ind_loop (Suc n) i dev b s =
     (let p = get16 (b_data (buffers s b)) (2 * i)
      in bindk (if p \<noteq> 0 then free_block dev (ucast p) s else Inr s) (free_ind_loop n (Suc i) dev b))"

definition free_ind :: "u16 \<Rightarrow> u16 \<Rightarrow> kst \<Rightarrow> kst kres" where
  "free_ind dev blk s =
     (if blk = 0 then Inr s
      else bindk (bread dev (ucast blk) s) (\<lambda>(bh, s).
           bindk (case bh of None \<Rightarrow> Inr s
                  | Some b \<Rightarrow> bindk (free_ind_loop 512 0 dev b s) (brelse (Some b))) (\<lambda>s.
             free_block dev (ucast blk) s)))"

primrec free_dind_loop :: "nat \<Rightarrow> nat \<Rightarrow> u16 \<Rightarrow> nat \<Rightarrow> kst \<Rightarrow> kst kres" where
  "free_dind_loop 0 i dev b s = Inr s"
| "free_dind_loop (Suc n) i dev b s =
     (let p = get16 (b_data (buffers s b)) (2 * i)
      in bindk (if p \<noteq> 0 then free_ind dev p s else Inr s) (free_dind_loop n (Suc i) dev b))"

definition free_dind :: "u16 \<Rightarrow> u16 \<Rightarrow> kst \<Rightarrow> kst kres" where
  "free_dind dev blk s =
     (if blk = 0 then Inr s
      else bindk (bread dev (ucast blk) s) (\<lambda>(bh, s).
           bindk (case bh of None \<Rightarrow> Inr s
                  | Some b \<Rightarrow> bindk (free_dind_loop 512 0 dev b s) (brelse (Some b))) (\<lambda>s.
             free_block dev (ucast blk) s)))"

primrec truncate_direct :: "nat \<Rightarrow> nat \<Rightarrow> nat \<Rightarrow> kst \<Rightarrow> kst kres" where
  "truncate_direct 0 k i s = Inr s"
| "truncate_direct (Suc n) k i s =
     (let z = i_zone (inode_table s i) k
      in bindk (if z \<noteq> 0
                then bindk (free_block (i_dev (inode_table s i)) (ucast z) s)
                       (\<lambda>s. Inr (upd_inode i (\<lambda>m. m\<lparr>i_zone := (i_zone m)(k := 0)\<rparr>) s))
                else Inr s) (truncate_direct n (Suc k) i))"

definition truncate_i :: "nat \<Rightarrow> kst \<Rightarrow> kst kres" where
  "truncate_i i s =
     (if \<not> (S_ISREG (i_mode (inode_table s i)) \<or> S_ISDIR (i_mode (inode_table s i))) then Inr s
      else bindk (truncate_direct 7 0 i s) (\<lambda>s.
           bindk (free_ind (i_dev (inode_table s i)) (i_zone (inode_table s i) 7) s) (\<lambda>s.
           bindk (free_dind (i_dev (inode_table s i)) (i_zone (inode_table s i) 8) s) (\<lambda>s.
             Inr (upd_inode i (\<lambda>m. m\<lparr>i_zone := (i_zone m)(8 := 0, 7 := 0), i_size := 0, i_dirt := True,
                   i_ctime := CURRENT_TIME s, i_mtime := CURRENT_TIME s\<rparr>) s)))))"

section \<open>Blocks of a file\<close>

text \<open>
  \<open>_bmap\<close>: \<open>zone_entry\<close> is the step the code has for the zones in the inode and
  \<open>ind_entry\<close> the one for an entry of an indirect block in buffer \<open>b\<close>: the zone number
  found there, or a new zone when there is none and \<open>create\<close> is set.
\<close>

definition zone_entry :: "nat \<Rightarrow> nat \<Rightarrow> bool \<Rightarrow> kst \<Rightarrow> kst kres" where
  "zone_entry i k create s =
     (if create \<and> i_zone (inode_table s i) k = 0 then
        bindk (new_block (i_dev (inode_table s i)) s) (\<lambda>(z, s).
          let s = upd_inode i (\<lambda>m. m\<lparr>i_zone := (i_zone m)(k := ucast z)\<rparr>) s
          in Inr (if ucast z \<noteq> (0 :: u16)
                  then upd_inode i (\<lambda>m. m\<lparr>i_ctime := CURRENT_TIME s, i_dirt := True\<rparr>) s else s))
      else Inr s)"

definition ind_entry :: "u16 \<Rightarrow> nat \<Rightarrow> nat \<Rightarrow> bool \<Rightarrow> kst \<Rightarrow> (u32 \<times> kst) kres" where
  "ind_entry dev b k create s =
     (let z = ucast (get16 (b_data (buffers s b)) (2 * k))
      in if create \<and> z = 0 then
           bindk (new_block dev s) (\<lambda>(z, s).
             Inr (z, if z \<noteq> 0
                     then upd_buf b (\<lambda>h. h\<lparr>b_data := put16 (2 * k) (ucast z) (b_data h), b_dirt := True\<rparr>) s
                     else s))
         else Inr (z, s))"

definition bmap_create :: "nat \<Rightarrow> u32 \<Rightarrow> bool \<Rightarrow> kst \<Rightarrow> (u32 \<times> kst) kres" where
  "bmap_create i blk create s =
     (if blk <s 0 then Inl (Panic ''_bmap: block<0'')
      else if 7 + 512 + 512 * 512 \<le>s blk then Inl (Panic ''_bmap: block>big'')
      else if blk <s 7 then
        bindk (zone_entry i (unat blk) create s) (\<lambda>s.
          Inr (ucast (i_zone (inode_table s i) (unat blk)), s))
      else if blk - 7 <s 512 then
        bindk (zone_entry i 7 create s) (\<lambda>s.
          if i_zone (inode_table s i) 7 = 0 then Inr (0, s)
          else bindk (bread (i_dev (inode_table s i)) (ucast (i_zone (inode_table s i) 7)) s) (\<lambda>(bh, s).
            case bh of None \<Rightarrow> Inr (0, s)
            | Some b \<Rightarrow>
              bindk (ind_entry (i_dev (inode_table s i)) b (unat (blk - 7)) create s) (\<lambda>(z, s).
              bindk (brelse (Some b) s) (\<lambda>s. Inr (z, s)))))
      else
        let blk = blk - 7 - 512 in
        bindk (zone_entry i 8 create s) (\<lambda>s.
          if i_zone (inode_table s i) 8 = 0 then Inr (0, s)
          else bindk (bread (i_dev (inode_table s i)) (ucast (i_zone (inode_table s i) 8)) s) (\<lambda>(bh, s).
            case bh of None \<Rightarrow> Inr (0, s)
            | Some b \<Rightarrow>
              bindk (ind_entry (i_dev (inode_table s i)) b (unat (drop_bit 9 blk)) create s) (\<lambda>(z, s).
              bindk (brelse (Some b) s) (\<lambda>s.
                if z = 0 then Inr (0, s)
                else bindk (bread (i_dev (inode_table s i)) z s) (\<lambda>(bh, s).
                  case bh of None \<Rightarrow> Inr (0, s)
                  | Some b \<Rightarrow>
                    bindk (ind_entry (i_dev (inode_table s i)) b (unat (blk AND 511)) create s) (\<lambda>(z, s).
                    bindk (brelse (Some b) s) (\<lambda>s. Inr (z, s)))))))))"

definition bmap :: "nat \<Rightarrow> u32 \<Rightarrow> kst \<Rightarrow> (u32 \<times> kst) kres" where
  "bmap i blk = bmap_create i blk False"

definition create_block :: "nat \<Rightarrow> u32 \<Rightarrow> kst \<Rightarrow> (u32 \<times> kst) kres" where
  "create_block i blk = bmap_create i blk True"

section \<open>The inode table\<close>

primrec invalidate_inodes_loop :: "nat \<Rightarrow> nat \<Rightarrow> u16 \<Rightarrow> kst \<Rightarrow> kst kres" where
  "invalidate_inodes_loop 0 i dev s = Inr s"
| "invalidate_inodes_loop (Suc n) i dev s =
     bindk (wait_on_inode i s) (\<lambda>s.
       invalidate_inodes_loop n (Suc i) dev
         (if i_dev (inode_table s i) = dev
          then upd_inode i (\<lambda>m. m\<lparr>i_dirt := False, i_dev := 0\<rparr>) s else s))"

definition invalidate_inodes :: "u16 \<Rightarrow> kst \<Rightarrow> kst kres" where
  "invalidate_inodes = invalidate_inodes_loop NR_INODE 0"

text \<open>
  The part of \<open>iput\<close> from the label \<open>repeat\<close> on. \<open>write_inode\<close> leaves the inode
  clean, so two rounds are enough; the property of \<open>iput\<close> in theory Inode_Lemmas runs both.
\<close>

primrec iput_repeat :: "nat \<Rightarrow> nat \<Rightarrow> kst \<Rightarrow> kst kres" where
  "iput_repeat 0 i s = Inl Deep"
| "iput_repeat (Suc k) i s =
     (let n = inode_table s i
      in if 1 < i_count n then Inr (upd_inode i (\<lambda>m. m\<lparr>i_count := i_count m - 1\<rparr>) s)
         else if i_nlinks n = 0 then bindk (truncate_i i s) (free_inode (Some i))
         else if i_dirt n then bindk (write_inode i s) (\<lambda>s. bindk (wait_on_inode i s) (iput_repeat k i))
         else Inr (upd_inode i (\<lambda>m. m\<lparr>i_count := i_count m - 1\<rparr>) s))"

definition iput :: "nat option \<Rightarrow> kst \<Rightarrow> kst kres" where
  "iput inode s =
     (case inode of None \<Rightarrow> Inr s
      | Some i \<Rightarrow>
        bindk (wait_on_inode i s) (\<lambda>s.
        let n = inode_table s i in
        if i_count n = 0 then Inl (Panic ''iput: trying to free free inode'')
        else if i_pipe n then
          let s = upd_inode i (\<lambda>m. m\<lparr>i_count := i_count m - 1\<rparr>) s
          in if i_count (inode_table s i) \<noteq> 0 then Inr s
             else bindk (free_page (i_size n) (mem s)) (\<lambda>m.
               Inr (upd_inode i (\<lambda>m. m\<lparr>i_count := 0, i_dirt := False, i_pipe := False\<rparr>) (s\<lparr>mem := m\<rparr>)))
        else if i_dev n = 0 then Inr (upd_inode i (\<lambda>m. m\<lparr>i_count := i_count m - 1\<rparr>) s)
        else bindk (if S_ISBLK (i_mode n)
                    then bindk (sync_dev (i_zone n 0) s) (wait_on_inode i) else Inr s)
               (iput_repeat 2 i)))"

text \<open>
  One round of the search of \<open>get_empty_inode\<close>: the new value of \<open>last_inode\<close> and the
  slot found, an unused one, if possible clean and unlocked.
\<close>

primrec scan_inodes :: "nat \<Rightarrow> nat \<Rightarrow> nat option \<Rightarrow> kst \<Rightarrow> nat \<times> nat option" where
  "scan_inodes 0 l found s = (l, found)"
| "scan_inodes (Suc n) l found s =
     (let l = (if NR_INODE \<le> l + 1 then 0 else l + 1); m = inode_table s l
      in if i_count m = 0 then
           if \<not> i_dirt m \<and> \<not> i_lock m then (l, Some l) else scan_inodes n l (Some l) s
         else scan_inodes n l found s)"

text \<open>\<open>while (inode->i_dirt)\<close>: an inode without a device never gets clean, the code hangs.\<close>

primrec clean_inode :: "nat \<Rightarrow> nat \<Rightarrow> kst \<Rightarrow> kst kres" where
  "clean_inode 0 i s = Inl Hang"
| "clean_inode (Suc k) i s =
     (if i_dirt (inode_table s i)
      then bindk (write_inode i s) (\<lambda>s. bindk (wait_on_inode i s) (clean_inode k i))
      else Inr s)"

text \<open>The outer loop runs again only if the slot was taken during a sleep.\<close>

definition get_empty_inode :: "kst \<Rightarrow> (nat \<times> kst) kres" where
  "get_empty_inode s =
     (let (l, r) = scan_inodes NR_INODE (last_inode s) None s; s = s\<lparr>last_inode := l\<rparr>
      in case r of
           None \<Rightarrow> Inl (Panic ''No free inodes in mem'')
         | Some i \<Rightarrow>
           bindk (wait_on_inode i s) (\<lambda>s.
           bindk (clean_inode 2 i s) (\<lambda>s.
             if i_count (inode_table s i) \<noteq> 0 then Inl Hang
             else Inr (i, upd_inode i (\<lambda>m. zero_inode\<lparr>i_count := 1\<rparr>) s))))"

definition get_pipe_inode :: "kst \<Rightarrow> (nat option \<times> kst) kres" where
  "get_pipe_inode s =
     bindk (get_empty_inode s) (\<lambda>(i, s).
       let (page, m) = get_free_page (mem s); s = upd_inode i (\<lambda>m. m\<lparr>i_size := page\<rparr>) (s\<lparr>mem := m\<rparr>)
       in if page = 0 then Inr (None, upd_inode i (\<lambda>m. m\<lparr>i_count := 0\<rparr>) s)
          else Inr (Some i, upd_inode i (\<lambda>m. m\<lparr>i_count := 2, i_zone := (i_zone m)(1 := 0, 0 := 0),
                 i_pipe := True\<rparr>) s))"

definition read_inode :: "nat \<Rightarrow> kst \<Rightarrow> kst kres" where
  "read_inode i s =
     bindk (lock_inode i s) (\<lambda>s.
       let n = inode_table s i in
       bindk (get_super (i_dev n) s) (\<lambda>r. case r of
           None \<Rightarrow> Inl (Panic ''trying to read inode without dev'')
         | Some sb \<Rightarrow>
           bindk (bread (i_dev n) (inode_block sb (i_num n) s) s) (\<lambda>(r, s). case r of
               None \<Rightarrow> Inl (Panic ''unable to read i-node block'')
             | Some b \<Rightarrow>
               let d = b_data (buffers s b);
                   s = upd_inode i (\<lambda>m. get_d_inode (inode_offset (i_num m)) d m) s
               in bindk (brelse (Some b) s) (\<lambda>s. Inr (unlock_inode i s)))))"

primrec find_inode :: "nat \<Rightarrow> nat \<Rightarrow> u16 \<Rightarrow> u16 \<Rightarrow> kst \<Rightarrow> nat option" where
  "find_inode 0 i dev nr s = None"
| "find_inode (Suc n) i dev nr s =
     (if i_dev (inode_table s i) = dev \<and> i_num (inode_table s i) = nr then Some i
      else find_inode n (Suc i) dev nr s)"

primrec find_mount :: "nat \<Rightarrow> nat \<Rightarrow> nat \<Rightarrow> kst \<Rightarrow> nat option" where
  "find_mount 0 k i s = None"
| "find_mount (Suc n) k i s =
     (if s_imount (super_block s k) = Some i then Some k else find_mount n (Suc k) i s)"

text \<open>
  The search of \<open>iget\<close>. It starts again on the root of a mounted file system; mounts nest at
  most \<open>NR_SUPER\<close> deep.
\<close>

primrec iget_loop :: "nat \<Rightarrow> nat \<Rightarrow> u16 \<Rightarrow> u16 \<Rightarrow> kst \<Rightarrow> (nat \<times> kst) kres" where
  "iget_loop 0 fresh dev nr s = Inl Deep"
| "iget_loop (Suc k) fresh dev nr s =
     (case find_inode NR_INODE 0 dev nr s of
        Some i \<Rightarrow>
          bindk (wait_on_inode i s) (\<lambda>s.
          let s = upd_inode i (\<lambda>m. m\<lparr>i_count := i_count m + 1\<rparr>) s
          in if i_mount (inode_table s i) then
               case find_mount NR_SUPER 0 i s of
                 None \<Rightarrow> bindk (iput (Some fresh) s) (\<lambda>s. Inr (i, s))
               | Some j \<Rightarrow> bindk (iput (Some i) s) (\<lambda>s.
                   iget_loop k fresh (s_dev (super_block s j)) ROOT_INO s)
             else bindk (iput (Some fresh) s) (\<lambda>s. Inr (i, s)))
      | None \<Rightarrow>
          bindk (read_inode fresh (upd_inode fresh (\<lambda>m. m\<lparr>i_dev := dev, i_num := nr\<rparr>) s))
            (\<lambda>s. Inr (fresh, s)))"

definition iget :: "u16 \<Rightarrow> u16 \<Rightarrow> kst \<Rightarrow> (nat \<times> kst) kres" where
  "iget dev nr s =
     (if dev = 0 then Inl (Panic ''iget with dev==0'')
      else bindk (get_empty_inode s) (\<lambda>(fresh, s). iget_loop (Suc NR_SUPER) fresh dev nr s))"

text \<open>\<open>new_inode\<close> of fs/bitmap.c\<close>

definition new_inode :: "u16 \<Rightarrow> kst \<Rightarrow> (nat option \<times> kst) kres" where
  "new_inode dev s =
     bindk (get_empty_inode s) (\<lambda>(inode, s).
     bindk (get_super dev s) (\<lambda>r. case r of
         None \<Rightarrow> Inl (Panic ''new_inode with unknown device'')
       | Some k \<Rightarrow>
         let sb = super_block s k;
             fail = (\<lambda>s. bindk (iput (Some inode) s) (\<lambda>s. Inr (None, s)))
         in case find_map 8 0 (s_imap sb) s of
              None \<Rightarrow> fail s
            | Some (i, b, j) \<Rightarrow>
              if unat (s_ninodes sb) < j + i * 8192 then fail s
              else
                let (d, old) = set_map_bit j (b_data (buffers s b));
                    s = upd_buf b (\<lambda>h. h\<lparr>b_data := d\<rparr>) s
                in if old then Inl (Panic ''new_inode: bit already set'')
                   else
                     let s = upd_buf b (\<lambda>h. h\<lparr>b_dirt := True\<rparr>) s
                     in Inr (Some inode, upd_inode inode (\<lambda>m. m\<lparr>i_count := 1, i_nlinks := 1, i_dev := dev,
                          i_uid := t_euid (cur s), i_gid := ucast (t_egid (cur s)), i_dirt := True,
                          i_num := of_nat (j + i * 8192), i_ctime := CURRENT_TIME s,
                          i_atime := CURRENT_TIME s, i_mtime := CURRENT_TIME s\<rparr>) s)))"

end
