(* ===== verification/File_IO.thy ===== *)
theory File_IO imports Inode Usermem begin

text \<open>
  Reading and writing the kinds of files: regular files (fs/file_dev.c), block devices
  (fs/block_dev.c) and pipes (fs/pipe.c, with the system call \<open>pipe\<close>). Byte counts and positions
  are the C words; the loops carry the number of bytes left as their fuel, since every round but
  the last moves at least one byte.
\<close>

section \<open>Regular files\<close>

text \<open>
  One round of \<open>file_read\<close>: \<open>left\<close> bytes remain, \<open>buf\<close> is the user address. The offset
  \<open>f_pos % BLOCK_SIZE\<close> is negative for a negative position; reading there is outside the block.
\<close>

primrec file_read_loop :: "nat \<Rightarrow> nat \<Rightarrow> nat \<Rightarrow> u32 \<Rightarrow> nat \<Rightarrow> kst \<Rightarrow> (nat \<times> kst) kres" where
  "file_read_loop 0 inode filp buf left s = Inr (left, s)"
| "file_read_loop (Suc n) inode filp buf left s =
     (if left = 0 then Inr (0, s)
      else
        let pos = f_pos (file_table s filp) in
        bindk (bmap inode (sdiv_w pos 1024) s) (\<lambda>(nr, s).
        bindk (if nr \<noteq> 0
               then bindk (bread (i_dev (inode_table s inode)) nr s) (\<lambda>(bh, s). Inr (bh = None, bh, s))
               else Inr (False, None, s)) (\<lambda>(failed, bh, s).
        if failed then Inr (left, s)
        else
          let nr = sint pos smod 1024;
              chars = nat (min (1024 - nr) (int left));
              s = upd_file filp (\<lambda>f. f\<lparr>f_pos := f_pos f + of_nat chars\<rparr>) s
          in case bh of
               Some b \<Rightarrow>
                 if nr < 0 then Inl (Wild ''b_data'')
                 else bindk (brelse bh (put_user chars (b_data (buffers s b)) (nat nr) buf s))
                        (file_read_loop n inode filp (buf + of_nat chars) (left - chars))
             | None \<Rightarrow>
                 file_read_loop n inode filp (buf + of_nat chars) (left - chars)
                   (put_user chars (\<lambda>_. 0) 0 buf s))))"

definition file_read :: "nat \<Rightarrow> nat \<Rightarrow> u32 \<Rightarrow> u32 \<Rightarrow> kst \<Rightarrow> (u32 \<times> kst) kres" where
  "file_read inode filp buf count s =
     (if count \<le>s 0 then Inr (0, s)
      else bindk (file_read_loop (unat count) inode filp buf (unat count) s) (\<lambda>(left, s).
        let s = upd_inode inode (\<lambda>m. m\<lparr>i_atime := CURRENT_TIME s\<rparr>) s
        in Inr (if unat count - left \<noteq> 0 then of_nat (unat count - left) else neg_errno ERROR, s)))"

definition O_ACCMODE :: u32 where "O_ACCMODE = 3"
definition O_WRONLY :: u32 where "O_WRONLY = 1"
definition O_CREAT :: u32 where "O_CREAT = 0x40"
definition O_EXCL :: u32 where "O_EXCL = 0x80"
definition O_TRUNC :: u32 where "O_TRUNC = 0x200"
definition O_APPEND :: u32 where "O_APPEND = 0x400"
definition O_NONBLOCK :: u32 where "O_NONBLOCK = 0x800"

text \<open>The result is the position reached, the number of bytes written and the state.\<close>

primrec file_write_loop :: "nat \<Rightarrow> nat \<Rightarrow> u32 \<Rightarrow> u32 \<Rightarrow> nat \<Rightarrow> nat \<Rightarrow> kst \<Rightarrow> (u32 \<times> nat \<times> kst) kres" where
  "file_write_loop 0 inode buf pos i count s = Inr (pos, i, s)"
| "file_write_loop (Suc n) inode buf pos i count s =
     (if count \<le> i then Inr (pos, i, s)
      else bindk (create_block inode (sdiv_w pos 1024) s) (\<lambda>(blk, s).
        if blk = 0 then Inr (pos, i, s)
        else bindk (bread (i_dev (inode_table s inode)) blk s) (\<lambda>(bh, s). case bh of
          None \<Rightarrow> Inr (pos, i, s)
        | Some b \<Rightarrow>
          let c = sint pos smod 1024;
              s = upd_buf b (\<lambda>h. h\<lparr>b_dirt := True\<rparr>) s;
              k = nat (min (1024 - c) (int (count - i)));
              pos = pos + of_nat k;
              s = (if i_size (inode_table s inode) < pos
                   then upd_inode inode (\<lambda>m. m\<lparr>i_size := pos, i_dirt := True\<rparr>) s else s)
          in if c < 0 then Inl (Wild ''b_data'')
             else
               let s = upd_buf b (\<lambda>h. h\<lparr>b_data := copy_in k (umem s) buf (nat c) (b_data h)\<rparr>) s
               in bindk (brelse bh s) (file_write_loop n inode (buf + of_nat k) pos (i + k) count))))"

definition file_write :: "nat \<Rightarrow> nat \<Rightarrow> u32 \<Rightarrow> u32 \<Rightarrow> kst \<Rightarrow> (u32 \<times> kst) kres" where
  "file_write inode filp buf count s =
     (let app = (ucast (f_flags (file_table s filp)) AND O_APPEND \<noteq> 0);
          pos = (if app then i_size (inode_table s inode) else f_pos (file_table s filp));
          n = (if count \<le>s 0 then 0 else unat count)
      in bindk (file_write_loop n inode buf pos 0 n s) (\<lambda>(pos, i, s).
         let s = upd_inode inode (\<lambda>m. m\<lparr>i_mtime := CURRENT_TIME s\<rparr>) s;
             s = (if \<not> app
                  then upd_inode inode (\<lambda>m. m\<lparr>i_ctime := CURRENT_TIME s\<rparr>) (upd_file filp (\<lambda>f. f\<lparr>f_pos := pos\<rparr>) s)
                  else s)
         in Inr (if i \<noteq> 0 then of_nat i else - 1, s)))"

section \<open>Block devices\<close>

text \<open>
  \<open>pos\<close> is the value of \<open>*pos\<close>; the loops return its new value. \<open>block_write\<close> shifts
  it as a signed, \<open>block_read\<close> as an unsigned number. A whole block is written into a buffer from
  \<open>getblk\<close> that is not marked up to date.
\<close>

primrec block_write_loop :: "nat \<Rightarrow> u16 \<Rightarrow> u32 \<Rightarrow> nat \<Rightarrow> u32 \<Rightarrow> u32 \<Rightarrow> nat \<Rightarrow> nat \<Rightarrow> kst \<Rightarrow> (u32 \<times> u32 \<times> kst) kres" where
  "block_write_loop 0 dev blk offset pos buf count written s = Inr (of_nat written, pos, s)"
| "block_write_loop (Suc n) dev blk offset pos buf count written s =
     (if count = 0 then Inr (of_nat written, pos, s)
      else
        let chars = min (1024 - offset) count in
        bindk (if chars = 1024 then bindk (getblk dev blk s) (\<lambda>(b, s). Inr (Some b, s))
               else breada dev blk [blk + 1, blk + 2] s) (\<lambda>(bh, s). case bh of
            None \<Rightarrow> Inr (if written \<noteq> 0 then of_nat written else neg_errno EIO, pos, s)
          | Some b \<Rightarrow>
              let s = upd_buf b (\<lambda>h. h\<lparr>b_data := copy_in chars (umem s) buf offset (b_data h)\<rparr>) s;
                  s = upd_buf b (\<lambda>h. h\<lparr>b_dirt := True\<rparr>) s
              in bindk (brelse bh s)
                   (block_write_loop n dev (blk + 1) 0 (pos + of_nat chars) (buf + of_nat chars)
                      (count - chars) (written + chars))))"

definition block_write :: "u16 \<Rightarrow> u32 \<Rightarrow> u32 \<Rightarrow> u32 \<Rightarrow> kst \<Rightarrow> (u32 \<times> u32 \<times> kst) kres" where
  "block_write dev pos buf count s =
     (let n = (if count \<le>s 0 then 0 else unat count)
      in block_write_loop n dev (signed_drop_bit 10 pos) (unat (pos AND 1023)) pos buf n 0 s)"

primrec block_read_loop :: "nat \<Rightarrow> u16 \<Rightarrow> u32 \<Rightarrow> nat \<Rightarrow> u32 \<Rightarrow> u32 \<Rightarrow> nat \<Rightarrow> nat \<Rightarrow> kst \<Rightarrow> (u32 \<times> u32 \<times> kst) kres" where
  "block_read_loop 0 dev blk offset pos buf count rd s = Inr (of_nat rd, pos, s)"
| "block_read_loop (Suc n) dev blk offset pos buf count rd s =
     (if count = 0 then Inr (of_nat rd, pos, s)
      else
        let chars = min (1024 - offset) count in
        bindk (breada dev blk [blk + 1, blk + 2] s) (\<lambda>(bh, s). case bh of
            None \<Rightarrow> Inr (if rd \<noteq> 0 then of_nat rd else neg_errno EIO, pos, s)
          | Some b \<Rightarrow>
              bindk (brelse bh (put_user chars (b_data (buffers s b)) offset buf s))
                (block_read_loop n dev (blk + 1) 0 (pos + of_nat chars) (buf + of_nat chars)
                   (count - chars) (rd + chars))))"

definition block_read :: "u16 \<Rightarrow> u32 \<Rightarrow> u32 \<Rightarrow> u32 \<Rightarrow> kst \<Rightarrow> (u32 \<times> u32 \<times> kst) kres" where
  "block_read dev pos buf count s =
     (let n = (if count \<le>s 0 then 0 else unat count)
      in block_read_loop n dev (drop_bit 10 pos) (unat (pos AND 1023)) pos buf n 0 s)"

section \<open>Pipes\<close>

definition PIPE_SIZE :: "m_inode \<Rightarrow> nat" where
  "PIPE_SIZE m = unat ((i_zone m 0 - i_zone m 1) AND 0xfff)"

text \<open>The copying loops of the two directions; \<open>size\<close> indexes the page at \<open>page\<close>.\<close>

primrec pipe_out :: "nat \<Rightarrow> u32 \<Rightarrow> nat \<Rightarrow> u32 \<Rightarrow> kst \<Rightarrow> kst" where
  "pipe_out 0 page k buf s = s"
| "pipe_out (Suc n) page k buf s =
     pipe_out n page (k + 1) (buf + 1) (put_fs_byte (load8 (page + of_nat k) (mem s)) buf s)"

primrec pipe_in :: "nat \<Rightarrow> u32 \<Rightarrow> nat \<Rightarrow> u32 \<Rightarrow> kst \<Rightarrow> kst" where
  "pipe_in 0 page k buf s = s"
| "pipe_in (Suc n) page k buf s =
     pipe_in n page (k + 1) (buf + 1) (s\<lparr>mem := store8 (page + of_nat k) (get_fs_byte buf s) (mem s)\<rparr>)"

primrec read_pipe_loop :: "nat \<Rightarrow> nat \<Rightarrow> u32 \<Rightarrow> nat \<Rightarrow> nat \<Rightarrow> kst \<Rightarrow> (u32 \<times> kst) kres" where
  "read_pipe_loop 0 i buf count rd s = Inr (of_nat rd, s)"
| "read_pipe_loop (Suc n) i buf count rd s =
     (let m = inode_table s i; size = PIPE_SIZE m in
      if count = 0 then Inr (of_nat rd, s)
      else if size = 0 then (if i_count m \<noteq> 2 then Inr (of_nat rd, s) else sleep_on s)
      else
        let tail = unat (i_zone m 1);
            chars = min (min (4096 - tail) count) size;
            s = upd_inode i (\<lambda>m. m\<lparr>i_zone := (i_zone m)(1 := (i_zone m 1 + of_nat chars) AND 0xfff)\<rparr>) s
        in read_pipe_loop n i (buf + of_nat chars) (count - chars) (rd + chars)
             (pipe_out chars (i_size m) tail buf s))"

definition read_pipe :: "nat \<Rightarrow> u32 \<Rightarrow> u32 \<Rightarrow> kst \<Rightarrow> (u32 \<times> kst) kres" where
  "read_pipe i buf count s =
     (let n = (if count \<le>s 0 then 0 else unat count) in read_pipe_loop n i buf n 0 s)"

definition SIGPIPE :: nat where "SIGPIPE = 13"

primrec write_pipe_loop :: "nat \<Rightarrow> nat \<Rightarrow> u32 \<Rightarrow> nat \<Rightarrow> nat \<Rightarrow> kst \<Rightarrow> (u32 \<times> kst) kres" where
  "write_pipe_loop 0 i buf count written s = Inr (of_nat written, s)"
| "write_pipe_loop (Suc n) i buf count written s =
     (let m = inode_table s i; size = 4095 - PIPE_SIZE m in
      if count = 0 then Inr (of_nat written, s)
      else if size = 0 then
        (if i_count m \<noteq> 2 then
           Inr (if written \<noteq> 0 then of_nat written else - 1,
                upd_cur (\<lambda>t. t\<lparr>t_signal := t_signal t OR push_bit (SIGPIPE - 1) 1\<rparr>) s)
         else sleep_on s)
      else
        let head = unat (i_zone m 0);
            chars = min (min (4096 - head) count) size;
            s = upd_inode i (\<lambda>m. m\<lparr>i_zone := (i_zone m)(0 := (i_zone m 0 + of_nat chars) AND 0xfff)\<rparr>) s
        in write_pipe_loop n i (buf + of_nat chars) (count - chars) (written + chars)
             (pipe_in chars (i_size m) head buf s))"

definition write_pipe :: "nat \<Rightarrow> u32 \<Rightarrow> u32 \<Rightarrow> kst \<Rightarrow> (u32 \<times> kst) kres" where
  "write_pipe i buf count s =
     (let n = (if count \<le>s 0 then 0 else unat count) in write_pipe_loop n i buf n 0 s)"

text \<open>
  \<open>sys_pipe\<close>: \<open>take_files\<close> counts the first free entries of the file table (at most
  \<open>need\<close>) as used and returns them; \<open>take_fds\<close> puts open files into free descriptors.
\<close>

primrec take_files :: "nat \<Rightarrow> nat \<Rightarrow> nat \<Rightarrow> kst \<Rightarrow> nat list \<times> kst" where
  "take_files 0 i need s = ([], s)"
| "take_files (Suc n) i need s =
     (if need = 0 then ([], s)
      else if f_count (file_table s i) = 0 then
        (let (fs, s) = take_files n (Suc i) (need - 1) (upd_file i (\<lambda>f. f\<lparr>f_count := f_count f + 1\<rparr>) s)
         in (i # fs, s))
      else take_files n (Suc i) need s)"

primrec take_fds :: "nat \<Rightarrow> nat \<Rightarrow> nat list \<Rightarrow> kst \<Rightarrow> nat list \<times> kst" where
  "take_fds 0 i fs s = ([], s)"
| "take_fds (Suc n) i fs s =
     (case fs of [] \<Rightarrow> ([], s)
      | f # rest \<Rightarrow>
          if cur_filp i s = None then
            (let (fds, s) = take_fds n (Suc i) rest (set_filp i (Some f) s) in (i # fds, s))
          else take_fds n (Suc i) fs s)"

definition clear_count :: "nat \<Rightarrow> kst \<Rightarrow> kst" where
  "clear_count i s = upd_file i (\<lambda>f. f\<lparr>f_count := 0\<rparr>) s"

definition sys_pipe :: "u32 \<Rightarrow> kst \<Rightarrow> (u32 \<times> kst) kres" where
  "sys_pipe fildes s =
     (let (fs, s) = take_files NR_FILE 0 2 s in
      case fs of
        [f0, f1] \<Rightarrow>
          (let (fds, s) = take_fds NR_OPEN 0 [f0, f1] s in
           case fds of
             [fd0, fd1] \<Rightarrow>
               bindk (get_pipe_inode s) (\<lambda>(r, s). case r of
                 None \<Rightarrow> Inr (- 1, clear_count f1 (clear_count f0 (set_filp fd1 None (set_filp fd0 None s))))
               | Some i \<Rightarrow>
                   let s = upd_file f1 (\<lambda>f. f\<lparr>f_inode := Some i, f_pos := 0, f_mode := 2\<rparr>)
                             (upd_file f0 (\<lambda>f. f\<lparr>f_inode := Some i, f_pos := 0, f_mode := 1\<rparr>) s)
                   in Inr (0, put_fs_long (of_nat fd1) (fildes + 4) (put_fs_long (of_nat fd0) fildes s)))
           | [fd0] \<Rightarrow> Inr (- 1, clear_count f1 (clear_count f0 (set_filp fd0 None s)))
           | _ \<Rightarrow> Inr (- 1, clear_count f1 (clear_count f0 s)))
      | [f0] \<Rightarrow> Inr (- 1, clear_count f0 s)
      | _ \<Rightarrow> Inr (- 1, s))"

end
