(* ===== verification/Super.thy ===== *)
theory Super imports Inode begin

text \<open>
  fs/super.c without the system calls \<open>mount\<close> and \<open>umount\<close> (which need path names, see
  theory Namei): reading and dropping super blocks, mounting the root; and from fs/buffer.c
  \<open>check_disk_change\<close> with \<open>invalidate_buffers\<close>. The disk-change line of a floppy drive is the field
  \<open>disk_changed\<close> of the state.
\<close>

definition lock_super :: "nat \<Rightarrow> kst \<Rightarrow> kst kres" where
  "lock_super i s =
     (if s_lock (super_block s i) then sleep_on s
      else Inr (upd_super i (\<lambda>b. b\<lparr>s_lock := True\<rparr>) s))"

definition free_super :: "nat \<Rightarrow> kst \<Rightarrow> kst" where
  "free_super i s = upd_super i (\<lambda>b. b\<lparr>s_lock := False\<rparr>) s"

text \<open>\<open>for (i...) brelse(slots[i])\<close>\<close>

primrec brelse_slots :: "nat \<Rightarrow> nat \<Rightarrow> (nat \<Rightarrow> nat option) \<Rightarrow> kst \<Rightarrow> kst kres" where
  "brelse_slots 0 i slots s = Inr s"
| "brelse_slots (Suc n) i slots s = bindk (brelse (slots i) s) (brelse_slots n (Suc i) slots)"

definition put_super :: "u16 \<Rightarrow> kst \<Rightarrow> kst kres" where
  "put_super dev s =
     (if dev = ROOT_DEV s then Inr s
      else bindk (get_super dev s) (\<lambda>r. case r of
          None \<Rightarrow> Inr s
        | Some i \<Rightarrow>
          if s_imount (super_block s i) \<noteq> None then Inr s
          else bindk (lock_super i s) (\<lambda>s.
            let s = upd_super i (\<lambda>b. b\<lparr>s_dev := 0\<rparr>) s in
            bindk (brelse_slots I_MAP_SLOTS 0 (s_imap (super_block s i)) s) (\<lambda>s.
            bindk (brelse_slots Z_MAP_SLOTS 0 (s_zmap (super_block s i)) s) (\<lambda>s.
              Inr (free_super i s))))))"

primrec invalidate_buffers_loop :: "nat \<Rightarrow> nat \<Rightarrow> u16 \<Rightarrow> kst \<Rightarrow> kst kres" where
  "invalidate_buffers_loop 0 b dev s = Inr s"
| "invalidate_buffers_loop (Suc n) b dev s =
     (if b_dev (buffers s b) \<noteq> dev then invalidate_buffers_loop n (Suc b) dev s
      else bindk (wait_on_buffer b s) (\<lambda>s.
        invalidate_buffers_loop n (Suc b) dev
          (if b_dev (buffers s b) = dev
           then upd_buf b (\<lambda>h. h\<lparr>b_dirt := False, b_uptodate := False\<rparr>) s else s)))"

definition invalidate_buffers :: "u16 \<Rightarrow> kst \<Rightarrow> kst kres" where
  "invalidate_buffers dev s = invalidate_buffers_loop (nr_buffers s) 0 dev s"

primrec put_supers :: "nat \<Rightarrow> nat \<Rightarrow> u16 \<Rightarrow> kst \<Rightarrow> kst kres" where
  "put_supers 0 i dev s = Inr s"
| "put_supers (Suc n) i dev s =
     bindk (if s_dev (super_block s i) = dev then put_super (s_dev (super_block s i)) s else Inr s)
       (put_supers n (Suc i) dev)"

definition check_disk_change :: "u16 \<Rightarrow> kst \<Rightarrow> kst kres" where
  "check_disk_change dev s =
     (if MAJOR dev \<noteq> 2 then Inr s
      else if \<not> disk_changed s (unat (dev AND 3)) then Inr s
      else bindk (put_supers NR_SUPER 0 dev s) (\<lambda>s.
           bindk (invalidate_inodes dev s) (invalidate_buffers dev)))"

section \<open>read_super\<close>

primrec free_slot :: "nat \<Rightarrow> nat \<Rightarrow> kst \<Rightarrow> nat option" where
  "free_slot 0 i s = None"
| "free_slot (Suc n) i s = (if s_dev (super_block s i) = 0 then Some i else free_slot n (Suc i) s)"

text \<open>\<open>struct d_super_block\<close>: the first 20 bytes of block 1; bytes 18 and 19 pad the structure.\<close>

definition get_d_super :: "block \<Rightarrow> super_block \<Rightarrow> super_block" where
  "get_d_super d b =
     b\<lparr>s_ninodes := get16 d 0, s_nzones := get16 d 2, s_imap_blocks := get16 d 4,
       s_zmap_blocks := get16 d 6, s_firstdatazone := get16 d 8, s_log_zone_size := get16 d 10,
       s_max_size := get32 d 12, s_magic := get16 d 16\<rparr>"

text \<open>
  \<open>for (i=0 ; i < blocks ; i++)\<close>: fill the slots with bit map blocks from block number
  \<open>block\<close> on; the new block number is returned. A ninth block would be stored behind the array.
\<close>

primrec read_imap :: "nat \<Rightarrow> nat \<Rightarrow> nat \<Rightarrow> u16 \<Rightarrow> nat \<Rightarrow> kst \<Rightarrow> (nat \<times> kst) kres" where
  "read_imap 0 i k dev blk s = Inr (blk, s)"
| "read_imap (Suc n) i k dev blk s =
     bindk (bread dev (of_nat blk) s) (\<lambda>(r, s).
       if I_MAP_SLOTS \<le> i then Inl (Wild ''s_imap'')
       else let s = upd_super k (\<lambda>b. b\<lparr>s_imap := (s_imap b)(i := r)\<rparr>) s
            in if r \<noteq> None then read_imap n (Suc i) k dev (blk + 1) s else Inr (blk, s))"

primrec read_zmap :: "nat \<Rightarrow> nat \<Rightarrow> nat \<Rightarrow> u16 \<Rightarrow> nat \<Rightarrow> kst \<Rightarrow> (nat \<times> kst) kres" where
  "read_zmap 0 i k dev blk s = Inr (blk, s)"
| "read_zmap (Suc n) i k dev blk s =
     bindk (bread dev (of_nat blk) s) (\<lambda>(r, s).
       if Z_MAP_SLOTS \<le> i then Inl (Wild ''s_zmap'')
       else let s = upd_super k (\<lambda>b. b\<lparr>s_zmap := (s_zmap b)(i := r)\<rparr>) s
            in if r \<noteq> None then read_zmap n (Suc i) k dev (blk + 1) s else Inr (blk, s))"

text \<open>The statement \<open>slot[0]->b_data[0] |= 1\<close>.\<close>

definition reserve_bit0 :: "nat option \<Rightarrow> kst \<Rightarrow> kst kres" where
  "reserve_bit0 slot s =
     (case slot of None \<Rightarrow> Inl (Wild ''null bit map'')
      | Some b \<Rightarrow> Inr (upd_buf b (\<lambda>h. h\<lparr>b_data := (b_data h)(0 := b_data h 0 OR 1)\<rparr>) s))"

definition read_super :: "u16 \<Rightarrow> kst \<Rightarrow> (nat option \<times> kst) kres" where
  "read_super dev s =
     (if dev = 0 then Inr (None, s)
      else bindk (check_disk_change dev s) (\<lambda>s.
           bindk (get_super dev s) (\<lambda>r. case r of
             Some k \<Rightarrow> Inr (Some k, s)
           | None \<Rightarrow> (case free_slot NR_SUPER 0 s of
               None \<Rightarrow> Inr (None, s)
             | Some k \<Rightarrow>
               let fail = (\<lambda>s. Inr (None, free_super k (upd_super k (\<lambda>b. b\<lparr>s_dev := 0\<rparr>) s))) in
               bindk (lock_super k (upd_super k (\<lambda>b. b\<lparr>s_dev := dev, s_isup := None, s_imount := None,
                        s_time := 0, s_rd_only := False, s_dirt := False\<rparr>) s)) (\<lambda>s.
               bindk (bread dev 1 s) (\<lambda>(r, s). case r of
                 None \<Rightarrow> fail s
               | Some b \<Rightarrow>
                 bindk (brelse (Some b) (upd_super k (get_d_super (b_data (buffers s b))) s)) (\<lambda>s.
                 if s_magic (super_block s k) \<noteq> SUPER_MAGIC then fail s
                 else
                   let s = upd_super k (\<lambda>b. b\<lparr>s_imap := (\<lambda>_. None), s_zmap := (\<lambda>_. None)\<rparr>) s in
                   bindk (read_imap (unat (s_imap_blocks (super_block s k))) 0 k dev 2 s) (\<lambda>(blk, s).
                   bindk (read_zmap (unat (s_zmap_blocks (super_block s k))) 0 k dev blk s) (\<lambda>(blk, s).
                   let sb = super_block s k in
                   if blk \<noteq> 2 + unat (s_imap_blocks sb) + unat (s_zmap_blocks sb) then
                     bindk (brelse_slots I_MAP_SLOTS 0 (s_imap sb) s) (\<lambda>s.
                     bindk (brelse_slots Z_MAP_SLOTS 0 (s_zmap sb) s) fail)
                   else
                     bindk (reserve_bit0 (s_imap sb 0) s) (\<lambda>s.
                     bindk (reserve_bit0 (s_zmap sb 0) s) (\<lambda>s.
                       Inr (Some k, free_super k s))))))))))))"

section \<open>mount_root\<close>

text \<open>The count of free zones or inodes printed at boot; the test of a bit needs its map block.\<close>

primrec count_free :: "nat \<Rightarrow> (nat \<Rightarrow> nat option) \<Rightarrow> kst \<Rightarrow> nat kres" where
  "count_free 0 slots s = Inr 0"
| "count_free (Suc i) slots s =
     (case slots (i div 8192) of
        None \<Rightarrow> Inl (Wild ''null bit map'')
      | Some b \<Rightarrow>
          bindk (count_free i slots s) (\<lambda>n.
            Inr (if map_bit (b_data (buffers s b)) (i mod 8192) then n else n + 1)))"

definition mount_root :: "kst \<Rightarrow> kst kres" where
  "mount_root s =
     (let s = s\<lparr>file_table := (\<lambda>i. if i < NR_FILE then (file_table s i)\<lparr>f_count := 0\<rparr> else file_table s i)\<rparr> in
      if MAJOR (ROOT_DEV s) = 2 then sleep_on s
      else
        let s = s\<lparr>super_block := (\<lambda>i. if i < NR_SUPER
                     then (super_block s i)\<lparr>s_dev := 0, s_lock := False\<rparr> else super_block s i)\<rparr> in
        bindk (read_super (ROOT_DEV s) s) (\<lambda>(r, s). case r of
          None \<Rightarrow> Inl (Panic ''Unable to mount root'')
        | Some p \<Rightarrow>
          bindk (iget (ROOT_DEV s) ROOT_INO s) (\<lambda>(mi, s).
          let s = upd_inode mi (\<lambda>m. m\<lparr>i_count := i_count m + 3\<rparr>) s;
              s = upd_super p (\<lambda>b. b\<lparr>s_imount := Some mi, s_isup := Some mi\<rparr>) s;
              s = upd_cur (\<lambda>t. t\<lparr>t_pwd := Some mi, t_root := Some mi\<rparr>) s
          in bindk (count_free (unat (s_nzones (super_block s p))) (s_zmap (super_block s p)) s) (\<lambda>_.
             bindk (count_free (unat (s_ninodes (super_block s p)) + 1) (s_imap (super_block s p)) s) (\<lambda>_.
               Inr s)))))"

end
