(* ===== verification/Ctype.thy ===== *)
theory Ctype imports Prelude begin

text \<open>
  The character table of lib/ctype.c and the macros of include/ctype.h. The table has an entry for
  -1 (end of file) and for each of 0..255. The macros index it with their argument as an \<open>int\<close>; a
  negative \<open>char\<close> below -1 is outside the table.
\<close>

section \<open>The table\<close>

definition C_U :: nat where "C_U = 0x01"
definition C_L :: nat where "C_L = 0x02"
definition C_D :: nat where "C_D = 0x04"
definition C_C :: nat where "C_C = 0x08"
definition C_P :: nat where "C_P = 0x10"
definition C_S :: nat where "C_S = 0x20"
definition C_X :: nat where "C_X = 0x40"
definition C_SP :: nat where "C_SP = 0x80"

definition ctype_table :: "nat list" where
  "ctype_table =
    [0, 8, 8, 8, 8, 8, 8, 8, 8, 8, 40, 40, 40, 40, 40, 8, 8, 8, 8, 8, 8, 8, 8, 8, 8, 8, 8, 8, 8,
     8, 8, 8, 8, 160, 16, 16, 16, 16, 16, 16, 16, 16, 16, 16, 16, 16, 16, 16, 16, 4, 4, 4, 4, 4,
     4, 4, 4, 4, 4, 16, 16, 16, 16, 16, 16, 16, 65, 65, 65, 65, 65, 65, 1, 1, 1, 1, 1, 1, 1, 1,
     1, 1, 1, 1, 1, 1, 1, 1, 1, 1, 1, 1, 16, 16, 16, 16, 16, 16, 66, 66, 66, 66, 66, 66, 2, 2, 2,
     2, 2, 2, 2, 2, 2, 2, 2, 2, 2, 2, 2, 2, 2, 2, 2, 2, 16, 16, 16, 16, 8] @ replicate 128 0"

text \<open>\<open>(_ctype+1)[c] & m\<close> for a byte \<open>c\<close> taken as an unsigned character.\<close>

definition in_class :: "nat \<Rightarrow> u8 \<Rightarrow> bool" where
  "in_class m c \<longleftrightarrow> ctype_table ! (unat c + 1) AND m \<noteq> 0"

definition isalnum :: "u8 \<Rightarrow> bool" where "isalnum = in_class (C_U OR C_L OR C_D)"
definition isalpha :: "u8 \<Rightarrow> bool" where "isalpha = in_class (C_U OR C_L)"
definition iscntrl :: "u8 \<Rightarrow> bool" where "iscntrl = in_class C_C"
definition isdigit :: "u8 \<Rightarrow> bool" where "isdigit = in_class C_D"
definition isgraph :: "u8 \<Rightarrow> bool" where "isgraph = in_class (C_P OR C_U OR C_L OR C_D)"
definition islower :: "u8 \<Rightarrow> bool" where "islower = in_class C_L"
definition isprint :: "u8 \<Rightarrow> bool" where "isprint = in_class (C_P OR C_U OR C_L OR C_D OR C_SP)"
definition ispunct :: "u8 \<Rightarrow> bool" where "ispunct = in_class C_P"
definition isspace :: "u8 \<Rightarrow> bool" where "isspace = in_class C_S"
definition isupper :: "u8 \<Rightarrow> bool" where "isupper = in_class C_U"
definition isxdigit :: "u8 \<Rightarrow> bool" where "isxdigit = in_class (C_D OR C_X)"
definition isascii :: "u8 \<Rightarrow> bool" where "isascii c \<longleftrightarrow> c \<le> 0x7f"
definition toascii :: "u8 \<Rightarrow> u8" where "toascii c = c AND 0x7f"

text \<open>\<open>tolower\<close> and \<open>toupper\<close> on the \<open>char\<close> variable \<open>_ctmp\<close>; \<open>None\<close> is an
  access in front of the table.\<close>

definition tolower :: "u8 \<Rightarrow> u8 option" where
  "tolower c = (if c = 255 then Some c else if 128 \<le> c then None else Some (if isupper c then c + 32 else c))"

definition toupper :: "u8 \<Rightarrow> u8 option" where
  "toupper c = (if c = 255 then Some c else if 128 \<le> c then None else Some (if islower c then c - 32 else c))"

end
