(* ===== verification/Tty.thy ===== *)
theory Tty imports Sched Ctype begin

text \<open>
  The terminal layer: kernel/chr_drv/tty_io.c, the queue macros of include/linux/tty.h,
  kernel/chr_drv/serial.c and kernel/chr_drv/tty_ioctl.c. Terminal 0 is the console, whose output routine
  \<open>con_write\<close> (kernel/chr_drv/console.c) is an argument of the operations that call
  \<open>tty->write\<close>, since it calls \<open>copy_to_cooked\<close> in its turn; the theory Console has it.
  Terminals 1 and 2 are serial lines with the modelled \<open>rs_write\<close>.
\<close>

section \<open>Queues\<close>

definition qidx :: "u32 \<Rightarrow> u32" where "qidx a = a AND 1023"

definition q_empty :: "tty_queue \<Rightarrow> bool" where "q_empty q \<longleftrightarrow> q_head q = q_tail q"
definition q_left :: "tty_queue \<Rightarrow> u32" where "q_left q = qidx (q_tail q - q_head q - 1)"
definition q_last :: "tty_queue \<Rightarrow> u8" where "q_last q = q_buf q (unat (qidx (q_head q - 1)))"
definition q_full :: "tty_queue \<Rightarrow> bool" where "q_full q \<longleftrightarrow> q_left q = 0"
definition q_chars :: "tty_queue \<Rightarrow> u32" where "q_chars q = qidx (q_head q - q_tail q)"

definition getch :: "tty_queue \<Rightarrow> u8 \<times> tty_queue" where
  "getch q = (q_buf q (unat (q_tail q)), q\<lparr>q_tail := qidx (q_tail q + 1)\<rparr>)"

definition putch :: "u8 \<Rightarrow> tty_queue \<Rightarrow> tty_queue" where
  "putch c q = q\<lparr>q_buf := (q_buf q)(unat (q_head q) := c), q_head := qidx (q_head q + 1)\<rparr>"

definition dec_head :: "tty_queue \<Rightarrow> tty_queue" where
  "dec_head q = q\<lparr>q_head := qidx (q_head q - 1)\<rparr>"

definition upd_tty :: "nat \<Rightarrow> (tty_struct \<Rightarrow> tty_struct) \<Rightarrow> kst \<Rightarrow> kst" where
  "upd_tty n f s = s\<lparr>tty_table := (tty_table s)(n := f (tty_table s n))\<rparr>"

definition put_write :: "nat \<Rightarrow> u8 \<Rightarrow> kst \<Rightarrow> kst" where
  "put_write n c s = upd_tty n (\<lambda>t. t\<lparr>write_q := putch c (write_q t)\<rparr>) s"

section \<open>Flags and control characters\<close>

definition l_flag :: "u32 \<Rightarrow> tty_struct \<Rightarrow> bool" where "l_flag f t \<longleftrightarrow> c_lflag (tt_termios t) AND f \<noteq> 0"
definition i_flag :: "u32 \<Rightarrow> tty_struct \<Rightarrow> bool" where "i_flag f t \<longleftrightarrow> c_iflag (tt_termios t) AND f \<noteq> 0"
definition o_flag :: "u32 \<Rightarrow> tty_struct \<Rightarrow> bool" where "o_flag f t \<longleftrightarrow> c_oflag (tt_termios t) AND f \<noteq> 0"

definition L_ISIG :: "tty_struct \<Rightarrow> bool" where "L_ISIG = l_flag 1"
definition L_CANON :: "tty_struct \<Rightarrow> bool" where "L_CANON = l_flag 2"
definition L_ECHO :: "tty_struct \<Rightarrow> bool" where "L_ECHO = l_flag 8"
definition L_ECHOCTL :: "tty_struct \<Rightarrow> bool" where "L_ECHOCTL = l_flag 0x200"
definition I_NLCR :: "tty_struct \<Rightarrow> bool" where "I_NLCR = i_flag 0x40"
definition I_NOCR :: "tty_struct \<Rightarrow> bool" where "I_NOCR = i_flag 0x80"
definition I_CRNL :: "tty_struct \<Rightarrow> bool" where "I_CRNL = i_flag 0x100"
definition I_UCLC :: "tty_struct \<Rightarrow> bool" where "I_UCLC = i_flag 0x200"
definition O_POST :: "tty_struct \<Rightarrow> bool" where "O_POST = o_flag 1"
definition O_LCUC :: "tty_struct \<Rightarrow> bool" where "O_LCUC = o_flag 2"
definition O_NLCR :: "tty_struct \<Rightarrow> bool" where "O_NLCR = o_flag 4"
definition O_CRNL :: "tty_struct \<Rightarrow> bool" where "O_CRNL = o_flag 8"
definition O_NLRET :: "tty_struct \<Rightarrow> bool" where "O_NLRET = o_flag 0x20"

text \<open>
  \<open>c == KILL_CHAR(tty)\<close> and its like: \<open>c\<close> is a signed character, the control character an
  unsigned one, so they are never equal from 128 on.
\<close>

definition is_cc :: "nat \<Rightarrow> u8 \<Rightarrow> tty_struct \<Rightarrow> bool" where
  "is_cc k c t \<longleftrightarrow> c = c_cc (tt_termios t) k \<and> c < 128"

definition VINTR :: nat where "VINTR = 0"
definition VQUIT :: nat where "VQUIT = 1"
definition VERASE :: nat where "VERASE = 2"
definition VKILL :: nat where "VKILL = 3"
definition VEOF :: nat where "VEOF = 4"
definition VTIME :: nat where "VTIME = 5"
definition VMIN :: nat where "VMIN = 6"
definition VSTART :: nat where "VSTART = 8"
definition VSTOP :: nat where "VSTOP = 9"

definition INTMASK :: u32 where "INTMASK = push_bit (2 - 1) 1"
definition QUITMASK :: u32 where "QUITMASK = push_bit (3 - 1) 1"
definition ALRMMASK :: u32 where "ALRMMASK = push_bit (14 - 1) 1"

section \<open>The serial lines\<close>

definition serial_init :: "u32 \<Rightarrow> kst \<Rightarrow> kst" where
  "serial_init p s = outb 0x0d (p + 1) (outb 0x0b (p + 4) (outb 0x03 (p + 3) (outb 0x00 (p + 1)
     (outb 0x30 p (outb 0x80 (p + 3) s)))))"

definition rs_write :: "nat \<Rightarrow> kst \<Rightarrow> kst" where
  "rs_write n s =
     (let q = write_q (tty_table s n)
      in if \<not> q_empty q then outb (inb (q_data q + 1) s OR 2) (q_data q + 1) s else s)"

definition write_tty :: "(kst \<Rightarrow> kst kres) \<Rightarrow> nat \<Rightarrow> kst \<Rightarrow> kst kres" where
  "write_tty con n s = (if n = 0 then con s else Inr (rs_write n s))"

section \<open>Input: from the read queue to the secondary queue\<close>

definition tty_intr :: "nat \<Rightarrow> u32 \<Rightarrow> kst \<Rightarrow> kst" where
  "tty_intr n msk s =
     (let g = tt_pgrp (tty_table s n)
      in if g \<le>s 0 then s
         else s\<lparr>task := (\<lambda>i. if i < NR_TASKS
              then map_option (\<lambda>t. if t_pgrp t = g then t\<lparr>t_signal := t_signal t OR msk\<rparr> else t) (task s i)
              else task s i)\<rparr>)"

text \<open>The test that ends erasing: nothing left, or the end of the line before.\<close>

definition line_start :: "tty_struct \<Rightarrow> bool" where
  "line_start t \<longleftrightarrow> q_empty (secondary t) \<or> q_last (secondary t) = 10 \<or> is_cc VEOF (q_last (secondary t)) t"

definition erase_last :: "(kst \<Rightarrow> kst kres) \<Rightarrow> nat \<Rightarrow> kst \<Rightarrow> kst kres" where
  "erase_last con n s =
     (let t = tty_table s n; c = q_last (secondary t)
      in bindk (if L_ECHO t
                then write_tty con n (put_write n 127 (if c <s 32 then put_write n 127 s else s))
                else Inr s)
           (\<lambda>s. Inr (upd_tty n (\<lambda>t. t\<lparr>secondary := dec_head (secondary t)\<rparr>) s)))"

primrec kill_line :: "nat \<Rightarrow> (kst \<Rightarrow> kst kres) \<Rightarrow> nat \<Rightarrow> kst \<Rightarrow> kst kres" where
  "kill_line 0 con n s = Inl Hang"
| "kill_line (Suc k) con n s =
     (if line_start (tty_table s n) then Inr s else bindk (erase_last con n s) (kill_line k con n))"

definition echo :: "u8 \<Rightarrow> nat \<Rightarrow> kst \<Rightarrow> kst" where
  "echo c n s =
     (if c = 10 then put_write n 13 (put_write n 10 s)
      else if c <s 32 then
        (if L_ECHOCTL (tty_table s n) then put_write n (c + 64) (put_write n 94 s) else s)
      else put_write n c s)"

text \<open>What \<open>copy_to_cooked\<close> does with a character after the input translation.\<close>

definition cook :: "(kst \<Rightarrow> kst kres) \<Rightarrow> nat \<Rightarrow> u8 \<Rightarrow> kst \<Rightarrow> kst kres" where
  "cook con n c s =
     (let t = tty_table s n in
      if L_CANON t \<and> is_cc VKILL c t then kill_line 1025 con n s
      else if L_CANON t \<and> is_cc VERASE c t then
        (if line_start t then Inr s else erase_last con n s)
      else if L_CANON t \<and> is_cc VSTOP c t then Inr (upd_tty n (\<lambda>t. t\<lparr>tt_stopped := True\<rparr>) s)
      else if L_CANON t \<and> is_cc VSTART c t then Inr (upd_tty n (\<lambda>t. t\<lparr>tt_stopped := False\<rparr>) s)
      else if L_ISIG t \<and> is_cc VINTR c t then Inr (tty_intr n INTMASK s)
      else if L_ISIG t \<and> is_cc VQUIT c t then Inr (tty_intr n QUITMASK s)
      else
        let s = (if c = 10 \<or> is_cc VEOF c t
                 then upd_tty n (\<lambda>t. t\<lparr>secondary := (secondary t)\<lparr>q_data := q_data (secondary t) + 1\<rparr>\<rparr>) s else s)
        in bindk (if L_ECHO t then write_tty con n (echo c n s) else Inr s)
             (\<lambda>s. Inr (upd_tty n (\<lambda>t. t\<lparr>secondary := putch c (secondary t)\<rparr>) s)))"

text \<open>The translation of input characters; \<open>None\<close> inside is a character that is dropped.\<close>

definition translate :: "tty_struct \<Rightarrow> u8 \<Rightarrow> u8 option kres" where
  "translate t c =
     (if c = 13 \<and> \<not> I_CRNL t \<and> I_NOCR t then Inr None
      else
        let c = (if c = 13 then (if I_CRNL t then 10 else c) else if c = 10 \<and> I_NLCR t then 13 else c)
        in if I_UCLC t then (case tolower c of None \<Rightarrow> Inl (Wild ''_ctype'') | Some c \<Rightarrow> Inr (Some c))
           else Inr (Some c))"

primrec cooked_loop :: "nat \<Rightarrow> (kst \<Rightarrow> kst kres) \<Rightarrow> nat \<Rightarrow> kst \<Rightarrow> kst kres" where
  "cooked_loop 0 con n s = Inl Hang"
| "cooked_loop (Suc k) con n s =
     (let t = tty_table s n in
      if q_empty (read_q t) \<or> q_full (secondary t) then Inr s
      else
        let (c, q) = getch (read_q t); s = upd_tty n (\<lambda>t. t\<lparr>read_q := q\<rparr>) s
        in bindk (translate t c) (\<lambda>r.
           bindk (case r of None \<Rightarrow> Inr s | Some c \<Rightarrow> cook con n c s) (cooked_loop k con n)))"

definition copy_to_cooked :: "(kst \<Rightarrow> kst kres) \<Rightarrow> nat \<Rightarrow> kst \<Rightarrow> kst kres" where
  "copy_to_cooked con n = cooked_loop 1025 con n"

definition do_tty_interrupt :: "(kst \<Rightarrow> kst kres) \<Rightarrow> nat \<Rightarrow> kst \<Rightarrow> kst kres" where
  "do_tty_interrupt con n = copy_to_cooked con n"

section \<open>Reading\<close>

definition sleep_if_empty :: "tty_queue \<Rightarrow> kst \<Rightarrow> kst kres" where
  "sleep_if_empty q s = (if t_signal (cur s) = 0 \<and> q_empty q then sleep_on s else Inr s)"

definition sleep_if_full :: "tty_queue \<Rightarrow> kst \<Rightarrow> kst kres" where
  "sleep_if_full q s =
     (if \<not> q_full q then Inr s
      else if t_signal (cur s) = 0 \<and> q_left q < 128 then sleep_on s else Inr s)"

definition wait_for_keypress :: "kst \<Rightarrow> kst kres" where
  "wait_for_keypress s = sleep_if_empty (secondary (tty_table s 0)) s"

text \<open>
  The inner loop of \<open>tty_read\<close>: \<open>b\<close> bytes are stored at \<open>buf\<close> and \<open>nr\<close> wanted.
  The flag of the result says that the end-of-file character ended the call.
\<close>

primrec read_chars :: "nat \<Rightarrow> nat \<Rightarrow> u32 \<Rightarrow> nat \<Rightarrow> nat \<Rightarrow> kst \<Rightarrow> (bool \<times> nat \<times> nat \<times> kst) kres" where
  "read_chars 0 n buf b nr s = Inl Hang"
| "read_chars (Suc k) n buf b nr s =
     (let (c, q) = getch (secondary (tty_table s n)); t = tty_table s n;
          q = (if is_cc VEOF c t \<or> c = 10 then q\<lparr>q_data := q_data q - 1\<rparr> else q);
          s = upd_tty n (\<lambda>t. t\<lparr>secondary := q\<rparr>) s
      in if is_cc VEOF c t \<and> L_CANON t then Inr (True, b, nr, s)
         else
           let s = put_fs_byte c (buf + of_nat b) s; b = b + 1; nr = nr - 1
           in if 0 < nr \<and> \<not> q_empty q then read_chars k n buf b nr s else Inr (False, b, nr, s))"

definition finish_read :: "u32 \<Rightarrow> nat \<Rightarrow> kst \<Rightarrow> (u32 \<times> kst) kres" where
  "finish_read oldalarm b s =
     (let s = upd_cur (\<lambda>t. t\<lparr>t_alarm := oldalarm\<rparr>) s
      in Inr (if t_signal (cur s) \<noteq> 0 \<and> b = 0 then neg_errno EINTR else of_nat b, s))"

text \<open>
  The outer loop. With part of a line in the queue and nothing to wake the reader the code loops
  without sleeping until an interrupt brings more characters: \<open>Hang\<close>.
\<close>

primrec tty_read_loop :: "nat \<Rightarrow> nat \<Rightarrow> u32 \<Rightarrow> u32 \<Rightarrow> u32 \<Rightarrow> nat \<Rightarrow> bool \<Rightarrow> nat \<Rightarrow> nat \<Rightarrow> kst \<Rightarrow> (u32 \<times> kst) kres" where
  "tty_read_loop 0 n buf oldalarm time minimum flag b nr s = finish_read oldalarm b s"
| "tty_read_loop (Suc k) n buf oldalarm time minimum flag b nr s =
     (let t = tty_table s n; sig = t_signal (cur s) in
      if nr = 0 then finish_read oldalarm b s
      else if flag \<and> sig AND ALRMMASK \<noteq> 0 then
        finish_read oldalarm b (upd_cur (\<lambda>t. t\<lparr>t_signal := t_signal t AND NOT ALRMMASK\<rparr>) s)
      else if sig \<noteq> 0 then finish_read oldalarm b s
      else if q_empty (secondary t) \<or> L_CANON t \<and> q_data (secondary t) = 0 \<and> 20 < q_left (secondary t) then
        bindk (sleep_if_empty (secondary t) s) (\<lambda>_. Inl Hang)
      else
        bindk (read_chars 1025 n buf b nr s) (\<lambda>(eof, b, nr, s).
          if eof then Inr (of_nat b, s)
          else
            let early = (oldalarm = 0 \<or> time + jiffies s <s oldalarm);
                timed = (time \<noteq> 0 \<and> \<not> L_CANON t);
                s = (if timed then upd_cur (\<lambda>t. t\<lparr>t_alarm := (if early then time + jiffies s else oldalarm)\<rparr>) s else s);
                flag = (if timed then early else flag)
            in if L_CANON t \<and> b \<noteq> 0 \<or> \<not> L_CANON t \<and> minimum \<le> b then finish_read oldalarm b s
               else tty_read_loop k n buf oldalarm time minimum flag b nr s))"

definition tty_read :: "u32 \<Rightarrow> u32 \<Rightarrow> u32 \<Rightarrow> kst \<Rightarrow> (u32 \<times> kst) kres" where
  "tty_read channel buf nr s =
     (if 2 < channel \<or> nr <s 0 then Inr (- 1, s)
      else
        let n = unat channel; tio = tt_termios (tty_table s n); oldalarm = t_alarm (cur s);
            time = 10 * ucast (c_cc tio VTIME); minimum = unat (c_cc tio VMIN);
            only_time = (time \<noteq> 0 \<and> minimum = 0);
            flag = (only_time \<and> (oldalarm = 0 \<or> time + jiffies s <s oldalarm));
            minimum = (if only_time then 1 else minimum);
            s = (if flag then upd_cur (\<lambda>t. t\<lparr>t_alarm := time + jiffies s\<rparr>) s else s)
        in tty_read_loop (Suc (unat nr)) n buf oldalarm time (min minimum (unat nr)) flag 0 (unat nr) s)"

section \<open>Writing\<close>

primrec write_chars :: "nat \<Rightarrow> nat \<Rightarrow> u32 \<Rightarrow> nat \<Rightarrow> nat \<Rightarrow> kst \<Rightarrow> (nat \<times> nat \<times> kst) kres" where
  "write_chars 0 n buf b nr s = Inl Hang"
| "write_chars (Suc k) n buf b nr s =
     (let t = tty_table s n in
      if nr = 0 \<or> q_full (write_q t) then Inr (b, nr, s)
      else
        let c = get_fs_byte (buf + of_nat b) s;
            c = (if O_POST t then (if c = 13 \<and> O_CRNL t then 10 else if c = 10 \<and> O_NLRET t then 13 else c) else c)
        in if O_POST t \<and> c = 10 \<and> \<not> cr_flag s \<and> O_NLCR t then
             write_chars k n buf b nr (put_write n 13 (s\<lparr>cr_flag := True\<rparr>))
           else
             case (if O_POST t \<and> O_LCUC t then toupper c else Some c) of
               None \<Rightarrow> Inl (Wild ''_ctype'')
             | Some c \<Rightarrow> write_chars k n buf (b + 1) (nr - 1) (put_write n c (s\<lparr>cr_flag := False\<rparr>)))"

text \<open>
  After a round that could not write everything the code calls \<open>schedule()\<close>. Two rounds write at
  least one character: the first may stop behind the carriage return of a new line.
\<close>

primrec tty_write_loop :: "nat \<Rightarrow> (kst \<Rightarrow> kst kres) \<Rightarrow> nat \<Rightarrow> u32 \<Rightarrow> nat \<Rightarrow> nat \<Rightarrow> kst \<Rightarrow> (u32 \<times> kst) kres" where
  "tty_write_loop 0 con n buf b nr s = Inr (of_nat b, s)"
| "tty_write_loop (Suc k) con n buf b nr s =
     (if nr = 0 then Inr (of_nat b, s)
      else bindk (sleep_if_full (write_q (tty_table s n)) s) (\<lambda>s.
        if t_signal (cur s) \<noteq> 0 then Inr (of_nat b, s)
        else bindk (write_chars 1025 n buf b nr s) (\<lambda>(b, nr, s).
          bindk (write_tty con n s) (\<lambda>s.
            bindk (if 0 < nr then yield_cpu s else Inr s) (tty_write_loop k con n buf b nr)))))"

definition tty_write :: "(kst \<Rightarrow> kst kres) \<Rightarrow> u32 \<Rightarrow> u32 \<Rightarrow> u32 \<Rightarrow> kst \<Rightarrow> (u32 \<times> kst) kres" where
  "tty_write con channel buf nr s =
     (if 2 < channel \<or> nr <s 0 then Inr (- 1, s)
      else tty_write_loop (2 * unat nr + 1) con (unat channel) buf 0 (unat nr) s)"

section \<open>ioctl\<close>

definition quotient :: "nat list" where
  "quotient = [0, 2304, 1536, 1047, 857, 768, 576, 384, 192, 96, 64, 48, 24, 12, 6, 3]"

definition change_speed :: "nat \<Rightarrow> kst \<Rightarrow> kst" where
  "change_speed n s =
     (let p = q_data (read_q (tty_table s n)) AND 0xffff;
          quot = quotient ! unat (c_cflag (tt_termios (tty_table s n)) AND 0xf)
      in if p = 0 then s
         else outb 0x03 (p + 3) (outb (of_nat (quot div 256)) (p + 1) (outb (of_nat (quot mod 256)) p
                (outb 0x80 (p + 3) s))))"

definition flush_read :: "nat \<Rightarrow> kst \<Rightarrow> kst" where
  "flush_read n s = upd_tty n (\<lambda>t. t\<lparr>read_q := (read_q t)\<lparr>q_head := q_tail (read_q t)\<rparr>\<rparr>) s"

definition flush_write :: "nat \<Rightarrow> kst \<Rightarrow> kst" where
  "flush_write n s = upd_tty n (\<lambda>t. t\<lparr>write_q := (write_q t)\<lparr>q_head := q_tail (write_q t)\<rparr>\<rparr>) s"

text \<open>
  \<open>struct termios\<close> as 36 bytes: four little-endian words, \<open>c_line\<close>, 17 control characters
  and two bytes of padding, which the model keeps as control characters 17 and 18.
\<close>

definition word_byte :: "nat \<Rightarrow> u32 \<Rightarrow> u8" where
  "word_byte k w = ucast (drop_bit (8 * k) w)"

definition termios_byte :: "termios \<Rightarrow> nat \<Rightarrow> u8" where
  "termios_byte t i =
     (if i < 4 then word_byte i (c_iflag t) else if i < 8 then word_byte (i - 4) (c_oflag t)
      else if i < 12 then word_byte (i - 8) (c_cflag t) else if i < 16 then word_byte (i - 12) (c_lflag t)
      else if i = 16 then c_line t else c_cc t (i - 17))"

definition get_termios :: "nat \<Rightarrow> u32 \<Rightarrow> kst \<Rightarrow> (u32 \<times> kst) kres" where
  "get_termios n a s =
     bindk (verify_area a 36 s) (\<lambda>s. Inr (0, put_user 36 (termios_byte (tt_termios (tty_table s n))) 0 a s))"

definition set_termios :: "nat \<Rightarrow> u32 \<Rightarrow> kst \<Rightarrow> (u32 \<times> kst) kres" where
  "set_termios n a s =
     (let t = \<lparr>c_iflag = get_fs_long a s, c_oflag = get_fs_long (a + 4) s, c_cflag = get_fs_long (a + 8) s,
               c_lflag = get_fs_long (a + 12) s, c_line = get_fs_byte (a + 16) s,
               c_cc = (\<lambda>k. if k < 19 then get_fs_byte (a + 17 + of_nat k) s
                           else c_cc (tt_termios (tty_table s n)) k)\<rparr>
      in Inr (0, change_speed n (upd_tty n (\<lambda>y. y\<lparr>tt_termios := t\<rparr>) s)))"

text \<open>
  \<open>struct termio\<close>: four half words, \<open>c_line\<close>, 8 control characters and one byte of padding,
  which \<open>get_termio\<close> copies from the stack uninitialised (argument \<open>junk\<close>).
\<close>

definition termio_byte :: "u8 \<Rightarrow> termios \<Rightarrow> nat \<Rightarrow> u8" where
  "termio_byte junk t i =
     (if i < 2 then word_byte i (c_iflag t) else if i < 4 then word_byte (i - 2) (c_oflag t)
      else if i < 6 then word_byte (i - 4) (c_cflag t) else if i < 8 then word_byte (i - 6) (c_lflag t)
      else if i = 8 then c_line t else if i < 17 then c_cc t (i - 9) else junk)"

definition get_termio :: "u8 \<Rightarrow> nat \<Rightarrow> u32 \<Rightarrow> kst \<Rightarrow> (u32 \<times> kst) kres" where
  "get_termio junk n a s =
     bindk (verify_area a 18 s) (\<lambda>s. Inr (0, put_user 18 (termio_byte junk (tt_termios (tty_table s n))) 0 a s))"

definition low_half :: "u32 \<Rightarrow> u32 \<Rightarrow> kst \<Rightarrow> u32" where
  "low_half old a s = (old AND 0xffff0000) OR (get_fs_long a s AND 0xffff)"

definition set_termio :: "nat \<Rightarrow> u32 \<Rightarrow> kst \<Rightarrow> (u32 \<times> kst) kres" where
  "set_termio n a s =
     (let o_t = tt_termios (tty_table s n);
          t = \<lparr>c_iflag = low_half (c_iflag o_t) a s, c_oflag = low_half (c_oflag o_t) (a + 2) s,
               c_cflag = low_half (c_cflag o_t) (a + 4) s, c_lflag = low_half (c_lflag o_t) (a + 6) s,
               c_line = get_fs_byte (a + 8) s,
               c_cc = (\<lambda>k. if k < 8 then get_fs_byte (a + 9 + of_nat k) s else c_cc o_t k)\<rparr>
      in Inr (0, change_speed n (upd_tty n (\<lambda>y. y\<lparr>tt_termios := t\<rparr>) s)))"

definition put_long_checked :: "u32 \<Rightarrow> u32 \<Rightarrow> kst \<Rightarrow> (u32 \<times> kst) kres" where
  "put_long_checked v a s = bindk (verify_area a 4 s) (\<lambda>s. Inr (0, put_fs_long v a s))"

text \<open>The terminal number is not checked; a minor number above 2 is outside \<open>tty_table\<close>.\<close>

definition tty_ioctl :: "u8 \<Rightarrow> u16 \<Rightarrow> u32 \<Rightarrow> u32 \<Rightarrow> kst \<Rightarrow> (u32 \<times> kst) kres" where
  "tty_ioctl junk dev cmd arg s =
     (if MAJOR dev = 5 \<and> t_tty (cur s) <s 0 then Inl (Panic ''tty_ioctl: dev<0'')
      else
        let n = (if MAJOR dev = 5 then unat (t_tty (cur s)) else MINOR dev); t = tty_table s n in
        if 2 < n then Inl (Wild ''tty_table'')
        else if cmd = 0x5401 then get_termios n arg s
        else if cmd = 0x5404 then set_termios n arg (flush_read n s)
        else if cmd = 0x5403 \<or> cmd = 0x5402 then set_termios n arg s
        else if cmd = 0x5405 then get_termio junk n arg s
        else if cmd = 0x5408 then set_termio n arg (flush_read n s)
        else if cmd = 0x5407 \<or> cmd = 0x5406 then set_termio n arg s
        else if cmd = 0x5409 then Inr (0, s)
        else if cmd = 0x540B then
          (if arg = 0 then Inr (0, flush_read n s)
           else if arg = 1 then Inr (0, flush_write n s)
           else if arg = 2 then Inr (0, flush_write n (flush_read n s))
           else Inr (neg_errno EINVAL, s))
        else if cmd = 0x540F then put_long_checked (tt_pgrp t) arg s
        else if cmd = 0x5410 then Inr (0, upd_tty n (\<lambda>t. t\<lparr>tt_pgrp := get_fs_long arg s\<rparr>) s)
        else if cmd = 0x5411 then put_long_checked (q_chars (write_q t)) arg s
        else if cmd = 0x541B then put_long_checked (q_chars (secondary t)) arg s
        else Inr (neg_errno EINVAL, s))"

end
