(* ===== verification/Fd_Calls.thy ===== *)
theory Fd_Calls imports File_IO Super Tty begin

text \<open>
  The system calls on file descriptors: fs/read_write.c, fs/char_dev.c, fs/fcntl.c, fs/ioctl.c and
  \<open>sys_close\<close> of fs/open.c. A file descriptor is an unsigned 32 bit word.
\<close>

section \<open>Character devices\<close>

definition rw_ttyx :: "(kst \<Rightarrow> kst kres) \<Rightarrow> rw_cmd \<Rightarrow> u32 \<Rightarrow> u32 \<Rightarrow> u32 \<Rightarrow> kst \<Rightarrow> (u32 \<times> kst) kres" where
  "rw_ttyx con rw minor buf count s =
     (if rw = READ then tty_read minor buf count s else tty_write con minor buf count s)"

definition rw_tty :: "(kst \<Rightarrow> kst kres) \<Rightarrow> rw_cmd \<Rightarrow> u32 \<Rightarrow> u32 \<Rightarrow> kst \<Rightarrow> (u32 \<times> kst) kres" where
  "rw_tty con rw buf count s =
     (if t_tty (cur s) <s 0 then Inr (neg_errno EPERM, s)
      else rw_ttyx con rw (t_tty (cur s)) buf count s)"

primrec rw_port_loop :: "nat \<Rightarrow> rw_cmd \<Rightarrow> u32 \<Rightarrow> u32 \<Rightarrow> kst \<Rightarrow> u32 \<times> kst" where
  "rw_port_loop 0 rw buf i s = (i, s)"
| "rw_port_loop (Suc n) rw buf i s =
     (if \<not> i <s 65536 then (i, s)
      else rw_port_loop n rw (buf + 1) (i + 1)
             (if rw = READ then put_fs_byte (inb i s) buf s else outb (get_fs_byte buf s) i s))"

text \<open>The position is that of the open file \<open>filp\<close>, whose address the callers pass.\<close>

definition rw_port :: "rw_cmd \<Rightarrow> u32 \<Rightarrow> u32 \<Rightarrow> nat \<Rightarrow> kst \<Rightarrow> (u32 \<times> kst) kres" where
  "rw_port rw buf count filp s =
     (let pos = f_pos (file_table s filp);
          (i, s) = rw_port_loop (if count \<le>s 0 then 0 else unat count) rw buf pos s;
          i = i - pos
      in Inr (i, upd_file filp (\<lambda>f. f\<lparr>f_pos := f_pos f + i\<rparr>) s))"

definition rw_memory :: "rw_cmd \<Rightarrow> nat \<Rightarrow> u32 \<Rightarrow> u32 \<Rightarrow> nat \<Rightarrow> kst \<Rightarrow> (u32 \<times> kst) kres" where
  "rw_memory rw minor buf count filp s =
     (if minor = 3 then Inr (if rw = READ then 0 else count, s)
      else if minor = 4 then rw_port rw buf count filp s
      else Inr (neg_errno EIO, s))"

text \<open>\<open>crw_table\<close> has entries for the major numbers 1, 4 and 5.\<close>

definition rw_char :: "(kst \<Rightarrow> kst kres) \<Rightarrow> rw_cmd \<Rightarrow> u16 \<Rightarrow> u32 \<Rightarrow> u32 \<Rightarrow> nat \<Rightarrow> kst \<Rightarrow> (u32 \<times> kst) kres" where
  "rw_char con rw dev buf count filp s =
     (if MAJOR dev = 1 then rw_memory rw (MINOR dev) buf count filp s
      else if MAJOR dev = 4 then rw_ttyx con rw (of_nat (MINOR dev)) buf count s
      else if MAJOR dev = 5 then rw_tty con rw buf count s
      else Inr (neg_errno ENODEV, s))"

section \<open>read, write and lseek\<close>

text \<open>The open file behind a descriptor.\<close>

definition fget :: "u32 \<Rightarrow> kst \<Rightarrow> nat option" where
  "fget fd s = (if of_nat NR_OPEN \<le> fd then None else cur_filp (unat fd) s)"

definition sys_lseek :: "u32 \<Rightarrow> u32 \<Rightarrow> u32 \<Rightarrow> kst \<Rightarrow> (u32 \<times> kst) kres" where
  "sys_lseek fd offset origin s =
     (case fget fd s of None \<Rightarrow> Inr (neg_errno EBADF, s)
      | Some f \<Rightarrow> (case f_inode (file_table s f) of None \<Rightarrow> Inr (neg_errno EBADF, s)
        | Some i \<Rightarrow>
          let m = inode_table s i; pos = f_pos (file_table s f);
              seek = (\<lambda>p. Inr (p, upd_file f (\<lambda>x. x\<lparr>f_pos := p\<rparr>) s))
          in if \<not> (1 \<le> MAJOR (i_dev m) \<and> MAJOR (i_dev m) \<le> 3) then Inr (neg_errno EBADF, s)
             else if i_pipe m then Inr (neg_errno ESPIPE, s)
             else if origin = 0 then (if offset <s 0 then Inr (neg_errno EINVAL, s) else seek offset)
             else if origin = 1 then (if pos + offset <s 0 then Inr (neg_errno EINVAL, s) else seek (pos + offset))
             else if origin = 2 then
               (if i_size m + offset <s 0 then Inr (neg_errno EINVAL, s) else seek (i_size m + offset))
             else Inr (neg_errno EINVAL, s)))"

definition set_pos :: "nat \<Rightarrow> u32 \<times> u32 \<times> kst \<Rightarrow> u32 \<times> kst" where
  "set_pos f r = (case r of (v, pos, s) \<Rightarrow> (v, upd_file f (\<lambda>x. x\<lparr>f_pos := pos\<rparr>) s))"

definition sys_read :: "(kst \<Rightarrow> kst kres) \<Rightarrow> u32 \<Rightarrow> u32 \<Rightarrow> u32 \<Rightarrow> kst \<Rightarrow> (u32 \<times> kst) kres" where
  "sys_read con fd buf count s =
     (case fget fd s of None \<Rightarrow> Inr (neg_errno EINVAL, s)
      | Some f \<Rightarrow>
        if count <s 0 then Inr (neg_errno EINVAL, s)
        else if count = 0 then Inr (0, s)
        else bindk (verify_area buf count s) (\<lambda>s.
          case f_inode (file_table s f) of None \<Rightarrow> Inl (Wild ''f_inode'')
          | Some i \<Rightarrow>
            let m = inode_table s i; pos = f_pos (file_table s f) in
            if i_pipe m then
              (if f_mode (file_table s f) AND 1 \<noteq> 0 then read_pipe i buf count s else Inr (neg_errno EIO, s))
            else if S_ISCHR (i_mode m) then rw_char con READ (i_zone m 0) buf count f s
            else if S_ISBLK (i_mode m) then
              bindk (block_read (i_zone m 0) pos buf count s) (\<lambda>r. Inr (set_pos f r))
            else if S_ISDIR (i_mode m) \<or> S_ISREG (i_mode m) then
              let count = (if i_size m < count + pos then i_size m - pos else count)
              in if count \<le>s 0 then Inr (0, s) else file_read i f buf count s
            else Inr (neg_errno EINVAL, s)))"

definition sys_write :: "(kst \<Rightarrow> kst kres) \<Rightarrow> u32 \<Rightarrow> u32 \<Rightarrow> u32 \<Rightarrow> kst \<Rightarrow> (u32 \<times> kst) kres" where
  "sys_write con fd buf count s =
     (case fget fd s of None \<Rightarrow> Inr (neg_errno EINVAL, s)
      | Some f \<Rightarrow>
        if count <s 0 then Inr (neg_errno EINVAL, s)
        else if count = 0 then Inr (0, s)
        else case f_inode (file_table s f) of None \<Rightarrow> Inl (Wild ''f_inode'')
          | Some i \<Rightarrow>
            let m = inode_table s i; pos = f_pos (file_table s f) in
            if i_pipe m then
              (if f_mode (file_table s f) AND 2 \<noteq> 0 then write_pipe i buf count s else Inr (neg_errno EIO, s))
            else if S_ISCHR (i_mode m) then rw_char con WRITE (i_zone m 0) buf count f s
            else if S_ISBLK (i_mode m) then
              bindk (block_write (i_zone m 0) pos buf count s) (\<lambda>r. Inr (set_pos f r))
            else if S_ISREG (i_mode m) then file_write i f buf count s
            else Inr (neg_errno EINVAL, s))"

section \<open>dup, fcntl, close\<close>

primrec free_fd :: "nat \<Rightarrow> nat \<Rightarrow> kst \<Rightarrow> nat" where
  "free_fd 0 arg s = arg"
| "free_fd (Suc n) arg s = (if cur_filp arg s \<noteq> None then free_fd n (arg + 1) s else arg)"

definition dupfd :: "u32 \<Rightarrow> u32 \<Rightarrow> kst \<Rightarrow> (u32 \<times> kst) kres" where
  "dupfd fd arg s =
     (case fget fd s of None \<Rightarrow> Inr (neg_errno EBADF, s)
      | Some f \<Rightarrow>
        if of_nat NR_OPEN \<le> arg then Inr (neg_errno EINVAL, s)
        else
          let k = free_fd (NR_OPEN - unat arg) (unat arg) s
          in if NR_OPEN \<le> k then Inr (neg_errno EMFILE, s)
             else
               let s = upd_cur (\<lambda>t. t\<lparr>t_close_on_exec := t_close_on_exec t AND NOT (push_bit k 1)\<rparr>) s;
                   s = set_filp k (Some f) s
               in Inr (of_nat k, upd_file f (\<lambda>x. x\<lparr>f_count := f_count x + 1\<rparr>) s))"

definition sys_close :: "u32 \<Rightarrow> kst \<Rightarrow> (u32 \<times> kst) kres" where
  "sys_close fd s =
     (if of_nat NR_OPEN \<le> fd then Inr (neg_errno EINVAL, s)
      else
        let s = upd_cur (\<lambda>t. t\<lparr>t_close_on_exec := t_close_on_exec t AND NOT (push_bit (unat fd) 1)\<rparr>) s
        in case cur_filp (unat fd) s of None \<Rightarrow> Inr (neg_errno EINVAL, s)
           | Some f \<Rightarrow>
             let s = set_filp (unat fd) None s
             in if f_count (file_table s f) = 0 then Inl (Panic ''Close: file count is 0'')
                else
                  let s = upd_file f (\<lambda>x. x\<lparr>f_count := f_count x - 1\<rparr>) s
                  in if f_count (file_table s f) \<noteq> 0 then Inr (0, s)
                     else bindk (iput (f_inode (file_table s f)) s) (\<lambda>s. Inr (0, s)))"

definition sys_dup2 :: "u32 \<Rightarrow> u32 \<Rightarrow> kst \<Rightarrow> (u32 \<times> kst) kres" where
  "sys_dup2 oldfd newfd s = bindk (sys_close newfd s) (\<lambda>(_, s). dupfd oldfd newfd s)"

definition sys_dup :: "u32 \<Rightarrow> kst \<Rightarrow> (u32 \<times> kst) kres" where
  "sys_dup fildes s = dupfd fildes 0 s"

definition sys_fcntl :: "u32 \<Rightarrow> u32 \<Rightarrow> u32 \<Rightarrow> kst \<Rightarrow> (u32 \<times> kst) kres" where
  "sys_fcntl fd cmd arg s =
     (case fget fd s of None \<Rightarrow> Inr (neg_errno EBADF, s)
      | Some f \<Rightarrow>
        let flags = O_APPEND OR O_NONBLOCK in
        if cmd = 0 then dupfd fd arg s
        else if cmd = 1 then Inr (drop_bit (unat fd) (t_close_on_exec (cur s)) AND 1, s)
        else if cmd = 2 then
          Inr (0, upd_cur (\<lambda>t. t\<lparr>t_close_on_exec :=
                 (if arg AND 1 \<noteq> 0 then t_close_on_exec t OR push_bit (unat fd) 1
                  else t_close_on_exec t AND NOT (push_bit (unat fd) 1))\<rparr>) s)
        else if cmd = 3 then Inr (ucast (f_flags (file_table s f)), s)
        else if cmd = 4 then
          Inr (0, upd_file f (\<lambda>x. x\<lparr>f_flags := (f_flags x AND NOT (ucast flags)) OR ucast (arg AND flags)\<rparr>) s)
        else Inr (- 1, s))"

definition sys_ioctl :: "u8 \<Rightarrow> u32 \<Rightarrow> u32 \<Rightarrow> u32 \<Rightarrow> kst \<Rightarrow> (u32 \<times> kst) kres" where
  "sys_ioctl junk fd cmd arg s =
     (case fget fd s of None \<Rightarrow> Inr (neg_errno EBADF, s)
      | Some f \<Rightarrow> (case f_inode (file_table s f) of None \<Rightarrow> Inl (Wild ''f_inode'')
        | Some i \<Rightarrow>
          let m = inode_table s i; dev = i_zone m 0 in
          if \<not> S_ISCHR (i_mode m) \<and> \<not> S_ISBLK (i_mode m) then Inr (neg_errno EINVAL, s)
          else if 8 \<le> MAJOR dev then Inr (neg_errno ENODEV, s)
          else if \<not> (MAJOR dev = 4 \<or> MAJOR dev = 5) then Inr (neg_errno ENOTTY, s)
          else tty_ioctl junk dev cmd arg s))"

end
