(* ===== verification/Process.thy ===== *)
theory Process imports Sys Fd_Calls begin

text \<open>
  kernel/fork.c and kernel/exit.c: making a process (\<open>find_empty_process\<close>, \<open>copy_mem\<close>,
  \<open>copy_process\<close>), ending one (\<open>do_exit\<close>, \<open>release\<close>) and waiting for it
  (\<open>sys_waitpid\<close>). The descriptors of a task in the GDT, which only the processor
  reads, are not kept; the macros that write them are in theory Descriptors.
\<close>

section \<open>fork\<close>

text \<open>\<open>find_empty_process\<close>: 64 tasks cannot use 65 process numbers.\<close>

definition pid_used :: "u32 \<Rightarrow> kst \<Rightarrow> bool" where
  "pid_used pid s \<longleftrightarrow> find_pid NR_TASKS 0 pid s \<noteq> None"

primrec next_pid :: "nat \<Rightarrow> kst \<Rightarrow> kst kres" where
  "next_pid 0 s = Inl Hang"
| "next_pid (Suc n) s =
     (let pid = (if last_pid s + 1 <s 0 then 1 else last_pid s + 1); s = s\<lparr>last_pid := pid\<rparr>
      in if pid_used pid s then next_pid n s else Inr s)"

primrec free_task :: "nat \<Rightarrow> nat \<Rightarrow> kst \<Rightarrow> nat option" where
  "free_task 0 i s = None"
| "free_task (Suc n) i s = (if task s i = None then Some i else free_task n (Suc i) s)"

definition find_empty_process :: "kst \<Rightarrow> (u32 \<times> kst) kres" where
  "find_empty_process s =
     bindk (next_pid 66 s) (\<lambda>s.
       Inr (case free_task (NR_TASKS - 1) 1 s of None \<Rightarrow> neg_errno EAGAIN | Some i \<Rightarrow> of_nat i, s))"

definition copy_mem :: "nat \<Rightarrow> kst \<Rightarrow> (u32 \<times> kst) kres" where
  "copy_mem nr s =
     (let t = cur s; new = of_nat nr * 0x4000000 in
      if t_data_base t \<noteq> t_code_base t then Inl (Panic ''We dont support separate I&D'')
      else if t_data_limit t < t_code_limit t then Inl (Panic ''Bad data_limit'')
      else
        let s = upd_task nr (\<lambda>p. p\<lparr>t_start_code := new, t_code_base := new, t_data_base := new\<rparr>) s
        in bindk (copy_page_tables (t_data_base t) new (t_data_limit t) (mem s)) (\<lambda>(r, m).
           if r \<noteq> 0 then
             bindk (free_page_tables new (t_data_limit t) m) (\<lambda>(_, m). Inr (neg_errno ENOMEM, s\<lparr>mem := m\<rparr>))
           else Inr (0, s\<lparr>mem := m\<rparr>)))"

text \<open>The registers of the parent that \<open>copy_process\<close> gets from the kernel stack.\<close>

record regs =
  g_ebp :: u32
  g_edi :: u32
  g_esi :: u32
  g_gs :: u32
  g_ebx :: u32
  g_ecx :: u32
  g_edx :: u32
  g_fs :: u32
  g_es :: u32
  g_ds :: u32
  g_eip :: u32
  g_cs :: u32
  g_eflags :: u32
  g_esp :: u32
  g_ss :: u32

definition LDT :: "nat \<Rightarrow> u32" where "LDT n = of_nat (16 * n + 40)"

definition child_tss :: "nat \<Rightarrow> u32 \<Rightarrow> regs \<Rightarrow> tss_struct" where
  "child_tss nr p g =
     \<lparr>back_link = 0, esp0 = 4096 + p, ss0 = 0x10, r_eip = g_eip g, r_eflags = g_eflags g, r_eax = 0,
      r_ecx = g_ecx g, r_edx = g_edx g, r_ebx = g_ebx g, r_esp = g_esp g, r_ebp = g_ebp g,
      r_esi = g_esi g, r_edi = g_edi g, r_es = g_es g AND 0xffff, r_cs = g_cs g AND 0xffff,
      r_ss = g_ss g AND 0xffff, r_ds = g_ds g AND 0xffff, r_fs = g_fs g AND 0xffff,
      r_gs = g_gs g AND 0xffff, r_ldt = LDT nr, trace_bitmap = 0x80000000\<rparr>"

definition child_task :: "nat \<Rightarrow> u32 \<Rightarrow> regs \<Rightarrow> kst \<Rightarrow> task_struct" where
  "child_task nr p g s =
     (cur s)\<lparr>t_state := UNINTERRUPTIBLE, t_pid := last_pid s, t_father := t_pid (cur s),
       t_counter := t_priority (cur s), t_signal := 0, t_alarm := 0, t_leader := False,
       t_utime := 0, t_stime := 0, t_cutime := 0, t_cstime := 0, t_start_time := jiffies s,
       t_tss := child_tss nr p g, t_page := p\<rparr>"

primrec share_files :: "nat \<Rightarrow> nat \<Rightarrow> nat \<Rightarrow> kst \<Rightarrow> kst" where
  "share_files 0 i nr s = s"
| "share_files (Suc n) i nr s =
     share_files n (Suc i) nr
       (case task s nr of None \<Rightarrow> s
        | Some p \<Rightarrow> (case t_filp p i of None \<Rightarrow> s
            | Some f \<Rightarrow> upd_file f (\<lambda>x. x\<lparr>f_count := f_count x + 1\<rparr>) s))"

definition share_inode :: "nat option \<Rightarrow> kst \<Rightarrow> kst" where
  "share_inode r s = (case r of None \<Rightarrow> s | Some i \<Rightarrow> upd_inode i (\<lambda>m. m\<lparr>i_count := i_count m + 1\<rparr>) s)"

definition copy_process :: "nat \<Rightarrow> regs \<Rightarrow> kst \<Rightarrow> (u32 \<times> kst) kres" where
  "copy_process nr g s =
     (let (p, m) = get_free_page (mem s); s = s\<lparr>mem := m\<rparr> in
      if p = 0 then Inr (neg_errno EAGAIN, s)
      else
        let s = s\<lparr>task := (task s)(nr \<mapsto> child_task nr p g s)\<rparr>
        in bindk (copy_mem nr s) (\<lambda>(r, s).
           if r \<noteq> 0 then
             bindk (free_page p (mem s)) (\<lambda>m. Inr (neg_errno EAGAIN, s\<lparr>task := (task s)(nr := None), mem := m\<rparr>))
           else
             let s = share_files NR_OPEN 0 nr s;
                 s = share_inode (t_executable (cur s)) (share_inode (t_root (cur s)) (share_inode (t_pwd (cur s)) s));
                 s = upd_task nr (\<lambda>t. t\<lparr>t_state := RUNNING\<rparr>) s
             in Inr (last_pid s, s)))"

text \<open>\<open>sys_fork\<close> of kernel/system_call.s: no process is made when there is no free slot.\<close>

definition sys_fork :: "regs \<Rightarrow> kst \<Rightarrow> (u32 \<times> kst) kres" where
  "sys_fork g s = bindk (find_empty_process s) (\<lambda>(nr, s).
     if nr <s 0 then Inr (nr, s) else copy_process (unat nr) g s)"

section \<open>exit\<close>

definition release :: "nat \<Rightarrow> kst \<Rightarrow> kst kres" where
  "release n s =
     (case task s n of None \<Rightarrow> Inr s
      | Some t \<Rightarrow>
        if n = 0 then Inl (Panic ''trying to release non-existent task'')
        else bindk (free_page (t_page t) (mem s)) (\<lambda>m. Inr (s\<lparr>task := (task s)(n := None), mem := m\<rparr>)))"

text \<open>
  \<open>release\<close> above ends before its call of \<open>schedule\<close>. \<open>tell_father\<close> releases the task
  itself when it has no father; then nobody comes back to it.
\<close>

definition tell_father :: "u32 \<Rightarrow> kst \<Rightarrow> kst kres" where
  "tell_father pid s =
     (case (if pid = 0 then None else find_pid NR_TASKS 0 pid s) of
        Some i \<Rightarrow> Inr (upd_task i (\<lambda>t. t\<lparr>t_signal := t_signal t OR sig_bit SIGCHLD\<rparr>) s)
      | None \<Rightarrow> release (current s) s)"

primrec orphan_children :: "nat \<Rightarrow> nat \<Rightarrow> kst \<Rightarrow> kst" where
  "orphan_children 0 i s = s"
| "orphan_children (Suc n) i s =
     orphan_children n (Suc i)
       (case task s i of None \<Rightarrow> s
        | Some t \<Rightarrow>
          if t_father t = t_pid (cur s) then
            let s = upd_task i (\<lambda>t. t\<lparr>t_father := 1\<rparr>) s
            in if t_state t = ZOMBIE then snd (send_sig (of_nat SIGCHLD) 1 True s) else s
          else s)"

primrec close_all :: "nat \<Rightarrow> nat \<Rightarrow> kst \<Rightarrow> kst kres" where
  "close_all 0 i s = Inr s"
| "close_all (Suc n) i s =
     bindk (if cur_filp i s \<noteq> None then bindk (sys_close (of_nat i) s) (\<lambda>(_, s). Inr s) else Inr s)
       (close_all n (Suc i))"

text \<open>
  \<open>do_exit\<close> up to its last call of \<open>schedule\<close>, from which it does not return: the state in
  which the task is left behind.
\<close>

definition do_exit :: "u32 \<Rightarrow> kst \<Rightarrow> kst kres" where
  "do_exit code s =
     (let t = cur s in
      bindk (free_page_tables (t_code_base t) (t_code_limit t) (mem s)) (\<lambda>(_, m).
      bindk (free_page_tables (t_data_base t) (t_data_limit t) m) (\<lambda>(_, m).
      bindk (close_all NR_OPEN 0 (orphan_children NR_TASKS 0 (s\<lparr>mem := m\<rparr>))) (\<lambda>s.
      bindk (iput (t_pwd (cur s)) s) (\<lambda>s. let s = upd_cur (\<lambda>t. t\<lparr>t_pwd := None\<rparr>) s in
      bindk (iput (t_root (cur s)) s) (\<lambda>s. let s = upd_cur (\<lambda>t. t\<lparr>t_root := None\<rparr>) s in
      bindk (iput (t_executable (cur s)) s) (\<lambda>s. let s = upd_cur (\<lambda>t. t\<lparr>t_executable := None\<rparr>) s in
        if t_leader (cur s) \<and> 0 \<le>s t_tty (cur s) \<and> 2 < t_tty (cur s) then Inl (Wild ''tty_table'')
        else
          let s = (if t_leader (cur s) \<and> 0 \<le>s t_tty (cur s)
                   then upd_tty (unat (t_tty (cur s))) (\<lambda>y. y\<lparr>tt_pgrp := 0\<rparr>) s else s);
              s = (if last_task_used_math s = Some (current s) then s\<lparr>last_task_used_math := None\<rparr> else s);
              s = (if t_leader (cur s) then kill_session s else s);
              s = upd_cur (\<lambda>t. t\<lparr>t_state := ZOMBIE, t_exit_code := code\<rparr>) s
          in tell_father (t_father (cur s)) s)))))))"

definition sys_exit :: "u32 \<Rightarrow> kst \<Rightarrow> kst kres" where
  "sys_exit error_code = do_exit (push_bit 8 (error_code AND 0xff))"

section \<open>waitpid\<close>

definition waited :: "u32 \<Rightarrow> task_struct \<Rightarrow> kst \<Rightarrow> bool" where
  "waited pid p s \<longleftrightarrow>
     t_father p = t_pid (cur s) \<and>
     (if 0 <s pid then t_pid p = pid else if pid = 0 then t_pgrp p = t_pgrp (cur s)
      else pid = - 1 \<or> t_pgrp p = - pid)"

text \<open>
  The scan from the last task down: the value to return, if any, and the flag. \<open>yld\<close> is
  \<open>schedule()\<close> as its caller sees it: from the state in which it is called to the one in which
  the caller runs again.
\<close>

primrec wait_scan :: "(kst \<Rightarrow> kst kres) \<Rightarrow> nat \<Rightarrow> u32 \<Rightarrow> u32 \<Rightarrow> u32 \<Rightarrow> bool \<Rightarrow> kst \<Rightarrow> (u32 option \<times> bool \<times> kst) kres" where
  "wait_scan yld 0 pid stat_addr options flag s = Inr (None, flag, s)"
| "wait_scan yld (Suc i) pid stat_addr options flag s =
     (case task s (Suc i) of None \<Rightarrow> wait_scan yld i pid stat_addr options flag s
      | Some p \<Rightarrow>
        if Suc i = current s \<or> \<not> waited pid p s then wait_scan yld i pid stat_addr options flag s
        else (case t_state p of
            STOPPED \<Rightarrow>
              if options AND 2 = 0 then wait_scan yld i pid stat_addr options flag s
              else Inr (Some (t_pid p), flag, put_fs_long 0x7f stat_addr s)
          | ZOMBIE \<Rightarrow>
              let s = upd_cur (\<lambda>t. t\<lparr>t_cutime := t_cutime t + t_utime p, t_cstime := t_cstime t + t_stime p\<rparr>) s
              in bindk (release (Suc i) s) (\<lambda>s. bindk (yld s) (\<lambda>s.
                   Inr (Some (t_pid p), flag, put_fs_long (t_exit_code p) stat_addr s)))
          | _ \<Rightarrow> wait_scan yld i pid stat_addr options True s))"

text \<open>
  A task that called \<open>schedule\<close> to wait and runs again has got a signal; after
  \<open>SIGCHLD\<close> it looks again. Task 0, which cannot sleep, would loop for ever.
\<close>

primrec wait_loop :: "(kst \<Rightarrow> kst kres) \<Rightarrow> nat \<Rightarrow> u32 \<Rightarrow> u32 \<Rightarrow> u32 \<Rightarrow> kst \<Rightarrow> (u32 \<times> kst) kres" where
  "wait_loop yld 0 pid stat_addr options s = Inl Hang"
| "wait_loop yld (Suc n) pid stat_addr options s =
     bindk (wait_scan yld (NR_TASKS - 1) pid stat_addr options False s) (\<lambda>(r, flag, s).
       case r of Some v \<Rightarrow> Inr (v, s)
       | None \<Rightarrow>
         if \<not> flag then Inr (neg_errno ECHILD, s)
         else if options AND 1 \<noteq> 0 then Inr (0, s)
         else bindk (yld (upd_cur (\<lambda>t. t\<lparr>t_state := INTERRUPTIBLE\<rparr>) s)) (\<lambda>s.
           let s = upd_cur (\<lambda>t. t\<lparr>t_signal := t_signal t AND NOT (sig_bit SIGCHLD)\<rparr>) s
           in if t_signal (cur s) = 0 then wait_loop yld n pid stat_addr options s
              else Inr (neg_errno EINTR, s)))"

definition waitpid_by :: "(kst \<Rightarrow> kst kres) \<Rightarrow> u32 \<Rightarrow> u32 \<Rightarrow> u32 \<Rightarrow> kst \<Rightarrow> (u32 \<times> kst) kres" where
  "waitpid_by yld pid stat_addr options s =
     bindk (verify_area stat_addr 4 s) (wait_loop yld 3 pid stat_addr options)"

text \<open>The call as \<open>run_call\<close> has it, in which no other task runs in between.\<close>

definition sys_waitpid :: "u32 \<Rightarrow> u32 \<Rightarrow> u32 \<Rightarrow> kst \<Rightarrow> (u32 \<times> kst) kres" where
  "sys_waitpid = waitpid_by yield_cpu"

end
