(* ===== verification/Vsprintf.thy ===== *)
theory Vsprintf imports Prelude begin

text \<open>
  kernel/vsprintf.c: formatted output into a buffer. A format is the list of its characters without
  the final 0, so \<open>*fmt\<close> at its end reads 0; the arguments on the stack are the list of
  machine words \<open>va_arg\<close> reads one after the other (a read past the last one is \<open>Wild\<close>).
  The result is the text written to \<open>buf\<close>, again without the final 0, and the stores of the
  \<open>%n\<close> conversions. Widths and precisions are integers: their overflow is undefined in C.
\<close>

section \<open>Flags and characters\<close>

definition ZEROPAD :: u32 where "ZEROPAD = 1"
definition SIGN :: u32 where "SIGN = 2"
definition PLUS :: u32 where "PLUS = 4"
definition SPACE :: u32 where "SPACE = 8"
definition LEFT :: u32 where "LEFT = 16"
definition SPECIAL :: u32 where "SPECIAL = 32"
definition SMALL :: u32 where "SMALL = 64"

definition has :: "u32 \<Rightarrow> u32 \<Rightarrow> bool" where "has t f \<longleftrightarrow> t AND f \<noteq> 0"

definition is_digit :: "u8 \<Rightarrow> bool" where "is_digit c \<longleftrightarrow> 48 \<le> c \<and> c \<le> 57"

text \<open>\<open>*fmt\<close>\<close>

definition peek_char :: "u8 list \<Rightarrow> u8" where
  "peek_char fmt = (case fmt of [] \<Rightarrow> 0 | c # _ \<Rightarrow> c)"

primrec skip_atoi :: "u8 list \<Rightarrow> u32 \<Rightarrow> u32 \<times> u8 list" where
  "skip_atoi [] i = (i, [])"
| "skip_atoi (c # s) i = (if is_digit c then skip_atoi s (i * 10 + ucast c - 48) else (i, c # s))"

section \<open>Numbers\<close>

text \<open>The digits \<open>do_div\<close> delivers, the lowest first.\<close>

function num_digits :: "u32 \<Rightarrow> u32 \<Rightarrow> nat list" where
  "num_digits base num =
     (if num = 0 \<or> base < 2 then [] else unat (num mod base) # num_digits base (num div base))"
  by auto
termination
proof (relation "measure (\<lambda>(base, num). unat num)")
  fix base num :: u32
  assume "\<not> (num = 0 \<or> base < 2)"
  then have "0 < unat num" "1 < unat base" by (auto simp: word_less_nat_alt unat_gt_0)
  then show "((base, num div base), base, num) \<in> measure (\<lambda>(base, num). unat num)"
    by (simp add: unat_div)
qed simp

declare num_digits.simps [simp del]

text \<open>The character of a digit: the alphabet \<open>digits\<close> of \<open>number\<close>, upper or lower case.\<close>

definition digit :: "bool \<Rightarrow> nat \<Rightarrow> u8" where
  "digit small d = (if d < 10 then 48 + of_nat d else if small then 87 + of_nat d else 55 + of_nat d)"

text \<open>\<open>while (size-->0) *str++ = c;\<close> with the value \<open>size\<close> has afterwards.\<close>

definition pad :: "int \<Rightarrow> u8 \<Rightarrow> u8 list \<times> int" where
  "pad n c = (replicate (nat n) c, if 0 < n then - 1 else n - 1)"

text \<open>
  The sign character and the number to convert; the room the prefix of a \<open>SPECIAL\<close> number
  takes and the prefix; the digits in \<open>tmp\<close>, the lowest first.
\<close>

definition sign_split :: "u32 \<Rightarrow> u32 \<Rightarrow> u8 list \<times> u32" where
  "sign_split num typ =
     (if has typ SIGN \<and> num <s 0 then ([45], - num)
      else (if has typ PLUS then [43] else if has typ SPACE then [32] else [], num))"

definition prefix_room :: "u32 \<Rightarrow> u32 \<Rightarrow> int" where
  "prefix_room base typ = (if has typ SPECIAL then if base = 16 then 2 else if base = 8 then 1 else 0 else 0)"

definition num_prefix :: "u32 \<Rightarrow> u32 \<Rightarrow> u8 list" where
  "num_prefix base typ =
     (if has typ SPECIAL
      then if base = 8 then [48] else if base = 16 then [48, digit (has typ SMALL) 33] else []
      else [])"

definition num_tmp :: "u32 \<Rightarrow> u32 \<Rightarrow> u32 \<Rightarrow> u8 list" where
  "num_tmp base typ num = (if num = 0 then [48] else map (digit (has typ SMALL)) (num_digits base num))"

definition number :: "u32 \<Rightarrow> u32 \<Rightarrow> int \<Rightarrow> int \<Rightarrow> u32 \<Rightarrow> u8 list option" where
  "number num base sz precision typ =
     (let typ = (if has typ LEFT then typ AND NOT ZEROPAD else typ)
      in if base <s 2 \<or> 36 <s base then None
         else
           let c = (if has typ ZEROPAD then 48 else 32);
               (sign, num) = sign_split num typ;
               sz = (if sign \<noteq> [] then sz - 1 else sz);
               sz = sz - prefix_room base typ;
               tmp = num_tmp base typ num;
               i = int (length tmp);
               precision = (if precision < i then i else precision);
               sz = sz - precision;
               (before, sz) = (if typ AND (ZEROPAD + LEFT) = 0 then pad sz 32 else ([], sz));
               (fill, sz) = (if \<not> has typ LEFT then pad sz c else ([], sz));
               zeros = replicate (nat (precision - i)) 48;
               (after, sz) = pad sz 32
           in Some (before @ sign @ num_prefix base typ @ fill @ zeros @ rev tmp @ after))"

section \<open>vsprintf\<close>

text \<open>The string at an address, up to the 0 that ends it; \<open>None\<close> when there is none.\<close>

partial_function (option) c_string :: "(u32 \<Rightarrow> u8) \<Rightarrow> u32 \<Rightarrow> u8 list option" where
  "c_string mem a = (if mem a = 0 then Some [] else Option.bind (c_string mem (a + 1)) (\<lambda>r. Some (mem a # r)))"

declare c_string.simps [code]

primrec scan_flags :: "u8 list \<Rightarrow> u32 \<Rightarrow> u32 \<times> u8 list" where
  "scan_flags [] f = (f, [])"
| "scan_flags (c # s) f =
     (if c = 45 then scan_flags s (f OR LEFT)
      else if c = 43 then scan_flags s (f OR PLUS)
      else if c = 32 then scan_flags s (f OR SPACE)
      else if c = 35 then scan_flags s (f OR SPECIAL)
      else if c = 48 then scan_flags s (f OR ZEROPAD)
      else (f, c # s))"

definition va_arg :: "u32 list \<Rightarrow> (u32 \<times> u32 list) kres" where
  "va_arg args = (case args of [] \<Rightarrow> Inl (Wild ''va_arg'') | a # r \<Rightarrow> Inr (a, r))"

text \<open>
  Field width and precision. In the case of \<open>*\<close> the code takes the next argument and leaves
  \<open>fmt\<close> where it is.
\<close>

definition scan_width :: "u8 list \<Rightarrow> u32 \<Rightarrow> u32 list \<Rightarrow> (int \<times> u32 \<times> u8 list \<times> u32 list) kres" where
  "scan_width fmt f args =
     (if is_digit (peek_char fmt) then let (w, fmt) = skip_atoi fmt 0 in Inr (sint w, f, fmt, args)
      else if peek_char fmt = 42 then
        bindk (va_arg args) (\<lambda>(w, args).
          Inr (if w <s 0 then (sint (- w), f OR LEFT, fmt, args) else (sint w, f, fmt, args)))
      else Inr (- 1, f, fmt, args))"

definition scan_precision :: "u8 list \<Rightarrow> u32 list \<Rightarrow> (int \<times> u8 list \<times> u32 list) kres" where
  "scan_precision fmt args =
     (if peek_char fmt \<noteq> 46 then Inr (- 1, fmt, args)
      else let fmt = tl fmt in
        if is_digit (peek_char fmt) then let (p, fmt) = skip_atoi fmt 0 in Inr (max 0 (sint p), fmt, args)
        else if peek_char fmt = 42 then bindk (va_arg args) (\<lambda>(p, args). Inr (max 0 (sint p), fmt, args))
        else Inr (0, fmt, args))"

text \<open>\<open>h\<close>, \<open>l\<close> and \<open>L\<close> are skipped; no conversion looks at them.\<close>

definition skip_qualifier :: "u8 list \<Rightarrow> u8 list" where
  "skip_qualifier fmt = (if peek_char fmt \<in> {104, 108, 76} then tl fmt else fmt)"

definition put_char :: "u32 \<Rightarrow> int \<Rightarrow> u32 \<Rightarrow> u8 list" where
  "put_char f w a =
     (let (before, w) = (if has f LEFT then ([], w) else pad (w - 1) 32)
      in before @ [ucast a] @ fst (pad (w - 1) 32))"

definition put_string :: "u32 \<Rightarrow> int \<Rightarrow> int \<Rightarrow> u8 list \<Rightarrow> u8 list" where
  "put_string f w p s =
     (let s = (if 0 \<le> p \<and> p < int (length s) then take (nat p) s else s);
          n = int (length s);
          blanks = replicate (nat (w - n)) 32
      in if has f LEFT then s @ blanks else blanks @ s)"

definition as_kres :: "'a option \<Rightarrow> 'a kres" where
  "as_kres r = (case r of None \<Rightarrow> Inl (Wild ''number'') | Some x \<Rightarrow> Inr x)"

text \<open>
  The conversion after flags, width, precision and qualifier; \<open>n\<close> is the length of the text
  written so far. The result is the text, the stores and the arguments and format left.
\<close>

definition convert :: "(u32 \<Rightarrow> u8) \<Rightarrow> u8 list \<Rightarrow> u32 \<Rightarrow> int \<Rightarrow> int \<Rightarrow> u32 list \<Rightarrow> nat \<Rightarrow>
    (u8 list \<times> (u32 \<times> u32) list \<times> u32 list \<times> u8 list) kres" where
  "convert mem fmt f w p args n =
     (let c = peek_char fmt;
          num = (\<lambda>base w f. bindk (va_arg args) (\<lambda>(a, args).
            bindk (as_kres (number a base w p f)) (\<lambda>out. Inr (out, [], args, tl fmt))))
      in if c = 99 then bindk (va_arg args) (\<lambda>(a, args). Inr (put_char f w a, [], args, tl fmt))
         else if c = 115 then
           bindk (va_arg args) (\<lambda>(a, args).
             case c_string mem a of None \<Rightarrow> Inl Hang
             | Some s \<Rightarrow> Inr (put_string f w p s, [], args, tl fmt))
         else if c = 111 then num 8 w f
         else if c = 112 then (if w = - 1 then num 16 8 (f OR ZEROPAD) else num 16 w f)
         else if c = 120 then num 16 w (f OR SMALL)
         else if c = 88 then num 16 w f
         else if c = 100 \<or> c = 105 then num 10 w (f OR SIGN)
         else if c = 117 then num 10 w f
         else if c = 110 then bindk (va_arg args) (\<lambda>(ip, args). Inr ([], [(ip, of_nat n)], args, tl fmt))
         else Inr ((if c \<noteq> 37 then [37] else []) @ (if c \<noteq> 0 then [c] else []), [], args, tl fmt))"

text \<open>
  The loop over the format. Each round uses up a character, so the length of the format bounds
  the number of rounds.
\<close>

primrec vsprintf_loop :: "nat \<Rightarrow> (u32 \<Rightarrow> u8) \<Rightarrow> u8 list \<Rightarrow> u32 list \<Rightarrow> u8 list \<Rightarrow> (u32 \<times> u32) list \<Rightarrow>
    (u8 list \<times> (u32 \<times> u32) list) kres" where
  "vsprintf_loop 0 mem fmt args out st = (if fmt = [] then Inr (out, st) else Inl Deep)"
| "vsprintf_loop (Suc k) mem fmt args out st =
     (case fmt of [] \<Rightarrow> Inr (out, st)
      | c # rest \<Rightarrow>
        if c \<noteq> 37 then vsprintf_loop k mem rest args (out @ [c]) st
        else
          let (f, fmt) = scan_flags rest 0 in
          bindk (scan_width fmt f args) (\<lambda>(w, f, fmt, args).
          bindk (scan_precision fmt args) (\<lambda>(p, fmt, args).
          bindk (convert mem (skip_qualifier fmt) f w p args (length out)) (\<lambda>(text, s, args, fmt).
            vsprintf_loop k mem fmt args (out @ text) (st @ s)))))"

definition vsprintf :: "(u32 \<Rightarrow> u8) \<Rightarrow> u8 list \<Rightarrow> u32 list \<Rightarrow> (u8 list \<times> (u32 \<times> u32) list) kres" where
  "vsprintf mem fmt args = vsprintf_loop (length fmt) mem fmt args [] []"

end
