(* ===== verification/Demand.thy ===== *)
theory Demand imports Inode Usermem begin

text \<open>
  Demand loading: \<open>share_page\<close> and \<open>do_no_page\<close> of mm/memory.c, and \<open>bread_page\<close> of
  fs/buffer.c, with which a missing page of a program is shared with another process that runs it or
  read from its file.
\<close>

section \<open>Reading a page\<close>

text \<open>\<open>COPYBLK\<close> to a physical address.\<close>

primrec copy_block :: "nat \<Rightarrow> nat \<Rightarrow> block \<Rightarrow> u32 \<Rightarrow> mm \<Rightarrow> mm" where
  "copy_block 0 k d a m = m"
| "copy_block (Suc n) k d a m = copy_block n (k + 1) d (a + 1) (store8 a (d k) m)"

definition COPYBLK :: "block \<Rightarrow> u32 \<Rightarrow> mm \<Rightarrow> mm" where
  "COPYBLK d a = copy_block BLOCK_SIZE 0 d a"

primrec page_buffers :: "u16 \<Rightarrow> u32 list \<Rightarrow> kst \<Rightarrow> (nat option list \<times> kst) kres" where
  "page_buffers dev [] s = Inr ([], s)"
| "page_buffers dev (blk # rest) s =
     bindk (if blk = 0 then Inr (None, s)
            else bindk (getblk dev blk s) (\<lambda>(b, s).
              bindk (if \<not> b_uptodate (buffers s b) then ll_rw_block READ b s else Inr s) (\<lambda>s. Inr (Some b, s))))
       (\<lambda>(b, s). bindk (page_buffers dev rest s) (\<lambda>(bs, s). Inr (b # bs, s)))"

primrec copy_buffers :: "nat option list \<Rightarrow> u32 \<Rightarrow> kst \<Rightarrow> kst kres" where
  "copy_buffers [] address s = Inr s"
| "copy_buffers (r # rest) address s =
     bindk (case r of None \<Rightarrow> Inr s
            | Some b \<Rightarrow>
                bindk (wait_on_buffer b s) (\<lambda>s.
                  let s = (if b_uptodate (buffers s b)
                           then s\<lparr>mem := COPYBLK (b_data (buffers s b)) address (mem s)\<rparr> else s)
                  in brelse (Some b) s))
       (copy_buffers rest (address + of_nat BLOCK_SIZE))"

definition bread_page :: "u32 \<Rightarrow> u16 \<Rightarrow> u32 list \<Rightarrow> kst \<Rightarrow> kst kres" where
  "bread_page address dev nr s = bindk (page_buffers dev nr s) (\<lambda>(bs, s). copy_buffers bs address s)"

section \<open>Sharing with another process\<close>

definition shares_program :: "nat \<Rightarrow> kst \<Rightarrow> bool" where
  "shares_program p s \<longleftrightarrow>
     (case task s p of None \<Rightarrow> False | Some t \<Rightarrow> p \<noteq> current s \<and> t_executable t = t_executable (cur s))"

text \<open>From the last task down to task 1.\<close>

primrec share_scan :: "nat \<Rightarrow> u32 \<Rightarrow> kst \<Rightarrow> (bool \<times> kst) kres" where
  "share_scan 0 address s = Inr (False, s)"
| "share_scan (Suc p) address s =
     (if shares_program (Suc p) s then
        bindk (try_to_share address (t_start_code (the (task s (Suc p)))) (t_start_code (cur s)) (mem s)) (\<lambda>(done, m).
          if done then Inr (True, s\<lparr>mem := m\<rparr>) else share_scan p address (s\<lparr>mem := m\<rparr>))
      else share_scan p address s)"

definition share_page :: "u32 \<Rightarrow> kst \<Rightarrow> (bool \<times> kst) kres" where
  "share_page address s =
     (case t_executable (cur s) of None \<Rightarrow> Inr (False, s)
      | Some i \<Rightarrow> if i_count (inode_table s i) < 2 then Inr (False, s) else share_scan (NR_TASKS - 1) address s)"

section \<open>The page fault\<close>

primrec page_blocks :: "nat \<Rightarrow> nat \<Rightarrow> u32 \<Rightarrow> kst \<Rightarrow> (u32 list \<times> kst) kres" where
  "page_blocks 0 i blk s = Inr ([], s)"
| "page_blocks (Suc n) i blk s =
     bindk (bmap i blk s) (\<lambda>(b, s). bindk (page_blocks n i (blk + 1) s) (\<lambda>(bs, s). Inr (b # bs, s)))"

text \<open>The \<open>n\<close> bytes below \<open>a\<close> are cleared.\<close>

primrec clear_below :: "nat \<Rightarrow> u32 \<Rightarrow> mm \<Rightarrow> mm" where
  "clear_below 0 a m = m"
| "clear_below (Suc n) a m = clear_below n (a - 1) (store8 (a - 1) 0 m)"

definition load_page :: "nat \<Rightarrow> u32 \<Rightarrow> u32 \<Rightarrow> u32 \<Rightarrow> kst \<Rightarrow> kst kres" where
  "load_page i tmp page address s =
     bindk (page_blocks 4 i (1 + tmp div 1024) s) (\<lambda>(nr, s).
     bindk (bread_page page (i_dev (inode_table s i)) nr s) (\<lambda>s.
       let over = sint (tmp + 4096 - t_end_data (cur s));
           (r, m) = put_page page address (clear_below (nat over) (page + 4096) (mem s));
           s = s\<lparr>mem := m\<rparr>
       in if r \<noteq> 0 then Inr s else bindk (free_page page (mem s)) (\<lambda>m. oom)))"

definition do_no_page :: "u32 \<Rightarrow> u32 \<Rightarrow> kst \<Rightarrow> kst kres" where
  "do_no_page error_code address s =
     (let address = frame address; tmp = address - t_start_code (cur s) in
      case t_executable (cur s) of
        None \<Rightarrow> bindk (get_empty_page address (mem s)) (\<lambda>m. Inr (s\<lparr>mem := m\<rparr>))
      | Some i \<Rightarrow>
          if t_end_data (cur s) \<le> tmp then bindk (get_empty_page address (mem s)) (\<lambda>m. Inr (s\<lparr>mem := m\<rparr>))
          else bindk (share_page tmp s) (\<lambda>(done, s).
            if done then Inr s
            else
              let (page, m) = get_free_page (mem s); s = s\<lparr>mem := m\<rparr>
              in if page = 0 then oom else load_page i tmp page address s))"

end
