(* ===== verification/Namei.thy ===== *)
theory Namei imports Fd_Calls begin

text \<open>
  Path names, fs/namei.c: permissions, directory entries, the walk along a path and the system calls
  that make and remove names. A directory entry is a buffer index with the offset of its 16 bytes; a
  name is a user address with a length.
\<close>

section \<open>Permissions and entries\<close>

definition NAME_LEN :: nat where "NAME_LEN = 14"
definition MAY_EXEC :: u32 where "MAY_EXEC = 1"
definition MAY_WRITE :: u32 where "MAY_WRITE = 2"
definition MAY_READ :: u32 where "MAY_READ = 4"

text \<open>The string constant has characters 4, 2, 6 and 255, the last of which is -1 as a \<open>char\<close>.\<close>

definition ACC_MODE :: "u32 \<Rightarrow> u32" where
  "ACC_MODE flag = (let k = flag AND O_ACCMODE in if k = 0 then 4 else if k = 1 then 2 else if k = 2 then 6 else - 1)"

definition permission :: "nat \<Rightarrow> u32 \<Rightarrow> kst \<Rightarrow> bool" where
  "permission i msk s =
     (let m = inode_table s i; mode = ucast (i_mode m);
          mode' = (if t_euid (cur s) = i_uid m then drop_bit 6 mode
                   else if ucast (t_egid (cur s)) = (ucast (i_gid m) :: u32) then drop_bit 3 mode else mode)
      in if i_dev m \<noteq> 0 \<and> i_nlinks m = 0 then False
         else mode' AND msk AND 7 = msk \<or> suser s)"

definition de_inode :: "block \<Rightarrow> nat \<Rightarrow> u16" where
  "de_inode d off = get16 d off"

definition de_name :: "block \<Rightarrow> nat \<Rightarrow> nat \<Rightarrow> u8" where
  "de_name d off k = d (off + 2 + k)"

definition match_name :: "nat \<Rightarrow> u32 \<Rightarrow> block \<Rightarrow> nat \<Rightarrow> kst \<Rightarrow> bool" where
  "match_name len name d off s \<longleftrightarrow>
     de_inode d off \<noteq> 0 \<and> len \<le> NAME_LEN \<and> \<not> (len < NAME_LEN \<and> de_name d off len \<noteq> 0) \<and>
     list_all (\<lambda>k. get_fs_byte (name + of_nat k) s = de_name d off k) [0..<len]"

section \<open>find_entry and add_entry\<close>

text \<open>
  The search loop: \<open>i\<close> is the number of the entry, \<open>b\<close> the buffer and \<open>off\<close> the offset
  of \<open>de\<close>. After a block that cannot be read the code goes on with a null buffer pointer.
\<close>

primrec find_entry_loop :: "nat \<Rightarrow> nat \<Rightarrow> u32 \<Rightarrow> nat \<Rightarrow> nat \<Rightarrow> nat \<Rightarrow> nat option \<Rightarrow> nat \<Rightarrow> kst \<Rightarrow> ((nat \<times> nat) option \<times> kst) kres" where
  "find_entry_loop 0 dir name len entries i bh off s = Inl Hang"
| "find_entry_loop (Suc n) dir name len entries i bh off s =
     (if entries \<le> i then bindk (brelse bh s) (\<lambda>s. Inr (None, s))
      else case bh of None \<Rightarrow> Inl (Wild ''bh'')
      | Some b \<Rightarrow>
        let test = (\<lambda>b off s.
              if match_name len name (b_data (buffers s b)) off s then Inr (Some (b, off), s)
              else find_entry_loop n dir name len entries (i + 1) (Some b) (off + 16) s)
        in if off < 1024 then test b off s
           else bindk (brelse bh s) (\<lambda>s.
                bindk (bmap dir (of_nat (i div 32)) s) (\<lambda>(blk, s).
                bindk (if blk = 0 then Inr (None, s) else bread (i_dev (inode_table s dir)) blk s) (\<lambda>(bh, s).
                  case bh of None \<Rightarrow> find_entry_loop n dir name len entries (i + 32) None off s
                  | Some b \<Rightarrow> test b 0 s))))"

text \<open>The result holds the directory, which \<open>..\<close> in the root of a mounted file system exchanges.\<close>

definition find_entry :: "nat \<Rightarrow> u32 \<Rightarrow> nat \<Rightarrow> kst \<Rightarrow> (nat \<times> (nat \<times> nat) option \<times> kst) kres" where
  "find_entry dir name namelen s =
     (let namelen = min namelen NAME_LEN;
          entries = unat (i_size (inode_table s dir)) div 16;
          dotdot = (namelen = 2 \<and> get_fs_byte name s = 46 \<and> get_fs_byte (name + 1) s = 46);
          namelen' = (if dotdot \<and> t_root (cur s) = Some dir then 1 else namelen)
      in if namelen = 0 then Inr (dir, None, s)
         else bindk (if dotdot \<and> t_root (cur s) \<noteq> Some dir \<and> i_num (inode_table s dir) = ROOT_INO
                     then bindk (get_super (i_dev (inode_table s dir)) s) (\<lambda>r. case r of
                         None \<Rightarrow> Inl (Wild ''sb'')
                       | Some k \<Rightarrow> (case s_imount (super_block s k) of
                           None \<Rightarrow> Inr (dir, s)
                         | Some d \<Rightarrow> bindk (iput (Some dir) s) (\<lambda>s.
                             Inr (d, upd_inode d (\<lambda>m. m\<lparr>i_count := i_count m + 1\<rparr>) s))))
                     else Inr (dir, s)) (\<lambda>(dir, s).
              let blk = i_zone (inode_table s dir) 0 in
              if blk = 0 then Inr (dir, None, s)
              else bindk (bread (i_dev (inode_table s dir)) (ucast blk) s) (\<lambda>(bh, s).
                if bh = None then Inr (dir, None, s)
                else bindk (find_entry_loop (Suc entries) dir name namelen' entries 0 bh 0 s)
                       (\<lambda>(r, s). Inr (dir, r, s)))))"

definition put_name :: "nat \<Rightarrow> u32 \<Rightarrow> nat \<Rightarrow> kst \<Rightarrow> block \<Rightarrow> block" where
  "put_name off name namelen s d =
     (\<lambda>j. if off + 2 \<le> j \<and> j < off + 16
          then (if j - (off + 2) < namelen then get_fs_byte (name + of_nat (j - (off + 2))) s else 0)
          else d j)"

primrec add_entry_loop :: "nat \<Rightarrow> nat \<Rightarrow> u32 \<Rightarrow> nat \<Rightarrow> nat \<Rightarrow> nat \<Rightarrow> nat \<Rightarrow> kst \<Rightarrow> ((nat \<times> nat) option \<times> kst) kres" where
  "add_entry_loop 0 dir name len i b off s = Inl Hang"
| "add_entry_loop (Suc n) dir name len i b off s =
     (let test = (\<lambda>b off s.
        let s = (if i_size (inode_table s dir) \<le> of_nat (i * 16)
                 then upd_inode dir (\<lambda>m. m\<lparr>i_size := of_nat ((i + 1) * 16), i_dirt := True, i_ctime := CURRENT_TIME s\<rparr>)
                        (upd_buf b (\<lambda>h. h\<lparr>b_data := put16 off 0 (b_data h)\<rparr>) s)
                 else s)
        in if de_inode (b_data (buffers s b)) off = 0 then
             let s = upd_inode dir (\<lambda>m. m\<lparr>i_mtime := CURRENT_TIME s\<rparr>) s
             in Inr (Some (b, off),
                  upd_buf b (\<lambda>h. h\<lparr>b_data := put_name off name len s (b_data h), b_dirt := True\<rparr>) s)
           else add_entry_loop n dir name len (i + 1) b (off + 16) s)
      in if off < 1024 then test b off s
         else bindk (brelse (Some b) s) (\<lambda>s.
              bindk (create_block dir (of_nat (i div 32)) s) (\<lambda>(blk, s).
              if blk = 0 then Inr (None, s)
              else bindk (bread (i_dev (inode_table s dir)) blk s) (\<lambda>(bh, s).
                case bh of None \<Rightarrow> Inl (Wild ''bh'') | Some b \<Rightarrow> test b 0 s))))"

definition add_entry :: "nat \<Rightarrow> u32 \<Rightarrow> nat \<Rightarrow> kst \<Rightarrow> ((nat \<times> nat) option \<times> kst) kres" where
  "add_entry dir name namelen s =
     (let namelen = min namelen NAME_LEN; blk = i_zone (inode_table s dir) 0
      in if namelen = 0 \<or> blk = 0 then Inr (None, s)
         else bindk (bread (i_dev (inode_table s dir)) (ucast blk) s) (\<lambda>(bh, s).
           case bh of None \<Rightarrow> Inr (None, s)
           | Some b \<Rightarrow>
               add_entry_loop (unat (i_size (inode_table s dir)) div 16 + 2) dir name namelen 0 b 0 s))"

section \<open>The walk along a path\<close>

text \<open>
  Scanning for the end of a component: the address behind the character that ended it, the length
  and that character. After \<open>2^32\<close> bytes the scan is back where it began and does not end.
\<close>

primrec scan_name :: "nat \<Rightarrow> u32 \<Rightarrow> nat \<Rightarrow> kst \<Rightarrow> (u32 \<times> nat \<times> u8) kres" where
  "scan_name 0 p len s = Inl Hang"
| "scan_name (Suc n) p len s =
     (let c = get_fs_byte p s
      in if c \<noteq> 0 \<and> c \<noteq> 47 then scan_name n (p + 1) (len + 1) s else Inr (p + 1, len, c))"

definition leave :: "'a \<Rightarrow> (kst \<Rightarrow> kst kres) list \<Rightarrow> kst \<Rightarrow> ('a \<times> kst) kres" where
  "leave r ops s = bindk (foldl (\<lambda>m f. bindk m f) (Inr s) ops) (\<lambda>s. Inr (r, s))"

primrec get_dir_loop :: "nat \<Rightarrow> u32 \<Rightarrow> nat \<Rightarrow> kst \<Rightarrow> (nat option \<times> kst) kres" where
  "get_dir_loop 0 pathname inode s = Inl Hang"
| "get_dir_loop (Suc n) pathname inode s =
     (if \<not> S_ISDIR (i_mode (inode_table s inode)) \<or> \<not> permission inode MAY_EXEC s
      then leave None [iput (Some inode)] s
      else bindk (scan_name (2 ^ 32) pathname 0 s) (\<lambda>(next, namelen, c).
        if c = 0 then Inr (Some inode, s)
        else bindk (find_entry inode pathname namelen s) (\<lambda>(inode, r, s). case r of
            None \<Rightarrow> leave None [iput (Some inode)] s
          | Some (b, off) \<Rightarrow>
            let inr = de_inode (b_data (buffers s b)) off; idev = i_dev (inode_table s inode)
            in bindk (brelse (Some b) s) (\<lambda>s.
               bindk (iput (Some inode) s) (\<lambda>s.
               bindk (iget idev inr s) (\<lambda>(inode, s). get_dir_loop n next inode s))))))"

definition in_use :: "nat option \<Rightarrow> kst \<Rightarrow> bool" where
  "in_use r s \<longleftrightarrow> (case r of None \<Rightarrow> False | Some i \<Rightarrow> i_count (inode_table s i) \<noteq> 0)"

definition get_dir :: "u32 \<Rightarrow> kst \<Rightarrow> (nat option \<times> kst) kres" where
  "get_dir pathname s =
     (let root = t_root (cur s); pwd = t_pwd (cur s); c = get_fs_byte pathname s in
      if \<not> in_use root s then Inl (Panic ''No root inode'')
      else if \<not> in_use pwd s then Inl (Panic ''No cwd inode'')
      else if c = 0 then Inr (None, s)
      else
        let inode = the (if c = 47 then root else pwd); p = (if c = 47 then pathname + 1 else pathname)
        in get_dir_loop (2 ^ 32) p inode (upd_inode inode (\<lambda>m. m\<lparr>i_count := i_count m + 1\<rparr>) s))"

text \<open>The last component: its address and length.\<close>

primrec scan_base :: "nat \<Rightarrow> u32 \<Rightarrow> u32 \<Rightarrow> kst \<Rightarrow> (u32 \<times> nat) kres" where
  "scan_base 0 p base s = Inl Hang"
| "scan_base (Suc n) p base s =
     (let c = get_fs_byte p s
      in if c = 0 then Inr (base, unat (p - base)) else scan_base n (p + 1) (if c = 47 then p + 1 else base) s)"

definition dir_namei :: "u32 \<Rightarrow> kst \<Rightarrow> ((nat \<times> u32 \<times> nat) option \<times> kst) kres" where
  "dir_namei pathname s =
     bindk (get_dir pathname s) (\<lambda>(r, s). case r of
         None \<Rightarrow> Inr (None, s)
       | Some dir \<Rightarrow> bindk (scan_base (2 ^ 32) pathname pathname s) (\<lambda>(base, len).
           Inr (Some (dir, base, len), s)))"

definition namei :: "u32 \<Rightarrow> kst \<Rightarrow> (nat option \<times> kst) kres" where
  "namei pathname s =
     bindk (dir_namei pathname s) (\<lambda>(r, s). case r of
         None \<Rightarrow> Inr (None, s)
       | Some (dir, base, namelen) \<Rightarrow>
         if namelen = 0 then Inr (Some dir, s)
         else bindk (find_entry dir base namelen s) (\<lambda>(dir, r, s). case r of
             None \<Rightarrow> leave None [iput (Some dir)] s
           | Some (b, off) \<Rightarrow>
             let inr = de_inode (b_data (buffers s b)) off; dev = i_dev (inode_table s dir)
             in bindk (brelse (Some b) s) (\<lambda>s.
                bindk (iput (Some dir) s) (\<lambda>s.
                bindk (iget dev inr s) (\<lambda>(i, s).
                  Inr (Some i, upd_inode i (\<lambda>m. m\<lparr>i_atime := CURRENT_TIME s, i_dirt := True\<rparr>) s))))))"

section \<open>open_namei\<close>

definition I_REGULAR :: u32 where "I_REGULAR = 0x8000"
definition I_DIRECTORY :: u32 where "I_DIRECTORY = 0x4000"

text \<open>Storing the inode number in a new entry.\<close>

definition set_de :: "nat \<Rightarrow> nat \<Rightarrow> u16 \<Rightarrow> kst \<Rightarrow> kst" where
  "set_de b off nr s = upd_buf b (\<lambda>h. h\<lparr>b_data := put16 off nr (b_data h), b_dirt := True\<rparr>) s"

text \<open>The result is the return value and \<open>*res_inode\<close>, if it is set.\<close>

definition open_namei :: "u32 \<Rightarrow> u32 \<Rightarrow> u32 \<Rightarrow> kst \<Rightarrow> ((u32 \<times> nat option) \<times> kst) kres" where
  "open_namei pathname flag mode s =
     (let flag = (if flag AND O_TRUNC \<noteq> 0 \<and> flag AND O_ACCMODE = 0 then flag OR O_WRONLY else flag);
          mode = (mode AND 0x1ff AND NOT (ucast (t_umask (cur s)))) OR I_REGULAR
      in bindk (dir_namei pathname s) (\<lambda>(r, s). case r of
         None \<Rightarrow> Inr ((neg_errno ENOENT, None), s)
       | Some (dir, base, namelen) \<Rightarrow>
         if namelen = 0 then
           (if flag AND (O_ACCMODE OR O_CREAT OR O_TRUNC) = 0 then Inr ((0, Some dir), s)
            else leave (neg_errno EISDIR, None) [iput (Some dir)] s)
         else bindk (find_entry dir base namelen s) (\<lambda>(dir, r, s). case r of
           None \<Rightarrow>
             if flag AND O_CREAT = 0 then leave (neg_errno ENOENT, None) [iput (Some dir)] s
             else if \<not> permission dir MAY_WRITE s then leave (neg_errno EACCES, None) [iput (Some dir)] s
             else bindk (new_inode (i_dev (inode_table s dir)) s) (\<lambda>(r, s). case r of
               None \<Rightarrow> leave (neg_errno ENOSPC, None) [iput (Some dir)] s
             | Some i \<Rightarrow>
               let s = upd_inode i (\<lambda>m. m\<lparr>i_uid := t_euid (cur s), i_mode := ucast mode, i_dirt := True\<rparr>) s
               in bindk (add_entry dir base namelen s) (\<lambda>(r, s). case r of
                 None \<Rightarrow> leave (neg_errno ENOSPC, None) [iput (Some i), iput (Some dir)]
                           (upd_inode i (\<lambda>m. m\<lparr>i_nlinks := i_nlinks m - 1\<rparr>) s)
               | Some (b, off) \<Rightarrow>
                   leave (0, Some i) [brelse (Some b), iput (Some dir)]
                     (set_de b off (i_num (inode_table s i)) s)))
         | Some (b, off) \<Rightarrow>
             let inr = de_inode (b_data (buffers s b)) off; dev = i_dev (inode_table s dir)
             in bindk (brelse (Some b) s) (\<lambda>s.
                bindk (iput (Some dir) s) (\<lambda>s.
                if flag AND O_EXCL \<noteq> 0 then Inr ((neg_errno EEXIST, None), s)
                else bindk (iget dev inr s) (\<lambda>(i, s).
                  if S_ISDIR (i_mode (inode_table s i)) \<and> flag AND O_ACCMODE \<noteq> 0 \<or>
                     \<not> permission i (ACC_MODE flag) s
                  then leave (neg_errno EPERM, None) [iput (Some i)] s
                  else
                    let s = upd_inode i (\<lambda>m. m\<lparr>i_atime := CURRENT_TIME s\<rparr>) s
                    in bindk (if flag AND O_TRUNC \<noteq> 0 then truncate_i i s else Inr s) (\<lambda>s.
                       Inr ((0, Some i), s)))))))) "

section \<open>System calls that change directories\<close>

text \<open>
  The common beginning of these calls: the directory of the last component, if it is not empty and the
  caller may write the directory; otherwise the error number.
\<close>

definition parent_dir :: "u32 \<Rightarrow> nat \<Rightarrow> kst \<Rightarrow> ((nat + nat \<times> u32 \<times> nat) \<times> kst) kres" where
  "parent_dir pathname denied s =
     bindk (dir_namei pathname s) (\<lambda>(r, s). case r of
         None \<Rightarrow> Inr (Inl ENOENT, s)
       | Some (dir, base, namelen) \<Rightarrow>
         if namelen = 0 then leave (Inl ENOENT) [iput (Some dir)] s
         else if \<not> permission dir MAY_WRITE s then leave (Inl denied) [iput (Some dir)] s
         else Inr (Inr (dir, base, namelen), s))"

definition mode_is :: "u32 \<Rightarrow> u32 \<Rightarrow> bool" where
  "mode_is mode fmt \<longleftrightarrow> mode AND 0xF000 = fmt"

definition sys_mknod :: "u32 \<Rightarrow> u32 \<Rightarrow> u32 \<Rightarrow> kst \<Rightarrow> (u32 \<times> kst) kres" where
  "sys_mknod filename mode dev s =
     (if \<not> suser s then Inr (neg_errno EPERM, s)
      else bindk (parent_dir filename EPERM s) (\<lambda>(r, s). case r of
        Inl e \<Rightarrow> Inr (neg_errno e, s)
      | Inr (dir, base, namelen) \<Rightarrow>
        bindk (find_entry dir base namelen s) (\<lambda>(dir, r, s). case r of
          Some (b, off) \<Rightarrow> leave (neg_errno EEXIST) [brelse (Some b), iput (Some dir)] s
        | None \<Rightarrow>
          bindk (new_inode (i_dev (inode_table s dir)) s) (\<lambda>(r, s). case r of
            None \<Rightarrow> leave (neg_errno ENOSPC) [iput (Some dir)] s
          | Some i \<Rightarrow>
            let s = upd_inode i (\<lambda>m. m\<lparr>i_mode := ucast mode,
                      i_zone := (if mode_is mode 0x6000 \<or> mode_is mode 0x2000 then (i_zone m)(0 := ucast dev) else i_zone m),
                      i_atime := CURRENT_TIME s, i_mtime := CURRENT_TIME s, i_dirt := True\<rparr>) s
            in bindk (add_entry dir base namelen s) (\<lambda>(r, s). case r of
              None \<Rightarrow> leave (neg_errno ENOSPC) [iput (Some dir),
                  (\<lambda>s. iput (Some i) (upd_inode i (\<lambda>m. m\<lparr>i_nlinks := 0\<rparr>) s))] s
            | Some (b, off) \<Rightarrow>
                leave 0 [iput (Some dir), iput (Some i), brelse (Some b)]
                  (set_de b off (i_num (inode_table s i)) s))))))"

text \<open>The two entries of a new directory, as \<open>strcpy\<close> leaves them.\<close>

definition dot_entries :: "u16 \<Rightarrow> u16 \<Rightarrow> block \<Rightarrow> block" where
  "dot_entries self parent d =
     (put16 16 parent ((put16 0 self d)(2 := 46, 3 := 0)))(18 := 46, 19 := 46, 20 := 0)"

definition sys_mkdir :: "u32 \<Rightarrow> u32 \<Rightarrow> kst \<Rightarrow> (u32 \<times> kst) kres" where
  "sys_mkdir pathname mode s =
     (if \<not> suser s then Inr (neg_errno EPERM, s)
      else bindk (parent_dir pathname EPERM s) (\<lambda>(r, s). case r of
        Inl e \<Rightarrow> Inr (neg_errno e, s)
      | Inr (dir, base, namelen) \<Rightarrow>
        bindk (find_entry dir base namelen s) (\<lambda>(dir, r, s). case r of
          Some (b, off) \<Rightarrow> leave (neg_errno EEXIST) [brelse (Some b), iput (Some dir)] s
        | None \<Rightarrow>
          bindk (new_inode (i_dev (inode_table s dir)) s) (\<lambda>(r, s). case r of
            None \<Rightarrow> leave (neg_errno ENOSPC) [iput (Some dir)] s
          | Some i \<Rightarrow>
            let s = upd_inode i (\<lambda>m. m\<lparr>i_size := 32, i_dirt := True, i_atime := CURRENT_TIME s,
                      i_mtime := CURRENT_TIME s\<rparr>) s;
                drop_link = (\<lambda>s. iput (Some i) (upd_inode i (\<lambda>m. m\<lparr>i_nlinks := i_nlinks m - 1\<rparr>) s));
                free_zone = (\<lambda>s. free_block (i_dev (inode_table s i)) (ucast (i_zone (inode_table s i) 0)) s)
            in bindk (new_block (i_dev (inode_table s i)) s) (\<lambda>(z, s).
               let s = upd_inode i (\<lambda>m. m\<lparr>i_zone := (i_zone m)(0 := ucast z)\<rparr>) s in
               if i_zone (inode_table s i) 0 = 0 then leave (neg_errno ENOSPC) [iput (Some dir), drop_link] s
               else
                 let s = upd_inode i (\<lambda>m. m\<lparr>i_dirt := True\<rparr>) s in
                 bindk (bread (i_dev (inode_table s i)) (ucast (i_zone (inode_table s i) 0)) s) (\<lambda>(r, s). case r of
                   None \<Rightarrow> leave (neg_errno ERROR) [iput (Some dir), free_zone, drop_link] s
                 | Some db \<Rightarrow>
                   let s = upd_buf db (\<lambda>h. h\<lparr>b_data := dot_entries (i_num (inode_table s i))
                             (i_num (inode_table s dir)) (b_data h)\<rparr>) s;
                       s = upd_inode i (\<lambda>m. m\<lparr>i_nlinks := 2\<rparr>) s;
                       s = upd_buf db (\<lambda>h. h\<lparr>b_dirt := True\<rparr>) s
                   in bindk (brelse (Some db) s) (\<lambda>s.
                      let s = upd_inode i (\<lambda>m. m\<lparr>i_mode := ucast (I_DIRECTORY OR
                                 (mode AND 0x1ff AND NOT (ucast (t_umask (cur s))))), i_dirt := True\<rparr>) s
                      in bindk (add_entry dir base namelen s) (\<lambda>(r, s). case r of
                        None \<Rightarrow> leave (neg_errno ENOSPC) [iput (Some dir), free_zone,
                          (\<lambda>s. iput (Some i) (upd_inode i (\<lambda>m. m\<lparr>i_nlinks := 0\<rparr>) s))] s
                      | Some (b, off) \<Rightarrow>
                          leave 0 [iput (Some dir), iput (Some i), brelse (Some b)]
                            (upd_inode dir (\<lambda>m. m\<lparr>i_nlinks := i_nlinks m + 1, i_dirt := True\<rparr>)
                              (set_de b off (i_num (inode_table s i)) s)))))))))) "

text \<open>
  \<open>empty_dir\<close>. A directory whose first two entries are bad keeps its buffer in use, and after a
  block that is not there the buffer of the block before is released again.
\<close>

primrec empty_dir_loop :: "nat \<Rightarrow> nat \<Rightarrow> nat \<Rightarrow> nat \<Rightarrow> nat \<Rightarrow> nat \<Rightarrow> kst \<Rightarrow> (bool \<times> kst) kres" where
  "empty_dir_loop 0 i len nr b off s = Inl Hang"
| "empty_dir_loop (Suc n) i len nr b off s =
     (let test = (\<lambda>b off s.
        if de_inode (b_data (buffers s b)) off \<noteq> 0 then leave False [brelse (Some b)] s
        else empty_dir_loop n i len (nr + 1) b (off + 16) s)
      in if len \<le> nr then leave True [brelse (Some b)] s
         else if off < 1024 then test b off s
         else bindk (brelse (Some b) s) (\<lambda>s.
              bindk (bmap i (of_nat (nr div 32)) s) (\<lambda>(blk, s).
              if blk = 0 then empty_dir_loop n i len (nr + 32) b off s
              else bindk (bread (i_dev (inode_table s i)) blk s) (\<lambda>(r, s).
                case r of None \<Rightarrow> Inr (False, s) | Some b \<Rightarrow> test b 0 s))))"

definition empty_dir :: "nat \<Rightarrow> kst \<Rightarrow> (bool \<times> kst) kres" where
  "empty_dir i s =
     (let m = inode_table s i; len = unat (i_size m) div 16 in
      if len < 2 \<or> i_zone m 0 = 0 then Inr (False, s)
      else bindk (bread (i_dev m) (ucast (i_zone m 0)) s) (\<lambda>(r, s). case r of
        None \<Rightarrow> Inr (False, s)
      | Some b \<Rightarrow>
        let d = b_data (buffers s b); name = de_name d in
        if de_inode d 0 \<noteq> i_num (inode_table s i) \<or> de_inode d 16 = 0 \<or>
           \<not> (name 0 0 = 46 \<and> name 0 1 = 0) \<or> \<not> (name 16 0 = 46 \<and> name 16 1 = 46 \<and> name 16 2 = 0)
        then Inr (False, s)
        else empty_dir_loop (Suc len) i len 2 b 32 s))"

definition sys_rmdir :: "u32 \<Rightarrow> kst \<Rightarrow> (u32 \<times> kst) kres" where
  "sys_rmdir name s =
     (if \<not> suser s then Inr (neg_errno EPERM, s)
      else bindk (parent_dir name EPERM s) (\<lambda>(r, s). case r of
        Inl e \<Rightarrow> Inr (neg_errno e, s)
      | Inr (dir, base, namelen) \<Rightarrow>
        bindk (find_entry dir base namelen s) (\<lambda>(dir, r, s). case r of
          None \<Rightarrow> leave (neg_errno ENOENT) [iput (Some dir)] s
        | Some (b, off) \<Rightarrow>
          bindk (iget (i_dev (inode_table s dir)) (de_inode (b_data (buffers s b)) off) s) (\<lambda>(i, s).
            let m = inode_table s i; d = inode_table s dir;
                dir_first = [iput (Some dir), iput (Some i), brelse (Some b)];
                inode_first = [iput (Some i), iput (Some dir), brelse (Some b)]
            in if i_mode d AND S_ISVTX \<noteq> 0 \<and> t_euid (cur s) \<noteq> 0 \<and> i_uid m \<noteq> t_euid (cur s)
               then leave (neg_errno EPERM) dir_first s
               else if i_dev m \<noteq> i_dev d \<or> 1 < i_count m then leave (neg_errno EPERM) dir_first s
               else if i = dir then leave (neg_errno EPERM) inode_first s
               else if \<not> S_ISDIR (i_mode m) then leave (neg_errno ENOTDIR) inode_first s
               else bindk (empty_dir i s) (\<lambda>(empt, s).
                 if \<not> empt then leave (neg_errno ENOTEMPTY) inode_first s
                 else bindk (brelse (Some b) (set_de b off 0 s)) (\<lambda>s.
                   let s = upd_inode i (\<lambda>m. m\<lparr>i_nlinks := 0, i_dirt := True\<rparr>) s;
                       s = upd_inode dir (\<lambda>m. m\<lparr>i_nlinks := i_nlinks m - 1, i_mtime := CURRENT_TIME s,
                             i_ctime := CURRENT_TIME s, i_dirt := True\<rparr>) s
                   in leave 0 [iput (Some dir), iput (Some i)] s))))))"

definition sys_unlink :: "u32 \<Rightarrow> kst \<Rightarrow> (u32 \<times> kst) kres" where
  "sys_unlink name s =
     bindk (parent_dir name EPERM s) (\<lambda>(r, s). case r of
        Inl e \<Rightarrow> Inr (neg_errno e, s)
      | Inr (dir, base, namelen) \<Rightarrow>
        bindk (find_entry dir base namelen s) (\<lambda>(dir, r, s). case r of
          None \<Rightarrow> leave (neg_errno ENOENT) [iput (Some dir)] s
        | Some (b, off) \<Rightarrow>
          bindk (iget (i_dev (inode_table s dir)) (de_inode (b_data (buffers s b)) off) s) (\<lambda>(i, s).
            let m = inode_table s i; d = inode_table s dir
            in if i_mode d AND S_ISVTX \<noteq> 0 \<and> \<not> suser s \<and> t_euid (cur s) \<noteq> i_uid m \<and> t_euid (cur s) \<noteq> i_uid d
               then leave (neg_errno EPERM) [iput (Some dir), iput (Some i), brelse (Some b)] s
               else if S_ISDIR (i_mode m)
               then leave (neg_errno EPERM) [iput (Some i), iput (Some dir), brelse (Some b)] s
               else
                 let s = (if i_nlinks m = 0 then upd_inode i (\<lambda>m. m\<lparr>i_nlinks := 1\<rparr>) s else s)
                 in bindk (brelse (Some b) (set_de b off 0 s)) (\<lambda>s.
                      leave 0 [iput (Some i), iput (Some dir)]
                        (upd_inode i (\<lambda>m. m\<lparr>i_nlinks := i_nlinks m - 1, i_dirt := True,
                            i_ctime := CURRENT_TIME s\<rparr>) s)))))"

definition sys_link :: "u32 \<Rightarrow> u32 \<Rightarrow> kst \<Rightarrow> (u32 \<times> kst) kres" where
  "sys_link oldname newname s =
     bindk (namei oldname s) (\<lambda>(r, s). case r of
       None \<Rightarrow> Inr (neg_errno ENOENT, s)
     | Some oi \<Rightarrow>
       if S_ISDIR (i_mode (inode_table s oi)) then leave (neg_errno EPERM) [iput (Some oi)] s
       else bindk (dir_namei newname s) (\<lambda>(r, s). case r of
         None \<Rightarrow> leave (neg_errno EACCES) [iput (Some oi)] s
       | Some (dir, base, namelen) \<Rightarrow>
         if namelen = 0 then leave (neg_errno EPERM) [iput (Some oi), iput (Some dir)] s
         else if i_dev (inode_table s dir) \<noteq> i_dev (inode_table s oi)
         then leave (neg_errno EXDEV) [iput (Some dir), iput (Some oi)] s
         else if \<not> permission dir MAY_WRITE s
         then leave (neg_errno EACCES) [iput (Some dir), iput (Some oi)] s
         else bindk (find_entry dir base namelen s) (\<lambda>(dir, r, s). case r of
           Some (b, off) \<Rightarrow> leave (neg_errno EEXIST) [brelse (Some b), iput (Some dir), iput (Some oi)] s
         | None \<Rightarrow>
           bindk (add_entry dir base namelen s) (\<lambda>(r, s). case r of
             None \<Rightarrow> leave (neg_errno ENOSPC) [iput (Some dir), iput (Some oi)] s
           | Some (b, off) \<Rightarrow>
             bindk (brelse (Some b) (set_de b off (i_num (inode_table s oi)) s)) (\<lambda>s.
             bindk (iput (Some dir) s) (\<lambda>s.
               leave 0 [iput (Some oi)]
                 (upd_inode oi (\<lambda>m. m\<lparr>i_nlinks := i_nlinks m + 1, i_ctime := CURRENT_TIME s,
                     i_dirt := True\<rparr>) s)))))))"

end
