(* ===== verification/Exec.thy ===== *)
theory Exec imports Demand Namei Fd_Calls begin

text \<open>
  fs/exec.c: \<open>do_execve\<close> with the copying of arguments and environment into pages, the tables of
  pointers on the new stack and the scripts that name an interpreter; \<open>struct exec\<close> and the macros of
  include/a.out.h it uses.

  The 32 pages for strings are kept as the array \<open>page\<close> of their physical addresses. The segment
  register fs selects where strings are read: in user memory or, for the strings of a script's first line,
  in the kernel's buffer. What page faults bring into the new program's memory is the argument \<open>img\<close>
  of \<open>do_execve\<close>: the model of user memory resolves page faults without a trace.
\<close>

definition ENOEXEC :: nat where "ENOEXEC = 8"
definition MAX_ARG_PAGES :: nat where "MAX_ARG_PAGES = 32"
definition PAGE_SIZE :: u32 where "PAGE_SIZE = 4096"

section \<open>Executable files\<close>

record exec =
  a_magic :: u32
  a_text :: u32
  a_data :: u32
  a_bss :: u32
  a_syms :: u32
  a_entry :: u32
  a_trsize :: u32
  a_drsize :: u32

definition ZMAGIC :: u32 where "ZMAGIC = 0x10b"

definition exec_header :: "block \<Rightarrow> exec" where
  "exec_header d = \<lparr>a_magic = get32 d 0, a_text = get32 d 4, a_data = get32 d 8, a_bss = get32 d 12, a_syms = get32 d 16,
     a_entry = get32 d 20, a_trsize = get32 d 24, a_drsize = get32 d 28\<rparr>"

definition N_TXTOFF :: "exec \<Rightarrow> u32" where
  "N_TXTOFF ex = (if a_magic ex = ZMAGIC then 1024 - 32 + 32 else 32)"

definition bad_exec :: "exec \<Rightarrow> u32 \<Rightarrow> bool" where
  "bad_exec ex isize \<longleftrightarrow>
     a_magic ex \<noteq> ZMAGIC \<or> a_trsize ex \<noteq> 0 \<or> a_drsize ex \<noteq> 0 \<or>
     0x3000000 < a_text ex + a_data ex + a_bss ex \<or> isize < a_text ex + a_data ex + a_syms ex + N_TXTOFF ex"

section \<open>Strings\<close>

text \<open>The length of a string with its final zero. After \<open>2 ^ 32\<close> bytes an endless string repeats.\<close>

primrec str_len :: "nat \<Rightarrow> u32 \<Rightarrow> (u32 \<Rightarrow> u8) \<Rightarrow> nat kres" where
  "str_len 0 a m = Inl Hang"
| "str_len (Suc n) a m = (if m a = 0 then Inr 1 else bindk (str_len n (a + 1) m) (\<lambda>k. Inr (Suc k)))"

primrec count_args :: "nat \<Rightarrow> u32 \<Rightarrow> kst \<Rightarrow> nat kres" where
  "count_args 0 a s = Inl Hang"
| "count_args (Suc n) a s = (if get_fs_long a s = 0 then Inr 0 else bindk (count_args n (a + 4) s) (\<lambda>k. Inr (Suc k)))"

definition count :: "u32 \<Rightarrow> kst \<Rightarrow> nat kres" where
  "count argv s = (if argv = 0 then Inr 0 else count_args (2 ^ 32) argv s)"

text \<open>
  The inner loop of \<open>copy_strings\<close>: the \<open>len\<close> bytes of \<open>str\<close> go below \<open>p\<close>, the last one first;
  \<open>offset\<close> is the place in the current page \<open>pag\<close>. The flag says whether all pages could be had.
\<close>

record arg_state =
  g_p :: u32
  g_offset :: int
  g_pag :: u32
  g_page :: "nat \<Rightarrow> u32"
  g_mem :: mm

primrec copy_bytes :: "nat \<Rightarrow> (nat \<Rightarrow> u8) \<Rightarrow> arg_state \<Rightarrow> (bool \<times> arg_state) kres" where
  "copy_bytes 0 str g = Inr (True, g)"
| "copy_bytes (Suc len) str g =
     (let p = g_p g - 1; offset = g_offset g - 1; n = unat (p div PAGE_SIZE);
          g = g\<lparr>g_p := p, g_offset := offset\<rparr>
      in if offset < 0 then
           if MAX_ARG_PAGES \<le> n then Inl (Wild ''page'')
           else
             let (pag, m) = (if g_page g n \<noteq> 0 then (g_page g n, g_mem g) else get_free_page (g_mem g));
                 g = g\<lparr>g_offset := int (unat (p mod PAGE_SIZE)), g_pag := pag, g_page := (g_page g)(n := pag), g_mem := m\<rparr>
             in if pag = 0 then Inr (False, g)
                else copy_bytes len str (g\<lparr>g_mem := store8 (pag + of_int (g_offset g)) (str len) (g_mem g)\<rparr>)
         else copy_bytes len str (g\<lparr>g_mem := store8 (g_pag g + of_int offset) (str len) (g_mem g)\<rparr>))"

text \<open>
  The strings from the last to the first. \<open>arr k\<close> is the pointer in slot \<open>k\<close>, read through the
  memory \<open>m\<close> that fs selects for the strings. The test \<open>p-len < 0\<close> of the code compares unsigned
  numbers and is never true.
\<close>

primrec copy_each :: "nat \<Rightarrow> (nat \<Rightarrow> u32) \<Rightarrow> (u32 \<Rightarrow> u8) \<Rightarrow> arg_state \<Rightarrow> (bool \<times> arg_state) kres" where
  "copy_each 0 arr m g = Inr (True, g)"
| "copy_each (Suc argc) arr m g =
     (if arr argc = 0 then Inl (Panic ''argc is wrong'')
      else bindk (str_len (2 ^ 32) (arr argc) m) (\<lambda>len.
        bindk (copy_bytes len (\<lambda>i. m (arr argc + of_nat i)) g) (\<lambda>(ok, g).
          if ok then copy_each argc arr m g else Inr (False, g))))"

definition copy_strings ::
  "nat \<Rightarrow> (nat \<Rightarrow> u32) \<Rightarrow> (u32 \<Rightarrow> u8) \<Rightarrow> (nat \<Rightarrow> u32) \<Rightarrow> u32 \<Rightarrow> kst \<Rightarrow> (u32 \<times> (nat \<Rightarrow> u32) \<times> kst) kres" where
  "copy_strings argc arr m page p s =
     (if p = 0 then Inr (0, page, s)
      else bindk (copy_each argc arr m \<lparr>g_p = p, g_offset = 0, g_pag = 0, g_page = page, g_mem = mem s\<rparr>) (\<lambda>(ok, g).
        Inr (if ok then g_p g else 0, g_page g, s\<lparr>mem := g_mem g\<rparr>)))"

definition user_array :: "u32 \<Rightarrow> kst \<Rightarrow> nat \<Rightarrow> u32" where
  "user_array argv s k = get_fs_long (argv + 4 * of_nat k) s"

section \<open>The new address space\<close>

primrec put_pages :: "nat \<Rightarrow> (nat \<Rightarrow> u32) \<Rightarrow> u32 \<Rightarrow> mm \<Rightarrow> mm" where
  "put_pages 0 page data_base m = m"
| "put_pages (Suc i) page data_base m =
     (let data_base = data_base - PAGE_SIZE
      in put_pages i page data_base (if page i \<noteq> 0 then snd (put_page (page i) data_base m) else m))"

text \<open>The new user segment: the pages of strings at its end, for the rest what page faults bring in.\<close>

definition new_segment :: "(u32 \<Rightarrow> u8) \<Rightarrow> (nat \<Rightarrow> u32) \<Rightarrow> mm \<Rightarrow> u32 \<Rightarrow> u8" where
  "new_segment img page m a =
     (let i = unat (a - (0x4000000 - of_nat MAX_ARG_PAGES * PAGE_SIZE)) div 4096
      in if i < MAX_ARG_PAGES \<and> page i \<noteq> 0 then load8 (page i + (a AND 0xfff)) m else img a)"

definition change_ldt :: "(u32 \<Rightarrow> u8) \<Rightarrow> u32 \<Rightarrow> (nat \<Rightarrow> u32) \<Rightarrow> kst \<Rightarrow> u32 \<times> kst" where
  "change_ldt img text_size page s =
     (let code_limit = (text_size + PAGE_SIZE - 1) AND 0xFFFFF000; data_limit = 0x4000000;
          code_base = t_code_base (cur s); data_base = code_base;
          s = upd_cur (\<lambda>t. t\<lparr>t_code_base := code_base, t_code_limit := code_limit, t_data_base := data_base,
                t_data_limit := data_limit\<rparr>) s;
          m = put_pages MAX_ARG_PAGES page (data_base + data_limit) (mem s)
      in (data_limit, s\<lparr>mem := m, umem := new_segment img page m\<rparr>))"

text \<open>One table of pointers; the result is the address behind the last string.\<close>

primrec put_table :: "nat \<Rightarrow> u32 \<Rightarrow> u32 \<Rightarrow> kst \<Rightarrow> (u32 \<times> kst) kres" where
  "put_table 0 p tab s = Inr (p, put_fs_long 0 tab s)"
| "put_table (Suc n) p tab s =
     (let s = put_fs_long p tab s
      in bindk (str_len (2 ^ 32) p (umem s)) (\<lambda>len. put_table n (p + of_nat len) (tab + 4) s))"

definition create_tables :: "u32 \<Rightarrow> int \<Rightarrow> int \<Rightarrow> kst \<Rightarrow> (u32 \<times> kst) kres" where
  "create_tables p argc envc s =
     (let sp = 0xfffffffc AND p; envp = sp - 4 * of_int (envc + 1); argv = envp - 4 * of_int (argc + 1);
          s = put_fs_long envp (argv - 4) s; s = put_fs_long argv (argv - 8) s;
          s = put_fs_long (of_int argc) (argv - 12) s
      in bindk (put_table (nat argc) p argv s) (\<lambda>(p, s).
         bindk (put_table (nat envc) p envp s) (\<lambda>(p, s). Inr (argv - 12, s))))"

section \<open>Scripts\<close>

text \<open>
  The first line of a script behind \<open>#!\<close>: the interpreter, its last path component and the optional
  argument; \<open>None\<close> when no interpreter is named on a line that ends within the first 1024 bytes.
\<close>

definition blank :: "u8 \<Rightarrow> bool" where
  "blank c \<longleftrightarrow> c = 32 \<or> c = 9"

definition script_line :: "block \<Rightarrow> (u8 list \<times> u8 list \<times> u8 list option) option" where
  "script_line d =
     (let buf = takeWhile (\<lambda>c. c \<noteq> 0) (map d [2..<1024]);
          line = dropWhile blank (takeWhile (\<lambda>c. c \<noteq> 10) buf);
          interp = takeWhile (\<lambda>c. \<not> blank c) line; rest = dropWhile (\<lambda>c. \<not> blank c) line
      in if 10 \<notin> set buf \<or> line = [] then None
         else Some (interp, rev (takeWhile (\<lambda>c. c \<noteq> 47) (rev interp)), case rest of [] \<Rightarrow> None | _ # arg \<Rightarrow> Some arg))"

text \<open>A string of the kernel as fs shows it after \<open>set_fs(get_ds())\<close>, at an address of its own.\<close>

definition KBUF :: u32 where "KBUF = 0x1000"

definition kern_view :: "u8 list \<Rightarrow> u32 \<Rightarrow> u8" where
  "kern_view xs a = (let i = unat (a - KBUF) in if i < length xs then xs ! i else 0)"

definition kern_string :: "u8 list \<Rightarrow> (nat \<Rightarrow> u32) \<Rightarrow> u32 \<Rightarrow> kst \<Rightarrow> (u32 \<times> (nat \<Rightarrow> u32) \<times> kst) kres" where
  "kern_string xs = copy_strings 1 (\<lambda>_. KBUF) (kern_view xs)"

definition kern_namei :: "u8 list \<Rightarrow> kst \<Rightarrow> (nat option \<times> kst) kres" where
  "kern_namei xs s = bindk (namei KBUF (s\<lparr>umem := kern_view xs\<rparr>)) (\<lambda>(r, t). Inr (r, t\<lparr>umem := umem s\<rparr>))"

section \<open>Errors\<close>

primrec free_args :: "nat \<Rightarrow> nat \<Rightarrow> (nat \<Rightarrow> u32) \<Rightarrow> mm \<Rightarrow> mm kres" where
  "free_args 0 i page m = Inr m"
| "free_args (Suc n) i page m = bindk (free_page (page i) m) (free_args n (Suc i) page)"

type_synonym exec_result = "(u32 \<times> (u32 \<times> u32) option \<times> kst) kres"

definition exec_error1 :: "nat \<Rightarrow> (nat \<Rightarrow> u32) \<Rightarrow> kst \<Rightarrow> exec_result" where
  "exec_error1 e page s =
     bindk (free_args MAX_ARG_PAGES 0 page (mem s)) (\<lambda>m. Inr (neg_errno e, None, s\<lparr>mem := m\<rparr>))"

definition exec_error2 :: "nat \<Rightarrow> nat \<Rightarrow> (nat \<Rightarrow> u32) \<Rightarrow> kst \<Rightarrow> exec_result" where
  "exec_error2 e i page s = bindk (iput (Some i) s) (exec_error1 e page)"

section \<open>Permissions\<close>

definition S_ISUID :: u16 where "S_ISUID = 0x800"
definition S_ISGID :: u16 where "S_ISGID = 0x400"

definition exec_uid :: "m_inode \<Rightarrow> kst \<Rightarrow> u16" where
  "exec_uid m s = (if i_mode m AND S_ISUID \<noteq> 0 then i_uid m else t_euid (cur s))"

definition exec_gid :: "m_inode \<Rightarrow> kst \<Rightarrow> u16" where
  "exec_gid m s = (if i_mode m AND S_ISGID \<noteq> 0 then ucast (i_gid m) else t_egid (cur s))"

definition may_exec :: "m_inode \<Rightarrow> kst \<Rightarrow> bool" where
  "may_exec m s \<longleftrightarrow>
     (let i = (if t_euid (cur s) = i_uid m then drop_bit 6 (i_mode m)
               else if t_egid (cur s) = ucast (i_gid m) then drop_bit 3 (i_mode m) else i_mode m)
      in i AND 1 \<noteq> 0 \<or> (i_mode m AND 0x49 \<noteq> 0 \<and> suser s))"

section \<open>do_execve\<close>

text \<open>The part behind the point of no return.\<close>

primrec close_on_exec :: "nat \<Rightarrow> nat \<Rightarrow> kst \<Rightarrow> kst kres" where
  "close_on_exec 0 i s = Inr s"
| "close_on_exec (Suc n) i s =
     bindk (if drop_bit i (t_close_on_exec (cur s)) AND 1 \<noteq> 0
            then bindk (sys_close (of_nat i) s) (\<lambda>(_, s). Inr s) else Inr s) (close_on_exec n (Suc i))"

text \<open>Zeroes from \<open>a\<close> to the end of its page.\<close>

definition clear_bss :: "u32 \<Rightarrow> kst \<Rightarrow> kst" where
  "clear_bss a s =
     s\<lparr>umem := (if a AND 0xfff = 0 then umem s
        else (\<lambda>b. if a \<le> b \<and> b \<le> (a OR 0xfff) then 0 else umem s b))\<rparr>"

definition exec_install ::
  "(u32 \<Rightarrow> u8) \<Rightarrow> nat \<Rightarrow> exec \<Rightarrow> u16 \<Rightarrow> u16 \<Rightarrow> int \<Rightarrow> int \<Rightarrow> (nat \<Rightarrow> u32) \<Rightarrow> u32 \<Rightarrow> kst \<Rightarrow> exec_result" where
  "exec_install img i ex e_uid e_gid argc envc page p s =
     bindk (case t_executable (cur s) of None \<Rightarrow> Inr s | Some x \<Rightarrow> iput (Some x) s) (\<lambda>s.
     let s = upd_cur (\<lambda>t. t\<lparr>t_executable := Some i,
           t_sigaction := (\<lambda>n. if n < 32 then (t_sigaction t n)\<lparr>sa_handler := 0\<rparr> else t_sigaction t n)\<rparr>) s in
     bindk (close_on_exec NR_OPEN 0 s) (\<lambda>s.
     let s = upd_cur (\<lambda>t. t\<lparr>t_close_on_exec := 0\<rparr>) s in
     bindk (free_page_tables (t_code_base (cur s)) (t_code_limit (cur s)) (mem s)) (\<lambda>(_, m).
     bindk (free_page_tables (t_data_base (cur s)) (t_data_limit (cur s)) m) (\<lambda>(_, m).
     let s = s\<lparr>mem := m\<rparr>;
         s = (if last_task_used_math s = Some (current s) then s\<lparr>last_task_used_math := None\<rparr> else s);
         s = upd_cur (\<lambda>t. t\<lparr>t_used_math := False\<rparr>) s;
         (lim, s) = change_ldt img (a_text ex) page s;
         p = p + lim - of_nat MAX_ARG_PAGES * PAGE_SIZE in
     bindk (create_tables p argc envc s) (\<lambda>(p, s).
     let end_code = a_text ex; end_data = a_data ex + end_code;
         s = upd_cur (\<lambda>t. t\<lparr>t_brk := a_bss ex + end_data, t_end_data := end_data, t_end_code := end_code,
               t_start_stack := p AND 0xfffff000, t_euid := e_uid, t_egid := e_gid\<rparr>) s
     in Inr (0, Some (a_entry ex, p), clear_bss (a_text ex + a_data ex) s))))))"

text \<open>Up to the header of the file: the checks and the first block, for the rest \<open>k\<close>.\<close>

definition exec_open ::
  "nat \<Rightarrow> (nat \<Rightarrow> u32) \<Rightarrow> (u16 \<Rightarrow> u16 \<Rightarrow> nat \<Rightarrow> kst \<Rightarrow> exec_result) \<Rightarrow> kst \<Rightarrow> exec_result" where
  "exec_open i page k s =
     (let m = inode_table s i; e_uid = exec_uid m s; e_gid = exec_gid m s in
      if \<not> S_ISREG (i_mode m) then exec_error2 EACCES i page s
      else if \<not> may_exec m s then exec_error2 ENOEXEC i page s
      else bindk (bread (i_dev m) (ucast (i_zone m 0)) s) (\<lambda>(bh, s). case bh of
          None \<Rightarrow> exec_error2 EACCES i page s
        | Some b \<Rightarrow> k e_uid e_gid b s))"

text \<open>A program file; \<open>copied\<close> says that the strings were copied while a script was read.\<close>

definition exec_program ::
  "(u32 \<Rightarrow> u8) \<Rightarrow> bool \<Rightarrow> u32 \<Rightarrow> u32 \<Rightarrow> nat \<Rightarrow> int \<Rightarrow> int \<Rightarrow> (nat \<Rightarrow> u32) \<Rightarrow> u32 \<Rightarrow> u16 \<Rightarrow> u16 \<Rightarrow> nat \<Rightarrow> kst \<Rightarrow> exec_result" where
  "exec_program img copied argv envp i argc envc page p e_uid e_gid b s =
     (let ex = exec_header (b_data (buffers s b)) in
      bindk (brelse (Some b) s) (\<lambda>s.
        if bad_exec ex (i_size (inode_table s i)) then exec_error2 ENOEXEC i page s
        else if N_TXTOFF ex \<noteq> of_nat BLOCK_SIZE then exec_error2 ENOEXEC i page s
        else if copied then exec_install img i ex e_uid e_gid argc envc page p s
        else bindk (copy_strings (nat envc) (user_array envp s) (umem s) page p s) (\<lambda>(p, page, s).
             bindk (copy_strings (nat argc) (user_array argv s) (umem s) page p s) (\<lambda>(p, page, s).
               if p = 0 then exec_error2 ENOMEM i page s
               else exec_install img i ex e_uid e_gid argc envc page p s))))"

text \<open>The strings of a script: environment and arguments, the name of the script, the argument and the name of the interpreter.\<close>

definition script_strings ::
  "u32 \<Rightarrow> u32 \<Rightarrow> u32 \<Rightarrow> int \<Rightarrow> int \<Rightarrow> u8 list \<Rightarrow> u8 list option \<Rightarrow> (nat \<Rightarrow> u32) \<Rightarrow> u32 \<Rightarrow> kst \<Rightarrow>
    (u32 \<times> (nat \<Rightarrow> u32) \<times> kst) kres" where
  "script_strings filename argv envp argc envc i_name i_arg page p s =
     bindk (copy_strings (nat envc) (user_array envp s) (umem s) page p s) (\<lambda>(p, page, s).
     bindk (copy_strings (nat (argc - 1)) (user_array (argv + 4) s) (umem s) page p s) (\<lambda>(p, page, s).
     bindk (copy_strings 1 (\<lambda>_. filename) (umem s) page p s) (\<lambda>(p, page, s).
     bindk (case i_arg of None \<Rightarrow> Inr (p, page, s) | Some a \<Rightarrow> kern_string a page p s) (\<lambda>(p, page, s).
       kern_string i_name page p s))))"

definition is_script :: "block \<Rightarrow> bool" where
  "is_script d \<longleftrightarrow> d 0 = 35 \<and> d 1 = 33"

definition do_execve :: "(u32 \<Rightarrow> u8) \<Rightarrow> u32 \<Rightarrow> u32 \<Rightarrow> u32 \<Rightarrow> u32 \<Rightarrow> kst \<Rightarrow> exec_result" where
  "do_execve img cs filename argv envp s =
     (let page = (\<lambda>_. 0); p = PAGE_SIZE * of_nat MAX_ARG_PAGES - 4 in
      if 0xffff AND cs \<noteq> 0x000f then Inl (Panic ''execve called from supervisor mode'')
      else bindk (namei filename s) (\<lambda>(r, s). case r of
          None \<Rightarrow> Inr (neg_errno ENOENT, None, s)
        | Some i \<Rightarrow>
          bindk (count argv s) (\<lambda>argc. bindk (count envp s) (\<lambda>envc.
          exec_open i page (\<lambda>e_uid e_gid b s.
            let d = b_data (buffers s b) in
            if \<not> is_script d then exec_program img False argv envp i (int argc) (int envc) page p e_uid e_gid b s
            else
              bindk (brelse (Some b) s) (\<lambda>s. bindk (iput (Some i) s) (\<lambda>s.
                case script_line d of
                  None \<Rightarrow> exec_error1 ENOEXEC page s
                | Some (interp, i_name, i_arg) \<Rightarrow>
                    bindk (script_strings filename argv envp (int argc) (int envc) i_name i_arg page p s) (\<lambda>(p, page, s).
                      let argc = int argc - 1 + 1 + (if i_arg = None then 0 else 1) + 1 in
                      if p = 0 then exec_error1 ENOMEM page s
                      else bindk (kern_namei interp s) (\<lambda>(r, s). case r of
                          None \<Rightarrow> exec_error1 ENOENT page s
                        | Some j \<Rightarrow>
                            exec_open j page (exec_program img True argv envp j argc (int envc) page p) s))))) s))))"

end
