(* ===== verification/Traps.thy ===== *)
theory Traps imports Descriptors Process Vsprintf Exec begin

text \<open>
  What the kernel prints: kernel/printk.c, the task list of kernel/sched.c and the handlers of
  kernel/traps.c, which print the registers and end the task; kernel/panic.c and the file
  kernel/math/math_emulate.c for machines without a coprocessor. The text goes through \<open>vsprintf\<close> and
  \<open>tty_write\<close> to the console, whose output routine is the argument \<open>con\<close>, as in the terminal theories.
\<close>

section \<open>printk\<close>

definition bytes_of :: "string \<Rightarrow> u8 list" where
  "bytes_of = map of_char"

definition TAB :: string where "TAB = [CHR 0x09]"
definition NL :: string where "NL = [CHR 0x0a]"
definition CR :: string where "CR = [CHR 0x0d]"

text \<open>
  \<open>tty_write\<close> reads the text from the kernel's segment: during the call \<open>umem\<close> is the view of the buffer,
  of 1024 bytes with the final 0. \<open>str\<close> is what \<open>%s\<close> reads.
\<close>

definition printk :: "(kst \<Rightarrow> kst kres) \<Rightarrow> (u32 \<Rightarrow> u8) \<Rightarrow> string \<Rightarrow> u32 list \<Rightarrow> kst \<Rightarrow> kst kres" where
  "printk con str fmt args s =
     bindk (vsprintf str (bytes_of fmt) args) (\<lambda>(text, st).
       if 1024 \<le> length text then Inl (Wild ''buf'')
       else bindk (tty_write con 0 KBUF (of_nat (length text)) (s\<lparr>umem := kern_view text\<rparr>)) (\<lambda>(r, t).
         Inr (t\<lparr>umem := umem s\<rparr>)))"

definition no_str :: "u32 \<Rightarrow> u8" where "no_str = (\<lambda>_. 0)"

section \<open>The task list\<close>

text \<open>The bytes behind the task structure in its page, up to the first that is not 0.\<close>

definition sizeof_task :: nat where "sizeof_task = 956"

primrec free_stack :: "nat \<Rightarrow> nat \<Rightarrow> u32 \<Rightarrow> mm \<Rightarrow> nat" where
  "free_stack 0 i p m = i"
| "free_stack (Suc n) i p m = (if load8 (p + of_nat (sizeof_task + i)) m \<noteq> 0 then i else free_stack n (Suc i) p m)"

definition show_task :: "(kst \<Rightarrow> kst kres) \<Rightarrow> nat \<Rightarrow> task_struct \<Rightarrow> kst \<Rightarrow> kst kres" where
  "show_task con nr p s =
     (let j = 4096 - sizeof_task;
          st = (case t_state p of RUNNING \<Rightarrow> 0 | INTERRUPTIBLE \<Rightarrow> 1 | UNINTERRUPTIBLE \<Rightarrow> 2 | ZOMBIE \<Rightarrow> 3 | STOPPED \<Rightarrow> 4)
      in bindk (printk con no_str ''%d: pid=%d, state=%d, '' [of_nat nr, t_pid p, st] s) (\<lambda>s.
           printk con no_str (''%d (of %d) chars free in kernel stack'' @ NL @ CR)
             [of_nat (free_stack j 0 (t_page p) (mem s)), of_nat j] s))"

primrec show_tasks :: "nat \<Rightarrow> nat \<Rightarrow> (kst \<Rightarrow> kst kres) \<Rightarrow> kst \<Rightarrow> kst kres" where
  "show_tasks 0 i con s = Inr s"
| "show_tasks (Suc n) i con s =
     bindk (case task s i of None \<Rightarrow> Inr s | Some p \<Rightarrow> show_task con i p s) (show_tasks n (Suc i) con)"

definition show_stat :: "(kst \<Rightarrow> kst kres) \<Rightarrow> kst \<Rightarrow> kst kres" where
  "show_stat = show_tasks NR_TASKS 0"

section \<open>die\<close>

text \<open>
  \<open>esp\<close> are the longs on the kernel stack from the saved \<open>eip\<close> on; \<open>fs\<close> is that register, and \<open>code\<close>
  what \<open>get_seg_byte\<close> reads through the code segment of the fault.
\<close>

primrec print_each :: "nat \<Rightarrow> nat \<Rightarrow> (kst \<Rightarrow> kst kres) \<Rightarrow> string \<Rightarrow> (nat \<Rightarrow> u32) \<Rightarrow> kst \<Rightarrow> kst kres" where
  "print_each 0 i con fmt f s = Inr s"
| "print_each (Suc n) i con fmt f s = bindk (printk con no_str fmt [f i] s) (print_each n (Suc i) con fmt f)"

definition die :: "(kst \<Rightarrow> kst kres) \<Rightarrow> u32 \<Rightarrow> (u32 \<Rightarrow> u8) \<Rightarrow> string \<Rightarrow> (nat \<Rightarrow> u32) \<Rightarrow> u32 \<Rightarrow> kst \<Rightarrow> kst kres" where
  "die con fs code str esp nr s =
     bindk (printk con (kern_view (bytes_of str)) (''%s: %04x'' @ NL @ CR) [KBUF, nr AND 0xffff] s) (\<lambda>s.
     bindk (printk con no_str (''EIP:'' @ TAB @ ''%04x:%p'' @ NL @ ''EFLAGS:'' @ TAB @ ''%p'' @ NL @ ''ESP:'' @ TAB @ ''%04x:%p'' @ NL)
              [esp 1, esp 0, esp 2, esp 4, esp 3] s) (\<lambda>s.
     bindk (printk con no_str (''fs: %04x'' @ NL) [fs] s) (\<lambda>s.
     bindk (printk con no_str (''base: %p, limit: %p'' @ NL) [t_code_base (cur s), t_data_limit (cur s)] s) (\<lambda>s.
     bindk (if esp 4 = 0x17 then
              bindk (printk con no_str ''Stack: '' [] s) (\<lambda>s.
              bindk (print_each 4 0 con ''%p '' (\<lambda>i. get_fs_long (esp 3 + 4 * of_nat i) s) s) (printk con no_str NL []))
            else Inr s) (\<lambda>s.
     bindk (printk con no_str (''Pid: %d, process nr: %d'' @ NL @ CR)
              [t_pid (cur s), 0xffff AND task_number (TSS_selector (current s))] s) (\<lambda>s.
     bindk (print_each 10 0 con ''%02x '' (\<lambda>i. 0xff AND ucast (code (esp 0 + of_nat i))) s) (\<lambda>s.
     bindk (printk con no_str (NL @ CR) [] s) (do_exit 11))))))))"

section \<open>The handlers\<close>

text \<open>The message of each trap the handlers of this file end a task with.\<close>

definition trap_message :: "handler \<Rightarrow> string option" where
  "trap_message h =
     (case h of
        double_fault \<Rightarrow> Some ''double fault''
      | general_protection \<Rightarrow> Some ''general protection''
      | divide_error \<Rightarrow> Some ''divide error''
      | nmi \<Rightarrow> Some ''nmi''
      | debug \<Rightarrow> Some ''debug''
      | overflow \<Rightarrow> Some ''overflow''
      | bounds \<Rightarrow> Some ''bounds''
      | invalid_op \<Rightarrow> Some ''invalid operand''
      | device_not_available \<Rightarrow> Some ''device not available''
      | coprocessor_segment_overrun \<Rightarrow> Some ''coprocessor segment overrun''
      | invalid_TSS \<Rightarrow> Some ''invalid TSS''
      | segment_not_present \<Rightarrow> Some ''segment not present''
      | stack_segment \<Rightarrow> Some ''stack segment''
      | coprocessor_error \<Rightarrow> Some ''coprocessor error''
      | reserved \<Rightarrow> Some ''reserved (15,17-47) error''
      | _ \<Rightarrow> None)"

definition do_coprocessor_error :: "(kst \<Rightarrow> kst kres) \<Rightarrow> u32 \<Rightarrow> (u32 \<Rightarrow> u8) \<Rightarrow> (nat \<Rightarrow> u32) \<Rightarrow> u32 \<Rightarrow> kst \<Rightarrow> kst kres" where
  "do_coprocessor_error con fs code esp error_code s =
     (if last_task_used_math s \<noteq> Some (current s) then Inr s else die con fs code ''coprocessor error'' esp error_code s)"

text \<open>\<open>do_int3\<close> prints the registers and returns; \<open>tr\<close> is the task register.\<close>

record int3_regs =
  i3_fs :: u32
  i3_es :: u32
  i3_ds :: u32
  i3_ebp :: u32
  i3_esi :: u32
  i3_edi :: u32
  i3_edx :: u32
  i3_ecx :: u32
  i3_ebx :: u32
  i3_eax :: u32

definition do_int3 :: "(kst \<Rightarrow> kst kres) \<Rightarrow> u32 \<Rightarrow> (nat \<Rightarrow> u32) \<Rightarrow> int3_regs \<Rightarrow> kst \<Rightarrow> kst kres" where
  "do_int3 con esp_ptr esp r s =
     bindk (printk con no_str (''eax'' @ TAB @ TAB @ ''ebx'' @ TAB @ TAB @ ''ecx'' @ TAB @ TAB @ ''edx'' @ NL @ CR @
              ''%8x'' @ TAB @ ''%8x'' @ TAB @ ''%8x'' @ TAB @ ''%8x'' @ NL @ CR) [i3_eax r, i3_ebx r, i3_ecx r, i3_edx r] s) (\<lambda>s.
     bindk (printk con no_str (''esi'' @ TAB @ TAB @ ''edi'' @ TAB @ TAB @ ''ebp'' @ TAB @ TAB @ ''esp'' @ NL @ CR @
              ''%8x'' @ TAB @ ''%8x'' @ TAB @ ''%8x'' @ TAB @ ''%8x'' @ NL @ CR) [i3_esi r, i3_edi r, i3_ebp r, esp_ptr] s) (\<lambda>s.
     bindk (printk con no_str (NL @ CR @ ''ds'' @ TAB @ ''es'' @ TAB @ ''fs'' @ TAB @ ''tr'' @ NL @ CR @
              ''%4x'' @ TAB @ ''%4x'' @ TAB @ ''%4x'' @ TAB @ ''%4x'' @ NL @ CR)
              [i3_ds r, i3_es r, i3_fs r, TSS_selector (current s)] s) (\<lambda>s.
     printk con no_str (''EIP: %8x   CS: %4x  EFLAGS: %8x'' @ NL @ CR) [esp 0, esp 1, esp 2] s)))"

text \<open>The handlers with the address of the saved registers and an error code.\<close>

definition do_trap :: "handler \<Rightarrow> (kst \<Rightarrow> kst kres) \<Rightarrow> u32 \<Rightarrow> (u32 \<Rightarrow> u8) \<Rightarrow> (nat \<Rightarrow> u32) \<Rightarrow> u32 \<Rightarrow> kst \<Rightarrow> kst kres" where
  "do_trap h con fs code esp error_code s =
     (if h = coprocessor_error then do_coprocessor_error con fs code esp error_code s
      else case trap_message h of None \<Rightarrow> Inr s | Some m \<Rightarrow> die con fs code m esp error_code s)"

section \<open>panic, and the missing coprocessor\<close>

text \<open>
  \<open>panic\<close> up to its endless loop: the state the machine stops in. The other theories end with the stop value
  \<open>Panic\<close> where it is called.
\<close>

definition panic :: "(kst \<Rightarrow> kst kres) \<Rightarrow> string \<Rightarrow> kst \<Rightarrow> kst kres" where
  "panic con str s =
     bindk (printk con (kern_view (bytes_of str)) (''Kernel panic: %s'' @ NL @ CR) [KBUF] s) (\<lambda>s.
       if current s = 0 then printk con no_str (''In swapper task - not syncing'' @ NL @ CR) [] s
       else bindk (sys_sync s) (\<lambda>(_, s). Inr s))"

definition SIGFPE :: nat where "SIGFPE = 8"

text \<open>The result of \<open>math_emulate\<close> has the saved \<open>eip\<close>, which it moves past the two bytes it reads.\<close>

definition math_emulate :: "(kst \<Rightarrow> kst kres) \<Rightarrow> u32 \<Rightarrow> u32 \<Rightarrow> kst \<Rightarrow> (u32 \<times> kst) kres" where
  "math_emulate con eip cs s =
     (if cs AND 0xffff \<noteq> 0x000F then
        bindk (printk con no_str (''math_emulate: %04x:%08x'' @ NL @ CR) [cs AND 0xffff, eip] s) (\<lambda>s.
          Inl (Panic ''Math emulation needed in kernel''))
      else
        let first = get_fs_byte eip s; second = get_fs_byte (eip + 1) s; eip = eip + 2 in
        bindk (printk con no_str (''%04x:%08x %02x %02x'' @ NL @ CR) [cs AND 0xffff, eip - 2, ucast first, ucast second] s) (\<lambda>s.
          Inr (eip, upd_cur (\<lambda>t. t\<lparr>t_signal := t_signal t OR sig_bit SIGFPE\<rparr>) s)))"

definition math_error :: "kst \<Rightarrow> kst" where
  "math_error s = (case last_task_used_math s of None \<Rightarrow> s
     | Some n \<Rightarrow> upd_task n (\<lambda>t. t\<lparr>t_signal := t_signal t OR sig_bit SIGFPE\<rparr>) s)"

end
