(* ===== verification/Drives.thy ===== *)
theory Drives imports Sched begin

text \<open>
  What the drivers of the hard disks and the floppy drives keep (the static variables of
  kernel/blk_drv/hd.c and floppy.c), and their way to the hardware.

  The controllers are not part of the repository: a \<open>device\<close> says, for every history of port
  accesses, what the next read of a port gives and what data the next transfer delivers. Nothing is
  assumed of it here.
\<close>

section \<open>Ports\<close>

datatype io_event = In u32 u8 | Out u32 u8 | Ins u32 "u8 list" | Outs u32 "u8 list" | Dma "u8 list"

record device =
  dev_byte :: "io_event list \<Rightarrow> u32 \<Rightarrow> u8"
  dev_data :: "io_event list \<Rightarrow> nat \<Rightarrow> u8"

section \<open>Hard disks\<close>

record hd_i_struct =
  hi_head :: u32
  hi_sect :: u32
  hi_cyl :: u32
  hi_wpcom :: u32
  hi_lzone :: u32
  hi_ctl :: u32

record hd_struct =
  start_sect :: u32
  nr_sects :: u32

text \<open>The functions \<open>do_hd\<close> points to.\<close>

datatype hd_intr = read_intr | write_intr | recal_intr

record hd_state =
  hd_recalibrate :: bool
  hd_reset :: bool
  hd_info :: "nat \<Rightarrow> hd_i_struct"
  NR_HD :: nat
  hd_part :: "nat \<Rightarrow> hd_struct"
  do_hd :: "hd_intr option"
  callable :: bool

section \<open>Floppy drives\<close>

text \<open>The functions \<open>do_floppy\<close> points to.\<close>

datatype fd_intr = rw_interrupt | seek_interrupt | recal_interrupt | reset_interrupt

text \<open>\<open>selected\<close> is \<open>fd_selected\<close> of the timers, which this driver shares with the clock interrupt.\<close>

record fd_state =
  fd_recalibrate :: bool
  fd_reset :: bool
  fd_seek :: bool
  reply_buffer :: "nat \<Rightarrow> u8"
  cur_spec1 :: u32
  cur_rate :: u32
  fd_floppy :: nat
  current_drive :: u8
  fd_sector :: u8
  fd_head :: u8
  fd_track :: u8
  seek_track :: u8
  current_track :: u8
  fd_command :: u8
  do_floppy :: "fd_intr option"
  tmp_floppy_area :: block
  wait_on_floppy_select :: "nat option"
  fd_timers :: timers

end
