(* ===== verification/Request.thy ===== *)
theory Request imports Buffer Drives begin

text \<open>
  kernel/blk_drv/ll_rw_blk.c and blk.h: the table of block device requests and the queue of each
  device with its elevator order.

  The request table and the heads of the queues are kept beside the kernel state; an index into the
  table stands for a pointer into it. The buffer memory of a request is that of its buffer head,
  \<open>r_buffer\<close> is the offset in it; the field \<open>waiting\<close>, always null here, is left out. The static
  variables of the drivers and the history of the port accesses belong to the same state. The functions that start a device
  (\<open>request_fn\<close>) are the parameter \<open>start\<close> of the operations, applied to the major number.
\<close>

section \<open>The order of commands\<close>

text \<open>The numbers of the commands in include/linux/fs.h.\<close>

primrec cmd_nr :: "rw_cmd \<Rightarrow> nat" where
  "cmd_nr READ = 0"
| "cmd_nr WRITE = 1"
| "cmd_nr READA = 2"
| "cmd_nr WRITEA = 3"

lemma cmd_nr_eq [simp]: "cmd_nr a = cmd_nr b \<longleftrightarrow> a = b"
  by (cases a; cases b) simp_all

instantiation rw_cmd :: linorder
begin

definition less_eq_rw_cmd :: "rw_cmd \<Rightarrow> rw_cmd \<Rightarrow> bool" where "a \<le> b \<longleftrightarrow> cmd_nr a \<le> cmd_nr b"

definition less_rw_cmd :: "rw_cmd \<Rightarrow> rw_cmd \<Rightarrow> bool" where "a < b \<longleftrightarrow> cmd_nr a < cmd_nr b"

instance
  by standard (auto simp: less_eq_rw_cmd_def less_rw_cmd_def)

end

section \<open>Requests\<close>

definition NR_REQUEST :: nat where "NR_REQUEST = 32"
definition NR_BLK_DEV :: nat where "NR_BLK_DEV = 7"

record request =
  r_dev :: int
  r_cmd :: rw_cmd
  r_errors :: u32
  r_sector :: u32
  r_nr_sectors :: u32
  r_buffer :: nat
  r_bh :: "nat option"
  r_next :: "nat option"

definition IN_ORDER :: "request \<Rightarrow> request \<Rightarrow> bool" where
  "IN_ORDER s1 s2 \<longleftrightarrow>
     r_cmd s1 < r_cmd s2 \<or>
     (r_cmd s1 = r_cmd s2 \<and>
       (r_dev s1 < r_dev s2 \<or> (r_dev s1 = r_dev s2 \<and> r_sector s1 < r_sector s2)))"

record blk =
  bk :: kst
  request :: "nat \<Rightarrow> request"
  current_request :: "nat \<Rightarrow> nat option"
  rd_start :: u32
  rd_length :: u32
  rd_mem :: "u32 \<Rightarrow> u8"
  hdd :: hd_state
  fdd :: fd_state
  ios :: "io_event list"

definition upd_req :: "nat \<Rightarrow> (request \<Rightarrow> request) \<Rightarrow> blk \<Rightarrow> blk" where
  "upd_req i f s = s\<lparr>request := (request s)(i := f (request s i))\<rparr>"

definition set_bh :: "nat \<Rightarrow> (buffer_head \<Rightarrow> buffer_head) \<Rightarrow> blk \<Rightarrow> blk" where
  "set_bh b f s = s\<lparr>bk := upd_buf b f (bk s)\<rparr>"

definition lock_buffer :: "nat \<Rightarrow> blk \<Rightarrow> blk kres" where
  "lock_buffer b s =
     (if b_lock (buffers (bk s) b) then sleep_on (bk s) else Inr (set_bh b (\<lambda>h. h\<lparr>b_lock := True\<rparr>) s))"

definition unlock_buffer :: "nat \<Rightarrow> blk \<Rightarrow> blk" where
  "unlock_buffer b s = set_bh b (\<lambda>h. h\<lparr>b_lock := False\<rparr>) s"

text \<open>
  The walk of \<open>add_request\<close> along the queue. A queue has at most \<open>NR_REQUEST\<close>
  requests; a longer walk is a cycle.
\<close>

primrec find_place :: "nat \<Rightarrow> nat \<Rightarrow> nat \<Rightarrow> blk \<Rightarrow> nat kres" where
  "find_place 0 tmp req s = Inl Hang"
| "find_place (Suc n) tmp req s =
     (case r_next (request s tmp) of
        None \<Rightarrow> Inr tmp
      | Some next \<Rightarrow>
          if (IN_ORDER (request s tmp) (request s req) \<or> \<not> IN_ORDER (request s tmp) (request s next)) \<and>
             IN_ORDER (request s req) (request s next)
          then Inr tmp else find_place n next req s)"

definition add_request :: "(nat \<Rightarrow> blk \<Rightarrow> blk kres) \<Rightarrow> nat \<Rightarrow> nat \<Rightarrow> blk \<Rightarrow> blk kres" where
  "add_request start dev req s =
     (let s = upd_req req (\<lambda>r. r\<lparr>r_next := None\<rparr>) s;
          s = (case r_bh (request s req) of None \<Rightarrow> s | Some b \<Rightarrow> set_bh b (\<lambda>h. h\<lparr>b_dirt := False\<rparr>) s)
      in case current_request s dev of
           None \<Rightarrow> start dev (s\<lparr>current_request := (current_request s)(dev \<mapsto> req)\<rparr>)
         | Some tmp \<Rightarrow>
             bindk (find_place NR_REQUEST tmp req s) (\<lambda>tmp.
               let s = upd_req req (\<lambda>r. r\<lparr>r_next := r_next (request s tmp)\<rparr>) s
               in Inr (upd_req tmp (\<lambda>r. r\<lparr>r_next := Some req\<rparr>) s)))"

text \<open>The search for an empty request, downwards from the limit of the command.\<close>

primrec empty_request :: "nat \<Rightarrow> blk \<Rightarrow> nat option" where
  "empty_request 0 s = None"
| "empty_request (Suc n) s = (if r_dev (request s n) < 0 then Some n else empty_request n s)"

definition request_limit :: "rw_cmd \<Rightarrow> nat" where
  "request_limit rw = (if rw = READ then NR_REQUEST else NR_REQUEST * 2 div 3)"

definition make_request :: "(nat \<Rightarrow> blk \<Rightarrow> blk kres) \<Rightarrow> nat \<Rightarrow> rw_cmd \<Rightarrow> nat \<Rightarrow> blk \<Rightarrow> blk kres" where
  "make_request start major rw b s =
     (let bh = buffers (bk s) b;
          rw_ahead = (rw = READA \<or> rw = WRITEA)
      in if rw_ahead \<and> b_lock bh then Inr s
         else
           let rw = (if rw = READA then READ else if rw = WRITEA then WRITE else rw) in
           bindk (lock_buffer b s) (\<lambda>s.
             if (rw = WRITE \<and> \<not> b_dirt bh) \<or> (rw = READ \<and> b_uptodate bh) then Inr (unlock_buffer b s)
             else case empty_request (request_limit rw) s of
                 None \<Rightarrow> if rw_ahead then Inr (unlock_buffer b s) else sleep_on (bk s)
               | Some req \<Rightarrow>
                   add_request start major req
                     (upd_req req (\<lambda>_. \<lparr>r_dev = int (unat (b_dev bh)), r_cmd = rw, r_errors = 0,
                        r_sector = push_bit 1 (b_blocknr bh), r_nr_sectors = 2, r_buffer = 0, r_bh = Some b,
                        r_next = None\<rparr>) s)))"

definition blk_ll_rw_block :: "(nat \<Rightarrow> blk \<Rightarrow> blk kres) \<Rightarrow> rw_cmd \<Rightarrow> nat \<Rightarrow> blk \<Rightarrow> blk kres" where
  "blk_ll_rw_block start rw b s =
     (let major = MAJOR (b_dev (buffers (bk s) b))
      in if NR_BLK_DEV \<le> major \<or> \<not> has_driver (bk s) major then Inr s
         else make_request start major rw b s)"

definition blk_dev_init :: "blk \<Rightarrow> blk" where
  "blk_dev_init s =
     s\<lparr>request := (\<lambda>i. if i < NR_REQUEST then (request s i)\<lparr>r_dev := - 1, r_next := None\<rparr> else request s i)\<rparr>"

section \<open>What the drivers share\<close>

text \<open>\<open>INIT_REQUEST\<close>: the request at the head of the queue, if there is one, after the two checks.\<close>

definition init_request :: "nat \<Rightarrow> blk \<Rightarrow> nat option kres" where
  "init_request major s =
     (case current_request s major of
        None \<Rightarrow> Inr None
      | Some c \<Rightarrow>
          if unat (drop_bit 8 (word_of_int (r_dev (request s c)) :: u32)) \<noteq> major
          then Inl (Panic ''request list destroyed'')
          else case r_bh (request s c) of
              None \<Rightarrow> Inr (Some c)
            | Some b \<Rightarrow> if b_lock (buffers (bk s) b) then Inr (Some c) else Inl (Panic ''block not locked''))"

text \<open>\<open>DEVICE_OFF\<close>: the motor of a floppy drive may stop.\<close>

definition device_off :: "nat \<Rightarrow> int \<Rightarrow> blk \<Rightarrow> blk" where
  "device_off major dev s =
     (if major = 2 then s\<lparr>fdd := (fdd s)\<lparr>fd_timers := floppy_off (unat (word_of_int dev AND 3 :: u32)) (fd_timers (fdd s))\<rparr>\<rparr> else s)"

definition end_request :: "nat \<Rightarrow> bool \<Rightarrow> blk \<Rightarrow> blk kres" where
  "end_request major uptodate s =
     (case current_request s major of
        None \<Rightarrow> Inl (Wild ''CURRENT'')
      | Some c \<Rightarrow>
          let s = device_off major (r_dev (request s c)) s;
              s = (case r_bh (request s c) of None \<Rightarrow> s
                   | Some b \<Rightarrow> unlock_buffer b (set_bh b (\<lambda>h. h\<lparr>b_uptodate := uptodate\<rparr>) s));
              s = upd_req c (\<lambda>r. r\<lparr>r_dev := - 1\<rparr>) s
          in Inr (s\<lparr>current_request := (current_request s)(major := r_next (request s c))\<rparr>))"

end
