(* ===== verification/Ramdisk.thy ===== *)
theory Ramdisk imports Request Super begin

text \<open>
  kernel/blk_drv/ramdisk.c: the RAM disk, a block device that serves its requests at once out of
  memory, and loading it from the boot floppy.
\<close>

section \<open>The RAM disk\<close>

definition rd_copy :: "nat \<Rightarrow> u32 \<Rightarrow> u32 \<Rightarrow> blk \<Rightarrow> blk kres" where
  "rd_copy c addr len s =
     (case r_bh (request s c) of
        None \<Rightarrow> Inl (Wild ''buffer'')
      | Some b \<Rightarrow>
          if r_cmd (request s c) = WRITE then
            Inr (s\<lparr>rd_mem := (\<lambda>a. if a - addr < len then b_data (buffers (bk s) b) (r_buffer (request s c) + unat (a - addr)) else rd_mem s a)\<rparr>)
          else if r_cmd (request s c) = READ then
            Inr (set_bh b (\<lambda>h. h\<lparr>b_data := (\<lambda>i. if r_buffer (request s c) \<le> i \<and> i < r_buffer (request s c) + unat len
              then rd_mem s (addr + of_nat (i - r_buffer (request s c))) else b_data h i)\<rparr>) s)
          else Inl (Panic ''unknown ramdisk-command''))"

text \<open>Each round of \<open>do_rd_request\<close> ends a request, so \<open>NR_REQUEST\<close> rounds empty the queue.\<close>

primrec rd_loop :: "nat \<Rightarrow> blk \<Rightarrow> blk kres" where
  "rd_loop 0 s = Inl Hang"
| "rd_loop (Suc n) s =
     bindk (init_request 1 s) (\<lambda>c. case c of
         None \<Rightarrow> Inr s
       | Some c \<Rightarrow>
           let addr = rd_start s + push_bit 9 (r_sector (request s c));
               len = push_bit 9 (r_nr_sectors (request s c))
           in if (word_of_int (r_dev (request s c)) AND 0xff :: u32) \<noteq> 1 \<or> rd_start s + rd_length s < addr + len
              then bindk (end_request 1 False s) (rd_loop n)
              else bindk (rd_copy c addr len s) (\<lambda>s. bindk (end_request 1 True s) (rd_loop n)))"

definition do_rd_request :: "blk \<Rightarrow> blk kres" where
  "do_rd_request = rd_loop (Suc NR_REQUEST)"

definition rd_init :: "u32 \<Rightarrow> u32 \<Rightarrow> blk \<Rightarrow> u32 \<times> blk" where
  "rd_init mem_start n s =
     (n, s\<lparr>bk := (bk s)\<lparr>has_driver := (has_driver (bk s))(1 := True)\<rparr>, rd_start := mem_start, rd_length := n,
           rd_mem := (\<lambda>a. if 0 <s n \<and> a - mem_start < n then 0 else rd_mem s a)\<rparr>)"

text \<open>
  Loading the RAM disk: the floppy is read through the buffer cache, whose block layer is the
  contract \<open>ll_rw_block\<close> on the kernel state. \<open>printk\<close> is left out.
\<close>

primrec rd_load_loop :: "nat \<Rightarrow> u32 \<Rightarrow> u32 \<Rightarrow> blk \<Rightarrow> (bool \<times> blk) kres" where
  "rd_load_loop 0 blk cp s = Inr (True, s)"
| "rd_load_loop (Suc n) blk cp s =
     bindk (if 2 <s (of_nat (Suc n) :: u32) then breada (ROOT_DEV (bk s)) blk [blk + 1, blk + 2, - 1] (bk s)
            else bread (ROOT_DEV (bk s)) blk (bk s)) (\<lambda>(bh, k).
       case bh of
         None \<Rightarrow> Inr (False, s\<lparr>bk := k\<rparr>)
       | Some b \<Rightarrow>
           let s = s\<lparr>bk := k, rd_mem := (\<lambda>a. if a - cp < 1024 then b_data (buffers k b) (unat (a - cp)) else rd_mem s a)\<rparr>
           in bindk (brelse (Some b) (bk s)) (\<lambda>k. rd_load_loop n (blk + 1) (cp + 1024) (s\<lparr>bk := k\<rparr>)))"

definition rd_load :: "blk \<Rightarrow> blk kres" where
  "rd_load s =
     (if rd_length s = 0 then Inr s
      else if MAJOR (ROOT_DEV (bk s)) \<noteq> 2 then Inr s
      else bindk (breada (ROOT_DEV (bk s)) 257 [256, 258, - 1] (bk s)) (\<lambda>(bh, k).
        case bh of
          None \<Rightarrow> Inr (s\<lparr>bk := k\<rparr>)
        | Some b \<Rightarrow>
            let d = b_data (buffers k b) in
            bindk (brelse (Some b) k) (\<lambda>k.
              let s = s\<lparr>bk := k\<rparr>;
                  nblocks = push_bit (unat (get16 d 10)) (ucast (get16 d 2)) :: u32
              in if get16 d 16 \<noteq> SUPER_MAGIC then Inr s
                 else if signed_drop_bit 10 (rd_length s) <s nblocks then Inr s
                 else bindk (rd_load_loop (unat nblocks) 256 (rd_start s) s) (\<lambda>(all, s).
                        Inr (if all then s\<lparr>bk := (bk s)\<lparr>ROOT_DEV := 0x0101\<rparr>\<rparr> else s)))))"

end
