(* ===== verification/Hd.thy ===== *)
theory Hd imports Ramdisk begin

text \<open>
  kernel/blk_drv/hd.c: the driver of the hard disks, whose functions are called by \<open>add_request\<close> and
  by the interrupts of the controller, and \<open>sys_setup\<close>, which reads the partition tables.

  The controller is the argument \<open>d\<close>. \<open>printk\<close> is left out; the null pointer \<open>CURRENT\<close> of an
  empty queue is followed only where the code reads through it, to the physical address 8 of the kernel.
\<close>

section \<open>Ports\<close>

definition io_in :: "device \<Rightarrow> u32 \<Rightarrow> blk \<Rightarrow> u8 \<times> blk" where
  "io_in d p s = (let v = dev_byte d (ios s) p in (v, s\<lparr>ios := In p v # ios s\<rparr>))"

definition io_out :: "u8 \<Rightarrow> u32 \<Rightarrow> blk \<Rightarrow> blk" where
  "io_out v p s = s\<lparr>ios := Out p v # ios s\<rparr>"

definition upd_hd :: "(hd_state \<Rightarrow> hd_state) \<Rightarrow> blk \<Rightarrow> blk" where
  "upd_hd f s = s\<lparr>hdd := f (hdd s)\<rparr>"

section \<open>Registers of the controller\<close>

definition HD_DATA :: u32 where "HD_DATA = 0x1f0"
definition HD_ERROR :: u32 where "HD_ERROR = 0x1f1"
definition HD_STATUS :: u32 where "HD_STATUS = 0x1f7"
definition HD_CMD :: u32 where "HD_CMD = 0x3f6"
definition ERR_STAT :: u8 where "ERR_STAT = 0x01"
definition DRQ_STAT :: u8 where "DRQ_STAT = 0x08"
definition SEEK_STAT :: u8 where "SEEK_STAT = 0x10"
definition WRERR_STAT :: u8 where "WRERR_STAT = 0x20"
definition READY_STAT :: u8 where "READY_STAT = 0x40"
definition BUSY_STAT :: u8 where "BUSY_STAT = 0x80"
definition WIN_RESTORE :: u8 where "WIN_RESTORE = 0x10"
definition WIN_READ :: u8 where "WIN_READ = 0x20"
definition WIN_WRITE :: u8 where "WIN_WRITE = 0x30"
definition WIN_SPECIFY :: u8 where "WIN_SPECIFY = 0x91"
definition HD_MAX_ERRORS :: u32 where "HD_MAX_ERRORS = 7"

text \<open>512 bytes between the data register and the buffer of request \<open>c\<close>.\<close>

definition port_read :: "device \<Rightarrow> nat \<Rightarrow> blk \<Rightarrow> blk kres" where
  "port_read d c s =
     (case r_bh (request s c) of
        None \<Rightarrow> Inl (Wild ''buffer'')
      | Some b \<Rightarrow>
          let k = r_buffer (request s c); data = dev_data d (ios s)
          in Inr ((set_bh b (\<lambda>h. h\<lparr>b_data := (\<lambda>i. if k \<le> i \<and> i < k + 512 then data (i - k) else b_data h i)\<rparr>) s)
               \<lparr>ios := Ins HD_DATA (map data [0..<512]) # ios s\<rparr>))"

definition port_write :: "nat \<Rightarrow> blk \<Rightarrow> blk kres" where
  "port_write c s =
     (case r_bh (request s c) of
        None \<Rightarrow> Inl (Wild ''buffer'')
      | Some b \<Rightarrow>
          let k = r_buffer (request s c)
          in Inr (s\<lparr>ios := Outs HD_DATA (map (\<lambda>i. b_data (buffers (bk s) b) (k + i)) [0..<512]) # ios s\<rparr>))"

text \<open>The loop of \<open>controller_ready\<close> and the tries left at its end.\<close>

primrec ready_loop :: "nat \<Rightarrow> device \<Rightarrow> blk \<Rightarrow> nat \<times> blk" where
  "ready_loop 0 d s = (0, s)"
| "ready_loop (Suc retries) d s =
     (if retries = 0 then (0, s)
      else let (v, s) = io_in d HD_STATUS s
           in if v AND 0x80 \<noteq> 0 then ready_loop retries d s else (retries, s))"

definition controller_ready :: "device \<Rightarrow> blk \<Rightarrow> nat \<times> blk" where
  "controller_ready = ready_loop 100000"

text \<open>True is the result 1, an error.\<close>

definition win_result :: "device \<Rightarrow> blk \<Rightarrow> bool \<times> blk" where
  "win_result d s =
     (let (i, s) = io_in d HD_STATUS s
      in if i AND (BUSY_STAT OR READY_STAT OR WRERR_STAT OR SEEK_STAT OR ERR_STAT) = READY_STAT OR SEEK_STAT
         then (False, s)
         else (True, if i AND 1 \<noteq> 0 then snd (io_in d HD_ERROR s) else s))"

definition hd_out :: "device \<Rightarrow> nat \<Rightarrow> u32 \<Rightarrow> u32 \<Rightarrow> u32 \<Rightarrow> u32 \<Rightarrow> u8 \<Rightarrow> hd_intr \<Rightarrow> blk \<Rightarrow> blk kres" where
  "hd_out d drive nsect sect head cyl cmd intr_addr s =
     (if 1 < drive \<or> 15 < head then Inl (Panic ''Trying to write bad sector'')
      else
        let (ready, s) = controller_ready d s
        in if ready = 0 then Inl (Panic ''HD controller not ready'')
           else
             let i = hd_info (hdd s) drive;
                 s = upd_hd (\<lambda>h. h\<lparr>do_hd := Some intr_addr\<rparr>) s;
                 s = io_out (ucast (hi_ctl i)) HD_CMD s;
                 s = io_out (ucast (signed_drop_bit 2 (hi_wpcom i))) (HD_DATA + 1) s;
                 s = io_out (ucast nsect) (HD_DATA + 2) s;
                 s = io_out (ucast sect) (HD_DATA + 3) s;
                 s = io_out (ucast cyl) (HD_DATA + 4) s;
                 s = io_out (ucast (drop_bit 8 cyl)) (HD_DATA + 5) s;
                 s = io_out (ucast (0xA0 OR push_bit 4 (of_nat drive) OR head)) (HD_DATA + 6) s
             in Inr (io_out cmd (HD_DATA + 7) s))"

primrec busy_loop :: "nat \<Rightarrow> device \<Rightarrow> blk \<Rightarrow> blk" where
  "busy_loop 0 d s = s"
| "busy_loop (Suc n) d s =
     (let (v, s) = io_in d HD_STATUS s
      in if v AND (BUSY_STAT OR READY_STAT) = READY_STAT then s else busy_loop n d s)"

definition drive_busy :: "device \<Rightarrow> blk \<Rightarrow> bool \<times> blk" where
  "drive_busy d s =
     (let (i, s) = io_in d HD_STATUS (busy_loop 10000 d s)
      in (i AND (BUSY_STAT OR READY_STAT OR SEEK_STAT) \<noteq> READY_STAT OR SEEK_STAT, s))"

definition reset_controller :: "device \<Rightarrow> blk \<Rightarrow> blk" where
  "reset_controller d s =
     (let s = io_out 4 HD_CMD s;
          s = io_out (ucast (hi_ctl (hd_info (hdd s) 0) AND 0x0f)) HD_CMD s;
          (_, s) = drive_busy d s
      in snd (io_in d HD_ERROR s))"

definition reset_hd :: "device \<Rightarrow> nat \<Rightarrow> blk \<Rightarrow> blk kres" where
  "reset_hd d nr s =
     (let i = hd_info (hdd s) nr
      in hd_out d nr (hi_sect i) (hi_sect i) (hi_head i - 1) (hi_cyl i) WIN_SPECIFY recal_intr (reset_controller d s))"

section \<open>Requests\<close>

text \<open>
  After \<open>end_request\<close> the function reads the error count of the next request; with none left
  this is the long at the physical address 8, an entry of the page directory.
\<close>

definition current_errors :: "blk \<Rightarrow> u32" where
  "current_errors s = (case current_request s 3 of None \<Rightarrow> pmem (mem (bk s)) 8 | Some c \<Rightarrow> r_errors (request s c))"

definition bad_rw_intr :: "blk \<Rightarrow> blk kres" where
  "bad_rw_intr s =
     (case current_request s 3 of
        None \<Rightarrow> Inl (Wild ''CURRENT'')
      | Some c \<Rightarrow>
          let s = upd_req c (\<lambda>r. r\<lparr>r_errors := r_errors r + 1\<rparr>) s
          in bindk (if HD_MAX_ERRORS \<le>s r_errors (request s c) then end_request 3 False s else Inr s) (\<lambda>s.
               Inr (if 3 <s current_errors s then upd_hd (\<lambda>h. h\<lparr>hd_reset := True\<rparr>) s else s)))"

text \<open>The wait for the drive to take data, at most 3000 reads of the status.\<close>

primrec wait_drq :: "nat \<Rightarrow> device \<Rightarrow> blk \<Rightarrow> bool \<times> blk" where
  "wait_drq 0 d s = (False, s)"
| "wait_drq (Suc n) d s =
     (let (v, s) = io_in d HD_STATUS s in if v AND DRQ_STAT \<noteq> 0 then (True, s) else wait_drq n d s)"

definition CURRENT_DEV :: "request \<Rightarrow> nat" where
  "CURRENT_DEV r = unat (word_of_int (r_dev r) AND 0xff :: u32) div 5"

text \<open>
  The command for request \<open>c\<close> once the sector, head and cylinder are known. True says that the code goes back to
  \<open>repeat\<close>.
\<close>

definition hd_command :: "device \<Rightarrow> nat \<Rightarrow> nat \<Rightarrow> u32 \<Rightarrow> u32 \<Rightarrow> u32 \<Rightarrow> blk \<Rightarrow> (bool \<times> blk) kres" where
  "hd_command d c dev sec head cyl s =
     (let r = request s c; nsect = r_nr_sectors r in
      if hd_reset (hdd s) then
        bindk (reset_hd d (CURRENT_DEV r) (upd_hd (\<lambda>h. h\<lparr>hd_reset := False, hd_recalibrate := True\<rparr>) s)) (\<lambda>s. Inr (False, s))
      else if hd_recalibrate (hdd s) then
        bindk (hd_out d dev (hi_sect (hd_info (hdd s) (CURRENT_DEV r))) 0 0 0 WIN_RESTORE recal_intr
          (upd_hd (\<lambda>h. h\<lparr>hd_recalibrate := False\<rparr>) s)) (\<lambda>s. Inr (False, s))
      else if r_cmd r = WRITE then
        bindk (hd_out d dev nsect sec head cyl WIN_WRITE write_intr s) (\<lambda>s.
          let (drq, s) = wait_drq 3000 d s
          in if \<not> drq then bindk (bad_rw_intr s) (\<lambda>s. Inr (True, s))
             else bindk (port_write c s) (\<lambda>s. Inr (False, s)))
      else if r_cmd r = READ then
        bindk (hd_out d dev nsect sec head cyl WIN_READ read_intr s) (\<lambda>s. Inr (False, s))
      else Inl (Panic ''unknown hd-command''))"

text \<open>The division faults when the geometry of the drive is not known.\<close>

primrec hd_loop :: "nat \<Rightarrow> device \<Rightarrow> blk \<Rightarrow> blk kres" where
  "hd_loop 0 d s = Inl Hang"
| "hd_loop (Suc n) d s =
     bindk (init_request 3 s) (\<lambda>c. case c of
         None \<Rightarrow> Inr s
       | Some c \<Rightarrow>
           let r = request s c; dev = unat (word_of_int (r_dev r) AND 0xff :: u32); block = r_sector r;
               p = hd_part (hdd s) dev
           in if 5 * NR_HD (hdd s) \<le> dev \<or> nr_sects p < block + 2
              then bindk (end_request 3 False s) (hd_loop n d)
              else
                let block = block + start_sect p; dev = dev div 5; i = hd_info (hdd s) dev
                in if hi_sect i = 0 \<or> hi_head i = 0 then Inl (Panic ''divide error'')
                   else
                     let sec = block mod hi_sect i; block = block div hi_sect i;
                         head = block mod hi_head i; cyl = block div hi_head i
                     in bindk (hd_command d c dev (sec + 1) head cyl s) (\<lambda>(again, s).
                          if again then hd_loop n d s else Inr s))"

text \<open>
  A round ends a request or counts an error of the current one, of which a write has at most four before
  the controller is reset.
\<close>

definition do_hd_request :: "device \<Rightarrow> blk \<Rightarrow> blk kres" where
  "do_hd_request = hd_loop (8 * NR_REQUEST)"

section \<open>Interrupts\<close>

definition hd_failed :: "device \<Rightarrow> blk \<Rightarrow> blk kres" where
  "hd_failed d s = bindk (bad_rw_intr s) (do_hd_request d)"

fun hd_handler :: "device \<Rightarrow> hd_intr \<Rightarrow> blk \<Rightarrow> blk kres" where
  "hd_handler d read_intr s =
     (let (bad, s) = win_result d s
      in if bad then hd_failed d s
         else case current_request s 3 of
             None \<Rightarrow> Inl (Wild ''CURRENT'')
           | Some c \<Rightarrow>
               bindk (port_read d c s) (\<lambda>s.
                 let s = upd_req c (\<lambda>r. r\<lparr>r_errors := 0, r_buffer := r_buffer r + 512, r_sector := r_sector r + 1,
                       r_nr_sectors := r_nr_sectors r - 1\<rparr>) s
                 in if r_nr_sectors (request s c) \<noteq> 0 then Inr (upd_hd (\<lambda>h. h\<lparr>do_hd := Some read_intr\<rparr>) s)
                    else bindk (end_request 3 True s) (do_hd_request d)))"
| "hd_handler d write_intr s =
     (let (bad, s) = win_result d s
      in if bad then hd_failed d s
         else case current_request s 3 of
             None \<Rightarrow> Inl (Wild ''CURRENT'')
           | Some c \<Rightarrow>
               let s = upd_req c (\<lambda>r. r\<lparr>r_nr_sectors := r_nr_sectors r - 1\<rparr>) s
               in if r_nr_sectors (request s c) \<noteq> 0
                  then port_write c (upd_hd (\<lambda>h. h\<lparr>do_hd := Some write_intr\<rparr>)
                         (upd_req c (\<lambda>r. r\<lparr>r_sector := r_sector r + 1, r_buffer := r_buffer r + 512\<rparr>) s))
                  else bindk (end_request 3 True s) (do_hd_request d))"
| "hd_handler d recal_intr s =
     (let (bad, s) = win_result d s
      in bindk (if bad then bad_rw_intr s else Inr s) (do_hd_request d))"

text \<open>
  The interrupt: it is acknowledged at both interrupt controllers, and between the two \<open>do_hd\<close> is
  taken and cleared; it is called when it was set (\<open>unexpected_hd_interrupt\<close> only prints).
\<close>

definition hd_interrupt :: "device \<Rightarrow> blk \<Rightarrow> blk kres" where
  "hd_interrupt d s =
     (let s = io_out 0x20 0xA0 s; h = do_hd (hdd s); s = io_out 0x20 0x20 (upd_hd (\<lambda>h. h\<lparr>do_hd := None\<rparr>) s)
      in case h of None \<Rightarrow> Inr s | Some h \<Rightarrow> hd_handler d h s)"

section \<open>Setting up\<close>

definition hd_init :: "device \<Rightarrow> blk \<Rightarrow> blk" where
  "hd_init d s =
     (let s = s\<lparr>bk := (bk s)\<lparr>has_driver := (has_driver (bk s))(3 := True)\<rparr>\<rparr>;
          (v, s) = io_in d 0x21 s; s = io_out (v AND 0xfb) 0x21 s; (v, s) = io_in d 0xA1 s
      in io_out (v AND 0xbf) 0xA1 s)"

definition CMOS_READ :: "device \<Rightarrow> u8 \<Rightarrow> blk \<Rightarrow> u8 \<times> blk" where
  "CMOS_READ d addr s = io_in d 0x71 (io_out (0x80 OR addr) 0x70 s)"

text \<open>The table the BIOS left in memory, 16 bytes for each drive.\<close>

definition bios_info :: "block \<Rightarrow> nat \<Rightarrow> hd_i_struct" where
  "bios_info B k =
     \<lparr>hi_head = ucast (B (k + 2)), hi_sect = ucast (B (k + 14)), hi_cyl = ucast (get16 B k), hi_wpcom = ucast (get16 B (k + 5)),
      hi_lzone = ucast (get16 B (k + 12)), hi_ctl = ucast (B (k + 8))\<rparr>"

text \<open>The whole drives, then those the CMOS does not name.\<close>

definition whole_disks :: "nat \<Rightarrow> (nat \<Rightarrow> hd_i_struct) \<Rightarrow> (nat \<Rightarrow> hd_struct) \<Rightarrow> nat \<Rightarrow> hd_struct" where
  "whole_disks n info p k =
     (if k mod 5 = 0 \<and> k div 5 < n
      then let i = info (k div 5) in \<lparr>start_sect = 0, nr_sects = hi_head i * hi_sect i * hi_cyl i\<rparr> else p k)"

definition no_disks :: "nat \<Rightarrow> (nat \<Rightarrow> hd_struct) \<Rightarrow> nat \<Rightarrow> hd_struct" where
  "no_disks n p k = (if k mod 5 = 0 \<and> n \<le> k div 5 \<and> k div 5 < 2 then \<lparr>start_sect = 0, nr_sects = 0\<rparr> else p k)"

definition partitions :: "nat \<Rightarrow> block \<Rightarrow> (nat \<Rightarrow> hd_struct) \<Rightarrow> nat \<Rightarrow> hd_struct" where
  "partitions drive B p k =
     (if 5 * drive < k \<and> k < 5 * drive + 5
      then let a = 0x1BE + 16 * (k - 5 * drive - 1) in \<lparr>start_sect = get32 B (a + 8), nr_sects = get32 B (a + 12)\<rparr>
      else p k)"

primrec read_partitions :: "nat \<Rightarrow> nat \<Rightarrow> blk \<Rightarrow> blk kres" where
  "read_partitions 0 drive s = Inr s"
| "read_partitions (Suc n) drive s =
     bindk (bread (0x300 + of_nat drive * 5) 0 (bk s)) (\<lambda>(bh, k).
       case bh of
         None \<Rightarrow> Inl (Panic '''')
       | Some b \<Rightarrow>
           let B = b_data (buffers k b)
           in if B 510 \<noteq> 0x55 \<or> B 511 \<noteq> 0xAA then Inl (Panic '''')
              else bindk (brelse (Some b) k) (\<lambda>k.
                read_partitions n (drive + 1)
                  (upd_hd (\<lambda>h. h\<lparr>hd_part := partitions drive B (hd_part h)\<rparr>) (s\<lparr>bk := k\<rparr>))))"

definition sys_setup :: "device \<Rightarrow> block \<Rightarrow> blk \<Rightarrow> (u32 \<times> blk) kres" where
  "sys_setup d BIOS s =
     (if \<not> callable (hdd s) then Inr (- 1, s)
      else
        let info = (\<lambda>n. if n < 2 then bios_info BIOS (16 * n) else hd_info (hdd s) n);
            n = if hi_cyl (info 1) \<noteq> 0 then 2 else 1;
            s = upd_hd (\<lambda>h. h\<lparr>callable := False, hd_info := info, NR_HD := n, hd_part := whole_disks n info (hd_part h)\<rparr>) s;
            (cmos_disks, s) = CMOS_READ d 0x12 s;
            n = if cmos_disks AND 0xf0 \<noteq> 0 then if cmos_disks AND 0x0f \<noteq> 0 then 2 else 1 else 0;
            s = upd_hd (\<lambda>h. h\<lparr>NR_HD := n, hd_part := no_disks n (hd_part h)\<rparr>) s
        in bindk (read_partitions n 0 s) (\<lambda>s.
           bindk (rd_load s) (\<lambda>s. bindk (mount_root (bk s)) (\<lambda>k. Inr (0, s\<lparr>bk := k\<rparr>)))))"

end
