(* ===== verification/Path_Calls.thy ===== *)
theory Path_Calls imports Namei begin

text \<open>
  The system calls that take a path name outside fs/namei.c: fs/open.c, fs/stat.c, and \<open>mount\<close>
  and \<open>umount\<close> of fs/super.c.
\<close>

section \<open>Attributes of a file\<close>

definition sys_ustat :: "u32 \<Rightarrow> u32 \<Rightarrow> kst \<Rightarrow> (u32 \<times> kst) kres" where
  "sys_ustat dev ubuf s = Inr (neg_errno ENOSYS, s)"

definition sys_utime :: "u32 \<Rightarrow> u32 \<Rightarrow> kst \<Rightarrow> (u32 \<times> kst) kres" where
  "sys_utime filename tbuf s =
     bindk (namei filename s) (\<lambda>(r, s). case r of
       None \<Rightarrow> Inr (neg_errno ENOENT, s)
     | Some i \<Rightarrow>
       let actime = (if tbuf \<noteq> 0 then get_fs_long tbuf s else CURRENT_TIME s);
           modtime = (if tbuf \<noteq> 0 then get_fs_long (tbuf + 4) s else CURRENT_TIME s)
       in leave 0 [iput (Some i)]
            (upd_inode i (\<lambda>m. m\<lparr>i_atime := actime, i_mtime := modtime, i_dirt := True\<rparr>) s))"

text \<open>The owner and the group are compared after \<open>iput\<close>; both shift by 6.\<close>

definition access_bits :: "nat \<Rightarrow> u32 \<Rightarrow> kst \<Rightarrow> u32" where
  "access_bits i res s =
     (if t_uid (cur s) = i_uid (inode_table s i) then drop_bit 6 res
      else if t_gid (cur s) = ucast (i_gid (inode_table s i)) then drop_bit 6 res else res)"

definition sys_access :: "u32 \<Rightarrow> u32 \<Rightarrow> kst \<Rightarrow> (u32 \<times> kst) kres" where
  "sys_access filename mode s =
     (let mode = mode AND 7 in
      bindk (namei filename s) (\<lambda>(r, s). case r of
        None \<Rightarrow> Inr (neg_errno EACCES, s)
      | Some i \<Rightarrow>
        let i_m = ucast (i_mode (inode_table s i)) AND 0x1ff in
        bindk (iput (Some i) s) (\<lambda>s.
          if access_bits i i_m s AND 7 AND mode = mode then Inr (0, s)
          else if t_uid (cur s) = 0 \<and> (mode AND 1 = 0 \<or> i_m AND 0x49 \<noteq> 0) then Inr (0, s)
          else Inr (neg_errno EACCES, s))))"

definition sys_chdir :: "u32 \<Rightarrow> kst \<Rightarrow> (u32 \<times> kst) kres" where
  "sys_chdir filename s =
     bindk (namei filename s) (\<lambda>(r, s). case r of
       None \<Rightarrow> Inr (neg_errno ENOENT, s)
     | Some i \<Rightarrow>
       if \<not> S_ISDIR (i_mode (inode_table s i)) then leave (neg_errno ENOTDIR) [iput (Some i)] s
       else bindk (iput (t_pwd (cur s)) s) (\<lambda>s. Inr (0, upd_cur (\<lambda>t. t\<lparr>t_pwd := Some i\<rparr>) s)))"

definition sys_chroot :: "u32 \<Rightarrow> kst \<Rightarrow> (u32 \<times> kst) kres" where
  "sys_chroot filename s =
     bindk (namei filename s) (\<lambda>(r, s). case r of
       None \<Rightarrow> Inr (neg_errno ENOENT, s)
     | Some i \<Rightarrow>
       if \<not> S_ISDIR (i_mode (inode_table s i)) then leave (neg_errno ENOTDIR) [iput (Some i)] s
       else bindk (iput (t_root (cur s)) s) (\<lambda>s. Inr (0, upd_cur (\<lambda>t. t\<lparr>t_root := Some i\<rparr>) s)))"

definition sys_chmod :: "u32 \<Rightarrow> u32 \<Rightarrow> kst \<Rightarrow> (u32 \<times> kst) kres" where
  "sys_chmod filename mode s =
     bindk (namei filename s) (\<lambda>(r, s). case r of
       None \<Rightarrow> Inr (neg_errno ENOENT, s)
     | Some i \<Rightarrow>
       if t_euid (cur s) \<noteq> i_uid (inode_table s i) \<and> \<not> suser s
       then leave (neg_errno EACCES) [iput (Some i)] s
       else leave 0 [iput (Some i)]
              (upd_inode i (\<lambda>m. m\<lparr>i_mode := (ucast mode AND 0xfff) OR (i_mode m AND NOT 0xfff),
                  i_dirt := True\<rparr>) s))"

definition sys_chown :: "u32 \<Rightarrow> u32 \<Rightarrow> u32 \<Rightarrow> kst \<Rightarrow> (u32 \<times> kst) kres" where
  "sys_chown filename uid gid s =
     bindk (namei filename s) (\<lambda>(r, s). case r of
       None \<Rightarrow> Inr (neg_errno ENOENT, s)
     | Some i \<Rightarrow>
       if \<not> suser s then leave (neg_errno EACCES) [iput (Some i)] s
       else leave 0 [iput (Some i)]
              (upd_inode i (\<lambda>m. m\<lparr>i_uid := ucast uid, i_gid := ucast gid, i_dirt := True\<rparr>) s))"

section \<open>open and creat\<close>

primrec free_file :: "nat \<Rightarrow> nat \<Rightarrow> kst \<Rightarrow> nat" where
  "free_file 0 i s = i"
| "free_file (Suc n) i s = (if f_count (file_table s i) = 0 then i else free_file n (Suc i) s)"

text \<open>
  What \<open>sys_open\<close> does for character devices: a session leader without a terminal gets the one it
  opens; opening \<open>/dev/tty\<close> without a terminal is refused (result \<open>False\<close>).
\<close>

definition open_tty :: "nat \<Rightarrow> kst \<Rightarrow> (bool \<times> kst) kres" where
  "open_tty i s =
     (let m = inode_table s i; dev = i_zone m 0; t = cur s in
      if \<not> S_ISCHR (i_mode m) then Inr (True, s)
      else if MAJOR dev = 4 then
        (if t_leader t \<and> t_tty t <s 0 then
           let s = upd_cur (\<lambda>t. t\<lparr>t_tty := of_nat (MINOR dev)\<rparr>) s
           in if 2 < MINOR dev then Inl (Wild ''tty_table'')
              else Inr (True, upd_tty (MINOR dev) (\<lambda>y. y\<lparr>tt_pgrp := t_pgrp t\<rparr>) s)
         else Inr (True, s))
      else if MAJOR dev = 5 then Inr (\<not> t_tty t <s 0, s)
      else Inr (True, s))"

definition sys_open :: "u32 \<Rightarrow> u32 \<Rightarrow> u32 \<Rightarrow> kst \<Rightarrow> (u32 \<times> kst) kres" where
  "sys_open filename flag mode s =
     (let mode = mode AND 0x1ff AND NOT (ucast (t_umask (cur s)));
          fd = free_fd NR_OPEN 0 s in
      if NR_OPEN \<le> fd then Inr (neg_errno EINVAL, s)
      else
        let s = upd_cur (\<lambda>t. t\<lparr>t_close_on_exec := t_close_on_exec t AND NOT (push_bit fd 1)\<rparr>) s;
            f = free_file NR_FILE 0 s
        in if NR_FILE \<le> f then Inr (neg_errno EINVAL, s)
           else
             let s = upd_file f (\<lambda>x. x\<lparr>f_count := f_count x + 1\<rparr>) (set_filp fd (Some f) s);
                 undo = (\<lambda>s. clear_count f (set_filp fd None s))
             in bindk (open_namei filename flag mode s) (\<lambda>((v, r), s). case r of
                  None \<Rightarrow> Inr (v, undo s)
                | Some i \<Rightarrow>
                  bindk (open_tty i s) (\<lambda>(go, s).
                    if \<not> go then bindk (iput (Some i) s) (\<lambda>s. Inr (neg_errno EPERM, undo s))
                    else bindk (if S_ISBLK (i_mode (inode_table s i))
                                then check_disk_change (i_zone (inode_table s i) 0) s else Inr s) (\<lambda>s.
                      Inr (of_nat fd, upd_file f (\<lambda>x. x\<lparr>f_mode := i_mode (inode_table s i), f_flags := ucast flag,
                             f_count := 1, f_inode := Some i, f_pos := 0\<rparr>) s)))))"

definition sys_creat :: "u32 \<Rightarrow> u32 \<Rightarrow> kst \<Rightarrow> (u32 \<times> kst) kres" where
  "sys_creat pathname mode = sys_open pathname (O_CREAT OR O_TRUNC) mode"

section \<open>stat\<close>

text \<open>
  The 32 bytes of \<open>struct stat\<close>. The padding bytes 7, 11, 14 and 15 are what the stack held
  (argument \<open>junk\<close>).
\<close>

definition half_byte :: "nat \<Rightarrow> u16 \<Rightarrow> u8" where
  "half_byte k w = ucast (drop_bit (8 * k) w)"

definition stat_byte :: "(nat \<Rightarrow> u8) \<Rightarrow> m_inode \<Rightarrow> nat \<Rightarrow> u8" where
  "stat_byte junk m k =
     (if k < 2 then half_byte k (i_dev m) else if k < 4 then half_byte (k - 2) (i_num m)
      else if k < 6 then half_byte (k - 4) (i_mode m) else if k = 6 then i_nlinks m
      else if k = 8 \<or> k = 9 then half_byte (k - 8) (i_uid m) else if k = 10 then i_gid m
      else if k = 12 \<or> k = 13 then half_byte (k - 12) (i_zone m 0)
      else if k < 16 then junk k
      else if k < 20 then word_byte (k - 16) (i_size m) else if k < 24 then word_byte (k - 20) (i_atime m)
      else if k < 28 then word_byte (k - 24) (i_mtime m) else word_byte (k - 28) (i_ctime m))"

definition cp_stat :: "(nat \<Rightarrow> u8) \<Rightarrow> nat \<Rightarrow> u32 \<Rightarrow> kst \<Rightarrow> kst kres" where
  "cp_stat junk i statbuf s =
     bindk (verify_area statbuf 32 s) (\<lambda>s.
       Inr (put_user 32 (stat_byte junk (inode_table s i)) 0 statbuf s))"

definition sys_stat :: "(nat \<Rightarrow> u8) \<Rightarrow> u32 \<Rightarrow> u32 \<Rightarrow> kst \<Rightarrow> (u32 \<times> kst) kres" where
  "sys_stat junk filename statbuf s =
     bindk (namei filename s) (\<lambda>(r, s). case r of
       None \<Rightarrow> Inr (neg_errno ENOENT, s)
     | Some i \<Rightarrow> leave 0 [cp_stat junk i statbuf, iput (Some i)] s)"

definition sys_fstat :: "(nat \<Rightarrow> u8) \<Rightarrow> u32 \<Rightarrow> u32 \<Rightarrow> kst \<Rightarrow> (u32 \<times> kst) kres" where
  "sys_fstat junk fd statbuf s =
     (case fget fd s of None \<Rightarrow> Inr (neg_errno EBADF, s)
      | Some f \<Rightarrow> (case f_inode (file_table s f) of None \<Rightarrow> Inr (neg_errno EBADF, s)
        | Some i \<Rightarrow> leave 0 [cp_stat junk i statbuf] s))"

section \<open>mount and umount\<close>

definition sys_mount :: "u32 \<Rightarrow> u32 \<Rightarrow> u32 \<Rightarrow> kst \<Rightarrow> (u32 \<times> kst) kres" where
  "sys_mount dev_name dir_name rw_flag s =
     bindk (namei dev_name s) (\<lambda>(r, s). case r of
       None \<Rightarrow> Inr (neg_errno ENOENT, s)
     | Some dev_i \<Rightarrow>
       let dev = i_zone (inode_table s dev_i) 0 in
       if \<not> S_ISBLK (i_mode (inode_table s dev_i)) then leave (neg_errno EPERM) [iput (Some dev_i)] s
       else bindk (iput (Some dev_i) s) (\<lambda>s.
         bindk (namei dir_name s) (\<lambda>(r, s). case r of
           None \<Rightarrow> Inr (neg_errno ENOENT, s)
         | Some dir_i \<Rightarrow>
           let d = inode_table s dir_i; quit = (\<lambda>e s. leave (neg_errno e) [iput (Some dir_i)] s) in
           if i_count d \<noteq> 1 \<or> i_num d = ROOT_INO then quit EBUSY s
           else if \<not> S_ISDIR (i_mode d) then quit EPERM s
           else bindk (read_super dev s) (\<lambda>(r, s). case r of
             None \<Rightarrow> quit EBUSY s
           | Some k \<Rightarrow>
             if s_imount (super_block s k) \<noteq> None then quit EBUSY s
             else if i_mount (inode_table s dir_i) then quit EPERM s
             else Inr (0, upd_inode dir_i (\<lambda>m. m\<lparr>i_mount := True, i_dirt := True\<rparr>)
                            (upd_super k (\<lambda>b. b\<lparr>s_imount := Some dir_i\<rparr>) s))))))"

definition device_busy :: "u16 \<Rightarrow> kst \<Rightarrow> bool" where
  "device_busy dev s \<longleftrightarrow> list_ex (\<lambda>i. i_dev (inode_table s i) = dev \<and> i_count (inode_table s i) \<noteq> 0) [0..<NR_INODE]"

definition sys_umount :: "u32 \<Rightarrow> kst \<Rightarrow> (u32 \<times> kst) kres" where
  "sys_umount dev_name s =
     bindk (namei dev_name s) (\<lambda>(r, s). case r of
       None \<Rightarrow> Inr (neg_errno ENOENT, s)
     | Some i \<Rightarrow>
       let dev = i_zone (inode_table s i) 0 in
       if \<not> S_ISBLK (i_mode (inode_table s i)) then leave (neg_errno ENOTBLK) [iput (Some i)] s
       else bindk (iput (Some i) s) (\<lambda>s.
         if dev = ROOT_DEV s then Inr (neg_errno EBUSY, s)
         else bindk (get_super dev s) (\<lambda>r. case r of
           None \<Rightarrow> Inr (neg_errno ENOENT, s)
         | Some k \<Rightarrow> (case s_imount (super_block s k) of
             None \<Rightarrow> Inr (neg_errno ENOENT, s)
           | Some d \<Rightarrow>
             if device_busy dev s then Inr (neg_errno EBUSY, s)
             else leave 0 [iput (Some d),
                  (\<lambda>s. iput (s_isup (super_block s k)) (upd_super k (\<lambda>b. b\<lparr>s_imount := None\<rparr>) s)),
                  (\<lambda>s. put_super dev (upd_super k (\<lambda>b. b\<lparr>s_isup := None\<rparr>) s)),
                  sync_dev dev]
                  (upd_inode d (\<lambda>m. m\<lparr>i_mount := False\<rparr>) s)))))"

end
