(* ===== verification/Console.thy ===== *)
theory Console imports Tty begin

text \<open>
  kernel/chr_drv/console.c: the VT102 console. Its static variables are the record \<open>console\<close>
  in the kernel state; addresses and counters are 32 bit words that wrap as in C. The inline assembly
  loops (\<open>rep movsl\<close>, \<open>rep stosw\<close>) are loops over the bytes of the video memory.
\<close>

section \<open>Video memory\<close>

definition put_short :: "u32 \<Rightarrow> u16 \<Rightarrow> (u32 \<Rightarrow> u8) \<Rightarrow> u32 \<Rightarrow> u8" where
  "put_short a v m = m(a := ucast v, a + 1 := ucast (drop_bit 8 v))"

definition get_short :: "u32 \<Rightarrow> (u32 \<Rightarrow> u8) \<Rightarrow> u16" where
  "get_short a m = ucast (m a) OR push_bit 8 (ucast (m (a + 1)))"

text \<open>\<open>rep stosw\<close> upwards, and downwards as after \<open>std\<close>.\<close>

primrec stosw :: "nat \<Rightarrow> u32 \<Rightarrow> u16 \<Rightarrow> (u32 \<Rightarrow> u8) \<Rightarrow> u32 \<Rightarrow> u8" where
  "stosw 0 a v m = m"
| "stosw (Suc n) a v m = stosw n (a + 2) v (put_short a v m)"

primrec stosw_down :: "nat \<Rightarrow> u32 \<Rightarrow> u16 \<Rightarrow> (u32 \<Rightarrow> u8) \<Rightarrow> u32 \<Rightarrow> u8" where
  "stosw_down 0 a v m = m"
| "stosw_down (Suc n) a v m = stosw_down n (a - 2) v (put_short a v m)"

definition movsl1 :: "u32 \<Rightarrow> u32 \<Rightarrow> (u32 \<Rightarrow> u8) \<Rightarrow> u32 \<Rightarrow> u8" where
  "movsl1 dst src m = m(dst := m src, dst + 1 := m (src + 1), dst + 2 := m (src + 2), dst + 3 := m (src + 3))"

primrec movsl :: "nat \<Rightarrow> u32 \<Rightarrow> u32 \<Rightarrow> (u32 \<Rightarrow> u8) \<Rightarrow> u32 \<Rightarrow> u8" where
  "movsl 0 dst src m = m"
| "movsl (Suc n) dst src m = movsl n (dst + 4) (src + 4) (movsl1 dst src m)"

primrec movsl_down :: "nat \<Rightarrow> u32 \<Rightarrow> u32 \<Rightarrow> (u32 \<Rightarrow> u8) \<Rightarrow> u32 \<Rightarrow> u8" where
  "movsl_down 0 dst src m = m"
| "movsl_down (Suc n) dst src m = movsl_down n (dst - 4) (src - 4) (movsl1 dst src m)"

section \<open>The cursor\<close>

definition gotoxy :: "u32 \<Rightarrow> u32 \<Rightarrow> console \<Rightarrow> console" where
  "gotoxy new_x new_y c =
     (if video_num_columns c < new_x \<or> video_num_lines c \<le> new_y then c
      else c\<lparr>con_x := new_x, con_y := new_y, con_pos := con_origin c + new_y * video_size_row c + push_bit 1 new_x\<rparr>)"

definition out_address :: "u8 \<Rightarrow> u32 \<Rightarrow> kst \<Rightarrow> kst" where
  "out_address r a s =
     (let c = cons s; off = a - video_mem_start c; reg = ucast (video_port_reg c); val = ucast (video_port_val c)
      in outb (ucast (drop_bit 1 off)) val (outb (r + 1) reg (outb (ucast (drop_bit 9 off)) val (outb r reg s))))"

definition set_origin :: "kst \<Rightarrow> kst" where
  "set_origin s = out_address 12 (con_origin (cons s)) s"

definition set_cursor :: "kst \<Rightarrow> kst" where
  "set_cursor s = out_address 14 (con_pos (cons s)) s"

section \<open>Scrolling\<close>

definition is_ega :: "console \<Rightarrow> bool" where
  "is_ega c \<longleftrightarrow> video_type c = 0x21 \<or> video_type c = 0x20"

text \<open>The lines from \<open>top\<close> to \<open>bottom\<close> move up by one and the last is erased.\<close>

definition scroll_region_up :: "console \<Rightarrow> console" where
  "scroll_region_up c =
     (let n = drop_bit 1 ((con_bottom c - con_top c - 1) * video_num_columns c);
          dst = con_origin c + video_size_row c * con_top c; src = con_origin c + video_size_row c * (con_top c + 1)
      in c\<lparr>vram := stosw (unat (video_num_columns c)) (dst + 4 * n) (video_erase_char c)
             (movsl (unat n) dst src (vram c))\<rparr>)"

definition scrup :: "kst \<Rightarrow> kst" where
  "scrup s =
     (let c = cons s in
      if is_ega c \<and> con_top c = 0 \<and> con_bottom c = video_num_lines c then
        let c = c\<lparr>con_origin := con_origin c + video_size_row c, con_pos := con_pos c + video_size_row c,
                  con_scr_end := con_scr_end c + video_size_row c\<rparr>;
            n = drop_bit 1 ((video_num_lines c - 1) * video_num_columns c);
            back = con_origin c - video_mem_start c;
            c = (if video_mem_end c < con_scr_end c then
                   c\<lparr>vram := stosw (unat (video_num_columns c)) (video_mem_start c + 4 * n) (video_erase_char c)
                        (movsl (unat n) (video_mem_start c) (con_origin c) (vram c)),
                     con_scr_end := con_scr_end c - back, con_pos := con_pos c - back,
                     con_origin := video_mem_start c\<rparr>
                 else
                   c\<lparr>vram := stosw (unat (video_num_columns c)) (con_scr_end c - video_size_row c)
                        (video_erase_char c) (vram c)\<rparr>)
        in set_origin (s\<lparr>cons := c\<rparr>)
      else s\<lparr>cons := scroll_region_up c\<rparr>)"

definition scrdown :: "console \<Rightarrow> console" where
  "scrdown c =
     (let n = drop_bit 1 ((con_bottom c - con_top c - 1) * video_num_columns c);
          dst = con_origin c + video_size_row c * con_bottom c - 4;
          src = con_origin c + video_size_row c * (con_bottom c - 1) - 4
      in c\<lparr>vram := stosw_down (unat (video_num_columns c)) (dst - 4 * n + 2) (video_erase_char c)
             (movsl_down (unat n) dst src (vram c))\<rparr>)"

definition lf :: "kst \<Rightarrow> kst" where
  "lf s =
     (let c = cons s in
      if con_y c + 1 < con_bottom c
      then s\<lparr>cons := c\<lparr>con_y := con_y c + 1, con_pos := con_pos c + video_size_row c\<rparr>\<rparr>
      else scrup s)"

definition ri :: "console \<Rightarrow> console" where
  "ri c =
     (if con_top c < con_y c then c\<lparr>con_y := con_y c - 1, con_pos := con_pos c - video_size_row c\<rparr>
      else scrdown c)"

definition cr :: "console \<Rightarrow> console" where
  "cr c = c\<lparr>con_pos := con_pos c - push_bit 1 (con_x c), con_x := 0\<rparr>"

definition con_del :: "console \<Rightarrow> console" where
  "con_del c =
     (if con_x c \<noteq> 0
      then c\<lparr>con_pos := con_pos c - 2, con_x := con_x c - 1,
             vram := put_short (con_pos c - 2) (video_erase_char c) (vram c)\<rparr>
      else c)"

section \<open>Editing functions\<close>

definition erase :: "u32 \<Rightarrow> u32 \<Rightarrow> console \<Rightarrow> console" where
  "erase count start c = c\<lparr>vram := stosw (unat count) start (video_erase_char c) (vram c)\<rparr>"

definition csi_J :: "u32 \<Rightarrow> console \<Rightarrow> console" where
  "csi_J p c =
     (if p = 0 then erase (drop_bit 1 (con_scr_end c - con_pos c)) (con_pos c) c
      else if p = 1 then erase (drop_bit 1 (con_pos c - con_origin c)) (con_origin c) c
      else if p = 2 then erase (video_num_columns c * video_num_lines c) (con_origin c) c
      else c)"

definition csi_K :: "u32 \<Rightarrow> console \<Rightarrow> console" where
  "csi_K p c =
     (if p = 0 then
        (if video_num_columns c \<le> con_x c then c else erase (video_num_columns c - con_x c) (con_pos c) c)
      else if p = 1 then
        erase (if con_x c < video_num_columns c then con_x c else video_num_columns c) (con_pos c - push_bit 1 (con_x c)) c
      else if p = 2 then erase (video_num_columns c) (con_pos c - push_bit 1 (con_x c)) c
      else c)"

definition new_attr :: "u32 \<Rightarrow> u8 \<Rightarrow> u8" where
  "new_attr p a =
     (if p = 0 then 0x07 else if p = 1 then 0x0f else if p = 4 then 0x0f else if p = 7 then 0x70
      else if p = 27 then 0x07 else a)"

definition csi_m :: "console \<Rightarrow> console" where
  "csi_m c = c\<lparr>con_attr := fold (\<lambda>i. new_attr (con_par c i)) [0..<Suc (con_npar c)] (con_attr c)\<rparr>"

text \<open>The loop of \<open>insert_char\<close>: \<open>old\<close> is stored and what it replaces goes on.\<close>

primrec shift_right :: "nat \<Rightarrow> u32 \<Rightarrow> u16 \<Rightarrow> (u32 \<Rightarrow> u8) \<Rightarrow> u32 \<Rightarrow> u8" where
  "shift_right 0 p old m = m"
| "shift_right (Suc n) p old m = shift_right n (p + 2) (get_short p m) (put_short p old m)"

definition insert_char :: "console \<Rightarrow> console" where
  "insert_char c =
     c\<lparr>vram := shift_right (unat (video_num_columns c) - unat (con_x c)) (con_pos c) (video_erase_char c) (vram c)\<rparr>"

primrec shift_left :: "nat \<Rightarrow> u32 \<Rightarrow> (u32 \<Rightarrow> u8) \<Rightarrow> u32 \<Rightarrow> u8" where
  "shift_left 0 p m = m"
| "shift_left (Suc n) p m = shift_left n (p + 2) (put_short p (get_short (p + 2) m) m)"

definition delete_char :: "console \<Rightarrow> console" where
  "delete_char c =
     (if video_num_columns c \<le> con_x c then c
      else
        let n = unat (video_num_columns c) - unat (con_x c) - 1
        in c\<lparr>vram := put_short (con_pos c + 2 * of_nat n) (video_erase_char c) (shift_left n (con_pos c) (vram c))\<rparr>)"

definition insert_line :: "console \<Rightarrow> console" where
  "insert_line c =
     (scrdown (c\<lparr>con_top := con_y c, con_bottom := video_num_lines c\<rparr>))
       \<lparr>con_top := con_top c, con_bottom := con_bottom c\<rparr>"

definition delete_line :: "kst \<Rightarrow> kst" where
  "delete_line s =
     (let c = cons s;
          s = scrup (upd_cons (\<lambda>c. c\<lparr>con_top := con_y c, con_bottom := video_num_lines c\<rparr>) s)
      in upd_cons (\<lambda>d. d\<lparr>con_top := con_top c, con_bottom := con_bottom c\<rparr>) s)"

text \<open>The number of repetitions the four functions below make of \<open>nr\<close>.\<close>

definition csi_count :: "u32 \<Rightarrow> u32 \<Rightarrow> nat" where
  "csi_count lim nr = unat (if lim < nr then lim else if nr = 0 then 1 else nr)"

definition csi_at :: "u32 \<Rightarrow> console \<Rightarrow> console" where
  "csi_at nr c = (insert_char ^^ csi_count (video_num_columns c) nr) c"

definition csi_L :: "u32 \<Rightarrow> console \<Rightarrow> console" where
  "csi_L nr c = (insert_line ^^ csi_count (video_num_lines c) nr) c"

definition csi_P :: "u32 \<Rightarrow> console \<Rightarrow> console" where
  "csi_P nr c = (delete_char ^^ csi_count (video_num_columns c) nr) c"

definition csi_M :: "u32 \<Rightarrow> kst \<Rightarrow> kst" where
  "csi_M nr s = (delete_line ^^ csi_count (video_num_lines (cons s)) nr) s"

definition save_cur :: "console \<Rightarrow> console" where
  "save_cur c = c\<lparr>saved_x := con_x c, saved_y := con_y c\<rparr>"

definition restore_cur :: "console \<Rightarrow> console" where
  "restore_cur c = gotoxy (saved_x c) (saved_y c) c"

section \<open>Beeping\<close>

definition sysbeep :: "kst \<Rightarrow> kst" where
  "sysbeep s =
     upd_cons (\<lambda>c. c\<lparr>beepcount := of_nat (HZ div 8)\<rparr>)
       (outb 0x06 0x42 (outb 0x37 0x42 (outb 0xB6 0x43 (outb (inb 0x61 s OR 3) 0x61 s))))"

section \<open>Writing characters\<close>

text \<open>
  \<open>respond\<close> calls \<open>copy_to_cooked\<close>, which may echo and so call \<open>con_write\<close>
  again; it is the argument \<open>ctc\<close> here.
\<close>

definition RESPONSE :: "u8 list" where
  "RESPONSE = [27, 91, 63, 49, 59, 50, 99]"

definition respond :: "(kst \<Rightarrow> kst kres) \<Rightarrow> kst \<Rightarrow> kst kres" where
  "respond ctc s = ctc (upd_tty 0 (\<lambda>t. t\<lparr>read_q := fold putch RESPONSE (read_q t)\<rparr>) s)"

definition wrap_line :: "kst \<Rightarrow> kst" where
  "wrap_line s =
     lf (upd_cons (\<lambda>c. c\<lparr>con_x := con_x c - video_num_columns c, con_pos := con_pos c - video_size_row c\<rparr>) s)"

definition show_char :: "u8 \<Rightarrow> console \<Rightarrow> console" where
  "show_char ch c =
     c\<lparr>vram := put_short (con_pos c) (push_bit 8 (ucast (con_attr c)) OR ucast ch) (vram c),
       con_pos := con_pos c + 2, con_x := con_x c + 1\<rparr>"

definition con_tab :: "kst \<Rightarrow> kst" where
  "con_tab s =
     (let n = 8 - (con_x (cons s) AND 7);
          s = upd_cons (\<lambda>c. c\<lparr>con_x := con_x c + n, con_pos := con_pos c + push_bit 1 n\<rparr>) s
      in if video_num_columns (cons s) < con_x (cons s) then wrap_line s else s)"

definition con_plain :: "u8 \<Rightarrow> kst \<Rightarrow> kst" where
  "con_plain ch s =
     (if 31 < ch \<and> ch < 127 then
        upd_cons (show_char ch) (if video_num_columns (cons s) \<le> con_x (cons s) then wrap_line s else s)
      else if ch = 27 then upd_cons (\<lambda>c. c\<lparr>con_state := 1\<rparr>) s
      else if ch = 10 \<or> ch = 11 \<or> ch = 12 then lf s
      else if ch = 13 then upd_cons cr s
      else if is_cc VERASE ch (tty_table s 0) then upd_cons con_del s
      else if ch = 8 then
        upd_cons (\<lambda>c. if con_x c \<noteq> 0 then c\<lparr>con_x := con_x c - 1, con_pos := con_pos c - 2\<rparr> else c) s
      else if ch = 9 then con_tab s
      else if ch = 7 then sysbeep s
      else s)"

text \<open>After ESC. The last two tests look at the column where the character is meant.\<close>

definition con_escape :: "(kst \<Rightarrow> kst kres) \<Rightarrow> u8 \<Rightarrow> kst \<Rightarrow> kst kres" where
  "con_escape ctc ch s =
     (let s = upd_cons (\<lambda>c. c\<lparr>con_state := 0\<rparr>) s in
      if ch = 91 then Inr (upd_cons (\<lambda>c. c\<lparr>con_state := 2\<rparr>) s)
      else if ch = 69 then Inr (upd_cons (\<lambda>c. gotoxy 0 (con_y c + 1) c) s)
      else if ch = 77 then Inr (upd_cons ri s)
      else if ch = 68 then Inr (lf s)
      else if ch = 90 then respond ctc s
      else if con_x (cons s) = 55 then Inr (upd_cons save_cur s)
      else if con_x (cons s) = 56 then Inr (upd_cons restore_cur s)
      else Inr s)"

definition set_par :: "nat \<Rightarrow> u32 \<Rightarrow> console \<Rightarrow> console" where
  "set_par i v c = c\<lparr>con_par := (con_par c)(i := v)\<rparr>"

definition at_least_1 :: "nat \<Rightarrow> console \<Rightarrow> console" where
  "at_least_1 i c = (if con_par c i = 0 then set_par i 1 c else c)"

definition from_0 :: "nat \<Rightarrow> console \<Rightarrow> console" where
  "from_0 i c = (if con_par c i \<noteq> 0 then set_par i (con_par c i - 1) c else c)"

text \<open>The scrolling region: \<open>ESC [ top ; bottom r\<close>.\<close>

definition set_region :: "console \<Rightarrow> console" where
  "set_region c =
     (let c = from_0 0 c; c = (if con_par c 1 = 0 then set_par 1 (video_num_lines c) c else c)
      in if con_par c 0 < con_par c 1 \<and> con_par c 1 \<le> video_num_lines c
         then c\<lparr>con_top := con_par c 0, con_bottom := con_par c 1\<rparr> else c)"

definition con_final :: "u8 \<Rightarrow> kst \<Rightarrow> kst" where
  "con_final ch s =
     (let s = upd_cons (\<lambda>c. c\<lparr>con_state := 0\<rparr>) s; p = con_par (cons s) 0 in
      if ch = 71 \<or> ch = 96 then upd_cons (\<lambda>c. let c = from_0 0 c in gotoxy (con_par c 0) (con_y c) c) s
      else if ch = 65 then upd_cons (\<lambda>c. let c = at_least_1 0 c in gotoxy (con_x c) (con_y c - con_par c 0) c) s
      else if ch = 66 \<or> ch = 101 then
        upd_cons (\<lambda>c. let c = at_least_1 0 c in gotoxy (con_x c) (con_y c + con_par c 0) c) s
      else if ch = 67 \<or> ch = 97 then
        upd_cons (\<lambda>c. let c = at_least_1 0 c in gotoxy (con_x c + con_par c 0) (con_y c) c) s
      else if ch = 68 then upd_cons (\<lambda>c. let c = at_least_1 0 c in gotoxy (con_x c - con_par c 0) (con_y c) c) s
      else if ch = 69 then upd_cons (\<lambda>c. let c = at_least_1 0 c in gotoxy 0 (con_y c + con_par c 0) c) s
      else if ch = 70 then upd_cons (\<lambda>c. let c = at_least_1 0 c in gotoxy 0 (con_y c - con_par c 0) c) s
      else if ch = 100 then upd_cons (\<lambda>c. let c = from_0 0 c in gotoxy (con_x c) (con_par c 0) c) s
      else if ch = 72 \<or> ch = 102 then
        upd_cons (\<lambda>c. let c = from_0 1 (from_0 0 c) in gotoxy (con_par c 1) (con_par c 0) c) s
      else if ch = 74 then upd_cons (csi_J p) s
      else if ch = 75 then upd_cons (csi_K p) s
      else if ch = 76 then upd_cons (csi_L p) s
      else if ch = 77 then csi_M p s
      else if ch = 80 then upd_cons (csi_P p) s
      else if ch = 64 then upd_cons (csi_at p) s
      else if ch = 109 then upd_cons csi_m s
      else if ch = 114 then upd_cons set_region s
      else if ch = 115 then upd_cons save_cur s
      else if ch = 117 then upd_cons restore_cur s
      else s)"

text \<open>The parameters of a sequence; \<open>NPAR\<close> is 16.\<close>

definition NPAR :: nat where "NPAR = 16"

definition con_params :: "u8 \<Rightarrow> kst \<Rightarrow> kst" where
  "con_params ch s =
     (let n = con_npar (cons s) in
      if ch = 59 \<and> n < NPAR - 1 then upd_cons (\<lambda>c. c\<lparr>con_npar := n + 1\<rparr>) s
      else if 48 \<le> ch \<and> ch \<le> 57 then upd_cons (\<lambda>c. set_par n (10 * con_par c n + ucast ch - 48) c) s
      else con_final ch s)"

definition con_bracket :: "u8 \<Rightarrow> kst \<Rightarrow> kst" where
  "con_bracket ch s =
     (let s = upd_cons (\<lambda>c. c\<lparr>con_par := (\<lambda>i. if i < NPAR then 0 else con_par c i), con_npar := 0,
                con_state := 3, con_ques := (ch = 63)\<rparr>) s
      in if ch = 63 then s else con_params ch s)"

definition con_char :: "(kst \<Rightarrow> kst kres) \<Rightarrow> u8 \<Rightarrow> kst \<Rightarrow> kst kres" where
  "con_char ctc ch s =
     (let st = con_state (cons s) in
      if st = 0 then Inr (con_plain ch s)
      else if st = 1 then con_escape ctc ch s
      else if st = 2 then Inr (con_bracket ch s)
      else if st = 3 then Inr (con_params ch s)
      else if st = 4 then Inr (con_final ch s)
      else Inr s)"

primrec con_loop :: "nat \<Rightarrow> (kst \<Rightarrow> kst kres) \<Rightarrow> kst \<Rightarrow> kst kres" where
  "con_loop 0 ctc s = Inr s"
| "con_loop (Suc n) ctc s =
     (let (ch, q) = getch (write_q (tty_table s 0)); s = upd_tty 0 (\<lambda>t. t\<lparr>write_q := q\<rparr>) s
      in bindk (con_char ctc ch s) (con_loop n ctc))"

definition con_write_body :: "(kst \<Rightarrow> kst kres) \<Rightarrow> kst \<Rightarrow> kst kres" where
  "con_write_body ctc s =
     bindk (con_loop (unat (q_chars (write_q (tty_table s 0)))) ctc s) (\<lambda>s. Inr (set_cursor s))"

text \<open>The recursion through \<open>copy_to_cooked\<close>, with a depth for the kernel stack.\<close>

primrec con_write :: "nat \<Rightarrow> kst \<Rightarrow> kst kres" where
  "con_write 0 s = Inl Deep"
| "con_write (Suc d) s = con_write_body (copy_to_cooked (con_write d) 0) s"

section \<open>Initialisation\<close>

text \<open>
  \<open>con_init\<close> with what setup.s left at 0x90000 as arguments: the cursor, the video page, the
  word with the mode and the number of columns, and the EGA information BX. The trap gate of the keyboard
  is \<open>con_gate\<close> of theory Descriptors.
\<close>

definition put_desc :: "u8 list \<Rightarrow> u32 \<Rightarrow> (u32 \<Rightarrow> u8) \<Rightarrow> u32 \<Rightarrow> u8" where
  "put_desc d a m = snd (fold (\<lambda>ch (a, m). (a + 2, m(a := ch))) d (a, m))"

definition con_init :: "u8 \<Rightarrow> u8 \<Rightarrow> u16 \<Rightarrow> u16 \<Rightarrow> u16 \<Rightarrow> kst \<Rightarrow> kst" where
  "con_init orig_x orig_y page mode bx s =
     (let cols = ucast (drop_bit 8 mode); mono = (mode AND 0xff = 7); ega = (bx AND 0xff \<noteq> 0x10);
          start = (if mono then 0xb0000 else 0xb8000);
          (vt, stop, desc) =
            (if mono then (if ega then (0x20, 0xb8000, [69, 71, 65, 109]) else (0x10, 0xb2000, [42, 77, 68, 65]))
             else if ega then (0x21, 0xbc000, [69, 71, 65, 99]) else (0x11, 0xba000, [42, 67, 71, 65]));
          c = (cons s)\<lparr>video_num_columns := cols, video_size_row := cols * 2, video_num_lines := 25,
                video_page := ucast page, video_erase_char := 0x0720, video_mem_start := start,
                video_port_reg := (if mono then 0x3b4 else 0x3d4), video_port_val := (if mono then 0x3b5 else 0x3d5),
                video_type := vt, video_mem_end := stop,
                vram := put_desc desc (start + cols * 2 - 8) (vram (cons s)),
                con_origin := start, con_scr_end := start + 25 * (cols * 2), con_top := 0, con_bottom := 25\<rparr>;
          c = gotoxy (ucast orig_x) (ucast orig_y) c;
          s = outb (inb 0x21 s AND 0xfd) 0x21 (s\<lparr>cons := c\<rparr>); a = inb 0x61 s
      in outb a 0x61 (outb (a OR 0x80) 0x61 s))"

end
