(* ===== verification/Syscalls.thy ===== *)
theory Syscalls imports Traps Hd Path_Calls Namei Sys Console begin

text \<open>
  The way into the kernel and back: include/unistd.h numbers the system calls and gives a user program its
  stubs, include/linux/sys.h holds the table of the functions, and kernel/system_call.s runs them, lets
  another task run when the time slice is used up, and delivers a signal on the way back. The stubs of
  lib/ are at the end.
\<close>

section \<open>The numbers and the table\<close>

text \<open>A constructor stands for the number \<open>__NR_x\<close> and for the function \<open>sys_x\<close>.\<close>

datatype (plugins only:) call =
    NR_setup | NR_exit | NR_fork | NR_read | NR_write | NR_open | NR_close | NR_waitpid | NR_creat | NR_link |
    NR_unlink | NR_execve | NR_chdir | NR_time | NR_mknod | NR_chmod | NR_chown | NR_break | NR_stat | NR_lseek |
    NR_getpid | NR_mount | NR_umount | NR_setuid | NR_getuid | NR_stime | NR_ptrace | NR_alarm | NR_fstat |
    NR_pause | NR_utime | NR_stty | NR_gtty | NR_access | NR_nice | NR_ftime | NR_sync | NR_kill | NR_rename |
    NR_mkdir | NR_rmdir | NR_dup | NR_pipe | NR_times | NR_prof | NR_brk | NR_setgid | NR_getgid | NR_signal |
    NR_geteuid | NR_getegid | NR_acct | NR_phys | NR_lock | NR_ioctl | NR_fcntl | NR_mpx | NR_setpgid | NR_ulimit |
    NR_uname | NR_umask | NR_chroot | NR_ustat | NR_dup2 | NR_getppid | NR_getpgrp | NR_setsid | NR_sigaction |
    NR_sgetmask | NR_ssetmask | NR_setreuid | NR_setregid

primrec nr :: "call \<Rightarrow> nat" where
  "nr NR_setup = 0" | "nr NR_exit = 1" | "nr NR_fork = 2" | "nr NR_read = 3" | "nr NR_write = 4" |
  "nr NR_open = 5" | "nr NR_close = 6" | "nr NR_waitpid = 7" | "nr NR_creat = 8" | "nr NR_link = 9" |
  "nr NR_unlink = 10" | "nr NR_execve = 11" | "nr NR_chdir = 12" | "nr NR_time = 13" | "nr NR_mknod = 14" |
  "nr NR_chmod = 15" | "nr NR_chown = 16" | "nr NR_break = 17" | "nr NR_stat = 18" | "nr NR_lseek = 19" |
  "nr NR_getpid = 20" | "nr NR_mount = 21" | "nr NR_umount = 22" | "nr NR_setuid = 23" | "nr NR_getuid = 24" |
  "nr NR_stime = 25" | "nr NR_ptrace = 26" | "nr NR_alarm = 27" | "nr NR_fstat = 28" | "nr NR_pause = 29" |
  "nr NR_utime = 30" | "nr NR_stty = 31" | "nr NR_gtty = 32" | "nr NR_access = 33" | "nr NR_nice = 34" |
  "nr NR_ftime = 35" | "nr NR_sync = 36" | "nr NR_kill = 37" | "nr NR_rename = 38" | "nr NR_mkdir = 39" |
  "nr NR_rmdir = 40" | "nr NR_dup = 41" | "nr NR_pipe = 42" | "nr NR_times = 43" | "nr NR_prof = 44" |
  "nr NR_brk = 45" | "nr NR_setgid = 46" | "nr NR_getgid = 47" | "nr NR_signal = 48" | "nr NR_geteuid = 49" |
  "nr NR_getegid = 50" | "nr NR_acct = 51" | "nr NR_phys = 52" | "nr NR_lock = 53" | "nr NR_ioctl = 54" |
  "nr NR_fcntl = 55" | "nr NR_mpx = 56" | "nr NR_setpgid = 57" | "nr NR_ulimit = 58" | "nr NR_uname = 59" |
  "nr NR_umask = 60" | "nr NR_chroot = 61" | "nr NR_ustat = 62" | "nr NR_dup2 = 63" | "nr NR_getppid = 64" |
  "nr NR_getpgrp = 65" | "nr NR_setsid = 66" | "nr NR_sigaction = 67" | "nr NR_sgetmask = 68" |
  "nr NR_ssetmask = 69" | "nr NR_setreuid = 70" | "nr NR_setregid = 71"

definition sys_call_table :: "call list" where
  "sys_call_table =
    [NR_setup, NR_exit, NR_fork, NR_read, NR_write, NR_open, NR_close, NR_waitpid, NR_creat, NR_link, NR_unlink,
     NR_execve, NR_chdir, NR_time, NR_mknod, NR_chmod, NR_chown, NR_break, NR_stat, NR_lseek, NR_getpid, NR_mount,
     NR_umount, NR_setuid, NR_getuid, NR_stime, NR_ptrace, NR_alarm, NR_fstat, NR_pause, NR_utime, NR_stty,
     NR_gtty, NR_access, NR_nice, NR_ftime, NR_sync, NR_kill, NR_rename, NR_mkdir, NR_rmdir, NR_dup, NR_pipe,
     NR_times, NR_prof, NR_brk, NR_setgid, NR_getgid, NR_signal, NR_geteuid, NR_getegid, NR_acct, NR_phys, NR_lock,
     NR_ioctl, NR_fcntl, NR_mpx, NR_setpgid, NR_ulimit, NR_uname, NR_umask, NR_chroot, NR_ustat, NR_dup2,
     NR_getppid, NR_getpgrp, NR_setsid, NR_sigaction, NR_sgetmask, NR_ssetmask, NR_setreuid, NR_setregid]"

definition nr_system_calls :: nat where "nr_system_calls = 72"

section \<open>The functions\<close>

text \<open>
  What the calls use from outside the repository and from memory nobody has written: the hard disk
  controller, the table the BIOS left for \<open>setup\<close>, what page faults bring into the memory of a
  new program, and what is on the kernel stack where a structure is copied out with its padding. \<open>m_depth\<close> bounds the nesting of
  the console's output routine.
\<close>

record machine =
  m_dev :: device
  m_bios :: block
  m_image :: "u32 \<Rightarrow> u8"
  m_stack :: "nat \<Rightarrow> u8"
  m_depth :: nat

definition con :: "machine \<Rightarrow> kst \<Rightarrow> kst kres" where "con m = con_write (m_depth m)"

text \<open>
  A call gives back \<open>eax\<close> and the registers on the kernel stack, or the task has ended. The arguments are
  \<open>ebx\<close>, \<open>ecx\<close> and \<open>edx\<close>; a function with fewer parameters ignores the rest.
\<close>

datatype sysret = Back u32 regs blk | Ended blk

definition call3 :: "(u32 \<Rightarrow> u32 \<Rightarrow> u32 \<Rightarrow> kst \<Rightarrow> (u32 \<times> kst) kres) \<Rightarrow> regs \<Rightarrow> blk \<Rightarrow> sysret kres" where
  "call3 f g s = bindk (f (g_ebx g) (g_ecx g) (g_edx g) (bk s)) (\<lambda>(r, k). Inr (Back r g (s\<lparr>bk := k\<rparr>)))"

abbreviation "call2 f \<equiv> call3 (\<lambda>a b c. f a b)"
abbreviation "call1 f \<equiv> call3 (\<lambda>a b c. f a)"
abbreviation "call0 f \<equiv> call3 (\<lambda>a b c. f)"
abbreviation "total3 f \<equiv> call3 (\<lambda>a b c k. Inr (f a b c k))"
abbreviation "total2 f \<equiv> call3 (\<lambda>a b c k. Inr (f a b k))"
abbreviation "total1 f \<equiv> call3 (\<lambda>a b c k. Inr (f a k))"
abbreviation "total0 f \<equiv> call3 (\<lambda>a b c k. Inr (f k))"

definition setup_call :: "machine \<Rightarrow> regs \<Rightarrow> blk \<Rightarrow> sysret kres" where
  "setup_call m g s = bindk (sys_setup (m_dev m) (m_bios m) s) (\<lambda>(r, s). Inr (Back r g s))"

definition exit_call :: "regs \<Rightarrow> blk \<Rightarrow> sysret kres" where
  "exit_call g s = bindk (sys_exit (g_ebx g) (bk s)) (\<lambda>k. Inr (Ended (s\<lparr>bk := k\<rparr>)))"

definition fork_call :: "regs \<Rightarrow> blk \<Rightarrow> sysret kres" where
  "fork_call g s = bindk (sys_fork g (bk s)) (\<lambda>(r, k). Inr (Back r g (s\<lparr>bk := k\<rparr>)))"

text \<open>\<open>sys_execve\<close> gives \<open>do_execve\<close> the address of the saved \<open>eip\<close>; it replaces \<open>eip\<close> and \<open>esp\<close>.\<close>

definition execve_call :: "machine \<Rightarrow> regs \<Rightarrow> blk \<Rightarrow> sysret kres" where
  "execve_call m g s =
     bindk (do_execve (m_image m) (g_cs g) (g_ebx g) (g_ecx g) (g_edx g) (bk s)) (\<lambda>(r, new, k).
       Inr (Back r (case new of None \<Rightarrow> g | Some (eip, esp) \<Rightarrow> g\<lparr>g_eip := eip, g_esp := esp\<rparr>) (s\<lparr>bk := k\<rparr>)))"

primrec run_call :: "machine \<Rightarrow> call \<Rightarrow> regs \<Rightarrow> blk \<Rightarrow> sysret kres" where
  "run_call m NR_setup g s = setup_call m g s" |
  "run_call m NR_exit g s = exit_call g s" |
  "run_call m NR_fork g s = fork_call g s" |
  "run_call m NR_read g s = call3 (sys_read (con m)) g s" |
  "run_call m NR_write g s = call3 (sys_write (con m)) g s" |
  "run_call m NR_open g s = call3 sys_open g s" |
  "run_call m NR_close g s = call1 sys_close g s" |
  "run_call m NR_waitpid g s = call3 sys_waitpid g s" |
  "run_call m NR_creat g s = call2 sys_creat g s" |
  "run_call m NR_link g s = call2 sys_link g s" |
  "run_call m NR_unlink g s = call1 sys_unlink g s" |
  "run_call m NR_execve g s = execve_call m g s" |
  "run_call m NR_chdir g s = call1 sys_chdir g s" |
  "run_call m NR_time g s = call1 sys_time g s" |
  "run_call m NR_mknod g s = call3 sys_mknod g s" |
  "run_call m NR_chmod g s = call2 sys_chmod g s" |
  "run_call m NR_chown g s = call3 sys_chown g s" |
  "run_call m NR_break g s = total0 not_implemented g s" |
  "run_call m NR_stat g s = call2 (sys_stat (m_stack m)) g s" |
  "run_call m NR_lseek g s = call3 sys_lseek g s" |
  "run_call m NR_getpid g s = total0 sys_getpid g s" |
  "run_call m NR_mount g s = call3 sys_mount g s" |
  "run_call m NR_umount g s = call1 sys_umount g s" |
  "run_call m NR_setuid g s = total1 sys_setuid g s" |
  "run_call m NR_getuid g s = total0 sys_getuid g s" |
  "run_call m NR_stime g s = total1 sys_stime g s" |
  "run_call m NR_ptrace g s = total0 not_implemented g s" |
  "run_call m NR_alarm g s = total1 sys_alarm g s" |
  "run_call m NR_fstat g s = call2 (sys_fstat (m_stack m)) g s" |
  "run_call m NR_pause g s = call0 sys_pause g s" |
  "run_call m NR_utime g s = call2 sys_utime g s" |
  "run_call m NR_stty g s = total0 not_implemented g s" |
  "run_call m NR_gtty g s = total0 not_implemented g s" |
  "run_call m NR_access g s = call2 sys_access g s" |
  "run_call m NR_nice g s = total1 sys_nice g s" |
  "run_call m NR_ftime g s = total0 not_implemented g s" |
  "run_call m NR_sync g s = call0 sys_sync g s" |
  "run_call m NR_kill g s = total2 sys_kill g s" |
  "run_call m NR_rename g s = total0 not_implemented g s" |
  "run_call m NR_mkdir g s = call2 sys_mkdir g s" |
  "run_call m NR_rmdir g s = call1 sys_rmdir g s" |
  "run_call m NR_dup g s = call1 sys_dup g s" |
  "run_call m NR_pipe g s = call1 sys_pipe g s" |
  "run_call m NR_times g s = call1 sys_times g s" |
  "run_call m NR_prof g s = total0 not_implemented g s" |
  "run_call m NR_brk g s = total1 sys_brk g s" |
  "run_call m NR_setgid g s = total1 sys_setgid g s" |
  "run_call m NR_getgid g s = total0 sys_getgid g s" |
  "run_call m NR_signal g s = total3 sys_signal g s" |
  "run_call m NR_geteuid g s = total0 sys_geteuid g s" |
  "run_call m NR_getegid g s = total0 sys_getegid g s" |
  "run_call m NR_acct g s = total0 not_implemented g s" |
  "run_call m NR_phys g s = total0 not_implemented g s" |
  "run_call m NR_lock g s = total0 not_implemented g s" |
  "run_call m NR_ioctl g s = call3 (sys_ioctl (m_stack m 0)) g s" |
  "run_call m NR_fcntl g s = call3 sys_fcntl g s" |
  "run_call m NR_mpx g s = total0 not_implemented g s" |
  "run_call m NR_setpgid g s = total2 sys_setpgid g s" |
  "run_call m NR_ulimit g s = total0 not_implemented g s" |
  "run_call m NR_uname g s = call1 sys_uname g s" |
  "run_call m NR_umask g s = total1 sys_umask g s" |
  "run_call m NR_chroot g s = call1 sys_chroot g s" |
  "run_call m NR_ustat g s = call2 sys_ustat g s" |
  "run_call m NR_dup2 g s = call2 sys_dup2 g s" |
  "run_call m NR_getppid g s = total0 sys_getppid g s" |
  "run_call m NR_getpgrp g s = total0 sys_getpgrp g s" |
  "run_call m NR_setsid g s = total0 sys_setsid g s" |
  "run_call m NR_sigaction g s = call3 sys_sigaction g s" |
  "run_call m NR_sgetmask g s = total0 sys_sgetmask g s" |
  "run_call m NR_ssetmask g s = total1 sys_ssetmask g s" |
  "run_call m NR_setreuid g s = total2 sys_setreuid g s" |
  "run_call m NR_setregid g s = total2 sys_setregid g s"

section \<open>The way back\<close>

text \<open>
  \<open>ret_from_sys_call\<close>: only a task other than task 0 that goes back to user mode gets a signal, the
  one with the lowest number of those pending and not blocked.
\<close>

definition ret_from_sys_call :: "u32 \<Rightarrow> regs \<Rightarrow> kst \<Rightarrow> (regs \<times> kst) kres" where
  "ret_from_sys_call eax g s =
     (if current s = 0 \<or> g_cs g AND 0xffff \<noteq> 0x0f \<or> g_ss g AND 0xffff \<noteq> 0x17 then Inr (g, s)
      else case bsf (NOT (t_blocked (cur s)) AND t_signal (cur s)) of
          None \<Rightarrow> Inr (g, s)
        | Some k \<Rightarrow>
            bindk (do_signal (k + 1) eax (g_ecx g) (g_edx g) (g_eip g) (g_eflags g) (g_esp g)
                     (upd_cur (\<lambda>t. t\<lparr>t_signal := unset_bit k (t_signal t)\<rparr>) s))
              (\<lambda>(eip, esp, s). Inr (g\<lparr>g_eip := eip, g_esp := esp\<rparr>, s)))"

definition system_call :: "machine \<Rightarrow> u32 \<Rightarrow> regs \<Rightarrow> blk \<Rightarrow> sysret kres" where
  "system_call m eax g s =
     (if of_nat (nr_system_calls - 1) < eax then Inr (Back (- 1) g s)
      else bindk (run_call m (sys_call_table ! unat eax) g s) (\<lambda>r. case r of
          Ended s \<Rightarrow> Inr (Ended s)
        | Back v g s \<Rightarrow>
            bindk (if t_state (cur (bk s)) \<noteq> RUNNING \<or> t_counter (cur (bk s)) = 0 then yield_cpu (bk s) else Inr (bk s))
              (\<lambda>k. bindk (ret_from_sys_call v g k) (\<lambda>(g, k). Inr (Back v g (s\<lparr>bk := k\<rparr>))))))"

text \<open>
  The clock interrupt, with the registers of the task it interrupts. When another task is chosen the
  result has no registers: that task goes on where it was left.
\<close>

definition timer_interrupt ::
  "nat \<Rightarrow> (nat \<Rightarrow> timers \<Rightarrow> timers) \<Rightarrow> u32 \<Rightarrow> regs \<Rightarrow> timers \<times> kst \<Rightarrow> (timers \<times> regs option \<times> kst) kres" where
  "timer_interrupt n call eax g ts =
     (let (t, s) = ts in
      bindk (do_timer n call (g_cs g AND 3 \<noteq> 0) (t, outb 0x20 0x20 (s\<lparr>jiffies := jiffies s + 1\<rparr>))) (\<lambda>(t, k).
        if current k \<noteq> current s then Inr (t, None, k)
        else bindk (ret_from_sys_call eax g k) (\<lambda>(g, k). Inr (t, Some g, k))))"

section \<open>The stubs of a user program\<close>

record prog =
  p_regs :: regs
  errno :: u32
  p_sys :: blk

text \<open>
  A stub gives its value to the program; the program goes on elsewhere when a new program or a signal
  handler has been put in its way, and it does not go on when the task has ended.
\<close>

datatype user = Value u32 prog | Jump u32 prog | Over blk

definition set_errno :: "u32 \<Rightarrow> prog \<Rightarrow> user" where
  "set_errno res p = (if 0 \<le>s res then Value res p else Value (- 1) (p\<lparr>errno := - res\<rparr>))"

definition int80 :: "machine \<Rightarrow> call \<Rightarrow> regs \<Rightarrow> prog \<Rightarrow> user kres" where
  "int80 m c g p =
     bindk (system_call m (of_nat (nr c)) g (p_sys p)) (\<lambda>r. Inr (case r of
         Ended s \<Rightarrow> Over s
       | Back res g' s \<Rightarrow>
           if g_eip g' = g_eip g then set_errno res (p\<lparr>p_regs := g', p_sys := s\<rparr>)
           else Jump res (p\<lparr>p_regs := g', p_sys := s\<rparr>)))"

definition syscall0 :: "machine \<Rightarrow> call \<Rightarrow> prog \<Rightarrow> user kres" where
  "syscall0 m c p = int80 m c (p_regs p) p"

definition syscall1 :: "machine \<Rightarrow> call \<Rightarrow> u32 \<Rightarrow> prog \<Rightarrow> user kres" where
  "syscall1 m c a p = int80 m c ((p_regs p)\<lparr>g_ebx := a\<rparr>) p"

definition syscall2 :: "machine \<Rightarrow> call \<Rightarrow> u32 \<Rightarrow> u32 \<Rightarrow> prog \<Rightarrow> user kres" where
  "syscall2 m c a b p = int80 m c ((p_regs p)\<lparr>g_ebx := a, g_ecx := b\<rparr>) p"

definition syscall3 :: "machine \<Rightarrow> call \<Rightarrow> u32 \<Rightarrow> u32 \<Rightarrow> u32 \<Rightarrow> prog \<Rightarrow> user kres" where
  "syscall3 m c a b d p = int80 m c ((p_regs p)\<lparr>g_ebx := a, g_ecx := b, g_edx := d\<rparr>) p"

text \<open>The functions of lib/ and those init/main.c makes for itself.\<close>

definition lib_exit :: "machine \<Rightarrow> u32 \<Rightarrow> prog \<Rightarrow> user kres" where "lib_exit m = syscall1 m NR_exit"
definition lib_close :: "machine \<Rightarrow> u32 \<Rightarrow> prog \<Rightarrow> user kres" where "lib_close m = syscall1 m NR_close"
definition lib_dup :: "machine \<Rightarrow> u32 \<Rightarrow> prog \<Rightarrow> user kres" where "lib_dup m = syscall1 m NR_dup"
definition lib_execve :: "machine \<Rightarrow> u32 \<Rightarrow> u32 \<Rightarrow> u32 \<Rightarrow> prog \<Rightarrow> user kres" where "lib_execve m = syscall3 m NR_execve"
definition lib_open :: "machine \<Rightarrow> u32 \<Rightarrow> u32 \<Rightarrow> u32 \<Rightarrow> prog \<Rightarrow> user kres" where "lib_open m = syscall3 m NR_open"
definition lib_setsid :: "machine \<Rightarrow> prog \<Rightarrow> user kres" where "lib_setsid m = syscall0 m NR_setsid"
definition lib_waitpid :: "machine \<Rightarrow> u32 \<Rightarrow> u32 \<Rightarrow> u32 \<Rightarrow> prog \<Rightarrow> user kres" where "lib_waitpid m = syscall3 m NR_waitpid"
definition lib_wait :: "machine \<Rightarrow> u32 \<Rightarrow> prog \<Rightarrow> user kres" where "lib_wait m wait_stat = lib_waitpid m (- 1) wait_stat 0"
definition lib_write :: "machine \<Rightarrow> u32 \<Rightarrow> u32 \<Rightarrow> u32 \<Rightarrow> prog \<Rightarrow> user kres" where "lib_write m = syscall3 m NR_write"
definition lib_fork :: "machine \<Rightarrow> prog \<Rightarrow> user kres" where "lib_fork m = syscall0 m NR_fork"
definition lib_pause :: "machine \<Rightarrow> prog \<Rightarrow> user kres" where "lib_pause m = syscall0 m NR_pause"
definition lib_setup :: "machine \<Rightarrow> u32 \<Rightarrow> prog \<Rightarrow> user kres" where "lib_setup m = syscall1 m NR_setup"
definition lib_sync :: "machine \<Rightarrow> prog \<Rightarrow> user kres" where "lib_sync m = syscall0 m NR_sync"

end
