(* ===== verification/Floppy.thy ===== *)
theory Floppy imports Hd begin

text \<open>
  kernel/blk_drv/floppy.c: the driver of the floppy drives, with include/linux/fdreg.h. Its functions
  run from \<open>add_request\<close>, from the interrupts of the controller and from the kernel timers, each
  starting what the next one completes.

  The controller is the argument \<open>d\<close>, as for the hard disks; \<open>m\<close> gives the physical addresses of
  the buffers and of \<open>tmp_floppy_area\<close>. \<open>printk\<close> is left out. A null \<open>CURRENT\<close> is followed only
  where the code reads its error count, at the physical address 8.
\<close>

section \<open>Registers and commands\<close>

definition FD_STATUS :: u32 where "FD_STATUS = 0x3f4"
definition FD_DATA :: u32 where "FD_DATA = 0x3f5"
definition FD_DIR :: u32 where "FD_DIR = 0x3f7"
definition FD_DCR :: u32 where "FD_DCR = 0x3f7"
definition STATUS_BUSY :: u8 where "STATUS_BUSY = 0x10"
definition STATUS_DIR :: u8 where "STATUS_DIR = 0x40"
definition STATUS_READY :: u8 where "STATUS_READY = 0x80"
definition FD_RECALIBRATE :: u8 where "FD_RECALIBRATE = 0x07"
definition FD_SEEK :: u8 where "FD_SEEK = 0x0F"
definition FD_READ :: u8 where "FD_READ = 0xE6"
definition FD_WRITE :: u8 where "FD_WRITE = 0xC5"
definition FD_SENSEI :: u8 where "FD_SENSEI = 0x08"
definition FD_SPECIFY :: u8 where "FD_SPECIFY = 0x03"
definition DMA_READ :: u8 where "DMA_READ = 0x46"
definition DMA_WRITE :: u8 where "DMA_WRITE = 0x4A"

definition FD_MAX_ERRORS :: u32 where "FD_MAX_ERRORS = 8"
definition MAX_REPLIES :: nat where "MAX_REPLIES = 7"

section \<open>Types of floppies\<close>

record floppy_struct =
  fl_size :: u32
  fl_sect :: u32
  fl_head :: u32
  fl_track :: u32
  fl_stretch :: u32
  fl_gap :: u8
  fl_rate :: u8
  fl_spec1 :: u8

definition fl :: "u32 \<Rightarrow> u32 \<Rightarrow> u32 \<Rightarrow> u32 \<Rightarrow> u32 \<Rightarrow> u8 \<Rightarrow> u8 \<Rightarrow> u8 \<Rightarrow> floppy_struct" where
  "fl a b c e f g h i = \<lparr>fl_size = a, fl_sect = b, fl_head = c, fl_track = e, fl_stretch = f, fl_gap = g, fl_rate = h, fl_spec1 = i\<rparr>"

definition floppy_type :: "floppy_struct list" where
  "floppy_type =
    [fl    0  0 0  0 0 0x00 0x00 0x00,
     fl  720  9 2 40 0 0x2A 0x02 0xDF,
     fl 2400 15 2 80 0 0x1B 0x00 0xDF,
     fl  720  9 2 40 1 0x2A 0x02 0xDF,
     fl 1440  9 2 80 0 0x2A 0x02 0xDF,
     fl  720  9 2 40 1 0x23 0x01 0xDF,
     fl 1440  9 2 80 0 0x23 0x01 0xDF,
     fl 2880 18 2 80 0 0x1B 0x00 0xCF]"

text \<open>The entry the variable \<open>floppy\<close> points to.\<close>

definition floppy :: "blk \<Rightarrow> floppy_struct" where
  "floppy s = floppy_type ! fd_floppy (fdd s)"

section \<open>State\<close>

record fd_place =
  buffer_addr :: "nat \<Rightarrow> u32"
  tmp_addr :: u32

definition upd_fd :: "(fd_state \<Rightarrow> fd_state) \<Rightarrow> blk \<Rightarrow> blk" where
  "upd_fd f s = s\<lparr>fdd := f (fdd s)\<rparr>"

definition upd_motor :: "(timers \<Rightarrow> timers) \<Rightarrow> blk \<Rightarrow> blk" where
  "upd_motor f = upd_fd (\<lambda>v. v\<lparr>fd_timers := f (fd_timers v)\<rparr>)"

abbreviation motor :: "blk \<Rightarrow> timers" where "motor s \<equiv> fd_timers (fdd s)"

abbreviation ST :: "nat \<Rightarrow> blk \<Rightarrow> u8" where "ST n s \<equiv> reply_buffer (fdd s) n"

text \<open>The buffer of the current request: its buffer head, and where it is in memory.\<close>

definition current_buffer :: "blk \<Rightarrow> (nat \<times> nat) kres" where
  "current_buffer s =
     (case current_request s 2 of
        None \<Rightarrow> Inl (Wild ''CURRENT'')
      | Some c \<Rightarrow> (case r_bh (request s c) of None \<Rightarrow> Inl (Wild ''buffer'') | Some b \<Rightarrow> Inr (b, r_buffer (request s c))))"

definition place_of :: "fd_place \<Rightarrow> nat \<times> nat \<Rightarrow> u32" where
  "place_of m b = buffer_addr m (fst b) + of_nat (snd b)"

section \<open>Motors and the selected drive\<close>

definition floppy_deselect :: "blk \<Rightarrow> blk" where
  "floppy_deselect s =
     (let w = wait_on_floppy_select (fdd s);
          s = upd_motor (\<lambda>t. t\<lparr>fd_selected := False\<rparr>) s
      in upd_fd (\<lambda>v. v\<lparr>wait_on_floppy_select := None\<rparr>) (s\<lparr>bk := make_running w (bk s)\<rparr>))"

definition fd_ticks :: "nat \<Rightarrow> blk \<Rightarrow> (u32 \<times> blk) kres" where
  "fd_ticks nr s =
     bindk (ticks_to_floppy_on nr (motor s)) (\<lambda>(n, out, t).
       let s = upd_motor (\<lambda>_. t) s
       in Inr (n, case out of None \<Rightarrow> s | Some v \<Rightarrow> io_out v FD_DOR s))"

definition floppy_on :: "nat \<Rightarrow> blk \<Rightarrow> blk kres" where
  "floppy_on nr s = bindk (fd_ticks nr s) (\<lambda>(n, s). if n \<noteq> 0 then sleep_on (bk s) else Inr s)"

text \<open>
  \<open>floppy_change\<close>: True when the disk was changed. The loop goes back only for a drive that is not selected
  although no drive is, which \<open>floppy_on\<close> excludes.
\<close>

primrec floppy_change_loop :: "nat \<Rightarrow> device \<Rightarrow> nat \<Rightarrow> blk \<Rightarrow> (bool \<times> blk) kres" where
  "floppy_change_loop 0 d nr s = Inl Hang"
| "floppy_change_loop (Suc n) d nr s =
     bindk (floppy_on nr s) (\<lambda>s.
       let other = unat (current_DOR (motor s) AND 3) \<noteq> nr
       in if other \<and> fd_selected (motor s) then sleep_on (bk s)
          else if other then floppy_change_loop n d nr s
          else
            let (v, s) = io_in d FD_DIR s
            in Inr (v AND 0x80 \<noteq> 0, upd_motor (floppy_off nr) s))"

definition floppy_change :: "device \<Rightarrow> nat \<Rightarrow> blk \<Rightarrow> (bool \<times> blk) kres" where
  "floppy_change = floppy_change_loop 1"

section \<open>Talking to the controllers\<close>

definition set_data :: "nat \<Rightarrow> nat \<Rightarrow> block \<Rightarrow> blk \<Rightarrow> blk" where
  "set_data b k f = set_bh b (\<lambda>h. h\<lparr>b_data := (\<lambda>i. if k \<le> i \<and> i < k + 1024 then f (i - k) else b_data h i)\<rparr>)"

definition buffer_to_tmp :: "nat \<times> nat \<Rightarrow> blk \<Rightarrow> blk" where
  "buffer_to_tmp b s =
     upd_fd (\<lambda>v. v\<lparr>tmp_floppy_area := (\<lambda>i. if i < 1024 then b_data (buffers (bk s) (fst b)) (snd b + i)
                                                       else tmp_floppy_area v i)\<rparr>) s"

definition setup_DMA :: "fd_place \<Rightarrow> blk \<Rightarrow> blk kres" where
  "setup_DMA m s =
     bindk (current_buffer s) (\<lambda>b.
       let addr = place_of m b;
           high = 0x100000 \<le>s addr;
           s = if high \<and> fd_command (fdd s) = FD_WRITE then buffer_to_tmp b s else s;
           addr = if high then tmp_addr m else addr;
           mode = if fd_command (fdd s) = FD_READ then DMA_READ else DMA_WRITE;
           s = io_out (4 OR 2) 10 s;
           s = io_out mode 12 s;
           s = io_out mode 11 s;
           s = io_out (ucast addr) 4 s;
           s = io_out (ucast (signed_drop_bit 8 addr)) 4 s;
           s = io_out (ucast (signed_drop_bit 16 addr)) 0x81 s;
           s = io_out 0xff 5 s;
           s = io_out 3 5 s
       in Inr (io_out (0 OR 2) 10 s))"

primrec send_loop :: "nat \<Rightarrow> device \<Rightarrow> u8 \<Rightarrow> blk \<Rightarrow> blk" where
  "send_loop 0 d byte s = upd_fd (\<lambda>v. v\<lparr>fd_reset := True\<rparr>) s"
| "send_loop (Suc n) d byte s =
     (let (v, s) = io_in d FD_STATUS s
      in if v AND (STATUS_READY OR STATUS_DIR) = STATUS_READY then io_out byte FD_DATA s else send_loop n d byte s)"

definition output_byte :: "device \<Rightarrow> u8 \<Rightarrow> blk \<Rightarrow> blk" where
  "output_byte d byte s = (if fd_reset (fdd s) then s else send_loop 10000 d byte s)"

definition output_bytes :: "device \<Rightarrow> u8 list \<Rightarrow> blk \<Rightarrow> blk" where
  "output_bytes d bs s = fold (output_byte d) bs s"

text \<open>The result \<open>None\<close> is -1.\<close>

primrec reply_loop :: "nat \<Rightarrow> device \<Rightarrow> nat \<Rightarrow> blk \<Rightarrow> nat option \<times> blk" where
  "reply_loop 0 d i s = (None, upd_fd (\<lambda>v. v\<lparr>fd_reset := True\<rparr>) s)"
| "reply_loop (Suc n) d i s =
     (let (v, s) = io_in d FD_STATUS s; status = v AND (STATUS_DIR OR STATUS_READY OR STATUS_BUSY)
      in if status = STATUS_READY then (Some i, s)
         else if status = STATUS_DIR OR STATUS_READY OR STATUS_BUSY then
           if MAX_REPLIES \<le> i then (None, upd_fd (\<lambda>v. v\<lparr>fd_reset := True\<rparr>) s)
           else
             let (v, s) = io_in d FD_DATA s
             in reply_loop n d (i + 1) (upd_fd (\<lambda>f. f\<lparr>reply_buffer := (reply_buffer f)(i := v)\<rparr>) s)
         else reply_loop n d i s)"

definition fd_result :: "device \<Rightarrow> blk \<Rightarrow> nat option \<times> blk" where
  "fd_result d s = (if fd_reset (fdd s) then (None, s) else reply_loop 10000 d 0 s)"

section \<open>Errors\<close>

definition fd_errors :: "blk \<Rightarrow> u32" where
  "fd_errors s = (case current_request s 2 of None \<Rightarrow> pmem (mem (bk s)) 8 | Some c \<Rightarrow> r_errors (request s c))"

definition bad_flp_intr :: "blk \<Rightarrow> blk kres" where
  "bad_flp_intr s =
     (case current_request s 2 of
        None \<Rightarrow> Inl (Wild ''CURRENT'')
      | Some c \<Rightarrow>
          let s = upd_req c (\<lambda>r. r\<lparr>r_errors := r_errors r + 1\<rparr>) s
          in bindk (if FD_MAX_ERRORS <s r_errors (request s c) then end_request 2 False (floppy_deselect s) else Inr s) (\<lambda>s.
               Inr (if 4 <s fd_errors s then upd_fd (\<lambda>v. v\<lparr>fd_reset := True\<rparr>) s
                    else upd_fd (\<lambda>v. v\<lparr>fd_recalibrate := True\<rparr>) s)))"

section \<open>Commands\<close>

text \<open>
  The parameter \<open>redo\<close> is \<open>do_fd_request\<close>, which every function below calls when it finds that the
  controller has to be reset.
\<close>

definition retry :: "(blk \<Rightarrow> blk kres) \<Rightarrow> blk \<Rightarrow> blk kres" where
  "retry redo s = (if fd_reset (fdd s) then redo s else Inr s)"

definition head_drive :: "blk \<Rightarrow> u8" where
  "head_drive s = push_bit 2 (fd_head (fdd s)) OR current_drive (fdd s)"

definition will_interrupt :: "fd_intr \<Rightarrow> blk \<Rightarrow> blk" where
  "will_interrupt h = upd_fd (\<lambda>v. v\<lparr>do_floppy := Some h\<rparr>)"

definition setup_rw_floppy :: "device \<Rightarrow> fd_place \<Rightarrow> (blk \<Rightarrow> blk kres) \<Rightarrow> blk \<Rightarrow> blk kres" where
  "setup_rw_floppy d m redo s =
     bindk (setup_DMA m s) (\<lambda>s.
       let s = will_interrupt rw_interrupt s; v = fdd s
       in retry redo (output_bytes d [fd_command v, head_drive s, fd_track v, fd_head v, fd_sector v, 2,
            ucast (fl_sect (floppy s)), fl_gap (floppy s), 0xFF] s))"

definition transfer :: "device \<Rightarrow> fd_place \<Rightarrow> (blk \<Rightarrow> blk kres) \<Rightarrow> blk \<Rightarrow> blk kres" where
  "transfer d m redo s =
     (let f = floppy s;
          s = (if cur_spec1 (fdd s) \<noteq> ucast (fl_spec1 f)
               then output_bytes d [FD_SPECIFY, fl_spec1 f, 6] (upd_fd (\<lambda>v. v\<lparr>cur_spec1 := ucast (fl_spec1 f)\<rparr>) s) else s);
          s = (if cur_rate (fdd s) \<noteq> ucast (fl_rate f)
               then io_out (fl_rate f) FD_DCR (upd_fd (\<lambda>v. v\<lparr>cur_rate := ucast (fl_rate f)\<rparr>) s) else s)
      in if fd_reset (fdd s) then redo s
         else if \<not> fd_seek (fdd s) then setup_rw_floppy d m redo s
         else
           let s = will_interrupt seek_interrupt s
           in retry redo
                (if seek_track (fdd s) \<noteq> 0 then output_bytes d [FD_SEEK, head_drive s, seek_track (fdd s)] s
                 else output_bytes d [FD_RECALIBRATE, head_drive s] s))"

definition recalibrate_floppy :: "device \<Rightarrow> (blk \<Rightarrow> blk kres) \<Rightarrow> blk \<Rightarrow> blk kres" where
  "recalibrate_floppy d redo s =
     (let s = will_interrupt recal_interrupt (upd_fd (\<lambda>v. v\<lparr>fd_recalibrate := False, current_track := 0\<rparr>) s)
      in retry redo (output_bytes d [FD_RECALIBRATE, head_drive s] s))"

definition reset_floppy :: "blk \<Rightarrow> blk" where
  "reset_floppy s =
     (let s = upd_fd (\<lambda>v. v\<lparr>fd_reset := False, cur_spec1 := - 1, cur_rate := - 1, fd_recalibrate := True\<rparr>) s;
          s = will_interrupt reset_interrupt s;
          s = io_out (current_DOR (motor s) AND NOT 0x04) FD_DOR s
      in io_out (current_DOR (motor s)) FD_DOR s)"

section \<open>Timers\<close>

text \<open>The numbers of the functions that wait in the timer list.\<close>

definition floppy_on_fn :: nat where "floppy_on_fn = 1"
definition transfer_fn :: nat where "transfer_fn = 2"

definition fd_add_timer :: "u32 \<Rightarrow> nat \<Rightarrow> blk \<Rightarrow> blk kres" where
  "fd_add_timer ticks fn s =
     bindk (add_timer (\<lambda>_ t. t) ticks (Some fn) (motor s)) (\<lambda>t. Inr (upd_motor (\<lambda>_. t) s))"

definition floppy_on_interrupt :: "device \<Rightarrow> fd_place \<Rightarrow> (blk \<Rightarrow> blk kres) \<Rightarrow> blk \<Rightarrow> blk kres" where
  "floppy_on_interrupt d m redo s =
     (let s = upd_motor (\<lambda>t. t\<lparr>fd_selected := True\<rparr>) s; drive = current_drive (fdd s)
      in if drive \<noteq> current_DOR (motor s) AND 3 then
           let s = upd_motor (\<lambda>t. t\<lparr>current_DOR := current_DOR t AND 0xFC OR drive\<rparr>) s
           in fd_add_timer 2 transfer_fn (io_out (current_DOR (motor s)) FD_DOR s)
         else transfer d m redo s)"

section \<open>Requests\<close>

definition FD_CURRENT_DEV :: "request \<Rightarrow> u8" where
  "FD_CURRENT_DEV r = ucast (word_of_int (r_dev r) AND 3 :: u32)"

text \<open>The place of block \<open>block\<close> (in sectors) on a floppy of type \<open>f\<close>.\<close>

definition locate :: "floppy_struct \<Rightarrow> u32 \<Rightarrow> fd_state \<Rightarrow> fd_state" where
  "locate f block v =
     (let cylhead = block div fl_sect f; track = ucast (cylhead div fl_head f) :: u8; st = push_bit (unat (fl_stretch f)) track
      in v\<lparr>fd_sector := ucast (block mod fl_sect f) + 1, fd_head := ucast (cylhead mod fl_head f), fd_track := track,
           seek_track := st, fd_seek := fd_seek v \<or> st \<noteq> current_track v\<rparr>)"

definition start_motor :: "device \<Rightarrow> fd_place \<Rightarrow> (blk \<Rightarrow> blk kres) \<Rightarrow> blk \<Rightarrow> blk kres" where
  "start_motor d m redo s =
     bindk (fd_ticks (unat (current_drive (fdd s))) s) (\<lambda>(ticks, s).
       if ticks \<le>s 0 then floppy_on_interrupt d m redo s else fd_add_timer ticks floppy_on_fn s)"

text \<open>From \<open>repeat\<close> on. A pointer behind the table \<open>floppy_type\<close> is the stop value \<open>Wild\<close>.\<close>

primrec fd_loop :: "nat \<Rightarrow> device \<Rightarrow> fd_place \<Rightarrow> (blk \<Rightarrow> blk kres) \<Rightarrow> blk \<Rightarrow> blk kres" where
  "fd_loop 0 d m redo s = Inl Hang"
| "fd_loop (Suc n) d m redo s =
     bindk (init_request 2 s) (\<lambda>c. case c of
         None \<Rightarrow> Inr s
       | Some c \<Rightarrow>
           let r = request s c; k = unat (word_of_int (r_dev r) AND 0xff :: u32) div 4; drive = FD_CURRENT_DEV r
           in if length floppy_type \<le> k then Inl (Wild ''floppy_type'')
              else
                let s = upd_fd (\<lambda>v. v\<lparr>fd_floppy := k, fd_seek := fd_seek v \<or> current_drive v \<noteq> drive,
                                     current_drive := drive\<rparr>) s;
                    f = floppy s; block = r_sector r
                in if fl_size f < block + 2 then bindk (end_request 2 False s) (fd_loop n d m redo)
                   else if fl_sect f = 0 \<or> fl_head f = 0 then Inl (Panic ''divide error'')
                   else
                     let s = upd_fd (locate f block) s
                     in if r_cmd r = READ then start_motor d m redo (upd_fd (\<lambda>v. v\<lparr>fd_command := FD_READ\<rparr>) s)
                        else if r_cmd r = WRITE then start_motor d m redo (upd_fd (\<lambda>v. v\<lparr>fd_command := FD_WRITE\<rparr>) s)
                        else Inl (Panic ''do_fd_request: unknown command''))"

text \<open>The loop ends a request in each round, of which there are at most \<open>NR_REQUEST\<close>.\<close>

definition fd_body :: "device \<Rightarrow> fd_place \<Rightarrow> (blk \<Rightarrow> blk kres) \<Rightarrow> blk \<Rightarrow> blk kres" where
  "fd_body d m redo s =
     (let s = upd_fd (\<lambda>v. v\<lparr>fd_seek := False\<rparr>) s
      in if fd_reset (fdd s) then Inr (reset_floppy s)
         else if fd_recalibrate (fdd s) then recalibrate_floppy d redo s
         else fd_loop (Suc NR_REQUEST) d m redo s)"

text \<open>
  The function calls itself only when \<open>reset\<close> is set, and then ends with \<open>reset_floppy\<close>: the depth
  2 is enough (\<open>fd_request_depth\<close> below).
\<close>

primrec fd_request :: "nat \<Rightarrow> device \<Rightarrow> fd_place \<Rightarrow> blk \<Rightarrow> blk kres" where
  "fd_request 0 d m s = Inl Hang"
| "fd_request (Suc n) d m s = fd_body d m (fd_request n d m) s"

definition do_fd_request :: "device \<Rightarrow> fd_place \<Rightarrow> blk \<Rightarrow> blk kres" where
  "do_fd_request = fd_request 2"

section \<open>Interrupts\<close>

definition sense :: "device \<Rightarrow> blk \<Rightarrow> nat option \<times> blk" where
  "sense d s = fd_result d (output_byte d FD_SENSEI s)"

definition do_rw_interrupt :: "device \<Rightarrow> fd_place \<Rightarrow> blk \<Rightarrow> blk kres" where
  "do_rw_interrupt d m s =
     (let (n, s) = fd_result d s
      in if n \<noteq> Some 7 \<or> ST 0 s AND 0xf8 \<noteq> 0 \<or> ST 1 s AND 0xbf \<noteq> 0 \<or> ST 2 s AND 0x73 \<noteq> 0
         then bindk (if ST 1 s AND 0x02 \<noteq> 0 then end_request 2 False (floppy_deselect s) else bad_flp_intr s)
                (do_fd_request d m)
         else
           bindk (if fd_command (fdd s) = FD_READ
                  then bindk (current_buffer s) (\<lambda>b.
                         Inr (if 0x100000 \<le> place_of m b then set_data (fst b) (snd b) (tmp_floppy_area (fdd s)) s else s))
                  else Inr s) (\<lambda>s.
             bindk (end_request 2 True (floppy_deselect s)) (do_fd_request d m)))"

definition do_seek_interrupt :: "device \<Rightarrow> fd_place \<Rightarrow> blk \<Rightarrow> blk kres" where
  "do_seek_interrupt d m s =
     (let (n, s) = sense d s
      in if n \<noteq> Some 2 \<or> ST 0 s AND 0xF8 \<noteq> 0x20 \<or> ST 1 s \<noteq> seek_track (fdd s)
         then bindk (bad_flp_intr s) (do_fd_request d m)
         else setup_rw_floppy d m (do_fd_request d m) (upd_fd (\<lambda>v. v\<lparr>current_track := reply_buffer v 1\<rparr>) s))"

definition do_recal_interrupt :: "device \<Rightarrow> fd_place \<Rightarrow> blk \<Rightarrow> blk kres" where
  "do_recal_interrupt d m s =
     (let (n, s) = sense d s
      in do_fd_request d m
           (if n \<noteq> Some 2 \<or> ST 0 s AND 0xE0 = 0x60 then upd_fd (\<lambda>v. v\<lparr>fd_reset := True\<rparr>) s
            else upd_fd (\<lambda>v. v\<lparr>fd_recalibrate := False\<rparr>) s))"

definition do_reset_interrupt :: "device \<Rightarrow> fd_place \<Rightarrow> blk \<Rightarrow> blk kres" where
  "do_reset_interrupt d m s =
     (let (_, s) = sense d s
      in do_fd_request d m (output_bytes d [FD_SPECIFY, ucast (cur_spec1 (fdd s)), 6] s))"

primrec fd_handler :: "device \<Rightarrow> fd_place \<Rightarrow> fd_intr \<Rightarrow> blk \<Rightarrow> blk kres" where
  "fd_handler d m rw_interrupt = do_rw_interrupt d m"
| "fd_handler d m seek_interrupt = do_seek_interrupt d m"
| "fd_handler d m recal_interrupt = do_recal_interrupt d m"
| "fd_handler d m reset_interrupt = do_reset_interrupt d m"

definition unexpected_floppy_interrupt :: "device \<Rightarrow> blk \<Rightarrow> blk" where
  "unexpected_floppy_interrupt d s =
     (let (n, s) = sense d s
      in if n \<noteq> Some 2 \<or> ST 0 s AND 0xE0 = 0x60 then upd_fd (\<lambda>v. v\<lparr>fd_reset := True\<rparr>) s
         else upd_fd (\<lambda>v. v\<lparr>fd_recalibrate := True\<rparr>) s)"

definition floppy_interrupt :: "device \<Rightarrow> fd_place \<Rightarrow> blk \<Rightarrow> blk kres" where
  "floppy_interrupt d m s =
     (let h = do_floppy (fdd s); s = upd_fd (\<lambda>v. v\<lparr>do_floppy := None\<rparr>) (io_out 0x20 0x20 s)
      in case h of None \<Rightarrow> Inr (unexpected_floppy_interrupt d s) | Some h \<Rightarrow> fd_handler d m h s)"

text \<open>The timers of the driver that are due in the clock interrupt, one after the other.\<close>

definition fd_timer_call :: "device \<Rightarrow> fd_place \<Rightarrow> nat \<Rightarrow> blk \<Rightarrow> blk kres" where
  "fd_timer_call d m fn s =
     (if fn = floppy_on_fn then floppy_on_interrupt d m (do_fd_request d m) s
      else if fn = transfer_fn then transfer d m (do_fd_request d m) s else Inl (Wild ''timer''))"

primrec fd_expire :: "nat \<Rightarrow> device \<Rightarrow> fd_place \<Rightarrow> blk \<Rightarrow> blk kres" where
  "fd_expire 0 d m s = Inl Hang"
| "fd_expire (Suc n) d m s =
     (case next_timer (motor s) of None \<Rightarrow> Inr s
      | Some p \<Rightarrow>
        let e = timer_list (motor s) p in
        if \<not> tm_jiffies e \<le>s 0 then Inr s
        else
          let s = upd_motor (\<lambda>t. (upd_timer p (\<lambda>e. e\<lparr>tm_fn := None\<rparr>) t)\<lparr>next_timer := tm_next e\<rparr>) s
          in bindk (case tm_fn e of None \<Rightarrow> Inl (Wild ''timer'') | Some f \<Rightarrow> fd_timer_call d m f s) (fd_expire n d m))"

definition fd_clock :: "nat \<Rightarrow> device \<Rightarrow> fd_place \<Rightarrow> blk \<Rightarrow> blk kres" where
  "fd_clock n d m s =
     (case next_timer (motor s) of None \<Rightarrow> Inr s
      | Some p \<Rightarrow> fd_expire n d m (upd_motor (upd_timer p (\<lambda>e. e\<lparr>tm_jiffies := tm_jiffies e - 1\<rparr>)) s))"

definition floppy_init :: "device \<Rightarrow> blk \<Rightarrow> blk" where
  "floppy_init d s =
     (let s = s\<lparr>bk := (bk s)\<lparr>has_driver := (has_driver (bk s))(2 := True)\<rparr>\<rparr>; (v, s) = io_in d 0x21 s
      in io_out (v AND NOT 0x40) 0x21 s)"

section \<open>The depth of the calls\<close>

lemma fd_request_reset: "fd_reset (fdd s) \<Longrightarrow> fd_request (Suc n) d m s = Inr (reset_floppy (upd_fd (\<lambda>v. v\<lparr>fd_seek := False\<rparr>) s))"
  by (simp add: fd_body_def upd_fd_def)

text \<open>The functions depend on \<open>redo\<close> only where the reset flag is set.\<close>

definition agree :: "(blk \<Rightarrow> blk kres) \<Rightarrow> (blk \<Rightarrow> blk kres) \<Rightarrow> bool" where
  "agree f g \<longleftrightarrow> (\<forall>s. fd_reset (fdd s) \<longrightarrow> f s = g s)"

lemma agreeD: "agree f g \<Longrightarrow> fd_reset (fdd s) \<Longrightarrow> f s = g s"
  by (simp add: agree_def)

lemma retry_agree: "agree f g \<Longrightarrow> retry f s = retry g s"
  by (simp add: retry_def agree_def)

lemma setup_rw_floppy_agree: "agree f g \<Longrightarrow> setup_rw_floppy d m f s = setup_rw_floppy d m g s"
  by (simp add: setup_rw_floppy_def retry_agree [of f g])

lemma transfer_agree: "agree f g \<Longrightarrow> transfer d m f s = transfer d m g s"
  by (simp add: transfer_def Let_def retry_agree [of f g] setup_rw_floppy_agree [of f g] agreeD)

lemma start_motor_agree: "agree f g \<Longrightarrow> start_motor d m f s = start_motor d m g s"
  by (simp add: start_motor_def floppy_on_interrupt_def Let_def transfer_agree [of f g] cong: if_cong)

lemma fd_loop_agree:
  assumes "agree f g"
  shows "fd_loop n d m f = fd_loop n d m g"
proof (induction n)
  case (Suc n)
  have "start_motor d m f = start_motor d m g" by (intro ext start_motor_agree assms)
  then show ?case by (intro ext) (simp only: fd_loop.simps Suc)
qed (intro ext, simp)

lemma fd_body_agree: "agree f g \<Longrightarrow> fd_body d m f s = fd_body d m g s"
  by (simp add: fd_body_def Let_def recalibrate_floppy_def retry_agree [of f g] fd_loop_agree [of f g] del: fd_loop.simps)

lemma fd_request_agree: "agree (fd_request (Suc n) d m) (fd_request (Suc k) d m)"
  unfolding agree_def by (intro allI impI) (simp only: fd_request_reset)

lemma fd_request_depth: "fd_request (Suc (Suc n)) d m s = do_fd_request d m s"
proof -
  have "fd_request (Suc (Suc n)) d m s = fd_body d m (fd_request (Suc n) d m) s" by simp
  also have "\<dots> = fd_body d m (fd_request (Suc 0) d m) s" by (rule fd_body_agree [OF fd_request_agree])
  finally show ?thesis by (simp add: do_fd_request_def numeral_2_eq_2)
qed

text \<open>So \<open>do_fd_request\<close> is a fixed point of its own body, as the code has it.\<close>

lemma do_fd_request_unfold: "do_fd_request d m s = fd_body d m (do_fd_request d m) s"
proof -
  have "do_fd_request d m s = fd_request (Suc (Suc (Suc 0))) d m s" by (rule fd_request_depth [symmetric])
  also have "\<dots> = fd_body d m (fd_request (Suc (Suc 0)) d m) s" by simp
  also have "fd_request (Suc (Suc 0)) d m = do_fd_request d m" by (intro ext fd_request_depth)
  finally show ?thesis .
qed

end
