(* ===== verification/Mktime.thy ===== *)
theory Mktime imports Prelude begin

text \<open>
  kernel/mktime.c: the seconds since the beginning of 1970 of a date, and \<open>time_init\<close> of
  init/main.c, which takes the date from the clock chip. Integers and the result are machine words
  of 32 bits, read as signed; a month outside the table is \<open>Wild\<close>.
\<close>

record tm =
  tm_sec :: u32
  tm_min :: u32
  tm_hour :: u32
  tm_mday :: u32
  tm_mon :: u32
  tm_year :: u32

definition MINUTE :: u32 where "MINUTE = 60"
definition HOUR :: u32 where "HOUR = 60 * MINUTE"
definition DAY :: u32 where "DAY = 24 * HOUR"
definition YEAR :: u32 where "YEAR = 365 * DAY"

definition month :: "u32 list" where
  "month = [0, DAY * 31, DAY * (31 + 29), DAY * (31 + 29 + 31), DAY * (31 + 29 + 31 + 30),
     DAY * (31 + 29 + 31 + 30 + 31), DAY * (31 + 29 + 31 + 30 + 31 + 30), DAY * (31 + 29 + 31 + 30 + 31 + 30 + 31),
     DAY * (31 + 29 + 31 + 30 + 31 + 30 + 31 + 31), DAY * (31 + 29 + 31 + 30 + 31 + 30 + 31 + 31 + 30),
     DAY * (31 + 29 + 31 + 30 + 31 + 30 + 31 + 31 + 30 + 31),
     DAY * (31 + 29 + 31 + 30 + 31 + 30 + 31 + 31 + 30 + 31 + 30)]"

definition kernel_mktime :: "tm \<Rightarrow> u32 kres" where
  "kernel_mktime t =
     (let year = (if 70 \<le>s tm_year t then tm_year t - 70 else tm_year t + 100 - 70);
          res = YEAR * year + DAY * word_of_int (sint (year + 1) sdiv 4)
      in if 12 \<le> tm_mon t then Inl (Wild ''month'')
         else
           let res = res + month ! unat (tm_mon t);
               res = (if 1 <s tm_mon t \<and> sint (year + 2) smod 4 \<noteq> 0 then res - DAY else res);
               res = res + DAY * (tm_mday t - 1);
               res = res + HOUR * tm_hour t;
               res = res + MINUTE * tm_min t
           in Inr (res + tm_sec t))"

text \<open>
  The registers of the clock chip are a parameter; \<open>time_init\<close> reads them again when the
  second changed in between, so it works on registers read within one second.
\<close>

definition BCD_TO_BIN :: "u32 \<Rightarrow> u32" where
  "BCD_TO_BIN val = (val AND 15) + drop_bit 4 val * 10"

definition time_init :: "(nat \<Rightarrow> u8) \<Rightarrow> u32 kres" where
  "time_init cmos =
     (let get = (\<lambda>addr. BCD_TO_BIN (ucast (cmos addr)))
      in kernel_mktime \<lparr>tm_sec = get 0, tm_min = get 2, tm_hour = get 4, tm_mday = get 7, tm_mon = get 8 - 1,
           tm_year = get 9\<rparr>)"

section \<open>The calendar\<close>

definition leap :: "nat \<Rightarrow> bool" where
  "leap y \<longleftrightarrow> y mod 4 = 0 \<and> (y mod 100 \<noteq> 0 \<or> y mod 400 = 0)"

definition month_days :: "nat \<Rightarrow> nat list" where
  "month_days y = [31, if leap y then 29 else 28, 31, 30, 31, 30, 31, 31, 30, 31, 30, 31]"

definition days_since_1970 :: "nat \<Rightarrow> nat \<Rightarrow> nat \<Rightarrow> nat" where
  "days_since_1970 y m d =
     sum_list (map (\<lambda>y. if leap y then 366 else 365) [1970..<y]) + sum_list (take m (month_days y)) + (d - 1)"


lemma leap_range_all: "\<forall>k\<in>set [0..<68]. leap (1970 + k) \<longleftrightarrow> (k + 2) mod 4 = 0"
  by (simp add: upt_rec leap_def)

lemma leap_range: "k < 68 \<Longrightarrow> leap (1970 + k) \<longleftrightarrow> (k + 2) mod 4 = 0"
  using leap_range_all by simp

lemma days_years: "k \<le> 68 \<Longrightarrow> sum_list (map (\<lambda>y. if leap y then 366 else 365) [1970..<1970 + k]) = 365 * k + (k + 1) div 4"
proof (induction k)
  case (Suc k)
  have "(Suc k + 1) div 4 = (k + 1) div 4 + (if (k + 2) mod 4 = 0 then 1 else 0)"
    using div_Suc [of "k + 1" 4] by simp
  moreover have "[1970..<1970 + Suc k] = [1970..<1970 + k] @ [1970 + k]"
    unfolding add_Suc_right by (rule upt_Suc_append) simp
  ultimately show ?case using Suc leap_range [of k] by simp
qed simp

lemma days_months:
  assumes "m < 12"
  shows "month ! m = DAY * of_nat (sum_list (take m (month_days y)) + of_bool (1 < m \<and> \<not> leap y))"
proof -
  have "m = 0 \<or> m = 1 \<or> m = 2 \<or> m = 3 \<or> m = 4 \<or> m = 5 \<or> m = 6 \<or> m = 7 \<or> m = 8 \<or> m = 9 \<or> m = 10 \<or> m = 11"
    using assms by arith
  then show ?thesis by (elim disjE) (simp_all add: month_def month_days_def numeral_eq_Suc)
qed

text \<open>The clock's date with a year of two digits, as \<open>time_init\<close> passes it on.\<close>

definition clock_tm :: "nat \<Rightarrow> nat \<Rightarrow> nat \<Rightarrow> nat \<Rightarrow> nat \<Rightarrow> nat \<Rightarrow> tm" where
  "clock_tm y m d hh mm ss =
     \<lparr>tm_sec = of_nat ss, tm_min = of_nat mm, tm_hour = of_nat hh, tm_mday = of_nat d, tm_mon = of_nat m,
      tm_year = of_nat (y mod 100)\<rparr>"

lemma sint_nat: "n < 2 ^ 31 \<Longrightarrow> sint (of_nat n :: u32) = int n"
  using sint_small [of "of_nat n"] by (simp add: unat_of_nat)

lemma nat_div_4: "int n sdiv 4 = int (n div 4)" "int n smod 4 = int (n mod 4)"
  by (simp_all add: signed_divide_int_def signed_modulo_int_def sgn_if zdiv_int zmod_int)

lemma clock_year:
  assumes "1970 \<le> y" "y < 2038"
  shows "(let t = clock_tm y m d hh mm ss in if 70 \<le>s tm_year t then tm_year t - 70 else tm_year t + 100 - 70) =
    of_nat (y - 1970)"
proof -
  have "sint (of_nat n :: u32) = int n" if "n < 100" for n
    using that sint_small [of "of_nat n"] by (simp add: unat_of_nat)
  then have s: "70 \<le>s (of_nat n :: u32) \<longleftrightarrow> 70 \<le> n" if "n < 100" for n
    using that by (simp add: word_sle_eq)
  have "y mod 100 = (if y < 2000 then y - 1900 else y - 2000)"
  proof (cases "y < 2000")
    case True
    then have "y - (y - 1900) = 100 * 19" using assms by simp
    then show ?thesis using True assms by (simp only: if_True) (rule mod_nat_eqI; simp)
  next
    case False
    then have "y - (y - 2000) = 100 * 20" using assms by simp
    then show ?thesis using False assms by (simp only: if_False) (rule mod_nat_eqI; simp)
  qed
  then show ?thesis
    using assms s [of "y mod 100"] by (auto simp: clock_tm_def of_nat_diff Let_def)
qed

text \<open>
  C39: For every date of the years 1970 to 2037, given with a year of two digits as the
  clock chip has it, kernel_mktime is the number of seconds since 1970 by the Gregorian
  calendar.
\<close>

theorem kernel_mktime_calendar:
  assumes "1970 \<le> y" "y < 2038" "m < 12" "0 < d"
  shows "kernel_mktime (clock_tm y m d hh mm ss) =
    Inr (of_nat (((days_since_1970 y m d * 24 + hh) * 60 + mm) * 60 + ss))"
proof -
  let ?t = "clock_tm y m d hh mm ss"
  define k where "k = y - 1970"
  have k: "y = 1970 + k" "k < 68" using assms(1,2) by (simp_all add: k_def)
  define S where "S = sum_list (take m (month_days y))"
  define c where "c = (k + 1) div 4"
  have year: "(if 70 \<le>s tm_year ?t then tm_year ?t - 70 else tm_year ?t + 100 - 70) = of_nat k"
    using clock_year [OF assms(1,2)] by (simp add: Let_def k_def)
  have q: "sint (of_nat k + 1 :: u32) sdiv 4 = int c" "sint (of_nat k + 2 :: u32) smod 4 = int ((k + 2) mod 4)"
    using sint_nat [of "k + 1"] sint_nat [of "k + 2"] k(2) nat_div_4(1) [of "k + 1"] nat_div_4(2) [of "k + 2"]
    by (simp_all add: c_def add.commute)
  have mon: "tm_mon ?t = of_nat m" "unat (of_nat m :: u32) = m" "\<not> 12 \<le> (of_nat m :: u32)" "1 <s (of_nat m :: u32) \<longleftrightarrow> 1 < m"
    using assms(3) sint_nat [of m] by (simp_all add: clock_tm_def unat_of_nat word_le_nat_alt word_sless_alt)
  have "kernel_mktime ?t = Inr (YEAR * of_nat k + DAY * of_nat c + DAY * of_nat (S + of_bool (1 < m \<and> \<not> leap y))
      - (if 1 < m \<and> (k + 2) mod 4 \<noteq> 0 then DAY else 0) + DAY * (of_nat d - 1) + HOUR * of_nat hh + MINUTE * of_nat mm + of_nat ss)"
    using q mon days_months [OF assms(3), of y] unfolding kernel_mktime_def year S_def
    by (simp add: Let_def clock_tm_def)
  moreover have "leap y \<longleftrightarrow> (k + 2) mod 4 = 0" using leap_range k by simp
  moreover have "days_since_1970 y m d = 365 * k + c + S + (d - 1)"
    using days_years [of k] k by (simp add: days_since_1970_def S_def c_def)
  ultimately show ?thesis
    using assms(4) by (simp add: YEAR_def DAY_def HOUR_def MINUTE_def of_nat_diff algebra_simps)
qed

theorem kernel_mktime_calendar_witness:
  "kernel_mktime (clock_tm 2000 2 1 0 0 0) = Inr (of_nat (days_since_1970 2000 2 1 * 86400))"
  using kernel_mktime_calendar [of 2000 2 1 0 0 0] by simp

text \<open>The first second past the range of the result is before the beginning of 1902.\<close>

lemma kernel_mktime_2038:
  "kernel_mktime (clock_tm 2038 0 19 3 14 8) = Inr 0x80000000" "(0x80000000 :: u32) <s 0"
  by (simp_all add: kernel_mktime_def clock_tm_def month_def YEAR_def DAY_def HOUR_def MINUTE_def word_sle_eq word_sless_alt
      signed_divide_int_def signed_modulo_int_def)
end
