(* ===== verification/Example.thy ===== *)
theory Example imports Kstate begin

text \<open>
  A small concrete kernel state, on which the witnesses of the other theories evaluate the operations:
  task 1 runs, nothing is open, all tables are empty and no device is there.
\<close>

definition ex_buffer :: buffer_head where
  "ex_buffer = \<lparr>b_data = (\<lambda>_. 0), b_blocknr = 0, b_dev = 0, b_uptodate = False, b_dirt = False, b_count = 0,
     b_lock = False, b_prev = None, b_next = None, b_prev_free = None, b_next_free = None\<rparr>"

definition ex_file :: file_struct where
  "ex_file = \<lparr>f_mode = 0, f_flags = 0, f_count = 0, f_inode = None, f_pos = 0\<rparr>"

definition ex_super :: super_block where
  "ex_super = \<lparr>s_ninodes = 0, s_nzones = 0, s_imap_blocks = 0, s_zmap_blocks = 0, s_firstdatazone = 0,
     s_log_zone_size = 0, s_max_size = 0, s_magic = 0, s_imap = (\<lambda>_. None), s_zmap = (\<lambda>_. None), s_dev = 0,
     s_isup = None, s_imount = None, s_time = 0, s_lock = False, s_rd_only = False, s_dirt = False\<rparr>"

definition ex_tss :: tss_struct where
  "ex_tss = \<lparr>back_link = 0, esp0 = 0, ss0 = 0, r_eip = 0, r_eflags = 0, r_eax = 0, r_ecx = 0, r_edx = 0,
     r_ebx = 0, r_esp = 0, r_ebp = 0, r_esi = 0, r_edi = 0, r_es = 0, r_cs = 0, r_ss = 0, r_ds = 0, r_fs = 0,
     r_gs = 0, r_ldt = 0, trace_bitmap = 0\<rparr>"

definition ex_action :: sigaction where
  "ex_action = \<lparr>sa_handler = 0, sa_mask = 0, sa_flags = 0, sa_restorer = 0\<rparr>"

definition ex_task :: "u32 \<Rightarrow> task_struct" where
  "ex_task pid = \<lparr>t_state = RUNNING, t_counter = 15, t_priority = 15, t_signal = 0,
     t_sigaction = (\<lambda>_. ex_action), t_blocked = 0, t_exit_code = 0, t_start_code = 0, t_end_code = 0x1000,
     t_end_data = 0, t_brk = 0x2000, t_start_stack = 0x4000000, t_pid = pid, t_father = 0, t_pgrp = 0,
     t_session = 0, t_leader = False, t_uid = 0, t_euid = 0, t_suid = 0, t_gid = 0, t_egid = 0, t_sgid = 0,
     t_alarm = 0, t_utime = 0, t_stime = 0, t_cutime = 0, t_cstime = 0, t_start_time = 0, t_tty = - 1,
     t_used_math = False, t_umask = 0, t_pwd = None, t_root = None, t_executable = None,
     t_close_on_exec = 0, t_filp = (\<lambda>_. None), t_code_base = 0, t_code_limit = 0xa0000, t_data_base = 0,
     t_data_limit = 0xa0000, t_tss = ex_tss, t_page = 0\<rparr>"

definition ex_queue :: tty_queue where
  "ex_queue = \<lparr>q_data = 0, q_head = 0, q_tail = 0, q_buf = (\<lambda>_. 0)\<rparr>"

definition ex_tty :: tty_struct where
  "ex_tty = \<lparr>tt_termios = \<lparr>c_iflag = 0, c_oflag = 0, c_cflag = 0, c_lflag = 0, c_line = 0, c_cc = (\<lambda>_. 0)\<rparr>,
     tt_pgrp = 0, tt_stopped = False, read_q = ex_queue, write_q = ex_queue, secondary = ex_queue\<rparr>"

text \<open>A colour display of 80 columns and 25 lines, as \<open>con_init\<close> sets it up.\<close>

definition ex_console :: console where
  "ex_console = \<lparr>video_type = 0x21, video_num_columns = 80, video_size_row = 160, video_num_lines = 25, video_page = 0,
     video_mem_start = 0xb8000, video_mem_end = 0xbc000, video_port_reg = 0x3d4, video_port_val = 0x3d5,
     video_erase_char = 0x0720, con_origin = 0xb8000, con_scr_end = 0xb8fa0, con_pos = 0xb8000, con_x = 0, con_y = 0,
     con_top = 0, con_bottom = 25, con_state = 0, con_npar = 0, con_par = (\<lambda>_. 0), con_ques = False, con_attr = 7,
     saved_x = 0, saved_y = 0, beepcount = 0, vram = (\<lambda>_. 0)\<rparr>"

definition ex_kst :: kst where
  "ex_kst = \<lparr>buffers = (\<lambda>_. ex_buffer), nr_buffers = 0, hash_table = (\<lambda>_. None), free_list = None,
     null_b_prev = None, disk = (\<lambda>_ _. None), has_driver = (\<lambda>_. False), inode_table = (\<lambda>_. zero_inode),
     last_inode = 0, super_block = (\<lambda>_. ex_super), ROOT_DEV = 0x101, file_table = (\<lambda>_. ex_file),
     mem = \<lparr>pmem = (\<lambda>_. 0), mem_map = (\<lambda>_. 0), HIGH_MEMORY = 0x1000000\<rparr>, umem = (\<lambda>_. 0),
     task = (\<lambda>_. None)(0 \<mapsto> ex_task 0, 1 \<mapsto> ex_task 1), current = 1, jiffies = 0, startup_time = 0,
     last_pid = 1, last_task_used_math = None, tty_table = (\<lambda>_. ex_tty), cr_flag = False,
     disk_changed = (\<lambda>_. False), in_port = (\<lambda>_. 0), out_log = [], cons = ex_console\<rparr>"

lemma ex_kst_sel [simp]:
  "buffers ex_kst = (\<lambda>_. ex_buffer)" "nr_buffers ex_kst = 0" "hash_table ex_kst = (\<lambda>_. None)"
  "free_list ex_kst = None" "disk ex_kst = (\<lambda>_ _. None)" "has_driver ex_kst = (\<lambda>_. False)"
  "inode_table ex_kst = (\<lambda>_. zero_inode)" "last_inode ex_kst = 0" "super_block ex_kst = (\<lambda>_. ex_super)"
  "ROOT_DEV ex_kst = 0x101" "file_table ex_kst = (\<lambda>_. ex_file)" "umem ex_kst = (\<lambda>_. 0)"
  "task ex_kst = (\<lambda>_. None)(0 \<mapsto> ex_task 0, 1 \<mapsto> ex_task 1)" "current ex_kst = 1" "jiffies ex_kst = 0"
  "startup_time ex_kst = 0" "last_pid ex_kst = 1" "tty_table ex_kst = (\<lambda>_. ex_tty)" "cr_flag ex_kst = False"
  "last_task_used_math ex_kst = None" "out_log ex_kst = []" "cons ex_kst = ex_console"
  by (simp_all add: ex_kst_def)

end
