(* ===== verification/Example_Drives.thy ===== *)
theory Example_Drives imports Example Drives begin

text \<open>The static variables of the disk and floppy drivers as they are before anything is set up.\<close>

definition ex_hd :: hd_state where
  "ex_hd = \<lparr>hd_recalibrate = False, hd_reset = False,
     hd_info = (\<lambda>_. \<lparr>hi_head = 0, hi_sect = 0, hi_cyl = 0, hi_wpcom = 0, hi_lzone = 0, hi_ctl = 0\<rparr>), NR_HD = 0,
     hd_part = (\<lambda>_. \<lparr>start_sect = 0, nr_sects = 0\<rparr>), do_hd = None, callable = True\<rparr>"

definition ex_timers :: timers where
  "ex_timers = \<lparr>timer_list = (\<lambda>_. \<lparr>tm_jiffies = 0, tm_fn = None, tm_next = None\<rparr>), next_timer = None,
     wait_motor = (\<lambda>_. None), mon_timer = (\<lambda>_. 0), moff_timer = (\<lambda>_. 0), current_DOR = 0x0c, fd_selected = False\<rparr>"

definition ex_fd :: fd_state where
  "ex_fd = \<lparr>fd_recalibrate = False, fd_reset = False, fd_seek = False, reply_buffer = (\<lambda>_. 0), cur_spec1 = - 1,
     cur_rate = - 1, fd_floppy = 0, current_drive = 0, fd_sector = 0, fd_head = 0, fd_track = 0, seek_track = 0,
     current_track = 255, fd_command = 0, do_floppy = None, tmp_floppy_area = (\<lambda>_. 0), wait_on_floppy_select = None,
     fd_timers = ex_timers\<rparr>"

end
