(* ===== verification/Boot.thy ===== *)
theory Boot imports Syscalls Floppy Mktime Example_Drives begin

text \<open>
  The kernel from the entry of init/main.c on: the values its variables are compiled with
  (include/linux/sched.h, kernel/chr_drv/tty_io.c), the division of the memory and the initialisers of
  \<open>main\<close> in their order, and the program of the first processes, \<open>init\<close>.
\<close>

section \<open>The variables before main\<close>

text \<open>\<open>INIT_TASK\<close>; \<open>p\<close> is the address of \<open>init_task\<close>. The local descriptors are read with the macros for them.\<close>

definition init_ldt :: "nat \<Rightarrow> desc_struct" where
  "init_ldt n = (if n = 1 then \<lparr>d_a = 0x9f, d_b = 0xc0fa00\<rparr> else if n = 2 then \<lparr>d_a = 0x9f, d_b = 0xc0f200\<rparr>
     else \<lparr>d_a = 0, d_b = 0\<rparr>)"

definition INIT_TASK :: "u32 \<Rightarrow> task_struct" where
  "INIT_TASK p =
     \<lparr>t_state = RUNNING, t_counter = 15, t_priority = 15,
      t_signal = 0, t_sigaction = (\<lambda>_. \<lparr>sa_handler = 0, sa_mask = 0, sa_flags = 0, sa_restorer = 0\<rparr>), t_blocked = 0,
      t_exit_code = 0, t_start_code = 0, t_end_code = 0, t_end_data = 0, t_brk = 0, t_start_stack = 0,
      t_pid = 0, t_father = - 1, t_pgrp = 0, t_session = 0, t_leader = False,
      t_uid = 0, t_euid = 0, t_suid = 0, t_gid = 0, t_egid = 0, t_sgid = 0,
      t_alarm = 0, t_utime = 0, t_stime = 0, t_cutime = 0, t_cstime = 0, t_start_time = 0,
      t_tty = - 1, t_used_math = False, t_umask = 0x12, t_pwd = None, t_root = None, t_executable = None,
      t_close_on_exec = 0, t_filp = (\<lambda>_. None),
      t_code_base = get_base (init_ldt 1), t_code_limit = get_limit (init_ldt 1),
      t_data_base = get_base (init_ldt 2), t_data_limit = get_limit (init_ldt 2),
      t_tss = \<lparr>back_link = 0, esp0 = PAGE_SIZE + p, ss0 = 0x10, r_eip = 0, r_eflags = 0, r_eax = 0, r_ecx = 0, r_edx = 0,
        r_ebx = 0, r_esp = 0, r_ebp = 0, r_esi = 0, r_edi = 0, r_es = 0x17, r_cs = 0x17, r_ss = 0x17, r_ds = 0x17, r_fs = 0x17,
        r_gs = 0x17, r_ldt = LDT 0, trace_bitmap = 0x80000000\<rparr>,
      t_page = p\<rparr>"

definition INIT_C_CC :: "nat \<Rightarrow> u8" where
  "INIT_C_CC k = (let cc = [3, 28, 127, 21, 4, 0, 1, 0, 17, 19, 26, 0, 18, 15, 23, 22, 0] in if k < length cc then cc ! k else 0)"

definition empty_queue :: "u32 \<Rightarrow> tty_queue" where
  "empty_queue d = \<lparr>q_data = d, q_head = 0, q_tail = 0, q_buf = (\<lambda>_. 0)\<rparr>"

definition init_tty_table :: "nat \<Rightarrow> tty_struct" where
  "init_tty_table n =
     (if n = 0 then
        \<lparr>tt_termios = \<lparr>c_iflag = 0x100, c_oflag = 1 OR 4, c_cflag = 0, c_lflag = 1 OR 2 OR 8 OR 0x200 OR 0x800, c_line = 0,
           c_cc = INIT_C_CC\<rparr>,
         tt_pgrp = 0, tt_stopped = False, read_q = empty_queue 0, write_q = empty_queue 0, secondary = empty_queue 0\<rparr>
      else
        let port = (if n = 1 then 0x3f8 else 0x2f8) in
        \<lparr>tt_termios = \<lparr>c_iflag = 0, c_oflag = 0, c_cflag = 11 OR 0x30, c_lflag = 0, c_line = 0, c_cc = INIT_C_CC\<rparr>,
         tt_pgrp = 0, tt_stopped = False, read_q = empty_queue port, write_q = empty_queue port, secondary = empty_queue 0\<rparr>)"

text \<open>\<open>init_task\<close> is the current task; the other static variables are what the loader makes them.\<close>

definition static_tables :: "u32 \<Rightarrow> kst \<Rightarrow> kst" where
  "static_tables p s =
     s\<lparr>task := (\<lambda>i. if i = 0 then Some (INIT_TASK p) else None), current := 0, tty_table := init_tty_table,
       last_task_used_math := None, jiffies := 0, startup_time := 0, last_pid := 0, nr_buffers := 0\<rparr>"

section \<open>main\<close>

definition memory_end :: "u16 \<Rightarrow> u32" where
  "memory_end ext =
     (let m = (push_bit 20 1 + push_bit 10 (ucast ext)) AND 0xfffff000 in if 16 * 1024 * 1024 <s m then 16 * 1024 * 1024 else m)"

definition buffer_memory_end :: "u32 \<Rightarrow> u32" where
  "buffer_memory_end m =
     (if 12 * 1024 * 1024 <s m then 4 * 1024 * 1024 else if 6 * 1024 * 1024 <s m then 2 * 1024 * 1024 else 1 * 1024 * 1024)"

text \<open>
  What \<open>main\<close> finds: the values setup.s left at 0x90000, the clock chip, the disk controllers, and of
  the build the option \<open>RAMDISK\<close>, the end of the kernel and the addresses of the assembly handlers and
  of the TSS and LDT of task 0.
\<close>

record boot =
  EXT_MEM_K :: u16
  ORIG_ROOT_DEV :: u16
  ORIG_X :: u8
  ORIG_Y :: u8
  ORIG_VIDEO_PAGE :: u16
  ORIG_VIDEO_MODE :: u16
  ORIG_VIDEO_EGA_BX :: u16
  clock_chip :: "nat \<Rightarrow> u8"
  drives :: device
  RAMDISK :: "u32 option"
  kernel_end :: nat
  handler_at :: "handler \<Rightarrow> u32"
  tss_at :: u32
  ldt_at :: u32

definition on_bk :: "(kst \<Rightarrow> kst) \<Rightarrow> blk \<Rightarrow> blk" where "on_bk f s = s\<lparr>bk := f (bk s)\<rparr>"

definition rs_init :: "kst \<Rightarrow> kst" where
  "rs_init s =
     (let s = serial_init (q_data (read_q (tty_table s 1))) s; s = serial_init (q_data (read_q (tty_table s 2))) s
      in outb (inb 0x21 s AND 0xE7) 0x21 s)"

definition tty_init :: "boot \<Rightarrow> kst \<Rightarrow> kst" where
  "tty_init B s =
     con_init (ORIG_X B) (ORIG_Y B) (ORIG_VIDEO_PAGE B) (ORIG_VIDEO_MODE B) (ORIG_VIDEO_EGA_BX B) (rs_init s)"

definition main_memory_start :: "boot \<Rightarrow> blk \<Rightarrow> u32 \<times> blk" where
  "main_memory_start B s =
     (let start = buffer_memory_end (memory_end (EXT_MEM_K B))
      in case RAMDISK B of None \<Rightarrow> (start, s)
         | Some n \<Rightarrow> (let (l, s) = rd_init start (n * 1024) s in (start + l, s)))"

text \<open>
  \<open>main\<close> up to \<open>sti\<close>. The gates of a driver are set by its initialiser, here beside it; \<open>chr_dev_init\<close> is
  empty.
\<close>

definition main_inits :: "boot \<Rightarrow> desc_tables \<times> blk \<Rightarrow> (desc_tables \<times> blk) kres" where
  "main_inits B ts =
     (let (t, s) = ts; adr = handler_at B;
          s = on_bk (\<lambda>k. k\<lparr>ROOT_DEV := ORIG_ROOT_DEV B\<rparr>) s;
          mem_end = memory_end (EXT_MEM_K B);
          (start, s) = main_memory_start B s
      in bindk (mem_init start mem_end (mem (bk s))) (\<lambda>m.
        let s = on_bk (\<lambda>k. k\<lparr>mem := m\<rparr>) s;
            t = trap_init adr t; s = on_bk trap_ports s;
            s = blk_dev_init s;
            t = con_gate adr (rs_gates adr t); s = on_bk (tty_init B) s
        in bindk (time_init (clock_chip B)) (\<lambda>now.
          let s = on_bk (\<lambda>k. k\<lparr>startup_time := now\<rparr>) s;
              (t, k) = sched_init adr (tss_at B) (ldt_at B) (t, bk s); s = s\<lparr>bk := k\<rparr>;
              s = on_bk (buffer_init (kernel_end B) (unat (buffer_memory_end mem_end))) s;
              t = hd_gate adr t; s = hd_init (drives B) s;
              t = floppy_gate adr t; s = floppy_init (drives B) s
          in Inr (t, s))))"

section \<open>init\<close>

text \<open>Where the strings and tables of the program are in its memory.\<close>

record init_text =
  a_drive_info :: u32
  a_tty0 :: u32
  a_rc :: u32
  a_sh :: u32
  a_argv_rc :: u32
  a_envp_rc :: u32
  a_argv :: u32
  a_envp :: u32
  a_printbuf :: u32
  a_i :: u32

definition O_RDONLY :: u32 where "O_RDONLY = 0"
definition O_RDWR :: u32 where "O_RDWR = 2"

definition and_then :: "user kres \<Rightarrow> (u32 \<Rightarrow> prog \<Rightarrow> user kres) \<Rightarrow> user kres" where
  "and_then r f = bindk r (\<lambda>u. case u of Value v p \<Rightarrow> f v p | Jump v p \<Rightarrow> Inr (Jump v p) | Over s \<Rightarrow> Inr (Over s))"

definition store_text :: "u32 \<Rightarrow> u8 list \<Rightarrow> prog \<Rightarrow> prog" where
  "store_text a xs p =
     p\<lparr>p_sys := on_bk (\<lambda>k. k\<lparr>umem := (\<lambda>b. let i = unat (b - a) in if i < length xs then xs ! i else umem k b)\<rparr>) (p_sys p)\<rparr>"

definition printf :: "machine \<Rightarrow> init_text \<Rightarrow> string \<Rightarrow> u32 list \<Rightarrow> prog \<Rightarrow> user kres" where
  "printf m A fmt args p =
     bindk (vsprintf no_str (bytes_of fmt) args) (\<lambda>(out, _).
       lib_write m 1 (a_printbuf A) (of_nat (length out)) (store_text (a_printbuf A) (out @ [0]) p))"

text \<open>Process 1 up to its first \<open>fork\<close>; \<open>free\<close> is \<open>memory_end-main_memory_start\<close>.\<close>

definition init_start :: "machine \<Rightarrow> init_text \<Rightarrow> u32 \<Rightarrow> prog \<Rightarrow> user kres" where
  "init_start m A free p =
     and_then (lib_setup m (a_drive_info A) p) (\<lambda>_ p.
     and_then (lib_open m (a_tty0 A) O_RDWR 0 p) (\<lambda>_ p.
     and_then (lib_dup m 0 p) (\<lambda>_ p.
     and_then (lib_dup m 0 p) (\<lambda>_ p.
     and_then (let n = of_nat (nr_buffers (bk (p_sys p)))
               in printf m A (''%d buffers = %d bytes buffer space'' @ NL @ CR) [n, n * of_nat BLOCK_SIZE] p) (\<lambda>_ p.
     and_then (printf m A (''Free mem: %d bytes'' @ NL @ CR) [free] p) (\<lambda>_ p.
       lib_fork m p))))))"

text \<open>Process 2, which runs the commands of /etc/rc.\<close>

definition init_rc :: "machine \<Rightarrow> init_text \<Rightarrow> prog \<Rightarrow> user kres" where
  "init_rc m A p =
     and_then (lib_close m 0 p) (\<lambda>_ p.
     and_then (lib_open m (a_rc A) O_RDONLY 0 p) (\<lambda>r p.
     and_then (if r \<noteq> 0 then lib_exit m 1 p else Inr (Value r p)) (\<lambda>_ p.
     and_then (lib_execve m (a_sh A) (a_argv_rc A) (a_envp_rc A) p) (\<lambda>_ p.
       lib_exit m 2 p))))"

text \<open>A login shell.\<close>

definition init_shell :: "machine \<Rightarrow> init_text \<Rightarrow> prog \<Rightarrow> user kres" where
  "init_shell m A p =
     and_then (lib_close m 0 p) (\<lambda>_ p. and_then (lib_close m 1 p) (\<lambda>_ p. and_then (lib_close m 2 p) (\<lambda>_ p.
     and_then (lib_setsid m p) (\<lambda>_ p.
     and_then (lib_open m (a_tty0 A) O_RDWR 0 p) (\<lambda>_ p.
     and_then (lib_dup m 0 p) (\<lambda>_ p. and_then (lib_dup m 0 p) (\<lambda>_ p.
     and_then (lib_execve m (a_sh A) (a_argv A) (a_envp A) p) (\<lambda>r p.
       lib_exit m r p))))))))"

text \<open>The loop until the child is dead; it need not end, then the value is \<open>None\<close>.\<close>

partial_function (option) wait_for :: "machine \<Rightarrow> init_text \<Rightarrow> u32 \<Rightarrow> prog \<Rightarrow> user kres option" where
  "wait_for m A pid p =
     (case lib_wait m (a_i A) p of
        Inl e \<Rightarrow> Some (Inl e)
      | Inr u \<Rightarrow> (case u of
          Value v q \<Rightarrow> if v = pid then Some (Inr (Value v q)) else wait_for m A pid q
        | Jump v q \<Rightarrow> Some (Inr (Jump v q))
        | Over s \<Rightarrow> Some (Inr (Over s))))"

text \<open>Process 1 after the shell it started: wait, say so, write the buffers out.\<close>

definition init_reap :: "machine \<Rightarrow> init_text \<Rightarrow> u32 \<Rightarrow> prog \<Rightarrow> user kres option" where
  "init_reap m A pid p = map_option (\<lambda>r.
     and_then r (\<lambda>_ p.
     and_then (printf m A (NL @ CR @ ''child %d died with code %04x'' @ NL @ CR)
                 [pid, get_fs_long (a_i A) (bk (p_sys p))] p) (\<lambda>_ p.
       lib_sync m p))) (wait_for m A pid p)"

text \<open>\<open>init\<close> up to its endless loop: process 2 runs /etc/rc, process 1 waits for it.\<close>

definition init_first :: "machine \<Rightarrow> init_text \<Rightarrow> u32 \<Rightarrow> prog \<Rightarrow> user kres option" where
  "init_first m A free p =
     (case init_start m A free p of
        Inl e \<Rightarrow> Some (Inl e)
      | Inr u \<Rightarrow> (case u of
          Value pid q \<Rightarrow>
            if pid = 0 then Some (init_rc m A q)
            else if 0 <s pid then wait_for m A pid q
            else Some (Inr (Value pid q))
        | Jump v q \<Rightarrow> Some (Inr (Jump v q))
        | Over s \<Rightarrow> Some (Inr (Over s))))"

text \<open>One round of \<open>while (1)\<close>: of the two processes after \<open>fork\<close> the one the registers belong to.\<close>

definition init_round :: "machine \<Rightarrow> init_text \<Rightarrow> prog \<Rightarrow> user kres option" where
  "init_round m A p =
     (case lib_fork m p of
        Inl e \<Rightarrow> Some (Inl e)
      | Inr u \<Rightarrow> (case u of
          Value pid q \<Rightarrow>
            if pid <s 0 then Some (printf m A (''Fork failed in init'' @ CR @ NL) [] q)
            else if pid = 0 then Some (init_shell m A q)
            else init_reap m A pid q
        | Jump v q \<Rightarrow> Some (Inr (Jump v q))
        | Over s \<Rightarrow> Some (Inr (Over s))))"

text \<open>\<open>move_to_user_mode\<close>: the segments of task 0 in user mode, the stack where the kernel's was.\<close>

definition move_to_user_mode :: "u32 \<Rightarrow> u32 \<Rightarrow> u32 \<Rightarrow> regs \<Rightarrow> regs" where
  "move_to_user_mode esp eip eflags g =
     g\<lparr>g_ss := 0x17, g_esp := esp, g_eflags := eflags, g_cs := 0x0f, g_eip := eip, g_ds := 0x17, g_es := 0x17, g_fs := 0x17, g_gs := 0x17\<rparr>"

text \<open>The end of \<open>main\<close>, in user mode: process 0 forks process 1 and has nothing to do but to pause.\<close>

definition main_user :: "machine \<Rightarrow> init_text \<Rightarrow> u32 \<Rightarrow> prog \<Rightarrow> user kres" where
  "main_user m A free p =
     and_then (lib_fork m p) (\<lambda>pid p. if pid = 0 then init_start m A free p else lib_pause m p)"

end
