(* ===== verification/Links.thy ===== *)
theory Links imports Prelude begin

text \<open>
  Doubly linked structures over array indices, as the kernel's queues use them: \<open>dlinks\<close> is a
  linked segment, \<open>cyc\<close> a ring (a free list), \<open>chain\<close> a list that ends in null pointers
  (a hash chain). The lemmas say what the pointer updates of removal and insertion do to them.
\<close>

type_synonym link = "nat \<Rightarrow> nat option"

fun dlinks :: "link \<Rightarrow> link \<Rightarrow> nat list \<Rightarrow> bool" where
  "dlinks nx pv (x # y # zs) \<longleftrightarrow> nx x = Some y \<and> pv y = Some x \<and> dlinks nx pv (y # zs)"
| "dlinks nx pv _ \<longleftrightarrow> True"

definition cyc :: "link \<Rightarrow> link \<Rightarrow> nat list \<Rightarrow> bool" where
  "cyc nx pv xs \<longleftrightarrow> xs \<noteq> [] \<and> distinct xs \<and> dlinks nx pv (xs @ [hd xs])"

definition chain :: "link \<Rightarrow> link \<Rightarrow> nat option \<Rightarrow> nat list \<Rightarrow> bool" where
  "chain nx pv h xs \<longleftrightarrow> distinct xs \<and> dlinks nx pv xs \<and>
     (case xs of [] \<Rightarrow> h = None | x # _ \<Rightarrow> h = Some x \<and> pv x = None \<and> nx (last xs) = None)"

lemma dlinks_append:
  "dlinks nx pv (xs @ y # zs) \<longleftrightarrow> dlinks nx pv (xs @ [y]) \<and> dlinks nx pv (y # zs)"
proof (induction xs)
  case (Cons a xs)
  then show ?case by (cases xs) auto
qed simp

lemma dlinks_cong:
  assumes "\<And>x. x \<in> set (butlast xs) \<Longrightarrow> nx' x = nx x" "\<And>x. x \<in> set (tl xs) \<Longrightarrow> pv' x = pv x"
  shows "dlinks nx' pv' xs = dlinks nx pv xs"
  using assms by (induction nx pv xs rule: dlinks.induct) (auto split: if_splits)

lemma dlinks_snoc:
  "xs \<noteq> [] \<Longrightarrow> dlinks nx pv (xs @ [y]) \<longleftrightarrow> dlinks nx pv xs \<and> nx (last xs) = Some y \<and> pv y = Some (last xs)"
  by (induction nx pv xs rule: dlinks.induct) auto

lemma dlinks_Cons:
  "xs \<noteq> [] \<Longrightarrow> dlinks nx pv (y # xs) \<longleftrightarrow> nx y = Some (hd xs) \<and> pv (hd xs) = Some y \<and> dlinks nx pv xs"
  by (cases xs) auto

lemma cyc_iff:
  "cyc nx pv xs \<longleftrightarrow> xs \<noteq> [] \<and> distinct xs \<and> dlinks nx pv xs \<and>
     nx (last xs) = Some (hd xs) \<and> pv (hd xs) = Some (last xs)"
  by (cases "xs = []") (auto simp: cyc_def dlinks_snoc)

lemma dlinks_app2:
  "xs \<noteq> [] \<Longrightarrow> ys \<noteq> [] \<Longrightarrow> dlinks nx pv (xs @ ys) \<longleftrightarrow>
     dlinks nx pv xs \<and> dlinks nx pv ys \<and> nx (last xs) = Some (hd ys) \<and> pv (hd ys) = Some (last xs)"
  using dlinks_append [of nx pv xs "hd ys" "tl ys"] dlinks_snoc [of xs nx pv "hd ys"] by auto

lemma dlinks_split:
  "dlinks nx pv (xs @ b # ys) \<longleftrightarrow>
     (xs = [] \<or> dlinks nx pv xs \<and> nx (last xs) = Some b \<and> pv b = Some (last xs)) \<and>
     (ys = [] \<or> dlinks nx pv ys \<and> nx b = Some (hd ys) \<and> pv (hd ys) = Some b)"
  by (cases "xs = []"; cases "ys = []")
    (auto simp: dlinks_append [of nx pv xs b ys] dlinks_snoc dlinks_Cons)

lemma cyc_rotate: "cyc nx pv (xs @ ys) \<longleftrightarrow> cyc nx pv (ys @ xs)"
  by (cases "xs = []"; cases "ys = []") (auto simp: cyc_iff dlinks_app2)

lemma dlinks_upd:
  assumes "distinct xs" "xs \<noteq> []"
  shows "dlinks (nx(last xs := u)) (pv(hd xs := v)) xs = dlinks nx pv xs"
proof (rule dlinks_cong)
  fix x assume "x \<in> set (butlast xs)"
  then show "(nx(last xs := u)) x = nx x"
    using assms by (metis append_butlast_last_id distinct_butlast fun_upd_other
        not_distinct_conv_prefix)
next
  fix x assume "x \<in> set (tl xs)"
  then show "(pv(hd xs := v)) x = pv x" using assms by (cases xs) auto
qed

lemma dlinks_fresh:
  "b \<notin> set xs \<Longrightarrow> dlinks (nx(b := u)) (pv(b := v)) xs = dlinks nx pv xs"
proof (rule dlinks_cong)
  fix x assume "b \<notin> set xs" "x \<in> set (butlast xs)"
  then show "(nx(b := u)) x = nx x" by (metis fun_upd_other in_set_butlastD)
next
  fix x assume "b \<notin> set xs" "x \<in> set (tl xs)"
  then show "(pv(b := v)) x = pv x" by (cases xs) auto
qed

text \<open>Taking an element off a ring, and putting one in before its first element.\<close>

lemma cyc_links:
  assumes "cyc nx pv (b # zs)" "zs \<noteq> []"
  shows "nx b = Some (hd zs)" "pv b = Some (last zs)"
  using assms by (auto simp: cyc_iff dlinks_Cons)

lemma cyc_remove:
  assumes "cyc nx pv (b # zs)" "zs \<noteq> []"
  shows "cyc (nx(last zs := Some (hd zs))) (pv(hd zs := Some (last zs))) zs"
  using assms by (auto simp: cyc_iff dlinks_Cons dlinks_upd)

lemma cyc_insert:
  assumes "cyc nx pv zs" "b \<notin> set zs"
  shows "cyc (nx(b := Some (hd zs), last zs := Some b)) (pv(b := Some (last zs), hd zs := Some b)) (zs @ [b])"
proof -
  have z: "zs \<noteq> []" "distinct zs" "dlinks nx pv zs" using assms(1) by (auto simp: cyc_iff)
  then have ne: "hd zs \<noteq> b" "last zs \<noteq> b" using assms(2) by (metis hd_in_set) (metis assms(2) last_in_set z(1))
  have "dlinks (nx(b := Some (hd zs), last zs := Some b)) (pv(b := Some (last zs), hd zs := Some b)) zs"
    using z assms(2) by (simp add: dlinks_upd dlinks_fresh)
  then show ?thesis using z ne assms(2) by (simp add: cyc_iff dlinks_snoc)
qed

text \<open>The same on a hash chain.\<close>

lemma chain_hd: "chain nx pv h xs \<Longrightarrow> h = (case xs of [] \<Rightarrow> None | x # _ \<Rightarrow> Some x)"
  by (auto simp: chain_def split: list.splits)

lemma chain_head: "chain nx pv (Some x) xs \<Longrightarrow> x \<in> set xs"
  by (auto simp: chain_def split: list.splits)

lemma chain_push:
  assumes "chain nx pv h xs" "b \<notin> set xs"
  shows "chain (nx(b := h)) (case h of None \<Rightarrow> pv(b := None) | Some x \<Rightarrow> pv(b := None, x := Some b)) (Some b) (b # xs)"
proof (cases xs)
  case Nil
  then show ?thesis using assms by (simp add: chain_def)
next
  case (Cons x ys)
  then have h: "h = Some x" "distinct xs" "dlinks nx pv xs" "nx (last xs) = None" "x \<noteq> b" "b \<noteq> last xs"
    using assms by (auto simp: chain_def)
  have "dlinks (nx(b := h)) (pv(b := None, x := Some b)) xs = dlinks (nx(b := h)) (pv(b := None)) xs"
    by (rule dlinks_cong) (use h Cons in auto)
  also have "\<dots> = dlinks nx pv xs" by (rule dlinks_fresh [OF assms(2)])
  finally show ?thesis using Cons h assms(2) by (auto simp: chain_def)
qed

definition unlink_next :: "link \<Rightarrow> nat \<Rightarrow> link \<Rightarrow> link" where
  "unlink_next nx b pv = (case pv b of None \<Rightarrow> nx | Some p \<Rightarrow> nx(p := nx b))"

definition unlink_prev :: "link \<Rightarrow> nat \<Rightarrow> link \<Rightarrow> link" where
  "unlink_prev pv b nx = (case nx b of None \<Rightarrow> pv | Some n \<Rightarrow> pv(n := pv b))"

lemma chain_remove:
  assumes "chain nx pv h (xs @ b # ys)"
  shows "chain (unlink_next nx b pv) (unlink_prev pv b nx) (if h = Some b then nx b else h) (xs @ ys)"
proof -
  have d: "distinct (xs @ b # ys)" "dlinks nx pv (xs @ b # ys)" using assms by (auto simp: chain_def)
  note sp = d(2) [unfolded dlinks_split]
  have nb: "nx b = (case ys of [] \<Rightarrow> None | y # _ \<Rightarrow> Some y)"
    using assms sp by (cases ys; cases xs) (auto simp: chain_def)
  have pb: "pv b = (if xs = [] then None else Some (last xs))"
    using assms sp by (cases xs) (auto simp: chain_def)
  have h: "h = Some b \<longleftrightarrow> xs = []" using assms by (cases xs) (auto simp: chain_def)
  have dx: "xs \<noteq> [] \<Longrightarrow> dlinks nx pv xs" using sp by simp
  have dy: "ys \<noteq> [] \<Longrightarrow> dlinks nx pv ys" using sp by simp
  let ?nx = "unlink_next nx b pv" and ?pv = "unlink_prev pv b nx"
  have x: "dlinks ?nx ?pv xs" if "xs \<noteq> []"
  proof -
    have "dlinks ?nx ?pv xs = dlinks nx pv xs"
    proof (rule dlinks_cong)
      fix x assume "x \<in> set (butlast xs)"
      then have "x \<noteq> last xs" using d(1) that
        by (metis append_butlast_last_id distinct_append not_distinct_conv_prefix)
      then show "?nx x = nx x" using pb that by (simp add: unlink_next_def)
    next
      fix x assume "x \<in> set (tl xs)"
      then have "x \<in> set xs" by (cases xs) auto
      then show "?pv x = pv x" using nb d(1) by (auto simp: unlink_prev_def split: list.splits)
    qed
    with dx that show ?thesis by simp
  qed
  have y: "dlinks ?nx ?pv ys" if "ys \<noteq> []"
  proof -
    have "dlinks ?nx ?pv ys = dlinks nx pv ys"
    proof (rule dlinks_cong)
      fix x assume "x \<in> set (butlast ys)"
      then have "x \<in> set ys" by (rule in_set_butlastD)
      have "pv b \<noteq> Some x"
      proof
        assume "pv b = Some x"
        then have "xs \<noteq> []" "x = last xs" using pb by (auto split: if_splits)
        then have "x \<in> set xs" by simp
        with \<open>x \<in> set ys\<close> d(1) show False by auto
      qed
      then show "?nx x = nx x" by (auto simp: unlink_next_def split: option.splits)
    next
      fix x assume x: "x \<in> set (tl ys)"
      then have "x \<noteq> hd ys" using d(1) that by (cases ys) auto
      then show "?pv x = pv x" using nb that by (cases ys) (auto simp: unlink_prev_def)
    qed
    with dy that show ?thesis by simp
  qed
  have mid: "?nx (last xs) = Some (hd ys) \<and> ?pv (hd ys) = Some (last xs)" if "xs \<noteq> []" "ys \<noteq> []"
    using that nb pb by (cases ys) (auto simp: unlink_next_def unlink_prev_def)
  have "dlinks ?nx ?pv (xs @ ys)"
    using x y mid by (cases "xs = []"; cases "ys = []") (simp_all add: dlinks_app2)
  moreover have "xs = [] \<Longrightarrow> ys \<noteq> [] \<Longrightarrow> ?pv (hd ys) = None \<and> ?nx (last ys) = None"
    using assms nb pb by (cases ys) (auto simp: unlink_prev_def unlink_next_def chain_def)
  moreover have "xs \<noteq> [] \<Longrightarrow> ?pv (hd xs) = None"
    using assms nb d(1) by (cases xs) (auto simp: unlink_prev_def chain_def split: list.splits)
  moreover have "xs \<noteq> [] \<Longrightarrow> ?nx (last (xs @ ys)) = None"
  proof -
    assume "xs \<noteq> []"
    moreover from this have "nx (last (b # ys)) = None" using assms by (cases xs) (auto simp: chain_def)
    moreover have "last xs \<noteq> last ys" if "ys \<noteq> []"
      using d(1) \<open>xs \<noteq> []\<close> that by (metis Int_iff append_Nil disjoint_insert(1) distinct_append empty_iff last_in_set list.simps(15) insert_iff)
    ultimately show ?thesis using nb pb by (cases ys) (auto simp: unlink_next_def)
  qed
  moreover have "xs \<noteq> [] \<Longrightarrow> h = Some (hd xs)" using assms by (cases xs) (auto simp: chain_def)
  ultimately show ?thesis
    using d(1) h nb by (cases xs; cases ys) (auto simp: chain_def)
qed

lemma chain_cong:
  assumes "\<And>x. x \<in> set xs \<Longrightarrow> nx' x = nx x" "\<And>x. x \<in> set xs \<Longrightarrow> pv' x = pv x" "h' = h"
  shows "chain nx' pv' h' xs = chain nx pv h xs"
proof -
  have "dlinks nx' pv' xs = dlinks nx pv xs"
  proof (rule dlinks_cong)
    fix x assume "x \<in> set (butlast xs)"
    then show "nx' x = nx x" by (intro assms(1)) (rule in_set_butlastD)
  next
    fix x assume "x \<in> set (tl xs)"
    then have "x \<in> set xs" by (cases xs) simp_all
    then show "pv' x = pv x" by (rule assms(2))
  qed
  moreover have "nx' (last xs) = nx (last xs)" if "xs \<noteq> []" using assms(1) that by simp
  ultimately show ?thesis using assms by (cases xs) (auto simp: chain_def)
qed

lemma chain_neighbours:
  assumes "chain nx pv h xs" "b \<in> set xs"
  shows "nx b = Some n \<Longrightarrow> n \<in> set xs" "pv b = Some p \<Longrightarrow> p \<in> set xs"
proof -
  obtain us vs where xs: "xs = us @ b # vs" using assms(2) by (meson split_list)
  have d: "dlinks nx pv (us @ b # vs)" "distinct xs" using assms(1) xs by (auto simp: chain_def)
  show "n \<in> set xs" if "nx b = Some n"
  proof (cases "vs = []")
    case True
    then have "nx b = None" using assms(1) xs by (cases us) (auto simp: chain_def)
    then show ?thesis using that by simp
  next
    case False
    then show ?thesis using d(1) that xs by (cases vs) (auto simp: dlinks_split)
  qed
  show "p \<in> set xs" if "pv b = Some p"
  proof (cases "us = []")
    case True
    then have "pv b = None" using assms(1) xs by (auto simp: chain_def)
    then show ?thesis using that by simp
  next
    case False
    then show ?thesis using d(1) that xs by (auto simp: dlinks_split)
  qed
qed

lemma cyc_remove1:
  assumes "cyc nx pv fl" "b \<in> set fl" "2 \<le> length fl"
  shows "\<exists>p n. pv b = Some p \<and> nx b = Some n \<and>
    cyc (nx(p := Some n)) (pv(n := Some p)) (remove1 b fl) \<and>
    (if hd fl = b then n = hd (remove1 b fl) else hd fl = hd (remove1 b fl))"
proof -
  obtain xs ys where fl: "fl = xs @ b # ys" "b \<notin> set xs"
    using assms(2) by (meson split_list_first)
  let ?zs = "ys @ xs"
  have ne: "?zs \<noteq> []" using assms(3) fl by (cases xs; cases ys) auto
  have c: "cyc nx pv (b # ?zs)" using assms(1) cyc_rotate [of nx pv xs "b # ys"] fl by simp
  have r: "remove1 b fl = xs @ ys" using fl by (simp add: remove1_append)
  have "cyc (nx(last ?zs := Some (hd ?zs))) (pv(hd ?zs := Some (last ?zs))) (xs @ ys)"
    using cyc_remove [OF c ne] cyc_rotate by blast
  moreover have "if hd fl = b then hd ?zs = hd (xs @ ys) else hd fl = hd (xs @ ys)"
    using fl ne by (cases xs) auto
  ultimately show ?thesis using cyc_links [OF c ne] r by auto
qed

lemma dlinks_upt:
  "(\<And>i. a \<le> i \<Longrightarrow> Suc i < b \<Longrightarrow> nx i = Some (Suc i) \<and> pv (Suc i) = Some i) \<Longrightarrow> dlinks nx pv [a..<b]"
proof (induction "b - a" arbitrary: a)
  case (Suc k)
  then have ab: "[a..<b] = a # [Suc a..<b]" by (simp add: upt_conv_Cons)
  show ?case
  proof (cases "Suc a < b")
    case True
    have "dlinks nx pv [Suc a..<b]" by (rule Suc.hyps(1)) (use Suc.hyps(2) Suc.prems in auto)
    then show ?thesis using ab True Suc.prems [of a] by (simp add: dlinks_Cons)
  next
    case False
    then show ?thesis using ab by simp
  qed
qed simp

end
