(* ===== verification/Buffer_Queues.thy ===== *)
theory Buffer_Queues imports Buffer Links Example begin

text \<open>
  The shape of the buffer cache: the free list is a ring through all buffers, the hash chains hold
  exactly the buffers with a device, each in the chain of its hash value, and no block is cached
  twice. \<open>getblk\<close>'s queue operations keep this shape and move the buffer they take to the end
  of the free list.
\<close>

section \<open>Updates of buffer heads\<close>

lemma upd_buf_simps [simp]:
  "buffers (upd_buf b f s) x = (if x = b then f (buffers s b) else buffers s x)"
  "nr_buffers (upd_buf b f s) = nr_buffers s"
  "hash_table (upd_buf b f s) = hash_table s"
  "free_list (upd_buf b f s) = free_list s"
  "null_b_prev (upd_buf b f s) = null_b_prev s"
  "disk (upd_buf b f s) = disk s"
  "has_driver (upd_buf b f s) = has_driver s"
  "inode_table (upd_buf b f s) = inode_table s"
  "super_block (upd_buf b f s) = super_block s"
  "last_inode (upd_buf b f s) = last_inode s"
  "ROOT_DEV (upd_buf b f s) = ROOT_DEV s"
  "file_table (upd_buf b f s) = file_table s"
  "mem (upd_buf b f s) = mem s"
  "umem (upd_buf b f s) = umem s"
  "task (upd_buf b f s) = task s"
  "current (upd_buf b f s) = current s"
  "jiffies (upd_buf b f s) = jiffies s"
  "startup_time (upd_buf b f s) = startup_time s"
  by (simp_all add: upd_buf_def)

section \<open>The pointer fields as functions\<close>

definition nxf :: "kst \<Rightarrow> link" where "nxf s x = b_next_free (buffers s x)"
definition pvf :: "kst \<Rightarrow> link" where "pvf s x = b_prev_free (buffers s x)"
definition nxh :: "kst \<Rightarrow> link" where "nxh s x = b_next (buffers s x)"
definition pvh :: "kst \<Rightarrow> link" where "pvh s x = b_prev (buffers s x)"

lemmas link_defs = nxf_def pvf_def nxh_def pvh_def

definition bkey :: "kst \<Rightarrow> nat \<Rightarrow> nat" where
  "bkey s b = hashfn (b_dev (buffers s b)) (b_blocknr (buffers s b))"

definition cache_ok :: "nat list \<Rightarrow> (nat \<Rightarrow> nat list) \<Rightarrow> kst \<Rightarrow> bool" where
  "cache_ok fl ch s \<longleftrightarrow>
     cyc (nxf s) (pvf s) fl \<and> set fl = {..<nr_buffers s} \<and> free_list s = Some (hd fl) \<and>
     (\<forall>h<NR_HASH. chain (nxh s) (pvh s) (hash_table s h) (ch h) \<and>
        set (ch h) = {b. b < nr_buffers s \<and> b_dev (buffers s b) \<noteq> 0 \<and> bkey s b = h}) \<and>
     (\<forall>a<nr_buffers s. \<forall>b<nr_buffers s. b_dev (buffers s a) \<noteq> 0 \<and>
        b_dev (buffers s a) = b_dev (buffers s b) \<and> b_blocknr (buffers s a) = b_blocknr (buffers s b)
        \<longrightarrow> a = b) \<and>
     (\<forall>b<nr_buffers s. b_dev (buffers s b) = 0 \<longrightarrow> nxh s b = None \<and> pvh s b = None)"

definition cache_inv :: "kst \<Rightarrow> bool" where
  "cache_inv s \<longleftrightarrow> 2 \<le> nr_buffers s \<and> (\<exists>fl ch. cache_ok fl ch s)"

text \<open>The parts of a state the shape depends on.\<close>

definition same_queues :: "kst \<Rightarrow> kst \<Rightarrow> bool" where
  "same_queues s t \<longleftrightarrow> nr_buffers t = nr_buffers s \<and> hash_table t = hash_table s \<and>
     free_list t = free_list s \<and>
     (\<forall>b. b_dev (buffers t b) = b_dev (buffers s b) \<and> b_blocknr (buffers t b) = b_blocknr (buffers s b) \<and>
        b_next (buffers t b) = b_next (buffers s b) \<and> b_prev (buffers t b) = b_prev (buffers s b) \<and>
        b_next_free (buffers t b) = b_next_free (buffers s b) \<and>
        b_prev_free (buffers t b) = b_prev_free (buffers s b))"

lemma same_queues_refl [simp]: "same_queues s s"
  by (simp add: same_queues_def)

lemma same_queues_trans: "same_queues s t \<Longrightarrow> same_queues t u \<Longrightarrow> same_queues s u"
  by (simp add: same_queues_def)

lemma cache_ok_cong: "same_queues s t \<Longrightarrow> cache_ok fl ch t \<longleftrightarrow> cache_ok fl ch s"
proof -
  assume "same_queues s t"
  then have "nxf t = nxf s" "pvf t = pvf s" "nxh t = nxh s" "pvh t = pvh s" "bkey t = bkey s"
    and "nr_buffers t = nr_buffers s" "hash_table t = hash_table s" "free_list t = free_list s"
    and "\<And>b. b_dev (buffers t b) = b_dev (buffers s b)" "\<And>b. b_blocknr (buffers t b) = b_blocknr (buffers s b)"
    by (auto simp: same_queues_def link_defs bkey_def fun_eq_iff)
  then show ?thesis by (simp add: cache_ok_def)
qed

lemma cache_inv_cong: "same_queues s t \<Longrightarrow> cache_inv t \<longleftrightarrow> cache_inv s"
  by (simp add: cache_inv_def cache_ok_cong) (simp add: same_queues_def)

lemma cache_okD:
  assumes "cache_ok fl ch s"
  shows "cyc (nxf s) (pvf s) fl" "set fl = {..<nr_buffers s}" "free_list s = Some (hd fl)"
    "h < NR_HASH \<Longrightarrow> chain (nxh s) (pvh s) (hash_table s h) (ch h)"
    "h < NR_HASH \<Longrightarrow> set (ch h) = {b. b < nr_buffers s \<and> b_dev (buffers s b) \<noteq> 0 \<and> bkey s b = h}"
    "b_dev (buffers s b) = 0 \<Longrightarrow> b < nr_buffers s \<Longrightarrow> nxh s b = None \<and> pvh s b = None"
  using assms unfolding cache_ok_def by blast+

lemma cache_ok_uniq:
  assumes "cache_ok fl ch s" "a < nr_buffers s" "b < nr_buffers s" "b_dev (buffers s a) \<noteq> 0"
    "b_dev (buffers s a) = b_dev (buffers s b)" "b_blocknr (buffers s a) = b_blocknr (buffers s b)"
  shows "a = b"
  using assms unfolding cache_ok_def by blast

lemma hashfn_less: "hashfn dev blk < NR_HASH"
  by (simp add: hashfn_def NR_HASH_def)

section \<open>Looking a block up\<close>

lemma find_chain_complete:
  assumes "dlinks (nxh s) (pvh s) xs" "case xs of [] \<Rightarrow> h = None | x # _ \<Rightarrow> h = Some x \<and> nxh s (last xs) = None"
    and "length xs \<le> n"
  shows "find_chain n dev blk h s =
    Inr (find (\<lambda>b. b_dev (buffers s b) = dev \<and> b_blocknr (buffers s b) = blk) xs)"
  using assms
proof (induction xs arbitrary: n h)
  case Nil
  then show ?case by simp
next
  case (Cons x xs)
  then obtain m where n: "n = Suc m" by (cases n) auto
  have h: "h = Some x" using Cons.prems by simp
  show ?case
  proof (cases "b_dev (buffers s x) = dev \<and> b_blocknr (buffers s x) = blk")
    case False
    have "find_chain m dev blk (nxh s x) s =
        Inr (find (\<lambda>b. b_dev (buffers s b) = dev \<and> b_blocknr (buffers s b) = blk) xs)"
      by (rule Cons.IH) (use Cons.prems n in \<open>cases xs; auto\<close>)+
    then have "find_chain m dev blk (b_next (buffers s x)) s =
        Inr (find (\<lambda>b. b_dev (buffers s b) = dev \<and> b_blocknr (buffers s b) = blk) xs)"
      by (simp only: nxh_def)
    moreover from False have "find (\<lambda>b. b_dev (buffers s b) = dev \<and> b_blocknr (buffers s b) = blk) (x # xs) =
        find (\<lambda>b. b_dev (buffers s b) = dev \<and> b_blocknr (buffers s b) = blk) xs" by auto
    ultimately show ?thesis using False unfolding h n find_chain.simps by argo
  qed (simp add: h n)
qed

lemma find_buffer_find:
  assumes "cache_ok fl ch s"
  shows "find_buffer dev blk s =
    Inr (find (\<lambda>b. b_dev (buffers s b) = dev \<and> b_blocknr (buffers s b) = blk) (ch (hashfn dev blk)))"
proof -
  let ?h = "hashfn dev blk"
  have c: "chain (nxh s) (pvh s) (hash_table s ?h) (ch ?h)" "set (ch ?h) \<subseteq> {..<nr_buffers s}"
    using cache_okD(4,5) [OF assms hashfn_less] by blast+
  then have "card (set (ch ?h)) \<le> nr_buffers s" by (metis card_lessThan card_mono finite_lessThan)
  then have "length (ch ?h) \<le> nr_buffers s" using c(1) by (simp add: chain_def distinct_card)
  then show ?thesis
    unfolding find_buffer_def using c(1)
    by (intro find_chain_complete) (auto simp: chain_def split: list.splits)
qed

lemma find_SomeD: "find P xs = Some x \<Longrightarrow> x \<in> set xs \<and> P x"
  by (induction xs) (auto split: if_splits)

lemma find_buffer_iff:
  assumes "cache_inv s" "dev \<noteq> 0"
  shows "find_buffer dev blk s = Inr (Some b) \<longleftrightarrow>
      b < nr_buffers s \<and> b_dev (buffers s b) = dev \<and> b_blocknr (buffers s b) = blk"
    and "find_buffer dev blk s = Inr None \<longleftrightarrow>
      \<not> (\<exists>b<nr_buffers s. b_dev (buffers s b) = dev \<and> b_blocknr (buffers s b) = blk)"
proof -
  obtain fl ch where ok: "cache_ok fl ch s" using assms(1) by (auto simp: cache_inv_def)
  let ?P = "\<lambda>b. b_dev (buffers s b) = dev \<and> b_blocknr (buffers s b) = blk"
  have mem: "b \<in> set (ch (hashfn dev blk)) \<and> ?P b \<longleftrightarrow> b < nr_buffers s \<and> ?P b" for b
    using cache_okD(5) [OF ok hashfn_less] assms(2) by (auto simp: bkey_def)
  have uniq: "a < nr_buffers s \<Longrightarrow> b < nr_buffers s \<Longrightarrow> ?P a \<Longrightarrow> ?P b \<Longrightarrow> a = b" for a b
    using cache_ok_uniq [OF ok, of a b] assms(2) by auto
  have f: "b < nr_buffers s \<and> ?P b" if "find ?P (ch (hashfn dev blk)) = Some b" for b
    using find_SomeD [OF that] mem by blast
  have e: "find ?P (ch (hashfn dev blk)) = Some b" if "b < nr_buffers s \<and> ?P b" for b
  proof -
    have "find ?P (ch (hashfn dev blk)) \<noteq> None"
      unfolding find_None_iff using that mem [of b] by blast
    then obtain a where a: "find ?P (ch (hashfn dev blk)) = Some a" by blast
    from f [OF a] that uniq [of a b] a show ?thesis by simp
  qed
  show "find_buffer dev blk s = Inr (Some b) \<longleftrightarrow> b < nr_buffers s \<and> ?P b"
    unfolding find_buffer_find [OF ok] sum.inject using f e by blast
  show "find_buffer dev blk s = Inr None \<longleftrightarrow> \<not> (\<exists>b<nr_buffers s. ?P b)"
    unfolding find_buffer_find [OF ok] sum.inject find_None_iff using mem by blast
qed

section \<open>Removal and insertion\<close>

text \<open>What a store into a pointer field does to the four pointer functions.\<close>

lemma link_upd_gen:
  "nxf (upd_buf b f s) = (nxf s)(b := b_next_free (f (buffers s b)))"
  "pvf (upd_buf b f s) = (pvf s)(b := b_prev_free (f (buffers s b)))"
  "nxh (upd_buf b f s) = (nxh s)(b := b_next (f (buffers s b)))"
  "pvh (upd_buf b f s) = (pvh s)(b := b_prev (f (buffers s b)))"
  by (rule ext, simp add: link_defs)+

lemma link_upd [simp]:
  "nxf (upd_buf b (b_next_free_update (\<lambda>_. v)) s) = (nxf s)(b := v)"
  "pvf (upd_buf b (b_next_free_update (\<lambda>_. v)) s) = pvf s"
  "nxh (upd_buf b (b_next_free_update (\<lambda>_. v)) s) = nxh s"
  "pvh (upd_buf b (b_next_free_update (\<lambda>_. v)) s) = pvh s"
  "nxf (upd_buf b (b_prev_free_update (\<lambda>_. v)) s) = nxf s"
  "pvf (upd_buf b (b_prev_free_update (\<lambda>_. v)) s) = (pvf s)(b := v)"
  "nxh (upd_buf b (b_prev_free_update (\<lambda>_. v)) s) = nxh s"
  "pvh (upd_buf b (b_prev_free_update (\<lambda>_. v)) s) = pvh s"
  "nxf (upd_buf b (b_next_update (\<lambda>_. v)) s) = nxf s"
  "pvf (upd_buf b (b_next_update (\<lambda>_. v)) s) = pvf s"
  "nxh (upd_buf b (b_next_update (\<lambda>_. v)) s) = (nxh s)(b := v)"
  "pvh (upd_buf b (b_next_update (\<lambda>_. v)) s) = pvh s"
  "nxf (upd_buf b (b_prev_update (\<lambda>_. v)) s) = nxf s"
  "pvf (upd_buf b (b_prev_update (\<lambda>_. v)) s) = pvf s"
  "nxh (upd_buf b (b_prev_update (\<lambda>_. v)) s) = nxh s"
  "pvh (upd_buf b (b_prev_update (\<lambda>_. v)) s) = (pvh s)(b := v)"
  by (simp_all add: link_upd_gen link_defs [symmetric])

lemma link_upd2 [simp]:
  "nxf (upd_buf b (\<lambda>h. h\<lparr>b_prev := v, b_next := w\<rparr>) s) = nxf s"
  "pvf (upd_buf b (\<lambda>h. h\<lparr>b_prev := v, b_next := w\<rparr>) s) = pvf s"
  "nxh (upd_buf b (\<lambda>h. h\<lparr>b_prev := v, b_next := w\<rparr>) s) = (nxh s)(b := w)"
  "pvh (upd_buf b (\<lambda>h. h\<lparr>b_prev := v, b_next := w\<rparr>) s) = (pvh s)(b := v)"
  by (simp_all add: link_upd_gen link_defs [symmetric])

lemma link_glob [simp]:
  "nxf (s\<lparr>hash_table := x\<rparr>) = nxf s" "nxf (s\<lparr>free_list := y\<rparr>) = nxf s" "nxf (s\<lparr>null_b_prev := z\<rparr>) = nxf s"
  "pvf (s\<lparr>hash_table := x\<rparr>) = pvf s" "pvf (s\<lparr>free_list := y\<rparr>) = pvf s" "pvf (s\<lparr>null_b_prev := z\<rparr>) = pvf s"
  "nxh (s\<lparr>hash_table := x\<rparr>) = nxh s" "nxh (s\<lparr>free_list := y\<rparr>) = nxh s" "nxh (s\<lparr>null_b_prev := z\<rparr>) = nxh s"
  "pvh (s\<lparr>hash_table := x\<rparr>) = pvh s" "pvh (s\<lparr>free_list := y\<rparr>) = pvh s" "pvh (s\<lparr>null_b_prev := z\<rparr>) = pvh s"
  by (auto simp: link_defs fun_eq_iff)

text \<open>Everything of a buffer head but its pointers, and everything of a state but the cache's.\<close>

definition payload :: "buffer_head \<Rightarrow> block \<times> u32 \<times> u16 \<times> bool \<times> bool \<times> u8 \<times> bool" where
  "payload h = (b_data h, b_blocknr h, b_dev h, b_uptodate h, b_dirt h, b_count h, b_lock h)"

lemma payload_upd [simp]:
  "payload (h\<lparr>b_next := v\<rparr>) = payload h" "payload (h\<lparr>b_prev := v\<rparr>) = payload h"
  "payload (h\<lparr>b_next_free := v\<rparr>) = payload h" "payload (h\<lparr>b_prev_free := v\<rparr>) = payload h"
  by (simp_all add: payload_def)

lemma payload_upd_buf [simp]:
  "(\<And>h. payload (f h) = payload h) \<Longrightarrow> payload (buffers (upd_buf b f s) x) = payload (buffers s x)"
  by simp

definition rest_eq :: "kst \<Rightarrow> kst \<Rightarrow> bool" where
  "rest_eq s t \<longleftrightarrow> t = s\<lparr>buffers := buffers t, hash_table := hash_table t, free_list := free_list t,
     null_b_prev := null_b_prev t\<rparr>"

lemma rest_eq_upd [simp]: "rest_eq s (upd_buf b f t) = rest_eq s t"
  "rest_eq s (t\<lparr>hash_table := x\<rparr>) = rest_eq s t" "rest_eq s (t\<lparr>free_list := y\<rparr>) = rest_eq s t"
  "rest_eq s (t\<lparr>null_b_prev := z\<rparr>) = rest_eq s t" "rest_eq s s"
  by (cases s; cases t; simp add: rest_eq_def upd_buf_def)+

lemma payload_dest:
  assumes "payload h = payload g"
  shows "b_dev h = b_dev g" "b_blocknr h = b_blocknr g" "b_data h = b_data g" "b_uptodate h = b_uptodate g"
    "b_dirt h = b_dirt g" "b_count h = b_count g" "b_lock h = b_lock g"
  using assms by (simp_all add: payload_def)

definition same_payload :: "kst \<Rightarrow> kst \<Rightarrow> bool" where
  "same_payload s t \<longleftrightarrow> rest_eq s t \<and> (\<forall>x. payload (buffers t x) = payload (buffers s x))"

lemma remove_fields:
  assumes "pvf s b = Some p" "nxf s b = Some n"
  shows "\<exists>t. remove_from_queues b s = Inr t \<and>
    nxf t = (nxf s)(p := Some n) \<and> pvf t = (pvf s)(n := Some p) \<and>
    nxh t = unlink_next (nxh s) b (pvh s) \<and> pvh t = unlink_prev (pvh s) b (nxh s) \<and>
    hash_table t = (if hash_table s (bkey s b) = Some b then (hash_table s)(bkey s b := nxh s b) else hash_table s) \<and>
    free_list t = (if free_list s = Some b then Some n else free_list s) \<and> same_payload s t"
proof -
  let ?s1 = "case b_next (buffers s b) of None \<Rightarrow> s
     | Some n \<Rightarrow> upd_buf n (\<lambda>h. h\<lparr>b_prev := b_prev (buffers s b)\<rparr>) s"
  let ?s2 = "case b_prev (buffers ?s1 b) of None \<Rightarrow> ?s1
     | Some p \<Rightarrow> upd_buf p (\<lambda>h. h\<lparr>b_next := b_next (buffers ?s1 b)\<rparr>) ?s1"
  have s1: "nxf ?s1 = nxf s" "pvf ?s1 = pvf s" "nxh ?s1 = nxh s" "pvh ?s1 = unlink_prev (pvh s) b (nxh s)"
    "hash_table ?s1 = hash_table s" "free_list ?s1 = free_list s" "same_payload s ?s1"
    by (auto simp: unlink_prev_def same_payload_def nxh_def pvh_def split: option.splits)
  have q: "pvh ?s1 b = pvh s b" using s1(4) by (auto simp: unlink_prev_def split: option.splits)
  have s2: "nxf ?s2 = nxf s" "pvf ?s2 = pvf s" "nxh ?s2 = unlink_next (nxh s) b (pvh s)"
     "pvh ?s2 = unlink_prev (pvh s) b (nxh s)" "hash_table ?s2 = hash_table s" "free_list ?s2 = free_list s"
     "same_payload s ?s2"
  proof -
    have "b_prev (buffers ?s1 b) = pvh s b" "b_next (buffers ?s1 b) = nxh s b"
      using q s1(3) by (simp_all add: pvh_def nxh_def fun_eq_iff)
    moreover obtain u where u: "u = ?s1" by simp
    moreover have "same_payload s (upd_buf p (\<lambda>h. h\<lparr>b_next := v\<rparr>) u)" for p v
      using s1(7) unfolding u [symmetric] by (simp add: same_payload_def)
    ultimately show "nxf ?s2 = nxf s" "pvf ?s2 = pvf s" "nxh ?s2 = unlink_next (nxh s) b (pvh s)"
     "pvh ?s2 = unlink_prev (pvh s) b (nxh s)" "hash_table ?s2 = hash_table s" "free_list ?s2 = free_list s"
     "same_payload s ?s2"
      using s1 unfolding u [symmetric] by (cases "pvh s b"; simp add: unlink_next_def)+
  qed
  obtain u where u: "u = ?s2" by simp
  note s2 = s2 [folded u]
  have key: "hashfn (b_dev (buffers u b)) (b_blocknr (buffers u b)) = bkey s b"
    using s2(7) payload_dest(1,2) [of "buffers u b" "buffers s b"] by (simp add: same_payload_def bkey_def)
  have nx: "b_next (buffers u b) = nxh s b"
    using s2(3) by (auto simp: unlink_next_def nxh_def [symmetric] split: option.splits)
  let ?v = "if hash_table u (bkey s b) = Some b
               then u\<lparr>hash_table := (hash_table u)(bkey s b := nxh s b)\<rparr> else u"
  obtain v where v: "v = ?v" by simp
  have sv: "nxf v = nxf s" "pvf v = pvf s" "nxh v = unlink_next (nxh s) b (pvh s)"
     "pvh v = unlink_prev (pvh s) b (nxh s)" "free_list v = free_list s" "same_payload s v"
     "hash_table v = (if hash_table s (bkey s b) = Some b then (hash_table s)(bkey s b := nxh s b) else hash_table s)"
    using s2 by (auto simp: v same_payload_def)
  have pn: "b_prev_free (buffers v b) = Some p" "b_next_free (buffers v b) = Some n"
    using sv(1,2) assms by (simp_all add: nxf_def pvf_def fun_eq_iff)
  let ?w = "upd_buf p (\<lambda>h. h\<lparr>b_next_free := Some n\<rparr>) v"
  have w: "b_prev_free (buffers ?w b) = Some p" "b_next_free (buffers ?w b) = Some n"
    using pn by auto
  let ?x = "upd_buf n (\<lambda>h. h\<lparr>b_prev_free := Some p\<rparr>) ?w"
  have "remove_from_queues b s = Inr (if free_list ?x = Some b then ?x\<lparr>free_list := b_next_free (buffers ?x b)\<rparr> else ?x)"
    unfolding remove_from_queues_def Let_def u [symmetric] key nx v [symmetric] pn prod.case option.case w ..
  moreover have "b_next_free (buffers ?x b) = Some n" using w by (auto split: if_splits)
  ultimately show ?thesis using sv by (simp add: same_payload_def)
qed

lemma insert_fields:
  assumes "free_list s = Some f" "pvf s f = Some p" "f \<noteq> b"
  shows "\<exists>t. insert_into_queues b s = Inr t \<and>
    nxf t = (nxf s)(b := Some f, p := Some b) \<and> pvf t = (pvf s)(b := Some p, f := Some b) \<and>
    (if b_dev (buffers s b) = 0 then nxh t = (nxh s)(b := None) \<and> pvh t = (pvh s)(b := None) \<and>
       hash_table t = hash_table s
     else nxh t = (nxh s)(b := hash_table s (bkey s b)) \<and>
       pvh t = (case hash_table s (bkey s b) of None \<Rightarrow> (pvh s)(b := None)
                | Some x \<Rightarrow> (pvh s)(b := None, x := Some b)) \<and>
       hash_table t = (hash_table s)(bkey s b := Some b)) \<and>
    free_list t = free_list s \<and> same_payload s t"
proof -
  let ?s1 = "upd_buf b (\<lambda>h. h\<lparr>b_next_free := Some f\<rparr>) s"
  have p1: "b_prev_free (buffers ?s1 f) = Some p" using assms by (simp add: pvf_def)
  let ?s2 = "upd_buf b (\<lambda>h. h\<lparr>b_prev_free := Some p\<rparr>) ?s1"
  have p2: "b_prev_free (buffers ?s2 f) = Some p" using p1 assms by simp
  let ?s3 = "upd_buf f (\<lambda>h. h\<lparr>b_prev_free := Some b\<rparr>) (upd_buf p (\<lambda>h. h\<lparr>b_next_free := Some b\<rparr>) ?s2)"
  obtain u where u: "u = upd_buf b (\<lambda>h. h\<lparr>b_prev := None, b_next := None\<rparr>) ?s3" by simp
  have su: "nxf u = (nxf s)(b := Some f, p := Some b)" "pvf u = (pvf s)(b := Some p, f := Some b)"
    "nxh u = (nxh s)(b := None)" "pvh u = (pvh s)(b := None)" "hash_table u = hash_table s"
    "free_list u = free_list s" "same_payload s u"
    by (simp_all add: u same_payload_def)
  have pay: "b_dev (buffers u b) = b_dev (buffers s b)" "b_blocknr (buffers u b) = b_blocknr (buffers s b)"
    using su(7) payload_dest(1,2) [of "buffers u b" "buffers s b"] by (simp_all add: same_payload_def)
  have key: "hashfn (b_dev (buffers s b)) (b_blocknr (buffers s b)) = bkey s b"
    by (simp add: bkey_def)
  have ins: "insert_into_queues b s = (if b_dev (buffers s b) = 0 then Inr u else
     let v = upd_buf b (\<lambda>x. x\<lparr>b_next := hash_table u (bkey s b)\<rparr>) u;
         s' = v\<lparr>hash_table := (hash_table v)(bkey s b \<mapsto> b)\<rparr>
     in Inr (case b_next (buffers s' b) of
           None \<Rightarrow> s'\<lparr>null_b_prev := Some b\<rparr>
         | Some n \<Rightarrow> upd_buf n (\<lambda>x. x\<lparr>b_prev := Some b\<rparr>) s'))"
    unfolding insert_into_queues_def Let_def assms(1) option.case p1 p2 u [symmetric] pay key ..
  show ?thesis
  proof (cases "b_dev (buffers s b) = 0")
    case True
    with su show ?thesis by (auto simp: ins)
  next
    case False
    with False su show ?thesis
      by (cases "hash_table s (bkey s b)") (simp_all add: ins Let_def same_payload_def)
  qed
qed

text \<open>Off the queues: the ring and the chains without the buffer.\<close>

lemma remove_chains:
  assumes "cache_ok fl ch s" "b < nr_buffers s" "h < NR_HASH"
  shows "chain (unlink_next (nxh s) b (pvh s)) (unlink_prev (pvh s) b (nxh s))
    ((if hash_table s (bkey s b) = Some b then (hash_table s)(bkey s b := nxh s b) else hash_table s) h)
    (remove1 b (ch h))"
proof -
  note ok = cache_okD [OF assms(1)]
  have c: "chain (nxh s) (pvh s) (hash_table s h) (ch h)" by (rule ok(4) [OF assms(3)])
  have k: "bkey s b < NR_HASH" by (simp add: bkey_def hashfn_less)
  show ?thesis
  proof (cases "b \<in> set (ch h)")
    case True
    then have h: "bkey s b = h" using ok(5) [OF assms(3)] by simp
    obtain xs ys where xs: "ch h = xs @ b # ys" "b \<notin> set xs" using True by (meson split_list_first)
    have r: "remove1 b (ch h) = xs @ ys" using xs by (simp add: remove1_append)
    show ?thesis unfolding h r using chain_remove [OF c [unfolded xs(1)]] by (auto split: if_splits)
  next
    case False
    have ht: "(if hash_table s (bkey s b) = Some b then (hash_table s)(bkey s b := nxh s b) else hash_table s) h = hash_table s h"
    proof (cases "bkey s b = h")
      case True
      then have "hash_table s h \<noteq> Some b" using c False by (auto simp: chain_def split: list.splits)
      then show ?thesis using True by simp
    qed simp
    have o: "nxh s b = Some x \<or> pvh s b = Some x \<Longrightarrow> x \<notin> set (ch h)" for x
    proof (cases "b_dev (buffers s b) = 0")
      case True
      assume "nxh s b = Some x \<or> pvh s b = Some x"
      then show ?thesis using ok(6) [OF True assms(2)] by simp
    next
      case d: False
      assume x: "nxh s b = Some x \<or> pvh s b = Some x"
      have b: "b \<in> set (ch (bkey s b))" using d assms(2) ok(5) [OF k] by simp
      then have "x \<in> set (ch (bkey s b))" using chain_neighbours [OF ok(4) [OF k] b] x by blast
      moreover have "bkey s b \<noteq> h" using b False by auto
      ultimately show ?thesis using ok(5) [OF k] ok(5) [OF assms(3)] by auto
    qed
    have "chain (unlink_next (nxh s) b (pvh s)) (unlink_prev (pvh s) b (nxh s)) (hash_table s h) (ch h) =
      chain (nxh s) (pvh s) (hash_table s h) (ch h)"
      by (rule chain_cong) (use o in \<open>auto simp: unlink_next_def unlink_prev_def split: option.splits\<close>)
    then show ?thesis using c False ht by (simp add: remove1_idem)
  qed
qed

lemma remove_none:
  assumes "cache_ok fl ch s" "b < nr_buffers s" "x < nr_buffers s" "b_dev (buffers s x) = 0"
  shows "unlink_next (nxh s) b (pvh s) x = None \<and> unlink_prev (pvh s) b (nxh s) x = None"
proof -
  note ok = cache_okD [OF assms(1)]
  have k: "bkey s b < NR_HASH" by (simp add: bkey_def hashfn_less)
  have n: "nxh s x = None" "pvh s x = None" using ok(6) [OF assms(4,3)] by simp_all
  have "nxh s b \<noteq> Some x \<and> pvh s b \<noteq> Some x"
  proof (cases "b_dev (buffers s b) = 0")
    case True
    then show ?thesis using ok(6) [OF True assms(2)] by simp
  next
    case d: False
    have b: "b \<in> set (ch (bkey s b))" using d assms(2) ok(5) [OF k] by simp
    have "x \<notin> set (ch (bkey s b))" using ok(5) [OF k] assms(4) by simp
    then show ?thesis using chain_neighbours [OF ok(4) [OF k] b] by blast
  qed
  then show ?thesis using n by (auto simp: unlink_next_def unlink_prev_def split: option.splits)
qed

lemma remove_shape:
  assumes "cache_ok fl ch s" "b < nr_buffers s" "2 \<le> nr_buffers s"
  shows "\<exists>t. remove_from_queues b s = Inr t \<and> cyc (nxf t) (pvf t) (remove1 b fl) \<and>
     free_list t = Some (hd (remove1 b fl)) \<and>
     (\<forall>h<NR_HASH. chain (nxh t) (pvh t) (hash_table t h) (remove1 b (ch h))) \<and>
     (\<forall>x<nr_buffers s. b_dev (buffers s x) = 0 \<longrightarrow> nxh t x = None \<and> pvh t x = None) \<and>
     same_payload s t"
proof -
  note ok = cache_okD [OF assms(1)]
  have "length fl = card (set fl)" using ok(1) by (simp add: cyc_def distinct_card)
  then have "2 \<le> length fl" "b \<in> set fl" using ok(2) assms by simp_all
  then obtain p n where pn: "pvf s b = Some p" "nxf s b = Some n"
    "cyc ((nxf s)(p := Some n)) ((pvf s)(n := Some p)) (remove1 b fl)"
    "if hd fl = b then n = hd (remove1 b fl) else hd fl = hd (remove1 b fl)"
    using cyc_remove1 [OF ok(1)] by blast
  from remove_fields [OF pn(1,2)] obtain t where t: "remove_from_queues b s = Inr t"
    "nxf t = (nxf s)(p := Some n)" "pvf t = (pvf s)(n := Some p)"
    "nxh t = unlink_next (nxh s) b (pvh s)" "pvh t = unlink_prev (pvh s) b (nxh s)"
    "hash_table t = (if hash_table s (bkey s b) = Some b then (hash_table s)(bkey s b := nxh s b) else hash_table s)"
    "free_list t = (if free_list s = Some b then Some n else free_list s)" "same_payload s t"
    by blast
  have "cyc (nxf t) (pvf t) (remove1 b fl)" using pn(3) t(2,3) by simp
  moreover have "free_list t = Some (hd (remove1 b fl))" using pn(4) t(7) ok(3) by (auto split: if_splits)
  moreover have "\<forall>h<NR_HASH. chain (nxh t) (pvh t) (hash_table t h) (remove1 b (ch h))"
    unfolding t(4,5,6) using remove_chains [OF assms(1,2)] by blast
  moreover have "\<forall>x<nr_buffers s. b_dev (buffers s x) = 0 \<longrightarrow> nxh t x = None \<and> pvh t x = None"
    unfolding t(4,5) using remove_none [OF assms(1,2)] by blast
  ultimately show ?thesis using t(1,8) by blast
qed

text \<open>Back on the queues under a new name: last on the ring, first on its chain.\<close>

lemma insert_chains:
  assumes c: "\<forall>h<NR_HASH. chain nx pv (ht h) (ch h) \<and> b \<notin> set (ch h)"
    and d: "\<forall>h<NR_HASH. h \<noteq> k \<longrightarrow> set (ch h) \<inter> set (ch k) = {}" and k: "k < NR_HASH" "h < NR_HASH"
  shows "chain (nx(b := ht k)) (case ht k of None \<Rightarrow> pv(b := None) | Some x \<Rightarrow> pv(b := None, x := Some b))
     ((ht(k := Some b)) h) (if h = k then b # ch h else ch h)"
proof (cases "h = k")
  case True
  have "chain nx pv (ht k) (ch k)" "b \<notin> set (ch k)" using c k by auto
  from chain_push [OF this] True show ?thesis by simp
next
  case False
  have hd: "ht k = Some x \<Longrightarrow> x \<in> set (ch k)" for x
    using c k(1) chain_head by metis
  have "chain (nx(b := ht k)) (case ht k of None \<Rightarrow> pv(b := None) | Some x \<Rightarrow> pv(b := None, x := Some b))
     (ht h) (ch h) = chain nx pv (ht h) (ch h)"
    by (rule chain_cong) (use False c d k hd in \<open>auto split: option.splits\<close>)
  then show ?thesis using False c k by auto
qed

lemma rest_eqD:
  assumes "rest_eq s t"
  shows "nr_buffers t = nr_buffers s" "disk t = disk s" "has_driver t = has_driver s"
    "inode_table t = inode_table s" "last_inode t = last_inode s" "super_block t = super_block s"
    "ROOT_DEV t = ROOT_DEV s" "file_table t = file_table s" "mem t = mem s" "umem t = umem s"
    "task t = task s" "current t = current s" "jiffies t = jiffies s" "startup_time t = startup_time s"
  using assms by (cases s; cases t; simp add: rest_eq_def)+

lemma rest_eq_left [simp]: "rest_eq (upd_buf b f s) t = rest_eq s t"
  by (cases s; cases t; simp add: rest_eq_def upd_buf_def)

lemma rest_eq_trans: "rest_eq s t \<Longrightarrow> rest_eq t u \<Longrightarrow> rest_eq s u"
  by (cases s; cases t; cases u; simp add: rest_eq_def)

lemma payload_fields:
  assumes "same_payload s t"
  shows "b_dev (buffers t x) = b_dev (buffers s x)" "b_blocknr (buffers t x) = b_blocknr (buffers s x)"
    "b_data (buffers t x) = b_data (buffers s x)" "b_uptodate (buffers t x) = b_uptodate (buffers s x)"
    "b_dirt (buffers t x) = b_dirt (buffers s x)" "b_count (buffers t x) = b_count (buffers s x)"
    "b_lock (buffers t x) = b_lock (buffers s x)" "nr_buffers t = nr_buffers s" "disk t = disk s"
    "rest_eq s t"
proof -
  have "payload (buffers t x) = payload (buffers s x)" and r: "rest_eq s t"
    using assms by (simp_all add: same_payload_def)
  then show "b_dev (buffers t x) = b_dev (buffers s x)" "b_blocknr (buffers t x) = b_blocknr (buffers s x)"
    "b_data (buffers t x) = b_data (buffers s x)" "b_uptodate (buffers t x) = b_uptodate (buffers s x)"
    "b_dirt (buffers t x) = b_dirt (buffers s x)" "b_count (buffers t x) = b_count (buffers s x)"
    "b_lock (buffers t x) = b_lock (buffers s x)" "rest_eq s t" by (simp_all add: payload_def)
  show "nr_buffers t = nr_buffers s" "disk t = disk s"
    using rest_eqD [OF r] by simp_all
qed

lemma take_buffer_ok:
  assumes ok: "cache_ok fl ch s" and b: "b < nr_buffers s" and two: "2 \<le> nr_buffers s" and d: "dev \<noteq> 0"
    and new: "\<forall>x<nr_buffers s. \<not> (b_dev (buffers s x) = dev \<and> b_blocknr (buffers s x) = blk)"
  shows "\<exists>t. take_buffer b dev blk s = Inr (b, t) \<and>
     cache_ok (remove1 b fl @ [b])
       (\<lambda>h. if h = hashfn dev blk then b # remove1 b (ch h) else remove1 b (ch h)) t \<and>
     same_payload (upd_buf b (\<lambda>h. h\<lparr>b_count := 1, b_dirt := False, b_uptodate := False,
        b_dev := dev, b_blocknr := blk\<rparr>) s) t"
proof -
  let ?s0 = "upd_buf b (\<lambda>h. h\<lparr>b_count := 1, b_dirt := False, b_uptodate := False\<rparr>) s"
  have "same_queues s ?s0" by (simp add: same_queues_def)
  then have ok0: "cache_ok fl ch ?s0" using ok by (simp add: cache_ok_cong)
  have b0: "b < nr_buffers ?s0" "2 \<le> nr_buffers ?s0" using b two by simp_all
  from remove_shape [OF ok0 b0] obtain u where u: "remove_from_queues b ?s0 = Inr u"
    "cyc (nxf u) (pvf u) (remove1 b fl)" "free_list u = Some (hd (remove1 b fl))"
    "\<forall>h<NR_HASH. chain (nxh u) (pvh u) (hash_table u h) (remove1 b (ch h))"
    "\<forall>x<nr_buffers s. b_dev (buffers ?s0 x) = 0 \<longrightarrow> nxh u x = None \<and> pvh u x = None"
    "same_payload ?s0 u" unfolding upd_buf_simps(2) by blast
  let ?u = "upd_buf b (\<lambda>h. h\<lparr>b_dev := dev, b_blocknr := blk\<rparr>) u"
  have lu: "nxf ?u = nxf u" "pvf ?u = pvf u" "nxh ?u = nxh u" "pvh ?u = pvh u"
    by (simp_all add: link_upd_gen link_defs [symmetric])
  note oks = cache_okD [OF ok]
  let ?fl = "remove1 b fl" and ?k = "hashfn dev blk"
  have fl: "distinct fl" "set fl = {..<nr_buffers s}" using oks(1,2) by (auto simp: cyc_def)
  have nb: "b \<notin> set ?fl" using fl by simp
  have ne: "?fl \<noteq> []" using u(2) by (simp add: cyc_def)
  then have f: "hd ?fl \<noteq> b" using nb by (metis hd_in_set)
  have p: "pvf ?u (hd ?fl) = Some (last ?fl)" unfolding lu using u(2) by (simp add: cyc_iff)
  have fre: "free_list ?u = Some (hd ?fl)" using u(3) by simp
  from insert_fields [OF fre p f] obtain t where t: "insert_into_queues b ?u = Inr t"
    "nxf t = (nxf u)(b := Some (hd ?fl), last ?fl := Some b)"
    "pvf t = (pvf u)(b := Some (last ?fl), hd ?fl := Some b)"
    "nxh t = (nxh u)(b := hash_table u ?k)"
    "pvh t = (case hash_table u ?k of None \<Rightarrow> (pvh u)(b := None) | Some x \<Rightarrow> (pvh u)(b := None, x := Some b))"
    "hash_table t = (hash_table u)(?k := Some b)"
    "free_list t = Some (hd ?fl)" "same_payload ?u t"
    unfolding lu using d u(3) by (auto simp: bkey_def)
  have tk: "take_buffer b dev blk s = Inr (b, t)"
    unfolding take_buffer_def u(1) bindk_Inr t(1) ..
  have pay: "same_payload (upd_buf b (\<lambda>h. h\<lparr>b_count := 1, b_dirt := False, b_uptodate := False,
        b_dev := dev, b_blocknr := blk\<rparr>) s) t"
  proof -
    have "rest_eq s t" using t(8) u(6) rest_eq_trans by (auto simp: same_payload_def)
    moreover have "payload (buffers t x) = payload (buffers (upd_buf b (\<lambda>h. h\<lparr>b_count := 1,
        b_dirt := False, b_uptodate := False, b_dev := dev, b_blocknr := blk\<rparr>) s) x)" for x
      using t(8) u(6) by (cases "x = b") (simp_all add: same_payload_def, simp_all add: payload_def)
    ultimately show ?thesis by (simp add: same_payload_def)
  qed
  note pf = payload_fields [OF pay]
  have nr: "nr_buffers t = nr_buffers s" using pf(8) by simp
  have dist: "distinct (ch h)" if "h < NR_HASH" for h using oks(4) [OF that] by (simp add: chain_def)
  let ?ch = "\<lambda>h. if h = ?k then b # remove1 b (ch h) else remove1 b (ch h)"
  have "cyc (nxf t) (pvf t) (?fl @ [b])" unfolding t(2,3) by (rule cyc_insert [OF u(2) nb])
  moreover have "set (?fl @ [b]) = {..<nr_buffers t}" using fl b nr by auto
  moreover have "free_list t = Some (hd (?fl @ [b]))" using t(7) ne by simp
  moreover have "chain (nxh t) (pvh t) (hash_table t h) (?ch h)" if "h < NR_HASH" for h
    unfolding t(4,5,6)
  proof (rule insert_chains)
    show "\<forall>h<NR_HASH. chain (nxh u) (pvh u) (hash_table u h) (remove1 b (ch h)) \<and> b \<notin> set (remove1 b (ch h))"
      using u(4) dist by simp
    show "\<forall>h<NR_HASH. h \<noteq> ?k \<longrightarrow> set (remove1 b (ch h)) \<inter> set (remove1 b (ch ?k)) = {}"
      using oks(5) oks(5) [OF hashfn_less] dist hashfn_less by auto
  qed (use that hashfn_less in auto)
  moreover have "set (?ch h) = {x. x < nr_buffers t \<and> b_dev (buffers t x) \<noteq> 0 \<and> bkey t x = h}"
    if "h < NR_HASH" for h
  proof -
    have s: "set (remove1 b (ch h)) = {x. x < nr_buffers s \<and> b_dev (buffers s x) \<noteq> 0 \<and> bkey s x = h \<and> x \<noteq> b}"
      using oks(5) [OF that] dist [OF that] by auto
    show ?thesis
    proof (cases "h = ?k")
      case True
      then show ?thesis using s b d by (auto simp: pf nr bkey_def split: if_splits)
    next
      case False
      then show ?thesis using s b d by (auto simp: pf nr bkey_def split: if_splits)
    qed
  qed
  moreover have "x = y" if "x < nr_buffers t" "y < nr_buffers t" "b_dev (buffers t x) \<noteq> 0"
    "b_dev (buffers t x) = b_dev (buffers t y)" "b_blocknr (buffers t x) = b_blocknr (buffers t y)" for x y
  proof -
    consider "x = b" "y = b" | "x \<noteq> b" "y \<noteq> b" | "x = b" "y \<noteq> b" | "x \<noteq> b" "y = b" by blast
    then show ?thesis
    proof cases
      case 2
      then show ?thesis using that cache_ok_uniq [OF ok, of x y] by (simp add: pf nr)
    next
      case 3
      then show ?thesis using that new by (simp add: pf nr) blast
    next
      case 4
      then show ?thesis using that new by (simp add: pf nr)
    qed simp
  qed
  moreover have "nxh t x = None \<and> pvh t x = None" if x: "x < nr_buffers t" "b_dev (buffers t x) = 0" for x
  proof -
    have xb: "x \<noteq> b" using x(2) d by (auto simp: pf)
    then have z: "b_dev (buffers s x) = 0" using x(2) by (simp add: pf)
    have "hash_table u ?k \<noteq> Some x"
    proof
      assume "hash_table u ?k = Some x"
      then have "x \<in> set (remove1 b (ch ?k))"
        using u(4) hashfn_less [of dev blk] chain_head by metis
      then have "x \<in> set (ch ?k)" by (meson notin_set_remove1)
      then show False using oks(5) [OF hashfn_less] z by simp
    qed
    then show ?thesis unfolding t(4,5) using u(5) x z xb nr by (auto split: option.splits)
  qed
  ultimately show ?thesis using tk pay unfolding cache_ok_def by blast
qed

end
