(* ===== verification/Buffer_Inv.thy ===== *)
theory Buffer_Inv imports Buffer_Queues begin

text \<open>
  Every operation of the buffer cache keeps its shape (\<open>cache_inv\<close>), and \<open>getblk\<close> returns
  the one buffer of the block asked for. The functions of the recursive cycle are treated with the
  property of the \<open>getblk\<close> they call as hypothesis; the induction over the depth comes last.
\<close>

section \<open>Operations that leave the queues alone\<close>

text \<open>\<open>keeps s t\<close>: the cache of \<open>t\<close> has the shape of that of \<open>s\<close> again.\<close>

definition keeps :: "kst \<Rightarrow> kst \<Rightarrow> bool" where
  "keeps s t \<longleftrightarrow> nr_buffers t = nr_buffers s \<and> (cache_inv s \<longrightarrow> cache_inv t)"

lemma keeps_refl [simp]: "keeps s s"
  by (simp add: keeps_def)

lemma keeps_trans [trans]: "keeps s t \<Longrightarrow> keeps t u \<Longrightarrow> keeps s u"
  by (simp add: keeps_def)

lemma same_queues_keeps: "same_queues s t \<Longrightarrow> keeps s t"
  using cache_inv_cong [of s t] by (simp add: keeps_def same_queues_def)

lemma same_queues_upd_inode [simp]: "same_queues s (upd_inode i f t) = same_queues s t"
  by (simp add: same_queues_def upd_inode_def)

lemma same_queues_upd_buf:
  assumes "same_queues s t" "\<And>h. b_dev (f h) = b_dev h" "\<And>h. b_blocknr (f h) = b_blocknr h"
    "\<And>h. b_next (f h) = b_next h" "\<And>h. b_prev (f h) = b_prev h"
    "\<And>h. b_next_free (f h) = b_next_free h" "\<And>h. b_prev_free (f h) = b_prev_free h"
  shows "same_queues s (upd_buf b f t)"
  using assms by (simp add: same_queues_def)

lemma same_queues_disk [simp]: "same_queues s (t\<lparr>disk := d\<rparr>) = same_queues s t"
  by (simp add: same_queues_def)

lemma wait_on_buffer_Inr [simp]: "wait_on_buffer b s = Inr t \<longleftrightarrow> \<not> b_lock (buffers s b) \<and> t = s"
  by (auto simp: wait_on_buffer_def)

lemma ll_rw_block_queues: "ll_rw_block rw b s = Inr t \<Longrightarrow> same_queues s t"
  unfolding ll_rw_block_def Let_def
  by (auto split: if_splits option.splits intro!: same_queues_upd_buf)

lemma brelse_queues: "brelse r s = Inr t \<Longrightarrow> same_queues s t"
  unfolding brelse_def by (auto split: option.splits if_splits intro!: same_queues_upd_buf)

lemma lock_inode_queues: "lock_inode i s = Inr t \<Longrightarrow> same_queues s t"
  by (auto simp: lock_inode_def split: if_splits)

lemma unlock_inode_queues [simp]: "same_queues s (unlock_inode i t) = same_queues s t"
  by (simp add: unlock_inode_def)

lemmas keeps_ops = ll_rw_block_queues [THEN same_queues_keeps] brelse_queues [THEN same_queues_keeps]
  lock_inode_queues [THEN same_queues_keeps]

lemma sync_buffers_queues: "sync_buffers n b dev s = Inr t \<Longrightarrow> same_queues s t"
proof (induction n arbitrary: b s)
  case (Suc n)
  then show ?case
    by (auto split: if_splits dest!: ll_rw_block_queues) (meson Suc.IH same_queues_trans)+
qed simp

lemma sync_all_queues: "sync_all n b s = Inr t \<Longrightarrow> same_queues s t"
proof (induction n arbitrary: b s)
  case (Suc n)
  then show ?case
    by (auto split: if_splits dest!: ll_rw_block_queues) (meson Suc.IH same_queues_trans)+
qed simp

section \<open>The recursive cycle\<close>

text \<open>What the callers of \<open>getblk\<close> rely on.\<close>

definition getblk_ok :: "getblk_fn \<Rightarrow> bool" where
  "getblk_ok gb \<longleftrightarrow> (\<forall>dev blk s b t. cache_inv s \<and> dev \<noteq> 0 \<and> gb dev blk s = Inr (b, t) \<longrightarrow>
     keeps s t \<and> b < nr_buffers t \<and> b_dev (buffers t b) = dev \<and> b_blocknr (buffers t b) = blk)"

lemma getblk_okD:
  assumes "getblk_ok gb" "cache_inv s" "dev \<noteq> 0" "gb dev blk s = Inr (b, t)"
  shows "keeps s t" "b < nr_buffers t" "b_dev (buffers t b) = dev" "b_blocknr (buffers t b) = blk"
  using assms unfolding getblk_ok_def by blast+

lemma bread_w_keeps:
  assumes "getblk_ok gb" "cache_inv s" "dev \<noteq> 0" "bread_w gb dev blk s = Inr (r, t)"
  shows "keeps s t \<and> (\<forall>b. r = Some b \<longrightarrow> b < nr_buffers t \<and> b_uptodate (buffers t b) \<and>
     b_dev (buffers t b) = dev \<and> b_blocknr (buffers t b) = blk)"
proof -
  obtain b u where g: "gb dev blk s = Inr (b, u)" using assms(4) by (auto simp: bread_w_def)
  note ok = getblk_okD [OF assms(1-3) g]
  show ?thesis
  proof (cases "b_uptodate (buffers u b)")
    case True
    then show ?thesis using assms(4) g ok by (auto simp: bread_w_def)
  next
    case False
    then obtain v where v: "ll_rw_block READ b u = Inr v"
      "if b_uptodate (buffers v b) then (r, t) = (Some b, v)
       else r = None \<and> brelse (Some b) v = Inr t"
      using assms(4) g by (auto simp: bread_w_def split: if_splits)
    have q: "same_queues u v" by (rule ll_rw_block_queues [OF v(1)])
    show ?thesis
    proof (cases "b_uptodate (buffers v b)")
      case True
      then show ?thesis using v(2) ok q same_queues_keeps [OF q] keeps_trans
        by (auto simp: same_queues_def)
    next
      case False
      then have "r = None" "same_queues v t" using v(2) brelse_queues by auto
      then show ?thesis using ok(1) q same_queues_keeps same_queues_trans keeps_trans by blast
    qed
  qed
qed

lemma write_inode_w_keeps:
  assumes "getblk_ok gb" "cache_inv s" "write_inode_w gb i s = Inr t"
  shows "keeps s t"
proof -
  obtain s1 where s1: "lock_inode i s = Inr s1" using assms(3) by (auto simp: write_inode_w_def)
  have k1: "keeps s s1" using s1 keeps_ops(3) by blast
  then have c1: "cache_inv s1" using assms(2) by (simp add: keeps_def)
  show ?thesis
  proof (cases "\<not> i_dirt (inode_table s1 i) \<or> i_dev (inode_table s1 i) = 0")
    case True
    then have "t = unlock_inode i s1" using assms(3) s1 by (auto simp: write_inode_w_def)
    then show ?thesis using k1 same_queues_keeps [of s1 t] keeps_trans by simp
  next
    case False
    then obtain blk b s2 s3 where s3:
      "bread_w gb (i_dev (inode_table s1 i)) blk s1 = Inr (Some b, s2)"
      "brelse (Some b) (upd_inode i (\<lambda>n. n\<lparr>i_dirt := False\<rparr>) (upd_buf b (\<lambda>h. h\<lparr>b_data :=
         put_d_inode (inode_offset (i_num (inode_table s2 i))) (inode_table s2 i) (b_data h),
         b_dirt := True\<rparr>) s2)) = Inr s3" "t = unlock_inode i s3"
      using assms(3) s1
      by (auto simp: write_inode_w_def Let_def split: option.splits)
    have "keeps s1 s2" using bread_w_keeps [OF assms(1) c1 _ s3(1)] False by blast
    moreover have "same_queues s2 (upd_inode i (\<lambda>n. n\<lparr>i_dirt := False\<rparr>) (upd_buf b (\<lambda>h. h\<lparr>b_data :=
         put_d_inode (inode_offset (i_num (inode_table s2 i))) (inode_table s2 i) (b_data h),
         b_dirt := True\<rparr>) s2))"
      unfolding same_queues_upd_inode by (rule same_queues_upd_buf) simp_all
    then have "same_queues s2 s3" by (rule same_queues_trans [OF _ brelse_queues [OF s3(2)]])
    then have "same_queues s2 t" by (simp add: s3(3))
    ultimately show ?thesis using k1 same_queues_keeps keeps_trans by blast
  qed
qed

lemma sync_inodes_w_keeps:
  assumes "getblk_ok gb"
  shows "cache_inv s \<Longrightarrow> sync_inodes_w gb n i s = Inr t \<Longrightarrow> keeps s t"
proof (induction n arbitrary: i s)
  case (Suc n)
  then obtain u where u: "(if i_dirt (inode_table s i) \<and> \<not> i_pipe (inode_table s i)
      then write_inode_w gb i s else Inr s) = Inr u" "sync_inodes_w gb n (Suc i) u = Inr t"
    by (auto simp: wait_on_inode_def split: if_splits)
  have "keeps s u" using u(1) write_inode_w_keeps [OF assms Suc.prems(1)] by (auto split: if_splits)
  moreover from this have "keeps u t" using Suc.IH [OF _ u(2)] Suc.prems(1) by (simp add: keeps_def)
  ultimately show ?case by (rule keeps_trans)
qed simp

lemma sync_dev_w_keeps:
  assumes "getblk_ok gb" "cache_inv s" "sync_dev_w gb dev s = Inr t"
  shows "keeps s t"
proof -
  obtain u v where u: "sync_buffers (nr_buffers s) 0 dev s = Inr u"
    "sync_inodes_w gb NR_INODE 0 u = Inr v" "sync_buffers (nr_buffers v) 0 dev v = Inr t"
    using assms(3) by (auto simp: sync_dev_w_def)
  have "keeps s u" "keeps v t" using u(1,3) sync_buffers_queues same_queues_keeps by blast+
  moreover have "keeps u v"
    using sync_inodes_w_keeps [OF assms(1) _ u(2)] \<open>keeps s u\<close> assms(2) by (simp add: keeps_def)
  ultimately show ?thesis using keeps_trans by blast
qed

lemma clean_buffer_keeps:
  assumes "getblk_ok gb"
  shows "cache_inv s \<Longrightarrow> clean_buffer gb n b s = Inr (r, t) \<Longrightarrow> keeps s t"
proof (induction n arbitrary: s)
  case (Suc n)
  show ?case
  proof (cases "b_dirt (buffers s b)")
    case True
    then obtain u where u: "sync_dev_w gb (b_dev (buffers s b)) s = Inr u"
      "(if b_count (buffers u b) \<noteq> 0 then Inr (False, u) else clean_buffer gb n b u) = Inr (r, t)"
      using Suc.prems(2) by auto
    have k: "keeps s u" by (rule sync_dev_w_keeps [OF assms Suc.prems(1) u(1)])
    then have "keeps u t" using u(2) Suc.IH [of u] Suc.prems(1) by (auto simp: keeps_def split: if_splits)
    with k show ?thesis by (rule keeps_trans)
  qed (use Suc.prems in auto)
qed simp

lemma scan_free_list_range:
  assumes "cache_inv s"
  shows "t < nr_buffers s \<Longrightarrow> (\<forall>x. bh = Some x \<longrightarrow> x < nr_buffers s) \<Longrightarrow>
    scan_free_list n (Some t) bh s = Inr (Some b) \<Longrightarrow> b < nr_buffers s"
proof (induction n arbitrary: t bh)
  case (Suc n)
  obtain fl ch where ok: "cache_ok fl ch s" using assms by (auto simp: cache_inv_def)
  have "\<exists>x. b_next_free (buffers s t) = Some x \<and> x < nr_buffers s"
  proof -
    have t: "t \<in> set fl" using cache_okD(2) [OF ok] Suc.prems(1) by simp
    then obtain xs ys where fl: "fl = xs @ t # ys" by (meson split_list)
    have "cyc (nxf s) (pvf s) (t # ys @ xs)"
      using cache_okD(1) [OF ok] cyc_rotate [of "nxf s" "pvf s" xs "t # ys"] fl by simp
    then have "nxf s t = Some (hd (ys @ xs @ [t]))"
      by (cases "ys @ xs") (auto simp: cyc_iff simp flip: append_assoc)
    moreover have "hd (ys @ xs @ [t]) \<in> set fl" unfolding fl by (cases ys; cases xs) auto
    ultimately show ?thesis using cache_okD(2) [OF ok] by (simp add: nxf_def)
  qed
  then obtain x where "b_next_free (buffers s t) = Some x" "x < nr_buffers s" by blast
  then show ?case
    using Suc.prems Suc.IH [of x bh] Suc.IH [of x "Some t"] by (auto simp: Let_def split: if_splits)
qed simp

lemma free_list_range: "cache_inv s \<Longrightarrow> \<exists>f. free_list s = Some f \<and> f < nr_buffers s"
  unfolding cache_inv_def using cache_okD(1-3) by (metis cyc_iff hd_in_set lessThan_iff)

lemma take_buffer_keeps:
  assumes "cache_inv s" "b < nr_buffers s" "dev \<noteq> 0" "find_buffer dev blk s = Inr None"
    "take_buffer b dev blk s = Inr (b', t)"
  shows "keeps s t \<and> b' = b \<and> b_dev (buffers t b) = dev \<and> b_blocknr (buffers t b) = blk"
proof -
  obtain fl ch where ok: "cache_ok fl ch s" "2 \<le> nr_buffers s" using assms(1) by (auto simp: cache_inv_def)
  have "\<forall>x<nr_buffers s. \<not> (b_dev (buffers s x) = dev \<and> b_blocknr (buffers s x) = blk)"
    using find_buffer_iff(2) [OF assms(1,3)] assms(4) by blast
  from take_buffer_ok [OF ok(1) assms(2) ok(2) assms(3) this] obtain ch'
    where t: "b' = b" "cache_ok (remove1 b fl @ [b]) ch' t"
      "same_payload (upd_buf b (\<lambda>h. h\<lparr>b_count := 1, b_dirt := False, b_uptodate := False,
        b_dev := dev, b_blocknr := blk\<rparr>) s) t"
    using assms(5) by auto
  then show ?thesis using ok(2) payload_fields [OF t(3)] by (auto simp: keeps_def cache_inv_def)
qed

lemma get_hash_table_hit:
  assumes "get_hash_table dev blk s = Inr (Some b, t)"
  shows "find_buffer dev blk s = Inr (Some b) \<and> t = upd_buf b (\<lambda>h. h\<lparr>b_count := b_count h + 1\<rparr>) s"
  using assms by (auto simp: get_hash_table_def Let_def split: option.splits)

lemma get_hash_table_miss:
  assumes "get_hash_table dev blk s = Inr (None, t)"
  shows "find_buffer dev blk s = Inr None \<and> t = s"
  using assms by (auto simp: get_hash_table_def Let_def split: option.splits)

lemma getblk_body_ok:
  assumes "getblk_ok gb"
  shows "getblk_ok (getblk_body n gb)"
proof (unfold getblk_ok_def, intro allI impI)
  fix dev blk s b t
  assume a: "cache_inv s \<and> dev \<noteq> 0 \<and> getblk_body n gb dev blk s = Inr (b, t)"
  let ?P = "\<lambda>s b t. keeps s t \<and> b < nr_buffers t \<and> b_dev (buffers t b) = dev \<and> b_blocknr (buffers t b) = blk"
  obtain r u where r: "get_hash_table dev blk s = Inr (r, u)" using a by (auto simp: getblk_body_def)
  show "?P s b t"
  proof (cases r)
    case (Some c)
    then have "b = c" "t = u" using a r by (auto simp: getblk_body_def)
    moreover have h: "find_buffer dev blk s = Inr (Some c)"
       "u = upd_buf c (\<lambda>h. h\<lparr>b_count := b_count h + 1\<rparr>) s"
      using get_hash_table_hit r Some by blast+
    moreover have "same_queues s u" unfolding h(2) by (rule same_queues_upd_buf) simp_all
    ultimately show ?thesis using find_buffer_iff(1) a same_queues_keeps by auto
  next
    case None
    have u: "u = s" using r None get_hash_table_miss by blast
    obtain c where c: "scan_free_list (Suc (nr_buffers s)) (free_list s) None s = Inr (Some c)"
      using a r None u by (auto simp: getblk_body_def split: option.splits)
    have cr: "c < nr_buffers s"
      using c free_list_range [of s] scan_free_list_range a by (metis option.discI)
    have rec: "?P s b t" if "gb dev blk v = Inr (b, t)" "keeps s v" for v
      using getblk_okD [OF assms _ _ that(1)] a that(2) keeps_trans by (simp add: keeps_def)
    show ?thesis
    proof (cases "b_count (buffers s c) \<noteq> 0")
      case True
      then have "gb dev blk s = Inr (b, t)" using a r None u c by (auto simp: getblk_body_def split: if_splits)
      then show ?thesis using rec [of s] by simp
    next
      case False
      then have "bindk (clean_buffer gb (Suc n) c s) (\<lambda>(cl, s). if \<not> cl then gb dev blk s
          else bindk (find_buffer dev blk s) (\<lambda>r. case r of
            Some _ \<Rightarrow> gb dev blk s | None \<Rightarrow> take_buffer c dev blk s)) = Inr (b, t)"
        using a r None u c
        by (simp add: getblk_body_def wait_on_buffer_def del: clean_buffer.simps bindk_eq_Inr split: if_splits)
      then obtain cl v where v: "clean_buffer gb (Suc n) c s = Inr (cl, v)"
        "(if \<not> cl then gb dev blk v else bindk (find_buffer dev blk v) (\<lambda>r. case r of
            Some _ \<Rightarrow> gb dev blk v | None \<Rightarrow> take_buffer c dev blk v)) = Inr (b, t)"
        by (elim bindk_InrE) auto
      have k: "keeps s v" using clean_buffer_keeps [OF assms _ v(1)] a by blast
      consider "gb dev blk v = Inr (b, t)" | "find_buffer dev blk v = Inr None" "take_buffer c dev blk v = Inr (b, t)"
        using v(2) by (cases cl; cases "find_buffer dev blk v") (auto split: if_splits option.splits)
      then show ?thesis
      proof cases
        case 2
        then show ?thesis using take_buffer_keeps [OF _ _ _ 2] k cr a keeps_trans by (auto simp: keeps_def)
      qed (rule rec [OF _ k])
    qed
  qed
qed

lemma getblk_f_ok: "getblk_ok (getblk_f n)"
  by (induction n) (simp_all add: getblk_body_ok, simp add: getblk_ok_def)

text \<open>The lookup in the words of the whole cache.\<close>

definition cached :: "kst \<Rightarrow> u16 \<Rightarrow> u32 \<Rightarrow> nat set" where
  "cached s dev blk = {b. b < nr_buffers s \<and> b_dev (buffers s b) = dev \<and> b_blocknr (buffers s b) = blk}"

text \<open>
  C34: In a well-formed cache (the free list a circular doubly linked list of all the
  buffers, each hash chain an acyclic doubly linked list of the buffers that hash there) the
  hash lookup terminates without a wild access and returns the one buffer holding the block,
  or none when no buffer holds it.
\<close>

theorem find_buffer_correct:
  assumes "cache_inv s" "dev \<noteq> 0"
  shows "find_buffer dev blk s = Inr (if cached s dev blk = {} then None else Some (the_elem (cached s dev blk)))"
proof (cases "find_buffer dev blk s = Inr None")
  case True
  then have "cached s dev blk = {}" using find_buffer_iff(2) [OF assms] by (auto simp: cached_def)
  then show ?thesis using True by simp
next
  case False
  then obtain a where "a \<in> cached s dev blk" using find_buffer_iff(2) [OF assms] by (auto simp: cached_def)
  moreover from this have a: "find_buffer dev blk s = Inr (Some a)"
    using find_buffer_iff(1) [OF assms] by (auto simp: cached_def)
  moreover have "x = a" if "x \<in> cached s dev blk" for x
    using find_buffer_iff(1) [OF assms, of blk x] that a by (auto simp: cached_def)
  ultimately have "cached s dev blk = {a}" by blast
  then show ?thesis using a by simp
qed

text \<open>
  C1: Whatever path getblk takes (hit, reuse, writing dirty buffers out first) a returned
  buffer is the one identified by the device and block asked for and both linked structures
  of the cache are well formed again.
\<close>

theorem getblk_keeps_cache:
  assumes "cache_inv s" "dev \<noteq> 0" "getblk dev blk s = Inr (b, t)"
  shows "cache_inv t \<and> b < nr_buffers t \<and> b_dev (buffers t b) = dev \<and> b_blocknr (buffers t b) = blk"
  using getblk_okD [OF getblk_f_ok assms(1,2), of 8] assms unfolding getblk_def keeps_def by blast

section \<open>The cache after boot\<close>

lemma buffer_init_ok:
  assumes "nr_buffers s = 0" "2 \<le> count_buffers start 0 (if buffer_end = 0x100000 then 640 * 1024 else buffer_end)"
  shows "cache_inv (buffer_init start buffer_end s) \<and>
    (\<forall>b. b < nr_buffers (buffer_init start buffer_end s) \<longrightarrow>
       b_count (buffers (buffer_init start buffer_end s) b) = 0 \<and>
       \<not> b_lock (buffers (buffer_init start buffer_end s) b) \<and> \<not> b_dirt (buffers (buffer_init start buffer_end s) b))"
proof -
  define n where "n = count_buffers start 0 (if buffer_end = 0x100000 then 640 * 1024 else buffer_end)"
  define t where "t = buffer_init start buffer_end s"
  have n2: "2 \<le> n" using assms(2) by (simp add: n_def)
  have t: "nr_buffers t = n" "free_list t = Some 0" "\<And>h. h < NR_HASH \<Longrightarrow> hash_table t h = None"
    "\<And>i. i < n \<Longrightarrow> buffers t i = empty_head n i (buffers s i)"
    using assms(1) by (simp_all add: t_def buffer_init_def n_def Let_def)
  have nx: "nxf t i = Some (if i = n - 1 then 0 else i + 1)" "pvf t i = Some (if i = 0 then n - 1 else i - 1)" if "i < n" for i
    using t(4) [OF that] by (simp_all add: nxf_def pvf_def empty_head_def)
  have "dlinks (nxf t) (pvf t) [0..<n]" by (rule dlinks_upt) (use nx in simp)
  then have "cyc (nxf t) (pvf t) [0..<n]" using n2 nx by (simp add: cyc_iff)
  moreover have "hd [0..<n] = 0" using n2 by simp
  moreover have "b_dev (buffers t b) = 0 \<and> nxh t b = None \<and> pvh t b = None" if "b < n" for b
    using t(4) [OF that] by (simp add: empty_head_def nxh_def pvh_def)
  ultimately have "cache_ok [0..<n] (\<lambda>_. []) t"
    using t(1-3) by (auto simp: cache_ok_def chain_def)
  then have "cache_inv t" using n2 t(1) by (auto simp: cache_inv_def)
  moreover have "\<forall>b. b < nr_buffers t \<longrightarrow> b_count (buffers t b) = 0 \<and> \<not> b_lock (buffers t b) \<and> \<not> b_dirt (buffers t b)"
    using t(1,4) by (simp add: empty_head_def)
  ultimately show ?thesis by (simp add: t_def)
qed

theorem buffer_init_cache:
  assumes "nr_buffers s = 0" "2 \<le> count_buffers start 0 (if buffer_end = 0x100000 then 640 * 1024 else buffer_end)"
  shows "cache_inv (buffer_init start buffer_end s) \<and>
    (\<forall>b. b < nr_buffers (buffer_init start buffer_end s) \<longrightarrow>
       b_count (buffers (buffer_init start buffer_end s) b) = 0 \<and>
       \<not> b_lock (buffers (buffer_init start buffer_end s) b) \<and> \<not> b_dirt (buffers (buffer_init start buffer_end s) b))"
  using buffer_init_ok [OF assms] .

lemma count_buffers_4k: "count_buffers 0 0 4096 = 3"
  by (simp add: count_buffers.simps BLOCK_SIZE_def head_size_def)

theorem buffer_init_cache_witness:
  "nr_buffers (buffer_init 0 4096 ex_kst) = 3 \<and> cache_inv (buffer_init 0 4096 ex_kst)"
  using buffer_init_cache [of ex_kst 0 4096]
  by (simp add: count_buffers_4k) (simp add: buffer_init_def count_buffers_4k)

text \<open>Three buffers after boot, the state on which the cache is tried.\<close>

definition ex_cache :: kst where
  "ex_cache = buffer_init 0 4096 (ex_kst\<lparr>has_driver := (\<lambda>n. n = 1), disk := (\<lambda>d n. if d = 0x101 then Some (\<lambda>_. ucast n) else None)\<rparr>)"

lemma ex_cache_inv: "cache_inv ex_cache" "nr_buffers ex_cache = 3"
  using buffer_init_ok [of "ex_kst\<lparr>has_driver := (\<lambda>n. n = 1), disk := (\<lambda>d n. if d = 0x101 then Some (\<lambda>_. ucast n) else None)\<rparr>" 0 4096]
  by (simp_all add: ex_cache_def count_buffers_4k) (simp_all add: buffer_init_def count_buffers_4k)

theorem find_buffer_correct_witness:
  "find_buffer 0x101 7 ex_cache = Inr (if cached ex_cache 0x101 7 = {} then None else Some (the_elem (cached ex_cache 0x101 7)))"
  by (rule find_buffer_correct [OF ex_cache_inv(1)]) simp

lemma ex_cache_fields:
  "free_list ex_cache = Some 0" "hash_table ex_cache h = None"
  "buffers ex_cache i = (if i < 3 then empty_head 3 i ex_buffer else ex_buffer)"
  by (simp_all add: ex_cache_def buffer_init_def count_buffers_4k)

lemma ex_getblk: "\<exists>t. getblk 0x101 7 ex_cache = Inr (0, t)"
proof -
  have n: "find_buffer 0x101 7 ex_cache = Inr None"
    by (simp add: find_buffer_def ex_cache_fields)
  have r: "b_count (buffers ex_cache 0) = 0" "\<not> b_dirt (buffers ex_cache 0)" "\<not> b_lock (buffers ex_cache 0)"
    by (simp_all add: ex_cache_fields empty_head_def)
  have sc: "scan_free_list (Suc (nr_buffers ex_cache)) (free_list ex_cache) None ex_cache = Inr (Some 0)"
    using r by (simp add: ex_cache_fields(1) badness_def Let_def)
  have "getblk 0x101 7 ex_cache = take_buffer 0 0x101 7 ex_cache"
    using n r sc by (simp add: getblk_def eval_nat_numeral getblk_body_def get_hash_table_def wait_on_buffer_def
        del: scan_free_list.simps)
  moreover obtain fl ch where "cache_ok fl ch ex_cache" using ex_cache_inv(1) by (auto simp: cache_inv_def)
  moreover have "\<forall>x<nr_buffers ex_cache. \<not> (b_dev (buffers ex_cache x) = 0x101 \<and> b_blocknr (buffers ex_cache x) = 7)"
    by (simp add: ex_cache_fields ex_buffer_def empty_head_def)
  ultimately show ?thesis
    using take_buffer_ok [of fl ch ex_cache 0 "0x101" 7] ex_cache_inv(2) by auto
qed

theorem getblk_keeps_cache_witness:
  "\<exists>t. getblk 0x101 7 ex_cache = Inr (0, t) \<and> cache_inv t \<and> b_dev (buffers t 0) = 0x101 \<and> b_blocknr (buffers t 0) = 7"
proof -
  obtain t where t: "getblk 0x101 7 ex_cache = Inr (0, t)" using ex_getblk by blast
  show ?thesis using getblk_keeps_cache [OF ex_cache_inv(1) _ t] t by auto
qed

end
