(* ===== verification/Boot_Lemmas.thy ===== *)
theory Boot_Lemmas imports Boot Buffer_Inv begin

text \<open>
  What holds when \<open>main\<close> enables interrupts: the memory is divided without gap or overlap, each
  gate leads to its handler and only four are open to user programs, and the tables of the kernel are in
  the states the other theories start from.
\<close>

section \<open>The division of the memory\<close>

lemma memory_end_unat:
  "unat (memory_end ext) = min (16 * 2 ^ 20) ((2 ^ 20 + unat ext * 1024) div 4096 * 4096)"
proof -
  define m :: u32 where "m = (push_bit 20 1 + push_bit 10 (ucast ext)) AND 0xfffff000"
  have e: "unat ext < 65536" using unsigned_less [of ext] by simp
  have "unat (push_bit 20 1 + push_bit 10 (ucast ext) :: u32) = 2 ^ 20 + unat ext * 1024"
    using e by (simp add: push_bit_eq_mult unat_word_ariths unsigned_ucast_eq take_bit_nat_eq_self)
  then have f: "unat m = (2 ^ 20 + unat ext * 1024) div 4096 * 4096"
    unfolding m_def frame_def [symmetric] unat_frame by (simp only:)
  have "unat m < 2 ^ 31" using e by (simp add: f)
  then have "(16 * 1024 * 1024 <s m) \<longleftrightarrow> 16 * 2 ^ 20 < unat m" by (simp add: sless_small)
  then show ?thesis unfolding memory_end_def Let_def m_def [symmetric] by (simp add: f)
qed

lemma buffer_memory_end_unat:
  assumes "unat m < 2 ^ 31"
  shows "unat (buffer_memory_end m) = (if 12 * 2 ^ 20 < unat m then 4 * 2 ^ 20 else if 6 * 2 ^ 20 < unat m then 2 * 2 ^ 20 else 2 ^ 20)"
  using assms by (simp add: buffer_memory_end_def sless_small)

lemma mem_init_pages:
  assumes u: "unat start = (p + 256) * 4096" "unat e = (q + 256) * 4096" and le: "p \<le> q" "q \<le> PAGING_PAGES"
  shows "mem_init start e s =
    Inr (s\<lparr>HIGH_MEMORY := e,
      mem_map := (\<lambda>i. if p \<le> i \<and> i < q then 0 else if i < PAGING_PAGES then USED else mem_map s i)\<rparr>)"
proof -
  have q: "q \<le> 3840" using le(2) by (simp add: PAGING_PAGES_def)
  have a: "unat (start - LOW_MEM) = p * 4096" and b: "unat (e - start) = (q - p) * 4096"
  proof -
    have "unat LOW_MEM = 256 * 4096" by (simp add: LOW_MEM_def)
    moreover from this have "LOW_MEM \<le> start" "start \<le> e" unfolding word_le_nat_alt u using le(1) by simp_all
    ultimately show "unat (start - LOW_MEM) = p * 4096" "unat (e - start) = (q - p) * 4096"
      using u by (simp_all add: unat_sub diff_mult_distrib)
  qed
  have d: "sint (signed_drop_bit 12 x) = int k" if "unat x = k * 4096" "k \<le> 3840" for x :: u32 and k
  proof -
    have "sint x = int (k * 4096)" using sint_small [of x] that by simp
    then show ?thesis by (simp add: sint_signed_drop_bit_eq drop_bit_eq_div)
  qed
  have f: "sint (signed_drop_bit 12 (start - LOW_MEM)) = int p" "sint (signed_drop_bit 12 (e - start)) = int (q - p)"
    using d [OF a] d [OF b] le q by simp_all
  show ?thesis unfolding mem_init_def Let_def f using le by (auto simp: fun_eq_iff)
qed

lemma page_in: "i < PAGING_PAGES \<Longrightarrow> (p + 256) * 4096 \<le> unat (page_of i) \<longleftrightarrow> p \<le> i"
  "i < PAGING_PAGES \<Longrightarrow> unat (page_of i) < (q + 256) * 4096 \<longleftrightarrow> i < q"
  by (simp_all add: unat_page_of)

text \<open>The numbers of the first page frame for programs and of the first behind the memory.\<close>

definition first_frame :: "u16 \<Rightarrow> nat" where
  "first_frame ext = unat (buffer_memory_end (memory_end ext)) div 4096 - 256"

definition last_frame :: "u16 \<Rightarrow> nat" where
  "last_frame ext = unat (memory_end ext) div 4096 - 256"

lemma frames:
  "unat (buffer_memory_end (memory_end ext)) = (first_frame ext + 256) * 4096"
  "unat (memory_end ext) = (last_frame ext + 256) * 4096"
  "first_frame ext \<le> last_frame ext" "last_frame ext \<le> PAGING_PAGES"
proof -
  define E where "E = (2 ^ 20 + unat ext * 1024) div 4096"
  have x: "unat ext < 65536" using unsigned_less [of ext] by simp
  have E: "256 \<le> E" "E \<le> 16639" using x by (simp_all add: E_def)
  have m: "unat (memory_end ext) = min 4096 E * 4096" unfolding memory_end_unat E_def by simp
  have b: "unat (buffer_memory_end (memory_end ext)) = (if 3072 < E then 1024 else if 1536 < E then 512 else 256) * 4096"
    using E by (subst buffer_memory_end_unat) (simp_all add: m min_def)
  have l: "last_frame ext = min 4096 E - 256" by (simp add: last_frame_def m)
  have f: "first_frame ext = (if 3072 < E then 768 else if 1536 < E then 256 else 0)" by (simp add: first_frame_def b)
  show "unat (buffer_memory_end (memory_end ext)) = (first_frame ext + 256) * 4096" unfolding b f by simp
  show "unat (memory_end ext) = (last_frame ext + 256) * 4096" unfolding m l using E by (simp add: min_def)
  show "first_frame ext \<le> last_frame ext" unfolding f l using E by auto
  show "last_frame ext \<le> PAGING_PAGES" unfolding l by (simp add: PAGING_PAGES_def)
qed

lemma mem_init_boot:
  "mem_init (buffer_memory_end (memory_end ext)) (memory_end ext) s =
    Inr (s\<lparr>HIGH_MEMORY := memory_end ext,
      mem_map := (\<lambda>i. if first_frame ext \<le> i \<and> i < last_frame ext then 0 else if i < PAGING_PAGES then USED else mem_map s i)\<rparr>)"
  by (rule mem_init_pages [OF frames])

text \<open>
  C24: Whatever amount of extended memory the BIOS reports, main divides the memory without
  gap or overlap: buffers end between 1 MB and the end of the memory, which is at most what
  is there and 16 MB, mem_init stays inside mem_map, and the free page frames are exactly
  those between the two, their number the difference in pages.
\<close>

theorem memory_layout:
  "2 ^ 20 \<le> unat (buffer_memory_end (memory_end ext)) \<and>
   unat (buffer_memory_end (memory_end ext)) \<le> unat (memory_end ext) \<and> unat (memory_end ext) \<le> 2 ^ 24 \<and>
   unat (memory_end ext) \<le> 2 ^ 20 + unat ext * 1024 \<and>
   (\<exists>m. mem_init (buffer_memory_end (memory_end ext)) (memory_end ext) s = Inr m \<and>
      (\<forall>i. mem_map m i = 0 \<and> i < PAGING_PAGES \<longleftrightarrow>
         i < PAGING_PAGES \<and> buffer_memory_end (memory_end ext) \<le> page_of i \<and> page_of i < memory_end ext) \<and>
      calc_free m * 4096 = unat (memory_end ext) - unat (buffer_memory_end (memory_end ext)))"
proof -
  note f = frames [of ext]
  define p q where "p = first_frame ext" and "q = last_frame ext"
  have pq: "p \<le> q" "q \<le> PAGING_PAGES" using f by (simp_all add: p_def q_def)
  define m where "m = s\<lparr>HIGH_MEMORY := memory_end ext,
      mem_map := (\<lambda>i. if p \<le> i \<and> i < q then 0 else if i < PAGING_PAGES then USED else mem_map s i)\<rparr>"
  have 1: "mem_map m i = 0 \<longleftrightarrow> p \<le> i \<and> i < q" if "i < PAGING_PAGES" for i
    using that by (simp add: m_def USED_def)
  have 2: "buffer_memory_end (memory_end ext) \<le> page_of i \<and> page_of i < memory_end ext \<longleftrightarrow> p \<le> i \<and> i < q"
    if "i < PAGING_PAGES" for i
    unfolding word_le_nat_alt word_less_nat_alt f(1,2) page_in [OF that] by (simp add: p_def q_def)
  have "filter (\<lambda>i. mem_map m i = 0) [0..<PAGING_PAGES] = filter (\<lambda>i. p \<le> i \<and> i < q) [0..<PAGING_PAGES]"
    using 1 by (intro filter_cong) auto
  moreover have "set (filter (\<lambda>i. p \<le> i \<and> i < q) [0..<PAGING_PAGES]) = {p..<q}" using pq by auto
  then have "length (filter (\<lambda>i. p \<le> i \<and> i < q) [0..<PAGING_PAGES]) = q - p"
    by (metis card_atLeastLessThan distinct_card distinct_filter distinct_upt)
  ultimately have "calc_free m = q - p" by (simp add: calc_free_def)
  then have 3: "calc_free m * 4096 = unat (memory_end ext) - unat (buffer_memory_end (memory_end ext))"
    unfolding f(1,2) by (simp add: p_def q_def diff_mult_distrib)
  have "unat (memory_end ext) \<le> 2 ^ 20 + unat ext * 1024" "unat (memory_end ext) \<le> 2 ^ 24" "2 ^ 20 \<le> unat (buffer_memory_end (memory_end ext))"
    using f by (simp_all add: memory_end_unat)
  moreover have "unat (buffer_memory_end (memory_end ext)) \<le> unat (memory_end ext)" using f by simp
  moreover have "mem_init (buffer_memory_end (memory_end ext)) (memory_end ext) s = Inr m"
    unfolding m_def p_def q_def by (rule mem_init_boot)
  ultimately show ?thesis using 1 2 3 by blast
qed


section \<open>The gates\<close>

lemma idt_set_gate [simp]: "idt (set_gate n typ dpl a t) = (idt t)(n := gate_desc typ dpl a)"
  by (simp add: set_gate_def)

lemma idt_gates [simp]:
  "idt (set_trap_gate n a t) = (idt t)(n := gate_desc 15 0 a)"
  "idt (set_intr_gate n a t) = (idt t)(n := gate_desc 14 0 a)"
  "idt (set_system_gate n a t) = (idt t)(n := gate_desc 15 3 a)"
  by (simp_all add: set_trap_gate_def set_intr_gate_def set_system_gate_def)

lemma idt_trap_gates: "idt (fold (\<lambda>i. set_trap_gate i a) ns t) k = (if k \<in> set ns then gate_desc 15 0 a else idt t k)"
  by (induction ns arbitrary: t) auto

lemma idt_other [simp]: "idt (set_ldt_desc n a t) = idt t" "idt (set_tss_desc n a t) = idt t"
  by (simp_all add: set_ldt_desc_def set_tss_desc_def)

lemma gate_fields:
  "gate_present (gate_desc 14 0 a)" "gate_present (gate_desc 15 0 a)" "gate_present (gate_desc 15 3 a)"
  "gate_dpl (gate_desc 14 0 a) = 0" "gate_dpl (gate_desc 15 0 a) = 0" "gate_dpl (gate_desc 15 3 a) = 3"
  "gate_addr (gate_desc 14 0 a) = a" "gate_addr (gate_desc 15 0 a) = a" "gate_addr (gate_desc 15 3 a) = a"
proof -
  show "gate_present (gate_desc 14 0 a)" "gate_present (gate_desc 15 0 a)" "gate_present (gate_desc 15 3 a)"
    by (simp_all add: gate_present_def gate_desc_def bit_eval)
  show "gate_dpl (gate_desc 14 0 a) = 0" "gate_dpl (gate_desc 15 0 a) = 0" "gate_dpl (gate_desc 15 3 a) = 3"
    unfolding gate_dpl_def gate_desc_def desc_struct.simps
    by (rule word32_eqI, elim insertE emptyE; simp add: bit_eval)+
  show "gate_addr (gate_desc 14 0 a) = a" "gate_addr (gate_desc 15 0 a) = a" "gate_addr (gate_desc 15 3 a) = a"
    unfolding gate_addr_def gate_desc_def desc_struct.simps
    by (rule word32_eqI, elim insertE emptyE; simp add: bit_eval)+
qed

text \<open>Which handler \<open>main\<close> leaves behind the vectors 0 to 47 and 128; the others are those of head.s.\<close>

definition vector :: "nat \<Rightarrow> handler option" where
  "vector n =
     (if n < 17 then Some ([divide_error, debug, nmi, int3, overflow, bounds, invalid_op, device_not_available, double_fault,
          coprocessor_segment_overrun, invalid_TSS, segment_not_present, stack_segment, general_protection, page_fault,
          reserved, coprocessor_error] ! n)
      else if n = 0x20 then Some timer_gate_entry
      else if n = 0x21 then Some keyboard_interrupt
      else if n = 0x23 then Some rs2_interrupt
      else if n = 0x24 then Some rs1_interrupt
      else if n = 0x26 then Some floppy_intr_entry
      else if n = 0x27 then Some parallel_interrupt
      else if n = 0x2D then Some irq13
      else if n = 0x2E then Some hd_intr_entry
      else if n < 48 then Some reserved
      else if n = 0x80 then Some system_call_entry
      else None)"

lemma main_inits_idt:
  assumes "main_inits B (t, s) = Inr (t', s')"
  shows "idt t' = idt (floppy_gate (handler_at B) (hd_gate (handler_at B) (fst (sched_init (handler_at B) a b
      (con_gate (handler_at B) (rs_gates (handler_at B) (trap_init (handler_at B) t)), k)))))"
  using assms by (auto simp: main_inits_def Let_def split_beta sched_init_def floppy_gate_def hd_gate_def)

lemma idt_trap_init:
  "idt (trap_init adr t) n =
     (if n < 17 then gate_desc 15 (if n = 3 \<or> n = 4 \<or> n = 5 then 3 else 0) (adr (the (vector n)))
      else if n = 39 then gate_desc 15 0 (adr parallel_interrupt)
      else if n = 45 then gate_desc 15 0 (adr irq13)
      else if n < 48 then gate_desc 15 0 (adr reserved) else idt t n)"
proof -
  have 1: "idt (trap_init adr t) n =
     (if n = 39 then gate_desc 15 0 (adr parallel_interrupt) else if n = 45 then gate_desc 15 0 (adr irq13)
      else if 17 \<le> n \<and> n < 48 then gate_desc 15 0 (adr reserved)
      else idt (trap_init adr t) n)"
    by (simp only: trap_init_def Let_def idt_gates idt_trap_gates fun_upd_apply set_upt atLeastLessThan_iff) simp
  have 2: "idt (trap_init adr t) n = gate_desc 15 (if n = 3 \<or> n = 4 \<or> n = 5 then 3 else 0) (adr (the (vector n)))" if "n < 17"
  proof -
    have "n \<in> {0, 1, 2, 3, 4, 5, 6, 7, 8, 9, 10, 11, 12, 13, 14, 15, 16}"
      using that by (simp only: insert_iff empty_iff) presburger
    then show ?thesis
      by (simp only: trap_init_def Let_def idt_gates idt_trap_gates fun_upd_apply set_upt atLeastLessThan_iff)
        (elim insertE emptyE; simp add: vector_def)
  qed
  have 3: "idt (trap_init adr t) n = idt t n" if "48 \<le> n"
    using that by (simp only: trap_init_def Let_def idt_gates idt_trap_gates fun_upd_apply set_upt atLeastLessThan_iff) simp
  show ?thesis using 1 2 3 by (cases "n < 17"; cases "n < 48") auto
qed

lemma boot_idt:
  assumes "main_inits B (t, s) = Inr (t', s')"
  shows "idt t' n = (case vector n of None \<Rightarrow> idt t n
      | Some h \<Rightarrow> gate_desc (if n \<in> {0x20, 0x23, 0x24, 0x2E} then 14 else 15) (if n \<in> {3, 4, 5, 0x80} then 3 else 0) (handler_at B h))"
  unfolding main_inits_idt [OF assms, of 0 0 undefined] sched_init_def Let_def
  by (auto simp: floppy_gate_def hd_gate_def con_gate_def rs_gates_def idt_trap_init vector_def)

section \<open>The state main leaves\<close>

lemma buffer_init_has_driver: "(buffer_init a b k)\<lparr>has_driver := f\<rparr> = buffer_init a b (k\<lparr>has_driver := f\<rparr>)"
  by (rule kst.equality) (simp_all add: buffer_init_def Let_def cong: if_cong)

lemma bk_hd_init: "bk (hd_init d s) = (bk s)\<lparr>has_driver := (has_driver (bk s))(3 := True)\<rparr>"
  by (simp add: hd_init_def Let_def split_beta io_in_def io_out_def)

lemma bk_floppy_init: "bk (floppy_init d s) = (bk s)\<lparr>has_driver := (has_driver (bk s))(2 := True)\<rparr>"
  by (simp add: floppy_init_def Let_def split_beta io_in_def io_out_def)

lemma request_inits: "request (hd_init d s) = request s" "request (floppy_init d s) = request s"
  by (simp_all add: hd_init_def floppy_init_def Let_def split_beta io_in_def io_out_def)

lemma outb_fields [simp]: "nr_buffers (outb v p k) = nr_buffers k" "mem (outb v p k) = mem k" "task (outb v p k) = task k"
  "startup_time (outb v p k) = startup_time k" "ROOT_DEV (outb v p k) = ROOT_DEV k" "has_driver (outb v p k) = has_driver k"
  "current (outb v p k) = current k" "cons (outb v p k) = cons k" "tty_table (outb v p k) = tty_table k"
  by (simp_all add: outb_def)

lemma trap_ports_fields [simp]: "nr_buffers (trap_ports k) = nr_buffers k" "mem (trap_ports k) = mem k" "task (trap_ports k) = task k"
  "ROOT_DEV (trap_ports k) = ROOT_DEV k" "has_driver (trap_ports k) = has_driver k" "current (trap_ports k) = current k"
  by (simp_all add: trap_ports_def Let_def)

lemma tty_init_fields [simp]: "nr_buffers (tty_init B k) = nr_buffers k" "mem (tty_init B k) = mem k" "task (tty_init B k) = task k"
  "ROOT_DEV (tty_init B k) = ROOT_DEV k" "has_driver (tty_init B k) = has_driver k" "current (tty_init B k) = current k"
  by (simp_all add: tty_init_def con_init_def rs_init_def serial_init_def Let_def)

lemma sched_init_fields: "nr_buffers (snd (sched_init adr a b (t, k))) = nr_buffers k" "mem (snd (sched_init adr a b (t, k))) = mem k"
  "task (snd (sched_init adr a b (t, k))) = (\<lambda>i. if 1 \<le> i \<and> i < NR_TASKS then None else task k i)"
  "ROOT_DEV (snd (sched_init adr a b (t, k))) = ROOT_DEV k" "has_driver (snd (sched_init adr a b (t, k))) = has_driver k"
  "startup_time (snd (sched_init adr a b (t, k))) = startup_time k" "current (snd (sched_init adr a b (t, k))) = current k"
  by (simp_all add: sched_init_def Let_def)

lemma buffer_init_fields: "mem (buffer_init a b k) = mem k" "task (buffer_init a b k) = task k" "ROOT_DEV (buffer_init a b k) = ROOT_DEV k"
  "has_driver (buffer_init a b k) = has_driver k" "startup_time (buffer_init a b k) = startup_time k" "current (buffer_init a b k) = current k"
  by (simp_all add: buffer_init_def Let_def)

lemma main_inits_state:
  assumes ram: "RAMDISK B = None" and clock: "time_init (clock_chip B) = Inr now" and n: "nr_buffers (bk s) = 0"
  obtains t' s' k where "main_inits B (t, s) = Inr (t', s')"
    "bk s' = buffer_init (kernel_end B) (unat (buffer_memory_end (memory_end (EXT_MEM_K B)))) k" "nr_buffers k = 0"
    "mem (bk s') = (mem (bk s))\<lparr>HIGH_MEMORY := memory_end (EXT_MEM_K B),
      mem_map := (\<lambda>i. if first_frame (EXT_MEM_K B) \<le> i \<and> i < last_frame (EXT_MEM_K B) then 0
        else if i < PAGING_PAGES then USED else mem_map (mem (bk s)) i)\<rparr>"
    "task (bk s') = (\<lambda>i. if 1 \<le> i \<and> i < NR_TASKS then None else task (bk s) i)" "current (bk s') = current (bk s)"
    "ROOT_DEV (bk s') = ORIG_ROOT_DEV B" "startup_time (bk s') = now"
    "has_driver (bk s') = (has_driver (bk s))(3 := True, 2 := True)"
    "\<forall>i<NR_REQUEST. r_dev (request s' i) = - 1"
proof -
  define k0 where "k0 = (tty_init B (trap_ports ((bk s)\<lparr>ROOT_DEV := ORIG_ROOT_DEV B,
      mem := (mem (bk s))\<lparr>HIGH_MEMORY := memory_end (EXT_MEM_K B),
        mem_map := (\<lambda>i. if first_frame (EXT_MEM_K B) \<le> i \<and> i < last_frame (EXT_MEM_K B) then 0
          else if i < PAGING_PAGES then USED else mem_map (mem (bk s)) i)\<rparr>\<rparr>)))\<lparr>startup_time := now\<rparr>"
  define t0 where "t0 = con_gate (handler_at B) (rs_gates (handler_at B) (trap_init (handler_at B) t))"
  define k1 where "k1 = snd (sched_init (handler_at B) (tss_at B) (ldt_at B) (t0, k0))"
  define b where "b = unat (buffer_memory_end (memory_end (EXT_MEM_K B)))"
  define s1 where "s1 = (blk_dev_init s)\<lparr>bk := buffer_init (kernel_end B) b k1\<rparr>"
  define s' where "s' = floppy_init (drives B) (hd_init (drives B) s1)"
  define t' where "t' = floppy_gate (handler_at B) (hd_gate (handler_at B) (fst (sched_init (handler_at B) (tss_at B) (ldt_at B) (t0, k0))))"
  have run: "main_inits B (t, s) = Inr (t', s')"
    by (simp add: main_inits_def main_memory_start_def ram clock on_bk_def mem_init_boot blk_dev_init_def Let_def split_beta
        t'_def s'_def s1_def b_def k1_def k0_def t0_def cong: if_cong)
  have bk: "bk s' = buffer_init (kernel_end B) b (k1\<lparr>has_driver := (has_driver k1)(3 := True, 2 := True)\<rparr>)"
    by (simp add: s'_def s1_def bk_floppy_init bk_hd_init buffer_init_has_driver buffer_init_fields)
  note f = buffer_init_fields k1_def sched_init_fields k0_def
  show thesis
  proof (rule that [OF run])
    show "bk s' = buffer_init (kernel_end B) (unat (buffer_memory_end (memory_end (EXT_MEM_K B))))
        (k1\<lparr>has_driver := (has_driver k1)(3 := True, 2 := True)\<rparr>)"
      using bk by (simp add: b_def)
    show "\<forall>i<NR_REQUEST. r_dev (request s' i) = - 1"
      by (simp add: s'_def request_inits s1_def blk_dev_init_def)
  qed (simp_all add: bk f n cong: if_cong)
qed

text \<open>
  C13: main brings the kernel into the states the other components are proved from: with the
  memory the BIOS reports, a valid date and room for two buffers all initialisers return,
  the buffer cache is well formed with every buffer unused, unlocked and clean, exactly the
  page frames between the buffers and the end of the memory are free, the request table is
  empty, no task but task 0 exists, the disk drivers are registered and time and root device
  are set.
\<close>

theorem boot_ready:
  assumes "RAMDISK B = None" "time_init (clock_chip B) = Inr now" "nr_buffers (bk s) = 0"
    and "2 \<le> count_buffers (kernel_end B) 0
           (let e = unat (buffer_memory_end (memory_end (EXT_MEM_K B))) in if e = 0x100000 then 640 * 1024 else e)"
  shows "\<exists>t' s'. main_inits B (t, s) = Inr (t', s') \<and> cache_inv (bk s') \<and>
    (\<forall>b<nr_buffers (bk s'). b_count (buffers (bk s') b) = 0 \<and> \<not> b_lock (buffers (bk s') b) \<and> \<not> b_dirt (buffers (bk s') b)) \<and>
    (\<forall>i<PAGING_PAGES. mem_map (mem (bk s')) i = 0 \<longleftrightarrow>
       buffer_memory_end (memory_end (EXT_MEM_K B)) \<le> page_of i \<and> page_of i < memory_end (EXT_MEM_K B)) \<and>
    (\<forall>i<NR_REQUEST. r_dev (request s' i) = - 1) \<and>
    (\<forall>i. 0 < i \<and> i < NR_TASKS \<longrightarrow> task (bk s') i = None) \<and> task (bk s') 0 = task (bk s) 0 \<and>
    has_driver (bk s') 2 \<and> has_driver (bk s') 3 \<and> ROOT_DEV (bk s') = ORIG_ROOT_DEV B \<and> startup_time (bk s') = now"
proof -
  obtain t' s' k where r: "main_inits B (t, s) = Inr (t', s')"
      "bk s' = buffer_init (kernel_end B) (unat (buffer_memory_end (memory_end (EXT_MEM_K B)))) k" "nr_buffers k = 0"
      "mem (bk s') = (mem (bk s))\<lparr>HIGH_MEMORY := memory_end (EXT_MEM_K B),
        mem_map := (\<lambda>i. if first_frame (EXT_MEM_K B) \<le> i \<and> i < last_frame (EXT_MEM_K B) then 0
          else if i < PAGING_PAGES then USED else mem_map (mem (bk s)) i)\<rparr>"
      "task (bk s') = (\<lambda>i. if 1 \<le> i \<and> i < NR_TASKS then None else task (bk s) i)" "current (bk s') = current (bk s)"
      "ROOT_DEV (bk s') = ORIG_ROOT_DEV B" "startup_time (bk s') = now"
      "has_driver (bk s') = (has_driver (bk s))(3 := True, 2 := True)"
      "\<forall>i<NR_REQUEST. r_dev (request s' i) = - 1"
    by (rule main_inits_state [OF assms(1-3), of t])
  have "cache_inv (bk s') \<and>
    (\<forall>b<nr_buffers (bk s'). b_count (buffers (bk s') b) = 0 \<and> \<not> b_lock (buffers (bk s') b) \<and> \<not> b_dirt (buffers (bk s') b))"
    unfolding r(2) by (rule buffer_init_ok [OF r(3)]) (use assms(4) in \<open>simp add: Let_def\<close>)
  moreover have "mem_map (mem (bk s')) i = 0 \<longleftrightarrow>
       buffer_memory_end (memory_end (EXT_MEM_K B)) \<le> page_of i \<and> page_of i < memory_end (EXT_MEM_K B)" if "i < PAGING_PAGES" for i
    using that unfolding word_le_nat_alt word_less_nat_alt frames page_in [OF that] r(4) by (simp add: USED_def)
  ultimately show ?thesis using r by (intro exI [of _ t'] exI [of _ s']) auto
qed


section \<open>A boot\<close>

text \<open>8 MB of memory, a colour display, the 17th of September 1991.\<close>

definition ex_boot :: boot where
  "ex_boot = \<lparr>EXT_MEM_K = 7168, ORIG_ROOT_DEV = 0x301, ORIG_X = 0, ORIG_Y = 0, ORIG_VIDEO_PAGE = 0, ORIG_VIDEO_MODE = 0x5003,
     ORIG_VIDEO_EGA_BX = 0, clock_chip = (\<lambda>r. if r = 7 then 0x17 else if r = 8 then 0x09 else if r = 9 then 0x91 else 0),
     drives = \<lparr>dev_byte = (\<lambda>_ _. 0), dev_data = (\<lambda>_ _. 0)\<rparr>, RAMDISK = None, kernel_end = 0x25000,
     handler_at = (\<lambda>h. if h = system_call_entry then 0x7000 else 0x6000), tss_at = 0x1a2f8, ldt_at = 0x1a2e0\<rparr>"

text \<open>The interrupt table of head.s: 256 gates to \<open>ignore_int\<close>.\<close>

definition head_tables :: desc_tables where
  "head_tables = \<lparr>idt = (\<lambda>n. gate_desc 14 0 0x5428), gdt = (\<lambda>_. \<lparr>d_a = 0, d_b = 0\<rparr>)\<rparr>"

definition ex_start :: blk where
  "ex_start = \<lparr>bk = static_tables 0x19000 ex_kst, request = (\<lambda>i. \<lparr>r_dev = 0, r_cmd = READ, r_errors = 0, r_sector = 0,
     r_nr_sectors = 0, r_buffer = 0, r_bh = None, r_next = None\<rparr>), current_request = (\<lambda>_. None), rd_start = 0, rd_length = 0,
     rd_mem = (\<lambda>_. 0), hdd = ex_hd, fdd = ex_fd, ios = []\<rparr>"

lemma count_buffers_ge: "h \<le> count_buffers start h b"
proof (induction start h b rule: count_buffers.induct)
  case (1 start h b)
  show ?case
  proof (cases "BLOCK_SIZE \<le> b \<and> start + head_size * (h + 1) \<le> b - BLOCK_SIZE")
    case True
    then have "Suc h \<le> count_buffers start h b"
      using 1 by (subst count_buffers.simps) (simp add: Let_def)
    then show ?thesis by simp
  next
    case False
    then show ?thesis by (subst count_buffers.simps) auto
  qed
qed

lemma ex_boot_buffers: "2 \<le> count_buffers 0x25000 0 0x200000"
proof -
  have "count_buffers 0x25000 0 0x200000 = count_buffers 0x25000 2 (0x200000 - 2048)"
    by (subst count_buffers.simps, simp add: BLOCK_SIZE_def head_size_def)
       (subst count_buffers.simps, simp add: BLOCK_SIZE_def head_size_def numeral_2_eq_2)
  then show ?thesis using count_buffers_ge [of 2 "0x25000" "0x200000 - 2048"] by simp
qed

lemma ex_boot_end: "unat (buffer_memory_end (memory_end 7168)) = 0x200000"
  using memory_end_unat [of 7168] by (subst buffer_memory_end_unat) simp_all

lemma ex_boot_clock: "\<exists>now. time_init (clock_chip ex_boot) = Inr now"
  by (simp add: time_init_def ex_boot_def BCD_TO_BIN_def kernel_mktime_def month_def YEAR_def DAY_def HOUR_def MINUTE_def
      word_sle_eq word_sless_alt signed_divide_int_def signed_modulo_int_def Let_def)

lemma ex_boot_fields:
  "RAMDISK ex_boot = None" "EXT_MEM_K ex_boot = 7168" "kernel_end ex_boot = 0x25000" "ORIG_ROOT_DEV ex_boot = 0x301"
  "handler_at ex_boot system_call_entry = 0x7000" "nr_buffers (bk ex_start) = 0"
  by (simp_all add: ex_boot_def ex_start_def static_tables_def)

theorem boot_ready_witness:
  "\<exists>t' s'. main_inits ex_boot (head_tables, ex_start) = Inr (t', s') \<and> cache_inv (bk s') \<and> ROOT_DEV (bk s') = 0x301 \<and>
     mem_map (mem (bk s')) 255 \<noteq> 0 \<and> mem_map (mem (bk s')) 256 = 0"
proof -
  obtain now where "time_init (clock_chip ex_boot) = Inr now" using ex_boot_clock by auto
  from boot_ready [OF ex_boot_fields(1) this ex_boot_fields(6), of head_tables]
  obtain t' s' where r: "main_inits ex_boot (head_tables, ex_start) = Inr (t', s')" "cache_inv (bk s')" "ROOT_DEV (bk s') = 0x301"
      and m: "\<forall>i<PAGING_PAGES. mem_map (mem (bk s')) i = 0 \<longleftrightarrow>
        buffer_memory_end (memory_end 7168) \<le> page_of i \<and> page_of i < memory_end 7168"
    using ex_boot_buffers by (auto simp: ex_boot_fields ex_boot_end Let_def)
  have e: "unat (memory_end 7168) = 0x800000" using memory_end_unat [of 7168] by simp
  have "mem_map (mem (bk s')) 255 \<noteq> 0" "mem_map (mem (bk s')) 256 = 0"
    using m by (simp_all add: word_le_nat_alt word_less_nat_alt ex_boot_end e unat_page_of PAGING_PAGES_def)
  with r show ?thesis by blast
qed

text \<open>
  C18: After main exactly the gates 3, 4, 5 and 0x80 can be called by user programs, and
  every vector main sets leads to its own handler, although the drivers and the scheduler
  set theirs over those of trap_init.
\<close>

theorem boot_gates:
  assumes "main_inits B (t, s) = Inr (t', s')" "\<forall>n<256. gate_dpl (idt t n) = 0" "n < 256"
  shows "(gate_dpl (idt t' n) = 3 \<longleftrightarrow> n = 3 \<or> n = 4 \<or> n = 5 \<or> n = 0x80) \<and> (gate_dpl (idt t' n) = 0 \<or> gate_dpl (idt t' n) = 3) \<and>
    (case vector n of None \<Rightarrow> idt t' n = idt t n
     | Some h \<Rightarrow> gate_present (idt t' n) \<and> gate_addr (idt t' n) = handler_at B h)"
  using assms(2,3) by (auto simp: boot_idt [OF assms(1)] gate_fields vector_def split: option.splits if_splits)


theorem boot_gates_witness:
  "\<exists>t' s'. main_inits ex_boot (head_tables, ex_start) = Inr (t', s') \<and> gate_dpl (idt t' 0x80) = 3 \<and> gate_addr (idt t' 0x80) = 0x7000"
proof -
  obtain now where "time_init (clock_chip ex_boot) = Inr now" using ex_boot_clock by auto
  from main_inits_state [OF ex_boot_fields(1) this ex_boot_fields(6), of head_tables]
  obtain t' s' where r: "main_inits ex_boot (head_tables, ex_start) = Inr (t', s')" by metis
  have "gate_dpl (idt t' 0x80) = 3 \<and> gate_addr (idt t' 0x80) = 0x7000"
    using boot_gates [OF r, of "0x80"] by (simp add: head_tables_def gate_fields vector_def ex_boot_fields)
  with r show ?thesis by blast
qed

theorem init_task_segments:
  "t_code_base (INIT_TASK p) = 0 \<and> t_code_limit (INIT_TASK p) = 640 * 1024 \<and>
   t_data_base (INIT_TASK p) = t_code_base (INIT_TASK p) \<and> t_data_limit (INIT_TASK p) = t_code_limit (INIT_TASK p)"
  by (simp add: INIT_TASK_def init_ldt_def get_base_def get_limit_def)

end
