(* ===== verification/C_Bytes.thy ===== *)
theory C_Bytes imports Prelude begin

text \<open>
  Lists of bytes in a memory of 32 bit addresses.
\<close>

lemma unat_plus_nat: "unat a + k < 2 ^ 32 \<Longrightarrow> unat ((a :: u32) + of_nat k) = unat a + k"
  by (simp add: unat_word_ariths unat_of_nat)

text \<open>The bytes \<open>xs\<close> stand at address \<open>a\<close>.\<close>

definition bytes_at :: "(u32 \<Rightarrow> u8) \<Rightarrow> u32 \<Rightarrow> u8 list \<Rightarrow> bool" where
  "bytes_at m a xs \<longleftrightarrow> (\<forall>i < length xs. m (a + of_nat i) = xs ! i)"

lemma bytes_at_Nil [simp]: "bytes_at m a []"
  by (simp add: bytes_at_def)

lemma bytes_at_Cons [simp]: "bytes_at m a (x # xs) \<longleftrightarrow> m a = x \<and> bytes_at m (a + 1) xs"
  by (simp add: bytes_at_def All_less_Suc2 algebra_simps)

lemma bytes_at_append [simp]: "bytes_at m a (xs @ ys) \<longleftrightarrow> bytes_at m a xs \<and> bytes_at m (a + of_nat (length xs)) ys"
  by (induction xs arbitrary: a) (auto simp: algebra_simps)

lemma bytes_at_cong:
  "bytes_at m a xs \<Longrightarrow> unat a + length xs \<le> 2 ^ 32 \<Longrightarrow>
    (\<And>b. unat a \<le> unat b \<Longrightarrow> unat b < unat a + length xs \<Longrightarrow> m' b = m b) \<Longrightarrow> bytes_at m' a xs"
  unfolding bytes_at_def by (auto simp: unat_plus_nat)

end
