(* ===== verification/Exec_Lemmas.thy ===== *)
theory Exec_Lemmas imports Exec C_Bytes Example begin

text \<open>
  The arguments of a new program: the strings copied into pages are laid out one behind the other, and
  the tables on the stack point to them.
\<close>

section \<open>Longs in user memory\<close>

lemma bytes_of_long:
  "(ucast (ucast v :: u8) :: u32) OR push_bit 8 (ucast (ucast (drop_bit 8 v) :: u8)) OR
    push_bit 16 (ucast (ucast (drop_bit 16 v) :: u8)) OR push_bit 24 (ucast (ucast (drop_bit 24 v) :: u8)) = v"
proof (rule bit_word_eqI)
  fix n assume "n < LENGTH(32)"
  then have "n < 8 \<or> 8 \<le> n \<and> n < 16 \<or> 16 \<le> n \<and> n < 24 \<or> 24 \<le> n \<and> n < 32" by auto
  then show "bit ((ucast (ucast v :: u8) :: u32) OR push_bit 8 (ucast (ucast (drop_bit 8 v) :: u8)) OR
    push_bit 16 (ucast (ucast (drop_bit 16 v) :: u8)) OR push_bit 24 (ucast (ucast (drop_bit 24 v) :: u8))) n = bit v n"
    by (auto simp: bit_simps)
qed

lemma get_put_long [simp]: "get_fs_long a (put_fs_long v a s) = v"
proof -
  have "a \<noteq> a + 1" "a \<noteq> a + 2" "a \<noteq> a + 3" "a + 1 \<noteq> a + 2" "a + 1 \<noteq> a + 3" "a + 2 \<noteq> a + 3"
    by simp_all
  then show ?thesis by (simp add: get_fs_long_def put_fs_long_def bytes_of_long)
qed

lemma put_long_outside:
  assumes "unat a + 4 \<le> 2 ^ 32" "unat b < unat a \<or> unat a + 4 \<le> unat b"
  shows "umem (put_fs_long v a s) b = umem s b"
proof -
  have "unat (a + 1) = unat a + 1" "unat (a + 2) = unat a + 2" "unat (a + 3) = unat a + 3"
    using unat_plus_nat [of a 1] unat_plus_nat [of a 2] unat_plus_nat [of a 3] assms(1) by simp_all
  then show ?thesis using assms(2) by (auto simp: put_fs_long_def)
qed

lemma get_long_cong:
  assumes "unat a + 4 \<le> 2 ^ 32" "\<And>b. unat a \<le> unat b \<Longrightarrow> unat b < unat a + 4 \<Longrightarrow> umem s b = umem t b"
  shows "get_fs_long a s = get_fs_long a t"
proof -
  have "unat (a + 1) = unat a + 1" "unat (a + 2) = unat a + 2" "unat (a + 3) = unat a + 3"
    using unat_plus_nat [of a 1] unat_plus_nat [of a 2] unat_plus_nat [of a 3] assms(1) by simp_all
  then show ?thesis using assms(2) by (simp add: get_fs_long_def)
qed

section \<open>Strings in user memory\<close>

text \<open>The strings of a list, each with its final zero.\<close>

definition c_strings :: "u8 list list \<Rightarrow> u8 list" where
  "c_strings ss = concat (map (\<lambda>xs. xs @ [0]) ss)"

lemma c_strings_simps [simp]: "c_strings [] = []" "c_strings (xs # ss) = xs @ 0 # c_strings ss"
  "c_strings (ss @ ts) = c_strings ss @ c_strings ts"
  by (simp_all add: c_strings_def)

lemma str_len_bytes: "bytes_at m a (xs @ [0]) \<Longrightarrow> 0 \<notin> set xs \<Longrightarrow> length xs < n \<Longrightarrow> str_len n a m = Inr (Suc (length xs))"
proof (induction n arbitrary: a xs)
  case (Suc n)
  then show ?case by (cases xs) auto
qed simp

section \<open>The tables of pointers\<close>

text \<open>Where the strings of a list start when they stand one behind the other from \<open>p\<close> on.\<close>

primrec starts :: "u32 \<Rightarrow> u8 list list \<Rightarrow> u32 list" where
  "starts p [] = []"
| "starts p (xs # ss) = p # starts (p + of_nat (Suc (length xs))) ss"

lemma length_starts [simp]: "length (starts p ss) = length ss"
  by (induction ss arbitrary: p) auto

lemma starts_bytes:
  "bytes_at m p (c_strings ss) \<Longrightarrow> k < length ss \<Longrightarrow> bytes_at m (starts p ss ! k) (ss ! k @ [0])"
proof (induction ss arbitrary: p k)
  case (Cons xs ss)
  have rest: "bytes_at m (p + of_nat (Suc (length xs))) (c_strings ss)"
    using Cons.prems(1) by (simp add: algebra_simps)
  show ?case
  proof (cases k)
    case (Suc j)
    then show ?thesis using Cons.IH [OF rest, of j] Cons.prems(2) by (simp del: bytes_at_append)
  qed (use Cons.prems(1) in auto)
qed simp

definition table_at :: "kst \<Rightarrow> u32 \<Rightarrow> u32 list \<Rightarrow> bool" where
  "table_at s tab vs \<longleftrightarrow> (\<forall>k < length vs. get_fs_long (tab + 4 * of_nat k) s = vs ! k)"

lemma table_at_Cons: "table_at s tab (v # vs) \<longleftrightarrow> get_fs_long tab s = v \<and> table_at s (tab + 4) vs"
  by (simp add: table_at_def All_less_Suc2 algebra_simps)

lemma put_table:
  assumes "list_all (\<lambda>xs. 0 \<notin> set xs) ss" "bytes_at (umem s) p (c_strings ss)"
    and "unat tab + 4 * (length ss + 1) \<le> unat p" "unat p + length (c_strings ss) < 2 ^ 32"
  shows "\<exists>t. put_table (length ss) p tab s = Inr (p + of_nat (length (c_strings ss)), t) \<and>
    table_at t tab (starts p ss @ [0]) \<and>
    (\<forall>b. unat b < unat tab \<or> unat tab + 4 * (length ss + 1) \<le> unat b \<longrightarrow> umem t b = umem s b)"
  using assms
proof (induction ss arbitrary: p tab s)
  case Nil
  have "unat tab + 4 \<le> 2 ^ 32" using Nil by simp
  then show ?case using put_long_outside [of tab] by (auto simp: table_at_def)
next
  case (Cons xs ss)
  let ?s = "put_fs_long p tab s" and ?n = "Suc (length xs)"
  have plt: "unat p < 2 ^ LENGTH(32)" by (rule unsigned_less)
  have tab4: "unat tab + 4 \<le> 2 ^ 32" using Cons.prems(3) plt by simp
  have outside: "umem ?s b = umem s b" if "unat b < unat tab \<or> unat tab + 4 \<le> unat b" for b
    using that by (rule put_long_outside [OF tab4])
  have m: "bytes_at (umem ?s) p (c_strings (xs # ss))"
    using Cons.prems(2) by (rule bytes_at_cong) (use Cons.prems(3,4) in \<open>auto intro: outside\<close>)
  have len: "str_len 4294967296 p (umem ?s) = Inr ?n"
    using m Cons.prems(1,4) by (intro str_len_bytes) auto
  have p': "unat (p + of_nat ?n) = unat p + ?n"
    by (rule unat_plus_nat) (use Cons.prems(4) in simp)
  have t': "unat (tab + 4) = unat tab + 4"
    using unat_plus_nat [of tab 4] Cons.prems(3) plt by simp
  obtain t where t: "put_table (length ss) (p + of_nat ?n) (tab + 4) ?s
      = Inr (p + of_nat ?n + of_nat (length (c_strings ss)), t)"
    and tt: "table_at t (tab + 4) (starts (p + of_nat ?n) ss @ [0])"
    and to: "\<forall>b. unat b < unat tab + 4 \<or> unat tab + 4 + 4 * (length ss + 1) \<le> unat b \<longrightarrow> umem t b = umem ?s b"
    using Cons.IH [of ?s "p + of_nat ?n" "tab + 4"] Cons.prems(1,3,4) m unfolding p' t'
    by (auto simp: algebra_simps)
  have "get_fs_long tab t = get_fs_long tab ?s"
    using tab4 by (rule get_long_cong) (use to in auto)
  then have "table_at t tab (starts p (xs # ss) @ [0])"
    using tt by (simp add: table_at_Cons)
  moreover have "umem t b = umem s b"
    if "unat b < unat tab \<or> unat tab + 4 * (length (xs # ss) + 1) \<le> unat b" for b
    using that to outside [of b] by auto
  moreover have "put_table (length (xs # ss)) p tab s = Inr (p + of_nat (length (c_strings (xs # ss))), t)"
    using t by (simp add: Let_def len algebra_simps)
  ultimately show ?case by blast
qed

section \<open>The tables built on the stack\<close>

text \<open>The longs of an address range are those of another memory that agrees with it there.\<close>

lemma get_long_keep:
  assumes "\<forall>b. lo \<le> unat b \<and> unat b < hi \<longrightarrow> umem t b = umem s b"
    and "lo \<le> unat a" "unat a + 4 \<le> hi" "hi \<le> 2 ^ 32"
  shows "get_fs_long a t = get_fs_long a s"
  by (rule get_long_cong) (use assms in auto)

lemma unat_table_slot: "unat tab + 4 * n \<le> 2 ^ 32 \<Longrightarrow> k < n \<Longrightarrow> unat (tab + 4 * of_nat k :: u32) = unat tab + 4 * k"
  using unat_plus_nat [of tab "4 * k"] by simp

lemma table_keep:
  assumes "table_at s tab vs" "\<forall>b. unat tab \<le> unat b \<and> unat b < unat tab + 4 * length vs \<longrightarrow> umem t b = umem s b"
    and "unat tab + 4 * length vs \<le> 2 ^ 32"
  shows "table_at t tab vs"
  unfolding table_at_def
proof (intro allI impI)
  fix k assume k: "k < length vs"
  have "get_fs_long (tab + 4 * of_nat k) t = get_fs_long (tab + 4 * of_nat k) s"
    by (rule get_long_keep [OF assms(2)]) (use k assms(3) unat_table_slot [OF assms(3) k] in auto)
  then show "get_fs_long (tab + 4 * of_nat k) t = vs ! k"
    using assms(1) k by (simp add: table_at_def)
qed

lemma table_strings:
  assumes "table_at t tab (starts p ss @ [0])" "bytes_at (umem t) p (c_strings ss)"
  shows "get_fs_long (tab + 4 * of_nat (length ss)) t = 0 \<and>
    (\<forall>k < length ss. bytes_at (umem t) (get_fs_long (tab + 4 * of_nat k) t) (ss ! k @ [0]))"
  using assms starts_bytes [OF assms(2)] by (auto simp: table_at_def nth_append simp del: bytes_at_append)

lemma unat_align: "unat (0xfffffffc AND (p :: u32)) = unat p div 4 * 4"
proof -
  have p: "unat p < 2 ^ LENGTH(32)" by (rule unsigned_less)
  have mask: "0xfffffffc = NOT (mask 2 :: u32)" by (simp add: mask_eq_exp_minus_1)
  have "0xfffffffc AND p = push_bit 2 (drop_bit 2 p)"
    unfolding mask by (rule bit_word_eqI) (auto simp: bit_simps not_less le_iff_add simp del: push_bit_numeral)
  then show ?thesis
    unfolding unsigned_push_bit_eq unsigned_drop_bit_eq using p
    by (simp only: unsigned_push_bit_eq unsigned_drop_bit_eq) (simp add: push_bit_eq_mult drop_bit_eq_div take_bit_eq_mod)
qed

lemma get_other_long:
  assumes "unat a + 4 \<le> 2 ^ 32" "unat b + 4 \<le> 2 ^ 32" "unat b + 4 \<le> unat a \<or> unat a + 4 \<le> unat b"
  shows "get_fs_long b (put_fs_long v a s) = get_fs_long b s"
  using assms(2) by (rule get_long_cong) (use assms in \<open>auto simp: put_long_outside\<close>)

lemma unat_minus_nat: "k \<le> unat a \<Longrightarrow> unat ((a :: u32) - of_nat k) = unat a - k"
proof -
  assume k: "k \<le> unat a"
  moreover have "unat a < 2 ^ LENGTH(32)" by (rule unsigned_less)
  ultimately have "unat (of_nat k :: u32) = k" by (simp add: unat_of_nat)
  then show ?thesis using k by (simp add: unat_sub word_le_nat_alt)
qed

text \<open>
  C27: With the strings of arguments and environment in place create_tables builds the stack
  a program starts on: argc, argv and envp, the argv and envp arrays whose entries point to
  the strings and end with a null pointer, everything aligned and below the strings, which
  are not changed.
\<close>

theorem create_tables_argv:
  fixes as es :: "u8 list list"
  assumes zeros: "list_all (\<lambda>xs. 0 \<notin> set xs) (as @ es)"
    and bytes: "bytes_at (umem s) p (c_strings (as @ es))" "unat p + length (c_strings (as @ es)) < 2 ^ 32"
    and room: "4 * (length as + length es) + 24 \<le> unat p"
  shows "\<exists>sp t. create_tables p (int (length as)) (int (length es)) s = Inr (sp, t) \<and>
    unat sp + 4 * (length as + length es) + 20 \<le> unat p \<and> 4 dvd unat sp \<and>
    get_fs_long sp t = of_nat (length as) \<and>
    (let argv = get_fs_long (sp + 4) t; envp = get_fs_long (sp + 8) t
     in get_fs_long (argv + 4 * of_nat (length as)) t = 0 \<and>
       (\<forall>k < length as. bytes_at (umem t) (get_fs_long (argv + 4 * of_nat k) t) (as ! k @ [0])) \<and>
       get_fs_long (envp + 4 * of_nat (length es)) t = 0 \<and>
       (\<forall>k < length es. bytes_at (umem t) (get_fs_long (envp + 4 * of_nat k) t) (es ! k @ [0]))) \<and>
    (\<forall>b. unat p \<le> unat b \<longrightarrow> umem t b = umem s b)"
proof -
  let ?a = "length as" and ?e = "length es" and ?p' = "p + of_nat (length (c_strings as))"
  define q where "q = 0xfffffffc AND p"
  define envp where "envp = q - of_nat (4 * (?e + 1))"
  define argv where "argv = envp - of_nat (4 * (?a + 1))"
  define sp where "sp = argv - of_nat 12"
  have q: "unat q \<le> unat p" "unat p < unat q + 4" "4 dvd unat q"
    unfolding q_def unat_align by auto
  have ue: "unat envp + 4 * (?e + 1) = unat q"
    unfolding envp_def using q room by (subst unat_minus_nat) auto
  have ua: "unat argv + 4 * (?a + 1) = unat envp"
    unfolding argv_def using q ue room by (subst unat_minus_nat) auto
  have us: "unat sp + 12 = unat argv"
    unfolding sp_def using q ue ua room by (subst unat_minus_nat) auto
  have up: "unat p < 2 ^ LENGTH(32)" by (rule unsigned_less)
  have sp4: "argv - 8 = sp + 4" "argv - 4 = sp + 8" "argv - 12 = sp" unfolding sp_def by simp_all
  have u4: "unat (sp + 4) = unat sp + 4" "unat (sp + 8) = unat sp + 8"
    using unat_plus_nat [of sp 4] unat_plus_nat [of sp 8] us ua ue q up by simp_all
  let ?s3 = "put_fs_long (of_nat ?a) sp (put_fs_long argv (sp + 4) (put_fs_long envp (sp + 8) s))"
  have s3: "umem ?s3 b = umem s b" if "unat argv \<le> unat b" for b
    using that us u4 up q ua ue by (simp add: put_long_outside)
  have "bytes_at (umem ?s3) p (c_strings (as @ es))"
    using bytes(1) by (rule bytes_at_cong) (use bytes(2) q ue ua in \<open>auto intro!: s3\<close>)
  then have b3: "bytes_at (umem ?s3) p (c_strings as)" "bytes_at (umem ?s3) ?p' (c_strings es)" by simp_all
  have p': "unat ?p' = unat p + length (c_strings as)"
    by (rule unat_plus_nat) (use bytes(2) in simp)
  obtain t1 where t1: "put_table ?a p argv ?s3 = Inr (?p', t1)" "table_at t1 argv (starts p as @ [0])"
    and k1: "\<forall>b. unat b < unat argv \<or> unat argv + 4 * (?a + 1) \<le> unat b \<longrightarrow> umem t1 b = umem ?s3 b"
    using put_table [of as ?s3 p argv] zeros b3(1) bytes(2) ua ue q(1) by auto
  have b1: "bytes_at (umem t1) ?p' (c_strings es)"
    using b3(2) by (rule bytes_at_cong) (use bytes(2) p' q ue ua k1 in auto)
  obtain t where t: "put_table ?e ?p' envp t1 = Inr (?p' + of_nat (length (c_strings es)), t)"
    "table_at t envp (starts ?p' es @ [0])"
    and k2: "\<forall>b. unat b < unat envp \<or> unat envp + 4 * (?e + 1) \<le> unat b \<longrightarrow> umem t b = umem t1 b"
    using put_table [of es t1 ?p' envp] zeros b1 bytes(2) p' ua ue q(1) by auto
  have en: "q - 4 * of_int (int ?e + 1) = envp" and ar: "envp - 4 * of_int (int ?a + 1) = argv"
    by (simp_all add: envp_def argv_def)
  have run: "create_tables p (int ?a) (int ?e) s = Inr (sp, t)"
    unfolding create_tables_def q_def [symmetric] Let_def en ar sp4
    using t1(1) t(1) by (simp add: sp4)
  have kept: "umem t b = umem s b" if "unat p \<le> unat b" for b
    using that k1 k2 s3 [of b] q ue ua by auto
  have low: "umem t b = umem ?s3 b" if "unat b < unat argv" for b
    using that k1 k2 ua by auto
  have bt: "bytes_at (umem t) p (c_strings as)" "bytes_at (umem t) ?p' (c_strings es)"
  proof -
    have "bytes_at (umem t) p (c_strings (as @ es))"
      using bytes(1) by (rule bytes_at_cong) (use bytes(2) in \<open>auto intro!: kept\<close>)
    then show "bytes_at (umem t) p (c_strings as)" "bytes_at (umem t) ?p' (c_strings es)" by simp_all
  qed
  have ta: "table_at t argv (starts p as @ [0])"
    using t1(2) by (rule table_keep) (use k2 ua ue q up in auto)
  have slots: "get_fs_long x t = get_fs_long x ?s3" if "x = sp \<or> x = sp + 4 \<or> x = sp + 8" for x
    by (rule get_long_keep [of 0 "unat argv"]) (use that low u4 us ua ue q up in auto)
  have "unat sp + 12 \<le> 2 ^ 32" using us ua ue q up by simp
  then have vals: "get_fs_long sp t = of_nat ?a" "get_fs_long (sp + 4) t = argv" "get_fs_long (sp + 8) t = envp"
    by (simp_all add: slots get_other_long u4)
  have "4 dvd unat sp" using q(3) us ua ue by presburger
  moreover have "unat sp + 4 * (?a + ?e) + 20 \<le> unat p" using q(1) us ua ue by simp
  ultimately show ?thesis
    using run kept table_strings [OF ta bt(1)] table_strings [OF t(2) bt(2)] by (auto simp: vals Let_def)
qed

definition ex_args :: kst where
  "ex_args = ex_kst\<lparr>umem := (\<lambda>_. 0)(0x1001 := 97, 0x1003 := 98)\<rparr>"

theorem create_tables_argv_witness:
  "\<exists>sp t. create_tables 0x1001 1 1 ex_args = Inr (sp, t) \<and> get_fs_long sp t = 1 \<and> 4 dvd unat sp"
  using create_tables_argv [of "[[97]]" "[[98]]" ex_args "0x1001"] by (auto simp: ex_args_def)

end
