(* ===== verification/Syscall_Lemmas.thy ===== *)
theory Syscall_Lemmas imports Syscalls Exec_Lemmas Example_Drives begin

text \<open>
  What a user program sees of a system call: the call of its number runs, the stub gives back the value or
  sets \<open>errno\<close>, a signal that is pending is delivered on the way back with a frame on the user's stack,
  and a task in the kernel keeps the processor when the clock ticks.
\<close>

section \<open>The registers\<close>

lemma table_matches: "sys_call_table ! nr c = c \<and> nr c < nr_system_calls"
  by (cases c) (simp_all add: sys_call_table_def nr_system_calls_def)

lemma call3_regs: "call3 f g s = Inr (Back v h t) \<Longrightarrow> h = g"
  by (auto simp: call3_def bindk_def split: sum.splits)

lemma run_call_regs:
  "run_call m c g s = Inr (Back v h t) \<Longrightarrow> c \<noteq> NR_execve \<Longrightarrow> h = g"
  by (cases c) (auto simp: setup_call_def exit_call_def fork_call_def bindk_def dest!: call3_regs split: sum.splits)

lemma bsf_None: "bsf x = None \<longleftrightarrow> x = 0"
  by (auto simp: bsf_def find_None_iff bit_eq_iff dest: bit_imp_le_length)

lemma bsf_Some: "bsf x = Some k \<longleftrightarrow> k < 32 \<and> bit x k \<and> (\<forall>j<k. \<not> bit x j)"
  by (auto simp: bsf_def find_Some_iff)

lemma get_put_apart:
  assumes "3 < b - a" "3 < a - b"
  shows "get_fs_long b (put_fs_long v a s) = get_fs_long b s"
proof -
  have ne: "b + i \<noteq> a + j" if "i \<in> {0, 1, 2, 3}" "j \<in> {0, 1, 2, 3}" for i j :: u32
  proof
    assume "b + i = a + j"
    then have "b - a = j - i" "a - b = i - j" by (simp_all add: algebra_simps)
    with that assms show False by auto
  qed
  have "umem (put_fs_long v a s) (b + i) = umem s (b + i)" if "i \<in> {0, 1, 2, 3}" for i
    using ne [OF that, of 0] ne [OF that, of 1] ne [OF that, of 2] ne [OF that, of 3] by (simp add: put_fs_long_def)
  from this [of 0] this [of 1] this [of 2] this [of 3] show ?thesis by (simp add: get_fs_long_def)
qed

lemma verify_area_mem: "verify_area a n s = Inr t \<Longrightarrow> t = s\<lparr>mem := mem t\<rparr>"
  by (auto simp: verify_area_def bindk_def Let_def split: sum.splits)


lemma upd_cur_fields [simp]:
  "umem (upd_cur f s) = umem s" "mem (upd_cur f s) = mem s" "current (upd_cur f s) = current s"
  by (simp_all add: upd_cur_def upd_task_def)

lemma cur_upd_cur: "task s (current s) = Some t \<Longrightarrow> cur (upd_cur f s) = f (cur s)"
  by (simp add: cur_def upd_cur_def upd_task_def)

lemma put_long_fields [simp]:
  "task (put_fs_long v a s) = task s" "current (put_fs_long v a s) = current s" "mem (put_fs_long v a s) = mem s"
  "cur (put_fs_long v a s) = cur s"
  by (simp_all add: put_fs_long_def cur_def)

lemma get_long_upd_cur [simp]: "get_fs_long a (upd_cur f s) = get_fs_long a s"
  by (simp add: get_fs_long_def)

lemma cur_mem [simp]: "cur (s\<lparr>mem := m\<rparr>) = cur s" by (simp add: cur_def)

lemma verify_area_same:
  assumes "verify_area a n s = Inr t" "mem u = mem s" "t_data_base (cur u) = t_data_base (cur s)"
  shows "verify_area a n u = Inr (u\<lparr>mem := mem t\<rparr>)"
proof -
  have "verify_area a n u = bindk (verify_area a n s) (\<lambda>t. Inr (u\<lparr>mem := mem t\<rparr>))"
    unfolding verify_area_def Let_def assms(2,3) bindk_assoc by simp
  with assms(1) show ?thesis by simp
qed

text \<open>Words stored one behind the other.\<close>

primrec put_longs :: "u32 \<Rightarrow> u32 list \<Rightarrow> kst \<Rightarrow> kst" where
  "put_longs a [] s = s"
| "put_longs a (v # vs) s = put_longs (a + 4) vs (put_fs_long v a s)"

lemma put_longs_fields [simp]:
  "task (put_longs a vs s) = task s" "current (put_longs a vs s) = current s" "mem (put_longs a vs s) = mem s"
  "cur (put_longs a vs s) = cur s"
  by (induction vs arbitrary: a s) simp_all

lemma put_longs_before:
  "3 < a - b \<Longrightarrow> unat (a - b) + 4 * length vs \<le> 2 ^ 32 \<Longrightarrow> get_fs_long b (put_longs a vs s) = get_fs_long b s"
proof (induction vs arbitrary: a s)
  case (Cons v vs)
  have n: "unat (b - a) = 2 ^ 32 - unat (a - b)"
    using Cons.prems(1) unsigned_less [of a] unsigned_less [of b] by (auto simp: unat_sub_if' word_less_nat_alt)
  have 1: "3 < b - a" using Cons.prems n by (simp add: word_less_nat_alt)
  show ?case
  proof (cases vs)
    case Nil
    then show ?thesis by (simp add: get_put_apart [OF 1 Cons.prems(1)])
  next
    case (Cons w ws)
    have "unat (a - b + 4) = unat (a - b) + 4"
      using Cons Cons.prems(2) unat_plus_nat [of "a - b" 4] by simp
    then have "3 < a + 4 - b" "unat (a + 4 - b) + 4 * length vs \<le> 2 ^ 32"
      using Cons.prems by (simp_all add: word_less_nat_alt algebra_simps)
    then show ?thesis by (simp add: Cons.IH get_put_apart [OF 1 Cons.prems(1)])
  qed
qed simp

lemma put_longs_table: "4 * length vs \<le> 2 ^ 32 \<Longrightarrow> table_at (put_longs a vs s) a vs"
proof (induction vs arbitrary: a s)
  case (Cons v vs)
  then show ?case by (simp add: table_at_Cons put_longs_before)
qed (simp add: table_at_def)

text \<open>What \<open>do_signal\<close> pushes on the user's stack, from the top of the stack on.\<close>

definition handler_frame :: "sigaction \<Rightarrow> nat \<Rightarrow> u32 \<Rightarrow> u32 \<Rightarrow> regs \<Rightarrow> u32 list" where
  "handler_frame a signr blocked eax g =
     [sa_restorer a, of_nat signr] @ (if sa_flags a AND SA_NOMASK = 0 then [blocked] else []) @
     [eax, g_ecx g, g_edx g, g_eflags g, g_eip g]"

lemma table_at_long: "table_at (upd_cur f s) a vs = table_at s a vs"
  by (simp add: table_at_def)

lemma cur_signal_fields:
  assumes "task s (current s) = Some t"
  shows "cur (set_sigaction k a s) = (cur s)\<lparr>t_sigaction := (t_sigaction (cur s))(k := a)\<rparr>"
    "task (set_sigaction k a s) (current s) = Some ((cur s)\<lparr>t_sigaction := (t_sigaction (cur s))(k := a)\<rparr>)"
    "umem (set_sigaction k a s) = umem s" "mem (set_sigaction k a s) = mem s" "current (set_sigaction k a s) = current s"
  using assms by (simp_all add: set_sigaction_def cur_upd_cur) (simp add: upd_cur_def upd_task_def cur_def)

lemma do_signal_frame:
  assumes t: "task s (current s) = Some t" and h: "1 < sa_handler (t_sigaction (cur s) k)"
    and F: "F = handler_frame (t_sigaction (cur s) k) (k + 1) (t_blocked (cur s)) eax g"
    and e: "e = g_esp g - 4 * of_nat (length F)" and v: "verify_area e (4 * of_nat (length F)) s = Inr w"
  obtains u where "do_signal (k + 1) eax (g_ecx g) (g_edx g) (g_eip g) (g_eflags g) (g_esp g) s =
      Inr (sa_handler (t_sigaction (cur s) k), e, u)" "table_at u e F"
    "cur u = (cur s)\<lparr>t_blocked := t_blocked (cur s) OR sa_mask (t_sigaction (cur s) k),
        t_sigaction := (if sa_flags (t_sigaction (cur s) k) AND SA_ONESHOT = 0 then t_sigaction (cur s)
          else (t_sigaction (cur s))(k := (t_sigaction (cur s) k)\<lparr>sa_handler := 0\<rparr>))\<rparr>"
    "current u = current s"
proof -
  define a where "a = t_sigaction (cur s) k"
  define s1 where "s1 = (if sa_flags a AND SA_ONESHOT \<noteq> 0 then set_sigaction k (a\<lparr>sa_handler := 0\<rparr>) s else s)"
  define s2 where "s2 = s1\<lparr>mem := mem w\<rparr>"
  have s1: "task s1 (current s1) \<noteq> None" "mem s1 = mem s" "current s1 = current s"
    "t_data_base (cur s1) = t_data_base (cur s)" "t_blocked (cur s1) = t_blocked (cur s)"
    "cur s1 = (cur s)\<lparr>t_sigaction := (if sa_flags a AND SA_ONESHOT = 0 then t_sigaction (cur s)
          else (t_sigaction (cur s))(k := a\<lparr>sa_handler := 0\<rparr>))\<rparr>"
    using t by (simp_all add: s1_def cur_signal_fields)
  have k1: "k + 1 - 1 = k" by simp
  obtain y where y: "task s1 (current s1) = Some y" using s1(1) by auto
  have n0: "sa_handler a \<noteq> 0" "sa_handler a \<noteq> 1" using h by (auto simp: a_def)
  define u where "u = upd_cur (\<lambda>t. t\<lparr>t_blocked := t_blocked t OR sa_mask a\<rparr>) (put_longs e F s2)"
  have va: "verify_area e (4 * of_nat (length F)) s1 = Inr s2"
    using verify_area_same [OF v s1(2,4)] by (simp add: s2_def)
  have d: "do_signal (k + 1) eax (g_ecx g) (g_edx g) (g_eip g) (g_eflags g) (g_esp g) s = Inr (sa_handler a, e, u)"
  proof (cases "sa_flags a AND SA_NOMASK = 0")
    case True
    then have "length F = 8" by (simp add: F handler_frame_def a_def)
    with va e have "verify_area e (4 * 8) s1 = Inr s2" "g_esp g - 4 * 8 = e" by simp_all
    then show ?thesis
      unfolding do_signal_def Let_def k1 a_def [symmetric] s1_def [symmetric]
      using n0 True s1 by (simp add: u_def s2_def F handler_frame_def a_def [symmetric] add.commute [of e])
  next
    case False
    then have "length F = 7" by (simp add: F handler_frame_def a_def)
    with va e have "verify_area e (4 * 7) s1 = Inr s2" "g_esp g - 4 * 7 = e" by simp_all
    then show ?thesis
      unfolding do_signal_def Let_def k1 a_def [symmetric] s1_def [symmetric]
      using n0 False s1 by (simp add: u_def s2_def F handler_frame_def a_def [symmetric] add.commute [of e])
  qed
  have "length F \<le> 8" by (simp add: F handler_frame_def)
  then have "table_at u e F" by (simp add: u_def table_at_long put_longs_table)
  moreover have "cur u = (cur s)\<lparr>t_blocked := t_blocked (cur s) OR sa_mask a,
      t_sigaction := (if sa_flags a AND SA_ONESHOT = 0 then t_sigaction (cur s)
        else (t_sigaction (cur s))(k := a\<lparr>sa_handler := 0\<rparr>))\<rparr>"
    using s1 y by (simp add: u_def s2_def cur_upd_cur)
  moreover have "current u = current s" using s1 by (simp add: u_def s2_def)
  ultimately show thesis using that d by (simp add: a_def)
qed

text \<open>
  C11: On the way back to user mode the pending signal with the lowest number that is not
  blocked is delivered to its handler: the program goes on there with a frame on its stack
  that holds the restorer, the signal number, the old mask if the handler masks signals,
  eax, ecx, edx, the flags and the interrupted eip; just this signal is no longer pending,
  the mask of the handler is added to the blocked signals, and a handler set for one shot is
  reset.
\<close>

theorem signal_delivered:
  assumes t: "task s (current s) = Some t" and user: "current s \<noteq> 0" "g_cs g AND 0xffff = 0x0f" "g_ss g AND 0xffff = 0x17"
    and k: "k < 32" "bit (t_signal (cur s)) k" "\<not> bit (t_blocked (cur s)) k"
    and least: "\<forall>j<k. bit (t_signal (cur s)) j \<longrightarrow> bit (t_blocked (cur s)) j"
    and h: "1 < sa_handler (t_sigaction (cur s) k)"
    and F: "F = handler_frame (t_sigaction (cur s) k) (k + 1) (t_blocked (cur s)) eax g"
    and e: "e = g_esp g - 4 * of_nat (length F)" and v: "verify_area e (4 * of_nat (length F)) s = Inr w"
  shows "\<exists>u. ret_from_sys_call eax g s = Inr (g\<lparr>g_eip := sa_handler (t_sigaction (cur s) k), g_esp := e\<rparr>, u) \<and>
    table_at u e F \<and> current u = current s \<and>
    cur u = (cur s)\<lparr>t_signal := unset_bit k (t_signal (cur s)),
        t_blocked := t_blocked (cur s) OR sa_mask (t_sigaction (cur s) k),
        t_sigaction := (if sa_flags (t_sigaction (cur s) k) AND SA_ONESHOT = 0 then t_sigaction (cur s)
          else (t_sigaction (cur s))(k := (t_sigaction (cur s) k)\<lparr>sa_handler := 0\<rparr>))\<rparr>"
proof -
  define s1 where "s1 = upd_cur (\<lambda>t. t\<lparr>t_signal := unset_bit k (t_signal t)\<rparr>) s"
  have c: "cur s1 = (cur s)\<lparr>t_signal := unset_bit k (t_signal (cur s))\<rparr>" "current s1 = current s" "mem s1 = mem s"
    using t by (simp_all add: s1_def cur_upd_cur)
  have t1: "task s1 (current s1) = Some (cur s1)"
    using t by (simp add: s1_def upd_cur_def upd_task_def cur_def)
  have b: "bsf (NOT (t_blocked (cur s)) AND t_signal (cur s)) = Some k"
    using k least by (auto simp: bsf_Some bit_simps)
  have v1: "verify_area e (4 * of_nat (length F)) s1 = Inr (s1\<lparr>mem := mem w\<rparr>)"
    by (rule verify_area_same [OF v]) (simp_all add: c)
  have F1: "F = handler_frame (t_sigaction (cur s1) k) (k + 1) (t_blocked (cur s1)) eax g" by (simp add: F c)
  have h1: "1 < sa_handler (t_sigaction (cur s1) k)" using h by (simp add: c)
  obtain u where u: "do_signal (k + 1) eax (g_ecx g) (g_edx g) (g_eip g) (g_eflags g) (g_esp g) s1 =
        Inr (sa_handler (t_sigaction (cur s1) k), e, u)" "table_at u e F" "current u = current s1"
      "cur u = (cur s1)\<lparr>t_blocked := t_blocked (cur s1) OR sa_mask (t_sigaction (cur s1) k),
        t_sigaction := (if sa_flags (t_sigaction (cur s1) k) AND SA_ONESHOT = 0 then t_sigaction (cur s1)
          else (t_sigaction (cur s1))(k := (t_sigaction (cur s1) k)\<lparr>sa_handler := 0\<rparr>))\<rparr>"
    by (rule do_signal_frame [OF t1 h1 F1 e v1])
  have "ret_from_sys_call eax g s = Inr (g\<lparr>g_eip := sa_handler (t_sigaction (cur s) k), g_esp := e\<rparr>, u)"
    using user b u(1) by (simp add: ret_from_sys_call_def s1_def [symmetric] c)
  then show ?thesis using u(2-4) by (intro exI conjI) (assumption, assumption, simp_all add: c)
qed

text \<open>Task 1 with a handler for the interrupt signal, and its registers in user mode.\<close>

definition ex_regs :: regs where
  "ex_regs = \<lparr>g_ebp = 0, g_edi = 0, g_esi = 0, g_gs = 0x17, g_ebx = 0, g_ecx = 0, g_edx = 0, g_fs = 0x17, g_es = 0x17,
     g_ds = 0x17, g_eip = 0x100, g_cs = 0x0f, g_eflags = 0x200, g_esp = 0x8000, g_ss = 0x17\<rparr>"

definition ex_handler :: kst where
  "ex_handler = upd_cur (\<lambda>t. t\<lparr>t_signal := 2,
     t_sigaction := (\<lambda>_. \<lparr>sa_handler = 0x2000, sa_mask = 4, sa_flags = SA_ONESHOT, sa_restorer = 0x3000\<rparr>)\<rparr>) ex_kst"

definition ex_machine :: machine where
  "ex_machine = \<lparr>m_dev = \<lparr>dev_byte = (\<lambda>_ _. 0), dev_data = (\<lambda>_ _. 0)\<rparr>, m_bios = (\<lambda>_. 0), m_image = (\<lambda>_. 0),
     m_stack = (\<lambda>_. 0), m_depth = 2\<rparr>"

definition ex_prog :: prog where
  "ex_prog = \<lparr>p_regs = ex_regs, errno = 0, p_sys =
     \<lparr>bk = ex_kst, request = (\<lambda>i. \<lparr>r_dev = - 1, r_cmd = READ, r_errors = 0, r_sector = 0, r_nr_sectors = 0, r_buffer = 0,
        r_bh = None, r_next = None\<rparr>), current_request = (\<lambda>_. None), rd_start = 0, rd_length = 0, rd_mem = (\<lambda>_. 0),
        hdd = ex_hd, fdd = ex_fd, ios = []\<rparr>\<rparr>"

lemma ex_handler_cur: "cur ex_handler = (ex_task 1)\<lparr>t_signal := 2,
     t_sigaction := (\<lambda>_. \<lparr>sa_handler = 0x2000, sa_mask = 4, sa_flags = SA_ONESHOT, sa_restorer = 0x3000\<rparr>)\<rparr>"
    "task ex_handler (current ex_handler) = Some (cur ex_handler)" "current ex_handler = 1"
  by (simp_all add: ex_handler_def upd_cur_def upd_task_def cur_def ex_kst_def)

theorem signal_delivered_witness:
  "\<exists>u. ret_from_sys_call 5 ex_regs ex_handler = Inr (ex_regs\<lparr>g_eip := 0x2000, g_esp := 0x7fe0\<rparr>, u) \<and>
     table_at u 0x7fe0 [0x3000, 2, 0, 5, 0, 0, 0x200, 0x100] \<and> t_blocked (cur u) = 4 \<and> t_signal (cur u) = 0"
proof -
  have v: "verify_area 0x7fe0 32 ex_handler = Inr ex_handler"
    by (simp add: verify_area_def ex_handler_cur ex_task_def write_verify_def ex_handler_def upd_cur_def upd_task_def ex_kst_def)
  have F: "handler_frame (t_sigaction (cur ex_handler) 1) (1 + 1) (t_blocked (cur ex_handler)) 5 ex_regs =
      [0x3000, 2, 0, 5, 0, 0, 0x200, 0x100]"
    by (simp add: handler_frame_def ex_handler_cur ex_regs_def ex_task_def SA_ONESHOT_def SA_NOMASK_def)
  have u: "unset_bit 1 (2 :: u32) = 0" by (simp add: unset_bit_eq_and_not)
  show ?thesis
    using signal_delivered [OF ex_handler_cur(2), where g = ex_regs and k = 1 and eax = 5 and e = "0x7fe0" and w = ex_handler
        and F = "[0x3000, 2, 0, 5, 0, 0, 0x200, 0x100]"] v F u
    by (auto simp: ex_handler_cur ex_regs_def ex_task_def)
qed

text \<open>
  C10: A system call through the stub of a user program is transparent: the function the
  table holds under the number of the call runs with the three arguments, its registers come
  back as they were, a value that is not negative is the value of the stub, and a negative
  one makes it -1 with errno the error number; this holds for every call but execve when the
  task stays runnable and no signal is to be delivered.
\<close>

theorem stub_returns:
  assumes run: "run_call m c ((p_regs p)\<lparr>g_ebx := a, g_ecx := b, g_edx := d\<rparr>) (p_sys p) = Inr (Back v h t)"
    and c: "c \<noteq> NR_execve" and go: "t_state (cur (bk t)) = RUNNING" "t_counter (cur (bk t)) \<noteq> 0"
    and calm: "t_signal (cur (bk t)) AND NOT (t_blocked (cur (bk t))) = 0"
  shows "syscall3 m c a b d p =
    Inr (if 0 \<le>s v then Value v (p\<lparr>p_regs := (p_regs p)\<lparr>g_ebx := a, g_ecx := b, g_edx := d\<rparr>, p_sys := t\<rparr>)
         else Value (- 1) (p\<lparr>p_regs := (p_regs p)\<lparr>g_ebx := a, g_ecx := b, g_edx := d\<rparr>, p_sys := t, errno := - v\<rparr>))"
proof -
  define g where "g = (p_regs p)\<lparr>g_ebx := a, g_ecx := b, g_edx := d\<rparr>"
  have nr: "sys_call_table ! nr c = c" "nr c < 72" using table_matches [of c] by (simp_all add: nr_system_calls_def)
  then have u: "unat (of_nat (nr c) :: u32) = nr c" by (simp add: unat_of_nat)
  then have le: "\<not> 71 < (of_nat (nr c) :: u32)" using nr(2) by (simp add: word_less_nat_alt)
  have h: "h = g" using run_call_regs [OF run c] by (simp add: g_def)
  have r: "ret_from_sys_call v g (bk t) = Inr (g, bk t)"
    using calm by (simp add: ret_from_sys_call_def bsf_None [THEN iffD2] and.commute)
  have "system_call m (of_nat (nr c)) g (p_sys p) = Inr (Back v g t)"
    using le go r run unfolding system_call_def u nr(1) g_def [symmetric] by (simp add: h nr_system_calls_def)
  then show ?thesis by (simp add: syscall3_def int80_def set_errno_def g_def [symmetric])
qed

theorem stub_returns_witness:
  "syscall3 ex_machine NR_dup 99 0 0 ex_prog = Inr (Value (- 1) (ex_prog\<lparr>p_regs := ex_regs\<lparr>g_ebx := 99\<rparr>, errno := of_nat EBADF\<rparr>))"
proof -
  define g where "g = (p_regs ex_prog)\<lparr>g_ebx := 99, g_ecx := 0, g_edx := 0\<rparr>"
  have run: "run_call ex_machine NR_dup g (p_sys ex_prog) = Inr (Back (neg_errno EBADF) g (p_sys ex_prog))"
    by (simp add: call3_def g_def sys_dup_def dupfd_def fget_def NR_OPEN_def)
  have calm: "cur (bk (p_sys ex_prog)) = ex_task 1" by (simp add: ex_prog_def ex_kst_def cur_def)
  show ?thesis
    using stub_returns [OF run [unfolded g_def], folded g_def] calm
    by (simp add: ex_task_def g_def neg_errno_def EBADF_def word_sle_eq) (simp add: ex_prog_def ex_regs_def)
qed

theorem system_call_dispatch:
  "sys_call_table ! nr c = c \<and> nr c < nr_system_calls \<and> length sys_call_table = nr_system_calls \<and>
   (\<forall>eax. of_nat (nr_system_calls - 1) < eax \<longrightarrow> system_call m eax g s = Inr (Back (- 1) g s))"
  using table_matches [of c] by (simp add: system_call_def) (simp add: sys_call_table_def nr_system_calls_def)

theorem system_call_dispatch_witness:
  "system_call ex_machine 72 ex_regs (p_sys ex_prog) = Inr (Back (- 1) ex_regs (p_sys ex_prog))"
  using system_call_dispatch [of NR_dup ex_machine ex_regs "p_sys ex_prog"] by (simp add: nr_system_calls_def)

lemma floppy_timer_current [simp]: "current (snd (floppy_timer_loop n i ts)) = current (snd ts)"
proof (induction n arbitrary: i ts)
  case (Suc n)
  show ?case
    by (simp only: floppy_timer_loop.simps Suc.IH)
       (simp add: Let_def split_beta make_running_def upd_task_def split: option.splits)
qed simp

lemma tick_kernel_current: "tick_counter False s = Inr u \<Longrightarrow> current u = current s"
  by (auto simp: tick_counter_def Let_def split: if_splits)

lemma beep_tick_current [simp]: "current (beep_tick s) = current s"
  by (simp add: beep_tick_def sysbeepstop_def outb_def upd_cons_def Let_def)

lemma do_timer_kernel_current: "do_timer n call False (t, s) = Inr (t', u) \<Longrightarrow> current u = current s"
  by (auto simp: do_timer_def Let_def split_beta do_floppy_timer_def account_def dest!: tick_kernel_current split: if_splits)

text \<open>
  C21: A clock interrupt in kernel mode never switches tasks and delivers no signal:
  whatever timers run, the interrupted task goes on with its registers unchanged.
\<close>

theorem kernel_not_preempted:
  assumes "timer_interrupt n call eax g (t, s) = Inr (t', r, u)" "g_cs g AND 3 = 0"
  shows "r = Some g \<and> current u = current s"
proof -
  have "g_cs g AND 0xffff \<noteq> 0x0f"
  proof
    assume "g_cs g AND 0xffff = 0x0f"
    then have "(g_cs g AND 0xffff) AND 3 = 3" by simp
    with assms(2) show False by (simp add: and.assoc)
  qed
  then have ret: "ret_from_sys_call eax g k = Inr (g, k)" for k by (simp add: ret_from_sys_call_def)
  define s1 where "s1 = outb 0x20 0x20 (s\<lparr>jiffies := jiffies s + 1\<rparr>)"
  have c: "current s1 = current s" by (simp add: s1_def outb_def)
  obtain k where k: "do_timer n call False (t, s1) = Inr (t', k)"
      "(if current k \<noteq> current s then Inr (t', None, k) else Inr (t', Some g, k)) = (Inr (t', r, u) :: (timers \<times> regs option \<times> kst) kres)"
    using assms by (auto simp: timer_interrupt_def ret s1_def [symmetric] bindk_def split: sum.splits if_splits)
  have "current k = current s" using do_timer_kernel_current [OF k(1)] c by simp
  with k(2) show ?thesis by simp
qed

lemma tick_kernel_total: "\<exists>u. tick_counter False s = Inr u"
  by (simp add: tick_counter_def Let_def)

theorem kernel_not_preempted_witness:
  "\<exists>t' u. timer_interrupt 10 (\<lambda>_. id) 0 (ex_regs\<lparr>g_cs := 8\<rparr>) (ex_timers, ex_kst) = Inr (t', Some (ex_regs\<lparr>g_cs := 8\<rparr>), u) \<and> current u = 1"
proof -
  obtain r where r: "timer_interrupt 10 (\<lambda>_. id) 0 (ex_regs\<lparr>g_cs := 8\<rparr>) (ex_timers, ex_kst) = Inr r"
  proof -
    have e: "run_timers 10 (\<lambda>_. id) ex_timers = Inr ex_timers" "current_DOR ex_timers AND 0xf0 = 0"
      by (simp_all add: run_timers_def ex_timers_def)
    obtain k where "do_timer 10 (\<lambda>_. id) False (ex_timers, outb 0x20 0x20 (ex_kst\<lparr>jiffies := jiffies ex_kst + 1\<rparr>)) = Inr (ex_timers, k)"
      using tick_kernel_total [of "account False (beep_tick (outb 0x20 0x20 (ex_kst\<lparr>jiffies := jiffies ex_kst + 1\<rparr>)))"]
      by (auto simp: do_timer_def e Let_def)
    moreover have "ret_from_sys_call 0 (ex_regs\<lparr>g_cs := 8\<rparr>) k = Inr (ex_regs\<lparr>g_cs := 8\<rparr>, k)"
      by (simp add: ret_from_sys_call_def)
    ultimately show thesis using that
      by (cases "current k = current ex_kst") (auto simp: timer_interrupt_def ex_regs_def Let_def)
  qed
  show ?thesis
    using kernel_not_preempted [of 10 "\<lambda>_. id" 0 "ex_regs\<lparr>g_cs := 8\<rparr>" ex_timers ex_kst "fst r" "fst (snd r)" "snd (snd r)"] r
    by (cases r) (auto simp: ex_kst_def)
qed

lemma kill_blocked:
  assumes "bit (t_blocked (cur s)) (SIGKILL - 1)" "t_signal (cur s) = sig_bit SIGKILL"
  shows "ret_from_sys_call eax g s = Inr (g, s)"
proof -
  have "NOT (t_blocked (cur s)) AND t_signal (cur s) = 0"
    using assms by (intro bit_word_eqI) (auto simp: bit_simps sig_bit_def)
  then show ?thesis by (simp add: ret_from_sys_call_def bsf_None [THEN iffD2])
qed


end
