(* ===== verification/Strings.thy ===== *)
theory Strings imports Prelude begin

text \<open>
  lib/string.c: the string functions, written in assembly. Memory is a function from addresses to bytes;
  a C string is what stands at an address up to the first zero.

  The instructions with a repeat prefix are definitions of their own, with the register ecx as the number of
  rounds and the zero flag, which a prefix with ecx = 0 leaves as it was. A loop that finds no end in the
  whole address space is the stop value \<open>Hang\<close>.
\<close>

type_synonym bytes = "u32 \<Rightarrow> u8"

section \<open>Repeated string instructions\<close>

text \<open>The flag, edi and ecx after \<open>repne scasb\<close>.\<close>

primrec repne_scasb :: "nat \<Rightarrow> u8 \<Rightarrow> u32 \<Rightarrow> bool \<Rightarrow> bytes \<Rightarrow> bool \<times> u32 \<times> nat" where
  "repne_scasb 0 al edi zf m = (zf, edi, 0)"
| "repne_scasb (Suc ecx) al edi zf m =
     (if m edi = al then (True, edi + 1, ecx) else repne_scasb ecx al (edi + 1) False m)"

text \<open>The flags (equal, and \<open>esi\<close> byte less than \<open>edi\<close> byte) and the registers after \<open>repe cmpsb\<close>.\<close>

primrec repe_cmpsb :: "nat \<Rightarrow> u32 \<Rightarrow> u32 \<Rightarrow> bool \<Rightarrow> bool \<Rightarrow> bytes \<Rightarrow> bool \<times> bool \<times> u32" where
  "repe_cmpsb 0 esi edi zf lt m = (zf, lt, esi)"
| "repe_cmpsb (Suc ecx) esi edi zf lt m =
     (if m esi = m edi then repe_cmpsb ecx (esi + 1) (edi + 1) True False m
      else (False, m esi <s m edi, esi + 1))"

primrec rep_movsb :: "nat \<Rightarrow> u32 \<Rightarrow> u32 \<Rightarrow> bytes \<Rightarrow> bytes" where
  "rep_movsb 0 esi edi m = m"
| "rep_movsb (Suc ecx) esi edi m = rep_movsb ecx (esi + 1) (edi + 1) (m(edi := m esi))"

primrec std_movsb :: "nat \<Rightarrow> u32 \<Rightarrow> u32 \<Rightarrow> bytes \<Rightarrow> bytes" where
  "std_movsb 0 esi edi m = m"
| "std_movsb (Suc ecx) esi edi m = std_movsb ecx (esi - 1) (edi - 1) (m(edi := m esi))"

primrec rep_stosb :: "nat \<Rightarrow> u8 \<Rightarrow> u32 \<Rightarrow> bytes \<Rightarrow> bytes" where
  "rep_stosb 0 al edi m = m"
| "rep_stosb (Suc ecx) al edi m = rep_stosb ecx al (edi + 1) (m(edi := al))"

text \<open>The rounds of a loop that starts with \<open>decl\<close> and \<open>js\<close>: none for a negative count but the least.\<close>

definition dec_rounds :: "u32 \<Rightarrow> nat" where
  "dec_rounds count = (if unat count \<le> 2 ^ 31 then unat count else 0)"

section \<open>Length and copying\<close>

definition strlen :: "u32 \<Rightarrow> bytes \<Rightarrow> u32" where
  "strlen s m = (let (_, _, ecx) = repne_scasb (2 ^ 32 - 1) 0 s False m in NOT (of_nat ecx) - 1)"

primrec copy_str :: "nat \<Rightarrow> u32 \<Rightarrow> u32 \<Rightarrow> bytes \<Rightarrow> bytes kres" where
  "copy_str 0 src dest m = Inl Hang"
| "copy_str (Suc n) src dest m =
     (let al = m src; m = m(dest := al) in if al = 0 then Inr m else copy_str n (src + 1) (dest + 1) m)"

definition strcpy :: "u32 \<Rightarrow> u32 \<Rightarrow> bytes \<Rightarrow> bytes kres" where
  "strcpy dest src = copy_str (2 ^ 32) src dest"

primrec strncpy_loop :: "nat \<Rightarrow> u32 \<Rightarrow> u32 \<Rightarrow> bytes \<Rightarrow> bytes" where
  "strncpy_loop 0 src dest m = m"
| "strncpy_loop (Suc n) src dest m =
     (let al = m src; m = m(dest := al)
      in if al \<noteq> 0 then strncpy_loop n (src + 1) (dest + 1) m else rep_stosb n 0 (dest + 1) m)"

definition strncpy :: "u32 \<Rightarrow> u32 \<Rightarrow> u32 \<Rightarrow> bytes \<Rightarrow> bytes" where
  "strncpy dest src count = strncpy_loop (dec_rounds count) src dest"

definition string_end :: "u32 \<Rightarrow> bytes \<Rightarrow> u32" where
  "string_end s m = (let (_, edi, _) = repne_scasb (2 ^ 32 - 1) 0 s False m in edi - 1)"

definition strcat :: "u32 \<Rightarrow> u32 \<Rightarrow> bytes \<Rightarrow> bytes kres" where
  "strcat dest src m = copy_str (2 ^ 32) src (string_end dest m) m"

text \<open>The loop ends with a zero byte in every case, also behind the zero it has copied.\<close>

primrec strncat_loop :: "nat \<Rightarrow> u32 \<Rightarrow> u32 \<Rightarrow> bytes \<Rightarrow> bytes" where
  "strncat_loop 0 src dest m = m(dest := 0)"
| "strncat_loop (Suc n) src dest m =
     (let al = m src; m = m(dest := al)
      in if al \<noteq> 0 then strncat_loop n (src + 1) (dest + 1) m else m(dest + 1 := 0))"

definition strncat :: "u32 \<Rightarrow> u32 \<Rightarrow> u32 \<Rightarrow> bytes \<Rightarrow> bytes" where
  "strncat dest src count m = strncat_loop (dec_rounds count) src (string_end dest m) m"

section \<open>Comparing\<close>

text \<open>The comparison of two different bytes: \<open>al\<close>, the byte of \<open>ct\<close>, with the one of \<open>cs\<close>.\<close>

definition order_of :: "u8 \<Rightarrow> u8 \<Rightarrow> u32" where
  "order_of al c = (if al <s c then 1 else - 1)"

primrec strcmp_loop :: "nat \<Rightarrow> u32 \<Rightarrow> u32 \<Rightarrow> bytes \<Rightarrow> u32 kres" where
  "strcmp_loop 0 cs ct m = Inl Hang"
| "strcmp_loop (Suc n) cs ct m =
     (let al = m ct in
      if al \<noteq> m cs then Inr (order_of al (m cs)) else if al = 0 then Inr 0 else strcmp_loop n (cs + 1) (ct + 1) m)"

definition strcmp :: "u32 \<Rightarrow> u32 \<Rightarrow> bytes \<Rightarrow> u32 kres" where
  "strcmp = strcmp_loop (2 ^ 32)"

primrec strncmp_loop :: "nat \<Rightarrow> u32 \<Rightarrow> u32 \<Rightarrow> bytes \<Rightarrow> u32" where
  "strncmp_loop 0 cs ct m = 0"
| "strncmp_loop (Suc n) cs ct m =
     (let al = m ct in
      if al \<noteq> m cs then order_of al (m cs) else if al = 0 then 0 else strncmp_loop n (cs + 1) (ct + 1) m)"

definition strncmp :: "u32 \<Rightarrow> u32 \<Rightarrow> u32 \<Rightarrow> bytes \<Rightarrow> u32" where
  "strncmp cs ct count = strncmp_loop (dec_rounds count) cs ct"

section \<open>Searching\<close>

primrec strchr_loop :: "nat \<Rightarrow> u8 \<Rightarrow> u32 \<Rightarrow> bytes \<Rightarrow> u32 kres" where
  "strchr_loop 0 c s m = Inl Hang"
| "strchr_loop (Suc n) c s m =
     (let al = m s in if al = c then Inr s else if al = 0 then Inr 0 else strchr_loop n c (s + 1) m)"

definition strchr :: "u32 \<Rightarrow> u8 \<Rightarrow> bytes \<Rightarrow> u32 kres" where
  "strchr s c = strchr_loop (2 ^ 32) c s"

primrec strrchr_loop :: "nat \<Rightarrow> u8 \<Rightarrow> u32 \<Rightarrow> u32 \<Rightarrow> bytes \<Rightarrow> u32 kres" where
  "strrchr_loop 0 c r s m = Inl Hang"
| "strrchr_loop (Suc n) c r s m =
     (let al = m s; r = (if al = c then s else r) in if al = 0 then Inr r else strrchr_loop n c r (s + 1) m)"

definition strrchr :: "u32 \<Rightarrow> u8 \<Rightarrow> bytes \<Rightarrow> u32 kres" where
  "strrchr s c = strrchr_loop (2 ^ 32) c 0 s"

text \<open>Whether a byte, not zero, is among the first \<open>edx\<close> bytes of \<open>ct\<close>.\<close>

definition among :: "u8 \<Rightarrow> u32 \<Rightarrow> nat \<Rightarrow> bytes \<Rightarrow> bool" where
  "among al ct edx m = fst (repne_scasb edx al ct False m)"

text \<open>The first byte of \<open>cs\<close>, up to the final zero, that is (\<open>want\<close>) or is not among those of \<open>ct\<close>, with the byte.\<close>

primrec span_loop :: "nat \<Rightarrow> bool \<Rightarrow> u32 \<Rightarrow> nat \<Rightarrow> u32 \<Rightarrow> bytes \<Rightarrow> u32 kres" where
  "span_loop 0 want ct edx cs m = Inl Hang"
| "span_loop (Suc n) want ct edx cs m =
     (let al = m cs in
      if al = 0 then Inr cs else if among al ct edx m = want then Inr cs else span_loop n want ct edx (cs + 1) m)"

definition strspn :: "u32 \<Rightarrow> u32 \<Rightarrow> bytes \<Rightarrow> u32 kres" where
  "strspn cs ct m = bindk (span_loop (2 ^ 32) False ct (unat (strlen ct m)) cs m) (\<lambda>r. Inr (r - cs))"

definition strcspn :: "u32 \<Rightarrow> u32 \<Rightarrow> bytes \<Rightarrow> u32 kres" where
  "strcspn cs ct m = bindk (span_loop (2 ^ 32) True ct (unat (strlen ct m)) cs m) (\<lambda>r. Inr (r - cs))"

definition strpbrk :: "u32 \<Rightarrow> u32 \<Rightarrow> bytes \<Rightarrow> u32 kres" where
  "strpbrk cs ct m =
     bindk (span_loop (2 ^ 32) True ct (unat (strlen ct m)) cs m) (\<lambda>r. Inr (if m r = 0 then 0 else r))"

text \<open>For an empty \<open>ct\<close> the flag is set by the \<open>decl\<close> that computes its length.\<close>

primrec strstr_loop :: "nat \<Rightarrow> u32 \<Rightarrow> u32 \<Rightarrow> nat \<Rightarrow> bytes \<Rightarrow> u32 kres" where
  "strstr_loop 0 cs ct edx m = Inl Hang"
| "strstr_loop (Suc n) cs ct edx m =
     (let (eq, _, esi) = repe_cmpsb edx cs ct (edx = 0) False m in
      if eq then Inr cs else if m (esi - 1) = 0 then Inr 0 else strstr_loop n (cs + 1) ct edx m)"

definition strstr :: "u32 \<Rightarrow> u32 \<Rightarrow> bytes \<Rightarrow> u32 kres" where
  "strstr cs ct m = strstr_loop (2 ^ 32) cs ct (unat (strlen ct m)) m"

section \<open>Words of a string\<close>

text \<open>The end of a word: the variable \<open>___strtok\<close> and the memory.\<close>

primrec token_end :: "nat \<Rightarrow> u32 \<Rightarrow> nat \<Rightarrow> u32 \<Rightarrow> bytes \<Rightarrow> (u32 \<times> bytes) kres" where
  "token_end 0 ct edx s m = Inl Hang"
| "token_end (Suc n) ct edx s m =
     (let al = m s in
      if al = 0 then Inr (0, m)
      else if among al ct edx m then Inr (s + 1, m(s := 0)) else token_end n ct edx (s + 1) m)"

definition strtok :: "u32 \<Rightarrow> u32 \<Rightarrow> u32 \<Rightarrow> bytes \<Rightarrow> (u32 \<times> u32 \<times> bytes) kres" where
  "strtok s ct tok m =
     (if s = 0 \<and> tok = 0 then Inr (0, 0, m)
      else
        let s = if s \<noteq> 0 then s else tok; edx = unat (strlen ct m)
        in if edx = 0 then Inr (0, 0, m)
           else bindk (span_loop (2 ^ 32) False ct edx s m) (\<lambda>r.
             if m r = 0 then Inr (0, 0, m)
             else bindk (token_end (2 ^ 32) ct edx r m) (\<lambda>(tok, m).
               if m r = 0 then Inr (0, 0, m) else Inr (r, tok, m))))"

section \<open>Blocks of memory\<close>

definition memcpy :: "u32 \<Rightarrow> u32 \<Rightarrow> u32 \<Rightarrow> bytes \<Rightarrow> bytes" where
  "memcpy dest src n = rep_movsb (unat n) src dest"

text \<open>The flag of the direction is left set by the second branch.\<close>

definition memmove :: "u32 \<Rightarrow> u32 \<Rightarrow> u32 \<Rightarrow> bytes \<Rightarrow> bytes" where
  "memmove dest src n m =
     (if dest < src then rep_movsb (unat n) src dest m else std_movsb (unat n) (src + n - 1) (dest + n - 1) m)"

text \<open>With a count of 0 the flags are those the code before has left, \<open>zf\<close> and \<open>lt\<close>.\<close>

definition memcmp :: "bool \<Rightarrow> bool \<Rightarrow> u32 \<Rightarrow> u32 \<Rightarrow> u32 \<Rightarrow> bytes \<Rightarrow> u32" where
  "memcmp zf lt cs ct count m =
     (let (eq, less, _) = repe_cmpsb (unat count) ct cs zf lt m in if eq then 0 else if less then 1 else - 1)"

definition memchr :: "u32 \<Rightarrow> u8 \<Rightarrow> u32 \<Rightarrow> bytes \<Rightarrow> u32" where
  "memchr cs c count m =
     (if count = 0 then 0
      else let (eq, edi, _) = repne_scasb (unat count) c cs False m in (if eq then edi else 1) - 1)"

definition memset :: "u32 \<Rightarrow> u8 \<Rightarrow> u32 \<Rightarrow> bytes \<Rightarrow> bytes" where
  "memset s c count = rep_stosb (unat count) c s"

end
