(* ===== verification/Strings_Lemmas.thy ===== *)
theory Strings_Lemmas imports Strings C_Bytes "HOL-Library.Sublist" begin

text \<open>
  The string functions on C strings are the functions on lists of bytes their names promise.
\<close>

definition c_string :: "bytes \<Rightarrow> u32 \<Rightarrow> u8 list \<Rightarrow> bool" where
  "c_string m a xs \<longleftrightarrow> bytes_at m a (xs @ [0]) \<and> 0 \<notin> set xs \<and> length xs < 2 ^ 32 - 1"

section \<open>Repeated instructions\<close>

lemma scasb_end:
  "bytes_at m a (xs @ [c]) \<Longrightarrow> c \<notin> set xs \<Longrightarrow> length xs < n \<Longrightarrow>
    repne_scasb n c a zf m = (True, a + of_nat (length xs) + 1, n - length xs - 1)"
proof (induction n arbitrary: a xs zf)
  case (Suc n)
  show ?case
  proof (cases xs)
    case (Cons x ys)
    then show ?thesis using Suc.prems Suc.IH [of "a + 1" ys] by (auto simp: algebra_simps)
  qed (use Suc.prems in auto)
qed simp

lemma scasb_among: "bytes_at m a ys \<Longrightarrow> fst (repne_scasb (length ys) c a zf m) = (if ys = [] then zf else c \<in> set ys)"
proof (induction ys arbitrary: a zf)
  case (Cons y ys)
  then show ?case using Cons.IH [of "a + 1" False] by auto
qed simp

lemma strlen_string: "c_string m a xs \<Longrightarrow> strlen a m = of_nat (length xs)"
proof -
  assume s: "c_string m a xs"
  then have n: "length xs < 4294967295" by (simp add: c_string_def)
  then have "of_nat (4294967295 - length xs - 1) = (- 2 - of_nat (length xs) :: u32)"
    by (simp add: of_nat_diff)
  then show ?thesis
    using s scasb_end [of m a xs 0 4294967295 False] n by (simp add: c_string_def strlen_def not_eq_complement)
qed

lemma unat_strlen: "c_string m a xs \<Longrightarrow> unat (strlen a m) = length xs"
  by (simp add: strlen_string c_string_def unat_of_nat)

lemma among_string: "bytes_at m ct ys \<Longrightarrow> among c ct (length ys) m \<longleftrightarrow> c \<in> set ys"
  by (auto simp: among_def scasb_among)

section \<open>Loops\<close>

lemma span_loop_string:
  "bytes_at m a (xs @ [0]) \<Longrightarrow> 0 \<notin> set xs \<Longrightarrow> bytes_at m ct ys \<Longrightarrow> length xs < n \<Longrightarrow>
    span_loop n want ct (length ys) a m = Inr (a + of_nat (length (takeWhile (\<lambda>x. (x \<in> set ys) \<noteq> want) xs)))"
proof (induction n arbitrary: a xs)
  case (Suc n)
  show ?case
  proof (cases xs)
    case (Cons x zs)
    then show ?thesis
      using Suc.prems Suc.IH [of "a + 1" zs] by (auto simp: among_string algebra_simps)
  qed (use Suc.prems in auto)
qed simp

lemma strchr_loop_string:
  "bytes_at m a (xs @ [0]) \<Longrightarrow> 0 \<notin> set xs \<Longrightarrow> length xs < n \<Longrightarrow>
    strchr_loop n c a m = Inr (if c \<in> set (xs @ [0]) then a + of_nat (length (takeWhile (\<lambda>x. x \<noteq> c) xs)) else 0)"
proof (induction n arbitrary: a xs)
  case (Suc n)
  show ?case
  proof (cases xs)
    case (Cons x zs)
    then show ?thesis using Suc.prems Suc.IH [of "a + 1" zs] by (auto simp: algebra_simps)
  qed (use Suc.prems in auto)
qed simp

text \<open>The index of the first occurrence of a list in another.\<close>

primrec occurrence :: "'a list \<Rightarrow> 'a list \<Rightarrow> nat option" where
  "occurrence ys [] = (if ys = [] then Some 0 else None)"
| "occurrence ys (x # xs) = (if prefix ys (x # xs) then Some 0 else map_option Suc (occurrence ys xs))"

lemma occurrence_first:
  "occurrence ys xs = Some k \<longleftrightarrow> k \<le> length xs \<and> prefix ys (drop k xs) \<and> (\<forall>j < k. \<not> prefix ys (drop j xs))"
proof (induction xs arbitrary: k)
  case (Cons x xs)
  show ?case
  proof (cases k)
    case (Suc j)
    then show ?thesis using Cons.IH [of j] by (auto simp: All_less_Suc2)
  qed auto
qed auto

lemma cmpsb_string:
  assumes "bytes_at m a (xs @ [0])" "0 \<notin> set xs" "bytes_at m ct ys" "0 \<notin> set ys" "ys = [] \<longrightarrow> zf"
  shows "\<exists>less esi. repe_cmpsb (length ys) a ct zf lt m = (prefix ys xs, less, esi) \<and>
    (\<not> prefix ys xs \<longrightarrow> (m (esi - 1) = 0) = prefix xs ys)"
  using assms
proof (induction ys arbitrary: a xs ct zf lt)
  case (Cons y ys)
  show ?case
  proof (cases xs)
    case xs: (Cons x zs)
    show ?thesis
    proof (cases "x = y")
      case True
      then show ?thesis using Cons.prems Cons.IH [of "a + 1" zs "ct + 1" True False] xs by auto
    qed (use Cons.prems xs in auto)
  qed (use Cons.prems in auto)
qed auto

lemma strstr_loop_string:
  "bytes_at m a (xs @ [0]) \<Longrightarrow> 0 \<notin> set xs \<Longrightarrow> bytes_at m ct ys \<Longrightarrow> 0 \<notin> set ys \<Longrightarrow> length xs < n \<Longrightarrow>
    strstr_loop n a ct (length ys) m = Inr (case occurrence ys xs of None \<Rightarrow> 0 | Some k \<Rightarrow> a + of_nat k)"
proof (induction n arbitrary: a xs)
  case (Suc n)
  obtain less esi where c: "repe_cmpsb (length ys) a ct (length ys = 0) False m = (prefix ys xs, less, esi)"
    and z: "\<not> prefix ys xs \<longrightarrow> (m (esi - 1) = 0) = prefix xs ys"
    using cmpsb_string [OF Suc.prems(1-4), of "length ys = 0" False] by auto
  have shorter: "occurrence ys xs = None" if "prefix xs ys" "\<not> prefix ys xs"
  proof -
    have "length xs < length ys" using that by (auto simp: prefix_def)
    then have "\<not> prefix ys (drop k xs)" for k by (auto dest: prefix_length_le)
    then show ?thesis using occurrence_first [of ys xs] by (cases "occurrence ys xs") auto
  qed
  show ?case
  proof (cases xs)
    case Nil
    then show ?thesis using c z by (cases "ys = []") (auto simp del: repe_cmpsb.simps)
  next
    case (Cons x zs)
    show ?thesis
    proof (cases "prefix ys xs")
      case True
      then show ?thesis using c Cons by (simp del: repe_cmpsb.simps)
    next
      case False
      then show ?thesis
        using c z shorter Cons Suc.prems Suc.IH [of "a + 1" zs]
        by (auto simp: algebra_simps split: option.splits simp del: repe_cmpsb.simps)
    qed
  qed
qed simp

section \<open>The functions\<close>

lemma takeWhile_shorter: "x \<in> set l \<Longrightarrow> \<not> P x \<Longrightarrow> length (takeWhile P l) < length l"
  by (induction l) auto

lemma last_index_Cons:
  "c \<in> set zs \<Longrightarrow> length (takeWhile (\<lambda>x. x \<noteq> c) (rev (x # zs))) = length (takeWhile (\<lambda>x. x \<noteq> c) (rev zs))"
  "c \<notin> set zs \<Longrightarrow> length (takeWhile (\<lambda>x. x \<noteq> c) (rev (c # zs))) = length zs"
  by (auto simp: takeWhile_append)

lemma strrchr_loop_string:
  "bytes_at m a (xs @ [0]) \<Longrightarrow> 0 \<notin> set xs \<Longrightarrow> length xs < n \<Longrightarrow>
    strrchr_loop n c r a m = Inr (if c \<in> set (xs @ [0])
      then a + of_nat (length xs - length (takeWhile (\<lambda>x. x \<noteq> c) (rev (xs @ [0])))) else r)"
proof (induction n arbitrary: a xs r)
  case (Suc n)
  show ?case
  proof (cases xs)
    case (Cons x zs)
    have step: "strrchr_loop (Suc n) c r a m = strrchr_loop n c (if x = c then a else r) (a + 1) m"
      using Cons Suc.prems by (simp add: Let_def)
    have IH: "strrchr_loop n c (if x = c then a else r) (a + 1) m = Inr (if c \<in> set (zs @ [0])
      then a + 1 + of_nat (length zs - length (takeWhile (\<lambda>x. x \<noteq> c) (rev (zs @ [0])))) else if x = c then a else r)"
      using Suc.prems Suc.IH [of "a + 1" zs "if x = c then a else r"] Cons by simp
    show ?thesis
    proof (cases "c \<in> set (zs @ [0])")
      case True
      have "length (takeWhile (\<lambda>x. x \<noteq> c) (rev (zs @ [0]))) \<le> length zs"
        using True takeWhile_shorter [of c "rev (zs @ [0])" "\<lambda>x. x \<noteq> c"] by (auto simp: less_Suc_eq_le)
      then show ?thesis
        unfolding step IH using True Cons last_index_Cons(1) [OF True, of x] by (simp add: Suc_diff_le algebra_simps)
    next
      case False
      then show ?thesis
        unfolding step IH using Cons last_index_Cons(2) [OF False] by auto
    qed
  qed (use Suc.prems in auto)
qed simp

lemma search_facts:
  assumes "c_string m a xs" "c_string m ct ys"
  shows "strlen a m = of_nat (length xs)"
    "strchr a c m = Inr (if c \<in> set (xs @ [0]) then a + of_nat (length (takeWhile (\<lambda>x. x \<noteq> c) xs)) else 0)"
    "strrchr a c m = Inr (if c \<in> set (xs @ [0])
       then a + of_nat (length xs - length (takeWhile (\<lambda>x. x \<noteq> c) (rev (xs @ [0])))) else 0)"
    "strspn a ct m = Inr (of_nat (length (takeWhile (\<lambda>x. x \<in> set ys) xs)))"
    "strcspn a ct m = Inr (of_nat (length (takeWhile (\<lambda>x. x \<notin> set ys) xs)))"
    "strpbrk a ct m = Inr (if set xs \<inter> set ys = {} then 0 else a + of_nat (length (takeWhile (\<lambda>x. x \<notin> set ys) xs)))"
    "strstr a ct m = Inr (case occurrence ys xs of None \<Rightarrow> 0 | Some k \<Rightarrow> a + of_nat k)"
proof -
  have s: "bytes_at m a (xs @ [0])" "0 \<notin> set xs" "bytes_at m ct ys" "0 \<notin> set ys" "length xs < 2 ^ 32"
    using assms by (auto simp: c_string_def)
  note n = unat_strlen [OF assms(2)]
  show "strlen a m = of_nat (length xs)" by (rule strlen_string [OF assms(1)])
  show "strchr a c m = Inr (if c \<in> set (xs @ [0]) then a + of_nat (length (takeWhile (\<lambda>x. x \<noteq> c) xs)) else 0)"
    unfolding strchr_def by (rule strchr_loop_string [OF s(1,2,5)])
  show "strrchr a c m = Inr (if c \<in> set (xs @ [0])
       then a + of_nat (length xs - length (takeWhile (\<lambda>x. x \<noteq> c) (rev (xs @ [0])))) else 0)"
    unfolding strrchr_def by (rule strrchr_loop_string [OF s(1,2,5)])
  note span = span_loop_string [OF s(1-3,5)]
  show "strspn a ct m = Inr (of_nat (length (takeWhile (\<lambda>x. x \<in> set ys) xs)))"
    by (simp add: strspn_def n span [simplified])
  show "strcspn a ct m = Inr (of_nat (length (takeWhile (\<lambda>x. x \<notin> set ys) xs)))"
    by (simp add: strcspn_def n span [simplified])
  show "strpbrk a ct m = Inr (if set xs \<inter> set ys = {} then 0 else a + of_nat (length (takeWhile (\<lambda>x. x \<notin> set ys) xs)))"
  proof -
    let ?k = "length (takeWhile (\<lambda>x. x \<notin> set ys) xs)"
    have "m (a + of_nat ?k) = 0 \<longleftrightarrow> set xs \<inter> set ys = {}"
    proof (cases "?k = length xs")
      case True
      then have "takeWhile (\<lambda>x. x \<notin> set ys) xs = xs" by (metis takeWhile_eq_take take_all order_refl)
      then have "set xs \<inter> set ys = {}" by (auto simp: takeWhile_eq_all_conv)
      then show ?thesis using True s(1) by simp
    next
      case False
      then have k: "?k < length xs" using length_takeWhile_le [of "\<lambda>x. x \<notin> set ys" xs] by simp
      then have "xs ! ?k \<in> set ys" using nth_length_takeWhile [of "\<lambda>x. x \<notin> set ys" xs] by simp
      moreover have "m (a + of_nat ?k) = xs ! ?k" using s(1) k by (auto simp: bytes_at_def nth_append)
      ultimately show ?thesis using k s(2) by (metis IntI empty_iff nth_mem)
    qed
    then show ?thesis by (simp add: strpbrk_def n span [simplified])
  qed
  show "strstr a ct m = Inr (case occurrence ys xs of None \<Rightarrow> 0 | Some k \<Rightarrow> a + of_nat k)"
    unfolding strstr_def n by (rule strstr_loop_string [OF s])
qed

text \<open>
  C40: On strings ended by a zero strlen, strchr, strrchr, strspn, strcspn, strpbrk and
  strstr, written with repeated string instructions, compute the functions on lists of their
  names: length, first and last index of a byte, length of the longest beginning of bytes in
  or not in a set, first byte of a set and first occurrence of a string, the empty one
  included.
\<close>

theorem string_searches:
  assumes "c_string m a xs" "c_string m ct ys"
  shows "strlen a m = of_nat (length xs) \<and>
    strchr a c m = Inr (if c \<in> set (xs @ [0]) then a + of_nat (length (takeWhile (\<lambda>x. x \<noteq> c) xs)) else 0) \<and>
    strrchr a c m = Inr (if c \<in> set (xs @ [0])
       then a + of_nat (length xs - length (takeWhile (\<lambda>x. x \<noteq> c) (rev (xs @ [0])))) else 0) \<and>
    strspn a ct m = Inr (of_nat (length (takeWhile (\<lambda>x. x \<in> set ys) xs))) \<and>
    strcspn a ct m = Inr (of_nat (length (takeWhile (\<lambda>x. x \<notin> set ys) xs))) \<and>
    strpbrk a ct m = Inr (if set xs \<inter> set ys = {} then 0 else a + of_nat (length (takeWhile (\<lambda>x. x \<notin> set ys) xs))) \<and>
    strstr a ct m = Inr (case occurrence ys xs of None \<Rightarrow> 0 | Some k \<Rightarrow> a + of_nat k)"
  using search_facts [OF assms] by blast

text \<open>The strings \<open>abca\<close> and \<open>ca\<close>.\<close>

definition ex_strings :: bytes where
  "ex_strings = (\<lambda>_. 0)(100 := 97, 101 := 98, 102 := 99, 103 := 97, 200 := 99, 201 := 97)"

theorem string_searches_witness:
  "strstr 100 200 ex_strings = Inr 102 \<and> strspn 100 200 ex_strings = Inr 1 \<and> strrchr 100 97 ex_strings = Inr 103"
proof -
  have "c_string ex_strings 100 [97, 98, 99, 97]" "c_string ex_strings 200 [99, 97]"
    by (simp_all add: c_string_def ex_strings_def)
  from string_searches [OF this, of 97] show ?thesis by simp
qed

section \<open>strncat\<close>

text \<open>When the source ends before the count, two zero bytes are written, the second behind the end of the string.\<close>

lemma strncat_second_zero:
  "bytes_at m src (xs @ [0]) \<Longrightarrow> 0 \<notin> set xs \<Longrightarrow> length xs < n \<Longrightarrow>
    \<forall>i \<le> length xs. \<forall>j \<le> Suc (length xs). src + of_nat i \<noteq> dest + of_nat j \<Longrightarrow>
    strncat_loop n src dest m (dest + of_nat (length xs) + 1) = 0"
proof (induction xs arbitrary: n src dest m)
  case Nil
  then show ?case by (cases n) auto
next
  case (Cons x xs)
  obtain k where n: "n = Suc k" using Cons.prems(3) by (cases n) auto
  have apart: "src + 1 + of_nat i \<noteq> dest + 1 + of_nat j \<and> src + 1 + of_nat i \<noteq> dest" if "i \<le> length xs" "j \<le> Suc (length xs)" for i j
    using Cons.prems(4) [rule_format, of "Suc i" "Suc j"] Cons.prems(4) [rule_format, of "Suc i" 0] that by (simp add: algebra_simps)
  have "bytes_at m (src + 1) (xs @ [0])" using Cons.prems(1) by (simp add: algebra_simps)
  then have "bytes_at (m(dest := m src)) (src + 1) (xs @ [0])"
    unfolding bytes_at_def using apart by (auto simp: less_Suc_eq_le)
  then have "strncat_loop k (src + 1) (dest + 1) (m(dest := m src)) (dest + 1 + of_nat (length xs) + 1) = 0"
    by (rule Cons.IH) (use Cons.prems(2,3) n apart in auto)
  moreover have "m src \<noteq> 0" using Cons.prems(1,2) by auto
  ultimately show ?case by (simp add: n Let_def algebra_simps)
qed

end
