(* ===== verification/Request_Idle.thy ===== *)
theory Request_Idle imports Request begin

text \<open>
  A request for a device with an empty queue: the way through \<open>ll_rw_block\<close>, \<open>make_request\<close> and
  \<open>add_request\<close> puts it at the head of the queue and starts the device. Also what the drivers' proofs
  share: the numbers of a device, and the last byte written to a port.
\<close>

definition base_cmd :: "rw_cmd \<Rightarrow> rw_cmd" where
  "base_cmd rw = (if rw = READA then READ else if rw = WRITEA then WRITE else rw)"

lemma base_cmd_cases: "base_cmd rw = READ \<or> base_cmd rw = WRITE"
  by (cases rw) (simp_all add: base_cmd_def)

lemma base_cmd_base [simp]: "base_cmd READ = READ" "base_cmd WRITE = WRITE"
  by (simp_all add: base_cmd_def)

definition block_request :: "rw_cmd \<Rightarrow> u16 \<Rightarrow> u32 \<Rightarrow> nat \<Rightarrow> request" where
  "block_request rw dev n b =
     \<lparr>r_dev = int (unat dev), r_cmd = rw, r_errors = 0, r_sector = push_bit 1 n, r_nr_sectors = 2, r_buffer = 0,
      r_bh = Some b, r_next = None\<rparr>"

definition asked :: "nat \<Rightarrow> rw_cmd \<Rightarrow> nat \<Rightarrow> nat \<Rightarrow> blk \<Rightarrow> blk" where
  "asked major rw b c s =
     (upd_req c (\<lambda>_. block_request rw (b_dev (buffers (bk s) b)) (b_blocknr (buffers (bk s) b)) b)
       (set_bh b (\<lambda>h. h\<lparr>b_lock := True, b_dirt := False\<rparr>) s))
         \<lparr>current_request := (current_request s)(major \<mapsto> c)\<rparr>"

lemma empty_request_exists:
  "i < n \<Longrightarrow> r_dev (request s i) < 0 \<Longrightarrow> \<exists>r < n. empty_request n s = Some r \<and> r_dev (request s r) < 0"
  by (induction n) (auto simp: less_Suc_eq)

definition request_free :: "blk \<Rightarrow> bool" where
  "request_free s \<longleftrightarrow> (\<exists>i < request_limit WRITE. r_dev (request s i) < 0)"

lemma request_found: "request_free s \<Longrightarrow> \<exists>c. empty_request (request_limit rw) s = Some c"
proof -
  assume "request_free s"
  then obtain i where "i < request_limit WRITE" "r_dev (request s i) < 0" by (auto simp: request_free_def)
  moreover have "request_limit WRITE \<le> request_limit rw" by (simp add: request_limit_def NR_REQUEST_def)
  ultimately show ?thesis using empty_request_exists [of i "request_limit rw" s] by auto
qed

lemma idle_transfer:
  assumes dev: "MAJOR (b_dev (buffers (bk s) b)) = m" "m < NR_BLK_DEV" "has_driver (bk s) m" "current_request s m = None"
    and need: "\<not> b_lock (buffers (bk s) b)"
      "\<not> (base_cmd rw = WRITE \<and> \<not> b_dirt (buffers (bk s) b) \<or> base_cmd rw = READ \<and> b_uptodate (buffers (bk s) b))"
    and r: "empty_request (request_limit (base_cmd rw)) s = Some c"
  shows "blk_ll_rw_block start rw b s = start m (asked m (base_cmd rw) b c s)"
proof -
  have er: "empty_request n (set_bh b f s) = empty_request n s" for n f by (induction n) (simp_all add: set_bh_def)
  have "blk_ll_rw_block start rw b s = make_request start m rw b s"
    using dev by (simp add: blk_ll_rw_block_def)
  also have "\<dots> = add_request start m c
     (upd_req c (\<lambda>_. block_request (base_cmd rw) (b_dev (buffers (bk s) b)) (b_blocknr (buffers (bk s) b)) b)
       (set_bh b (\<lambda>h. h\<lparr>b_lock := True\<rparr>) s))"
    using need r
    by (auto simp add: make_request_def lock_buffer_def Let_def er block_request_def simp flip: base_cmd_def)
  finally show ?thesis
    using dev(4) by (cases s) (simp add: add_request_def Let_def upd_req_def set_bh_def upd_buf_def block_request_def asked_def)
qed

section \<open>Device numbers\<close>

lemma unat_mod_256: "unat (x AND 0xff :: 'a :: len word) = unat x mod 256"
proof -
  have e: "x AND 0xff = take_bit 8 x" by (simp add: take_bit_eq_mask mask_eq_exp_minus_1)
  show ?thesis unfolding e unsigned_take_bit_eq by (simp add: take_bit_eq_mod)
qed

lemma unat_dev: "unat (word_of_int (int (unat (v :: u16))) :: u32) = unat v"
proof -
  have "unat v < 2 ^ LENGTH(16)" by (rule unsigned_less)
  then show ?thesis by (simp add: unsigned_ucast_eq take_bit_eq_mod)
qed

lemma minor_of: "unat (word_of_int (int (unat (v :: u16))) AND 0xff :: u32) = unat (v AND 0xff)"
  by (simp only: unat_mod_256 unat_dev)

lemma major_of: "unat (drop_bit 8 (word_of_int (int (unat (v :: u16))) :: u32)) = MAJOR v"
proof -
  have "unat v < 2 ^ LENGTH(16)" by (rule unsigned_less)
  then show ?thesis by (simp only: unsigned_drop_bit_eq unat_dev MAJOR_def) (simp add: drop_bit_eq_div take_bit_eq_mod)
qed

section \<open>The history of a port\<close>

primrec last_out :: "u32 \<Rightarrow> io_event list \<Rightarrow> u8" where
  "last_out p [] = 0"
| "last_out p (e # h) = (case e of Out q v \<Rightarrow> if q = p then v else last_out p h | _ \<Rightarrow> last_out p h)"

end
