(* ===== verification/Hd_Lemmas.thy ===== *)
theory Hd_Lemmas imports Hd Request_Idle Example_Drives begin

text \<open>
  The hard disk driver against the documented behaviour of the controller: a block read through the
  request queue and two interrupts is the block of the drive, and a request the drive cannot serve is
  given up after a fixed number of interrupts.
\<close>

section \<open>What the controller knows from the ports\<close>

text \<open>The sectors transferred since the last command.\<close>

primrec sectors_done :: "io_event list \<Rightarrow> nat" where
  "sectors_done [] = 0"
| "sectors_done (e # h) =
     (case e of Ins _ _ \<Rightarrow> Suc (sectors_done h)
      | Out q _ \<Rightarrow> if q = HD_DATA + 7 then 0 else sectors_done h | _ \<Rightarrow> sectors_done h)"

definition addressed_drive :: "io_event list \<Rightarrow> nat" where
  "addressed_drive h = (if last_out (HD_DATA + 6) h AND 0x10 \<noteq> 0 then 1 else 0)"

text \<open>The number of the sector that cylinder, head and sector registers name on a drive.\<close>

definition addressed_sector :: "hd_i_struct \<Rightarrow> io_event list \<Rightarrow> nat" where
  "addressed_sector i h =
     (let cyl = unat (last_out (HD_DATA + 4) h) + 256 * unat (last_out (HD_DATA + 5) h);
          head = unat (last_out (HD_DATA + 6) h AND 0x0f); sec = unat (last_out (HD_DATA + 3) h)
      in (cyl * unat (hi_head i) + head) * unat (hi_sect i) + (sec - 1) + sectors_done h)"

text \<open>The sectors the last command asks for; 0 stands for 256.\<close>

definition sectors_asked :: "io_event list \<Rightarrow> nat" where
  "sectors_asked h = (if last_out (HD_DATA + 2) h = 0 then 256 else unat (last_out (HD_DATA + 2) h))"

text \<open>
  A controller that is never busy or in error and delivers the sectors of the drives \<open>img\<close>
  it was asked for: after the command 0x20, which reads, and as many as its count says.
\<close>

definition serves :: "device \<Rightarrow> (nat \<Rightarrow> nat \<Rightarrow> block) \<Rightarrow> (nat \<Rightarrow> hd_i_struct) \<Rightarrow> bool" where
  "serves d img info \<longleftrightarrow>
     (\<forall>h. dev_byte d h HD_STATUS AND 0xf1 = 0x50 \<and>
        (last_out (HD_DATA + 7) h = 0x20 \<and> sectors_done h < sectors_asked h \<longrightarrow>
          (\<forall>k < 512. dev_data d h k = img (addressed_drive h) (addressed_sector (info (addressed_drive h)) h) k)))"

text \<open>The commands given so far, and the resets: 4 and then another value in the control register.\<close>

primrec commands :: "io_event list \<Rightarrow> nat" where
  "commands [] = 0"
| "commands (e # h) = (case e of Out q _ \<Rightarrow> if q = HD_DATA + 7 then Suc (commands h) else commands h | _ \<Rightarrow> commands h)"

primrec resets :: "io_event list \<Rightarrow> nat" where
  "resets [] = 0"
| "resets (e # h) =
     (case e of Out q _ \<Rightarrow> if q = HD_CMD \<and> h \<noteq> [] \<and> hd h = Out HD_CMD 4 then Suc (resets h) else resets h | _ \<Rightarrow> resets h)"

section \<open>Commands\<close>

definition command_log :: "hd_i_struct \<Rightarrow> nat \<Rightarrow> u32 \<Rightarrow> u32 \<Rightarrow> u32 \<Rightarrow> u32 \<Rightarrow> u8 \<Rightarrow> io_event list" where
  "command_log i drive nsect sect head cyl cmd =
     [Out (HD_DATA + 7) cmd, Out (HD_DATA + 6) (ucast (0xA0 OR push_bit 4 (of_nat drive) OR head)),
      Out (HD_DATA + 5) (ucast (drop_bit 8 cyl)), Out (HD_DATA + 4) (ucast cyl), Out (HD_DATA + 3) (ucast sect),
      Out (HD_DATA + 2) (ucast nsect), Out (HD_DATA + 1) (ucast (signed_drop_bit 2 (hi_wpcom i))),
      Out HD_CMD (ucast (hi_ctl i))]"

lemma controller_ready_now:
  assumes "dev_byte d (ios s) HD_STATUS AND 0x80 = 0"
  shows "controller_ready d s = (99999, s\<lparr>ios := In HD_STATUS (dev_byte d (ios s) HD_STATUS) # ios s\<rparr>)"
proof -
  have "controller_ready d s = ready_loop (Suc 99999) d s" by (simp add: controller_ready_def del: ready_loop.simps)
  also have "\<dots> = (99999, s\<lparr>ios := In HD_STATUS (dev_byte d (ios s) HD_STATUS) # ios s\<rparr>)"
    using assms by (simp only: ready_loop.simps io_in_def Let_def) simp
  finally show ?thesis .
qed

lemma hd_out_ready:
  assumes "dev_byte d (ios s) HD_STATUS AND 0x80 = 0" "drive < 2" "head < 16"
  shows "hd_out d drive nsect sect head cyl cmd intr s =
    Inr (s\<lparr>hdd := (hdd s)\<lparr>do_hd := Some intr\<rparr>,
      ios := command_log (hd_info (hdd s) drive) drive nsect sect head cyl cmd @
             In HD_STATUS (dev_byte d (ios s) HD_STATUS) # ios s\<rparr>)"
proof -
  have "\<not> 15 < head" using assms(3) by (simp add: word_less_nat_alt)
  then show ?thesis
    using assms(2) by (simp add: hd_out_def controller_ready_now [OF assms(1)] Let_def upd_hd_def io_out_def command_log_def)
qed

lemma not_busy: "(v :: u8) AND 0xf1 = 0x50 \<Longrightarrow> v AND 0x80 = 0"
proof -
  assume v: "v AND 0xf1 = 0x50"
  have "v AND 0x80 = (v AND 0xf1) AND 0x80" by (simp add: and.assoc)
  then show ?thesis by (simp add: v)
qed

lemma win_result_ok:
  assumes "dev_byte d (ios s) HD_STATUS AND 0xf1 = 0x50"
  shows "win_result d s = (False, s\<lparr>ios := In HD_STATUS (dev_byte d (ios s) HD_STATUS) # ios s\<rparr>)"
  using assms
  by (simp add: win_result_def io_in_def Let_def BUSY_STAT_def READY_STAT_def WRERR_STAT_def SEEK_STAT_def ERR_STAT_def)

section \<open>Cylinder, head and sector\<close>

lemma chs_linear:
  assumes "0 < heads" "0 < sects"
  shows "((b div sects div heads) * heads + b div sects mod heads) * sects + b mod sects = (b :: nat)"
  by simp

lemma unat_low_high: "x < 0x10000 \<Longrightarrow> unat (ucast (x :: u32) :: u8) + 256 * unat (ucast (drop_bit 8 x) :: u8) = unat x"
proof -
  assume "x < 0x10000"
  then have "unat x div 256 < 256" by (simp add: word_less_nat_alt)
  then show ?thesis
    by (simp add: unsigned_ucast_eq take_bit_eq_mod unsigned_drop_bit_eq drop_bit_eq_div unat_div)
qed

lemma unat_low_byte: "x < 256 \<Longrightarrow> unat (ucast (x :: u32) :: u8) = unat x"
  by (simp add: unsigned_ucast_eq take_bit_eq_mod word_less_nat_alt)

lemma drive_head_byte:
  assumes "drive < 2" "head < 16"
  shows "ucast (0xA0 OR push_bit 4 (of_nat drive) OR (head :: u32)) AND (0x10 :: u8) \<noteq> 0 \<longleftrightarrow> drive = 1"
    "unat (ucast (0xA0 OR push_bit 4 (of_nat drive) OR head) AND (0x0f :: u8)) = unat head"
proof -
  have "unat head < 16" using assms(2) by (simp add: word_less_nat_alt)
  then have "unat head \<in> {0, 1, 2, 3, 4, 5, 6, 7, 8, 9, 10, 11, 12, 13, 14, 15}"
    by (simp only: insert_iff empty_iff) presburger
  then have "head \<in> {0, 1, 2, 3, 4, 5, 6, 7, 8, 9, 10, 11, 12, 13, 14, 15}"
    by (auto simp: word_unat_eq_iff)
  moreover have "drive = 0 \<or> drive = 1" using assms(1) by auto
  ultimately show "ucast (0xA0 OR push_bit 4 (of_nat drive) OR (head :: u32)) AND (0x10 :: u8) \<noteq> 0 \<longleftrightarrow> drive = 1"
    "unat (ucast (0xA0 OR push_bit 4 (of_nat drive) OR head) AND (0x0f :: u8)) = unat head"
    by auto
qed

text \<open>The geometry of a drive fits the registers.\<close>

definition geometry_ok :: "hd_i_struct \<Rightarrow> bool" where
  "geometry_ok i \<longleftrightarrow> 0 < hi_head i \<and> hi_head i \<le> 16 \<and> 0 < hi_sect i \<and> hi_sect i < 256 \<and> hi_cyl i \<le> 0x10000"

definition sectors_of :: "hd_i_struct \<Rightarrow> nat" where
  "sectors_of i = unat (hi_head i) * unat (hi_sect i) * unat (hi_cyl i)"

text \<open>The command \<open>do_hd_request\<close> gives for sector \<open>b\<close> of a drive addresses just this sector.\<close>

lemma command_addresses:
  assumes g: "geometry_ok i" and drive: "drive < 2" and b: "unat b < sectors_of i"
    and h_def: "h = command_log i drive nsect (b mod hi_sect i + 1) (b div hi_sect i mod hi_head i) (b div hi_sect i div hi_head i) cmd"
  shows "addressed_drive (h @ r) = drive" "addressed_sector i (h @ r) = unat b"
    "b div hi_sect i mod hi_head i < 16"
proof -
  let ?H = "unat (hi_head i)" and ?S = "unat (hi_sect i)"
  have gs: "0 < ?H" "?H \<le> 16" "0 < ?S" "?S < 256" "unat (hi_cyl i) \<le> 0x10000"
    using g by (auto simp: geometry_ok_def word_less_nat_alt word_le_nat_alt)
  have "b div hi_sect i mod hi_head i < hi_head i" using g by (intro word_mod_less_divisor) (simp add: geometry_ok_def)
  then show head: "b div hi_sect i mod hi_head i < 16"
    using gs(2) by (simp add: word_less_nat_alt)
  have "unat b div ?S div ?H < unat (hi_cyl i)"
    using b gs(1,3) by (simp add: sectors_of_def div_mult2_eq [symmetric] less_mult_imp_div_less ac_simps)
  then have cyl: "b div hi_sect i div hi_head i < 0x10000"
    using gs(5) by (simp add: word_less_nat_alt unat_div)
  have "unat b mod ?S < ?S" using gs(3) by simp
  then have sec: "unat (b mod hi_sect i + 1) = unat b mod ?S + 1" "b mod hi_sect i + 1 < 256"
    using gs(4) by (simp_all add: word_less_nat_alt unat_word_ariths unat_mod)
  show "addressed_drive (h @ r) = drive"
    using drive_head_byte(1) [OF drive head] drive
    by (auto simp: h_def command_log_def addressed_drive_def)
  show "addressed_sector i (h @ r) = unat b"
    using unat_low_high [OF cyl] drive_head_byte(2) [OF drive head] sec chs_linear [OF gs(1,3), of "unat b"]
    by (simp add: h_def command_log_def addressed_sector_def HD_DATA_def Let_def unat_low_byte unat_div unat_mod)
qed

section \<open>A request at the head of the queue\<close>

definition hd_minor :: "request \<Rightarrow> nat" where
  "hd_minor r = unat (word_of_int (r_dev r) AND 0xff :: u32)"

lemma CURRENT_DEV_minor: "CURRENT_DEV r = hd_minor r div 5"
  by (simp add: CURRENT_DEV_def hd_minor_def)

text \<open>Request \<open>c\<close> is served by drive \<open>drive\<close>, of a known geometry, from sector \<open>n\<close> of it on.\<close>

definition hd_serving :: "blk \<Rightarrow> nat \<Rightarrow> nat \<Rightarrow> u32 \<Rightarrow> bool" where
  "hd_serving s c drive n \<longleftrightarrow>
     (let r = request s c; p = hd_part (hdd s) (hd_minor r) in
      current_request s 3 = Some c \<and> init_request 3 s = Inr (Some c) \<and>
      hd_minor r div 5 = drive \<and> drive < 2 \<and> hd_minor r < 5 * NR_HD (hdd s) \<and> geometry_ok (hd_info (hdd s) drive) \<and>
      r_sector r + 2 \<le> nr_sects p \<and> n = r_sector r + start_sect p)"

text \<open>What is left of the queue's state when a command is given.\<close>

definition commanded :: "device \<Rightarrow> hd_intr \<Rightarrow> io_event list \<Rightarrow> blk \<Rightarrow> blk" where
  "commanded d intr l s =
     s\<lparr>hdd := (hdd s)\<lparr>do_hd := Some intr\<rparr>, ios := l @ In HD_STATUS (dev_byte d (ios s) HD_STATUS) # ios s\<rparr>"

lemma do_hd_request_Suc: "do_hd_request d = hd_loop (Suc 255) d"
  by (simp add: do_hd_request_def NR_REQUEST_def del: hd_loop.simps)

lemma do_hd_request_idle: "current_request s 3 = None \<Longrightarrow> do_hd_request d s = Inr s"
  unfolding do_hd_request_Suc hd_loop.simps by (simp add: init_request_def)

lemma do_hd_request_serving:
  assumes "hd_serving s c drive n"
  defines "i \<equiv> hd_info (hdd s) drive"
  shows "do_hd_request d s =
    bindk (hd_command d c drive (n mod hi_sect i + 1) (n div hi_sect i mod hi_head i) (n div hi_sect i div hi_head i) s)
      (\<lambda>(again, s). if again then hd_loop 255 d s else Inr s)"
proof -
  have s: "init_request 3 s = Inr (Some c)" "hd_minor (request s c) div 5 = drive" "\<not> 5 * NR_HD (hdd s) \<le> hd_minor (request s c)"
    "\<not> nr_sects (hd_part (hdd s) (hd_minor (request s c))) < r_sector (request s c) + 2"
    "r_sector (request s c) + start_sect (hd_part (hdd s) (hd_minor (request s c))) = n"
    "\<not> (hi_sect i = 0 \<or> hi_head i = 0)"
    using assms(1) by (auto simp: hd_serving_def Let_def i_def geometry_ok_def)
  show ?thesis
    unfolding do_hd_request_Suc hd_loop.simps s(1) bindk_Inr option.case Let_def hd_minor_def [symmetric]
    using s(2-6) unfolding i_def by simp
qed

lemma do_hd_request_read:
  assumes s: "hd_serving s c drive n" "r_cmd (request s c) = READ" "\<not> hd_reset (hdd s)" "\<not> hd_recalibrate (hdd s)"
    and d: "dev_byte d (ios s) HD_STATUS AND 0x80 = 0" and n: "unat n < sectors_of (hd_info (hdd s) drive)"
  defines "i \<equiv> hd_info (hdd s) drive"
  shows "do_hd_request d s = Inr (commanded d read_intr
    (command_log i drive (r_nr_sectors (request s c)) (n mod hi_sect i + 1) (n div hi_sect i mod hi_head i)
      (n div hi_sect i div hi_head i) WIN_READ) s)"
proof -
  have "geometry_ok i" "drive < 2" using s(1) by (auto simp: hd_serving_def Let_def i_def)
  from command_addresses(3) [OF this n [folded i_def] refl]
  have "n div hi_sect i mod hi_head i < 16" .
  from hd_out_ready [where d = d and s = s, OF d \<open>drive < 2\<close> this] show ?thesis
    unfolding do_hd_request_serving [OF s(1), folded i_def] hd_command_def Let_def
    using s(2-4) by (simp add: commanded_def i_def)
qed

section \<open>The interrupts of a read\<close>

text \<open>The interrupt is acknowledged and its function taken.\<close>

definition acked :: "blk \<Rightarrow> blk" where
  "acked s = s\<lparr>hdd := (hdd s)\<lparr>do_hd := None\<rparr>, ios := Out 0x20 0x20 # Out 0xA0 0x20 # ios s\<rparr>"

lemma hd_interrupt_acked:
  "hd_interrupt d s = (case do_hd (hdd s) of None \<Rightarrow> Inr (acked s) | Some f \<Rightarrow> hd_handler d f (acked s))"
proof -
  have "io_out 0x20 0x20 (upd_hd (\<lambda>h. h\<lparr>do_hd := None\<rparr>) (io_out 0x20 0xA0 s)) = acked s"
    by (cases s) (simp add: acked_def io_out_def upd_hd_def)
  moreover have "do_hd (hdd (io_out 0x20 0xA0 s)) = do_hd (hdd s)" by (simp add: io_out_def)
  ultimately show ?thesis by (simp only: hd_interrupt_def Let_def)
qed

lemma acked_sel [simp]:
  "hdd (acked s) = (hdd s)\<lparr>do_hd := None\<rparr>" "ios (acked s) = Out 0x20 0x20 # Out 0xA0 0x20 # ios s" "bk (acked s) = bk s"
  "request (acked s) = request s" "current_request (acked s) = current_request s"
  by (simp_all add: acked_def)

definition taken_sector :: "device \<Rightarrow> nat \<Rightarrow> nat \<Rightarrow> blk \<Rightarrow> blk" where
  "taken_sector d c b s =
     (let k = r_buffer (request s c); h = In HD_STATUS (dev_byte d (ios s) HD_STATUS) # ios s
      in upd_req c (\<lambda>r. r\<lparr>r_errors := 0, r_buffer := k + 512, r_sector := r_sector r + 1, r_nr_sectors := r_nr_sectors r - 1\<rparr>)
           ((set_bh b (\<lambda>u. u\<lparr>b_data := (\<lambda>i. if k \<le> i \<and> i < k + 512 then dev_data d h (i - k) else b_data u i)\<rparr>) s)
             \<lparr>ios := Ins HD_DATA (map (dev_data d h) [0..<512]) # h\<rparr>))"

lemma read_interrupt:
  assumes "do_hd (hdd s) = Some read_intr" "current_request s 3 = Some c" "r_bh (request s c) = Some b"
    and d: "dev_byte d (Out 0x20 0x20 # Out 0xA0 0x20 # ios s) HD_STATUS AND 0xf1 = 0x50"
  defines "t \<equiv> taken_sector d c b (acked s)"
  shows "hd_interrupt d s =
    (if r_nr_sectors (request s c) \<noteq> 1 then Inr (t\<lparr>hdd := (hdd s)\<lparr>do_hd := Some read_intr\<rparr>\<rparr>)
     else bindk (end_request 3 True t) (do_hd_request d))"
  using assms(1-3) unfolding t_def
  by (simp add: hd_interrupt_acked upd_hd_def win_result_ok [where s = "acked s", simplified, OF d] port_read_def taken_sector_def Let_def upd_req_def set_bh_def
      upd_buf_def)

section \<open>Reading a block\<close>

text \<open>
  An idle disk that knows the geometry of its drives, with a free request; the buffer is for a block
  inside partition \<open>minor\<close>, and \<open>n\<close> is the first sector of the block on the drive.
\<close>

definition hd_block :: "blk \<Rightarrow> nat \<Rightarrow> nat \<Rightarrow> u32 \<Rightarrow> bool" where
  "hd_block s b drive n \<longleftrightarrow>
     (let h = buffers (bk s) b; m = unat (b_dev h AND 0xff); p = hd_part (hdd s) m; i = hd_info (hdd s) drive in
      MAJOR (b_dev h) = 3 \<and> m div 5 = drive \<and> m < 5 * NR_HD (hdd s) \<and> drive < 2 \<and> geometry_ok i \<and>
      unat (b_blocknr h) * 2 + 2 \<le> unat (nr_sects p) \<and>
      unat (start_sect p) + unat (nr_sects p) \<le> sectors_of i \<and> unat (start_sect p) + unat (nr_sects p) < 2 ^ 32 \<and>
      unat n = unat (start_sect p) + unat (b_blocknr h) * 2)"

definition hd_idle :: "blk \<Rightarrow> bool" where
  "hd_idle s \<longleftrightarrow> current_request s 3 = None \<and> has_driver (bk s) 3 \<and> request_free s \<and> \<not> hd_reset (hdd s) \<and> \<not> hd_recalibrate (hdd s)"

lemma hd_serving_asked:
  assumes "hd_block s b drive n"
  shows "hd_serving (asked 3 rw b c s) c drive n" "unat n < sectors_of (hd_info (hdd s) drive)"
proof -
  let ?h = "buffers (bk s) b" and ?s = "asked 3 rw b c s"
  let ?m = "unat (b_dev ?h AND 0xff)"
  let ?p = "hd_part (hdd s) ?m"
  have H: "MAJOR (b_dev ?h) = 3" "?m div 5 = drive" "?m < 5 * NR_HD (hdd s)" "drive < 2" "geometry_ok (hd_info (hdd s) drive)"
    "unat (b_blocknr ?h) * 2 + 2 \<le> unat (nr_sects ?p)" "unat (start_sect ?p) + unat (nr_sects ?p) \<le> sectors_of (hd_info (hdd s) drive)"
    "unat (start_sect ?p) + unat (nr_sects ?p) < 2 ^ 32" "unat n = unat (start_sect ?p) + unat (b_blocknr ?h) * 2"
    using assms by (auto simp: hd_block_def Let_def)
  have r: "request ?s c = block_request rw (b_dev ?h) (b_blocknr ?h) b" "current_request ?s 3 = Some c"
    "b_lock (buffers (bk ?s) b)" "hdd ?s = hdd s"
    by (simp_all add: asked_def upd_req_def set_bh_def upd_buf_def)
  have m: "hd_minor (request ?s c) = ?m" unfolding hd_minor_def r block_request_def by (simp only: request.simps minor_of)
  have i: "init_request 3 ?s = Inr (Some c)"
    unfolding init_request_def r(2) option.case r(1) block_request_def request.simps major_of H(1) by (simp add: r(3))
  have sec: "unat (push_bit 1 (b_blocknr ?h)) = unat (b_blocknr ?h) * 2"
    using H(6,8) by (simp add: push_bit_eq_mult unat_word_ariths)
  have "r_sector (request ?s c) + 2 \<le> nr_sects ?p"
    using H(6,8) sec by (simp add: r block_request_def word_le_nat_alt unat_word_ariths)
  moreover have "n = r_sector (request ?s c) + start_sect ?p"
    unfolding word_unat_eq_iff using H(6,8,9) sec by (simp add: r block_request_def unat_word_ariths)
  ultimately show "hd_serving ?s c drive n"
    using H(2-5) i r m [unfolded r(1)] by (simp add: hd_serving_def Let_def)
  show "unat n < sectors_of (hd_info (hdd s) drive)" using H(6,7,9) by simp
qed

lemma addressed_steps [simp]:
  "addressed_drive (In p v # h) = addressed_drive h" "addressed_sector i (In p v # h) = addressed_sector i h"
  "addressed_drive (Ins p ds # h) = addressed_drive h" "addressed_sector i (Ins p ds # h) = Suc (addressed_sector i h)"
  "addressed_drive (Out 0x20 v # h) = addressed_drive h" "addressed_sector i (Out 0x20 v # h) = addressed_sector i h"
  "addressed_drive (Out 0xA0 v # h) = addressed_drive h" "addressed_sector i (Out 0xA0 v # h) = addressed_sector i h"
  by (simp_all add: addressed_drive_def addressed_sector_def Let_def HD_DATA_def)

lemma ports_differ: "HD_CMD \<noteq> HD_DATA + 7"
  by (simp add: HD_DATA_def HD_CMD_def)

lemma command_steps:
  "last_out (HD_DATA + 7) (command_log i drive nsect sect head cyl cmd @ h) = cmd"
  "last_out (HD_DATA + 2) (command_log i drive nsect sect head cyl cmd @ h) = ucast nsect"
  "sectors_done (command_log i drive nsect sect head cyl cmd @ h) = 0"
  "commands (command_log i drive nsect sect head cyl cmd @ h) = Suc (commands h)"
  "resets (command_log i drive nsect sect head cyl cmd @ In p v # h) = resets h"
  by (simp_all add: command_log_def HD_DATA_def HD_CMD_def)

lemma end_request_last:
  assumes "current_request s 3 = Some c" "r_next (request s c) = None" "r_bh (request s c) = Some b"
  shows "end_request 3 ok s =
    Inr ((upd_req c (\<lambda>r. r\<lparr>r_dev := - 1\<rparr>) (set_bh b (\<lambda>h. h\<lparr>b_uptodate := ok, b_lock := False\<rparr>) s))
      \<lparr>current_request := (current_request s)(3 := None)\<rparr>)"
  using assms
  by (cases s) (simp add: end_request_def device_off_def unlock_buffer_def set_bh_def upd_buf_def upd_req_def)

text \<open>
  C6: The hard disk driver implements reading a block: asked for a block of a partition of
  an idle drive it gives the controller exactly one command, READ of two sectors, whose
  drive, cylinder, head and sector are those of the block by the geometry of the drive, and
  after the two interrupts of a controller that delivers data only for a READ, in the order
  of its sectors and no more of them than it was asked for, the buffer holds the two sectors
  of the block, up to date and unlocked, and the disk is idle again without a further
  command.
\<close>

theorem hd_reads_block:
  assumes s: "hd_idle s" "hd_block s b drive n" "\<not> b_lock (buffers (bk s) b)" "\<not> b_uptodate (buffers (bk s) b)"
    and d: "serves d img (hd_info (hdd s))"
  shows "\<exists>s1 s2 s3. blk_ll_rw_block (\<lambda>_. do_hd_request d) READ b s = Inr s1 \<and>
    last_out (HD_DATA + 7) (ios s1) = 0x20 \<and> last_out (HD_DATA + 2) (ios s1) = 2 \<and>
    addressed_drive (ios s1) = drive \<and> addressed_sector (hd_info (hdd s) drive) (ios s1) = unat n \<and>
    commands (ios s1) = Suc (commands (ios s)) \<and>
    hd_interrupt d s1 = Inr s2 \<and> hd_interrupt d s2 = Inr s3 \<and> commands (ios s3) = commands (ios s1) \<and>
    bk s3 = upd_buf b (\<lambda>h. h\<lparr>b_data := (\<lambda>k. if k < 512 then img drive (unat n) k
        else if k < 1024 then img drive (unat n + 1) (k - 512) else b_data h k),
      b_uptodate := True, b_dirt := False, b_lock := False\<rparr>) (bk s) \<and>
    hd_idle s3 \<and> do_hd (hdd s3) = None"
proof -
  let ?i = "hd_info (hdd s) drive"
  obtain c where c: "empty_request (request_limit (base_cmd READ)) s = Some c" using request_found [of s] s(1) by (auto simp: hd_idle_def)
  have I: "current_request s 3 = None" "has_driver (bk s) 3" "\<not> hd_reset (hdd s)" "\<not> hd_recalibrate (hdd s)"
    using s(1) by (simp_all add: hd_idle_def)
  have B: "MAJOR (b_dev (buffers (bk s) b)) = 3" "geometry_ok ?i" "drive < 2" using s(2) by (auto simp: hd_block_def Let_def)
  let ?x = "asked 3 READ b c s" and ?L = "command_log ?i drive 2 (n mod hi_sect ?i + 1) (n div hi_sect ?i mod hi_head ?i)
      (n div hi_sect ?i div hi_head ?i) WIN_READ"
  have st: "dev_byte d h HD_STATUS AND 0xf1 = 0x50" for h using d by (simp add: serves_def)
  have x: "request ?x c = block_request READ (b_dev (buffers (bk s) b)) (b_blocknr (buffers (bk s) b)) b"
    "hdd ?x = hdd s" "ios ?x = ios s" "current_request ?x = (current_request s)(3 \<mapsto> c)"
    by (simp_all add: asked_def upd_req_def set_bh_def)
  have r: "r_bh (request ?x c) = Some b" "r_nr_sectors (request ?x c) = 2" "r_buffer (request ?x c) = 0"
    "r_next (request ?x c) = None" "r_cmd (request ?x c) = READ"
    by (simp_all add: x block_request_def)
  note serving = hd_serving_asked(1) [OF s(2), of READ c] hd_serving_asked(2) [OF s(2)]
  let ?s1 = "commanded d read_intr ?L ?x"
  have run: "blk_ll_rw_block (\<lambda>_. do_hd_request d) READ b s = Inr ?s1"
    using idle_transfer [OF B(1) _ I(2,1) s(3) _ c] s(4)
      do_hd_request_read [OF serving(1) r(5), where d = d] I(3,4) not_busy [OF st] serving(2)
    by (simp add: NR_BLK_DEV_def x r r(2) [unfolded x(1)])
  have asks: "last_out (HD_DATA + 7) (ios ?s1) = 0x20 \<and> last_out (HD_DATA + 2) (ios ?s1) = 2 \<and>
      addressed_drive (ios ?s1) = drive \<and> addressed_sector ?i (ios ?s1) = unat n \<and> commands (ios ?s1) = Suc (commands (ios s))"
    using command_addresses(1,2) [OF B(2,3) serving(2) refl] by (simp add: commanded_def command_steps WIN_READ_def x(3))
  let ?t1 = "taken_sector d c b (acked ?s1)"
  let ?s2 = "?t1\<lparr>hdd := (hdd ?s1)\<lparr>do_hd := Some read_intr\<rparr>\<rparr>"
  have int1: "hd_interrupt d ?s1 = Inr ?s2"
    using read_interrupt [where s = ?s1 and c = c and b = b and d = d] st by (simp add: commanded_def x(4) r)
  let ?t2 = "taken_sector d c b (acked ?s2)"
  have int2: "hd_interrupt d ?s2 = bindk (end_request 3 True ?t2) (do_hd_request d)"
    using read_interrupt [where s = ?s2 and c = c and b = b and d = d] st
    by (simp add: commanded_def taken_sector_def Let_def x(4) r upd_req_def set_bh_def)
  let ?s3 = "(upd_req c (\<lambda>r. r\<lparr>r_dev := - 1\<rparr>) (set_bh b (\<lambda>h. h\<lparr>b_uptodate := True, b_lock := False\<rparr>) ?t2))
      \<lparr>current_request := (current_request ?t2)(3 := None)\<rparr>"
  have "end_request 3 True ?t2 = Inr ?s3"
    by (rule end_request_last) (simp_all add: commanded_def taken_sector_def Let_def x(4) r upd_req_def set_bh_def)
  then have int2': "hd_interrupt d ?s2 = Inr ?s3" by (simp add: int2 do_hd_request_idle)
  let ?a = "\<lambda>h. Out 0x20 0x20 # Out 0xA0 0x20 # h"
  have data: "dev_data d (In p v # ?a (?L @ h)) k = img drive (unat n) k"
    "dev_data d (In q w # ?a (Ins p2 ds # In p v # ?a (?L @ h))) k = img drive (unat n + 1) k" if "k < 512" for p v q w p2 ds h k
    using d that command_addresses(1,2) [OF B(2,3) serving(2) refl]
    by (simp_all add: serves_def command_steps command_steps [unfolded HD_DATA_def, simplified] WIN_READ_def sectors_asked_def HD_DATA_def)
  have "bk ?s3 = upd_buf b (\<lambda>h. h\<lparr>b_data := (\<lambda>k. if k < 512 then img drive (unat n) k
        else if k < 1024 then img drive (unat n + 1) (k - 512) else b_data h k),
      b_uptodate := True, b_dirt := False, b_lock := False\<rparr>) (bk s)"
    using data [where h = "In HD_STATUS (dev_byte d (ios s) HD_STATUS) # ios s"]
    by (cases "buffers (bk s) b")
      (auto simp: commanded_def taken_sector_def Let_def x(2-4) r upd_req_def set_bh_def upd_buf_def asked_def block_request_def
        fun_eq_iff simp del: One_nat_def cong: if_cong)
  moreover have "hd_idle ?s3 \<and> do_hd (hdd ?s3) = None"
    using I s(1) by (auto simp: hd_idle_def commanded_def taken_sector_def Let_def x(2,4) r upd_req_def set_bh_def upd_buf_def asked_def request_free_def)
  moreover have "commands (ios ?s3) = commands (ios ?s1)"
    by (simp add: taken_sector_def Let_def upd_req_def set_bh_def HD_DATA_def)
  ultimately show ?thesis using run asks int1 int2' by blast
qed

section \<open>A request that cannot be served\<close>

definition always_fails :: "device \<Rightarrow> bool" where
  "always_fails d \<longleftrightarrow> (\<forall>h. dev_byte d h HD_STATUS AND 0x80 = 0 \<and> dev_byte d h HD_STATUS AND 0xf1 \<noteq> 0x50)"

primrec hd_interrupts :: "nat \<Rightarrow> device \<Rightarrow> blk \<Rightarrow> blk kres" where
  "hd_interrupts 0 d s = Inr s"
| "hd_interrupts (Suc n) d s = bindk (hd_interrupt d s) (hd_interrupts n d)"

text \<open>\<open>n\<close> commands since \<open>h0\<close>, and a reset for each after the fourth.\<close>

definition tally :: "io_event list \<Rightarrow> nat \<Rightarrow> io_event list \<Rightarrow> bool" where
  "tally h0 n h \<longleftrightarrow> commands h = n + commands h0 \<and> resets h = (n - 4) + resets h0"

definition only_in :: "io_event list \<Rightarrow> bool" where
  "only_in l \<longleftrightarrow> (\<forall>e \<in> set l. case e of In _ _ \<Rightarrow> True | _ \<Rightarrow> False)"

lemma only_in_Cons [simp]: "only_in []" "only_in (In p v # l) = only_in l"
  by (simp_all add: only_in_def)

lemma only_in_steps:
  "only_in l \<Longrightarrow> commands (l @ h) = commands h \<and> resets (l @ h) = resets h \<and> last_out p (l @ h) = last_out p h"
  by (induction l) (auto simp: only_in_def split: io_event.splits)

text \<open>The request \<open>c\<close> of the state \<open>s0\<close> after \<open>e\<close> failures.\<close>

definition trying :: "blk \<Rightarrow> nat \<Rightarrow> nat \<Rightarrow> blk \<Rightarrow> bool" where
  "trying s0 c e s \<longleftrightarrow>
     (\<exists>h rc. s = s0\<lparr>request := (request s0)(c := (request s0 c)\<lparr>r_errors := of_nat e\<rparr>),
        hdd := (hdd s0)\<lparr>do_hd := Some (if e < 4 then read_intr else recal_intr), hd_reset := False, hd_recalibrate := rc\<rparr>,
        ios := h\<rparr> \<and> (e < 4 \<longrightarrow> \<not> rc) \<and> tally (ios s0) (Suc e) h \<and>
        last_out (HD_DATA + 7) h = (if e < 4 then 0x20 else 0x91))"

lemma update_order:
  "h\<lparr>hd_reset := a, hd_recalibrate := b, do_hd := x\<rparr> = h\<lparr>do_hd := x, hd_reset := a, hd_recalibrate := b\<rparr>"
  "h\<lparr>hd_recalibrate := b, do_hd := x\<rparr> = h\<lparr>do_hd := x, hd_recalibrate := b\<rparr>"
  "h\<lparr>hd_recalibrate := b, hd_reset := a\<rparr> = h\<lparr>hd_reset := a, hd_recalibrate := b\<rparr>"
  "h\<lparr>hd_reset := a, do_hd := x\<rparr> = h\<lparr>do_hd := x, hd_reset := a\<rparr>"
  "s\<lparr>ios := l, hdd := h\<rparr> = s\<lparr>hdd := h, ios := l\<rparr>"
  "s\<lparr>hdd := h, request := q\<rparr> = s\<lparr>request := q, hdd := h\<rparr>"
  "s\<lparr>ios := l, request := q\<rparr> = s\<lparr>request := q, ios := l\<rparr>"
  by (cases h; cases s; simp)+

lemma busy_loop_state: "\<exists>l. busy_loop n d s = s\<lparr>ios := l @ ios s\<rparr> \<and> only_in l"
proof (induction n arbitrary: s)
  case 0
  have "busy_loop 0 d s = s\<lparr>ios := [] @ ios s\<rparr> \<and> only_in []" by simp
  then show ?case by (rule exI)
next
  case (Suc n)
  let ?v = "dev_byte d (ios s) HD_STATUS" and ?l = "[In HD_STATUS (dev_byte d (ios s) HD_STATUS)]"
  have read: "io_in d HD_STATUS s = (?v, s\<lparr>ios := ?l @ ios s\<rparr>)" by (simp add: io_in_def Let_def)
  obtain l where "busy_loop n d (s\<lparr>ios := ?l @ ios s\<rparr>) = (s\<lparr>ios := ?l @ ios s\<rparr>)\<lparr>ios := l @ ios (s\<lparr>ios := ?l @ ios s\<rparr>)\<rparr>" "only_in l"
    using Suc.IH by blast
  then have "busy_loop n d (s\<lparr>ios := ?l @ ios s\<rparr>) = s\<lparr>ios := (l @ ?l) @ ios s\<rparr> \<and> only_in (l @ ?l)"
    by (simp add: only_in_def)
  moreover have "s\<lparr>ios := ?l @ ios s\<rparr> = s\<lparr>ios := ?l @ ios s\<rparr> \<and> only_in ?l" by simp
  ultimately show ?case unfolding busy_loop.simps read Let_def prod.case by (metis (full_types))
qed

lemma reset_controller_state:
  "\<exists>l v. reset_controller d s = s\<lparr>ios := l @ Out HD_CMD v # Out HD_CMD 4 # ios s\<rparr> \<and> only_in l"
proof -
  let ?v = "ucast (hi_ctl (hd_info (hdd s) 0) AND 0x0f)"
  let ?s = "s\<lparr>ios := Out HD_CMD ?v # Out HD_CMD 4 # ios s\<rparr>"
  obtain l where "busy_loop 10000 d ?s = ?s\<lparr>ios := l @ ios ?s\<rparr>" "only_in l"
    using busy_loop_state by blast
  then have "\<exists>p v q w. reset_controller d s = s\<lparr>ios := (In p v # In q w # l) @ Out HD_CMD ?v # Out HD_CMD 4 # ios s\<rparr> \<and>
      only_in (In p v # In q w # l)"
    by (simp add: reset_controller_def drive_busy_def io_in_def io_out_def Let_def) (intro exI, rule refl)
  then show ?thesis by blast
qed

lemma win_result_bad:
  assumes "always_fails d"
  shows "\<exists>l p v. win_result d s = (True, s\<lparr>ios := In p v # l @ ios s\<rparr>) \<and> only_in l"
proof -
  let ?v = "dev_byte d (ios s) HD_STATUS"
  have "win_result d s = (True, if ?v AND 1 = 0 then s\<lparr>ios := In HD_STATUS ?v # [] @ ios s\<rparr>
    else s\<lparr>ios := In HD_ERROR (dev_byte d (In HD_STATUS ?v # ios s) HD_ERROR) # [In HD_STATUS ?v] @ ios s\<rparr>)"
    using assms
    by (simp add: always_fails_def win_result_def io_in_def Let_def BUSY_STAT_def READY_STAT_def WRERR_STAT_def SEEK_STAT_def
        ERR_STAT_def)
  then have "win_result d s = (True, s\<lparr>ios := In HD_STATUS ?v # [] @ ios s\<rparr>) \<and> only_in [] \<or>
    win_result d s = (True, s\<lparr>ios := In HD_ERROR (dev_byte d (In HD_STATUS ?v # ios s) HD_ERROR) # [In HD_STATUS ?v] @ ios s\<rparr>)
      \<and> only_in [In HD_STATUS ?v]"
    by (simp only: only_in_Cons) presburger
  then show ?thesis by (elim disjE) (intro exI, assumption)+
qed

text \<open>The next attempt, a reset of the controller after the fourth failure.\<close>

lemma next_attempt:
  assumes s: "hd_serving s0 c drive n" "unat n < sectors_of (hd_info (hdd s0) drive)" "r_cmd (request s0 c) = READ"
    and d: "always_fails d" and h: "tally (ios s0) e h" "4 \<le> e \<longrightarrow> (\<exists>p v r. h = In p v # r)"
  shows "\<exists>t. do_hd_request d (s0\<lparr>request := (request s0)(c := (request s0 c)\<lparr>r_errors := of_nat e\<rparr>),
      hdd := (hdd s0)\<lparr>do_hd := x, hd_reset := 4 \<le> e, hd_recalibrate := rc\<rparr>, ios := h\<rparr>) = Inr t \<and>
    (4 \<le> e \<or> \<not> rc \<longrightarrow> trying s0 c e t)"
proof -
  let ?S = "s0\<lparr>request := (request s0)(c := (request s0 c)\<lparr>r_errors := of_nat e\<rparr>),
      hdd := (hdd s0)\<lparr>do_hd := x, hd_reset := 4 \<le> e, hd_recalibrate := rc\<rparr>, ios := h\<rparr>"
  let ?i = "hd_info (hdd s0) drive"
  have sv: "hd_serving ?S c drive n"
    using s(1) by (auto simp: hd_serving_def hd_minor_def init_request_def Let_def split: option.splits if_splits)
  have G: "geometry_ok ?i" "drive < 2" "CURRENT_DEV (request s0 c) = drive"
    using s(1) by (auto simp: hd_serving_def Let_def CURRENT_DEV_minor)
  have st: "dev_byte d h HD_STATUS AND 0x80 = 0" for h using d by (simp add: always_fails_def)
  show ?thesis
  proof (cases "4 \<le> e")
    case True
    let ?T = "upd_hd (\<lambda>h. h\<lparr>hd_reset := False, hd_recalibrate := True\<rparr>) ?S"
    obtain l v where l: "reset_controller d ?T = ?T\<lparr>ios := l @ Out HD_CMD v # Out HD_CMD 4 # ios ?T\<rparr>" "only_in l"
      using reset_controller_state by blast
    let ?h = "l @ Out HD_CMD v # Out HD_CMD 4 # h"
    have h': "reset_controller d ?T = ?T\<lparr>ios := ?h\<rparr>" using l(1) by (simp add: upd_hd_def)
    let ?L = "command_log ?i drive (hi_sect ?i) (hi_sect ?i) (hi_head ?i - 1) (hi_cyl ?i) WIN_SPECIFY"
    have tally: "tally (ios s0) (Suc e) (?L @ In p w # ?h) \<and> last_out (HD_DATA + 7) (?L @ In p w # ?h) = 0x91" for p w
      using h True by (auto simp: tally_def command_steps only_in_steps [OF l(2)] WIN_SPECIFY_def ports_differ)
    have "hi_head ?i - 1 < 16"
    proof -
      have "0 < unat (hi_head ?i)" "unat (hi_head ?i) \<le> 16" using G(1) by (auto simp: geometry_ok_def word_less_nat_alt word_le_nat_alt)
      then show ?thesis by (simp add: word_less_nat_alt unat_minus_one unat_gt_0)
    qed
    from hd_out_ready [where d = d and s = "?T\<lparr>ios := ?h\<rparr>", OF st G(2) this, of "hi_sect ?i" "hi_sect ?i" "hi_cyl ?i" WIN_SPECIFY recal_intr]
    have "\<exists>w. do_hd_request d ?S = Inr (s0\<lparr>request := (request s0)(c := (request s0 c)\<lparr>r_errors := of_nat e\<rparr>),
      hdd := (hdd s0)\<lparr>do_hd := Some recal_intr, hd_reset := False, hd_recalibrate := True\<rparr>,
      ios := ?L @ In HD_STATUS w # ?h\<rparr>)"
      unfolding do_hd_request_serving [OF sv] hd_command_def Let_def
      using True h' G(3) by (simp add: reset_hd_def CURRENT_DEV_def upd_hd_def Let_def update_order) blast
    then show ?thesis using True tally by (auto simp: trying_def)
  next
    case False
    show ?thesis
    proof (cases rc)
      case True
      have "(0 :: u32) < 16" by simp
      from hd_out_ready [where d = d and s = "upd_hd (\<lambda>h. h\<lparr>hd_recalibrate := False\<rparr>) ?S", OF st G(2) this,
          of "hi_sect ?i" 0 0 WIN_RESTORE recal_intr]
      show ?thesis
        unfolding do_hd_request_serving [OF sv] hd_command_def Let_def
        using False True G(3) by (simp add: CURRENT_DEV_def upd_hd_def)
    next
      case rc: False
      let ?t = "commanded d read_intr (command_log ?i drive (r_nr_sectors (request s0 c)) (n mod hi_sect ?i + 1) (n div hi_sect ?i mod hi_head ?i)
          (n div hi_sect ?i div hi_head ?i) WIN_READ) ?S"
      have "do_hd_request d ?S = Inr ?t"
        using do_hd_request_read [OF sv, of d] s(2,3) st False rc by simp
      moreover have "trying s0 c e ?t"
        unfolding trying_def using False rc h(1)
        by (intro exI [of _ "ios ?t"] exI [of _ False])
          (simp add: commanded_def update_order tally_def command_steps WIN_READ_def)
      ultimately show ?thesis by blast
    qed
  qed
qed

text \<open>An interrupt that reports the failure of the attempt.\<close>

lemma failing_interrupt:
  assumes s: "hd_serving s0 c drive n" "unat n < sectors_of (hd_info (hdd s0) drive)" "r_cmd (request s0 c) = READ"
    and d: "always_fails d" and e: "trying s0 c e s" "e < 6"
  shows "\<exists>t. hd_interrupt d s = Inr t \<and> trying s0 c (Suc e) t"
proof -
  obtain h rc where S: "s = s0\<lparr>request := (request s0)(c := (request s0 c)\<lparr>r_errors := of_nat e\<rparr>),
        hdd := (hdd s0)\<lparr>do_hd := Some (if e < 4 then read_intr else recal_intr), hd_reset := False, hd_recalibrate := rc\<rparr>,
        ios := h\<rparr>" and rc: "e < 4 \<longrightarrow> \<not> rc" and h: "tally (ios s0) (Suc e) h"
    using e(1) unfolding trying_def by blast
  have c: "current_request s0 3 = Some c" using s(1) by (simp add: hd_serving_def Let_def)
  obtain l p v where l: "win_result d (acked s) = (True, (acked s)\<lparr>ios := In p v # l @ ios (acked s)\<rparr>)" "only_in l"
    using win_result_bad [OF d] by blast
  let ?h = "In p v # l @ Out 0x20 0x20 # Out 0xA0 0x20 # h"
  have h': "win_result d (acked s) = (True, (acked s)\<lparr>ios := ?h\<rparr>)" using l(1) by (simp add: S)
  have tally: "tally (ios s0) (Suc e) ?h"
    using h by (simp add: tally_def only_in_steps [OF l(2)] HD_DATA_def HD_CMD_def)
  let ?T = "s0\<lparr>request := (request s0)(c := (request s0 c)\<lparr>r_errors := of_nat (Suc e)\<rparr>),
      hdd := (hdd s0)\<lparr>do_hd := None, hd_reset := 4 \<le> Suc e, hd_recalibrate := rc\<rparr>, ios := ?h\<rparr>"
  have num: "e = 0 \<or> e = 1 \<or> e = 2 \<or> e = 3 \<or> e = 4 \<or> e = 5" using e(2) by presburger
  have "do_hd (hdd s) = Some read_intr \<or> do_hd (hdd s) = Some recal_intr" by (simp add: S)
  then have "hd_interrupt d s = bindk (bad_rw_intr ((acked s)\<lparr>ios := ?h\<rparr>)) (do_hd_request d)"
    by (elim disjE) (simp_all add: hd_interrupt_acked h' hd_failed_def)
  also have "\<dots> = do_hd_request d ?T"
    using num c
    by (elim disjE) (simp_all add: S acked_def bad_rw_intr_def upd_hd_def upd_req_def Let_def
        HD_MAX_ERRORS_def current_errors_def update_order word_sless_alt word_sle_eq)
  finally have "hd_interrupt d s = do_hd_request d ?T" .
  moreover obtain t where "do_hd_request d ?T = Inr t" "4 \<le> Suc e \<or> \<not> rc \<longrightarrow> trying s0 c (Suc e) t"
    using next_attempt [OF s d tally, where x = None and rc = rc] by blast
  ultimately show ?thesis using rc by auto
qed

lemma failing_interrupts:
  assumes s: "hd_serving s0 c drive n" "unat n < sectors_of (hd_info (hdd s0) drive)" "r_cmd (request s0 c) = READ"
    and d: "always_fails d"
  shows "trying s0 c e s \<Longrightarrow> e + k \<le> 6 \<Longrightarrow> \<exists>t. hd_interrupts k d s = Inr t \<and> trying s0 c (e + k) t"
proof (induction k arbitrary: e s)
  case (Suc k)
  obtain t where "hd_interrupt d s = Inr t" "trying s0 c (Suc e) t"
    using failing_interrupt [OF s d Suc.prems(1)] Suc.prems(2) by auto
  then show ?case using Suc.IH [of "Suc e" t] Suc.prems(2) by auto
qed auto

lemma hd_interrupts_Suc_right: "hd_interrupts (Suc k) d s = bindk (hd_interrupts k d s) (hd_interrupt d)"
proof (induction k arbitrary: s)
  case (Suc k)
  show ?case using Suc.IH by (cases "hd_interrupt d s") simp_all
next
  case 0
  show ?case by (cases "hd_interrupt d s") simp_all
qed

lemma last_failure:
  assumes s: "current_request s0 3 = Some c" "r_next (request s0 c) = None" "r_bh (request s0 c) = Some b"
    and d: "always_fails d" and e: "trying s0 c 6 s"
  shows "\<exists>t. hd_interrupt d s = Inr t \<and> current_request t 3 = None \<and>
    bk t = upd_buf b (\<lambda>h. h\<lparr>b_uptodate := False, b_lock := False\<rparr>) (bk s0) \<and> commands (ios t) = commands (ios s)"
proof -
  obtain h rc where S: "s = s0\<lparr>request := (request s0)(c := (request s0 c)\<lparr>r_errors := 6\<rparr>),
        hdd := (hdd s0)\<lparr>do_hd := Some recal_intr, hd_reset := False, hd_recalibrate := rc\<rparr>, ios := h\<rparr>"
    using e unfolding trying_def by auto
  obtain l p v where l: "win_result d (acked s) = (True, (acked s)\<lparr>ios := In p v # l @ ios (acked s)\<rparr>)" "only_in l"
    using win_result_bad [OF d] by blast
  let ?h = "In p v # l @ ios (acked s)"
  have commands: "commands ?h = commands (ios s)" by (simp add: only_in_steps [OF l(2)] HD_DATA_def)
  let ?T = "upd_req c (\<lambda>r. r\<lparr>r_errors := 7\<rparr>) ((acked s)\<lparr>ios := ?h\<rparr>)"
  have "current_request ?T 3 = Some c" "r_next (request ?T c) = None" "r_bh (request ?T c) = Some b"
    using s by (simp_all add: S upd_req_def)
  note e3 = end_request_last [OF this, of False]
  have "hd_interrupt d s = bindk (bad_rw_intr ((acked s)\<lparr>ios := ?h\<rparr>)) (do_hd_request d)"
    using l(1) by (simp add: hd_interrupt_acked S)
  moreover have "\<exists>u. bad_rw_intr ((acked s)\<lparr>ios := ?h\<rparr>) = Inr u \<and> current_request u 3 = None \<and>
    bk u = upd_buf b (\<lambda>h. h\<lparr>b_uptodate := False, b_lock := False\<rparr>) (bk s0) \<and> ios u = ?h"
    using e3 s by (simp add: bad_rw_intr_def S acked_def upd_hd_def upd_req_def HD_MAX_ERRORS_def set_bh_def)
  ultimately show ?thesis using do_hd_request_idle commands by auto
qed

text \<open>
  C26: A read whose every interrupt reports an error is retried and given up at the seventh:
  each of the first six errors makes one more command, READ again up to the third, and from
  the fourth on a reset of the controller followed by the drive parameters; until then the
  buffer stays locked. After the seventh error the buffer is unlocked and not up to date,
  the queue is empty and no command has been added.
\<close>

theorem hd_gives_up:
  assumes s: "hd_idle s" "hd_block s b drive n" "\<not> b_lock (buffers (bk s) b)" "\<not> b_uptodate (buffers (bk s) b)"
    and d: "always_fails d"
  shows "\<exists>s1. blk_ll_rw_block (\<lambda>_. do_hd_request d) READ b s = Inr s1 \<and>
    (\<forall>k < 7. \<exists>t. hd_interrupts k d s1 = Inr t \<and> b_lock (buffers (bk t) b) \<and>
      commands (ios t) = Suc k + commands (ios s) \<and> last_out (HD_DATA + 7) (ios t) = (if k < 4 then 0x20 else 0x91) \<and>
      resets (ios t) = (k - 3) + resets (ios s)) \<and>
    (\<exists>t. hd_interrupts 7 d s1 = Inr t \<and> current_request t 3 = None \<and> commands (ios t) = 7 + commands (ios s) \<and>
      bk t = upd_buf b (\<lambda>h. h\<lparr>b_uptodate := False, b_dirt := False, b_lock := False\<rparr>) (bk s))"
proof -
  obtain c where c: "empty_request (request_limit (base_cmd READ)) s = Some c" using request_found [of s] s(1) by (auto simp: hd_idle_def)
  have I: "current_request s 3 = None" "has_driver (bk s) 3" "\<not> hd_reset (hdd s)" "\<not> hd_recalibrate (hdd s)"
    using s(1) by (simp_all add: hd_idle_def)
  have B: "MAJOR (b_dev (buffers (bk s) b)) = 3" using s(2) by (auto simp: hd_block_def Let_def)
  let ?x = "asked 3 READ b c s"
  have x: "request ?x c = block_request READ (b_dev (buffers (bk s) b)) (b_blocknr (buffers (bk s) b)) b"
    "hdd ?x = hdd s" "current_request ?x 3 = Some c" "b_lock (buffers (bk ?x) b)" "ios ?x = ios s"
    by (simp_all add: asked_def upd_req_def set_bh_def upd_buf_def)
  have r: "r_cmd (request ?x c) = READ" "r_next (request ?x c) = None" "r_bh (request ?x c) = Some b"
    by (simp_all add: x block_request_def)
  note serving = hd_serving_asked(1) [OF s(2), of READ c] hd_serving_asked(2) [OF s(2), folded x(2)]
  have x0: "?x\<lparr>request := (request ?x)(c := (request ?x c)\<lparr>r_errors := of_nat 0\<rparr>),
      hdd := (hdd ?x)\<lparr>do_hd := do_hd (hdd s), hd_reset := 4 \<le> (0 :: nat), hd_recalibrate := False\<rparr>, ios := ios ?x\<rparr> = ?x"
    using I by (cases s; cases "hdd s") (simp add: asked_def upd_req_def set_bh_def block_request_def)
  have start: "blk_ll_rw_block (\<lambda>_. do_hd_request d) READ b s = do_hd_request d ?x"
    using idle_transfer [OF B _ I(2,1) s(3) _ c] s(4) by (simp add: NR_BLK_DEV_def)
  obtain s1 where s1: "do_hd_request d ?x = Inr s1" "trying ?x c 0 s1"
    using next_attempt [OF serving r(1) d, where e = 0 and x = "do_hd (hdd s)" and rc = False and h = "ios ?x"]
    unfolding x0 by (auto simp: tally_def)
  note many = failing_interrupts [OF serving r(1) d s1(2)]
  have "\<exists>t. hd_interrupts k d s1 = Inr t \<and> b_lock (buffers (bk t) b) \<and> commands (ios t) = Suc k + commands (ios s) \<and>
      last_out (HD_DATA + 7) (ios t) = (if k < 4 then 0x20 else 0x91) \<and> resets (ios t) = (k - 3) + resets (ios s)"
    if "k < 7" for k
    using many [of k] that x(4,5) by (auto simp: trying_def tally_def)
  moreover obtain u where u: "hd_interrupts 6 d s1 = Inr u" "trying ?x c 6 u" using many [of 6] by auto
  then obtain t where t: "hd_interrupts (Suc 6) d s1 = Inr t" "current_request t 3 = None"
    "bk t = upd_buf b (\<lambda>h. h\<lparr>b_uptodate := False, b_lock := False\<rparr>) (bk ?x)" "commands (ios t) = commands (ios u)"
    using last_failure [OF x(3) r(2,3) d u(2)] by (auto simp only: hd_interrupts_Suc_right bindk_Inr)
  have "bk t = upd_buf b (\<lambda>h. h\<lparr>b_uptodate := False, b_dirt := False, b_lock := False\<rparr>) (bk s)"
    using t(3) by (cases "buffers (bk s) b") (simp add: asked_def upd_req_def set_bh_def upd_buf_def)
  moreover have "commands (ios u) = 7 + commands (ios s)" using u(2) x(5) by (auto simp: trying_def tally_def)
  ultimately show ?thesis using start s1(1) t by auto
qed

section \<open>Examples\<close>

text \<open>
  One drive of 4 heads, 17 sectors and 615 cylinders, whose first partition starts at sector 17; the
  buffer is for block 3 of the partition. The drive delivers sectors filled with their number.
\<close>

definition ex_img :: "nat \<Rightarrow> nat \<Rightarrow> block" where
  "ex_img drive sector k = of_nat sector"

definition ex_geometry :: "nat \<Rightarrow> hd_i_struct" where
  "ex_geometry n = \<lparr>hi_head = 4, hi_sect = 17, hi_cyl = 615, hi_wpcom = 300, hi_lzone = 615, hi_ctl = 8\<rparr>"

definition ex_disk :: blk where
  "ex_disk = \<lparr>bk = ex_kst\<lparr>buffers := (\<lambda>_. ex_buffer\<lparr>b_dev := 0x301, b_blocknr := 3\<rparr>), has_driver := (\<lambda>m. m = 3)\<rparr>,
     request = (\<lambda>_. \<lparr>r_dev = - 1, r_cmd = READ, r_errors = 0, r_sector = 0, r_nr_sectors = 0, r_buffer = 0, r_bh = None, r_next = None\<rparr>),
     current_request = (\<lambda>_. None), rd_start = 0, rd_length = 0, rd_mem = (\<lambda>_. 0),
     hdd = ex_hd\<lparr>hd_info := ex_geometry, NR_HD := 1, hd_part := (\<lambda>_. \<lparr>start_sect = 17, nr_sects = 1000\<rparr>)\<rparr>,
     fdd = ex_fd, ios = []\<rparr>"

definition ex_drive :: device where
  "ex_drive = \<lparr>dev_byte = (\<lambda>_ _. 0x50),
     dev_data = (\<lambda>h. ex_img (addressed_drive h) (addressed_sector (ex_geometry (addressed_drive h)) h))\<rparr>"

definition ex_broken_drive :: device where
  "ex_broken_drive = \<lparr>dev_byte = (\<lambda>_ _. 0x51), dev_data = (\<lambda>_ _. 0)\<rparr>"

lemma ex_disk_ok: "hd_idle ex_disk" "hd_block ex_disk 4 0 23" "\<not> b_lock (buffers (bk ex_disk) 4)"
  "\<not> b_uptodate (buffers (bk ex_disk) 4)" "hdd ex_disk = ex_hd\<lparr>hd_info := ex_geometry, NR_HD := 1, hd_part := (\<lambda>_. \<lparr>start_sect = 17, nr_sects = 1000\<rparr>)\<rparr>"
  by (simp_all add: hd_idle_def ex_disk_def ex_hd_def request_free_def request_limit_def NR_REQUEST_def hd_block_def MAJOR_def
      ex_buffer_def geometry_ok_def ex_geometry_def sectors_of_def) (auto intro: exI [of _ 0])

theorem hd_reads_block_witness:
  "\<exists>s1 s2 s3. blk_ll_rw_block (\<lambda>_. do_hd_request ex_drive) READ 4 ex_disk = Inr s1 \<and>
     hd_interrupt ex_drive s1 = Inr s2 \<and> hd_interrupt ex_drive s2 = Inr s3 \<and>
     b_data (buffers (bk s3) 4) 0 = 23 \<and> b_data (buffers (bk s3) 4) 1023 = 24 \<and> b_uptodate (buffers (bk s3) 4)"
proof -
  have "serves ex_drive ex_img (hd_info (hdd ex_disk))"
    by (simp add: serves_def ex_drive_def ex_disk_ok(5))
  from hd_reads_block [OF ex_disk_ok(1-4) this] show ?thesis
    by (fastforce simp: upd_buf_def ex_img_def)
qed

theorem hd_gives_up_witness:
  "\<exists>s1 t. blk_ll_rw_block (\<lambda>_. do_hd_request ex_broken_drive) READ 4 ex_disk = Inr s1 \<and>
     hd_interrupts 7 ex_broken_drive s1 = Inr t \<and> \<not> b_lock (buffers (bk t) 4) \<and> \<not> b_uptodate (buffers (bk t) 4)"
proof -
  have "always_fails ex_broken_drive" by (simp add: always_fails_def ex_broken_drive_def)
  from hd_gives_up [OF ex_disk_ok(1-4) this] show ?thesis by (auto simp: upd_buf_def)
qed

end
