(* ===== verification/Floppy_Controller.thy ===== *)
theory Floppy_Controller imports Floppy Request_Idle begin

text \<open>
  The documented behaviour of the floppy disk controller and of the DMA channel, read off the history
  of port accesses, and what the functions of the driver that talk to them achieve against it.

  A controller collects the bytes of a command; when the command is complete it moves the head or
  finds the sector, and then has the bytes of its reply to give. It keeps the step rate and the head
  times that \<open>SPECIFY\<close> gave it, the data rate last written to the control register, and the drive and the
  motors of the digital output register, where bit 2 cleared resets it. Nothing here is part of the driver:
  the theorems name \<open>fdc_ok\<close> as the hypothesis on the device.
\<close>

section \<open>The controller\<close>

record fdc =
  fc_cmd :: "u8 list"
  fc_reply :: "u8 list"
  fc_pos :: "nat \<Rightarrow> u8"
  fc_last :: u8
  fc_rw :: "u8 list"
  fc_spec :: "u8 list"
  fc_rate :: u8
  fc_dor :: u8

definition command_length :: "u8 \<Rightarrow> nat" where
  "command_length c =
     (if c = FD_SPECIFY \<or> c = FD_SEEK then 3 else if c = FD_RECALIBRATE then 2
      else if c = FD_READ \<or> c = FD_WRITE then 9 else 1)"

definition fdc_exec :: "u8 list \<Rightarrow> fdc \<Rightarrow> fdc" where
  "fdc_exec c f =
     (let drive = (c ! 1) AND 3 in
      if c ! 0 = FD_SENSEI then f\<lparr>fc_reply := [0x20 OR fc_last f, fc_pos f (unat (fc_last f))]\<rparr>
      else if c ! 0 = FD_SEEK then f\<lparr>fc_pos := (fc_pos f)(unat drive := c ! 2), fc_last := drive\<rparr>
      else if c ! 0 = FD_RECALIBRATE then f\<lparr>fc_pos := (fc_pos f)(unat drive := 0), fc_last := drive\<rparr>
      else if c ! 0 = FD_READ \<or> c ! 0 = FD_WRITE then f\<lparr>fc_rw := c, fc_reply := [c ! 1 AND 7, 0, 0, c ! 2, c ! 3, c ! 4, c ! 5]\<rparr>
      else if c ! 0 = FD_SPECIFY then f\<lparr>fc_spec := tl c\<rparr>
      else f)"

definition fdc_event :: "io_event \<Rightarrow> fdc \<Rightarrow> fdc" where
  "fdc_event e f =
     (case e of
        Out p v \<Rightarrow>
          if p = FD_DATA then
            (let c = fc_cmd f @ [v]
             in if length c = command_length (hd c) then fdc_exec c (f\<lparr>fc_cmd := []\<rparr>) else f\<lparr>fc_cmd := c\<rparr>)
          else if p = FD_DCR then f\<lparr>fc_rate := v\<rparr>
          else if p = FD_DOR then
            (if v AND 4 = 0 then f\<lparr>fc_cmd := [], fc_reply := [], fc_spec := [], fc_dor := v\<rparr> else f\<lparr>fc_dor := v\<rparr>)
          else f
      | In p v \<Rightarrow> if p = FD_DATA then f\<lparr>fc_reply := tl (fc_reply f)\<rparr> else f
      | _ \<Rightarrow> f)"

text \<open>The state of the controller after a history, the last access first.\<close>

primrec fdc_of :: "io_event list \<Rightarrow> fdc" where
  "fdc_of [] = \<lparr>fc_cmd = [], fc_reply = [], fc_pos = (\<lambda>_. 0), fc_last = 0, fc_rw = [], fc_spec = [],
     fc_rate = 0, fc_dor = 0x0C\<rparr>"
| "fdc_of (e # h) = fdc_event e (fdc_of h)"

definition ready_status :: "fdc \<Rightarrow> u8" where
  "ready_status f = (if fc_reply f \<noteq> [] then 0xD0 else if fc_cmd f = [] then 0x80 else 0x90)"

text \<open>
  The sectors a command transfers: it names the place of the first one, and the second one is the
  next on the track or, in a multi-track transfer, the first under the other head; there is no way to
  the next cylinder. The head has to be on the cylinder, the motor of the drive on and the drive selected,
  and step rate, data rate and gap have to be those of the format; the second byte of \<open>SPECIFY\<close> is 6, which
  selects the DMA channel and a head load time of 6 ms.
\<close>

definition transfers :: "floppy_struct \<Rightarrow> fdc \<Rightarrow> nat \<Rightarrow> nat \<Rightarrow> bool" where
  "transfers g f drive n \<longleftrightarrow>
     (let c = fc_rw f; C = unat (c ! 2); H = unat (c ! 3); R = unat (c ! 4); T = unat (c ! 6) in
      drive = unat (c ! 1 AND 3) \<and> unat (drop_bit 2 (c ! 1)) = H \<and>
      fc_pos f drive = push_bit (unat (fl_stretch g)) (c ! 2) \<and> C < unat (fl_track g) \<and> T = unat (fl_sect g) \<and>
      1 \<le> R \<and> R \<le> T \<and> (R < T \<and> H < 2 \<or> H = 0) \<and> c ! 5 = 2 \<and> c ! 7 = fl_gap g \<and> c ! 8 = 0xFF \<and>
      fc_spec f = [fl_spec1 g, 6] \<and> fc_rate f = fl_rate g \<and>
      fc_dor f AND 3 = of_nat drive \<and> fc_dor f AND 4 \<noteq> 0 \<and> fc_dor f AND push_bit drive 0x10 \<noteq> 0 \<and>
      n = (C * 2 + H) * T + R - 1)"

text \<open>A controller of which the drives hold disks of the format \<open>g\<close> with the contents \<open>img\<close>.\<close>

definition fdc_ok :: "device \<Rightarrow> floppy_struct \<Rightarrow> (nat \<Rightarrow> nat \<Rightarrow> block) \<Rightarrow> bool" where
  "fdc_ok d g img \<longleftrightarrow>
     (\<forall>h. dev_byte d h FD_STATUS AND 0xD0 = ready_status (fdc_of h) \<and>
        (fc_reply (fdc_of h) \<noteq> [] \<longrightarrow> dev_byte d h FD_DATA = hd (fc_reply (fdc_of h))) \<and>
        (\<forall>drive n. transfers g (fdc_of h) drive n \<longrightarrow>
           (\<forall>k < 1024. dev_data d h k = img drive (n + k div 512) (k mod 512))))"

section \<open>The DMA channel\<close>

primrec prev_out :: "u32 \<Rightarrow> io_event list \<Rightarrow> u8" where
  "prev_out p [] = 0"
| "prev_out p (e # h) = (case e of Out q v \<Rightarrow> if q = p then last_out p h else prev_out p h | _ \<Rightarrow> prev_out p h)"

text \<open>Channel 2: its address register is written low byte first, bits 16 to 19 are in the page register.\<close>

definition dma_address :: "io_event list \<Rightarrow> u32" where
  "dma_address h =
     push_bit 16 (ucast (last_out 0x81 h AND 0x0f)) OR push_bit 8 (ucast (last_out 4 h)) OR ucast (prev_out 4 h)"

definition dma_count :: "io_event list \<Rightarrow> nat" where
  "dma_count h = 256 * unat (last_out 5 h) + unat (prev_out 5 h) + 1"

text \<open>Bytes arriving in memory at address \<open>a\<close>, seen by the buffers and the area of the driver.\<close>

definition stored :: "u32 \<Rightarrow> nat \<Rightarrow> block \<Rightarrow> u32 \<Rightarrow> u8 \<Rightarrow> u8" where
  "stored a n f x old = (if unat (x - a) < n then f (unat (x - a)) else old)"

definition dma_store :: "fd_place \<Rightarrow> u32 \<Rightarrow> nat \<Rightarrow> block \<Rightarrow> blk \<Rightarrow> blk" where
  "dma_store m a n f s =
     upd_fd (\<lambda>v. v\<lparr>tmp_floppy_area := (\<lambda>i. if i < 1024 then stored a n f (tmp_addr m + of_nat i) (tmp_floppy_area v i)
                                                        else tmp_floppy_area v i)\<rparr>)
       (s\<lparr>bk := (bk s)\<lparr>buffers := (\<lambda>b. let h = buffers (bk s) b in
          if b < nr_buffers (bk s)
          then h\<lparr>b_data := (\<lambda>i. if i < 1024 then stored a n f (buffer_addr m b + of_nat i) (b_data h i) else b_data h i)\<rparr>
          else h)\<rparr>\<rparr>)"

text \<open>
  The end of a command: the DMA channel has moved the sectors of a read into memory when the
  interrupt comes.
\<close>

definition completion :: "device \<Rightarrow> fd_place \<Rightarrow> blk \<Rightarrow> blk kres" where
  "completion d m s =
     floppy_interrupt d m
       (if do_floppy (fdd s) = Some rw_interrupt \<and> fc_rw (fdc_of (ios s)) ! 0 = FD_READ \<and> last_out 11 (ios s) = DMA_READ
        then dma_store m (dma_address (ios s)) (dma_count (ios s)) (dev_data d (ios s)) s else s)"

section \<open>Commands\<close>

lemma ports [simp]:
  "FD_STATUS \<noteq> FD_DATA" "FD_DATA \<noteq> FD_STATUS" "FD_DATA \<noteq> FD_DOR" "FD_DATA \<noteq> FD_DCR" "FD_DOR \<noteq> FD_DATA" "FD_DCR \<noteq> FD_DATA"
  "FD_DATA \<noteq> 4" "FD_DATA \<noteq> 5" "FD_DATA \<noteq> 10" "FD_DATA \<noteq> 11" "FD_DATA \<noteq> 12" "FD_DATA \<noteq> 0x81" "FD_DATA \<noteq> 0x20"
  by (simp_all add: FD_STATUS_def FD_DATA_def FD_DOR_def FD_DCR_def)

lemma ports_dcr [simp]:
  "FD_DCR \<noteq> 4" "FD_DCR \<noteq> 5" "FD_DCR \<noteq> 10" "FD_DCR \<noteq> 11" "FD_DCR \<noteq> 12" "FD_DCR \<noteq> 0x81" "FD_DCR \<noteq> 0x20"
  "4 \<noteq> FD_DCR" "5 \<noteq> FD_DCR" "10 \<noteq> FD_DCR" "11 \<noteq> FD_DCR" "12 \<noteq> FD_DCR" "0x81 \<noteq> FD_DCR" "0x20 \<noteq> FD_DCR"
  by (simp_all add: FD_DCR_def)

lemma ports_dor [simp]:
  "FD_DOR \<noteq> 4" "FD_DOR \<noteq> 5" "FD_DOR \<noteq> 10" "FD_DOR \<noteq> 11" "FD_DOR \<noteq> 12" "FD_DOR \<noteq> 0x81" "FD_DOR \<noteq> 0x20" "FD_DOR \<noteq> FD_DCR"
  "4 \<noteq> FD_DOR" "5 \<noteq> FD_DOR" "10 \<noteq> FD_DOR" "11 \<noteq> FD_DOR" "12 \<noteq> FD_DOR" "0x81 \<noteq> FD_DOR" "0x20 \<noteq> FD_DOR" "FD_DCR \<noteq> FD_DOR"
  by (simp_all add: FD_DOR_def FD_DCR_def)

lemma ports_rev [simp]:
  "4 \<noteq> FD_DATA" "5 \<noteq> FD_DATA" "10 \<noteq> FD_DATA" "11 \<noteq> FD_DATA" "12 \<noteq> FD_DATA" "0x81 \<noteq> FD_DATA" "0x20 \<noteq> FD_DATA"
  using ports by metis+

text \<open>What the channel was set up for last.\<close>

definition dma_setting :: "io_event list \<Rightarrow> u32 \<times> nat \<times> u8" where
  "dma_setting h = (dma_address h, dma_count h, last_out 11 h)"

lemma dma_setting_step [simp]:
  "dma_setting (In p v # h) = dma_setting h" "dma_setting (Out FD_DATA v # h) = dma_setting h"
  "dma_setting (Out FD_DCR v # h) = dma_setting h" "dma_setting (Out 0x20 v # h) = dma_setting h"
  by (simp_all add: dma_setting_def dma_address_def dma_count_def FD_DCR_def FD_DATA_def)

lemma fdc_other [simp]:
  "p \<noteq> FD_DATA \<Longrightarrow> p \<noteq> FD_DCR \<Longrightarrow> p \<noteq> FD_DOR \<Longrightarrow> fdc_event (Out p v) f = f" "p \<noteq> FD_DATA \<Longrightarrow> fdc_event (In p v) f = f"
  "fdc_event (Out FD_DCR v) f = f\<lparr>fc_rate := v\<rparr>"
  by (simp_all add: fdc_event_def)

lemma status_masks:
  "STATUS_READY = 0x80" "STATUS_READY OR STATUS_DIR = 0xC0" "STATUS_DIR OR STATUS_READY OR STATUS_BUSY = 0xD0"
  by (simp_all add: STATUS_READY_def STATUS_DIR_def STATUS_BUSY_def)

lemma status_ready: "(v :: u8) AND 0xD0 = r \<Longrightarrow> v AND 0xC0 = r AND 0xC0"
proof -
  assume "v AND 0xD0 = r"
  then have "r AND 0xC0 = (v AND 0xD0) AND 0xC0" by simp
  then show ?thesis by (simp add: and.assoc)
qed

text \<open>A byte for a controller that has nothing to say is taken at once.\<close>

definition sent :: "device \<Rightarrow> u8 \<Rightarrow> io_event list \<Rightarrow> io_event list" where
  "sent d v h = Out FD_DATA v # In FD_STATUS (dev_byte d h FD_STATUS) # h"

lemma fdc_sent: "fdc_of (sent d v h) = fdc_event (Out FD_DATA v) (fdc_of h)" "dma_setting (sent d v h) = dma_setting h"
  by (simp_all add: sent_def)

lemma send_loop_ready:
  "v AND 0xC0 = 0x80 \<Longrightarrow> io_in d FD_STATUS s = (v, t) \<Longrightarrow>
   send_loop (Suc n) d byte s = io_out byte FD_DATA t"
  by (simp add: status_masks(2)) (simp add: status_masks(1))

lemma output_byte_ready:
  assumes d: "fdc_ok d g img" and s: "\<not> fd_reset (fdd s)" "fc_reply (fdc_of (ios s)) = []"
  shows "output_byte d v s = s\<lparr>ios := sent d v (ios s)\<rparr>"
proof -
  have st: "dev_byte d (ios s) FD_STATUS AND 0xD0 = ready_status (fdc_of (ios s))" using d by (simp add: fdc_ok_def)
  have r: "dev_byte d (ios s) FD_STATUS AND 0xC0 = 0x80"
    unfolding status_ready [OF st] using s(2) by (simp add: ready_status_def)
  have "output_byte d v s = send_loop (Suc 9999) d v s" using s(1) by (simp add: output_byte_def del: send_loop.simps)
  also have "\<dots> = io_out v FD_DATA (s\<lparr>ios := In FD_STATUS (dev_byte d (ios s) FD_STATUS) # ios s\<rparr>)"
    by (rule send_loop_ready [OF r]) (simp add: io_in_def Let_def)
  finally show ?thesis by (simp add: io_out_def sent_def)
qed

lemma fdc_collect:
  assumes "length (fc_cmd f) + 1 < command_length (hd (fc_cmd f @ [v]))"
  shows "fdc_event (Out FD_DATA v) f = f\<lparr>fc_cmd := fc_cmd f @ [v]\<rparr>"
  using assms by (simp add: fdc_event_def Let_def)

lemma fdc_complete:
  assumes "length (fc_cmd f) + 1 = command_length (hd (fc_cmd f @ [v]))"
  shows "fdc_event (Out FD_DATA v) f = fdc_exec (fc_cmd f @ [v]) (f\<lparr>fc_cmd := []\<rparr>)"
  using assms by (simp add: fdc_event_def Let_def)

lemma output_rest:
  assumes d: "fdc_ok d g img"
  shows "\<not> fd_reset (fdd s) \<Longrightarrow> fc_reply (fdc_of (ios s)) = [] \<Longrightarrow> c \<noteq> [] \<Longrightarrow>
    length (fc_cmd (fdc_of (ios s)) @ c) = command_length (hd (fc_cmd (fdc_of (ios s)) @ c)) \<Longrightarrow>
    \<exists>l. output_bytes d c s = s\<lparr>ios := l\<rparr> \<and> dma_setting l = dma_setting (ios s) \<and>
      fdc_of l = fdc_exec (fc_cmd (fdc_of (ios s)) @ c) (fdc_of (ios s)\<lparr>fc_cmd := []\<rparr>)"
proof (induction c arbitrary: s)
  case (Cons v c)
  let ?f = "fdc_of (ios s)" and ?s = "s\<lparr>ios := sent d v (ios s)\<rparr>"
  have o: "output_bytes d (v # c) s = output_bytes d c ?s"
    by (simp add: output_bytes_def output_byte_ready [OF d Cons.prems(1,2)])
  show ?case
  proof (cases "c = []")
    case True
    then have "fdc_event (Out FD_DATA v) ?f = fdc_exec (fc_cmd ?f @ [v]) (?f\<lparr>fc_cmd := []\<rparr>)"
      using Cons.prems(4) by (intro fdc_complete) simp
    then show ?thesis using True
      by (intro exI [of _ "sent d v (ios s)"]) (simp add: output_bytes_def fdc_sent output_byte_ready [OF d Cons.prems(1,2)])
  next
    case False
    have hd: "hd (fc_cmd ?f @ v # c) = hd (fc_cmd ?f @ [v])" by (cases "fc_cmd ?f") simp_all
    have "length (fc_cmd ?f) + 1 < command_length (hd (fc_cmd ?f @ [v]))"
      using Cons.prems(4) False unfolding hd by (cases c) auto
    note e = fdc_collect [OF this]
    have f: "fdc_of (ios ?s) = ?f\<lparr>fc_cmd := fc_cmd ?f @ [v]\<rparr>" by (simp add: fdc_sent e)
    have p: "\<not> fd_reset (fdd ?s)" "fc_reply (fdc_of (ios ?s)) = []" "fc_cmd (fdc_of (ios ?s)) @ c = fc_cmd ?f @ v # c"
      using Cons.prems(1,2) f by simp_all
    obtain l where "output_bytes d c ?s = ?s\<lparr>ios := l\<rparr>" "dma_setting l = dma_setting (ios ?s)"
      "fdc_of l = fdc_exec (fc_cmd ?f @ v # c) (fdc_of (ios ?s)\<lparr>fc_cmd := []\<rparr>)"
      using Cons.IH [OF p(1,2) False] Cons.prems(4) unfolding p(3) by blast
    then show ?thesis by (intro exI [of _ l]) (simp add: o fdc_sent e)
  qed
qed simp

text \<open>The controller has no command and no reply.\<close>

definition fdc_idle :: "blk \<Rightarrow> bool" where
  "fdc_idle s \<longleftrightarrow> \<not> fd_reset (fdd s) \<and> fc_cmd (fdc_of (ios s)) = [] \<and> fc_reply (fdc_of (ios s)) = []"

lemma command_given:
  assumes d: "fdc_ok d g img" and s: "fdc_idle s" and c: "c \<noteq> []" "length c = command_length (hd c)"
  shows "\<exists>l. output_bytes d c s = s\<lparr>ios := l\<rparr> \<and> dma_setting l = dma_setting (ios s) \<and> fdc_of l = fdc_exec c (fdc_of (ios s))"
proof -
  have "fdc_of (ios s)\<lparr>fc_cmd := []\<rparr> = fdc_of (ios s)" using s by (cases "fdc_of (ios s)") (simp add: fdc_idle_def)
  then show ?thesis using output_rest [OF d, of s c] s c by (simp add: fdc_idle_def)
qed

section \<open>Replies\<close>

lemma reply_end:
  "v AND 0xD0 = 0x80 \<Longrightarrow> io_in d FD_STATUS s = (v, t) \<Longrightarrow> reply_loop (Suc n) d i s = (Some i, t)"
  by (simp add: status_masks(3) Let_def) (simp add: status_masks(1))

lemma reply_byte:
  "v AND 0xD0 = 0xD0 \<Longrightarrow> i < MAX_REPLIES \<Longrightarrow> io_in d FD_STATUS s = (v, t) \<Longrightarrow> io_in d FD_DATA t = (w, u) \<Longrightarrow>
   reply_loop (Suc n) d i s = reply_loop n d (i + 1) (upd_fd (\<lambda>f. f\<lparr>reply_buffer := (reply_buffer f)(i := w)\<rparr>) u)"
  by (simp add: status_masks(3) Let_def) (simp add: status_masks(1))

text \<open>The bytes \<open>r\<close> in the reply buffer from place \<open>i\<close> on.\<close>

definition replied :: "nat \<Rightarrow> u8 list \<Rightarrow> (nat \<Rightarrow> u8) \<Rightarrow> nat \<Rightarrow> u8" where
  "replied i r f k = (if i \<le> k \<and> k < i + length r then r ! (k - i) else f k)"

lemma replied_Nil [simp]: "replied i [] f = f"
  by (auto simp: fun_eq_iff replied_def)

lemma replied_Cons [simp]: "replied (Suc i) r (f(i := w)) = replied i (w # r) f"
  by (auto simp: fun_eq_iff replied_def nth_Cons' Suc_diff_Suc)

lemma reply_loop_all:
  assumes d: "fdc_ok d g img"
  shows "fc_cmd (fdc_of (ios s)) = [] \<Longrightarrow> fc_reply (fdc_of (ios s)) = r \<Longrightarrow> i + length r \<le> MAX_REPLIES \<Longrightarrow> length r < n \<Longrightarrow>
    \<exists>l. reply_loop n d i s = (Some (i + length r),
          upd_fd (\<lambda>v. v\<lparr>reply_buffer := replied i r (reply_buffer v)\<rparr>) (s\<lparr>ios := l\<rparr>)) \<and>
      dma_setting l = dma_setting (ios s) \<and> fdc_of l = fdc_of (ios s)\<lparr>fc_reply := []\<rparr>"
proof (induction r arbitrary: i s n)
  case Nil
  obtain k where n: "n = Suc k" using Nil.prems(4) by (cases n) auto
  have st: "dev_byte d (ios s) FD_STATUS AND 0xD0 = 0x80" using d Nil.prems(1,2) by (simp add: fdc_ok_def ready_status_def)
  have "fdc_of (ios s)\<lparr>fc_reply := []\<rparr> = fdc_of (ios s)" using Nil.prems(2) by (cases "fdc_of (ios s)") simp
  moreover have "io_in d FD_STATUS s = (dev_byte d (ios s) FD_STATUS, s\<lparr>ios := In FD_STATUS (dev_byte d (ios s) FD_STATUS) # ios s\<rparr>)"
    by (simp add: io_in_def Let_def)
  note reply_end [OF st this, of k i]
  ultimately show ?case
    by (intro exI [of _ "In FD_STATUS (dev_byte d (ios s) FD_STATUS) # ios s"])
       (simp add: n upd_fd_def del: reply_loop.simps)
next
  case (Cons w r)
  obtain k where n: "n = Suc k" using Cons.prems(4) by (cases n) auto
  let ?f = "fdc_of (ios s)" and ?st = "dev_byte d (ios s) FD_STATUS"
  have st: "?st AND 0xD0 = 0xD0" using d Cons.prems(2) by (simp add: fdc_ok_def ready_status_def)
  let ?t = "s\<lparr>ios := In FD_STATUS ?st # ios s\<rparr>"
  have f: "fdc_of (ios ?t) = ?f" by simp
  have "fc_reply (fdc_of (ios ?t)) \<noteq> [] \<longrightarrow> dev_byte d (ios ?t) FD_DATA = hd (fc_reply (fdc_of (ios ?t)))"
    using d unfolding fdc_ok_def by blast
  then have w: "dev_byte d (ios ?t) FD_DATA = w" using Cons.prems(2) by (simp only: f) simp
  let ?u = "s\<lparr>ios := In FD_DATA w # In FD_STATUS ?st # ios s\<rparr>"
  let ?x = "upd_fd (\<lambda>f. f\<lparr>reply_buffer := (reply_buffer f)(i := w)\<rparr>) ?u"
  have io: "io_in d FD_STATUS s = (?st, ?t)" "io_in d FD_DATA ?t = (w, ?u)" using w by (simp_all add: io_in_def Let_def)
  have "reply_loop n d i s = reply_loop k d (i + 1) ?x"
    unfolding n by (rule reply_byte [OF st _ io]) (use Cons.prems(3) in simp)
  moreover have fx: "fdc_of (ios ?x) = ?f\<lparr>fc_reply := r\<rparr>" using Cons.prems(2) by (simp add: upd_fd_def fdc_event_def)
  then obtain l where "reply_loop k d (i + 1) ?x = (Some (i + 1 + length r),
        upd_fd (\<lambda>v. v\<lparr>reply_buffer := replied (i + 1) r (reply_buffer v)\<rparr>)
          (?x\<lparr>ios := l\<rparr>))" "dma_setting l = dma_setting (ios ?x)" "fdc_of l = fdc_of (ios ?x)\<lparr>fc_reply := []\<rparr>"
    using Cons.IH [of ?x "i + 1" k] Cons.prems n by auto
  ultimately show ?case by (intro exI [of _ l]) (simp add: upd_fd_def Cons.prems(2) fdc_event_def)
qed

lemma fd_result_reply:
  assumes d: "fdc_ok d g img" and s: "\<not> fd_reset (fdd s)" "fc_cmd (fdc_of (ios s)) = []" "length (fc_reply (fdc_of (ios s))) \<le> 7"
  defines "r \<equiv> fc_reply (fdc_of (ios s))"
  shows "\<exists>l. fd_result d s = (Some (length r),
        upd_fd (\<lambda>v. v\<lparr>reply_buffer := replied 0 r (reply_buffer v)\<rparr>) (s\<lparr>ios := l\<rparr>)) \<and>
      dma_setting l = dma_setting (ios s) \<and> fdc_of l = fdc_of (ios s)\<lparr>fc_reply := []\<rparr>"
  using reply_loop_all [OF d s(2), of r 0 10000] s(1,3) by (auto simp: fd_result_def r_def MAX_REPLIES_def)

end
