(* ===== verification/Floppy_Dma.thy ===== *)
theory Floppy_Dma imports Floppy_Controller begin

text \<open>
  The DMA channel of the floppy drives: what \<open>setup_DMA\<close> programs is the address of the buffer or, when
  the channel does not reach it, of \<open>tmp_floppy_area\<close>, and bytes stored there change no other buffer.
\<close>

section \<open>The address registers\<close>

lemma dma_bytes:
  assumes "(a :: u32) < 0x100000"
  shows "push_bit 16 (ucast ((ucast (signed_drop_bit 16 a) :: u8) AND 0x0f)) OR push_bit 8 (ucast (ucast (signed_drop_bit 8 a) :: u8)) OR ucast (ucast a :: u8) = a"
    (is "?l = a")
proof -
  have "take_bit 20 (unat a) = unat a" using assms by (simp add: take_bit_eq_mod word_less_nat_alt)
  then have t: "take_bit 20 a = a" by (simp only: word_unat_eq_iff unsigned_take_bit_eq)
  have m: "(0x0f :: u8) = mask 4" by (simp add: mask_eq_exp_minus_1)
  have z: "n < 20" if "bit a n" for n
    using that by (subst (asm) t [symmetric]) (simp add: bit_take_bit_iff)
  show ?thesis
  proof (rule bit_word_eqI)
    fix n assume "n < LENGTH(32)"
    then have "n < 32" by simp
    moreover have "n < 8 \<or> 8 \<le> n \<and> n < 16 \<or> 16 \<le> n \<and> n < 20 \<or> 20 \<le> n" by auto
    ultimately show "bit ?l n = bit a n"
      unfolding m using z [of n] z [of 31]
      by (elim disjE) (auto simp: bit_or_iff bit_and_iff bit_push_bit_iff bit_ucast_iff bit_signed_drop_bit_iff bit_mask_iff not_le)
  qed
qed

text \<open>The accesses of \<open>setup_DMA\<close>, the last one first.\<close>

definition dma_log :: "u32 \<Rightarrow> u8 \<Rightarrow> io_event list" where
  "dma_log addr mode =
     [Out 10 2, Out 5 3, Out 5 0xff, Out 0x81 (ucast (signed_drop_bit 16 addr)),
      Out 4 (ucast (signed_drop_bit 8 addr)), Out 4 (ucast addr), Out 11 mode, Out 12 mode, Out 10 6]"

lemma dma_log_effect:
  "addr < 0x100000 \<Longrightarrow> dma_setting (dma_log addr mode @ h) = (addr, 1024, mode)" "fdc_of (dma_log addr mode @ h) = fdc_of h"
  using dma_bytes [of addr]
  by (simp_all add: dma_setting_def dma_address_def dma_count_def dma_log_def)

definition dma_target :: "fd_place \<Rightarrow> nat \<times> nat \<Rightarrow> u32" where
  "dma_target m b = (if 0x100000 \<le>s place_of m b then tmp_addr m else place_of m b)"

lemma setup_DMA_log:
  assumes "current_buffer s = Inr b"
  shows "setup_DMA m s = Inr
    ((if 0x100000 \<le>s place_of m b \<and> fd_command (fdd s) = FD_WRITE then buffer_to_tmp b s else s)
       \<lparr>ios := dma_log (dma_target m b) (if fd_command (fdd s) = FD_READ then DMA_READ else DMA_WRITE) @ ios s\<rparr>)"
  using assms by (simp add: setup_DMA_def Let_def io_out_def dma_log_def dma_target_def buffer_to_tmp_def upd_fd_def)

section \<open>Places in memory\<close>

definition apart :: "u32 \<Rightarrow> u32 \<Rightarrow> bool" where
  "apart x y \<longleftrightarrow> 1024 \<le> unat (x - y) \<and> 1024 \<le> unat (y - x)"

text \<open>
  The buffers and the area of the driver do not overlap, the area is in the memory the DMA channel
  reaches, and there are at most 16 MB.
\<close>

definition places_ok :: "fd_place \<Rightarrow> nat \<Rightarrow> bool" where
  "places_ok m n \<longleftrightarrow> tmp_addr m < 0x100000 \<and>
     (\<forall>b < n. buffer_addr m b < 0x1000000 \<and> apart (tmp_addr m) (buffer_addr m b) \<and>
        (\<forall>b' < n. b \<noteq> b' \<longrightarrow> apart (buffer_addr m b) (buffer_addr m b')))"

lemma stored_here: "i < n \<Longrightarrow> n \<le> 2 ^ 32 \<Longrightarrow> stored a n f (a + of_nat i) old = f i"
  by (simp add: stored_def unat_of_nat)

lemma stored_elsewhere: "apart a x \<Longrightarrow> i < 1024 \<Longrightarrow> stored a 1024 f (x + of_nat i) old = old"
proof -
  assume x: "apart a x" and i: "i < 1024"
  have "unat (x - a) + unat (a - x) = 2 ^ 32"
    using x unat_sub_if_size [of x a] unat_sub_if_size [of a x] unsigned_less [of x] unsigned_less [of a]
    by (auto simp: apart_def word_size split: if_splits)
  then have "unat (x - a) + i < 2 ^ 32" using x i by (auto simp: apart_def)
  moreover have "x + of_nat i - a = (x - a) + of_nat i" by simp
  ultimately have "unat (x + of_nat i - a) = unat (x - a) + i" using i by (simp only:) (simp add: unat_word_ariths unat_of_nat)
  then show ?thesis using x by (simp add: stored_def apart_def)
qed

lemma apart_sym: "apart x y \<Longrightarrow> apart y x" by (simp add: apart_def)

lemma place_high: "unat (a :: u32) < 2 ^ 31 \<Longrightarrow> 0x100000 \<le>s a \<longleftrightarrow> 0x100000 \<le> a"
  by (simp add: sle_small word_le_nat_alt)

text \<open>
  A transfer to the place \<open>setup_DMA\<close> chose, after the copy the interrupt makes of the area: in both cases
  just this buffer has the bytes.
\<close>

definition into_buffer :: "nat \<Rightarrow> block \<Rightarrow> kst \<Rightarrow> kst" where
  "into_buffer b f = upd_buf b (\<lambda>h. h\<lparr>b_data := (\<lambda>i. if i < 1024 then f i else b_data h i)\<rparr>)"

lemma set_data_0: "set_data b 0 f s = s\<lparr>bk := into_buffer b f (bk s)\<rparr>"
  by (simp add: set_data_def into_buffer_def set_bh_def cong: if_cong)

lemma dma_store_low:
  assumes m: "places_ok m n" "n = nr_buffers (bk s)" "b < n"
  shows "\<exists>v. dma_store m (buffer_addr m b) 1024 f s = s\<lparr>bk := into_buffer b f (bk s), fdd := (fdd s)\<lparr>tmp_floppy_area := v\<rparr>\<rparr>"
proof -
  have b: "apart (buffer_addr m b) (buffer_addr m k)" if "k < n" "k \<noteq> b" for k using m that by (auto simp: places_ok_def)
  have "(\<lambda>k. let h = buffers (bk s) k in if k < nr_buffers (bk s)
          then h\<lparr>b_data := (\<lambda>i. if i < 1024 then stored (buffer_addr m b) 1024 f (buffer_addr m k + of_nat i) (b_data h i) else b_data h i)\<rparr>
          else h) = (buffers (bk s))(b := (buffers (bk s) b)\<lparr>b_data := (\<lambda>i. if i < 1024 then f i else b_data (buffers (bk s) b) i)\<rparr>)" (is "?l = ?r")
  proof
    fix k
    consider "k = b" | "k \<noteq> b" "k < n" | "\<not> k < n" by auto
    then show "?l k = ?r k"
    proof cases
      case 1
      then show ?thesis using m by (simp add: stored_here Let_def cong: if_cong)
    next
      case 2
      have "(\<lambda>i. if i < 1024 then stored (buffer_addr m b) 1024 f (buffer_addr m k + of_nat i) (b_data (buffers (bk s) k) i)
          else b_data (buffers (bk s) k) i) = b_data (buffers (bk s) k)"
        using stored_elsewhere [OF b [OF 2(2,1)]] by (auto simp: fun_eq_iff)
      then show ?thesis using 2 by (simp add: Let_def)
    next
      case 3
      then show ?thesis using m by auto
    qed
  qed
  then show ?thesis
    by (intro exI) (simp add: dma_store_def upd_fd_def into_buffer_def upd_buf_def)
qed

lemma dma_store_tmp:
  assumes m: "places_ok m n" "n = nr_buffers (bk s)"
  shows "\<exists>v. dma_store m (tmp_addr m) 1024 f s = s\<lparr>fdd := (fdd s)\<lparr>tmp_floppy_area := v\<rparr>\<rparr> \<and> (\<forall>i < 1024. v i = f i)"
proof -
  have b: "apart (tmp_addr m) (buffer_addr m k)" if "k < n" for k using m that by (auto simp: places_ok_def)
  have "(\<lambda>k. let h = buffers (bk s) k in if k < nr_buffers (bk s)
          then h\<lparr>b_data := (\<lambda>i. if i < 1024 then stored (tmp_addr m) 1024 f (buffer_addr m k + of_nat i) (b_data h i) else b_data h i)\<rparr>
          else h) = buffers (bk s)" (is "?l = ?r")
  proof
    fix k
    have "(\<lambda>i. if i < 1024 then stored (tmp_addr m) 1024 f (buffer_addr m k + of_nat i) (b_data (buffers (bk s) k) i)
          else b_data (buffers (bk s) k) i) = b_data (buffers (bk s) k)" if "k < n"
      using stored_elsewhere [OF b [OF that]] by (auto simp: fun_eq_iff)
    then show "?l k = ?r k" using m by (simp add: Let_def)
  qed
  then show ?thesis
    by (intro exI conjI) (simp add: dma_store_def upd_fd_def, simp add: stored_here)
qed

end
