(* ===== verification/Floppy_Types.thy ===== *)
theory Floppy_Types imports Floppy Request_Idle Example_Drives begin

text \<open>
  The variables of the floppy driver stay in their ranges, whatever the controller answers: the pointer
  \<open>floppy\<close> points into \<open>floppy_type\<close>, and drive, cylinder, head and sector are numbers that fit the
  drives. The events are requests for blocks, an interrupt, a tick of the clock, and whatever the rest of
  the kernel does to its own state.
\<close>

section \<open>Formats\<close>

definition format_ok :: "floppy_struct \<Rightarrow> bool" where
  "format_ok g \<longleftrightarrow> fl_head g = 2 \<and> 0 < unat (fl_sect g) \<and> unat (fl_sect g) \<le> 18 \<and> unat (fl_stretch g) \<le> 1 \<and>
     unat (fl_track g) * (unat (fl_stretch g) + 1) \<le> 80 \<and> unat (fl_size g) = unat (fl_track g) * 2 * unat (fl_sect g)"

lemma floppy_formats: "0 < k \<Longrightarrow> k < length floppy_type \<Longrightarrow> format_ok (floppy_type ! k)"
proof -
  assume k: "0 < k" "k < length floppy_type"
  have "k \<in> {1, 2, 3, 4, 5, 6, 7}" using k by (simp only: insert_iff empty_iff) (simp add: floppy_type_def, presburger)
  then show ?thesis by (auto simp: floppy_type_def fl_def format_ok_def)
qed

lemma unat_byte: "unat (x :: u32) < 256 \<Longrightarrow> unat (ucast x :: u8) = unat x"
  by (simp add: unsigned_ucast_eq take_bit_eq_mod)

lemma unat_mod_4: "unat (x AND 3 :: 'a :: len word) = unat x mod 4"
proof -
  have e: "x AND 3 = take_bit 2 x" by (simp add: take_bit_eq_mask mask_eq_exp_minus_1)
  show ?thesis unfolding e unsigned_take_bit_eq by (simp add: take_bit_eq_mod)
qed

section \<open>The ranges\<close>

definition fd_typed :: "fd_state \<Rightarrow> bool" where
  "fd_typed v \<longleftrightarrow> fd_floppy v < length floppy_type \<and> current_drive v < 4 \<and> fd_head v < 2 \<and> fd_track v < 80 \<and>
     seek_track v < 80 \<and> fd_sector v \<le> 18 \<and> fd_command v \<in> {0, FD_READ, FD_WRITE}"

text \<open>No sector number of a request is so large that adding 2 wraps around.\<close>

definition sectors_bounded :: "blk \<Rightarrow> bool" where
  "sectors_bounded s \<longleftrightarrow> (\<forall>i. r_sector (request s i) < 0xfffffffe)"

definition fd_good :: "blk \<Rightarrow> bool" where
  "fd_good s \<longleftrightarrow> fd_typed (fdd s) \<and> sectors_bounded s"

lemma fd_typed_update [simp]:
  "fd_typed (v\<lparr>fd_recalibrate := a\<rparr>) = fd_typed v" "fd_typed (v\<lparr>fd_reset := a\<rparr>) = fd_typed v" "fd_typed (v\<lparr>fd_seek := a\<rparr>) = fd_typed v"
  "fd_typed (v\<lparr>reply_buffer := r\<rparr>) = fd_typed v" "fd_typed (v\<lparr>cur_spec1 := x\<rparr>) = fd_typed v" "fd_typed (v\<lparr>cur_rate := x\<rparr>) = fd_typed v"
  "fd_typed (v\<lparr>current_track := c\<rparr>) = fd_typed v" "fd_typed (v\<lparr>do_floppy := h\<rparr>) = fd_typed v"
  "fd_typed (v\<lparr>tmp_floppy_area := b\<rparr>) = fd_typed v" "fd_typed (v\<lparr>wait_on_floppy_select := w\<rparr>) = fd_typed v"
  "fd_typed (v\<lparr>fd_timers := t\<rparr>) = fd_typed v"
  by (simp_all add: fd_typed_def)

lemma fd_good_update [simp]:
  "fd_good (s\<lparr>ios := l\<rparr>) = fd_good s" "fd_good (s\<lparr>bk := k\<rparr>) = fd_good s" "fd_good (s\<lparr>current_request := c\<rparr>) = fd_good s"
  "fd_good (set_bh b f s) = fd_good s" "fd_good (io_out v p s) = fd_good s" "fd_good (upd_motor g s) = fd_good s"
  "fd_good (unlock_buffer b s) = fd_good s"
  by (simp_all add: fd_good_def sectors_bounded_def set_bh_def io_out_def upd_motor_def upd_fd_def unlock_buffer_def)

lemma fd_good_upd_fd: "(fd_typed (fdd s) \<Longrightarrow> fd_typed (f (fdd s))) \<Longrightarrow> fd_good s \<Longrightarrow> fd_good (upd_fd f s)"
  by (simp add: fd_good_def upd_fd_def sectors_bounded_def)

lemma fd_good_flag [simp]:
  "fd_good (upd_fd (\<lambda>v. v\<lparr>fd_recalibrate := a\<rparr>) s) = fd_good s" "fd_good (upd_fd (\<lambda>v. v\<lparr>fd_reset := a\<rparr>) s) = fd_good s"
  "fd_good (upd_fd (\<lambda>v. v\<lparr>fd_seek := a\<rparr>) s) = fd_good s" "fd_good (upd_fd (\<lambda>v. v\<lparr>do_floppy := h\<rparr>) s) = fd_good s"
  "fd_good (upd_fd (\<lambda>v. v\<lparr>cur_spec1 := x\<rparr>) s) = fd_good s" "fd_good (upd_fd (\<lambda>v. v\<lparr>cur_rate := x\<rparr>) s) = fd_good s"
  "fd_good (upd_fd (\<lambda>v. v\<lparr>wait_on_floppy_select := w\<rparr>) s) = fd_good s"
  "fd_good (upd_fd (\<lambda>v. v\<lparr>fd_recalibrate := a, current_track := c\<rparr>) s) = fd_good s"
  "fd_good (upd_fd (\<lambda>v. v\<lparr>fd_reset := a, cur_spec1 := x, cur_rate := y, fd_recalibrate := b\<rparr>) s) = fd_good s"
  "fd_good (upd_fd (\<lambda>v. v\<lparr>current_track := reply_buffer v k\<rparr>) s) = fd_good s"
  "fd_good (upd_fd (\<lambda>f. f\<lparr>reply_buffer := (reply_buffer f)(i := r)\<rparr>) s) = fd_good s"
  by (simp_all add: fd_good_def upd_fd_def sectors_bounded_def)

lemma fd_good_req [simp]:
  "fd_good (upd_req c (\<lambda>r. r\<lparr>r_errors := r_errors r + 1\<rparr>) s) = fd_good s" "fd_good (upd_req c (\<lambda>r. r\<lparr>r_dev := - 1\<rparr>) s) = fd_good s"
  by (auto simp add: fd_good_def upd_req_def sectors_bounded_def)

section \<open>Functions that return\<close>

lemma fd_good_io_in [simp]: "io_in d p s = (v, t) \<Longrightarrow> fd_good t = fd_good s"
  by (auto simp: io_in_def Let_def)

lemma fd_good_output [simp]: "fd_good (output_byte d v s) = fd_good s"
proof -
  have "fd_good (send_loop n d v s) = fd_good s" for n s
    by (induction n arbitrary: s) (auto simp: Let_def split: prod.splits)
  then show ?thesis by (simp add: output_byte_def del: send_loop.simps)
qed

lemma fd_good_outputs [simp]: "fd_good (output_bytes d c s) = fd_good s"
proof (induction c arbitrary: s)
  case (Cons v c)
  then show ?case using Cons.IH [of "output_byte d v s"] by (simp add: output_bytes_def)
qed (simp add: output_bytes_def)

lemma fd_good_result: "fd_result d s = (r, t) \<Longrightarrow> fd_good t = fd_good s"
proof -
  have "reply_loop n d i s = (r, t) \<Longrightarrow> fd_good t = fd_good s" for n i s
    by (induction n arbitrary: i s) (auto simp: Let_def split: prod.splits if_splits)
  then show "fd_result d s = (r, t) \<Longrightarrow> fd_good t = fd_good s"
    by (auto simp: fd_result_def simp del: reply_loop.simps split: if_splits)
qed

lemma fd_good_sense: "sense d s = (r, t) \<Longrightarrow> fd_good t = fd_good s"
  by (auto simp: sense_def dest: fd_good_result)

lemma fd_good_steps [simp]:
  "fd_good (floppy_deselect s) = fd_good s" "fd_good (will_interrupt h s) = fd_good s" "fd_good (reset_floppy s) = fd_good s"
  "fd_good (buffer_to_tmp b s) = fd_good s" "fd_good (set_data b' k f s) = fd_good s"
  by (simp_all add: floppy_deselect_def Let_def will_interrupt_def reset_floppy_def buffer_to_tmp_def set_data_def)
    (simp add: fd_good_def upd_fd_def sectors_bounded_def)

section \<open>Functions that may stop\<close>

text \<open>If a state is returned it has the ranges; \<open>f\<close> keeps them.\<close>

definition good_res :: "blk kres \<Rightarrow> bool" where
  "good_res r \<longleftrightarrow> (\<forall>t. r = Inr t \<longrightarrow> fd_good t)"

definition fd_keeps :: "(blk \<Rightarrow> blk kres) \<Rightarrow> bool" where
  "fd_keeps f \<longleftrightarrow> (\<forall>s. fd_good s \<longrightarrow> good_res (f s))"

lemma good_res_simps [simp]: "good_res (Inl e)" "good_res (Inr t) = fd_good t"
  by (simp_all add: good_res_def)

lemma fd_keepsI: "(\<And>s. fd_good s \<Longrightarrow> good_res (f s)) \<Longrightarrow> fd_keeps f"
  by (simp add: fd_keeps_def)

lemma fd_keepsD: "fd_keeps f \<Longrightarrow> fd_good s \<Longrightarrow> good_res (f s)"
  by (simp add: fd_keeps_def)

lemma good_bind: "good_res r \<Longrightarrow> fd_keeps f \<Longrightarrow> good_res (bindk r f)"
  by (cases r) (simp_all add: fd_keeps_def)

lemma good_bind_value: "(\<And>x. r = Inr x \<Longrightarrow> good_res (f x)) \<Longrightarrow> good_res (bindk r f)"
  by (cases r) simp_all

lemma fd_keeps_end_request: "fd_keeps (end_request 2 ok)"
  by (rule fd_keepsI) (auto simp: end_request_def device_off_def Let_def fd_good_def sectors_bounded_def unlock_buffer_def set_bh_def upd_req_def
    split: option.splits if_splits)

lemma fd_keeps_bad_flp_intr: "fd_keeps bad_flp_intr"
  by (rule fd_keepsI) (auto simp: bad_flp_intr_def Let_def split: option.splits intro!: fd_keepsI good_bind fd_keepsD [OF fd_keeps_end_request])

lemma fd_keeps_setup_DMA: "fd_keeps (setup_DMA m)"
  by (rule fd_keepsI) (auto simp: setup_DMA_def Let_def intro!: good_bind_value)

lemma fd_keeps_retry: "fd_keeps f \<Longrightarrow> fd_keeps (retry f)"
  by (rule fd_keepsI) (auto simp: retry_def intro: fd_keepsD)

lemma fd_keeps_setup_rw: "fd_keeps f \<Longrightarrow> fd_keeps (setup_rw_floppy d m f)"
  by (rule fd_keepsI) (auto simp: setup_rw_floppy_def Let_def intro!: good_bind fd_keepsD [OF fd_keeps_setup_DMA] fd_keepsI fd_keepsD [OF fd_keeps_retry])

lemma fd_keeps_transfer: "fd_keeps f \<Longrightarrow> fd_keeps (transfer d m f)"
  by (rule fd_keepsI) (auto simp: transfer_def Let_def intro!: fd_keepsD [OF fd_keeps_setup_rw] fd_keepsD [OF fd_keeps_retry] intro: fd_keepsD)

lemma fd_keeps_recalibrate: "fd_keeps f \<Longrightarrow> fd_keeps (recalibrate_floppy d f)"
  by (rule fd_keepsI) (auto simp: recalibrate_floppy_def Let_def intro!: fd_keepsD [OF fd_keeps_retry])

lemma fd_keeps_add_timer: "fd_keeps (fd_add_timer ticks fn)"
  by (rule fd_keepsI) (auto simp: fd_add_timer_def intro!: good_bind_value)

lemma fd_keeps_floppy_on_interrupt: "fd_keeps f \<Longrightarrow> fd_keeps (floppy_on_interrupt d m f)"
  by (rule fd_keepsI) (auto simp: floppy_on_interrupt_def Let_def intro!: fd_keepsD [OF fd_keeps_add_timer] fd_keepsD [OF fd_keeps_transfer])

lemma fd_ticks_good: "fd_ticks nr s = Inr (x, t) \<Longrightarrow> fd_good t = fd_good s"
  by (auto simp: fd_ticks_def Let_def split: option.splits)

lemma fd_keeps_start_motor: "fd_keeps f \<Longrightarrow> fd_keeps (start_motor d m f)"
  by (rule fd_keepsI) (auto simp: start_motor_def dest: fd_ticks_good
    intro!: good_bind_value fd_keepsD [OF fd_keeps_floppy_on_interrupt] fd_keepsD [OF fd_keeps_add_timer])

text \<open>The numbers worked out from a request the size check lets through.\<close>

lemma locate_typed:
  assumes k: "fd_floppy v < length floppy_type" "current_drive v < 4" "fd_command v \<in> {0, FD_READ, FD_WRITE}"
    and b: "\<not> fl_size (floppy_type ! fd_floppy v) < block + 2" "block < 0xfffffffe" "fl_sect (floppy_type ! fd_floppy v) \<noteq> 0"
  shows "fd_typed (locate (floppy_type ! fd_floppy v) block v)"
proof -
  let ?g = "floppy_type ! fd_floppy v"
  let ?S = "unat (fl_sect ?g)" and ?T = "unat (fl_track ?g)" and ?N = "unat block"
  have "fd_floppy v \<noteq> 0" using b(3) by (metis (no_types) fl_def floppy_struct.select_convs(2) floppy_type_def nth_Cons_0)
  then have F: "format_ok ?g" using k(1) by (intro floppy_formats) simp_all
  then have f: "fl_head ?g = 2" "0 < ?S" "?S \<le> 18" "?T * (unat (fl_stretch ?g) + 1) \<le> 80" "unat (fl_stretch ?g) \<le> 1"
    "unat (fl_size ?g) = ?T * 2 * ?S" by (simp_all add: format_ok_def)
  have "?N + 2 < 2 ^ 32" using b(2) by (simp add: word_less_nat_alt)
  then have "?N + 2 \<le> ?T * 2 * ?S" using b(1) f(6) by (simp add: word_less_nat_alt unat_word_ariths)
  then have "?N div ?S < ?T * 2" using f(2) by (simp add: less_mult_imp_div_less)
  then have C: "?N div ?S div 2 < ?T" by (simp add: less_mult_imp_div_less)
  have T: "?T \<le> 80" using f(4) by auto
  let ?t = "ucast (block div fl_sect ?g div fl_head ?g) :: u8"
  have t: "unat ?t = ?N div ?S div 2" using C T by (simp add: f(1) unat_byte unat_div)
  have h: "unat (ucast (block div fl_sect ?g mod fl_head ?g) :: u8) = ?N div ?S mod 2" by (simp add: f(1) unat_byte unat_div unat_mod)
  have "?N mod ?S < 18" using f(2,3) mod_less_divisor [of ?S ?N] by linarith
  then have s: "unat (ucast (block mod fl_sect ?g) + 1 :: u8) = ?N mod ?S + 1" "?N mod ?S + 1 \<le> 18"
    using unat_byte [of "block mod fl_sect ?g"] by (simp_all add: unat_word_ariths unat_mod)
  have st: "unat (push_bit (unat (fl_stretch ?g)) ?t) < 80"
  proof (cases "unat (fl_stretch ?g) = 0")
    case False
    then have one: "unat (fl_stretch ?g) = 1" using f(5) by simp
    then have "unat ?t < 40" using f(4) t C by simp
    then show ?thesis by (simp add: one push_bit_eq_mult unat_word_ariths)
  qed (use t C T in simp)
  show ?thesis using k t h s st C T
    by (simp add: fd_typed_def locate_def Let_def word_less_nat_alt word_le_nat_alt)
qed

lemma FD_CURRENT_DEV_less: "FD_CURRENT_DEV r < 4"
proof -
  let ?w = "word_of_int (r_dev r) AND 3 :: u32"
  have "unat ?w < 4" by (simp add: unat_mod_4)
  then show ?thesis using unat_byte [of ?w] by (simp add: FD_CURRENT_DEV_def word_less_nat_alt)
qed

lemma init_request_cases: "init_request 2 s = Inr c \<Longrightarrow> c = None \<or> (\<exists>i. c = Some i \<and> current_request s 2 = Some i)"
  by (auto simp: init_request_def split: option.splits if_splits)

lemma fd_keeps_fd_loop: "fd_keeps f \<Longrightarrow> fd_keeps (fd_loop n d m f)"
proof (induction n)
  case (Suc n)
  note IH = Suc.IH [OF Suc.prems]
  show ?case
  proof (rule fd_keepsI)
    fix s assume s: "fd_good s"
    show "good_res (fd_loop (Suc n) d m f s)"
    proof (unfold fd_loop.simps, rule good_bind_value)
      fix c assume "init_request 2 s = Inr c"
      show "good_res (case c of None \<Rightarrow> Inr s
       | Some c \<Rightarrow>
           let r = request s c; k = unat (word_of_int (r_dev r) AND 0xff :: u32) div 4; drive = FD_CURRENT_DEV r
           in if length floppy_type \<le> k then Inl (Wild ''floppy_type'')
              else
                let s = upd_fd (\<lambda>v. v\<lparr>fd_floppy := k, fd_seek := fd_seek v \<or> current_drive v \<noteq> drive,
                                     current_drive := drive\<rparr>) s;
                    f' = floppy s; block = r_sector r
                in if fl_size f' < block + 2 then bindk (end_request 2 False s) (fd_loop n d m f)
                   else if fl_sect f' = 0 \<or> fl_head f' = 0 then Inl (Panic ''divide error'')
                   else
                     let s = upd_fd (locate f' block) s
                     in if r_cmd r = READ then start_motor d m f (upd_fd (\<lambda>v. v\<lparr>fd_command := FD_READ\<rparr>) s)
                        else if r_cmd r = WRITE then start_motor d m f (upd_fd (\<lambda>v. v\<lparr>fd_command := FD_WRITE\<rparr>) s)
                        else Inl (Panic ''do_fd_request: unknown command''))"
      proof (cases c)
        case (Some i)
        let ?r = "request s i"
        let ?k = "unat (word_of_int (r_dev ?r) AND 0xff :: u32) div 4" and ?g = "\<lambda>k. floppy_type ! k"
        let ?x = "upd_fd (\<lambda>v. v\<lparr>fd_floppy := ?k, fd_seek := fd_seek v \<or> current_drive v \<noteq> FD_CURRENT_DEV ?r,
                                     current_drive := FD_CURRENT_DEV ?r\<rparr>) s"
        have x: "fd_good ?x" "floppy ?x = ?g ?k" if "?k < length floppy_type"
          using s that FD_CURRENT_DEV_less [of ?r] by (auto simp: fd_good_def upd_fd_def sectors_bounded_def fd_typed_def floppy_def)
        have sec: "r_sector ?r < 0xfffffffe" using s by (simp add: fd_good_def sectors_bounded_def)
        have y: "fd_good (upd_fd (locate (?g ?k) (r_sector ?r)) ?x)"
          if "?k < length floppy_type" "\<not> fl_size (?g ?k) < r_sector ?r + 2" "fl_sect (?g ?k) \<noteq> 0"
        proof -
          have v: "fd_floppy (fdd ?x) = ?k" "current_drive (fdd ?x) < 4" "fd_command (fdd ?x) \<in> {0, FD_READ, FD_WRITE}"
            using x(1) [OF that(1)] by (auto simp: fd_good_def fd_typed_def) (auto simp: upd_fd_def)
          have "fd_typed (locate (?g ?k) (r_sector ?r) (fdd ?x))"
            using locate_typed [of "fdd ?x" "r_sector ?r"] that v sec by simp
          then show ?thesis using s by (simp add: fd_good_def upd_fd_def sectors_bounded_def)
        qed
        have cmd: "fd_good (upd_fd (\<lambda>v. v\<lparr>fd_command := a\<rparr>) z)" if "fd_good z" "a \<in> {FD_READ, FD_WRITE}" for z a
          using that by (auto simp: fd_good_def upd_fd_def sectors_bounded_def fd_typed_def)
        show ?thesis
          using x y by (auto simp: Some Let_def not_le intro!: good_bind fd_keepsD [OF fd_keeps_end_request] IH
            fd_keepsD [OF fd_keeps_start_motor [OF Suc.prems]] cmd)
      qed (use s in simp)
    qed
  qed
qed (simp add: fd_keepsI)

lemma fd_keeps_fd_request: "fd_keeps (fd_request n d m)"
proof (induction n)
  case (Suc n)
  show ?case by (rule fd_keepsI)
    (auto simp: fd_body_def Let_def simp del: fd_loop.simps intro!: fd_keepsD [OF fd_keeps_recalibrate [OF Suc]] fd_keepsD [OF fd_keeps_fd_loop [OF Suc]])
qed (simp add: fd_keepsI)

lemma fd_keeps_do_fd_request: "fd_keeps (do_fd_request d m)"
  by (simp add: do_fd_request_def fd_keeps_fd_request del: fd_request.simps)

lemmas redo = fd_keepsD [OF fd_keeps_do_fd_request]

lemma good_current: "(\<And>b. good_res (f b)) \<Longrightarrow> good_res (bindk (current_buffer s) f)"
  by (rule good_bind_value)

lemma fd_keeps_handler: "fd_keeps (fd_handler d m h)"
proof (rule fd_keepsI)
  fix s assume s: "fd_good s"
  show "good_res (fd_handler d m h s)"
  proof (cases h)
    case rw_interrupt
    obtain n t where t: "fd_result d s = (n, t)" by fastforce
    then have "fd_good t" using s fd_good_result by simp
    then show ?thesis
      by (auto simp: rw_interrupt do_rw_interrupt_def t intro!: good_bind good_current fd_keeps_do_fd_request
        fd_keepsD [OF fd_keeps_end_request] fd_keepsD [OF fd_keeps_bad_flp_intr] fd_keepsI redo)
  next
    case seek_interrupt
    obtain n t where t: "sense d s = (n, t)" by fastforce
    then have "fd_good t" using s fd_good_sense by simp
    then show ?thesis
      by (auto simp: seek_interrupt do_seek_interrupt_def t intro!: good_bind fd_keeps_do_fd_request
        fd_keepsD [OF fd_keeps_bad_flp_intr] fd_keepsD [OF fd_keeps_setup_rw])
  next
    case recal_interrupt
    obtain n t where t: "sense d s = (n, t)" by fastforce
    then have "fd_good t" using s fd_good_sense by simp
    then show ?thesis by (auto simp: recal_interrupt do_recal_interrupt_def t intro!: redo)
  next
    case reset_interrupt
    obtain n t where t: "sense d s = (n, t)" by fastforce
    then have "fd_good t" using s fd_good_sense by simp
    then show ?thesis by (auto simp: reset_interrupt do_reset_interrupt_def t intro!: redo)
  qed
qed

lemma fd_keeps_interrupt: "fd_keeps (floppy_interrupt d m)"
  by (rule fd_keepsI)
    (auto simp: floppy_interrupt_def Let_def unexpected_floppy_interrupt_def split: option.splits prod.splits
      intro!: fd_keepsD [OF fd_keeps_handler] dest: fd_good_sense)

lemma fd_keeps_timer_call: "fd_keeps (fd_timer_call d m fn)"
  by (rule fd_keepsI) (auto simp: fd_timer_call_def intro!: fd_keepsD [OF fd_keeps_floppy_on_interrupt] fd_keepsD [OF fd_keeps_transfer] fd_keeps_do_fd_request)

lemma fd_keeps_fd_expire: "fd_keeps (fd_expire n d m)"
proof (induction n)
  case (Suc n)
  show ?case by (rule fd_keepsI) (auto simp: Let_def split: option.splits intro!: good_bind Suc fd_keepsD [OF fd_keeps_timer_call])
qed (simp add: fd_keepsI)

lemma fd_keeps_clock: "fd_keeps (fd_clock n d m)"
  by (rule fd_keepsI) (auto simp: fd_clock_def split: option.splits intro!: fd_keepsD [OF fd_keeps_fd_expire])

section \<open>All events\<close>

text \<open>
  A request is added to the queue by \<open>ll_rw_block\<close>, which starts the driver when the queue was empty; the
  drivers of the other devices do not touch the variables of this one. The rest of the kernel has any
  state \<open>k\<close> then. A request that has to wait for a buffer or a free entry is made again by a later event.
\<close>

datatype fd_event = Request | Ask rw_cmd nat kst | Other kst | Interrupt | Tick nat

definition fd_ask :: "device \<Rightarrow> fd_place \<Rightarrow> rw_cmd \<Rightarrow> nat \<Rightarrow> blk \<Rightarrow> blk kres" where
  "fd_ask d m rw b s =
     (let r = blk_ll_rw_block (\<lambda>dev. if dev = 2 then do_fd_request d m else Inr) rw b s
      in if r = Inl Sleep then Inr s else r)"

primrec fd_step :: "device \<Rightarrow> fd_place \<Rightarrow> fd_event \<Rightarrow> blk \<Rightarrow> blk kres" where
  "fd_step d m Request = do_fd_request d m"
| "fd_step d m (Ask rw b k) = (\<lambda>s. fd_ask d m rw b (s\<lparr>bk := k\<rparr>))"
| "fd_step d m (Other k) = (\<lambda>s. Inr (s\<lparr>bk := k\<rparr>))"
| "fd_step d m Interrupt = floppy_interrupt d m"
| "fd_step d m (Tick n) = fd_clock n d m"

primrec fd_run :: "device \<Rightarrow> fd_place \<Rightarrow> fd_event list \<Rightarrow> blk \<Rightarrow> blk kres" where
  "fd_run d m [] s = Inr s"
| "fd_run d m (e # es) s = bindk (fd_step d m e s) (fd_run d m es)"

text \<open>No block asked for has a number whose sectors end where 32 bits end.\<close>

definition asks_bounded :: "fd_event list \<Rightarrow> bool" where
  "asks_bounded es \<longleftrightarrow> (\<forall>rw b k. Ask rw b k \<in> set es \<longrightarrow> b_blocknr (buffers k b) < 0x7fffffff)"

lemma sector_bound: "(n :: u32) < 0x7fffffff \<Longrightarrow> push_bit 1 n < 0xfffffffe"
  by (simp add: word_less_nat_alt push_bit_eq_mult unat_word_ariths)

lemma fd_good_next [simp]: "fd_good (upd_req c (\<lambda>r. r\<lparr>r_next := x\<rparr>) s) = fd_good s"
  by (auto simp add: fd_good_def upd_req_def sectors_bounded_def)

lemma fd_good_new: "fd_good s \<Longrightarrow> r_sector r < 0xfffffffe \<Longrightarrow> fd_good (upd_req c (\<lambda>_. r) s)"
  by (auto simp add: fd_good_def upd_req_def sectors_bounded_def)

lemma good_add_request:
  assumes "\<And>dev. fd_keeps (start dev)" "fd_good s"
  shows "good_res (add_request start dev req s)"
  using assms(2)
  by (auto simp: add_request_def Let_def split: option.splits intro!: good_bind_value fd_keepsD [OF assms(1)])

lemma good_ask:
  assumes "fd_good s" "b_blocknr (buffers (bk s) b) < 0x7fffffff"
  shows "good_res (fd_ask d m rw b s)"
proof -
  let ?start = "\<lambda>dev :: nat. if dev = 2 then do_fd_request d m else Inr"
  have start: "fd_keeps (?start dev)" for dev using fd_keeps_do_fd_request by (simp add: fd_keepsI)
  have sec: "push_bit 1 (b_blocknr (buffers (bk s) b)) < 0xfffffffe" by (rule sector_bound [OF assms(2)])
  have "good_res (make_request ?start major rw b s)" for major
  proof (cases "lock_buffer b s")
    case (Inl e)
    then show ?thesis using assms(1) by (simp add: make_request_def Let_def)
  next
    case (Inr u)
    then have u: "fd_good u" using assms(1) by (auto simp: lock_buffer_def sleep_on_def split: if_splits)
    note new = good_add_request [where start = ?start, OF start fd_good_new [OF u]]
    show ?thesis
      using assms(1) u sec unfolding make_request_def Let_def Inr bindk_Inr
      by (auto simp: sleep_on_def split: option.splits intro!: new simp del: One_nat_def push_bit_of_1 push_bit_Suc)
  qed
  then have "good_res (blk_ll_rw_block ?start rw b s)" using assms(1) by (simp add: blk_ll_rw_block_def Let_def)
  then show ?thesis using assms(1) by (simp add: fd_ask_def Let_def)
qed

text \<open>
  C22: Whatever the controller answers and in whatever order new requests for buffers of
  drives and disks of any type, requests of other drivers for the table, interrupts and
  clock ticks come, as long as the run does not end in a stop of the model the variables of
  the floppy driver stay in their types: the pointer floppy points into floppy_type, and
  drive, cylinder, head, sector and command are values the drives have. Assumed: requests in
  the table have sectors below 0xfffffffe and the block numbers asked for are below
  0x7fffffff, since block + 2 wraps beyond, which neither zone numbers of 16 bits nor
  positions of 31 bits reach; a minor number of 32 or more, for which floppy points behind
  the table, stops the model.
\<close>

theorem floppy_stays_typed:
  assumes "fd_typed (fdd s)" "sectors_bounded s" "asks_bounded es" "fd_run d m es s = Inr t"
  shows "fd_typed (fdd t)"
proof -
  have step: "fd_good u \<Longrightarrow> good_res (fd_step d m e u)" if "asks_bounded (e # r)" for e r u
    using that good_ask [of "u\<lparr>bk := _\<rparr>"]
    by (cases e) (auto simp: asks_bounded_def intro: redo fd_keepsD [OF fd_keeps_interrupt] fd_keepsD [OF fd_keeps_clock])
  have "asks_bounded es \<Longrightarrow> fd_keeps (fd_run d m es)"
  proof (induction es)
    case (Cons e es)
    have es: "asks_bounded es" using Cons.prems by (auto simp: asks_bounded_def)
    show ?case by (rule fd_keepsI, unfold fd_run.simps, rule good_bind [OF step [OF Cons.prems] Cons.IH [OF es]])
  qed (simp add: fd_keepsI)
  then have "good_res (fd_run d m es s)" by (rule fd_keepsD [OF _ iffD2 [OF fd_good_def]]) (simp_all add: assms(1-3))
  then show ?thesis by (simp add: assms(4) fd_good_def)
qed

section \<open>Example\<close>

definition ex_silent :: device where
  "ex_silent = \<lparr>dev_byte = (\<lambda>_ _. 0), dev_data = (\<lambda>_ _. 0)\<rparr>"

definition ex_fd_queue :: blk where
  "ex_fd_queue = \<lparr>bk = ex_kst, request = (\<lambda>_. \<lparr>r_dev = 0x21e, r_cmd = WRITE, r_errors = 0, r_sector = 100, r_nr_sectors = 2, r_buffer = 0,
       r_bh = None, r_next = None\<rparr>),
     current_request = (\<lambda>m. if m = 2 then Some 0 else None), rd_start = 0, rd_length = 0, rd_mem = (\<lambda>_. 0), hdd = ex_hd, fdd = ex_fd, ios = []\<rparr>"

text \<open>The request for drive 2 of type 7 starts the motor and leaves the numbers of its first sector.\<close>

lemma ex_fd_started:
  "\<exists>t. fd_run ex_silent \<lparr>buffer_addr = (\<lambda>_. 0), tmp_addr = 0\<rparr> [Request] ex_fd_queue = Inr t \<and> fd_floppy (fdd t) = 7 \<and>
     current_drive (fdd t) = 2 \<and> fd_track (fdd t) = 2 \<and> fd_head (fdd t) = 1 \<and> fd_sector (fdd t) = 11 \<and> next_timer (motor t) = Some 0"
proof -
  have first: "free_timer TIME_REQUESTS 0 t = Some 0" if "tm_fn (timer_list t 0) = None" for t
    using that by (simp add: TIME_REQUESTS_def numeral_eq_Suc)
  have alone: "sift_timer n p t = t" if "tm_next (timer_list t p) = None" for n p t using that by (cases n) simp_all
  show ?thesis
    by (simp add: do_fd_request_unfold fd_body_def ex_fd_queue_def ex_fd_def ex_timers_def upd_fd_def init_request_def FD_CURRENT_DEV_def
        floppy_type_def fl_def floppy_def locate_def Let_def start_motor_def fd_ticks_def ticks_to_floppy_on_def HZ_def upd_motor_def
        io_out_def fd_add_timer_def add_timer_def first alone upd_timer_def word_sle_eq)
qed

theorem floppy_stays_typed_witness:
  "\<exists>t. fd_run ex_silent \<lparr>buffer_addr = (\<lambda>_. 0), tmp_addr = 0\<rparr> [Request, Ask READ 5 ex_kst, Other ex_kst] ex_fd_queue = Inr t \<and>
     fd_typed (fdd t) \<and> current_drive (fdd t) = 2"
proof -
  let ?m = "\<lparr>buffer_addr = (\<lambda>_. 0), tmp_addr = 0\<rparr>"
  obtain t where t: "fd_run ex_silent ?m [Request] ex_fd_queue = Inr t" "current_drive (fdd t) = 2"
    using ex_fd_started by blast
  have e: "do_fd_request ex_silent ?m ex_fd_queue = Inr t" using t(1) by (cases "do_fd_request ex_silent ?m ex_fd_queue") simp_all
  have run: "fd_run ex_silent ?m [Request, Ask READ 5 ex_kst, Other ex_kst] ex_fd_queue = Inr (t\<lparr>bk := ex_kst\<rparr>)"
    by (simp add: e fd_ask_def blk_ll_rw_block_def)
  have "fd_typed (fdd ex_fd_queue)" "sectors_bounded ex_fd_queue"
    by (simp_all add: ex_fd_queue_def ex_fd_def fd_typed_def floppy_type_def sectors_bounded_def)
  moreover have "asks_bounded [Request, Ask READ 5 ex_kst, Other ex_kst]" by (simp add: asks_bounded_def ex_buffer_def)
  ultimately show ?thesis using floppy_stays_typed [OF _ _ _ run] run t(2) by auto
qed

end
