(* ===== verification/Floppy_Lemmas.thy ===== *)
theory Floppy_Lemmas imports Floppy_Dma Floppy_Types begin

text \<open>
  The floppy driver against the documented behaviour of the controller: a block read through the request
  queue, the motor being on, is the block of the disk, whichever commands the driver needs
  before the transfer.
\<close>

section \<open>Blocks on a disk\<close>

text \<open>
  The cylinder, head and sector of a block. Both sectors of a block are on one cylinder, since a cylinder
  has an even number of sectors.
\<close>

lemma block_on_cylinder:
  assumes "even N" "N + 2 \<le> T * 2 * S" "0 < (S :: nat)"
  defines "C \<equiv> N div S div 2" and "H \<equiv> N div S mod 2" and "R \<equiv> N mod S + 1"
  shows "C < T" "1 \<le> R" "R \<le> S" "R < S \<and> H < 2 \<or> H = 0" "(C * 2 + H) * S + R - 1 = N"
proof -
  have "N div S < T * 2" using assms(2,3) by (simp add: less_mult_imp_div_less)
  then show "C < T" by (simp add: C_def less_mult_imp_div_less)
  show "1 \<le> R" "R \<le> S" using assms(3) by (simp_all add: R_def Suc_leI)
  have N: "(C * 2 + H) * S + (R - 1) = N" by (simp add: C_def H_def R_def)
  then show "(C * 2 + H) * S + R - 1 = N" by (simp add: R_def)
  have False if "R = S" "H = 1"
  proof -
    have "N + 1 = (C * 2 + 2) * S" using N that assms(3) by (simp add: algebra_simps)
    then have "even (N + 1)" by simp
    then show False using assms(1) by simp
  qed
  moreover have "H < 2" by (simp add: H_def)
  ultimately show "R < S \<and> H < 2 \<or> H = 0" using \<open>R \<le> S\<close> by (cases "R = S"; cases "H = 0") auto
qed

section \<open>What the driver has worked out for a request\<close>

text \<open>Sectors \<open>n\<close> and \<open>n + 1\<close> of drive \<open>drive\<close>, a disk of type \<open>k\<close>.\<close>

definition job :: "nat \<Rightarrow> nat \<Rightarrow> u32 \<Rightarrow> fd_state \<Rightarrow> bool" where
  "job k drive n v \<longleftrightarrow>
     (let g = floppy_type ! k in
      0 < k \<and> k < length floppy_type \<and> drive < 4 \<and> even (unat n) \<and> unat n + 2 \<le> unat (fl_size g) \<and>
      fd_floppy v = k \<and> current_drive v = of_nat drive \<and> fd_sector v = ucast (n mod fl_sect g) + 1 \<and>
      fd_head v = ucast (n div fl_sect g mod fl_head g) \<and> fd_track v = ucast (n div fl_sect g div fl_head g) \<and>
      seek_track v = push_bit (unat (fl_stretch g)) (fd_track v) \<and> fd_command v = FD_READ \<and>
      \<not> fd_recalibrate v \<and> wait_on_floppy_select v = None)"

lemma job_place:
  assumes "job k drive n v"
  defines "S \<equiv> unat (fl_sect (floppy_type ! k))"
  shows "unat (fd_track v) = unat n div S div 2" "unat (fd_head v) = unat n div S mod 2" "unat (fd_sector v) = unat n mod S + 1"
    "unat (fd_track v) < unat (fl_track (floppy_type ! k))" "unat (fd_sector v) \<le> S"
    "unat (fd_sector v) < S \<and> unat (fd_head v) < 2 \<or> unat (fd_head v) = 0"
    "(unat (fd_track v) * 2 + unat (fd_head v)) * S + unat (fd_sector v) - 1 = unat n" "seek_track v \<noteq> 255" "fd_head v < 2"
proof -
  let ?g = "floppy_type ! k"
  have J: "0 < k" "k < length floppy_type" "even (unat n)" "unat n + 2 \<le> unat (fl_size ?g)"
    "fd_sector v = ucast (n mod fl_sect ?g) + 1" "fd_head v = ucast (n div fl_sect ?g mod fl_head ?g)"
    "fd_track v = ucast (n div fl_sect ?g div fl_head ?g)" "seek_track v = push_bit (unat (fl_stretch ?g)) (fd_track v)"
    using assms(1) by (auto simp: job_def Let_def)
  have F: "fl_head ?g = 2" "0 < S" "S \<le> 18" "unat (fl_stretch ?g) \<le> 1" "unat (fl_track ?g) * (unat (fl_stretch ?g) + 1) \<le> 80"
    "unat (fl_size ?g) = unat (fl_track ?g) * 2 * S"
    using floppy_formats [OF J(1,2)] by (auto simp: format_ok_def S_def)
  have T: "unat (fl_track ?g) \<le> 80" using F(5) by (cases "unat (fl_stretch ?g)") auto
  note B = block_on_cylinder [OF J(3) J(4) [unfolded F(6)] F(2)]
  have s: "unat (n mod fl_sect ?g) = unat n mod S" by (simp add: unat_mod S_def)
  have "unat n mod S < 18" using F(2,3) mod_less_divisor [of S "unat n"] by linarith
  then show sec: "unat (fd_sector v) = unat n mod S + 1"
    using unat_byte [of "n mod fl_sect ?g"] s by (simp add: J(5) unat_word_ariths)
  show trk: "unat (fd_track v) = unat n div S div 2"
    using B(1) T by (simp add: J(7) F(1) unat_byte unat_div flip: S_def)
  show head: "unat (fd_head v) = unat n div S mod 2"
    by (simp add: J(6) F(1) unat_byte unat_div unat_mod flip: S_def)
  then show "fd_head v < 2" by (simp add: word_less_nat_alt)
  show t: "unat (fd_track v) < unat (fl_track ?g)" "unat (fd_sector v) \<le> S"
    "unat (fd_sector v) < S \<and> unat (fd_head v) < 2 \<or> unat (fd_head v) = 0"
    "(unat (fd_track v) * 2 + unat (fd_head v)) * S + unat (fd_sector v) - 1 = unat n"
    using B sec trk head by simp_all
  have "unat (fl_stretch ?g) = 0 \<or> unat (fl_stretch ?g) = 1" using F(4) by auto
  then have "unat (seek_track v) \<le> 160"
    using t(1) T by (auto simp: J(8) push_bit_eq_mult unat_word_ariths)
  then show "seek_track v \<noteq> 255" by auto
qed

lemma drive_byte:
  assumes "drive < 4" "(h :: u8) < 2"
  shows "(push_bit 2 h OR of_nat drive) AND 3 = (of_nat drive :: u8)" "unat (of_nat drive :: u8) = drive"
    "unat (drop_bit 2 (push_bit 2 h OR of_nat drive)) = unat h" "((push_bit 2 h OR of_nat drive) AND 7) AND 0xf8 = (0 :: u8)"
    "(0x20 OR of_nat drive) AND 0xF8 = (0x20 :: u8)" "(of_nat drive :: u8) AND 3 = of_nat drive"
proof -
  have "unat h = 0 \<or> unat h = 1" using assms(2) by (auto simp: word_less_nat_alt)
  then have h: "h = 0 \<or> h = 1" by (auto simp: word_unat_eq_iff)
  have d: "drive = 0 \<or> drive = 1 \<or> drive = 2 \<or> drive = 3" using assms(1) by auto
  show "(push_bit 2 h OR of_nat drive) AND 3 = (of_nat drive :: u8)" "unat (of_nat drive :: u8) = drive"
    "unat (drop_bit 2 (push_bit 2 h OR of_nat drive)) = unat h" "((push_bit 2 h OR of_nat drive) AND 7) AND 0xf8 = (0 :: u8)"
    "(0x20 OR of_nat drive) AND 0xF8 = (0x20 :: u8)" "(of_nat drive :: u8) AND 3 = of_nat drive"
    using h d by auto
qed

section \<open>The stages of a read\<close>

text \<open>The motor of the drive runs at speed and the drive is the one selected.\<close>

definition motor_on :: "nat \<Rightarrow> timers \<Rightarrow> bool" where
  "motor_on drive t \<longleftrightarrow>
     push_bit drive 0x10 OR current_DOR t = current_DOR t \<and> current_DOR t AND 3 = of_nat drive \<and> current_DOR t AND 4 \<noteq> 0 \<and>
     mon_timer t drive = 0"

lemma motor_bit:
  assumes "push_bit drive 0x10 OR m = (m :: u8)" "drive < 4"
  shows "m AND push_bit drive 0x10 \<noteq> 0"
proof -
  have "(push_bit drive 0x10 OR m) AND push_bit drive 0x10 = push_bit drive 0x10"
    by (rule bit_word_eqI) (auto simp: bit_and_iff bit_or_iff)
  then have "m AND push_bit drive 0x10 = push_bit drive 0x10" unfolding assms(1) .
  moreover have "drive = 0 \<or> drive = 1 \<or> drive = 2 \<or> drive = 3" using assms(2) by auto
  then have "push_bit drive (0x10 :: u8) \<noteq> 0" by auto
  ultimately show ?thesis by simp
qed

text \<open>Driver and controller have the step rate and the data rate of a disk of type \<open>k\<close>.\<close>

definition rates :: "nat \<Rightarrow> fd_state \<Rightarrow> fdc \<Rightarrow> bool" where
  "rates k v f \<longleftrightarrow>
     (let g = floppy_type ! k in
      cur_spec1 v = ucast (fl_spec1 g) \<and> cur_rate v = ucast (fl_rate g) \<and> fc_spec f = [fl_spec1 g, 6] \<and> fc_rate f = fl_rate g)"

text \<open>What the driver believes about the rates is so; -1 is what it knows after a reset, nothing.\<close>

definition rates_known :: "fd_state \<Rightarrow> fdc \<Rightarrow> bool" where
  "rates_known v f \<longleftrightarrow>
     (cur_spec1 v = - 1 \<or> (\<exists>x. cur_spec1 v = ucast x \<and> fc_spec f = [x, 6])) \<and> (cur_rate v = - 1 \<or> cur_rate v = ucast (fc_rate f))"

lemma rates_rates_known: "rates k v f \<Longrightarrow> rates_known v f"
  by (auto simp: rates_def rates_known_def Let_def)

lemma rates_update [simp]:
  "rates k (v\<lparr>do_floppy := h\<rparr>) f = rates k v f" "rates k (v\<lparr>reply_buffer := r\<rparr>) f = rates k v f"
  "rates k (v\<lparr>current_track := c\<rparr>) f = rates k v f" "rates k (v\<lparr>fd_timers := t\<rparr>) f = rates k v f"
  "rates k (v\<lparr>tmp_floppy_area := a\<rparr>) f = rates k v f" "rates k (v\<lparr>fd_seek := x\<rparr>) f = rates k v f"
  "rates k (v\<lparr>wait_on_floppy_select := w\<rparr>) f = rates k v f"
  "rates k v (f\<lparr>fc_pos := q\<rparr>) = rates k v f" "rates k v (f\<lparr>fc_last := z\<rparr>) = rates k v f"
  "rates k v (f\<lparr>fc_rw := u\<rparr>) = rates k v f" "rates k v (f\<lparr>fc_reply := u\<rparr>) = rates k v f"
  by (simp_all add: rates_def Let_def)

definition only_driver :: "blk \<Rightarrow> blk \<Rightarrow> bool" where
  "only_driver s t \<longleftrightarrow> t = s\<lparr>fdd := fdd t, ios := ios t\<rparr>"

lemma fdd_ios: "(t :: blk)\<lparr>ios := l, fdd := v\<rparr> = t\<lparr>fdd := v, ios := l\<rparr>" by simp

lemma only_driver_update [simp]:
  "only_driver s (t\<lparr>fdd := v\<rparr>) = only_driver s t" "only_driver s (t\<lparr>ios := l\<rparr>) = only_driver s t"
  by (cases s; cases t; simp add: only_driver_def)+

definition stage :: "blk \<Rightarrow> nat \<Rightarrow> nat \<Rightarrow> u32 \<Rightarrow> blk \<Rightarrow> bool" where
  "stage s k drive n t \<longleftrightarrow> only_driver s t \<and> job k drive n (fdd t) \<and> motor_on drive (motor t) \<and> \<not> fd_reset (fdd t) \<and>
     fc_dor (fdc_of (ios t)) = current_DOR (motor t)"

definition seeking :: "blk \<Rightarrow> nat \<Rightarrow> nat \<Rightarrow> u32 \<Rightarrow> blk \<Rightarrow> bool" where
  "seeking s k drive n t \<longleftrightarrow> stage s k drive n t \<and> do_floppy (fdd t) = Some seek_interrupt \<and> fdc_idle t \<and>
     fc_last (fdc_of (ios t)) = of_nat drive \<and> fc_pos (fdc_of (ios t)) drive = seek_track (fdd t) \<and>
     rates k (fdd t) (fdc_of (ios t))"

definition read_command :: "fd_state \<Rightarrow> u8 list" where
  "read_command v =
     [FD_READ, push_bit 2 (fd_head v) OR current_drive v, fd_track v, fd_head v, fd_sector v, 2,
      ucast (fl_sect (floppy_type ! fd_floppy v)), fl_gap (floppy_type ! fd_floppy v), 0xFF]"

definition reading :: "blk \<Rightarrow> nat \<Rightarrow> nat \<Rightarrow> u32 \<Rightarrow> fd_place \<Rightarrow> nat \<Rightarrow> blk \<Rightarrow> bool" where
  "reading s k drive n m b t \<longleftrightarrow> stage s k drive n t \<and> do_floppy (fdd t) = Some rw_interrupt \<and>
     fc_cmd (fdc_of (ios t)) = [] \<and> fc_rw (fdc_of (ios t)) = read_command (fdd t) \<and>
     (let c = read_command (fdd t) in fc_reply (fdc_of (ios t)) = [c ! 1 AND 7, 0, 0, c ! 2, c ! 3, c ! 4, c ! 5]) \<and>
     current_track (fdd t) = seek_track (fdd t) \<and> fc_pos (fdc_of (ios t)) drive = seek_track (fdd t) \<and>
     rates k (fdd t) (fdc_of (ios t)) \<and> dma_setting (ios t) = (dma_target m (b, 0), 1024, DMA_READ)"

lemma command_lengths [simp]:
  "command_length FD_SPECIFY = 3" "command_length FD_SEEK = 3" "command_length FD_RECALIBRATE = 2" "command_length FD_READ = 9"
  "command_length FD_SENSEI = 1"
  by (simp_all add: command_length_def FD_SPECIFY_def FD_SEEK_def FD_RECALIBRATE_def FD_READ_def FD_WRITE_def FD_SENSEI_def)

lemma fdc_exec_simps [simp]:
  "fdc_exec (FD_SENSEI # c) f = f\<lparr>fc_reply := [0x20 OR fc_last f, fc_pos f (unat (fc_last f))]\<rparr>"
  "fdc_exec [FD_SEEK, a, b] f = f\<lparr>fc_pos := (fc_pos f)(unat (a AND 3) := b), fc_last := a AND 3\<rparr>"
  "fdc_exec [FD_RECALIBRATE, a] f = f\<lparr>fc_pos := (fc_pos f)(unat (a AND 3) := 0), fc_last := a AND 3\<rparr>"
  "fdc_exec (FD_READ # c) f = f\<lparr>fc_rw := FD_READ # c, fc_reply := [c ! 0 AND 7, 0, 0, c ! 1, c ! 2, c ! 3, c ! 4]\<rparr>"
  "fdc_exec (FD_SPECIFY # c) f = f\<lparr>fc_spec := c\<rparr>"
  by (simp_all add: fdc_exec_def FD_SPECIFY_def FD_SEEK_def FD_RECALIBRATE_def FD_READ_def FD_WRITE_def FD_SENSEI_def Let_def)

text \<open>The variables a job does not depend on.\<close>

lemma job_update [simp]:
  "job k drive n (v\<lparr>do_floppy := h\<rparr>) = job k drive n v" "job k drive n (v\<lparr>reply_buffer := r\<rparr>) = job k drive n v"
  "job k drive n (v\<lparr>current_track := c\<rparr>) = job k drive n v" "job k drive n (v\<lparr>cur_spec1 := x\<rparr>) = job k drive n v"
  "job k drive n (v\<lparr>cur_rate := x\<rparr>) = job k drive n v" "job k drive n (v\<lparr>fd_timers := t\<rparr>) = job k drive n v"
  "job k drive n (v\<lparr>tmp_floppy_area := a\<rparr>) = job k drive n v"
  by (simp_all add: job_def Let_def)

lemma read_command_update [simp]: "read_command (v\<lparr>do_floppy := h\<rparr>) = read_command v"
  by (simp add: read_command_def)

lemma starts_reading:
  assumes d: "fdc_ok d g img" and s: "stage s k drive n t" "fdc_idle t" "current_buffer t = Inr (b, 0)"
    and pos: "current_track (fdd t) = seek_track (fdd t)" "fc_pos (fdc_of (ios t)) drive = seek_track (fdd t)"
    and r: "rates k (fdd t) (fdc_of (ios t))" and low: "dma_target m (b, 0) < 0x100000"
  shows "\<exists>u. setup_rw_floppy d m redo t = Inr u \<and> reading s k drive n m b u"
proof -
  have cmd: "fd_command (fdd t) = FD_READ" "FD_READ \<noteq> FD_WRITE" using s(1) by (auto simp: stage_def job_def Let_def FD_READ_def FD_WRITE_def)
  let ?t = "t\<lparr>ios := dma_log (dma_target m (b, 0)) DMA_READ @ ios t\<rparr>"
  let ?u = "will_interrupt rw_interrupt ?t"
  have dma: "setup_DMA m t = Inr ?t" using setup_DMA_log [OF s(3), of m] cmd by simp
  have f: "fdc_of (ios ?u) = fdc_of (ios t)" "dma_setting (ios ?u) = (dma_target m (b, 0), 1024, DMA_READ)" "fdc_idle ?u"
    using dma_log_effect(1) [OF low] s(2) by (simp_all add: will_interrupt_def upd_fd_def fdc_idle_def dma_log_effect(2))
  have c: "[fd_command (fdd ?u), head_drive ?u, fd_track (fdd ?u), fd_head (fdd ?u), fd_sector (fdd ?u), 2,
      ucast (fl_sect (floppy ?u)), fl_gap (floppy ?u), 0xFF] = read_command (fdd t)"
    by (simp add: will_interrupt_def upd_fd_def head_drive_def floppy_def read_command_def cmd(1))
  obtain l where l: "output_bytes d (read_command (fdd t)) ?u = ?u\<lparr>ios := l\<rparr>" "dma_setting l = dma_setting (ios ?u)"
    "fdc_of l = fdc_exec (read_command (fdd t)) (fdc_of (ios ?u))"
    using command_given [OF d f(3), of "read_command (fdd t)"] by (auto simp: read_command_def)
  have e: "fdc_exec (read_command (fdd t)) (fdc_of (ios t)) =
      (fdc_of (ios t))\<lparr>fc_rw := read_command (fdd t), fc_reply := (let c = read_command (fdd t) in [c ! 1 AND 7, 0, 0, c ! 2, c ! 3, c ! 4, c ! 5])\<rparr>"
    by (simp add: read_command_def)
  have "setup_rw_floppy d m redo t = Inr (?u\<lparr>ios := l\<rparr>)"
    using s(2) unfolding setup_rw_floppy_def dma bindk_Inr Let_def c l(1)
    by (simp add: retry_def will_interrupt_def upd_fd_def fdc_idle_def)
  moreover have "only_driver s (?u\<lparr>ios := l\<rparr>)" using s(1) by (simp add: stage_def will_interrupt_def upd_fd_def)
  then have "reading s k drive n m b (?u\<lparr>ios := l\<rparr>)"
    using s(1,2) pos r l(2,3) f(2) e
    by (simp add: reading_def stage_def will_interrupt_def upd_fd_def dma_log_effect(2) fdc_idle_def)
  ultimately show ?thesis by blast
qed

lemma current_buffer_update [simp]:
  "current_buffer (t\<lparr>fdd := v\<rparr>) = current_buffer t" "current_buffer (t\<lparr>ios := l\<rparr>) = current_buffer t"
  by (simp_all add: current_buffer_def cong: option.case_cong)

text \<open>The step rate and the data rate are set up when they are not those of the disk.\<close>

lemma ucast_not_minus: "(ucast (x :: u8) :: u32) \<noteq> - 1"
proof
  assume "(ucast x :: u32) = - 1"
  then have "bit (ucast x :: u32) 31 = bit (- 1 :: u32) 31" by simp
  then show False using bit_imp_le_length [of x 31] by (auto simp: bit_ucast_iff)
qed

lemma ucast_up_eq: "(ucast (x :: u8) :: u32) = ucast y \<longleftrightarrow> x = y"
proof
  assume e: "(ucast x :: u32) = ucast y"
  show "x = y"
  proof (rule bit_word_eqI)
    fix n assume "n < LENGTH(8)"
    moreover have "bit (ucast x :: u32) n = bit (ucast y :: u32) n" by (simp only: e)
    ultimately show "bit x n = bit y n" by (simp add: bit_ucast_iff)
  qed
qed simp

lemma rates_set:
  assumes d: "fdc_ok d g img" and t: "fdc_idle t" "rates_known (fdd t) (fdc_of (ios t))"
  shows "\<exists>l. transfer d m redo t =
      (let u = t\<lparr>fdd := (fdd t)\<lparr>cur_spec1 := ucast (fl_spec1 (floppy t)), cur_rate := ucast (fl_rate (floppy t))\<rparr>, ios := l\<rparr> in
       if \<not> fd_seek (fdd u) then setup_rw_floppy d m redo u
       else
         let u = will_interrupt seek_interrupt u
         in retry redo
              (if seek_track (fdd u) \<noteq> 0 then output_bytes d [FD_SEEK, head_drive u, seek_track (fdd u)] u
               else output_bytes d [FD_RECALIBRATE, head_drive u] u)) \<and>
    fdc_of l = fdc_of (ios t)\<lparr>fc_spec := [fl_spec1 (floppy t), 6], fc_rate := fl_rate (floppy t)\<rparr>"
proof -
  let ?f = "floppy t" and ?F = "fdc_of (ios t)"
  let ?c = "[FD_SPECIFY, fl_spec1 ?f, 6]" and ?x = "upd_fd (\<lambda>v. v\<lparr>cur_spec1 := ucast (fl_spec1 ?f)\<rparr>) t"
  have i: "fdc_idle ?x" using t(1) by (simp add: fdc_idle_def upd_fd_def)
  obtain l where l: "output_bytes d ?c ?x = ?x\<lparr>ios := l\<rparr>" "fdc_of l = ?F\<lparr>fc_spec := [fl_spec1 ?f, 6]\<rparr>"
    using command_given [OF d i, of ?c] by (auto simp: upd_fd_def)
  have r: "\<not> fd_reset (fdd t)" using t(1) by (simp add: fdc_idle_def)
  define t1 where "t1 = (if cur_spec1 (fdd t) \<noteq> ucast (fl_spec1 ?f) then output_bytes d ?c ?x else t)"
  obtain l1 where t1: "t1 = t\<lparr>fdd := (fdd t)\<lparr>cur_spec1 := ucast (fl_spec1 ?f)\<rparr>, ios := l1\<rparr>"
    "fdc_of l1 = ?F\<lparr>fc_spec := [fl_spec1 ?f, 6]\<rparr>"
  proof (cases "cur_spec1 (fdd t) \<noteq> ucast (fl_spec1 ?f)")
    case True
    then show ?thesis using l by (intro that [of l]) (simp_all add: t1_def upd_fd_def)
  next
    case False
    then obtain x where x: "cur_spec1 (fdd t) = ucast x" "fc_spec ?F = [x, 6]" using t(2) ucast_not_minus [of "fl_spec1 ?f"] by (auto simp: rates_known_def)
    have "x = fl_spec1 ?f" using False x(1) by (simp add: ucast_up_eq)
    then have "?F\<lparr>fc_spec := [fl_spec1 ?f, 6]\<rparr> = ?F" using x(2) by (cases ?F) simp
    moreover have "(fdd t)\<lparr>cur_spec1 := ucast (fl_spec1 ?f)\<rparr> = fdd t" using False by (cases "fdd t") simp
    ultimately show ?thesis using False by (intro that [of "ios t"]) (simp_all add: t1_def)
  qed
  define t2 where "t2 = (if cur_rate (fdd t1) \<noteq> ucast (fl_rate ?f)
    then io_out (fl_rate ?f) FD_DCR (upd_fd (\<lambda>v. v\<lparr>cur_rate := ucast (fl_rate ?f)\<rparr>) t1) else t1)"
  obtain l2 where t2: "t2 = t\<lparr>fdd := (fdd t)\<lparr>cur_spec1 := ucast (fl_spec1 ?f), cur_rate := ucast (fl_rate ?f)\<rparr>, ios := l2\<rparr>"
    "fdc_of l2 = ?F\<lparr>fc_spec := [fl_spec1 ?f, 6], fc_rate := fl_rate ?f\<rparr>"
  proof (cases "cur_rate (fdd t1) \<noteq> ucast (fl_rate ?f)")
    case True
    then show ?thesis using t1
      by (intro that [of "Out FD_DCR (fl_rate ?f) # l1"]) (simp_all add: t2_def upd_fd_def io_out_def)
  next
    case False
    then have e: "cur_rate (fdd t) = ucast (fl_rate ?f)" using t1(1) by simp
    then have "fc_rate ?F = fl_rate ?f"
      using t(2) ucast_not_minus [of "fl_rate ?f"] by (auto simp: rates_known_def ucast_up_eq)
    then have "?F\<lparr>fc_spec := [fl_spec1 ?f, 6], fc_rate := fl_rate ?f\<rparr> = ?F\<lparr>fc_spec := [fl_spec1 ?f, 6]\<rparr>" by (cases ?F) simp
    moreover have "(fdd t)\<lparr>cur_spec1 := ucast (fl_spec1 ?f), cur_rate := ucast (fl_rate ?f)\<rparr> = (fdd t)\<lparr>cur_spec1 := ucast (fl_spec1 ?f)\<rparr>"
      using e by (cases "fdd t") simp
    ultimately show ?thesis using t1 False by (intro that [of l1]) (simp_all add: t2_def)
  qed
  have "transfer d m redo t =
    (if fd_reset (fdd t2) then redo t2 else if \<not> fd_seek (fdd t2) then setup_rw_floppy d m redo t2
     else let u = will_interrupt seek_interrupt t2 in retry redo
       (if seek_track (fdd u) \<noteq> 0 then output_bytes d [FD_SEEK, head_drive u, seek_track (fdd u)] u
               else output_bytes d [FD_RECALIBRATE, head_drive u] u))"
    unfolding transfer_def Let_def t1_def [symmetric] t2_def [symmetric] ..
  then show ?thesis using t2 r by (intro exI [of _ l2]) simp
qed

lemma starts_transfer:
  assumes d: "fdc_ok d g img" and t: "stage s k drive n t" "fdc_idle t" "current_buffer t = Inr (b, 0)"
    and known: "rates_known (fdd t) (fdc_of (ios t))"
    and head: "fd_seek (fdd t) \<or> seek_track (fdd t) = current_track (fdd t) \<and>
      (current_track (fdd t) = 255 \<or> current_track (fdd t) = fc_pos (fdc_of (ios t)) drive)"
    and low: "dma_target m (b, 0) < 0x100000"
  shows "\<exists>u. transfer d m redo t = Inr u \<and> (seeking s k drive n u \<or> reading s k drive n m b u)"
proof -
  have j: "job k drive n (fdd t)" using t(1) by (simp add: stage_def)
  then have k: "floppy t = floppy_type ! k" by (simp add: job_def Let_def floppy_def)
  let ?v = "(fdd t)\<lparr>cur_spec1 := ucast (fl_spec1 (floppy t)), cur_rate := ucast (fl_rate (floppy t))\<rparr>"
  let ?f = "fdc_of (ios t)\<lparr>fc_spec := [fl_spec1 (floppy t), 6], fc_rate := fl_rate (floppy t)\<rparr>"
  obtain l where T: "transfer d m redo t =
      (let u = t\<lparr>fdd := ?v, ios := l\<rparr> in
       if \<not> fd_seek (fdd u) then setup_rw_floppy d m redo u
       else
         let u = will_interrupt seek_interrupt u
         in retry redo
              (if seek_track (fdd u) \<noteq> 0 then output_bytes d [FD_SEEK, head_drive u, seek_track (fdd u)] u
               else output_bytes d [FD_RECALIBRATE, head_drive u] u))" "fdc_of l = ?f"
    using rates_set [OF d t(2) known] by blast
  let ?u = "t\<lparr>fdd := ?v, ios := l\<rparr>"
  have u: "stage s k drive n ?u" "fdc_idle ?u" "current_buffer ?u = Inr (b, 0)" "fdc_of (ios ?u) = ?f" "rates k (fdd ?u) ?f"
    using t T(2) by (simp_all add: stage_def fdc_idle_def rates_def k)
  show ?thesis
  proof (cases "fd_seek (fdd t)")
    case False
    then have "seek_track (fdd t) = current_track (fdd t)" "current_track (fdd t) = fc_pos (fdc_of (ios t)) drive"
      using head job_place(8) [OF j] by auto
    then obtain v where "setup_rw_floppy d m redo ?u = Inr v" "reading s k drive n m b v"
      using starts_reading [OF d u(1-3) _ _ _ low, of redo] u(4,5) by auto
    then show ?thesis using T(1) False by simp
  next
    case True
    let ?w = "will_interrupt seek_interrupt ?u"
    define c where "c = (if seek_track (fdd ?w) \<noteq> 0 then [FD_SEEK, head_drive ?w, seek_track (fdd ?w)] else [FD_RECALIBRATE, head_drive ?w])"
    have dr: "drive < 4" "current_drive (fdd t) = of_nat drive" using j by (auto simp: job_def Let_def)
    have hd: "head_drive ?w = push_bit 2 (fd_head (fdd t)) OR of_nat drive"
      by (simp add: head_drive_def will_interrupt_def upd_fd_def dr)
    have w: "fdc_idle ?w" "fdc_of (ios ?w) = ?f" "seek_track (fdd ?w) = seek_track (fdd t)"
      using u(2,4) by (simp_all add: fdc_idle_def will_interrupt_def upd_fd_def)
    have cl: "c \<noteq> []" "length c = command_length (hd c)" by (simp_all add: c_def)
    obtain l' where l': "output_bytes d c ?w = ?w\<lparr>ios := l'\<rparr>" "fdc_of l' = fdc_exec c ?f"
      using command_given [OF d w(1) cl] unfolding w(2) by blast
    have b: "head_drive ?w AND 3 = of_nat drive" "unat (of_nat drive :: u8) = drive"
      unfolding hd by (rule drive_byte [OF dr(1) job_place(9) [OF j]])+
    have e: "fdc_of l' = ?f\<lparr>fc_pos := (fc_pos (fdc_of (ios t)))(drive := seek_track (fdd t)), fc_last := of_nat drive\<rparr>"
      unfolding l'(2) c_def w(3) by (simp add: b)
    have "transfer d m redo t = Inr (?w\<lparr>ios := l'\<rparr>)"
      using T(1) True l'(1) u(2) w(1)
      by (simp add: retry_def c_def fdc_idle_def Let_def split: if_splits)
    moreover have "only_driver s (?w\<lparr>ios := l'\<rparr>)"
      using t(1) by (simp add: stage_def will_interrupt_def upd_fd_def)
    then have "seeking s k drive n (?w\<lparr>ios := l'\<rparr>)"
      using u(1,2,5) t(1,2) e by (simp add: seeking_def stage_def will_interrupt_def upd_fd_def fdc_idle_def)
    ultimately show ?thesis by blast
  qed
qed

section \<open>The interrupts\<close>

lemma sense_reply:
  assumes d: "fdc_ok d g img" and t: "fdc_idle t"
  shows "\<exists>l. sense d t = (Some 2, upd_fd (\<lambda>v. v\<lparr>reply_buffer :=
      replied 0 [0x20 OR fc_last (fdc_of (ios t)), fc_pos (fdc_of (ios t)) (unat (fc_last (fdc_of (ios t))))] (reply_buffer v)\<rparr>)
      (t\<lparr>ios := l\<rparr>)) \<and> fdc_of l = fdc_of (ios t)"
proof -
  have "length [FD_SENSEI] = command_length (hd [FD_SENSEI])" by simp
  then obtain l where l: "output_bytes d [FD_SENSEI] t = t\<lparr>ios := l\<rparr>" "fdc_of l = fdc_exec [FD_SENSEI] (fdc_of (ios t))"
    using command_given [OF d t, of "[FD_SENSEI]"] by blast
  have o: "output_byte d FD_SENSEI t = t\<lparr>ios := l\<rparr>" using l(1) by (simp add: output_bytes_def)
  let ?t = "t\<lparr>ios := l\<rparr>"
  have t': "\<not> fd_reset (fdd ?t)" "fc_cmd (fdc_of (ios ?t)) = []" "length (fc_reply (fdc_of (ios ?t))) \<le> 7"
    using t l(2) by (simp_all add: fdc_idle_def)
  have f: "fdc_of (ios t)\<lparr>fc_reply := []\<rparr> = fdc_of (ios t)" using t by (cases "fdc_of (ios t)") (simp add: fdc_idle_def)
  show ?thesis unfolding sense_def o
    using fd_result_reply [OF d t'] l(2) by (auto simp: f)
qed

lemma seek_done:
  assumes d: "fdc_ok d g img" and t: "seeking s k drive n t" "current_buffer t = Inr (b, 0)" and low: "dma_target m (b, 0) < 0x100000"
  shows "\<exists>u. completion d m t = Inr u \<and> reading s k drive n m b u"
proof -
  let ?f = "fdc_of (ios t)"
  have S: "stage s k drive n t" "do_floppy (fdd t) = Some seek_interrupt" "fdc_idle t" "fc_last ?f = of_nat drive"
    "fc_pos ?f drive = seek_track (fdd t)" "rates k (fdd t) ?f" using t(1) by (simp_all add: seeking_def)
  have j: "job k drive n (fdd t)" using S(1) by (simp add: stage_def)
  then have dr: "drive < 4" by (simp add: job_def Let_def)
  note B = drive_byte [OF dr job_place(9) [OF j]]
  let ?t = "t\<lparr>fdd := (fdd t)\<lparr>do_floppy := None\<rparr>, ios := Out 0x20 0x20 # ios t\<rparr>"
  have i: "fdc_idle ?t" "fdc_of (ios ?t) = ?f" using S(3) by (simp_all add: fdc_idle_def)
  obtain l where l: "sense d ?t = (Some 2, upd_fd (\<lambda>v. v\<lparr>reply_buffer := replied 0 [0x20 OR of_nat drive, seek_track (fdd t)] (reply_buffer v)\<rparr>)
      (?t\<lparr>ios := l\<rparr>))" "fdc_of l = ?f"
    using sense_reply [OF d i(1)] S(4,5) by (auto simp: i(2) B(2))
  let ?u = "t\<lparr>fdd := (fdd t)\<lparr>do_floppy := None, reply_buffer := replied 0 [0x20 OR of_nat drive, seek_track (fdd t)] (reply_buffer (fdd t)),
      current_track := seek_track (fdd t)\<rparr>, ios := l\<rparr>"
  have u: "stage s k drive n ?u" "fdc_idle ?u" "current_buffer ?u = Inr (b, 0)"
    using S(1,3) t(2) l(2) by (simp_all add: stage_def fdc_idle_def)
  have p: "current_track (fdd ?u) = seek_track (fdd ?u)" "fc_pos (fdc_of (ios ?u)) drive = seek_track (fdd ?u)" using l(2) S(5) by simp_all
  have r: "rates k (fdd ?u) (fdc_of (ios ?u))" using l(2) S(6) by simp
  obtain w where w: "setup_rw_floppy d m (do_fd_request d m) ?u = Inr w" "reading s k drive n m b w"
    using starts_reading [OF d u p r low] by blast
  have "completion d m t = do_seek_interrupt d m ?t"
    using S(2) by (simp add: completion_def floppy_interrupt_def upd_fd_def io_out_def Let_def fdd_ios)
  also have "\<dots> = setup_rw_floppy d m (do_fd_request d m) ?u"
    using l(1) by (simp add: do_seek_interrupt_def upd_fd_def replied_def B(5) fdd_ios)
  finally show ?thesis using w by auto
qed

section \<open>The data of a read\<close>

lemma transfers_block:
  assumes j: "job k drive n v" and f: "fc_rw f = read_command v" "fc_pos f drive = seek_track v"
    and r: "rates k v f" and m: "motor_on drive (fd_timers v)" "fc_dor f = current_DOR (fd_timers v)"
  shows "transfers (floppy_type ! k) f drive (unat n)"
proof -
  let ?g = "floppy_type ! k"
  have J: "0 < k" "k < length floppy_type" "drive < 4" "fd_floppy v = k" "current_drive v = of_nat drive"
    "seek_track v = push_bit (unat (fl_stretch ?g)) (fd_track v)" using j by (auto simp: job_def Let_def)
  have S: "unat (fl_sect ?g) < 256" using floppy_formats [OF J(1,2)] by (simp add: format_ok_def)
  note P = job_place [OF j] and B = drive_byte [OF J(3) job_place(9) [OF j]]
  have "1 \<le> unat (fd_sector v)" by (simp add: P(3))
  then show ?thesis
    using P(4-7) B(1-3) f(2) J(6) unat_byte [OF S] r m(1) motor_bit [OF _ J(3)]
    by (simp add: transfers_def Let_def f(1) read_command_def J(4,5) rates_def motor_on_def m(2))
qed

lemma data_delivered:
  assumes d: "fdc_ok d (floppy_type ! k) img" and t: "reading s k drive n m b t" and i: "i < 1024"
  shows "dev_data d (ios t) i = img drive (unat n + i div 512) (i mod 512)"
proof -
  have "transfers (floppy_type ! k) (fdc_of (ios t)) drive (unat n)"
    using t by (intro transfers_block [where v = "fdd t"]) (simp_all add: reading_def stage_def)
  then show ?thesis using d i unfolding fdc_ok_def by blast
qed

lemma do_fd_request_empty:
  assumes "current_request t 2 = None" "\<not> fd_reset (fdd t)" "\<not> fd_recalibrate (fdd t)"
  shows "do_fd_request d m t = Inr (upd_fd (\<lambda>v. v\<lparr>fd_seek := False\<rparr>) t)"
  using assms by (simp add: do_fd_request_unfold fd_body_def upd_fd_def init_request_def Let_def)

lemma end_request_floppy:
  assumes "current_request t 2 = Some c" "r_next (request t c) = None" "r_bh (request t c) = Some b"
  shows "\<exists>i. end_request 2 ok t =
    Inr ((upd_req c (\<lambda>r. r\<lparr>r_dev := - 1\<rparr>) (set_bh b (\<lambda>h. h\<lparr>b_uptodate := ok, b_lock := False\<rparr>)
        (upd_motor (floppy_off i) t)))\<lparr>current_request := (current_request t)(2 := None)\<rparr>)"
  using assms
  by (cases t) (auto simp add: end_request_def device_off_def unlock_buffer_def set_bh_def upd_buf_def upd_req_def upd_motor_def upd_fd_def)

text \<open>What the driver leaves behind when the disk is idle again.\<close>

definition fd_rest :: "nat \<Rightarrow> fd_state \<Rightarrow> io_event list \<Rightarrow> bool" where
  "fd_rest drive v h \<longleftrightarrow> \<not> fd_reset v \<and> \<not> fd_recalibrate v \<and> wait_on_floppy_select v = None \<and> current_drive v = of_nat drive \<and>
     motor_on drive (fd_timers v) \<and> current_track v = fc_pos (fdc_of h) drive \<and> fc_cmd (fdc_of h) = [] \<and> fc_reply (fdc_of h) = [] \<and>
     rates_known v (fdc_of h) \<and> fc_dor (fdc_of h) = current_DOR (fd_timers v)"

lemma rates_known_update [simp]:
  "rates_known (v\<lparr>fd_timers := t\<rparr>) f = rates_known v f" "rates_known (v\<lparr>fd_seek := x\<rparr>) f = rates_known v f"
  "rates_known (v\<lparr>wait_on_floppy_select := w\<rparr>) f = rates_known v f"
  by (simp_all add: rates_known_def)

lemma current_DOR_floppy_off [simp]: "current_DOR (floppy_off i t) = current_DOR t"
  by (simp add: floppy_off_def)

lemma motor_on_update [simp]:
  "motor_on drive (t\<lparr>fd_selected := x\<rparr>) = motor_on drive t" "motor_on drive (floppy_off i t) = motor_on drive t"
  "motor_on drive (t\<lparr>moff_timer := f\<rparr>) = motor_on drive t"
  by (simp_all add: motor_on_def floppy_off_def)

lemma read_finished:
  assumes t: "current_request t 2 = Some c" "r_next (request t c) = None" "r_bh (request t c) = Some b" "fd_rest drive (fdd t) (ios t)"
  shows "\<exists>v. bindk (end_request 2 True (floppy_deselect t)) (do_fd_request d m) =
      Inr ((upd_req c (\<lambda>r. r\<lparr>r_dev := - 1\<rparr>) (set_bh b (\<lambda>h. h\<lparr>b_uptodate := True, b_lock := False\<rparr>) t))
        \<lparr>current_request := (current_request t)(2 := None), fdd := v\<rparr>) \<and> fd_rest drive v (ios t)"
proof -
  have w: "wait_on_floppy_select (fdd t) = None" "\<not> fd_reset (fdd t)" "\<not> fd_recalibrate (fdd t)" using t(4) by (auto simp: fd_rest_def)
  let ?t = "floppy_deselect t"
  have D: "?t = t\<lparr>fdd := (fdd t)\<lparr>fd_timers := (motor t)\<lparr>fd_selected := False\<rparr>, wait_on_floppy_select := None\<rparr>\<rparr>"
    using w(1) by (cases t) (simp add: floppy_deselect_def make_running_def upd_motor_def upd_fd_def Let_def)
  have "current_request ?t 2 = Some c" "r_next (request ?t c) = None" "r_bh (request ?t c) = Some b" using t(1-3) by (simp_all add: D)
  from end_request_floppy [OF this, of True] obtain i where i: "end_request 2 True ?t =
    Inr ((upd_req c (\<lambda>r. r\<lparr>r_dev := - 1\<rparr>) (set_bh b (\<lambda>h. h\<lparr>b_uptodate := True, b_lock := False\<rparr>)
        (upd_motor (floppy_off i) ?t)))\<lparr>current_request := (current_request ?t)(2 := None)\<rparr>)" (is "_ = Inr ?u") ..
  have e: "do_fd_request d m ?u = Inr (upd_fd (\<lambda>v. v\<lparr>fd_seek := False\<rparr>) ?u)"
    using w by (intro do_fd_request_empty) (simp_all add: D upd_req_def set_bh_def upd_motor_def upd_fd_def)
  let ?v = "(fdd t)\<lparr>fd_timers := floppy_off i ((motor t)\<lparr>fd_selected := False\<rparr>), wait_on_floppy_select := None, fd_seek := False\<rparr>"
  have "upd_fd (\<lambda>v. v\<lparr>fd_seek := False\<rparr>) ?u =
    (upd_req c (\<lambda>r. r\<lparr>r_dev := - 1\<rparr>) (set_bh b (\<lambda>h. h\<lparr>b_uptodate := True, b_lock := False\<rparr>) t))
        \<lparr>current_request := (current_request t)(2 := None), fdd := ?v\<rparr>"
    by (simp add: D upd_req_def set_bh_def upd_motor_def upd_fd_def)
  moreover have "fd_rest drive ?v (ios t)" using t(4) by (simp add: fd_rest_def)
  ultimately show ?thesis by (intro exI [of _ ?v]) (simp only: i e bindk_Inr)
qed

lemma read_successful:
  assumes "fd_result d u = (Some 7, w)" "ST 0 w AND 0xf8 = 0" "ST 1 w = 0" "ST 2 w = 0" "fd_command (fdd w) = FD_READ"
    "current_buffer w = Inr b"
  shows "do_rw_interrupt d m u = bindk (end_request 2 True (floppy_deselect
    (if 0x100000 \<le> place_of m b then set_data (fst b) (snd b) (tmp_floppy_area (fdd w)) w else w))) (do_fd_request d m)"
  using assms by (simp add: do_rw_interrupt_def)

lemma read_done:
  assumes d: "fdc_ok d (floppy_type ! k) img" and t: "reading s k drive n m b t"
    and c: "current_request t 2 = Some c" "r_next (request t c) = None" "r_bh (request t c) = Some b" "r_buffer (request t c) = 0"
    and m: "places_ok m (nr_buffers (bk t))" "b < nr_buffers (bk t)"
  defines "D \<equiv> \<lambda>i. img drive (unat n + i div 512) (i mod 512)"
  shows "\<exists>v l. completion d m t =
      Inr ((upd_req c (\<lambda>r. r\<lparr>r_dev := - 1\<rparr>) (set_bh b (\<lambda>h. h\<lparr>b_uptodate := True, b_lock := False\<rparr>)
           (t\<lparr>bk := into_buffer b D (bk t)\<rparr>)))
        \<lparr>current_request := (current_request t)(2 := None), fdd := v, ios := l\<rparr>) \<and> fd_rest drive v l \<and>
      fc_spec (fdc_of l) = [fl_spec1 (floppy_type ! k), 6] \<and> fc_rate (fdc_of l) = fl_rate (floppy_type ! k)"
proof -
  let ?c = "read_command (fdd t)" and ?f = "fdc_of (ios t)" and ?data = "dev_data d (ios t)"
  let ?r = "[?c ! 1 AND 7, 0, 0, ?c ! 2, ?c ! 3, ?c ! 4, ?c ! 5]"
  have R: "stage s k drive n t" "do_floppy (fdd t) = Some rw_interrupt" "fc_cmd ?f = []" "fc_rw ?f = ?c" "fc_reply ?f = ?r"
    "current_track (fdd t) = seek_track (fdd t)" "fc_pos ?f drive = seek_track (fdd t)"
    "dma_setting (ios t) = (dma_target m (b, 0), 1024, DMA_READ)" "rates k (fdd t) ?f"
    using t by (simp_all add: reading_def Let_def)
  have j: "job k drive n (fdd t)" and no_reset: "\<not> fd_reset (fdd t)" and mo: "motor_on drive (motor t)" and dor: "fc_dor ?f = current_DOR (motor t)" using R(1) by (simp_all add: stage_def)
  have J: "drive < 4" "fd_command (fdd t) = FD_READ" "\<not> fd_recalibrate (fdd t)" "wait_on_floppy_select (fdd t) = None"
    "current_drive (fdd t) = of_nat drive"
    using j by (auto simp: job_def Let_def)
  have st0: "(?c ! 1 AND 7) AND 0xf8 = 0" using drive_byte(4) [OF J(1) job_place(9) [OF j]] by (simp add: read_command_def J(5))
  have a: "buffer_addr m b < 0x1000000" using m by (auto simp: places_ok_def)
  then have "unat (buffer_addr m b) < 2 ^ 31" by (simp add: word_less_nat_alt)
  note high = place_high [OF this]
  have data: "into_buffer b ?data = into_buffer b D"
    using data_delivered [OF d t] by (auto simp: into_buffer_def D_def fun_eq_iff cong: if_cong)
  \<comment> \<open>the bytes arrive\<close>
  let ?t = "dma_store m (dma_target m (b, 0)) 1024 ?data t"
  have go: "completion d m t = do_rw_interrupt d m (upd_fd (\<lambda>v. v\<lparr>do_floppy := None\<rparr>) (io_out 0x20 0x20 ?t))"
  proof -
    have "dma_address (ios t) = dma_target m (b, 0)" "dma_count (ios t) = 1024" "last_out 11 (ios t) = DMA_READ"
      using R(8) by (simp_all add: dma_setting_def)
    moreover have "fc_rw ?f ! 0 = FD_READ" by (simp add: R(4) read_command_def)
    moreover have "do_floppy (fdd ?t) = Some rw_interrupt" using R(2) by (simp add: dma_store_def upd_fd_def)
    ultimately show ?thesis using R(2) by (simp add: completion_def floppy_interrupt_def Let_def io_out_def)
  qed
  define hi where "hi = (0x100000 \<le> buffer_addr m b)"
  have tgt: "dma_target m (b, 0) = (if hi then tmp_addr m else buffer_addr m b)" by (simp add: dma_target_def place_of_def high hi_def)
  obtain v where v: "?t = t\<lparr>bk := (if hi then bk t else into_buffer b ?data (bk t)), fdd := (fdd t)\<lparr>tmp_floppy_area := v\<rparr>\<rparr>"
    "hi \<longrightarrow> (\<forall>i < 1024. v i = ?data i)"
  proof (cases hi)
    case True
    obtain v where "dma_store m (tmp_addr m) 1024 ?data t = t\<lparr>fdd := (fdd t)\<lparr>tmp_floppy_area := v\<rparr>\<rparr>" "\<forall>i < 1024. v i = ?data i"
      using dma_store_tmp [OF m(1) refl, of ?data] by blast
    then show ?thesis using True by (intro that [of v]) (simp_all add: tgt)
  next
    case False
    obtain v where "dma_store m (buffer_addr m b) 1024 ?data t =
        t\<lparr>bk := into_buffer b ?data (bk t), fdd := (fdd t)\<lparr>tmp_floppy_area := v\<rparr>\<rparr>"
      using dma_store_low [OF m(1) refl m(2), of ?data] by blast
    then show ?thesis using False by (intro that [of v]) (simp_all add: tgt)
  qed
  let ?u = "t\<lparr>bk := (if hi then bk t else into_buffer b ?data (bk t)), fdd := (fdd t)\<lparr>tmp_floppy_area := v, do_floppy := None\<rparr>, ios := Out 0x20 0x20 # ios t\<rparr>"
  have u: "upd_fd (\<lambda>v. v\<lparr>do_floppy := None\<rparr>) (io_out 0x20 0x20 ?t) = ?u" by (simp add: v(1) upd_fd_def io_out_def fdd_ios)
  have "\<not> fd_reset (fdd ?u)" "fc_cmd (fdc_of (ios ?u)) = []" "length (fc_reply (fdc_of (ios ?u))) \<le> 7" using no_reset R(3,5) by simp_all
  from fd_result_reply [OF d this] obtain l where l:
    "fd_result d ?u = (Some 7, upd_fd (\<lambda>v. v\<lparr>reply_buffer := replied 0 ?r (reply_buffer v)\<rparr>) (?u\<lparr>ios := l\<rparr>))"
    "fdc_of l = ?f\<lparr>fc_reply := []\<rparr>" using R(5) by auto
  let ?w = "t\<lparr>bk := (if hi then bk t else into_buffer b ?data (bk t)),
      fdd := (fdd t)\<lparr>tmp_floppy_area := v, do_floppy := None, reply_buffer := replied 0 ?r (reply_buffer (fdd t))\<rparr>, ios := l\<rparr>"
  have l': "fd_result d ?u = (Some 7, ?w)" using l(1) by (simp add: upd_fd_def fdd_ios)
  have buf: "current_buffer ?w = Inr (b, 0)" using c by (simp add: current_buffer_def)
  have "into_buffer b v (bk t) = into_buffer b D (bk t)" if hi
    using v(2) that data_delivered [OF d t] by (auto simp: into_buffer_def D_def fun_eq_iff intro!: arg_cong [where f = "\<lambda>g. upd_buf b g (bk t)"])
  then have copy: "(if 0x100000 \<le> place_of m (b, 0) then set_data b 0 (tmp_floppy_area (fdd ?w)) ?w else ?w) =
      ?w\<lparr>bk := into_buffer b D (bk t)\<rparr>" (is "_ = ?x")
    using data by (simp add: set_data_0 place_of_def hi_def)
  have step: "completion d m t = bindk (end_request 2 True (floppy_deselect ?x)) (do_fd_request d m)"
    unfolding go u copy [symmetric]
    using read_successful [OF l' _ _ _ _ buf, of m] J(2) st0 by (simp add: replied_def)
  have x: "current_request ?x 2 = Some c" "r_next (request ?x c) = None" "r_bh (request ?x c) = Some b" using c by simp_all
  have "rates k (fdd ?x) (fdc_of l)" using R(9) l(2) by simp
  note known = rates_rates_known [OF this]
    and set = this [unfolded rates_def Let_def, THEN conjunct2, THEN conjunct2]
  have "fd_rest drive (fdd ?x) (ios ?x)" using no_reset J mo dor R(3,6,7) l(2) known by (simp add: fd_rest_def)
  from read_finished [OF x this, of d m] obtain v' where v': "completion d m t =
      Inr ((upd_req c (\<lambda>r. r\<lparr>r_dev := - 1\<rparr>) (set_bh b (\<lambda>h. h\<lparr>b_uptodate := True, b_lock := False\<rparr>) ?x))
        \<lparr>current_request := (current_request ?x)(2 := None), fdd := v'\<rparr>)" "fd_rest drive v' (ios ?x)" unfolding step by blast
  then have "fd_rest drive v' l" by simp
  then show ?thesis unfolding v'(1) using set
    by (intro exI [of _ v'] exI [of _ l] conjI arg_cong [where f = Inr] blk.equality) (simp_all add: upd_req_def set_bh_def)
qed

section \<open>Reading a block\<close>

text \<open>
  An idle drive: no command under way, and the driver knows where the head is, which rates are set
  and which motors are on, or that it does not know the first two. The buffer \<open>b\<close> is for a block inside a disk of type \<open>k\<close>.
\<close>

definition floppy_idle :: "blk \<Rightarrow> bool" where
  "floppy_idle s \<longleftrightarrow> current_request s 2 = None \<and> has_driver (bk s) 2 \<and> request_free s \<and> fdc_idle s \<and>
     \<not> fd_recalibrate (fdd s) \<and> wait_on_floppy_select (fdd s) = None \<and>
     (current_track (fdd s) = 255 \<or> current_track (fdd s) = fc_pos (fdc_of (ios s)) (unat (current_drive (fdd s)))) \<and>
     rates_known (fdd s) (fdc_of (ios s)) \<and> fc_dor (fdc_of (ios s)) = current_DOR (motor s)"

definition floppy_block :: "blk \<Rightarrow> nat \<Rightarrow> nat \<Rightarrow> nat \<Rightarrow> bool" where
  "floppy_block s b k drive \<longleftrightarrow>
     (let h = buffers (bk s) b in
      MAJOR (b_dev h) = 2 \<and> unat (b_dev h AND 0xff) = 4 * k + drive \<and> drive < 4 \<and> 0 < k \<and> k < length floppy_type \<and>
      b < nr_buffers (bk s) \<and> unat (b_blocknr h) * 2 + 2 \<le> unat (fl_size (floppy_type ! k)))"

primrec completions :: "nat \<Rightarrow> device \<Rightarrow> fd_place \<Rightarrow> blk \<Rightarrow> blk kres" where
  "completions 0 d m s = Inr s"
| "completions (Suc n) d m s = bindk (completion d m s) (completions n d m)"

lemma completions_Suc_right: "completions (Suc i) d m s = bindk (completions i d m s) (completion d m)"
proof (induction i arbitrary: s)
  case (Suc i)
  show ?case using Suc.IH by (cases "completion d m s") simp_all
next
  case 0
  show ?case by (cases "completion d m s") simp_all
qed

lemma drive_of:
  assumes "unat ((v :: u16) AND 0xff) = 4 * k + drive" "drive < 4"
  shows "ucast (word_of_int (int (unat v)) AND 3 :: u32) = (of_nat drive :: u8)"
proof -
  have "unat v mod 256 mod 4 = drive" using assms by (simp add: unat_mod_256)
  then have "unat v mod 4 = drive" by (simp add: mod_mod_cancel)
  then have m: "unat (word_of_int (int (unat v)) AND 3 :: u32) = drive" by (simp only: unat_mod_4 unat_dev)
  have "unat (of_nat drive :: u8) = drive" using assms(2) by (simp add: unat_of_nat)
  then show ?thesis unfolding word_unat_eq_iff using unat_byte [of "word_of_int (int (unat v)) AND 3"] assms(2) m by simp
qed

lemma ticks_motor_on:
  assumes "motor_on drive t" "drive < 4"
  shows "ticks_to_floppy_on drive t = Inr (0, None, t\<lparr>moff_timer := (moff_timer t)(drive := 10000)\<rparr>)"
proof -
  have "drive = 0 \<or> drive = 1 \<or> drive = 2 \<or> drive = 3" using assms(2) by auto
  moreover have "(current_DOR t AND 0xFC) OR (current_DOR t AND 3) = current_DOR t"
    by (rule bit_word_eqI) (auto simp: bit_simps numeral_eq_Suc less_Suc_eq)
  ultimately show ?thesis using assms by (simp add: ticks_to_floppy_on_def motor_on_def Let_def)
qed

lemma start_motor_on:
  assumes "motor_on drive (motor y)" "current_drive (fdd y) = of_nat drive" "drive < 4"
  shows "\<exists>t. motor_on drive t \<and> current_DOR t = current_DOR (motor y) \<and> start_motor d m redo y = transfer d m redo (y\<lparr>fdd := (fdd y)\<lparr>fd_timers := t\<rparr>\<rparr>)"
proof -
  have u: "unat (of_nat drive :: u8) = drive" using assms(3) by (simp add: unat_of_nat)
  let ?t = "(motor y)\<lparr>moff_timer := (moff_timer (motor y))(drive := 10000), fd_selected := True\<rparr>"
  have e: "current_DOR (motor y) AND 3 = of_nat drive" using assms(1) by (simp add: motor_on_def)
  have "start_motor d m redo y = transfer d m redo (y\<lparr>fdd := (fdd y)\<lparr>fd_timers := ?t\<rparr>\<rparr>)"
    by (simp add: start_motor_def fd_ticks_def assms(2) u ticks_motor_on [OF assms(1,3)] upd_motor_def upd_fd_def floppy_on_interrupt_def e)
  moreover have "motor_on drive ?t" "current_DOR ?t = current_DOR (motor y)" using assms(1) by simp_all
  ultimately show ?thesis by (intro exI [of _ ?t] conjI)
qed

text \<open>What \<open>do_fd_request\<close> works out from the request.\<close>

definition worked_out :: "nat \<Rightarrow> nat \<Rightarrow> u32 \<Rightarrow> fd_state \<Rightarrow> fd_state" where
  "worked_out k drive n v =
     (locate (floppy_type ! k) n (v\<lparr>fd_floppy := k, fd_seek := current_drive v \<noteq> of_nat drive, current_drive := of_nat drive\<rparr>))
       \<lparr>fd_command := FD_READ\<rparr>"

lemma job_worked_out:
  assumes "0 < k" "k < length floppy_type" "drive < 4" "even (unat n)" "unat n + 2 \<le> unat (fl_size (floppy_type ! k))"
    "\<not> fd_recalibrate v" "wait_on_floppy_select v = None"
  shows "job k drive n (worked_out k drive n v)"
    "fd_seek (worked_out k drive n v) \<longleftrightarrow> current_drive v \<noteq> of_nat drive \<or> seek_track (worked_out k drive n v) \<noteq> current_track v"
    "current_track (worked_out k drive n v) = current_track v" "fd_reset (worked_out k drive n v) = fd_reset v"
    "fd_timers (worked_out k drive n v) = fd_timers v" "rates_known (worked_out k drive n v) f = rates_known v f"
  using assms by (auto simp: worked_out_def locate_def job_def Let_def rates_known_def)

lemma do_fd_request_read:
  assumes s: "floppy_block s b k drive" "\<not> fd_reset (fdd s)" "\<not> fd_recalibrate (fdd s)"
    and n_def: "n = push_bit 1 (b_blocknr (buffers (bk s) b))" and x_def: "x = asked 2 READ b c s"
  shows "do_fd_request d m x = start_motor d m (do_fd_request d m) (x\<lparr>fdd := worked_out k drive n (fdd s)\<rparr>)"
    "even (unat n)" "unat n = 2 * unat (b_blocknr (buffers (bk s) b))" "unat n + 2 \<le> unat (fl_size (floppy_type ! k))"
proof -
  let ?h = "buffers (bk s) b" and ?g = "floppy_type ! k"
  have B: "MAJOR (b_dev ?h) = 2" "unat (b_dev ?h AND 0xff) = 4 * k + drive" "drive < 4" "0 < k" "k < length floppy_type"
    "unat (b_blocknr ?h) * 2 + 2 \<le> unat (fl_size ?g)"
    using s(1) by (auto simp: floppy_block_def Let_def)
  have F: "fl_head ?g = 2" "fl_sect ?g \<noteq> 0" "unat (fl_size ?g) < 2 ^ 31"
  proof -
    have f: "format_ok ?g" by (rule floppy_formats [OF B(4,5)])
    have "unat (fl_track ?g) \<le> 80" "unat (fl_sect ?g) \<le> 18" using f by (auto simp: format_ok_def)
    then have "unat (fl_track ?g) * 2 * unat (fl_sect ?g) \<le> 80 * 2 * 18" by (intro mult_le_mono) simp_all
    then have "unat (fl_size ?g) \<le> 80 * 2 * 18" using f by (simp only: format_ok_def)
    then show "fl_head ?g = 2" "fl_sect ?g \<noteq> 0" "unat (fl_size ?g) < 2 ^ 31" using f by (auto simp: format_ok_def)
  qed
  show n: "unat n = 2 * unat (b_blocknr ?h)" using B(6) F(3) by (simp add: n_def push_bit_eq_mult unat_word_ariths)
  then show "even (unat n)" by simp
  show l: "unat n + 2 \<le> unat (fl_size ?g)" using n B(6) by simp
  have "unat (n + 2) = unat n + 2" using l F(3) by (simp add: unat_word_ariths)
  then have inside: "\<not> fl_size ?g < n + 2" using l by (simp add: word_less_nat_alt)
  let ?x = "x\<lparr>fdd := (fdd x)\<lparr>fd_seek := False\<rparr>\<rparr>"
  have r: "request ?x c = block_request READ (b_dev ?h) (b_blocknr ?h) b" "current_request ?x 2 = Some c"
    "b_lock (buffers (bk ?x) b)" "fdd x = fdd s"
    by (simp_all add: x_def asked_def upd_req_def set_bh_def upd_buf_def)
  have i: "init_request 2 ?x = Inr (Some c)"
    unfolding init_request_def r(2) option.case r(1) block_request_def request.simps major_of B(1) using r(3) by simp
  have "unat (b_dev ?h AND 0xff) div 4 = k" using B(2,3) by simp
  then have k: "unat (word_of_int (r_dev (request ?x c)) AND 0xff :: u32) div 4 = k"
    unfolding r(1) block_request_def request.simps minor_of .
  have dv: "FD_CURRENT_DEV (request ?x c) = of_nat drive"
    unfolding FD_CURRENT_DEV_def r(1) block_request_def request.simps by (rule drive_of [OF B(2,3)])
  have rc: "r_sector (request ?x c) = n" "r_cmd (request ?x c) = READ" unfolding r(1) by (simp_all add: block_request_def n_def)
  let ?v = "(fdd s)\<lparr>fd_seek := False\<rparr>"
  have w: "worked_out k drive n ?v = worked_out k drive n (fdd s)" by (simp add: worked_out_def locate_def Let_def)
  have "do_fd_request d m x = fd_loop (Suc NR_REQUEST) d m (do_fd_request d m) ?x"
    using s(2,3) by (simp add: do_fd_request_unfold [of d m x] fd_body_def upd_fd_def r(4) del: fd_loop.simps)
  also have "\<dots> = start_motor d m (do_fd_request d m) (x\<lparr>fdd := worked_out k drive n ?v\<rparr>)"
    unfolding fd_loop.simps i bindk_Inr option.case Let_def k dv rc
    using inside B(5) F(1,2) by (simp add: floppy_def upd_fd_def worked_out_def r(4))
  finally show "do_fd_request d m x = start_motor d m (do_fd_request d m) (x\<lparr>fdd := worked_out k drive n (fdd s)\<rparr>)"
    unfolding w .
qed

text \<open>
  C7: The floppy driver implements reading a block: with the motor on, wherever the head is
  and whatever data rate and SPECIFY bytes the controller was left with, it sets both as the
  type of the disk has them (step rate byte and 6, the rate of the type), seeks or
  recalibrates if the head is elsewhere, and after at most two interrupts the buffer, below
  or above 1 MB, holds the two sectors of the block, up to date and unlocked, no other
  buffer is changed, the drive is idle again and the driver knows where the head and what
  rate and SPECIFY bytes the controller has. The controller is assumed to transfer only when
  it is out of reset with drive and motor selected, rate, SPECIFY bytes, gap and sector
  numbers are those of the disk in it, the head is on the cylinder and the DMA channel is
  set for the transfer.
\<close>

theorem floppy_reads_block:
  assumes s: "floppy_idle s" "floppy_block s b k drive" "motor_on drive (motor s)"
      "\<not> b_lock (buffers (bk s) b)" "\<not> b_uptodate (buffers (bk s) b)"
    and m: "places_ok m (nr_buffers (bk s))" and d: "fdc_ok d (floppy_type ! k) img"
  shows "\<exists>s1 i t. blk_ll_rw_block (\<lambda>_. do_fd_request d m) READ b s = Inr s1 \<and> i \<le> 2 \<and> completions i d m s1 = Inr t \<and>
    bk t = upd_buf b (\<lambda>h. h\<lparr>b_data := (\<lambda>j. if j < 1024
        then img drive (2 * unat (b_blocknr h) + j div 512) (j mod 512) else b_data h j),
      b_uptodate := True, b_dirt := False, b_lock := False\<rparr>) (bk s) \<and>
    floppy_idle t \<and> motor_on drive (motor t) \<and> fc_spec (fdc_of (ios t)) = [fl_spec1 (floppy_type ! k), 6] \<and>
    fc_rate (fdc_of (ios t)) = fl_rate (floppy_type ! k)"
proof -
  let ?h = "buffers (bk s) b"
  define n where "n = push_bit 1 (b_blocknr ?h)"
  have I: "current_request s 2 = None" "has_driver (bk s) 2" "request_free s" "fdc_idle s" "\<not> fd_recalibrate (fdd s)"
    "wait_on_floppy_select (fdd s) = None"
    "current_track (fdd s) = 255 \<or> current_track (fdd s) = fc_pos (fdc_of (ios s)) (unat (current_drive (fdd s)))"
    "rates_known (fdd s) (fdc_of (ios s))" "fc_dor (fdc_of (ios s)) = current_DOR (motor s)"
    using s(1) by (auto simp: floppy_idle_def)
  have B: "MAJOR (b_dev ?h) = 2" "drive < 4" "0 < k" "k < length floppy_type" "b < nr_buffers (bk s)"
    using s(2) by (auto simp: floppy_block_def Let_def)
  have nr: "\<not> fd_reset (fdd s)" using I(4) by (simp add: fdc_idle_def)
  obtain c where c: "empty_request (request_limit (base_cmd READ)) s = Some c" using request_found I(3) by blast
  let ?x = "asked 2 READ b c s"
  have x: "request ?x c = block_request READ (b_dev ?h) (b_blocknr ?h) b" "current_request ?x 2 = Some c" "fdd ?x = fdd s" "ios ?x = ios s"
    "bk ?x = upd_buf b (\<lambda>h. h\<lparr>b_lock := True, b_dirt := False\<rparr>) (bk s)" "nr_buffers (bk ?x) = nr_buffers (bk s)"
    by (simp_all add: asked_def upd_req_def set_bh_def upd_buf_def)
  note rq = do_fd_request_read(1) [OF s(2) nr I(5) n_def refl, where d = d and m = m and c = c]
    do_fd_request_read(2-4) [OF s(2) nr I(5) n_def refl]
  note w = job_worked_out [OF B(3,4,2) rq(2,4) I(5,6)]
  let ?y = "?x\<lparr>fdd := worked_out k drive n (fdd s)\<rparr>"
  have mo: "motor_on drive (motor ?y)" using s(3) by (simp add: w(5))
  have cd: "current_drive (fdd ?y) = of_nat drive" using w(1) by (simp add: job_def Let_def)
  obtain T where T: "motor_on drive T" "current_DOR T = current_DOR (motor ?y)" "start_motor d m (do_fd_request d m) ?y =
      transfer d m (do_fd_request d m) (?y\<lparr>fdd := (fdd ?y)\<lparr>fd_timers := T\<rparr>\<rparr>)"
    using start_motor_on [OF mo cd B(2), of d m "do_fd_request d m"] by blast
  let ?z = "?y\<lparr>fdd := (fdd ?y)\<lparr>fd_timers := T\<rparr>\<rparr>"
  have od: "only_driver ?x ?x" by (simp add: only_driver_def)
  have z: "stage ?x k drive n ?z" "fdc_idle ?z" "current_buffer ?z = Inr (b, 0)"
    using w(1,4,5) nr T(1,2) I(4,9) od x by (simp_all add: stage_def fdc_idle_def current_buffer_def block_request_def)
  have head: "fd_seek (fdd ?z) \<or> seek_track (fdd ?z) = current_track (fdd ?z) \<and>
      (current_track (fdd ?z) = 255 \<or> current_track (fdd ?z) = fc_pos (fdc_of (ios ?z)) drive)"
    using w(2,3) I(7) drive_byte(2) [OF B(2), of 0] x(4) by auto
  have known: "rates_known (fdd ?z) (fdc_of (ios ?z))" using I(8) x(4) by (simp add: w(6))
  have low: "dma_target m (b, 0) < 0x100000"
  proof -
    have a: "tmp_addr m < 0x100000" "buffer_addr m b < 0x1000000" using m B(5) by (auto simp: places_ok_def)
    then have "unat (buffer_addr m b) < 2 ^ 31" by (simp add: word_less_nat_alt)
    from place_high [OF this] show ?thesis using a by (simp add: dma_target_def place_of_def not_le)
  qed
  have start: "blk_ll_rw_block (\<lambda>_. do_fd_request d m) READ b s = transfer d m (do_fd_request d m) ?z"
    using idle_transfer [OF B(1) _ I(2,1) s(4) _ c, of "\<lambda>_. do_fd_request d m"] s(5) rq(1) T(3) by (simp add: NR_BLK_DEV_def)
  obtain s1 where s1: "transfer d m (do_fd_request d m) ?z = Inr s1" "seeking ?x k drive n s1 \<or> reading ?x k drive n m b s1"
    using starts_transfer [OF d z known head low, of "do_fd_request d m"] by blast
  have frame: "current_buffer t = Inr (b, 0)" "current_request t 2 = Some c" "request t c = request ?x c" "bk t = bk ?x" "request t = request ?x"
    if "only_driver ?x t" for t
  proof -
    have t: "t = ?x\<lparr>fdd := fdd t, ios := ios t\<rparr>" using that by (simp add: only_driver_def)
    show "current_buffer t = Inr (b, 0)" by (subst t) (simp add: current_buffer_def x(1,2) block_request_def)
    show "current_request t 2 = Some c" "request t c = request ?x c" "bk t = bk ?x" "request t = request ?x"
      by (subst t, simp add: x(2))+
  qed
  have drv: "only_driver ?x t" if "seeking ?x k drive n t \<or> reading ?x k drive n m b t" for t
    using that by (auto simp: seeking_def reading_def stage_def)
  obtain i u where u: "i \<le> 1" "completions i d m s1 = Inr u" "reading ?x k drive n m b u"
  proof (cases "reading ?x k drive n m b s1")
    case True
    then show ?thesis by (intro that [of 0 s1]) simp_all
  next
    case False
    then have "seeking ?x k drive n s1" using s1(2) by simp
    then obtain u where "completion d m s1 = Inr u" "reading ?x k drive n m b u"
      using seek_done [OF d _ frame(1) [OF drv [OF s1(2)]] low] by blast
    then show ?thesis by (intro that [of 1 u]) simp_all
  qed
  note U = frame [OF drv [OF disjI2, OF u(3)]]
  have q: "current_request u 2 = Some c" "r_next (request u c) = None" "r_bh (request u c) = Some b" "r_buffer (request u c) = 0"
    unfolding U(2,3) x(1) by (simp_all add: block_request_def)
  have mu: "places_ok m (nr_buffers (bk u))" "b < nr_buffers (bk u)" unfolding U(4) x(6) by (rule m B(5))+
  obtain v l where v: "completion d m u =
      Inr ((upd_req c (\<lambda>r. r\<lparr>r_dev := - 1\<rparr>) (set_bh b (\<lambda>h. h\<lparr>b_uptodate := True, b_lock := False\<rparr>)
           (u\<lparr>bk := into_buffer b (\<lambda>i. img drive (unat n + i div 512) (i mod 512)) (bk u)\<rparr>)))
        \<lparr>current_request := (current_request u)(2 := None), fdd := v, ios := l\<rparr>)" (is "_ = Inr ?t") "fd_rest drive v l"
    "fc_spec (fdc_of l) = [fl_spec1 (floppy_type ! k), 6]" "fc_rate (fdc_of l) = fl_rate (floppy_type ! k)"
    using read_done [OF d u(3) q mu] by blast
  have run: "completions (Suc i) d m s1 = Inr ?t"
  proof -
    show ?thesis by (simp only: completions_Suc_right u(2) v(1) bindk_Inr)
  qed
  have bk: "bk ?t = upd_buf b (\<lambda>h. h\<lparr>b_data := (\<lambda>j. if j < 1024
        then img drive (2 * unat (b_blocknr h) + j div 512) (j mod 512) else b_data h j),
      b_uptodate := True, b_dirt := False, b_lock := False\<rparr>) (bk s)"
    unfolding rq(3) by (cases "buffers (bk s) b") (simp add: upd_req_def set_bh_def U(4) x(5) into_buffer_def upd_buf_def cong: if_cong)
  have "floppy_idle ?t"
  proof -
    have "request_free ?t" using I(3)
      unfolding request_free_def upd_req_def
      by (auto simp: U(5) asked_def upd_req_def set_bh_def)
    then show ?thesis
      using I(2) v(2) drive_byte(2) [OF B(2), of 0]
      by (simp add: floppy_idle_def fd_rest_def fdc_idle_def upd_req_def set_bh_def U(4) x(5) upd_buf_def into_buffer_def)
  qed
  moreover have "motor_on drive (motor ?t)" using v(2) by (simp add: fd_rest_def)
  moreover have "ios ?t = l" by simp
  ultimately show ?thesis
    using start s1(1) run bk u(1) v(3,4) by (intro exI [of _ s1] exI [of _ "Suc i"] exI [of _ ?t]) simp
qed

section \<open>Example\<close>

text \<open>
  Drive 0 with a 1.44 MB disk whose sectors are filled with their number; its motor is on and the
  driver does not know where the head is. The buffers are above 1 MB.
\<close>

definition ex_sector :: "nat \<Rightarrow> nat \<Rightarrow> block" where
  "ex_sector drive sector k = of_nat sector"

definition ex_fdc :: device where
  "ex_fdc = \<lparr>dev_byte = (\<lambda>h p. if p = FD_STATUS then ready_status (fdc_of h)
       else if p = FD_DATA \<and> fc_reply (fdc_of h) \<noteq> [] then hd (fc_reply (fdc_of h)) else 0),
     dev_data = (\<lambda>h k. let c = fc_rw (fdc_of h) in
       ex_sector (unat (c ! 1 AND 3))
         ((unat (c ! 2) * 2 + unat (c ! 3)) * unat (c ! 6) + unat (c ! 4) - 1 + k div 512) (k mod 512))\<rparr>"

lemma ex_fdc_ok: "fdc_ok ex_fdc g ex_sector"
proof -
  have "ready_status f AND 0xD0 = ready_status f" for f by (simp add: ready_status_def)
  then show ?thesis by (auto simp: fdc_ok_def ex_fdc_def transfers_def Let_def)
qed

definition ex_floppy :: blk where
  "ex_floppy = \<lparr>bk = ex_kst\<lparr>buffers := (\<lambda>_. ex_buffer\<lparr>b_dev := 0x21c, b_blocknr := 17\<rparr>), has_driver := (\<lambda>m. m = 2), nr_buffers := 2\<rparr>,
     request = (\<lambda>_. \<lparr>r_dev = - 1, r_cmd = READ, r_errors = 0, r_sector = 0, r_nr_sectors = 0, r_buffer = 0, r_bh = None, r_next = None\<rparr>),
     current_request = (\<lambda>_. None), rd_start = 0, rd_length = 0, rd_mem = (\<lambda>_. 0), hdd = ex_hd,
     fdd = ex_fd\<lparr>fd_timers := ex_timers\<lparr>current_DOR := 0x1c\<rparr>\<rparr>, ios = [Out FD_DOR 0x1c]\<rparr>"

definition ex_place :: fd_place where
  "ex_place = \<lparr>buffer_addr = (\<lambda>b. 0x200000 + 0x400 * of_nat b), tmp_addr = 0x5000\<rparr>"

lemma ex_floppy_ok: "floppy_idle ex_floppy" "floppy_block ex_floppy 1 7 0" "motor_on 0 (motor ex_floppy)"
  "\<not> b_lock (buffers (bk ex_floppy) 1)" "\<not> b_uptodate (buffers (bk ex_floppy) 1)" "places_ok ex_place (nr_buffers (bk ex_floppy))"
  by (simp_all add: floppy_idle_def ex_floppy_def ex_fd_def ex_timers_def request_free_def request_limit_def NR_REQUEST_def fdc_idle_def
      floppy_block_def MAJOR_def ex_buffer_def floppy_type_def fl_def motor_on_def rates_known_def fdc_event_def)
    (auto simp: places_ok_def ex_place_def apart_def less_2_cases_iff intro: exI [of _ 0])

theorem floppy_reads_block_witness:
  "\<exists>s1 i t. blk_ll_rw_block (\<lambda>_. do_fd_request ex_fdc ex_place) READ 1 ex_floppy = Inr s1 \<and>
     completions i ex_fdc ex_place s1 = Inr t \<and> b_uptodate (buffers (bk t) 1) \<and>
     b_data (buffers (bk t) 1) 0 = 34 \<and> b_data (buffers (bk t) 1) 1023 = 35"
proof -
  have "b_blocknr (buffers (bk ex_floppy) 1) = 17" by (simp add: ex_floppy_def)
  with floppy_reads_block [OF ex_floppy_ok ex_fdc_ok] show ?thesis
    by (fastforce simp: upd_buf_def ex_sector_def)
qed

end
