(* ===== verification/Phys_Bytes.thy ===== *)
theory Phys_Bytes imports Usermem begin

text \<open>
  Bytes of physical memory, which the model keeps as aligned longs: what \<open>load8\<close> reads after
  \<open>store8\<close> and after a page is cleared, and that bytes of different page frames are different bytes.
\<close>

lemma and3_less: "unat (a AND 3 :: u32) < 4"
proof -
  have "a AND 3 = take_bit 2 a" by (simp add: take_bit_eq_mask mask_eq_exp_minus_1)
  then have "a AND 3 = a mod 4" by (simp add: take_bit_eq_mod)
  then show ?thesis by (simp add: unat_mod)
qed

lemma ff_mask: "(0xff :: u32) = mask 8"
  by (simp add: mask_eq_exp_minus_1)

lemma bit_u8_less: "bit (v :: u8) n \<Longrightarrow> n < 8"
  using bit_imp_le_length [of v n] by simp

lemmas byte_defs = load8_def store8_def [unfolded ff_mask] store_def Let_def

lemma load8_store8: "load8 a (store8 a v m) = v"
proof (rule bit_word_eqI)
  fix n assume "n < LENGTH(8)"
  then show "bit (load8 a (store8 a v m)) n = bit v n"
    using and3_less [of a]
    by (auto simp: byte_defs bit_simps dest: bit_u8_less)
qed

lemma load8_store8_other:
  assumes "a \<noteq> b"
  shows "load8 b (store8 a v m) = load8 b m"
proof (cases "a AND NOT 3 = b AND NOT 3")
  case False
  then show ?thesis by (simp add: load8_def store8_def store_def Let_def)
next
  case True
  have "a = (a AND NOT 3) OR (a AND 3)" "b = (b AND NOT 3) OR (b AND 3)" for a b :: u32
    by (rule bit_word_eqI; auto simp: bit_simps)+
  then have "unat (a AND 3) \<noteq> unat (b AND 3)" using True assms by (metis word_unat_eq_iff)
  moreover have "unat (a AND 3) < 4" "unat (b AND 3) < 4" by (rule and3_less)+
  ultimately have ij: "8 * unat (b AND 3) + n - 8 * unat (a AND 3) \<ge> 8 \<or> 8 * unat (b AND 3) + n < 8 * unat (a AND 3)"
    if "n < 8" for n using that by linarith
  show ?thesis
  proof (rule bit_word_eqI)
    fix n assume "n < LENGTH(8)"
    then show "bit (load8 b (store8 a v m)) n = bit (load8 b m) n"
      using and3_less [of b] ij [of n] True
      by (auto simp: byte_defs bit_simps dest: bit_u8_less)
  qed
qed

section \<open>Bytes of page frames\<close>

lemma unat_frame_byte: "i < PAGING_PAGES \<Longrightarrow> k < 4096 \<Longrightarrow> unat (page_of i + of_nat k) = (i + 256) * 4096 + k"
  by (simp add: unat_word_ariths unat_page_of unat_of_nat PAGING_PAGES_def)

lemma frame_byte_inj:
  assumes "i < PAGING_PAGES" "j < PAGING_PAGES" "k < 4096" "l < 4096" "page_of i + of_nat k = page_of j + of_nat l"
  shows "i = j \<and> k = l"
proof -
  have eq: "(i + 256) * 4096 + k = (j + 256) * 4096 + l"
    using assms unat_frame_byte [of i k] unat_frame_byte [of j l] by simp
  have "((i + 256) * 4096 + k) div 4096 = i + 256" "((j + 256) * 4096 + l) div 4096 = j + 256"
    using assms(3,4) by (simp_all add: div_mult_self3)
  then have "i + 256 = j + 256" unfolding eq by (rule trans [OF sym])
  then show ?thesis using eq by simp
qed

lemma three_mask: "3 = (mask 2 :: u32)"
  by (simp add: mask_eq_exp_minus_1)

lemma frame_of_byte: "i < PAGING_PAGES \<Longrightarrow> k < 4096 \<Longrightarrow> frame (page_of i + of_nat k) = page_of i"
  unfolding word_unat_eq_iff unat_frame unat_frame_byte unat_page_of by (simp only: div_mult_self3) simp

lemma load8_clear_other: "frame a \<noteq> p \<Longrightarrow> load8 a (clear_page p m) = load8 a m"
proof -
  assume a: "frame a \<noteq> p"
  have "frame (a AND NOT 3) = frame a"
    by (rule bit_word_eqI) (auto simp: bit_simps three_mask)
  then show ?thesis using a by (simp add: load8_def)
qed

lemma load8_map_set [simp]: "load8 a (map_set i v m) = load8 a m"
  by (simp add: load8_def)

lemma store8_mem_map [simp]: "mem_map (store8 a v m) = mem_map m" "HIGH_MEMORY (store8 a v m) = HIGH_MEMORY m"
  by (simp_all add: store8_def Let_def)

end
