(* ===== verification/Exec_Args.thy ===== *)
theory Exec_Args imports Exec_Lemmas Phys_Bytes begin

text \<open>
  \<open>copy_strings\<close> of fs/exec.c: the strings of an argument array end up one behind the other in the
  argument pages, each with its final zero, below the byte where the copy started.
\<close>

section \<open>The argument pages\<close>

text \<open>The byte at offset \<open>a\<close> of the argument pages, when the page it lies on is there.\<close>

definition arg_byte :: "(nat \<Rightarrow> u32) \<Rightarrow> mm \<Rightarrow> nat \<Rightarrow> u8 option" where
  "arg_byte page m a =
     (if page (a div 4096) = 0 then None else Some (load8 (page (a div 4096) + of_nat (a mod 4096)) m))"

text \<open>The pages are page frames in use, all different.\<close>

definition pages_ok :: "(nat \<Rightarrow> u32) \<Rightarrow> mm \<Rightarrow> bool" where
  "pages_ok page m \<longleftrightarrow>
     (\<forall>n < MAX_ARG_PAGES. page n \<noteq> 0 \<longrightarrow> (\<exists>i < PAGING_PAGES. page n = page_of i \<and> mem_map m i \<noteq> 0)) \<and>
     (\<forall>n < MAX_ARG_PAGES. \<forall>k < MAX_ARG_PAGES. page n = page k \<and> page n \<noteq> 0 \<longrightarrow> n = k)"

definition cursor_ok :: "arg_state \<Rightarrow> bool" where
  "cursor_ok g \<longleftrightarrow> pages_ok (g_page g) (g_mem g) \<and> unat (g_p g) \<le> 131072 \<and> 0 \<le> g_offset g \<and>
     (0 < g_offset g \<longrightarrow> g_offset g = int (unat (g_p g) mod 4096) \<and> g_pag g = g_page g (unat (g_p g) div 4096) \<and> g_pag g \<noteq> 0)"

lemma arg_frame:
  assumes "pages_ok page m" "a < 131072" "page (a div 4096) \<noteq> 0"
  obtains i where "i < PAGING_PAGES" "page (a div 4096) = page_of i" "mem_map m i \<noteq> 0"
proof -
  have "a div 4096 < MAX_ARG_PAGES" using assms(2) by (simp add: MAX_ARG_PAGES_def)
  then show ?thesis using assms(1,3) that by (auto simp: pages_ok_def)
qed

text \<open>A byte written into a page that is there.\<close>

lemma arg_byte_store:
  assumes "pages_ok page m" "a < 131072" "b < 131072" "page (a div 4096) \<noteq> 0"
  shows "arg_byte page (store8 (page (a div 4096) + of_nat (a mod 4096)) v m) b =
    (if b = a then Some v else arg_byte page m b)"
proof (cases "page (b div 4096) = 0 \<or> b = a")
  case True
  then show ?thesis using assms(4) by (auto simp: arg_byte_def load8_store8)
next
  case False
  obtain i where i: "i < PAGING_PAGES" "page (a div 4096) = page_of i"
    using assms(1,2,4) by (rule arg_frame)
  obtain j where j: "j < PAGING_PAGES" "page (b div 4096) = page_of j"
    using assms(1,3) False by (auto elim: arg_frame)
  have "page (a div 4096) + of_nat (a mod 4096) \<noteq> page (b div 4096) + of_nat (b mod 4096)"
  proof
    assume eq: "page (a div 4096) + of_nat (a mod 4096) = page (b div 4096) + of_nat (b mod 4096)"
    then have "i = j \<and> a mod 4096 = b mod 4096"
      using i j by (intro frame_byte_inj) auto
    moreover have "a div 4096 < MAX_ARG_PAGES" "b div 4096 < MAX_ARG_PAGES"
      using assms(2,3) by (simp_all add: MAX_ARG_PAGES_def)
    ultimately have "a div 4096 = b div 4096" "a mod 4096 = b mod 4096"
      using assms(1,4) i(2) j(2) unfolding pages_ok_def by metis+
    then have "a = b" by (metis div_mod_decomp)
    then show False using False by simp
  qed
  then show ?thesis using False by (simp add: arg_byte_def load8_store8_other)
qed

text \<open>A page that was not there, allocated for the byte at \<open>a\<close>.\<close>

lemma fresh_page:
  assumes ok: "pages_ok page m" "a < 131072" and g: "get_free_page m = (pag, m')"
    and none: "page (a div 4096) = 0" "pag \<noteq> 0"
  shows "pages_ok (page(a div 4096 := pag)) m'"
    and "b < 131072 \<Longrightarrow> arg_byte page m b \<noteq> None \<Longrightarrow> arg_byte (page(a div 4096 := pag)) m' b = arg_byte page m b"
proof -
  obtain i where i: "i < PAGING_PAGES" "mem_map m i = 0" "pag = page_of i" "m' = clear_page (page_of i) (map_set i 1 m)"
    using g none(2) by (cases m rule: get_free_page_cases) auto
  have old: "\<exists>j < PAGING_PAGES. page n = page_of j \<and> mem_map m j \<noteq> 0 \<and> j \<noteq> i" if "n < MAX_ARG_PAGES" "page n \<noteq> 0" for n
    using ok(1) that i(2) unfolding pages_ok_def by metis
  have new: "page n \<noteq> pag" if "n < MAX_ARG_PAGES" for n
    using old [OF that] none(2) i(1,3) page_of_props(2) by metis
  show "pages_ok (page(a div 4096 := pag)) m'"
    unfolding pages_ok_def
  proof (intro conjI allI impI)
    fix n assume n: "n < MAX_ARG_PAGES" "(page(a div 4096 := pag)) n \<noteq> 0"
    show "\<exists>j < PAGING_PAGES. (page(a div 4096 := pag)) n = page_of j \<and> mem_map m' j \<noteq> 0"
    proof (cases "n = a div 4096")
      case True
      then show ?thesis using i(1,3) by (auto simp: i(4))
    next
      case False
      then obtain j where "j < PAGING_PAGES" "page n = page_of j" "mem_map m j \<noteq> 0" "j \<noteq> i" using old n by auto
      then show ?thesis using False by (auto simp: i(4))
    qed
  next
    fix n k assume n: "n < MAX_ARG_PAGES" "k < MAX_ARG_PAGES"
      and eq: "(page(a div 4096 := pag)) n = (page(a div 4096 := pag)) k \<and> (page(a div 4096 := pag)) n \<noteq> 0"
    show "n = k"
    proof (cases "n = a div 4096 \<or> k = a div 4096")
      case True
      then show ?thesis using eq new n by (auto split: if_splits)
    next
      case False
      then show ?thesis using eq n ok(1) by (auto simp: pages_ok_def)
    qed
  qed
  assume b: "b < 131072" "arg_byte page m b \<noteq> None"
  then have "page (b div 4096) \<noteq> 0" and "b div 4096 < MAX_ARG_PAGES"
    by (auto simp: arg_byte_def MAX_ARG_PAGES_def split: if_splits)
  then obtain j where j: "j < PAGING_PAGES" "page (b div 4096) = page_of j" "j \<noteq> i" using old by blast
  have "frame (page_of j + of_nat (b mod 4096)) \<noteq> page_of i"
    using j(1,3) i(1) page_of_props(2) by (metis frame_of_byte mod_less_divisor zero_less_numeral)
  then show "arg_byte (page(a div 4096 := pag)) m' b = arg_byte page m b"
    using none(1) j b by (auto simp: arg_byte_def i(4) load8_clear_other page_of_props)
qed

section \<open>Copying a string\<close>

definition no_free :: "mm \<Rightarrow> bool" where
  "no_free m \<longleftrightarrow> (\<forall>i < PAGING_PAGES. mem_map m i \<noteq> 0)"

text \<open>The argument bytes of two states agree, except at some offsets, as far as the first state has them.\<close>

definition args_kept :: "(nat \<Rightarrow> bool) \<Rightarrow> arg_state \<Rightarrow> arg_state \<Rightarrow> bool" where
  "args_kept except g g' \<longleftrightarrow> (\<forall>b < 131072. \<not> except b \<longrightarrow> arg_byte (g_page g) (g_mem g) b \<noteq> None \<longrightarrow>
     arg_byte (g_page g') (g_mem g') b = arg_byte (g_page g) (g_mem g) b)"

lemma pages_ok_store [simp]: "pages_ok page (store8 a v m) = pages_ok page m"
  by (simp add: pages_ok_def)

lemma copy_byte_step:
  assumes ok: "cursor_ok g" and p: "unat (g_p g) = Suc a"
  shows "(\<exists>g'. copy_bytes (Suc len) str g = Inr (False, g') \<and> no_free (g_mem g')) \<or>
    (\<exists>g'. copy_bytes (Suc len) str g = copy_bytes len str g' \<and> cursor_ok g' \<and> unat (g_p g') = a \<and>
       g_p g' = g_p g - 1 \<and>
       arg_byte (g_page g') (g_mem g') a = Some (str len) \<and> args_kept (\<lambda>b. b = a) g g')"
proof -
  let ?p = "g_p g - 1" and ?n = "a div 4096"
  have a: "a < 131072" using ok p by (simp add: cursor_ok_def)
  have up: "unat ?p = a" using unat_minus_nat [of 1 "g_p g"] p by simp
  have pos: "unat (?p div PAGE_SIZE) = ?n" "unat (?p mod PAGE_SIZE) = a mod 4096"
    by (simp_all add: unat_div unat_mod up PAGE_SIZE_def)
  have n: "\<not> MAX_ARG_PAGES \<le> ?n" using a by (simp add: MAX_ARG_PAGES_def)
  have pages: "pages_ok (g_page g) (g_mem g)" using ok by (simp add: cursor_ok_def)
  let ?g = "\<lambda>page m. g\<lparr>g_p := ?p, g_offset := int (a mod 4096), g_pag := page ?n, g_page := page,
    g_mem := store8 (page ?n + of_nat (a mod 4096)) (str len) m\<rparr>"
  have fin: "cursor_ok (?g page m) \<and> arg_byte page (g_mem (?g page m)) a = Some (str len) \<and>
      args_kept (\<lambda>b. b = a) g (?g page m)"
    if "pages_ok page m" "page ?n \<noteq> 0" "args_kept (\<lambda>b. b = a) g (g\<lparr>g_page := page, g_mem := m\<rparr>)" for page m
    using that a by (auto simp: cursor_ok_def up args_kept_def arg_byte_store)
  show ?thesis
  proof (cases "g_offset g = 0")
    case False
    then have "g_offset g = int (Suc a mod 4096)" "g_pag g = g_page g (Suc a div 4096)" "g_pag g \<noteq> 0" "0 < g_offset g"
      using ok by (auto simp: cursor_ok_def p)
    then have o: "g_offset g - 1 = int (a mod 4096)" "g_pag g = g_page g ?n" "g_page g ?n \<noteq> 0"
      by (auto simp: mod_Suc div_Suc split: if_splits)
    have "copy_bytes (Suc len) str g = copy_bytes len str (?g (g_page g) (g_mem g))"
      by (simp add: Let_def o(1,2)) (simp flip: o(2))
    then show ?thesis
      using fin [OF pages o(3)] by (auto simp: up args_kept_def)
  next
    case True
    show ?thesis
    proof (cases "g_page g ?n = 0")
      case False
      have "copy_bytes (Suc len) str g = copy_bytes len str (?g (g_page g) (g_mem g))"
        using False True n by (simp add: Let_def pos)
      then show ?thesis
        using fin [OF pages False] by (auto simp: up args_kept_def)
    next
      case none: True
      obtain pag m where g: "get_free_page (g_mem g) = (pag, m)" by force
      show ?thesis
      proof (cases "pag = 0")
        case True
        then have "no_free m" using g by (cases "g_mem g" rule: get_free_page_cases) (auto simp: no_free_def page_of_props)
        then show ?thesis using True \<open>g_offset g = 0\<close> none n by (auto simp: Let_def pos g)
      next
        case False
        let ?page = "(g_page g)(?n := pag)"
        have run: "copy_bytes (Suc len) str g = copy_bytes len str (?g ?page m)"
          using False True none n by (simp add: Let_def pos g)
        note fresh = fresh_page [OF pages a g none False]
        have "args_kept (\<lambda>b. b = a) g (g\<lparr>g_page := ?page, g_mem := m\<rparr>)"
          using fresh(2) by (simp add: args_kept_def)
        then show ?thesis using fin [OF fresh(1)] run False by (auto simp: up)
      qed
    qed
  qed
qed

lemma args_kept_trans:
  "args_kept E g1 g2 \<Longrightarrow> args_kept F g2 g3 \<Longrightarrow> (\<And>b. E b \<or> F b \<Longrightarrow> G b) \<Longrightarrow> args_kept G g1 g3"
  unfolding args_kept_def by metis

lemma copy_bytes_layout:
  assumes "cursor_ok g" "unat (g_p g) = a + len"
  shows "\<exists>ok g'. copy_bytes len str g = Inr (ok, g') \<and>
    (if ok then cursor_ok g' \<and> g_p g' = g_p g - of_nat len \<and> unat (g_p g') = a \<and>
       (\<forall>i < len. arg_byte (g_page g') (g_mem g') (a + i) = Some (str i)) \<and>
       args_kept (\<lambda>b. a \<le> b \<and> b < a + len) g g'
     else no_free (g_mem g'))"
  using assms
proof (induction len arbitrary: g)
  case 0
  then show ?case by (auto simp: args_kept_def)
next
  case (Suc len)
  have "unat (g_p g) = Suc (a + len)" using Suc.prems(2) by simp
  from copy_byte_step [OF Suc.prems(1) this, of len str] show ?case
  proof (elim disjE exE conjE)
    fix g1 assume step: "copy_bytes (Suc len) str g = copy_bytes len str g1" "cursor_ok g1" "unat (g_p g1) = a + len"
      "g_p g1 = g_p g - 1" "arg_byte (g_page g1) (g_mem g1) (a + len) = Some (str len)" "args_kept (\<lambda>b. b = a + len) g g1"
    obtain ok g' where g': "copy_bytes len str g1 = Inr (ok, g')"
      and post: "if ok then cursor_ok g' \<and> g_p g' = g_p g1 - of_nat len \<and> unat (g_p g') = a \<and>
         (\<forall>i < len. arg_byte (g_page g') (g_mem g') (a + i) = Some (str i)) \<and>
         args_kept (\<lambda>b. a \<le> b \<and> b < a + len) g1 g'
       else no_free (g_mem g')"
      using Suc.IH [OF step(2,3)] by blast
    show ?thesis
    proof (cases ok)
      case True
      have "unat (g_p g) \<le> 131072" using Suc.prems(1) by (simp add: cursor_ok_def)
      then have last: "arg_byte (g_page g') (g_mem g') (a + len) = Some (str len)"
        using post True step(5) Suc.prems(2) by (auto simp: args_kept_def)
      have "args_kept (\<lambda>b. a \<le> b \<and> b < a + Suc len) g g'"
        using post True by (intro args_kept_trans [OF step(6)]) auto
      then show ?thesis using g' post True last step(1,4) by (auto simp: less_Suc_eq algebra_simps)
    qed (use g' post step(1) in auto)
  qed auto
qed

section \<open>Copying an array of strings\<close>

text \<open>The array slots \<open>arr\<close> point to the strings \<open>ss\<close> in the memory \<open>m\<close>.\<close>

definition points_to :: "(nat \<Rightarrow> u32) \<Rightarrow> (u32 \<Rightarrow> u8) \<Rightarrow> u8 list list \<Rightarrow> bool" where
  "points_to arr m ss \<longleftrightarrow>
     (\<forall>k < length ss. arr k \<noteq> 0 \<and> 0 \<notin> set (ss ! k) \<and> bytes_at m (arr k) (ss ! k @ [0]))"

lemma points_to_snoc:
  "points_to arr m (ss @ [xs]) \<longleftrightarrow> points_to arr m ss \<and> arr (length ss) \<noteq> 0 \<and> 0 \<notin> set xs \<and>
     bytes_at m (arr (length ss)) (xs @ [0])"
  by (auto simp: points_to_def nth_append less_Suc_eq simp del: bytes_at_append)

lemma copy_each_layout:
  assumes "points_to arr m ss" "cursor_ok g" "unat (g_p g) = a + length (c_strings ss)"
  shows "\<exists>ok g'. copy_each (length ss) arr m g = Inr (ok, g') \<and>
    (if ok then cursor_ok g' \<and> g_p g' = g_p g - of_nat (length (c_strings ss)) \<and> unat (g_p g') = a \<and>
       (\<forall>i < length (c_strings ss). arg_byte (g_page g') (g_mem g') (a + i) = Some (c_strings ss ! i)) \<and>
       args_kept (\<lambda>b. a \<le> b \<and> b < a + length (c_strings ss)) g g'
     else no_free (g_mem g'))"
  using assms
proof (induction ss arbitrary: g rule: rev_induct)
  case Nil
  then show ?case by (auto simp: args_kept_def)
next
  case (snoc xs ss)
  let ?arr = "arr (length ss)" and ?n = "Suc (length xs)" and ?b = "a + length (c_strings ss)"
  have small: "unat (g_p g) \<le> 131072" using snoc.prems(2) by (simp add: cursor_ok_def)
  have str: "?arr \<noteq> 0" "0 \<notin> set xs" "bytes_at m ?arr (xs @ [0])" "points_to arr m ss"
    using snoc.prems(1) by (simp_all add: points_to_snoc)
  have len: "str_len 4294967296 ?arr m = Inr ?n"
    using str(3,2) by (rule str_len_bytes) (use snoc.prems(3) small in simp)
  have byte: "m (?arr + of_nat i) = (xs @ [0]) ! i" if "i < ?n" for i
    using str(3) that unfolding bytes_at_def by simp
  obtain ok1 g1 where g1: "copy_bytes ?n (\<lambda>i. m (?arr + of_nat i)) g = Inr (ok1, g1)"
    and post1: "if ok1 then cursor_ok g1 \<and> g_p g1 = g_p g - of_nat ?n \<and> unat (g_p g1) = ?b \<and>
       (\<forall>i < ?n. arg_byte (g_page g1) (g_mem g1) (?b + i) = Some (m (?arr + of_nat i))) \<and>
       args_kept (\<lambda>b. ?b \<le> b \<and> b < ?b + ?n) g g1
     else no_free (g_mem g1)"
    using copy_bytes_layout [OF snoc.prems(2), of ?b ?n "\<lambda>i. m (?arr + of_nat i)"] snoc.prems(3)
    by (auto simp del: copy_bytes.simps of_nat_Suc)
  have run: "copy_each (length (ss @ [xs])) arr m g = (if ok1 then copy_each (length ss) arr m g1 else Inr (False, g1))"
    using str(1) by (simp add: len g1 del: copy_bytes.simps)
  show ?case
  proof (cases ok1)
    case False
    then show ?thesis using run post1 by auto
  next
    case True
    then have s1: "cursor_ok g1" "unat (g_p g1) = ?b" "g_p g1 = g_p g - of_nat ?n"
      and new: "\<And>i. i < ?n \<Longrightarrow> arg_byte (g_page g1) (g_mem g1) (?b + i) = Some ((xs @ [0]) ! i)"
      and k1: "args_kept (\<lambda>b. ?b \<le> b \<and> b < ?b + ?n) g g1"
      using post1 byte by auto
    obtain ok g' where g': "copy_each (length ss) arr m g1 = Inr (ok, g')"
      and post: "if ok then cursor_ok g' \<and> g_p g' = g_p g1 - of_nat (length (c_strings ss)) \<and> unat (g_p g') = a \<and>
         (\<forall>i < length (c_strings ss). arg_byte (g_page g') (g_mem g') (a + i) = Some (c_strings ss ! i)) \<and>
         args_kept (\<lambda>b. a \<le> b \<and> b < ?b) g1 g'
       else no_free (g_mem g')"
      using snoc.IH [OF str(4) s1(1,2)] by blast
    show ?thesis
    proof (cases ok)
      case False
      then show ?thesis using g' post run True by auto
    next
      case ok: True
      have "args_kept (\<lambda>b. a \<le> b \<and> b < a + length (c_strings (ss @ [xs]))) g g'"
        by (rule args_kept_trans [OF k1]) (use post ok in auto)
      moreover have "arg_byte (g_page g') (g_mem g') (a + i) = Some (c_strings (ss @ [xs]) ! i)"
        if i: "i < length (c_strings (ss @ [xs]))" for i
      proof (cases "i < length (c_strings ss)")
        case True
        then show ?thesis using post ok by (simp add: nth_append)
      next
        case False
        define k where "k = i - length (c_strings ss)"
        have k: "a + i = ?b + k" "k < ?n" "i = length (c_strings ss) + k" using i False by (auto simp: k_def)
        have "arg_byte (g_page g') (g_mem g') (?b + k) = arg_byte (g_page g1) (g_mem g1) (?b + k)"
          using post ok new [OF k(2)] k(2) small snoc.prems(3) by (auto simp: args_kept_def)
        then show ?thesis using new [OF k(2)] by (simp add: k(1)) (simp add: k(3) nth_append)
      qed
      ultimately show ?thesis
        using g' post ok run True s1(3) by (auto simp: algebra_simps)
    qed
  qed
qed

text \<open>
  C25: copy_strings puts the strings of an argument array one behind the other, each with
  its final zero, into the argument pages directly below the byte where it started and keeps
  what the pages held above; it returns the start of the first, or 0 when the page frames
  are used up. Assumed: the strings with their zeros are shorter than p, so at least one
  byte is left below them and the subtraction p - len never wraps; the test p-len < 0 of the
  code, made on an unsigned value, cannot stop longer ones.
\<close>

theorem copy_strings_layout:
  assumes "points_to arr m ss" "pages_ok page (mem s)" "length (c_strings ss) < unat p" "unat p \<le> 131072"
  shows "\<exists>p' page' s'. copy_strings (length ss) arr m page p s = Inr (p', page', s') \<and>
    (p' = 0 \<and> no_free (mem s') \<or>
     unat p' = unat p - length (c_strings ss) \<and> pages_ok page' (mem s') \<and> s' = s\<lparr>mem := mem s'\<rparr> \<and>
     (\<forall>i < length (c_strings ss). arg_byte page' (mem s') (unat p' + i) = Some (c_strings ss ! i)) \<and>
     (\<forall>b < 131072. unat p \<le> b \<longrightarrow> arg_byte page (mem s) b \<noteq> None \<longrightarrow>
       arg_byte page' (mem s') b = arg_byte page (mem s) b))"
proof -
  let ?g = "\<lparr>g_p = p, g_offset = 0, g_pag = 0, g_page = page, g_mem = mem s\<rparr>"
  let ?a = "unat p - length (c_strings ss)"
  have "cursor_ok ?g" using assms(2,4) by (simp add: cursor_ok_def)
  moreover have "unat (g_p ?g) = ?a + length (c_strings ss)" using assms(3) by simp
  ultimately obtain ok g where g: "copy_each (length ss) arr m ?g = Inr (ok, g)"
    and post: "if ok then cursor_ok g \<and> g_p g = g_p ?g - of_nat (length (c_strings ss)) \<and> unat (g_p g) = ?a \<and>
         (\<forall>i < length (c_strings ss). arg_byte (g_page g) (g_mem g) (?a + i) = Some (c_strings ss ! i)) \<and>
         args_kept (\<lambda>b. ?a \<le> b \<and> b < ?a + length (c_strings ss)) ?g g
       else no_free (g_mem g)"
    using copy_each_layout [OF assms(1)] by blast
  have "p \<noteq> 0" using assms(3) by auto
  then have "copy_strings (length ss) arr m page p s = Inr (if ok then g_p g else 0, g_page g, s\<lparr>mem := g_mem g\<rparr>)"
    by (simp add: copy_strings_def g)
  then show ?thesis using post assms(3) by (cases ok) (auto simp: cursor_ok_def args_kept_def)
qed

text \<open>Two strings of the user memory of \<open>ex_args\<close>, copied where \<open>do_execve\<close> starts.\<close>

lemma ex_args_points: "points_to (\<lambda>k. if k = 0 then 0x1001 else 0x1003) (umem ex_args) [[97], [98]]"
  by (simp add: points_to_def All_less_Suc2 ex_args_def)

theorem copy_strings_layout_witness:
  "\<exists>p' page' s'. copy_strings (Suc (Suc 0)) (\<lambda>k. if k = 0 then 0x1001 else 0x1003) (umem ex_args) (\<lambda>_. 0) 0x1fffc ex_args
      = Inr (p', page', s') \<and> (p' = 0 \<or> p' = 0x1fff8 \<and> arg_byte page' (mem s') 0x1fffa = Some 98)"
proof -
  have "pages_ok (\<lambda>_. 0) (mem ex_args)" by (simp add: pages_ok_def)
  from copy_strings_layout [OF ex_args_points this, of "0x1fffc"] show ?thesis
    by (simp add: word_unat_eq_iff) (fastforce dest: spec [of _ 2])
qed

end
