(* ===== verification/Ring.thy ===== *)
theory Ring imports Prelude begin

text \<open>
  Ring buffers, the data structure of the terminal queues (include/linux/tty.h) and of pipes
  (fs/pipe.c). Locale \<open>ring\<close> says how a state is read as a ring: an array of \<open>N\<close> cells, the
  index where the next element goes in and the index of the oldest element, with one cell always
  left free. Its lemmas say what storing a run of elements and advancing an index does to the list
  of the elements in the ring. Locale \<open>fifo\<close> adds the operations that move one element.
\<close>

section \<open>Lists of ring cells\<close>

definition ring_used :: "nat \<Rightarrow> nat \<Rightarrow> nat \<Rightarrow> nat" where
  "ring_used N h t = (h + (N - t)) mod N"

definition ring_list :: "nat \<Rightarrow> nat \<Rightarrow> nat \<Rightarrow> (nat \<Rightarrow> 'a) \<Rightarrow> 'a list" where
  "ring_list N h t c = List.map (\<lambda>k. c ((t + k) mod N)) [0..<ring_used N h t]"

lemma ring_used_less [simp]: "0 < N \<Longrightarrow> ring_used N h t < N"
  by (simp add: ring_used_def)

lemma length_ring_list [simp]: "length (ring_list N h t c) = ring_used N h t"
  by (simp add: ring_list_def)

lemma mod_add_if: "a < N \<Longrightarrow> b < N \<Longrightarrow> (a + b) mod N = (if a + b < N then a + b else a + b - (N::nat))"
  by (simp add: mod_if)

lemma ring_used_if:
  "t < N \<Longrightarrow> h < N \<Longrightarrow> ring_used N h t = (if t \<le> h then h - t else h + N - t)"
  by (auto simp: ring_used_def mod_if)

lemma ring_head_eq: "t < N \<Longrightarrow> h < N \<Longrightarrow> (t + ring_used N h t) mod N = h"
  by (simp add: ring_used_def mod_simps)

lemma ring_used_put:
  assumes "t < N" "ring_used N h t + n < N"
  shows "ring_used N ((h + n) mod N) t = ring_used N h t + n"
proof -
  have "ring_used N ((h + n) mod N) t = (h + (N - t) + n) mod N"
    by (simp add: ring_used_def mod_simps ac_simps)
  also have "\<dots> = ((h + (N - t)) mod N + n) mod N" by (simp add: mod_simps)
  finally show ?thesis using assms by (simp add: ring_used_def)
qed

lemma ring_used_self: "t < N \<Longrightarrow> m < N \<Longrightarrow> ring_used N ((t + m) mod N) t = m"
  using ring_used_put [of t N t m] by (simp add: ring_used_def)

lemma ring_used_take:
  assumes "t < N" "h < N" "n \<le> ring_used N h t"
  shows "ring_used N h ((t + n) mod N) = ring_used N h t - n"
proof -
  have n: "n < N" using ring_used_less [of N h t] assms by linarith
  show ?thesis
    using assms n mod_add_if [OF assms(1) n] by (auto simp: ring_used_if split: if_splits)
qed

lemma ring_list_put:
  assumes "t < N" "h < N" "ring_used N h t + length xs < N"
    and new: "\<And>k. k < length xs \<Longrightarrow> c' ((h + k) mod N) = xs ! k"
    and old: "\<And>k. k < ring_used N h t \<Longrightarrow> c' ((t + k) mod N) = c ((t + k) mod N)"
  shows "ring_list N ((h + length xs) mod N) t c' = ring_list N h t c @ xs"
proof (rule nth_equalityI)
  show "length (ring_list N ((h + length xs) mod N) t c') = length (ring_list N h t c @ xs)"
    using assms by (simp add: ring_used_put)
next
  fix k assume "k < length (ring_list N ((h + length xs) mod N) t c')"
  then have k: "k < ring_used N h t + length xs" using assms by (simp add: ring_used_put)
  show "ring_list N ((h + length xs) mod N) t c' ! k = (ring_list N h t c @ xs) ! k"
  proof (cases "k < ring_used N h t")
    case True
    then show ?thesis using k assms by (simp add: ring_list_def ring_used_put nth_append)
  next
    case False
    define j where "j = k - ring_used N h t"
    have kj: "k = ring_used N h t + j" "j < length xs" using False k by (auto simp: j_def)
    have "(t + k) mod N = ((t + ring_used N h t) mod N + j) mod N"
      unfolding kj by (simp add: mod_simps ac_simps)
    then have "(t + k) mod N = (h + j) mod N" using assms by (simp add: ring_head_eq)
    then show ?thesis using kj new assms by (simp add: ring_list_def ring_used_put nth_append)
  qed
qed

lemma ring_list_take:
  assumes "t < N" "h < N" "n \<le> ring_used N h t"
  shows "ring_list N h ((t + n) mod N) c = drop n (ring_list N h t c)"
  using ring_used_take [OF assms]
  by (intro nth_equalityI) (simp_all add: ring_list_def mod_simps less_diff_conv ac_simps)

text \<open>Different cells of the ring have different indices.\<close>

lemma ring_index_inj:
  assumes "i < N" "j < N" "((t + i) mod N :: nat) = (t + j) mod N"
  shows "i = j"
proof -
  have t: "t mod N < N" using assms(1) by simp
  have "(t mod N + i) mod N = (t mod N + j) mod N" using assms(3) by (simp add: mod_simps)
  then show ?thesis using mod_add_if [OF t assms(1)] mod_add_if [OF t assms(2)] assms(1,2) t
    by (simp split: if_splits)
qed

section \<open>States that hold a ring\<close>

locale ring =
  fixes N :: nat and valid :: "'q \<Rightarrow> bool" and ring_head :: "'q \<Rightarrow> nat" and ring_tail :: "'q \<Rightarrow> nat"
    and cell :: "'q \<Rightarrow> nat \<Rightarrow> 'a"
  assumes head_less: "valid q \<Longrightarrow> ring_head q < N"
    and tail_less: "valid q \<Longrightarrow> ring_tail q < N"
begin

definition used :: "'q \<Rightarrow> nat" where
  "used q = ring_used N (ring_head q) (ring_tail q)"

definition contents :: "'q \<Rightarrow> 'a list" where
  "contents q = ring_list N (ring_head q) (ring_tail q) (cell q)"

lemma length_contents: "length (contents q) = used q"
  by (simp add: contents_def used_def)

lemma used_less: "valid q \<Longrightarrow> used q < N"
  using head_less [of q] by (simp add: used_def)

text \<open>Elements stored from the head on are the newest.\<close>

lemma contents_put:
  assumes "valid q" "used q + length xs < N"
    and "ring_head q' = (ring_head q + length xs) mod N" "ring_tail q' = ring_tail q"
    and "\<And>k. k < length xs \<Longrightarrow> cell q' ((ring_head q + k) mod N) = xs ! k"
    and "\<And>k. k < used q \<Longrightarrow> cell q' ((ring_tail q + k) mod N) = cell q ((ring_tail q + k) mod N)"
  shows "contents q' = contents q @ xs"
  unfolding contents_def assms(3,4)
  by (rule ring_list_put) (use assms head_less tail_less in \<open>auto simp: used_def\<close>)

lemma contents_take:
  assumes "valid q" "n \<le> used q"
    and "ring_tail q' = (ring_tail q + n) mod N" "ring_head q' = ring_head q"
    and "\<And>k. k < N \<Longrightarrow> cell q' k = cell q k"
  shows "contents q' = drop n (contents q)"
proof -
  have "ring_list N h t (cell q') = ring_list N h t (cell q)" for h t
    using assms head_less [of q] by (auto simp: ring_list_def)
  then show ?thesis unfolding contents_def assms(3,4)
    using ring_list_take [OF tail_less head_less, OF assms(1,1), of n "cell q"] assms by (simp add: used_def)
qed

lemma contents_nth: "k < used q \<Longrightarrow> contents q ! k = cell q ((ring_tail q + k) mod N)"
  by (simp add: contents_def ring_list_def used_def)

end

section \<open>Queues with operations for one element\<close>

locale fifo = ring +
  fixes put :: "'b \<Rightarrow> 'a \<Rightarrow> 'a" and take1 :: "'a \<Rightarrow> 'b \<times> 'a"
  assumes put_valid: "valid q \<Longrightarrow> valid (put x q)"
    and put_head: "valid q \<Longrightarrow> ring_head (put x q) = (ring_head q + 1) mod N"
    and put_tail: "valid q \<Longrightarrow> ring_tail (put x q) = ring_tail q"
    and put_cell: "valid q \<Longrightarrow> cell (put x q) = (cell q)(ring_head q := x)"
    and take_fst: "valid q \<Longrightarrow> fst (take1 q) = cell q (ring_tail q)"
    and take_valid: "valid q \<Longrightarrow> valid (snd (take1 q))"
    and take_head: "valid q \<Longrightarrow> ring_head (snd (take1 q)) = ring_head q"
    and take_tail: "valid q \<Longrightarrow> ring_tail (snd (take1 q)) = (ring_tail q + 1) mod N"
    and take_cell: "valid q \<Longrightarrow> cell (snd (take1 q)) = cell q"
begin

lemma put_contents:
  assumes "valid q" "used q + 1 < N"
  shows "contents (put x q) = contents q @ [x]"
proof (rule contents_put)
  fix k assume k: "k < used q"
  have "ring_head q = (ring_tail q + used q) mod N"
    using ring_head_eq [OF tail_less head_less, OF assms(1,1)] by (simp add: used_def)
  then have "(ring_tail q + k) mod N \<noteq> ring_head q"
    using ring_index_inj [of k N "used q" "ring_tail q"] k assms(2) by auto
  then show "cell (put x q) ((ring_tail q + k) mod N) = cell q ((ring_tail q + k) mod N)"
    using assms by (simp add: put_cell)
qed (use assms head_less in \<open>simp_all add: put_head put_tail put_cell\<close>)

lemma puts_contents:
  "valid q \<Longrightarrow> used q + length xs < N \<Longrightarrow>
   valid (fold put xs q) \<and> contents (fold put xs q) = contents q @ xs"
proof (induction xs arbitrary: q)
  case (Cons x xs)
  have "contents (put x q) = contents q @ [x]" using Cons.prems by (intro put_contents) simp_all
  moreover from this have "used (put x q) = used q + 1"
    using length_contents [of "put x q"] length_contents [of q] by simp
  ultimately show ?case using Cons.IH [of "put x q"] Cons.prems by (simp add: put_valid)
qed simp

lemma take_contents:
  assumes "valid q" "contents q = x # xs"
  shows "\<exists>q'. take1 q = (x, q') \<and> valid q' \<and> contents q' = xs"
proof -
  have u: "0 < used q" using assms(2) length_contents [of q] by simp
  have "fst (take1 q) = x"
    using contents_nth [OF u] assms tail_less [OF assms(1)] by (simp add: take_fst)
  moreover have "contents (snd (take1 q)) = drop 1 (contents q)"
    by (rule contents_take) (use assms u in \<open>simp_all add: take_head take_tail take_cell\<close>)
  ultimately show ?thesis using assms by (intro exI [of _ "snd (take1 q)"]) (auto simp: take_valid)
qed

end

end
