(* ===== verification/Ctype_Lemmas.thy ===== *)
theory Ctype_Lemmas imports Ctype begin

text \<open>
  The table of lib/ctype.c against a description of the character classes by ranges, and the case
  conversions.
\<close>

section \<open>The classes\<close>

definition char_class :: "nat \<Rightarrow> nat" where
  "char_class n =
     (if n < 32 \<or> n = 127 then (if 9 \<le> n \<and> n < 14 then 0x28 else 0x08)
      else if 128 \<le> n then 0
      else if n = 32 then 0xa0
      else if 48 \<le> n \<and> n < 58 then 0x04
      else if 65 \<le> n \<and> n < 91 then (if n < 71 then 0x41 else 0x01)
      else if 97 \<le> n \<and> n < 123 then (if n < 103 then 0x42 else 0x02)
      else 0x10)"

lemma ctype_table_classes: "ctype_table = 0 # List.map char_class [0..<256]"
proof -
  have "[0..<256] = [0..<128] @ [128..<256]" using upt_add_eq_append [of 0 128 128] by simp
  moreover have "List.map char_class [128..<256] = replicate 128 0"
    using map_cong [of "[128..<256]" "[128..<256]" char_class "\<lambda>_. 0"]
    by (simp add: char_class_def map_replicate_const del: upt_rec_numeral)
  moreover have "ctype_table = 0 # List.map char_class [0..<128] @ replicate 128 0"
    unfolding ctype_table_def by (simp add: upt_rec char_class_def)
  ultimately show ?thesis by simp
qed

lemma in_class_iff: "in_class m c \<longleftrightarrow> char_class (unat c) AND m \<noteq> 0"
proof -
  have "unat c < 2 ^ LENGTH(8)" by (rule unsigned_less)
  then show ?thesis by (simp add: in_class_def ctype_table_classes del: upt_rec_numeral)
qed

lemmas class_defs = isalnum_def isalpha_def iscntrl_def isdigit_def isgraph_def islower_def isprint_def ispunct_def
  isspace_def isupper_def isxdigit_def in_class_iff C_U_def C_L_def C_D_def C_C_def C_P_def C_S_def C_X_def C_SP_def

lemma isupper_iff: "isupper c \<longleftrightarrow> 65 \<le> unat c \<and> unat c \<le> 90"
  unfolding class_defs by (auto simp: char_class_def)

lemma islower_iff: "islower c \<longleftrightarrow> 97 \<le> unat c \<and> unat c \<le> 122"
  unfolding class_defs by (auto simp: char_class_def)

lemma isalpha_iff: "isalpha c \<longleftrightarrow> isupper c \<or> islower c"
  unfolding class_defs by (auto simp: char_class_def)

theorem ctype_classes:
  "(isdigit c \<longleftrightarrow> unat c \<in> {48..57}) \<and> (isupper c \<longleftrightarrow> unat c \<in> {65..90}) \<and> (islower c \<longleftrightarrow> unat c \<in> {97..122}) \<and>
   (isalpha c \<longleftrightarrow> isupper c \<or> islower c) \<and> (isalnum c \<longleftrightarrow> isalpha c \<or> isdigit c) \<and>
   (isxdigit c \<longleftrightarrow> unat c \<in> {48..57} \<union> {65..70} \<union> {97..102}) \<and> (isspace c \<longleftrightarrow> unat c \<in> {9..13} \<union> {32}) \<and>
   (iscntrl c \<longleftrightarrow> unat c \<in> {0..31} \<union> {127}) \<and> (isgraph c \<longleftrightarrow> unat c \<in> {33..126}) \<and>
   (isprint c \<longleftrightarrow> unat c \<in> {32..126}) \<and> (ispunct c \<longleftrightarrow> isgraph c \<and> \<not> isalnum c)"
  unfolding class_defs
  by (intro conjI; auto simp: char_class_def)

text \<open>The case conversions of ASCII characters undo each other.\<close>

theorem ctype_case_conversion:
  assumes "c < 128"
  shows "\<exists>l u. tolower c = Some l \<and> toupper c = Some u \<and> \<not> isupper l \<and> \<not> islower u \<and>
    (isupper c \<longrightarrow> islower l \<and> toupper l = Some c) \<and> (islower c \<longrightarrow> isupper u \<and> tolower u = Some c) \<and>
    (\<not> isalpha c \<longrightarrow> l = c \<and> u = c)"
proof -
  have c: "unat c < 128" using assms by (simp add: word_less_nat_alt)
  have plus: "unat (d + 32) = unat d + 32" if "unat d < 128" for d :: u8 using that by (simp add: unat_word_ariths)
  have minus: "unat (d - 32) = unat d - 32" if "97 \<le> unat d" for d :: u8 using that by (simp add: unat_sub_if')
  have l: "tolower d = Some (if isupper d then d + 32 else d)" if "unat d < 128" for d
    using that by (auto simp: tolower_def word_le_nat_alt)
  have u: "toupper d = Some (if islower d then d - 32 else d)" if "unat d < 128" for d
    using that by (auto simp: toupper_def word_le_nat_alt)
  consider "65 \<le> unat c \<and> unat c \<le> 90" | "97 \<le> unat c \<and> unat c \<le> 122" | "\<not> isalpha c"
    by (auto simp: isalpha_iff isupper_iff islower_iff)
  then show ?thesis
    by cases (use c in \<open>auto simp: l u plus minus isalpha_iff isupper_iff islower_iff\<close>)
qed

theorem ctype_case_conversion_witness: "\<exists>l u. tolower 65 = Some l \<and> toupper 65 = Some u \<and> \<not> isupper l"
  using ctype_case_conversion [of 65] by auto

end
