(* ===== verification/Tty_Lemmas.thy ===== *)
theory Tty_Lemmas imports Tty Ring Ctype_Lemmas Example begin

text \<open>
  The terminal queues are FIFO queues, and the line discipline refines the editing of a list: what
  \<open>copy_to_cooked\<close> leaves in the secondary queue is the result of applying the erase, kill and
  ordinary characters one by one to the list of characters that was there.
\<close>

section \<open>Queue indices\<close>

lemma unat_qidx: "unat (qidx a) = unat a mod 1024"
proof -
  have "a AND 1023 = take_bit 10 a" by (simp add: take_bit_eq_mask mask_eq_exp_minus_1)
  then show ?thesis by (simp add: qidx_def unat_mod take_bit_eq_mod)
qed

lemma unat_qidx_add: "unat (qidx (a + b)) = (unat a + unat b) mod 1024"
  by (simp add: unat_qidx unat_word_ariths mod_mod_cancel)

lemma unat_qidx_diff:
  assumes "unat b \<le> 1024"
  shows "unat (qidx (a - b)) = (unat a + (1024 - unat b)) mod 1024"
proof (cases "unat b \<le> unat a")
  case True
  then have "unat a + (1024 - unat b) = unat a - unat b + 1024" using assms by simp
  then have "(unat a + (1024 - unat b)) mod 1024 = (unat a - unat b) mod 1024"
    by (simp only: mod_add_self2)
  then show ?thesis using True by (simp add: unat_qidx unat_sub_if')
next
  case False
  have "unat a + 2 ^ 32 - unat b = unat a + (1024 - unat b) + 4194303 * 1024" using assms by simp
  then have "(unat a + 2 ^ 32 - unat b) mod 1024 = (unat a + (1024 - unat b)) mod 1024"
    by (simp only: mod_mult_self1)
  then show ?thesis using False by (simp add: unat_qidx unat_sub_if')
qed

definition queue_ok :: "tty_queue \<Rightarrow> bool" where
  "queue_ok q \<longleftrightarrow> q_head q < 1024 \<and> q_tail q < 1024"

definition queue_list :: "tty_queue \<Rightarrow> u8 list" where
  "queue_list q = ring_list 1024 (unat (q_head q)) (unat (q_tail q)) (q_buf q)"

lemma queue_okD: "queue_ok q \<Longrightarrow> unat (q_head q) < 1024" "queue_ok q \<Longrightarrow> unat (q_tail q) < 1024"
  by (simp_all add: queue_ok_def word_less_nat_alt)

lemma qidx_less: "qidx a < 1024"
  by (simp add: word_less_nat_alt unat_qidx)

interpretation tq: fifo 1024 queue_ok "\<lambda>q. unat (q_head q)" "\<lambda>q. unat (q_tail q)" q_buf putch getch
  by unfold_locales
    (auto simp: queue_okD putch_def getch_def queue_ok_def qidx_less unat_qidx_add)

lemma tq_contents: "tq.contents = queue_list"
  by (simp add: fun_eq_iff tq.contents_def queue_list_def)


lemma queue_list_length: "queue_ok q \<Longrightarrow> length (queue_list q) < 1024"
  using tq.used_less [of q] tq.length_contents [of q] by (simp add: tq_contents)

lemma queue_list_ring: "length (queue_list q) = ring_used 1024 (unat (q_head q)) (unat (q_tail q))"
  by (simp add: queue_list_def)

lemma unat_q_chars: "queue_ok q \<Longrightarrow> unat (q_chars q) = length (queue_list q)"
  using queue_okD [of q] by (simp add: q_chars_def unat_qidx_diff queue_list_ring ring_used_def)

lemma unat_q_left:
  assumes "queue_ok q"
  shows "unat (q_left q) = 1023 - length (queue_list q)"
proof -
  let ?h = "unat (q_head q)" and ?t = "unat (q_tail q)"
  have lt: "?h < 1024" "?t < 1024" using assms by (simp_all add: queue_okD)
  then have h1: "unat (q_head q + 1) = ?h + 1" by (simp add: unat_word_ariths)
  have "unat (q_left q) = (?t + (1024 - (?h + 1))) mod 1024"
    using unat_qidx_diff [of "q_head q + 1" "q_tail q"] lt h1
    by (simp add: q_left_def diff_diff_eq)
  also have "\<dots> = 1023 - ring_used 1024 ?h ?t"
    using lt by (auto simp: ring_used_if mod_if)
  finally show ?thesis by (simp add: queue_list_ring)
qed

lemma q_empty_iff: "queue_ok q \<Longrightarrow> q_empty q \<longleftrightarrow> queue_list q = []"
  using queue_okD [of q]
  by (auto simp: q_empty_def length_0_conv [symmetric] queue_list_ring ring_used_if word_unat_eq_iff
    simp del: length_0_conv)

lemma q_full_iff: "queue_ok q \<Longrightarrow> q_full q \<longleftrightarrow> length (queue_list q) = 1023"
  using unat_q_left [of q] queue_list_length [of q] by (auto simp: q_full_def unat_eq_0 [symmetric] simp del: unat_eq_0)

lemma dec_head_list:
  assumes "queue_ok q" "queue_list q \<noteq> []"
  shows "queue_ok (dec_head q) \<and> queue_list (dec_head q) = butlast (queue_list q) \<and>
    q_last q = last (queue_list q)"
proof -
  let ?h = "unat (q_head q)" and ?t = "unat (q_tail q)" and ?u = "ring_used 1024 (unat (q_head q)) (unat (q_tail q))"
  have lt: "?h < 1024" "?t < 1024" using assms by (simp_all add: queue_okD)
  have u: "0 < ?u" "?u < 1024" 
    using assms(2) queue_list_length [OF assms(1)] by (simp_all add: queue_list_ring [symmetric])
  have h': "unat (qidx (q_head q - 1)) = (?t + (?u - 1)) mod 1024"
    using lt u by (auto simp: unat_qidx_diff ring_used_if mod_if split: if_splits)
  have hd: "q_head (dec_head q) = qidx (q_head q - 1)" by (simp add: dec_head_def)
  have u': "ring_used 1024 (unat (q_head (dec_head q))) ?t = ?u - 1"
    unfolding hd h' by (rule ring_used_self) (use lt u in linarith)+
  have "queue_list (dec_head q) = take (?u - 1) (queue_list q)"
    using u' u by (intro nth_equalityI) (simp_all add: queue_list_def ring_list_def dec_head_def)
  moreover have "q_last q = queue_list q ! (?u - 1)"
    using u h' by (simp add: q_last_def queue_list_def ring_list_def)
  ultimately show ?thesis using assms
    by (simp add: butlast_conv_take queue_list_ring last_conv_nth queue_ok_def dec_head_def qidx_less)
qed


theorem tty_queue_fifo:
  assumes "queue_ok q" "length (queue_list q) + length xs < 1024" "queue_list q @ xs = y # ys"
  shows "queue_list (fold putch xs q) = queue_list q @ xs \<and> fst (getch (fold putch xs q)) = y \<and>
    queue_list (snd (getch (fold putch xs q))) = ys"
proof -
  have "queue_ok (fold putch xs q) \<and> queue_list (fold putch xs q) = queue_list q @ xs"
    using tq.puts_contents [of q xs] assms(1,2) tq.length_contents [of q] by (simp add: tq_contents)
  then show ?thesis using tq.take_contents [of "fold putch xs q" y ys] assms(3) by (auto simp: tq_contents)
qed

theorem tty_queue_macros:
  assumes "queue_ok q"
  shows "(q_empty q \<longleftrightarrow> queue_list q = []) \<and> (q_full q \<longleftrightarrow> length (queue_list q) = 1023) \<and>
    unat (q_chars q) = length (queue_list q) \<and> unat (q_left q) + unat (q_chars q) = 1023 \<and>
    (\<not> q_empty q \<longrightarrow> q_last q = last (queue_list q))"
  using assms queue_list_length [OF assms] dec_head_list [OF assms]
  by (simp add: q_empty_iff q_full_iff unat_q_chars unat_q_left)

section \<open>Editing a line\<close>

text \<open>
  The specification reads the mode bits and control characters of \<open>struct termios\<close> by their numbers
  in include/termios.h: \<open>c_lflag\<close> has ISIG at bit 0 and ICANON at bit 1, \<open>c_iflag\<close> INLCR, IGNCR, ICRNL
  and IUCLC at the bits 6 to 9, and \<open>c_cc\<close> holds intr, quit, erase, kill, eof at 0 to 4, start and
  stop at 8 and 9. Control characters are 7-bit.
\<close>

definition control :: "termios \<Rightarrow> nat \<Rightarrow> u8 \<Rightarrow> bool" where
  "control m k c \<longleftrightarrow> c < 128 \<and> c_cc m k = c"

definition ends_line :: "termios \<Rightarrow> u8 \<Rightarrow> bool" where
  "ends_line m c \<longleftrightarrow> c = 10 \<or> control m 4 c"

definition line_edit :: "termios \<Rightarrow> u8 list \<Rightarrow> u8 \<Rightarrow> u8 list" where
  "line_edit m xs c =
     (if bit (c_lflag m) 1 \<and> control m 3 c then rev (dropWhile (\<lambda>x. \<not> ends_line m x) (rev xs))
      else if bit (c_lflag m) 1 \<and> control m 2 c then (if xs = [] \<or> ends_line m (last xs) then xs else butlast xs)
      else if bit (c_lflag m) 1 \<and> (control m 9 c \<or> control m 8 c) then xs
      else if bit (c_lflag m) 0 \<and> (control m 0 c \<or> control m 1 c) then xs
      else xs @ [c])"

text \<open>The character that stands for one that was typed, if there is one.\<close>

definition mapped :: "u32 \<Rightarrow> u8 \<Rightarrow> u8 option" where
  "mapped f c =
     (if c = 13 \<and> \<not> bit f 8 \<and> bit f 7 then None
      else
        let d = (if c = 13 \<and> bit f 8 then 10 else if c = 10 \<and> bit f 6 then 13 else c)
        in Some (if bit f 9 \<and> 65 \<le> d \<and> d \<le> 90 then d + 32 else d))"

definition keystroke :: "termios \<Rightarrow> u8 list \<Rightarrow> u8 \<Rightarrow> u8 list" where
  "keystroke m xs c = (case mapped (c_iflag m) c of None \<Rightarrow> xs | Some d \<Rightarrow> line_edit m xs d)"

lemma flag_bit: "(x :: u32) AND 1 \<noteq> 0 \<longleftrightarrow> bit x 0" "x AND 2 \<noteq> 0 \<longleftrightarrow> bit x 1" "x AND 0x40 \<noteq> 0 \<longleftrightarrow> bit x 6" "x AND 0x80 \<noteq> 0 \<longleftrightarrow> bit x 7"
  "x AND 0x100 \<noteq> 0 \<longleftrightarrow> bit x 8" "x AND 0x200 \<noteq> 0 \<longleftrightarrow> bit x 9"
  using bit_iff_and_push_bit_not_eq_0 [of x 0] bit_iff_and_push_bit_not_eq_0 [of x 1] bit_iff_and_push_bit_not_eq_0 [of x 6]
    bit_iff_and_push_bit_not_eq_0 [of x 7] bit_iff_and_push_bit_not_eq_0 [of x 8] bit_iff_and_push_bit_not_eq_0 [of x 9]
  by simp_all

lemma mode_bits:
  "L_ISIG t = bit (c_lflag (tt_termios t)) 0" "L_CANON t = bit (c_lflag (tt_termios t)) 1"
  "I_NLCR t = bit (c_iflag (tt_termios t)) 6" "I_NOCR t = bit (c_iflag (tt_termios t)) 7"
  "I_CRNL t = bit (c_iflag (tt_termios t)) 8" "I_UCLC t = bit (c_iflag (tt_termios t)) 9"
  unfolding L_ISIG_def L_CANON_def I_NLCR_def I_NOCR_def I_CRNL_def I_UCLC_def l_flag_def i_flag_def flag_bit by (rule refl)+

lemma is_cc_control:
  "is_cc VINTR c t = control (tt_termios t) 0 c" "is_cc VQUIT c t = control (tt_termios t) 1 c"
  "is_cc VERASE c t = control (tt_termios t) 2 c" "is_cc VKILL c t = control (tt_termios t) 3 c"
  "is_cc VEOF c t = control (tt_termios t) 4 c" "is_cc VSTART c t = control (tt_termios t) 8 c"
  "is_cc VSTOP c t = control (tt_termios t) 9 c"
  by (auto simp: is_cc_def control_def VINTR_def VQUIT_def VERASE_def VKILL_def VEOF_def VSTART_def VSTOP_def)

lemma cooked_edit:
  "line_edit (tt_termios t) xs c =
     (if L_CANON t \<and> is_cc VKILL c t then rev (dropWhile (\<lambda>x. \<not> ends_line (tt_termios t) x) (rev xs))
      else if L_CANON t \<and> is_cc VERASE c t then (if xs = [] \<or> ends_line (tt_termios t) (last xs) then xs else butlast xs)
      else if L_CANON t \<and> is_cc VSTOP c t then xs
      else if L_CANON t \<and> is_cc VSTART c t then xs
      else if L_ISIG t \<and> is_cc VINTR c t then xs
      else if L_ISIG t \<and> is_cc VQUIT c t then xs
      else xs @ [c])"
  unfolding line_edit_def mode_bits is_cc_control by (auto split: if_split)

text \<open>What the editing of the secondary queue of terminal \<open>n\<close> depends on.\<close>

definition same_line :: "nat \<Rightarrow> kst \<Rightarrow> kst \<Rightarrow> bool" where
  "same_line n s t \<longleftrightarrow> read_q (tty_table t n) = read_q (tty_table s n) \<and>
     secondary (tty_table t n) = secondary (tty_table s n) \<and> tt_termios (tty_table t n) = tt_termios (tty_table s n)"

text \<open>What an output routine returns, and an output that is made when \<open>p\<close> holds.\<close>

definition tty_out :: "(kst \<Rightarrow> kst kres) \<Rightarrow> nat \<Rightarrow> bool \<Rightarrow> kst \<Rightarrow> kst \<Rightarrow> kst" where
  "tty_out con n p t s = (if p then (case write_tty con n t of Inr u \<Rightarrow> u | Inl _ \<Rightarrow> s) else s)"

lemma same_line_refl [simp]: "same_line n s s"
  by (simp add: same_line_def)

lemma same_line_trans: "same_line n s t \<Longrightarrow> same_line n t u \<Longrightarrow> same_line n s u"
  by (simp add: same_line_def)

lemma same_line_put_write [simp]: "same_line n s (put_write m c t) = same_line n s t"
  by (simp add: same_line_def put_write_def upd_tty_def)

lemma same_line_tty_intr [simp]: "same_line n s (tty_intr n m t) = same_line n s t"
  by (simp add: same_line_def tty_intr_def Let_def)

lemma same_line_echo [simp]: "same_line n s (echo c n t) = same_line n s t"
  by (simp add: echo_def)

text \<open>The secondary queue of terminal \<open>n\<close> changed from one list to another, the rest kept.\<close>

definition edited :: "nat \<Rightarrow> kst \<Rightarrow> u8 list \<Rightarrow> kst \<Rightarrow> bool" where
  "edited n s xs t \<longleftrightarrow> read_q (tty_table t n) = read_q (tty_table s n) \<and> tt_termios (tty_table t n) = tt_termios (tty_table s n) \<and>
     queue_ok (secondary (tty_table t n)) \<and> queue_list (secondary (tty_table t n)) = xs"

lemma line_start_iff:
  "queue_ok (secondary t) \<Longrightarrow> line_start t \<longleftrightarrow>
     queue_list (secondary t) = [] \<or> ends_line (tt_termios t) (last (queue_list (secondary t)))"
  using dec_head_list [of "secondary t"] by (auto simp: line_start_def ends_line_def q_empty_iff is_cc_control)

lemma line_start_cong: "edited n s xs t \<Longrightarrow> line_start (tty_table t n) \<longleftrightarrow> xs = [] \<or> ends_line (tt_termios (tty_table s n)) (last xs)"
  by (simp add: edited_def line_start_iff)

lemma edited_trans: "edited n s xs t \<Longrightarrow> edited n t ys u \<Longrightarrow> edited n s ys u"
  by (simp add: edited_def)

lemma edited_same: "edited n s xs t \<Longrightarrow> same_line n t u \<Longrightarrow> edited n s xs u"
  by (simp add: edited_def same_line_def)

lemma edited_put:
  assumes "edited n s xs t" "length xs < 1023"
  shows "edited n s (xs @ [c]) (upd_tty n (\<lambda>t. t\<lparr>secondary := putch c (secondary t)\<rparr>) t)"
  using assms tq.puts_contents [of "secondary (tty_table t n)" "[c]"] tq.length_contents [of "secondary (tty_table t n)"]
  by (simp add: edited_def tq_contents upd_tty_def)

lemma edited_count:
  "edited n s xs t \<Longrightarrow>
   edited n s xs (upd_tty n (\<lambda>t. t\<lparr>secondary := (secondary t)\<lparr>q_data := q_data (secondary t) + 1\<rparr>\<rparr>) t)"
  by (simp add: edited_def upd_tty_def queue_ok_def queue_list_def)

lemma edited_stopped: "edited n s xs t \<Longrightarrow> edited n s xs (upd_tty n (\<lambda>t. t\<lparr>tt_stopped := b\<rparr>) t)"
  by (simp add: edited_def upd_tty_def)

lemma edited_self: "queue_ok (secondary (tty_table s n)) \<Longrightarrow> edited n s (queue_list (secondary (tty_table s n))) s"
  by (simp add: edited_def)

definition note_line :: "bool \<Rightarrow> nat \<Rightarrow> kst \<Rightarrow> kst" where
  "note_line p n s =
     (if p then upd_tty n (\<lambda>t. t\<lparr>secondary := (secondary t)\<lparr>q_data := q_data (secondary t) + 1\<rparr>\<rparr>) s else s)"

lemma edited_if:
  "(p \<Longrightarrow> edited n s xs t) \<Longrightarrow> (\<not> p \<Longrightarrow> edited n s ys u) \<Longrightarrow>
   edited n s (if p then xs else ys) (if p then t else u)"
  by simp

lemma tty_rest [simp]:
  "cons (put_write m c s) = cons s" "cons (upd_tty m f s) = cons s" "cons (tty_intr m k s) = cons s"
  "tty_table (tty_intr m k s) = tty_table s"
  by (simp_all add: put_write_def upd_tty_def tty_intr_def Let_def)

section \<open>The output of the line discipline\<close>

text \<open>
  What the editing relies on: the output routine of terminal \<open>n\<close> returns from the states with \<open>P\<close>, which
  depends on the console and the write queue, and leaves the input queues and the modes alone; \<open>P\<close> is kept
  when a character outside \<open>B\<close> is put into the write queue.
\<close>

locale line_output =
  fixes con :: "kst \<Rightarrow> kst kres" and n :: nat and P :: "kst \<Rightarrow> bool" and B :: "u8 set"
  assumes returns: "P s \<Longrightarrow> \<exists>u. write_tty con n s = Inr u \<and> same_line n s u \<and> P u"
    and keeps_put: "P s \<Longrightarrow> c \<notin> B \<Longrightarrow> P (put_write n c s)"
    and keeps_rest: "P s \<Longrightarrow> cons t = cons s \<Longrightarrow> write_q (tty_table t n) = write_q (tty_table s n) \<Longrightarrow> P t"
    and only_esc: "B \<subseteq> {27}"
begin

text \<open>The characters whose echo is outside \<open>B\<close>: 219 is echoed as ESC after a caret.\<close>

definition harmless :: "u8 \<Rightarrow> bool" where
  "harmless c \<longleftrightarrow> (27 \<in> B \<longrightarrow> c \<noteq> 219)"

lemma keeps_upd: "P s \<Longrightarrow> (\<And>t. write_q (f t) = write_q t) \<Longrightarrow> P (upd_tty n f s)"
  by (rule keeps_rest) (simp_all add: upd_tty_def)

lemma keeps_echo:
  assumes "P s" "harmless c"
  shows "P (echo c n s)"
proof -
  have "c \<notin> B" if "\<not> c <s 32" using that only_esc by (auto simp: word_sless_alt)
  moreover have "c + 64 \<notin> B" if "c \<noteq> 219"
  proof
    assume "c + 64 \<in> B"
    then have "c + 64 = 27" using only_esc by auto
    then have "c = 27 - 64" by (simp only: eq_diff_eq)
    then show False using that by simp
  qed
  moreover have "c + 64 \<notin> B" if "27 \<notin> B" using that only_esc by auto
  moreover have "10 \<notin> B" "13 \<notin> B" "94 \<notin> B" using only_esc by auto
  ultimately show ?thesis using assms by (auto simp: echo_def harmless_def intro!: keeps_put)
qed

lemma out:
  assumes "P t" "same_line n s t"
  shows "(if p then write_tty con n t else Inr s) = Inr (tty_out con n p t s)" "same_line n s (tty_out con n p t s)"
    "P s \<Longrightarrow> P (tty_out con n p t s)"
  using returns [OF assms(1)] assms(2) by (auto simp: tty_out_def same_line_def)

lemma erase_step:
  assumes "edited n s xs t" "xs \<noteq> []" "P t"
  shows "\<exists>u. erase_last con n t = Inr u \<and> edited n s (butlast xs) u \<and> P u"
proof -
  let ?w = "put_write n 127 (if q_last (secondary (tty_table t n)) <s 32 then put_write n 127 t else t)"
  have "127 \<notin> B" using only_esc by auto
  then have w: "P ?w" "same_line n t ?w" using assms(3) by (simp_all add: keeps_put)
  note o = out [OF w, of "L_ECHO (tty_table t n)"]
  have q: "queue_ok (secondary (tty_table t n))" "queue_list (secondary (tty_table t n)) = xs" using assms(1) by (simp_all add: edited_def)
  let ?u = "upd_tty n (\<lambda>t. t\<lparr>secondary := dec_head (secondary t)\<rparr>) (tty_out con n (L_ECHO (tty_table t n)) ?w t)"
  have "erase_last con n t = Inr ?u" by (simp add: erase_last_def Let_def o(1))
  moreover have "edited n s (butlast xs) ?u"
    using o(2) dec_head_list [OF q(1)] q assms(1,2) by (simp add: edited_def upd_tty_def same_line_def)
  moreover have "P ?u" by (rule keeps_upd) (simp_all add: o(3) assms(3))
  ultimately show ?thesis by blast
qed

lemma kill_line_edited:
  "edited n s xs t \<Longrightarrow> P t \<Longrightarrow> length xs < k \<Longrightarrow>
    \<exists>u. kill_line k con n t = Inr u \<and> P u \<and>
      edited n s (rev (dropWhile (\<lambda>x. \<not> ends_line (tt_termios (tty_table s n)) x) (rev xs))) u"
proof (induction k arbitrary: xs t)
  case (Suc k)
  let ?e = "ends_line (tt_termios (tty_table s n))"
  show ?case
  proof (cases "xs = [] \<or> ?e (last xs)")
    case True
    then have "rev (dropWhile (\<lambda>x. \<not> ?e x) (rev xs)) = xs"
      by (cases xs rule: rev_cases) auto
    then show ?thesis using True Suc.prems line_start_cong [OF Suc.prems(1)] by auto
  next
    case False
    then have "rev (dropWhile (\<lambda>x. \<not> ?e x) (rev xs)) = rev (dropWhile (\<lambda>x. \<not> ?e x) (rev (butlast xs)))"
      by (cases xs rule: rev_cases) auto
    moreover have "length (butlast xs) < k" using False Suc.prems(3) by (cases xs) auto
    moreover obtain u where "erase_last con n t = Inr u" "edited n s (butlast xs) u" "P u"
      using erase_step [OF Suc.prems(1) _ Suc.prems(2)] False by blast
    ultimately show ?thesis
      using False Suc.IH [of "butlast xs" u] line_start_cong [OF Suc.prems(1)] by auto
  qed
qed simp

lemma cook_cases:
  assumes "P s" "harmless c"
  shows "cook con n c s =
     (let t = tty_table s n; u = note_line (c = 10 \<or> is_cc VEOF c t) n s in
      if L_CANON t \<and> is_cc VKILL c t then kill_line 1025 con n s
      else if L_CANON t \<and> is_cc VERASE c t \<and> \<not> line_start t then erase_last con n s
      else Inr
       (if L_CANON t \<and> is_cc VERASE c t then s
        else if L_CANON t \<and> is_cc VSTOP c t then upd_tty n (\<lambda>t. t\<lparr>tt_stopped := True\<rparr>) s
        else if L_CANON t \<and> is_cc VSTART c t then upd_tty n (\<lambda>t. t\<lparr>tt_stopped := False\<rparr>) s
        else if L_ISIG t \<and> is_cc VINTR c t then tty_intr n INTMASK s
        else if L_ISIG t \<and> is_cc VQUIT c t then tty_intr n QUITMASK s
        else upd_tty n (\<lambda>t. t\<lparr>secondary := putch c (secondary t)\<rparr>) (tty_out con n (L_ECHO t) (echo c n u) u)))"
proof -
  have nl: "P (note_line p n s)" for p using assms(1) by (auto simp: note_line_def intro: keeps_upd)
  have o: "(if p then write_tty con n (echo c n (note_line q n s)) else Inr (note_line q n s)) =
      Inr (tty_out con n p (echo c n (note_line q n s)) (note_line q n s))" for p q
    by (rule out(1)) (simp_all add: keeps_echo nl assms(2))
  show ?thesis
    unfolding cook_def Let_def note_line_def [symmetric] o bindk_Inr by (simp add: Let_def)
qed

text \<open>One character that \<open>copy_to_cooked\<close> takes edits the line as \<open>line_edit\<close> says.\<close>

lemma cook_edits:
  assumes "P s" "harmless c" "queue_ok (secondary (tty_table s n))" "length (queue_list (secondary (tty_table s n))) < 1023"
  shows "\<exists>u. cook con n c s = Inr u \<and> P u \<and>
    edited n s (line_edit (tt_termios (tty_table s n)) (queue_list (secondary (tty_table s n))) c) u"
proof -
  let ?t = "tty_table s n" and ?xs = "queue_list (secondary (tty_table s n))"
  note self = edited_self [OF assms(3)]
  have start: "(?xs = [] \<or> ends_line (tt_termios ?t) (last ?xs)) = line_start ?t" by (simp add: line_start_iff [OF assms(3)])
  have e: "\<exists>u. erase_last con n s = Inr u \<and> edited n s (butlast ?xs) u \<and> P u" if "\<not> line_start ?t"
    using that start by (intro erase_step [OF self _ assms(1)]) simp
  have i: "edited n s ?xs (tty_intr n m s)" for m by (rule edited_same [OF self]) simp
  have nl: "edited n s ?xs (note_line p n s)" "P (note_line p n s)" for p
    using assms(1) by (auto simp: note_line_def self edited_count intro: keeps_upd)
  have ec: "P (echo c n (note_line p n s))" for p by (rule keeps_echo [OF nl(2) assms(2)])
  have o: "edited n s ?xs (tty_out con n q (echo c n (note_line p n s)) (note_line p n s))"
    "P (tty_out con n q (echo c n (note_line p n s)) (note_line p n s))" for p q
    by (rule edited_same [OF nl(1) out(2) [OF ec]], simp) (simp add: out(3) [OF ec] nl(2))
  show ?thesis
  proof (cases "L_CANON ?t \<and> is_cc VKILL c ?t")
    case True
    then show ?thesis using kill_line_edited [OF self assms(1), of 1025] assms(4)
      by (auto simp: cook_cases [OF assms(1,2)] cooked_edit)
  next
    case False
    have app: "edited n s (?xs @ [c]) (upd_tty n (\<lambda>t. t\<lparr>secondary := putch c (secondary t)\<rparr>) t)"
      if "edited n s ?xs t" for t
      using that assms(4) by (simp add: edited_put)
    show ?thesis
    proof (cases "L_CANON ?t \<and> is_cc VERASE c ?t \<and> \<not> line_start ?t")
      case True
      then show ?thesis
        using e False by (auto simp: cook_cases [OF assms(1,2)] Let_def cooked_edit start)
    next
      case no_erase: False
      show ?thesis
        unfolding cook_cases [OF assms(1,2)] Let_def if_not_P [OF False] if_not_P [OF no_erase] cooked_edit start
      proof (rule exI, rule conjI, rule refl, rule conjI)
        show "P (if L_CANON ?t \<and> is_cc VERASE c ?t then s
          else if L_CANON ?t \<and> is_cc VSTOP c ?t then upd_tty n (\<lambda>t. t\<lparr>tt_stopped := True\<rparr>) s
          else if L_CANON ?t \<and> is_cc VSTART c ?t then upd_tty n (\<lambda>t. t\<lparr>tt_stopped := False\<rparr>) s
          else if L_ISIG ?t \<and> is_cc VINTR c ?t then tty_intr n INTMASK s
          else if L_ISIG ?t \<and> is_cc VQUIT c ?t then tty_intr n QUITMASK s
          else upd_tty n (\<lambda>t. t\<lparr>secondary := putch c (secondary t)\<rparr>)
            (tty_out con n (L_ECHO ?t) (echo c n (note_line (c = 10 \<or> is_cc VEOF c ?t) n s)) (note_line (c = 10 \<or> is_cc VEOF c ?t) n s)))"
          using assms(1) o(2) keeps_rest [OF assms(1), of "tty_intr n _ s"] by (simp add: keeps_upd)
      qed (intro edited_if self i edited_stopped app o(1); use no_erase self in simp)
    qed
  qed
qed

end

section \<open>From the read queue to the secondary queue\<close>

text \<open>What may be typed: 7-bit characters when capitals are mapped, since \<open>tolower\<close> has no others.\<close>

definition typable :: "termios \<Rightarrow> u8 \<Rightarrow> bool" where
  "typable m c \<longleftrightarrow> c < 128 \<or> \<not> bit (c_iflag m) 9"

lemma translate_mapped:
  assumes "typable (tt_termios t) c"
  shows "translate t c = Inr (mapped (c_iflag (tt_termios t)) c)"
proof -
  have l: "tolower d = Some (if 65 \<le> d \<and> d \<le> 90 then d + 32 else d)" if "d < 128" for d
    using that by (auto simp: tolower_def isupper_iff word_le_nat_alt word_less_nat_alt)
  have "(10 :: u8) < 128" "(13 :: u8) < 128" by simp_all
  then show ?thesis using assms l [of 10] l [of 13] l [of c]
    by (auto simp: translate_def mapped_def typable_def mode_bits Let_def)
qed

lemma mapped_other: "typable m c \<Longrightarrow> mapped (c_iflag m) c = Some d \<Longrightarrow> c \<noteq> 219 \<Longrightarrow> d \<noteq> 219"
proof -
  have "x + 32 \<noteq> 219" if "x \<le> 90" for x :: u8
  proof
    assume "x + 32 = 219"
    then have "x = 219 - 32" by (simp add: eq_diff_eq)
    then show False using that by simp
  qed
  then show "typable m c \<Longrightarrow> mapped (c_iflag m) c = Some d \<Longrightarrow> c \<noteq> 219 \<Longrightarrow> d \<noteq> 219"
    by (auto simp: mapped_def Let_def split: if_splits)
qed

text \<open>Where the loop stands: \<open>cs\<close> is left to read, the line is \<open>xs\<close>.\<close>

definition cooking :: "nat \<Rightarrow> termios \<Rightarrow> u8 list \<Rightarrow> u8 list \<Rightarrow> kst \<Rightarrow> bool" where
  "cooking n m cs xs s \<longleftrightarrow> tt_termios (tty_table s n) = m \<and>
     queue_ok (read_q (tty_table s n)) \<and> queue_list (read_q (tty_table s n)) = cs \<and>
     queue_ok (secondary (tty_table s n)) \<and> queue_list (secondary (tty_table s n)) = xs"

context line_output begin

lemma cooking_step:
  assumes "P s" "cooking n m (c # cs) xs s" "length xs < 1023" "typable m c" "harmless c"
  shows "\<exists>u. cooked_loop (Suc k) con n s = cooked_loop k con n u \<and> P u \<and> cooking n m cs (keystroke m xs c) u"
proof -
  let ?t = "tty_table s n"
  note st = assms(2) [unfolded cooking_def]
  obtain q where q: "getch (read_q ?t) = (c, q)" "queue_ok q" "queue_list q = cs"
    using tq.take_contents [of "read_q ?t" c cs] st by (auto simp: tq_contents)
  define v where "v = upd_tty n (\<lambda>t. t\<lparr>read_q := q\<rparr>) s"
  have v: "cooking n m cs xs v" using st q by (simp add: cooking_def v_def upd_tty_def)
  have Pv: "P v" unfolding v_def by (rule keeps_upd [OF assms(1)]) simp
  have r: "translate ?t c = Inr (mapped (c_iflag m) c)" using translate_mapped [of ?t c] st assms(4) by simp
  have loop: "cooked_loop (Suc k) con n s =
     bindk (case mapped (c_iflag m) c of None \<Rightarrow> Inr v | Some d \<Rightarrow> cook con n d v) (cooked_loop k con n)"
    unfolding v_def using st q(1) r assms(3) by (simp add: q_empty_iff q_full_iff Let_def)
  show ?thesis
  proof (cases "mapped (c_iflag m) c")
    case None
    then show ?thesis using loop v Pv by (intro exI [of _ v]) (simp add: keystroke_def)
  next
    case (Some d)
    have "harmless d" using assms(5) mapped_other [OF assms(4) Some] by (auto simp: harmless_def)
    moreover have vs: "queue_ok (secondary (tty_table v n))" "queue_list (secondary (tty_table v n)) = xs" "tt_termios (tty_table v n) = m"
      using v by (simp_all add: cooking_def)
    ultimately obtain u where u: "cook con n d v = Inr u" "P u" "edited n v (line_edit m xs d) u"
      using cook_edits [OF Pv, of d] assms(3) by auto
    then show ?thesis using loop v Some
      by (intro exI [of _ u]) (simp add: keystroke_def cooking_def edited_def)
  qed
qed

lemma cooked_loop_edits:
  "P s \<Longrightarrow> cooking n m cs xs s \<Longrightarrow> \<forall>c\<in>set cs. typable m c \<and> harmless c \<Longrightarrow> length cs < k \<Longrightarrow>
   \<exists>u j. cooked_loop k con n s = Inr u \<and> P u \<and> j \<le> length cs \<and>
     cooking n m (drop j cs) (foldl (keystroke m) xs (take j cs)) u \<and>
     (j = length cs \<or> length (foldl (keystroke m) xs (take j cs)) = 1023)"
proof (induction k arbitrary: cs xs s)
  case (Suc k)
  have ok: "queue_ok (read_q (tty_table s n))" "queue_ok (secondary (tty_table s n))"
    "queue_list (read_q (tty_table s n)) = cs" "queue_list (secondary (tty_table s n)) = xs"
    using Suc.prems(2) by (simp_all add: cooking_def)
  show ?case
  proof (cases "cs = [] \<or> length xs = 1023")
    case True
    then have "cooked_loop (Suc k) con n s = Inr s" using ok by (auto simp: q_empty_iff q_full_iff)
    then show ?thesis using True Suc.prems by (intro exI [of _ s] exI [of _ 0]) auto
  next
    case False
    then obtain c cs' where cs: "cs = c # cs'" by (cases cs) auto
    have "length xs < 1023" using False queue_list_length [OF ok(2)] ok(4) by simp
    then obtain u where u: "cooked_loop (Suc k) con n s = cooked_loop k con n u" "P u"
        "cooking n m cs' (keystroke m xs c) u"
      using cooking_step [OF Suc.prems(1), of m c cs' xs k] Suc.prems cs by auto
    obtain w j where "cooked_loop k con n u = Inr w" "P w" "j \<le> length cs'"
      "cooking n m (drop j cs') (foldl (keystroke m) (keystroke m xs c) (take j cs')) w"
      "j = length cs' \<or> length (foldl (keystroke m) (keystroke m xs c) (take j cs')) = 1023"
      using Suc.IH [OF u(2,3)] Suc.prems cs by auto
    then show ?thesis using u(1) cs by (intro exI [of _ w] exI [of _ "Suc j"]) simp
  qed
qed simp

lemma copy_edits:
  assumes "P s" "queue_ok (read_q (tty_table s n))" "queue_ok (secondary (tty_table s n))"
    "\<forall>c\<in>set (queue_list (read_q (tty_table s n))). typable (tt_termios (tty_table s n)) c \<and> harmless c"
  shows "\<exists>u j. copy_to_cooked con n s = Inr u \<and> P u \<and>
     queue_list (read_q (tty_table u n)) = drop j (queue_list (read_q (tty_table s n))) \<and>
     queue_list (secondary (tty_table u n)) =
       foldl (keystroke (tt_termios (tty_table s n))) (queue_list (secondary (tty_table s n)))
         (take j (queue_list (read_q (tty_table s n)))) \<and>
     queue_ok (read_q (tty_table u n)) \<and> queue_ok (secondary (tty_table u n)) \<and>
     (q_empty (read_q (tty_table u n)) \<or> q_full (secondary (tty_table u n)))"
proof -
  let ?m = "tt_termios (tty_table s n)" and ?cs = "queue_list (read_q (tty_table s n))" and ?xs = "queue_list (secondary (tty_table s n))"
  have "cooking n ?m ?cs ?xs s" using assms by (simp add: cooking_def)
  from cooked_loop_edits [OF assms(1) this assms(4), of 1025] obtain u j where
    u: "cooked_loop 1025 con n s = Inr u" "P u" "j \<le> length ?cs"
    and c: "cooking n ?m (drop j ?cs) (foldl (keystroke ?m) ?xs (take j ?cs)) u"
    and e: "j = length ?cs \<or> length (foldl (keystroke ?m) ?xs (take j ?cs)) = 1023"
    using queue_list_length [OF assms(2)] by auto
  show ?thesis
    using u c e by (intro exI [of _ u] exI [of _ j]) (auto simp: copy_to_cooked_def cooking_def q_empty_iff q_full_iff)
qed

end

text \<open>A serial line starts its transmitter; nothing else happens before the interrupt.\<close>

interpretation serial: line_output con "Suc k" "\<lambda>_. True" "{}"
  by unfold_locales (simp_all add: write_tty_def rs_write_def outb_def same_line_def Let_def)

text \<open>On terminal 2 of the example, canonical mode: \<open>a\<close>, \<open>b\<close>, erase, \<open>c\<close>, new line.\<close>

definition ex_typed :: kst where
  "ex_typed = upd_tty 2 (\<lambda>t. t\<lparr>tt_termios := (tt_termios t)\<lparr>c_lflag := 2, c_cc := (\<lambda>_. 0)(VERASE := 127, VKILL := 21)\<rparr>,
     read_q := fold putch [97, 98, 127, 99, 10] (read_q t)\<rparr>) ex_kst"

lemma ex_typed_queues:
  "queue_list (read_q (tty_table ex_typed 2)) = [97, 98, 127, 99, 10]"
  "queue_list (secondary (tty_table ex_typed 2)) = []"
  "queue_ok (read_q (tty_table ex_typed 2))" "queue_ok (secondary (tty_table ex_typed 2))"
  by (simp_all add: ex_typed_def upd_tty_def ex_tty_def ex_queue_def putch_def qidx_def queue_list_def queue_ok_def
      ring_list_def ring_used_def upt_rec)

theorem tty_queue_fifo_witness:
  "queue_list (fold putch [1, 2] ex_queue) = [1, 2] \<and> fst (getch (fold putch [1, 2] ex_queue)) = 1"
  using tty_queue_fifo [of ex_queue "[1, 2]" 1 "[2]"]
  by (simp add: queue_ok_def queue_list_def ring_list_def ring_used_def ex_queue_def)

theorem tty_queue_macros_witness: "q_empty ex_queue \<and> unat (q_left ex_queue) = 1023"
  using tty_queue_macros [of ex_queue]
  by (simp add: queue_ok_def queue_list_def ring_list_def ring_used_def ex_queue_def)

end
