(* ===== verification/Console_Lemmas.thy ===== *)
theory Console_Lemmas imports Console Tty_Lemmas begin

text \<open>
  The console stays on its screen: whatever is written, the cursor remains inside the 25 lines, the
  scrolling region inside the screen and the screen inside the video memory, and nothing outside the
  video memory is changed.
\<close>

section \<open>Stores inside a range\<close>

definition within :: "nat \<Rightarrow> nat \<Rightarrow> (u32 \<Rightarrow> u8) \<Rightarrow> (u32 \<Rightarrow> u8) \<Rightarrow> bool" where
  "within lo hi m m' \<longleftrightarrow> (\<forall>b. unat b < lo \<or> hi \<le> unat b \<longrightarrow> m' b = m b)"

lemma within_refl [simp]: "within lo hi m m"
  by (simp add: within_def)

lemma within_trans: "within lo hi m m' \<Longrightarrow> within lo hi m' m'' \<Longrightarrow> within lo hi m m''"
  by (simp add: within_def)

lemma unat_add_small: "unat a + k < 2 ^ 32 \<Longrightarrow> unat ((a :: u32) + of_nat k) = unat a + k"
  by (simp add: unat_word_ariths unat_of_nat)

lemma unat_add_le_4:
  "unat a + 1 < 2 ^ 32 \<Longrightarrow> unat ((a :: u32) + 1) = unat a + 1" "unat a + 2 < 2 ^ 32 \<Longrightarrow> unat (a + 2) = unat a + 2"
  "unat a + 3 < 2 ^ 32 \<Longrightarrow> unat (a + 3) = unat a + 3" "unat a + 4 < 2 ^ 32 \<Longrightarrow> unat (a + 4) = unat a + 4"
  using unat_add_small [of a 1] unat_add_small [of a 2] unat_add_small [of a 3] unat_add_small [of a 4] by simp_all

lemma unat_sub_small:
  assumes "k \<le> unat a"
  shows "unat ((a :: u32) - of_nat k) = unat a - k"
proof -
  have "unat a < 2 ^ LENGTH(32)" by (rule unsigned_less)
  then have "k < 2 ^ 32" using assms by simp
  then have k: "unat (of_nat k :: u32) = k" by (simp add: unat_of_nat)
  then have "(of_nat k :: u32) \<le> a" using assms by (simp add: word_le_nat_alt)
  then show ?thesis by (simp add: unat_sub k)
qed

lemma unat_sub_2_4:
  "2 \<le> unat a \<Longrightarrow> unat ((a :: u32) - 2) = unat a - 2" "4 \<le> unat a \<Longrightarrow> unat (a - 4) = unat a - 4"
  using unat_sub_small [of 2 a] unat_sub_small [of 4 a] by simp_all

lemma within_put_short: "lo \<le> unat a \<Longrightarrow> unat a + 2 \<le> hi \<Longrightarrow> hi < 2 ^ 32 \<Longrightarrow> within lo hi m (put_short a v m)"
  by (auto simp: within_def put_short_def unat_add_le_4)

lemma within_stosw:
  "lo \<le> unat a \<Longrightarrow> unat a + 2 * n \<le> hi \<Longrightarrow> hi < 2 ^ 32 \<Longrightarrow> within lo hi m (stosw n a v m)"
proof (induction n arbitrary: a m)
  case (Suc n)
  have "unat (a + 2) = unat a + 2" using Suc.prems by (intro unat_add_le_4(2)) simp
  then show ?case
    using Suc.prems by (auto intro: within_trans [OF within_put_short Suc.IH])
qed simp

lemma within_stosw_down:
  "lo + 2 * (n - 1) \<le> unat a \<Longrightarrow> unat a + 2 \<le> hi \<Longrightarrow> hi < 2 ^ 32 \<Longrightarrow> within lo hi m (stosw_down n a v m)"
proof (induction n arbitrary: a m)
  case (Suc n)
  have first: "within lo hi m (put_short a v m)" using Suc.prems by (intro within_put_short) simp_all
  show ?case
  proof (cases n)
    case 0
    then show ?thesis using first by simp
  next
    case (Suc k)
    then have "unat (a - 2) = unat a - 2" using Suc.prems(1) by (intro unat_sub_2_4(1)) simp
    then show ?thesis using Suc Suc.prems first Suc.IH [of "a - 2" "put_short a v m"] by (auto intro: within_trans)
  qed
qed simp

lemma within_movsl1: "lo \<le> unat a \<Longrightarrow> unat a + 4 \<le> hi \<Longrightarrow> hi < 2 ^ 32 \<Longrightarrow> within lo hi m (movsl1 a src m)"
  by (auto simp: within_def movsl1_def unat_add_le_4)

lemma within_movsl:
  "lo \<le> unat a \<Longrightarrow> unat a + 4 * n \<le> hi \<Longrightarrow> hi < 2 ^ 32 \<Longrightarrow> within lo hi m (movsl n a src m)"
proof (induction n arbitrary: a src m)
  case (Suc n)
  have "unat (a + 4) = unat a + 4" using Suc.prems by (intro unat_add_le_4(4)) simp
  then show ?case
    using Suc.prems by (auto intro: within_trans [OF within_movsl1 Suc.IH])
qed simp

lemma within_movsl_down:
  "lo + 4 * (n - 1) \<le> unat a \<Longrightarrow> unat a + 4 \<le> hi \<Longrightarrow> hi < 2 ^ 32 \<Longrightarrow> within lo hi m (movsl_down n a src m)"
proof (induction n arbitrary: a src m)
  case (Suc n)
  have first: "within lo hi m (movsl1 a src m)" using Suc.prems by (intro within_movsl1) simp_all
  show ?case
  proof (cases n)
    case 0
    then show ?thesis using first by simp
  next
    case (Suc k)
    then have "unat (a - 4) = unat a - 4" using Suc.prems(1) by (intro unat_sub_2_4(2)) simp
    then show ?thesis using Suc Suc.prems first Suc.IH [of "a - 4" "movsl1 a src m" "src - 4"] by (auto intro: within_trans)
  qed
qed simp

lemma within_shift_right:
  "lo \<le> unat a \<Longrightarrow> unat a + 2 * n \<le> hi \<Longrightarrow> hi < 2 ^ 32 \<Longrightarrow> within lo hi m (shift_right n a v m)"
proof (induction n arbitrary: a v m)
  case (Suc n)
  have "unat (a + 2) = unat a + 2" using Suc.prems by (intro unat_add_le_4(2)) simp
  then show ?case
    using Suc.prems by (auto intro: within_trans [OF within_put_short Suc.IH])
qed simp

lemma within_shift_left:
  "lo \<le> unat a \<Longrightarrow> unat a + 2 * n \<le> hi \<Longrightarrow> hi < 2 ^ 32 \<Longrightarrow> within lo hi m (shift_left n a m)"
proof (induction n arbitrary: a m)
  case (Suc n)
  have "unat (a + 2) = unat a + 2" using Suc.prems by (intro unat_add_le_4(2)) simp
  then show ?case
    using Suc.prems by (auto intro: within_trans [OF within_put_short Suc.IH])
qed simp

section \<open>The invariant\<close>

text \<open>The geometry of the screen; \<open>con_init\<close> sets it up and nothing changes it.\<close>

definition geometry :: "console \<Rightarrow> nat \<times> u32 \<times> u32 \<times> u32 \<times> u32 \<times> u32" where
  "geometry c = (unat (video_type c), video_num_columns c, video_size_row c, video_num_lines c, video_mem_start c, video_mem_end c)"

definition screen_ok :: "console \<Rightarrow> bool" where
  "screen_ok c \<longleftrightarrow>
     8 \<le> unat (video_num_columns c) \<and> unat (video_num_columns c) \<le> 255 \<and>
     video_size_row c = 2 * video_num_columns c \<and> video_num_lines c = 25 \<and>
     unat (video_mem_start c) \<le> unat (con_origin c) \<and>
     unat (con_origin c) + 50 * unat (video_num_columns c) \<le> unat (video_mem_end c) \<and>
     unat (video_mem_end c) \<le> 2 ^ 20 \<and> con_scr_end c = con_origin c + 25 * video_size_row c \<and>
     con_top c < con_bottom c \<and> con_bottom c \<le> 25 \<and> con_y c < 25 \<and>
     con_pos c = con_origin c + con_y c * video_size_row c + 2 * con_x c \<and> con_npar c < NPAR"

definition con_ok :: "console \<Rightarrow> bool" where
  "con_ok c \<longleftrightarrow> screen_ok c \<and> con_x c \<le> video_num_columns c"

definition con_step :: "console \<Rightarrow> console \<Rightarrow> bool" where
  "con_step c d \<longleftrightarrow> (con_ok c \<longrightarrow> con_ok d \<and> geometry d = geometry c \<and>
     within (unat (video_mem_start c)) (unat (video_mem_end c)) (vram c) (vram d))"

lemma con_step_refl [simp]: "con_step c c"
  by (simp add: con_step_def)

lemma con_step_trans: "con_step c d \<Longrightarrow> con_step d e \<Longrightarrow> con_step c e"
  by (auto simp: con_step_def geometry_def intro: within_trans)

lemma con_step_funpow: "(\<And>c. con_step c (f c)) \<Longrightarrow> con_step c ((f ^^ n) c)"
  by (induction n) (auto intro: con_step_trans)

lemma unat_times_small: "unat a * unat b < 4294967296 \<Longrightarrow> unat ((a :: u32) * b) = unat a * unat b"
  by (simp add: unat_word_ariths)

lemma unat_plus_small: "unat a + unat b < 4294967296 \<Longrightarrow> unat ((a :: u32) + b) = unat a + unat b"
  by (simp add: unat_word_ariths)

lemma screen_bounds:
  assumes "screen_ok c"
  defines "C \<equiv> unat (video_num_columns c)"
  shows "unat (video_size_row c) = 2 * C" "unat (con_y c) < 25" "unat (con_top c) < unat (con_bottom c)"
    "unat (con_bottom c) \<le> 25" "8 \<le> C" "C \<le> 255" "unat (con_scr_end c) = unat (con_origin c) + 50 * C"
    "unat (video_mem_start c) \<le> unat (con_origin c)" "unat (con_origin c) + 50 * C \<le> unat (video_mem_end c)"
    "unat (video_mem_end c) \<le> 1048576"
  using assms unat_times_small [of 2 "video_num_columns c"] unat_times_small [of 25 "video_size_row c"]
    unat_plus_small [of "con_origin c" "25 * video_size_row c"]
  by (simp_all add: screen_ok_def word_less_nat_alt word_le_nat_alt)

text \<open>The address of a cell of the screen.\<close>

lemma cell_address:
  assumes "screen_ok c" "unat y \<le> 25" "unat x \<le> 2 * unat (video_num_columns c)"
  shows "unat (con_origin c + y * video_size_row c + 2 * x) =
    unat (con_origin c) + unat y * (2 * unat (video_num_columns c)) + 2 * unat x"
proof -
  let ?C = "unat (video_num_columns c)"
  note B = screen_bounds [OF assms(1)]
  have r: "unat y * (2 * ?C) \<le> 25 * (2 * ?C)" using assms(2) by (rule mult_right_mono) simp
  then have "unat y * unat (video_size_row c) < 4294967296" unfolding B(1) using B(6) by linarith
  then have y: "unat (y * video_size_row c) = unat y * (2 * ?C)" using unat_times_small B(1) by metis
  have x: "unat (2 * x) = 2 * unat x" using assms(3) B unat_times_small [of 2 x] by simp
  have "unat (con_origin c) + unat (y * video_size_row c) < 4294967296" unfolding y using r B by linarith
  then have yo: "unat (con_origin c + y * video_size_row c) = unat (con_origin c) + unat y * (2 * ?C)"
    using unat_plus_small y by metis
  have "unat (con_origin c + y * video_size_row c) + unat (2 * x) < 4294967296"
    unfolding yo x using r B assms(3) by linarith
  then show ?thesis using unat_plus_small yo x by metis
qed

lemma pos_address:
  assumes "screen_ok c" "unat (con_x c) \<le> 2 * unat (video_num_columns c)"
  shows "unat (con_pos c) = unat (con_origin c) + unat (con_y c) * (2 * unat (video_num_columns c)) + 2 * unat (con_x c)"
  using cell_address [of c "con_y c" "con_x c"] assms by (simp add: screen_ok_def word_less_nat_alt)

lemma rows_le: "a \<le> b \<Longrightarrow> a * (2 * C) \<le> b * (2 * (C :: nat))"
  by (rule mult_right_mono) simp_all

lemma con_okD:
  assumes "con_ok c"
  shows "screen_ok c" "unat (con_x c) \<le> unat (video_num_columns c)"
  using assms by (simp_all add: con_ok_def word_le_nat_alt)

text \<open>The cursor is on a line of the screen.\<close>

lemma line_address:
  assumes "con_ok c"
  shows "unat (con_origin c) + 2 * unat (con_x c) \<le> unat (con_pos c)"
    "unat (con_pos c) + 2 * (unat (video_num_columns c) - unat (con_x c)) \<le> unat (con_origin c) + 50 * unat (video_num_columns c)"
proof -
  note D = con_okD [OF assms] and B = screen_bounds [OF con_okD(1) [OF assms]]
  have p: "unat (con_pos c) = unat (con_origin c) + unat (con_y c) * (2 * unat (video_num_columns c)) + 2 * unat (con_x c)"
    using D by (intro pos_address) simp_all
  have "Suc (unat (con_y c)) * (2 * unat (video_num_columns c)) \<le> 25 * (2 * unat (video_num_columns c))"
    using B(2) by (intro rows_le) simp
  moreover have "2 * unat (con_x c) + 2 * (unat (video_num_columns c) - unat (con_x c)) = 2 * unat (video_num_columns c)"
    using D(2) by simp
  ultimately show "unat (con_pos c) + 2 * (unat (video_num_columns c) - unat (con_x c)) \<le> unat (con_origin c) + 50 * unat (video_num_columns c)"
    unfolding p mult_Suc by linarith
  show "unat (con_origin c) + 2 * unat (con_x c) \<le> unat (con_pos c)" using p by simp
qed

section \<open>Every operation keeps the invariant\<close>

text \<open>A store into the video memory that leaves everything else alone.\<close>

lemma con_step_vram:
  "(con_ok c \<Longrightarrow> within (unat (video_mem_start c)) (unat (video_mem_end c)) (vram c) m) \<Longrightarrow> con_step c (c\<lparr>vram := m\<rparr>)"
  by (simp add: con_step_def con_ok_def screen_ok_def geometry_def)

lemma con_step_gotoxy: "con_step c (gotoxy x y c)"
  by (simp add: con_step_def con_ok_def screen_ok_def geometry_def gotoxy_def not_less not_le mult.commute)

lemma con_step_restore_cur: "con_step c (restore_cur c)"
  unfolding restore_cur_def by (rule con_step_gotoxy)

lemma con_step_misc:
  "con_step c (c\<lparr>con_state := v\<rparr>)" "con_step c (csi_m c)" "con_step c (save_cur c)"
  "con_step c (c\<lparr>con_par := p\<rparr>)" "con_step c (set_par i v c)" "con_step c (c\<lparr>beepcount := v\<rparr>)"
  "con_step c (c\<lparr>con_par := p, con_npar := 0, con_state := 3, con_ques := q\<rparr>)"
  "n < NPAR \<Longrightarrow> con_step c (c\<lparr>con_npar := n\<rparr>)"
  by (simp_all add: con_step_def con_ok_def screen_ok_def geometry_def csi_m_def save_cur_def restore_cur_def set_par_def NPAR_def)

lemma div_2_le: "4 * (x div 2) \<le> 2 * (x :: nat)"
  by presburger

text \<open>The region that scrolls: \<open>n\<close> double words from line \<open>top\<close> on, then one line.\<close>

lemma region_size:
  assumes "screen_ok c"
  defines "C \<equiv> unat (video_num_columns c)" and "t \<equiv> unat (con_top c)" and "b \<equiv> unat (con_bottom c)"
  shows "unat (drop_bit 1 ((con_bottom c - con_top c - 1) * video_num_columns c)) = (b - t - 1) * C div 2"
    "t * (2 * C) + 2 * ((b - t - 1) * C) + 2 * C = b * (2 * C)"
proof -
  note B = screen_bounds [OF assms(1)]
  have "con_top c \<le> con_bottom c" "1 \<le> con_bottom c - con_top c"
    using B(3) by (simp_all add: word_le_nat_alt unat_sub)
  then have d: "unat (con_bottom c - con_top c - 1) = b - t - 1"
    by (simp add: unat_sub b_def t_def)
  have "(b - t - 1) * C \<le> 25 * 255" using B by (intro mult_le_mono) (simp_all add: b_def t_def C_def)
  then have "unat ((con_bottom c - con_top c - 1) * video_num_columns c) = (b - t - 1) * C"
    using unat_times_small [of "con_bottom c - con_top c - 1" "video_num_columns c"] by (simp add: d C_def)
  then show "unat (drop_bit 1 ((con_bottom c - con_top c - 1) * video_num_columns c)) = (b - t - 1) * C div 2"
    by (subst unat_drop_bit_eq) (simp add: drop_bit_eq_div)
  obtain k where k: "b = t + Suc k" using B(3) less_imp_Suc_add [of t b] by (auto simp: b_def t_def)
  show "t * (2 * C) + 2 * ((b - t - 1) * C) + 2 * C = b * (2 * C)"
    by (simp add: k algebra_simps)
qed

lemma within_region_up:
  assumes "screen_ok c"
  defines "C \<equiv> unat (video_num_columns c)"
  shows "within (unat (con_origin c)) (unat (con_origin c) + 50 * C) (vram c) (vram (scroll_region_up c))"
proof -
  note B = screen_bounds [OF assms(1)] and R = region_size [OF assms(1)]
  let ?n = "drop_bit 1 ((con_bottom c - con_top c - 1) * video_num_columns c)"
  let ?d = "con_origin c + video_size_row c * con_top c"
  have d: "unat ?d = unat (con_origin c) + unat (con_top c) * (2 * C)"
    using cell_address [OF assms(1), of "con_top c" 0] B by (simp add: C_def mult.commute)
  have n: "4 * unat ?n \<le> 2 * ((unat (con_bottom c) - unat (con_top c) - 1) * C)" unfolding R(1) C_def by (rule div_2_le)
  have b: "unat (con_bottom c) * (2 * C) \<le> 25 * (2 * C)" using B(4) by (rule rows_le)
  have e: "unat ?d + 4 * unat ?n + 2 * C \<le> unat (con_origin c) + 50 * C"
    using n b R(2) unfolding d C_def [symmetric] by linarith
  have hi: "unat (con_origin c) + 50 * C < 4294967296" using B unfolding C_def by linarith
  have "unat (4 * ?n) = 4 * unat ?n" using unat_times_small [of 4 ?n] e hi by simp
  then have s: "unat (?d + 4 * ?n) = unat ?d + 4 * unat ?n" using unat_plus_small [of ?d "4 * ?n"] e hi by simp
  show ?thesis
    unfolding scroll_region_up_def Let_def
    using e hi d s by (auto intro!: within_trans [OF within_movsl within_stosw] simp: C_def)
qed

lemma within_region_down:
  assumes "screen_ok c"
  defines "C \<equiv> unat (video_num_columns c)"
  shows "within (unat (con_origin c)) (unat (con_origin c) + 50 * C) (vram c) (vram (scrdown c))"
proof -
  note B = screen_bounds [OF assms(1)] and R = region_size [OF assms(1)]
  let ?n = "drop_bit 1 ((con_bottom c - con_top c - 1) * video_num_columns c)"
  let ?e = "con_origin c + video_size_row c * con_bottom c"
  have e: "unat ?e = unat (con_origin c) + unat (con_bottom c) * (2 * C)"
    using cell_address [OF assms(1), of "con_bottom c" 0] B by (simp add: C_def mult.commute)
  have n: "4 * unat ?n \<le> 2 * ((unat (con_bottom c) - unat (con_top c) - 1) * C)" unfolding R(1) C_def by (rule div_2_le)
  have b: "unat (con_bottom c) * (2 * C) \<le> 25 * (2 * C)" using B(4) by (rule rows_le)
  have lo: "unat (con_origin c) + 4 * unat ?n + 2 * C \<le> unat ?e"
    using n R(2) unfolding e C_def [symmetric] by linarith
  have hi: "unat ?e \<le> unat (con_origin c) + 50 * C" using b e by simp
  have top: "unat (con_origin c) + 50 * C < 4294967296" using B unfolding C_def by linarith
  have C: "8 \<le> C" using B(5) by (simp add: C_def)
  have d: "unat (?e - 4) = unat ?e - 4" using lo C by (intro unat_sub_2_4(2)) linarith
  have m: "unat (4 * ?n) = 4 * unat ?n" using unat_times_small [of 4 ?n] lo hi top by simp
  have "4 * ?n \<le> ?e - 4" using d m lo C unfolding word_le_nat_alt by linarith
  from unat_sub [OF this] have s: "unat (?e - 4 - 4 * ?n) = unat ?e - 4 - 4 * unat ?n" unfolding d m .
  then have s2: "unat (?e - 4 - 4 * ?n + 2) = unat ?e - 4 * unat ?n - 2"
    using lo hi top C by (subst unat_add_le_4(2)) simp_all
  show ?thesis
    unfolding scrdown_def Let_def
    using lo hi top d s2 C
    by (auto intro!: within_trans [OF within_movsl_down within_stosw_down] simp: C_def [symmetric])
qed

lemma within_mono: "within lo hi m m' \<Longrightarrow> lo' \<le> lo \<Longrightarrow> hi \<le> hi' \<Longrightarrow> within lo' hi' m m'"
  by (auto simp: within_def)

lemma scroll_region_fields: "scroll_region_up c = c\<lparr>vram := vram (scroll_region_up c)\<rparr>" "scrdown c = c\<lparr>vram := vram (scrdown c)\<rparr>"
  by (simp_all add: scroll_region_up_def scrdown_def Let_def)

lemma con_step_region_up: "con_step c (scroll_region_up c)"
  by (subst scroll_region_fields, rule con_step_vram)
    (use within_region_up [of c] screen_bounds [of c] in \<open>auto simp: con_ok_def elim: within_mono\<close>)

lemma con_step_scrdown: "con_step c (scrdown c)"
  by (subst scroll_region_fields, rule con_step_vram)
    (use within_region_down [of c] screen_bounds [of c] in \<open>auto simp: con_ok_def elim: within_mono\<close>)

section \<open>Scrolling the whole screen and moving the cursor\<close>

lemma cons_out [simp]: "cons (outb v p s) = cons s" "cons (set_origin s) = cons s" "cons (set_cursor s) = cons s"
  "cons (upd_cons f s) = f (cons s)" "cons (upd_tty n g s) = cons s"
  by (simp_all add: outb_def set_origin_def set_cursor_def out_address_def upd_cons_def upd_tty_def Let_def)

text \<open>One line further in the video memory, or back to its start when it is used up.\<close>

lemma con_step_scroll_screen:
  assumes top: "con_top c = 0" "con_bottom c = video_num_lines c" and ok: "screen_ok c"
  defines "d \<equiv> c\<lparr>con_origin := con_origin c + video_size_row c, con_pos := con_pos c + video_size_row c,
       con_scr_end := con_scr_end c + video_size_row c\<rparr>"
  defines "n \<equiv> drop_bit 1 ((video_num_lines c - 1) * video_num_columns c)"
  defines "back \<equiv> con_origin d - video_mem_start c"
  shows "video_mem_end c < con_scr_end d \<Longrightarrow>
      screen_ok (d\<lparr>con_scr_end := con_scr_end d - back, con_pos := con_pos d - back, con_origin := video_mem_start c\<rparr>) \<and>
      within (unat (video_mem_start c)) (unat (video_mem_end c)) m
        (stosw (unat (video_num_columns c)) (video_mem_start c + 4 * n) v (movsl (unat n) (video_mem_start c) src m))"
    and "\<not> video_mem_end c < con_scr_end d \<Longrightarrow> screen_ok d \<and>
      within (unat (video_mem_start c)) (unat (video_mem_end c)) m
        (stosw (unat (video_num_columns c)) (con_scr_end d - video_size_row c) v m)"
proof -
  note B = screen_bounds [OF ok]
  let ?C = "unat (video_num_columns c)"
  have w: "con_scr_end c = con_origin c + 25 * video_size_row c" "video_size_row c = 2 * video_num_columns c"
    "con_pos c = con_origin c + con_y c * video_size_row c + 2 * con_x c" "video_num_lines c = 25"
    using ok by (simp_all add: screen_ok_def)
  have e: "unat (con_scr_end d) = unat (con_origin c) + 52 * ?C"
    using B unat_plus_small [of "con_scr_end c" "video_size_row c"] by (simp add: d_def)
  have o: "unat (con_origin d) = unat (con_origin c) + 2 * ?C"
    using B unat_plus_small [of "con_origin c" "video_size_row c"] by (simp add: d_def)
  have n: "unat n = 24 * ?C div 2"
    using region_size(1) [OF ok] B by (simp add: n_def top w)
  have n4: "unat (4 * n) = 48 * ?C" using unat_times_small [of 4 n] B by (simp add: n)
  have s4: "unat (video_mem_start c + 4 * n) = unat (video_mem_start c) + 48 * ?C"
    using unat_plus_small [of "video_mem_start c" "4 * n"] B n4 by simp
  {
    have "screen_ok (d\<lparr>con_scr_end := con_scr_end d - back, con_pos := con_pos d - back, con_origin := video_mem_start c\<rparr>)"
      using ok B by (simp add: screen_ok_def d_def back_def)
    moreover have "within (unat (video_mem_start c)) (unat (video_mem_end c)) m
        (stosw ?C (video_mem_start c + 4 * n) v (movsl (unat n) (video_mem_start c) src m))"
      using B s4 n by (intro within_trans [OF within_movsl within_stosw]) simp_all
    ultimately show "screen_ok (d\<lparr>con_scr_end := con_scr_end d - back, con_pos := con_pos d - back,
        con_origin := video_mem_start c\<rparr>) \<and>
      within (unat (video_mem_start c)) (unat (video_mem_end c)) m
        (stosw ?C (video_mem_start c + 4 * n) v (movsl (unat n) (video_mem_start c) src m))" ..
  }
  assume "\<not> video_mem_end c < con_scr_end d"
  then have le: "unat (con_origin c) + 52 * ?C \<le> unat (video_mem_end c)" using e by (simp add: word_less_nat_alt)
  have "screen_ok d"
    using ok le o by (simp add: screen_ok_def d_def)
  moreover have "unat (con_scr_end d - video_size_row c) = unat (con_origin c) + 50 * ?C"
    using B by (simp add: d_def)
  then have "within (unat (video_mem_start c)) (unat (video_mem_end c)) m
        (stosw ?C (con_scr_end d - video_size_row c) v m)"
    using B le by (intro within_stosw) simp_all
  ultimately show "screen_ok d \<and> within (unat (video_mem_start c)) (unat (video_mem_end c)) m
        (stosw ?C (con_scr_end d - video_size_row c) v m)" ..
qed

lemma con_step_scrup: "con_step (cons s) (cons (scrup s))"
proof (cases "is_ega (cons s) \<and> con_top (cons s) = 0 \<and> con_bottom (cons s) = video_num_lines (cons s)")
  case True
  let ?c = "cons s"
  have t: "con_top ?c = 0" "con_bottom ?c = video_num_lines ?c" using True by auto
  show ?thesis
    unfolding con_step_def
  proof
    assume ok: "con_ok ?c"
    note S = con_step_scroll_screen [OF t con_okD(1) [OF ok]]
    show "con_ok (cons (scrup s)) \<and> geometry (cons (scrup s)) = geometry ?c \<and>
       within (unat (video_mem_start ?c)) (unat (video_mem_end ?c)) (vram ?c) (vram (cons (scrup s)))"
      using True ok S
      by (simp add: scrup_def Let_def con_ok_def geometry_def screen_ok_def)
  qed
qed (auto simp: scrup_def Let_def con_step_region_up)

lemma con_step_lf: "con_step (cons s) (cons (lf s))"
proof (cases "con_y (cons s) + 1 < con_bottom (cons s)")
  case True
  then have "con_y (cons s) + 1 < 25" if "con_bottom (cons s) \<le> 25" using that by simp
  then show ?thesis using True
    by (auto simp: lf_def Let_def con_step_def con_ok_def screen_ok_def geometry_def algebra_simps)
qed (simp add: lf_def Let_def con_step_scrup)

lemma con_step_ri: "con_step c (ri c)"
proof (cases "con_top c < con_y c")
  case True
  then have "con_y c - 1 < 25" if "con_y c < 25"
    using that by (simp add: word_less_nat_alt unat_sub word_le_nat_alt)
  then show ?thesis using True
    by (auto simp: ri_def con_step_def con_ok_def screen_ok_def geometry_def algebra_simps)
qed (simp add: ri_def con_step_scrdown)

lemma con_step_cr: "con_step c (cr c)"
  by (simp add: con_step_def cr_def con_ok_def screen_ok_def geometry_def)

lemma con_step_left: "con_x c \<noteq> 0 \<Longrightarrow> con_step c (c\<lparr>con_x := con_x c - 1, con_pos := con_pos c - 2\<rparr>)"
proof -
  assume "con_x c \<noteq> 0"
  then have "con_x c - 1 \<le> con_x c" by (simp add: word_le_nat_alt unat_minus_one)
  then show ?thesis by (auto simp: con_step_def con_ok_def screen_ok_def geometry_def algebra_simps intro: order_trans)
qed

text \<open>A store of \<open>n\<close> cells in the line of the cursor.\<close>

lemma line_in_memory:
  assumes "con_ok c" "2 * n \<le> 2 * (unat (video_num_columns c) - unat (con_x c))"
  shows "unat (video_mem_start c) \<le> unat (con_pos c)" "unat (con_pos c) + 2 * n \<le> unat (video_mem_end c)"
    "unat (video_mem_end c) < 2 ^ 32"
proof -
  note B = line_address [OF assms(1)] screen_bounds [OF con_okD(1) [OF assms(1)]]
  show "unat (video_mem_start c) \<le> unat (con_pos c)" "unat (con_pos c) + 2 * n \<le> unat (video_mem_end c)"
    using B assms(2) by linarith+
  show "unat (video_mem_end c) < 2 ^ 32" using B by simp
qed

lemma con_step_del: "con_step c (con_del c)"
proof (cases "con_x c = 0")
  case False
  let ?m = "put_short (con_pos c - 2) (video_erase_char c) (vram c)"
  have "con_step c (c\<lparr>vram := ?m\<rparr>)"
  proof (rule con_step_vram, rule within_put_short)
    assume ok: "con_ok c"
    note L = line_in_memory [OF ok, of 0] line_address(1) [OF ok] screen_bounds(8) [OF con_okD(1) [OF ok]]
    have "0 < unat (con_x c)" using False by (simp add: word_neq_0_conv word_less_nat_alt)
    moreover from this have "unat (con_pos c - 2) = unat (con_pos c) - 2" using L by (intro unat_sub_2_4) simp
    ultimately show "unat (video_mem_start c) \<le> unat (con_pos c - 2)" "unat (con_pos c - 2) + 2 \<le> unat (video_mem_end c)"
      "unat (video_mem_end c) < 2 ^ 32"
      using L by simp_all
  qed
  moreover have "con_step (c\<lparr>vram := ?m\<rparr>) (con_del c)"
    using con_step_left [of "c\<lparr>vram := ?m\<rparr>"] False by (cases c) (simp add: con_del_def)
  ultimately show ?thesis by (rule con_step_trans)
qed (simp add: con_del_def)

section \<open>Erasing, inserting and deleting\<close>

lemma con_step_erase:
  "(con_ok c \<Longrightarrow> unat (video_mem_start c) \<le> unat a \<and> unat a + 2 * unat n \<le> unat (video_mem_end c)) \<Longrightarrow> con_step c (erase n a c)"
  unfolding erase_def
  by (rule con_step_vram, rule within_stosw) (use screen_bounds(10) [OF con_okD(1)] in force)+

lemma half_distance: "unat a + 2 * k = unat b \<Longrightarrow> unat (drop_bit 1 ((b :: u32) - a)) = k"
proof -
  assume k: "unat a + 2 * k = unat b"
  then have "a \<le> b" by (simp add: word_le_nat_alt)
  then have "unat (b - a) = 2 * k" using k by (simp add: unat_sub)
  then show ?thesis by (subst unat_drop_bit_eq) (simp add: drop_bit_eq_div)
qed

text \<open>The first column of the line of the cursor.\<close>

lemma line_begin:
  assumes "con_ok c"
  shows "unat (con_pos c - push_bit 1 (con_x c)) = unat (con_pos c) - 2 * unat (con_x c)"
    "unat (video_mem_start c) \<le> unat (con_pos c) - 2 * unat (con_x c)"
    "unat (con_pos c) - 2 * unat (con_x c) + 2 * unat (video_num_columns c) \<le> unat (video_mem_end c)"
proof -
  note D = con_okD [OF assms] and B = screen_bounds [OF con_okD(1) [OF assms]] and L = line_address [OF assms]
  have "unat (2 * con_x c) = 2 * unat (con_x c)" using D B unat_times_small [of 2 "con_x c"] by simp
  moreover from this have "2 * con_x c \<le> con_pos c" using L by (simp add: word_le_nat_alt)
  ultimately show "unat (con_pos c - push_bit 1 (con_x c)) = unat (con_pos c) - 2 * unat (con_x c)"
    by (simp add: unat_sub push_bit_eq_mult mult.commute)
  show "unat (video_mem_start c) \<le> unat (con_pos c) - 2 * unat (con_x c)"
    "unat (con_pos c) - 2 * unat (con_x c) + 2 * unat (video_num_columns c) \<le> unat (video_mem_end c)"
    using D B L by linarith+
qed

lemma con_step_csi_K: "con_step c (csi_K p c)"
proof -
  consider "p = 0" "con_x c < video_num_columns c" | "p = 1" | "p = 2" | "p = 0" "video_num_columns c \<le> con_x c"
    | "p \<noteq> 0" "p \<noteq> 1" "p \<noteq> 2" by fastforce
  then show ?thesis
  proof cases
    case 1
    have "unat (video_num_columns c - con_x c) = unat (video_num_columns c) - unat (con_x c)"
      using 1 by (intro unat_sub) simp
    then have "con_step c (erase (video_num_columns c - con_x c) (con_pos c) c)"
      using line_in_memory(1,2) [of c "unat (video_num_columns c - con_x c)"] by (intro con_step_erase) simp
    then show ?thesis using 1 by (simp add: csi_K_def)
  next
    case 2
    have "con_step c (erase (if con_x c < video_num_columns c then con_x c else video_num_columns c) (con_pos c - push_bit 1 (con_x c)) c)"
      using line_begin [of c] con_okD(2) [of c] by (intro con_step_erase) (auto simp: word_less_nat_alt)
    then show ?thesis using 2 by (simp add: csi_K_def)
  next
    case 3
    have "con_step c (erase (video_num_columns c) (con_pos c - push_bit 1 (con_x c)) c)"
      using line_begin [of c] by (intro con_step_erase) auto
    then show ?thesis using 3 by (simp add: csi_K_def)
  qed (simp_all add: csi_K_def)
qed

lemma con_step_csi_J: "con_step c (csi_J p c)"
proof -
  have 0: "con_step c (erase (drop_bit 1 (con_scr_end c - con_pos c)) (con_pos c) c)"
  proof (rule con_step_erase)
    assume ok: "con_ok c"
    note L = line_address [OF ok] and B = screen_bounds [OF con_okD(1) [OF ok]] and D = con_okD [OF ok]
    have p: "unat (con_pos c) = unat (con_origin c) + unat (con_y c) * (2 * unat (video_num_columns c)) + 2 * unat (con_x c)"
      using D by (intro pos_address) simp_all
    let ?k = "25 * unat (video_num_columns c) - unat (con_y c) * unat (video_num_columns c) - unat (con_x c)"
    have "Suc (unat (con_y c)) * unat (video_num_columns c) \<le> 25 * unat (video_num_columns c)"
      using B(2) by (intro mult_right_mono) simp_all
    then have "unat (con_y c) * unat (video_num_columns c) + unat (con_x c) \<le> 25 * unat (video_num_columns c)"
      using D(2) unfolding mult_Suc by linarith
    then have "unat (con_pos c) + 2 * ?k = unat (con_scr_end c)" using p B(7) by simp
    from half_distance [OF this] show "unat (video_mem_start c) \<le> unat (con_pos c) \<and>
        unat (con_pos c) + 2 * unat (drop_bit 1 (con_scr_end c - con_pos c)) \<le> unat (video_mem_end c)"
      using L B \<open>unat (con_pos c) + 2 * ?k = unat (con_scr_end c)\<close> by simp
  qed
  have 1: "con_step c (erase (drop_bit 1 (con_pos c - con_origin c)) (con_origin c) c)"
  proof (rule con_step_erase)
    assume ok: "con_ok c"
    note L = line_address [OF ok] and B = screen_bounds [OF con_okD(1) [OF ok]] and D = con_okD [OF ok]
    have p: "unat (con_pos c) = unat (con_origin c) + unat (con_y c) * (2 * unat (video_num_columns c)) + 2 * unat (con_x c)"
      using D by (intro pos_address) simp_all
    then have k: "unat (con_origin c) + 2 * (unat (con_y c) * unat (video_num_columns c) + unat (con_x c)) = unat (con_pos c)"
      by simp
    show "unat (video_mem_start c) \<le> unat (con_origin c) \<and>
        unat (con_origin c) + 2 * unat (drop_bit 1 (con_pos c - con_origin c)) \<le> unat (video_mem_end c)"
      using L B D unfolding half_distance [OF k] k by linarith
  qed
  have 2: "con_step c (erase (video_num_columns c * video_num_lines c) (con_origin c) c)"
  proof (rule con_step_erase)
    assume ok: "con_ok c"
    note B = screen_bounds [OF con_okD(1) [OF ok]]
    have "video_num_lines c = 25" using con_okD(1) [OF ok] by (simp add: screen_ok_def)
    then have "unat (video_num_columns c * video_num_lines c) = 25 * unat (video_num_columns c)"
      using unat_times_small [of "video_num_columns c" 25] B by simp
    then show "unat (video_mem_start c) \<le> unat (con_origin c) \<and>
        unat (con_origin c) + 2 * unat (video_num_columns c * video_num_lines c) \<le> unat (video_mem_end c)"
      using B by simp
  qed
  show ?thesis using 0 1 2 by (simp add: csi_J_def)
qed

lemma con_step_insert_char: "con_step c (insert_char c)"
  unfolding insert_char_def
  by (rule con_step_vram, rule within_shift_right) (use line_in_memory in blast)+

lemma con_step_delete_char: "con_step c (delete_char c)"
proof (cases "video_num_columns c \<le> con_x c")
  case False
  let ?n = "unat (video_num_columns c) - unat (con_x c) - 1"
  have x: "unat (con_x c) < unat (video_num_columns c)" using False by (simp add: word_less_nat_alt not_le)
  show ?thesis
    unfolding delete_char_def if_not_P [OF False] Let_def
  proof (rule con_step_vram)
    assume ok: "con_ok c"
    have "2 * Suc ?n \<le> 2 * (unat (video_num_columns c) - unat (con_x c))" using x by simp
    note M = line_in_memory [OF ok this]
    have "unat (con_pos c + of_nat (2 * ?n)) = unat (con_pos c) + 2 * ?n"
      using M x by (intro unat_add_small) simp
    then have "unat (con_pos c + 2 * of_nat ?n) = unat (con_pos c) + 2 * ?n" by simp
    then show "within (unat (video_mem_start c)) (unat (video_mem_end c)) (vram c)
        (put_short (con_pos c + 2 * of_nat ?n) (video_erase_char c) (shift_left ?n (con_pos c) (vram c)))"
      using M x by (intro within_trans [OF within_shift_left within_put_short]) simp_all
  qed
qed (simp add: delete_char_def)

text \<open>The two line functions scroll a region of their own.\<close>

lemma with_region:
  assumes "con_step (c\<lparr>con_top := con_y c, con_bottom := video_num_lines c\<rparr>) d"
  shows "con_step c (d\<lparr>con_top := con_top c, con_bottom := con_bottom c\<rparr>)"
  using assms by (auto simp: con_step_def con_ok_def screen_ok_def geometry_def)

lemma con_step_insert_line: "con_step c (insert_line c)"
  unfolding insert_line_def by (rule with_region [OF con_step_scrdown])

lemma con_step_delete_line: "con_step (cons s) (cons (delete_line s))"
proof -
  let ?s = "upd_cons (\<lambda>c. c\<lparr>con_top := con_y c, con_bottom := video_num_lines c\<rparr>) s"
  have "con_step (cons ?s) (cons (scrup ?s))" by (rule con_step_scrup)
  then show ?thesis using with_region [of "cons s" "cons (scrup ?s)"] by (simp add: delete_line_def Let_def)
qed

lemma con_step_repeated:
  "con_step c (csi_at n c)" "con_step c (csi_L n c)" "con_step c (csi_P n c)" "con_step (cons s) (cons (csi_M n s))"
proof -
  show "con_step (cons s) (cons (csi_M n s))"
  proof -
    have "con_step (cons s) (cons ((delete_line ^^ k) s))" for k
      by (induction k) (auto intro: con_step_trans con_step_delete_line)
    then show ?thesis by (simp add: csi_M_def)
  qed
qed (auto simp: csi_at_def csi_L_def csi_P_def intro: con_step_funpow con_step_insert_char con_step_insert_line con_step_delete_char)

section \<open>Characters\<close>

text \<open>The cursor past the end of a line goes to the next.\<close>

lemma con_step_wrap_line:
  assumes "screen_ok (cons s)" "video_num_columns (cons s) \<le> con_x (cons s)"
    "unat (con_x (cons s)) \<le> 2 * unat (video_num_columns (cons s))"
  shows "con_ok (cons (wrap_line s)) \<and> geometry (cons (wrap_line s)) = geometry (cons s) \<and>
    within (unat (video_mem_start (cons s))) (unat (video_mem_end (cons s))) (vram (cons s)) (vram (cons (wrap_line s)))"
proof (cases "con_y (cons s) + 1 < con_bottom (cons s)")
  case True
  have "con_x (cons s) - video_num_columns (cons s) \<le> video_num_columns (cons s)"
    using assms(2,3) by (simp add: word_le_nat_alt unat_sub)
  moreover have "con_y (cons s) + 1 < 25" using True assms(1) by (auto simp: screen_ok_def)
  ultimately show ?thesis
    using True assms(1) by (simp add: wrap_line_def lf_def Let_def con_ok_def screen_ok_def geometry_def algebra_simps)
next
  case False
  let ?t = "upd_cons (\<lambda>c. c\<lparr>con_x := con_x c - video_num_columns c, con_pos := con_pos c - video_size_row c\<rparr>) s"
  have "con_x (cons s) - video_num_columns (cons s) \<le> video_num_columns (cons s)"
    using assms(2,3) by (simp add: word_le_nat_alt unat_sub)
  then have "con_ok (cons ?t)" using assms(1) by (simp add: con_ok_def screen_ok_def algebra_simps)
  moreover have "con_step (cons ?t) (cons (scrup ?t))" by (rule con_step_scrup)
  ultimately show ?thesis using False by (simp add: wrap_line_def lf_def Let_def con_step_def geometry_def)
qed

lemma con_step_show_char:
  assumes "con_x c < video_num_columns c"
  shows "con_step c (show_char ch c)"
proof -
  let ?m = "put_short (con_pos c) (push_bit 8 (ucast (con_attr c)) OR ucast ch) (vram c)"
  have "con_step c (c\<lparr>vram := ?m\<rparr>)"
  proof (rule con_step_vram, rule within_put_short)
    assume ok: "con_ok c"
    have "2 * 1 \<le> 2 * (unat (video_num_columns c) - unat (con_x c))" using assms by (simp add: word_less_nat_alt)
    from line_in_memory [OF ok this]
    show "unat (video_mem_start c) \<le> unat (con_pos c)" "unat (con_pos c) + 2 \<le> unat (video_mem_end c)"
      "unat (video_mem_end c) < 2 ^ 32" by simp_all
  qed
  moreover have "con_x c + 1 \<le> video_num_columns c" using assms by (rule inc_le)
  then have "con_step (c\<lparr>vram := ?m\<rparr>) (show_char ch c)"
    by (cases c) (simp add: show_char_def con_step_def con_ok_def screen_ok_def geometry_def algebra_simps)
  ultimately show ?thesis by (rule con_step_trans)
qed

lemma con_x_wrap_line [simp]: "con_x (cons (wrap_line s)) = con_x (cons s) - video_num_columns (cons s)"
  by (simp add: wrap_line_def lf_def scrup_def scroll_region_up_def Let_def)

lemma con_step_tab: "con_step (cons s) (cons (con_tab s))"
  unfolding con_step_def
proof
  assume ok: "con_ok (cons s)"
  note D = con_okD [OF ok] and B = screen_bounds [OF con_okD(1) [OF ok]]
  let ?n = "8 - (con_x (cons s) AND 7)"
  let ?t = "upd_cons (\<lambda>c. c\<lparr>con_x := con_x c + ?n, con_pos := con_pos c + push_bit 1 ?n\<rparr>) s"
  have "unat (con_x (cons s) AND 7) \<le> 7" using word_and_le1 [of "con_x (cons s)" 7] by (simp add: word_le_nat_alt)
  then have n: "unat ?n \<le> 8" by (simp add: unat_sub word_le_nat_alt)
  then have x: "unat (con_x (cons ?t)) = unat (con_x (cons s)) + unat ?n"
    using D B unat_plus_small [of "con_x (cons s)" ?n] by simp
  have ok': "screen_ok (cons ?t)" using D(1) by (simp add: screen_ok_def push_bit_eq_mult algebra_simps)
  have tab: "con_tab s = (if video_num_columns (cons ?t) < con_x (cons ?t) then wrap_line ?t else ?t)"
    by (simp add: con_tab_def Let_def)
  have same: "geometry (cons ?t) = geometry (cons s)" "vram (cons ?t) = vram (cons s)" by (simp_all add: geometry_def)
  show "con_ok (cons (con_tab s)) \<and> geometry (cons (con_tab s)) = geometry (cons s) \<and>
    within (unat (video_mem_start (cons s))) (unat (video_mem_end (cons s))) (vram (cons s)) (vram (cons (con_tab s)))"
  proof (cases "video_num_columns (cons ?t) < con_x (cons ?t)")
    case True
    have "unat (con_x (cons ?t)) \<le> 2 * unat (video_num_columns (cons ?t))" using x n D B by simp
    from con_step_wrap_line [OF ok' less_imp_le [OF True] this] show ?thesis
      unfolding tab if_P [OF True] same by (simp add: geometry_def)
  next
    case False
    then show ?thesis unfolding tab if_not_P [OF False] same using ok' by (simp add: con_ok_def not_less)
  qed
qed

lemma con_step_wrap_show:
  "con_step (cons s) (show_char ch (cons (if video_num_columns (cons s) \<le> con_x (cons s) then wrap_line s else s)))"
proof (cases "video_num_columns (cons s) \<le> con_x (cons s)")
  case True
  have "con_step (cons s) (show_char ch (cons (wrap_line s)))" if ok: "con_ok (cons s)"
  proof -
    have x: "con_x (cons s) = video_num_columns (cons s)" using ok True by (simp add: con_ok_def)
    have "con_step (cons s) (cons (wrap_line s))"
      unfolding con_step_def using con_step_wrap_line [OF con_okD(1) [OF ok] True] con_okD(2) [OF ok] by simp
    moreover have "0 < video_num_columns (cons (wrap_line s))"
      using con_step_wrap_line [OF con_okD(1) [OF ok] True] con_okD [OF ok] screen_bounds(5) [OF con_okD(1) [OF ok]]
      by (auto simp: geometry_def word_less_nat_alt)
    then have "con_step (cons (wrap_line s)) (show_char ch (cons (wrap_line s)))"
      by (intro con_step_show_char) (simp add: x)
    ultimately show ?thesis by (rule con_step_trans)
  qed
  then show ?thesis using True by (auto simp: con_step_def)
qed (simp add: con_step_show_char)

lemma con_step_plain: "con_step (cons s) (cons (con_plain ch s))"
  using con_step_wrap_show [of s ch] con_step_tab [of s] con_step_left [of "cons s"]
  by (simp add: con_plain_def con_step_lf con_step_cr con_step_del con_step_misc sysbeep_def)

lemma con_step_from_0: "con_step c (from_0 i c)" "con_step c (at_least_1 i c)"
  by (simp_all add: from_0_def at_least_1_def con_step_misc)

lemma con_step_goto:
  "con_step c d \<Longrightarrow> con_step c (gotoxy x y d)"
  by (rule con_step_trans [OF _ con_step_gotoxy])

lemma con_step_set_region: "con_step c (set_region c)"
proof -
  define d where "d = (let c = from_0 0 c in if con_par c 1 = 0 then set_par 1 (video_num_lines c) c else c)"
  have "con_step c d"
    unfolding d_def Let_def by (auto intro: con_step_from_0 con_step_trans [OF con_step_from_0(1)] con_step_misc)
  moreover have "con_step d (if con_par d 0 < con_par d 1 \<and> con_par d 1 \<le> video_num_lines d
      then d\<lparr>con_top := con_par d 0, con_bottom := con_par d 1\<rparr> else d)"
    by (auto simp: con_step_def con_ok_def screen_ok_def geometry_def)
  ultimately show ?thesis
    unfolding set_region_def d_def Let_def by (rule con_step_trans)
qed

lemma con_step_if:
  "con_step c (cons s) \<Longrightarrow> con_step c (cons t) \<Longrightarrow> con_step c (cons (if p then s else t))"
  by simp

lemma con_step_upd: "(\<And>c. con_step c (f c)) \<Longrightarrow> con_step (cons s) (cons (upd_cons f s))"
  by simp

lemmas con_steps = con_step_goto con_step_from_0 con_step_trans [OF con_step_from_0(1) con_step_from_0(1)] con_step_csi_J
  con_step_csi_K con_step_repeated con_step_misc con_step_restore_cur con_step_set_region con_step_lf con_step_ri con_step_refl

lemma con_step_final: "con_step (cons s) (cons (con_final ch s))"
proof -
  have "con_step (cons s) (cons (upd_cons (\<lambda>c. c\<lparr>con_state := 0\<rparr>) s))" by (intro con_step_upd con_steps)
  then show ?thesis
    unfolding con_final_def Let_def
    by (rule con_step_trans) (intro con_step_if con_step_upd con_steps)
qed

lemma con_step_params: "con_step (cons s) (cons (con_params ch s))"
proof -
  have "con_step (cons s) (cons (upd_cons (\<lambda>c. c\<lparr>con_npar := con_npar (cons s) + 1\<rparr>) s))"
    if "con_npar (cons s) < NPAR - 1" using that by (simp add: con_step_misc NPAR_def)
  then show ?thesis
    by (auto simp: con_params_def Let_def con_step_misc intro: con_step_final)
qed

lemma con_step_bracket: "con_step (cons s) (cons (con_bracket ch s))"
proof -
  have "con_step (cons s) (cons (upd_cons (\<lambda>c. c\<lparr>con_par := (\<lambda>i. if i < NPAR then 0 else con_par c i), con_npar := 0,
      con_state := 3, con_ques := (ch = 63)\<rparr>) s))" by (intro con_step_upd con_step_misc)
  then show ?thesis
    unfolding con_bracket_def Let_def by (rule con_step_trans) (intro con_step_if con_step_params con_step_refl)
qed

text \<open>What \<open>ctc\<close> stands for may use the console only in such steps.\<close>

definition keeps_screen :: "(kst \<Rightarrow> kst kres) \<Rightarrow> bool" where
  "keeps_screen f \<longleftrightarrow> (\<forall>s t. f s = Inr t \<longrightarrow> con_step (cons s) (cons t))"

lemma keeps_screenD: "keeps_screen f \<Longrightarrow> f s = Inr t \<Longrightarrow> con_step (cons s) (cons t)"
  by (simp add: keeps_screen_def)

lemma con_step_char:
  assumes "keeps_screen ctc" "con_char ctc ch s = Inr t"
  shows "con_step (cons s) (cons t)"
proof -
  let ?u = "upd_cons (\<lambda>c. c\<lparr>con_state := 0\<rparr>) s"
  have u: "con_step (cons s) (cons ?u)" by (intro con_step_upd con_steps)
  have 2: "con_step (cons ?u) (cons (upd_cons (\<lambda>c. c\<lparr>con_state := 2\<rparr>) ?u))" by (intro con_step_upd con_steps)
  have esc: "con_step (cons ?u) (cons t)" if "con_escape ctc ch s = Inr t"
    using that keeps_screenD [OF assms(1), of "upd_tty 0 (\<lambda>t. t\<lparr>read_q := fold putch RESPONSE (read_q t)\<rparr>) ?u" t]
      2 con_step_lf [of ?u]
    by (auto simp: con_escape_def Let_def respond_def con_steps split: if_splits)
  consider "con_char ctc ch s = Inr (con_plain ch s)" | "con_char ctc ch s = con_escape ctc ch s"
    | "con_char ctc ch s = Inr (con_bracket ch s)" | "con_char ctc ch s = Inr (con_params ch s)"
    | "con_char ctc ch s = Inr (con_final ch s)" | "con_char ctc ch s = Inr s"
    unfolding con_char_def Let_def by argo
  then show ?thesis
    using assms(2) con_step_trans [OF u esc] con_step_plain con_step_bracket con_step_params con_step_final
    by cases auto
qed

lemma con_step_loop:
  assumes "keeps_screen ctc"
  shows "con_loop n ctc s = Inr t \<Longrightarrow> con_step (cons s) (cons t)"
proof (induction n arbitrary: s)
  case (Suc n)
  obtain ch q where q: "getch (write_q (tty_table s 0)) = (ch, q)" by fastforce
  from Suc.prems obtain u where u: "con_char ctc ch (upd_tty 0 (\<lambda>t. t\<lparr>write_q := q\<rparr>) s) = Inr u" "con_loop n ctc u = Inr t"
    by (auto simp: q Let_def)
  show ?case using con_step_trans [OF con_step_char [OF assms u(1)] Suc.IH [OF u(2)]] by simp
qed simp

section \<open>The line discipline between two outputs\<close>

lemma cons_tty [simp]: "cons (put_write n c s) = cons s" "cons (rs_write n s) = cons s" "cons (tty_intr n m s) = cons s"
  "cons (echo c n s) = cons s"
  by (simp_all add: put_write_def rs_write_def tty_intr_def echo_def Let_def)

text \<open>A result whose state, if there is one, is reached from console \<open>c\<close> in steps.\<close>

definition steps_to :: "console \<Rightarrow> kst kres \<Rightarrow> bool" where
  "steps_to c r \<longleftrightarrow> (\<forall>t. r = Inr t \<longrightarrow> con_step c (cons t))"

lemma steps_to_if: "steps_to c r \<Longrightarrow> steps_to c r' \<Longrightarrow> steps_to c (if p then r else r')"
  by simp

lemma steps_to_Inr: "con_step c (cons s) \<Longrightarrow> steps_to c (Inr s)"
  by (simp add: steps_to_def)

lemma steps_to_bindk: "steps_to c r \<Longrightarrow> (\<And>s. steps_to (cons s) (f s)) \<Longrightarrow> steps_to c (bindk r f)"
  by (auto simp: steps_to_def intro: con_step_trans)

lemma steps_to_write_tty: "keeps_screen con \<Longrightarrow> c = cons s \<Longrightarrow> steps_to c (write_tty con n s)"
  by (simp add: write_tty_def keeps_screen_def steps_to_def)

lemma steps_to_erase_last: "keeps_screen con \<Longrightarrow> steps_to (cons s) (erase_last con n s)"
  unfolding erase_last_def Let_def
  by (intro steps_to_bindk steps_to_if steps_to_Inr steps_to_write_tty) simp_all

lemma steps_to_kill_line: "keeps_screen con \<Longrightarrow> steps_to (cons s) (kill_line k con n s)"
  by (induction k arbitrary: s) (simp_all add: steps_to_bindk steps_to_erase_last steps_to_Inr, simp add: steps_to_def)

lemma con_step_cook:
  assumes "keeps_screen con" "cook con n c s = Inr t"
  shows "con_step (cons s) (cons t)"
proof -
  have "steps_to (cons s) (cook con n c s)"
    unfolding cook_def Let_def
    by (intro steps_to_if steps_to_kill_line steps_to_erase_last assms(1) steps_to_Inr steps_to_bindk steps_to_write_tty) simp_all
  then show ?thesis using assms(2) by (simp add: steps_to_def)
qed

lemma con_step_cooked_loop: "keeps_screen con \<Longrightarrow> cooked_loop k con n s = Inr t \<Longrightarrow> con_step (cons s) (cons t)"
proof (induction k arbitrary: s)
  case (Suc k)
  obtain c q where q: "getch (read_q (tty_table s n)) = (c, q)" by fastforce
  show ?case
  proof (cases "q_empty (read_q (tty_table s n)) \<or> q_full (secondary (tty_table s n))")
    case False
    let ?s = "upd_tty n (\<lambda>t. t\<lparr>read_q := q\<rparr>) s"
    obtain r v where r: "(case r of None \<Rightarrow> Inr ?s | Some c \<Rightarrow> cook con n c ?s) = Inr v" "cooked_loop k con n v = Inr t"
      using Suc.prems(2) False by (auto simp: q Let_def)
    have "con_step (cons ?s) (cons v)"
      using r(1) con_step_cook [OF Suc.prems(1), of n _ ?s v] by (cases r) auto
    then show ?thesis using con_step_trans [OF _ Suc.IH [OF Suc.prems(1) r(2)], of "cons ?s"] by simp
  qed (use Suc.prems in auto)
qed simp

lemma keeps_screen_con_write: "keeps_screen (con_write d)"
proof (induction d)
  case (Suc d)
  then have "keeps_screen (copy_to_cooked (con_write d) 0)"
    by (simp add: keeps_screen_def copy_to_cooked_def con_step_cooked_loop)
  from con_step_loop [OF this] show ?case
    unfolding keeps_screen_def con_write.simps con_write_body_def by auto
qed (simp add: keeps_screen_def)

section \<open>The queue the characters come from\<close>

lemma tty_cons [simp]: "tty_table (upd_cons f s) = tty_table s" "tty_table (outb v p s) = tty_table s"
  "tty_table (set_origin s) = tty_table s" "tty_table (set_cursor s) = tty_table s"
  by (simp_all add: upd_cons_def outb_def set_origin_def set_cursor_def out_address_def Let_def)

lemma tty_scroll [simp]: "tty_table (scrup s) = tty_table s" "tty_table (lf s) = tty_table s"
  "tty_table (wrap_line s) = tty_table s" "tty_table (con_tab s) = tty_table s"
proof -
  show u: "tty_table (scrup s) = tty_table s" for s by (simp add: scrup_def Let_def)
  show l: "tty_table (lf s) = tty_table s" for s by (simp add: lf_def Let_def u)
  show w: "tty_table (wrap_line s) = tty_table s" for s by (simp add: wrap_line_def l)
  show "tty_table (con_tab s) = tty_table s" by (simp add: con_tab_def Let_def w)
qed

lemma tty_csi_M [simp]: "tty_table (csi_M n s) = tty_table s"
proof -
  have "tty_table ((delete_line ^^ k) s) = tty_table s" for k
    by (induction k) (simp_all add: delete_line_def Let_def)
  then show ?thesis by (simp add: csi_M_def)
qed

lemma tty_char [simp]: "tty_table (con_plain ch s) = tty_table s" "tty_table (con_final ch s) = tty_table s"
  "tty_table (con_params ch s) = tty_table s" "tty_table (con_bracket ch s) = tty_table s"
proof -
  show "tty_table (con_plain ch s) = tty_table s" by (simp add: con_plain_def sysbeep_def)
  show f: "tty_table (con_final ch s) = tty_table s" for s by (simp add: con_final_def Let_def)
  show p: "tty_table (con_params ch s) = tty_table s" for s by (simp add: con_params_def Let_def f)
  show "tty_table (con_bracket ch s) = tty_table s" by (simp add: con_bracket_def Let_def p)
qed

text \<open>Only ESC Z calls the line discipline.\<close>

lemma con_char_returns:
  assumes "ch \<noteq> 90"
  shows "\<exists>t. con_char ctc ch s = Inr t \<and> tty_table t = tty_table s"
  using assms by (auto simp: con_char_def con_escape_def Let_def)

lemma take_char:
  assumes "queue_ok (write_q (tty_table s 0))" "queue_list (write_q (tty_table s 0)) = c # cs"
  defines "u \<equiv> upd_tty 0 (\<lambda>t. t\<lparr>write_q := snd (getch (write_q (tty_table s 0)))\<rparr>) s"
  shows "con_loop (Suc n) ctc s = bindk (con_char ctc c u) (con_loop n ctc)"
    "queue_ok (write_q (tty_table u 0))" "queue_list (write_q (tty_table u 0)) = cs" "cons u = cons s"
  using tq.take_contents [of "write_q (tty_table s 0)" c cs] assms(1,2)
  by (auto simp: tq_contents u_def upd_tty_def Let_def split: prod.splits)

lemma con_loop_returns:
  "queue_ok (write_q (tty_table s 0)) \<Longrightarrow> queue_list (write_q (tty_table s 0)) = cs \<Longrightarrow> 90 \<notin> set cs \<Longrightarrow>
    \<exists>t. con_loop (length cs) ctc s = Inr t \<and> queue_list (write_q (tty_table t 0)) = []"
proof (induction cs arbitrary: s)
  case (Cons c cs)
  note T = take_char(1) [OF Cons.prems(1,2), where ctc = ctc and n = "length cs"] take_char(2-4) [OF Cons.prems(1,2)]
  obtain t where t: "con_char ctc c (upd_tty 0 (\<lambda>t. t\<lparr>write_q := snd (getch (write_q (tty_table s 0)))\<rparr>) s) = Inr t"
    "tty_table t = tty_table (upd_tty 0 (\<lambda>t. t\<lparr>write_q := snd (getch (write_q (tty_table s 0)))\<rparr>) s)"
    using con_char_returns [of c] Cons.prems(3) by fastforce
  show ?case using Cons.IH [of t] T t Cons.prems(3) by simp
qed simp

text \<open>
  C15: Whatever characters and escape sequences are written to the console, nothing outside
  the video memory is changed, the cursor stays on the screen, the scrolling region inside
  it and the parameter index inside its array; con_write returns with the queue emptied when
  no Z, the letter that makes the console answer, is in it.
\<close>

theorem con_write_on_screen:
  assumes "con_ok (cons s)"
  shows "(\<forall>t. con_write d s = Inr t \<longrightarrow> con_ok (cons t) \<and> geometry (cons t) = geometry (cons s) \<and>
      (\<forall>a. vram (cons t) a \<noteq> vram (cons s) a \<longrightarrow> video_mem_start (cons s) \<le> a \<and> a < video_mem_end (cons s))) \<and>
    (queue_ok (write_q (tty_table s 0)) \<and> 90 \<notin> set (queue_list (write_q (tty_table s 0))) \<longrightarrow>
      (\<exists>t. con_write (Suc d) s = Inr t \<and> queue_list (write_q (tty_table t 0)) = []))"
proof (intro conjI allI impI)
  fix t assume "con_write d s = Inr t"
  then have "con_step (cons s) (cons t)" using keeps_screen_con_write by (rule keeps_screenD [rotated])
  then show "con_ok (cons t)" "geometry (cons t) = geometry (cons s)"
    "\<And>a. vram (cons t) a \<noteq> vram (cons s) a \<Longrightarrow> video_mem_start (cons s) \<le> a"
    "\<And>a. vram (cons t) a \<noteq> vram (cons s) a \<Longrightarrow> a < video_mem_end (cons s)"
    using assms by (auto simp: con_step_def within_def word_le_nat_alt word_less_nat_alt not_le [symmetric])
next
  assume q: "queue_ok (write_q (tty_table s 0)) \<and> 90 \<notin> set (queue_list (write_q (tty_table s 0)))"
  then obtain t where "con_loop (length (queue_list (write_q (tty_table s 0)))) (copy_to_cooked (con_write d) 0) s = Inr t"
    "queue_list (write_q (tty_table t 0)) = []"
    using con_loop_returns by blast
  then show "\<exists>t. con_write (Suc d) s = Inr t \<and> queue_list (write_q (tty_table t 0)) = []"
    using q by (simp add: con_write_body_def unat_q_chars)
qed

theorem con_write_on_screen_witness:
  "\<exists>t. con_write 1 (upd_tty 0 (\<lambda>t. t\<lparr>write_q := fold putch [72, 10, 27] (write_q t)\<rparr>) ex_kst) = Inr t \<and> con_ok (cons t)"
proof -
  let ?s = "upd_tty 0 (\<lambda>t. t\<lparr>write_q := fold putch [72, 10, 27] (write_q t)\<rparr>) ex_kst"
  have ok: "con_ok (cons ?s)" by (simp add: con_ok_def screen_ok_def ex_console_def NPAR_def)
  have q: "queue_ok (write_q (tty_table ?s 0)) \<and> 90 \<notin> set (queue_list (write_q (tty_table ?s 0)))"
    using tq.puts_contents [of ex_queue "[72, 10, 27]"] tq.length_contents [of ex_queue]
    by (simp add: tq_contents upd_tty_def ex_tty_def queue_ok_def queue_list_def ring_list_def ring_used_def ex_queue_def)
  from con_write_on_screen [OF ok, of 0] q have "\<exists>t. con_write (Suc 0) ?s = Inr t" by blast
  then show ?thesis using con_write_on_screen [OF ok, of "Suc 0"] by (metis One_nat_def)
qed

end
