(* ===== verification/Console_Text.thy ===== *)
theory Console_Text imports Console_Lemmas begin

text \<open>
  What the console shows: text appears at the cursor with the current attribute, and the sequence for
  cursor addressing puts the cursor where it says. Two sequences do not do what they are for.
\<close>

section \<open>Text\<close>

definition printable :: "u8 \<Rightarrow> bool" where
  "printable c \<longleftrightarrow> 31 < c \<and> c < 127"

text \<open>The cell of a character.\<close>

definition cell :: "u8 \<Rightarrow> u8 \<Rightarrow> u16" where
  "cell a c = push_bit 8 (ucast a) OR ucast c"

definition put_text :: "u8 \<Rightarrow> u8 list \<Rightarrow> u32 \<Rightarrow> (u32 \<Rightarrow> u8) \<Rightarrow> u32 \<Rightarrow> u8" where
  "put_text a cs p m = snd (fold (\<lambda>c (p, m). (p + 2, put_short p (cell a c) m)) cs (p, m))"

lemma put_text_simps [simp]: "put_text a [] p m = m"
  "put_text a (c # cs) p m = put_text a cs (p + 2) (put_short p (cell a c) m)"
  by (simp_all add: put_text_def)

lemma con_char_printable:
  assumes "printable c" "con_state (cons s) = 0" "con_x (cons s) < video_num_columns (cons s)"
  shows "con_char ctc c s = Inr (upd_cons (show_char c) s)"
  using assms by (simp add: con_char_def con_plain_def printable_def Let_def not_le)

lemma get_put_short: "get_short a (put_short a v m) = v"
proof (rule bit_word_eqI)
  fix n assume "n < LENGTH(16)"
  then show "bit (get_short a (put_short a v m)) n = bit v n"
    by (auto simp: get_short_def put_short_def bit_simps)
qed

lemma put_text_outside:
  "unat p + 2 * length cs < 2 ^ 32 \<Longrightarrow> unat b < unat p \<or> unat p + 2 * length cs \<le> unat b \<Longrightarrow> put_text a cs p m b = m b"
proof (induction cs arbitrary: p m)
  case (Cons c cs)
  have "unat (p + 2) = unat p + 2" using Cons.prems(1) by (intro unat_add_le_4(2)) simp
  moreover have "put_short p (cell a c) m b = m b"
    using Cons.prems within_put_short [of "unat p" p "unat p + 2" m "cell a c"] by (auto simp: within_def)
  ultimately show ?case using Cons.IH [of "p + 2" "put_short p (cell a c) m"] Cons.prems by auto
qed simp

lemma put_text_cells:
  "unat p + 2 * length cs < 2 ^ 32 \<Longrightarrow> i < length cs \<Longrightarrow> get_short (p + 2 * of_nat i) (put_text a cs p m) = cell a (cs ! i)"
proof (induction cs arbitrary: p m i)
  case (Cons c cs)
  have p2: "unat (p + 2) = unat p + 2" using Cons.prems(1) by (intro unat_add_le_4(2)) simp
  have p1: "unat (p + 1) = unat p + 1" using Cons.prems(1) by (intro unat_add_le_4(1)) simp
  show ?case
  proof (cases i)
    case 0
    have "put_text a cs (p + 2) (put_short p (cell a c) m) b = put_short p (cell a c) m b" if "b = p \<or> b = p + 1" for b
      using that p1 p2 Cons.prems(1) by (intro put_text_outside) auto
    then have "get_short p (put_text a cs (p + 2) (put_short p (cell a c) m)) = get_short p (put_short p (cell a c) m)"
      by (simp add: get_short_def)
    then show ?thesis using 0 by (simp add: get_put_short)
  next
    case (Suc j)
    then show ?thesis using Cons.IH [of "p + 2" j] Cons.prems p2 by (simp add: algebra_simps)
  qed
qed simp

lemma con_loop_text:
  "queue_ok (write_q (tty_table s 0)) \<Longrightarrow> queue_list (write_q (tty_table s 0)) = cs \<Longrightarrow> list_all printable cs \<Longrightarrow>
   con_state (cons s) = 0 \<Longrightarrow> unat (con_x (cons s)) + length cs \<le> unat (video_num_columns (cons s)) \<Longrightarrow>
    \<exists>t. con_loop (length cs) ctc s = Inr t \<and> cons t = (cons s)\<lparr>
      vram := put_text (con_attr (cons s)) cs (con_pos (cons s)) (vram (cons s)),
      con_pos := con_pos (cons s) + 2 * of_nat (length cs), con_x := con_x (cons s) + of_nat (length cs)\<rparr>"
proof (induction cs arbitrary: s)
  case (Cons c cs)
  let ?u = "upd_tty 0 (\<lambda>t. t\<lparr>write_q := snd (getch (write_q (tty_table s 0)))\<rparr>) s"
  note T = take_char(1) [OF Cons.prems(1,2), where ctc = ctc and n = "length cs"] take_char(2-4) [OF Cons.prems(1,2)]
  have ch: "con_char ctc c ?u = Inr (upd_cons (show_char c) ?u)"
    using Cons.prems T(4) by (intro con_char_printable) (simp_all add: word_less_nat_alt)
  let ?t = "upd_cons (show_char c) ?u"
  have "unat (video_num_columns (cons s)) < 2 ^ LENGTH(32)" by (rule unsigned_less)
  then have x: "unat (con_x (cons s) + 1) = unat (con_x (cons s)) + 1"
    using Cons.prems(5) by (intro unat_add_le_4(1)) simp
  from Cons.IH [of ?t] obtain t where "con_loop (length cs) ctc ?t = Inr t" "cons t = (cons ?t)\<lparr>
      vram := put_text (con_attr (cons ?t)) cs (con_pos (cons ?t)) (vram (cons ?t)),
      con_pos := con_pos (cons ?t) + 2 * of_nat (length cs), con_x := con_x (cons ?t) + of_nat (length cs)\<rparr>"
    using T Cons.prems x by (auto simp: show_char_def)
  then show ?case
    unfolding T ch bindk_Inr length_Cons using T(4) by (cases "cons s") (auto simp: show_char_def cell_def algebra_simps)
qed simp

text \<open>
  C38: Printable characters that fit in the rest of the line appear, with the current
  attribute, in the cells from the cursor on, the cursor moves behind them and no other cell
  changes.
\<close>

theorem con_shows_text:
  assumes "con_ok (cons s)" "con_state (cons s) = 0"
    and q: "queue_ok (write_q (tty_table s 0))" "queue_list (write_q (tty_table s 0)) = cs"
    and cs: "list_all printable cs" "unat (con_x (cons s)) + length cs \<le> unat (video_num_columns (cons s))"
  shows "\<exists>t. con_write (Suc d) s = Inr t \<and> con_y (cons t) = con_y (cons s) \<and>
    con_x (cons t) = con_x (cons s) + of_nat (length cs) \<and>
    (\<forall>i < length cs. get_short (con_pos (cons s) + 2 * of_nat i) (vram (cons t)) = cell (con_attr (cons s)) (cs ! i)) \<and>
    (\<forall>a. unat a < unat (con_pos (cons s)) \<or> unat (con_pos (cons s)) + 2 * length cs \<le> unat a \<longrightarrow>
       vram (cons t) a = vram (cons s) a)"
proof -
  have "2 * length cs \<le> 2 * (unat (video_num_columns (cons s)) - unat (con_x (cons s)))" using cs(2) by simp
  note M = line_in_memory [OF assms(1) this]
  have b: "unat (con_pos (cons s)) + 2 * length cs < 2 ^ 32" using M by simp
  obtain t where t: "con_loop (length cs) (copy_to_cooked (con_write d) 0) s = Inr t" "cons t = (cons s)\<lparr>
      vram := put_text (con_attr (cons s)) cs (con_pos (cons s)) (vram (cons s)),
      con_pos := con_pos (cons s) + 2 * of_nat (length cs), con_x := con_x (cons s) + of_nat (length cs)\<rparr>"
    using con_loop_text [OF q cs(1) assms(2) cs(2)] by blast
  have "con_write (Suc d) s = Inr (set_cursor t)"
    using t(1) q by (simp add: con_write_body_def unat_q_chars)
  then show ?thesis
    using t(2) put_text_cells [OF b] put_text_outside [OF b] by auto
qed

theorem con_shows_text_witness:
  "\<exists>t. con_write 1 (upd_tty 0 (\<lambda>t. t\<lparr>write_q := fold putch [72, 105] (write_q t)\<rparr>) ex_kst) = Inr t \<and>
     get_short 0xb8000 (vram (cons t)) = 0x748 \<and> con_x (cons t) = 2"
proof -
  let ?s = "upd_tty 0 (\<lambda>t. t\<lparr>write_q := fold putch [72, 105] (write_q t)\<rparr>) ex_kst"
  have ok: "con_ok (cons ?s)" "con_state (cons ?s) = 0" by (simp_all add: con_ok_def screen_ok_def ex_console_def NPAR_def)
  have q: "queue_ok (write_q (tty_table ?s 0))" "queue_list (write_q (tty_table ?s 0)) = [72, 105]"
    using tq.puts_contents [of ex_queue "[72, 105]"] tq.length_contents [of ex_queue]
    by (simp_all add: tq_contents upd_tty_def ex_tty_def queue_ok_def queue_list_def ring_list_def ring_used_def ex_queue_def)
  show ?thesis
    using con_shows_text [OF ok q, of 0] by (force simp: printable_def ex_console_def cell_def)
qed

section \<open>Cursor addressing\<close>

definition digit :: "u8 \<Rightarrow> bool" where
  "digit c \<longleftrightarrow> 48 \<le> c \<and> c \<le> 57"

definition dec :: "u32 \<Rightarrow> u8 list \<Rightarrow> u32" where
  "dec v ds = fold (\<lambda>d v. 10 * v + (ucast d - 48)) ds v"

lemma dec_simps [simp]: "dec v [] = v" "dec v (d # ds) = dec (10 * v + ucast d - 48) ds"
  by (simp_all add: dec_def algebra_simps)

text \<open>The characters in the write queue of the console.\<close>

definition feeds :: "kst \<Rightarrow> u8 list \<Rightarrow> bool" where
  "feeds s cs \<longleftrightarrow> queue_ok (write_q (tty_table s 0)) \<and> queue_list (write_q (tty_table s 0)) = cs"

text \<open>A character that does not call the line discipline, and the rest.\<close>

lemma con_loop_char:
  assumes "feeds s (c # cs)" "\<And>u. cons u = cons s \<Longrightarrow> \<exists>t. con_char ctc c u = Inr t \<and> tty_table t = tty_table u \<and> cons t = k"
  shows "\<exists>t. (\<forall>n. con_loop (Suc n) ctc s = con_loop n ctc t) \<and> feeds t cs \<and> cons t = k"
proof -
  let ?u = "upd_tty 0 (\<lambda>t. t\<lparr>write_q := snd (getch (write_q (tty_table s 0)))\<rparr>) s"
  have q: "queue_ok (write_q (tty_table s 0))" "queue_list (write_q (tty_table s 0)) = c # cs"
    using assms(1) by (simp_all add: feeds_def)
  from assms(2) [OF take_char(4) [OF q]] obtain t where t: "con_char ctc c ?u = Inr t" "tty_table t = tty_table ?u" "cons t = k"
    by blast
  have "con_loop (Suc n) ctc s = con_loop n ctc t" for n unfolding take_char(1) [OF q] t(1) by simp
  moreover have "feeds t cs" using take_char(2,3) [OF q] by (simp add: feeds_def t(2))
  ultimately show ?thesis using t(3) by blast
qed

lemma con_loop_digits:
  "list_all digit ds \<Longrightarrow> feeds s (ds @ cs) \<Longrightarrow> con_state (cons s) = 3 \<Longrightarrow>
    \<exists>t. (\<forall>n. con_loop (length ds + n) ctc s = con_loop n ctc t) \<and> feeds t cs \<and>
      cons t = set_par (con_npar (cons s)) (dec (con_par (cons s) (con_npar (cons s))) ds) (cons s)"
proof (induction ds arbitrary: s)
  case Nil
  then show ?case by (auto simp: set_par_def)
next
  case (Cons d ds)
  let ?i = "con_npar (cons s)"
  let ?k = "set_par ?i (10 * con_par (cons s) ?i + ucast d - 48) (cons s)"
  have d: "d \<noteq> 59" "48 \<le> d" "d \<le> 57" using Cons.prems(1) by (auto simp: digit_def)
  have ch: "\<exists>t. con_char ctc d u = Inr t \<and> tty_table t = tty_table u \<and> cons t = ?k" if "cons u = cons s" for u
    using that d Cons.prems(3) by (simp add: con_char_def con_params_def Let_def)
  have f: "feeds s (d # ds @ cs)" using Cons.prems(2) by simp
  obtain t where t: "\<forall>n. con_loop (Suc n) ctc s = con_loop n ctc t" "feeds t (ds @ cs)" "cons t = ?k"
    using con_loop_char [OF f ch] by blast
  have k: "con_state (cons t) = 3" "con_npar (cons t) = ?i" using Cons.prems(3) by (simp_all add: t(3) set_par_def)
  obtain u where u: "\<forall>n. con_loop (length ds + n) ctc t = con_loop n ctc u" "feeds u cs"
    "cons u = set_par ?i (dec (con_par (cons t) ?i) ds) (cons t)"
    using Cons.IH [OF _ t(2) k(1)] Cons.prems(1) k(2) by auto
  have "cons u = set_par ?i (dec (con_par (cons s) ?i) (d # ds)) (cons s)"
    unfolding u(3) t(3) by (simp add: set_par_def)
  then show ?case using t(1) u(1,2) by auto
qed

definition start_par :: "console \<Rightarrow> console" where
  "start_par c = c\<lparr>con_par := (\<lambda>i. if i < NPAR then 0 else con_par c i), con_npar := 0, con_state := 3, con_ques := False\<rparr>"

lemma con_loop_bracket:
  assumes "con_state (cons s) = 2" "feeds s (c # cs)" "c \<noteq> 63"
  shows "con_loop (Suc n) ctc s = con_loop (Suc n) ctc (upd_cons start_par s)" "feeds (upd_cons start_par s) (c # cs)"
proof -
  show "feeds (upd_cons start_par s) (c # cs)" using assms(2) by (simp add: feeds_def)
  obtain q where q: "getch (write_q (tty_table s 0)) = (c, q)"
    using take_char(1) assms(2) tq.take_contents [of "write_q (tty_table s 0)" c cs] 
    by (cases "getch (write_q (tty_table s 0))") (auto simp: feeds_def tq_contents)
  have "upd_tty 0 (\<lambda>t. t\<lparr>write_q := q\<rparr>) (upd_cons start_par s) = upd_cons start_par (upd_tty 0 (\<lambda>t. t\<lparr>write_q := q\<rparr>) s)"
    by (simp add: upd_tty_def upd_cons_def)
  moreover have "upd_cons (\<lambda>c. c\<lparr>con_par := (\<lambda>i. if i < NPAR then 0 else con_par c i), con_npar := 0, con_state := 3, con_ques := False\<rparr>) u
      = upd_cons start_par u" for u by (simp add: upd_cons_def start_par_def)
  ultimately show "con_loop (Suc n) ctc s = con_loop (Suc n) ctc (upd_cons start_par s)"
    using assms(1,3) q by (simp add: con_char_def con_bracket_def Let_def) (simp add: start_par_def)
qed

lemma con_loop_address:
  assumes "con_state (cons s) = 0" "feeds s ([27, 91] @ row @ [59] @ col @ [72])" "list_all digit row" "list_all digit col"
  shows "\<exists>t k. con_loop (length row + length col + 4) ctc s = Inr t \<and> cons t =
    (let c = from_0 1 (from_0 0 (k\<lparr>con_state := 0\<rparr>)) in gotoxy (con_par c 1) (con_par c 0) c) \<and>
    con_par k 0 = dec 0 row \<and> con_par k 1 = dec 0 col \<and> k = (cons s)\<lparr>con_par := con_par k, con_npar := 1, con_ques := False, con_state := 3\<rparr>"
proof -
  let ?c = "cons s"
  have c1: "\<exists>t. con_char ctc 27 u = Inr t \<and> tty_table t = tty_table u \<and> cons t = ?c\<lparr>con_state := 1\<rparr>" if "cons u = cons s" for u
    using that assms(1) by (simp add: con_char_def con_plain_def Let_def)
  have "feeds s (27 # 91 # row @ 59 # col @ [72])" using assms(2) by simp
  from con_loop_char [OF this c1] obtain s1 where s1: "\<forall>n. con_loop (Suc n) ctc s = con_loop n ctc s1"
    "feeds s1 (91 # row @ 59 # col @ [72])" "cons s1 = ?c\<lparr>con_state := 1\<rparr>" by blast
  have c2: "\<exists>t. con_char ctc 91 u = Inr t \<and> tty_table t = tty_table u \<and> cons t = ?c\<lparr>con_state := 2\<rparr>" if "cons u = cons s1" for u
    using that s1(3) by (simp add: con_char_def con_escape_def Let_def)
  from con_loop_char [OF s1(2) c2] obtain s2 where s2: "\<forall>n. con_loop (Suc n) ctc s1 = con_loop n ctc s2"
    "feeds s2 (row @ 59 # col @ [72])" "cons s2 = ?c\<lparr>con_state := 2\<rparr>" by blast
  let ?s3 = "upd_cons start_par s2"
  obtain r rs where r: "row @ 59 # col @ [72] = r # rs" "digit r \<or> r = 59" using assms(3) by (cases row) auto
  have "r \<noteq> 63" using r(2) by (auto simp: digit_def)
  note f3 = con_loop_bracket [of s2 r rs, OF _ s2(2) [unfolded r(1)] this]
  have s3: "\<forall>n. con_loop (Suc n) ctc s2 = con_loop (Suc n) ctc ?s3" "feeds ?s3 (row @ 59 # col @ [72])"
    "con_state (cons ?s3) = 3" "con_npar (cons ?s3) = 0" "con_par (cons ?s3) 0 = 0" "con_par (cons ?s3) 1 = 0"
    using f3 s2(3) r(1) by (simp_all add: start_par_def NPAR_def)
  from con_loop_digits [OF assms(3) s3(2,3)] obtain s4 where s4: "\<forall>n. con_loop (length row + n) ctc ?s3 = con_loop n ctc s4"
    "feeds s4 (59 # col @ [72])" "cons s4 = set_par 0 (dec 0 row) (cons ?s3)" using s3(4,5) by auto
  have c5: "\<exists>t. con_char ctc 59 u = Inr t \<and> tty_table t = tty_table u \<and> cons t = (cons s4)\<lparr>con_npar := 1\<rparr>"
    if "cons u = cons s4" for u
    using that s3(3,4) by (simp add: con_char_def con_params_def Let_def s4(3) set_par_def NPAR_def)
  from con_loop_char [OF s4(2) c5] obtain s5 where s5: "\<forall>n. con_loop (Suc n) ctc s4 = con_loop n ctc s5"
    "feeds s5 (col @ [72])" "cons s5 = (cons s4)\<lparr>con_npar := 1\<rparr>" by blast
  have p5: "con_state (cons s5) = 3" "con_npar (cons s5) = 1" "con_par (cons s5) 1 = 0"
    using s3 by (simp_all add: s5(3) s4(3) set_par_def)
  from con_loop_digits [OF assms(4) s5(2) p5(1)] obtain s6 where s6: "\<forall>n. con_loop (length col + n) ctc s5 = con_loop n ctc s6"
    "feeds s6 [72]" "cons s6 = set_par 1 (dec 0 col) (cons s5)" using p5(2,3) by auto
  let ?k = "cons s6"
  have c7: "\<exists>t. con_char ctc 72 u = Inr t \<and> tty_table t = tty_table u \<and> cons t =
      (let c = from_0 1 (from_0 0 (?k\<lparr>con_state := 0\<rparr>)) in gotoxy (con_par c 1) (con_par c 0) c)" if "cons u = cons s6" for u
    using that p5(1) by (simp add: con_char_def con_params_def con_final_def Let_def s6(3) set_par_def)
  from con_loop_char [OF s6(2) c7] obtain s7 where s7: "\<forall>n. con_loop (Suc n) ctc s6 = con_loop n ctc s7"
    "cons s7 = (let c = from_0 1 (from_0 0 (?k\<lparr>con_state := 0\<rparr>)) in gotoxy (con_par c 1) (con_par c 0) c)" by blast
  have len: "length row + length col + 4 = Suc (Suc (length row + Suc (length col + Suc 0)))" by simp
  have "con_loop (length row + length col + 4) ctc s = con_loop (Suc (length row + (length col + Suc 0))) ctc s2" unfolding len using s1(1) s2(1) by (simp only: add_Suc_right)
  also have "\<dots> = con_loop (length row + Suc (length col + Suc 0)) ctc ?s3" using s3(1) by (simp only: add_Suc_right)
  also have "\<dots> = con_loop (length col + Suc 0) ctc s5" using s4(1) s5(1) by (simp only:)
  also have "\<dots> = Inr s7" using s6(1) s7(1) by (simp only: con_loop.simps)
  finally have "con_loop (length row + length col + 4) ctc s = Inr s7" .
  moreover have "con_par ?k 0 = dec 0 row" "con_par ?k 1 = dec 0 col"
    "?k = (cons s)\<lparr>con_par := con_par ?k, con_npar := 1, con_ques := False, con_state := 3\<rparr>"
    by (simp_all add: s6(3) s5(3) s4(3) s2(3) set_par_def start_par_def)
  ultimately show ?thesis using s7(2) by blast
qed

theorem con_cursor_address:
  assumes "con_state (cons s) = 0" "feeds s ([27, 91] @ row @ [59] @ col @ [72])" "list_all digit row" "list_all digit col"
    and row: "1 \<le> dec 0 row" "dec 0 row \<le> video_num_lines (cons s)"
    and col: "1 \<le> dec 0 col" "dec 0 col \<le> video_num_columns (cons s)"
  shows "\<exists>t. con_write (Suc d) s = Inr t \<and> con_y (cons t) = dec 0 row - 1 \<and> con_x (cons t) = dec 0 col - 1 \<and>
    con_pos (cons t) = con_origin (cons s) + con_y (cons t) * video_size_row (cons s) + 2 * con_x (cons t) \<and>
    con_state (cons t) = 0 \<and> vram (cons t) = vram (cons s)"
proof -
  obtain t k where t: "con_loop (length row + length col + 4) (copy_to_cooked (con_write d) 0) s = Inr t"
    "cons t = (let c = from_0 1 (from_0 0 (k\<lparr>con_state := 0\<rparr>)) in gotoxy (con_par c 1) (con_par c 0) c)"
    "con_par k 0 = dec 0 row" "con_par k 1 = dec 0 col"
    "k = (cons s)\<lparr>con_par := con_par k, con_npar := 1, con_ques := False, con_state := 3\<rparr>"
    using con_loop_address [OF assms(1-4)] by blast
  have "unat (q_chars (write_q (tty_table s 0))) = length row + length col + 4"
    using assms(2) by (simp add: feeds_def unat_q_chars)
  then have run: "con_write (Suc d) s = Inr (set_cursor t)" using t(1) by (simp add: con_write_body_def)
  have n0: "dec 0 row \<noteq> 0" "dec 0 col \<noteq> 0" using row(1) col(1) by auto
  then have "\<not> video_num_lines (cons s) \<le> dec 0 row - 1" "\<not> video_num_columns (cons s) < dec 0 col - 1"
    using row col by (simp_all add: word_less_nat_alt word_le_nat_alt unat_minus_one)
  moreover have k: "video_num_lines k = video_num_lines (cons s)" "video_num_columns k = video_num_columns (cons s)"
    "con_origin k = con_origin (cons s)" "video_size_row k = video_size_row (cons s)" "vram k = vram (cons s)"
    by (subst t(5), simp)+
  ultimately have np: "(video_num_columns k < dec 0 col - 1 \<or> video_num_lines k \<le> dec 0 row - 1) = False" by simp
  let ?K = "k\<lparr>con_state := 0, con_par := (con_par k)(0 := dec 0 row - 1, Suc 0 := dec 0 col - 1)\<rparr>"
  have "cons t = gotoxy (dec 0 col - 1) (dec 0 row - 1) ?K"
    using t(2) t(3,4) [unfolded One_nat_def] n0 by (simp add: from_0_def set_par_def Let_def)
  also have "\<dots> = ?K\<lparr>con_x := dec 0 col - 1, con_y := dec 0 row - 1,
      con_pos := con_origin k + (dec 0 row - 1) * video_size_row k + push_bit 1 (dec 0 col - 1)\<rparr>"
    using np by (simp add: gotoxy_def)
  finally show ?thesis using run k by (simp add: push_bit_eq_mult mult.commute)
qed

theorem con_cursor_address_witness:
  "\<exists>t. con_write 1 (upd_tty 0 (\<lambda>t. t\<lparr>write_q := fold putch [27, 91, 53, 59, 49, 48, 72] (write_q t)\<rparr>) ex_kst) = Inr t \<and>
     con_y (cons t) = 4 \<and> con_x (cons t) = 9"
proof -
  let ?s = "upd_tty 0 (\<lambda>t. t\<lparr>write_q := fold putch [27, 91, 53, 59, 49, 48, 72] (write_q t)\<rparr>) ex_kst"
  have q: "feeds ?s ([27, 91] @ [53] @ [59] @ [49, 48] @ [72])"
    using tq.puts_contents [of ex_queue "[27, 91, 53, 59, 49, 48, 72]"] tq.length_contents [of ex_queue]
    by (simp add: feeds_def tq_contents upd_tty_def ex_tty_def queue_ok_def queue_list_def ring_list_def ring_used_def ex_queue_def)
  have "con_state (cons ?s) = 0" "list_all digit [53]" "list_all digit [49, 48]"
    by (simp_all add: ex_console_def digit_def)
  from con_cursor_address [OF this(1) q this(2,3), of 0] show ?thesis by (auto simp: ex_console_def)
qed

section \<open>Two sequences that do not work\<close>

text \<open>
  ESC 7 should save the cursor and ESC 8 restore it. The code tests the column instead of the character,
  so in every column but 55 and 56 they do nothing.
\<close>

lemma save_cursor_ignored:
  assumes "con_state (cons s) = 1" "con_x (cons s) \<noteq> 55" "con_x (cons s) \<noteq> 56" "ch = 55 \<or> ch = 56"
  shows "con_char ctc ch s = Inr (upd_cons (\<lambda>c. c\<lparr>con_state := 0\<rparr>) s)"
  using assms by (auto simp: con_char_def con_escape_def Let_def)

text \<open>
  The answer to ESC Z is put in the read queue and, when it is echoed, a nested \<open>con_write\<close> takes the
  rest of the write queue. The outer loop goes on with the count it had made before: it reads the empty
  queue, which from then on seems to hold 1023 characters.
\<close>

lemma identify_overruns_queue:
  assumes "con_state (cons s) = 1" "feeds s (90 # cs)"
    and ctc: "\<And>u. ctc u = Inr t" "feeds t []"
  shows "con_loop (Suc (Suc n)) ctc s = con_loop (Suc n) ctc t"
    "unat (q_chars (snd (getch (write_q (tty_table t 0))))) = 1023"
proof -
  have q: "queue_ok (write_q (tty_table s 0))" "queue_list (write_q (tty_table s 0)) = 90 # cs"
    using assms(2) by (simp_all add: feeds_def)
  have "con_char ctc 90 (upd_tty 0 (\<lambda>t. t\<lparr>write_q := snd (getch (write_q (tty_table s 0)))\<rparr>) s) = Inr t"
    using assms(1) ctc(1) by (simp add: con_char_def con_escape_def respond_def Let_def)
  then show "con_loop (Suc (Suc n)) ctc s = con_loop (Suc n) ctc t" unfolding take_char(1) [OF q] by simp
  let ?q = "write_q (tty_table t 0)"
  have e: "queue_ok ?q" "queue_list ?q = []" using ctc(2) by (simp_all add: feeds_def)
  then have ht: "q_head ?q = q_tail ?q" by (metis q_empty_def q_empty_iff)
  have lt: "unat (q_tail ?q) < 1024" using e(1) by (rule queue_okD)
  have "unat (q_chars (snd (getch ?q))) = (unat (q_tail ?q) + (1024 - (unat (q_tail ?q) + 1) mod 1024)) mod 1024"
    using unat_qidx_add [of "q_tail ?q" 1] by (simp add: q_chars_def getch_def ht unat_qidx_diff)
  then show "unat (q_chars (snd (getch ?q))) = 1023"
    using lt by (cases "unat (q_tail ?q) = 1023") (simp_all add: mod_if)
qed

end
