(* ===== verification/Request_Lemmas.thy ===== *)
theory Request_Lemmas imports Request Example_Drives "HOL-Library.Multiset" begin

text \<open>
  The elevator: a request joins the queue of a busy device behind the request being served, the
  queue stays the same set of requests with the new one, and it never has more than one turn,
  that is, it is at most two ascending sweeps over the device.
\<close>

section \<open>The order of requests\<close>

lemma IN_ORDER_irrefl [simp]: "\<not> IN_ORDER a a"
  by (simp add: IN_ORDER_def)

lemma IN_ORDER_trans: "IN_ORDER a b \<Longrightarrow> IN_ORDER b c \<Longrightarrow> IN_ORDER a c"
  by (auto simp: IN_ORDER_def)

lemma IN_ORDER_cong:
  "r_cmd a = r_cmd a' \<Longrightarrow> r_dev a = r_dev a' \<Longrightarrow> r_sector a = r_sector a' \<Longrightarrow> r_cmd b = r_cmd b' \<Longrightarrow>
    r_dev b = r_dev b' \<Longrightarrow> r_sector b = r_sector b' \<Longrightarrow> IN_ORDER a b = IN_ORDER a' b'"
  by (simp add: IN_ORDER_def)

text \<open>The number of turns of a queue: neighbours that are not in order.\<close>

fun turns :: "(nat \<Rightarrow> request) \<Rightarrow> nat list \<Rightarrow> nat" where
  "turns q (x # y # r) = (if IN_ORDER (q x) (q y) then 0 else 1) + turns q (y # r)"
| "turns q _ = 0"

text \<open>What \<open>add_request\<close> does, on the list of the requests in the queue.\<close>

fun elevator :: "(nat \<Rightarrow> request) \<Rightarrow> nat \<Rightarrow> nat list \<Rightarrow> nat list" where
  "elevator q r (t # x # xs) =
     (if (IN_ORDER (q t) (q r) \<or> \<not> IN_ORDER (q t) (q x)) \<and> IN_ORDER (q r) (q x) then t # r # x # xs
      else t # elevator q r (x # xs))"
| "elevator q r xs = xs @ [r]"

lemma mset_elevator [simp]: "mset (elevator q r xs) = add_mset r (mset xs)"
  by (induction q r xs rule: elevator.induct) auto

lemma set_elevator [simp]: "set (elevator q r xs) = insert r (set xs)"
  using mset_elevator [of q r xs] by (metis set_mset_add_mset_insert set_mset_mset)

lemma elevator_nonempty [simp]: "elevator q r xs \<noteq> []"
  by (induction q r xs rule: elevator.induct) auto

lemma hd_elevator: "xs \<noteq> [] \<Longrightarrow> hd (elevator q r xs) = hd xs"
  by (cases "(q, r, xs)" rule: elevator.cases) auto

lemma elevator_ascending:
  "turns q (x # xs) = 0 \<Longrightarrow> IN_ORDER (q x) (q r) \<Longrightarrow> \<forall>y\<in>set xs. IN_ORDER (q y) (q r) \<or> IN_ORDER (q r) (q y) \<Longrightarrow>
    turns q (elevator q r (x # xs)) = 0"
proof (induction xs arbitrary: x)
  case (Cons y ys)
  show ?case
  proof (cases "IN_ORDER (q r) (q y)")
    case False
    then have "turns q (elevator q r (y # ys)) = 0" using Cons by (auto split: if_splits)
    moreover have "hd (elevator q r (y # ys)) = y" by (simp add: hd_elevator)
    ultimately show ?thesis
      using Cons.prems False by (cases "elevator q r (y # ys)") (auto split: if_splits)
  qed (use Cons.prems in \<open>auto split: if_splits\<close>)
qed simp

lemma turns_elevator:
  "turns q xs \<le> 1 \<Longrightarrow> \<forall>y\<in>set xs. IN_ORDER (q y) (q r) \<or> IN_ORDER (q r) (q y) \<Longrightarrow> turns q (elevator q r xs) \<le> 1"
proof (induction q r xs rule: elevator.induct)
  case (1 q r t x xs)
  show ?case
  proof (cases "(IN_ORDER (q t) (q r) \<or> \<not> IN_ORDER (q t) (q x)) \<and> IN_ORDER (q r) (q x)")
    case True
    then show ?thesis
      using "1.prems"(1) IN_ORDER_trans [of "q t" "q r" "q x"] by (auto split: if_splits)
  next
    case False
    have hd: "elevator q r (x # xs) = x # tl (elevator q r (x # xs))"
      using hd_elevator [of "x # xs" q r] by (cases "elevator q r (x # xs)") auto
    have "turns q (t # elevator q r (x # xs)) = (if IN_ORDER (q t) (q x) then 0 else 1) + turns q (elevator q r (x # xs))"
      by (subst hd, subst turns.simps(1)) (simp flip: hd)
    moreover have "turns q (elevator q r (x # xs)) = 0" if "\<not> IN_ORDER (q t) (q x)"
      using that False "1.prems" elevator_ascending [of q x xs r] by auto
    moreover have "turns q (elevator q r (x # xs)) \<le> 1" if "IN_ORDER (q t) (q x)"
      using that False 1 by simp
    ultimately show ?thesis using False by (cases "IN_ORDER (q t) (q x)") auto
  qed
qed auto

section \<open>The queue of a device\<close>

primrec queued :: "(nat \<Rightarrow> request) \<Rightarrow> nat option \<Rightarrow> nat list \<Rightarrow> bool" where
  "queued q p [] \<longleftrightarrow> p = None"
| "queued q p (x # xs) \<longleftrightarrow> p = Some x \<and> queued q (r_next (q x)) xs"

lemma queued_cong: "(\<And>x. x \<in> set xs \<Longrightarrow> r_next (q' x) = r_next (q x)) \<Longrightarrow> queued q' p xs = queued q p xs"
  by (induction xs arbitrary: p) auto

definition link_in :: "nat \<Rightarrow> nat \<Rightarrow> (nat \<Rightarrow> request) \<Rightarrow> nat \<Rightarrow> request" where
  "link_in req t q = q(req := (q req)\<lparr>r_next := r_next (q t)\<rparr>, t := (q t)\<lparr>r_next := Some req\<rparr>)"

lemma find_place_elevator:
  assumes "queued (request s) (Some x) (x # xs)" "distinct (x # xs)" "r \<notin> set (x # xs)" "length xs < n"
  shows "\<exists>t\<in>set (x # xs). find_place n x r s = Inr t \<and>
    queued (link_in r t (request s)) (Some x) (elevator (request s) r (x # xs))"
  using assms
proof (induction n arbitrary: x xs)
  case (Suc n)
  show ?case
  proof (cases xs)
    case Nil
    then show ?thesis using Suc.prems by (simp add: link_in_def)
  next
    case (Cons y ys)
    let ?q = "request s"
    have ry: "r_next (?q x) = Some y" using Suc.prems Cons by simp
    show ?thesis
    proof (cases "(IN_ORDER (?q x) (?q r) \<or> \<not> IN_ORDER (?q x) (?q y)) \<and> IN_ORDER (?q r) (?q y)")
      case True
      have "queued (link_in r x ?q) (r_next (?q y)) ys = queued ?q (r_next (?q y)) ys"
        using Suc.prems Cons by (intro queued_cong) (auto simp: link_in_def)
      moreover have "r_next (link_in r x ?q x) = Some r" "r_next (link_in r x ?q r) = Some y"
        "r_next (link_in r x ?q y) = r_next (?q y)"
        using Suc.prems Cons ry by (auto simp: link_in_def)
      ultimately show ?thesis using True Suc.prems Cons ry by (intro bexI [of _ x]) simp_all
    next
      case False
      from Suc.IH [of y ys] Suc.prems Cons obtain t where t: "t \<in> set (y # ys)" "find_place n y r s = Inr t"
        "queued (link_in r t ?q) (Some y) (elevator ?q r (y # ys))" by auto
      have "r_next (link_in r t ?q x) = Some y" using t(1) ry Suc.prems Cons by (auto simp: link_in_def)
      then show ?thesis using t False ry Cons by auto
    qed
  qed
qed simp


text \<open>
  The queue of device \<open>m\<close> holds the requests \<open>xs\<close>, in this order, all used and none
  twice; it has at most one turn.
\<close>

definition dev_queue_ok :: "blk \<Rightarrow> nat \<Rightarrow> nat list \<Rightarrow> bool" where
  "dev_queue_ok s m xs \<longleftrightarrow> queued (request s) (current_request s m) xs \<and> distinct xs \<and>
     (\<forall>x\<in>set xs. x < NR_REQUEST \<and> 0 \<le> r_dev (request s x)) \<and> turns (request s) xs \<le> 1"

lemma dev_queue_okD:
  assumes "dev_queue_ok s m xs"
  shows "queued (request s) (current_request s m) xs" "distinct xs" "turns (request s) xs \<le> 1"
    "\<And>x. x \<in> set xs \<Longrightarrow> x < NR_REQUEST \<and> 0 \<le> r_dev (request s x)"
  using assms by (auto simp: dev_queue_ok_def)

lemma turns_cong:
  "(\<And>x y. x \<in> set xs \<Longrightarrow> y \<in> set xs \<Longrightarrow> IN_ORDER (q' x) (q' y) = IN_ORDER (q x) (q y)) \<Longrightarrow> turns q' xs = turns q xs"
  by (induction q xs rule: turns.induct) auto

lemma elevator_cong:
  "(\<And>x y. x \<in> insert r (set xs) \<Longrightarrow> y \<in> insert r (set xs) \<Longrightarrow> IN_ORDER (q' x) (q' y) = IN_ORDER (q x) (q y)) \<Longrightarrow>
    elevator q' r xs = elevator q r xs"
  by (induction q r xs rule: elevator.induct) auto

lemma empty_request_Some:
  "empty_request n s = Some i \<Longrightarrow> i < n \<and> r_dev (request s i) < 0"
  by (induction n) (auto split: if_splits simp: less_Suc_eq)

lemma empty_request_None: "empty_request n s = None \<Longrightarrow> j < n \<Longrightarrow> 0 \<le> r_dev (request s j)"
  by (induction n) (auto split: if_splits simp: less_Suc_eq)

text \<open>A request of another block or command than those in the queue, as the locked buffers ensure.\<close>

definition new_key :: "rw_cmd \<Rightarrow> buffer_head \<Rightarrow> request \<Rightarrow> bool" where
  "new_key rw h r \<longleftrightarrow> r_cmd r \<noteq> rw \<or> r_dev r \<noteq> int (unat (b_dev h)) \<or> r_sector r \<noteq> push_bit 1 (b_blocknr h)"

lemma bk_add_request [simp]: "bk (upd_req i f s) = bk s" "current_request (upd_req i f s) = current_request s"
  "request (set_bh b g s) = request s" "current_request (set_bh b g s) = current_request s"
  "request (upd_req i f s) = (request s)(i := f (request s i))" "bk (set_bh b g s) = upd_buf b g (bk s)"
  by (simp_all add: upd_req_def set_bh_def)

lemma distinct_elevator: "distinct xs \<Longrightarrow> r \<notin> set xs \<Longrightarrow> distinct (elevator q r xs)"
  by (induction q r xs rule: elevator.induct) auto

lemma link_in_key:
  "r_cmd (link_in r t q x) = r_cmd (q x)" "r_dev (link_in r t q x) = r_dev (q x)" "r_sector (link_in r t q x) = r_sector (q x)"
  "r_bh (link_in r t q x) = r_bh (q x)"
  by (simp_all add: link_in_def)

lemma queue_short:
  assumes "distinct xs" "\<forall>x\<in>set xs. x < n"
  shows "length xs \<le> n"
proof -
  have "set xs \<subseteq> {..<n}" using assms(2) by blast
  then have "card (set xs) \<le> n" using card_mono [of "{..<n}" "set xs"] by simp
  then show ?thesis using distinct_card [OF assms(1)] by simp
qed

text \<open>A request with a new key joins the queue of a busy device.\<close>

lemma add_request_busy:
  assumes ok: "dev_queue_ok s m xs" "xs \<noteq> []" and r: "r < NR_REQUEST" "r_dev (request s r) < 0"
    and R: "0 \<le> r_dev R" "r_bh R = Some b" "r_next R = None"
    and keys: "\<forall>x\<in>set xs. IN_ORDER (request s x) R \<or> IN_ORDER R (request s x)"
  shows "\<exists>t ys. add_request start m r (upd_req r (\<lambda>_. R) s) = Inr t \<and> dev_queue_ok t m ys \<and>
    mset ys = add_mset r (mset xs) \<and> hd ys = hd xs \<and> r_bh (request t r) = Some b \<and> r_cmd (request t r) = r_cmd R \<and>
    bk t = upd_buf b (\<lambda>h. h\<lparr>b_dirt := False\<rparr>) (bk s)"
proof -
  note Q = dev_queue_okD [OF ok(1)]
  let ?q = "(request s)(r := R)"
  have rx: "r \<notin> set xs" using Q(4) r(2) by force
  let ?s = "set_bh b (\<lambda>h. h\<lparr>b_dirt := False\<rparr>) (upd_req r (\<lambda>r. r\<lparr>r_next := None\<rparr>) (upd_req r (\<lambda>_. R) s))"
  have RR: "R\<lparr>r_next := None\<rparr> = R" using R(3) by (cases R) simp
  have q: "request ?s = ?q" by (simp add: RR)
  obtain x ys where x: "xs = x # ys" using ok(2) by (cases xs) auto
  have cur: "current_request s m = Some x" using Q(1) x by simp
  have "queued ?q (Some x) xs = queued (request s) (Some x) xs" by (rule queued_cong) (use rx in auto)
  then have "queued ?q (Some x) (x # ys)" using Q(1) cur by (simp add: x)
  moreover have "length ys < NR_REQUEST" using queue_short [OF Q(2), of NR_REQUEST] Q(4) x by auto
  ultimately obtain t where t: "t \<in> set xs" "find_place NR_REQUEST x r ?s = Inr t"
    "queued (link_in r t ?q) (Some x) (elevator ?q r xs)"
    using find_place_elevator [of ?s x ys r NR_REQUEST] q Q(2) rx x by auto
  let ?t = "upd_req t (\<lambda>y. y\<lparr>r_next := Some r\<rparr>) (upd_req r (\<lambda>y. y\<lparr>r_next := r_next (request ?s t)\<rparr>) ?s)"
  have tr: "t \<noteq> r" using t(1) rx by blast
  have run: "add_request start m r (upd_req r (\<lambda>_. R) s) = Inr ?t"
    using t(2) cur R(2) by (simp add: add_request_def Let_def)
  have lq: "request ?t = link_in r t ?q" using tr by (auto simp: link_in_def RR)
  let ?e = "elevator ?q r xs"
  have "turns ?q xs = turns (request s) xs" by (rule turns_cong) (use rx in auto)
  then have "turns ?q ?e \<le> 1" using Q(3) keys rx by (intro turns_elevator) auto
  moreover have "turns (link_in r t ?q) ?e = turns ?q ?e" by (rule turns_cong) (intro IN_ORDER_cong; simp add: link_in_key)
  ultimately have tu: "turns (request ?t) ?e \<le> 1" using lq by simp
  have "dev_queue_ok ?t m ?e"
    using t(3) lq tu distinct_elevator [OF Q(2) rx] cur Q(4) r R(1) by (auto simp: dev_queue_ok_def link_in_key simp del: fun_upd_apply bk_add_request(5)) (auto simp: link_in_key)
  moreover have "mset ?e = add_mset r (mset xs)" "hd ?e = hd xs" using ok(2) by (simp_all add: hd_elevator)
  moreover have "r_bh (request ?t r) = Some b" "r_cmd (request ?t r) = r_cmd R"
    unfolding lq link_in_key using R(2) by simp_all
  moreover have "bk ?t = upd_buf b (\<lambda>h. h\<lparr>b_dirt := False\<rparr>) (bk s)" by simp
  ultimately show ?thesis using run by blast
qed

text \<open>
  C29: A read or write of a busy device locks the buffer, takes a free entry of the part of
  the table its command may use and joins the queue behind the request being served; the
  queue then holds the same requests and the new one and still makes at most one turn (two
  ascending sweeps over the device).
\<close>

theorem request_joins_queue:
  assumes "dev_queue_ok s m xs" "xs \<noteq> []" "m = MAJOR (b_dev h)" "m < 7" "has_driver (bk s) m"
    and h: "h = buffers (bk s) b" "\<not> b_lock h" and rw: "rw = WRITE \<and> b_dirt h \<or> rw = READ \<and> \<not> b_uptodate h"
    and "i < request_limit rw" "r_dev (request s i) < 0"
    and "\<forall>x\<in>set xs. new_key rw h (request s x)"
  shows "\<exists>t r ys. blk_ll_rw_block start rw b s = Inr t \<and> r < request_limit rw \<and> r_dev (request s r) < 0 \<and>
    dev_queue_ok t m ys \<and> mset ys = add_mset r (mset xs) \<and> hd ys = hd xs \<and>
    r_bh (request t r) = Some b \<and> r_cmd (request t r) = rw \<and>
    buffers (bk t) = (buffers (bk s))(b := h\<lparr>b_lock := True, b_dirt := False\<rparr>)"
proof -
  let ?s = "set_bh b (\<lambda>h. h\<lparr>b_lock := True\<rparr>) s"
  have er: "empty_request n ?s = empty_request n s" for n by (induction n) simp_all
  obtain r where r: "empty_request (request_limit rw) s = Some r"
    using empty_request_None [of "request_limit rw" s i] assms(9,10) by (cases "empty_request (request_limit rw) s") auto
  note rs = empty_request_Some [OF r]
  have lim: "request_limit rw \<le> NR_REQUEST" by (simp add: request_limit_def NR_REQUEST_def)
  let ?R = "\<lparr>r_dev = int (unat (b_dev h)), r_cmd = rw, r_errors = 0, r_sector = push_bit 1 (b_blocknr h),
     r_nr_sectors = 2, r_buffer = 0, r_bh = Some b, r_next = None\<rparr>"
  have ok: "dev_queue_ok ?s m xs" using assms(1) by (simp add: dev_queue_ok_def)
  have keys: "\<forall>x\<in>set xs. IN_ORDER (request ?s x) ?R \<or> IN_ORDER ?R (request ?s x)"
  proof
    fix x assume "x \<in> set xs"
    then have "new_key rw h (request s x)" using assms(11) by blast
    then show "IN_ORDER (request ?s x) ?R \<or> IN_ORDER ?R (request ?s x)"
      by (auto simp: IN_ORDER_def new_key_def)
  qed
  have "\<exists>t ys. add_request start m r (upd_req r (\<lambda>_. ?R) ?s) = Inr t \<and> dev_queue_ok t m ys \<and>
    mset ys = add_mset r (mset xs) \<and> hd ys = hd xs \<and> r_bh (request t r) = Some b \<and> r_cmd (request t r) = r_cmd ?R \<and>
    bk t = upd_buf b (\<lambda>h. h\<lparr>b_dirt := False\<rparr>) (bk ?s)"
    by (rule add_request_busy [OF ok assms(2) _ _ _ _ _ keys]) (use rs lim in simp_all)
  then obtain t ys where t: "add_request start m r (upd_req r (\<lambda>_. ?R) ?s) = Inr t" "dev_queue_ok t m ys"
    "mset ys = add_mset r (mset xs)" "hd ys = hd xs" "r_bh (request t r) = Some b" "r_cmd (request t r) = r_cmd ?R"
    "bk t = upd_buf b (\<lambda>h. h\<lparr>b_dirt := False\<rparr>) (bk ?s)" by blast
  have "blk_ll_rw_block start rw b s = Inr t"
    using assms(3-5) h rw r t(1) er
    by (auto simp: blk_ll_rw_block_def make_request_def lock_buffer_def NR_BLK_DEV_def Let_def)
  moreover have "buffers (bk t) = (buffers (bk s))(b := h\<lparr>b_lock := True, b_dirt := False\<rparr>)"
    using t(7) h(1) by (simp add: upd_buf_def)
  ultimately show ?thesis using rs t by auto
qed

text \<open>
  The disk with device number 0x301 serves block 5 while block 9 waits; block 7 is asked for and
  comes between them.
\<close>

definition busy_disk :: blk where
  "busy_disk = \<lparr>bk = ex_kst\<lparr>buffers := (\<lambda>i. (buffers ex_kst i)\<lparr>b_dev := 0x301, b_blocknr := 7,
        b_lock := False, b_uptodate := False, b_dirt := False\<rparr>), has_driver := (\<lambda>m. m = 3)\<rparr>,
     request = (\<lambda>i. if i = 0 then \<lparr>r_dev = 0x301, r_cmd = READ, r_errors = 0, r_sector = 10, r_nr_sectors = 2, r_buffer = 0,
          r_bh = None, r_next = Some 1\<rparr>
        else if i = 1 then \<lparr>r_dev = 0x301, r_cmd = READ, r_errors = 0, r_sector = 18, r_nr_sectors = 2, r_buffer = 0,
          r_bh = None, r_next = None\<rparr>
        else \<lparr>r_dev = - 1, r_cmd = READ, r_errors = 0, r_sector = 0, r_nr_sectors = 0, r_buffer = 0, r_bh = None, r_next = None\<rparr>),
     current_request = (\<lambda>m. if m = 3 then Some 0 else None), rd_start = 0, rd_length = 0, rd_mem = (\<lambda>_. 0),
     hdd = ex_hd, fdd = ex_fd, ios = []\<rparr>"

theorem request_joins_queue_witness:
  "\<exists>t r ys. blk_ll_rw_block (\<lambda>_. Inr) READ 4 busy_disk = Inr t \<and> dev_queue_ok t 3 ys \<and> mset ys = {#r, 0, 1#} \<and> hd ys = 0 \<and>
     b_lock (buffers (bk t) 4)"
proof -
  have "dev_queue_ok busy_disk 3 [0, 1]"
    by (simp add: dev_queue_ok_def busy_disk_def NR_REQUEST_def IN_ORDER_def less_rw_cmd_def)
  then show ?thesis
    using request_joins_queue [of busy_disk 3 "[0, 1]" "buffers (bk busy_disk) 4" 4 READ 2 "\<lambda>_. Inr"]
    by (fastforce simp: busy_disk_def MAJOR_def new_key_def request_limit_def NR_REQUEST_def)
qed

end
