(* ===== verification/Ramdisk_Lemmas.thy ===== *)
theory Ramdisk_Lemmas imports Ramdisk Request_Idle Example_Drives begin

text \<open>
  The RAM disk keeps the contract of the block layer, \<open>Buffer.ll_rw_block\<close>, on which the
  buffer cache rests: the way through \<open>make_request\<close>, the queue and \<open>do_rd_request\<close>
  ends with the buffer and the disk as the contract says.
\<close>

section \<open>The disk the memory represents\<close>

definition rd_block :: "blk \<Rightarrow> u32 \<Rightarrow> block option" where
  "rd_block s n =
     (if unat n * 1024 + 1024 \<le> unat (rd_length s)
      then Some (\<lambda>i. if i < 1024 then rd_mem s (rd_start s + of_nat (unat n * 1024 + i)) else 0) else None)"

definition rd_view :: "blk \<Rightarrow> kst" where
  "rd_view s = (bk s)\<lparr>disk := (disk (bk s))(0x101 := rd_block s)\<rparr>"

definition rd_idle :: "blk \<Rightarrow> bool" where
  "rd_idle s \<longleftrightarrow> current_request s 1 = None \<and> (\<exists>i < request_limit WRITE. r_dev (request s i) < 0) \<and>
     unat (rd_start s) + unat (rd_length s) < 2 ^ 32 \<and> has_driver (bk s) 1"

text \<open>A buffer for a block of the RAM disk whose address does not wrap.\<close>

definition rd_buffer :: "blk \<Rightarrow> nat \<Rightarrow> bool" where
  "rd_buffer s b \<longleftrightarrow> b_dev (buffers (bk s) b) = 0x101 \<and> (\<forall>i \<ge> 1024. b_data (buffers (bk s) b) i = 0) \<and>
     unat (rd_start s) + unat (b_blocknr (buffers (bk s) b)) * 1024 + 1024 < 2 ^ 32"

lemma rd_addr:
  fixes a n :: u32
  assumes "unat a + unat n * 1024 + 1024 < 2 ^ 32"
  shows "a + push_bit 9 (push_bit 1 n) = a + of_nat (unat n * 1024)"
    "unat (a + push_bit 9 (push_bit 1 n) + 1024) = unat a + unat n * 1024 + 1024"
proof -
  have p: "push_bit 9 (push_bit 1 n) = of_nat (unat n * 1024)" by (simp add: push_bit_eq_mult)
  then show "a + push_bit 9 (push_bit 1 n) = a + of_nat (unat n * 1024)" by simp
  have "unat (of_nat (unat n * 1024) :: u32) = unat n * 1024" using assms by (subst unat_of_nat) simp
  then show "unat (a + push_bit 9 (push_bit 1 n) + 1024) = unat a + unat n * 1024 + 1024"
    using assms by (simp only: p unat_word_ariths) simp
qed

section \<open>One request\<close>

lemma rd_loop_idle [simp]: "current_request s (Suc 0) = None \<Longrightarrow> rd_loop (Suc n) s = Inr s"
  by (simp add: init_request_def)

abbreviation rd_request :: "rw_cmd \<Rightarrow> u32 \<Rightarrow> nat \<Rightarrow> request" where
  "rd_request rw \<equiv> block_request rw 0x101"

lemmas rd_request_def = block_request_def

text \<open>What is left of a request that was served.\<close>

definition rd_done :: "nat \<Rightarrow> blk \<Rightarrow> blk" where
  "rd_done c s = (upd_req c (\<lambda>r. r\<lparr>r_dev := - 1\<rparr>) s)\<lparr>current_request := (current_request s)(1 := None)\<rparr>"

lemma do_rd_request_one:
  assumes c: "current_request s 1 = Some c" "request s c = rd_request rw n b" and rw: "rw = READ \<or> rw = WRITE"
    and h: "buffers (bk s) b = h" "b_lock h"
    and fits: "unat (rd_start s) + unat (rd_length s) < 2 ^ 32" "unat (rd_start s) + unat n * 1024 + 1024 < 2 ^ 32"
  defines "addr \<equiv> rd_start s + of_nat (unat n * 1024)"
  shows "do_rd_request s = Inr (rd_done c
    (if unat (rd_length s) < unat n * 1024 + 1024 then set_bh b (\<lambda>h. h\<lparr>b_uptodate := False, b_lock := False\<rparr>) s
     else if rw = WRITE then set_bh b (\<lambda>h. h\<lparr>b_uptodate := True, b_lock := False\<rparr>)
       (s\<lparr>rd_mem := (\<lambda>a. if a - addr < 1024 then b_data h (unat (a - addr)) else rd_mem s a)\<rparr>)
     else set_bh b (\<lambda>h. h\<lparr>b_data := (\<lambda>i. if i < 1024 then rd_mem s (addr + of_nat i) else b_data h i),
       b_uptodate := True, b_lock := False\<rparr>) s))"
proof -
  have lim: "rd_start s + rd_length s < rd_start s + push_bit 9 (push_bit 1 n) + 1024 \<longleftrightarrow>
      unat (rd_length s) < unat n * 1024 + 1024"
    using fits rd_addr(2) [OF fits(2)] by (simp add: word_less_nat_alt unat_word_ariths)
  have i: "init_request 1 s = Inr (Some c)"
    using c h by (simp add: init_request_def rd_request_def)
  have len: "push_bit 9 (2 :: u32) = 1024" by simp
  have adr: "rd_start s + push_bit 9 (push_bit 1 n) = addr" using rd_addr(1) [OF fits(2)] by (simp add: addr_def)
  obtain k where k: "NR_REQUEST = Suc k" by (cases NR_REQUEST) (simp_all add: NR_REQUEST_def)
  have l: "push_bit 9 (r_nr_sectors (request s c)) = 1024" "r_sector (request s c) = push_bit 1 n"
    "(word_of_int (r_dev (request s c)) AND 255 :: u32) = 1" "r_cmd (request s c) = rw" "r_bh (request s c) = Some b"
    using c(2) by (simp_all add: rd_request_def)
  have step: "do_rd_request s =
     (if unat (rd_length s) < unat n * 1024 + 1024 then bindk (end_request 1 False s) (rd_loop (Suc k))
      else bindk (rd_copy c addr 1024 s) (\<lambda>s. bindk (end_request 1 True s) (rd_loop (Suc k))))"
    unfolding do_rd_request_def k by (subst rd_loop.simps(2)) (simp only: i bindk_Inr l adr Let_def option.case lim [unfolded adr] simp_thms)
  show ?thesis
    unfolding step
    using c h rw
    by (auto simp: rd_copy_def end_request_def device_off_def unlock_buffer_def set_bh_def upd_buf_def rd_done_def upd_req_def rd_request_def
        simp del: rd_loop.simps cong: if_cong)
qed

section \<open>The contract\<close>

lemma rd_view_sel [simp]: "buffers (rd_view s) = buffers (bk s)" "has_driver (rd_view s) = has_driver (bk s)"
  "sleep_on (rd_view s) = (sleep_on (bk s) :: 'a kres)" "disk (rd_view s) = (disk (bk s))(0x101 := rd_block s)"
  by (simp_all add: rd_view_def sleep_on_def)

lemma block_offset_inj: "m * 1024 + i = n * 1024 + j \<Longrightarrow> i < 1024 \<Longrightarrow> j < 1024 \<Longrightarrow> m = (n :: nat)"
  by (cases m n rule: linorder_cases) linarith+

lemma rd_block_write:
  assumes "unat (rd_start s) + unat (rd_length s) < 2 ^ 32" "unat n * 1024 + 1024 \<le> unat (rd_length s)"
    and "\<forall>i \<ge> 1024. d i = 0"
  defines "addr \<equiv> rd_start s + of_nat (unat n * 1024)"
  shows "rd_block (s\<lparr>rd_mem := (\<lambda>a. if a - addr < 1024 then d (unat (a - addr)) else rd_mem s a)\<rparr>) = (rd_block s)(n \<mapsto> d)"
proof
  fix m
  let ?a = "\<lambda>m i. rd_start s + of_nat (unat m * 1024 + i)"
  show "rd_block (s\<lparr>rd_mem := (\<lambda>a. if a - addr < 1024 then d (unat (a - addr)) else rd_mem s a)\<rparr>) m = ((rd_block s)(n \<mapsto> d)) m"
  proof (cases "unat m * 1024 + 1024 \<le> unat (rd_length s)")
    case True
    have un: "unat (of_nat (unat k * 1024 + i) :: u32) = unat k * 1024 + i"
      if "unat k * 1024 + 1024 \<le> unat (rd_length s)" "i < 1024" for k :: u32 and i
      using that assms(1) by (subst unat_of_nat) simp
    show ?thesis
    proof (cases "m = n")
      case True
      have "?a n i - addr = of_nat i" for i by (simp add: addr_def)
      moreover have "unat (of_nat i :: u32) = i" "(of_nat i :: u32) < 1024" if "i < 1024" for i
        using that by (simp_all add: unat_of_nat word_less_nat_alt)
      ultimately have "(\<lambda>i. if i < 1024 then if ?a n i - addr < 1024 then d (unat (?a n i - addr)) else rd_mem s (?a n i) else 0) = d"
        using assms(3) by (auto simp del: of_nat_add)
      then show ?thesis using True assms(2) by (simp add: rd_block_def cong: if_cong del: of_nat_add)
    next
      case False
      have "\<not> ?a m i - addr < 1024" if "i < 1024" for i
      proof
        assume l: "?a m i - addr < 1024"
        have "(of_nat (unat m * 1024 + i) :: u32) = of_nat (unat n * 1024 + unat (?a m i - addr))"
          by (simp add: addr_def)
        then have "unat (of_nat (unat m * 1024 + i) :: u32) = unat (of_nat (unat n * 1024 + unat (?a m i - addr)) :: u32)"
          by (simp only:)
        moreover have "unat (?a m i - addr) < 1024" using l by (simp add: word_less_nat_alt)
        ultimately have "unat m * 1024 + i = unat n * 1024 + unat (?a m i - addr)"
          unfolding un [OF \<open>unat m * 1024 + 1024 \<le> unat (rd_length s)\<close> that]
          by (simp only: un [OF assms(2), of "unat (?a m i - addr)"])
        moreover have "unat (?a m i - addr) < 1024" using l by (simp add: word_less_nat_alt)
        ultimately have "unat m = unat n" using that by (rule_tac block_offset_inj)
        then show False using False by (simp add: word_unat_eq_iff)
      qed
      then show ?thesis using False True by (simp add: rd_block_def cong: if_cong del: of_nat_add)
    qed
  qed (use assms(2) in \<open>auto simp: rd_block_def\<close>)
qed

lemma rd_block_cong:
  "rd_length s = rd_length t \<Longrightarrow> rd_start s = rd_start t \<Longrightarrow> rd_mem s = rd_mem t \<Longrightarrow> rd_block s = rd_block t"
  by (simp add: rd_block_def [abs_def] cong: if_cong)

lemma rd_block_sel [simp]: "rd_block (s\<lparr>bk := k\<rparr>) = rd_block s" "rd_block (s\<lparr>request := q\<rparr>) = rd_block s"
  "rd_block (s\<lparr>current_request := c\<rparr>) = rd_block s"
  by (simp_all add: rd_block_def [abs_def] cong: if_cong)

lemma rd_view_steps [simp]: "rd_view (rd_done c s) = rd_view s" "rd_view (set_bh b f s) = upd_buf b f (rd_view s)"
  "rd_view (upd_req c g s) = rd_view s" "rd_view (s\<lparr>current_request := p\<rparr>) = rd_view s"
  by (simp_all add: rd_view_def rd_done_def upd_req_def set_bh_def upd_buf_def)

lemma upd_buf_twice: "f (g (buffers k b)) = h (buffers k b) \<Longrightarrow> upd_buf b f (upd_buf b g k) = upd_buf b h k"
  by (simp add: upd_buf_def)

lemma rd_view_write:
  "rd_block (s\<lparr>rd_mem := f\<rparr>) = (rd_block s)(n \<mapsto> d) \<Longrightarrow>
    rd_view (s\<lparr>rd_mem := f\<rparr>) = (rd_view s)\<lparr>disk := (disk (rd_view s))(0x101 := (rd_block s)(n \<mapsto> d))\<rparr>"
  by (simp add: rd_view_def)

lemma upd_buf_disk: "(upd_buf b f k)\<lparr>disk := d\<rparr> = upd_buf b f (k\<lparr>disk := d\<rparr>)"
  by (simp add: upd_buf_def)

lemma disk_upd_buf [simp]: "disk (upd_buf b f k) = disk k"
  by (simp add: upd_buf_def)

text \<open>
  C19: The RAM disk driver behind make_request and the request queue implements the block
  layer contract ll_rw_block that the buffer cache is proved against: reading, writing,
  blocks behind the end of the disk, locked and up to date buffers end as the contract says,
  with the queue idle again. Assumed: the byte address of the end of the block, rd_start +
  1024 * block + 1024, is below 2^32. The driver computes it in 32 bits, so for block
  0x400000 it wraps, the range check passes and block 0 is accessed; such block numbers,
  which neither zone numbers of 16 bits nor positions of 31 bits give, are outside the
  theorem.
\<close>

theorem ramdisk_keeps_contract:
  assumes idle: "rd_idle s" and b: "rd_buffer s b" and start: "start 1 = do_rd_request"
  shows "map_sum id rd_view (blk_ll_rw_block start rw b s) = ll_rw_block rw b (rd_view s) \<and>
    (\<forall>t. blk_ll_rw_block start rw b s = Inr t \<longrightarrow> rd_idle t)"
proof -
  let ?h = "buffers (bk s) b" and ?n = "b_blocknr (buffers (bk s) b)" and ?rw = "base_cmd rw"
  have I: "current_request s 1 = None" "unat (rd_start s) + unat (rd_length s) < 2 ^ 32" "has_driver (bk s) 1"
    using idle by (auto simp: rd_idle_def)
  have B: "b_dev ?h = 0x101" "\<forall>i \<ge> 1024. b_data ?h i = 0" "unat (rd_start s) + unat ?n * 1024 + 1024 < 2 ^ 32"
    using b by (auto simp: rd_buffer_def)
  have M: "MAJOR 0x101 = 1" by (simp add: MAJOR_def)
  show ?thesis
  proof (cases "\<not> b_lock ?h \<and> \<not> (?rw = WRITE \<and> \<not> b_dirt ?h \<or> ?rw = READ \<and> b_uptodate ?h)")
    case True
    obtain r where r: "empty_request (request_limit ?rw) s = Some r"
      using request_found [of s ?rw] idle by (auto simp: rd_idle_def request_free_def)
    let ?x = "(upd_req r (\<lambda>_. rd_request ?rw ?n b) (set_bh b (\<lambda>h. h\<lparr>b_lock := True, b_dirt := False\<rparr>) s))
      \<lparr>current_request := (current_request s)(1 \<mapsto> r)\<rparr>"
    have run: "blk_ll_rw_block start rw b s = do_rd_request ?x"
      using idle_transfer [OF _ _ I(3,1) _ _ r, where b = b] True start B(1) by (simp add: M NR_BLK_DEV_def asked_def)
    let ?g = "?h\<lparr>b_lock := True, b_dirt := False\<rparr>" and ?addr = "rd_start s + of_nat (unat ?n * 1024)"
    have fin: "do_rd_request ?x = Inr (rd_done r
      (if unat (rd_length s) < unat ?n * 1024 + 1024 then set_bh b (\<lambda>h. h\<lparr>b_uptodate := False, b_lock := False\<rparr>) ?x
       else if ?rw = WRITE then set_bh b (\<lambda>h. h\<lparr>b_uptodate := True, b_lock := False\<rparr>)
         (?x\<lparr>rd_mem := (\<lambda>a. if a - ?addr < 1024 then b_data ?h (unat (a - ?addr)) else rd_mem s a)\<rparr>)
       else set_bh b (\<lambda>h. h\<lparr>b_data := (\<lambda>i. if i < 1024 then rd_mem s (?addr + of_nat i) else b_data ?h i),
         b_uptodate := True, b_lock := False\<rparr>) ?x))"
      using do_rd_request_one [of ?x r ?rw ?n b ?g] base_cmd_cases [of rw] I B
      by (simp add: upd_req_def set_bh_def upd_buf_def cong: if_cong)
    have spec: "ll_rw_block rw b (rd_view s) = Inr
      (case rd_block s ?n of
         None \<Rightarrow> upd_buf b (\<lambda>h. h\<lparr>b_dirt := False, b_uptodate := False\<rparr>) (rd_view s)
       | Some d \<Rightarrow>
           if ?rw = WRITE then upd_buf b (\<lambda>h. h\<lparr>b_dirt := False, b_uptodate := True\<rparr>)
             ((rd_view s)\<lparr>disk := (disk (rd_view s))(0x101 := (rd_block s)(?n \<mapsto> b_data ?h))\<rparr>)
           else upd_buf b (\<lambda>h. h\<lparr>b_data := d, b_dirt := False, b_uptodate := True\<rparr>) (rd_view s))"
      using True B(1) I(3) by (cases rw) (simp_all add: ll_rw_block_def Let_def M base_cmd_def split: option.splits)
    have blk: "rd_block s ?n = (if unat (rd_length s) < unat ?n * 1024 + 1024 then None
      else Some (\<lambda>i. if i < 1024 then rd_mem s (?addr + of_nat i) else b_data ?h i))"
      using B(2) by (auto simp: rd_block_def add.assoc)
    have 1: "map_sum id rd_view (do_rd_request ?x) = ll_rw_block rw b (rd_view s)"
    proof -
      consider "unat (rd_length s) < unat ?n * 1024 + 1024" | "unat ?n * 1024 + 1024 \<le> unat (rd_length s)" "?rw = WRITE"
        | "unat ?n * 1024 + 1024 \<le> unat (rd_length s)" "?rw = READ" using base_cmd_cases [of rw] by linarith
      then show ?thesis
      proof cases
        case 1
        then show ?thesis
          unfolding fin spec blk using True by (simp, subst upd_buf_twice) auto
      next
        case 2
        let ?f = "\<lambda>a. if a - ?addr < 1024 then b_data ?h (unat (a - ?addr)) else rd_mem s a"
        have "rd_block (?x\<lparr>rd_mem := ?f\<rparr>) = (rd_block ?x)(?n \<mapsto> b_data ?h)"
        proof -
          have "rd_block (?x\<lparr>rd_mem := ?f\<rparr>) = rd_block (s\<lparr>rd_mem := ?f\<rparr>)"
            by (rule rd_block_cong) (simp_all add: upd_req_def set_bh_def)
          moreover have "rd_block ?x = rd_block s" by (rule rd_block_cong) (simp_all add: upd_req_def set_bh_def)
          ultimately show ?thesis using rd_block_write [OF I(2) 2(1) B(2)] by (simp only:)
        qed
        note w = rd_view_write [OF this]
        have x: "rd_view ?x = upd_buf b (\<lambda>h. h\<lparr>b_lock := True, b_dirt := False\<rparr>) (rd_view s)" by simp
        have nl: "(unat (rd_length s) < unat ?n * 1024 + 1024) = False" using 2(1) by simp
        have y: "rd_block ?x = rd_block s" by (rule rd_block_cong) (simp_all add: upd_req_def set_bh_def)
        have L: "do_rd_request ?x = Inr (rd_done r (set_bh b (\<lambda>h. h\<lparr>b_uptodate := True, b_lock := False\<rparr>)
           (?x\<lparr>rd_mem := ?f\<rparr>)))"
          unfolding fin nl if_False by (simp only: 2(2) simp_thms if_True)
        have S: "ll_rw_block rw b (rd_view s) = Inr (upd_buf b (\<lambda>h. h\<lparr>b_dirt := False, b_uptodate := True\<rparr>)
           ((rd_view s)\<lparr>disk := (disk (rd_view s))(0x101 := (rd_block s)(?n \<mapsto> b_data ?h))\<rparr>))"
          by (simp only: spec blk nl 2(2) simp_thms if_True if_False option.case)
        show ?thesis
          unfolding L S map_sum.simps rd_view_steps(1,2) w x y upd_buf_disk disk_upd_buf using True
          by (subst upd_buf_twice) auto
      next
        case 3
        then show ?thesis
          unfolding fin spec blk using True by (simp, subst upd_buf_twice) auto
      qed
    qed
    have 2: "rd_idle t" if "do_rd_request ?x = Inr t" for t
      using that I \<open>rd_idle s\<close> unfolding fin by (auto simp: rd_idle_def rd_done_def upd_req_def set_bh_def upd_buf_def)
    show ?thesis using 1 2 by (simp add: run)
  next
    case False
    have l: "unlock_buffer b (set_bh b (\<lambda>h. h\<lparr>b_lock := True\<rparr>) s) = s" if "\<not> b_lock ?h"
    proof -
      have "?h\<lparr>b_lock := False\<rparr> = ?h" using that by (cases "buffers (bk s) b") simp
      then show ?thesis by (simp add: unlock_buffer_def set_bh_def upd_buf_def)
    qed
    have "blk_ll_rw_block start rw b s = (if b_lock ?h \<and> (rw = READ \<or> rw = WRITE) then sleep_on (bk s) else Inr s)"
      using False B(1) I(3) l
      by (cases rw) (auto simp: blk_ll_rw_block_def make_request_def lock_buffer_def M NR_BLK_DEV_def base_cmd_def Let_def)
    moreover have "ll_rw_block rw b (rd_view s) =
        (if b_lock ?h \<and> (rw = READ \<or> rw = WRITE) then sleep_on (bk s) else Inr (rd_view s))"
      using False B(1) I(3) by (cases rw) (auto simp: ll_rw_block_def M base_cmd_def Let_def)
    moreover have "map_sum id rd_view (sleep_on (bk s)) = sleep_on (bk s)" by (simp add: sleep_on_def)
    ultimately show ?thesis using idle by simp
  qed
qed

text \<open>A RAM disk of 4 blocks at the address 4 MB; block 2 is read and found to be full of the byte 9.\<close>

definition ex_rd :: blk where
  "ex_rd = \<lparr>bk = ex_kst\<lparr>buffers := (\<lambda>i. ex_buffer\<lparr>b_dev := 0x101, b_blocknr := 2\<rparr>), has_driver := (\<lambda>m. m = 1)\<rparr>,
     request = (\<lambda>i. \<lparr>r_dev = - 1, r_cmd = READ, r_errors = 0, r_sector = 0, r_nr_sectors = 0, r_buffer = 0, r_bh = None, r_next = None\<rparr>),
     current_request = (\<lambda>_. None), rd_start = 0x400000, rd_length = 4096,
     rd_mem = (\<lambda>a. if 0x400800 \<le> a then 9 else 1),
     hdd = ex_hd, fdd = ex_fd, ios = []\<rparr>"

theorem ramdisk_keeps_contract_witness:
  "map_sum id rd_view (blk_ll_rw_block (\<lambda>_. do_rd_request) READ 3 ex_rd) = ll_rw_block READ 3 (rd_view ex_rd) \<and>
   (\<exists>k. ll_rw_block READ 3 (rd_view ex_rd) = Inr k \<and> b_data (buffers k 3) 0 = 9 \<and> b_uptodate (buffers k 3))"
proof -
  have "rd_idle ex_rd" "rd_buffer ex_rd 3"
    by (auto simp: rd_idle_def rd_buffer_def ex_rd_def ex_buffer_def request_limit_def NR_REQUEST_def intro: exI [of _ 0])
  moreover have "\<exists>k. ll_rw_block READ 3 (rd_view ex_rd) = Inr k \<and> b_data (buffers k 3) 0 = 9 \<and> b_uptodate (buffers k 3)"
    by (simp add: ll_rw_block_def rd_view_def rd_block_def ex_rd_def ex_buffer_def upd_buf_def MAJOR_def Let_def cong: if_cong)
  ultimately show ?thesis using ramdisk_keeps_contract [of ex_rd 3 "\<lambda>_. do_rd_request" READ] by simp
qed

end
