(* ===== verification/Kmalloc.thy ===== *)
theory Kmalloc imports Memory begin

text \<open>
  lib/malloc.c: the kernel heap. A bucket is a page cut into objects of one size; its descriptor
  (16 bytes in a descriptor page) counts the objects in use and heads the list of the free ones,
  which are linked through their first words. All of this lies in physical memory, read and
  written through \<open>pmem\<close>; the state adds the two static variables, the heads of the chains of
  \<open>bucket_dir\<close> (its sizes never change) and \<open>free_bucket_desc\<close>. A null pointer is 0.
\<close>

record heap =
  h_mm :: mm
  chain :: "nat \<Rightarrow> u32"
  free_bucket_desc :: u32

text \<open>The sizes of \<open>bucket_dir\<close> without the end marker.\<close>

definition bucket_dir :: "u32 list" where
  "bucket_dir = [16, 32, 64, 128, 256, 512, 1024, 2048, 4096]"

definition poke :: "u32 \<Rightarrow> u32 \<Rightarrow> heap \<Rightarrow> heap" where
  "poke a v s = s\<lparr>h_mm := store a v (h_mm s)\<rparr>"

section \<open>Bucket descriptors\<close>

definition d_page :: "u32 \<Rightarrow> heap \<Rightarrow> u32" where "d_page b s = pmem (h_mm s) b"
definition d_next :: "u32 \<Rightarrow> heap \<Rightarrow> u32" where "d_next b s = pmem (h_mm s) (b + 4)"
definition d_freeptr :: "u32 \<Rightarrow> heap \<Rightarrow> u32" where "d_freeptr b s = pmem (h_mm s) (b + 8)"
definition d_refcnt :: "u32 \<Rightarrow> heap \<Rightarrow> u16" where "d_refcnt b s = ucast (pmem (h_mm s) (b + 12))"
definition d_size :: "u32 \<Rightarrow> heap \<Rightarrow> u16" where "d_size b s = ucast (drop_bit 16 (pmem (h_mm s) (b + 12)))"

definition set_page :: "u32 \<Rightarrow> u32 \<Rightarrow> heap \<Rightarrow> heap" where "set_page b v = poke b v"
definition set_next :: "u32 \<Rightarrow> u32 \<Rightarrow> heap \<Rightarrow> heap" where "set_next b v = poke (b + 4) v"
definition set_freeptr :: "u32 \<Rightarrow> u32 \<Rightarrow> heap \<Rightarrow> heap" where "set_freeptr b v = poke (b + 8) v"
definition set_refcnt :: "u32 \<Rightarrow> u16 \<Rightarrow> heap \<Rightarrow> heap" where
  "set_refcnt b v s = poke (b + 12) (pmem (h_mm s) (b + 12) AND 0xffff0000 OR ucast v) s"
definition set_size :: "u32 \<Rightarrow> u16 \<Rightarrow> heap \<Rightarrow> heap" where
  "set_size b v s = poke (b + 12) (pmem (h_mm s) (b + 12) AND 0xffff OR push_bit 16 (ucast v)) s"

text \<open>\<open>get_free_page()\<close> and \<open>free_page()\<close> on the heap's memory.\<close>

definition take_page :: "heap \<Rightarrow> u32 \<times> heap" where
  "take_page s = (let (p, m) = get_free_page (h_mm s) in (p, s\<lparr>h_mm := m\<rparr>))"

definition give_page :: "u32 \<Rightarrow> heap \<Rightarrow> heap kres" where
  "give_page p s = bindk (free_page p (h_mm s)) (\<lambda>m. Inr (s\<lparr>h_mm := m\<rparr>))"

section \<open>malloc\<close>

text \<open>The loop of \<open>init_bucket_desc\<close> that links a descriptor to the one behind it.\<close>

primrec link_descs :: "nat \<Rightarrow> u32 \<Rightarrow> heap \<Rightarrow> u32 \<times> heap" where
  "link_descs 0 b s = (b, s)"
| "link_descs (Suc n) b s = link_descs n (b + 16) (set_next b (b + 16) s)"

definition init_bucket_desc :: "heap \<Rightarrow> heap kres" where
  "init_bucket_desc s =
     (let (first, s) = take_page s in
      if first = 0 then Inl (Panic ''Out of memory in init_bucket_desc()'')
      else let (b, s) = link_descs (4096 div 16 - 1) first s;
               s = set_next b (free_bucket_desc s) s
           in Inr (s\<lparr>free_bucket_desc := first\<rparr>))"

text \<open>The loop that chains the free objects of a new bucket, from the address \<open>cp\<close> on.\<close>

primrec link_objs :: "nat \<Rightarrow> u32 \<Rightarrow> u32 \<Rightarrow> heap \<Rightarrow> u32 \<times> heap" where
  "link_objs 0 sz cp s = (cp, s)"
| "link_objs (Suc n) sz cp s = link_objs n sz (cp + sz) (poke cp (cp + sz) s)"

text \<open>The entry of \<open>bucket_dir\<close> for a request: the first whose size is at least \<open>len\<close>.\<close>

primrec find_dir :: "u32 list \<Rightarrow> nat \<Rightarrow> u32 \<Rightarrow> nat option" where
  "find_dir [] i len = None"
| "find_dir (sz # r) i len = (if len \<le> sz then Some i else find_dir r (Suc i) len)"

text \<open>
  The walks along a chain. No two buckets have the same page, so a chain has at most
  \<open>PAGING_PAGES\<close> of them and \<open>CHAIN\<close> steps are enough; a longer walk is a cycle.
\<close>

definition CHAIN :: nat where "CHAIN = Suc PAGING_PAGES"

primrec find_free :: "nat \<Rightarrow> u32 \<Rightarrow> heap \<Rightarrow> u32 kres" where
  "find_free 0 b s = Inl Hang"
| "find_free (Suc n) b s =
     (if b = 0 then Inr 0 else if d_freeptr b s \<noteq> 0 then Inr b else find_free n (d_next b s) s)"

definition new_bucket :: "nat \<Rightarrow> heap \<Rightarrow> (u32 \<times> heap) kres" where
  "new_bucket i s =
     bindk (if free_bucket_desc s = 0 then init_bucket_desc s else Inr s) (\<lambda>s.
       let sz = bucket_dir ! i;
           b = free_bucket_desc s;
           s = s\<lparr>free_bucket_desc := d_next b s\<rparr>;
           s = set_size b (ucast sz) (set_refcnt b 0 s);
           (cp, s) = take_page s;
           s = set_page b cp (set_freeptr b cp s)
       in if cp = 0 then Inl (Panic ''Out of memory in kernel malloc()'')
          else let (cp, s) = link_objs (4096 div unat sz - 1) sz cp s;
                   s = set_next b (chain s i) (poke cp 0 s)
               in Inr (b, s\<lparr>chain := (chain s)(i := b)\<rparr>))"

definition malloc :: "u32 \<Rightarrow> heap \<Rightarrow> (u32 \<times> heap) kres" where
  "malloc len s =
     (case find_dir bucket_dir 0 len of
        None \<Rightarrow> Inl (Panic ''malloc: bad arg'')
      | Some i \<Rightarrow>
        bindk (find_free CHAIN (chain s i) s) (\<lambda>b.
        bindk (if b = 0 then new_bucket i s else Inr (b, s)) (\<lambda>(b, s).
          let retval = d_freeptr b s;
              s = set_freeptr b (pmem (h_mm s) retval) s
          in Inr (retval, set_refcnt b (d_refcnt b s + 1) s))))"

section \<open>free\<close>

primrec find_page :: "nat \<Rightarrow> u32 \<Rightarrow> u32 \<Rightarrow> u32 \<Rightarrow> heap \<Rightarrow> (u32 \<times> u32) option kres" where
  "find_page 0 prev b page s = Inl Hang"
| "find_page (Suc n) prev b page s =
     (if b = 0 then Inr None
      else if d_page b s = page then Inr (Some (prev, b)) else find_page n b (d_next b s) page s)"

text \<open>The search through \<open>bucket_dir\<close>; the comparison with \<open>size\<close> is one of signed integers.\<close>

primrec find_bucket :: "u32 list \<Rightarrow> nat \<Rightarrow> u32 \<Rightarrow> u32 \<Rightarrow> heap \<Rightarrow> (nat \<times> u32 \<times> u32) kres" where
  "find_bucket [] i sz page s = Inl (Panic ''Bad address passed to kernel free_s()'')"
| "find_bucket (z # r) i sz page s =
     (if z <s sz then find_bucket r (Suc i) sz page s
      else bindk (find_page CHAIN 0 (chain s i) page s) (\<lambda>f. case f of
             None \<Rightarrow> find_bucket r (Suc i) sz page s
           | Some (prev, b) \<Rightarrow> Inr (i, prev, b)))"

primrec find_prev :: "nat \<Rightarrow> u32 \<Rightarrow> u32 \<Rightarrow> heap \<Rightarrow> u32 kres" where
  "find_prev 0 prev b s = Inl Hang"
| "find_prev (Suc n) prev b s =
     (if prev = 0 then Inr 0 else if d_next prev s = b then Inr prev else find_prev n (d_next prev s) b s)"

text \<open>Taking an empty bucket off its chain and giving its page back.\<close>

definition drop_bucket :: "nat \<Rightarrow> u32 \<Rightarrow> u32 \<Rightarrow> heap \<Rightarrow> heap kres" where
  "drop_bucket i prev b s =
     bindk (if prev \<noteq> 0 \<and> d_next prev s \<noteq> b \<or> prev = 0 \<and> chain s i \<noteq> b
            then find_prev CHAIN (chain s i) b s else Inr prev) (\<lambda>prev.
     bindk (if prev \<noteq> 0 then Inr (set_next prev (d_next b s) s)
            else if chain s i \<noteq> b then Inl (Panic ''malloc bucket chains corrupted'')
            else Inr (s\<lparr>chain := (chain s)(i := d_next b s)\<rparr>)) (\<lambda>s.
     bindk (give_page (d_page b s) s) (\<lambda>s.
       let s = set_next b (free_bucket_desc s) s
       in Inr (s\<lparr>free_bucket_desc := b\<rparr>))))"

definition free_s :: "u32 \<Rightarrow> u32 \<Rightarrow> heap \<Rightarrow> heap kres" where
  "free_s obj sz s =
     bindk (find_bucket bucket_dir 0 sz (obj AND 0xfffff000) s) (\<lambda>(i, prev, b).
       let s = poke obj (d_freeptr b s) s;
           s = set_freeptr b obj s;
           s = set_refcnt b (d_refcnt b s - 1) s
       in if d_refcnt b s = 0 then drop_bucket i prev b s else Inr s)"

text \<open>The macro \<open>free\<close> of include/linux/kernel.h.\<close>

definition kfree :: "u32 \<Rightarrow> heap \<Rightarrow> heap kres" where "kfree x = free_s x 0"

end
