(* ===== verification/Kmalloc_Words.thy ===== *)
theory Kmalloc_Words imports Kmalloc begin

text \<open>
  Address arithmetic for the kernel heap: the four fields of a bucket descriptor do not overlap, the
  objects of one size in a page are disjoint, and what is read from a descriptor after a field of
  one was written.
\<close>

section \<open>Addresses\<close>

definition al16 :: "u32 \<Rightarrow> bool" where "al16 b \<longleftrightarrow> unat b mod 16 = 0"

lemma mod16_div: "(m :: nat) mod 16 = 0 \<Longrightarrow> k < 16 \<Longrightarrow> (m + k) div 4096 = m div 4096"
proof -
  assume a: "m mod 16 = 0" "k < 16"
  then obtain q where "m = 16 * q" by (auto simp: mod_eq_0_iff_dvd elim!: dvdE)
  then have "(m + k) div (16 * 256) = m div (16 * 256)" using a(2) unfolding div_mult2_eq by simp
  then show ?thesis by simp
qed

lemma mod16_less: "(m :: nat) mod 16 = 0 \<Longrightarrow> k < 16 \<Longrightarrow> m < 4294967296 \<Longrightarrow> m + k < 4294967296"
  by (auto simp: mod_eq_0_iff_dvd elim!: dvdE)

lemma mod16_eq: 
  fixes m n j k :: nat
  assumes "m mod 16 = 0" "n mod 16 = 0" "j < 16" "k < 16" "m + j = n + k"
  shows "m = n \<and> j = k"
proof -
  have "(m + j) mod 16 = (n + k) mod 16" using assms(5) by simp
  then have "j = k" using assms(1-4) by (auto simp: mod_eq_0_iff_dvd elim!: dvdE)
  then show ?thesis using assms(5) by simp
qed

lemma unat_lt: "unat (a :: u32) < 4294967296"
  by (rule order_less_le_trans [OF unsigned_less]) simp

lemma unat_field:
  assumes "al16 b" "unat k < 16"
  shows "unat (b + k) = unat b + unat k"
  using mod16_less [OF _ assms(2) unat_lt [of b]] assms(1) by (simp add: al16_def unat_word_ariths)

lemma field_eq:
  assumes "al16 b" "al16 c" "unat j < 16" "unat k < 16"
  shows "b + j = c + k \<longleftrightarrow> b = c \<and> j = k"
proof
  assume "b + j = c + k"
  then have "unat (b + j) = unat (c + k)" by simp
  then have "unat b + unat j = unat c + unat k" using unat_field assms by simp
  from mod16_eq [OF _ _ assms(3,4) this] show "b = c \<and> j = k"
    using assms(1,2) by (simp add: word_unat_eq_iff al16_def)
qed simp

lemma frame_field:
  assumes "al16 b" "unat k < 16"
  shows "frame (b + k) = frame b"
  using mod16_div [OF _ assms(2), of "unat b"] assms(1)
  by (simp add: word_unat_eq_iff unat_frame unat_field [OF assms] al16_def)

lemmas field_eqs [simp] = field_eq [where j = 4 and k = 8] field_eq [where j = 4 and k = 12]
  field_eq [where j = 8 and k = 4] field_eq [where j = 8 and k = 12] field_eq [where j = 12 and k = 4]
  field_eq [where j = 12 and k = 8] field_eq [where j = 0 and k = 4, simplified] field_eq [where j = 0 and k = 8, simplified]
  field_eq [where j = 0 and k = 12, simplified] field_eq [where j = 4 and k = 0, simplified]
  field_eq [where j = 8 and k = 0, simplified] field_eq [where j = 12 and k = 0, simplified]

lemmas frame_fields [simp] = frame_field [where k = 4, simplified] frame_field [where k = 8, simplified]
  frame_field [where k = 12, simplified]

lemma poke_simps [simp]:
  "pmem (h_mm (poke a v s)) c = (if c = a then v else pmem (h_mm s) c)"
  "mem_map (h_mm (poke a v s)) = mem_map (h_mm s)" "HIGH_MEMORY (h_mm (poke a v s)) = HIGH_MEMORY (h_mm s)"
  "chain (poke a v s) = chain s" "free_bucket_desc (poke a v s) = free_bucket_desc s"
  by (simp_all add: poke_def)

lemmas fields = d_page_def d_next_def d_freeptr_def d_refcnt_def d_size_def
  set_page_def set_next_def set_freeptr_def set_refcnt_def set_size_def

text \<open>Reading a field of a descriptor after writing one of the same or of another descriptor.\<close>

lemma set_next_reads [simp]:
  assumes "al16 b" "al16 c"
  shows "d_page c (set_next b v s) = d_page c s" "d_next c (set_next b v s) = (if c = b then v else d_next c s)"
    "d_freeptr c (set_next b v s) = d_freeptr c s" "d_refcnt c (set_next b v s) = d_refcnt c s"
  using assms by (simp_all add: fields)

lemma set_page_reads [simp]:
  assumes "al16 b" "al16 c"
  shows "d_page c (set_page b v s) = (if c = b then v else d_page c s)" "d_next c (set_page b v s) = d_next c s"
    "d_freeptr c (set_page b v s) = d_freeptr c s" "d_refcnt c (set_page b v s) = d_refcnt c s"
  using assms by (simp_all add: fields)

lemma set_freeptr_reads [simp]:
  assumes "al16 b" "al16 c"
  shows "d_page c (set_freeptr b v s) = d_page c s" "d_next c (set_freeptr b v s) = d_next c s"
    "d_freeptr c (set_freeptr b v s) = (if c = b then v else d_freeptr c s)" "d_refcnt c (set_freeptr b v s) = d_refcnt c s"
  using assms by (simp_all add: fields)

lemma half_masks: "(0xffff :: u32) = mask 16" "(0xffff0000 :: u32) = NOT (mask 16)"
  by (simp_all add: mask_eq_exp_minus_1)

lemma ucast_low_half: "(ucast ((x :: u32) AND 0xffff0000 OR ucast (v :: u16)) :: u16) = v"
  unfolding half_masks by (rule bit_word_eqI) (auto simp: bit_simps)

lemma low_half_kept: "(ucast ((x :: u32) AND 0xffff OR push_bit 16 y) :: u16) = ucast x"
  unfolding half_masks by (rule bit_word_eqI) (auto simp: bit_simps)

lemma set_refcnt_reads [simp]:
  assumes "al16 b" "al16 c"
  shows "d_page c (set_refcnt b v s) = d_page c s" "d_next c (set_refcnt b v s) = d_next c s"
    "d_freeptr c (set_refcnt b v s) = d_freeptr c s" "d_refcnt c (set_refcnt b v s) = (if c = b then v else d_refcnt c s)"
  using assms by (simp_all add: fields ucast_low_half)

lemma set_size_reads [simp]:
  assumes "al16 b" "al16 c"
  shows "d_page c (set_size b v s) = d_page c s" "d_next c (set_size b v s) = d_next c s"
    "d_freeptr c (set_size b v s) = d_freeptr c s" "d_refcnt c (set_size b v s) = d_refcnt c s"
  using assms by (simp_all add: fields low_half_kept)

lemma reads_vars [simp]:
  "d_page c (s\<lparr>free_bucket_desc := v\<rparr>) = d_page c s" "d_next c (s\<lparr>free_bucket_desc := v\<rparr>) = d_next c s"
  "d_freeptr c (s\<lparr>free_bucket_desc := v\<rparr>) = d_freeptr c s" "d_refcnt c (s\<lparr>free_bucket_desc := v\<rparr>) = d_refcnt c s"
  "d_page c (s\<lparr>chain := w\<rparr>) = d_page c s" "d_next c (s\<lparr>chain := w\<rparr>) = d_next c s"
  "d_freeptr c (s\<lparr>chain := w\<rparr>) = d_freeptr c s" "d_refcnt c (s\<lparr>chain := w\<rparr>) = d_refcnt c s"
  by (simp_all add: fields)

section \<open>Objects\<close>

text \<open>
  The bytes of an object of \<open>n\<close> bytes at \<open>o\<close>, the size of the objects of bucket directory entry
  \<open>i\<close>, and the places for such objects in the page with number \<open>p\<close>.
\<close>

definition block_at :: "u32 \<Rightarrow> nat \<Rightarrow> u32 set" where
  "block_at x n = {a. unat x \<le> unat a \<and> unat a < unat x + n}"

definition osize :: "nat \<Rightarrow> nat" where "osize i = 2 ^ (4 + i)"

definition slots :: "nat \<Rightarrow> nat \<Rightarrow> u32 set" where
  "slots p i = {x. frame x = page_of p \<and> unat x mod osize i = 0}"

lemma osize_dvd: "i < 9 \<Longrightarrow> osize i dvd 4096"
  using le_imp_power_dvd [of "4 + i" 12 "2 :: nat"] by (simp add: osize_def)

lemma osize_le: "i < 9 \<Longrightarrow> osize i \<le> 4096"
  using osize_dvd dvd_imp_le by fastforce

lemma div_same:
  assumes "(n :: nat) dvd m" "x mod n = 0" "x \<le> a" "a < x + n"
  shows "a div m = x div m"
proof -
  obtain k where k: "m = n * k" using assms(1) by (elim dvdE)
  have "a div n = x div n"
    using assms(2-4) by (metis add.commute div_nat_eqI dvd_mult_div_cancel mod_eq_0_iff_dvd mult.commute mult_Suc_right)
  then show ?thesis unfolding k by (simp add: div_mult2_eq)
qed

lemma frame_iff: "frame a = frame b \<longleftrightarrow> unat a div 4096 = unat b div 4096"
  by (simp add: word_unat_eq_iff unat_frame)

lemma frame_page_of: "p < PAGING_PAGES \<Longrightarrow> frame a = page_of p \<longleftrightarrow> unat a div 4096 = p + 256"
  unfolding word_unat_eq_iff unat_frame unat_page_of by (rule mult_cancel2 [THEN trans]) simp

lemma block_frame:
  assumes "x \<in> slots p i" "i < 9" "a \<in> block_at x (osize i)"
  shows "frame a = page_of p"
proof -
  have "unat a div 4096 = unat x div 4096"
    using assms by (intro div_same [OF osize_dvd]) (auto simp: slots_def block_at_def)
  then show ?thesis using assms(1) by (simp add: slots_def flip: frame_iff)
qed

lemma blocks_disjoint:
  assumes "x \<in> slots p i" "y \<in> slots p i" "x \<noteq> y"
  shows "block_at x (osize i) \<inter> block_at y (osize i) = {}"
proof (rule ccontr)
  assume "block_at x (osize i) \<inter> block_at y (osize i) \<noteq> {}"
  then obtain a where a: "a \<in> block_at x (osize i)" "a \<in> block_at y (osize i)" by blast
  have "unat a div osize i = unat x div osize i" "unat a div osize i = unat y div osize i"
    using div_same [OF dvd_refl, of "unat x" "osize i" "unat a"] div_same [OF dvd_refl, of "unat y" "osize i" "unat a"]
      assms a by (simp_all add: slots_def block_at_def)
  then have "unat x = unat y"
    using assms div_mult_mod_eq [of "unat x" "osize i"] div_mult_mod_eq [of "unat y" "osize i"]
    by (simp add: slots_def)
  then show False using assms(3) by (simp add: word_unat_eq_iff)
qed

lemma blocks_of_pages:
  assumes "x \<in> slots p i" "y \<in> slots q j" "i < 9" "j < 9" "page_of p \<noteq> page_of q"
  shows "block_at x (osize i) \<inter> block_at y (osize j) = {}"
  using block_frame [OF assms(1,3)] block_frame [OF assms(2,4)] assms(5) by fastforce

lemma page_of_eq: "p < PAGING_PAGES \<Longrightarrow> q < PAGING_PAGES \<Longrightarrow> page_of p = page_of q \<longleftrightarrow> p = q"
  by (auto simp: word_unat_eq_iff unat_page_of)

text \<open>The places in a page, in the order in which \<open>malloc\<close> chains them.\<close>

definition slot_list :: "nat \<Rightarrow> nat \<Rightarrow> u32 list" where
  "slot_list p i = map (\<lambda>k. page_of p + of_nat (k * osize i)) [0..<2 ^ (8 - i)]"

lemma unat_slot:
  assumes "p < PAGING_PAGES" "i < 9" "k < 2 ^ (8 - i)"
  shows "unat (page_of p + of_nat (k * osize i)) = (p + 256) * 4096 + k * osize i" "k * osize i < 4096"
proof -
  have *: "(2::nat) ^ (8 - i) * osize i = 4096"
    using assms(2) by (simp add: osize_def flip: power_add)
  have "0 < osize i" by (simp add: osize_def)
  then show l: "k * osize i < 4096" using assms(3) * by (metis mult_less_cancel2)
  have "unat (of_nat (k * osize i) :: u32) = k * osize i"
    using l by (simp add: unat_of_nat del: of_nat_mult)
  then show "unat (page_of p + of_nat (k * osize i)) = (p + 256) * 4096 + k * osize i"
    using assms(1) l by (simp add: unat_word_ariths unat_page_of PAGING_PAGES_def del: of_nat_mult)
qed

lemma slot_list_slots:
  assumes "p < PAGING_PAGES" "i < 9"
  shows "set (slot_list p i) = slots p i" "distinct (slot_list p i)" "length (slot_list p i) = 2 ^ (8 - i)"
proof -
  have pos: "0 < osize i" by (simp add: osize_def)
  have *: "(2::nat) ^ (8 - i) * osize i = 4096"
    using assms(2) by (simp add: osize_def flip: power_add)
  have d: "osize i dvd (p + 256) * 4096" using osize_dvd [OF assms(2)] by (rule dvd_mult)
  show "length (slot_list p i) = 2 ^ (8 - i)" by (simp add: slot_list_def)
  show "distinct (slot_list p i)"
    using unat_slot(1) [OF assms] pos
    by (auto simp: slot_list_def distinct_map inj_on_def word_unat_eq_iff simp del: of_nat_mult)
  show "set (slot_list p i) = slots p i"
  proof (intro equalityI subsetI)
    fix x assume "x \<in> set (slot_list p i)"
    then obtain k where k: "k < 2 ^ (8 - i)" "x = page_of p + of_nat (k * osize i)"
      by (auto simp: slot_list_def)
    show "x \<in> slots p i"
      using unat_slot [OF assms k(1)] d assms(1) unfolding k(2) slots_def mem_Collect_eq
      by (simp add: frame_page_of mod_eq_0_iff_dvd del: of_nat_mult)
  next
    fix x assume "x \<in> slots p i"
    then have x: "unat x div 4096 = p + 256" "osize i dvd unat x"
      using assms(1) by (auto simp: slots_def frame_page_of mod_eq_0_iff_dvd)
    define r where "r = unat x mod 4096"
    have r: "unat x = (p + 256) * 4096 + r" "r < 4096"
      using x(1) div_mult_mod_eq [of "unat x" 4096] by (simp_all add: r_def)
    have "osize i dvd r" using x(2) d r(1) by (metis dvd_add_right_iff)
    then obtain k where k: "r = k * osize i" by (metis dvdE mult.commute)
    then have kl: "k < 2 ^ (8 - i)" using r(2) * pos by (metis mult_less_cancel2)
    moreover have "x = page_of p + of_nat (k * osize i)"
      using unat_slot(1) [OF assms kl] r(1) k by (simp add: word_unat_eq_iff del: of_nat_mult)
    ultimately show "x \<in> set (slot_list p i)" by (force simp: slot_list_def)
  qed
qed

end
