(* ===== verification/Kmalloc_Inv.thy ===== *)
theory Kmalloc_Inv imports Kmalloc_Words begin

text \<open>
  The invariant of the kernel heap over its linked structures, the walks along them, and the four
  changes the operations are made of: taking an object off a bucket and putting it back, cutting a
  page into linked pieces, and a new bucket at the head of a chain.
\<close>

section \<open>The invariant\<close>

primrec path :: "(u32 \<Rightarrow> u32) \<Rightarrow> u32 \<Rightarrow> u32 list \<Rightarrow> bool" where
  "path f a [] \<longleftrightarrow> a = 0"
| "path f a (x # xs) \<longleftrightarrow> a = x \<and> x \<noteq> 0 \<and> path f (f x) xs"

lemma path_cong: "(\<And>x. x \<in> set xs \<Longrightarrow> f x = g x) \<Longrightarrow> path f a xs = path g a xs"
  by (induction xs arbitrary: a) auto

lemma path_nonzero: "path f a xs \<Longrightarrow> 0 \<notin> set xs"
  by (induction xs arbitrary: a) auto

lemma path_head: "path f a xs \<Longrightarrow> a = (if xs = [] then 0 else hd xs)"
  by (cases xs) auto

text \<open>
  What the heap's memory stands for: the buckets in the chain of each entry of \<open>bucket_dir\<close>, the
  unused descriptors, the pages that hold descriptors, and of each bucket its page and its free
  objects. A bucket outside \<open>Z\<close> has an object in use.
\<close>

record layout =
  buckets :: "nat \<Rightarrow> u32 list"
  spares :: "u32 list"
  desc_pages :: "nat set"
  page_no :: "u32 \<Rightarrow> nat"
  objs :: "u32 \<Rightarrow> u32 list"

definition bucket_set :: "layout \<Rightarrow> u32 set" where
  "bucket_set g = (\<Union>i<9. set (buckets g i))"

definition descs :: "layout \<Rightarrow> u32 set" where
  "descs g = set (spares g) \<union> bucket_set g"

definition bucket_ok :: "u32 set \<Rightarrow> layout \<Rightarrow> nat \<Rightarrow> u32 \<Rightarrow> heap \<Rightarrow> bool" where
  "bucket_ok Z g i b s \<longleftrightarrow>
     d_page b s = page_of (page_no g b) \<and> path (pmem (h_mm s)) (d_freeptr b s) (objs g b) \<and>
     distinct (objs g b) \<and> set (objs g b) \<subseteq> slots (page_no g b) i \<and>
     length (objs g b) + unat (d_refcnt b s) = 2 ^ (8 - i) \<and> (d_refcnt b s = 0 \<longrightarrow> b \<in> Z)"

definition pages_ok :: "layout \<Rightarrow> mm \<Rightarrow> bool" where
  "pages_ok g m \<longleftrightarrow>
     (\<forall>p<PAGING_PAGES. page_of p < HIGH_MEMORY m \<or> 1 < mem_map m p) \<and>
     (\<forall>p\<in>desc_pages g. p < PAGING_PAGES \<and> mem_map m p \<noteq> 0) \<and>
     (\<forall>b\<in>bucket_set g. page_no g b < PAGING_PAGES \<and> mem_map m (page_no g b) = 1 \<and> page_no g b \<notin> desc_pages g) \<and>
     inj_on (page_no g) (bucket_set g)"

definition descs_ok :: "layout \<Rightarrow> heap \<Rightarrow> bool" where
  "descs_ok g s \<longleftrightarrow>
     path (\<lambda>b. d_next b s) (free_bucket_desc s) (spares g) \<and> distinct (spares g) \<and>
     (\<forall>i<9. path (\<lambda>b. d_next b s) (chain s i) (buckets g i) \<and> distinct (buckets g i) \<and>
        set (buckets g i) \<inter> set (spares g) = {} \<and>
        (\<forall>j<9. i \<noteq> j \<longrightarrow> set (buckets g i) \<inter> set (buckets g j) = {})) \<and>
     (\<forall>b\<in>descs g. al16 b \<and> (\<exists>p\<in>desc_pages g. frame b = page_of p))"

definition heap_inv :: "u32 set \<Rightarrow> layout \<Rightarrow> heap \<Rightarrow> bool" where
  "heap_inv Z g s \<longleftrightarrow> descs_ok g s \<and> pages_ok g (h_mm s) \<and> (\<forall>i<9. \<forall>b\<in>set (buckets g i). bucket_ok Z g i b s)"

lemma heap_invD:
  assumes "heap_inv Z g s"
  shows "descs_ok g s" "pages_ok g (h_mm s)" "i < 9 \<Longrightarrow> b \<in> set (buckets g i) \<Longrightarrow> bucket_ok Z g i b s"
    "i < 9 \<Longrightarrow> path (\<lambda>b. d_next b s) (chain s i) (buckets g i)" "path (\<lambda>b. d_next b s) (free_bucket_desc s) (spares g)"
    "b \<in> descs g \<Longrightarrow> al16 b" "i < 9 \<Longrightarrow> distinct (buckets g i)"
  using assms by (auto simp: heap_inv_def descs_ok_def)

lemma bucketI [intro]: "b \<in> set (buckets g i) \<Longrightarrow> i < 9 \<Longrightarrow> b \<in> bucket_set g" "b \<in> bucket_set g \<Longrightarrow> b \<in> descs g"
  "b \<in> set (spares g) \<Longrightarrow> b \<in> descs g"
  by (auto simp: bucket_set_def descs_def)

text \<open>Descriptors and objects lie in different pages.\<close>

lemma obj_not_desc:
  assumes "descs_ok g s" "pages_ok g m" "b \<in> descs g" "c \<in> bucket_set g" "frame x = page_of (page_no g c)"
  shows "frame x \<noteq> frame b"
proof -
  obtain p where "p \<in> desc_pages g" "frame b = page_of p" using assms(1,3) by (auto simp: descs_ok_def)
  then show ?thesis using assms(2,4,5) page_of_eq by (auto simp: pages_ok_def)
qed

lemma set_field_pmem:
  assumes "al16 b" "frame a \<noteq> frame b"
  shows "pmem (h_mm (set_page b v s)) a = pmem (h_mm s) a" "pmem (h_mm (set_next b v s)) a = pmem (h_mm s) a"
    "pmem (h_mm (set_freeptr b v s)) a = pmem (h_mm s) a" "pmem (h_mm (set_refcnt b w s)) a = pmem (h_mm s) a"
    "pmem (h_mm (set_size b w s)) a = pmem (h_mm s) a"
  using assms by (auto simp: fields)

lemma set_field_rest [simp]:
  "mem_map (h_mm (set_page b v s)) = mem_map (h_mm s)" "mem_map (h_mm (set_next b v s)) = mem_map (h_mm s)"
  "mem_map (h_mm (set_freeptr b v s)) = mem_map (h_mm s)" "mem_map (h_mm (set_refcnt b w s)) = mem_map (h_mm s)"
  "mem_map (h_mm (set_size b w s)) = mem_map (h_mm s)"
  "HIGH_MEMORY (h_mm (set_page b v s)) = HIGH_MEMORY (h_mm s)" "HIGH_MEMORY (h_mm (set_next b v s)) = HIGH_MEMORY (h_mm s)"
  "HIGH_MEMORY (h_mm (set_freeptr b v s)) = HIGH_MEMORY (h_mm s)" "HIGH_MEMORY (h_mm (set_refcnt b w s)) = HIGH_MEMORY (h_mm s)"
  "HIGH_MEMORY (h_mm (set_size b w s)) = HIGH_MEMORY (h_mm s)"
  "chain (set_page b v s) = chain s" "chain (set_next b v s) = chain s" "chain (set_freeptr b v s) = chain s"
  "chain (set_refcnt b w s) = chain s" "chain (set_size b w s) = chain s"
  "free_bucket_desc (set_page b v s) = free_bucket_desc s" "free_bucket_desc (set_next b v s) = free_bucket_desc s"
  "free_bucket_desc (set_freeptr b v s) = free_bucket_desc s" "free_bucket_desc (set_refcnt b w s) = free_bucket_desc s"
  "free_bucket_desc (set_size b w s) = free_bucket_desc s"
  by (simp_all add: fields)

text \<open>A change that leaves the links of the descriptors alone.\<close>

lemma descs_ok_cong:
  assumes "descs_ok g s" "buckets h = buckets g" "spares h = spares g" "desc_pages h = desc_pages g"
    "chain t = chain s" "free_bucket_desc t = free_bucket_desc s" "\<And>b. b \<in> descs g \<Longrightarrow> d_next b t = d_next b s"
  shows "descs_ok h t"
proof -
  have d: "descs h = descs g" using assms(2,3) by (simp add: descs_def bucket_set_def)
  have "path (\<lambda>b. d_next b t) a xs = path (\<lambda>b. d_next b s) a xs" if "set xs \<subseteq> descs g" for a xs
    using that assms(7) by (intro path_cong) blast
  moreover have "set (spares g) \<subseteq> descs g" "i < 9 \<Longrightarrow> set (buckets g i) \<subseteq> descs g" for i by blast+
  ultimately show ?thesis using assms(1-6) d by (simp add: descs_ok_def)
qed

lemma pages_ok_cong:
  "pages_ok g m \<Longrightarrow> buckets h = buckets g \<Longrightarrow> desc_pages h = desc_pages g \<Longrightarrow> page_no h = page_no g \<Longrightarrow>
    mem_map n = mem_map m \<Longrightarrow> HIGH_MEMORY n = HIGH_MEMORY m \<Longrightarrow> pages_ok h n"
  by (simp add: pages_ok_def bucket_set_def)

section \<open>Taking and returning an object\<close>

lemma take_obj:
  assumes inv: "heap_inv {b} g s" and b: "i < 9" "b \<in> set (buckets g i)" and os: "objs g b = x # xs"
  shows "heap_inv {} (g\<lparr>objs := (objs g)(b := xs)\<rparr>)
     (set_refcnt b (d_refcnt b s + 1) (set_freeptr b (pmem (h_mm s) x) s))" (is "heap_inv {} ?g ?s")
proof -
  note I = heap_invD [OF inv]
  have al: "c \<in> descs g \<Longrightarrow> al16 c" for c by (rule I(6))
  have bd: "b \<in> descs g" using b by blast
  have "descs_ok ?g ?s" by (rule descs_ok_cong [OF I(1)]) (use al bd in simp_all)
  moreover have "pages_ok ?g (h_mm ?s)" by (rule pages_ok_cong [OF I(2)]) simp_all
  moreover have "bucket_ok {} ?g j c ?s" if c: "j < 9" "c \<in> set (buckets ?g j)" for j c
  proof -
    have cb: "c \<in> bucket_set g" "al16 c" using c al by auto
    have ok: "bucket_ok {b} g j c s" using I(3) c by simp
    have same: "pmem (h_mm ?s) y = pmem (h_mm s) y" if "y \<in> slots (page_no g c) j" for y
    proof -
      have "frame y \<noteq> frame b" using obj_not_desc [OF I(1,2) bd cb(1), of y] that by (auto simp: slots_def)
      then show ?thesis using al [OF bd] by (simp add: set_field_pmem)
    qed
    have p: "path (pmem (h_mm ?s)) a ys = path (pmem (h_mm s)) a ys" if "set ys \<subseteq> slots (page_no g c) j" for a ys
      using that same by (intro path_cong) blast
    show ?thesis
    proof (cases "c = b")
      case True
      have ji: "j = i" using True b c I(1) by (auto simp: descs_ok_def)
      have u: "unat (d_refcnt b s) < 2 ^ (8 - i)" using ok os True ji by (simp add: bucket_ok_def)
      have "(2::nat) ^ (8 - i) \<le> 2 ^ 8" by (intro power_increasing) simp_all
      then have "unat (d_refcnt b s + 1) = Suc (unat (d_refcnt b s))"
        using u by (simp add: unat_word_ariths)
      moreover from this have "d_refcnt b s + 1 \<noteq> 0" by (metis nat.distinct(1) unat_0)
      ultimately show ?thesis
        using ok os True ji al [OF bd] p [of xs] by (simp add: bucket_ok_def)
    next
      case False
      then show ?thesis using ok cb al [OF bd] p [of "objs g c"] by (simp add: bucket_ok_def)
    qed
  qed
  ultimately show ?thesis by (simp add: heap_inv_def)
qed

lemma give_obj:
  assumes inv: "heap_inv {} g s" and b: "i < 9" "b \<in> set (buckets g i)"
    and x: "x \<in> slots (page_no g b) i" "x \<notin> set (objs g b)" "x \<noteq> 0"
  shows "heap_inv {b} (g\<lparr>objs := (objs g)(b := x # objs g b)\<rparr>)
     (set_refcnt b (d_refcnt b s - 1) (set_freeptr b x (poke x (d_freeptr b s) s)))" (is "heap_inv {b} ?g ?s")
proof -
  note I = heap_invD [OF inv]
  have al: "c \<in> descs g \<Longrightarrow> al16 c" for c by (rule I(6))
  have bd: "b \<in> descs g" "b \<in> bucket_set g" using b by blast+
  have fx: "frame x \<noteq> frame c" if "c \<in> descs g" for c
    using obj_not_desc [OF I(1,2) that bd(2), of x] x(1) by (auto simp: slots_def)
  have pk: "d_page c (poke x v s) = d_page c s" "d_next c (poke x v s) = d_next c s"
    "d_freeptr c (poke x v s) = d_freeptr c s" "d_refcnt c (poke x v s) = d_refcnt c s" if "c \<in> descs g" for c v
    using fx [OF that] al [OF that] by (auto simp: fields)
  have "descs_ok ?g ?s" by (rule descs_ok_cong [OF I(1)]) (use al bd pk in simp_all)
  moreover have "pages_ok ?g (h_mm ?s)" by (rule pages_ok_cong [OF I(2)]) simp_all
  moreover have "bucket_ok {b} ?g j c ?s" if c: "j < 9" "c \<in> set (buckets ?g j)" for j c
  proof -
    have cb: "c \<in> bucket_set g" "c \<in> descs g" "al16 c" using c al by auto
    have ok: "bucket_ok {} g j c s" using I(3) c by simp
    have same: "pmem (h_mm ?s) y = pmem (h_mm s) y" if "y \<in> slots (page_no g c) j" "y \<noteq> x" for y
    proof -
      have "frame y \<noteq> frame b" using obj_not_desc [OF I(1,2) bd(1) cb(1), of y] that(1) by (auto simp: slots_def)
      then show ?thesis using al [OF bd(1)] that(2) by (simp add: set_field_pmem)
    qed
    have p: "path (pmem (h_mm ?s)) a ys = path (pmem (h_mm s)) a ys" if "set ys \<subseteq> slots (page_no g c) j" "x \<notin> set ys" for a ys
      using that same by (intro path_cong) blast
    show ?thesis
    proof (cases "c = b")
      case True
      have ji: "j = i" using True b c I(1) by (auto simp: descs_ok_def)
      have r: "d_refcnt b s \<noteq> 0" using ok True by (simp add: bucket_ok_def)
      have "unat (d_refcnt b s - 1) = unat (d_refcnt b s) - 1"
        using r by (simp add: unat_minus_one)
      moreover have "0 < unat (d_refcnt b s)" using r by (simp add: unat_gt_0)
      moreover have "pmem (h_mm ?s) x = d_freeptr b s" using fx [OF bd(1)] al [OF bd(1)] by (simp add: set_field_pmem)
      ultimately show ?thesis
        using ok True ji al [OF bd(1)] pk [OF bd(1)] p [of "objs g b"] x by (simp add: bucket_ok_def)
    next
      case False
      have "x \<notin> slots (page_no g c) j"
        using False x(1) I(2) bd(2) cb(1) by (auto simp: slots_def pages_ok_def page_of_eq dest: inj_onD)
      then have "x \<notin> set (objs g c)" using ok by (auto simp: bucket_ok_def)
      then show ?thesis using False ok cb al [OF bd(1)] pk [OF cb(2)] p [of "objs g c"] by (simp add: bucket_ok_def)
    qed
  qed
  ultimately show ?thesis by (simp add: heap_inv_def)
qed

section \<open>The walks along a chain\<close>

lemma bucket_count:
  assumes "heap_inv Z g s" "i < 9"
  shows "length (buckets g i) < CHAIN"
proof -
  note I = heap_invD [OF assms(1)]
  have sub: "set (buckets g i) \<subseteq> bucket_set g" using assms(2) by blast
  have inj: "inj_on (page_no g) (bucket_set g)" and ran: "\<forall>b\<in>bucket_set g. page_no g b < PAGING_PAGES"
    using I(2) unfolding pages_ok_def by blast+
  have "length (buckets g i) = card (set (buckets g i))" by (rule distinct_card [OF I(7) [OF assms(2)], symmetric])
  also have "\<dots> = card (page_no g ` set (buckets g i))" by (rule card_image [OF inj_on_subset [OF inj sub], symmetric])
  also have "\<dots> \<le> card {..<PAGING_PAGES}" by (rule card_mono) (use ran sub in auto)
  finally show ?thesis by (simp add: CHAIN_def)
qed

lemma find_free_none:
  "path (\<lambda>b. d_next b s) a xs \<Longrightarrow> length xs < n \<Longrightarrow> \<forall>b\<in>set xs. d_freeptr b s = 0 \<Longrightarrow> find_free n a s = Inr 0"
proof (induction n arbitrary: a xs)
  case (Suc n)
  then show ?case by (cases xs) auto
qed simp

lemma find_free_some:
  "path (\<lambda>b. d_next b s) a xs \<Longrightarrow> length xs < n \<Longrightarrow> \<exists>b\<in>set xs. d_freeptr b s \<noteq> 0 \<Longrightarrow>
    \<exists>b\<in>set xs. d_freeptr b s \<noteq> 0 \<and> find_free n a s = Inr b"
proof (induction n arbitrary: a xs)
  case (Suc n)
  then show ?case
  proof (cases xs)
    case (Cons x ys)
    then show ?thesis using Suc.IH [of "d_next x s" ys] Suc.prems by auto
  qed simp
qed simp

lemma find_page_none:
  "path (\<lambda>b. d_next b s) a xs \<Longrightarrow> length xs < n \<Longrightarrow> \<forall>b\<in>set xs. d_page b s \<noteq> page \<Longrightarrow>
    find_page n prev a page s = Inr None"
proof (induction n arbitrary: a xs prev)
  case (Suc n)
  then show ?case by (cases xs) auto
qed simp

lemma find_page_some:
  "path (\<lambda>b. d_next b s) a (ys @ b # zs) \<Longrightarrow> length ys < n \<Longrightarrow> \<forall>c\<in>set ys. d_page c s \<noteq> page \<Longrightarrow> d_page b s = page \<Longrightarrow>
    find_page n prev a page s = Inr (Some (if ys = [] then prev else last ys, b))"
proof (induction n arbitrary: a ys prev)
  case (Suc n)
  then show ?case by (cases ys) auto
qed simp

lemma path_split:
  "path f a (ys @ b # zs) \<Longrightarrow> (if ys = [] then a else f (last ys)) = b \<and> path f (f b) zs"
  by (induction ys arbitrary: a) fastforce+

lemma path_remove:
  "path f a (ys @ b # zs) \<Longrightarrow> distinct (ys @ b # zs) \<Longrightarrow> ys \<noteq> [] \<Longrightarrow> path (f(last ys := f b)) a (ys @ zs)"
proof (induction ys arbitrary: a)
  case (Cons y ys)
  show ?case
  proof (cases "ys = []")
    case True
    then have "path f (f b) zs" "y \<notin> set zs" using Cons.prems by simp_all
    then have "path (f(y := f b)) (f b) zs" by (subst path_cong [where g = f]) auto
    then show ?thesis using True Cons.prems by (simp add: fun_upd_def)
  next
    case False
    then have "last ys \<noteq> y" using Cons.prems(2) by auto
    then show ?thesis using Cons.IH [of "f y"] Cons.prems False by simp
  qed
qed simp

lemma path_nth:
  "0 \<notin> set xs \<Longrightarrow> a = (if xs = [] then 0 else hd xs) \<Longrightarrow>
    (\<And>k. Suc k < length xs \<Longrightarrow> f (xs ! k) = xs ! Suc k) \<Longrightarrow> (xs \<noteq> [] \<Longrightarrow> f (last xs) = 0) \<Longrightarrow> path f a xs"
proof (induction xs arbitrary: a)
  case (Cons x xs)
  have "path f (f x) xs"
  proof (rule Cons.IH)
    show "f x = (if xs = [] then 0 else hd xs)"
      using Cons.prems(3) [of 0] Cons.prems(4) by (cases xs) auto
    show "f (xs ! k) = xs ! Suc k" if "Suc k < length xs" for k
      using Cons.prems(3) [of "Suc k"] that by simp
  qed (use Cons.prems in \<open>auto split: if_splits\<close>)
  then show ?case using Cons.prems by simp
qed simp

section \<open>Pages cut into linked pieces\<close>

text \<open>Both loops store at places \<open>st\<close> bytes apart, \<open>off\<close> into the piece, the next piece.\<close>

primrec links :: "u32 \<Rightarrow> u32 \<Rightarrow> nat \<Rightarrow> u32 \<Rightarrow> heap \<Rightarrow> heap" where
  "links off st 0 a s = s"
| "links off st (Suc n) a s = links off st n (a + st) (poke (a + off) (a + st) s)"

lemma link_objs_links: "link_objs n st a s = (a + of_nat n * st, links 0 st n a s)"
  by (induction n arbitrary: a s) (simp_all add: algebra_simps)

lemma link_descs_links: "link_descs n a s = (a + of_nat n * 16, links 4 16 n a s)"
  by (induction n arbitrary: a s) (simp_all add: set_next_def algebra_simps)

lemma links_rest [simp]:
  "chain (links off st n a s) = chain s" "free_bucket_desc (links off st n a s) = free_bucket_desc s"
  "mem_map (h_mm (links off st n a s)) = mem_map (h_mm s)" "HIGH_MEMORY (h_mm (links off st n a s)) = HIGH_MEMORY (h_mm s)"
  by (induction n arbitrary: a s) simp_all

lemma piece: "a + st + of_nat k * st + off = a + of_nat (Suc k) * st + (off :: u32)"
  by (simp add: algebra_simps)

lemma links_other:
  "\<forall>k<n. c \<noteq> a + of_nat k * st + off \<Longrightarrow> pmem (h_mm (links off st n a s)) c = pmem (h_mm s) c"
proof (induction n arbitrary: a s)
  case (Suc n)
  have "c \<noteq> a + off" using Suc.prems [rule_format, of 0] by simp
  moreover have "\<forall>k<n. c \<noteq> a + st + of_nat k * st + off" using Suc.prems unfolding piece by blast
  ultimately show ?case using Suc.IH by simp
qed simp

lemma links_links:
  "\<forall>k<n. \<forall>j<k. a + of_nat j * st + off \<noteq> a + of_nat k * st + off \<Longrightarrow> k < n \<Longrightarrow>
    pmem (h_mm (links off st n a s)) (a + of_nat k * st + off) = a + of_nat (Suc k) * st"
proof (induction n arbitrary: a s k)
  case (Suc n)
  show ?case
  proof (cases k)
    case 0
    have "a + off \<noteq> a + st + of_nat m * st + off" if "m < n" for m
      using Suc.prems(1) [rule_format, of "Suc m" 0] that unfolding piece by simp
    then show ?thesis using 0 links_other [of n "a + off" "a + st" st off] by simp
  next
    case (Suc m)
    have "\<forall>k<n. \<forall>j<k. a + st + of_nat j * st + off \<noteq> a + st + of_nat k * st + off"
      using Suc.prems(1) unfolding piece by (metis Suc_less_eq)
    from Suc.IH [OF this, of m] show ?thesis using Suc Suc.prems(2) unfolding piece
      by (simp add: algebra_simps)
  qed
qed simp

lemma slot_nth: "k < 2 ^ (8 - i) \<Longrightarrow> slot_list p i ! k = page_of p + of_nat k * of_nat (osize i)"
  by (simp add: slot_list_def)

definition cut :: "u32 \<Rightarrow> nat \<Rightarrow> nat \<Rightarrow> heap \<Rightarrow> heap" where
  "cut off p i s =
     (let n = 2 ^ (8 - i) - 1; st = of_nat (osize i)
      in poke (page_of p + of_nat n * st + off) 0 (links off st n (page_of p) s))"

lemma cut_rest [simp]:
  "chain (cut off p i s) = chain s" "free_bucket_desc (cut off p i s) = free_bucket_desc s"
  "mem_map (h_mm (cut off p i s)) = mem_map (h_mm s)" "HIGH_MEMORY (h_mm (cut off p i s)) = HIGH_MEMORY (h_mm s)"
  by (simp_all add: cut_def Let_def)

lemma cut_path:
  assumes "p < PAGING_PAGES" "i < 9"
  shows "path (\<lambda>x. pmem (h_mm (cut off p i s)) (x + off)) (page_of p) (slot_list p i)"
proof -
  let ?n = "2 ^ (8 - i) - 1 :: nat" and ?st = "of_nat (osize i) :: u32"
  note sl = slot_list_slots [OF assms]
  have n: "?n < 2 ^ (8 - i)" "Suc ?n = 2 ^ (8 - i)" by simp_all
  have ne: "slot_list p i \<noteq> []" using sl(3) by auto
  have inj: "page_of p + of_nat j * ?st \<noteq> page_of p + of_nat k * ?st" if "j < k" "k < 2 ^ (8 - i)" for j k
    using that sl(2,3) nth_eq_iff_index_eq [of "slot_list p i" j k] slot_nth [of j i p] slot_nth [of k i p] by auto
  show ?thesis
  proof (rule path_nth)
    have "x \<noteq> 0" if "frame x = page_of p" for x
      using that page_of_props(3) [OF assms(1)] by (auto simp: frame_def)
    then show "0 \<notin> set (slot_list p i)" unfolding sl(1) slots_def by blast
    show "page_of p = (if slot_list p i = [] then 0 else hd (slot_list p i))"
      using ne slot_nth [of 0 i p] by (simp add: hd_conv_nth)
    show "pmem (h_mm (cut off p i s)) (last (slot_list p i) + off) = 0"
      using ne sl(3) slot_nth [OF n(1), of p] by (simp add: last_conv_nth cut_def Let_def)
    fix k assume "Suc k < length (slot_list p i)"
    then have k: "k < ?n" "k < 2 ^ (8 - i)" "Suc k < 2 ^ (8 - i)" using sl(3) by simp_all
    have "page_of p + of_nat k * ?st \<noteq> page_of p + of_nat ?n * ?st" by (rule inj) (use k n in auto)
    moreover have "pmem (h_mm (links off ?st ?n (page_of p) s)) (page_of p + of_nat k * ?st + off) = page_of p + of_nat (Suc k) * ?st"
      by (rule links_links) (use inj k n in auto)
    ultimately show "pmem (h_mm (cut off p i s)) (slot_list p i ! k + off) = slot_list p i ! Suc k"
      unfolding slot_nth [OF k(2)] slot_nth [OF k(3)] by (simp add: cut_def Let_def)
  qed
qed

lemma cut_other:
  assumes "p < PAGING_PAGES" "i < 9" "\<forall>x\<in>slots p i. frame (x + off) = page_of p" "frame c \<noteq> page_of p"
  shows "pmem (h_mm (cut off p i s)) c = pmem (h_mm s) c"
proof -
  let ?n = "2 ^ (8 - i) - 1 :: nat" and ?st = "of_nat (osize i) :: u32"
  have "c \<noteq> page_of p + of_nat k * ?st + off" if "k < 2 ^ (8 - i)" for k
  proof -
    have "page_of p + of_nat k * ?st \<in> slots p i"
      using slot_nth [OF that, of p] nth_mem [of k "slot_list p i"] slot_list_slots [OF assms(1,2)] that by simp
    then show ?thesis using assms(3,4) by auto
  qed
  from this [of ?n] this links_other [of ?n c "page_of p" ?st off s] show ?thesis
    by (simp add: cut_def Let_def)
qed

section \<open>Pages for the heap\<close>

lemma take_page_free:
  assumes "q < PAGING_PAGES" "mem_map (h_mm s) q = 0"
  obtains p t where "take_page s = (page_of p, t)" "p < PAGING_PAGES" "mem_map (h_mm s) p = 0"
    "mem_map (h_mm t) = (mem_map (h_mm s))(p := 1)" "HIGH_MEMORY (h_mm t) = HIGH_MEMORY (h_mm s)"
    "chain t = chain s" "free_bucket_desc t = free_bucket_desc s"
    "\<And>a. frame a \<noteq> page_of p \<Longrightarrow> pmem (h_mm t) a = pmem (h_mm s) a"
proof (cases "h_mm s" rule: get_free_page_cases)
  case none
  then show ?thesis using assms by auto
next
  case (page p)
  show ?thesis
    by (rule that [of p "s\<lparr>h_mm := clear_page (page_of p) (map_set p 1 (h_mm s))\<rparr>"])
       (use page in \<open>auto simp: take_page_def map_set_def\<close>)
qed

lemma al16_slots: "x \<in> slots p 0 \<Longrightarrow> al16 x"
  by (simp add: slots_def osize_def al16_def)

lemma init_bucket_desc_ok:
  assumes inv: "heap_inv {} g s" and none: "spares g = []" and q: "q < PAGING_PAGES" "mem_map (h_mm s) q = 0"
  obtains p t where "init_bucket_desc s = Inr t" "p < PAGING_PAGES" "mem_map (h_mm s) p = 0"
    "heap_inv {} (g\<lparr>spares := slot_list p 0, desc_pages := insert p (desc_pages g)\<rparr>) t"
    "mem_map (h_mm t) = (mem_map (h_mm s))(p := 1)"
    "\<And>a. frame a \<noteq> page_of p \<Longrightarrow> pmem (h_mm t) a = pmem (h_mm s) a"
proof -
  note I = heap_invD [OF inv]
  obtain p u where u: "take_page s = (page_of p, u)" "p < PAGING_PAGES" "mem_map (h_mm s) p = 0"
    "mem_map (h_mm u) = (mem_map (h_mm s))(p := 1)" "HIGH_MEMORY (h_mm u) = HIGH_MEMORY (h_mm s)"
    "chain u = chain s" "free_bucket_desc u = free_bucket_desc s"
    "\<And>a. frame a \<noteq> page_of p \<Longrightarrow> pmem (h_mm u) a = pmem (h_mm s) a"
    using take_page_free [OF q] by blast
  let ?t = "(cut 4 p 0 u)\<lparr>free_bucket_desc := page_of p\<rparr>"
  let ?g = "g\<lparr>spares := slot_list p 0, desc_pages := insert p (desc_pages g)\<rparr>"
  note sl = slot_list_slots [OF u(2), of 0, simplified]
  have f0: "free_bucket_desc s = 0" using I(5) none by simp
  have run: "init_bucket_desc s = Inr ?t"
    using u(1,2,7) f0 page_of_props(3) [OF u(2)]
    by (simp add: init_bucket_desc_def link_descs_links cut_def Let_def set_next_def osize_def add.assoc)
  have fr: "\<forall>x\<in>slots p 0. frame (x + 4) = page_of p"
    using al16_slots by (simp add: slots_def osize_def al16_def)
  have mem: "pmem (h_mm ?t) a = pmem (h_mm s) a" if "frame a \<noteq> page_of p" for a
    using cut_other [OF u(2) _ fr that] u(8) that by simp
  have old: "p \<notin> desc_pages g" "b \<in> bucket_set g \<Longrightarrow> page_no g b \<noteq> p" for b
    using I(2) u(3) by (auto simp: pages_ok_def)
  have hi: "page_of p < HIGH_MEMORY (h_mm s)" using I(2) u(2,3) by (force simp: pages_ok_def)
  have nf: "frame b \<noteq> page_of p" if b: "b \<in> bucket_set g" for b
  proof -
    obtain r where "r \<in> desc_pages g" "frame b = page_of r" 
      using I(1) bucketI(2) [OF b] unfolding descs_ok_def by blast
    then show ?thesis using I(2) u(2) old(1) page_of_eq by (auto simp: pages_ok_def)
  qed
  have rd: "d_page b ?t = d_page b s" "d_next b ?t = d_next b s" "d_freeptr b ?t = d_freeptr b s"
    "d_refcnt b ?t = d_refcnt b s" if "b \<in> bucket_set g" for b
  proof -
    have "al16 b" using I(6) that by blast
    then show "d_page b ?t = d_page b s" "d_next b ?t = d_next b s" "d_freeptr b ?t = d_freeptr b s"
      "d_refcnt b ?t = d_refcnt b s"
      using mem nf [OF that] by (simp_all add: d_page_def d_next_def d_freeptr_def d_refcnt_def)
  qed
  have disj: "b \<notin> slots p 0" if "b \<in> bucket_set g" for b using nf [OF that] by (simp add: slots_def)
  have bs: "bucket_set ?g = bucket_set g" by (simp add: bucket_set_def)
  have "descs_ok ?g ?t"
  proof -
    have "path (\<lambda>b. d_next b ?t) (free_bucket_desc ?t) (slot_list p 0)"
      using cut_path [OF u(2), of 0 4 u] by (simp add: d_next_def)
    moreover have "path (\<lambda>b. d_next b ?t) (chain s i) (buckets g i)" if "i < 9" for i
      using I(4) [OF that] that rd(2) by (subst path_cong [where g = "\<lambda>b. d_next b s"]) auto
    moreover have "set (buckets g i) \<inter> slots p 0 = {}" if "i < 9" for i using disj that by blast
    moreover have "al16 b \<and> (\<exists>p\<in>insert p (desc_pages g). frame b = page_of p)" if "b \<in> descs ?g" for b
      using that I(1) al16_slots bs unfolding descs_def descs_ok_def by (auto simp: sl(1)) (auto simp: slots_def)
    ultimately show ?thesis using I(1) sl(1,2) u(6) unfolding descs_ok_def by simp
  qed
  moreover have "pages_ok ?g (h_mm ?t)"
    using I(2) u(2,4,5) old bs hi unfolding pages_ok_def by auto
  moreover have "bucket_ok {} ?g i b ?t" if b: "i < 9" "b \<in> set (buckets ?g i)" for i b
  proof -
    have bb: "b \<in> bucket_set g" using b by auto
    have ok: "bucket_ok {} g i b s" using I(3) b by simp
    have "path (pmem (h_mm ?t)) a (objs g b) = path (pmem (h_mm s)) a (objs g b)" for a
    proof (rule path_cong)
      fix x assume "x \<in> set (objs g b)"
      then have "frame x = page_of (page_no g b)" using ok by (auto simp: bucket_ok_def slots_def)
      then show "pmem (h_mm ?t) x = pmem (h_mm s) x"
        using mem old(2) [OF bb] I(2) bb u(2) page_of_eq by (auto simp: pages_ok_def)
    qed
    then show ?thesis using ok rd [OF bb] by (simp add: bucket_ok_def)
  qed
  ultimately have "heap_inv {} ?g ?t" unfolding heap_inv_def by blast
  then show ?thesis using that [of ?t p] run u mem by simp
qed

text \<open>The objects in use, with the entry of \<open>bucket_dir\<close> they belong to.\<close>

definition live :: "layout \<Rightarrow> (u32 \<times> nat) set" where
  "live g = {(x, i). i < 9 \<and> (\<exists>b\<in>set (buckets g i). x \<in> slots (page_no g b) i \<and> x \<notin> set (objs g b))}"

lemma bucket_dir_nth: "i < 9 \<Longrightarrow> bucket_dir ! i = of_nat (osize i)" "i < 9 \<Longrightarrow> unat (of_nat (osize i) :: u32) = osize i"
  "i < 9 \<Longrightarrow> 4096 div osize i = 2 ^ (8 - i)"
proof -
  show "i < 9 \<Longrightarrow> bucket_dir ! i = of_nat (osize i)"
    by (auto simp: bucket_dir_def osize_def less_Suc_eq numeral_eq_Suc)
  show "i < 9 \<Longrightarrow> unat (of_nat (osize i) :: u32) = osize i"
    using osize_le [of i] by (simp add: unat_of_nat)
  assume "i < 9"
  then have "(4096 :: nat) = 2 ^ (8 - i) * osize i" by (simp add: osize_def flip: power_add)
  then show "4096 div osize i = 2 ^ (8 - i)" by (metis nonzero_mult_div_cancel_right osize_def power_not_zero zero_neq_numeral)
qed

lemma cut_objs: "i < 9 \<Longrightarrow> (case link_objs (2 ^ (8 - i) - 1) (of_nat (osize i)) (page_of p) s of (cp, s) \<Rightarrow> f (poke cp 0 s)) = f (cut 0 p i s)"
  by (simp add: link_objs_links cut_def Let_def)

lemma reads_frame:
  assumes "al16 c" "\<And>a. frame a = frame c \<Longrightarrow> pmem (h_mm t) a = pmem (h_mm s) a"
  shows "d_page c t = d_page c s" "d_next c t = d_next c s" "d_freeptr c t = d_freeptr c s" "d_refcnt c t = d_refcnt c s"
  using assms by (simp_all add: d_page_def d_next_def d_freeptr_def d_refcnt_def)

text \<open>A new bucket at the head of chain \<open>i\<close>, from the first unused descriptor and page \<open>p\<close>.\<close>

lemma add_bucket:
  assumes inv: "heap_inv {} g s" and b: "spares g = b # ds" and i: "i < 9"
    and p: "p < PAGING_PAGES" "mem_map (h_mm s) p = 0"
    and t: "chain t = (chain s)(i := b)" "free_bucket_desc t = d_next b s"
      "mem_map (h_mm t) = (mem_map (h_mm s))(p := 1)" "HIGH_MEMORY (h_mm t) = HIGH_MEMORY (h_mm s)"
    and tb: "d_page b t = page_of p" "d_next b t = chain s i" "d_freeptr b t = page_of p" "d_refcnt b t = 0"
      "path (pmem (h_mm t)) (page_of p) (slot_list p i)"
    and other: "\<And>c. c \<in> descs g \<Longrightarrow> c \<noteq> b \<Longrightarrow> d_page c t = d_page c s \<and> d_next c t = d_next c s \<and>
        d_freeptr c t = d_freeptr c s \<and> d_refcnt c t = d_refcnt c s"
      "\<And>a. frame a \<noteq> frame b \<Longrightarrow> frame a \<noteq> page_of p \<Longrightarrow> pmem (h_mm t) a = pmem (h_mm s) a"
  shows "heap_inv {b} (g\<lparr>buckets := (buckets g)(i := b # buckets g i), spares := ds, page_no := (page_no g)(b := p),
      objs := (objs g)(b := slot_list p i)\<rparr>) t" (is "heap_inv {b} ?g t")
proof -
  note I = heap_invD [OF inv]
  note D = I(1) [unfolded descs_ok_def] and P = I(2) [unfolded pages_ok_def]
  have hi: "page_of p < HIGH_MEMORY (h_mm s)" using P p by force
  have new: "b \<notin> bucket_set g" "b \<notin> set ds" "b \<in> descs g" "b \<noteq> 0"
    using D b path_nonzero [OF I(5)] by (auto simp: bucket_set_def descs_def)
  have bs: "bucket_set ?g = insert b (bucket_set g)" using i by (auto simp: bucket_set_def split: if_splits)
  have ds: "descs ?g = descs g" using b bs by (auto simp: descs_def)
  have pn: "page_no g c \<noteq> p" if "c \<in> bucket_set g" for c using P that p by auto
  have pd: "p \<notin> desc_pages g" using P p by auto
  have path_same: "path (\<lambda>b. d_next b t) a xs = path (\<lambda>b. d_next b s) a xs"
    if "set xs \<subseteq> descs g" "b \<notin> set xs" for a xs
    by (rule path_cong) (use other(1) that in blast)
  have bj: "set (buckets g j) \<subseteq> descs g \<and> b \<notin> set (buckets g j)" if "j < 9" for j using new that by blast
  have dsd: "set ds \<subseteq> descs g" using b by (auto simp: descs_def)
  have "descs_ok ?g t"
    unfolding descs_ok_def ds
  proof (intro conjI allI impI)
    show "path (\<lambda>b. d_next b t) (free_bucket_desc t) (spares ?g)" using I(5) b t(2) path_same [OF dsd new(2)] by simp
    show "distinct (spares ?g)" using D b by simp
    show "\<forall>b\<in>descs g. al16 b \<and> (\<exists>p\<in>desc_pages ?g. frame b = page_of p)" using D by simp
    fix j :: nat assume j: "j < 9"
    show "path (\<lambda>b. d_next b t) (chain t j) (buckets ?g j)"
      using I(4) j bj [OF j] t(1) tb(2) new(4) path_same [of "buckets g j"] by auto
    show "distinct (buckets ?g j)" using I(7) j bj [OF j] by auto
    show "set (buckets ?g j) \<inter> set (spares ?g) = {}" using D b j new(2) by auto
    fix k :: nat assume "k < 9" "j \<noteq> k"
    then show "set (buckets ?g j) \<inter> set (buckets ?g k) = {}" using D j bj by auto
  qed
  moreover have "pages_ok ?g (h_mm t)"
    using P p t(3,4) hi pn pd new(1) unfolding pages_ok_def bs by (auto simp: inj_on_def)
  moreover have "bucket_ok {b} ?g j c t" if c: "j < 9" "c \<in> set (buckets ?g j)" for j c
  proof (cases "c = b")
    case True
    have "j = i" using True c bj by (auto split: if_splits)
    then show ?thesis using True tb slot_list_slots [OF p(1) i] by (simp add: bucket_ok_def)
  next
    case False
    have cc: "c \<in> set (buckets g j)" "c \<in> bucket_set g" using False c by (auto split: if_splits)
    have ok: "bucket_ok {} g j c s" using I(3) c(1) cc(1) by simp
    have "path (pmem (h_mm t)) a (objs g c) = path (pmem (h_mm s)) a (objs g c)" for a
    proof (rule path_cong)
      fix x assume "x \<in> set (objs g c)"
      then have x: "frame x = page_of (page_no g c)" using ok by (auto simp: bucket_ok_def slots_def)
      have "page_of (page_no g c) \<noteq> page_of p" using pn [OF cc(2)] P cc(2) p(1) page_of_eq by simp
      then show "pmem (h_mm t) x = pmem (h_mm s) x" using other(2) obj_not_desc [OF I(1,2) new(3) cc(2) x] x by simp
    qed
    then show ?thesis using ok other(1) [OF bucketI(2) [OF cc(2)] False] False by (simp add: bucket_ok_def)
  qed
  ultimately show ?thesis by (simp add: heap_inv_def)
qed

lemma live_add:
  assumes "i < 9" "b \<notin> bucket_set g" "p < PAGING_PAGES" "buckets h = (buckets g)(i := b # buckets g i)" 
    "page_no h = (page_no g)(b := p)" "objs h = (objs g)(b := slot_list p i)"
  shows "live h = live g"
proof -
  have "(x, j) \<in> live h \<longleftrightarrow> (x, j) \<in> live g" if "j < 9" for x j
  proof -
    have "c \<noteq> b" if "c \<in> set (buckets g j)" for c using assms(2) that \<open>j < 9\<close> by blast
    then have e: "(\<exists>c\<in>set (buckets g j). x \<in> slots (page_no h c) j \<and> x \<notin> set (objs h c)) \<longleftrightarrow>
        (\<exists>c\<in>set (buckets g j). x \<in> slots (page_no g c) j \<and> x \<notin> set (objs g c))"
      using assms(5,6) by (intro bex_cong) simp_all
    show ?thesis using e assms slot_list_slots(1) [OF assms(3,1)] by (auto simp: live_def)
  qed
  then show ?thesis by (auto simp: live_def)
qed

end
