(* ===== verification/Kmalloc_Lemmas.thy ===== *)
theory Kmalloc_Lemmas imports Kmalloc_Inv begin

text \<open>
  \<open>malloc\<close> and \<open>free_s\<close> keep the invariant and change the set of objects in use by the one they
  return or are given; the interface \<open>allocator\<close> the kernel heap offers its users, and its
  interpretation on the model.
\<close>

text \<open>Where \<open>malloc\<close> may write: the descriptors and page frames nobody uses.\<close>

definition own_page :: "layout \<Rightarrow> mm \<Rightarrow> u32 \<Rightarrow> bool" where
  "own_page g m a \<longleftrightarrow> (\<exists>p<PAGING_PAGES. frame a = page_of p \<and> (p \<in> desc_pages g \<or> mem_map m p = 0))"

lemma desc_own: "descs_ok g s \<Longrightarrow> pages_ok g m \<Longrightarrow> b \<in> descs g \<Longrightarrow> frame a = frame b \<Longrightarrow> own_page g m a"
  unfolding descs_ok_def pages_ok_def own_page_def by metis

lemma new_bucket_spare:
  assumes inv: "heap_inv {} g s" and sp: "spares g = b # ds" and i: "i < 9" and q: "q < PAGING_PAGES" "mem_map (h_mm s) q = 0"
  obtains t h where "new_bucket i s = Inr (b, t)" "heap_inv {b} h t" "b \<in> set (buckets h i)" "objs h b \<noteq> []" "live h = live g"
    "desc_pages h = desc_pages g" "\<forall>a. pmem (h_mm t) a = pmem (h_mm s) a \<or> own_page g (h_mm s) a"
    "\<forall>a. frame a = frame b \<longrightarrow> own_page g (h_mm s) a" "\<exists>p. \<forall>q. q \<noteq> p \<longrightarrow> mem_map (h_mm t) q = mem_map (h_mm s) q"
proof -
  note I = heap_invD [OF inv]
  have bd: "b \<in> descs g" "b \<notin> bucket_set g" "b \<noteq> 0"
    using I(1) sp path_nonzero [OF I(5)] by (auto simp: descs_def bucket_set_def descs_ok_def)
  have al: "c \<in> descs g \<Longrightarrow> al16 c" for c by (rule I(6))
  have fb: "free_bucket_desc s = b" using I(5) sp by simp
  let ?s3 = "set_size b (ucast (bucket_dir ! i)) (set_refcnt b 0 (s\<lparr>free_bucket_desc := d_next b s\<rparr>))"
  have "mem_map (h_mm ?s3) q = 0" using q(2) by simp
  then obtain p u where u: "take_page ?s3 = (page_of p, u)" "p < PAGING_PAGES" "mem_map (h_mm ?s3) p = 0"
    "mem_map (h_mm u) = (mem_map (h_mm ?s3))(p := 1)" "HIGH_MEMORY (h_mm u) = HIGH_MEMORY (h_mm ?s3)"
    "chain u = chain ?s3" "free_bucket_desc u = free_bucket_desc ?s3"
    "\<And>a. frame a \<noteq> page_of p \<Longrightarrow> pmem (h_mm u) a = pmem (h_mm ?s3) a"
    using take_page_free [OF q(1)] by blast
  let ?u5 = "set_page b (page_of p) (set_freeptr b (page_of p) u)"
  let ?u6 = "cut 0 p i ?u5"
  let ?t = "(set_next b (chain s i) ?u6)\<lparr>chain := (chain s)(i := b)\<rparr>"
  let ?h = "g\<lparr>buckets := (buckets g)(i := b # buckets g i), spares := ds, page_no := (page_no g)(b := p),
      objs := (objs g)(b := slot_list p i)\<rparr>"
  have run: "new_bucket i s = Inr (b, ?t)"
    using u(1,6) fb bd(3) page_of_props(3) [OF u(2)] i
    by (simp add: new_bucket_def Let_def bucket_dir_nth link_objs_links cut_def)
  have p0: "mem_map (h_mm s) p = 0" using u(3) by simp
  have nf: "frame c \<noteq> page_of p" if c: "c \<in> descs g" for c
  proof -
    obtain r where "r \<in> desc_pages g" "frame c = page_of r" using I(1) c unfolding descs_ok_def by blast
    then show ?thesis using I(2) u(2) p0 page_of_eq by (auto simp: pages_ok_def)
  qed
  have s0: "\<forall>x\<in>slots p i. frame (x + 0) = page_of p" by (simp add: slots_def)
  have cut: "pmem (h_mm ?u6) a = pmem (h_mm ?u5) a" if "frame a \<noteq> page_of p" for a
    by (rule cut_other [OF u(2) i s0 that])
  note rc = reads_frame [where t = ?u6 and s = ?u5] and ru = reads_frame [where t = u and s = ?s3]
  have rd: "d_page c ?u6 = d_page c ?u5" "d_next c ?u6 = d_next c ?u5" "d_freeptr c ?u6 = d_freeptr c ?u5" "d_refcnt c ?u6 = d_refcnt c ?u5"
    "d_page c u = d_page c ?s3" "d_next c u = d_next c ?s3" "d_freeptr c u = d_freeptr c ?s3" "d_refcnt c u = d_refcnt c ?s3"
    if "c \<in> descs g" for c
    using rc [OF al [OF that]] ru [OF al [OF that]] cut u(8) nf [OF that] by simp_all
  have "heap_inv {b} ?h ?t"
  proof (rule add_bucket [OF inv sp i u(2) p0])
    show "path (pmem (h_mm ?t)) (page_of p) (slot_list p i)"
    proof -
      have "path (pmem (h_mm ?u6)) (page_of p) (slot_list p i)"
        using cut_path [OF u(2) i, of 0 ?u5] by simp
      moreover have "pmem (h_mm ?t) x = pmem (h_mm ?u6) x" if "x \<in> slots p i" for x
        using that nf [OF bd(1)] al [OF bd(1)] by (auto simp: set_field_pmem slots_def)
      ultimately show ?thesis using slot_list_slots(1) [OF u(2) i] by (subst path_cong) auto
    qed
    fix c assume c: "c \<in> descs g" "c \<noteq> b"
    show "d_page c ?t = d_page c s \<and> d_next c ?t = d_next c s \<and> d_freeptr c ?t = d_freeptr c s \<and> d_refcnt c ?t = d_refcnt c s"
      using rd [OF c(1)] al [OF c(1)] al [OF bd(1)] c(2) by simp
  next
    fix a assume a: "frame a \<noteq> frame b" "frame a \<noteq> page_of p"
    then show "pmem (h_mm ?t) a = pmem (h_mm s) a" using cut u(8) al [OF bd(1)] by (simp add: set_field_pmem)
  qed (use u(4-7) rd [OF bd(1)] al [OF bd(1)] in simp_all)
  moreover have "b \<in> set (buckets ?h i)" "objs ?h b \<noteq> []" "desc_pages ?h = desc_pages g"
    using slot_list_slots(3) [OF u(2) i] by auto
  moreover have "live ?h = live g" by (rule live_add [OF i bd(2) u(2)]) simp_all
  moreover have "pmem (h_mm ?t) a = pmem (h_mm s) a \<or> own_page g (h_mm s) a" for a
  proof (cases "frame a = frame b \<or> frame a = page_of p")
    case True
    then show ?thesis using desc_own [OF I(1,2) bd(1), of a] u(2) p0 by (auto simp: own_page_def)
  next
    case False
    then show ?thesis using cut u(8) al [OF bd(1)] by (simp add: set_field_pmem)
  qed
  moreover have "\<forall>q. q \<noteq> p \<longrightarrow> mem_map (h_mm ?t) q = mem_map (h_mm s) q" using u(4) by simp
  ultimately show ?thesis using that run desc_own [OF I(1,2) bd(1)] by blast
qed

lemma new_bucket_ok:
  assumes inv: "heap_inv {} g s" and i: "i < 9"
    and qr: "q < PAGING_PAGES" "mem_map (h_mm s) q = 0" "r < PAGING_PAGES" "mem_map (h_mm s) r = 0" "q \<noteq> r"
  obtains b t h where "new_bucket i s = Inr (b, t)" "heap_inv {b} h t" "b \<in> set (buckets h i)" "objs h b \<noteq> []" "live h = live g"
    "\<forall>a. pmem (h_mm t) a = pmem (h_mm s) a \<or> own_page g (h_mm s) a"
    "\<forall>a. frame a = frame b \<longrightarrow> own_page g (h_mm s) a"
    "\<exists>p p'. \<forall>q. q \<noteq> p \<and> q \<noteq> p' \<longrightarrow> mem_map (h_mm t) q = mem_map (h_mm s) q"
proof (cases "spares g")
  case (Cons b ds)
  then show ?thesis using new_bucket_spare [OF inv Cons i qr(1,2)] that by metis
next
  case Nil
  note I = heap_invD [OF inv]
  obtain p t where t: "init_bucket_desc s = Inr t" "p < PAGING_PAGES" "mem_map (h_mm s) p = 0"
    "heap_inv {} (g\<lparr>spares := slot_list p 0, desc_pages := insert p (desc_pages g)\<rparr>) t" (is "heap_inv {} ?g t")
    "mem_map (h_mm t) = (mem_map (h_mm s))(p := 1)" "\<And>a. frame a \<noteq> page_of p \<Longrightarrow> pmem (h_mm t) a = pmem (h_mm s) a"
    using init_bucket_desc_ok [OF inv Nil qr(1,2)] by metis
  obtain b ds where sp: "spares ?g = b # ds"
    using slot_list_slots(3) [OF t(2), of 0] by (cases "slot_list p 0") auto
  have "free_bucket_desc s = 0" using I(5) Nil by simp
  moreover have "free_bucket_desc t \<noteq> 0" using heap_invD(5) [OF t(4)] sp by simp
  ultimately have run: "new_bucket i s = new_bucket i t" using t(1) by (simp add: new_bucket_def)
  obtain w where w: "w < PAGING_PAGES" "mem_map (h_mm t) w = 0"
    using qr t(5) by (cases "p = q") auto
  have lv: "live ?g = live g" by (simp add: live_def)
  have own: "own_page ?g (h_mm t) a \<Longrightarrow> own_page g (h_mm s) a" for a
    using t(2,3,5) by (auto simp: own_page_def split: if_splits)
  show ?thesis
  proof (rule new_bucket_spare [OF t(4) sp i w])
    fix t' h
    assume h: "new_bucket i t = Inr (b, t')" "heap_inv {b} h t'" "b \<in> set (buckets h i)" "objs h b \<noteq> []" "live h = live ?g"
      "\<forall>a. pmem (h_mm t') a = pmem (h_mm t) a \<or> own_page ?g (h_mm t) a"
      "\<forall>a. frame a = frame b \<longrightarrow> own_page ?g (h_mm t) a"
      "\<exists>p. \<forall>q. q \<noteq> p \<longrightarrow> mem_map (h_mm t') q = mem_map (h_mm t) q"
    have "pmem (h_mm t') a = pmem (h_mm s) a \<or> own_page g (h_mm s) a" for a
      using h(6) t(6) own t(2,3) by (metis own_page_def)
    moreover obtain p' where "\<forall>q. q \<noteq> p' \<longrightarrow> mem_map (h_mm t') q = mem_map (h_mm t) q" using h(8) by blast
    then have "\<exists>p p'. \<forall>q. q \<noteq> p \<and> q \<noteq> p' \<longrightarrow> mem_map (h_mm t') q = mem_map (h_mm s) q"
      using t(5) by (intro exI [of _ p] exI [of _ p']) simp
    ultimately show thesis using that [of b t' h] h run lv own by simp
  qed
qed

section \<open>malloc\<close>

lemma find_dir_first:
  "j < length xs \<Longrightarrow> len \<le> xs ! j \<Longrightarrow> \<exists>i\<le>j. find_dir xs k len = Some (k + i) \<and> len \<le> xs ! i \<and> (\<forall>m<i. \<not> len \<le> xs ! m)"
proof (induction xs arbitrary: j k)
  case (Cons z zs)
  show ?case
  proof (cases "len \<le> z")
    case False
    then obtain n where n: "j = Suc n" "n < length zs" "len \<le> zs ! n" using Cons.prems by (cases j) auto
    from Cons.IH [OF this(2,3), of "Suc k"] obtain i where "i \<le> n" "find_dir zs (Suc k) len = Some (Suc k + i)"
      "len \<le> zs ! i" "\<forall>m<i. \<not> len \<le> zs ! m" by blast
    then show ?thesis using False n(1) by (intro exI [of _ "Suc i"]) (auto simp: less_Suc_eq_0_disj)
  qed auto
qed simp

lemma find_dir_least:
  assumes "unat len \<le> 4096"
  obtains i where "find_dir bucket_dir 0 len = Some i" "i < 9" "unat len \<le> osize i" "i = 0 \<or> osize i < 2 * unat len"
proof -
  have cmp: "len \<le> bucket_dir ! i \<longleftrightarrow> unat len \<le> osize i" if "i < 9" for i
    using bucket_dir_nth(1,2) [OF that] by (simp add: word_le_nat_alt)
  have "len \<le> bucket_dir ! 8" using assms cmp [of 8] by (simp add: osize_def)
  then obtain i where i: "i \<le> 8" "find_dir bucket_dir 0 len = Some i" "len \<le> bucket_dir ! i" "\<forall>m<i. \<not> len \<le> bucket_dir ! m"
    using find_dir_first [of 8 bucket_dir len 0] by (auto simp: bucket_dir_def)
  have "osize i < 2 * unat len" if "i = Suc m" for m
  proof -
    have "osize i = 2 * osize m" unfolding that osize_def add_Suc_right power_Suc by simp
    then show ?thesis using i(1,4) cmp [of m] that by simp
  qed
  then show ?thesis using that [of i] i cmp [of i] by (cases i) simp_all
qed

lemma live_take:
  assumes inv: "heap_inv Z g s" and b: "i < 9" "b \<in> set (buckets g i)" and os: "objs g b = x # xs"
  shows "(x, i) \<notin> live g" "live (g\<lparr>objs := (objs g)(b := xs)\<rparr>) = insert (x, i) (live g)"
proof -
  note I = heap_invD [OF inv]
  have ok: "bucket_ok Z g i b s" using I(3) b by blast
  then have x: "x \<in> slots (page_no g b) i" "x \<notin> set xs" using os by (auto simp: bucket_ok_def)
  have only: "c = b" if "c \<in> set (buckets g j)" "j < 9" "x \<in> slots (page_no g c) j" for c j
  proof -
    have "page_of (page_no g c) = page_of (page_no g b)" using x(1) that(3) by (simp add: slots_def)
    moreover have cb: "c \<in> bucket_set g" "b \<in> bucket_set g" using that b by blast+
    ultimately have "page_no g c = page_no g b" using I(2) page_of_eq unfolding pages_ok_def by blast
    then show ?thesis using I(2) cb unfolding pages_ok_def by (blast dest: inj_onD)
  qed
  have idx: "j = i" if "b \<in> set (buckets g j)" "j < 9" for j
    using I(1) b that unfolding descs_ok_def by blast
  show "(x, i) \<notin> live g"
  proof
    assume "(x, i) \<in> live g"
    then obtain c where "c \<in> set (buckets g i)" "x \<in> slots (page_no g c) i" "x \<notin> set (objs g c)"
      unfolding live_def by blast
    then show False using only [of c i] b(1) os by simp
  qed
  show "live (g\<lparr>objs := (objs g)(b := xs)\<rparr>) = insert (x, i) (live g)"
  proof (rule set_eqI, clarify)
    fix y j
    let ?in = "\<lambda>os. \<exists>c\<in>set (buckets g j). y \<in> slots (page_no g c) j \<and> y \<notin> set (os c)"
    have same: "?in ((objs g)(b := xs)) = ?in (objs g)" if "(y, j) \<noteq> (x, i)" "j < 9"
    proof (rule bex_cong [OF refl])
      fix c assume "c \<in> set (buckets g j)"
      then show "(y \<in> slots (page_no g c) j \<and> y \<notin> set (((objs g)(b := xs)) c)) =
          (y \<in> slots (page_no g c) j \<and> y \<notin> set (objs g c))"
        using that idx os by (cases "c = b") auto
    qed
    have new: "?in ((objs g)(b := xs))" if "(y, j) = (x, i)" using that b x by auto
    show "(y, j) \<in> live (g\<lparr>objs := (objs g)(b := xs)\<rparr>) \<longleftrightarrow> (y, j) \<in> insert (x, i) (live g)"
    proof -
      have "(y, j) \<in> live (g\<lparr>objs := (objs g)(b := xs)\<rparr>) \<longleftrightarrow> j < 9 \<and> ?in ((objs g)(b := xs))"
        "(y, j) \<in> live g \<longleftrightarrow> j < 9 \<and> ?in (objs g)" unfolding live_def mem_Collect_eq prod.case by simp_all
      then show ?thesis using same new b(1) by (metis insert_iff prod.inject)
    qed
  qed
qed

lemma heap_inv_mono: "heap_inv Z g s \<Longrightarrow> Z \<subseteq> Y \<Longrightarrow> heap_inv Y g s"
  by (auto simp: heap_inv_def bucket_ok_def)

lemma malloc_end:
  assumes inv: "heap_inv {b} g s" and b: "i < 9" "b \<in> set (buckets g i)" and os: "objs g b \<noteq> []"
  obtains t h where "(let retval = d_freeptr b s; s = set_freeptr b (pmem (h_mm s) retval) s
      in (Inr (retval, set_refcnt b (d_refcnt b s + 1) s)) :: (u32 \<times> heap) kres) = Inr (d_freeptr b s, t)" "heap_inv {} h t"
    "(d_freeptr b s, i) \<notin> live g" "live h = insert (d_freeptr b s, i) (live g)" "d_freeptr b s \<noteq> 0"
    "\<forall>a. pmem (h_mm t) a = pmem (h_mm s) a \<or> frame a = frame b" "mem_map (h_mm t) = mem_map (h_mm s)"
proof -
  note I = heap_invD [OF inv]
  obtain x xs where x: "objs g b = x # xs" using os by (cases "objs g b") auto
  have ok: "bucket_ok {b} g i b s" using I(3) b by blast
  have e: "d_freeptr b s = x" "x \<noteq> 0" "x \<in> slots (page_no g b) i" using ok x by (auto simp: bucket_ok_def)
  have al: "al16 b" using I(6) b by blast
  let ?t = "set_refcnt b (d_refcnt b s + 1) (set_freeptr b (pmem (h_mm s) x) s)"
  show ?thesis
    by (rule that [of ?t "g\<lparr>objs := (objs g)(b := xs)\<rparr>"])
      (use take_obj [OF inv b x] live_take [OF inv b x] e al in \<open>auto simp: set_field_pmem\<close>)
qed

lemma malloc_ok:
  assumes inv: "heap_inv {} g s" and len: "unat len \<le> 4096"
    and qr: "q < PAGING_PAGES" "mem_map (h_mm s) q = 0" "r < PAGING_PAGES" "mem_map (h_mm s) r = 0" "q \<noteq> r"
  obtains x i t h where "malloc len s = Inr (x, t)" "heap_inv {} h t" "(x, i) \<notin> live g" "live h = insert (x, i) (live g)"
    "x \<noteq> 0" "unat len \<le> osize i" "i = 0 \<or> osize i < 2 * unat len"
    "\<forall>a. pmem (h_mm t) a = pmem (h_mm s) a \<or> own_page g (h_mm s) a"
    "\<exists>p p'. \<forall>q. q \<noteq> p \<and> q \<noteq> p' \<longrightarrow> mem_map (h_mm t) q = mem_map (h_mm s) q"
proof -
  note I = heap_invD [OF inv]
  obtain i where i: "find_dir bucket_dir 0 len = Some i" "i < 9" "unat len \<le> osize i" "i = 0 \<or> osize i < 2 * unat len"
    using find_dir_least [OF len] by blast
  note path = I(4) [OF i(2)] and short = bucket_count [OF inv i(2)]
  show ?thesis
  proof (cases "\<exists>b\<in>set (buckets g i). d_freeptr b s \<noteq> 0")
    case True
    obtain b where b: "b \<in> set (buckets g i)" "d_freeptr b s \<noteq> 0" "find_free CHAIN (chain s i) s = Inr b"
      using find_free_some [OF path short True] by blast
    have b0: "b \<noteq> 0" using path_nonzero [OF path] b(1) by auto
    have os: "objs g b \<noteq> []" using I(3) [OF i(2) b(1)] b(2) by (auto simp: bucket_ok_def)
    have "heap_inv {b} g s" using heap_inv_mono [OF inv] by simp
    from malloc_end [OF this i(2) b(1) os] obtain t h where
      "(let retval = d_freeptr b s; s = set_freeptr b (pmem (h_mm s) retval) s
        in (Inr (retval, set_refcnt b (d_refcnt b s + 1) s)) :: (u32 \<times> heap) kres) = Inr (d_freeptr b s, t)"
      "heap_inv {} h t" "(d_freeptr b s, i) \<notin> live g" "live h = insert (d_freeptr b s, i) (live g)" "d_freeptr b s \<noteq> 0"
      "\<forall>a. pmem (h_mm t) a = pmem (h_mm s) a \<or> frame a = frame b" "mem_map (h_mm t) = mem_map (h_mm s)" by metis
    moreover have "b \<in> descs g" using b(1) i(2) by blast
    ultimately show ?thesis
      using that [of "d_freeptr b s" t h i] i b b0 desc_own [OF I(1,2)] by (simp add: malloc_def Let_def) blast
  next
    case False
    then have ff: "find_free CHAIN (chain s i) s = Inr 0" using find_free_none [OF path short] by blast
    obtain b u g' where u: "new_bucket i s = Inr (b, u)" "heap_inv {b} g' u" "b \<in> set (buckets g' i)" "objs g' b \<noteq> []"
      "live g' = live g" "\<forall>a. pmem (h_mm u) a = pmem (h_mm s) a \<or> own_page g (h_mm s) a"
      "\<forall>a. frame a = frame b \<longrightarrow> own_page g (h_mm s) a"
      "\<exists>p p'. \<forall>q. q \<noteq> p \<and> q \<noteq> p' \<longrightarrow> mem_map (h_mm u) q = mem_map (h_mm s) q"
      using new_bucket_ok [OF inv i(2) qr] by metis
    from malloc_end [OF u(2) i(2) u(3,4)] obtain t h where t:
      "(let retval = d_freeptr b u; s = set_freeptr b (pmem (h_mm u) retval) u
        in (Inr (retval, set_refcnt b (d_refcnt b s + 1) s)) :: (u32 \<times> heap) kres) = Inr (d_freeptr b u, t)"
      "heap_inv {} h t" "(d_freeptr b u, i) \<notin> live g'" "live h = insert (d_freeptr b u, i) (live g')" "d_freeptr b u \<noteq> 0"
      "\<forall>a. pmem (h_mm t) a = pmem (h_mm u) a \<or> frame a = frame b" "mem_map (h_mm t) = mem_map (h_mm u)" by metis
    show ?thesis
      using that [of "d_freeptr b u" t h i] i ff u(1,5-8) t by (simp add: malloc_def Let_def) metis
  qed
qed

section \<open>free\<close>

text \<open>An object lies in the page of one bucket only.\<close>

lemma page_bucket:
  assumes inv: "heap_inv Z g s" and "b \<in> set (buckets g i)" "i < 9" "c \<in> set (buckets g j)" "j < 9"
    "page_of (page_no g c) = page_of (page_no g b)"
  shows "c = b \<and> j = i"
proof -
  note I = heap_invD [OF inv]
  have cb: "c \<in> bucket_set g" "b \<in> bucket_set g" using assms by blast+
  then have "page_no g c = page_no g b" using I(2) page_of_eq assms(6) unfolding pages_ok_def by blast
  then have "c = b" using I(2) cb unfolding pages_ok_def by (blast dest: inj_onD)
  then show ?thesis using I(1) assms(2-5) unfolding descs_ok_def by blast
qed

lemma find_bucket_ok:
  assumes inv: "heap_inv Z g s" and b: "i < 9" "buckets g i = ys @ b # zs"
  shows "find_bucket bucket_dir 0 0 (d_page b s) s = Inr (i, if ys = [] then 0 else last ys, b)"
proof -
  note I = heap_invD [OF inv]
  have ok: "c \<in> set (buckets g j) \<Longrightarrow> j < 9 \<Longrightarrow> d_page c s = page_of (page_no g c)" for c j
    using I(3) by (simp add: bucket_ok_def)
  have bi: "b \<in> set (buckets g i)" using b by simp
  have other: "d_page c s \<noteq> d_page b s" if "c \<in> set (buckets g j)" "j < 9" "c \<noteq> b \<or> j \<noteq> i" for c j
    using page_bucket [OF inv bi b(1) that(1,2)] ok [OF that(1,2)] ok [OF bi b(1)] that(3) by auto
  have nth: "find_bucket (drop j bucket_dir) j 0 page s = (case find_page CHAIN 0 (chain s j) page s of
      Inl e \<Rightarrow> Inl e | Inr None \<Rightarrow> find_bucket (drop (Suc j) bucket_dir) (Suc j) 0 page s
      | Inr (Some (prev, c)) \<Rightarrow> Inr (j, prev, c))" if "j < 9" for j page
  proof -
    have "drop j bucket_dir = bucket_dir ! j # drop (Suc j) bucket_dir"
      using that by (intro Cons_nth_drop_Suc [symmetric]) (simp add: bucket_dir_def)
    moreover have "\<not> bucket_dir ! j <s 0"
      using that by (auto simp: bucket_dir_def less_Suc_eq numeral_eq_Suc word_sless_alt)
    ultimately show ?thesis by (simp add: bindk_def)
  qed
  have "j \<le> i \<Longrightarrow> find_bucket (drop j bucket_dir) j 0 (d_page b s) s = Inr (i, if ys = [] then 0 else last ys, b)" for j
  proof (induction "i - j" arbitrary: j)
    case 0
    then have j: "j = i" by simp
    have "path (\<lambda>b. d_next b s) (chain s i) (ys @ b # zs)" using I(4) [OF b(1)] b(2) by simp
    moreover have "length ys < CHAIN" using bucket_count [OF inv b(1)] b(2) by simp
    moreover have "\<forall>c\<in>set ys. d_page c s \<noteq> d_page b s"
      using I(7) [OF b(1)] b other [of _ i] by auto
    ultimately have "find_page CHAIN 0 (chain s i) (d_page b s) s = Inr (Some (if ys = [] then 0 else last ys, b))"
      by (intro find_page_some) simp_all
    then show ?case using nth [OF b(1), of "d_page b s"] unfolding j by simp
  next
    case (Suc n)
    have j: "j < 9" "j \<noteq> i" using Suc.hyps(2) b(1) by simp_all
    have "find_page CHAIN 0 (chain s j) (d_page b s) s = Inr None"
      using find_page_none [OF I(4) [OF j(1)] bucket_count [OF inv j(1)]] other j by blast
    then show ?case using nth [OF j(1), of "d_page b s"] Suc.hyps(1) [of "Suc j"] Suc.hyps(2) by simp
  qed
  from this [of 0] show ?thesis by simp
qed

text \<open>An empty bucket leaves its chain and its page goes back.\<close>

lemma drop_bucket_ok:
  assumes inv: "heap_inv {b} g s" and i: "i < 9" and b: "buckets g i = ys @ b # zs" and r: "d_refcnt b s = 0"
  obtains t where "drop_bucket i (if ys = [] then 0 else last ys) b s = Inr t"
    "heap_inv {} (g\<lparr>buckets := (buckets g)(i := ys @ zs), spares := b # spares g\<rparr>) t"
    "\<And>a. \<forall>c\<in>descs g. frame a \<noteq> frame c \<Longrightarrow> pmem (h_mm t) a = pmem (h_mm s) a"
    "mem_map (h_mm t) = (mem_map (h_mm s))(page_no g b := 0)"
proof -
  note I = heap_invD [OF inv]
  note D = I(1) [unfolded descs_ok_def] and P = I(2) [unfolded pages_ok_def]
  let ?prev = "if ys = [] then 0 else last ys"
  let ?g = "g\<lparr>buckets := (buckets g)(i := ys @ zs), spares := b # spares g\<rparr>"
  have bi: "b \<in> set (buckets g i)" using b by simp
  have bb: "b \<in> bucket_set g" "b \<in> descs g" using bi i by blast+
  have al: "c \<in> descs g \<Longrightarrow> al16 c" for c by (rule I(6))
  have p: "path (\<lambda>b. d_next b s) (chain s i) (ys @ b # zs)" using I(4) [OF i] b by simp
  have dist: "distinct (ys @ b # zs)" using I(7) [OF i] b by simp
  have nz: "0 \<notin> set (ys @ b # zs)" by (rule path_nonzero [OF p])
  note sp = path_split [OF p]
  define u where "u = (if ys = [] then s\<lparr>chain := (chain s)(i := d_next b s)\<rparr> else set_next (last ys) (d_next b s) s)"
  have ly: "last ys \<in> descs g" "last ys \<noteq> 0" "last ys \<noteq> b" "last ys \<in> set ys" if "ys \<noteq> []"
  proof -
    show l: "last ys \<in> set ys" using that by simp
    then show "last ys \<in> descs g" using b i by (intro bucketI(2) bucketI(1) [of _ g i]) simp_all
    show "last ys \<noteq> 0" "last ys \<noteq> b" using l nz dist by auto
  qed
  have u: "d_page c u = d_page c s" "d_freeptr c u = d_freeptr c s" "d_refcnt c u = d_refcnt c s"
    "d_next c u = (if ys \<noteq> [] \<and> c = last ys then d_next b s else d_next c s)" if "c \<in> descs g" for c
    using al [OF that] al [OF ly(1)] by (auto simp: u_def)
  have ur: "mem_map (h_mm u) = mem_map (h_mm s)" "HIGH_MEMORY (h_mm u) = HIGH_MEMORY (h_mm s)"
    "free_bucket_desc u = free_bucket_desc s" "chain u = (if ys = [] then (chain s)(i := d_next b s) else chain s)"
    by (simp_all add: u_def)
  let ?n = "page_no g b"
  have pg: "?n < PAGING_PAGES" "mem_map (h_mm s) ?n = 1" "page_of ?n < HIGH_MEMORY (h_mm s)" "?n \<notin> desc_pages g"
    using P bb(1) by force+
  have dp: "d_page b s = page_of ?n" using I(3) [OF i bi] by (simp add: bucket_ok_def)
  let ?v = "u\<lparr>h_mm := map_set ?n 0 (h_mm u)\<rparr>"
  have gp: "give_page (d_page b u) u = Inr ?v"
    using pg ur u(1) [OF bb(2)] by (simp add: give_page_def dp free_page_page_of)
  let ?t = "(set_next b (free_bucket_desc s) ?v)\<lparr>free_bucket_desc := b\<rparr>"
  have run: "drop_bucket i ?prev b s = Inr ?t"
  proof (cases "ys = []")
    case True
    then show ?thesis using sp gp ur by (simp add: drop_bucket_def u_def Let_def)
  next
    case False
    then show ?thesis using sp gp ur ly by (simp add: drop_bucket_def u_def Let_def)
  qed
  have v: "d_page c ?v = d_page c u" "d_next c ?v = d_next c u" "d_freeptr c ?v = d_freeptr c u" "d_refcnt c ?v = d_refcnt c u" for c
    by (simp_all add: d_page_def d_next_def d_freeptr_def d_refcnt_def)
  have t: "d_page c ?t = d_page c s" "d_freeptr c ?t = d_freeptr c s" "d_refcnt c ?t = d_refcnt c s"
    "d_next c ?t = (if c = b then free_bucket_desc s else if ys \<noteq> [] \<and> c = last ys then d_next b s else d_next c s)"
    if "c \<in> descs g" for c
    using al [OF that] al [OF bb(2)] u [OF that] v by simp_all
  have mem: "pmem (h_mm ?t) a = pmem (h_mm s) a" if "\<forall>c\<in>descs g. frame a \<noteq> frame c" for a
    using that al bb(2) ly(1) by (auto simp: set_field_pmem u_def)
  have bs: "bucket_set ?g = bucket_set g - {b}"
  proof -
    have "b \<notin> set (buckets g j)" if "j < 9" "j \<noteq> i" for j using D that i bi by blast
    then have "set (buckets ?g j) = set (buckets g j) - {b}" if "j < 9" for j
      using that dist b by (cases "j = i") auto
    then show ?thesis by (auto simp: bucket_set_def simp del: layout.simps)
  qed
  have ds: "descs ?g = descs g" using bs bb by (auto simp: descs_def)
  have nb: "b \<notin> set (buckets g j)" if "j < 9" "j \<noteq> i" for j using D that i bi by blast
  have bsp: "b \<notin> set (spares g)" using D bi i by blast
  have same: "path (\<lambda>b. d_next b ?t) a xs = path (\<lambda>b. d_next b s) a xs"
    if "set xs \<subseteq> descs g" "b \<notin> set xs" "ys \<noteq> [] \<longrightarrow> last ys \<notin> set xs" for a xs
  proof (rule path_cong)
    fix x assume "x \<in> set xs"
    then have "x \<in> descs g" "x \<noteq> b" "\<not> (ys \<noteq> [] \<and> x = last ys)" using that by auto
    then show "d_next x ?t = d_next x s" using t(4) [of x] by (simp only: if_False)
  qed
  have lsp: "ys \<noteq> [] \<longrightarrow> last ys \<notin> set (spares g)"
  proof
    assume "ys \<noteq> []"
    then have "last ys \<in> set (buckets g i)" using b by simp
    then show "last ys \<notin> set (spares g)" using D i by blast
  qed
  have lj: "ys \<noteq> [] \<longrightarrow> last ys \<notin> set (buckets g j)" if "j < 9" "j \<noteq> i" for j
  proof -
    have "set (buckets g i) \<inter> set (buckets g j) = {}" using D that i by blast
    moreover have "ys \<noteq> [] \<longrightarrow> last ys \<in> set (buckets g i)" using b by simp
    ultimately show ?thesis by blast
  qed
  have "descs_ok ?g ?t"
    unfolding descs_ok_def ds
  proof (intro conjI allI impI)
    have "set (spares g) \<subseteq> descs g" by blast
    then show "path (\<lambda>b. d_next b ?t) (free_bucket_desc ?t) (spares ?g)"
      using I(5) same [OF _ bsp lsp] t(4) [OF bb(2)] nz by simp
    show "distinct (spares ?g)" using D bsp by simp
    show "\<forall>b\<in>descs g. al16 b \<and> (\<exists>p\<in>desc_pages ?g. frame b = page_of p)" using D by simp
    fix j :: nat assume j: "j < 9"
    show "path (\<lambda>b. d_next b ?t) (chain ?t j) (buckets ?g j)"
    proof (cases "j = i")
      case True
      have "set (buckets g i) \<subseteq> descs g" using i by blast
      then have sub: "set (ys @ zs) \<subseteq> descs g" using b by simp
      have nbz: "b \<notin> set (ys @ zs)" using dist by auto
      show ?thesis
      proof (cases "ys = []")
        case True
        then show ?thesis using \<open>j = i\<close> sp same [of zs] sub nbz ur(4) by simp
      next
        case False
        have "path (\<lambda>b. d_next b ?t) a (ys @ zs) = path ((\<lambda>b. d_next b s)(last ys := d_next b s)) a (ys @ zs)" for a
          by (rule path_cong) (use t(4) sub nbz False in \<open>auto simp del: set_append\<close>)
        then show ?thesis using \<open>j = i\<close> path_remove [OF p dist False] ur(4) False by simp
      qed
    next
      case False
      have "set (buckets g j) \<subseteq> descs g" using j by blast
      then show ?thesis using I(4) [OF j] same [OF _ nb [OF j False] lj [OF j False]] False ur(4) by simp
    qed
    show "distinct (buckets ?g j)" using I(7) j dist by simp
    have "set (buckets g j) \<inter> set (spares g) = {}" using D j by blast
    then show "set (buckets ?g j) \<inter> set (spares ?g) = {}" using b dist nb [OF j] by (cases "j = i") auto
    fix k :: nat assume k: "k < 9" "j \<noteq> k"
    have "set (buckets ?g m) \<subseteq> set (buckets g m)" for m using b by auto
    moreover have "set (buckets g j) \<inter> set (buckets g k) = {}" using D j k by blast
    ultimately show "set (buckets ?g j) \<inter> set (buckets ?g k) = {}" by blast
  qed
  moreover have "pages_ok ?g (h_mm ?t)"
    unfolding pages_ok_def bs
  proof (intro conjI)
    show "inj_on (page_no ?g) (bucket_set g - {b})" using P by (auto intro: inj_on_subset)
    show "\<forall>c\<in>bucket_set g - {b}. page_no ?g c < PAGING_PAGES \<and> mem_map (h_mm ?t) (page_no ?g c) = 1 \<and> page_no ?g c \<notin> desc_pages ?g"
      using P bb(1) ur(1) by (auto dest: inj_onD)
  qed (use P pg ur in auto)
  moreover have "bucket_ok {} ?g j c ?t" if c: "j < 9" "c \<in> set (buckets ?g j)" for j c
  proof -
    have c': "c \<in> set (buckets g j)" "c \<noteq> b" using c b dist nb by (auto split: if_splits)
    have cb: "c \<in> bucket_set g" "c \<in> descs g" using c' c(1) by blast+
    have ok: "bucket_ok {b} g j c s" using I(3) c(1) c'(1) by simp
    have "path (pmem (h_mm ?t)) a (objs g c) = path (pmem (h_mm s)) a (objs g c)" for a
    proof (rule path_cong)
      fix x assume "x \<in> set (objs g c)"
      then have x: "frame x = page_of (page_no g c)" using ok by (auto simp: bucket_ok_def slots_def)
      show "pmem (h_mm ?t) x = pmem (h_mm s) x"
        by (rule mem) (use obj_not_desc [OF I(1,2) _ cb(1) x] in blast)
    qed
    then show ?thesis using ok t [OF cb(2)] c'(2) by (simp add: bucket_ok_def)
  qed
  ultimately have "heap_inv {} ?g ?t" unfolding heap_inv_def by blast
  moreover have "mem_map (h_mm ?t) = (mem_map (h_mm s))(?n := 0)" using ur(1) by (simp add: map_set_def)
  ultimately show ?thesis using that run mem by blast
qed

text \<open>A bucket has no object in use just when all the objects of its page are free.\<close>

lemma bucket_full:
  assumes inv: "heap_inv Z g s" and i: "i < 9" and b: "b \<in> set (buckets g i)"
  shows "d_refcnt b s = 0 \<longleftrightarrow> set (objs g b) = slots (page_no g b) i"
proof -
  note I = heap_invD [OF inv]
  have ok: "bucket_ok Z g i b s" by (rule I(3) [OF i b])
  have p: "page_no g b < PAGING_PAGES" using I(2) i b bucketI(1) [of b g i] by (auto simp: pages_ok_def)
  have c: "card (slots (page_no g b) i) = 2 ^ (8 - i)" "finite (slots (page_no g b) i)"
    using slot_list_slots [OF p i] distinct_card [of "slot_list (page_no g b) i"] by (auto simp flip: slot_list_slots(1))
  have l: "card (set (objs g b)) = length (objs g b)" "length (objs g b) + unat (d_refcnt b s) = 2 ^ (8 - i)"
    "set (objs g b) \<subseteq> slots (page_no g b) i"
    using ok distinct_card [of "objs g b"] by (auto simp: bucket_ok_def)
  show ?thesis
  proof
    assume "d_refcnt b s = 0"
    then show "set (objs g b) = slots (page_no g b) i" using l c by (intro card_subset_eq) simp_all
  next
    assume "set (objs g b) = slots (page_no g b) i"
    then have "unat (d_refcnt b s) = 0" using l(1,2) c(1) by simp
    then show "d_refcnt b s = 0" by (simp add: unat_eq_zero)
  qed
qed

text \<open>Another object in use in the page of \<open>x\<close>.\<close>

definition shared :: "(u32 \<times> nat) set \<Rightarrow> u32 \<times> nat \<Rightarrow> bool" where
  "shared L x \<longleftrightarrow> (\<exists>y \<in> L. y \<noteq> x \<and> frame (fst y) = frame (fst x))"

lemma shared_bucket:
  assumes inv: "heap_inv Z g s" and b: "i < 9" "b \<in> set (buckets g i)" "x \<in> slots (page_no g b) i"
  shows "shared (live g) (x, i) \<longleftrightarrow> \<not> slots (page_no g b) i \<subseteq> insert x (set (objs g b))"
proof
  assume "shared (live g) (x, i)"
  then obtain y j where y: "(y, j) \<in> live g" "(y, j) \<noteq> (x, i)" "frame y = frame x"
    unfolding shared_def by (metis prod.collapse fst_conv)
  then obtain c where c: "j < 9" "c \<in> set (buckets g j)" "y \<in> slots (page_no g c) j" "y \<notin> set (objs g c)"
    by (auto simp: live_def)
  have "page_of (page_no g c) = page_of (page_no g b)" using y(3) c(3) b(3) by (simp add: slots_def)
  then have "c = b" "j = i" using page_bucket [OF inv b(2,1) c(2,1)] by blast+
  then show "\<not> slots (page_no g b) i \<subseteq> insert x (set (objs g b))" using c(3,4) y(2) by blast
next
  assume "\<not> slots (page_no g b) i \<subseteq> insert x (set (objs g b))"
  then obtain y where y: "y \<in> slots (page_no g b) i" "y \<noteq> x" "y \<notin> set (objs g b)" by blast
  then have "(y, i) \<in> live g" using b(1,2) by (auto simp: live_def)
  moreover have "frame y = frame x" using y(1) b(3) by (simp add: slots_def)
  ultimately show "shared (live g) (x, i)" using y(2) by (auto simp: shared_def)
qed

lemma MAP_NR_page:
  assumes "frame x = page_of p" "p < PAGING_PAGES"
  shows "MAP_NR x = p"
proof -
  have "unat (frame x) = unat x div 4096 * 4096" by (rule unat_frame)
  then have "unat x div 4096 = p + 256" using assms by (simp add: unat_page_of)
  moreover from this have "LOW_MEM \<le> x" by (simp add: word_le_nat_alt LOW_MEM_def)
  moreover have "unat LOW_MEM = 256 * 4096" by (simp add: LOW_MEM_def)
  ultimately show ?thesis by (simp add: MAP_NR_def unat_sub unat_div drop_bit_eq_div)
qed

lemma live_give:
  assumes inv: "heap_inv Z (g\<lparr>objs := (objs g)(b := x # objs g b)\<rparr>) t" and b: "i < 9" "b \<in> set (buckets g i)"
  shows "live (g\<lparr>objs := (objs g)(b := x # objs g b)\<rparr>) = live g - {(x, i)}"
proof -
  have "live g = insert (x, i) (live (g\<lparr>objs := (objs g)(b := x # objs g b)\<rparr>))"
    using live_take(2) [OF inv b(1), of b x "objs g b"] b(2) by simp
  then show ?thesis using live_take(1) [OF inv b(1), of b x "objs g b"] b(2) by simp
qed

lemma live_drop:
  assumes inv: "heap_inv Z g s" and i: "i < 9" and b: "buckets g i = ys @ b # zs" and r: "d_refcnt b s = 0"
  shows "live (g\<lparr>buckets := (buckets g)(i := ys @ zs), spares := ds\<rparr>) = live g"
proof -
  have full: "set (objs g b) = slots (page_no g b) i" using bucket_full [OF inv i, of b] b r by simp
  have drop: "(\<exists>c\<in>set (ys @ b # zs). P c) = (\<exists>c\<in>set (ys @ zs). P c)" if "\<not> P b" for P using that by auto
  have "(\<exists>c\<in>set (ys @ zs). x \<in> slots (page_no g c) i \<and> x \<notin> set (objs g c)) =
      (\<exists>c\<in>set (ys @ b # zs). x \<in> slots (page_no g c) i \<and> x \<notin> set (objs g c))" for x
    by (rule drop [symmetric]) (use full in blast)
  then have "(x, j) \<in> live (g\<lparr>buckets := (buckets g)(i := ys @ zs), spares := ds\<rparr>) \<longleftrightarrow> (x, j) \<in> live g" for x j
    using b unfolding live_def mem_Collect_eq prod.case by (cases "j = i") simp_all
  then show ?thesis by (intro set_eqI) (simp only: split_paired_all)
qed

lemma kfree_ok:
  assumes inv: "heap_inv {} g s" and x: "(x, i) \<in> live g"
  obtains t h where "kfree x s = Inr t" "heap_inv {} h t" "live h = live g - {(x, i)}"
    "\<forall>a. pmem (h_mm t) a = pmem (h_mm s) a \<or> a = x \<or> (\<exists>c\<in>descs g. frame a = frame c)"
    "mem_map (h_mm t) = (if shared (live g) (x, i) then mem_map (h_mm s) else (mem_map (h_mm s))(MAP_NR x := 0))"
proof -
  note I = heap_invD [OF inv]
  obtain b where b: "i < 9" "b \<in> set (buckets g i)" "x \<in> slots (page_no g b) i" "x \<notin> set (objs g b)"
    using x by (auto simp: live_def)
  obtain ys zs where bz: "buckets g i = ys @ b # zs" using b(2) by (auto simp: in_set_conv_decomp)
  have bb: "b \<in> bucket_set g" "b \<in> descs g" using b by blast+
  have al: "al16 b" by (rule I(6) [OF bb(2)])
  have fx: "frame x = page_of (page_no g b)" using b(3) by (simp add: slots_def)
  have x0: "x \<noteq> 0"
  proof -
    have "page_no g b < PAGING_PAGES" using I(2) bb(1) by (simp add: pages_ok_def)
    then show ?thesis using fx page_of_props(3) by (auto simp: frame_def)
  qed
  have "d_page b s = page_of (page_no g b)" using I(3) [OF b(1,2)] by (simp add: bucket_ok_def)
  then have fb: "find_bucket bucket_dir 0 0 (x AND 0xfffff000) s = Inr (i, if ys = [] then 0 else last ys, b)"
    using find_bucket_ok [OF inv b(1) bz] fx by (simp add: frame_def)
  have nf: "frame x \<noteq> frame b" by (rule obj_not_desc [OF I(1,2) bb(2,1) fx])
  then have rp: "d_refcnt b (poke x v s) = d_refcnt b s" for v
    by (intro reads_frame(4) [OF al]) auto
  let ?s = "set_refcnt b (d_refcnt b s - 1) (set_freeptr b x (poke x (d_freeptr b s) s))"
  let ?g = "g\<lparr>objs := (objs g)(b := x # objs g b)\<rparr>"
  have inv': "heap_inv {b} ?g ?s" by (rule give_obj [OF inv b x0])
  have run: "kfree x s = (if d_refcnt b ?s = 0 then drop_bucket i (if ys = [] then 0 else last ys) b ?s else Inr ?s)"
    using fb rp al by (simp add: kfree_def free_s_def Let_def)
  have lv: "live ?g = live g - {(x, i)}" by (rule live_give [OF inv' b(1,2)])
  have mem: "pmem (h_mm ?s) a = pmem (h_mm s) a \<or> a = x \<or> frame a = frame b" for a
    using al by (cases "frame a = frame b") (simp_all add: set_field_pmem)
  have map: "mem_map (h_mm ?s) = mem_map (h_mm s)" by simp
  have "set (objs ?g b) \<subseteq> slots (page_no g b) i" using I(3) [OF b(1,2)] b(3) by (auto simp: bucket_ok_def)
  then have last: "shared (live g) (x, i) \<longleftrightarrow> d_refcnt b ?s \<noteq> 0"
    using bucket_full [OF inv' b(1), of b] b(2) shared_bucket [OF inv b(1-3)] by auto
  have nr: "MAP_NR x = page_no g b"
    by (rule MAP_NR_page [OF fx]) (use I(2) bb(1) in \<open>simp add: pages_ok_def\<close>)
  show ?thesis
  proof (cases "d_refcnt b ?s = 0")
    case True
    have bz': "buckets ?g i = ys @ b # zs" using bz by simp
    from drop_bucket_ok [OF inv' b(1) bz' True] obtain t where t:
      "drop_bucket i (if ys = [] then 0 else last ys) b ?s = Inr t"
      "heap_inv {} (?g\<lparr>buckets := (buckets ?g)(i := ys @ zs), spares := b # spares ?g\<rparr>) t"
      "\<And>a. \<forall>c\<in>descs ?g. frame a \<noteq> frame c \<Longrightarrow> pmem (h_mm t) a = pmem (h_mm ?s) a"
      "mem_map (h_mm t) = (mem_map (h_mm ?s))(page_no ?g b := 0)" by blast
    have "descs ?g = descs g" by (simp add: descs_def bucket_set_def)
    then have "pmem (h_mm t) a = pmem (h_mm s) a \<or> a = x \<or> (\<exists>c\<in>descs g. frame a = frame c)" for a
      using t(3) [of a] mem [of a] bb(2) by metis
    moreover have "mem_map (h_mm t) = (if shared (live g) (x, i) then mem_map (h_mm s) else (mem_map (h_mm s))(MAP_NR x := 0))"
      using t(4) last True nr map by simp
    ultimately show ?thesis using that [OF _ t(2)] t(1) True run live_drop [OF inv' b(1) bz' True] lv by simp
  next
    case False
    have r: "d_refcnt b ?s = d_refcnt b s - 1" using al by simp
    have "heap_inv {} ?g ?s"
      using inv' False by (auto simp: heap_inv_def bucket_ok_def simp del: set_refcnt_reads)
    moreover have "\<forall>a. pmem (h_mm ?s) a = pmem (h_mm s) a \<or> a = x \<or> (\<exists>c\<in>descs g. frame a = frame c)"
      using mem bb(2) by blast
    moreover have "mem_map (h_mm ?s) = (if shared (live g) (x, i) then mem_map (h_mm s) else (mem_map (h_mm s))(MAP_NR x := 0))"
      using last False by simp
    ultimately show ?thesis using that [of ?s ?g] False run lv by simp
  qed
qed

section \<open>The heap as a set of blocks\<close>

text \<open>The heap with exactly the blocks of \<open>L\<close> (address and size) in use.\<close>

definition heap_rep :: "(u32 \<times> nat) set \<Rightarrow> heap \<Rightarrow> bool" where
  "heap_rep L s \<longleftrightarrow> (\<exists>g. heap_inv {} g s \<and> L = apsnd osize ` live g)"

definition frames_left :: "nat \<Rightarrow> heap \<Rightarrow> bool" where
  "frames_left k s \<longleftrightarrow> k \<le> card {p. p < PAGING_PAGES \<and> mem_map (h_mm s) p = 0}"

lemma two_frames:
  assumes "frames_left (k + 2) s"
  obtains q r where "q < PAGING_PAGES" "mem_map (h_mm s) q = 0" "r < PAGING_PAGES" "mem_map (h_mm s) r = 0" "q \<noteq> r"
proof -
  obtain T where T: "T \<subseteq> {p. p < PAGING_PAGES \<and> mem_map (h_mm s) p = 0}" "card T = 2"
    using assms obtain_subset_with_card_n [of 2 "{p. p < PAGING_PAGES \<and> mem_map (h_mm s) p = 0}"]
    by (auto simp: frames_left_def)
  then obtain q r where "T = {q, r}" "q \<noteq> r" by (auto simp: card_2_iff)
  then show ?thesis using that [of q r] T(1) by auto
qed

lemma frames_left_mono:
  assumes "frames_left (k + 2) s" "\<forall>q. q \<noteq> p \<and> q \<noteq> p' \<longrightarrow> mem_map (h_mm t) q = mem_map (h_mm s) q"
  shows "frames_left k t"
proof -
  let ?A = "\<lambda>s. {p. p < PAGING_PAGES \<and> mem_map (h_mm s) p = 0}"
  have "?A s - {p, p'} \<subseteq> ?A t" using assms(2) by auto
  then have "card (?A s - {p, p'}) \<le> card (?A t)" by (intro card_mono) simp_all
  moreover have "card (?A s) - card {p, p'} \<le> card (?A s - {p, p'})" by (rule diff_card_le_card_Diff) simp
  moreover have "card {p, p'} \<le> 2" by (cases "p = p'") simp_all
  ultimately show ?thesis using assms(1) by (simp add: frames_left_def)
qed

lemma osize_inj: "osize i = osize j \<longleftrightarrow> i = j"
  by (simp add: osize_def)

lemma live_disjoint:
  assumes inv: "heap_inv Z g s" and "(x, i) \<in> live g" "(y, j) \<in> live g" "(x, i) \<noteq> (y, j)"
  shows "block_at x (osize i) \<inter> block_at y (osize j) = {}"
proof -
  obtain b c where b: "i < 9" "b \<in> set (buckets g i)" "x \<in> slots (page_no g b) i"
    and c: "j < 9" "c \<in> set (buckets g j)" "y \<in> slots (page_no g c) j"
    using assms(2,3) by (auto simp: live_def)
  show ?thesis
  proof (cases "page_of (page_no g c) = page_of (page_no g b)")
    case True
    from page_bucket [OF inv b(2,1) c(2,1) True] show ?thesis
      using blocks_disjoint [of x "page_no g b" i y] b(3) c(3) assms(4) by blast
  next
    case False
    then show ?thesis by (metis blocks_of_pages [OF b(3) c(3) b(1) c(1)])
  qed
qed

text \<open>Memory in a block in use belongs to its owner, not to the heap.\<close>

lemma live_block:
  assumes inv: "heap_inv Z g s" and x: "(x, i) \<in> live g" and a: "a \<in> block_at x (osize i)"
  shows "\<not> own_page g (h_mm s) a" "\<forall>c\<in>descs g. frame a \<noteq> frame c"
proof -
  note I = heap_invD [OF inv]
  obtain b where b: "i < 9" "b \<in> set (buckets g i)" "x \<in> slots (page_no g b) i"
    using x by (auto simp: live_def)
  have fa: "frame a = page_of (page_no g b)" by (rule block_frame [OF b(3,1) a])
  have bb: "b \<in> bucket_set g" using b by blast
  show "\<not> own_page g (h_mm s) a" using I(2) bb fa page_of_eq by (auto simp: own_page_def pages_ok_def)
  show "\<forall>c\<in>descs g. frame a \<noteq> frame c" using obj_not_desc [OF I(1,2) _ bb fa] by blast
qed

definition peek :: "heap \<Rightarrow> u32 \<Rightarrow> u32" where "peek s a = pmem (h_mm s) a"

text \<open>
  What the heap promises its users: a request is served, when pages are left, with a block of at
  least the size asked for that meets no block in use; a block can be returned; neither call
  touches the contents of the other blocks, and writing into a block is harmless; with the last
  block in use of a page the page is given up.
\<close>

locale allocator =
  fixes rep :: "(u32 \<times> nat) set \<Rightarrow> 's \<Rightarrow> bool" and room :: "nat \<Rightarrow> 's \<Rightarrow> bool"
    and alloc :: "u32 \<Rightarrow> 's \<Rightarrow> (u32 \<times> 's) kres" and release :: "u32 \<Rightarrow> 's \<Rightarrow> 's kres"
    and get :: "'s \<Rightarrow> u32 \<Rightarrow> u32" and put :: "u32 \<Rightarrow> u32 \<Rightarrow> 's \<Rightarrow> 's" and pages :: "'s \<Rightarrow> nat \<Rightarrow> u8"
  assumes alloc: "rep L s \<Longrightarrow> room (k + 2) s \<Longrightarrow> unat len \<le> 4096 \<Longrightarrow>
      \<exists>x n t. alloc len s = Inr (x, t) \<and> rep (insert (x, n) L) t \<and> x \<noteq> 0 \<and> unat len \<le> n \<and>
        (n = 16 \<or> n < 2 * unat len) \<and> (\<forall>y m. (y, m) \<in> L \<longrightarrow> block_at x n \<inter> block_at y m = {}) \<and>
        (\<forall>y m. (y, m) \<in> L \<longrightarrow> (\<forall>a\<in>block_at y m. get t a = get s a)) \<and> room k t"
    and release: "rep L s \<Longrightarrow> (x, n) \<in> L \<Longrightarrow>
      \<exists>t. release x s = Inr t \<and> rep (L - {(x, n)}) t \<and>
        (\<forall>y m. (y, m) \<in> L \<and> (y, m) \<noteq> (x, n) \<longrightarrow> (\<forall>a\<in>block_at y m. get t a = get s a)) \<and>
        pages t = (if shared L (x, n) then pages s else (pages s)(MAP_NR x := 0))"
    and rep_put: "rep L s \<Longrightarrow> (x, n) \<in> L \<Longrightarrow> a \<in> block_at x n \<Longrightarrow> rep L (put a v s)"
    and get_put: "get (put a v s) c = (if c = a then v else get s c)"
    and room_put: "room k (put a v s) = room k s"
    and pages_put: "pages (put a v s) = pages s"
begin

text \<open>What a user stores in a block is there after any other block was returned.\<close>

lemma kept_over_release:
  assumes "rep L s" "(x, n) \<in> L" "(y, m) \<in> L" "(x, n) \<noteq> (y, m)" "a \<in> block_at x n"
  shows "\<exists>t. release y (put a v s) = Inr t \<and> rep (L - {(y, m)}) t \<and> get t a = v \<and>
    pages t = (if shared L (y, m) then pages s else (pages s)(MAP_NR y := 0))"
proof -
  have "rep L (put a v s)" by (rule rep_put [OF assms(1,2,5)])
  from release [OF this assms(3)] obtain t where "release y (put a v s) = Inr t \<and> rep (L - {(y, m)}) t \<and>
    (\<forall>z k. (z, k) \<in> L \<and> (z, k) \<noteq> (y, m) \<longrightarrow> (\<forall>a'\<in>block_at z k. get t a' = get (put a v s) a')) \<and>
    pages t = (if shared L (y, m) then pages (put a v s) else (pages (put a v s))(MAP_NR y := 0))" by (rule exE)
  moreover from this have "get t a = get (put a v s) a" using assms(2,4,5) by blast
  ultimately show ?thesis using get_put [of a v s a] pages_put [of a v s] by auto
qed

lemma kept_over_alloc:
  assumes "rep L s" "room (k + 2) s" "(x, n) \<in> L" "a \<in> block_at x n" "unat len \<le> 4096"
  shows "\<exists>y m t. alloc len (put a v s) = Inr (y, t) \<and> rep (insert (y, m) L) t \<and> a \<notin> block_at y m \<and> get t a = v"
proof -
  have p: "rep L (put a v s)" "room (k + 2) (put a v s)"
    using rep_put [OF assms(1,3,4)] assms(2) by (simp_all only: room_put)
  obtain y m t where
    "alloc len (put a v s) = Inr (y, t) \<and> rep (insert (y, m) L) t \<and> y \<noteq> 0 \<and> unat len \<le> m \<and>
      (m = 16 \<or> m < 2 * unat len) \<and> (\<forall>z k. (z, k) \<in> L \<longrightarrow> block_at y m \<inter> block_at z k = {}) \<and>
      (\<forall>z k. (z, k) \<in> L \<longrightarrow> (\<forall>a'\<in>block_at z k. get t a' = get (put a v s) a')) \<and> room k t"
    using alloc [OF p assms(5)] by (elim exE) (rule that)
  moreover from this have "a \<notin> block_at y m" "get t a = get (put a v s) a" using assms(3,4) by blast+
  ultimately show ?thesis using get_put [of a v s a] by auto
qed

end

lemma malloc_rep:
  assumes "heap_rep L s" "frames_left (k + 2) s" "unat len \<le> 4096"
  shows "\<exists>x n t. malloc len s = Inr (x, t) \<and> heap_rep (insert (x, n) L) t \<and> x \<noteq> 0 \<and> unat len \<le> n \<and>
    (n = 16 \<or> n < 2 * unat len) \<and> (\<forall>y m. (y, m) \<in> L \<longrightarrow> block_at x n \<inter> block_at y m = {}) \<and>
    (\<forall>y m. (y, m) \<in> L \<longrightarrow> (\<forall>a\<in>block_at y m. peek t a = peek s a)) \<and> frames_left k t"
proof -
  obtain g where g: "heap_inv {} g s" "L = apsnd osize ` live g" using assms(1) by (auto simp: heap_rep_def)
  obtain q r where "q < PAGING_PAGES" "mem_map (h_mm s) q = 0" "r < PAGING_PAGES" "mem_map (h_mm s) r = 0" "q \<noteq> r"
    using two_frames [OF assms(2)] by blast
  from malloc_ok [OF g(1) assms(3) this] obtain x i t h where t: "malloc len s = Inr (x, t)" "heap_inv {} h t"
    "(x, i) \<notin> live g" "live h = insert (x, i) (live g)" "x \<noteq> 0" "unat len \<le> osize i" "i = 0 \<or> osize i < 2 * unat len"
    "\<forall>a. pmem (h_mm t) a = pmem (h_mm s) a \<or> own_page g (h_mm s) a"
    "\<exists>p p'. \<forall>q. q \<noteq> p \<and> q \<noteq> p' \<longrightarrow> mem_map (h_mm t) q = mem_map (h_mm s) q" by metis
  have "heap_rep (insert (x, osize i) L) t"
    unfolding heap_rep_def by (intro exI [of _ h]) (simp add: t(2,4) g(2))
  moreover have "block_at x (osize i) \<inter> block_at y m = {}" if "(y, m) \<in> L" for y m
  proof -
    obtain j where j: "(y, j) \<in> live g" "m = osize j" using \<open>(y, m) \<in> L\<close> g(2) by auto
    then have "(y, j) \<in> live h" "(x, i) \<in> live h" "(x, i) \<noteq> (y, j)" using t(3,4) by auto
    then show ?thesis using live_disjoint [OF t(2)] j(2) by blast
  qed
  moreover have "\<forall>a\<in>block_at y m. peek t a = peek s a" if "(y, m) \<in> L" for y m
    using that t(8) live_block(1) [OF g(1)] g(2) by (auto simp: peek_def)
  moreover have "osize i = 16 \<or> osize i < 2 * unat len" using t(7) by (auto simp: osize_def)
  moreover have "frames_left k t" using t(9) frames_left_mono [OF assms(2)] by blast
  ultimately show ?thesis using t(1,5,6) by blast
qed

lemma kfree_rep:
  assumes "heap_rep L s" "(x, n) \<in> L"
  shows "\<exists>t. kfree x s = Inr t \<and> heap_rep (L - {(x, n)}) t \<and>
    (\<forall>y m. (y, m) \<in> L \<and> (y, m) \<noteq> (x, n) \<longrightarrow> (\<forall>a\<in>block_at y m. peek t a = peek s a)) \<and>
    mem_map (h_mm t) = (if shared L (x, n) then mem_map (h_mm s) else (mem_map (h_mm s))(MAP_NR x := 0))"
proof -
  obtain g where g: "heap_inv {} g s" "L = apsnd osize ` live g" using assms(1) by (auto simp: heap_rep_def)
  then obtain i where i: "(x, i) \<in> live g" "n = osize i" using assms(2) by auto
  from kfree_ok [OF g(1) i(1)] obtain t h where t: "kfree x s = Inr t" "heap_inv {} h t" "live h = live g - {(x, i)}"
    "\<forall>a. pmem (h_mm t) a = pmem (h_mm s) a \<or> a = x \<or> (\<exists>c\<in>descs g. frame a = frame c)"
    "mem_map (h_mm t) = (if shared (live g) (x, i) then mem_map (h_mm s) else (mem_map (h_mm s))(MAP_NR x := 0))" by blast
  have sh: "shared L (x, n) \<longleftrightarrow> shared (live g) (x, i)"
  proof -
    have "apsnd osize y = (x, osize i) \<longleftrightarrow> y = (x, i)" for y by (cases y) (simp add: osize_inj)
    then show ?thesis by (simp add: g(2) i(2) shared_def)
  qed
  have "apsnd osize ` (live g - {(x, i)}) = L - {(x, n)}" using g(2) i by (auto simp: osize_inj)
  then have "heap_rep (L - {(x, n)}) t" unfolding heap_rep_def by (intro exI [of _ h]) (simp add: t(2,3))
  moreover have kept: "peek t a = peek s a" if y: "(y, j) \<in> live g" "(y, j) \<noteq> (x, i)" "a \<in> block_at y (osize j)" for y j a
  proof -
    have "x \<in> block_at x (osize i)" by (simp add: block_at_def osize_def)
    then have "a \<noteq> x" using live_disjoint [OF g(1) y(1) i(1) y(2)] y(3) by blast
    then show ?thesis using t(4) live_block(2) [OF g(1) y(1,3)] by (auto simp: peek_def)
  qed
  moreover have "\<forall>a\<in>block_at y m. peek t a = peek s a" if "(y, m) \<in> L \<and> (y, m) \<noteq> (x, n)" for y m
  proof -
    have "(y, m) \<in> apsnd osize ` live g" using that g(2) by simp
    then obtain j where "(y, j) \<in> live g" "m = osize j" by auto
    then show ?thesis using that kept i(2) by auto
  qed
  moreover note t(5) [folded sh]
  ultimately show ?thesis using t(1) by blast
qed

lemma heap_inv_poke:
  assumes inv: "heap_inv Z g s" and x: "(x, i) \<in> live g" "a \<in> block_at x (osize i)"
  shows "heap_inv Z g (poke a v s)"
proof -
  note I = heap_invD [OF inv]
  obtain b where b: "i < 9" "b \<in> set (buckets g i)" "x \<in> slots (page_no g b) i" "x \<notin> set (objs g b)"
    using x(1) by (auto simp: live_def)
  have rd: "d_page c (poke a v s) = d_page c s" "d_next c (poke a v s) = d_next c s"
    "d_freeptr c (poke a v s) = d_freeptr c s" "d_refcnt c (poke a v s) = d_refcnt c s" if "c \<in> descs g" for c
  proof -
    have "pmem (h_mm (poke a v s)) e = pmem (h_mm s) e" if "frame e = frame c" for e
      using live_block(2) [OF inv x] \<open>c \<in> descs g\<close> that by auto
    note reads_frame [OF I(6) [OF that] this]
    then show "d_page c (poke a v s) = d_page c s" "d_next c (poke a v s) = d_next c s"
      "d_freeptr c (poke a v s) = d_freeptr c s" "d_refcnt c (poke a v s) = d_refcnt c s" by blast+
  qed
  have "descs_ok g (poke a v s)" by (rule descs_ok_cong [OF I(1)]) (use rd in simp_all)
  moreover have "pages_ok g (h_mm (poke a v s))" by (rule pages_ok_cong [OF I(2)]) simp_all
  moreover have "bucket_ok Z g j c (poke a v s)" if c: "j < 9" "c \<in> set (buckets g j)" for j c
  proof -
    have ok: "bucket_ok Z g j c s" using I(3) c by blast
    have "a \<noteq> y" if y: "y \<in> set (objs g c)" for y
    proof
      assume ay: "a = y"
      have ys: "y \<in> slots (page_no g c) j" using ok y by (auto simp: bucket_ok_def)
      have yy: "y \<in> block_at y (osize j)" by (simp add: block_at_def osize_def)
      show False
      proof (cases "page_of (page_no g c) = page_of (page_no g b)")
        case True
        have cb: "c = b" "j = i" using page_bucket [OF inv b(2,1) c(2,1) True] by blast+
        then have "y \<noteq> x" using y b(4) by blast
        then show False using blocks_disjoint [of y "page_no g b" i x] ys yy b(3) x(2) ay cb by blast
      next
        case False
        then show False using blocks_of_pages [OF ys b(3) c(1) b(1)] yy x(2) ay by blast
      qed
    qed
    then have "path (pmem (h_mm (poke a v s))) e (objs g c) = path (pmem (h_mm s)) e (objs g c)" for e
      by (intro path_cong) auto
    moreover have "c \<in> descs g" using c by blast
    ultimately show ?thesis using ok rd by (simp add: bucket_ok_def)
  qed
  ultimately show ?thesis by (simp add: heap_inv_def)
qed

interpretation kheap: allocator heap_rep frames_left malloc kfree peek poke "\<lambda>s. mem_map (h_mm s)"
proof unfold_locales
  fix L s x n a v assume "heap_rep L s" "(x, n) \<in> L" "a \<in> block_at x n"
  then show "heap_rep L (poke a v s)" using heap_inv_poke by (fastforce simp: heap_rep_def)
qed (use malloc_rep kfree_rep in \<open>simp_all add: peek_def frames_left_def\<close>)

text \<open>
  C5: The kernel heap refines a set of blocks: with two page frames free a request of at
  most 4096 bytes is served with a block of at least that size (less than twice it, or 16)
  that meets no block in use, and the contents of the blocks in use stay.
\<close>

theorem malloc_fresh_block:
  assumes "heap_rep L s" "frames_left (k + 2) s" "unat len \<le> 4096"
  shows "\<exists>x n t. malloc len s = Inr (x, t) \<and> heap_rep (insert (x, n) L) t \<and> x \<noteq> 0 \<and> unat len \<le> n \<and>
    (n = 16 \<or> n < 2 * unat len) \<and> (\<forall>y m. (y, m) \<in> L \<longrightarrow> block_at x n \<inter> block_at y m = {}) \<and>
    (\<forall>y m. (y, m) \<in> L \<longrightarrow> (\<forall>a\<in>block_at y m. peek t a = peek s a)) \<and> frames_left k t"
  by (rule kheap.alloc [OF assms])

text \<open>
  C30: Returning a block in use succeeds and removes just this block from the set of blocks
  in use; its page frame is given back (use count 0) exactly when no other block in use lies
  in the page, and no other use count changes; what a user wrote into another block is still
  there.
\<close>

theorem kfree_keeps_others:
  assumes "heap_rep L s" "(x, n) \<in> L" "(y, m) \<in> L" "(x, n) \<noteq> (y, m)" "a \<in> block_at x n"
  shows "\<exists>t. kfree y (poke a v s) = Inr t \<and> heap_rep (L - {(y, m)}) t \<and> peek t a = v \<and>
    mem_map (h_mm t) = (if shared L (y, m) then mem_map (h_mm s) else (mem_map (h_mm s))(MAP_NR y := 0))"
  by (rule kheap.kept_over_release [OF assms])

section \<open>An empty heap\<close>

definition ex_heap :: heap where
  "ex_heap = \<lparr>h_mm = \<lparr>pmem = (\<lambda>_. 7), mem_map = (\<lambda>p. if p < 100 then 100 else 0), HIGH_MEMORY = 0x1000000\<rparr>,
     chain = (\<lambda>_. 0), free_bucket_desc = 0\<rparr>"

lemma ex_heap_rep: "heap_rep {} ex_heap"
proof -
  let ?g = "\<lparr>buckets = (\<lambda>_. []), spares = [], desc_pages = {}, page_no = (\<lambda>_. 0), objs = (\<lambda>_. [])\<rparr>"
  have "page_of p < 0x1000000" if "p < PAGING_PAGES" for p
    using that by (simp add: word_less_nat_alt unat_page_of PAGING_PAGES_def)
  then have "heap_inv {} ?g ex_heap"
    by (auto simp: heap_inv_def descs_ok_def pages_ok_def ex_heap_def descs_def bucket_set_def)
  moreover have "live ?g = {}" by (simp add: live_def)
  ultimately show ?thesis by (auto simp: heap_rep_def)
qed

lemma ex_heap_frames: "frames_left 4 ex_heap"
proof -
  have "{100..<104} \<subseteq> {p. p < PAGING_PAGES \<and> mem_map (h_mm ex_heap) p = 0}"
    by (auto simp: ex_heap_def PAGING_PAGES_def)
  then have "card {100..<104 :: nat} \<le> card {p. p < PAGING_PAGES \<and> mem_map (h_mm ex_heap) p = 0}"
    by (rule card_mono [rotated]) simp
  then show ?thesis by (simp add: frames_left_def)
qed

theorem malloc_fresh_block_witness:
  "\<exists>x n t. malloc 100 ex_heap = Inr (x, t) \<and> heap_rep {(x, n)} t \<and> 100 \<le> n \<and> n < 200"
  using malloc_fresh_block [OF ex_heap_rep, of 2 100] ex_heap_frames by auto

theorem kfree_keeps_others_witness:
  "\<exists>x y n m s u t. malloc 100 ex_heap = Inr (x, s) \<and> malloc 30 s = Inr (y, u) \<and> x \<noteq> y \<and>
     kfree y (poke x 5 u) = Inr t \<and> heap_rep {(x, n)} t \<and> peek t x = 5"
proof -
  have "frames_left (2 + 2) ex_heap" using ex_heap_frames by simp
  from kheap.alloc [OF ex_heap_rep this, of 100] obtain x n s where
    s: "malloc 100 ex_heap = Inr (x, s)" "heap_rep {(x, n)} s" "100 \<le> n" "frames_left 2 s" by auto
  have "frames_left (0 + 2) s" using s(4) by (simp add: numeral_2_eq_2)
  from kheap.alloc [OF s(2) this, of 30] obtain y m u where
    u: "malloc 30 s = Inr (y, u)" "heap_rep {(y, m), (x, n)} u" "block_at y m \<inter> block_at x n = {}" "30 \<le> m" by auto
  have "x \<in> block_at x n" "y \<in> block_at y m" using s(3) u(4) by (simp_all add: block_at_def)
  then have "x \<noteq> y" using u(3) by blast
  from kfree_keeps_others [OF u(2), of x n y m x 5] show ?thesis
    using \<open>x \<noteq> y\<close> \<open>x \<in> block_at x n\<close> s(1) u(1) by (auto simp: insert_Diff_if)
qed

end
