(* ===== verification/Vsprintf_Lemmas.thy ===== *)
theory Vsprintf_Lemmas imports Vsprintf begin

text \<open>
  Formatted numbers: reading the digits \<open>number\<close> writes gives the number back, the text has the
  field width asked for, and \<open>vsprintf\<close> returns on every format.
\<close>

section \<open>Digits\<close>

lemma num_digits_less: "1 < unat base \<Longrightarrow> d \<in> set (num_digits base n) \<Longrightarrow> d < unat base"
proof (induction base n rule: num_digits.induct)
  case (1 base n)
  show ?case
  proof (cases "n = 0 \<or> base < 2")
    case True
    then have "num_digits base n = []" by (subst num_digits.simps) simp
    then show ?thesis using 1 by simp
  next
    case False
    then have "num_digits base n = unat (n mod base) # num_digits base (n div base)"
      by (subst num_digits.simps) simp
    then show ?thesis using 1 False by (auto simp: unat_mod)
  qed
qed

lemma num_digits_value: "foldr (\<lambda>d i. i * 10 + of_nat d) (num_digits 10 n) 0 = (n :: u32)"
proof (induction "10 :: u32" n rule: num_digits.induct)
  case (1 n)
  show ?case
  proof (cases "n = 0")
    case True
    then show ?thesis by (subst num_digits.simps) simp
  next
    case False
    then have "num_digits 10 n = unat (n mod 10) # num_digits 10 (n div 10)"
      by (subst num_digits.simps) simp
    then show ?thesis using 1 False by (simp add: div_mult_mod_eq)
  qed
qed

lemma digit_10: "d < 10 \<Longrightarrow> is_digit (digit small d) \<and> ucast (digit small d) = (of_nat d + 48 :: u32)"
proof -
  assume "d < 10"
  then have "d = 0 \<or> d = 1 \<or> d = 2 \<or> d = 3 \<or> d = 4 \<or> d = 5 \<or> d = 6 \<or> d = 7 \<or> d = 8 \<or> d = 9" by arith
  then show ?thesis by (elim disjE) (simp_all add: is_digit_def digit_def)
qed

lemma skip_atoi_digits:
  "\<forall>d\<in>set ds. d < 10 \<Longrightarrow> skip_atoi (map (digit small) ds) i = (fold (\<lambda>d i. i * 10 + of_nat d) ds i, [])"
  using digit_10 by (induction ds arbitrary: i) (simp_all add: algebra_simps)

lemma skip_atoi_zeros: "skip_atoi (replicate k 48 @ s) 0 = skip_atoi s 0"
  by (induction k) (simp_all add: is_digit_def)

text \<open>The digits of a number as \<open>number\<close> writes them, after any zeros.\<close>

definition num_text :: "bool \<Rightarrow> u32 \<Rightarrow> u8 list" where
  "num_text small n = rev (if n = 0 then [48] else map (digit small) (num_digits 10 n))"

lemma skip_atoi_num_text: "skip_atoi (replicate k 48 @ num_text small n) 0 = (n, [])"
proof (cases "n = 0")
  case True
  then show ?thesis unfolding skip_atoi_zeros by (simp add: num_text_def is_digit_def)
next
  case False
  have "\<forall>d\<in>set (rev (num_digits 10 n)). d < 10" using num_digits_less [of 10] by simp
  from skip_atoi_digits [OF this] False show ?thesis
    unfolding skip_atoi_zeros using num_digits_value [of n]
    by (simp add: num_text_def rev_map foldr_conv_fold)
qed

section \<open>The layout of a number\<close>

definition num_body :: "u32 \<Rightarrow> u32 \<Rightarrow> int \<Rightarrow> u32 \<Rightarrow> u8 list" where
  "num_body n base p f =
     (let tmp = num_tmp base f (snd (sign_split n f)) in replicate (nat (p - int (length tmp))) 48 @ rev tmp)"

definition num_layout :: "int \<Rightarrow> u32 \<Rightarrow> u8 list \<Rightarrow> u8 list \<Rightarrow> u8 list" where
  "num_layout w f s body =
     (let k = nat (w - int (length s) - int (length body))
      in if has f LEFT then s @ body @ replicate k 32
         else if has f ZEROPAD then s @ replicate k 48 @ body else replicate k 32 @ s @ body)"

lemma flag_bits: "ZEROPAD = push_bit 0 1" "SIGN = push_bit 1 1" "PLUS = push_bit 2 1" "SPACE = push_bit 3 1"
  "LEFT = push_bit 4 1" "SPECIAL = push_bit 5 1" "SMALL = push_bit 6 1"
  by (simp_all add: ZEROPAD_def SIGN_def PLUS_def SPACE_def LEFT_def SPECIAL_def SMALL_def)

lemma has_bit: "k < 32 \<Longrightarrow> has t (push_bit k 1) = bit t k"
  by (simp add: has_def bit_iff_and_push_bit_not_eq_0)

lemma has_bits: "has t ZEROPAD = bit t 0" "has t SIGN = bit t 1" "has t PLUS = bit t 2" "has t SPACE = bit t 3"
  "has t LEFT = bit t 4" "has t SPECIAL = bit t 5" "has t SMALL = bit t 6"
  unfolding flag_bits by (simp_all only: has_bit)

lemma has_clear: "has (f AND NOT ZEROPAD) SIGN = has f SIGN" "has (f AND NOT ZEROPAD) PLUS = has f PLUS"
  "has (f AND NOT ZEROPAD) SPACE = has f SPACE" "has (f AND NOT ZEROPAD) LEFT = has f LEFT"
  "has (f AND NOT ZEROPAD) SPECIAL = has f SPECIAL" "has (f AND NOT ZEROPAD) SMALL = has f SMALL"
  unfolding has_bits ZEROPAD_def by (simp_all add: bit_simps)

lemma has_cleared: "\<not> has (f AND NOT ZEROPAD) ZEROPAD"
  unfolding has_bits by (simp add: ZEROPAD_def bit_simps)

lemma clear_same: "sign_split n (f AND NOT ZEROPAD) = sign_split n f" "prefix_room base (f AND NOT ZEROPAD) = prefix_room base f"
  "num_prefix base (f AND NOT ZEROPAD) = num_prefix base f" "num_tmp base (f AND NOT ZEROPAD) = num_tmp base f"
  by (simp_all add: fun_eq_iff sign_split_def prefix_room_def num_prefix_def num_tmp_def has_clear)

lemma sign_one: "sign_split n f = (s, m) \<Longrightarrow> (if s \<noteq> [] then w - 1 else w) = w - int (length s)"
  by (auto simp: sign_split_def split: if_splits)

lemma prefix_length: "prefix_room base f = int (length (num_prefix base f))"
  by (simp add: prefix_room_def num_prefix_def)

lemma neither_flag: "t AND (ZEROPAD + LEFT) = 0 \<longleftrightarrow> \<not> has t ZEROPAD \<and> \<not> has t LEFT"
proof -
  have "ZEROPAD + LEFT = ZEROPAD OR LEFT" by (simp add: ZEROPAD_def LEFT_def)
  moreover have "t AND (a OR b) = 0 \<longleftrightarrow> t AND a = 0 \<and> t AND b = 0" for a b :: u32
    by (auto simp: bit_eq_iff bit_simps)
  ultimately show ?thesis by (simp only: has_def simp_thms)
qed

lemma number_layout:
  assumes "\<not> base <s 2" "\<not> 36 <s base"
  shows "number n base w p f = Some (num_layout w f (fst (sign_split n f) @ num_prefix base f) (num_body n base p f))"
proof -
  obtain s m where s: "sign_split n f = (s, m)" by (cases "sign_split n f")
  let ?t = "num_tmp base f m"
  let ?p = "max p (int (length ?t))"
  have mx: "(if p < int (length ?t) then int (length ?t) else p) = ?p" by (simp add: max_def)
  have len: "int (length (num_body n base p f)) = ?p" by (simp add: num_body_def s Let_def)
  have nb: "num_body n base p f = replicate (nat (?p - int (length ?t))) 48 @ rev ?t"
    by (simp add: num_body_def s Let_def max_def)
  have k: "nat (w - int (length (s @ num_prefix base f)) - int (length (num_body n base p f))) =
      nat (w - int (length s) - int (length (num_prefix base f)) - ?p)"
    unfolding len by (simp add: algebra_simps)
  show ?thesis
  proof (cases "has f LEFT")
    case True
    then show ?thesis
      unfolding num_layout_def Let_def k
      using assms by (simp add: number_def clear_same has_clear has_cleared neither_flag s sign_one [OF s] prefix_length
          pad_def mx Let_def nb diff_diff_eq add.assoc)
  next
    case False
    then show ?thesis
      unfolding num_layout_def Let_def k
      using assms by (simp add: number_def clear_same has_clear has_cleared neither_flag s sign_one [OF s] prefix_length
          pad_def mx Let_def nb diff_diff_eq add.assoc)
  qed
qed

text \<open>The text has the width asked for or, when this is too small, the width it needs.\<close>

theorem number_width:
  assumes "number n base w p f = Some out" "number n base 0 p f = Some core"
  shows "int (length out) = max w (int (length core))"
proof -
  have b: "\<not> base <s 2" "\<not> 36 <s base" using assms(1) by (auto simp: number_def Let_def split: if_splits)
  have "int (length (num_layout w f s body)) = max w (int (length s) + int (length body))" for w s body
    by (simp add: num_layout_def Let_def max_def)
  then show ?thesis using assms unfolding number_layout [OF b] by auto
qed

lemma decimal: "\<not> (10 :: u32) <s 2" "\<not> (36 :: u32) <s 10" "num_prefix 10 f = []"
  by (simp_all add: word_sless_alt num_prefix_def)

lemma body_reads_back: "skip_atoi (replicate k 48 @ num_body n 10 p f) 0 = (snd (sign_split n f), [])"
proof -
  let ?m = "snd (sign_split n f)"
  have "rev (num_tmp 10 f ?m) = num_text (has f SMALL) ?m" by (simp add: num_tmp_def num_text_def)
  then have "replicate k 48 @ num_body n 10 p f =
      replicate (k + nat (p - int (length (num_tmp 10 f ?m)))) 48 @ num_text (has f SMALL) ?m"
    by (simp add: num_body_def Let_def replicate_add)
  then show ?thesis by (simp only: skip_atoi_num_text)
qed

text \<open>A zero padded decimal number is read back, whatever its width and precision.\<close>

theorem number_reads_back:
  "\<exists>ds es. number n 10 w p ZEROPAD = Some ds \<and> skip_atoi ds 0 = (n, []) \<and>
     number n 10 w p (ZEROPAD OR SIGN) = Some (if n <s 0 then 45 # es else es) \<and>
     skip_atoi es 0 = (if n <s 0 then - n else n, [])"
proof -
  have f: "has ZEROPAD ZEROPAD" "\<not> has ZEROPAD LEFT" "sign_split n ZEROPAD = ([], n)"
    "has (ZEROPAD OR SIGN) ZEROPAD" "\<not> has (ZEROPAD OR SIGN) LEFT"
    "sign_split n (ZEROPAD OR SIGN) = (if n <s 0 then ([45], - n) else ([], n))"
    by (simp_all add: sign_split_def has_def ZEROPAD_def SIGN_def LEFT_def PLUS_def SPACE_def)
  show ?thesis
    using body_reads_back [of _ n p ZEROPAD] body_reads_back [of _ n p "ZEROPAD OR SIGN"]
    unfolding number_layout [OF decimal(1,2)] decimal(3) num_layout_def
    by (simp add: f Let_def)
qed

section \<open>vsprintf returns\<close>

lemma skip_atoi_shorter: "length (snd (skip_atoi s i)) \<le> length s"
  by (induction s arbitrary: i) (auto intro: le_SucI)

lemma scan_flags_shorter: "length (snd (scan_flags s f)) \<le> length s"
  by (induction s arbitrary: f) (auto intro: le_SucI)

lemma va_arg_not_deep: "va_arg args \<noteq> Inl Deep"
  by (simp add: va_arg_def split: list.split)

lemma scan_width_shorter:
  "scan_width fmt f args \<noteq> Inl Deep" "scan_width fmt f args = Inr (w, g, fmt', args') \<Longrightarrow> length fmt' \<le> length fmt"
  using skip_atoi_shorter [of fmt 0] va_arg_not_deep [of args]
  by (auto simp: scan_width_def bindk_eq_Inl split_def Let_def split: if_splits)

lemma scan_precision_shorter:
  "scan_precision fmt args \<noteq> Inl Deep" "scan_precision fmt args = Inr (p, fmt', args') \<Longrightarrow> length fmt' \<le> length fmt"
  using skip_atoi_shorter [of "tl fmt" 0] va_arg_not_deep [of args]
  by (auto simp: scan_precision_def bindk_eq_Inl split_def Let_def split: if_splits)

lemma convert_shorter:
  "convert mem fmt f w p args n \<noteq> Inl Deep"
  "convert mem fmt f w p args n = Inr (out, st, args', fmt') \<Longrightarrow> length fmt' \<le> length fmt"
  using va_arg_not_deep [of args]
  by (auto simp: convert_def bindk_eq_Inl split_def Let_def as_kres_def split: if_splits option.splits)

lemma skip_qualifier_shorter: "length (skip_qualifier fmt) \<le> length fmt"
  by (simp add: skip_qualifier_def)

theorem vsprintf_returns: "vsprintf mem fmt args \<noteq> Inl Deep"
proof -
  have "length fmt \<le> k \<Longrightarrow> vsprintf_loop k mem fmt args out st \<noteq> Inl Deep" for k fmt args out st
  proof (induction k arbitrary: fmt args out st)
    case (Suc k)
    show ?case
    proof (cases fmt)
      case (Cons c rest)
      note s = scan_flags_shorter [of rest 0]
      show ?thesis
      proof (cases "c = 37")
        case True
        obtain f r where r: "scan_flags rest 0 = (f, r)" by (cases "scan_flags rest 0")
        show ?thesis
        proof
          assume "vsprintf_loop (Suc k) mem fmt args out st = Inl Deep"
          then have "bindk (scan_width r f args) (\<lambda>(w, f, fmt, args). bindk (scan_precision fmt args) (\<lambda>(p, fmt, args).
              bindk (convert mem (skip_qualifier fmt) f w p args (length out)) (\<lambda>(text, s, args, fmt).
              vsprintf_loop k mem fmt args (out @ text) (st @ s)))) = Inl Deep"
            using Cons True r by simp
          then obtain w f' r1 a1 p r2 a2 tx s' a3 r3 where
            d: "scan_width r f args = Inr (w, f', r1, a1)" "scan_precision r1 a1 = Inr (p, r2, a2)"
            "convert mem (skip_qualifier r2) f' w p a2 (length out) = Inr (tx, s', a3, r3)"
            "vsprintf_loop k mem r3 a3 (out @ tx) (st @ s') = Inl Deep"
            using scan_width_shorter(1) scan_precision_shorter(1) convert_shorter(1)
            unfolding bindk_eq_Inl by (clarsimp simp: bindk_eq_Inl)
          have "length r3 \<le> k"
            using scan_width_shorter(2) [OF d(1)] scan_precision_shorter(2) [OF d(2)] convert_shorter(2) [OF d(3)]
              skip_qualifier_shorter [of r2] s r Cons Suc.prems by simp
          from Suc.IH [OF this] d(4) show False by blast
        qed
      qed (use Cons Suc in simp)
    qed simp
  qed simp
  then show ?thesis by (simp add: vsprintf_def)
qed

text \<open>A width given as \<open>*\<close> takes its argument and then stops at the star itself.\<close>

lemma vsprintf_star: "vsprintf mem [37, 42, 100] [w, n] = Inr ([37, 42, 100], [])"
  by (simp add: vsprintf_def scan_width_def scan_precision_def skip_qualifier_def convert_def peek_char_def
      is_digit_def va_arg_def bindk_def Let_def)

theorem number_width_witness: "length (the (number 7 10 20 3 SIGN)) = 20"
proof -
  obtain out core where "number 7 10 20 3 SIGN = Some out" "number 7 10 0 3 SIGN = Some core"
    using number_layout [OF decimal(1,2)] by blast
  from number_width [OF this] this show ?thesis
    by (auto simp: number_layout [OF decimal(1,2)] decimal(3) num_layout_def num_body_def num_tmp_def sign_split_def
        has_def SIGN_def SMALL_def PLUS_def SPACE_def LEFT_def ZEROPAD_def Let_def word_sless_alt num_digits.simps)
qed
end
