(* ===== verification/Line_Lemmas.thy ===== *)
theory Line_Lemmas imports Console_Lemmas begin

text \<open>
  The line discipline with the outputs the kernel gives it: terminal 0 writes to the console, the others
  to a serial line. The console may answer a request of its own by calling the line discipline again, but
  only inside an escape sequence; between sequences, with no ESC to come, it shows what is echoed and
  returns.
\<close>

section \<open>The console between escape sequences\<close>

lemma state_scroll [simp]: "con_state (scroll_region_up c) = con_state c"
  by (simp add: scroll_region_up_def Let_def)

lemma state_cursor [simp]: "cons (set_cursor s) = cons s" "cons (set_origin s) = cons s" "cons (outb v p s) = cons s"
  by (simp_all add: set_cursor_def set_origin_def out_address_def outb_def Let_def)

lemma state_scrup [simp]: "con_state (cons (scrup s)) = con_state (cons s)"
  by (simp add: scrup_def Let_def)

lemma state_lf [simp]: "con_state (cons (lf s)) = con_state (cons s)"
  by (simp add: lf_def Let_def)

lemma state_wrap [simp]: "con_state (cons (wrap_line s)) = con_state (cons s)"
  by (simp add: wrap_line_def)

lemma state_tab [simp]: "con_state (cons (con_tab s)) = con_state (cons s)"
  by (simp add: con_tab_def Let_def)

lemma state_plain: "ch \<noteq> 27 \<Longrightarrow> con_state (cons (con_plain ch s)) = con_state (cons s)"
  by (simp add: con_plain_def show_char_def cr_def con_del_def sysbeep_def)

definition console_calm :: "kst \<Rightarrow> bool" where
  "console_calm s \<longleftrightarrow> con_state (cons s) = 0 \<and> queue_ok (write_q (tty_table s 0)) \<and>
     27 \<notin> set (queue_list (write_q (tty_table s 0)))"

text \<open>A full queue that takes one more character is empty.\<close>

lemma putch_contents:
  assumes "queue_ok q"
  shows "queue_ok (putch c q)" "set (queue_list (putch c q)) \<subseteq> insert c (set (queue_list q))"
proof -
  let ?h = "unat (q_head q)" and ?t = "unat (q_tail q)"
  have lt: "?h < 1024" "?t < 1024" using assms by (simp_all add: queue_okD)
  show "queue_ok (putch c q)" using assms by (simp add: queue_ok_def putch_def qidx_less)
  show "set (queue_list (putch c q)) \<subseteq> insert c (set (queue_list q))"
  proof (cases "length (queue_list q) < 1023")
    case True
    then have "queue_list (putch c q) = queue_list q @ [c]"
      using tq.puts_contents [of q "[c]"] assms tq.length_contents [of q] by (simp add: tq_contents)
    then show ?thesis by simp
  next
    case False
    then have u: "ring_used 1024 ?h ?t = 1023" using queue_list_length [OF assms] unfolding queue_list_ring by linarith
    have "unat (q_head (putch c q)) = (?h + 1) mod 1024" by (simp add: putch_def unat_qidx_add)
    moreover have "(?h + 1) mod 1024 = ?t" using u lt by (auto simp: ring_used_if mod_if split: if_splits)
    ultimately have "queue_list (putch c q) = []"
      using lt by (simp add: queue_list_def ring_list_def ring_used_if putch_def)
    then show ?thesis by simp
  qed
qed

lemma calm_put: "console_calm s \<Longrightarrow> c \<noteq> 27 \<Longrightarrow> console_calm (put_write 0 c s)"
  using putch_contents [of "write_q (tty_table s 0)" c] by (auto simp: console_calm_def put_write_def upd_tty_def)

text \<open>Between sequences the loop of \<open>con_write\<close> shows every character and empties the queue.\<close>

lemma con_loop_calm:
  "console_calm s \<Longrightarrow> queue_list (write_q (tty_table s 0)) = cs \<Longrightarrow>
    \<exists>t. con_loop (length cs) ctc s = Inr t \<and> console_calm t \<and> same_line 0 s t"
proof (induction cs arbitrary: s)
  case (Cons c cs)
  let ?u = "upd_tty 0 (\<lambda>t. t\<lparr>write_q := snd (getch (write_q (tty_table s 0)))\<rparr>) s"
  have q: "queue_ok (write_q (tty_table s 0))" "con_state (cons s) = 0" "c \<noteq> 27" "27 \<notin> set cs"
    using Cons.prems by (auto simp: console_calm_def)
  note T = take_char(1) [OF q(1) Cons.prems(2), where ctc = ctc and n = "length cs"] take_char(2-4) [OF q(1) Cons.prems(2)]
  have ch: "con_char ctc c ?u = Inr (con_plain c ?u)" using q(2) T(4) by (simp add: con_char_def Let_def)
  have calm: "console_calm (con_plain c ?u)" using q T by (simp add: console_calm_def state_plain)
  have "same_line 0 s ?u" by (simp add: same_line_def upd_tty_def)
  then have "same_line 0 s (con_plain c ?u)" by (simp add: same_line_def)
  moreover obtain t where "con_loop (length cs) ctc (con_plain c ?u) = Inr t" "console_calm t" "same_line 0 (con_plain c ?u) t"
    using Cons.IH [OF calm] T(3) by auto
  ultimately show ?case using T(1) ch by (auto intro: same_line_trans)
qed simp

interpretation console: line_output "con_write (Suc d)" 0 console_calm "{27}"
proof unfold_locales
  fix s assume s: "console_calm s"
  then obtain t where t: "con_loop (length (queue_list (write_q (tty_table s 0)))) (copy_to_cooked (con_write d) 0) s = Inr t"
    "console_calm t" "same_line 0 s t" using con_loop_calm by blast
  have "con_write (Suc d) s = Inr (set_cursor t)"
    using t(1) s by (simp add: con_write_body_def unat_q_chars console_calm_def)
  then show "\<exists>u. write_tty (con_write (Suc d)) 0 s = Inr u \<and> same_line 0 s u \<and> console_calm u"
    using t(2,3) by (simp add: write_tty_def console_calm_def same_line_def)
qed (simp_all add: calm_put, simp add: console_calm_def)

section \<open>What a process reads\<close>

text \<open>
  C4: copy_to_cooked is a line editor on the console, whose echo goes through con_write, and
  on the serial lines: it returns, having taken characters from the read queue until this is
  empty or the secondary queue is full, and the secondary queue is what the specification
  keystroke makes of the line that was there, one character after the other. keystroke reads
  the bits of c_iflag and c_lflag and the entries of c_cc by number: it maps CR, NL and
  capitals, erases the last character or the line back to its start, drops start, stop,
  interrupt and quit and adds everything else. Assumed: characters are 7 bit when IUCLC is
  set (tolower has no others); on terminal 0 the console is not inside an escape sequence,
  no ESC waits in its write queue and the byte 219, which ECHOCTL echoes as ESC, is not
  typed; the console is then left so again.
\<close>

theorem copy_to_cooked_edits:
  assumes "queue_ok (read_q (tty_table s n))" "queue_ok (secondary (tty_table s n))"
    and "\<forall>c\<in>set (queue_list (read_q (tty_table s n))). typable (tt_termios (tty_table s n)) c"
    and "n = 0 \<longrightarrow> console_calm s \<and> 219 \<notin> set (queue_list (read_q (tty_table s 0)))"
  shows "\<exists>u j. copy_to_cooked (con_write (Suc d)) n s = Inr u \<and>
     queue_list (read_q (tty_table u n)) = drop j (queue_list (read_q (tty_table s n))) \<and>
     queue_list (secondary (tty_table u n)) =
       foldl (keystroke (tt_termios (tty_table s n))) (queue_list (secondary (tty_table s n)))
         (take j (queue_list (read_q (tty_table s n)))) \<and>
     queue_ok (read_q (tty_table u n)) \<and> queue_ok (secondary (tty_table u n)) \<and>
     (q_empty (read_q (tty_table u n)) \<or> q_full (secondary (tty_table u n))) \<and>
     (n = 0 \<longrightarrow> console_calm u)"
proof (cases n)
  case 0
  have "\<forall>c\<in>set (queue_list (read_q (tty_table s 0))). typable (tt_termios (tty_table s 0)) c \<and> console.harmless c"
    using assms(3,4) 0 by (auto simp: console.harmless_def)
  then show ?thesis using console.copy_edits [of s d] assms 0 by (metis (no_types, lifting))
next
  case (Suc k)
  have "\<forall>c\<in>set (queue_list (read_q (tty_table s (Suc k)))). typable (tt_termios (tty_table s (Suc k))) c \<and> serial.harmless c"
    using assms(3) Suc by (auto simp: serial.harmless_def)
  then show ?thesis using serial.copy_edits [of s k "con_write (Suc d)"] assms Suc by simp
qed

text \<open>The console of the example, in canonical mode with echo: \<open>a\<close>, \<open>b\<close>, erase, \<open>c\<close>, new line.\<close>

definition ex_console_typed :: kst where
  "ex_console_typed = upd_tty 0 (\<lambda>t. t\<lparr>tt_termios := (tt_termios t)\<lparr>c_lflag := 10, c_cc := (\<lambda>_. 0)(VERASE := 127, VKILL := 21)\<rparr>,
     read_q := fold putch [97, 98, 127, 99, 10] (read_q t)\<rparr>) ex_kst"

lemma ex_console_typed_queues:
  "queue_list (read_q (tty_table ex_console_typed 0)) = [97, 98, 127, 99, 10]"
  "queue_list (secondary (tty_table ex_console_typed 0)) = []"
  "queue_ok (read_q (tty_table ex_console_typed 0))" "queue_ok (secondary (tty_table ex_console_typed 0))"
  "console_calm ex_console_typed"
  by (simp_all add: ex_console_typed_def upd_tty_def ex_tty_def ex_queue_def ex_console_def console_calm_def putch_def
      qidx_def queue_list_def queue_ok_def ring_list_def ring_used_def upt_rec)

text \<open>Fewer than 1023 characters typed on an empty line are all taken.\<close>

lemma length_keystroke: "length (keystroke m xs c) \<le> Suc (length xs)"
  using length_dropWhile_le [of _ "rev xs"] by (auto simp: keystroke_def line_edit_def le_SucI split: option.splits)

lemma length_keystrokes: "length (foldl (keystroke m) xs cs) \<le> length xs + length cs"
proof (induction cs arbitrary: xs)
  case (Cons c cs)
  show ?case using Cons.IH [of "keystroke m xs c"] length_keystroke [of m xs c] by simp
qed simp

lemma all_typed:
  assumes "queue_ok p" "queue_ok q" "q_empty p \<or> q_full q" "queue_list p = drop j cs"
    "queue_list q = foldl (keystroke m) [] (take j cs)" "length cs < 1023"
  shows "queue_list q = foldl (keystroke m) [] cs"
proof -
  have "length (queue_list q) < 1023"
    using length_keystrokes [of m "[]" "take j cs"] assms(5,6) by simp
  then have "length cs \<le> j" using assms(1-4) by (simp add: q_empty_iff q_full_iff)
  then show ?thesis using assms(5) by simp
qed

lemma typed_line:
  assumes "tt_termios t = (tt_termios ex_tty)\<lparr>c_lflag := k, c_cc := (\<lambda>_. 0)(VERASE := 127, VKILL := 21)\<rparr>" "k = 2 \<or> k = 10"
  shows "foldl (keystroke (tt_termios t)) [] [97, 98, 127, 99, 10] = [97, 99, 10]"
  using assms(2) by (auto simp: assms(1) keystroke_def mapped_def line_edit_def control_def ends_line_def ex_tty_def VERASE_def VKILL_def)

theorem copy_to_cooked_edits_witness:
  "(\<exists>u. copy_to_cooked (con_write 1) 0 ex_console_typed = Inr u \<and> queue_list (secondary (tty_table u 0)) = [97, 99, 10]) \<and>
   (\<exists>u. copy_to_cooked (con_write 1) 2 ex_typed = Inr u \<and> queue_list (secondary (tty_table u 2)) = [97, 99, 10])"
proof -
  let ?cs = "[97, 98, 127, 99, 10]"
  have m: "tt_termios (tty_table ex_console_typed 0) = (tt_termios ex_tty)\<lparr>c_lflag := 10, c_cc := (\<lambda>_. 0)(VERASE := 127, VKILL := 21)\<rparr>"
    "tt_termios (tty_table ex_typed 2) = (tt_termios ex_tty)\<lparr>c_lflag := 2, c_cc := (\<lambda>_. 0)(VERASE := 127, VKILL := 21)\<rparr>"
    by (simp_all add: ex_console_typed_def ex_typed_def upd_tty_def)
  note line = typed_line [OF m(1)] typed_line [OF m(2)]
  have t: "\<forall>c\<in>set ?cs. typable M c" for M by (simp add: typable_def)
  obtain u j where "copy_to_cooked (con_write (Suc 0)) 0 ex_console_typed = Inr u" "queue_list (read_q (tty_table u 0)) = drop j ?cs"
    "queue_list (secondary (tty_table u 0)) = foldl (keystroke (tt_termios (tty_table ex_console_typed 0))) [] (take j ?cs)"
    "queue_ok (read_q (tty_table u 0))" "queue_ok (secondary (tty_table u 0))"
    "q_empty (read_q (tty_table u 0)) \<or> q_full (secondary (tty_table u 0))"
    using copy_to_cooked_edits [of ex_console_typed 0 0] t unfolding ex_console_typed_queues by (auto simp: ex_console_typed_queues)
  moreover obtain v i where "copy_to_cooked (con_write (Suc 0)) 2 ex_typed = Inr v" "queue_list (read_q (tty_table v 2)) = drop i ?cs"
    "queue_list (secondary (tty_table v 2)) = foldl (keystroke (tt_termios (tty_table ex_typed 2))) [] (take i ?cs)"
    "queue_ok (read_q (tty_table v 2))" "queue_ok (secondary (tty_table v 2))"
    "q_empty (read_q (tty_table v 2)) \<or> q_full (secondary (tty_table v 2))"
    using copy_to_cooked_edits [of ex_typed 2 0] t unfolding ex_typed_queues by (auto simp: ex_typed_queues)
  ultimately show ?thesis
    using all_typed [of "read_q (tty_table u 0)" "secondary (tty_table u 0)" j ?cs "tt_termios (tty_table ex_console_typed 0)"] line
      all_typed [of "read_q (tty_table v 2)" "secondary (tty_table v 2)" i ?cs "tt_termios (tty_table ex_typed 2)"]
    by simp
qed

end
