(* ===== verification/User_Bytes.thy ===== *)
theory User_Bytes imports Usermem begin

text \<open>
  Runs of bytes in user memory, what the copying loops of the read and write calls do to them.
\<close>

definition user_bytes :: "kst \<Rightarrow> u32 \<Rightarrow> nat \<Rightarrow> u8 list" where
  "user_bytes s buf n = List.map (\<lambda>k. umem s (buf + of_nat k)) [0..<n]"

lemma user_bytes_append: "user_bytes s buf (m + n) = user_bytes s buf m @ user_bytes s (buf + of_nat m) n"
  by (rule nth_equalityI) (auto simp: user_bytes_def nth_append algebra_simps of_nat_diff)

text \<open>User memory after the bytes \<open>xs\<close> were stored from \<open>buf\<close> on.\<close>

definition with_bytes :: "u8 list \<Rightarrow> u32 \<Rightarrow> (u32 \<Rightarrow> u8) \<Rightarrow> (u32 \<Rightarrow> u8)" where
  "with_bytes xs buf m = (\<lambda>a. if unat (a - buf) < length xs then xs ! unat (a - buf) else m a)"

lemma with_bytes_append:
  assumes "length xs + length ys < 2 ^ 32"
  shows "with_bytes ys (buf + of_nat (length xs)) (with_bytes xs buf m) = with_bytes (xs @ ys) buf m"
proof
  fix a :: u32
  have e: "a - (buf + of_nat (length xs)) = a - buf - of_nat (length xs)" by simp
  have l: "unat (of_nat (length xs) :: u32) = length xs" using assms by (simp add: unat_of_nat)
  show "with_bytes ys (buf + of_nat (length xs)) (with_bytes xs buf m) a = with_bytes (xs @ ys) buf m a"
  proof (cases "length xs \<le> unat (a - buf)")
    case True
    then show ?thesis unfolding with_bytes_def e using l by (auto simp: unat_sub_if' nth_append)
  next
    case False
    then have "unat (a - buf - of_nat (length xs)) \<ge> length ys"
      using l assms unsigned_less [of "a - buf"] by (auto simp: unat_sub_if')
    then show ?thesis using False unfolding with_bytes_def e by (auto simp: nth_append)
  qed
qed

lemma with_bytes_Nil [simp]: "with_bytes [] buf m = m"
  by (simp add: with_bytes_def)

lemma with_bytes_single: "m(a := x) = with_bytes [x] a m"
  by (auto simp: with_bytes_def fun_eq_iff unat_eq_0)

lemma copy_out_bytes:
  "n < 2 ^ 32 \<Longrightarrow> copy_out n d k a m = with_bytes (List.map d [k..<k + n]) a m"
proof (induction n arbitrary: k a m)
  case (Suc n)
  have "copy_out (Suc n) d k a m = with_bytes (List.map d [Suc k..<Suc k + n]) (a + of_nat (length [d k])) (with_bytes [d k] a m)"
    using Suc.IH [of "k + 1" "a + 1" "m(a := d k)"] Suc.prems by (simp add: with_bytes_single)
  also have "\<dots> = with_bytes ([d k] @ List.map d [Suc k..<Suc k + n]) a m"
    by (rule with_bytes_append) (use Suc.prems in simp)
  also have "[d k] @ List.map d [Suc k..<Suc k + n] = List.map d [k..<k + Suc n]" by (simp add: upt_rec [of k])
  finally show ?case .
qed simp

lemma copy_in_at:
  "k + n < 2 ^ 32 \<Longrightarrow> copy_in n m a k d i = (if k \<le> i \<and> i < k + n then m (a + of_nat (i - k)) else d i)"
proof (induction n arbitrary: a k d)
  case (Suc n)
  have e: "a + 1 + of_nat (i - Suc k) = a + of_nat (i - k)" if "k < i"
    using that by (metis Suc_diff_Suc of_nat_Suc add.assoc)
  have "copy_in (Suc n) m a k d i =
      (if k + 1 \<le> i \<and> i < k + 1 + n then m (a + 1 + of_nat (i - (k + 1))) else (d(k := m a)) i)"
    unfolding copy_in.simps by (rule Suc.IH) (use Suc.prems in simp)
  then show ?case using e by (cases "i = k") (auto simp del: copy_in.simps)
qed auto

lemma clamp_count: "0 \<le>s count \<Longrightarrow> (if count \<le>s 0 then 0 else unat count) = unat (count :: u32)"
  by (auto simp: word_sle_eq) (metis order_antisym signed_eq_0_iff unat_0)

end
