(* ===== verification/Pipe_Lemmas.thy ===== *)
theory Pipe_Lemmas imports File_IO Phys_Bytes Ring User_Bytes Example begin

text \<open>
  A pipe is a bounded FIFO of bytes: \<open>write_pipe\<close> appends the bytes of the user buffer, in one or two
  pieces where the ring wraps, and \<open>read_pipe\<close> delivers the oldest ones.
\<close>

section \<open>The ring of a pipe\<close>

definition pipe_head :: "nat \<Rightarrow> kst \<Rightarrow> nat" where "pipe_head i s = unat (i_zone (inode_table s i) 0)"
definition pipe_tail :: "nat \<Rightarrow> kst \<Rightarrow> nat" where "pipe_tail i s = unat (i_zone (inode_table s i) 1)"

definition pipe_cell :: "nat \<Rightarrow> kst \<Rightarrow> nat \<Rightarrow> u8" where
  "pipe_cell i s k = load8 (i_size (inode_table s i) + of_nat k) (mem s)"

definition pipe_ok :: "nat \<Rightarrow> kst \<Rightarrow> bool" where
  "pipe_ok i s \<longleftrightarrow> pipe_head i s < 4096 \<and> pipe_tail i s < 4096"

definition pipe_list :: "nat \<Rightarrow> kst \<Rightarrow> u8 list" where
  "pipe_list i s = ring_list 4096 (pipe_head i s) (pipe_tail i s) (pipe_cell i s)"

interpretation pipe: ring 4096 "pipe_ok i" "pipe_head i" "pipe_tail i" "pipe_cell i" for i
  by unfold_locales (simp_all add: pipe_ok_def)

lemma pipe_contents: "pipe.contents i = pipe_list i"
  by (simp add: fun_eq_iff pipe.contents_def pipe_list_def)

lemma pipe_used: "pipe.used i s = length (pipe_list i s)"
  by (simp add: pipe.length_contents pipe_contents [symmetric])

lemma unat_and_fff: "unat (a AND 0xfff :: u16) = unat a mod 4096"
proof -
  have "a AND 0xfff = take_bit 12 a" by (simp add: take_bit_eq_mask mask_eq_exp_minus_1)
  then show ?thesis by (simp add: unat_mod take_bit_eq_mod)
qed

lemma PIPE_SIZE_used:
  assumes "pipe_ok i s"
  shows "PIPE_SIZE (inode_table s i) = length (pipe_list i s)"
proof -
  let ?h = "i_zone (inode_table s i) 0" and ?t = "i_zone (inode_table s i) 1"
  have lt: "unat ?h < 4096" "unat ?t < 4096" using assms by (simp_all add: pipe_ok_def pipe_head_def pipe_tail_def)
  have "unat (?h - ?t) = (if unat ?t \<le> unat ?h then unat ?h - unat ?t else unat ?h + 2 ^ 16 - unat ?t)"
    by (simp add: unat_sub_if')
  moreover have "(unat ?h + 2 ^ 16 - unat ?t) mod 4096 = unat ?h + 4096 - unat ?t" if "\<not> unat ?t \<le> unat ?h"
  proof -
    have "unat ?h + 2 ^ 16 - unat ?t = unat ?h + 4096 - unat ?t + 15 * 4096" using lt by simp
    then show ?thesis using lt that by (simp only: mod_mult_self1) simp
  qed
  ultimately show ?thesis using lt
    by (auto simp: PIPE_SIZE_def unat_and_fff pipe_list_def pipe_head_def pipe_tail_def ring_used_if)
qed

lemma zone_advance: "n \<le> 4096 \<Longrightarrow> unat (z :: u16) < 4096 \<Longrightarrow> unat ((z + of_nat n) AND 0xfff) = (unat z + n) mod 4096"
  by (simp add: unat_and_fff unat_word_ariths unat_of_nat mod_simps)

section \<open>The copying loops\<close>

lemma pipe_in_frame [simp]:
  "inode_table (pipe_in n page k buf s) = inode_table s" "umem (pipe_in n page k buf s) = umem s"
  "task (pipe_in n page k buf s) = task s" "current (pipe_in n page k buf s) = current s"
  by (induction n arbitrary: k buf s) simp_all

lemma pipe_in_bytes:
  "k + n \<le> 4096 \<Longrightarrow> j < 4096 \<Longrightarrow> load8 (page + of_nat j) (mem (pipe_in n page k buf s)) =
     (if k \<le> j \<and> j < k + n then umem s (buf + of_nat (j - k)) else load8 (page + of_nat j) (mem s))"
proof (induction n arbitrary: k buf s)
  case (Suc n)
  let ?s = "s\<lparr>mem := store8 (page + of_nat k) (get_fs_byte buf s) (mem s)\<rparr>"
  have eq: "load8 (page + of_nat j) (mem ?s) =
      (if j = k then umem s buf else load8 (page + of_nat j) (mem s))"
  proof (cases "j = k")
    case False
    then have "(of_nat k :: u32) \<noteq> of_nat j" using Suc.prems by (simp add: word_unat_eq_iff unat_of_nat)
    then have "page + of_nat k \<noteq> page + of_nat j" by simp
    then show ?thesis using False by (simp add: load8_store8_other)
  qed (simp add: load8_store8 get_fs_byte_def)
  have "umem s (buf + 1 + of_nat (j - Suc k)) = umem s (buf + of_nat (j - k))" if "k < j"
    using that by (metis Suc_diff_Suc of_nat_Suc add.assoc)
  then show ?case using Suc.IH [of "k + 1" "buf + 1" ?s] Suc.prems eq by auto
qed auto

lemma pipe_out_frame [simp]:
  "inode_table (pipe_out n page k buf s) = inode_table s" "mem (pipe_out n page k buf s) = mem s"
  "task (pipe_out n page k buf s) = task s" "current (pipe_out n page k buf s) = current s"
  by (induction n arbitrary: k buf s) (simp_all add: put_fs_byte_def)

lemma pipe_out_bytes:
  "n < 2 ^ 32 \<Longrightarrow> umem (pipe_out n page k buf s) =
     (\<lambda>a. if unat (a - buf) < n then load8 (page + of_nat (k + unat (a - buf))) (mem s) else umem s a)"
proof (induction n arbitrary: k buf s)
  case (Suc n)
  show ?case
  proof
    fix a
    have "unat (a - (buf + 1)) = unat (a - buf) - 1" if "a \<noteq> buf"
    proof -
      have "a - buf \<noteq> 0" using that by simp
      then show ?thesis using unat_minus_one [of "a - buf"] by (simp add: diff_diff_eq)
    qed
    moreover have "0 < unat (a - buf)" if "a \<noteq> buf" using that by (simp add: unat_gt_0)
    moreover have "\<not> unat (buf - (buf + 1) :: u32) < n" using Suc.prems
      by (simp add: unsigned_minus_1_eq_mask mask_eq_exp_minus_1)
    ultimately show "umem (pipe_out (Suc n) page k buf s) a = (if unat (a - buf) < Suc n
        then load8 (page + of_nat (k + unat (a - buf))) (mem s) else umem s a)"
      using Suc.IH [of "k + 1" "buf + 1"] Suc.prems
      by (cases "a = buf") (auto simp: put_fs_byte_def)
  qed
qed simp


section \<open>write_pipe\<close>

text \<open>Only the two indices of the pipe, its page and user memory may differ.\<close>

definition pipe_frame :: "nat \<Rightarrow> kst \<Rightarrow> kst \<Rightarrow> bool" where
  "pipe_frame i s t \<longleftrightarrow> (\<forall>j. j \<noteq> i \<longrightarrow> inode_table t j = inode_table s j) \<and>
     i_count (inode_table t i) = i_count (inode_table s i) \<and> i_size (inode_table t i) = i_size (inode_table s i) \<and>
     task t = task s \<and> current t = current s"

lemma pipe_frame_trans: "pipe_frame i s t \<Longrightarrow> pipe_frame i t u \<Longrightarrow> pipe_frame i s u"
  by (simp add: pipe_frame_def)

lemma pipe_frame_refl: "pipe_frame i s s"
  by (simp add: pipe_frame_def)

definition push_chunk :: "nat \<Rightarrow> nat \<Rightarrow> u32 \<Rightarrow> kst \<Rightarrow> kst" where
  "push_chunk i n buf s = pipe_in n (i_size (inode_table s i)) (unat (i_zone (inode_table s i) 0)) buf
     (upd_inode i (\<lambda>m. m\<lparr>i_zone := (i_zone m)(0 := (i_zone m 0 + of_nat n) AND 0xfff)\<rparr>) s)"

lemma push_chunk_list:
  assumes "pipe_ok i s" "pipe_head i s + n \<le> 4096" "length (pipe_list i s) + n < 4096"
  shows "pipe_list i (push_chunk i n buf s) = pipe_list i s @ user_bytes s buf n \<and>
    pipe_ok i (push_chunk i n buf s) \<and> umem (push_chunk i n buf s) = umem s \<and> pipe_frame i s (push_chunk i n buf s)"
proof -
  let ?t = "push_chunk i n buf s" and ?h = "pipe_head i s" and ?u = "length (pipe_list i s)"
  have lt: "?h < 4096" "pipe_tail i s < 4096" using assms(1) by (simp_all add: pipe_ok_def)
  have h: "pipe_head i ?t = (?h + n) mod 4096"
    using lt assms(2) by (simp add: pipe_head_def push_chunk_def upd_inode_def zone_advance)
  have t: "pipe_tail i ?t = pipe_tail i s" by (simp add: pipe_tail_def push_chunk_def upd_inode_def)
  have c: "pipe_cell i ?t j = (if ?h \<le> j \<and> j < ?h + n then umem s (buf + of_nat (j - ?h)) else pipe_cell i s j)"
    if "j < 4096" for j
    using pipe_in_bytes [of ?h n j] that assms(2) by (simp add: pipe_cell_def pipe_head_def push_chunk_def upd_inode_def)
  have hd: "(pipe_tail i s + ?u) mod 4096 = ?h"
    using ring_head_eq [OF lt(2,1)] by (simp add: pipe_list_def)
  have "pipe.contents i ?t = pipe.contents i s @ user_bytes s buf n"
  proof (rule pipe.contents_put [OF assms(1)])
    fix k assume "k < length (user_bytes s buf n)"
    then have k: "k < n" by (simp add: user_bytes_def)
    then have "?h + k < 4096" using assms(2) by linarith
    then show "pipe_cell i ?t ((?h + k) mod 4096) = user_bytes s buf n ! k"
      using k by (simp add: c user_bytes_def)
  next
    fix k assume k: "k < pipe.used i s"
    define j where "j = (pipe_tail i s + k) mod 4096"
    have "\<not> (?h \<le> j \<and> j < ?h + n)"
    proof
      assume b: "?h \<le> j \<and> j < ?h + n"
      then have "(pipe_tail i s + k) mod 4096 = (?h + (j - ?h)) mod 4096" using assms(2) by (simp add: j_def)
      also have "\<dots> = (pipe_tail i s + (?u + (j - ?h))) mod 4096"
        by (subst hd [symmetric]) (simp add: mod_simps add.assoc)
      finally have "k = ?u + (j - ?h)"
        by (rule ring_index_inj [rotated 2]) (use k b assms(3) in \<open>simp add: pipe_used; linarith\<close>)+
      then show False using k by (simp add: pipe_used)
    qed
    then show "pipe_cell i ?t ((pipe_tail i s + k) mod 4096) = pipe_cell i s ((pipe_tail i s + k) mod 4096)"
      using c [of j] unfolding j_def [symmetric] by (auto simp: j_def)
  qed (use h t assms(3) in \<open>simp_all add: user_bytes_def pipe_used\<close>)
  moreover have "pipe_ok i ?t" using assms(1) h t by (simp add: pipe_ok_def)
  ultimately show ?thesis by (simp add: pipe_contents pipe_frame_def push_chunk_def upd_inode_def)
qed


lemma write_pipe_round:
  assumes "pipe_ok i s" "0 < count" "length (pipe_list i s) + count < 4096"
  shows "write_pipe_loop (Suc n) i buf count written s =
     (let k = min (4096 - pipe_head i s) count
      in write_pipe_loop n i (buf + of_nat k) (count - k) (written + k) (push_chunk i k buf s))"
proof -
  have "min (min (4096 - pipe_head i s) count) (4095 - length (pipe_list i s)) = min (4096 - pipe_head i s) count"
    using assms(3) by linarith
  then show ?thesis using assms
    by (simp add: Let_def PIPE_SIZE_used push_chunk_def pipe_head_def [symmetric])
qed

lemma write_pipe_loop_list:
  "pipe_ok i s \<Longrightarrow> length (pipe_list i s) + count < 4096 \<Longrightarrow> count \<le> n \<Longrightarrow>
   \<exists>t. write_pipe_loop n i buf count written s = Inr (of_nat (written + count), t) \<and> pipe_ok i t \<and>
     pipe_list i t = pipe_list i s @ user_bytes s buf count \<and> umem t = umem s \<and> pipe_frame i s t"
proof (induction n arbitrary: buf count written s)
  case 0
  then show ?case by (simp add: user_bytes_def pipe_frame_refl)
next
  case (Suc n)
  show ?case
  proof (cases "count = 0")
    case True
    then show ?thesis using Suc.prems by (simp add: user_bytes_def pipe_frame_refl)
  next
    case False
    define k where "k = min (4096 - pipe_head i s) count"
    have k: "0 < k" "k \<le> count" "pipe_head i s + k \<le> 4096"
      using Suc.prems(1) False by (auto simp: k_def pipe_ok_def)
    let ?u = "push_chunk i k buf s"
    have u: "pipe_list i ?u = pipe_list i s @ user_bytes s buf k" "pipe_ok i ?u" "umem ?u = umem s" "pipe_frame i s ?u"
      using push_chunk_list [OF Suc.prems(1) k(3), of buf] k Suc.prems(2) by simp_all
    have "length (pipe_list i ?u) + (count - k) < 4096" "count - k \<le> n"
      using u(1) k Suc.prems by (simp_all add: user_bytes_def)
    from Suc.IH [OF u(2) this, of "buf + of_nat k" "written + k"] obtain t where t:
      "write_pipe_loop n i (buf + of_nat k) (count - k) (written + k) ?u = Inr (of_nat (written + count), t)"
      "pipe_ok i t" "pipe_list i t = pipe_list i ?u @ user_bytes ?u (buf + of_nat k) (count - k)"
      "umem t = umem ?u" "pipe_frame i ?u t"
      using k by auto
    have "user_bytes s buf count = user_bytes s buf k @ user_bytes s (buf + of_nat k) (count - k)"
      using user_bytes_append [of s buf k "count - k"] k by simp
    then show ?thesis
      using write_pipe_round [OF Suc.prems(1) _ Suc.prems(2), of n buf written] False t u
      by (intro exI [of _ t]) (auto simp: k_def [symmetric] user_bytes_def intro: pipe_frame_trans)
  qed
qed

section \<open>read_pipe\<close>

definition pull_chunk :: "nat \<Rightarrow> nat \<Rightarrow> u32 \<Rightarrow> kst \<Rightarrow> kst" where
  "pull_chunk i n buf s = pipe_out n (i_size (inode_table s i)) (pipe_tail i s) buf
     (upd_inode i (\<lambda>m. m\<lparr>i_zone := (i_zone m)(1 := (i_zone m 1 + of_nat n) AND 0xfff)\<rparr>) s)"

lemma pull_chunk_list:
  assumes "pipe_ok i s" "pipe_tail i s + n \<le> 4096" "n \<le> length (pipe_list i s)"
  shows "pipe_list i (pull_chunk i n buf s) = drop n (pipe_list i s) \<and> pipe_ok i (pull_chunk i n buf s) \<and>
    umem (pull_chunk i n buf s) = with_bytes (take n (pipe_list i s)) buf (umem s) \<and> pipe_frame i s (pull_chunk i n buf s)"
proof -
  let ?t = "pull_chunk i n buf s"
  have lt: "pipe_head i s < 4096" "pipe_tail i s < 4096" using assms(1) by (simp_all add: pipe_ok_def)
  have t: "pipe_tail i ?t = (pipe_tail i s + n) mod 4096"
    using lt assms(2) by (simp add: pipe_tail_def pull_chunk_def upd_inode_def zone_advance)
  have h: "pipe_head i ?t = pipe_head i s" by (simp add: pipe_head_def pull_chunk_def upd_inode_def)
  have c: "pipe_cell i ?t = pipe_cell i s" by (simp add: fun_eq_iff pipe_cell_def pull_chunk_def upd_inode_def)
  have "pipe_list i ?t = drop n (pipe_list i s)"
    using pipe.contents_take [OF assms(1), of n ?t] assms(3) t h c by (simp add: pipe_contents pipe_used)
  moreover have "pipe_list i s ! k = pipe_cell i s (pipe_tail i s + k)" if "k < n" for k
    using that assms(2,3) pipe.contents_nth [of k i s] by (simp add: pipe_contents pipe_used)
  then have "umem ?t = with_bytes (take n (pipe_list i s)) buf (umem s)"
    using assms(2,3) by (auto simp: fun_eq_iff pull_chunk_def upd_inode_def pipe_out_bytes with_bytes_def pipe_cell_def)
  moreover have "pipe_ok i ?t" using assms(1) h t by (simp add: pipe_ok_def)
  ultimately show ?thesis by (simp add: pipe_frame_def pull_chunk_def upd_inode_def)
qed


lemma read_pipe_round:
  assumes "pipe_ok i s" "0 < count" "count \<le> length (pipe_list i s)"
  shows "read_pipe_loop (Suc n) i buf count rd s =
     (let k = min (4096 - pipe_tail i s) count
      in read_pipe_loop n i (buf + of_nat k) (count - k) (rd + k) (pull_chunk i k buf s))"
proof -
  have "min (min (4096 - pipe_tail i s) count) (length (pipe_list i s)) = min (4096 - pipe_tail i s) count"
    using assms(3) by linarith
  moreover have "pipe_list i s \<noteq> []" using assms(2,3) by auto
  ultimately show ?thesis using assms
    by (simp add: Let_def PIPE_SIZE_used pull_chunk_def pipe_tail_def)
qed

lemma read_pipe_loop_list:
  "pipe_ok i s \<Longrightarrow> count \<le> length (pipe_list i s) \<Longrightarrow> count \<le> n \<Longrightarrow>
   \<exists>t. read_pipe_loop n i buf count rd s = Inr (of_nat (rd + count), t) \<and> pipe_ok i t \<and>
     pipe_list i t = drop count (pipe_list i s) \<and>
     umem t = with_bytes (take count (pipe_list i s)) buf (umem s) \<and> pipe_frame i s t"
proof (induction n arbitrary: buf count rd s)
  case 0
  then show ?case by (simp add: with_bytes_def pipe_frame_refl)
next
  case (Suc n)
  show ?case
  proof (cases "count = 0")
    case True
    then show ?thesis using Suc.prems by (simp add: with_bytes_def pipe_frame_refl)
  next
    case False
    define k where "k = min (4096 - pipe_tail i s) count"
    have k: "0 < k" "k \<le> count" "pipe_tail i s + k \<le> 4096"
      using Suc.prems(1) False by (auto simp: k_def pipe_ok_def)
    have l: "length (pipe_list i s) < 4096"
      using pipe.used_less [OF Suc.prems(1)] by (simp add: pipe_used)
    let ?u = "pull_chunk i k buf s"
    have u: "pipe_list i ?u = drop k (pipe_list i s)" "pipe_ok i ?u"
      "umem ?u = with_bytes (take k (pipe_list i s)) buf (umem s)" "pipe_frame i s ?u"
      using pull_chunk_list [OF Suc.prems(1) k(3), of buf] k Suc.prems(2) by simp_all
    have "count - k \<le> length (pipe_list i ?u)" "count - k \<le> n" using u(1) k Suc.prems by simp_all
    from Suc.IH [OF u(2) this, of "buf + of_nat k" "rd + k"] obtain t where t:
      "read_pipe_loop n i (buf + of_nat k) (count - k) (rd + k) ?u = Inr (of_nat (rd + count), t)"
      "pipe_ok i t" "pipe_list i t = drop (count - k) (pipe_list i ?u)"
      "umem t = with_bytes (take (count - k) (pipe_list i ?u)) (buf + of_nat k) (umem ?u)" "pipe_frame i ?u t"
      using k by auto
    have "take k (pipe_list i s) @ take (count - k) (drop k (pipe_list i s)) = take count (pipe_list i s)"
      using k(2) take_add [of k "count - k" "pipe_list i s"] by simp
    then have "umem t = with_bytes (take count (pipe_list i s)) buf (umem s)"
      using with_bytes_append [of "take k (pipe_list i s)" "take (count - k) (drop k (pipe_list i s))" buf "umem s"]
        t(4) u k l Suc.prems(2) by simp
    then show ?thesis
      using read_pipe_round [OF Suc.prems(1) _ Suc.prems(2), of n buf rd] False t u k
      by (intro exI [of _ t]) (auto simp: k_def [symmetric] Let_def intro: pipe_frame_trans)
  qed
qed

section \<open>The two calls\<close>

theorem write_pipe_appends:
  assumes "pipe_ok i s" "0 \<le>s count" "length (pipe_list i s) + unat count < 4096"
  shows "\<exists>t. write_pipe i buf count s = Inr (count, t) \<and> pipe_ok i t \<and>
    pipe_list i t = pipe_list i s @ user_bytes s buf (unat count) \<and> umem t = umem s \<and> pipe_frame i s t"
proof -
  have "(if count \<le>s 0 then 0 else unat count) = unat count"
    by (rule clamp_count [OF assms(2)])
  then show ?thesis
    using write_pipe_loop_list [OF assms(1,3), of "unat count" buf 0] by (simp add: write_pipe_def Let_def)
qed

text \<open>
  C3: What is written into an empty pipe is what a read of the same length delivers, at the
  address given to read, after which the pipe is empty again.
\<close>

theorem pipe_roundtrip:
  assumes "pipe_ok i s" "pipe_list i s = []" "0 \<le>s count" "unat count < 4096"
    and "write_pipe i buf count s = Inr (n, t)"
  shows "n = count \<and> (\<exists>u. read_pipe i dest count t = Inr (count, u) \<and> pipe_list i u = [] \<and>
    umem u = with_bytes (user_bytes s buf (unat count)) dest (umem s) \<and> pipe_frame i s u)"
proof -
  have c: "(if count \<le>s 0 then 0 else unat count) = unat count"
    by (rule clamp_count [OF assms(3)])
  have t: "n = count" "pipe_ok i t" "pipe_list i t = user_bytes s buf (unat count)" "umem t = umem s" "pipe_frame i s t"
    using write_pipe_loop_list [OF assms(1), of "unat count" "unat count" buf 0] assms(2,4,5) c
    by (auto simp: write_pipe_def Let_def)
  have l: "length (user_bytes s buf (unat count)) = unat count" by (simp add: user_bytes_def)
  show ?thesis
    using read_pipe_loop_list [OF t(2), of "unat count" "unat count" dest 0] t l c
    by (auto simp: read_pipe_def Let_def intro: pipe_frame_trans)
qed


text \<open>The other end is closed: the writer gets a signal and -1, the reader the end of the file.\<close>

theorem pipe_other_end_closed:
  assumes "pipe_ok i s" "i_count (inode_table s i) \<noteq> 2" "0 <s count"
  shows "(length (pipe_list i s) = 4095 \<longrightarrow> write_pipe i buf count s =
       Inr (- 1, upd_cur (\<lambda>t. t\<lparr>t_signal := t_signal t OR push_bit (SIGPIPE - 1) 1\<rparr>) s)) \<and>
    (pipe_list i s = [] \<longrightarrow> read_pipe i buf count s = Inr (0, s))"
proof -
  have "\<not> count \<le>s 0" "count \<noteq> 0" using assms(3) by (auto simp: word_sless_alt word_sle_eq)
  then obtain n where "(if count \<le>s 0 then 0 else unat count) = Suc n"
    by (cases "unat count") (auto simp: unat_eq_0)
  then show ?thesis using assms by (simp add: write_pipe_def read_pipe_def Let_def PIPE_SIZE_used)
qed

section \<open>Witnesses\<close>

definition ex_pipe :: kst where
  "ex_pipe = upd_inode 3 (\<lambda>m. m\<lparr>i_pipe := True, i_count := 2, i_size := 0x200000, i_zone := (i_zone m)(0 := 4094, 1 := 4094)\<rparr>) ex_kst"

lemma ex_pipe_ok: "pipe_ok 3 ex_pipe" "pipe_list 3 ex_pipe = []" "i_count (inode_table ex_pipe 3) = 2"
  by (simp_all add: ex_pipe_def pipe_ok_def pipe_head_def pipe_tail_def pipe_list_def ring_list_def ring_used_def
      upd_inode_def zero_inode_def)

theorem write_pipe_appends_witness:
  "\<exists>t. write_pipe 3 0x1000 5 ex_pipe = Inr (5, t) \<and> pipe_list 3 t = user_bytes ex_pipe 0x1000 5"
  using write_pipe_appends [of 3 ex_pipe 5 "0x1000"] by (auto simp: ex_pipe_ok word_sle_eq)

theorem pipe_roundtrip_witness:
  "\<exists>t u. write_pipe 3 0x1000 5 ex_pipe = Inr (5, t) \<and> read_pipe 3 0x2000 5 t = Inr (5, u) \<and> pipe_list 3 u = []"
proof -
  obtain t where "write_pipe 3 0x1000 5 ex_pipe = Inr (5, t)"
    using write_pipe_loop_list [OF ex_pipe_ok(1), of 5 5 "0x1000" 0]
    by (auto simp: write_pipe_def ex_pipe_ok word_sle_eq)
  then show ?thesis using pipe_roundtrip [OF ex_pipe_ok(1,2), of 5 "0x1000" 5 t "0x2000"]
    by (auto simp: word_sle_eq)
qed

theorem pipe_other_end_closed_witness:
  "read_pipe 3 0x1000 5 (upd_inode 3 (\<lambda>m. m\<lparr>i_count := 1\<rparr>) ex_pipe) =
   Inr (0, upd_inode 3 (\<lambda>m. m\<lparr>i_count := 1\<rparr>) ex_pipe)"
  using pipe_other_end_closed [of 3 "upd_inode 3 (\<lambda>m. m\<lparr>i_count := 1\<rparr>) ex_pipe" 5 "0x1000"]
  by (simp add: ex_pipe_def pipe_ok_def pipe_head_def pipe_tail_def pipe_list_def ring_list_def ring_used_def
      upd_inode_def zero_inode_def word_sless_alt)

end
