(* ===== verification/Buffer_View.thy ===== *)
theory Buffer_View imports Buffer_Inv begin

text \<open>
  What the rest of the kernel sees of the block devices: \<open>view\<close> is the contents of a block,
  from the cache where it is up to date there and from the disk otherwise. In a \<open>calm\<close> state
  (nothing locked, enough clean buffers free, no dirty buffer that is not up to date)
  \<open>bread\<close> returns a buffer with these contents and \<open>brelse\<close> takes it back; both leave the
  view and everything outside the cache alone. The locale \<open>block_reader\<close> is this contract.
\<close>

definition view :: "kst \<Rightarrow> u16 \<Rightarrow> u32 \<Rightarrow> block option" where
  "view s dev blk = (case find_buffer dev blk s of
      Inr (Some b) \<Rightarrow> if b_uptodate (buffers s b) then Some (b_data (buffers s b)) else disk s dev blk
    | _ \<Rightarrow> disk s dev blk)"

definition reusable :: "kst \<Rightarrow> nat \<Rightarrow> bool" where
  "reusable s b \<longleftrightarrow> b_count (buffers s b) = 0 \<and> \<not> b_dirt (buffers s b)"

definition spare :: "kst \<Rightarrow> nat" where
  "spare s = length (List.filter (reusable s) [0..<nr_buffers s])"

text \<open>Clean cached blocks hold what the disk holds.\<close>

definition coherent :: "kst \<Rightarrow> bool" where
  "coherent s \<longleftrightarrow> (\<forall>b<nr_buffers s. b_dev (buffers s b) \<noteq> 0 \<and> b_uptodate (buffers s b) \<and> \<not> b_dirt (buffers s b) \<longrightarrow>
     disk s (b_dev (buffers s b)) (b_blocknr (buffers s b)) = Some (b_data (buffers s b)))"

text \<open>\<open>calm k s\<close>: \<open>k\<close> more buffers can be taken without a sleep or a write.\<close>

definition calm :: "nat \<Rightarrow> kst \<Rightarrow> bool" where
  "calm k s \<longleftrightarrow> cache_inv s \<and> coherent s \<and> k \<le> spare s \<and>
     (\<forall>b<nr_buffers s. \<not> b_lock (buffers s b) \<and> (b_dirt (buffers s b) \<longrightarrow> b_uptodate (buffers s b)) \<and>
        unat (b_count (buffers s b)) + k < 256)"

definition readable :: "kst \<Rightarrow> u16 \<Rightarrow> bool" where
  "readable s dev \<longleftrightarrow> dev \<noteq> 0 \<and> MAJOR dev < 7 \<and> has_driver s (MAJOR dev)"

text \<open>
  \<open>taken b s t\<close>: \<open>t\<close> is \<open>s\<close> with buffer \<open>b\<close> in use once more, holding the
  contents of its block; the buffers somebody else uses are as they were.
\<close>

definition taken :: "nat \<Rightarrow> kst \<Rightarrow> kst \<Rightarrow> bool" where
  "taken b s t \<longleftrightarrow> cache_inv t \<and> coherent t \<and> rest_eq s t \<and> view t = view s \<and>
     b < nr_buffers s \<and> b_uptodate (buffers t b) \<and> \<not> b_lock (buffers t b) \<and> b_dirt (buffers t b) = b_dirt (buffers s b) \<and>
     b_count (buffers t b) = b_count (buffers s b) + 1 \<and>
     (\<forall>x<nr_buffers s. x \<noteq> b \<longrightarrow> payload (buffers t x) = payload (buffers s x))"

text \<open>
  \<open>same_view s u\<close>: \<open>u\<close> differs from \<open>s\<close> only in which clean blocks the cache holds.
\<close>

definition same_view :: "kst \<Rightarrow> kst \<Rightarrow> bool" where
  "same_view s u \<longleftrightarrow> cache_inv u \<and> coherent u \<and> rest_eq s u \<and> view u = view s \<and>
     (\<forall>x<nr_buffers s. b_lock (buffers u x) = b_lock (buffers s x) \<and> b_dirt (buffers u x) = b_dirt (buffers s x) \<and>
        b_count (buffers u x) = b_count (buffers s x) \<and>
        (b_dirt (buffers s x) \<and> b_uptodate (buffers s x) \<longrightarrow> b_uptodate (buffers u x)))"

section \<open>The contents of a block\<close>

lemma view_hit:
  assumes "cache_inv s" "dev \<noteq> 0" "b < nr_buffers s" "b_dev (buffers s b) = dev" "b_blocknr (buffers s b) = blk"
  shows "view s dev blk = (if b_uptodate (buffers s b) then Some (b_data (buffers s b)) else disk s dev blk)"
  using find_buffer_iff(1) [OF assms(1,2), of blk b] assms by (simp add: view_def)

lemma view_miss:
  assumes "cache_inv s" "dev \<noteq> 0" "\<not> (\<exists>b<nr_buffers s. b_dev (buffers s b) = dev \<and> b_blocknr (buffers s b) = blk)"
  shows "view s dev blk = disk s dev blk"
  using find_buffer_iff(2) [OF assms(1,2), of blk] assms by (simp add: view_def)

text \<open>Device 0 is no device: its blocks are never cached.\<close>

lemma view_none:
  assumes "cache_inv s"
  shows "view s 0 blk = disk s 0 blk"
proof -
  obtain fl ch where ok: "cache_ok fl ch s" using assms by (auto simp: cache_inv_def)
  have "find (\<lambda>b. b_dev (buffers s b) = 0 \<and> b_blocknr (buffers s b) = blk) (ch (hashfn 0 blk)) = None"
    using cache_okD(5) [OF ok hashfn_less] by (auto simp: find_None_iff)
  then show ?thesis using find_buffer_find [OF ok, of 0 blk] by (simp add: view_def)
qed

lemma view_eqI:
  assumes "cache_inv s" "cache_inv t" "disk t = disk s" "nr_buffers t = nr_buffers s"
    "\<And>b. b < nr_buffers s \<Longrightarrow> b_dev (buffers t b) \<noteq> 0 \<Longrightarrow> b_uptodate (buffers t b) \<Longrightarrow>
       view s (b_dev (buffers t b)) (b_blocknr (buffers t b)) = Some (b_data (buffers t b))"
    "\<And>b. b < nr_buffers s \<Longrightarrow> b_dev (buffers s b) \<noteq> 0 \<Longrightarrow> b_uptodate (buffers s b) \<Longrightarrow>
       disk s (b_dev (buffers s b)) (b_blocknr (buffers s b)) = Some (b_data (buffers s b)) \<or>
       (b_dev (buffers t b) = b_dev (buffers s b) \<and> b_blocknr (buffers t b) = b_blocknr (buffers s b) \<and>
        b_uptodate (buffers t b))"
  shows "view t = view s"
proof (intro ext)
  fix dev blk
  show "view t dev blk = view s dev blk"
  proof (cases "dev = 0")
    case False
    show ?thesis
    proof (cases "\<exists>b<nr_buffers t. b_dev (buffers t b) = dev \<and> b_blocknr (buffers t b) = blk \<and> b_uptodate (buffers t b)")
      case True
      then obtain b where "b < nr_buffers t" "b_dev (buffers t b) = dev" "b_blocknr (buffers t b) = blk"
        "b_uptodate (buffers t b)" by blast
      then show ?thesis using view_hit [OF assms(2) False, of b blk] assms(4) assms(5) [of b] False by simp
    next
      case none: False
      then have t: "view t dev blk = disk s dev blk"
        using view_hit [OF assms(2) False] view_miss [OF assms(2) False, of blk] assms(3) by metis
      show ?thesis
      proof (cases "\<exists>b<nr_buffers s. b_dev (buffers s b) = dev \<and> b_blocknr (buffers s b) = blk \<and> b_uptodate (buffers s b)")
        case True
        then obtain b where b: "b < nr_buffers s" "b_dev (buffers s b) = dev" "b_blocknr (buffers s b) = blk"
          "b_uptodate (buffers s b)" by blast
        then have "disk s dev blk = Some (b_data (buffers s b))"
          using assms(6) [OF b(1)] False none assms(4) by metis
        then show ?thesis using t view_hit [OF assms(1) False b(1-3)] b(4) by simp
      next
        case False
        then show ?thesis
          using t view_hit [OF assms(1) \<open>dev \<noteq> 0\<close>] view_miss [OF assms(1) \<open>dev \<noteq> 0\<close>, of blk] by metis
      qed
    qed
  qed (use view_none assms in simp)
qed

section \<open>Finding a free buffer\<close>

lemma scan_finds:
  assumes "dlinks (nxf s) pv ys" "ys \<noteq> []" "nxf s (last ys) = free_list s" "length ys \<le> n"
    "\<forall>y\<in>set (tl ys). free_list s \<noteq> Some y" "\<forall>b. bh = Some b \<longrightarrow> badness (buffers s b) \<noteq> 0"
    "find (\<lambda>x. b_count (buffers s x) = 0 \<and> badness (buffers s x) = 0) ys = Some c"
  shows "scan_free_list n (Some (hd ys)) bh s = Inr (Some c)"
  using assms
proof (induction ys arbitrary: n bh)
  case (Cons y ys)
  then obtain m where n: "n = Suc m" by (cases n) auto
  let ?P = "\<lambda>x. b_count (buffers s x) = 0 \<and> badness (buffers s x) = 0"
  show ?case
  proof (cases "?P y")
    case True
    then show ?thesis using Cons.prems n by (auto simp: Let_def split: option.splits)
  next
    case False
    then have f: "find ?P ys = Some c" using Cons.prems(7) by auto
    then have ne: "ys \<noteq> []" by auto
    have nx: "b_next_free (buffers s y) = Some (hd ys)" "free_list s \<noteq> Some (hd ys)"
      using Cons.prems(1,5) ne by (auto simp: dlinks_Cons nxf_def)
    have IH: "scan_free_list m (Some (hd ys)) bh' s = Inr (Some c)"
      if "\<forall>b. bh' = Some b \<longrightarrow> badness (buffers s b) \<noteq> 0" for bh'
      by (rule Cons.IH) (use Cons.prems ne n f that in \<open>auto simp: dlinks_Cons dest: list.set_sel(2)\<close>)
    show ?thesis
      using False nx IH [of bh] IH [of "Some y"] Cons.prems(6) n
      by (auto simp: Let_def split: option.splits)
  qed
qed simp

lemma find_Some_ex: "\<exists>x\<in>set xs. P x \<Longrightarrow> \<exists>y. find P xs = Some y"
  by (induction xs) auto

lemma scan_clean:
  assumes "cache_inv s" "\<forall>b<nr_buffers s. \<not> b_lock (buffers s b)" "0 < spare s"
  shows "\<exists>c<nr_buffers s. reusable s c \<and>
    scan_free_list (Suc (nr_buffers s)) (free_list s) None s = Inr (Some c)"
proof -
  obtain fl ch where ok: "cache_ok fl ch s" using assms(1) by (auto simp: cache_inv_def)
  note oks = cache_okD [OF ok]
  have fl: "fl \<noteq> []" "dlinks (nxf s) (pvf s) fl" "nxf s (last fl) = Some (hd fl)" "distinct fl"
    using oks(1) by (auto simp: cyc_iff)
  have len: "length fl = nr_buffers s" using distinct_card [OF fl(4)] oks(2) by simp
  have eq: "b_count (buffers s x) = 0 \<and> badness (buffers s x) = 0 \<longleftrightarrow> reusable s x" if "x < nr_buffers s" for x
    using assms(2) that by (auto simp: badness_def reusable_def)
  have "List.filter (reusable s) [0..<nr_buffers s] \<noteq> []" using assms(3) by (auto simp: spare_def)
  then obtain x where "x < nr_buffers s" "reusable s x" unfolding filter_empty_conv by auto
  then have "\<exists>x\<in>set fl. b_count (buffers s x) = 0 \<and> badness (buffers s x) = 0"
    using eq [of x] oks(2) by blast
  from find_Some_ex [OF this]
  obtain c where c: "find (\<lambda>x. b_count (buffers s x) = 0 \<and> badness (buffers s x) = 0) fl = Some c" ..
  have r: "c < nr_buffers s" "reusable s c" using find_SomeD [OF c] oks(2) eq [of c] by simp_all
  have last: "nxf s (last fl) = free_list s" using fl(3) oks(3) by simp
  have tl: "\<forall>y\<in>set (tl fl). free_list s \<noteq> Some y" using fl(1,4) oks(3) by (cases fl) auto
  have "scan_free_list (Suc (nr_buffers s)) (Some (hd fl)) None s = Inr (Some c)"
    by (rule scan_finds [OF fl(2,1) last _ tl _ c]) (simp_all add: len)
  with r show ?thesis using oks(3) by auto
qed

section \<open>getblk, bread and brelse in a calm state\<close>

lemma getblk_hit:
  assumes "find_buffer dev blk s = Inr (Some b)" "\<not> b_lock (buffers s b)"
  shows "getblk dev blk s = Inr (b, upd_buf b (\<lambda>h. h\<lparr>b_count := b_count h + 1\<rparr>) s)"
  using assms by (simp add: getblk_def eval_nat_numeral getblk_body_def get_hash_table_def wait_on_buffer_def Let_def)

lemma getblk_miss:
  assumes "find_buffer dev blk s = Inr None" "reusable s c" "\<not> b_lock (buffers s c)"
    "scan_free_list (Suc (nr_buffers s)) (free_list s) None s = Inr (Some c)"
  shows "getblk dev blk s = take_buffer c dev blk s"
  using assms
  by (simp add: getblk_def eval_nat_numeral getblk_body_def get_hash_table_def wait_on_buffer_def reusable_def
      del: scan_free_list.simps)

lemma calmD:
  assumes "calm k s"
  shows "cache_inv s" "coherent s" "k \<le> spare s" "\<forall>b<nr_buffers s. \<not> b_lock (buffers s b)"
    "b < nr_buffers s \<Longrightarrow> b_dirt (buffers s b) \<Longrightarrow> b_uptodate (buffers s b)"
    "b < nr_buffers s \<Longrightarrow> unat (b_count (buffers s b)) + k < 256"
  using assms unfolding calm_def by auto

text \<open>The transfer of a block into a buffer that was just taken for it.\<close>

lemma read_in:
  assumes "readable s dev" "\<not> b_lock (buffers s b)" "\<not> b_uptodate (buffers s b)" "b_dev (buffers s b) = dev"
    "disk s dev (b_blocknr (buffers s b)) = Some dat"
  shows "ll_rw_block READ b s =
     Inr (upd_buf b (\<lambda>h. h\<lparr>b_data := dat, b_dirt := False, b_uptodate := True\<rparr>) s)"
  using assms by (simp add: ll_rw_block_def readable_def)

lemma bread_of_getblk:
  assumes "getblk dev blk s = Inr (b, t)" "readable t dev" "\<not> b_lock (buffers t b)" "b_dev (buffers t b) = dev"
    "b_blocknr (buffers t b) = blk" "\<not> b_uptodate (buffers t b) \<longrightarrow> disk t dev blk = Some dat"
  shows "bread dev blk s = Inr (Some b, if b_uptodate (buffers t b) then t
     else upd_buf b (\<lambda>h. h\<lparr>b_data := dat, b_dirt := False, b_uptodate := True\<rparr>) t)"
  using assms read_in [OF assms(2,3) _ assms(4), of dat]
  by (simp add: bread_def bread_w_def wait_on_buffer_def)

lemma takenI:
  assumes "cache_inv s" "coherent s" "cache_inv t" "rest_eq s t" "b < nr_buffers s" "b_uptodate (buffers t b)"
    "\<not> b_lock (buffers t b)" "b_dirt (buffers t b) = b_dirt (buffers s b)" "b_count (buffers t b) = b_count (buffers s b) + 1"
    and other: "\<And>x. x < nr_buffers s \<Longrightarrow> x \<noteq> b \<Longrightarrow> payload (buffers t x) = payload (buffers s x)"
    and dev: "b_dev (buffers t b) \<noteq> 0"
      "view s (b_dev (buffers t b)) (b_blocknr (buffers t b)) = Some (b_data (buffers t b))"
    and old: "b_dev (buffers t b) = b_dev (buffers s b) \<and> b_blocknr (buffers t b) = b_blocknr (buffers s b) \<or>
      \<not> b_dirt (buffers s b)"
    and clean: "b_dirt (buffers t b) \<or>
      disk s (b_dev (buffers t b)) (b_blocknr (buffers t b)) = Some (b_data (buffers t b))"
  shows "taken b s t"
proof -
  note re = rest_eqD [OF assms(4)]
  note pd = payload_dest [OF other]
  have v: "view t = view s"
  proof (rule view_eqI [OF assms(1,3) re(2,1)])
    fix x assume x: "x < nr_buffers s" "b_dev (buffers t x) \<noteq> 0" "b_uptodate (buffers t x)"
    show "view s (b_dev (buffers t x)) (b_blocknr (buffers t x)) = Some (b_data (buffers t x))"
    proof (cases "x = b")
      case False
      show ?thesis using view_hit [OF assms(1) _ x(1) refl refl] x pd [OF x(1) False] by simp
    qed (use dev(2) in simp)
  next
    fix x assume x: "x < nr_buffers s" "b_dev (buffers s x) \<noteq> 0" "b_uptodate (buffers s x)"
    show "disk s (b_dev (buffers s x)) (b_blocknr (buffers s x)) = Some (b_data (buffers s x)) \<or>
       b_dev (buffers t x) = b_dev (buffers s x) \<and> b_blocknr (buffers t x) = b_blocknr (buffers s x) \<and>
       b_uptodate (buffers t x)"
    proof (cases "x = b")
      case True
      then show ?thesis using old assms(2,6) x unfolding coherent_def by blast
    next
      case False
      show ?thesis using pd [OF x(1) False] x by simp
    qed
  qed
  have "coherent t"
    unfolding coherent_def re
  proof (intro allI impI)
    fix x assume x: "x < nr_buffers s"
      "b_dev (buffers t x) \<noteq> 0 \<and> b_uptodate (buffers t x) \<and> \<not> b_dirt (buffers t x)"
    show "disk s (b_dev (buffers t x)) (b_blocknr (buffers t x)) = Some (b_data (buffers t x))"
    proof (cases "x = b")
      case False
      show ?thesis using assms(2) pd [OF x(1) False] x by (simp add: coherent_def)
    qed (use clean x in blast)
  qed
  with v show ?thesis using assms other by (simp add: taken_def)
qed

text \<open>The three cases of \<open>bread\<close>: up to date in the cache, in the cache without data, not cached.\<close>

lemma bread_case_hit:
  assumes c: "calm k s" and r: "readable s dev" and v: "view s dev blk = Some dat"
    and f: "find_buffer dev blk s = Inr (Some b)"
  shows "\<exists>t. bread dev blk s = Inr (Some b, t) \<and> taken b s t \<and> b_data (buffers t b) = dat \<and>
     b_dev (buffers t b) = dev \<and> b_blocknr (buffers t b) = blk"
proof -
  note cd = calmD [OF c]
  have d: "dev \<noteq> 0" using r by (simp add: readable_def)
  have b: "b < nr_buffers s" "b_dev (buffers s b) = dev" "b_blocknr (buffers s b) = blk"
    using find_buffer_iff(1) [OF cd(1) d] f by auto
  have l: "\<not> b_lock (buffers s b)" using cd(4) b by blast
  let ?g = "upd_buf b (\<lambda>h. h\<lparr>b_count := b_count h + 1\<rparr>) s"
  have g: "getblk dev blk s = Inr (b, ?g)" by (rule getblk_hit [OF f l])
  have dk: "\<not> b_uptodate (buffers s b) \<longrightarrow> disk s dev blk = Some dat"
    and dt: "b_uptodate (buffers s b) \<longrightarrow> b_data (buffers s b) = dat"
    using view_hit [OF cd(1) d b] v by (auto split: if_splits)
  let ?t = "if b_uptodate (buffers s b) then ?g
     else upd_buf b (\<lambda>h. h\<lparr>b_data := dat, b_dirt := False, b_uptodate := True\<rparr>) ?g"
  have br: "bread dev blk s = Inr (Some b, ?t)"
    using bread_of_getblk [OF g, of dat] r b l dk by (simp add: readable_def)
  have q: "same_queues s ?t" by (simp add: same_queues_def)
  have dirt: "\<not> b_uptodate (buffers s b) \<Longrightarrow> \<not> b_dirt (buffers s b)" using cd(5) b(1) by blast
  have "taken b s ?t"
  proof (rule takenI [OF cd(1,2)])
    show "cache_inv ?t" using cache_inv_cong [OF q] cd(1) by simp
    show "b_dirt (buffers ?t b) \<or> disk s (b_dev (buffers ?t b)) (b_blocknr (buffers ?t b)) = Some (b_data (buffers ?t b))"
      using dk b d cd(2) by (auto simp: coherent_def)
  qed (use b l v d dt dirt in auto)
  then show ?thesis using br b dt by auto
qed

lemma bread_case_miss:
  assumes c: "calm (Suc k) s" and r: "readable s dev" and v: "view s dev blk = Some dat"
    and f: "find_buffer dev blk s = Inr None"
  shows "\<exists>b t. bread dev blk s = Inr (Some b, t) \<and> taken b s t \<and> b_data (buffers t b) = dat \<and>
     b_dev (buffers t b) = dev \<and> b_blocknr (buffers t b) = blk"
proof -
  note cd = calmD [OF c]
  have d: "dev \<noteq> 0" using r by (simp add: readable_def)
  have no: "\<forall>x<nr_buffers s. \<not> (b_dev (buffers s x) = dev \<and> b_blocknr (buffers s x) = blk)"
    using find_buffer_iff(2) [OF cd(1) d] f by blast
  have dk: "disk s dev blk = Some dat" using view_miss [OF cd(1) d, of blk] no v by auto
  obtain b where b: "b < nr_buffers s" "reusable s b"
    "scan_free_list (Suc (nr_buffers s)) (free_list s) None s = Inr (Some b)"
    using scan_clean [OF cd(1,4)] cd(3) by auto
  have l: "\<not> b_lock (buffers s b)" using cd(4) b by blast
  obtain fl ch where ok: "cache_ok fl ch s" "2 \<le> nr_buffers s" using cd(1) by (auto simp: cache_inv_def)
  from take_buffer_ok [OF ok(1) b(1) ok(2) d no] obtain u ch' where u: "take_buffer b dev blk s = Inr (b, u)"
    "cache_ok (remove1 b fl @ [b]) ch' u"
    "same_payload (upd_buf b (\<lambda>h. h\<lparr>b_count := 1, b_dirt := False, b_uptodate := False,
        b_dev := dev, b_blocknr := blk\<rparr>) s) u" by blast
  note pf = payload_fields [OF u(3)]
  have re: "rest_eq s u" using pf(10) by simp
  have g: "getblk dev blk s = Inr (b, u)" using getblk_miss [OF f b(2) l b(3)] u(1) by simp
  have ru: "readable u dev" using r rest_eqD(3) [OF re] by (simp add: readable_def)
  let ?t = "upd_buf b (\<lambda>h. h\<lparr>b_data := dat, b_dirt := False, b_uptodate := True\<rparr>) u"
  have br: "bread dev blk s = Inr (Some b, ?t)"
    using bread_of_getblk [OF g ru, of dat] l dk rest_eqD(2) [OF re] by (simp add: pf)
  have q: "same_queues u ?t" by (simp add: same_queues_def)
  have iu: "cache_inv u" using u(2) ok(2) rest_eqD(1) [OF re] by (auto simp: cache_inv_def)
  have "taken b s ?t"
  proof (rule takenI [OF cd(1,2)])
    show "cache_inv ?t" using cache_inv_cong [OF q] iu by simp
    show "payload (buffers ?t x) = payload (buffers s x)" if "x < nr_buffers s" "x \<noteq> b" for x
      using that u(3) by (simp add: same_payload_def)
  qed (use b d re l v dk in \<open>simp_all add: pf reusable_def\<close>)
  then show ?thesis using br by (auto simp: pf)
qed

lemma bread_taken:
  assumes "calm (Suc k) s" "readable s dev" "view s dev blk = Some dat"
  shows "\<exists>b t. bread dev blk s = Inr (Some b, t) \<and> taken b s t \<and> b_data (buffers t b) = dat \<and>
     b_dev (buffers t b) = dev \<and> b_blocknr (buffers t b) = blk"
proof -
  have d: "dev \<noteq> 0" using assms(2) by (simp add: readable_def)
  obtain r where "find_buffer dev blk s = Inr r"
    using find_buffer_iff [OF calmD(1) [OF assms(1)] d, of blk] by blast
  then show ?thesis
    using bread_case_hit [OF assms] bread_case_miss [OF assms] by (cases r) blast+
qed

lemma brelse_taken:
  assumes "taken b s t" "b_count (buffers s b) \<noteq> - 1" and l: "\<not> b_lock (buffers s b)"
  shows "\<exists>u. brelse (Some b) t = Inr u \<and> same_view s u"
proof -
  let ?u = "upd_buf b (\<lambda>h. h\<lparr>b_count := b_count h - 1\<rparr>) t"
  have t: "cache_inv t" "coherent t" "rest_eq s t" "view t = view s" "b < nr_buffers s" "b_uptodate (buffers t b)"
    "\<not> b_lock (buffers t b)" "b_dirt (buffers t b) = b_dirt (buffers s b)" "b_count (buffers t b) = b_count (buffers s b) + 1"
    "\<And>x. x < nr_buffers s \<Longrightarrow> x \<noteq> b \<Longrightarrow> payload (buffers t x) = payload (buffers s x)"
    using assms(1) by (auto simp: taken_def)
  have "b_count (buffers t b) \<noteq> 0" using t(9) assms(2) by (metis add_eq_0_iff2 add_cancel_right_right)
  then have br: "brelse (Some b) t = Inr ?u" using t(7) by (simp add: brelse_def wait_on_buffer_def)
  have q: "same_queues t ?u" by (simp add: same_queues_def)
  have iu: "cache_inv ?u" using cache_inv_cong [OF q] t(1) by simp
  have "view ?u = view t"
    by (rule view_eqI [OF t(1) iu]) (use view_hit [OF t(1)] in \<open>auto split: if_splits\<close>)
  moreover have "coherent ?u" using t(2) by (auto simp: coherent_def)
  moreover have "b_lock (buffers ?u x) = b_lock (buffers s x) \<and> b_dirt (buffers ?u x) = b_dirt (buffers s x) \<and>
      b_count (buffers ?u x) = b_count (buffers s x) \<and>
      (b_dirt (buffers s x) \<and> b_uptodate (buffers s x) \<longrightarrow> b_uptodate (buffers ?u x))"
    if x: "x < nr_buffers s" for x
  proof (cases "x = b")
    case True
    then show ?thesis using t l by simp
  next
    case False
    then show ?thesis using payload_dest [OF t(10) [OF x False]] by simp
  qed
  ultimately have "same_view s ?u" using iu t(3,4) by (simp add: same_view_def)
  with br show ?thesis by blast
qed

lemma spare_cong:
  assumes "nr_buffers t = nr_buffers s" "\<And>b. b < nr_buffers s \<Longrightarrow> reusable t b = reusable s b"
  shows "spare t = spare s"
proof -
  have "List.filter (reusable t) [0..<nr_buffers s] = List.filter (reusable s) [0..<nr_buffers s]"
    by (rule filter_cong) (use assms(2) in auto)
  then show ?thesis by (simp add: spare_def assms(1))
qed

lemma same_view_calm:
  assumes "same_view s u" "calm k s"
  shows "calm k u"
proof -
  have s: "cache_inv u" "coherent u" "rest_eq s u" using assms(1) by (auto simp: same_view_def)
  note nr = rest_eqD(1) [OF s(3)]
  have x: "b_lock (buffers u x) = b_lock (buffers s x) \<and> b_dirt (buffers u x) = b_dirt (buffers s x) \<and>
      b_count (buffers u x) = b_count (buffers s x) \<and>
      (b_dirt (buffers s x) \<and> b_uptodate (buffers s x) \<longrightarrow> b_uptodate (buffers u x))" if "x < nr_buffers s" for x
    using assms(1) that unfolding same_view_def by blast
  have "spare u = spare s" by (rule spare_cong) (use nr x in \<open>auto simp: reusable_def\<close>)
  then show ?thesis using s nr x assms(2) unfolding calm_def by simp
qed

lemma same_view_refl: "calm k s \<Longrightarrow> same_view s s"
  by (auto simp: same_view_def calm_def)

lemma same_view_trans: "same_view s t \<Longrightarrow> same_view t u \<Longrightarrow> same_view s u"
  using rest_eq_trans [of s t u] rest_eqD(1) [of s t] by (auto simp: same_view_def)

section \<open>Which buffer is reused\<close>


section \<open>The contract of the cache for its clients\<close>

text \<open>
  Reading a block and giving it back: what the file system code needs to know of the cache.
  \<open>ok k\<close> says that \<open>k\<close> buffers can be held at the same time.
\<close>

locale block_reader =
  fixes rd :: "u16 \<Rightarrow> u32 \<Rightarrow> kst \<Rightarrow> (nat option \<times> kst) kres"
    and rel :: "nat option \<Rightarrow> kst \<Rightarrow> kst kres"
    and ok :: "nat \<Rightarrow> kst \<Rightarrow> bool"
    and contents :: "kst \<Rightarrow> u16 \<Rightarrow> u32 \<Rightarrow> block option"
    and held :: "nat \<Rightarrow> kst \<Rightarrow> kst \<Rightarrow> bool"
    and eqv :: "kst \<Rightarrow> kst \<Rightarrow> bool"
  assumes rd: "ok (Suc k) s \<Longrightarrow> readable s dev \<Longrightarrow> contents s dev blk = Some d \<Longrightarrow>
      \<exists>b t. rd dev blk s = Inr (Some b, t) \<and> held b s t \<and> b_data (buffers t b) = d"
    and rel: "ok (Suc k) s \<Longrightarrow> held b s t \<Longrightarrow> \<exists>u. rel (Some b) t = Inr u \<and> eqv s u"
    and rel_none: "rel None s = Inr s"
    and eqv_ok: "ok k s \<Longrightarrow> eqv s u \<Longrightarrow> ok k u"
    and eqv_contents: "eqv s u \<Longrightarrow> contents u = contents s"
    and eqv_rest: "eqv s u \<Longrightarrow> rest_eq s u"
    and eqv_refl: "ok k s \<Longrightarrow> eqv s s"
    and eqv_trans: "eqv s t \<Longrightarrow> eqv t u \<Longrightarrow> eqv s u"
begin

text \<open>Read a block, compute something from its data, release it.\<close>

lemma read_use_release:
  assumes "ok (Suc k) s" "readable s dev" "contents s dev blk = Some d"
  shows "\<exists>u. bindk (rd dev blk s) (\<lambda>(r, s). case r of None \<Rightarrow> g s
      | Some b \<Rightarrow> bindk (rel (Some b) s) (\<lambda>t. Inr (f (b_data (buffers s b)), t))) = Inr (f d, u) \<and>
    eqv s u \<and> ok (Suc k) u"
proof -
  obtain b t where t: "rd dev blk s = Inr (Some b, t)" "held b s t" "b_data (buffers t b) = d"
    using rd [OF assms] by blast
  obtain u where "rel (Some b) t = Inr u" "eqv s u" using rel [OF assms(1) t(2)] by blast
  then show ?thesis using t eqv_ok [OF assms(1)] by auto
qed

lemma eqv_readable: "eqv s u \<Longrightarrow> readable u dev = readable s dev"
  using rest_eqD(3) [OF eqv_rest] by (simp add: readable_def)

end

lemma unat_m1_u8: "unat (- 1 :: u8) = 255"
proof -
  have "(- 1 :: u8) = 255" by simp
  then show ?thesis by (simp only:) simp
qed

interpretation cache: block_reader bread brelse calm view taken same_view
proof
  fix k s dev blk d
  assume "calm (Suc k) s" "readable s dev" "view s dev blk = Some d"
  from bread_taken [OF this]
  show "\<exists>b t. bread dev blk s = Inr (Some b, t) \<and> taken b s t \<and> b_data (buffers t b) = d" by metis
next
  fix k s b t
  assume c: "calm (Suc k) s" and t: "taken b s t"
  then have "b < nr_buffers s" by (simp add: taken_def)
  then have le: "unat (b_count (buffers s b)) + Suc k < 256" and l: "\<not> b_lock (buffers s b)"
    using calmD(4,5) [OF c] calmD(6) [OF c] by blast+
  have "b_count (buffers s b) \<noteq> - 1"
  proof
    assume "b_count (buffers s b) = - 1"
    with le have "255 + Suc k < 256" by (simp only: unat_m1_u8)
    then show False by simp
  qed
  note * = this l
  from brelse_taken [OF t *] show "\<exists>u. brelse (Some b) t = Inr u \<and> same_view s u" .
next
  show "brelse None s = Inr s" for s by (simp add: brelse_def)
  show "calm k u" if "calm k s" "same_view s u" for k s u by (rule same_view_calm [OF that(2,1)])
  show "view u = view s" "rest_eq s u" if "same_view s u" for s u
    using that by (simp_all add: same_view_def)
  show "same_view s s" if "calm k s" for k s by (rule same_view_refl [OF that])
  show "same_view s u" if "same_view s t" "same_view t u" for s t u by (rule same_view_trans [OF that])
qed

text \<open>
  C14: bread refines reading the abstract disk: when the view of the cache over the disk has
  contents for a block of a readable device and one more buffer can be taken, bread returns
  a buffer with exactly these contents, which is held for the caller, and every block keeps
  its view.
\<close>

theorem bread_calm:
  assumes "calm (Suc k) s" "readable s dev" "view s dev blk = Some dat"
  shows "\<exists>b t u. bread dev blk s = Inr (Some b, t) \<and> b_data (buffers t b) = dat \<and> b_dev (buffers t b) = dev \<and>
     b_blocknr (buffers t b) = blk \<and> taken b s t \<and> brelse (Some b) t = Inr u \<and> same_view s u \<and> calm (Suc k) u"
  using bread_taken [OF assms] cache.rel [OF assms(1)] cache.eqv_ok [OF assms(1)] by metis

section \<open>Witnesses on a small cache\<close>

lemma ex_calm: "calm 2 ex_cache"
proof -
  have "\<forall>b<3. reusable ex_cache b" by (simp add: reusable_def ex_cache_fields empty_head_def)
  moreover have "[0..<3] = [0, 1, 2::nat]" by (simp add: upt_rec)
  ultimately have "spare ex_cache = 3" by (simp add: spare_def ex_cache_inv)
  then show ?thesis
    by (simp add: calm_def ex_cache_inv coherent_def ex_cache_fields empty_head_def)
qed

lemma ex_view: "view ex_cache 0x101 blk = Some (\<lambda>_. ucast blk)" "readable ex_cache 0x101"
proof -
  show "readable ex_cache 0x101"
    by (simp add: readable_def MAJOR_def ex_cache_def buffer_init_def Let_def)
  have "view ex_cache 0x101 blk = disk ex_cache 0x101 blk"
    by (rule view_miss [OF ex_cache_inv(1)]) (simp_all add: ex_cache_inv(2) ex_cache_fields empty_head_def ex_buffer_def)
  then show "view ex_cache 0x101 blk = Some (\<lambda>_. ucast blk)"
    by (simp add: ex_cache_def buffer_init_def Let_def)
qed

theorem bread_calm_witness:
  "\<exists>b t. bread 0x101 7 ex_cache = Inr (Some b, t) \<and> b_data (buffers t b) = (\<lambda>_. 7)"
proof -
  have "calm (Suc 1) ex_cache" using ex_calm by (simp add: numeral_2_eq_2)
  from bread_calm [OF this ex_view(2) ex_view(1) [of 7]] show ?thesis by auto
qed


end
