(* ===== verification/Buffer_Write.thy ===== *)
theory Buffer_Write imports Buffer_View begin

text \<open>
  Changing a block through the cache: a client reads the block, stores new contents into the buffer,
  marks it dirty and releases it. The view of the disk changes at that block and nowhere else.
\<close>

section \<open>States with the same cache\<close>

definition same_cache :: "kst \<Rightarrow> kst \<Rightarrow> bool" where
  "same_cache s t \<longleftrightarrow> buffers t = buffers s \<and> nr_buffers t = nr_buffers s \<and> hash_table t = hash_table s \<and>
     free_list t = free_list s \<and> disk t = disk s \<and> has_driver t = has_driver s"

lemma same_cache_chain: "same_cache s t \<Longrightarrow> find_chain n dev blk b t = find_chain n dev blk b s"
  by (induction n dev blk b s rule: find_chain.induct) (simp_all add: same_cache_def)

lemma same_cache_view:
  assumes "same_cache s t"
  shows "view t = view s"
  by (intro ext) (use same_cache_chain [OF assms] assms in \<open>simp add: view_def find_buffer_def same_cache_def split: sum.split option.split\<close>)

lemma same_cache_inv: "same_cache s t \<Longrightarrow> cache_inv t = cache_inv s"
  by (rule cache_inv_cong) (simp add: same_cache_def same_queues_def)

lemma same_cache_calm: "same_cache s t \<Longrightarrow> calm k t = calm k s"
  using same_cache_inv [of s t]
  by (simp add: calm_def coherent_def spare_def reusable_def same_cache_def cong: filter_cong)

lemma same_cache_readable: "same_cache s t \<Longrightarrow> readable t dev = readable s dev"
  by (simp add: readable_def same_cache_def)

lemma same_cache_simps [simp]:
  "same_cache s (t\<lparr>umem := m\<rparr>) = same_cache s t" "same_cache s (upd_inode i f t) = same_cache s t"
  "same_cache s (t\<lparr>super_block := b\<rparr>) = same_cache s t" "same_cache s (t\<lparr>inode_table := c\<rparr>) = same_cache s t"
  "same_cache s (upd_file j g t) = same_cache s t" "same_cache s (upd_cur h t) = same_cache s t" "same_cache s s"
  by (simp_all add: same_cache_def upd_inode_def upd_file_def upd_cur_def upd_task_def)

section \<open>Storing into a buffer\<close>

definition store_buf :: "nat \<Rightarrow> block \<Rightarrow> kst \<Rightarrow> kst" where
  "store_buf b d s = upd_buf b (\<lambda>h. h\<lparr>b_data := d, b_dirt := True\<rparr>) s"

lemma store_buf_ok:
  assumes "cache_inv s" "coherent s"
  shows "cache_inv (store_buf b d s)" "coherent (store_buf b d s)" "rest_eq s (store_buf b d s)"
proof -
  have q: "same_queues s (store_buf b d s)" by (simp add: same_queues_def store_buf_def)
  show "cache_inv (store_buf b d s)" using cache_inv_cong [OF q] assms(1) by simp
  show "coherent (store_buf b d s)" using assms(2) by (auto simp: coherent_def store_buf_def)
  show "rest_eq s (store_buf b d s)" by (simp add: store_buf_def)
qed

lemma cache_inv_uniq:
  assumes "cache_inv s" "a < nr_buffers s" "b < nr_buffers s" "b_dev (buffers s a) \<noteq> 0"
    "b_dev (buffers s a) = b_dev (buffers s b)" "b_blocknr (buffers s a) = b_blocknr (buffers s b)"
  shows "a = b"
  using assms cache_ok_uniq by (auto simp: cache_inv_def)

lemma store_buf_view:
  assumes "cache_inv s" "coherent s" "b < nr_buffers s" "b_dev (buffers s b) \<noteq> 0" "b_uptodate (buffers s b)"
  shows "view (store_buf b d s) =
    (view s)(b_dev (buffers s b) := (view s (b_dev (buffers s b)))(b_blocknr (buffers s b) \<mapsto> d))"
proof (intro ext)
  fix dev blk
  let ?t = "store_buf b d s"
  note ok = store_buf_ok [OF assms(1,2), of b d]
  have f: "b_dev (buffers ?t x) = b_dev (buffers s x)" "b_blocknr (buffers ?t x) = b_blocknr (buffers s x)"
    "b_uptodate (buffers ?t x) = b_uptodate (buffers s x)" "b_data (buffers ?t x) = (if x = b then d else b_data (buffers s x))"
    "nr_buffers ?t = nr_buffers s" "disk ?t = disk s" for x
    by (simp_all add: store_buf_def)
  consider "dev = 0" | (hit) c where "dev \<noteq> 0" "c < nr_buffers s" "b_dev (buffers s c) = dev" "b_blocknr (buffers s c) = blk"
    | (miss) "dev \<noteq> 0" "\<not> (\<exists>c<nr_buffers s. b_dev (buffers s c) = dev \<and> b_blocknr (buffers s c) = blk)" by blast
  then show "view ?t dev blk =
      ((view s)(b_dev (buffers s b) := (view s (b_dev (buffers s b)))(b_blocknr (buffers s b) \<mapsto> d))) dev blk"
  proof cases
    case 1
    then show ?thesis using assms(4) view_none [OF assms(1)] view_none [OF ok(1)] f by auto
  next
    case hit
    have "c = b" if "b_dev (buffers s b) = dev" "b_blocknr (buffers s b) = blk"
      using cache_inv_uniq [OF assms(1) hit(2) assms(3)] hit assms(4) that by simp
    then show ?thesis using view_hit [OF assms(1) hit] view_hit [OF ok(1), of dev c blk] hit f assms(5) by auto
  next
    case miss
    then show ?thesis using view_miss [OF assms(1), of dev blk] view_miss [OF ok(1), of dev blk] f assms(3) by auto
  qed
qed


text \<open>
  \<open>wrote dev blk d s u\<close>: block \<open>blk\<close> of \<open>dev\<close> now holds \<open>d\<close>; no buffer is locked or in use
  that was not, and at most one has become dirty.
\<close>

definition wrote :: "u16 \<Rightarrow> u32 \<Rightarrow> block \<Rightarrow> kst \<Rightarrow> kst \<Rightarrow> bool" where
  "wrote dev blk d s u \<longleftrightarrow> cache_inv u \<and> coherent u \<and> rest_eq s u \<and>
     view u = (view s)(dev := (view s dev)(blk \<mapsto> d)) \<and>
     (\<forall>x<nr_buffers s. b_lock (buffers u x) = b_lock (buffers s x) \<and> b_count (buffers u x) = b_count (buffers s x) \<and>
        (b_dirt (buffers u x) \<longrightarrow> b_uptodate (buffers u x) \<or> b_dirt (buffers s x) \<and> \<not> b_uptodate (buffers s x))) \<and>
     (\<exists>b. \<forall>x<nr_buffers s. x \<noteq> b \<longrightarrow> b_dirt (buffers u x) = b_dirt (buffers s x))"

lemma spare_less:
  assumes "nr_buffers u = nr_buffers s" "\<And>x. x < nr_buffers s \<Longrightarrow> x \<noteq> b \<Longrightarrow> reusable u x = reusable s x"
  shows "spare s \<le> Suc (spare u)"
proof -
  have fin: "spare v = card {x. x < nr_buffers v \<and> reusable v x}" for v
  proof -
    have "distinct (List.filter (reusable v) [0..<nr_buffers v])" by simp
    from distinct_card [OF this] show ?thesis by (simp add: spare_def conj_commute)
  qed
  have "{x. x < nr_buffers s \<and> reusable s x} \<subseteq> insert b {x. x < nr_buffers u \<and> reusable u x}"
    using assms by auto
  then have "card {x. x < nr_buffers s \<and> reusable s x} \<le> card (insert b {x. x < nr_buffers u \<and> reusable u x})"
    by (intro card_mono) auto
  also have "\<dots> \<le> Suc (card {x. x < nr_buffers u \<and> reusable u x})" by (rule card_insert_le_m1) auto
  finally show ?thesis by (simp add: fin)
qed

lemma wrote_calm:
  assumes "calm (Suc k) s" "wrote dev blk d s u"
  shows "calm k u"
proof -
  have w: "cache_inv u" "coherent u" "rest_eq s u" using assms(2) by (simp_all add: wrote_def)
  note nr = rest_eqD(1) [OF w(3)]
  obtain b where b: "\<forall>x<nr_buffers s. x \<noteq> b \<longrightarrow> b_dirt (buffers u x) = b_dirt (buffers s x)"
    using assms(2) by (auto simp: wrote_def)
  have x: "b_lock (buffers u x) = b_lock (buffers s x)" "b_count (buffers u x) = b_count (buffers s x)"
    "b_dirt (buffers u x) \<longrightarrow> b_uptodate (buffers u x) \<or> b_dirt (buffers s x) \<and> \<not> b_uptodate (buffers s x)"
    if "x < nr_buffers s" for x using assms(2) that by (simp_all add: wrote_def)
  have "spare s \<le> Suc (spare u)"
    by (rule spare_less [OF nr, of b]) (use b x in \<open>simp add: reusable_def\<close>)
  then show ?thesis using assms(1) w nr x unfolding calm_def
    by (metis Suc_leD Suc_le_mono Suc_lessD add_Suc_right le_trans)
qed

lemma store_release:
  assumes "taken b s t" "b_dev (buffers t b) \<noteq> 0" "b_count (buffers s b) \<noteq> - 1" "\<not> b_lock (buffers s b)"
  shows "\<exists>u. brelse (Some b) (store_buf b d t) = Inr u \<and>
     wrote (b_dev (buffers t b)) (b_blocknr (buffers t b)) d s u"
proof -
  have t: "cache_inv t" "coherent t" "rest_eq s t" "view t = view s" "b < nr_buffers s" "b_uptodate (buffers t b)"
    "\<not> b_lock (buffers t b)" "b_count (buffers t b) = b_count (buffers s b) + 1"
    "\<And>x. x < nr_buffers s \<Longrightarrow> x \<noteq> b \<Longrightarrow> payload (buffers t x) = payload (buffers s x)"
    using assms(1) by (auto simp: taken_def)
  note nr = rest_eqD(1) [OF t(3)]
  let ?v = "store_buf b d t"
  let ?u = "upd_buf b (\<lambda>h. h\<lparr>b_count := b_count h - 1\<rparr>) ?v"
  note v = store_buf_ok [OF t(1,2), of b d] store_buf_view [OF t(1,2) _ assms(2) t(6), of d]
  have "b_count (buffers t b) \<noteq> 0" using t(8) assms(3) by (metis add_eq_0_iff2 add_cancel_right_right)
  then have br: "brelse (Some b) ?v = Inr ?u" using t(7) by (simp add: brelse_def wait_on_buffer_def store_buf_def)
  have q: "same_queues ?v ?u" by (simp add: same_queues_def)
  have iu: "cache_inv ?u" using cache_inv_cong [OF q] v(1) by simp
  have "view ?u = view ?v"
    by (rule view_eqI [OF v(1) iu]) (use view_hit [OF v(1)] in \<open>auto split: if_splits\<close>)
  moreover have "coherent ?u" using v(2) by (auto simp: coherent_def)
  moreover have "b_lock (buffers ?u x) = b_lock (buffers s x) \<and> b_count (buffers ?u x) = b_count (buffers s x) \<and>
      (b_dirt (buffers ?u x) \<longrightarrow> b_uptodate (buffers ?u x) \<or> b_dirt (buffers s x) \<and> \<not> b_uptodate (buffers s x)) \<and>
      (x \<noteq> b \<longrightarrow> b_dirt (buffers ?u x) = b_dirt (buffers s x))"
    if x: "x < nr_buffers s" for x
  proof (cases "x = b")
    case True
    then show ?thesis using t assms(4) by (simp add: store_buf_def)
  next
    case False
    then show ?thesis using payload_dest [OF t(9) [OF x False]] by (simp add: store_buf_def)
  qed
  ultimately have "wrote (b_dev (buffers t b)) (b_blocknr (buffers t b)) d s ?u"
    unfolding wrote_def using iu v t(3,4,5) nr by (auto intro: rest_eq_trans)
  with br show ?thesis by blast
qed


section \<open>The interface for writers\<close>

locale block_writer = block_reader +
  fixes st :: "nat \<Rightarrow> block \<Rightarrow> kst \<Rightarrow> kst"
    and written :: "u16 \<Rightarrow> u32 \<Rightarrow> block \<Rightarrow> kst \<Rightarrow> kst \<Rightarrow> bool"
  assumes rd_st: "ok (Suc k) s \<Longrightarrow> readable s dev \<Longrightarrow> contents s dev blk = Some d \<Longrightarrow>
      \<exists>b t. rd dev blk s = Inr (Some b, t) \<and> rest_eq s t \<and> b_data (buffers t b) = d \<and>
        (\<forall>d'. \<exists>u. rel (Some b) (st b d' t) = Inr u \<and> written dev blk d' s u)"
    and written_ok: "ok (Suc k) s \<Longrightarrow> written dev blk d s u \<Longrightarrow> ok k u"
    and written_contents: "written dev blk d s u \<Longrightarrow> contents u = (contents s)(dev := (contents s dev)(blk \<mapsto> d))"
    and written_rest: "written dev blk d s u \<Longrightarrow> rest_eq s u"
    and rel_inode: "rel b s = Inr u \<Longrightarrow> rel b (upd_inode i f s) = Inr (upd_inode i f u)"
begin

text \<open>Read a block, store a function of its data and of the other state, release it.\<close>

lemma read_modify_release:
  assumes "ok (Suc k) s" "readable s dev" "contents s dev blk = Some d"
    and "\<And>t. rest_eq s t \<Longrightarrow> g t = g s"
  shows "\<exists>b t u. rd dev blk s = Inr (Some b, t) \<and> rest_eq s t \<and> b_data (buffers t b) = d \<and>
    rel (Some b) (upd_inode i f (st b (g t d) t)) = Inr (upd_inode i f u) \<and> written dev blk (g s d) s u \<and> ok k u"
proof -
  obtain b t where t: "rd dev blk s = Inr (Some b, t)" "rest_eq s t" "b_data (buffers t b) = d"
    and w: "\<forall>d'. \<exists>u. rel (Some b) (st b d' t) = Inr u \<and> written dev blk d' s u"
    using rd_st [OF assms(1-3)] by blast
  obtain u where "rel (Some b) (st b (g t d) t) = Inr u" "written dev blk (g t d) s u" using w by blast
  then show ?thesis using t assms(4) [OF t(2)] rel_inode written_ok [OF assms(1)] by metis
qed

end

lemma count_not_max:
  assumes "calm (Suc k) s" "b < nr_buffers s"
  shows "b_count (buffers s b) \<noteq> - 1"
proof
  assume "b_count (buffers s b) = - 1"
  then have "255 + Suc k < 256" using calmD(6) [OF assms(1,2)] by (simp only: unat_m1_u8)
  then show False by simp
qed

interpretation cache_w: block_writer bread brelse calm view taken same_view store_buf wrote
proof
  fix k s dev blk d
  assume c: "calm (Suc k) s" and r: "readable s dev" and v: "view s dev blk = Some d"
  obtain b t where t: "bread dev blk s = Inr (Some b, t)" "taken b s t" "b_data (buffers t b) = d"
    "b_dev (buffers t b) = dev" "b_blocknr (buffers t b) = blk"
    using bread_taken [OF c r v] by blast
  have b: "b < nr_buffers s" and re: "rest_eq s t" using t(2) by (simp_all add: taken_def)
  have "\<exists>u. brelse (Some b) (store_buf b d' t) = Inr u \<and> wrote dev blk d' s u" for d'
    using store_release [OF t(2) _ count_not_max [OF c b], of d'] r t calmD(4) [OF c] b by (simp add: readable_def)
  then show "\<exists>b t. bread dev blk s = Inr (Some b, t) \<and> rest_eq s t \<and> b_data (buffers t b) = d \<and>
      (\<forall>d'. \<exists>u. brelse (Some b) (store_buf b d' t) = Inr u \<and> wrote dev blk d' s u)"
    using t re by blast
next
  show "calm k u" if "calm (Suc k) s" "wrote dev blk d s u" for k s dev blk d u by (rule wrote_calm [OF that])
  show "view u = (view s)(dev := (view s dev)(blk \<mapsto> d))" "rest_eq s u" if "wrote dev blk d s u" for dev blk d s u
    using that by (simp_all add: wrote_def)
  show "brelse b (upd_inode i f s) = Inr (upd_inode i f u)" if "brelse b s = Inr u" for b i f s u
    using that by (auto simp: brelse_def wait_on_buffer_def upd_inode_def upd_buf_def split: option.splits if_splits)
qed


text \<open>Reading a block and releasing it at once.\<close>

lemma bread_release:
  assumes "calm (Suc k) s" "readable s dev" "view s dev blk = Some d"
  shows "\<exists>b t u. bread dev blk s = Inr (Some b, t) \<and> rest_eq s t \<and> b_data (buffers t b) = d \<and>
     brelse (Some b) t = Inr u \<and> same_view s u \<and> calm (Suc k) u"
proof -
  obtain b t where t: "bread dev blk s = Inr (Some b, t)" "taken b s t" "b_data (buffers t b) = d"
    using bread_taken [OF assms] by blast
  obtain u where "brelse (Some b) t = Inr u" "same_view s u" using cache.rel [OF assms(1) t(2)] by blast
  then show ?thesis using t cache.eqv_ok [OF assms(1)] by (auto simp: taken_def)
qed

lemma same_viewD:
  assumes "same_view s u"
  shows "view u = view s" "inode_table u = inode_table s" "readable u dev = readable s dev" "umem u = umem s"
    "super_block u = super_block s" "file_table u = file_table s" "task u = task s" "current u = current s"
  using cache.eqv_contents [OF assms] rest_eqD [OF cache.eqv_rest [OF assms]] cache.eqv_readable [OF assms] by simp_all

end
