(* ===== verification/Inode_Lemmas.thy ===== *)
theory Inode_Lemmas imports Buffer_Write Inode begin

text \<open>
  Disk inodes: the layout of \<open>struct d_inode\<close> in a block is a round trip, \<open>write_inode\<close> stores the
  inode on the disk the cache represents and \<open>read_inode\<close> gets it back; \<open>bmap\<close> computes the zone
  number that the inode and its indirect blocks give.
\<close>

section \<open>Half words and words of a block\<close>

lemma bit_get16_iff: "bit (get16 d k) n \<longleftrightarrow> n < 8 \<and> bit (d k) n \<or> 8 \<le> n \<and> n < 16 \<and> bit (d (k + 1)) (n - 8)"
  using bit_imp_le_length [of "d k" n] bit_imp_le_length [of "d (k + 1)" "n - 8"]
  by (auto simp: get16_def bit_or_iff bit_ucast_iff bit_push_bit_iff)

lemma put16_at: "put16 k v d i = (if i = k then ucast v else if i = k + 1 then ucast (drop_bit 8 v) else d i)"
  by (simp add: put16_def)

lemma get16_put16 [simp]: "get16 (put16 k v d) k = v"
  by (rule bit_word_eqI) (auto simp: bit_get16_iff put16_at bit_ucast_iff bit_drop_bit_eq)

lemma get16_cong: "d k = e k \<Longrightarrow> d (k + 1) = e (k + 1) \<Longrightarrow> get16 d k = get16 e k"
  by (simp add: get16_def)

lemma get16_put16_other: "k + 1 < j \<or> j + 1 < k \<Longrightarrow> get16 (put16 j v d) k = get16 d k"
  by (rule get16_cong) (auto simp: put16_at)

lemma bit_get32_iff: "bit (get32 d k) n \<longleftrightarrow> n < 16 \<and> bit (get16 d k) n \<or> 16 \<le> n \<and> n < 32 \<and> bit (get16 d (k + 2)) (n - 16)"
  using bit_imp_le_length [of "get16 d k" n] bit_imp_le_length [of "get16 d (k + 2)" "n - 16"]
  by (auto simp: get32_def bit_or_iff bit_ucast_iff bit_push_bit_iff)

lemma get32_put32 [simp]: "get32 (put32 k v d) k = v"
  by (rule bit_word_eqI)
    (auto simp: bit_get32_iff put32_def get16_put16_other bit_ucast_iff bit_drop_bit_eq)

lemma get32_cong: "(\<And>i. k \<le> i \<Longrightarrow> i < k + 4 \<Longrightarrow> d i = e i) \<Longrightarrow> get32 d k = get32 e k"
  using get16_cong [of d k e] get16_cong [of d "k + 2" e] by (simp add: get32_def)

lemma put32_at: "i < k \<or> k + 4 \<le> i \<Longrightarrow> put32 k v d i = d i"
  by (auto simp: put32_def put16_at)

section \<open>The disk inode\<close>

text \<open>The nine zone numbers are stored by a loop over descending indices.\<close>

lemma put_zones_at:
  "i < k + 14 \<or> k + 14 + 2 * n \<le> i \<Longrightarrow>
   foldr (\<lambda>j. put16 (k + 14 + 2 * j) (z j)) [0..<n] d i = d i"
  by (induction n arbitrary: d) (auto simp: put16_at)

lemma get_put_zones:
  "j < n \<Longrightarrow> get16 (foldr (\<lambda>j. put16 (k + 14 + 2 * j) (z j)) [0..<n] d) (k + 14 + 2 * j) = z j"
proof (induction n arbitrary: d)
  case (Suc n)
  show ?case
  proof (cases "j = n")
    case True
    have "get16 (foldr (\<lambda>j. put16 (k + 14 + 2 * j) (z j)) [0..<n] e) (k + 14 + 2 * n) = get16 e (k + 14 + 2 * n)" for e
      by (rule get16_cong) (simp_all add: put_zones_at)
    then show ?thesis using True by simp
  next
    case False
    then show ?thesis using Suc by simp
  qed
qed simp

lemma get_put_d_inode:
  "get_d_inode k (put_d_inode k n d) m = n\<lparr>i_zone := (\<lambda>j. if j < 9 then i_zone n j else i_zone m j),
     i_atime := i_atime m, i_ctime := i_ctime m, i_dev := i_dev m, i_num := i_num m, i_count := i_count m,
     i_lock := i_lock m, i_dirt := i_dirt m, i_pipe := i_pipe m, i_mount := i_mount m\<rparr> \<and>
   (\<forall>i. i < k \<or> k + 32 \<le> i \<longrightarrow> put_d_inode k n d i = d i)"
proof -
  define e where "e = (put32 (k + 8) (i_mtime n) (put32 (k + 4) (i_size n) (put16 (k + 2) (i_uid n)
         (put16 k (i_mode n) d))))(k + 12 := i_gid n, k + 13 := i_nlinks n)"
  have p: "put_d_inode k n d = foldr (\<lambda>j. put16 (k + 14 + 2 * j) (i_zone n j)) [0..<9] e"
    by (simp add: put_d_inode_def e_def)
  have lo: "put_d_inode k n d i = e i" if "i < k + 14" for i using that by (simp add: p put_zones_at)
  have lo16: "get16 (put_d_inode k n d) i = get16 e i" if "i + 1 < k + 14" for i
    by (rule get16_cong) (use that in \<open>simp_all add: lo\<close>)
  have lo32: "get32 (put_d_inode k n d) i = get32 e i" if "i + 3 < k + 14" for i
    by (rule get32_cong) (use that in \<open>simp_all add: lo\<close>)
  have "get16 e k = get16 (put16 k (i_mode n) d) k" "get16 e (k + 2) = get16 (put16 (k + 2) (i_uid n) d) (k + 2)"
    by (rule get16_cong; simp add: e_def put32_at put16_at)+
  moreover have "get32 e (k + 4) = get32 (put32 (k + 4) (i_size n) (put16 (k + 2) (i_uid n) (put16 k (i_mode n) d))) (k + 4)"
    by (rule get32_cong) (simp add: e_def put32_at)
  moreover have "get32 e (k + 8) = get32 (put32 (k + 8) (i_mtime n) (put32 (k + 4) (i_size n) (put16 (k + 2) (i_uid n)
      (put16 k (i_mode n) d)))) (k + 8)"
    by (rule get32_cong) (simp add: e_def)
  moreover have "e (k + 12) = i_gid n" "e (k + 13) = i_nlinks n" by (simp_all add: e_def)
  moreover have z: "get16 (put_d_inode k n d) (k + 14 + 2 * j) = i_zone n j" if "j < 9" for j
    unfolding p by (rule get_put_zones [OF that])
  ultimately have "get_d_inode k (put_d_inode k n d) m = m\<lparr>i_mode := i_mode n, i_uid := i_uid n, i_size := i_size n,
      i_mtime := i_mtime n, i_gid := i_gid n, i_nlinks := i_nlinks n,
      i_zone := (\<lambda>j. if j < 9 then i_zone n j else i_zone m j)\<rparr>"
    using lo [of "k + 12"] lo [of "k + 13"] lo16 [of k] lo16 [of "k + 2"] lo32 [of "k + 4"] lo32 [of "k + 8"]
    unfolding get_d_inode_def by (simp cong: if_cong)
  moreover have "put_d_inode k n d i = d i" if "i < k \<or> k + 32 \<le> i" for i
    using that by (auto simp: p put_zones_at e_def put32_at put16_at)
  ultimately show ?thesis by (cases m; cases n) simp
qed


section \<open>write_inode and read_inode\<close>

lemma get_super_cong: "super_block t = super_block s \<Longrightarrow> get_super dev s = Inr r \<Longrightarrow> get_super dev t = Inr r"
proof -
  have "find_super n i dev t = find_super n i dev s" if "super_block t = super_block s" for n i
    using that by (induction n arbitrary: i) auto
  then show "super_block t = super_block s \<Longrightarrow> get_super dev s = Inr r \<Longrightarrow> get_super dev t = Inr r"
    by (auto simp: get_super_def wait_on_super_def split: if_splits option.splits)
qed

text \<open>The block an in-core inode lives in, and that its data can be read.\<close>

definition home_block :: "nat \<Rightarrow> kst \<Rightarrow> nat \<Rightarrow> u32" where
  "home_block i s sb = inode_block sb (i_num (inode_table s i)) s"

definition stored_inode :: "nat \<Rightarrow> kst \<Rightarrow> nat \<Rightarrow> block \<Rightarrow> bool" where
  "stored_inode i s sb d \<longleftrightarrow> \<not> i_lock (inode_table s i) \<and> readable s (i_dev (inode_table s i)) \<and>
     get_super (i_dev (inode_table s i)) s = Inr (Some sb) \<and>
     view s (i_dev (inode_table s i)) (home_block i s sb) = Some d"

lemma write_inode_stores:
  assumes c: "calm (Suc k) s" and st: "stored_inode i s sb d" and dirty: "i_dirt (inode_table s i)"
  shows "\<exists>u. write_inode i s = Inr u \<and> calm k u \<and>
    view u = (view s)(i_dev (inode_table s i) := (view s (i_dev (inode_table s i)))(home_block i s sb \<mapsto>
      put_d_inode (inode_offset (i_num (inode_table s i))) (inode_table s i) d)) \<and>
    inode_table u = (inode_table s)(i := (inode_table s i)\<lparr>i_dirt := False\<rparr>) \<and>
    super_block u = super_block s \<and> has_driver u = has_driver s"
proof -
  let ?n = "inode_table s i"
  let ?s = "upd_inode i (\<lambda>n. n\<lparr>i_lock := True\<rparr>) s"
  let ?g = "\<lambda>t d. put_d_inode (inode_offset (i_num (inode_table t i))) (inode_table t i) d"
  let ?f = "\<lambda>n. n\<lparr>i_dirt := False\<rparr>"
  note sd = st [unfolded stored_inode_def]
  have sc: "same_cache s ?s" by simp
  have c': "calm (Suc k) ?s" "readable ?s (i_dev ?n)" "view ?s (i_dev ?n) (home_block i s sb) = Some d"
    using c sd same_cache_calm [OF sc] same_cache_readable [OF sc] same_cache_view [OF sc] by simp_all
  have gs: "get_super (i_dev ?n) ?s = Inr (Some sb)"
    by (rule get_super_cong [where s = s]) (use sd in \<open>simp_all add: upd_inode_def\<close>)
  have dev0: "i_dev ?n \<noteq> 0" using sd by (simp add: readable_def)
  have g: "?g t = ?g ?s" if "rest_eq ?s t" for t using rest_eqD(4) [OF that] by simp
  from cache_w.read_modify_release [where g = ?g, OF c' g] obtain b t u where
    t: "bread (i_dev ?n) (home_block i s sb) ?s = Inr (Some b, t)" "rest_eq ?s t" "b_data (buffers t b) = d"
    and u: "brelse (Some b) (upd_inode i ?f (store_buf b (?g t d) t)) = Inr (upd_inode i ?f u)"
      "wrote (i_dev ?n) (home_block i s sb) (?g ?s d) ?s u" "calm k u"
    by blast
  note ru = rest_eqD [OF cache_w.written_rest [OF u(2)]]
  have "inode_table t = inode_table ?s" using rest_eqD(4) [OF t(2)] .
  then have "write_inode i s = Inr (unlock_inode i (upd_inode i ?f u))"
    using sd dirty dev0 gs t(1,3) u(1)
    by (simp add: write_inode_def write_inode_w_def lock_inode_def bread_def [symmetric] Let_def home_block_def
        inode_block_def upd_inode_def store_buf_def upd_buf_def)
  moreover have "same_cache u (unlock_inode i (upd_inode i ?f u))" by (simp add: unlock_inode_def)
  note same_cache_calm [OF this] same_cache_view [OF this]
  moreover have "?g ?s d = put_d_inode (inode_offset (i_num ?n)) ?n d"
    by (simp add: upd_inode_def put_d_inode_def)
  moreover have "inode_table (unlock_inode i (upd_inode i ?f u)) = (inode_table s)(i := ?n\<lparr>i_dirt := False\<rparr>)"
    using ru(4) sd by (auto simp: unlock_inode_def upd_inode_def)
  moreover have "super_block (unlock_inode i (upd_inode i ?f u)) = super_block s"
    "has_driver (unlock_inode i (upd_inode i ?f u)) = has_driver s"
    using ru(3,6) by (simp_all add: unlock_inode_def upd_inode_def)
  moreover have "view u = (view s)(i_dev ?n := (view s (i_dev ?n))(home_block i s sb \<mapsto> ?g ?s d))"
    using cache_w.written_contents [OF u(2)] same_cache_view [OF sc] by simp
  ultimately show ?thesis using u(3) by (intro exI [of _ "unlock_inode i (upd_inode i ?f u)"]) simp
qed

lemma get_d_inode_lock:
  "\<not> i_lock n \<Longrightarrow> (get_d_inode k d (n\<lparr>i_lock := True\<rparr>))\<lparr>i_lock := False\<rparr> = get_d_inode k d n"
  by (cases n) (simp add: get_d_inode_def cong: if_cong)

lemma read_inode_loads:
  assumes c: "calm (Suc k) s" and st: "stored_inode i s sb d"
  shows "\<exists>u. read_inode i s = Inr u \<and> calm (Suc k) u \<and> view u = view s \<and>
    inode_table u = (inode_table s)(i := get_d_inode (inode_offset (i_num (inode_table s i))) d (inode_table s i))"
proof -
  let ?n = "inode_table s i"
  let ?s = "upd_inode i (\<lambda>n. n\<lparr>i_lock := True\<rparr>) s"
  let ?f = "\<lambda>m. get_d_inode (inode_offset (i_num m)) d m"
  note sd = st [unfolded stored_inode_def]
  have sc: "same_cache s ?s" by simp
  have c': "calm (Suc k) ?s" "readable ?s (i_dev ?n)" "view ?s (i_dev ?n) (home_block i s sb) = Some d"
    using c sd same_cache_calm [OF sc] same_cache_readable [OF sc] same_cache_view [OF sc] by simp_all
  have gs: "get_super (i_dev ?n) ?s = Inr (Some sb)"
    by (rule get_super_cong [where s = s]) (use sd in \<open>simp_all add: upd_inode_def\<close>)
  obtain b t where t: "bread (i_dev ?n) (home_block i s sb) ?s = Inr (Some b, t)" "taken b ?s t" "b_data (buffers t b) = d"
    using bread_taken [OF c'] by blast
  obtain u where u: "brelse (Some b) t = Inr u" "same_view ?s u" using cache.rel [OF c'(1) t(2)] by blast
  have "inode_table t = inode_table ?s" "inode_table u = inode_table ?s"
    using t(2) u(2) rest_eqD(4) by (auto simp: taken_def same_view_def)
  moreover have "brelse (Some b) (upd_inode i ?f t) = Inr (upd_inode i ?f u)" by (rule cache_w.rel_inode [OF u(1)])
  ultimately have "read_inode i s = Inr (unlock_inode i (upd_inode i ?f u))"
    using sd gs t(1,3)
    by (simp add: read_inode_def lock_inode_def Let_def home_block_def inode_block_def upd_inode_def)
  moreover have "same_cache u (unlock_inode i (upd_inode i ?f u))" by (simp add: unlock_inode_def)
  note same_cache_calm [OF this] same_cache_view [OF this]
  moreover have "calm (Suc k) u" "view u = view s"
    using cache.eqv_ok [OF c'(1) u(2)] cache.eqv_contents [OF u(2)] same_cache_view [OF sc] by simp_all
  moreover have "inode_table (unlock_inode i (upd_inode i ?f u)) =
      (inode_table s)(i := get_d_inode (inode_offset (i_num ?n)) d ?n)"
    using \<open>inode_table u = inode_table ?s\<close> sd
    by (simp add: unlock_inode_def upd_inode_def get_d_inode_lock)
  ultimately show ?thesis by (intro exI [of _ "unlock_inode i (upd_inode i ?f u)"]) simp
qed


text \<open>
  C28: write_inode followed by read_inode of the same inode into another slot gives back
  every field that is kept on the disk; the fields kept in memory only are those of the
  slot.
\<close>

theorem inode_write_read:
  assumes c: "calm 2 s" and st: "stored_inode i s sb d" "stored_inode j s sb d" and dirty: "i_dirt (inode_table s i)"
    and same: "i \<noteq> j" "i_dev (inode_table s j) = i_dev (inode_table s i)" "i_num (inode_table s j) = i_num (inode_table s i)"
  shows "\<exists>u v. write_inode i s = Inr u \<and> read_inode j u = Inr v \<and> \<not> i_dirt (inode_table v i) \<and>
    inode_table v j = (inode_table s i)\<lparr>
      i_zone := (\<lambda>k. if k < 9 then i_zone (inode_table s i) k else i_zone (inode_table s j) k),
      i_atime := i_atime (inode_table s j), i_ctime := i_ctime (inode_table s j), i_count := i_count (inode_table s j),
      i_lock := False, i_dirt := i_dirt (inode_table s j), i_pipe := i_pipe (inode_table s j),
      i_mount := i_mount (inode_table s j)\<rparr>"
proof -
  let ?n = "inode_table s i"
  let ?d = "put_d_inode (inode_offset (i_num ?n)) ?n d"
  have "calm (Suc 1) s" using c by (simp add: numeral_2_eq_2)
  from write_inode_stores [OF this st(1) dirty] obtain u where u: "write_inode i s = Inr u" "calm 1 u"
    "view u = (view s)(i_dev ?n := (view s (i_dev ?n))(home_block i s sb \<mapsto> ?d))"
    "inode_table u = (inode_table s)(i := ?n\<lparr>i_dirt := False\<rparr>)" "super_block u = super_block s"
    "has_driver u = has_driver s" by blast
  have "home_block j u sb = home_block i s sb"
    using same u(4,5) by (simp add: home_block_def inode_block_def)
  then have "stored_inode j u sb ?d"
    using st(2) same u(3,4,6) get_super_cong [OF u(5)] by (simp add: stored_inode_def readable_def)
  from read_inode_loads [of 0, OF _ this] obtain v where v: "read_inode j u = Inr v"
    "inode_table v = (inode_table u)(j := get_d_inode (inode_offset (i_num (inode_table u j))) ?d (inode_table u j))"
    using u(2) by auto
  have "inode_table v j = get_d_inode (inode_offset (i_num ?n)) ?d (inode_table s j)"
    using v(2) u(4) same by simp
  then have "inode_table v j = ?n\<lparr>i_zone := (\<lambda>k. if k < 9 then i_zone ?n k else i_zone (inode_table s j) k),
      i_atime := i_atime (inode_table s j), i_ctime := i_ctime (inode_table s j), i_dev := i_dev (inode_table s j),
      i_num := i_num (inode_table s j), i_count := i_count (inode_table s j), i_lock := i_lock (inode_table s j),
      i_dirt := i_dirt (inode_table s j), i_pipe := i_pipe (inode_table s j), i_mount := i_mount (inode_table s j)\<rparr>"
    using get_put_d_inode [of "inode_offset (i_num ?n)" ?n d "inode_table s j"] by (simp only: split_beta)
  moreover have "\<not> i_lock (inode_table s j)" using st(2) by (simp add: stored_inode_def)
  moreover have "\<not> i_dirt (inode_table v i)" using v(2) u(4) same(1) by simp
  ultimately show ?thesis using u(1) v(1) same by (cases ?n) simp
qed

text \<open>
  Both rounds of the loop of \<open>iput\<close>: the first writes the inode, the second drops the reference.
\<close>

text \<open>
  C36: iput of the last reference to a changed inode writes it to its place in its block, as
  the buffer cache over the disk shows the block (the buffer goes to the disk later), marks
  it clean and drops the reference; no other inode changes. This is the case of an inode
  that still has links and is neither a pipe nor a block device: with no links left iput
  truncates and frees the inode instead.
\<close>

theorem iput_writes_back:
  assumes c: "calm (Suc k) s" and st: "stored_inode i s sb d"
    and "i_count (inode_table s i) = 1" "i_nlinks (inode_table s i) \<noteq> 0" "i_dirt (inode_table s i)"
    and "\<not> i_pipe (inode_table s i)" "\<not> S_ISBLK (i_mode (inode_table s i))"
  shows "\<exists>u. iput (Some i) s = Inr u \<and> calm k u \<and>
    inode_table u i = (inode_table s i)\<lparr>i_count := 0, i_dirt := False\<rparr> \<and>
    (\<forall>j. j \<noteq> i \<longrightarrow> inode_table u j = inode_table s j) \<and>
    view u (i_dev (inode_table s i)) (home_block i s sb) =
      Some (put_d_inode (inode_offset (i_num (inode_table s i))) (inode_table s i) d)"
proof -
  from write_inode_stores [OF c st assms(5)] obtain u where u: "write_inode i s = Inr u" "calm k u"
    "view u = (view s)(i_dev (inode_table s i) := (view s (i_dev (inode_table s i)))(home_block i s sb \<mapsto>
       put_d_inode (inode_offset (i_num (inode_table s i))) (inode_table s i) d))"
    "inode_table u = (inode_table s)(i := (inode_table s i)\<lparr>i_dirt := False\<rparr>)" by blast
  have "i_dev (inode_table s i) \<noteq> 0" using st by (auto simp: stored_inode_def get_super_def)
  then have "iput (Some i) s = Inr (upd_inode i (\<lambda>m. m\<lparr>i_count := i_count m - 1\<rparr>) u)"
    using assms u(1,4) by (simp add: iput_def wait_on_inode_def stored_inode_def numeral_2_eq_2)
  moreover have sc: "same_cache u (upd_inode i (\<lambda>m. m\<lparr>i_count := i_count m - 1\<rparr>) u)" by simp
  ultimately show ?thesis
    using u(2-4) same_cache_calm [OF sc] same_cache_view [OF sc] assms(3) by (simp add: upd_inode_def)
qed


section \<open>The blocks of a file\<close>

text \<open>
  The zone of block \<open>b\<close> of a file, as the inode and the indirect blocks give it: 0 for a hole,
  \<open>None\<close> when an indirect block on the way cannot be read.
\<close>

definition ind_zone :: "kst \<Rightarrow> u16 \<Rightarrow> u32 \<Rightarrow> nat \<Rightarrow> u32 option" where
  "ind_zone s dev z k =
     (if z = 0 then Some 0 else map_option (\<lambda>d. ucast (get16 d (2 * k))) (view s dev z))"

definition file_zone :: "kst \<Rightarrow> nat \<Rightarrow> nat \<Rightarrow> u32 option" where
  "file_zone s i b =
     (let m = inode_table s i in
      if b < 7 then Some (ucast (i_zone m b))
      else if b < 519 then ind_zone s (i_dev m) (ucast (i_zone m 7)) (b - 7)
      else Option.bind (ind_zone s (i_dev m) (ucast (i_zone m 8)) ((b - 519) div 512))
             (\<lambda>z. ind_zone s (i_dev m) z ((b - 519) mod 512)))"

definition file_block :: "kst \<Rightarrow> nat \<Rightarrow> nat \<Rightarrow> block option" where
  "file_block s i b =
     (case file_zone s i b of None \<Rightarrow> None
      | Some z \<Rightarrow> if z = 0 then Some (\<lambda>_. 0) else view s (i_dev (inode_table s i)) z)"

lemma ind_zone_same: "same_view s u \<Longrightarrow> ind_zone u = ind_zone s"
  by (simp add: fun_eq_iff ind_zone_def same_viewD)

lemma file_zone_same: "same_view s u \<Longrightarrow> file_zone u = file_zone s"
  by (simp add: fun_eq_iff file_zone_def ind_zone_same same_viewD Let_def)

lemma file_block_same: "same_view s u \<Longrightarrow> file_block u = file_block s"
  by (intro ext) (simp add: file_block_def file_zone_same same_viewD split: option.split)

lemma ind_entry_read [simp]: "ind_entry dev b k False s = Inr (ucast (get16 (b_data (buffers s b)) (2 * k)), s)"
  by (simp add: ind_entry_def)

lemma zone_entry_read [simp]: "zone_entry i k False s = Inr s"
  by (simp add: zone_entry_def)

lemma ucast_eq_0: "(ucast (x :: u16) :: u32) = 0 \<longleftrightarrow> x = 0"
proof
  assume z: "(ucast x :: u32) = 0"
  show "x = 0"
  proof (rule bit_word_eqI)
    fix n assume "n < LENGTH(16)"
    moreover have "\<not> bit (ucast x :: u32) n" using z by simp
    ultimately show "bit x n = bit (0 :: u16) n" by (simp add: bit_ucast_iff)
  qed
qed simp

lemma unat_drop_9: "unat (drop_bit 9 (x :: u32)) = unat x div 512"
  by (simp add: drop_bit_eq_div unat_div)

lemma unat_and_511: "unat ((x :: u32) AND 511) = unat x mod 512"
proof -
  have "x AND 511 = take_bit 9 x" by (simp add: take_bit_eq_mask mask_eq_exp_minus_1)
  then show ?thesis by (simp add: take_bit_eq_mod unat_mod)
qed

text \<open>\<open>bmap\<close> without \<open>create\<close> computes \<open>file_zone\<close>.\<close>

lemma bmap_lookup:
  assumes c: "calm (Suc k) s" and r: "readable s (i_dev (inode_table s i))"
    and b: "unat blk < 7 + 512 + 512 * 512" and z: "file_zone s i (unat blk) = Some z"
  shows "\<exists>u. bmap i blk s = Inr (z, u) \<and> same_view s u \<and> calm (Suc k) u"
proof -
  let ?m = "inode_table s i" and ?dev = "i_dev (inode_table s i)"
  have rng: "\<not> blk <s 0" "\<not> 262663 \<le>s blk" "blk <s 7 \<longleftrightarrow> unat blk < 7"
    using b by (simp_all add: sless_small sle_small)
  have m7: "7 \<le> unat blk \<Longrightarrow> unat (blk - 7) = unat blk - 7" by (simp add: unat_sub_if')
  then have lt2: "7 \<le> unat blk \<Longrightarrow> (blk - 7 <s 512) = (unat blk < 519)"
    using b by (subst sless_small) auto
  have self: "same_view s s" using cache.eqv_refl [OF c] .
  consider "unat blk < 7" | "7 \<le> unat blk" "unat blk < 519" | "519 \<le> unat blk" by linarith
  then show ?thesis
  proof cases
    case 1
    then show ?thesis using rng z c self by (simp add: bmap_def bmap_create_def file_zone_def Let_def)
  next
    case 2
    show ?thesis
    proof (cases "i_zone ?m 7 = 0")
      case True
      then show ?thesis using 2 rng lt2 z c self
        by (simp add: bmap_def bmap_create_def file_zone_def ind_zone_def Let_def)
    next
      case False
      then have nz: "(ucast (i_zone ?m 7) :: u32) \<noteq> 0" by (simp add: ucast_eq_0)
      obtain d where d: "view s ?dev (ucast (i_zone ?m 7)) = Some d" "z = ucast (get16 d (2 * (unat blk - 7)))"
        using z 2 nz by (auto simp: file_zone_def ind_zone_def Let_def)
      obtain c t u where t: "bread ?dev (ucast (i_zone ?m 7)) s = Inr (Some c, t)" "rest_eq s t" "b_data (buffers t c) = d"
        "brelse (Some c) t = Inr u" "same_view s u" "calm (Suc k) u"
        using bread_release [OF c r d(1)] by blast
      then show ?thesis using 2 rng lt2 m7 d False
        by (simp add: bmap_def bmap_create_def Let_def)
    qed
  next
    case 3
    define j where "j = blk - 7 - 512"
    have j: "unat j = unat blk - 519" using 3 by (simp add: j_def unat_sub_if' m7)
    then have jd: "unat (drop_bit 9 j) = (unat blk - 519) div 512" "unat (j AND 511) = (unat blk - 519) mod 512"
      by (simp_all add: unat_drop_9 unat_and_511)
    show ?thesis
    proof (cases "i_zone ?m 8 = 0")
      case True
      then show ?thesis using 3 rng lt2 z c self
        by (simp add: bmap_def bmap_create_def file_zone_def ind_zone_def Let_def)
    next
      case False
      then have nz: "(ucast (i_zone ?m 8) :: u32) \<noteq> 0" by (simp add: ucast_eq_0)
      obtain d where d: "view s ?dev (ucast (i_zone ?m 8)) = Some d"
        and z2: "ind_zone s ?dev (ucast (get16 d (2 * ((unat blk - 519) div 512)))) ((unat blk - 519) mod 512) = Some z"
        using z 3 nz by (auto simp: file_zone_def ind_zone_def Let_def bind_eq_Some_conv)
      let ?z1 = "ucast (get16 d (2 * ((unat blk - 519) div 512))) :: u32"
      obtain c t u where t: "bread ?dev (ucast (i_zone ?m 8)) s = Inr (Some c, t)" "rest_eq s t" "b_data (buffers t c) = d"
        "brelse (Some c) t = Inr u" "same_view s u" "calm (Suc k) u"
        using bread_release [OF c r d] by blast
      note su = same_viewD [OF t(5)]
      note tt = rest_eqD(4) [OF t(2)]
      show ?thesis
      proof (cases "?z1 = 0")
        case True
        then have "z = 0" using z2 by (simp add: ind_zone_def)
        then show ?thesis using 3 rng lt2 jd True False t tt
          by (simp add: bmap_def bmap_create_def Let_def j_def [symmetric])
      next
        case nz1: False
        obtain d' where d': "view s ?dev ?z1 = Some d'" "z = ucast (get16 d' (2 * ((unat blk - 519) mod 512)))"
          using z2 nz1 by (auto simp: ind_zone_def)
        obtain c' t' u' where t': "bread ?dev ?z1 u = Inr (Some c', t')" "b_data (buffers t' c') = d'"
          "brelse (Some c') t' = Inr u'" "same_view u u'" "calm (Suc k) u'"
          using bread_release [OF t(6), of ?dev ?z1 d'] su d'(1) r by auto
        have "same_view s u'" using t(5) t'(4) by (rule same_view_trans)
        then show ?thesis using 3 rng lt2 jd nz1 False t tt t' d'(2) su
          by (simp add: bmap_def bmap_create_def Let_def j_def [symmetric])
      qed
    qed
  qed
qed


section \<open>A small file system\<close>

text \<open>Inodes 0 and 1 of the table stand for inode 5 of the device; its first zone is 20.\<close>

definition ex_inode :: "bool \<Rightarrow> m_inode" where
  "ex_inode dirty = zero_inode\<lparr>i_dev := 0x101, i_num := 5, i_dirt := dirty, i_mode := 0x81A4, i_count := 1, i_nlinks := 1,
     i_size := 1024, i_zone := (\<lambda>_. 0)(0 := 20)\<rparr>"

definition ex_fs :: kst where
  "ex_fs = ex_cache\<lparr>inode_table := (\<lambda>i. if i < 2 then ex_inode (i = 0) else zero_inode),
     super_block := (\<lambda>_. ex_super\<lparr>s_dev := 0x101, s_imap_blocks := 1, s_zmap_blocks := 1\<rparr>)\<rparr>"

lemma ex_fs_cache: "calm 2 ex_fs" "readable ex_fs 0x101" "view ex_fs 0x101 b = Some (\<lambda>_. ucast b)"
proof -
  have sc: "same_cache ex_cache ex_fs" by (simp add: ex_fs_def)
  show "calm 2 ex_fs" using ex_calm same_cache_calm [OF sc] by simp
  show "readable ex_fs 0x101" using ex_view(2) same_cache_readable [OF sc] by simp
  show "view ex_fs 0x101 b = Some (\<lambda>_. ucast b)" using ex_view(1) same_cache_view [OF sc] by simp
qed

lemma ex_fs_inode: "i < 2 \<Longrightarrow> inode_table ex_fs i = ex_inode (i = 0)"
  by (simp add: ex_fs_def)

lemma ex_inode_simps [simp]: "i_dev (ex_inode b) = 0x101" "i_num (ex_inode b) = 5" "i_dirt (ex_inode b) = b"
  "i_lock (ex_inode b) = False" "i_zone (ex_inode b) = (\<lambda>_. 0)(0 := 20)" "i_mode (ex_inode b) = 0x81A4"
  "i_count (ex_inode b) = 1" "i_nlinks (ex_inode b) = 1" "\<not> i_pipe (ex_inode b)"
  by (simp_all add: ex_inode_def zero_inode_def)

lemma ex_fs_stored:
  assumes "i < 2"
  shows "stored_inode i ex_fs 0 (\<lambda>_. 4)"
proof -
  have n: "NR_SUPER = Suc 7" by (simp add: NR_SUPER_def)
  have "find_super NR_SUPER 0 0x101 ex_fs = Some 0" unfolding n find_super.simps(2) by (simp add: ex_fs_def)
  then have "get_super 0x101 ex_fs = Inr (Some 0)"
    by (simp add: get_super_def wait_on_super_def ex_fs_def ex_super_def)
  moreover have "inode_block 0 5 ex_fs = 4" by (simp add: inode_block_def INODES_PER_BLOCK_def ex_fs_def)
  ultimately show ?thesis
    using assms ex_fs_cache(2,3) by (simp add: stored_inode_def ex_fs_inode home_block_def)
qed

theorem inode_write_read_witness:
  "\<exists>u v. write_inode 0 ex_fs = Inr u \<and> read_inode 1 u = Inr v \<and> i_size (inode_table v 1) = 1024"
  using inode_write_read [OF ex_fs_cache(1) ex_fs_stored [of 0] ex_fs_stored [of 1]]
  by (auto simp: ex_fs_inode ex_inode_def)

theorem iput_writes_back_witness:
  "\<exists>u. iput (Some 0) ex_fs = Inr u \<and> \<not> i_dirt (inode_table u 0) \<and> i_count (inode_table u 0) = 0"
proof -
  have "calm (Suc 1) ex_fs" using ex_fs_cache(1) by (simp add: numeral_2_eq_2)
  from iput_writes_back [OF this ex_fs_stored [of 0]] obtain u where "iput (Some 0) ex_fs = Inr u"
    "inode_table u 0 = (inode_table ex_fs 0)\<lparr>i_count := 0, i_dirt := False\<rparr>"
    by (auto simp: ex_fs_inode S_ISBLK_def S_IFMT_def S_IFBLK_def)
  then show ?thesis by (intro exI [of _ u]) simp
qed

end
