(* ===== verification/File_Lemmas.thy ===== *)
theory File_Lemmas imports Inode_Lemmas User_Bytes File_IO begin

text \<open>
  \<open>file_read\<close> delivers the bytes of the file: the contents of the blocks that the zone map gives on the
  disk as the cache shows it, zeros for holes.
\<close>

section \<open>Positions\<close>

definition max_file :: nat where "max_file = (7 + 512 + 512 * 512) * 1024"

lemma nonneg_small:
  assumes "0 \<le>s (x :: u32)"
  shows "unat x < 2 ^ 31"
proof -
  have s: "0 \<le> sint x" "sint x < 2 ^ 31" using assms sint_lt [of x] by (simp_all add: word_sle_eq)
  then have "uint x = sint x" by (simp add: uint_sint take_bit_int_eq_self)
  then have "int (unat x) < int (2 ^ 31)" using s by simp
  then show ?thesis by (simp only: of_nat_less_iff)
qed
lemma int_sdiv_1024: "int m sdiv 1024 = int (m div 1024)" "int m smod 1024 = int (m mod 1024)"
  by (cases "m = 0"; simp add: signed_divide_int_def signed_modulo_int_def zdiv_int zmod_int minus_mult_div_eq_mod)+

lemma position_quotient:
  assumes "unat pos < 2 ^ 31"
  shows "unat (sdiv_w pos 1024) = unat pos div 1024" "sint pos smod 1024 = int (unat pos mod 1024)"
proof -
  have p: "sint pos = int (unat pos)" by (rule sint_small [OF assms])
  have "sint pos sdiv 1024 = int (unat pos div 1024)"
    unfolding p by (rule int_sdiv_1024)
  then have "sdiv_w pos 1024 = of_nat (unat pos div 1024)" by (simp only: sdiv_w_def of_int_of_nat_eq)
  moreover have "unat pos div 1024 < 2 ^ 32" using assms by simp
  ultimately show "unat (sdiv_w pos 1024) = unat pos div 1024" by (simp add: unat_of_nat)
  show "sint pos smod 1024 = int (unat pos mod 1024)"
    unfolding p by (rule int_sdiv_1024)
qed

lemma position_block:
  assumes "unat pos < max_file"
  shows "unat (sdiv_w pos 1024) = unat pos div 1024" "sint pos smod 1024 = int (unat pos mod 1024)"
    "unat (sdiv_w pos 1024) < 7 + 512 + 512 * 512"
proof -
  have "unat pos < 2 ^ 31" using assms by (simp add: max_file_def)
  note q = position_quotient [OF this]
  show "unat (sdiv_w pos 1024) = unat pos div 1024" "sint pos smod 1024 = int (unat pos mod 1024)" by (fact q)+
  show "unat (sdiv_w pos 1024) < 7 + 512 + 512 * 512" unfolding q(1) using assms by (simp add: max_file_def)
qed

lemma position_add: "unat (p :: u32) + n < 2 ^ 32 \<Longrightarrow> unat (p + of_nat n) = unat p + n"
  by (simp add: unat_word_ariths unat_of_nat)

section \<open>The bytes of a file\<close>

definition file_byte :: "kst \<Rightarrow> nat \<Rightarrow> nat \<Rightarrow> u8" where
  "file_byte s i p = the (file_block s i (p div 1024)) (p mod 1024)"

definition file_bytes :: "kst \<Rightarrow> nat \<Rightarrow> nat \<Rightarrow> nat \<Rightarrow> u8 list" where
  "file_bytes s i p n = List.map (file_byte s i) [p..<p + n]"

lemma file_bytes_append: "file_bytes s i p (m + n) = file_bytes s i p m @ file_bytes s i (p + m) n"
  using upt_add_eq_append [of p "p + m" n] by (simp add: file_bytes_def add.assoc)

lemma length_file_bytes [simp]: "length (file_bytes s i p n) = n"
  by (simp add: file_bytes_def)

lemma file_bytes_block:
  assumes "file_block s i (p div 1024) = Some d" "p mod 1024 + n \<le> 1024"
  shows "file_bytes s i p n = List.map d [p mod 1024..<p mod 1024 + n]"
proof (rule nth_equalityI)
  fix k assume "k < length (file_bytes s i p n)"
  then have k: "k < n" by simp
  have "(p mod 1024 + k) div 1024 = 0" using k assms(2) by simp
  moreover have "p + k = (p mod 1024 + k) + 1024 * (p div 1024)" by simp
  ultimately have "(p + k) div 1024 = p div 1024" "(p + k) mod 1024 = p mod 1024 + k"
    using k assms(2) by (metis add_0_left add.commute div_mult_self2 zero_neq_numeral)
      (metis \<open>p + k = (p mod 1024 + k) + 1024 * (p div 1024)\<close> k assms(2) add_less_cancel_left less_le_trans mod_less mod_mult_self2)
  then show "file_bytes s i p n ! k = List.map d [p mod 1024..<p mod 1024 + n] ! k"
    using k assms(1) by (simp add: file_bytes_def file_byte_def)
qed simp

section \<open>One round of the loop\<close>

lemma brelse_user:
  "brelse b s = Inr u \<Longrightarrow> brelse b (put_user n d k a (upd_file f g s)) = Inr (put_user n d k a (upd_file f g u))"
  by (auto simp: brelse_def wait_on_buffer_def upd_file_def upd_buf_def put_user_def split: option.splits if_splits)

text \<open>What the loop keeps.\<close>

definition same_files :: "kst \<Rightarrow> kst \<Rightarrow> bool" where
  "same_files s u \<longleftrightarrow> view u = view s \<and> inode_table u = inode_table s \<and> has_driver u = has_driver s"

lemma same_filesD:
  assumes "same_files s u"
  shows "file_block u = file_block s" "readable u dev = readable s dev" "inode_table u = inode_table s"
    "file_bytes u = file_bytes s"
proof -
  have z: "file_zone u = file_zone s"
    using assms unfolding same_files_def by (intro ext) (simp only: file_zone_def ind_zone_def)
  show b: "file_block u = file_block s"
    by (intro ext) (use assms z in \<open>simp add: file_block_def same_files_def split: option.split\<close>)
  show "readable u dev = readable s dev" "inode_table u = inode_table s"
    using assms by (simp_all add: readable_def same_files_def)
  show "file_bytes u = file_bytes s" by (simp add: fun_eq_iff file_bytes_def file_byte_def b)
qed

lemma same_files_trans: "same_files s t \<Longrightarrow> same_files t u \<Longrightarrow> same_files s u"
  by (simp add: same_files_def)

lemma same_view_files: "same_view s u \<Longrightarrow> same_files s (put_user n d k a (upd_file f g u))"
  using same_viewD [of s u] rest_eqD(3) [of s u] same_cache_view [of u "put_user n d k a (upd_file f g u)"]
  by (simp add: same_files_def put_user_def same_view_def upd_file_def same_cache_def)


lemma file_read_round:
  assumes c: "calm (Suc k) s" and r: "readable s (i_dev (inode_table s i))"
    and p: "unat (f_pos (file_table s f)) < max_file"
    and d: "file_block s i (unat (f_pos (file_table s f)) div 1024) = Some d" and l: "0 < left"
  shows "\<exists>u n. file_read_loop (Suc m) i f buf left s = file_read_loop m i f (buf + of_nat n) (left - n) u \<and>
    n = min (1024 - unat (f_pos (file_table s f)) mod 1024) left \<and> calm (Suc k) u \<and> same_files s u \<and>
    umem u = with_bytes (file_bytes s i (unat (f_pos (file_table s f))) n) buf (umem s) \<and>
    file_table u = (file_table s)(f := (file_table s f)\<lparr>f_pos := f_pos (file_table s f) + of_nat n\<rparr>)"
proof -
  let ?pos = "f_pos (file_table s f)" and ?g = "\<lambda>h. h\<lparr>f_pos := f_pos h + of_nat (min (1024 - unat (f_pos (file_table s f)) mod 1024) left)\<rparr>"
  let ?o = "unat ?pos mod 1024" and ?n = "min (1024 - unat ?pos mod 1024) left"
  note pb = position_block [OF p]
  have n: "nat (min (1024 - int ?o) (int left)) = ?n"
  proof -
    have "1024 - int ?o = int (1024 - ?o)" by (simp add: of_nat_diff less_imp_le)
    then show ?thesis by (simp only: of_nat_min [symmetric] nat_int)
  qed
  obtain z where z: "file_zone s i (unat ?pos div 1024) = Some z"
    using d by (auto simp: file_block_def split: option.splits)
  obtain v where v: "bmap i (sdiv_w ?pos 1024) s = Inr (z, v)" "same_view s v" "calm (Suc k) v"
    using bmap_lookup [OF c r pb(3), of z] z pb(1) by auto
  note sv = same_viewD [OF v(2)]
  have bytes: "file_bytes s i (unat ?pos) ?n = List.map d [?o..<?o + ?n]"
    by (rule file_bytes_block [OF d]) simp
  have u: "calm (Suc k) (put_user ?n e ?o buf (upd_file f ?g u))" "same_files s (put_user ?n e ?o buf (upd_file f ?g u))"
    "umem (put_user ?n e ?o buf (upd_file f ?g u)) = with_bytes (List.map e [?o..<?o + ?n]) buf (umem s)"
    "file_table (put_user ?n e ?o buf (upd_file f ?g u)) = (file_table s)(f := ?g (file_table s f))"
    if "same_view s u" "calm (Suc k) u" for u e
  proof -
    have "same_cache u (put_user ?n e ?o buf (upd_file f ?g u))" by (simp add: put_user_def)
    then show "calm (Suc k) (put_user ?n e ?o buf (upd_file f ?g u))" using that(2) same_cache_calm by blast
    show "same_files s (put_user ?n e ?o buf (upd_file f ?g u))" by (rule same_view_files [OF that(1)])
    have "?n < 2 ^ 32" by simp
    then show "umem (put_user ?n e ?o buf (upd_file f ?g u)) = with_bytes (List.map e [?o..<?o + ?n]) buf (umem s)"
      using copy_out_bytes [of ?n] same_viewD(4) [OF that(1)] by (simp add: put_user_def upd_file_def)
    show "file_table (put_user ?n e ?o buf (upd_file f ?g u)) = (file_table s)(f := ?g (file_table s f))"
      using same_viewD(6) [OF that(1)] by (simp add: put_user_def upd_file_def)
  qed
  show ?thesis
  proof (cases "z = 0")
    case True
    then have d0: "d = (\<lambda>_. 0)" using d z by (simp add: file_block_def)
    have "put_user ?n (\<lambda>_. 0) 0 buf w = put_user ?n d ?o buf w" for w
      using copy_out_bytes [of ?n "\<lambda>_. 0"] by (simp add: put_user_def d0 map_replicate_const)
    then have "file_read_loop (Suc m) i f buf left s =
        file_read_loop m i f (buf + of_nat ?n) (left - ?n) (put_user ?n d ?o buf (upd_file f ?g v))"
      using l v(1) True by (simp add: pb(2) n Let_def)
    then show ?thesis using u [OF v(2,3), of d] bytes by (intro exI conjI) (assumption | rule refl | simp)+
  next
    case False
    have dz: "view v (i_dev (inode_table v i)) z = Some d" using d z False sv by (simp add: file_block_def)
    obtain c t w where t: "bread (i_dev (inode_table v i)) z v = Inr (Some c, t)" "rest_eq v t" "b_data (buffers t c) = d"
      "brelse (Some c) t = Inr w" "same_view v w" "calm (Suc k) w"
      using bread_release [OF v(3) _ dz] r sv by auto
    have sw: "same_view s w" using v(2) t(5) by (rule same_view_trans)
    have ft: "file_table t f = file_table s f" using rest_eqD(8) [OF t(2)] sv by simp
    have "file_read_loop (Suc m) i f buf left s =
        file_read_loop m i f (buf + of_nat ?n) (left - ?n) (put_user ?n d ?o buf (upd_file f ?g w))"
      using l v(1) t(1,3) False brelse_user [OF t(4), of ?n d ?o buf f ?g]
      by (simp add: pb(2) n Let_def upd_file_def)
    then show ?thesis using u [OF sw t(6), of d] bytes by (intro exI conjI) (assumption | rule refl | simp)+
  qed
qed


section \<open>The loop and the call\<close>

definition backed :: "kst \<Rightarrow> nat \<Rightarrow> nat \<Rightarrow> nat \<Rightarrow> bool" where
  "backed s i p n \<longleftrightarrow> (\<forall>q<n. file_block s i ((p + q) div 1024) \<noteq> None)"

lemma file_read_loop_bytes:
  "left \<le> m \<Longrightarrow> calm (Suc k) s \<Longrightarrow> readable s (i_dev (inode_table s i)) \<Longrightarrow>
   unat (f_pos (file_table s f)) + left \<le> max_file \<Longrightarrow> backed s i (unat (f_pos (file_table s f))) left \<Longrightarrow>
   \<exists>u. file_read_loop m i f buf left s = Inr (0, u) \<and> calm (Suc k) u \<and> same_files s u \<and>
     umem u = with_bytes (file_bytes s i (unat (f_pos (file_table s f))) left) buf (umem s) \<and>
     file_table u = (file_table s)(f := (file_table s f)\<lparr>f_pos := f_pos (file_table s f) + of_nat left\<rparr>)"
proof (induction m arbitrary: s buf left)
  case 0
  then show ?case by (simp add: file_bytes_def same_files_def)
next
  case (Suc m)
  let ?pos = "f_pos (file_table s f)"
  show ?case
  proof (cases "left = 0")
    case True
    then show ?thesis using Suc.prems by (simp add: file_bytes_def same_files_def)
  next
    case False
    then obtain d where d: "file_block s i (unat ?pos div 1024) = Some d"
      using Suc.prems(5) by (auto simp: backed_def dest: spec [of _ 0])
    have lim: "unat ?pos < max_file" "unat ?pos + left < 2 ^ 32" using Suc.prems(4) False by (auto simp: max_file_def)
    obtain v n where v: "file_read_loop (Suc m) i f buf left s = file_read_loop m i f (buf + of_nat n) (left - n) v"
      "n = min (1024 - unat ?pos mod 1024) left" "calm (Suc k) v" "same_files s v"
      "umem v = with_bytes (file_bytes s i (unat ?pos) n) buf (umem s)"
      "file_table v = (file_table s)(f := (file_table s f)\<lparr>f_pos := ?pos + of_nat n\<rparr>)"
      using file_read_round [OF Suc.prems(2,3) lim(1) d] False by blast
    have n: "0 < n" "n \<le> left" using v(2) False by auto
    note sv = same_filesD [OF v(4)]
    have pos: "f_pos (file_table v f) = ?pos + of_nat n" "unat (?pos + of_nat n) = unat ?pos + n"
      using v(6) position_add [of ?pos n] lim n by simp_all
    have "backed v i (unat (f_pos (file_table v f))) (left - n)"
      unfolding backed_def
    proof (intro allI impI)
      fix q assume "q < left - n"
      then show "file_block v i ((unat (f_pos (file_table v f)) + q) div 1024) \<noteq> None"
        using Suc.prems(5) [unfolded backed_def, rule_format, of "n + q"] pos by (simp add: sv add.assoc)
    qed
    moreover have "left - n \<le> m" "readable v (i_dev (inode_table v i))"
      "unat (f_pos (file_table v f)) + (left - n) \<le> max_file" using Suc.prems n pos sv by simp_all
    ultimately obtain u where
      u: "file_read_loop m i f (buf + of_nat n) (left - n) v = Inr (0, u)" "calm (Suc k) u" "same_files v u"
      "umem u = with_bytes (file_bytes v i (unat (f_pos (file_table v f))) (left - n)) (buf + of_nat n) (umem v)"
      "file_table u = (file_table v)(f := (file_table v f)\<lparr>f_pos := f_pos (file_table v f) + of_nat (left - n)\<rparr>)"
      using Suc.IH [OF _ v(3), of "left - n" "buf + of_nat n"] by blast
    have "umem u = with_bytes (file_bytes s i (unat ?pos) left) buf (umem s)"
      using with_bytes_append [of "file_bytes s i (unat ?pos) n" "file_bytes s i (unat ?pos + n) (left - n)" buf "umem s"]
        file_bytes_append [of s i "unat ?pos" n "left - n"] u(4) v(5) pos sv n lim by simp
    moreover have "file_table u = (file_table s)(f := (file_table s f)\<lparr>f_pos := ?pos + of_nat left\<rparr>)"
      using u(5) v(6) n by (simp add: of_nat_diff)
    ultimately show ?thesis using v(1) u(1,2) same_files_trans [OF v(4) u(3)] by auto
  qed
qed

text \<open>
  C16: file_read of a range backed by readable blocks delivers exactly the bytes of the file
  in the range (zeros for holes), at the buffer address, returns the count, advances f_pos
  by it and changes nothing on the disk.
\<close>

theorem file_read_bytes:
  assumes "calm (Suc k) s" "readable s (i_dev (inode_table s i))" "0 <s count"
    and "unat (f_pos (file_table s f)) + unat count \<le> max_file"
    and "backed s i (unat (f_pos (file_table s f))) (unat count)"
  shows "\<exists>u. file_read i f buf count s = Inr (count, u) \<and> view u = view s \<and> calm (Suc k) u \<and>
    umem u = with_bytes (file_bytes s i (unat (f_pos (file_table s f))) (unat count)) buf (umem s) \<and>
    file_table u = (file_table s)(f := (file_table s f)\<lparr>f_pos := f_pos (file_table s f) + count\<rparr>) \<and>
    (\<forall>j. j \<noteq> i \<longrightarrow> inode_table u j = inode_table s j)"
proof -
  have c: "\<not> count \<le>s 0" "unat count \<noteq> 0"
    using assms(3) by (auto simp: word_sless_alt word_sle_eq unat_eq_0)
  obtain u where u: "file_read_loop (unat count) i f buf (unat count) s = Inr (0, u)" "calm (Suc k) u" "same_files s u"
    "umem u = with_bytes (file_bytes s i (unat (f_pos (file_table s f))) (unat count)) buf (umem s)"
    "file_table u = (file_table s)(f := (file_table s f)\<lparr>f_pos := f_pos (file_table s f) + of_nat (unat count)\<rparr>)"
    using file_read_loop_bytes [OF order_refl assms(1,2,4,5)] by blast
  let ?w = "upd_inode i (\<lambda>m. m\<lparr>i_atime := CURRENT_TIME u\<rparr>) u"
  have sc: "same_cache u ?w" by simp
  have "view ?w = view s" "calm (Suc k) ?w"
    using same_cache_view [OF sc] same_cache_calm [OF sc] u(2,3) by (simp_all add: same_files_def)
  moreover have "file_read i f buf count s = Inr (count, ?w)"
    using u(1) c by (simp add: file_read_def Let_def)
  ultimately show ?thesis using u same_filesD(3) [OF u(3)]
    by (intro exI [of _ ?w]) (simp add: upd_inode_def)
qed


theorem file_read_bytes_witness:
  "\<exists>u. file_read 0 3 0x4000 5 ex_fs = Inr (5, u) \<and> umem u = with_bytes [20, 20, 20, 20, 20] 0x4000 (umem ex_fs)"
proof -
  have blk: "file_block ex_fs 0 0 = Some (\<lambda>_. 20)"
    using ex_fs_cache(3) by (simp add: file_block_def file_zone_def ex_fs_inode)
  have pos: "f_pos (file_table ex_fs 3) = 0"
    by (simp add: ex_fs_def ex_cache_def buffer_init_def Let_def ex_file_def)
  have "calm (Suc 1) ex_fs" using ex_fs_cache(1) by (simp add: numeral_2_eq_2)
  moreover have "file_bytes ex_fs 0 0 5 = [20, 20, 20, 20, 20]"
    using blk by (simp add: file_bytes_def file_byte_def upt_rec)
  moreover have "backed ex_fs 0 0 5" using blk by (simp add: backed_def)
  ultimately show ?thesis
    using file_read_bytes [of 1 ex_fs 0 5 3 "0x4000"] ex_fs_cache(2) pos
    by (auto simp: ex_fs_inode word_sless_alt max_file_def)
qed

section \<open>The end of the block map\<close>

text \<open>A block number the map cannot represent is not an error of the call: the kernel stops.\<close>

text \<open>
  C37: A file_write of at least one byte at a position, f_pos or with O_APPEND the size of
  the file, that is not negative and beyond the 7+512+512*512 = 262663 blocks the block map
  can represent is not an error of the call but stops the kernel in _bmap.
\<close>

theorem file_write_past_map:
  assumes "0 <s count"
    and pos: "pos = (if ucast (f_flags (file_table s f)) AND O_APPEND \<noteq> 0 then i_size (inode_table s i) else f_pos (file_table s f))"
    and "0 \<le>s pos" "max_file \<le> unat pos"
  shows "file_write i f buf count s = Inl (Panic ''_bmap: block>big'')"
proof -
  have p: "unat pos < 2 ^ 31" by (rule nonneg_small [OF assms(3)])
  have c: "\<not> count \<le>s 0" "unat count \<noteq> 0"
    using assms(1) by (auto simp: word_sless_alt word_sle_eq unat_eq_0)
  have q: "unat (sdiv_w pos 1024) < 2 ^ 31" "262663 \<le> unat (sdiv_w pos 1024)"
    using p assms(4) unfolding position_quotient(1) [OF p] max_file_def by simp_all
  then have "\<not> sdiv_w pos 1024 <s 0" "262663 \<le>s sdiv_w pos 1024" by (simp_all add: sless_small sle_small)
  then have "create_block i (sdiv_w pos 1024) s = Inl (Panic ''_bmap: block>big'')"
    by (simp add: create_block_def bmap_create_def)
  moreover obtain m where "unat count = Suc m" using c(2) by (cases "unat count") auto
  ultimately show ?thesis using c(1) by (simp add: file_write_def Let_def pos [symmetric])
qed

theorem file_write_past_map_witness:
  "file_write 0 3 0x4000 1 (upd_file 3 (\<lambda>f. f\<lparr>f_pos := 0x10082000\<rparr>) ex_kst) = Inl (Panic ''_bmap: block>big'')"
  by (rule file_write_past_map [OF _ refl]) (simp_all add: upd_file_def ex_file_def max_file_def word_sless_alt word_sle_eq)

end
