(* ===== verification/Sched_Lemmas.thy ===== *)
theory Sched_Lemmas imports Sched Example begin

text \<open>
  The scheduler: the search finds a runnable task with the greatest time slice, the loop ends after at most
  one recharge, and the idle task runs only when no other task can.
\<close>

section \<open>The search\<close>

definition runs :: "kst \<Rightarrow> nat \<Rightarrow> task_struct \<Rightarrow> bool" where
  "runs s i t \<longleftrightarrow> task s i = Some t \<and> t_state t = RUNNING"

lemma pick_spec:
  "pick n c nxt s = (c', nx) \<Longrightarrow> c \<le> c' \<and> (\<forall>i t. 0 < i \<and> i \<le> n \<and> runs s i t \<longrightarrow> sint (t_counter t) \<le> c') \<and>
     (c' = c \<and> nx = nxt \<or> (\<exists>t. 0 < nx \<and> nx \<le> n \<and> runs s nx t \<and> sint (t_counter t) = c'))"
proof (induction n arbitrary: c nxt)
  case (Suc n)
  define d where "d = (case task s (Suc n) of None \<Rightarrow> c
     | Some t \<Rightarrow> if t_state t = RUNNING \<and> c < sint (t_counter t) then sint (t_counter t) else c)"
  define m where "m = (case task s (Suc n) of None \<Rightarrow> nxt
     | Some t \<Rightarrow> if t_state t = RUNNING \<and> c < sint (t_counter t) then Suc n else nxt)"
  have p: "pick n d m s = (c', nx)"
    using Suc.prems by (auto simp: d_def m_def split: option.splits if_splits)
  note IH = Suc.IH [OF p]
  have "c \<le> d" "\<forall>t. runs s (Suc n) t \<longrightarrow> sint (t_counter t) \<le> d"
    by (auto simp: d_def runs_def split: option.splits)
  moreover have "d = c \<and> m = nxt \<or> (\<exists>t. m = Suc n \<and> runs s m t \<and> sint (t_counter t) = d)"
    by (auto simp: d_def m_def runs_def split: option.splits)
  ultimately show ?case using IH by (auto simp: le_Suc_eq) 
qed simp

section \<open>The loop\<close>

text \<open>Time slices and priorities in the range in which their sums do not overflow.\<close>

definition slices_ok :: "kst \<Rightarrow> bool" where
  "slices_ok s \<longleftrightarrow> (\<forall>i t. 0 < i \<and> i < NR_TASKS \<and> task s i = Some t \<longrightarrow>
     0 \<le> sint (t_counter t) \<and> sint (t_counter t) < 2 ^ 30 \<and> 0 < sint (t_priority t) \<and> sint (t_priority t) < 2 ^ 30)"

definition idle :: "kst \<Rightarrow> bool" where
  "idle s \<longleftrightarrow> (\<forall>i t. 0 < i \<and> i < NR_TASKS \<longrightarrow> \<not> runs s i t)"

definition best :: "kst \<Rightarrow> nat \<Rightarrow> bool" where
  "best s n \<longleftrightarrow> (\<exists>t. 0 < n \<and> n < NR_TASKS \<and> runs s n t \<and> 0 < sint (t_counter t) \<and>
     (\<forall>i u. 0 < i \<and> i < NR_TASKS \<and> runs s i u \<longrightarrow> sint (t_counter u) \<le> sint (t_counter t)))"

lemma sint_add_small:
  "0 \<le> sint a \<Longrightarrow> sint a < 2 ^ 30 \<Longrightarrow> 0 \<le> sint b \<Longrightarrow> sint b < 2 ^ 30 \<Longrightarrow> sint ((a :: u32) + b) = sint a + sint b"
  by (simp add: sint_word_ariths) (rule signed_take_bit_int_eq_self; simp)

lemma recharge_slices:
  assumes "slices_ok s" "0 < i" "i < NR_TASKS" "task s i = Some t"
  shows "\<exists>u. task (recharge s) i = Some u \<and> t_state u = t_state t \<and> 0 < sint (t_counter u)"
proof -
  let ?h = "signed_drop_bit 1 (t_counter t)"
  have b: "0 \<le> sint (t_counter t)" "sint (t_counter t) < 2 ^ 30" "0 < sint (t_priority t)" "sint (t_priority t) < 2 ^ 30"
    using assms by (auto simp: slices_ok_def)
  have "sint ?h = sint (t_counter t) div 2" by (simp add: sint_signed_drop_bit_eq drop_bit_eq_div)
  then have "0 \<le> sint ?h" "sint ?h < 2 ^ 30" using b by simp_all
  then have "0 < sint (?h + t_priority t)" using b sint_add_small [of ?h "t_priority t"] by simp
  then show ?thesis using assms by (simp add: recharge_def map_tasks_def)
qed


lemma recharge_runs: "runs (recharge s) i u \<Longrightarrow> 0 < i \<Longrightarrow> i < NR_TASKS \<Longrightarrow> \<exists>t. runs s i t"
  by (auto simp: recharge_def map_tasks_def runs_def)

lemma pick_best:
  assumes "pick (NR_TASKS - 1) (- 1) 0 s = (c, n)" "\<forall>i t. 0 < i \<and> i < NR_TASKS \<and> runs s i t \<longrightarrow> 0 \<le> sint (t_counter t)"
  shows "c = - 1 \<and> n = 0 \<and> idle s \<or> 0 < c \<and> best s n \<or> c = 0 \<and> \<not> idle s"
proof -
  have lim: "0 < i \<and> i < NR_TASKS \<longleftrightarrow> 0 < i \<and> i \<le> NR_TASKS - 1" for i by (auto simp: NR_TASKS_def)
  note sp = pick_spec [OF assms(1)]
  consider "c = - 1" "n = 0" | t where "0 < n" "n \<le> NR_TASKS - 1" "runs s n t" "sint (t_counter t) = c" using sp by auto
  then show ?thesis
  proof cases
    case 1
    have "idle s"
      unfolding idle_def
    proof (intro allI impI notI)
      fix i t assume i: "0 < i \<and> i < NR_TASKS" and r: "runs s i t"
      have "sint (t_counter t) \<le> - 1" using sp 1 lim [of i] i r by blast
      moreover have "0 \<le> sint (t_counter t)" using assms(2) i r by blast
      ultimately show False by simp
    qed
    then show ?thesis using 1 by simp
  next
    case 2
    have c: "0 \<le> c" using assms(2) 2 lim by auto
    have "\<not> idle s" using 2 lim by (auto simp: idle_def)
    moreover have "best s n" if "0 < c" unfolding best_def using 2 lim sp that by auto
    ultimately show ?thesis using c by fastforce
  qed
qed

text \<open>A runnable task has some of its time slice left.\<close>

definition slice_left :: "kst \<Rightarrow> bool" where
  "slice_left s \<longleftrightarrow> (\<exists>i t. 0 < i \<and> i < NR_TASKS \<and> runs s i t \<and> 0 < sint (t_counter t))"

lemma best_slice: "best s n \<Longrightarrow> slice_left s"
  unfolding best_def slice_left_def by blast

lemma no_slice:
  assumes "pick (NR_TASKS - 1) (- 1) 0 s = (0, n)"
  shows "\<not> slice_left s"
proof
  assume "slice_left s"
  then obtain i t where i: "0 < i" "i < NR_TASKS" "runs s i t" "0 < sint (t_counter t)" by (auto simp: slice_left_def)
  from pick_spec [OF assms] have "0 < i \<and> i \<le> NR_TASKS - 1 \<and> runs s i t \<longrightarrow> sint (t_counter t) \<le> 0" by (elim conjE allE)
  then show False using i by linarith
qed

lemma sched_loop_result:
  assumes "slices_ok s"
  shows "\<exists>n u. sched_loop s = Some (n, u) \<and> u = (if idle s \<or> slice_left s then s else recharge s) \<and> (if idle s then n = 0 else best u n)"
proof -
  obtain c n where p: "pick (NR_TASKS - 1) (- 1) 0 s = (c, n)" by (metis surj_pair)
  have "\<forall>i t. 0 < i \<and> i < NR_TASKS \<and> runs s i t \<longrightarrow> 0 \<le> sint (t_counter t)"
    using assms by (auto simp: slices_ok_def runs_def)
  note pb = pick_best [OF p this]
  show ?thesis
  proof (cases "c = 0")
    case False
    then have "sched_loop s = Some (n, s)" by (subst sched_loop.simps) (simp add: p [simplified])
    moreover have "if idle s then n = 0 else best s n" using pb False by (auto simp: idle_def best_def)
    moreover have "idle s \<or> slice_left s" using pb False best_slice by blast
    ultimately show ?thesis by (intro exI [of _ n] exI [of _ s]) simp
  next
    case True
    then have ni: "\<not> idle s" using pb by auto
    have nl: "\<not> slice_left s" using no_slice p True by simp
    let ?r = "recharge s"
    obtain d m where q: "pick (NR_TASKS - 1) (- 1) 0 ?r = (d, m)" by (metis surj_pair)
    have pos: "0 < sint (t_counter u)" if i: "0 < i" "i < NR_TASKS" "runs ?r i u" for i u
    proof -
      obtain t where "task s i = Some t" using recharge_runs [OF i(3,1,2)] by (auto simp: runs_def)
      then show ?thesis using recharge_slices [OF assms i(1,2)] i(3) by (auto simp: runs_def)
    qed
    obtain i t where it: "0 < i" "i < NR_TASKS" "task s i = Some t" "t_state t = RUNNING"
      using ni by (auto simp: idle_def runs_def)
    then obtain v where "runs ?r i v" using recharge_slices [OF assms it(1-3)] by (auto simp: runs_def)
    then have v: "runs ?r i v" "0 < sint (t_counter v)" using pos it by auto
    have "i \<le> NR_TASKS - 1" using it(2) by linarith
    then have "d \<ge> sint (t_counter v)" using pick_spec [OF q] v(1) it(1) by blast
    then have d: "0 < d" using v(2) by linarith
    have "\<forall>i t. 0 < i \<and> i < NR_TASKS \<and> runs ?r i t \<longrightarrow> 0 \<le> sint (t_counter t)" using pos less_imp_le by blast
    then have "best ?r m" using pick_best [OF q] d by auto
    moreover have "sched_loop s = Some (m, ?r)"
      using d by (subst sched_loop.simps) (simp add: p [simplified] True, subst sched_loop.simps, simp add: q [simplified])
    ultimately show ?thesis using ni nl by (intro exI [of _ m] exI [of _ ?r]) simp
  qed
qed

lemma check_signals_slices: "slices_ok s \<Longrightarrow> slices_ok (check_signals s)"
proof -
  have "t_counter (check_task j t) = t_counter t \<and> t_priority (check_task j t) = t_priority t" for j t
    by (simp add: check_task_def Let_def)
  then show "slices_ok s \<Longrightarrow> slices_ok (check_signals s)"
    unfolding slices_ok_def check_signals_def map_tasks_def by fastforce
qed

text \<open>The idle task runs only when no other task is runnable; else a best one runs.\<close>

text \<open>
  C20: schedule terminates: if no task is runnable or a runnable task has a positive counter
  the first search decides and the counters stay; otherwise all counters are recharged once
  and the second search decides. The current task is then a runnable one whose counter is
  positive and the largest, or task 0 when no task is runnable; apart from alarms, waking
  tasks with signals and that one recharge no state is changed. Assumed (slices_ok) of every
  task: its counter is not negative, its priority is positive and both are below 2^30; nice
  with a large negative argument gives priorities for which this fails.
\<close>

theorem schedule_picks_best:
  assumes "slices_ok s"
  shows "\<exists>n u. schedule s = Some (u\<lparr>current := n\<rparr>) \<and>
    u = (if idle (check_signals s) \<or> slice_left (check_signals s) then check_signals s else recharge (check_signals s)) \<and>
    (if idle (check_signals s) then n = 0 else best u n) \<and>
    (\<forall>i. map_option t_state (task u i) = map_option t_state (task (check_signals s) i))"
proof -
  obtain n u where u: "sched_loop (check_signals s) = Some (n, u)"
    "u = (if idle (check_signals s) \<or> slice_left (check_signals s) then check_signals s else recharge (check_signals s))"
    "if idle (check_signals s) then n = 0 else best u n"
    using sched_loop_result [OF check_signals_slices [OF assms]] by blast
  moreover have "map_option t_state (task u i) = map_option t_state (task (check_signals s) i)" for i
    using u(2) by (auto simp: recharge_def map_tasks_def option.map_comp comp_def)
  moreover have "schedule s = Some (u\<lparr>current := n\<rparr>)" using u(1) by (simp add: schedule_def)
  ultimately show ?thesis by blast
qed


theorem schedule_picks_best_witness: "\<exists>t. schedule ex_kst = Some t"
proof -
  have "t = ex_task 1" if "0 < i" "task ex_kst i = Some t" for i t using that by (auto split: if_splits)
  then have "slices_ok ex_kst" by (auto simp: slices_ok_def ex_task_def)
  from schedule_picks_best [OF this] show ?thesis by blast
qed

end
