(* ===== verification/Wait_Queue.thy ===== *)
theory Wait_Queue imports Sched_Lemmas begin

text \<open>
  Tasks that sleep on one wait queue. The queue has no links of its own: every sleeper keeps in the local
  variable \<open>tmp\<close> of its \<open>sleep_on\<close> the task that slept before it and wakes that one when it
  leaves. The step relation interleaves entering and leaving \<open>sleep_on\<close>, \<open>wake_up\<close> and the rest of the
  kernel; the invariant says that the sleepers form chains, and that a wake up drains them follows from it.
  A second relation has \<open>interruptible_sleep_on\<close> and signals as well; there a sleeper can be lost.
\<close>

section \<open>Steps\<close>

text \<open>The kernel state, the queue head \<open>*p\<close> and the \<open>tmp\<close> of the tasks inside \<open>sleep_on\<close>.\<close>

record wait_state =
  w_kst :: kst
  w_head :: "nat option"
  w_tmp :: "nat \<Rightarrow> nat option option"

definition running :: "kst \<Rightarrow> nat \<Rightarrow> bool" where
  "running s n \<longleftrightarrow> map_option t_state (task s n) = Some RUNNING"

inductive wait_step :: "wait_state \<Rightarrow> wait_state \<Rightarrow> bool" where
  enter: "w_tmp w (current (w_kst w)) = None \<Longrightarrow> running (w_kst w) (current (w_kst w)) \<Longrightarrow>
     sleep_enter UNINTERRUPTIBLE (w_head w) (w_kst w) = Inr (old, p, s) \<Longrightarrow>
     wait_step w \<lparr>w_kst = s, w_head = p, w_tmp = (w_tmp w)(current (w_kst w) \<mapsto> old)\<rparr>"
| leave: "w_tmp w (current (w_kst w)) = Some old \<Longrightarrow> running (w_kst w) (current (w_kst w)) \<Longrightarrow>
     wait_step w \<lparr>w_kst = sleep_leave old (w_kst w), w_head = w_head w, w_tmp = (w_tmp w)(current (w_kst w) := None)\<rparr>"
| wake: "wake_up (w_head w) (w_kst w) = (p, s) \<Longrightarrow> wait_step w \<lparr>w_kst = s, w_head = p, w_tmp = w_tmp w\<rparr>"
| other: "\<forall>n. w_tmp w n \<noteq> None \<longrightarrow> task s n = task (w_kst w) n \<Longrightarrow> running s (current s) \<Longrightarrow>
     wait_step w (w\<lparr>w_kst := s\<rparr>)"

inductive wait_steps :: "wait_state \<Rightarrow> wait_state \<Rightarrow> bool" where
  refl: "wait_steps w w"
| step: "wait_steps u v \<Longrightarrow> wait_step v w \<Longrightarrow> wait_steps u w"

inductive_cases wait_stepE: "wait_step w v"

definition nobody_waits :: "wait_state \<Rightarrow> bool" where
  "nobody_waits w \<longleftrightarrow> w_head w = None \<and> w_tmp w = (\<lambda>_. None)"

section \<open>The chains of sleepers\<close>

fun linked :: "(nat \<Rightarrow> nat option option) \<Rightarrow> nat list \<Rightarrow> bool" where
  "linked f [] = False"
| "linked f [a] = (f a = Some None)"
| "linked f (a # b # r) = (f a = Some (Some b) \<and> linked f (b # r))"

lemma linked_cong: "(\<And>a. a \<in> set c \<Longrightarrow> f a = g a) \<Longrightarrow> linked f c = linked g c"
  by (induction f c rule: linked.induct) auto

lemma linked_Nil: "linked f c \<Longrightarrow> c \<noteq> []"
  by auto

lemma linked_Cons: "linked f (a # r) \<Longrightarrow> f a = Some (case r of [] \<Rightarrow> None | b # _ \<Rightarrow> Some b) \<and> (r = [] \<or> linked f r)"
  by (cases r) auto

text \<open>
  The chains: the tasks inside \<open>sleep_on\<close>, each exactly once; behind the first task of a chain all
  sleep, and the first one sleeps exactly when the queue head points to it.
\<close>

definition chains :: "wait_state \<Rightarrow> nat list list \<Rightarrow> bool" where
  "chains w cs \<longleftrightarrow> distinct (concat cs) \<and> set (concat cs) = {n. w_tmp w n \<noteq> None} \<and>
     (\<forall>c\<in>set cs. linked (w_tmp w) c \<and> (\<forall>a\<in>set (tl c). \<not> running (w_kst w) a) \<and>
        (running (w_kst w) (hd c) \<longleftrightarrow> w_head w \<noteq> Some (hd c))) \<and>
     (\<forall>a. w_head w = Some a \<longrightarrow> a \<in> hd ` set cs) \<and>
     (\<forall>a. w_tmp w a \<noteq> None \<longrightarrow> task (w_kst w) a \<noteq> None)"

definition wait_inv :: "wait_state \<Rightarrow> bool" where
  "wait_inv w \<longleftrightarrow> (\<exists>cs. chains w cs)"


section \<open>The invariant\<close>

lemma chain_split:
  assumes "chains w cs" "n \<in> set (concat cs)"
  obtains xs c ys where "cs = xs @ c # ys" "n \<in> set c"
  using assms by (auto dest: split_list)

lemma chains_mem:
  assumes "chains w cs" "c \<in> set cs" "a \<in> set c"
  shows "w_tmp w a \<noteq> None" "task (w_kst w) a \<noteq> None"
proof -
  have "a \<in> set (concat cs)" using assms(2,3) by auto
  moreover have "set (concat cs) = {n. w_tmp w n \<noteq> None}" using assms(1) by (simp add: chains_def)
  ultimately show "w_tmp w a \<noteq> None" by blast
  then show "task (w_kst w) a \<noteq> None" using assms(1) by (simp add: chains_def)
qed

lemma chains_hd:
  assumes "chains w cs" "c \<in> set cs"
  shows "c \<noteq> []" "hd c \<in> set c"
  using assms linked_Nil by (auto simp: chains_def intro: hd_in_set)

lemma running_upd:
  "running (make_running b s) a \<longleftrightarrow> running s a \<or> b = Some a \<and> task s a \<noteq> None"
  by (auto simp: running_def make_running_def upd_task_def split: option.splits)

lemma task_make_running [simp]: "task (make_running b s) a = None \<longleftrightarrow> task s a = None"
  by (auto simp: make_running_def upd_task_def split: option.splits)

lemma wake_chains:
  assumes "chains w cs" "wake_up (w_head w) (w_kst w) = (p, s)"
  shows "chains \<lparr>w_kst = s, w_head = p, w_tmp = w_tmp w\<rparr> cs"
proof -
  have s: "p = None" "s = make_running (w_head w) (w_kst w)" using assms(2) by (auto simp: wake_up_def)
  have tl: "\<not> (w_head w = Some a)" if "c \<in> set cs" "a \<in> set (tl c)" for a c
  proof
    assume "w_head w = Some a"
    then obtain d where d: "d \<in> set cs" "hd d = a" using assms(1) by (auto simp: chains_def)
    have "d \<noteq> []" "c \<noteq> []" using assms(1) d(1) that(1) linked_Nil by (auto simp: chains_def)
    moreover from this have "a \<in> set d" "a \<in> set c" using d(2) that(2) by (auto intro: list.set_sel)
    ultimately have "c = d" using assms(1) d(1) that(1) by (auto simp: chains_def distinct_concat_iff)
    moreover have "distinct c" using assms(1) that(1) by (auto simp: chains_def distinct_concat_iff)
    ultimately show False using \<open>c \<noteq> []\<close> d(2) that(2) by (cases c) auto
  qed
  have hd: "running s (hd c)" if "c \<in> set cs" for c
  proof -
    have "c \<noteq> []" using assms(1) that linked_Nil by (auto simp: chains_def)
    then have "task (w_kst w) (hd c) \<noteq> None" using chains_mem [OF assms(1) that] by simp
    then show ?thesis using assms(1) that by (auto simp: chains_def s running_upd)
  qed
  show ?thesis using assms(1) tl hd unfolding chains_def s by (auto simp: running_upd)
qed

lemma other_chains:
  assumes "chains w cs" "\<forall>n. w_tmp w n \<noteq> None \<longrightarrow> task s n = task (w_kst w) n"
  shows "chains (w\<lparr>w_kst := s\<rparr>) cs"
proof -
  have t: "task s a = task (w_kst w) a" if "c \<in> set cs" "a \<in> set c" for a c
    using chains_mem [OF assms(1) that] assms(2) by blast
  have "c \<noteq> []" if "c \<in> set cs" for c using assms(1) that linked_Nil by (auto simp: chains_def)
  then have "running s (hd c) = running (w_kst w) (hd c)" "a \<in> set (tl c) \<Longrightarrow> running s a = running (w_kst w) a"
    if "c \<in> set cs" for c a
    using t [OF that] that by (auto simp: running_def list.set_sel)
  then show ?thesis using assms unfolding chains_def by simp
qed


lemma running_sleep: "running (upd_cur (\<lambda>t. t\<lparr>t_state := UNINTERRUPTIBLE\<rparr>) s) a \<longleftrightarrow> a \<noteq> current s \<and> running s a"
  by (auto simp: running_def upd_cur_def upd_task_def option.map_comp comp_def map_option_case split: option.splits)

lemma enter_chains:
  assumes c: "chains w cs" and n: "w_tmp w (current (w_kst w)) = None" "running (w_kst w) (current (w_kst w))"
    and e: "sleep_enter UNINTERRUPTIBLE (w_head w) (w_kst w) = Inr (old, p, s)"
  shows "wait_inv \<lparr>w_kst = s, w_head = p, w_tmp = (w_tmp w)(current (w_kst w) \<mapsto> old)\<rparr>"
proof -
  let ?n = "current (w_kst w)"
  have s: "old = w_head w" "p = Some ?n" "s = upd_cur (\<lambda>t. t\<lparr>t_state := UNINTERRUPTIBLE\<rparr>) (w_kst w)"
    using e by (auto simp: sleep_enter_def split: if_splits)
  have out: "?n \<notin> set c" if "c \<in> set cs" for c
    using chains_mem [OF c that] n(1) by blast
  have lk: "linked ((w_tmp w)(?n \<mapsto> old)) c = linked (w_tmp w) c" if "c \<in> set cs" for c
    by (rule linked_cong) (use out [OF that] in auto)
  have ts: "task s a = None \<longleftrightarrow> task (w_kst w) a = None" for a
    by (simp add: s upd_cur_def upd_task_def)
  have tn: "task (w_kst w) ?n \<noteq> None" using n(2) by (auto simp: running_def)
  show ?thesis
  proof (cases "w_head w")
    case None
    have "chains \<lparr>w_kst = s, w_head = p, w_tmp = (w_tmp w)(?n \<mapsto> old)\<rparr> ([?n] # cs)"
      using c out lk ts tn None n(1) unfolding chains_def s(1,2) by (auto simp: s(3) running_sleep)
    then show ?thesis by (auto simp: wait_inv_def)
  next
    case (Some a)
    then obtain d where d: "d \<in> set cs" "hd d = a" using c by (auto simp: chains_def)
    then obtain xs ys where cs: "cs = xs @ d # ys" by (auto dest: split_list)
    obtain r where r: "d = a # r" using c d linked_Nil by (cases d) (auto simp: chains_def)
    have nr: "\<not> running (w_kst w) a" using c d Some by (auto simp: chains_def)
    let ?w = "\<lparr>w_kst = s, w_head = p, w_tmp = (w_tmp w)(?n \<mapsto> old)\<rparr>" and ?cs = "xs @ (?n # d) # ys"
    have sub: "e \<in> set cs" if "e \<in> set xs \<union> set ys" for e using that cs by auto
    have "distinct (concat ?cs)" using c out by (auto simp: chains_def cs)
    moreover have "set (concat ?cs) = {m. w_tmp ?w m \<noteq> None}"
    proof -
      have "set (concat cs) = {m. w_tmp w m \<noteq> None}" using c by (simp add: chains_def)
      moreover have "set (concat ?cs) = insert ?n (set (concat cs))" by (auto simp: cs)
      ultimately show ?thesis by auto
    qed
    moreover have "linked (w_tmp ?w) e \<and> (\<forall>x\<in>set (tl e). \<not> running (w_kst ?w) x) \<and>
        (running (w_kst ?w) (hd e) \<longleftrightarrow> w_head ?w \<noteq> Some (hd e))" if "e \<in> set ?cs" for e
    proof (cases "e = ?n # d")
      case True
      have "\<forall>x\<in>set d. \<not> running s x" using c d(1) nr r unfolding chains_def s(3) running_sleep by auto
      then show ?thesis using True lk [OF d(1)] c d(1) Some by (auto simp: chains_def s running_sleep r)
    next
      case False
      then have e: "e \<in> set cs" "e \<in> set xs \<union> set ys" using that sub by auto
      have "hd e \<noteq> a"
      proof
        assume "hd e = a"
        then have "a \<in> set e" using chains_hd [OF c e(1)] by metis
        moreover have "a \<in> set d" using r by simp
        ultimately show False using c e(2) by (auto simp: chains_def cs)
      qed
      moreover have "hd e \<noteq> ?n" using out [OF e(1)] chains_hd [OF c e(1)] by metis
      ultimately show ?thesis using c e(1) lk [OF e(1)] Some by (auto simp: chains_def s running_sleep)
    qed
    ultimately have "chains ?w ?cs" using c tn ts unfolding chains_def by (simp add: s(2))
    then show ?thesis by (auto simp: wait_inv_def)
  qed
qed


lemma leave_chains:
  assumes c: "chains w cs" and n: "w_tmp w (current (w_kst w)) = Some old" "running (w_kst w) (current (w_kst w))"
  shows "\<exists>cs'. chains \<lparr>w_kst = sleep_leave old (w_kst w), w_head = w_head w,
    w_tmp = (w_tmp w)(current (w_kst w) := None)\<rparr> cs'"
proof -
  let ?n = "current (w_kst w)" and ?s = "make_running old (w_kst w)"
  let ?w = "\<lparr>w_kst = sleep_leave old (w_kst w), w_head = w_head w, w_tmp = (w_tmp w)(?n := None)\<rparr>"
  have set: "set (concat cs) = {m. w_tmp w m \<noteq> None}" using c by (simp add: chains_def)
  then obtain d where d: "d \<in> set cs" "?n \<in> set d" using n(1) by auto
  have "?n \<notin> set (tl d)" using c d(1) n(2) by (auto simp: chains_def)
  then obtain r where r: "d = ?n # r" using d(2) by (cases d) auto
  obtain xs ys where cs: "cs = xs @ d # ys" using d(1) by (auto dest: split_list)
  have old: "old = (case r of [] \<Rightarrow> None | b # _ \<Rightarrow> Some b)" and lr: "r = [] \<or> linked (w_tmp w) r"
    using linked_Cons [of "w_tmp w" ?n r] c d(1) r n(1) by (auto simp: chains_def)
  let ?cs = "xs @ (if r = [] then [] else [r]) @ ys"
  have dist: "distinct (concat cs)" using c by (simp add: chains_def)
  then have nd: "?n \<notin> set (concat ?cs)" "distinct (concat ?cs)" unfolding cs r by (auto split: if_splits)
  moreover have "set (concat ?cs) = {m. w_tmp ?w m \<noteq> None}"
  proof -
    have "insert ?n (set (concat ?cs)) = set (concat cs)" by (auto simp: cs r)
    then show ?thesis using set nd(1) n(1) by auto
  qed
  moreover have "linked (w_tmp ?w) e \<and> (\<forall>x\<in>set (tl e). \<not> running (w_kst ?w) x) \<and>
      (running (w_kst ?w) (hd e) \<longleftrightarrow> w_head ?w \<noteq> Some (hd e))" if e: "e \<in> set ?cs" for e
  proof -
    have ne: "?n \<notin> set e" using e nd(1) by auto
    have lk: "linked (w_tmp ?w) e = linked (w_tmp w) e" by (rule linked_cong) (use ne in auto)
    show ?thesis
    proof (cases "r \<noteq> [] \<and> e = r")
      case True
      then obtain b q where b: "r = b # q" by (cases r) auto
      have "b \<in> set d" using b r by simp
      then have tb: "task (w_kst w) b \<noteq> None" using chains_mem [OF c d(1)] by blast
      have "\<forall>x\<in>set r. \<not> running (w_kst w) x" using c d(1) r by (auto simp: chains_def)
      moreover have "b \<notin> set q" using dist unfolding cs r b by simp
      moreover have "w_head w \<noteq> Some b"
      proof
        assume "w_head w = Some b"
        then obtain f where f: "f \<in> set cs" "hd f = b" using c by (auto simp: chains_def)
        have bf: "b \<in> set f" using chains_hd [OF c f(1)] f(2) by metis
        have "?n \<noteq> b" using dist unfolding cs r b by simp
        then have "f \<noteq> d" using f(2) r by auto
        then show False using bf f(1) dist b unfolding cs r by auto
      qed
      ultimately show ?thesis using True b lk lr tb old by (auto simp: sleep_leave_def running_upd)
    next
      case False
      then have e': "e \<in> set xs \<union> set ys" "e \<in> set cs" using e by (auto simp: cs split: if_splits)
      have "old \<noteq> Some x" if "x \<in> set e" for x
        using that e'(1) dist old unfolding cs r by (auto split: list.splits)
      moreover have "hd e \<in> set e" "\<And>x. x \<in> set (tl e) \<Longrightarrow> x \<in> set e"
        using chains_hd [OF c e'(2)] by (auto intro: list.set_sel)
      ultimately show ?thesis using c e'(2) lk by (auto simp: chains_def sleep_leave_def running_upd)
    qed
  qed
  moreover have "\<forall>a. w_head ?w = Some a \<longrightarrow> a \<in> hd ` set ?cs"
  proof (intro allI impI)
    fix a assume a: "w_head ?w = Some a"
    then obtain f where f: "f \<in> set cs" "hd f = a" using c by (auto simp: chains_def)
    have "a \<noteq> ?n" using c d(1) n(2) r a by (auto simp: chains_def)
    then show "a \<in> hd ` set ?cs" using f r by (auto simp: cs)
  qed
  ultimately have "chains ?w ?cs" using c unfolding chains_def by (simp add: sleep_leave_def)
  then show ?thesis by blast
qed

lemma wait_step_inv:
  assumes "wait_step w v" "wait_inv w"
  shows "wait_inv v"
proof -
  obtain cs where cs: "chains w cs" using assms(2) by (auto simp: wait_inv_def)
  from assms(1) show ?thesis
  proof (rule wait_stepE)
    fix old p s
    assume "v = \<lparr>w_kst = s, w_head = p, w_tmp = (w_tmp w)(current (w_kst w) \<mapsto> old)\<rparr>"
      and e: "w_tmp w (current (w_kst w)) = None" "running (w_kst w) (current (w_kst w))"
        "sleep_enter UNINTERRUPTIBLE (w_head w) (w_kst w) = Inr (old, p, s)"
    then show ?thesis using enter_chains [OF cs e] by simp
  next
    fix old
    assume "v = \<lparr>w_kst = sleep_leave old (w_kst w), w_head = w_head w, w_tmp = (w_tmp w)(current (w_kst w) := None)\<rparr>"
      and e: "w_tmp w (current (w_kst w)) = Some old" "running (w_kst w) (current (w_kst w))"
    then show ?thesis using leave_chains [OF cs e] by (simp add: wait_inv_def)
  next
    fix p s
    assume "v = \<lparr>w_kst = s, w_head = p, w_tmp = w_tmp w\<rparr>" and e: "wake_up (w_head w) (w_kst w) = (p, s)"
    then show ?thesis using wake_chains [OF cs e] by (auto simp: wait_inv_def)
  next
    fix s
    assume "v = w\<lparr>w_kst := s\<rparr>" and e: "\<forall>n. (\<exists>y. w_tmp w n = Some y) \<longrightarrow> task s n = task (w_kst w) n"
    moreover from e have "chains (w\<lparr>w_kst := s\<rparr>) cs" by (intro other_chains [OF cs]) auto
    ultimately show ?thesis by (auto simp: wait_inv_def)
  qed
qed

lemma reach_inv: "wait_steps u w \<Longrightarrow> nobody_waits u \<Longrightarrow> wait_inv w"
proof (induction rule: wait_steps.induct)
  case (refl w)
  then have "chains w []" by (simp add: chains_def nobody_waits_def)
  then show ?case by (auto simp: wait_inv_def)
next
  case step
  then show ?case using wait_step_inv by blast
qed


section \<open>All sleepers get out\<close>

text \<open>When the queue head is empty some task inside can run, so all of them get out.\<close>

lemma someone_runs:
  assumes "wait_inv w" "w_head w = None" "w_tmp w n \<noteq> None"
  shows "\<exists>m. w_tmp w m \<noteq> None \<and> running (w_kst w) m"
proof -
  obtain cs where c: "chains w cs" using assms(1) by (auto simp: wait_inv_def)
  then have "set (concat cs) = {m. w_tmp w m \<noteq> None}" by (simp add: chains_def)
  then obtain d where d: "d \<in> set cs" using assms(3) by auto
  then have "running (w_kst w) (hd d)" using c assms(2) by (simp add: chains_def)
  then show ?thesis using chains_mem [OF c d chains_hd(2) [OF c d]] by blast
qed

lemma wait_steps_trans: "wait_steps v w \<Longrightarrow> wait_steps u v \<Longrightarrow> wait_steps u w"
  by (induction rule: wait_steps.induct) (auto intro: wait_steps.intros)

lemma drain:
  "finite {n. w_tmp w n \<noteq> None} \<Longrightarrow> wait_inv w \<Longrightarrow> w_head w = None \<Longrightarrow>
   \<exists>v. wait_steps w v \<and> nobody_waits v"
proof (induction "card {n. w_tmp w n \<noteq> None}" arbitrary: w)
  case 0
  then have "nobody_waits w" by (auto simp: nobody_waits_def)
  then show ?case using wait_steps.refl by blast
next
  case (Suc k)
  then obtain n where "w_tmp w n \<noteq> None" by fastforce
  then obtain m old where m: "w_tmp w m = Some old" "running (w_kst w) m"
    using someone_runs [OF Suc.prems(2,3)] by blast
  let ?v = "w\<lparr>w_kst := (w_kst w)\<lparr>current := m\<rparr>\<rparr>"
  let ?u = "\<lparr>w_kst = sleep_leave old (w_kst ?v), w_head = w_head ?v, w_tmp = (w_tmp ?v)(current (w_kst ?v) := None)\<rparr>"
  have "wait_step w ?v" by (rule wait_step.other) (use m in \<open>simp_all add: running_def\<close>)
  moreover have "wait_step ?v ?u" by (rule wait_step.leave) (use m in \<open>simp_all add: running_def\<close>)
  ultimately have st: "wait_steps w ?u" by (meson wait_steps.intros)
  have inv: "wait_inv ?u"
    using wait_step_inv [OF \<open>wait_step ?v ?u\<close> wait_step_inv [OF \<open>wait_step w ?v\<close> Suc.prems(2)]] .
  have eq: "{n. w_tmp ?u n \<noteq> None} = {n. w_tmp w n \<noteq> None} - {m}" by auto
  have "k = card {n. w_tmp ?u n \<noteq> None}" unfolding eq using Suc.hyps(2) Suc.prems(1) m(1) by simp
  moreover have "finite {n. w_tmp ?u n \<noteq> None}" unfolding eq using Suc.prems(1) by simp
  moreover have "w_head ?u = None" using Suc.prems(3) by simp
  ultimately obtain z where "wait_steps ?u z" "nobody_waits z" using Suc.hyps(1) inv by blast
  then show ?case using wait_steps_trans st by blast
qed

text \<open>After a \<open>wake_up\<close> all sleepers can leave, one waking the next, without another \<open>wake_up\<close>.\<close>

text \<open>
  C23: After a wake_up of a queue with finitely many sleepers, the tasks resuming one after
  the other get everybody out of sleep_on, each waking the next.
\<close>

theorem wake_up_drains:
  assumes "wait_steps u w" "nobody_waits u" "finite {n. w_tmp w n \<noteq> None}" "wake_up (w_head w) (w_kst w) = (p, s)"
  shows "\<exists>v. wait_steps \<lparr>w_kst = s, w_head = p, w_tmp = w_tmp w\<rparr> v \<and> nobody_waits v"
proof (rule drain)
  show "wait_inv \<lparr>w_kst = s, w_head = p, w_tmp = w_tmp w\<rparr>"
    using wait_step_inv [OF wait_step.wake [OF assms(4)]] reach_inv [OF assms(1,2)] by blast
qed (use assms in \<open>auto simp: wake_up_def\<close>)


text \<open>Task 1 of the example falls asleep on an empty queue.\<close>

definition ex_wait :: wait_state where
  "ex_wait = \<lparr>w_kst = ex_kst, w_head = None, w_tmp = (\<lambda>_. None)\<rparr>"

lemma ex_sleep: "\<exists>s. wait_steps ex_wait \<lparr>w_kst = s, w_head = Some 1, w_tmp = (\<lambda>_. None)(1 \<mapsto> None)\<rparr>"
proof -
  obtain s where "sleep_enter UNINTERRUPTIBLE None ex_kst = Inr (None, Some 1, s)" by (simp add: sleep_enter_def)
  then have "wait_step ex_wait \<lparr>w_kst = s, w_head = Some 1, w_tmp = (w_tmp ex_wait)(current (w_kst ex_wait) \<mapsto> None)\<rparr>"
    by (intro wait_step.enter) (simp_all add: ex_wait_def running_def ex_task_def)
  then have "wait_step ex_wait \<lparr>w_kst = s, w_head = Some 1, w_tmp = (\<lambda>_. None)(1 \<mapsto> None)\<rparr>"
    by (simp add: ex_wait_def)
  then show ?thesis using wait_steps.intros by blast
qed

lemma ex_wait_nobody: "nobody_waits ex_wait"
  by (simp add: nobody_waits_def ex_wait_def)

theorem wake_up_drains_witness:
  "\<exists>s v. wait_steps \<lparr>w_kst = s, w_head = None, w_tmp = (\<lambda>_. None)(1 \<mapsto> None)\<rparr> v \<and> nobody_waits v"
proof -
  obtain s where w: "wait_steps ex_wait \<lparr>w_kst = s, w_head = Some 1, w_tmp = (\<lambda>_. None)(1 \<mapsto> None)\<rparr>" using ex_sleep by blast
  let ?w = "\<lparr>w_kst = s, w_head = Some 1, w_tmp = (\<lambda>_. None)(1 \<mapsto> None)\<rparr>"
  have "finite {n. w_tmp ?w n \<noteq> None}" by (rule finite_subset [of _ "{1}"]) auto
  from wake_up_drains [OF w ex_wait_nobody this, of None "make_running (Some 1) s"] show ?thesis
    by (auto simp: wake_up_def)
qed

section \<open>No sleeper is lost\<close>

text \<open>
  The general steps of a queue: a task sleeps in \<open>sleep_on\<close> or in \<open>interruptible_sleep_on\<close>
  (\<open>q_intr\<close>), and anything else, a signal for one, may wake it or change its other fields; only the
  task itself goes to sleep. \<open>q_unnamed\<close> collects the tasks that went back to sleep by the \<open>repeat\<close> of
  \<open>interruptible_sleep_on\<close> while no other sleeper had them as its \<open>tmp\<close>.
\<close>

record queue_state = wait_state +
  q_intr :: "nat \<Rightarrow> bool"
  q_unnamed :: "nat set"

definition named :: "(nat \<Rightarrow> nat option option) \<Rightarrow> nat \<Rightarrow> bool" where
  "named f n \<longleftrightarrow> (\<exists>m. m \<noteq> n \<and> f m = Some (Some n))"

inductive queue_step :: "queue_state \<Rightarrow> queue_state \<Rightarrow> bool" where
  q_enter: "w_tmp w (current (w_kst w)) = None \<Longrightarrow> running (w_kst w) (current (w_kst w)) \<Longrightarrow>
     sleep_enter (if intr then INTERRUPTIBLE else UNINTERRUPTIBLE) (w_head w) (w_kst w) = Inr (old, p, s) \<Longrightarrow>
     queue_step w (w\<lparr>w_kst := s, w_head := p, w_tmp := (w_tmp w)(current (w_kst w) \<mapsto> old),
       q_intr := (q_intr w)(current (w_kst w) := intr), q_unnamed := q_unnamed w - {current (w_kst w)}\<rparr>)"
| q_leave: "w_tmp w (current (w_kst w)) = Some old \<Longrightarrow> running (w_kst w) (current (w_kst w)) \<Longrightarrow>
     \<not> q_intr w (current (w_kst w)) \<Longrightarrow>
     queue_step w (w\<lparr>w_kst := sleep_leave old (w_kst w), w_tmp := (w_tmp w)(current (w_kst w) := None)\<rparr>)"
| q_leave_intr: "w_tmp w (current (w_kst w)) = Some old \<Longrightarrow> running (w_kst w) (current (w_kst w)) \<Longrightarrow>
     q_intr w (current (w_kst w)) \<Longrightarrow> interruptible_leave old (w_head w) (w_kst w) = (False, p, s) \<Longrightarrow>
     queue_step w (w\<lparr>w_kst := s, w_head := p, w_tmp := (w_tmp w)(current (w_kst w) := None)\<rparr>)"
| q_again: "w_tmp w (current (w_kst w)) = Some old \<Longrightarrow> running (w_kst w) (current (w_kst w)) \<Longrightarrow>
     q_intr w (current (w_kst w)) \<Longrightarrow> interruptible_leave old (w_head w) (w_kst w) = (True, p, s) \<Longrightarrow>
     queue_step w (w\<lparr>w_kst := s, w_head := p,
       q_unnamed := if named (w_tmp w) (current (w_kst w)) then q_unnamed w else insert (current (w_kst w)) (q_unnamed w)\<rparr>)"
| q_wake: "wake_up (w_head w) (w_kst w) = (p, s) \<Longrightarrow> queue_step w (w\<lparr>w_kst := s, w_head := p\<rparr>)"
| q_other: "\<forall>n. w_tmp w n \<noteq> None \<longrightarrow> task s n \<noteq> None \<and> (running (w_kst w) n \<longrightarrow> running s n) \<Longrightarrow> running s (current s) \<Longrightarrow>
     queue_step w (w\<lparr>w_kst := s\<rparr>)"

inductive queue_steps :: "queue_state \<Rightarrow> queue_state \<Rightarrow> bool" where
  q_refl: "queue_steps w w"
| q_step: "queue_steps u v \<Longrightarrow> queue_step v w \<Longrightarrow> queue_steps u w"

definition queue_inv :: "queue_state \<Rightarrow> bool" where
  "queue_inv w \<longleftrightarrow> (\<forall>n. w_tmp w n \<noteq> None \<longrightarrow> task (w_kst w) n \<noteq> None \<and>
     (running (w_kst w) n \<or> w_head w = Some n \<or> named (w_tmp w) n \<or> q_intr w n \<and> n \<in> q_unnamed w))"

lemma named_upd:
  "named (f(m := None)) n \<longleftrightarrow> (\<exists>k. k \<noteq> n \<and> k \<noteq> m \<and> f k = Some (Some n))"
  "f m = None \<Longrightarrow> named (f(m \<mapsto> old)) n \<longleftrightarrow> named f n \<or> m \<noteq> n \<and> old = Some n"
proof -
  have upd: "(f(m := x)) k = Some (Some n) \<longleftrightarrow> (if k = m then x = Some (Some n) else f k = Some (Some n))" for x k by simp
  show "named (f(m := None)) n \<longleftrightarrow> (\<exists>k. k \<noteq> n \<and> k \<noteq> m \<and> f k = Some (Some n))"
    unfolding named_def upd by auto
  assume "f m = None"
  then show "named (f(m \<mapsto> old)) n \<longleftrightarrow> named f n \<or> m \<noteq> n \<and> old = Some n"
    unfolding named_def upd by (metis option.distinct(1) option.inject)
qed

lemma running_put_state:
  "running (upd_cur (\<lambda>t. t\<lparr>t_state := st\<rparr>) s) a \<longleftrightarrow> (if a = current s then st = RUNNING \<and> task s a \<noteq> None else running s a)"
  by (auto simp: running_def upd_cur_def upd_task_def option.map_comp comp_def map_option_case split: option.splits)

lemma task_put_state [simp]: "task (upd_cur (\<lambda>t. t\<lparr>t_state := st\<rparr>) s) a = None \<longleftrightarrow> task s a = None"
  by (simp add: upd_cur_def upd_task_def)

lemma current_make_running [simp]: "current (make_running b s) = current s"
  by (simp add: make_running_def upd_task_def split: option.splits)

text \<open>A task that leaves has woken the one its \<open>tmp\<close> names; the others keep what they had.\<close>

lemma left_queue:
  assumes "queue_inv w" "w_tmp w c = Some old" "n \<noteq> c" "w_tmp w n \<noteq> None" "p = w_head w \<or> w_head w \<noteq> Some n"
  shows "task (make_running old (w_kst w)) n \<noteq> None \<and> (running (make_running old (w_kst w)) n \<or> p = Some n \<or>
    named ((w_tmp w)(c := None)) n \<or> q_intr w n \<and> n \<in> q_unnamed w)"
proof -
  have inv: "task (w_kst w) n \<noteq> None" "running (w_kst w) n \<or> w_head w = Some n \<or> named (w_tmp w) n \<or> q_intr w n \<and> n \<in> q_unnamed w"
    using assms(1,4) by (simp_all add: queue_inv_def)
  have "old = Some n \<or> named ((w_tmp w)(c := None)) n" if N: "named (w_tmp w) n"
  proof -
    obtain m where "m \<noteq> n" "w_tmp w m = Some (Some n)" using N by (auto simp: named_def)
    then show ?thesis using assms(2) by (cases "m = c") (auto simp: named_upd)
  qed
  then show ?thesis using inv assms(5) by (auto simp: running_upd)
qed

lemma queue_step_inv: "queue_step w v \<Longrightarrow> queue_inv w \<Longrightarrow> queue_inv v"
proof (induction rule: queue_step.induct)
  case (q_enter w intr old p s)
  have "old = w_head w" "p = Some (current (w_kst w))"
    "s = upd_cur (\<lambda>t. t\<lparr>t_state := if intr then INTERRUPTIBLE else UNINTERRUPTIBLE\<rparr>) (w_kst w)"
    using q_enter.hyps(3) by (auto simp: sleep_enter_def split: if_splits)
  moreover have "task (w_kst w) (current (w_kst w)) \<noteq> None" using q_enter.hyps(2) by (auto simp: running_def)
  ultimately show ?case
    using q_enter.prems q_enter.hyps(1) by (auto simp: queue_inv_def named_upd running_put_state)
next
  case (q_leave w old)
  then show ?case using left_queue [OF q_leave.prems q_leave.hyps(1)] by (simp add: queue_inv_def sleep_leave_def)
next
  case (q_leave_intr w old p s)
  have "s = make_running old (w_kst w)" "w_head w = None \<or> w_head w = Some (current (w_kst w))"
    using q_leave_intr.hyps(4) by (auto simp: interruptible_leave_def split: if_splits)
  moreover from this have "p = w_head w \<or> w_head w \<noteq> Some n" if "n \<noteq> current (w_kst w)" for n using that by auto
  ultimately show ?case
    using left_queue [where p = p, OF q_leave_intr.prems q_leave_intr.hyps(1)] by (simp add: queue_inv_def)
next
  case (q_again w old p s)
  have "p = w_head w" "s = upd_cur (\<lambda>t. t\<lparr>t_state := INTERRUPTIBLE\<rparr>) (make_running p (w_kst w))"
    using q_again.hyps(4) by (auto simp: interruptible_leave_def split: if_splits)
  then show ?case using q_again.prems q_again.hyps(3) by (auto simp: queue_inv_def running_put_state running_upd)
next
  case (q_wake w p s)
  have "p = None" "s = make_running (w_head w) (w_kst w)" using q_wake.hyps by (auto simp: wake_up_def)
  then show ?case using q_wake.prems by (auto simp: queue_inv_def running_upd)
next
  case (q_other w s)
  then show ?case by (auto simp: queue_inv_def)
qed

lemma queue_steps_inv: "queue_steps u w \<Longrightarrow> queue_inv u \<Longrightarrow> queue_inv w"
  by (induction rule: queue_steps.induct) (auto dest: queue_step_inv)

text \<open>
  C17: Whatever the order in which tasks enter sleep_on or interruptible_sleep_on on one
  wait queue, are woken by wake_up or by signals, go back to sleep by the repeat of
  interruptible_sleep_on, and leave, a task inside that is not running is at the head of the
  queue, or named by the tmp of another task still inside, or it is inside
  interruptible_sleep_on and went back to sleep by its repeat when nobody named it. The last
  case is a defect of interruptible_sleep_on (lemma lost_sleeper runs into it); with
  sleep_on alone it does not arise.
\<close>

theorem no_lost_sleeper:
  assumes "queue_steps u w" "w_tmp u = (\<lambda>_. None)" "w_tmp w n \<noteq> None"
  shows "running (w_kst w) n \<or> w_head w = Some n \<or> (\<exists>m. m \<noteq> n \<and> w_tmp w m = Some (Some n)) \<or>
    q_intr w n \<and> n \<in> q_unnamed w"
proof -
  have "queue_inv u" using assms(2) by (simp add: queue_inv_def)
  from queue_steps_inv [OF assms(1) this] show ?thesis using assms(3) by (auto simp: queue_inv_def named_def)
qed

section \<open>A lost sleeper\<close>

text \<open>
  What \<open>q_unnamed\<close> leaves open does happen. Task 1 sleeps and is woken; before it runs task 2 goes to
  sleep, at the head of the empty queue. Task 1 finds it there, wakes it and goes back to sleep; task 2
  leaves and clears the head. Nobody knows of task 1 now.
\<close>

definition two_tasks :: "nat \<Rightarrow> task_state \<Rightarrow> task_state \<Rightarrow> kst" where
  "two_tasks c a b = ex_kst\<lparr>current := c, task := (\<lambda>_. None)(1 \<mapsto> (ex_task 1)\<lparr>t_state := a\<rparr>, 2 \<mapsto> (ex_task 2)\<lparr>t_state := b\<rparr>)\<rparr>"

definition ex_two :: "nat \<Rightarrow> task_state \<Rightarrow> task_state \<Rightarrow> nat option \<Rightarrow> (nat \<Rightarrow> nat option option) \<Rightarrow> nat set \<Rightarrow> queue_state" where
  "ex_two c a b h f un = \<lparr>w_kst = two_tasks c a b, w_head = h, w_tmp = f, q_intr = (\<lambda>_. True), q_unnamed = un\<rparr>"

lemma two_tasks [simp]:
  "running (two_tasks c a b) n \<longleftrightarrow> n = 1 \<and> a = RUNNING \<or> n = 2 \<and> b = RUNNING" "current (two_tasks c a b) = c"
  "task (two_tasks c a b) n = None \<longleftrightarrow> n \<noteq> 1 \<and> n \<noteq> 2" "two_tasks c a b\<lparr>current := d\<rparr> = two_tasks d a b"
  "upd_task (Suc 0) (\<lambda>t. t\<lparr>t_state := x\<rparr>) (two_tasks c a b) = two_tasks c x b"
  "upd_task 2 (\<lambda>t. t\<lparr>t_state := x\<rparr>) (two_tasks c a b) = two_tasks c a x"
  by (auto simp: running_def two_tasks_def upd_task_def fun_eq_iff)

lemma ex_two_steps:
  "f 1 = None \<Longrightarrow> 1 \<notin> un \<Longrightarrow> queue_step (ex_two 1 RUNNING b h f un) (ex_two 1 INTERRUPTIBLE b (Some 1) (f(1 \<mapsto> h)) un)"
  "f 2 = None \<Longrightarrow> 2 \<notin> un \<Longrightarrow> queue_step (ex_two 2 a RUNNING h f un) (ex_two 2 a INTERRUPTIBLE (Some 2) (f(2 \<mapsto> h)) un)"
  "queue_step (ex_two c a b (Some 1) f un) (ex_two c RUNNING b None f un)"
  "dom f \<subseteq> {1, 2} \<Longrightarrow> d = 1 \<and> a = RUNNING \<or> d = 2 \<and> b = RUNNING \<Longrightarrow> queue_step (ex_two c a b h f un) (ex_two d a b h f un)"
  "f 1 \<noteq> None \<Longrightarrow> \<not> named f 1 \<Longrightarrow>
    queue_step (ex_two 1 RUNNING b (Some 2) f un) (ex_two 1 INTERRUPTIBLE RUNNING (Some 2) f (insert 1 un))"
  "f 2 = Some None \<Longrightarrow> queue_step (ex_two 2 a RUNNING (Some 2) f un) (ex_two 2 a RUNNING None (f(2 := None)) un)"
proof -
  assume "f 1 = None" "1 \<notin> un"
  then show "queue_step (ex_two 1 RUNNING b h f un) (ex_two 1 INTERRUPTIBLE b (Some 1) (f(1 \<mapsto> h)) un)"
    using queue_step.q_enter [of "ex_two 1 RUNNING b h f un" True]
    by (simp add: ex_two_def sleep_enter_def upd_cur_def fun_upd_idem)
next
  assume "f 2 = None" "2 \<notin> un"
  then show "queue_step (ex_two 2 a RUNNING h f un) (ex_two 2 a INTERRUPTIBLE (Some 2) (f(2 \<mapsto> h)) un)"
    using queue_step.q_enter [of "ex_two 2 a RUNNING h f un" True]
    by (simp add: ex_two_def sleep_enter_def upd_cur_def fun_upd_idem)
next
  show "queue_step (ex_two c a b (Some 1) f un) (ex_two c RUNNING b None f un)"
    using queue_step.q_wake [of "ex_two c a b (Some 1) f un"]
    by (simp add: ex_two_def wake_up_def make_running_def)
next
  assume "dom f \<subseteq> {1, 2}" "d = 1 \<and> a = RUNNING \<or> d = 2 \<and> b = RUNNING"
  then show "queue_step (ex_two c a b h f un) (ex_two d a b h f un)"
    using queue_step.q_other [of "ex_two c a b h f un" "two_tasks d a b"] by (force simp: ex_two_def dom_def)
next
  assume "f 1 \<noteq> None" "\<not> named f 1"
  then show "queue_step (ex_two 1 RUNNING b (Some 2) f un) (ex_two 1 INTERRUPTIBLE RUNNING (Some 2) f (insert 1 un))"
    using queue_step.q_again [of "ex_two 1 RUNNING b (Some 2) f un"]
    by (auto simp: ex_two_def interruptible_leave_def make_running_def upd_cur_def)
next
  assume "f 2 = Some None"
  then show "queue_step (ex_two 2 a RUNNING (Some 2) f un) (ex_two 2 a RUNNING None (f(2 := None)) un)"
    using queue_step.q_leave_intr [of "ex_two 2 a RUNNING (Some 2) f un"]
    by (simp add: ex_two_def interruptible_leave_def make_running_def)
qed

lemma lost_sleeper:
  "\<exists>w. queue_steps (ex_two 1 RUNNING RUNNING None (\<lambda>_. None) {}) w \<and> w_tmp w 1 \<noteq> None \<and> \<not> running (w_kst w) 1 \<and>
     w_head w = None \<and> \<not> named (w_tmp w) 1"
proof -
  let ?f = "(\<lambda>_. None)(1 \<mapsto> None) :: nat \<Rightarrow> nat option option"
  let ?g = "?f(2 \<mapsto> None)"
  have s1: "queue_step (ex_two 1 RUNNING RUNNING None (\<lambda>_. None) {}) (ex_two 1 INTERRUPTIBLE RUNNING (Some 1) ?f {})"
    by (rule ex_two_steps) simp_all
  have s2: "queue_step (ex_two 1 INTERRUPTIBLE RUNNING (Some 1) ?f {}) (ex_two 1 RUNNING RUNNING None ?f {})"
    by (rule ex_two_steps)
  have s3: "queue_step (ex_two 1 RUNNING RUNNING None ?f {}) (ex_two 2 RUNNING RUNNING None ?f {})"
    by (rule ex_two_steps(4)) auto
  have s4: "queue_step (ex_two 2 RUNNING RUNNING None ?f {}) (ex_two 2 RUNNING INTERRUPTIBLE (Some 2) ?g {})"
    by (rule ex_two_steps(2)) simp_all
  have s5: "queue_step (ex_two 2 RUNNING INTERRUPTIBLE (Some 2) ?g {}) (ex_two 1 RUNNING INTERRUPTIBLE (Some 2) ?g {})"
    by (rule ex_two_steps(4)) auto
  have s6: "queue_step (ex_two 1 RUNNING INTERRUPTIBLE (Some 2) ?g {}) (ex_two 1 INTERRUPTIBLE RUNNING (Some 2) ?g {1})"
    by (rule ex_two_steps(5)) (auto simp: named_def split: if_splits)
  have s7: "queue_step (ex_two 1 INTERRUPTIBLE RUNNING (Some 2) ?g {1}) (ex_two 2 INTERRUPTIBLE RUNNING (Some 2) ?g {1})"
    by (rule ex_two_steps(4)) auto
  have s8: "queue_step (ex_two 2 INTERRUPTIBLE RUNNING (Some 2) ?g {1}) (ex_two 2 INTERRUPTIBLE RUNNING None (?g(2 := None)) {1})"
    by (rule ex_two_steps(6)) simp
  note q_step [OF q_step [OF q_step [OF q_step [OF q_step [OF q_step [OF q_step [OF q_step [OF q_refl s1] s2] s3] s4] s5] s6] s7] s8]
  then show ?thesis
    by (intro exI [of _ "ex_two 2 INTERRUPTIBLE RUNNING None (?g(2 := None)) {1}"]) (auto simp: ex_two_def named_def)
qed

theorem no_lost_sleeper_witness:
  "\<exists>w. queue_steps (ex_two 1 RUNNING RUNNING None (\<lambda>_. None) {}) w \<and> w_tmp w 1 = Some None \<and> \<not> running (w_kst w) 1 \<and>
     (running (w_kst w) 1 \<or> w_head w = Some 1 \<or> (\<exists>m. m \<noteq> 1 \<and> w_tmp w m = Some (Some 1)) \<or> q_intr w 1 \<and> 1 \<in> q_unnamed w)"
proof -
  let ?u = "ex_two 1 RUNNING RUNNING None (\<lambda>_. None) {}" and ?w = "ex_two 1 INTERRUPTIBLE RUNNING (Some 1) ((\<lambda>_. None)(1 \<mapsto> None)) {}"
  have "queue_step ?u ?w" by (rule ex_two_steps) simp_all
  then have steps: "queue_steps ?u ?w" by (rule q_step [OF q_refl])
  have "w_tmp ?u = (\<lambda>_. None)" "w_tmp ?w 1 = Some None" "\<not> running (w_kst ?w) 1" by (simp_all add: ex_two_def)
  then show ?thesis using no_lost_sleeper [OF steps, of 1] steps by (intro exI [of _ ?w]) simp
qed

end
