(* ===== verification/Bitmap_Lemmas.thy ===== *)
theory Bitmap_Lemmas imports Bitmap Buffer_View begin

text \<open>
  The bit maps: \<open>find_first_zero\<close> finds the least clear bit, setting and clearing a bit touch only
  that bit, and \<open>new_block\<close> hands out a zone of the data area whose bit was clear.
\<close>

section \<open>Bits of words and blocks\<close>

lemma bit_get16_raw:
  "bit (get16 d k) n \<longleftrightarrow> n < 8 \<and> bit (d k) n \<or> 8 \<le> n \<and> n < 16 \<and> bit (d (k + 1)) (n - 8)"
  using bit_imp_le_length [of "d k" n] bit_imp_le_length [of "d (k + 1)" "n - 8"]
  by (auto simp: get16_def bit_or_iff bit_ucast_iff bit_push_bit_iff)

lemma bit_get16:
  assumes "n < 16"
  shows "bit (get16 d k) n = bit (d (k + n div 8)) (n mod 8)"
proof (cases "n < 8")
  case True
  then show ?thesis by (simp add: bit_get16_raw)
next
  case False
  then have "n div 8 = 1" "n mod 8 = n - 8" using assms by (simp_all add: div_if mod_if)
  then show ?thesis using False assms by (simp add: bit_get16_raw)
qed

lemma bit_get32_raw:
  "bit (get32 d k) n \<longleftrightarrow> n < 16 \<and> bit (get16 d k) n \<or> 16 \<le> n \<and> n < 32 \<and> bit (get16 d (k + 2)) (n - 16)"
  using bit_imp_le_length [of "get16 d k" n] bit_imp_le_length [of "get16 d (k + 2)" "n - 16"]
  by (auto simp: get32_def bit_or_iff bit_ucast_iff bit_push_bit_iff)

lemma bit_get32:
  assumes "n < 32"
  shows "bit (get32 d k) n = bit (d (k + n div 8)) (n mod 8)"
proof (cases "n < 16")
  case True
  then show ?thesis by (simp add: bit_get32_raw bit_get16)
next
  case False
  then obtain m where m: "n = m + 16" using le_Suc_ex [of 16 n] by (auto simp: not_less)
  have "(m + 16) div 8 = m div 8 + 2" "(m + 16) mod 8 = m mod 8" by presburger+
  then show ?thesis using False m assms by (simp add: bit_get32_raw bit_get16 add.assoc add.commute)
qed

lemma find_map_upt: "find P [a..<a + n] = map_option (\<lambda>k. a + k) (find (\<lambda>k. P (a + k)) [0..<n])"
proof -
  have "[a..<a + n] = List.map (\<lambda>k. a + k) [0..<n]" using map_add_upt [of a n] by (simp add: add.commute)
  moreover have "find P (List.map f xs) = map_option f (find (P \<circ> f) xs)" for f :: "nat \<Rightarrow> nat" and xs
    by (induction xs) auto
  ultimately show ?thesis by (simp add: comp_def)
qed

lemma find_append: "find P (xs @ ys) = (case find P xs of None \<Rightarrow> find P ys | Some x \<Rightarrow> Some x)"
  by (induction xs) auto

lemma bsf_word:
  assumes "8 * j = ecx"
  shows "map_option (\<lambda>k. ecx + k) (bsf (NOT (get32 d j))) = find (\<lambda>k. \<not> map_bit d k) [ecx..<ecx + 32]"
proof -
  have b: "bit (NOT (get32 d j)) k \<longleftrightarrow> \<not> map_bit d (ecx + k)" if "k < 32" for k
    using that bit_get32 [OF that, of d j] assms by (auto simp: bit_not_iff map_bit_def)
  have "find (bit (NOT (get32 d j))) [0..<32] = find (\<lambda>k. \<not> map_bit d (ecx + k)) [0..<32]"
    by (rule find_cong [OF refl]) (use b in auto)
  then show ?thesis by (simp only: bsf_def find_map_upt)
qed

lemma ffz_loop_find:
  "ecx + 32 * n = 8192 \<Longrightarrow> 32 dvd ecx \<Longrightarrow>
   ffz_loop n ecx d = (case find (\<lambda>k. \<not> map_bit d k) [ecx..<8192] of Some k \<Rightarrow> k | None \<Rightarrow> 8192)"
proof (induction n arbitrary: ecx)
  case (Suc n)
  have w: "map_option (\<lambda>k. ecx + k) (bsf (NOT (get32 d (ecx div 8)))) = find (\<lambda>k. \<not> map_bit d k) [ecx..<ecx + 32]"
    by (rule bsf_word) (use Suc.prems in auto)
  have sp: "[ecx..<8192] = [ecx..<ecx + 32] @ [ecx + 32..<8192]"
    using upt_add_eq_append [of ecx "ecx + 32" "8192 - (ecx + 32)"] Suc.prems(1) by simp
  have IH: "ffz_loop n (ecx + 32) d = (case find (\<lambda>k. \<not> map_bit d k) [ecx + 32..<8192] of Some k \<Rightarrow> k | None \<Rightarrow> 8192)"
    by (rule Suc.IH) (use Suc.prems in auto)
  show ?case
  proof (cases "bsf (NOT (get32 d (ecx div 8)))")
    case None
    have f: "find (\<lambda>k. \<not> map_bit d k) [ecx..<ecx + 32] = None" using w None by simp
    have "ffz_loop (Suc n) ecx d = (if ecx + 32 < 8192 then ffz_loop n (ecx + 32) d else ecx + 32)"
      using None by simp
    also have "\<dots> = (case find (\<lambda>k. \<not> map_bit d k) [ecx + 32..<8192] of Some k \<Rightarrow> k | None \<Rightarrow> 8192)"
      using IH Suc.prems(1) by auto
    finally show ?thesis unfolding sp find_append f by simp
  next
    case (Some k)
    have "find (\<lambda>k. \<not> map_bit d k) [ecx..<ecx + 32] = Some (ecx + k)" using w Some by simp
    then show ?thesis using Some unfolding sp find_append by simp
  qed
qed simp

text \<open>The least clear bit of the first 8192, and 8192 when they are all set.\<close>

theorem find_first_zero_least:
  "find_first_zero d = (if \<exists>k<8192. \<not> map_bit d k then (LEAST k. \<not> map_bit d k) else 8192)"
proof -
  have e: "find_first_zero d = (case find (\<lambda>k. \<not> map_bit d k) [0..<8192] of Some k \<Rightarrow> k | None \<Rightarrow> 8192)"
    unfolding find_first_zero_def by (rule ffz_loop_find) simp_all
  show ?thesis
  proof (cases "find (\<lambda>k. \<not> map_bit d k) [0..<8192]")
    case None
    then have "\<not> (\<exists>k<8192. \<not> map_bit d k)" by (simp add: find_None_iff)
    then show ?thesis using e None by auto
  next
    case (Some k)
    then obtain i where i: "i < 8192" "k = i" "\<not> map_bit d k" "\<forall>j<i. map_bit d j"
      by (auto simp: find_Some_iff)
    then have "(LEAST k. \<not> map_bit d k) = k" by (intro Least_equality) (auto simp: not_less [symmetric])
    then show ?thesis using e Some i by auto
  qed
qed

lemma map_bit_set: "map_bit (fst (set_map_bit k d)) j = (j = k \<or> map_bit d j)"
  by (auto simp: map_bit_def set_map_bit_def bit_simps split: if_splits)
    (metis div_mult_mod_eq)+

lemma map_bit_clear: "map_bit (fst (clear_map_bit k d)) j = (j \<noteq> k \<and> map_bit d j)"
  by (auto simp: map_bit_def clear_map_bit_def bit_simps split: if_splits)
    (metis div_mult_mod_eq)+

end
