(* ===== verification/Task_Frame.thy ===== *)
theory Task_Frame imports Process begin

text \<open>
  What the file system leaves alone: the tasks, the open files, the terminals and the clock. One lemma for
  each function that \<open>iput\<close> reaches, down to the buffer cache.
\<close>

definition same_tasks :: "kst \<Rightarrow> kst \<Rightarrow> bool" where
  "same_tasks s t \<longleftrightarrow> task t = task s \<and> current t = current s \<and> file_table t = file_table s \<and> tty_table t = tty_table s \<and>
     last_task_used_math t = last_task_used_math s \<and> jiffies t = jiffies s"

lemma same_tasks_refl [simp]: "same_tasks s s"
  by (simp add: same_tasks_def)

lemma same_tasks_trans [trans]: "same_tasks s t \<Longrightarrow> same_tasks t u \<Longrightarrow> same_tasks s u"
  by (simp add: same_tasks_def)

lemma same_tasks_upd [simp]:
  "same_tasks s (upd_buf b f t) = same_tasks s t" "same_tasks s (upd_inode i g t) = same_tasks s t"
  "same_tasks s (upd_super k h t) = same_tasks s t" "same_tasks s (t\<lparr>hash_table := x\<rparr>) = same_tasks s t"
  "same_tasks s (t\<lparr>free_list := fl\<rparr>) = same_tasks s t" "same_tasks s (t\<lparr>null_b_prev := n\<rparr>) = same_tasks s t"
  "same_tasks s (t\<lparr>disk := d\<rparr>) = same_tasks s t" "same_tasks s (t\<lparr>mem := m\<rparr>) = same_tasks s t"
  "same_tasks s (t\<lparr>umem := um\<rparr>) = same_tasks s t"
  by (simp_all add: same_tasks_def upd_buf_def upd_inode_def upd_super_def)

lemma same_tasks_upd_left [simp]:
  "same_tasks (upd_buf b f s) t = same_tasks s t" "same_tasks (upd_inode i g s) t = same_tasks s t"
  "same_tasks (s\<lparr>mem := m\<rparr>) t = same_tasks s t"
  by (simp_all add: same_tasks_def upd_buf_def upd_inode_def)

text \<open>A path that comes back has left them alone.\<close>

definition calm_tasks :: "kst \<Rightarrow> ('a \<Rightarrow> kst) \<Rightarrow> 'a kres \<Rightarrow> bool" where
  "calm_tasks s st r \<longleftrightarrow> (\<forall>x. r = Inr x \<longrightarrow> same_tasks s (st x))"

lemma calm_Inl [simp]: "calm_tasks s st (Inl e)" by (simp add: calm_tasks_def)
lemma calm_Inr [simp]: "calm_tasks s st (Inr x) \<longleftrightarrow> same_tasks s (st x)" by (simp add: calm_tasks_def)
lemma calm_sleep [simp]: "calm_tasks s st (sleep_on t)" by (simp add: calm_tasks_def)

lemma calm_bind:
  assumes "calm_tasks s id r" "\<And>x. same_tasks s x \<Longrightarrow> calm_tasks s su (f x)"
  shows "calm_tasks s su (bindk r f)"
  using assms by (auto simp: calm_tasks_def)

lemma calm_bind_pair:
  assumes "calm_tasks s snd r" "\<And>x t. same_tasks s t \<Longrightarrow> calm_tasks s su (f (x, t))"
  shows "calm_tasks s su (bindk r f)"
  using assms by (auto simp: calm_tasks_def)

lemma calm_bind_opt:
  assumes "\<And>x :: nat option. calm_tasks s su (f x)"
  shows "calm_tasks s su (bindk r f)"
  using assms by (auto simp: calm_tasks_def)

lemma calm_bind_mm:
  assumes "\<And>x :: mm. calm_tasks s su (f x)"
  shows "calm_tasks s su (bindk r f)"
  using assms by (auto simp: calm_tasks_def)

lemmas calm_binds = calm_bind calm_bind_pair calm_bind_opt calm_bind_mm

lemma calm_from: "same_tasks s t \<Longrightarrow> calm_tasks t st r \<Longrightarrow> calm_tasks s st r"
  by (auto simp: calm_tasks_def intro: same_tasks_trans)

lemma calm_D: "calm_tasks s st r \<Longrightarrow> r = Inr x \<Longrightarrow> same_tasks s (st x)"
  by (simp add: calm_tasks_def)

named_theorems calm \<open>functions that leave the tasks alone\<close>

lemma calm_ll_rw [calm]: "same_tasks s t \<Longrightarrow> calm_tasks s id (ll_rw_block rw b t)"
  by (auto simp: ll_rw_block_def Let_def split: option.splits)

lemma calm_wait_buffer [calm]: "same_tasks s t \<Longrightarrow> calm_tasks s id (wait_on_buffer b t)"
  by (simp add: wait_on_buffer_def)

lemma calm_wait_inode [calm]: "same_tasks s t \<Longrightarrow> calm_tasks s id (wait_on_inode b t)"
  by (simp add: wait_on_inode_def)

lemma calm_lock_inode [calm]: "same_tasks s t \<Longrightarrow> calm_tasks s id (lock_inode b t)"
  by (simp add: lock_inode_def)

lemma same_unlock [simp]: "same_tasks s (unlock_inode i t) = same_tasks s t"
  by (simp add: unlock_inode_def)

lemma calm_brelse [calm]: "same_tasks s t \<Longrightarrow> calm_tasks s id (brelse b t)"
  by (auto simp: brelse_def intro!: calm_binds calm split: option.splits)

lemma calm_remove [calm]: "same_tasks s t \<Longrightarrow> calm_tasks s id (remove_from_queues b t)"
  by (auto simp: remove_from_queues_def Let_def split: option.splits)

lemma calm_insert [calm]: "same_tasks s t \<Longrightarrow> calm_tasks s id (insert_into_queues b t)"
  by (auto simp: insert_into_queues_def Let_def split: option.splits)

lemma calm_take [calm]: "same_tasks s t \<Longrightarrow> calm_tasks s snd (take_buffer b d n t)"
  by (auto simp: take_buffer_def intro!: calm_binds calm)

lemma calm_hash [calm]: "same_tasks s t \<Longrightarrow> calm_tasks s snd (get_hash_table d n t)"
  by (auto simp: get_hash_table_def Let_def intro!: calm_binds calm split: option.splits)

text \<open>The functions of the cycle through \<open>getblk\<close>, with the \<open>getblk\<close> they call as hypothesis.\<close>

definition calm_getblk :: "getblk_fn \<Rightarrow> bool" where
  "calm_getblk gb \<longleftrightarrow> (\<forall>s t d n. same_tasks s t \<longrightarrow> calm_tasks s snd (gb d n t))"

lemma calm_gb: "calm_getblk gb \<Longrightarrow> same_tasks s t \<Longrightarrow> calm_tasks s snd (gb d n t)"
  by (simp add: calm_getblk_def)

lemma calm_getblkI: "(\<And>s t d n. same_tasks s t \<Longrightarrow> calm_tasks s snd (gb d n t)) \<Longrightarrow> calm_getblk gb"
  by (simp add: calm_getblk_def)

lemma calm_bread_w: "calm_getblk gb \<Longrightarrow> same_tasks s t \<Longrightarrow> calm_tasks s snd (bread_w gb d n t)"
  by (auto simp: bread_w_def intro!: calm_binds calm_gb [of gb] calm)

lemma calm_write_inode_w: "calm_getblk gb \<Longrightarrow> same_tasks s t \<Longrightarrow> calm_tasks s id (write_inode_w gb i t)"
  by (auto simp: write_inode_w_def Let_def intro!: calm_binds calm_bread_w calm split: option.splits)

lemma calm_sync_inodes_w: "calm_getblk gb \<Longrightarrow> same_tasks s t \<Longrightarrow> calm_tasks s id (sync_inodes_w gb n i t)"
  by (induction n arbitrary: i t) (auto intro!: calm_binds calm_write_inode_w calm)

lemma calm_sync_buffers [calm]: "same_tasks s t \<Longrightarrow> calm_tasks s id (sync_buffers n b d t)"
  by (induction n arbitrary: b t) (auto intro!: calm_binds calm)

lemma calm_sync_dev_w: "calm_getblk gb \<Longrightarrow> same_tasks s t \<Longrightarrow> calm_tasks s id (sync_dev_w gb d t)"
  by (auto simp: sync_dev_w_def intro!: calm_binds calm_sync_inodes_w calm)

lemma calm_clean_buffer: "calm_getblk gb \<Longrightarrow> same_tasks s t \<Longrightarrow> calm_tasks s snd (clean_buffer gb n b t)"
  by (induction n arbitrary: t) (auto intro!: calm_binds calm_sync_dev_w calm)

lemma calm_getblk_body: "calm_getblk gb \<Longrightarrow> calm_getblk (getblk_body n gb)"
  by (rule calm_getblkI) (auto simp: getblk_body_def intro!: calm_binds calm_clean_buffer calm_gb [of gb] calm simp del: clean_buffer.simps split: option.splits)

lemma calm_getblk_f: "calm_getblk (getblk_f n)"
  by (induction n) (simp_all add: calm_getblk_body, simp add: calm_getblk_def)

lemma calm_getblk [calm]: "same_tasks s t \<Longrightarrow> calm_tasks s snd (getblk d n t)"
  unfolding getblk_def by (rule calm_gb [OF calm_getblk_f])

lemma calm_bread [calm]: "same_tasks s t \<Longrightarrow> calm_tasks s snd (bread d n t)"
  unfolding bread_def getblk_def by (rule calm_bread_w [OF calm_getblk_f])

lemma calm_write_inode [calm]: "same_tasks s t \<Longrightarrow> calm_tasks s id (write_inode i t)"
  unfolding write_inode_def getblk_def by (rule calm_write_inode_w [OF calm_getblk_f])

lemma calm_sync_dev [calm]: "same_tasks s t \<Longrightarrow> calm_tasks s id (sync_dev d t)"
  unfolding sync_dev_def getblk_def by (rule calm_sync_dev_w [OF calm_getblk_f])

section \<open>Releasing inodes\<close>

lemma calm_free_block [calm]: "same_tasks s t \<Longrightarrow> calm_tasks s id (free_block d n t)"
  by (auto simp: free_block_def Let_def split_beta intro!: calm_binds calm split: option.splits)

lemma calm_free_ind_loop [calm]: "same_tasks s t \<Longrightarrow> calm_tasks s id (free_ind_loop n i d b t)"
  by (induction n arbitrary: i t) (auto simp: Let_def intro!: calm_binds calm)

lemma calm_free_ind [calm]: "same_tasks s t \<Longrightarrow> calm_tasks s id (free_ind d n t)"
  by (auto simp: free_ind_def intro!: calm_binds calm split: option.splits)

lemma calm_free_dind_loop [calm]: "same_tasks s t \<Longrightarrow> calm_tasks s id (free_dind_loop n i d b t)"
  by (induction n arbitrary: i t) (auto simp: Let_def intro!: calm_binds calm)

lemma calm_free_dind [calm]: "same_tasks s t \<Longrightarrow> calm_tasks s id (free_dind d n t)"
  by (auto simp: free_dind_def intro!: calm_binds calm split: option.splits)

lemma calm_truncate_direct [calm]: "same_tasks s t \<Longrightarrow> calm_tasks s id (truncate_direct n k i t)"
  by (induction n arbitrary: k t) (auto simp: Let_def intro!: calm_binds calm)

lemma calm_truncate [calm]: "same_tasks s t \<Longrightarrow> calm_tasks s id (truncate_i i t)"
  by (auto simp: truncate_i_def intro!: calm_binds calm)

lemma calm_free_inode [calm]: "same_tasks s t \<Longrightarrow> calm_tasks s id (free_inode i t)"
  by (auto simp: free_inode_def Let_def split_beta intro!: calm_binds calm split: option.splits)

lemma calm_iput_repeat [calm]: "same_tasks s t \<Longrightarrow> calm_tasks s id (iput_repeat k i t)"
  by (induction k arbitrary: t) (auto simp: Let_def intro!: calm_binds calm)

lemma calm_iput [calm]: "same_tasks s t \<Longrightarrow> calm_tasks s id (iput i t)"
  by (auto simp: iput_def Let_def intro!: calm_binds calm split: option.splits)

lemma iput_tasks: "iput i s = Inr t \<Longrightarrow> same_tasks s t"
  using calm_iput [of s s i] by (simp add: calm_tasks_def)

end
