(* ===== verification/Process_Lemmas.thy ===== *)
theory Process_Lemmas imports Task_Frame Exec_Lemmas Example begin

text \<open>
  The life of a process: \<open>fork\<close> makes a copy with a number of its own and counts the files and inodes
  that it shares, \<open>exit\<close> leaves a zombie that holds nothing but its exit code, \<open>waitpid\<close> hands that
  code over and frees the slot.
\<close>

section \<open>fork\<close>

lemma all_from_Suc: "(\<forall>j. i \<le> j \<and> j < i + Suc n \<longrightarrow> P j) \<longleftrightarrow> P i \<and> (\<forall>j. Suc i \<le> j \<and> j < Suc i + n \<longrightarrow> P j)"
proof -
  have eq: "i \<le> j \<and> j < i + Suc n \<longleftrightarrow> j = i \<or> (Suc i \<le> j \<and> j < Suc i + n)" for j by auto
  show ?thesis unfolding eq by blast
qed

lemma find_pid_None:
  "find_pid n i pid s = None \<longleftrightarrow> (\<forall>j. i \<le> j \<and> j < i + n \<longrightarrow> (\<forall>t. task s j = Some t \<longrightarrow> t_pid t \<noteq> pid))"
proof (induction n arbitrary: i)
  case (Suc n)
  show ?case unfolding all_from_Suc using Suc.IH [of "Suc i"] by (auto split: option.splits)
qed auto

lemma next_pid_pos: "0 \<le>s (p :: u32) \<Longrightarrow> 0 <s (if p + 1 <s 0 then 1 else p + 1)"
proof (cases "p + 1 <s 0")
  case False
  assume "0 \<le>s p"
  then have "p + 1 \<noteq> 0" by (metis add.commute eq_neg_iff_add_eq_0 signed.not_less minus_1_sless_0)
  then show ?thesis using False by (simp add: signed.less_le signed.not_less)
qed (simp add: word_sless_alt)

lemma next_pid_result:
  "next_pid n s = Inr t \<Longrightarrow> 0 \<le>s last_pid s \<Longrightarrow>
     t = s\<lparr>last_pid := last_pid t\<rparr> \<and> 0 <s last_pid t \<and> \<not> pid_used (last_pid t) s"
proof (induction n arbitrary: s)
  case (Suc n)
  define q where "q = (if last_pid s + 1 <s 0 then 1 else last_pid s + 1)"
  have q: "0 <s q" unfolding q_def by (rule next_pid_pos) fact
  have pu: "pid_used x (s\<lparr>last_pid := q\<rparr>) = pid_used x s" for x
  proof -
    have "find_pid k i x (s\<lparr>last_pid := q\<rparr>) = find_pid k i x s" for k i
      by (induction k arbitrary: i) (simp_all split: option.splits)
    then show ?thesis by (simp add: pid_used_def)
  qed
  show ?case
  proof (cases "pid_used q s")
    case True
    then have "next_pid n (s\<lparr>last_pid := q\<rparr>) = Inr t"
      using Suc.prems(1) by (simp add: q_def [symmetric] pu Let_def)
    then show ?thesis using Suc.IH [of "s\<lparr>last_pid := q\<rparr>"] q pu by (simp add: word_sle_eq word_sless_alt)
  next
    case False
    then show ?thesis using Suc.prems(1) q by (auto simp: q_def [symmetric] pu Let_def)
  qed
qed simp

lemma free_task_Some:
  "free_task n i s = Some k \<Longrightarrow> i \<le> k \<and> k < i + n \<and> task s k = None \<and> (\<forall>j. i \<le> j \<and> j < k \<longrightarrow> task s j \<noteq> None)"
proof (induction n arbitrary: i)
  case (Suc n)
  show ?case
  proof (cases "task s i = None")
    case True then show ?thesis using Suc.prems by auto
  next
    case False
    then have k: "Suc i \<le> k \<and> k < Suc i + n \<and> task s k = None \<and> (\<forall>j. Suc i \<le> j \<and> j < k \<longrightarrow> task s j \<noteq> None)"
      using Suc.IH [of "Suc i"] Suc.prems by (auto split: if_splits)
    have "task s j \<noteq> None" if "i \<le> j" "j < k" for j using False k that by (cases "j = i") auto
    then show ?thesis using k by auto
  qed
qed simp

text \<open>How many of the entries \<open>i\<close> to \<open>i + n - 1\<close> refer to \<open>k\<close>.\<close>

definition ref_count :: "nat \<Rightarrow> nat \<Rightarrow> (nat \<Rightarrow> nat option) \<Rightarrow> nat \<Rightarrow> nat" where
  "ref_count i n g k = length (filter (\<lambda>j. g j = Some k) [i..<i + n])"

lemma ref_count_Suc: "ref_count i (Suc n) g k = (if g i = Some k then 1 else 0) + ref_count (Suc i) n g k"
  by (simp add: ref_count_def upt_conv_Cons del: upt_Suc)

lemma share_files_result:
  assumes "task s nr = Some c"
  shows "share_files n i nr s =
    s\<lparr>file_table := (\<lambda>k. (file_table s k)\<lparr>f_count := f_count (file_table s k) + of_nat (ref_count i n (t_filp c) k)\<rparr>)\<rparr>"
  using assms
proof (induction n arbitrary: i s)
  case 0 then show ?case by (simp add: ref_count_def)
next
  case (Suc n)
  show ?case
  proof (cases "t_filp c i")
    case None
    then show ?thesis using Suc by (simp add: ref_count_Suc)
  next
    case (Some f)
    let ?s = "upd_file f (\<lambda>x. x\<lparr>f_count := f_count x + 1\<rparr>) s"
    have "(\<lambda>k. (file_table ?s k)\<lparr>f_count := f_count (file_table ?s k) + of_nat (ref_count (Suc i) n (t_filp c) k)\<rparr>) =
      (\<lambda>k. (file_table s k)\<lparr>f_count := f_count (file_table s k) + of_nat (ref_count i (Suc n) (t_filp c) k)\<rparr>)"
      using Some by (auto simp: ref_count_Suc fun_eq_iff add.assoc upd_file_def)
    moreover have "task ?s nr = Some c" "\<And>F. ?s\<lparr>file_table := F\<rparr> = s\<lparr>file_table := F\<rparr>"
      using Suc.prems by (simp_all add: upd_file_def)
    ultimately show ?thesis using Suc.IH [of ?s "Suc i"] Suc.prems Some by simp
  qed
qed

lemma share_inode_table:
  "share_inode r s = s\<lparr>inode_table := (\<lambda>i. (inode_table s i)\<lparr>i_count := i_count (inode_table s i) + (if r = Some i then 1 else 0)\<rparr>)\<rparr>"
  by (auto simp: share_inode_def upd_inode_def fun_eq_iff split: option.splits intro!: arg_cong [where f = "\<lambda>F. s\<lparr>inode_table := F\<rparr>"])

definition share_inodes_of :: "kst \<Rightarrow> kst" where
  "share_inodes_of s = share_inode (t_executable (cur s)) (share_inode (t_root (cur s)) (share_inode (t_pwd (cur s)) s))"

definition ref_inodes :: "task_struct \<Rightarrow> nat \<Rightarrow> nat" where
  "ref_inodes p i = length (filter (\<lambda>r. r = Some i) [t_pwd p, t_root p, t_executable p])"

lemma of_ref_inodes:
  "of_nat (ref_inodes p i) = (if t_pwd p = Some i then 1 else 0) + (if t_root p = Some i then 1 else 0) +
     (if t_executable p = Some i then 1 else 0)"
  by (simp add: ref_inodes_def)

lemma share_inodes_of_result:
  "share_inodes_of s = s\<lparr>inode_table := (\<lambda>i. (inode_table s i)\<lparr>i_count := i_count (inode_table s i) + of_nat (ref_inodes (cur s) i)\<rparr>)\<rparr>"
  by (simp add: share_inodes_of_def share_inode_table cur_def of_ref_inodes add.assoc)

lemma copy_mem_result:
  "copy_mem nr s = Inr (r, t) \<Longrightarrow> \<exists>m. t = (upd_task nr (\<lambda>p. p\<lparr>t_start_code := of_nat nr * 0x4000000,
      t_code_base := of_nat nr * 0x4000000, t_data_base := of_nat nr * 0x4000000\<rparr>) s)\<lparr>mem := m\<rparr>"
  by (auto simp: copy_mem_def Let_def split: if_splits)


text \<open>The child that \<open>fork\<close> makes of task \<open>p\<close>, in slot \<open>nr\<close>.\<close>

definition child_of :: "task_struct \<Rightarrow> nat \<Rightarrow> u32 \<Rightarrow> u32 \<Rightarrow> u32 \<Rightarrow> regs \<Rightarrow> task_struct" where
  "child_of p nr pid page now g =
     p\<lparr>t_pid := pid, t_father := t_pid p, t_counter := t_priority p, t_signal := 0, t_alarm := 0,
       t_leader := False, t_utime := 0, t_stime := 0, t_cutime := 0, t_cstime := 0, t_start_time := now,
       t_tss := \<lparr>back_link = 0, esp0 = page + 4096, ss0 = 0x10, r_eip = g_eip g, r_eflags = g_eflags g, r_eax = 0,
         r_ecx = g_ecx g, r_edx = g_edx g, r_ebx = g_ebx g, r_esp = g_esp g, r_ebp = g_ebp g, r_esi = g_esi g,
         r_edi = g_edi g, r_es = g_es g AND 0xffff, r_cs = g_cs g AND 0xffff, r_ss = g_ss g AND 0xffff,
         r_ds = g_ds g AND 0xffff, r_fs = g_fs g AND 0xffff, r_gs = g_gs g AND 0xffff, r_ldt = of_nat (40 + 16 * nr),
         trace_bitmap = 0x80000000\<rparr>, t_page := page, t_start_code := of_nat nr * 0x4000000,
       t_code_base := of_nat nr * 0x4000000, t_data_base := of_nat nr * 0x4000000, t_state := RUNNING\<rparr>"

definition shared :: "task_struct \<Rightarrow> kst \<Rightarrow> kst \<Rightarrow> bool" where
  "shared p s u \<longleftrightarrow>
     (\<forall>f. file_table u f = (file_table s f)\<lparr>f_count := f_count (file_table s f) + of_nat (ref_count 0 NR_OPEN (t_filp p) f)\<rparr>) \<and>
     (\<forall>i. inode_table u i = (inode_table s i)\<lparr>i_count := i_count (inode_table s i) +
        of_nat (ref_inodes p i)\<rparr>)"

lemma copy_process_result:
  assumes c: "copy_process nr g s = Inr (r, u)" and p: "task s (current s) = Some p" and nr: "task s nr = None" "nr \<noteq> current s"
  shows "r = neg_errno EAGAIN \<and> task u = task s \<and> file_table u = file_table s \<and> inode_table u = inode_table s \<or>
    (\<exists>page. r = last_pid s \<and> task u = (task s)(nr \<mapsto> child_of p nr (last_pid s) page (jiffies s) g) \<and> shared p s u)"
proof -
  obtain page m where g: "get_free_page (mem s) = (page, m)" by (metis surj_pair)
  show ?thesis
  proof (cases "page = 0")
    case True
    then have "r = neg_errno EAGAIN" "u = s\<lparr>mem := m\<rparr>" using c g by (simp_all add: copy_process_def)
    then show ?thesis by simp
  next
    case False
    let ?s = "s\<lparr>mem := m, task := (task s)(nr \<mapsto> child_task nr page g (s\<lparr>mem := m\<rparr>))\<rparr>"
    let ?move = "\<lambda>p. p\<lparr>t_start_code := of_nat nr * 0x4000000, t_code_base := of_nat nr * 0x4000000,
      t_data_base := of_nat nr * 0x4000000\<rparr>"
    have c2: "bindk (copy_mem nr ?s) (\<lambda>(r, s).
           if r \<noteq> 0 then
             bindk (free_page page (mem s)) (\<lambda>m. Inr (neg_errno EAGAIN, s\<lparr>task := (task s)(nr := None), mem := m\<rparr>))
           else
             Inr (last_pid (upd_task nr (\<lambda>t. t\<lparr>t_state := RUNNING\<rparr>) (share_inodes_of (share_files NR_OPEN 0 nr s))),
               upd_task nr (\<lambda>t. t\<lparr>t_state := RUNNING\<rparr>) (share_inodes_of (share_files NR_OPEN 0 nr s)))) = Inr (r, u)"
      using c g False by (simp add: copy_process_def Let_def share_inodes_of_def cong: if_cong)
    then obtain q t where q: "copy_mem nr ?s = Inr (q, t)" by auto
    then obtain m2 where t: "t = (upd_task nr ?move ?s)\<lparr>mem := m2\<rparr>"
      using copy_mem_result by blast
    show ?thesis
    proof (cases "q = 0")
      case False
      then obtain m3 where "r = neg_errno EAGAIN" "u = t\<lparr>task := (task t)(nr := None), mem := m3\<rparr>"
        using c2 q by auto
      moreover have "(task t)(nr := None) = task s" using nr by (auto simp: t upd_task_def)
      ultimately show ?thesis by (simp add: t upd_task_def)
    next
      case True
      let ?c = "?move (child_task nr page g (s\<lparr>mem := m\<rparr>))"
      have tn: "task t nr = Some ?c" by (simp add: t upd_task_def)
      have "cur (share_files NR_OPEN 0 nr t) = cur t" by (simp add: share_files_result [OF tn] cur_def)
      moreover have "cur t = p" "t_filp ?c = t_filp p" using p nr by (simp_all add: t cur_def upd_task_def child_task_def)
      ultimately have p2: "cur (share_files NR_OPEN 0 nr t) = p" "t_filp ?c = t_filp p" by simp_all
      have "r = last_pid s" using c2 q True
        by (simp add: upd_task_def share_inodes_of_result share_files_result [OF tn]) (simp add: t upd_task_def)
      moreover have "u = upd_task nr (\<lambda>t. t\<lparr>t_state := RUNNING\<rparr>) (share_inodes_of (share_files NR_OPEN 0 nr t))"
        using c2 q True by simp
      moreover have "task u = (task s)(nr \<mapsto> child_of p nr (last_pid s) page (jiffies s) g)"
        using p nr by (simp add: calculation(2) share_inodes_of_result share_files_result [OF tn])
           (simp add: t upd_task_def child_task_def child_of_def cur_def child_tss_def LDT_def add.commute)
      moreover have "shared p s u"
        using p2 by (simp add: calculation(2) shared_def upd_task_def share_inodes_of_result share_files_result [OF tn])
          (simp add: t upd_task_def)
      ultimately show ?thesis by blast
    qed
  qed
qed

lemma find_empty_process_result:
  assumes f: "find_empty_process s = Inr (nr, t)" and l: "0 \<le>s last_pid s"
  shows "t = s\<lparr>last_pid := last_pid t\<rparr> \<and> 0 <s last_pid t \<and> \<not> pid_used (last_pid t) s \<and>
    (nr = neg_errno EAGAIN \<or> (\<exists>k. nr = of_nat k \<and> 0 < k \<and> k < NR_TASKS \<and> task s k = None \<and>
       (\<forall>j. 0 < j \<and> j < k \<longrightarrow> task s j \<noteq> None)))"
proof -
  have n: "next_pid 66 s = Inr t" using f by (auto simp: find_empty_process_def simp del: next_pid.simps)
  note r = next_pid_result [OF n l]
  have tt: "task t = task s" using arg_cong [OF conjunct1 [OF r], of task] by simp
  show ?thesis
  proof (cases "free_task (NR_TASKS - 1) 1 t")
    case None
    then show ?thesis using f n r by (simp add: find_empty_process_def del: next_pid.simps)
  next
    case (Some k)
    then have "nr = of_nat k" using f n by (simp add: find_empty_process_def del: next_pid.simps)
    then show ?thesis using free_task_Some [OF Some] r by (auto simp: tt NR_TASKS_def)
  qed
qed

text \<open>
  C9: fork either returns -EAGAIN and leaves tasks, open files and inodes as they were, or
  fills the first free slot with a runnable copy of the caller: a process number no task
  has, the caller as father, fresh times and no signals or alarm, 0 as its result, its
  segments at 64 MB times the slot; the count of every open file and of the three inodes
  grows by the number of references the child holds.
\<close>

theorem fork_makes_child:
  assumes "sys_fork g s = Inr (pid, u)" "0 \<le>s last_pid s" "task s (current s) = Some p"
  shows "pid = neg_errno EAGAIN \<and> task u = task s \<and> file_table u = file_table s \<and> inode_table u = inode_table s \<or>
    0 <s pid \<and> (\<forall>i t. i < NR_TASKS \<and> task s i = Some t \<longrightarrow> t_pid t \<noteq> pid) \<and>
    (\<exists>nr page. 0 < nr \<and> nr < NR_TASKS \<and> task s nr = None \<and> (\<forall>j. 0 < j \<and> j < nr \<longrightarrow> task s j \<noteq> None) \<and>
       task u = (task s)(nr \<mapsto> child_of p nr pid page (jiffies s) g)) \<and> shared p s u"
proof -
  obtain n t where n: "find_empty_process s = Inr (n, t)" using assms(1) by (auto simp: sys_fork_def)
  note r = find_empty_process_result [OF n assms(2)]
  have t: "task t = task s" "current t = current s" "jiffies t = jiffies s" "file_table t = file_table s" "inode_table t = inode_table s"
    using arg_cong [OF conjunct1 [OF r], of task] arg_cong [OF conjunct1 [OF r], of current] arg_cong [OF conjunct1 [OF r], of jiffies]
      arg_cong [OF conjunct1 [OF r], of file_table] arg_cong [OF conjunct1 [OF r], of inode_table] by simp_all
  show ?thesis
  proof (cases "n <s 0")
    case True
    have "\<not> (of_nat k :: u32) <s 0" if "k < 64" for k
      using that by (simp add: word_sless_alt signed_of_nat signed_take_bit_int_eq_self)
    then have "n = neg_errno EAGAIN" using r True by (auto simp: NR_TASKS_def)
    then show ?thesis using assms(1) n True t by (simp add: sys_fork_def) 
  next
    case False
    have "neg_errno EAGAIN <s 0" by (rule neg_errno_neg) (simp_all add: EAGAIN_def)
    then obtain k where k: "n = of_nat k" "0 < k" "k < NR_TASKS" "task s k = None" "\<forall>j. 0 < j \<and> j < k \<longrightarrow> task s j \<noteq> None"
      using r False by auto
    have "unat n = k" using k by (simp add: unat_of_nat NR_TASKS_def)
    then have c: "copy_process k g t = Inr (pid, u)" using assms(1) n False by (simp add: sys_fork_def)
    have "\<forall>i tk. i < NR_TASKS \<and> task s i = Some tk \<longrightarrow> t_pid tk \<noteq> last_pid t"
      using conjunct1 [OF conjunct2 [OF conjunct2 [OF r]]]
      by (auto simp: pid_used_def find_pid_None simp del: find_pid.simps)
    moreover have "k \<noteq> current t" using k assms(3) t by auto
    moreover have "shared p s u" if "shared p t u" using that t by (simp add: shared_def)
    ultimately show ?thesis using copy_process_result [OF c] k t assms(3) r by auto
  qed
qed


text \<open>Process 1 with one file open as descriptors 0 and 1, forking into slot 2.\<close>

definition ex_fork :: kst where
  "ex_fork = ex_kst\<lparr>task := (task ex_kst)(1 \<mapsto> (ex_task 1)\<lparr>t_filp := (\<lambda>_. None)(0 \<mapsto> 3, 1 \<mapsto> 3), t_pwd := Some 1, t_root := Some 1\<rparr>)\<rparr>"

definition ex_fork_regs :: regs where
  "ex_fork_regs = \<lparr>g_ebp = 0, g_edi = 0, g_esi = 0, g_gs = 0x17, g_ebx = 0, g_ecx = 0, g_edx = 0, g_fs = 0x17, g_es = 0x17,
     g_ds = 0x17, g_eip = 0x100, g_cs = 0xf, g_eflags = 0x202, g_esp = 0x3fffff0, g_ss = 0x17\<rparr>"

lemma ex_fork_task: "task ex_fork i = (if i = 1 then Some ((ex_task 1)\<lparr>t_filp := (\<lambda>_. None)(0 \<mapsto> 3, 1 \<mapsto> 3), t_pwd := Some 1, t_root := Some 1\<rparr>)
    else if i = 0 then Some (ex_task 0) else None)"
  "current ex_fork = 1" "last_pid ex_fork = 1"
  "file_table ex_fork = (\<lambda>_. ex_file)" "inode_table ex_fork = (\<lambda>_. zero_inode)"
  by (simp_all add: ex_fork_def ex_kst_def)

lemma ex_fork_mem: "mem ex_fork = \<lparr>pmem = (\<lambda>_. 0), mem_map = (\<lambda>_. 0), HIGH_MEMORY = 0x1000000\<rparr>"
  by (simp add: ex_fork_def ex_kst_def)

lemma ex_fork_slot: "find_empty_process ex_fork = Inr (2, ex_fork\<lparr>last_pid := 2\<rparr>)"
proof -
  have u: "\<not> pid_used 2 (ex_fork\<lparr>last_pid := 2\<rparr>)"
    by (auto simp: pid_used_def find_pid_None ex_fork_task ex_task_def simp del: find_pid.simps)
  have "next_pid (Suc 65) ex_fork = Inr (ex_fork\<lparr>last_pid := 2\<rparr>)"
    using u by (simp only: next_pid.simps) (simp add: ex_fork_task word_sless_alt)
  moreover have "free_task (Suc (Suc 61)) 1 (ex_fork\<lparr>last_pid := 2\<rparr>) = Some 2"
    by (simp only: free_task.simps) (simp add: ex_fork_task)
  ultimately show ?thesis by (simp add: find_empty_process_def NR_TASKS_def numeral_eq_Suc del: next_pid.simps free_task.simps)
qed

lemma ex_fork_memory:
  "get_free_page (mem ex_fork) = (0xfff000, (mem ex_fork)\<lparr>mem_map := (\<lambda>_. 0)(3839 := 1)\<rparr>)"
  "copy_page_tables 0 0x8000000 0xa0000 ((mem ex_fork)\<lparr>mem_map := M\<rparr>) = Inr (0, (mem ex_fork)\<lparr>mem_map := M\<rparr>)"
proof -
  have "scan_free (Suc 3839) (\<lambda>_. 0) = Some 3839" by (simp only: scan_free.simps) simp
  then show "get_free_page (mem ex_fork) = (0xfff000, (mem ex_fork)\<lparr>mem_map := (\<lambda>_. 0)(3839 := 1)\<rparr>)"
    by (simp add: get_free_page_def ex_fork_mem fun_eq_iff clear_page_def map_set_def PAGING_PAGES_def LOW_MEM_def)
  show "copy_page_tables 0 0x8000000 0xa0000 ((mem ex_fork)\<lparr>mem_map := M\<rparr>) = Inr (0, (mem ex_fork)\<lparr>mem_map := M\<rparr>)"
    by (simp add: copy_page_tables_def ex_fork_mem present_def)
qed

lemma ex_fork_runs: "\<exists>u. sys_fork ex_fork_regs ex_fork = Inr (2, u)"
proof -
  have "\<exists>u. copy_process 2 ex_fork_regs (ex_fork\<lparr>last_pid := 2\<rparr>) = Inr (2, u)"
    by (simp add: copy_process_def ex_fork_memory copy_mem_def cur_def ex_fork_task child_task_def ex_task_def
        share_files_result share_inode_table upd_task_def Let_def)
  then show ?thesis by (simp add: sys_fork_def ex_fork_slot word_sless_alt)
qed


theorem fork_makes_child_witness:
  "\<exists>u. sys_fork ex_fork_regs ex_fork = Inr (2, u) \<and> map_option t_pid (task u 2) = Some 2 \<and>
     map_option t_father (task u 2) = Some 1 \<and> f_count (file_table u 3) = 2 \<and> i_count (inode_table u 1) = 2"
proof -
  obtain u where u: "sys_fork ex_fork_regs ex_fork = Inr (2, u)" using ex_fork_runs by blast
  have l: "0 \<le>s last_pid ex_fork" "\<not> (2 :: u32) <s 0" by (simp_all add: ex_fork_task word_sle_eq word_sless_alt)
  have e: "neg_errno EAGAIN <s 0" by (rule neg_errno_neg) (simp_all add: EAGAIN_def)
  let ?p = "(ex_task 1)\<lparr>t_filp := (\<lambda>_. None)(0 \<mapsto> 3, 1 \<mapsto> 3), t_pwd := Some 1, t_root := Some 1\<rparr>"
  have p: "task ex_fork (current ex_fork) = Some ?p" by (simp add: ex_fork_task)
  obtain nr page where nr: "0 < nr" "task ex_fork nr = None" "\<forall>j. 0 < j \<and> j < nr \<longrightarrow> task ex_fork j \<noteq> None"
      "task u = (task ex_fork)(nr \<mapsto> child_of ?p nr 2 page (jiffies ex_fork) ex_fork_regs)" and sh: "shared ?p ex_fork u"
    using fork_makes_child [OF u l(1) p] l(2) e by auto
  have "\<not> 2 < nr" using nr(3) by (auto simp: ex_fork_task dest: spec [where x = 2])
  moreover have "nr \<noteq> 1" using nr(2) by (auto simp: ex_fork_task)
  ultimately have "nr = 2" using nr(1) by linarith
  moreover have "length (filter (\<lambda>j. 0 < j \<longrightarrow> j = Suc 0) [0..<20]) = 2" by (simp add: upt_conv_Cons)
  ultimately show ?thesis using u nr(4) sh
    by (simp add: child_of_def shared_def ref_count_def ref_inodes_def ex_fork_task ex_task_def ex_file_def zero_inode_def NR_OPEN_def)
qed

section \<open>exit\<close>

text \<open>A task that has only got more signals.\<close>

definition sig_le :: "task_struct \<Rightarrow> task_struct \<Rightarrow> bool" where
  "sig_le a b \<longleftrightarrow> b\<lparr>t_signal := 0\<rparr> = a\<lparr>t_signal := 0\<rparr> \<and> t_signal a OR t_signal b = t_signal b"

lemma sig_le_refl [simp]: "sig_le a a" by (simp add: sig_le_def)

lemma sig_le_iff: "sig_le a b \<longleftrightarrow> (\<exists>x. b = a\<lparr>t_signal := x\<rparr> \<and> t_signal a OR x = x)"
proof -
  have "b = a\<lparr>t_signal := t_signal b\<rparr>" if "b\<lparr>t_signal := 0\<rparr> = a\<lparr>t_signal := 0\<rparr>"
    using that by (cases a; cases b) simp
  then show ?thesis by (auto simp: sig_le_def)
qed

lemma sig_le_trans: "sig_le a b \<Longrightarrow> sig_le b c \<Longrightarrow> sig_le a c"
  unfolding sig_le_def by (metis or.assoc)

lemma sig_le_or [simp]: "sig_le a (a\<lparr>t_signal := t_signal a OR m\<rparr>)"
  by (simp add: sig_le_def or.left_commute)

text \<open>From \<open>s\<close> to \<open>t\<close> every task is changed by \<open>g\<close> and may get signals.\<close>

definition tasks_to :: "(nat \<Rightarrow> task_struct \<Rightarrow> task_struct) \<Rightarrow> kst \<Rightarrow> kst \<Rightarrow> bool" where
  "tasks_to g s t \<longleftrightarrow> current t = current s \<and> (\<forall>i. rel_option (\<lambda>a b. sig_le (g i a) b) (task s i) (task t i))"

definition sig_mono :: "(nat \<Rightarrow> task_struct \<Rightarrow> task_struct) \<Rightarrow> bool" where
  "sig_mono h \<longleftrightarrow> (\<forall>i a b. sig_le a b \<longrightarrow> sig_le (h i a) (h i b))"

lemma tasks_to_trans:
  assumes "tasks_to g s t" "tasks_to h t u" "sig_mono h"
  shows "tasks_to (\<lambda>i a. h i (g i a)) s u"
  unfolding tasks_to_def
proof (intro conjI allI)
  show "current u = current s" using assms by (simp add: tasks_to_def)
  fix i
  have "rel_option (\<lambda>a b. sig_le (g i a) b) (task s i) (task t i)" "rel_option (\<lambda>a b. sig_le (h i a) b) (task t i) (task u i)"
    using assms(1,2) by (simp_all add: tasks_to_def)
  then show "rel_option (\<lambda>a b. sig_le (h i (g i a)) b) (task s i) (task u i)"
    using assms(3) unfolding sig_mono_def by (cases "task s i"; cases "task t i"; cases "task u i") (auto intro: sig_le_trans)
qed

lemma tasks_to_same: "same_tasks s t \<Longrightarrow> tasks_to (\<lambda>_ a. a) s t"
  by (simp add: same_tasks_def tasks_to_def option.rel_refl)

lemma tasks_to_upd: "tasks_to (\<lambda>i a. if i = n then f a else a) s (upd_task n f s)"
  by (auto simp: tasks_to_def upd_task_def option.rel_map intro!: option.rel_refl)


definition orphaned :: "u32 \<Rightarrow> task_struct \<Rightarrow> task_struct" where
  "orphaned pid a = (if t_father a = pid then a\<lparr>t_father := 1\<rparr> else a)"

lemma sig_mono_if: "(\<And>i a b. P i \<Longrightarrow> sig_le a b \<Longrightarrow> sig_le (f a) (f b)) \<Longrightarrow> sig_mono (\<lambda>i a. if P i then f a else a)"
  by (auto simp: sig_mono_def)

lemma sig_le_orphaned: "sig_le a b \<Longrightarrow> sig_le (orphaned pid a) (orphaned pid b)"
  by (cases a; cases b) (auto simp: sig_le_def orphaned_def)

lemma tasks_to_send: "tasks_to (\<lambda>_ a. a) s (snd (send_sig sig i priv s))"
  by (auto simp: tasks_to_def send_sig_def upd_task_def intro!: option.rel_refl split: option.splits)

definition orphan_step :: "nat \<Rightarrow> kst \<Rightarrow> kst" where
  "orphan_step i s = (case task s i of None \<Rightarrow> s
        | Some t \<Rightarrow>
          if t_father t = t_pid (cur s) then
            let s = upd_task i (\<lambda>t. t\<lparr>t_father := 1\<rparr>) s
            in if t_state t = ZOMBIE then snd (send_sig (of_nat SIGCHLD) 1 True s) else s
          else s)"

lemma orphan_children_Suc: "orphan_children (Suc n) i s = orphan_children n (Suc i) (orphan_step i s)"
  by (simp add: orphan_step_def)

lemma orphan_step_to: "tasks_to (\<lambda>j a. if j = i then orphaned (t_pid (cur s)) a else a) s (orphan_step i s)"
proof -
  let ?g = "\<lambda>j a. if j = i then orphaned (t_pid (cur s)) a else a"
  have m: "sig_mono (\<lambda>_ a. a)" by (simp add: sig_mono_def)
  have u: "tasks_to ?g s (upd_task i (\<lambda>t. t\<lparr>t_father := 1\<rparr>) s)" if "task s i = Some t" "t_father t = t_pid (cur s)" for t
    using that by (auto simp: tasks_to_def upd_task_def orphaned_def intro!: option.rel_refl)
  have z: "tasks_to ?g s s" if "\<And>t. task s i = Some t \<Longrightarrow> t_father t \<noteq> t_pid (cur s)"
  proof -
    have "rel_option (\<lambda>a b. sig_le (?g j a) b) (task s j) (task s j)" for j
      using that by (cases "task s j") (auto simp: orphaned_def)
    then show ?thesis by (simp add: tasks_to_def)
  qed
  show ?thesis
    using u z tasks_to_trans [OF u tasks_to_send m] by (auto simp: orphan_step_def Let_def split: option.splits)
qed

lemma cur_tasks_to:
  assumes "tasks_to g s t" "task s (current s) = Some p"
  shows "\<exists>q. task t (current t) = Some q \<and> sig_le (g (current s) p) q"
  using assms by (auto simp: tasks_to_def option_rel_Some1 dest!: spec [where x = "current s"])

lemma orphan_children_to:
  assumes "task s (current s) = Some p"
  shows "tasks_to (\<lambda>j a. if i \<le> j \<and> j < i + n then orphaned (t_pid p) a else a) s (orphan_children n i s)"
  using assms
proof (induction n arbitrary: i s p)
  case 0 then show ?case by (auto simp: tasks_to_def intro!: option.rel_refl)
next
  case (Suc n)
  let ?t = "orphan_step i s"
  have st: "tasks_to (\<lambda>j a. if j = i then orphaned (t_pid p) a else a) s ?t"
    using orphan_step_to [of i s] unfolding cur_def Suc.prems option.sel .
  obtain q where q: "task ?t (current ?t) = Some q" "sig_le (if current s = i then orphaned (t_pid p) p else p) q"
    using cur_tasks_to [OF st Suc.prems] by auto
  then have "t_pid q = t_pid p" by (auto simp: sig_le_iff orphaned_def split: if_splits)
  then have r: "tasks_to (\<lambda>j a. if Suc i \<le> j \<and> j < Suc i + n then orphaned (t_pid p) a else a) ?t (orphan_children n (Suc i) ?t)"
    by (metis Suc.IH [OF q(1)])
  have "sig_mono (\<lambda>j a. if Suc i \<le> j \<and> j < Suc i + n then orphaned (t_pid p) a else a)"
    by (rule sig_mono_if) (rule sig_le_orphaned)
  note tasks_to_trans [OF st r this]
  moreover have "(\<lambda>j a. if Suc i \<le> j \<and> j < Suc i + n then orphaned (t_pid p) (if j = i then orphaned (t_pid p) a else a)
      else if j = i then orphaned (t_pid p) a else a) =
    (\<lambda>j a. if i \<le> j \<and> j < i + Suc n then orphaned (t_pid p) a else a)"
    by (auto simp: fun_eq_iff)
  ultimately show ?case by (simp only: orphan_children_Suc)
qed

lemma orphan_children_frame:
  "file_table (orphan_children n i s) = file_table s \<and> tty_table (orphan_children n i s) = tty_table s"
proof (induction n arbitrary: i s)
  case (Suc n)
  have "file_table (orphan_step i s) = file_table s \<and> tty_table (orphan_step i s) = tty_table s"
    by (auto simp: orphan_step_def Let_def upd_task_def send_sig_def split: option.splits)
  then show ?case using Suc by (simp only: orphan_children_Suc)
qed simp


text \<open>Closing the files of the running task gives their counts back.\<close>

definition closed :: "nat \<Rightarrow> nat \<Rightarrow> task_struct \<Rightarrow> (nat \<Rightarrow> nat option)" where
  "closed i n p k = (if i \<le> k \<and> k < i + n then None else t_filp p k)"

definition given_back :: "nat \<Rightarrow> nat \<Rightarrow> task_struct \<Rightarrow> kst \<Rightarrow> nat \<Rightarrow> file_struct" where
  "given_back i n p s k = (file_table s k)\<lparr>f_count := f_count (file_table s k) - of_nat (ref_count i n (t_filp p) k)\<rparr>"

lemma sys_close_result:
  assumes "sys_close (of_nat i) s = Inr (r, t)" "task s (current s) = Some p" "t_filp p i = Some f" "i < NR_OPEN"
  shows "\<exists>c. task t = (task s)(current s \<mapsto> p\<lparr>t_close_on_exec := c, t_filp := (t_filp p)(i := None)\<rparr>) \<and>
    current t = current s \<and> tty_table t = tty_table s \<and>
    file_table t = (file_table s)(f := (file_table s f)\<lparr>f_count := f_count (file_table s f) - 1\<rparr>)"
proof -
  have i: "unat (of_nat i :: u32) = i" "\<not> (of_nat NR_OPEN :: u32) \<le> of_nat i"
    using assms(4) by (simp_all add: NR_OPEN_def unat_of_nat word_le_nat_alt)
  let ?c = "t_close_on_exec p AND NOT (push_bit i 1)"
  let ?s = "s\<lparr>task := (task s)(current s \<mapsto> p\<lparr>t_close_on_exec := ?c, t_filp := (t_filp p)(i := None)\<rparr>),
    file_table := (file_table s)(f := (file_table s f)\<lparr>f_count := f_count (file_table s f) - 1\<rparr>)\<rparr>"
  have "t = ?s \<or> iput (f_inode (file_table s f)) ?s = Inr t"
    using assms(1-3) i
    by (auto simp: sys_close_def Let_def cur_filp_def set_filp_def upd_cur_def upd_task_def upd_file_def cur_def split: if_splits)
  then have "same_tasks ?s t" using iput_tasks by auto
  then show ?thesis by (auto simp: same_tasks_def)
qed

lemma close_all_result:
  assumes "close_all n i s = Inr t" "task s (current s) = Some p" "i + n \<le> NR_OPEN"
  shows "\<exists>c. task t = (task s)(current s \<mapsto> p\<lparr>t_close_on_exec := c, t_filp := closed i n p\<rparr>) \<and>
    current t = current s \<and> tty_table t = tty_table s \<and> file_table t = given_back i n p s"
  using assms
proof (induction n arbitrary: i s p)
  case 0
  have "closed i 0 p = t_filp p" "given_back i 0 p s = file_table s"
    by (auto simp: closed_def given_back_def ref_count_def fun_eq_iff)
  moreover have "task s = (task s)(current s \<mapsto> p\<lparr>t_close_on_exec := t_close_on_exec p, t_filp := t_filp p\<rparr>)" using 0(2) by auto
  ultimately show ?case using 0 by (intro exI [of _ "t_close_on_exec p"]) simp
next
  case (Suc n)
  show ?case
  proof (cases "t_filp p i")
    case None
    then have "close_all n (Suc i) s = Inr t" using Suc.prems by (simp add: cur_filp_def cur_def)
    note IH = Suc.IH [OF this Suc.prems(2)]
    moreover have "closed (Suc i) n p = closed i (Suc n) p" "given_back (Suc i) n p s = given_back i (Suc n) p s"
      using None by (auto simp: closed_def given_back_def ref_count_Suc fun_eq_iff not_less_eq_eq le_Suc_eq)
    ultimately show ?thesis using Suc.prems(3) by simp
  next
    case (Some f)
    then obtain r s1 where s1: "sys_close (of_nat i) s = Inr (r, s1)" "close_all n (Suc i) s1 = Inr t"
      using Suc.prems by (auto simp: cur_filp_def cur_def)
    obtain c where c: "task s1 = (task s)(current s \<mapsto> p\<lparr>t_close_on_exec := c, t_filp := (t_filp p)(i := None)\<rparr>)"
      "current s1 = current s" "tty_table s1 = tty_table s"
      "file_table s1 = (file_table s)(f := (file_table s f)\<lparr>f_count := f_count (file_table s f) - 1\<rparr>)"
      using sys_close_result [OF s1(1) Suc.prems(2) Some] Suc.prems(3) by auto
    let ?q = "p\<lparr>t_close_on_exec := c, t_filp := (t_filp p)(i := None)\<rparr>"
    have cl: "closed (Suc i) n ?q = closed i (Suc n) p" by (auto simp: closed_def fun_eq_iff)
    have "ref_count (Suc i) n (t_filp ?q) k = ref_count (Suc i) n (t_filp p) k" for k
      unfolding ref_count_def by (rule arg_cong [where f = length], rule filter_cong) auto
    then have gb: "given_back (Suc i) n ?q s1 = given_back i (Suc n) p s"
      using Some by (auto simp: given_back_def c(4) ref_count_Suc fun_eq_iff)
    have q: "task s1 (current s1) = Some ?q" "Suc i + n \<le> NR_OPEN" using c Suc.prems(3) by simp_all
    obtain d where d: "task t = (task s1)(current s1 \<mapsto> ?q\<lparr>t_close_on_exec := d, t_filp := closed (Suc i) n ?q\<rparr>)"
      "current t = current s1" "tty_table t = tty_table s1" "file_table t = given_back (Suc i) n ?q s1"
      using Suc.IH [OF s1(2) q] by blast
    have "task t = (task s)(current s \<mapsto> p\<lparr>t_close_on_exec := d, t_filp := closed i (Suc n) p\<rparr>)"
      unfolding d(1) c(1) c(2) cl by simp
    then show ?thesis using d(2-4) c(2,3) gb by auto
  qed
qed


definition exit_tail :: "u32 \<Rightarrow> kst \<Rightarrow> kst kres" where
  "exit_tail code s =
     (if t_leader (cur s) \<and> 0 \<le>s t_tty (cur s) \<and> 2 < t_tty (cur s) then Inl (Wild ''tty_table'')
        else
          let s = (if t_leader (cur s) \<and> 0 \<le>s t_tty (cur s)
                   then upd_tty (unat (t_tty (cur s))) (\<lambda>y. y\<lparr>tt_pgrp := 0\<rparr>) s else s);
              s = (if last_task_used_math s = Some (current s) then s\<lparr>last_task_used_math := None\<rparr> else s);
              s = (if t_leader (cur s) then kill_session s else s);
              s = upd_cur (\<lambda>t. t\<lparr>t_state := ZOMBIE, t_exit_code := code\<rparr>) s
          in tell_father (t_father (cur s)) s)"

lemma do_exit_steps:
  assumes "do_exit code s = Inr u"
  obtains m a b c d where
    "close_all NR_OPEN 0 (orphan_children NR_TASKS 0 (s\<lparr>mem := m\<rparr>)) = Inr a"
    "iput (t_pwd (cur a)) a = Inr b"
    "iput (t_root (cur (upd_cur (\<lambda>t. t\<lparr>t_pwd := None\<rparr>) b))) (upd_cur (\<lambda>t. t\<lparr>t_pwd := None\<rparr>) b) = Inr c"
    "iput (t_executable (cur (upd_cur (\<lambda>t. t\<lparr>t_root := None\<rparr>) c))) (upd_cur (\<lambda>t. t\<lparr>t_root := None\<rparr>) c) = Inr d"
    "exit_tail code (upd_cur (\<lambda>t. t\<lparr>t_executable := None\<rparr>) d) = Inr u"
  using assms unfolding do_exit_def Let_def exit_tail_def [unfolded Let_def, symmetric]
  by (auto simp del: close_all.simps orphan_children.simps)

lemma kill_session_to: "tasks_to (\<lambda>_ a. a) s (kill_session s)"
  by (auto simp: tasks_to_def kill_session_def map_tasks_def option.rel_map intro!: option.rel_refl)

lemma tasks_to_eq: "task t = task s \<Longrightarrow> current t = current s \<Longrightarrow> tasks_to (\<lambda>_ a. a) s t"
  by (auto simp: tasks_to_def intro!: option.rel_refl)

lemma sig_mono_id: "sig_mono (\<lambda>_ a. a)"
  by (simp add: sig_mono_def)

lemma sig_le_zombie: "sig_le a b \<Longrightarrow> sig_le (a\<lparr>t_state := ZOMBIE, t_exit_code := x\<rparr>) (b\<lparr>t_state := ZOMBIE, t_exit_code := x\<rparr>)"
  by (cases a; cases b) (simp add: sig_le_def)

text \<open>The state in which \<open>exit_tail\<close> calls \<open>tell_father\<close>.\<close>

lemma exit_tail_steps:
  assumes "exit_tail code s = Inr u"
  obtains t where "tell_father (t_father (cur t)) t = Inr u" "file_table t = file_table s"
    "tasks_to (\<lambda>i a. if i = current s then a\<lparr>t_state := ZOMBIE, t_exit_code := code\<rparr> else a) s t"
proof -
  define a where "a = (if t_leader (cur s) \<and> 0 \<le>s t_tty (cur s)
                   then upd_tty (unat (t_tty (cur s))) (\<lambda>y. y\<lparr>tt_pgrp := 0\<rparr>) s else s)"
  define b where "b = (if last_task_used_math a = Some (current a) then a\<lparr>last_task_used_math := None\<rparr> else a)"
  define c where "c = (if t_leader (cur b) then kill_session b else b)"
  define t where "t = upd_cur (\<lambda>t. t\<lparr>t_state := ZOMBIE, t_exit_code := code\<rparr>) c"
  have b: "task b = task s" "current b = current s" "file_table b = file_table s"
    by (simp_all add: b_def a_def upd_tty_def)
  have "tasks_to (\<lambda>_ a. a) b c" unfolding c_def by (simp add: kill_session_to tasks_to_eq)
  note tasks_to_trans [OF tasks_to_eq [OF b(1,2)] this sig_mono_id]
  moreover have "current c = current s" using calculation by (simp add: tasks_to_def)
  moreover have "tasks_to (\<lambda>i a. if i = current s then a\<lparr>t_state := ZOMBIE, t_exit_code := code\<rparr> else a) c t"
    unfolding t_def upd_cur_def calculation(2) by (rule tasks_to_upd)
  moreover have "sig_mono (\<lambda>i a. if i = current s then a\<lparr>t_state := ZOMBIE, t_exit_code := code\<rparr> else a)"
    by (rule sig_mono_if) (rule sig_le_zombie)
  ultimately have "tasks_to (\<lambda>i a. if i = current s then a\<lparr>t_state := ZOMBIE, t_exit_code := code\<rparr> else a) s t"
    using tasks_to_trans by blast
  moreover have "file_table t = file_table s"
    using b(3) by (simp add: t_def c_def upd_cur_def upd_task_def kill_session_def map_tasks_def)
  moreover have "tell_father (t_father (cur t)) t = Inr u"
    using assms unfolding exit_tail_def Let_def a_def [symmetric] b_def [symmetric] c_def [symmetric] t_def [symmetric]
    by (simp split: if_splits)
  ultimately show ?thesis using that by blast
qed


text \<open>The task without its files and directories, before it becomes a zombie.\<close>

definition stripped :: "u32 \<Rightarrow> task_struct \<Rightarrow> task_struct" where
  "stripped c p = p\<lparr>t_close_on_exec := c, t_filp := closed 0 NR_OPEN p, t_pwd := None, t_root := None, t_executable := None\<rparr>"

lemma cur_step:
  assumes "same_tasks s t" "task s (current s) = Some p"
  shows "task (upd_cur f t) = (task s)(current s \<mapsto> f p)" "current (upd_cur f t) = current s"
    "file_table (upd_cur f t) = file_table s"
  using assms by (simp_all add: same_tasks_def upd_cur_def upd_task_def)

lemma exit_strips:
  assumes "do_exit code s = Inr u" "task s (current s) = Some p" "t_father p \<noteq> t_pid p"
  obtains s1 p1 k e where "tasks_to (\<lambda>i a. if i < NR_TASKS then orphaned (t_pid p) a else a) s s1" "sig_le p p1"
    "task e = (task s1)(current s \<mapsto> stripped k p1)" "current e = current s"
    "file_table e = given_back 0 NR_OPEN p s" "exit_tail code e = Inr u"
proof -
  obtain m a b c d where st:
    "close_all NR_OPEN 0 (orphan_children NR_TASKS 0 (s\<lparr>mem := m\<rparr>)) = Inr a"
    "iput (t_pwd (cur a)) a = Inr b"
    "iput (t_root (cur (upd_cur (\<lambda>t. t\<lparr>t_pwd := None\<rparr>) b))) (upd_cur (\<lambda>t. t\<lparr>t_pwd := None\<rparr>) b) = Inr c"
    "iput (t_executable (cur (upd_cur (\<lambda>t. t\<lparr>t_root := None\<rparr>) c))) (upd_cur (\<lambda>t. t\<lparr>t_root := None\<rparr>) c) = Inr d"
    "exit_tail code (upd_cur (\<lambda>t. t\<lparr>t_executable := None\<rparr>) d) = Inr u"
    by (rule do_exit_steps [OF assms(1)])
  define s1 where "s1 = orphan_children NR_TASKS 0 (s\<lparr>mem := m\<rparr>)"
  have f1: "file_table s1 = file_table s" using orphan_children_frame [of NR_TASKS 0 "s\<lparr>mem := m\<rparr>"] by (simp add: s1_def)
  have "tasks_to (\<lambda>i a. if 0 \<le> i \<and> i < 0 + NR_TASKS then orphaned (t_pid p) a else a) (s\<lparr>mem := m\<rparr>) s1"
    unfolding s1_def by (rule orphan_children_to) (simp add: assms(2))
  then have o: "tasks_to (\<lambda>i a. if i < NR_TASKS then orphaned (t_pid p) a else a) s s1" by (simp add: tasks_to_def)
  obtain p1 where p1: "task s1 (current s1) = Some p1" "sig_le p p1"
    using cur_tasks_to [OF o assms(2)] assms(3) by (auto simp: orphaned_def split: if_splits)
  have c1: "current s1 = current s" using o by (simp add: tasks_to_def)
  obtain k where a: "task a = (task s1)(current s1 \<mapsto> p1\<lparr>t_close_on_exec := k, t_filp := closed 0 NR_OPEN p1\<rparr>)"
    "current a = current s1" "file_table a = given_back 0 NR_OPEN p1 s1"
    using close_all_result [OF st(1) [folded s1_def] p1(1)] by auto
  have ac: "task a (current a) = Some (p1\<lparr>t_close_on_exec := k, t_filp := closed 0 NR_OPEN p1\<rparr>)" by (simp add: a)
  let ?b = "upd_cur (\<lambda>t. t\<lparr>t_pwd := None\<rparr>) b" and ?c = "upd_cur (\<lambda>t. t\<lparr>t_root := None\<rparr>) c"
  let ?e = "upd_cur (\<lambda>t. t\<lparr>t_executable := None\<rparr>) d"
  note b = cur_step [OF iput_tasks [OF st(2)] ac, of "\<lambda>t. t\<lparr>t_pwd := None\<rparr>"]
  have bc: "task ?b (current ?b) = Some (p1\<lparr>t_close_on_exec := k, t_filp := closed 0 NR_OPEN p1, t_pwd := None\<rparr>)" by (simp add: b)
  note c = cur_step [OF iput_tasks [OF st(3)] bc, of "\<lambda>t. t\<lparr>t_root := None\<rparr>"]
  have cc: "task ?c (current ?c) = Some (p1\<lparr>t_close_on_exec := k, t_filp := closed 0 NR_OPEN p1, t_pwd := None, t_root := None\<rparr>)"
    by (simp add: c)
  note e = cur_step [OF iput_tasks [OF st(4)] cc, of "\<lambda>t. t\<lparr>t_executable := None\<rparr>"]
  have "task ?e = (task s1)(current s \<mapsto> stripped k p1)" by (simp add: e c b a c1 stripped_def)
  moreover have "current ?e = current s" by (simp add: e c b a c1)
  moreover have "t_filp p1 = t_filp p" using p1(2) by (auto simp: sig_le_iff)
  then have "file_table ?e = given_back 0 NR_OPEN p s" by (simp add: e c b a given_back_def [abs_def] f1)
  ultimately show ?thesis using that o p1(2) st(5) by blast
qed

lemma find_pid_cong:
  assumes "\<And>i. map_option t_pid (task t i) = map_option t_pid (task s i)"
  shows "find_pid n i pid t = find_pid n i pid s"
proof (induction n arbitrary: i)
  case (Suc n)
  show ?case
  proof (cases "task s i")
    case None
    then have "task t i = None" using assms [of i] by simp
    then show ?thesis using None Suc.IH by simp
  next
    case (Some x)
    then obtain y where "task t i = Some y" "t_pid y = t_pid x" using assms [of i] by auto
    then show ?thesis using Some Suc.IH by simp
  qed
qed simp

lemma find_pid_task: "find_pid n i pid s = Some j \<Longrightarrow> \<exists>t. task s j = Some t \<and> t_pid t = pid"
  by (induction n arbitrary: i) (auto split: option.splits if_splits)


lemma sig_le_stripped: "sig_le a b \<Longrightarrow> sig_le (stripped k a) (stripped k b)"
proof -
  have "closed i n (a\<lparr>t_signal := x\<rparr>) = closed i n a" for i n x by (simp add: closed_def fun_eq_iff)
  moreover have "(stripped k a)\<lparr>t_signal := x\<rparr> = stripped k (a\<lparr>t_signal := x\<rparr>)" for x
    by (cases a) (simp add: stripped_def closed_def fun_eq_iff)
  moreover have "t_signal (stripped k a) = t_signal a" by (simp add: stripped_def)
  ultimately show "sig_le a b \<Longrightarrow> sig_le (stripped k a) (stripped k b)" by (auto simp: sig_le_iff)
qed

lemma tasks_to_task: "tasks_to g s t \<Longrightarrow> rel_option (\<lambda>a b. sig_le (g i a) b) (task s i) (task t i)"
  by (simp add: tasks_to_def)

lemma rel_sig_trans: "rel_option (\<lambda>a b. sig_le (g a) b) x y \<Longrightarrow> rel_option sig_le y z \<Longrightarrow> rel_option (\<lambda>a b. sig_le (g a) b) x z"
  by (cases x; cases y; cases z) (auto intro: sig_le_trans)

lemma sig_le_pid: "sig_le a b \<Longrightarrow> t_pid b = t_pid a" "sig_le a b \<Longrightarrow> t_father b = t_father a"
  by (auto simp: sig_le_iff)

lemma orphaned_pid [simp]: "t_pid (orphaned n a) = t_pid a" by (simp add: orphaned_def)

text \<open>
  C8: A process that ends gives every open file its count back, once for each descriptor,
  and keeps neither files nor directories; its children become children of process 1; every
  other task is unchanged but for signals. If its father exists it stays behind as a zombie
  with the exit code and the father has SIGCHLD; if not, its slot is free.
\<close>

theorem exit_leaves_zombie:
  assumes "sys_exit code s = Inr u" "task s (current s) = Some p" "t_father p \<noteq> t_pid p"
  shows "(\<forall>k. file_table u k = (file_table s k)\<lparr>f_count := f_count (file_table s k) - of_nat (ref_count 0 NR_OPEN (t_filp p) k)\<rparr>) \<and>
    (\<forall>i. i \<noteq> current s \<longrightarrow>
       rel_option (\<lambda>a b. sig_le (if i < NR_TASKS then orphaned (t_pid p) a else a) b) (task s i) (task u i)) \<and>
    (case (if t_father p = 0 then None else find_pid NR_TASKS 0 (t_father p) s) of
       None \<Rightarrow> task u (current s) = None
     | Some f \<Rightarrow>
         (\<exists>q k. task u (current s) = Some q \<and>
            sig_le ((stripped k p)\<lparr>t_state := ZOMBIE, t_exit_code := push_bit 8 (code AND 0xff)\<rparr>) q) \<and>
         (\<exists>q. task u f = Some q \<and> bit (t_signal q) (SIGCHLD - 1)))"
proof -
  let ?ec = "push_bit 8 (code AND 0xff)"
  let ?z = "\<lambda>a. a\<lparr>t_state := ZOMBIE, t_exit_code := ?ec\<rparr>"
  let ?o = "\<lambda>i a. if i < NR_TASKS then orphaned (t_pid p) a else a"
  obtain s1 p1 k e where e: "tasks_to ?o s s1" "sig_le p p1" "task e = (task s1)(current s \<mapsto> stripped k p1)"
    "current e = current s" "file_table e = given_back 0 NR_OPEN p s" "exit_tail ?ec e = Inr u"
    by (rule exit_strips [OF assms(1) [unfolded sys_exit_def] assms(2,3)])
  obtain t where t: "tell_father (t_father (cur t)) t = Inr u" "file_table t = file_table e"
    "tasks_to (\<lambda>i a. if i = current e then ?z a else a) e t"
    by (rule exit_tail_steps [OF e(6)])
  have ct: "current t = current s" using t(3) e(4) by (simp add: tasks_to_def)
  have "task e (current e) = Some (stripped k p1)" using e(3,4) by simp
  then obtain q where q: "task t (current s) = Some q" "sig_le (?z (stripped k p1)) q"
    using cur_tasks_to [OF t(3)] ct e(4) by auto
  have "sig_le (?z (stripped k p)) (?z (stripped k p1))" using e(2) by (intro sig_le_zombie sig_le_stripped)
  then have q2: "sig_le (?z (stripped k p)) q" using q(2) by (rule sig_le_trans)
  have oth: "rel_option (\<lambda>a b. sig_le (?o i a) b) (task s i) (task t i)" if "i \<noteq> current s" for i
  proof -
    have "task e i = task s1 i" "i \<noteq> current e" using e(3,4) that by simp_all
    then show ?thesis using tasks_to_task [OF e(1), of i] tasks_to_task [OF t(3), of i] by (simp add: rel_sig_trans)
  qed
  have qf: "t_father q = t_father p" "t_pid q = t_pid p" using sig_le_pid [OF q2] by (simp_all add: stripped_def)
  have pids: "map_option t_pid (task t i) = map_option t_pid (task s i)" for i
  proof (cases "i = current s")
    case True then show ?thesis using q(1) assms(2) qf by simp
  next
    case False
    show ?thesis using oth [OF False] by (cases "task s i"; cases "task t i") (auto dest: sig_le_pid split: if_splits)
  qed
  have fp: "find_pid NR_TASKS 0 (t_father p) t = find_pid NR_TASKS 0 (t_father p) s" by (rule find_pid_cong) (rule pids)
  have cq: "cur t = q" using q(1) ct by (simp add: cur_def)
  have ft: "file_table t = given_back 0 NR_OPEN p s" using t(2) e(5) by simp
  show ?thesis
  proof (cases "if t_father p = 0 then None else find_pid NR_TASKS 0 (t_father p) s")
    case None
    then have "release (current s) t = Inr u" using t(1) by (simp add: tell_father_def cq qf fp ct cong: if_cong)
    then have "task u = (task t)(current s := None)" "file_table u = file_table t"
      using q(1) by (auto simp: release_def split: if_splits)
    then show ?thesis using None oth ft by (simp add: given_back_def)
  next
    case (Some f)
    then have u: "u = upd_task f (\<lambda>t. t\<lparr>t_signal := t_signal t OR sig_bit SIGCHLD\<rparr>) t"
      using t(1) by (simp add: tell_father_def cq qf fp cong: if_cong)
    obtain x where x: "task t f = Some x" "t_pid x = t_father p"
      using find_pid_task [of NR_TASKS 0 "t_father p" t f] Some fp by (auto split: if_splits)
    have fc: "f \<noteq> current s" using x q(1) qf assms(3) by auto
    have "rel_option (\<lambda>a b. sig_le (?o i a) b) (task s i) (task u i)" if i: "i \<noteq> current s" for i
    proof (cases "i = f")
      case True
      then show ?thesis using oth [OF i] x(1) sig_le_or by (cases "task s i") (auto simp: u upd_task_def intro: sig_le_trans)
    qed (use oth [OF i] in \<open>simp add: u upd_task_def\<close>)
    moreover have "bit (t_signal x OR sig_bit SIGCHLD) (SIGCHLD - 1)"
      by (simp add: SIGCHLD_def sig_bit_def bit_simps)
    moreover have "task u f = Some (x\<lparr>t_signal := t_signal x OR sig_bit SIGCHLD\<rparr>)" "task u (current s) = Some q"
      "file_table u = given_back 0 NR_OPEN p s"
      using x fc q(1) ft by (simp_all add: u upd_task_def)
    ultimately show ?thesis using Some q2 by (auto simp: given_back_def)
  qed
qed

text \<open>Process 2, a child of process 1 with one open file and the child 3, ends with status 7.\<close>

definition ex_exit :: kst where
  "ex_exit = ex_kst\<lparr>current := 2, file_table := (\<lambda>_. ex_file)(3 := ex_file\<lparr>f_count := 2\<rparr>),
     task := (task ex_kst)(
       2 \<mapsto> (ex_task 2)\<lparr>t_father := 1, t_code_base := 0x8000000, t_data_base := 0x8000000, t_filp := (\<lambda>_. None)(0 \<mapsto> 3)\<rparr>,
       3 \<mapsto> (ex_task 3)\<lparr>t_father := 2\<rparr>)\<rparr>"

lemma orphan_children_empty: "(\<And>j. i \<le> j \<Longrightarrow> task s j = None) \<Longrightarrow> orphan_children n i s = s"
  by (induction n arbitrary: i) simp_all

lemma close_all_empty: "(\<And>j. i \<le> j \<Longrightarrow> t_filp (cur s) j = None) \<Longrightarrow> close_all n i s = Inr s"
  by (induction n arbitrary: i) (simp_all add: cur_filp_def)

lemma ex_exit_task: "task ex_exit i =
    (if i = 3 then Some ((ex_task 3)\<lparr>t_father := 2\<rparr>)
     else if i = 2 then Some ((ex_task 2)\<lparr>t_father := 1, t_code_base := 0x8000000, t_data_base := 0x8000000, t_filp := (\<lambda>_. None)(0 \<mapsto> 3)\<rparr>)
     else if i = 1 then Some (ex_task 1) else if i = 0 then Some (ex_task 0) else None)"
  "current ex_exit = 2" "file_table ex_exit = (\<lambda>_. ex_file)(3 := ex_file\<lparr>f_count := 2\<rparr>)" "last_task_used_math ex_exit = None"
  by (simp_all add: ex_exit_def ex_kst_def)

lemma ex_exit_memory: "free_page_tables 0x8000000 0xa0000 (mem ex_exit) = Inr (0, mem ex_exit)"
  by (simp add: free_page_tables_def ex_exit_def ex_kst_def present_def)

lemma ex_exit_orphans: "orphan_children NR_TASKS 0 ex_exit = upd_task 3 (\<lambda>t. t\<lparr>t_father := 1\<rparr>) ex_exit"
proof -
  let ?t = "upd_task 3 (\<lambda>t. t\<lparr>t_father := 1\<rparr>) ex_exit"
  have l: "orphan_children 60 (Suc (Suc (Suc (Suc 0)))) ?t = ?t"
    by (rule orphan_children_empty) (simp add: ex_exit_task upd_task_def)
  have p: "t_pid (cur ex_exit) = 2" by (simp add: cur_def ex_exit_task ex_task_def)
  have o: "orphan_step 0 ex_exit = ex_exit" "orphan_step (Suc 0) ex_exit = ex_exit" "orphan_step (Suc (Suc 0)) ex_exit = ex_exit"
    "orphan_step (Suc (Suc (Suc 0))) ex_exit = ?t"
    by (simp_all add: orphan_step_def p ex_exit_task ex_task_def numeral_2_eq_2 [symmetric] numeral_3_eq_3 [symmetric])
  have "orphan_children (Suc (Suc (Suc (Suc 60)))) 0 ex_exit = ?t"
    unfolding orphan_children_Suc o by (rule l)
  then show ?thesis by (simp add: NR_TASKS_def)
qed

lemma tell_father_runs:
  assumes "task s j = Some t" "t_pid t = pid" "j < NR_TASKS" "pid \<noteq> 0"
  shows "\<exists>u. tell_father pid s = Inr u"
proof -
  have "find_pid NR_TASKS 0 pid s \<noteq> None" unfolding find_pid_None using assms by auto
  then show ?thesis using assms(4) by (auto simp: tell_father_def)
qed

lemma ex_exit_runs: "\<exists>u. sys_exit 7 ex_exit = Inr u"
proof -
  let ?t = "upd_task 3 (\<lambda>t. t\<lparr>t_father := 1\<rparr>) ex_exit"
  have z: "sys_close 0 ?t = Inr (0, upd_file 3 (\<lambda>x. x\<lparr>f_count := f_count x - 1\<rparr>)
      (set_filp 0 None (upd_cur (\<lambda>t. t\<lparr>t_close_on_exec := t_close_on_exec t AND NOT (push_bit 0 1)\<rparr>) ?t)))" (is "_ = Inr (0, ?c)")
    by (simp add: sys_close_def Let_def cur_filp_def set_filp_def upd_cur_def upd_task_def upd_file_def cur_def ex_exit_task NR_OPEN_def)
  have "close_all 19 1 ?c = Inr ?c"
    by (rule close_all_empty) (simp add: set_filp_def upd_cur_def upd_task_def upd_file_def cur_def ex_exit_task)
  then have "close_all (Suc 19) 0 ?t = Inr ?c" using z
    by (simp only: close_all.simps) (simp add: cur_filp_def cur_def upd_task_def ex_exit_task)
  then have c: "close_all NR_OPEN 0 (orphan_children NR_TASKS 0 ex_exit) = Inr ?c" by (simp add: NR_OPEN_def ex_exit_orphans)
  have t: "exit_tail 0x700 (upd_cur (\<lambda>t. t\<lparr>t_executable := None\<rparr>) (upd_cur (\<lambda>t. t\<lparr>t_root := None\<rparr>) (upd_cur (\<lambda>t. t\<lparr>t_pwd := None\<rparr>) ?c))) =
      tell_father 1 (upd_cur (\<lambda>t. t\<lparr>t_state := ZOMBIE, t_exit_code := 0x700\<rparr>) (upd_cur (\<lambda>t. t\<lparr>t_executable := None\<rparr>)
        (upd_cur (\<lambda>t. t\<lparr>t_root := None\<rparr>) (upd_cur (\<lambda>t. t\<lparr>t_pwd := None\<rparr>) ?c))))"
    by (simp add: exit_tail_def cur_def set_filp_def upd_cur_def upd_task_def upd_file_def ex_exit_task ex_task_def)
  have "\<exists>u. exit_tail 0x700 (upd_cur (\<lambda>t. t\<lparr>t_executable := None\<rparr>) (upd_cur (\<lambda>t. t\<lparr>t_root := None\<rparr>) (upd_cur (\<lambda>t. t\<lparr>t_pwd := None\<rparr>) ?c))) = Inr u"
    unfolding t by (rule tell_father_runs [of _ 1 "ex_task 1"])
      (simp_all add: set_filp_def upd_cur_def upd_task_def upd_file_def ex_exit_task NR_TASKS_def, simp add: ex_task_def)
  then obtain u where u: "exit_tail 0x700 (upd_cur (\<lambda>t. t\<lparr>t_executable := None\<rparr>) (upd_cur (\<lambda>t. t\<lparr>t_root := None\<rparr>) (upd_cur (\<lambda>t. t\<lparr>t_pwd := None\<rparr>) ?c))) = Inr u"
    by blast
  have p: "cur ex_exit = (ex_task 2)\<lparr>t_father := 1, t_code_base := 0x8000000, t_data_base := 0x8000000, t_filp := (\<lambda>_. None)(0 \<mapsto> 3)\<rparr>"
    by (simp add: cur_def ex_exit_task)
  have b: "t_code_base (cur ex_exit) = 0x8000000" "t_data_base (cur ex_exit) = 0x8000000" "t_code_limit (cur ex_exit) = 0xa0000"
    "t_data_limit (cur ex_exit) = 0xa0000" by (simp_all add: p ex_task_def)
  have n: "iput (t_pwd (cur ?c)) ?c = Inr ?c" "iput (t_root (cur (upd_cur (\<lambda>t. t\<lparr>t_pwd := None\<rparr>) ?c))) x = Inr x"
    "iput (t_executable (cur (upd_cur (\<lambda>t. t\<lparr>t_root := None\<rparr>) (upd_cur (\<lambda>t. t\<lparr>t_pwd := None\<rparr>) ?c)))) x = Inr x" for x
    by (simp_all add: iput_def cur_def set_filp_def upd_cur_def upd_task_def upd_file_def ex_exit_task ex_task_def)
  have m: "ex_exit\<lparr>mem := mem ex_exit\<rparr> = ex_exit" by simp
  have "do_exit 0x700 ex_exit = Inr u"
    unfolding do_exit_def Let_def exit_tail_def [unfolded Let_def, symmetric] b ex_exit_memory bindk_Inr prod.case m c n u ..
  then have "sys_exit 7 ex_exit = Inr u" by (simp add: sys_exit_def)
  then show ?thesis ..
qed

theorem exit_leaves_zombie_witness:
  "\<exists>u. sys_exit 7 ex_exit = Inr u \<and> map_option t_state (task u 2) = Some ZOMBIE \<and>
     map_option t_exit_code (task u 2) = Some 0x700 \<and> map_option t_father (task u 3) = Some 1 \<and> f_count (file_table u 3) = 1"
proof -
  obtain u where u: "sys_exit 7 ex_exit = Inr u" using ex_exit_runs by blast
  let ?p = "(ex_task 2)\<lparr>t_father := 1, t_code_base := 0x8000000, t_data_base := 0x8000000, t_filp := (\<lambda>_. None)(0 \<mapsto> 3)\<rparr>"
  have p: "task ex_exit (current ex_exit) = Some ?p" "t_father ?p \<noteq> t_pid ?p" by (simp_all add: ex_exit_task ex_task_def)
  note t = exit_leaves_zombie [OF u p]
  have "find_pid NR_TASKS 0 1 ex_exit \<noteq> None"
    unfolding find_pid_None by (auto simp: ex_exit_task NR_TASKS_def ex_task_def intro!: exI [of _ "Suc 0"])
  then obtain f where f: "(if t_father ?p = 0 then None else find_pid NR_TASKS 0 (t_father ?p) ex_exit) = Some f" by auto
  obtain q k where q: "task u 2 = Some q" "sig_le ((stripped k ?p)\<lparr>t_state := ZOMBIE, t_exit_code := 0x700\<rparr>) q"
    using t unfolding f by (auto simp: ex_exit_task)
  have "rel_option (\<lambda>a b. sig_le (orphaned 2 a) b) (task ex_exit 3) (task u 3)"
    using conjunct1 [OF conjunct2 [OF t], rule_format, of 3] by (simp add: ex_exit_task NR_TASKS_def ex_task_def)
  then obtain c where c: "task u 3 = Some c" "sig_le (orphaned 2 ((ex_task 3)\<lparr>t_father := 2\<rparr>)) c"
    by (auto simp: ex_exit_task option_rel_Some1)
  have "t_father c = 1" using sig_le_pid(2) [OF c(2)] by (simp add: orphaned_def ex_task_def)
  moreover have "t_state q = ZOMBIE" "t_exit_code q = 0x700" using q(2) by (auto simp: sig_le_iff)
  moreover have "ref_count 0 NR_OPEN (t_filp ?p) 3 = 1" by (simp add: ref_count_def NR_OPEN_def upt_conv_Cons)
  then have "f_count (file_table u 3) = 1"
    using conjunct1 [OF t, rule_format, of 3] by (simp add: ex_exit_task)
  ultimately show ?thesis using u q(1) c(1) by simp
qed

section \<open>waitpid\<close>

lemma wait_scan_skip:
  assumes "\<forall>j. n < j \<and> j \<le> m \<longrightarrow> j = current s \<or> (\<forall>q. task s j = Some q \<longrightarrow> \<not> waited pid q s)" "n \<le> m"
  shows "wait_scan yld m pid a opts fl s = wait_scan yld n pid a opts fl s"
  using assms
proof (induction m)
  case (Suc m)
  show ?case
  proof (cases "n = Suc m")
    case False
    then have "n \<le> m" "n < Suc m" using Suc.prems(2) by simp_all
    then have "wait_scan yld m pid a opts fl s = wait_scan yld n pid a opts fl s" using Suc by simp
    then show ?thesis using Suc.prems(1) \<open>n < Suc m\<close> by (auto split: option.splits)
  qed simp
qed simp


lemma waited_mem: "waited pid q (s\<lparr>mem := m\<rparr>) = waited pid q s"
  by (simp add: waited_def cur_def)

text \<open>The first waited child from above is a zombie.\<close>

definition first_zombie :: "u32 \<Rightarrow> nat \<Rightarrow> task_struct \<Rightarrow> kst \<Rightarrow> bool" where
  "first_zombie pid n z s \<longleftrightarrow> task s n = Some z \<and> t_state z = ZOMBIE \<and> waited pid z s \<and> n \<noteq> current s \<and> 0 < n \<and> n < NR_TASKS \<and>
     (\<forall>j q. n < j \<and> j < NR_TASKS \<and> j \<noteq> current s \<and> task s j = Some q \<longrightarrow> \<not> waited pid q s)"

text \<open>
  C12: When the first waited child from the last slot down is a zombie, waitpid that returns
  returns its process number and stores its exit code at the address given. Before the
  scheduler is called the slot and the page of the child are free and its times are in those
  of the children of the caller; what the scheduler and the other tasks then do is a
  parameter of the theorem, any function of the state that may also not come back, and the
  only change made after it is the store of the exit code, which is that of the child even
  if the slot has been given to another task.
\<close>

theorem wait_reaps_zombie:
  assumes "waitpid_by yld pid addr opts s = Inr (v, u)" "first_zombie pid n z s" "task s (current s) = Some p"
  shows "v = t_pid z \<and> get_fs_long addr u = t_exit_code z \<and>
    (\<exists>s0 a b. verify_area addr 4 s = Inr s0 \<and> free_page (t_page z) (mem s0) = Inr (mem a) \<and> current a = current s \<and>
       task a = (task s)(current s \<mapsto> p\<lparr>t_cutime := t_cutime p + t_utime z, t_cstime := t_cstime p + t_stime z\<rparr>, n := None) \<and>
       yld a = Inr b \<and> u = put_fs_long (t_exit_code z) addr b)"
proof -
  obtain s0 where s0: "verify_area addr 4 s = Inr s0" "wait_loop yld 3 pid addr opts s0 = Inr (v, u)"
    using assms(1) by (auto simp: waitpid_by_def)
  obtain m where m: "s0 = s\<lparr>mem := m\<rparr>" using s0(1) by (auto simp: verify_area_def Let_def)
  obtain k where k: "n = Suc k" using assms(2) by (cases n) (auto simp: first_zombie_def)
  have "wait_scan yld (NR_TASKS - 1) pid addr opts False s0 = wait_scan yld n pid addr opts False s0"
    by (rule wait_scan_skip) (use assms(2) in \<open>auto simp: first_zombie_def m waited_mem NR_TASKS_def dest: le_imp_less_Suc\<close>)
  also have "\<dots> = (let t = upd_cur (\<lambda>t. t\<lparr>t_cutime := t_cutime t + t_utime z, t_cstime := t_cstime t + t_stime z\<rparr>) s0
      in bindk (release n t) (\<lambda>t. bindk (yld t) (\<lambda>t. Inr (Some (t_pid z), False, put_fs_long (t_exit_code z) addr t))))"
    using assms(2) by (simp add: k first_zombie_def m waited_mem)
  finally have sc: "wait_scan yld (NR_TASKS - 1) pid addr opts False s0 = \<dots>" .
  define t where "t = upd_cur (\<lambda>t. t\<lparr>t_cutime := t_cutime t + t_utime z, t_cstime := t_cstime t + t_stime z\<rparr>) s0"
  have "wait_loop yld (Suc 2) pid addr opts s0 = Inr (v, u)" using s0(2) by (simp add: numeral_3_eq_3 numeral_2_eq_2)
  then obtain a b where r: "release n t = Inr a" "yld a = Inr b" "v = t_pid z" "u = put_fs_long (t_exit_code z) addr b"
    unfolding wait_loop.simps sc by (auto simp: Let_def t_def [symmetric])
  have t: "task t = (task s)(current s \<mapsto> p\<lparr>t_cutime := t_cutime p + t_utime z, t_cstime := t_cstime p + t_stime z\<rparr>)"
    "current t = current s" "mem t = mem s0" "task t n = Some z"
    using assms(2,3) by (auto simp: t_def m upd_cur_def upd_task_def first_zombie_def)
  have "task a = (task t)(n := None) \<and> current a = current s \<and> free_page (t_page z) (mem s0) = Inr (mem a)"
    using r(1) t(2-4) assms(2) by (auto simp: release_def first_zombie_def split: if_splits)
  then have "\<exists>s0 a b. verify_area addr 4 s = Inr s0 \<and> free_page (t_page z) (mem s0) = Inr (mem a) \<and> current a = current s \<and>
       task a = (task s)(current s \<mapsto> p\<lparr>t_cutime := t_cutime p + t_utime z, t_cstime := t_cstime p + t_stime z\<rparr>, n := None) \<and>
       yld a = Inr b \<and> u = put_fs_long (t_exit_code z) addr b"
    using s0(1) r(2,4) t(1) by (intro exI [of _ s0] exI [of _ a] exI [of _ b]) simp
  then show ?thesis using r(3,4) by simp
qed

text \<open>
  Process 1 waits for its dead child 2, which left status 7. Before it runs again another task has made a
  process in the slot that was given up.
\<close>

definition ex_dead_child :: kst where
  "ex_dead_child = ex_kst\<lparr>task := (task ex_kst)(2 \<mapsto> (ex_task 2)\<lparr>t_father := 1, t_state := ZOMBIE, t_exit_code := 0x700, t_utime := 5\<rparr>)\<rparr>"

definition ex_meanwhile :: "kst \<Rightarrow> kst kres" where
  "ex_meanwhile s = Inr (s\<lparr>task := (task s)(2 \<mapsto> ex_task 7), jiffies := jiffies s + 10\<rparr>)"

lemma ex_dead_child_task: "task ex_dead_child i =
    (if i = 2 then Some ((ex_task 2)\<lparr>t_father := 1, t_state := ZOMBIE, t_exit_code := 0x700, t_utime := 5\<rparr>)
     else if i = 1 then Some (ex_task 1) else if i = 0 then Some (ex_task 0) else None)"
  "current ex_dead_child = 1"
  by (simp_all add: ex_dead_child_def ex_kst_def)

lemma ex_dead_child_zombie: "first_zombie (- 1) 2 ((ex_task 2)\<lparr>t_father := 1, t_state := ZOMBIE, t_exit_code := 0x700, t_utime := 5\<rparr>) ex_dead_child"
  by (auto simp: first_zombie_def ex_dead_child_task waited_def cur_def NR_TASKS_def ex_task_def word_sless_alt)

lemma ex_dead_child_area: "verify_area 0x100 4 ex_dead_child = Inr ex_dead_child"
proof -
  have d: "t_data_base (cur ex_dead_child) = 0" "\<And>x. pmem (mem ex_dead_child) x = 0"
    by (simp_all add: cur_def ex_dead_child_task ex_task_def) (simp add: ex_dead_child_def ex_kst_def)
  have "verify_loop (Suc 0) 0 (mem ex_dead_child) = Inr (mem ex_dead_child)" by (simp add: write_verify_def d present_def)
  then show ?thesis by (simp add: verify_area_def d word_sle_eq)
qed

lemma ex_dead_child_scan:
  "\<exists>u. wait_scan ex_meanwhile (NR_TASKS - 1) (- 1) 0x100 0 False ex_dead_child = Inr (Some 2, False, u)"
proof -
  let ?z = "(ex_task 2)\<lparr>t_father := 1, t_state := ZOMBIE, t_exit_code := 0x700, t_utime := 5\<rparr>"
  have skip: "wait_scan ex_meanwhile (NR_TASKS - 1) (- 1) 0x100 0 False ex_dead_child =
      wait_scan ex_meanwhile (Suc (Suc 0)) (- 1) 0x100 0 False ex_dead_child"
    by (rule wait_scan_skip) (simp_all add: ex_dead_child_task NR_TASKS_def)
  have z: "task ex_dead_child (Suc (Suc 0)) = Some ?z" "waited (- 1) ?z ex_dead_child" "Suc (Suc 0) \<noteq> current ex_dead_child" "t_state ?z = ZOMBIE"
    using ex_dead_child_zombie by (simp_all add: first_zombie_def numeral_2_eq_2)
  have zt: "t_pid ?z = 2" by (simp add: ex_task_def)
  have "\<exists>t. release (Suc (Suc 0)) (upd_cur f ex_dead_child) = Inr t" for f
    by (simp add: release_def upd_cur_def upd_task_def ex_dead_child_task free_page_def LOW_MEM_def ex_task_def numeral_2_eq_2 [symmetric])
  then obtain t where "release (Suc (Suc 0)) (upd_cur (\<lambda>t. t\<lparr>t_cutime := t_cutime t + t_utime ?z, t_cstime := t_cstime t + t_stime ?z\<rparr>) ex_dead_child) = Inr t"
    by blast
  then show ?thesis
    unfolding skip wait_scan.simps z(1) option.case Let_def using z(2-4) zt by (simp add: ex_meanwhile_def)
qed

lemma ex_dead_child_runs: "\<exists>v u. waitpid_by ex_meanwhile (- 1) 0x100 0 ex_dead_child = Inr (v, u)"
proof -
  obtain u where u: "wait_scan ex_meanwhile (NR_TASKS - 1) (- 1) 0x100 0 False ex_dead_child = Inr (Some 2, False, u)"
    using ex_dead_child_scan by blast
  have "wait_loop ex_meanwhile (Suc 2) (- 1) 0x100 0 ex_dead_child = Inr (2, u)"
    unfolding wait_loop.simps u by simp
  moreover have "(3 :: nat) = Suc 2" by simp
  ultimately show ?thesis unfolding waitpid_by_def ex_dead_child_area bindk_Inr by metis
qed

theorem wait_reaps_zombie_witness:
  "\<exists>u. waitpid_by ex_meanwhile (- 1) 0x100 0 ex_dead_child = Inr (2, u) \<and> get_fs_long 0x100 u = 0x700 \<and>
     map_option t_cutime (task u 1) = Some 5 \<and> map_option t_pid (task u 2) = Some 7"
proof -
  obtain v u where u: "waitpid_by ex_meanwhile (- 1) 0x100 0 ex_dead_child = Inr (v, u)" using ex_dead_child_runs by blast
  have p: "task ex_dead_child (current ex_dead_child) = Some (ex_task 1)" by (simp add: ex_dead_child_task)
  have "t_cutime (ex_task 1) = 0" "t_pid (ex_task 2) = 2" "t_pid (ex_task 7) = 7" by (simp_all add: ex_task_def)
  then show ?thesis using wait_reaps_zombie [OF u ex_dead_child_zombie p] u
    by (auto simp: ex_dead_child_task ex_meanwhile_def put_fs_long_def)
qed

end
