(* ===== verification/Spec2Isabelle.thy ===== *)
theory Spec2Isabelle imports Boot_Lemmas Syscall_Lemmas Strings_Lemmas Hd_Lemmas Floppy_Lemmas Exec_Args Console_Text Request_Lemmas Ramdisk_Lemmas Kmalloc_Lemmas Vsprintf_Lemmas Mktime Line_Lemmas Pipe_Lemmas Ctype_Lemmas File_Lemmas Wait_Queue Bitmap_Lemmas Path_Calls Process_Lemmas Sys Example begin

text \<open>
  A verification library for the kernel sources of this repository, Linux 0.11 with changes: the C code of
  init/, kernel/, mm/, fs/ and lib/, and of the assembly the path of a system call. The programs are
  translated function by function into HOL functions over one state and proved correct against
  specifications stated in the theories that prove them.

  \<^bold>\<open>The program.\<close> A process runs in user mode until a system call, a fault or an interrupt brings it into
  the kernel. A system call goes through the table of include/linux/sys.h to a function of fs/ or kernel/.
  The file system works on inodes and super blocks it keeps in tables, whose contents and the data of
  files it gets from the buffer cache (fs/buffer.c); the cache gives buffers to be read or written to the
  request queue (kernel/blk_drv/ll_rw_blk.c), which the drivers of RAM disk, hard disks and floppy drives
  serve, the last two by interrupts. Terminals (kernel/chr_drv) are queues of characters between the
  processes, the keyboard and serial interrupts, and the screen. The scheduler chooses the process that
  goes on; the memory manager (mm/memory.c) gives out page frames, and \<open>fork\<close>, \<open>execve\<close>, \<open>exit\<close> and the
  page fault handlers change the page tables. \<open>main\<close> (init/main.c) brings all of this into its first state.

  \<^bold>\<open>State and result.\<close> The kernel state is the record \<open>kst\<close> (Kstate): buffers, inodes, super blocks, open
  files, tasks, physical memory, the user segment of the running task, terminals, console, clock and
  ports. A pointer to an element of an array is its index, the null pointer \<open>None\<close>. \<open>blk\<close> (Request) adds
  what the block devices keep: request table, queues, RAM disk, the variables of hd.c and floppy.c and
  the history of port accesses. The heap of lib/malloc.c is the record \<open>heap\<close> over physical memory. C
  integers are words of their width, signed where the code compares them so (\<open><s\<close>, \<open>\<le>s\<close>, \<open>sint\<close>). A
  function that may not come back returns \<open>'a kres\<close> (Prelude): the left summand is a panic, giving the
  processor away, an access outside an array or through a null pointer, too deep a recursion, a loop
  only somebody else can end, or the end of the task. Errors of the code are its negative values.

  \<^bold>\<open>Theories and source files.\<close>
    \<^item> Prelude, Kstate, Links, Usermem: results and generic lemmas; include/linux/fs.h, sched.h, tty.h;
      pointer structures; include/asm/segment.h, \<open>verify_area\<close>. Example, Example_Drives: states for witnesses.
    \<^item> Memory: mm/memory.c. Demand: \<open>do_no_page\<close>, \<open>share_page\<close>, \<open>bread_page\<close>. Phys_Bytes: bytes of pages.
    \<^item> Buffer: fs/buffer.c with the contract \<open>ll_rw_block\<close> of the block layer. Buffer_Queues, Buffer_Inv:
      the doubly linked structures stay well formed. Buffer_View, Buffer_Write: what clients see.
    \<^item> Request, Request_Idle, Request_Lemmas: ll_rw_blk.c, blk.h. Ramdisk, Ramdisk_Lemmas: ramdisk.c, which is
      proved to keep the contract the buffer cache rests on. Drives: what the two other drivers keep. Hd,
      Hd_Lemmas: hd.c. Floppy, Floppy_Dma, Floppy_Controller, Floppy_Types, Floppy_Lemmas: floppy.c.
    \<^item> Inode, Inode_Lemmas: inode.c, truncate.c. Bitmap, Bitmap_Lemmas: bitmap.c. Super: super.c. File_IO,
      File_Lemmas: file_dev.c, block_dev.c, pipe.c. User_Bytes, Pipe_Lemmas: copying, pipes. Fd_Calls:
      read_write.c, char_dev.c, fcntl.c, ioctl.c. Namei, Path_Calls: namei.c, open.c, stat.c, \<open>mount\<close>.
    \<^item> Exec, Exec_Args, Exec_Lemmas: exec.c, a.out.h. Process, Process_Lemmas: fork.c, exit.c; Task_Frame: the
      file system leaves the tasks alone. Sched, Sched_Lemmas, Wait_Queue: sched.c. Sys: sys.c, signal.c. Mktime: mktime.c, \<open>time_init\<close>.
    \<^item> Tty, Tty_Lemmas: tty_io.c, tty_ioctl.c, serial.c. Console, Console_Lemmas, Console_Text: console.c.
      Line_Lemmas: the line discipline with the console as its output. Ring: the ring buffer of terminals and pipes.
    \<^item> Kmalloc, Kmalloc_Words, Kmalloc_Inv, Kmalloc_Lemmas: lib/malloc.c. Strings, C_Bytes, Strings_Lemmas:
      lib/string.c. Ctype, Ctype_Lemmas: lib/ctype.c. Vsprintf, Vsprintf_Lemmas: vsprintf.c.
    \<^item> Descriptors: head.h, asm/system.h, the descriptor macros of sched.h, the gates of \<open>trap_init\<close> and of
      the drivers, \<open>sched_init\<close>. Traps: printk.c, traps.c, panic.c, math_emulate.c, the task list of sched.c.
    \<^item> Syscalls, Syscall_Lemmas: unistd.h, linux/sys.h, kernel/system_call.s, the stubs of lib/. The whole
      table of 72 calls is \<open>run_call\<close>, which puts the functions of the other theories behind their numbers.
    \<^item> Boot, Boot_Lemmas: init/main.c, the initial values of the variables, the initialisers of the drivers.

  \<^bold>\<open>Interfaces.\<close> \<open>block_reader\<close> and \<open>block_writer\<close> (Buffer_View, Buffer_Write) are what a client may rely on
  when it reads and changes blocks, interpreted on \<open>bread\<close> and \<open>brelse\<close> of the model; the lemmas on disk inodes
  are proved from them. \<open>ring\<close> and \<open>fifo\<close> (Ring) are interpreted on the terminal queues and on
  pipes. \<open>allocator\<close> (Kmalloc_Lemmas) is what the heap promises, interpreted on \<open>malloc\<close> and \<open>kfree\<close>.
  \<open>line_output\<close> (Tty_Lemmas) is what the line discipline needs of an output routine, interpreted on the serial
  lines and, in Line_Lemmas, on the console.

  \<^bold>\<open>What is shown.\<close> The lemmas of a component are its invariant, that every operation keeps it, and what the
  operations do on every path the statement names. The groups:
    \<^item> Memory: the allocator, copy on write, mapping a page, and that \<open>exit\<close> undoes the counting of \<open>fork\<close>.
    \<^item> Cache: shape, lookup, reuse in the order of last use, refinement of an abstract disk; the RAM disk
      driver refines the same contract. Queue: one turn of the elevator at most.
    \<^item> Drivers: a read of a block against the documented behaviour of controller and DMA channel, giving up
      after errors, the ranges of the variables of the floppy driver against any controller.
    \<^item> Files: \<open>file_read\<close> delivers the bytes of the file; disk inodes, their write back, pipes, bit maps.
    \<^item> Processes: \<open>fork\<close> makes a child and counts what it shares, \<open>exit\<close> gives it back and leaves a zombie,
      \<open>waitpid\<close> reaps it; the scheduler ends and chooses right, a wake up reaches all sleepers, in what cases one is lost,
      the stack of a program.
    \<^item> Terminals: the line discipline as an editor, the console stays in its memory and shows its text.
    \<^item> Library: heap, strings, numbers in formats, calendar.
    \<^item> Entry: a stub gives back what the function of the table returned, or \<open>errno\<close>; signal frames; the kernel
      is not preempted; descriptors and gates.
    \<^item> Start: \<open>main\<close> divides the memory without overlap and leaves the tables in the states the others begin in.

  \<^bold>\<open>Bounds and fuel.\<close> Recursion the kernel stack bounds has a depth and the stop value \<open>Deep\<close>: \<open>getblk\<close> 8,
  \<open>con_write\<close> its argument; where a theorem says that a function returns, it is proved for the depth in
  use. \<open>fd_request\<close> has depth 2, which lemma \<open>fd_request_depth\<close> shows to be as good as any greater one. Loops
  over arrays have the length of the array as fuel, loops over bytes their number; a walk along a list
  longer than its table is a cycle. Loops that need not end are \<open>partial_function\<close> (\<open>sched_loop\<close>,
  \<open>wait_for\<close>) or end with \<open>Hang\<close>. Loops that use up a measure are \<open>function\<close> with a termination proof.

  \<^bold>\<open>Parameters.\<close> The disk controllers are a \<open>device\<close>, any function from the history of port accesses to what
  the next read gives; theorems that need more name it: \<open>serves\<close> gives data only after a READ and for the
  sectors asked for, \<open>fdc_ok\<close> only with rate, SPECIFY bytes, motor and head as the disk needs them. What
  other tasks do while \<open>waitpid\<close> has given the processor away is the argument of \<open>waitpid_by\<close>; in Wait_Queue
  it is any step that does not stop a task inside the queue. The contents
  of the disks under the cache are the field \<open>disk\<close>. What page faults bring into the memory of a new
  program is \<open>img\<close>, the unused bytes of structures copied to user memory are arguments, as are the values
  setup.s leaves for \<open>main\<close> and the addresses of assembly handlers.

  \<^bold>\<open>Hypotheses that exclude something.\<close> Block numbers whose byte address (RAM disk) or last sector (floppy)
  wraps in 32 bits; priorities from 2^30 on, which \<open>sys_nice\<close> does not prevent (\<open>slices_ok\<close>); argument strings
  that do not fit below the byte where \<open>copy_strings\<close> starts, where its test cannot stop it; for the line
  discipline a console inside an escape sequence and the byte whose echo starts one; \<open>iput\<close> of an inode
  without links, a pipe or a block device. The text before each theorem says which it has.

  \<^bold>\<open>Not modelled.\<close> The assembly of boot/, kernel/asm.s, mm/page.s, kb.S and rs_io.s, which loads the kernel or
  saves registers around C functions; tools/, which runs on the host. Of the C code: the instructions that
  load the task register and the local table, the saved state of the coprocessor, \<open>cli\<close> and \<open>sti\<close> (an
  operation is one step, and interleaving is at the points where it sleeps: Wait_Queue, the interrupt
  handlers of Hd and Floppy, \<open>timer_interrupt\<close>); the messages \<open>printk\<close> writes inside other components; after
  a sleep the rest of an operation, whose result is \<open>Sleep\<close>, except in Sched and Wait_Queue, which treat
  sleeping itself. Page faults on user memory leave no trace in \<open>umem\<close>. The functions \<open>do_timer\<close> calls act on
  the timers only (those of the floppy driver are run by its own clock), and \<open>sys_waitpid\<close> in \<open>run_call\<close> comes
  back only if the scheduler chooses the caller again. Constants and prototypes no code
  of the repository uses have no counterpart.
\<close>

end
